(* ===== verification/Prelude.thy ===== *)
theory Prelude
  imports Main "HOL-Library.Word" "HOL-Library.Monad_Syntax"
begin

text \<open>
  What the components share: the widths of the C types, the little-endian split of a 16-bit
  value into the two bytes the drivers send, the polling loop, and the named collections that
  carry the component proofs. A computation that touches the outside world has the type
  \<open>'d \<Rightarrow> ('a \<times> 'd) option\<close>: it takes the state of everything outside the function and returns
  its result with the new state; \<open>None\<close> means that the call never returns (a loop that waits
  for ever, a failed \<open>configASSERT\<close>, which disables interrupts and spins).
\<close>

unbundle bit_operations_syntax

type_synonym u8 = "8 word"
type_synonym u16 = "16 word"
type_synonym u32 = "32 word"

text \<open>Memory seen through a byte pointer: the byte at each offset.\<close>

type_synonym bytes_at = "nat \<Rightarrow> u8"

named_theorems wire_simps \<open>the primitives of the driver as frames on the wire\<close>
named_theorems reg_simps \<open>what a primitive does to the register view of the chip\<close>

section \<open>Little-endian halves of a 16-bit value\<close>

definition lo8 :: "u16 \<Rightarrow> u8" where
  "lo8 v = ucast (v AND 0xFF)"

definition hi8 :: "u16 \<Rightarrow> u8" where
  "hi8 v = ucast (drop_bit 8 v AND 0xFF)"

definition le16 :: "u8 \<Rightarrow> u8 \<Rightarrow> u16" where
  "le16 lo hi = ucast lo OR push_bit 8 (ucast hi)"

lemma mask_FF: "(0xFF :: u16) = mask 8"
  by (simp add: mask_eq_exp_minus_1)

lemma bit_lo8: "bit (lo8 v) n \<longleftrightarrow> n < 8 \<and> bit v n"
  by (auto simp: lo8_def mask_FF bit_simps)

lemma bit_hi8: "bit (hi8 v) n \<longleftrightarrow> n < 8 \<and> bit v (n + 8)"
  by (auto simp: hi8_def mask_FF bit_simps add.commute)

lemma bit_le16: "bit (le16 lo hi) n \<longleftrightarrow> (if n < 8 then bit lo n else n < 16 \<and> bit hi (n - 8))"
  by (auto simp: le16_def bit_simps dest: bit_imp_le_length)

lemma le16_lo8_hi8 [simp]: "le16 (lo8 v) (hi8 v) = v"
  by (rule bit_word_eqI) (auto simp: bit_le16 bit_lo8 bit_hi8 dest: bit_imp_le_length)

lemma lo8_le16 [simp]: "lo8 (le16 lo hi) = lo"
  by (rule bit_word_eqI) (auto simp: bit_le16 bit_lo8)

lemma hi8_le16 [simp]: "hi8 (le16 lo hi) = hi"
  by (rule bit_word_eqI) (auto simp: bit_le16 bit_hi8)

lemma le16_inject: "le16 a b = le16 c d \<longleftrightarrow> a = c \<and> b = d"
  by (metis lo8_le16 hi8_le16)

lemma unat_le16: "unat (le16 lo hi) = unat lo + 256 * unat hi"
proof -
  have "uint (le16 lo hi) = uint lo OR push_bit 8 (uint hi)"
    by (rule bit_eqI) (auto simp: bit_le16 bit_simps bit_uint_iff dest: bit_imp_le_length)
  moreover have "uint lo AND push_bit 8 (uint hi) = 0"
    by (rule bit_eqI) (auto simp: bit_simps bit_uint_iff dest: bit_imp_le_length)
  ultimately have "uint (le16 lo hi) = uint lo + push_bit 8 (uint hi)"
    by (simp add: disjunctive_add_eq_or)
  then have "uint (le16 lo hi) = uint lo + 256 * uint hi"
    by (simp add: push_bit_eq_mult)
  then have "int (unat (le16 lo hi)) = int (unat lo + 256 * unat hi)"
    by simp
  then show ?thesis
    by (simp only: of_nat_eq_iff)
qed

lemma u32_bound: "unat x < 4294967296" for x :: u32
  by (rule order_less_le_trans [OF unsigned_less]) simp

lemma u32_le_max: "x \<le> 0xFFFFFFFF" for x :: u32
  using u32_bound [of x] by (simp add: word_le_nat_alt)

section \<open>Positions in a circular buffer\<close>

lemma mod_shift_less:
  assumes "(a + i) mod n = (a + j) mod n" "i \<le> j" "j < (n :: nat)"
  shows "i = j"
proof -
  have "n dvd (a + j) - (a + i)"
    using assms(1,2) mod_eq_dvd_iff_nat [of "a + i" "a + j" n] by simp
  then show ?thesis
    using assms(2,3) nat_dvd_not_less [of "j - i" n] by fastforce
qed

lemma mod_shift_inj:
  "(a + i) mod n = (a + j) mod n \<Longrightarrow> i < n \<Longrightarrow> j < n \<Longrightarrow> i = j" for n :: nat
  using mod_shift_less [of a i n j] mod_shift_less [of a j n i] by (cases "i \<le> j") simp_all

section \<open>Waiting for the hardware\<close>

text \<open>
  The loop \<open>while (p (rd ())) { }\<close> over a read that may change the state of the device:
  the way every wait of the driver is written. It never returns if the condition stays true.
\<close>

partial_function (option) wait_while ::
  "('v \<Rightarrow> bool) \<Rightarrow> ('d \<Rightarrow> ('v \<times> 'd) option) \<Rightarrow> 'd \<Rightarrow> 'd option" where
  "wait_while p rd d =
     Option.bind (rd d) (\<lambda>r. if p (fst r) then wait_while p rd (snd r) else Some (snd r))"

text \<open>The reads leave the loop after at most \<open>n\<close> further rounds.\<close>

fun ready_within :: "('v \<Rightarrow> bool) \<Rightarrow> ('d \<Rightarrow> ('v \<times> 'd) option) \<Rightarrow> nat \<Rightarrow> 'd \<Rightarrow> bool" where
  "ready_within p rd 0 d = (case rd d of None \<Rightarrow> False | Some (v, d') \<Rightarrow> \<not> p v)"
| "ready_within p rd (Suc n) d =
     (case rd d of None \<Rightarrow> False | Some (v, d') \<Rightarrow> p v \<longrightarrow> ready_within p rd n d')"

lemma wait_while_returns: "ready_within p rd n d \<Longrightarrow> \<exists>d'. wait_while p rd d = Some d'"
proof (induction n arbitrary: d)
  case 0
  then show ?case by (auto simp: wait_while.simps [of p rd d] split: option.splits)
next
  case (Suc n)
  then show ?case by (auto simp: wait_while.simps [of p rd d] split: option.splits)
qed

text \<open>
  Partial correctness: what every round of the loop keeps holds before the read that left it; an
  invariant of the read is an invariant of the loop.
\<close>

lemma wait_while_last:
  assumes ret: "wait_while p rd d = Some d'"
    and start: "I d"
    and step: "\<And>e v e'. I e \<Longrightarrow> rd e = Some (v, e') \<Longrightarrow> p v \<Longrightarrow> I e'"
  shows "\<exists>e v. I e \<and> rd e = Some (v, d') \<and> \<not> p v"
proof -
  let ?post = "\<lambda>p rd d d'. (\<forall>e v e'. I e \<longrightarrow> rd e = Some (v, e') \<longrightarrow> p v \<longrightarrow> I e') \<longrightarrow> I d \<longrightarrow>
    (\<exists>e v. I e \<and> rd e = Some (v, d') \<and> \<not> p v)"
  have "?post p rd d d'"
  proof (rule wait_while.raw_induct [where P = ?post, OF _ ret])
    fix f p' rd' e r
    assume IH: "\<And>p rd d d'. f p rd d = Some d' \<Longrightarrow> ?post p rd d d'"
      and eq: "Option.bind (rd' e) (\<lambda>x. if p' (fst x) then f p' rd' (snd x) else Some (snd x)) = Some r"
    from eq obtain v e' where rd: "rd' e = Some (v, e')" by (cases "rd' e") auto
    show "?post p' rd' e r"
    proof (intro impI)
      assume step: "\<forall>e v e'. I e \<longrightarrow> rd' e = Some (v, e') \<longrightarrow> p' v \<longrightarrow> I e'" and I: "I e"
      show "\<exists>e v. I e \<and> rd' e = Some (v, r) \<and> \<not> p' v"
      proof (cases "p' v")
        case True
        with eq rd have "f p' rd' e' = Some r" by simp
        from IH [OF this] step I rd True show ?thesis by blast
      qed (use eq rd I in auto)
    qed
  qed
  with start step show ?thesis by blast
qed

lemma wait_while_invariant:
  assumes ret: "wait_while p rd d = Some d'"
    and start: "I d"
    and step: "\<And>e v e'. I e \<Longrightarrow> rd e = Some (v, e') \<Longrightarrow> I e'"
  shows "I d' \<and> (\<exists>e v. I e \<and> rd e = Some (v, d') \<and> \<not> p v)"
  using wait_while_last [where I = I, OF ret start] step by blast

section \<open>Numbers as 32-bit words\<close>

lemma u32_of_nat: "n < 2 ^ 32 \<Longrightarrow> unat (of_nat n :: u32) = n"
  by (simp add: unat_of_nat)

lemma u32_nat_inject: "a < 2 ^ 32 \<Longrightarrow> b < 2 ^ 32 \<Longrightarrow> (of_nat a :: u32) = of_nat b \<longleftrightarrow> a = b"
  by (metis u32_of_nat)

lemma byte_u32: "(ucast (ucast (b :: u8) :: u32) :: u8) = b"
  by (rule bit_word_eqI) (simp add: bit_simps)

section \<open>Counted loops\<close>

text \<open>\<open>for (i = \<dots>) { body }\<close> over the values the counter takes, in order.\<close>

fun for_each :: "'i list \<Rightarrow> ('i \<Rightarrow> 'd \<Rightarrow> 'd option) \<Rightarrow> 'd \<Rightarrow> 'd option" where
  "for_each [] body d = Some d"
| "for_each (i # is) body d = do { d \<leftarrow> body i d; for_each is body d }"

lemma for_each_invariant:
  assumes "for_each is body d = Some d'" and "I d"
    and step: "\<And>i d d'. i \<in> set is \<Longrightarrow> I d \<Longrightarrow> body i d = Some d' \<Longrightarrow> I d'"
  shows "I d'"
  using assms
proof (induction "is" arbitrary: d)
  case (Cons i "is")
  from Cons.prems(1) obtain e where e: "body i d = Some e" "for_each is body e = Some d'"
    by (auto simp: Option.bind_eq_Some_conv)
  have "I e" using Cons.prems(3) [OF _ Cons.prems(2) e(1)] by simp
  from Cons.IH [OF e(2) this] show ?case by (blast intro: Cons.prems(3) list.set_intros(2))
qed simp

section \<open>Partial correctness of sequences\<close>

text \<open>
  \<open>triple P m Q\<close>: whenever \<open>m\<close> returns from a state with \<open>P\<close>, the state it leaves has \<open>Q\<close>;
  \<open>triple_val\<close> is the same for computations with a result. Used forwards, with the
  postcondition left open, the sequencing rules compute what a block of driver code does.
\<close>

definition triple :: "('d \<Rightarrow> bool) \<Rightarrow> ('d \<Rightarrow> 'd option) \<Rightarrow> ('d \<Rightarrow> bool) \<Rightarrow> bool" where
  "triple P m Q \<longleftrightarrow> (\<forall>d d'. P d \<longrightarrow> m d = Some d' \<longrightarrow> Q d')"

definition triple_val ::
  "('d \<Rightarrow> bool) \<Rightarrow> ('d \<Rightarrow> ('a \<times> 'd) option) \<Rightarrow> ('a \<Rightarrow> 'd \<Rightarrow> bool) \<Rightarrow> bool" where
  "triple_val P m Q \<longleftrightarrow> (\<forall>d v d'. P d \<longrightarrow> m d = Some (v, d') \<longrightarrow> Q v d')"

lemma tripleD: "triple P m Q \<Longrightarrow> m d = Some d' \<Longrightarrow> P d \<Longrightarrow> Q d'"
  by (auto simp: triple_def)

lemma triple_valD: "triple_val P m Q \<Longrightarrow> m d = Some (v, d') \<Longrightarrow> P d \<Longrightarrow> Q v d'"
  by (auto simp: triple_val_def)

lemma triple_bind:
  "triple P f R \<Longrightarrow> triple R g Q \<Longrightarrow> triple P (\<lambda>d. Option.bind (f d) g) Q"
  by (auto simp: triple_def Option.bind_eq_Some_conv)

lemma triple_bind_val:
  "triple_val P f R \<Longrightarrow> (\<And>v. triple (R v) (g v) Q) \<Longrightarrow>
   triple P (\<lambda>d. Option.bind (f d) (\<lambda>(v, d). g v d)) Q"
  by (fastforce simp: triple_def triple_val_def Option.bind_eq_Some_conv)

lemma triple_val_bind:
  "triple P f R \<Longrightarrow> triple_val R g Q \<Longrightarrow> triple_val P (\<lambda>d. Option.bind (f d) g) Q"
  by (auto simp: triple_def triple_val_def Option.bind_eq_Some_conv)

lemma triple_val_bind_val:
  "triple_val P f R \<Longrightarrow> (\<And>v. triple_val (R v) (g v) Q) \<Longrightarrow>
   triple_val P (\<lambda>d. Option.bind (f d) (\<lambda>(v, d). g v d)) Q"
  by (fastforce simp: triple_val_def Option.bind_eq_Some_conv)

lemma triple_Some: "triple P Some P"
  by (simp add: triple_def)

lemma triple_if:
  "triple P f Q \<Longrightarrow> triple P g R \<Longrightarrow>
   triple P (\<lambda>d. if b then f d else g d) (if b then Q else R)"
  by (simp add: triple_def)

lemma triple_conseq: "triple P m Q \<Longrightarrow> (\<And>d. Q d \<Longrightarrow> Q' d) \<Longrightarrow> triple P m Q'"
  by (auto simp: triple_def)

lemma triple_wait:
  assumes "triple_val I rd (\<lambda>_. I)"
  shows "triple I (wait_while p rd) I"
  unfolding triple_def
proof (intro allI impI)
  fix d d' assume "I d" "wait_while p rd d = Some d'"
  from wait_while_invariant [where I = I, OF this(2,1)] show "I d'"
    using assms by (auto simp: triple_val_def)
qed

lemmas triple_seq = triple_bind triple_bind_val triple_val_bind triple_val_bind_val

end
