(* ===== verification/Enc_Hal.thy ===== *)
theory Enc_Hal
  imports Prelude
begin

text \<open>
  The hardware abstraction layer the ENC624J600 driver is written against: the four functions of
  src/include/enc624j600/enc624j600_driver_hal.h as a record of operations on the state of
  everything below the driver. What the header promises of them is the locale \<open>enc_hal\<close>; the
  functions that src/src/main.c defines are shown to be an instance in the theory Board.
\<close>

record 'd hal =
  spi_transfer :: "u8 \<Rightarrow> 'd \<Rightarrow> (u8 \<times> 'd) option"
  cs_assert :: "'d \<Rightarrow> 'd option"
  cs_deassert :: "'d \<Rightarrow> 'd option"
  hal_delay :: "u8 \<Rightarrow> 'd \<Rightarrow> 'd option"

section \<open>Frames\<close>

text \<open>
  One transaction on the SPI bus: chip select low, some bytes exchanged, chip select high. The
  primitives of the driver are all of this shape.
\<close>

fun xfer_all :: "'d hal \<Rightarrow> u8 list \<Rightarrow> 'd \<Rightarrow> (u8 list \<times> 'd) option" where
  "xfer_all h [] d = Some ([], d)"
| "xfer_all h (b # bs) d = do {
     (r, d) \<leftarrow> spi_transfer h b d;
     (rs, d) \<leftarrow> xfer_all h bs d;
     Some (r # rs, d)
   }"

definition spi_frame :: "'d hal \<Rightarrow> u8 list \<Rightarrow> 'd \<Rightarrow> (u8 list \<times> 'd) option" where
  "spi_frame h bs d = do {
     d \<leftarrow> cs_assert h d;
     (rs, d) \<leftarrow> xfer_all h bs d;
     d \<leftarrow> cs_deassert h d;
     Some (rs, d)
   }"

lemma xfer_all_length: "xfer_all h bs d = Some (rs, d') \<Longrightarrow> length rs = length bs"
  by (induction bs arbitrary: d rs d') (auto simp: Option.bind_eq_Some_conv split: prod.splits)

lemma spi_frame_length: "spi_frame h bs d = Some (rs, d') \<Longrightarrow> length rs = length bs"
  by (auto simp: spi_frame_def Option.bind_eq_Some_conv dest: xfer_all_length)

lemma xfer_all_append:
  "xfer_all h (as @ bs) d = do {
     (rs, d) \<leftarrow> xfer_all h as d;
     (ss, d) \<leftarrow> xfer_all h bs d;
     Some (rs @ ss, d)
   }"
  by (induction as arbitrary: d)
    (auto simp: Option.bind_assoc case_prod_beta split: Option.bind_splits)

section \<open>What happens on the bus\<close>

text \<open>The events a bus analyser on chip select and MOSI would record.\<close>

datatype bus_event = CsLow | CsHigh | Mosi u8

definition frame_events :: "u8 list \<Rightarrow> bus_event list" where
  "frame_events bs = CsLow # map Mosi bs @ [CsHigh]"

text \<open>
  A well-formed recording is a sequence of complete frames: chip select is asserted before the
  first byte of each and released after its last, and no byte is clocked outside a frame.
\<close>

definition framed :: "bus_event list \<Rightarrow> bool" where
  "framed es \<longleftrightarrow> (\<exists>fs. es = concat (map frame_events fs))"

lemma framed_Nil [simp]: "framed []"
  unfolding framed_def by (rule exI [of _ "[]"]) simp

lemma framed_frame [simp]: "framed (frame_events bs)"
  unfolding framed_def by (rule exI [of _ "[bs]"]) simp

lemma framed_append: "framed es \<Longrightarrow> framed fs \<Longrightarrow> framed (es @ fs)"
  unfolding framed_def by (metis concat_append map_append)

text \<open>
  If \<open>d\<close> is in order then so is \<open>d'\<close>, which is reached from it by complete frames only.
\<close>

definition extends :: "('d \<Rightarrow> bus_event list) \<Rightarrow> ('d \<Rightarrow> bool) \<Rightarrow> 'd \<Rightarrow> 'd \<Rightarrow> bool" where
  "extends obs ok d d' \<longleftrightarrow> (ok d \<longrightarrow> ok d' \<and> (\<exists>es. framed es \<and> obs d' = obs d @ es))"

lemma extends_refl [simp]: "extends obs ok d d"
  unfolding extends_def by (rule impI, rule conjI, assumption, rule exI [of _ "[]"]) simp

lemma extends_trans: "extends obs ok d e \<Longrightarrow> extends obs ok e f \<Longrightarrow> extends obs ok d f"
  unfolding extends_def by (metis append_assoc framed_append)

lemma extends_frame: "(ok d \<Longrightarrow> ok d' \<and> obs d' = obs d @ frame_events bs) \<Longrightarrow> extends obs ok d d'"
  unfolding extends_def by auto

text \<open>
  The contract of enc624j600_driver_hal.h, as the driver relies on it: on hardware that is set up
  as it should be (\<open>ok\<close>, which every call keeps) asserting and releasing chip select move the line
  and nothing else on the bus, a transfer clocks out exactly the byte it is given, and the delay
  leaves the bus alone.
\<close>

locale enc_hal =
  fixes h :: "'d hal"
    and obs :: "'d \<Rightarrow> bus_event list"
    and ok :: "'d \<Rightarrow> bool"
  assumes cs_assert_obs: "cs_assert h d = Some d' \<Longrightarrow> ok d \<Longrightarrow> ok d' \<and> obs d' = obs d @ [CsLow]"
    and cs_deassert_obs: "cs_deassert h d = Some d' \<Longrightarrow> ok d \<Longrightarrow> ok d' \<and> obs d' = obs d @ [CsHigh]"
    and spi_transfer_obs: "spi_transfer h b d = Some (r, d') \<Longrightarrow> ok d \<Longrightarrow> ok d' \<and> obs d' = obs d @ [Mosi b]"
    and hal_delay_obs: "hal_delay h us d = Some d' \<Longrightarrow> ok d \<Longrightarrow> ok d' \<and> obs d' = obs d"
begin

lemma xfer_all_obs:
  "xfer_all h bs d = Some (rs, d') \<Longrightarrow> ok d \<Longrightarrow> ok d' \<and> obs d' = obs d @ map Mosi bs"
  by (induction bs arbitrary: d rs)
    (fastforce simp: Option.bind_eq_Some_conv dest!: spi_transfer_obs split: prod.splits)+

lemma spi_frame_obs:
  assumes "spi_frame h bs d = Some (rs, d')" "ok d"
  shows "ok d' \<and> obs d' = obs d @ frame_events bs"
proof -
  from assms(1) obtain d1 d2 where "cs_assert h d = Some d1" "xfer_all h bs d1 = Some (rs, d2)"
    "cs_deassert h d2 = Some d'"
    by (auto simp: spi_frame_def Option.bind_eq_Some_conv)
  with assms(2) cs_assert_obs xfer_all_obs cs_deassert_obs show ?thesis
    by (fastforce simp: frame_events_def)
qed

lemma spi_frame_extends: "spi_frame h bs d = Some (rs, d') \<Longrightarrow> extends obs ok d d'"
  by (rule extends_frame) (rule spi_frame_obs)

lemma hal_delay_extends:
  assumes "hal_delay h us d = Some d'"
  shows "extends obs ok d d'"
proof -
  have "framed []" by simp
  with hal_delay_obs [OF assms] show ?thesis unfolding extends_def by (metis append_Nil2)
qed

end

end
