(* ===== verification/Enc_Registers.thy ===== *)
theory Enc_Registers
  imports Prelude
begin

text \<open>
  The constants of src/src/enc624j600/enc624j600_driver.c: the addresses of the unbanked special
  function registers (SFR), the addresses of the PHY registers, the SPI instruction set, and the
  bit masks of every register. Each \<open>#define\<close> is an abbreviation under its own name (the mask
  \<open>INT\<close> of \<open>ESTAT\<close> is \<open>INT_flag\<close>, since \<open>INT\<close> is a keyword of HOL's syntax); each group of
  \<open>#define\<close>s is collected in a table, over which the consistency facts are stated.
\<close>

section \<open>Unbanked SFR addresses\<close>

abbreviation (input) ETXST :: u8 where "ETXST \<equiv> 0x00"
abbreviation (input) ETXLEN :: u8 where "ETXLEN \<equiv> 0x02"
abbreviation (input) ERXST :: u8 where "ERXST \<equiv> 0x04"
abbreviation (input) ERXTAIL :: u8 where "ERXTAIL \<equiv> 0x06"
abbreviation (input) ERXHEAD :: u8 where "ERXHEAD \<equiv> 0x08"
abbreviation (input) EDMAST :: u8 where "EDMAST \<equiv> 0x0A"
abbreviation (input) EDMALEN :: u8 where "EDMALEN \<equiv> 0x0C"
abbreviation (input) EDMADST :: u8 where "EDMADST \<equiv> 0x0E"
abbreviation (input) EDMACS :: u8 where "EDMACS \<equiv> 0x10"
abbreviation (input) ETXSTAT :: u8 where "ETXSTAT \<equiv> 0x12"
abbreviation (input) ETXWIRE :: u8 where "ETXWIRE \<equiv> 0x14"
abbreviation (input) EUDAST :: u8 where "EUDAST \<equiv> 0x16"
abbreviation (input) EUDAND :: u8 where "EUDAND \<equiv> 0x18"
abbreviation (input) ESTAT :: u8 where "ESTAT \<equiv> 0x1A"
abbreviation (input) EIR :: u8 where "EIR \<equiv> 0x1C"
abbreviation (input) ECON1 :: u8 where "ECON1 \<equiv> 0x1E"
abbreviation (input) EHT1 :: u8 where "EHT1 \<equiv> 0x20"
abbreviation (input) EHT2 :: u8 where "EHT2 \<equiv> 0x22"
abbreviation (input) EHT3 :: u8 where "EHT3 \<equiv> 0x24"
abbreviation (input) EHT4 :: u8 where "EHT4 \<equiv> 0x26"
abbreviation (input) EPMM1 :: u8 where "EPMM1 \<equiv> 0x28"
abbreviation (input) EPMM2 :: u8 where "EPMM2 \<equiv> 0x2A"
abbreviation (input) EPMM3 :: u8 where "EPMM3 \<equiv> 0x2C"
abbreviation (input) EPMM4 :: u8 where "EPMM4 \<equiv> 0x2E"
abbreviation (input) EPMCS :: u8 where "EPMCS \<equiv> 0x30"
abbreviation (input) EPMO :: u8 where "EPMO \<equiv> 0x32"
abbreviation (input) ERXFCON :: u8 where "ERXFCON \<equiv> 0x34"
abbreviation (input) MACON1 :: u8 where "MACON1 \<equiv> 0x40"
abbreviation (input) MACON2 :: u8 where "MACON2 \<equiv> 0x42"
abbreviation (input) MABBIPG :: u8 where "MABBIPG \<equiv> 0x44"
abbreviation (input) MAIPG :: u8 where "MAIPG \<equiv> 0x46"
abbreviation (input) MACLCON :: u8 where "MACLCON \<equiv> 0x48"
abbreviation (input) MAMXFL :: u8 where "MAMXFL \<equiv> 0x4A"
abbreviation (input) MICMD :: u8 where "MICMD \<equiv> 0x52"
abbreviation (input) MIREGADR :: u8 where "MIREGADR \<equiv> 0x54"
abbreviation (input) MAADR3 :: u8 where "MAADR3 \<equiv> 0x60"
abbreviation (input) MAADR2 :: u8 where "MAADR2 \<equiv> 0x62"
abbreviation (input) MAADR1 :: u8 where "MAADR1 \<equiv> 0x64"
abbreviation (input) MIWR :: u8 where "MIWR \<equiv> 0x66"
abbreviation (input) MIRD :: u8 where "MIRD \<equiv> 0x68"
abbreviation (input) MISTAT :: u8 where "MISTAT \<equiv> 0x6A"
abbreviation (input) EPAUS :: u8 where "EPAUS \<equiv> 0x6C"
abbreviation (input) ECON2 :: u8 where "ECON2 \<equiv> 0x6E"
abbreviation (input) ERXWM :: u8 where "ERXWM \<equiv> 0x70"
abbreviation (input) EIE :: u8 where "EIE \<equiv> 0x72"
abbreviation (input) EIDLED :: u8 where "EIDLED \<equiv> 0x74"

definition unbanked_sfrs :: "u8 list" where
  "unbanked_sfrs = [ETXST, ETXLEN, ERXST, ERXTAIL, ERXHEAD, EDMAST, EDMALEN, EDMADST, EDMACS,
     ETXSTAT, ETXWIRE, EUDAST, EUDAND, ESTAT, EIR, ECON1, EHT1, EHT2, EHT3, EHT4, EPMM1, EPMM2,
     EPMM3, EPMM4, EPMCS, EPMO, ERXFCON, MACON1, MACON2, MABBIPG, MAIPG, MACLCON, MAMXFL,
     MICMD, MIREGADR, MAADR3, MAADR2, MAADR1, MIWR, MIRD, MISTAT, EPAUS, ECON2, ERXWM, EIE,
     EIDLED]"

section \<open>PHY register addresses\<close>

abbreviation (input) PHCON1 :: u8 where "PHCON1 \<equiv> 0x00"
abbreviation (input) PHSTAT1 :: u8 where "PHSTAT1 \<equiv> 0x01"
abbreviation (input) PHANA :: u8 where "PHANA \<equiv> 0x04"
abbreviation (input) PHANLPA :: u8 where "PHANLPA \<equiv> 0x05"
abbreviation (input) PHANE :: u8 where "PHANE \<equiv> 0x06"
abbreviation (input) PHCON2 :: u8 where "PHCON2 \<equiv> 0x11"
abbreviation (input) PHSTAT2 :: u8 where "PHSTAT2 \<equiv> 0x1B"
abbreviation (input) PHSTAT3 :: u8 where "PHSTAT3 \<equiv> 0x1F"

definition phy_sfrs :: "u8 list" where
  "phy_sfrs = [PHCON1, PHSTAT1, PHANA, PHANLPA, PHANE, PHCON2, PHSTAT2, PHSTAT3]"

section \<open>SPI instruction set\<close>

abbreviation (input) B0SEL :: u8 where "B0SEL \<equiv> 0xC0"
abbreviation (input) B1SEL :: u8 where "B1SEL \<equiv> 0xC2"
abbreviation (input) B2SEL :: u8 where "B2SEL \<equiv> 0xC4"
abbreviation (input) B3SEL :: u8 where "B3SEL \<equiv> 0xC6"
abbreviation (input) SETETHRST :: u8 where "SETETHRST \<equiv> 0xCA"
abbreviation (input) FCDISABLE :: u8 where "FCDISABLE \<equiv> 0xE0"
abbreviation (input) FCSINGLE :: u8 where "FCSINGLE \<equiv> 0xE2"
abbreviation (input) FCMULTIPLE :: u8 where "FCMULTIPLE \<equiv> 0xE4"
abbreviation (input) FCCLEAR :: u8 where "FCCLEAR \<equiv> 0xE6"
abbreviation (input) SETPKTDEC :: u8 where "SETPKTDEC \<equiv> 0xCC"
abbreviation (input) DMASTOP :: u8 where "DMASTOP \<equiv> 0xD2"
abbreviation (input) DMACKSUM :: u8 where "DMACKSUM \<equiv> 0xD8"
abbreviation (input) DMACKSUMS :: u8 where "DMACKSUMS \<equiv> 0xDA"
abbreviation (input) DMACOPY :: u8 where "DMACOPY \<equiv> 0xDC"
abbreviation (input) DMACOPYS :: u8 where "DMACOPYS \<equiv> 0xDE"
abbreviation (input) SETTXRTS :: u8 where "SETTXRTS \<equiv> 0xD4"
abbreviation (input) ENABLERX :: u8 where "ENABLERX \<equiv> 0xE8"
abbreviation (input) DISABLERX :: u8 where "DISABLERX \<equiv> 0xEA"
abbreviation (input) SETEIE :: u8 where "SETEIE \<equiv> 0xEC"
abbreviation (input) CLREIE :: u8 where "CLREIE \<equiv> 0xEE"
abbreviation (input) RBSEL :: u8 where "RBSEL \<equiv> 0xC8"
abbreviation (input) WGPRDPT :: u8 where "WGPRDPT \<equiv> 0x60"
abbreviation (input) RGPRDPT :: u8 where "RGPRDPT \<equiv> 0x62"
abbreviation (input) WRXRDPT :: u8 where "WRXRDPT \<equiv> 0x64"
abbreviation (input) RRXRDPT :: u8 where "RRXRDPT \<equiv> 0x66"
abbreviation (input) WUDARDPT :: u8 where "WUDARDPT \<equiv> 0x68"
abbreviation (input) RUDARDPT :: u8 where "RUDARDPT \<equiv> 0x6A"
abbreviation (input) WGPWRPT :: u8 where "WGPWRPT \<equiv> 0x6C"
abbreviation (input) RGPWRPT :: u8 where "RGPWRPT \<equiv> 0x6E"
abbreviation (input) WRXWRPT :: u8 where "WRXWRPT \<equiv> 0x70"
abbreviation (input) RRXWRPT :: u8 where "RRXWRPT \<equiv> 0x72"
abbreviation (input) WUDAWRPT :: u8 where "WUDAWRPT \<equiv> 0x74"
abbreviation (input) RUDAWRPT :: u8 where "RUDAWRPT \<equiv> 0x76"
abbreviation (input) RCRU :: u8 where "RCRU \<equiv> 0x20"
abbreviation (input) WCRU :: u8 where "WCRU \<equiv> 0x22"
abbreviation (input) BFSU :: u8 where "BFSU \<equiv> 0x24"
abbreviation (input) BFCU :: u8 where "BFCU \<equiv> 0x26"
abbreviation (input) RGPDATA :: u8 where "RGPDATA \<equiv> 0x28"
abbreviation (input) WGPDATA :: u8 where "WGPDATA \<equiv> 0x2A"
abbreviation (input) RRXDATA :: u8 where "RRXDATA \<equiv> 0x2C"
abbreviation (input) WRXDATA :: u8 where "WRXDATA \<equiv> 0x2E"
abbreviation (input) RUDADATA :: u8 where "RUDADATA \<equiv> 0x30"
abbreviation (input) WUDADATA :: u8 where "WUDADATA \<equiv> 0x32"

definition single_byte_opcodes :: "u8 list" where
  "single_byte_opcodes = [B0SEL, B1SEL, B2SEL, B3SEL, SETETHRST, FCDISABLE, FCSINGLE,
     FCMULTIPLE, FCCLEAR, SETPKTDEC, DMASTOP, DMACKSUM, DMACKSUMS, DMACOPY, DMACOPYS, SETTXRTS,
     ENABLERX, DISABLERX, SETEIE, CLREIE]"

definition pointer_opcodes :: "u8 list" where
  "pointer_opcodes = [WGPRDPT, RGPRDPT, WRXRDPT, RRXRDPT, WUDARDPT, RUDARDPT, WGPWRPT, RGPWRPT,
     WRXWRPT, RRXWRPT, WUDAWRPT, RUDAWRPT]"

definition unbanked_opcodes :: "u8 list" where
  "unbanked_opcodes = [RCRU, WCRU, BFSU, BFCU]"

definition sram_opcodes :: "u8 list" where
  "sram_opcodes = [RGPDATA, WGPDATA, RRXDATA, WRXDATA, RUDADATA, WUDADATA]"

section \<open>Register bit masks\<close>

text \<open>ETXSTAT\<close>

abbreviation (input) COLCNT0 :: u16 where "COLCNT0 \<equiv> 0x0001"
abbreviation (input) COLCNT1 :: u16 where "COLCNT1 \<equiv> 0x0002"
abbreviation (input) COLCNT2 :: u16 where "COLCNT2 \<equiv> 0x0004"
abbreviation (input) COLCNT3 :: u16 where "COLCNT3 \<equiv> 0x0008"
abbreviation (input) CRCBAD :: u16 where "CRCBAD \<equiv> 0x0010"
abbreviation (input) DEFER :: u16 where "DEFER \<equiv> 0x0080"
abbreviation (input) EXDEFER :: u16 where "EXDEFER \<equiv> 0x0100"
abbreviation (input) MAXCOL :: u16 where "MAXCOL \<equiv> 0x0200"
abbreviation (input) LATECOL :: u16 where "LATECOL \<equiv> 0x0400"

definition ETXSTAT_masks :: "u16 list" where
  "ETXSTAT_masks = [COLCNT0, COLCNT1, COLCNT2, COLCNT3, CRCBAD, DEFER, EXDEFER, MAXCOL,
     LATECOL]"

text \<open>ESTAT\<close>

abbreviation (input) PKTCNT0 :: u16 where "PKTCNT0 \<equiv> 0x0001"
abbreviation (input) PKTCNT1 :: u16 where "PKTCNT1 \<equiv> 0x0002"
abbreviation (input) PKTCNT2 :: u16 where "PKTCNT2 \<equiv> 0x0004"
abbreviation (input) PKTCNT3 :: u16 where "PKTCNT3 \<equiv> 0x0008"
abbreviation (input) PKTCNT4 :: u16 where "PKTCNT4 \<equiv> 0x0010"
abbreviation (input) PKTCNT5 :: u16 where "PKTCNT5 \<equiv> 0x0020"
abbreviation (input) PKTCNT6 :: u16 where "PKTCNT6 \<equiv> 0x0040"
abbreviation (input) PKTCNT7 :: u16 where "PKTCNT7 \<equiv> 0x0080"
abbreviation (input) PHYLNK :: u16 where "PHYLNK \<equiv> 0x0100"
abbreviation (input) PHYDPX :: u16 where "PHYDPX \<equiv> 0x0400"
abbreviation (input) CLKRDY :: u16 where "CLKRDY \<equiv> 0x1000"
abbreviation (input) RXBUSY :: u16 where "RXBUSY \<equiv> 0x2000"
abbreviation (input) FCIDLE :: u16 where "FCIDLE \<equiv> 0x4000"
abbreviation (input) INT_flag :: u16 where "INT_flag \<equiv> 0x8000"

definition ESTAT_masks :: "u16 list" where
  "ESTAT_masks = [PKTCNT0, PKTCNT1, PKTCNT2, PKTCNT3, PKTCNT4, PKTCNT5, PKTCNT6, PKTCNT7,
     PHYLNK, PHYDPX, CLKRDY, RXBUSY, FCIDLE, INT_flag]"

text \<open>EIR\<close>

abbreviation (input) PCFULIF :: u16 where "PCFULIF \<equiv> 0x0001"
abbreviation (input) RXABTIF :: u16 where "RXABTIF \<equiv> 0x0002"
abbreviation (input) TXABTIF :: u16 where "TXABTIF \<equiv> 0x0004"
abbreviation (input) TXIF :: u16 where "TXIF \<equiv> 0x0008"
abbreviation (input) DMAIF :: u16 where "DMAIF \<equiv> 0x0020"
abbreviation (input) PKTIF :: u16 where "PKTIF \<equiv> 0x0040"
abbreviation (input) LINKIF :: u16 where "LINKIF \<equiv> 0x0800"
abbreviation (input) AESIF :: u16 where "AESIF \<equiv> 0x1000"
abbreviation (input) HASHIF :: u16 where "HASHIF \<equiv> 0x2000"
abbreviation (input) MODEXIF :: u16 where "MODEXIF \<equiv> 0x4000"
abbreviation (input) CRYPTEN :: u16 where "CRYPTEN \<equiv> 0x8000"

definition EIR_masks :: "u16 list" where
  "EIR_masks = [PCFULIF, RXABTIF, TXABTIF, TXIF, DMAIF, PKTIF, LINKIF, AESIF, HASHIF, MODEXIF,
     CRYPTEN]"

text \<open>ECON1\<close>

abbreviation (input) RXEN :: u16 where "RXEN \<equiv> 0x0001"
abbreviation (input) TXRTS :: u16 where "TXRTS \<equiv> 0x0002"
abbreviation (input) DMANOCS :: u16 where "DMANOCS \<equiv> 0x0004"
abbreviation (input) DMACSSD :: u16 where "DMACSSD \<equiv> 0x0008"
abbreviation (input) DMACPY :: u16 where "DMACPY \<equiv> 0x0010"
abbreviation (input) DMAST :: u16 where "DMAST \<equiv> 0x0020"
abbreviation (input) FCOP0 :: u16 where "FCOP0 \<equiv> 0x0040"
abbreviation (input) FCOP1 :: u16 where "FCOP1 \<equiv> 0x0080"
abbreviation (input) PKTDEC :: u16 where "PKTDEC \<equiv> 0x0100"
abbreviation (input) AESOP0 :: u16 where "AESOP0 \<equiv> 0x0200"
abbreviation (input) AESOP1 :: u16 where "AESOP1 \<equiv> 0x0400"
abbreviation (input) AESST :: u16 where "AESST \<equiv> 0x0800"
abbreviation (input) HASHLST :: u16 where "HASHLST \<equiv> 0x1000"
abbreviation (input) HASHOP :: u16 where "HASHOP \<equiv> 0x2000"
abbreviation (input) HASHEN :: u16 where "HASHEN \<equiv> 0x4000"
abbreviation (input) MODEXST :: u16 where "MODEXST \<equiv> 0x8000"

definition ECON1_masks :: "u16 list" where
  "ECON1_masks = [RXEN, TXRTS, DMANOCS, DMACSSD, DMACPY, DMAST, FCOP0, FCOP1, PKTDEC, AESOP0,
     AESOP1, AESST, HASHLST, HASHOP, HASHEN, MODEXST]"

text \<open>ERXFCON\<close>

abbreviation (input) BCEN :: u16 where "BCEN \<equiv> 0x0001"
abbreviation (input) MCEN :: u16 where "MCEN \<equiv> 0x0002"
abbreviation (input) NOTMEEN :: u16 where "NOTMEEN \<equiv> 0x0004"
abbreviation (input) UCEN :: u16 where "UCEN \<equiv> 0x0008"
abbreviation (input) RUNTEN :: u16 where "RUNTEN \<equiv> 0x0010"
abbreviation (input) RUNTEEN :: u16 where "RUNTEEN \<equiv> 0x0020"
abbreviation (input) CRCEN :: u16 where "CRCEN \<equiv> 0x0040"
abbreviation (input) CRCEEN :: u16 where "CRCEEN \<equiv> 0x0080"
abbreviation (input) PMEN0 :: u16 where "PMEN0 \<equiv> 0x0100"
abbreviation (input) PMEN1 :: u16 where "PMEN1 \<equiv> 0x0200"
abbreviation (input) PMEN2 :: u16 where "PMEN2 \<equiv> 0x0400"
abbreviation (input) PMEN3 :: u16 where "PMEN3 \<equiv> 0x0800"
abbreviation (input) NOTPM :: u16 where "NOTPM \<equiv> 0x1000"
abbreviation (input) MPEN :: u16 where "MPEN \<equiv> 0x4000"
abbreviation (input) HTEN :: u16 where "HTEN \<equiv> 0x8000"

definition ERXFCON_masks :: "u16 list" where
  "ERXFCON_masks = [BCEN, MCEN, NOTMEEN, UCEN, RUNTEN, RUNTEEN, CRCEN, CRCEEN, PMEN0, PMEN1,
     PMEN2, PMEN3, NOTPM, MPEN, HTEN]"

text \<open>MACON1\<close>

abbreviation (input) PASSALL :: u16 where "PASSALL \<equiv> 0x0002"
abbreviation (input) RXPAUS :: u16 where "RXPAUS \<equiv> 0x0004"
abbreviation (input) LOOPBK :: u16 where "LOOPBK \<equiv> 0x0010"

definition MACON1_masks :: "u16 list" where
  "MACON1_masks = [PASSALL, RXPAUS, LOOPBK]"

text \<open>MACON2\<close>

abbreviation (input) FULDPX :: u16 where "FULDPX \<equiv> 0x0001"
abbreviation (input) HFRMEN :: u16 where "HFRMEN \<equiv> 0x0004"
abbreviation (input) PHDREN :: u16 where "PHDREN \<equiv> 0x0008"
abbreviation (input) TXCRCEN :: u16 where "TXCRCEN \<equiv> 0x0010"
abbreviation (input) PADCFG0 :: u16 where "PADCFG0 \<equiv> 0x0020"
abbreviation (input) PADCFG1 :: u16 where "PADCFG1 \<equiv> 0x0040"
abbreviation (input) PADCFG2 :: u16 where "PADCFG2 \<equiv> 0x0080"
abbreviation (input) NOBKOFF :: u16 where "NOBKOFF \<equiv> 0x1000"
abbreviation (input) BPEN :: u16 where "BPEN \<equiv> 0x2000"
abbreviation (input) MACDEFER :: u16 where "MACDEFER \<equiv> 0x4000"

definition MACON2_masks :: "u16 list" where
  "MACON2_masks = [FULDPX, HFRMEN, PHDREN, TXCRCEN, PADCFG0, PADCFG1, PADCFG2, NOBKOFF, BPEN,
     MACDEFER]"

text \<open>MACLCON\<close>

abbreviation (input) MAXRET0 :: u16 where "MAXRET0 \<equiv> 0x0001"
abbreviation (input) MAXRET1 :: u16 where "MAXRET1 \<equiv> 0x0002"
abbreviation (input) MAXRET2 :: u16 where "MAXRET2 \<equiv> 0x0004"
abbreviation (input) MAXRET3 :: u16 where "MAXRET3 \<equiv> 0x0008"

definition MACLCON_masks :: "u16 list" where
  "MACLCON_masks = [MAXRET0, MAXRET1, MAXRET2, MAXRET3]"

text \<open>MICMD\<close>

abbreviation (input) MIIRD :: u16 where "MIIRD \<equiv> 0x0001"
abbreviation (input) MIISCAN :: u16 where "MIISCAN \<equiv> 0x0002"

definition MICMD_masks :: "u16 list" where
  "MICMD_masks = [MIIRD, MIISCAN]"

text \<open>MISTAT\<close>

abbreviation (input) BUSY :: u16 where "BUSY \<equiv> 0x0001"
abbreviation (input) SCAN :: u16 where "SCAN \<equiv> 0x0002"
abbreviation (input) NVALID :: u16 where "NVALID \<equiv> 0x0004"

definition MISTAT_masks :: "u16 list" where
  "MISTAT_masks = [BUSY, SCAN, NVALID]"

text \<open>ECON2\<close>

abbreviation (input) AESLEN0 :: u16 where "AESLEN0 \<equiv> 0x0001"
abbreviation (input) AESLEN1 :: u16 where "AESLEN1 \<equiv> 0x0002"
abbreviation (input) MODLEN0 :: u16 where "MODLEN0 \<equiv> 0x0004"
abbreviation (input) MODLEN1 :: u16 where "MODLEN1 \<equiv> 0x0008"
abbreviation (input) ETHRST :: u16 where "ETHRST \<equiv> 0x0010"
abbreviation (input) RXRST :: u16 where "RXRST \<equiv> 0x0020"
abbreviation (input) TXRST :: u16 where "TXRST \<equiv> 0x0040"
abbreviation (input) AUTOFC :: u16 where "AUTOFC \<equiv> 0x0080"
abbreviation (input) COCON0 :: u16 where "COCON0 \<equiv> 0x0100"
abbreviation (input) COCON1 :: u16 where "COCON1 \<equiv> 0x0200"
abbreviation (input) COCON2 :: u16 where "COCON2 \<equiv> 0x0400"
abbreviation (input) COCON3 :: u16 where "COCON3 \<equiv> 0x0800"
abbreviation (input) SHA1MD5 :: u16 where "SHA1MD5 \<equiv> 0x1000"
abbreviation (input) TXMAC :: u16 where "TXMAC \<equiv> 0x2000"
abbreviation (input) STRCH :: u16 where "STRCH \<equiv> 0x4000"
abbreviation (input) ETHEN :: u16 where "ETHEN \<equiv> 0x8000"

definition ECON2_masks :: "u16 list" where
  "ECON2_masks = [AESLEN0, AESLEN1, MODLEN0, MODLEN1, ETHRST, RXRST, TXRST, AUTOFC, COCON0,
     COCON1, COCON2, COCON3, SHA1MD5, TXMAC, STRCH, ETHEN]"

text \<open>EIE\<close>

abbreviation (input) PCFULIE :: u16 where "PCFULIE \<equiv> 0x0001"
abbreviation (input) RXABTIE :: u16 where "RXABTIE \<equiv> 0x0002"
abbreviation (input) TXABTIE :: u16 where "TXABTIE \<equiv> 0x0004"
abbreviation (input) TXIE :: u16 where "TXIE \<equiv> 0x0008"
abbreviation (input) DMAIE :: u16 where "DMAIE \<equiv> 0x0020"
abbreviation (input) PKTIE :: u16 where "PKTIE \<equiv> 0x0040"
abbreviation (input) LINKIE :: u16 where "LINKIE \<equiv> 0x0800"
abbreviation (input) AESIE :: u16 where "AESIE \<equiv> 0x1000"
abbreviation (input) HASHIE :: u16 where "HASHIE \<equiv> 0x2000"
abbreviation (input) MODEXIE :: u16 where "MODEXIE \<equiv> 0x4000"
abbreviation (input) INTIE :: u16 where "INTIE \<equiv> 0x8000"

definition EIE_masks :: "u16 list" where
  "EIE_masks = [PCFULIE, RXABTIE, TXABTIE, TXIE, DMAIE, PKTIE, LINKIE, AESIE, HASHIE, MODEXIE,
     INTIE]"

text \<open>EIDLED\<close>

abbreviation (input) REVID0 :: u16 where "REVID0 \<equiv> 0x0001"
abbreviation (input) REVID1 :: u16 where "REVID1 \<equiv> 0x0002"
abbreviation (input) REVID2 :: u16 where "REVID2 \<equiv> 0x0004"
abbreviation (input) REVID3 :: u16 where "REVID3 \<equiv> 0x0008"
abbreviation (input) REVID4 :: u16 where "REVID4 \<equiv> 0x0010"
abbreviation (input) DEVIDO :: u16 where "DEVIDO \<equiv> 0x0020"
abbreviation (input) DEVID1 :: u16 where "DEVID1 \<equiv> 0x0040"
abbreviation (input) DEVID2 :: u16 where "DEVID2 \<equiv> 0x0080"
abbreviation (input) LBCFG0 :: u16 where "LBCFG0 \<equiv> 0x0100"
abbreviation (input) LBCFG1 :: u16 where "LBCFG1 \<equiv> 0x0200"
abbreviation (input) LBCFG2 :: u16 where "LBCFG2 \<equiv> 0x0400"
abbreviation (input) LBCFG3 :: u16 where "LBCFG3 \<equiv> 0x0800"
abbreviation (input) LACFG0 :: u16 where "LACFG0 \<equiv> 0x1000"
abbreviation (input) LACFG1 :: u16 where "LACFG1 \<equiv> 0x2000"
abbreviation (input) LACFG2 :: u16 where "LACFG2 \<equiv> 0x4000"
abbreviation (input) LACFG3 :: u16 where "LACFG3 \<equiv> 0x8000"

definition EIDLED_masks :: "u16 list" where
  "EIDLED_masks = [REVID0, REVID1, REVID2, REVID3, REVID4, DEVIDO, DEVID1, DEVID2, LBCFG0,
     LBCFG1, LBCFG2, LBCFG3, LACFG0, LACFG1, LACFG2, LACFG3]"

text \<open>PHCON1\<close>

abbreviation (input) PFULDPX :: u16 where "PFULDPX \<equiv> 0x0100"
abbreviation (input) RENEG :: u16 where "RENEG \<equiv> 0x0200"
abbreviation (input) PSLEEP :: u16 where "PSLEEP \<equiv> 0x0800"
abbreviation (input) ANEN :: u16 where "ANEN \<equiv> 0x1000"
abbreviation (input) SPD100 :: u16 where "SPD100 \<equiv> 0x2000"
abbreviation (input) PLOOPBK :: u16 where "PLOOPBK \<equiv> 0x4000"
abbreviation (input) PRST :: u16 where "PRST \<equiv> 0x8000"

definition PHCON1_masks :: "u16 list" where
  "PHCON1_masks = [PFULDPX, RENEG, PSLEEP, ANEN, SPD100, PLOOPBK, PRST]"

text \<open>PHSTAT1\<close>

abbreviation (input) EXTREGS :: u16 where "EXTREGS \<equiv> 0x0001"
abbreviation (input) LLSTAT :: u16 where "LLSTAT \<equiv> 0x0004"
abbreviation (input) ANABLE :: u16 where "ANABLE \<equiv> 0x0008"
abbreviation (input) LRFAULT :: u16 where "LRFAULT \<equiv> 0x0010"
abbreviation (input) ANDONE :: u16 where "ANDONE \<equiv> 0x0020"
abbreviation (input) HALF10 :: u16 where "HALF10 \<equiv> 0x0800"
abbreviation (input) FULL10 :: u16 where "FULL10 \<equiv> 0x1000"
abbreviation (input) HALF100 :: u16 where "HALF100 \<equiv> 0x2000"
abbreviation (input) FULL100 :: u16 where "FULL100 \<equiv> 0x4000"

definition PHSTAT1_masks :: "u16 list" where
  "PHSTAT1_masks = [EXTREGS, LLSTAT, ANABLE, LRFAULT, ANDONE, HALF10, FULL10, HALF100, FULL100]"

text \<open>PHANA\<close>

abbreviation (input) ADIEEE0 :: u16 where "ADIEEE0 \<equiv> 0x0001"
abbreviation (input) ADIEEE1 :: u16 where "ADIEEE1 \<equiv> 0x0002"
abbreviation (input) ADIEEE2 :: u16 where "ADIEEE2 \<equiv> 0x0004"
abbreviation (input) ADIEEE3 :: u16 where "ADIEEE3 \<equiv> 0x0008"
abbreviation (input) ADIEEE4 :: u16 where "ADIEEE4 \<equiv> 0x0010"
abbreviation (input) AD10 :: u16 where "AD10 \<equiv> 0x0020"
abbreviation (input) AD10FD :: u16 where "AD10FD \<equiv> 0x0040"
abbreviation (input) AD100 :: u16 where "AD100 \<equiv> 0x0080"
abbreviation (input) AD100FD :: u16 where "AD100FD \<equiv> 0x0100"
abbreviation (input) ADPAUS0 :: u16 where "ADPAUS0 \<equiv> 0x0400"
abbreviation (input) ADPAUS1 :: u16 where "ADPAUS1 \<equiv> 0x0800"
abbreviation (input) ADFAULT :: u16 where "ADFAULT \<equiv> 0x2000"
abbreviation (input) ADNP :: u16 where "ADNP \<equiv> 0x8000"

definition PHANA_masks :: "u16 list" where
  "PHANA_masks = [ADIEEE0, ADIEEE1, ADIEEE2, ADIEEE3, ADIEEE4, AD10, AD10FD, AD100, AD100FD,
     ADPAUS0, ADPAUS1, ADFAULT, ADNP]"

text \<open>PHANLPA\<close>

abbreviation (input) LPIEEE0 :: u16 where "LPIEEE0 \<equiv> 0x0001"
abbreviation (input) LPIEEE1 :: u16 where "LPIEEE1 \<equiv> 0x0002"
abbreviation (input) LPIEEE2 :: u16 where "LPIEEE2 \<equiv> 0x0004"
abbreviation (input) LPIEEE3 :: u16 where "LPIEEE3 \<equiv> 0x0008"
abbreviation (input) LPIEEE4 :: u16 where "LPIEEE4 \<equiv> 0x0010"
abbreviation (input) LP10 :: u16 where "LP10 \<equiv> 0x0020"
abbreviation (input) LP10FD :: u16 where "LP10FD \<equiv> 0x0040"
abbreviation (input) LP100 :: u16 where "LP100 \<equiv> 0x0080"
abbreviation (input) LP100FD :: u16 where "LP100FD \<equiv> 0x0100"
abbreviation (input) LP100T4 :: u16 where "LP100T4 \<equiv> 0x0200"
abbreviation (input) LPPAUS0 :: u16 where "LPPAUS0 \<equiv> 0x0400"
abbreviation (input) LPPAUS1 :: u16 where "LPPAUS1 \<equiv> 0x0800"
abbreviation (input) LPFAULT :: u16 where "LPFAULT \<equiv> 0x2000"
abbreviation (input) LPACK :: u16 where "LPACK \<equiv> 0x4000"
abbreviation (input) LPNP :: u16 where "LPNP \<equiv> 0x8000"

definition PHANLPA_masks :: "u16 list" where
  "PHANLPA_masks = [LPIEEE0, LPIEEE1, LPIEEE2, LPIEEE3, LPIEEE4, LP10, LP10FD, LP100, LP100FD,
     LP100T4, LPPAUS0, LPPAUS1, LPFAULT, LPACK, LPNP]"

text \<open>PHANE\<close>

abbreviation (input) LPANABL :: u16 where "LPANABL \<equiv> 0x0001"
abbreviation (input) LPARCD :: u16 where "LPARCD \<equiv> 0x0002"
abbreviation (input) PDFLT :: u16 where "PDFLT \<equiv> 0x0010"

definition PHANE_masks :: "u16 list" where
  "PHANE_masks = [LPANABL, LPARCD, PDFLT]"

text \<open>PHCON2\<close>

abbreviation (input) EDSTAT :: u16 where "EDSTAT \<equiv> 0x0002"
abbreviation (input) FRCLINK :: u16 where "FRCLINK \<equiv> 0x0004"
abbreviation (input) EDTHRES :: u16 where "EDTHRES \<equiv> 0x0800"
abbreviation (input) EDPWRDN :: u16 where "EDPWRDN \<equiv> 0x2000"

definition PHCON2_masks :: "u16 list" where
  "PHCON2_masks = [EDSTAT, FRCLINK, EDTHRES, EDPWRDN]"

text \<open>PHSTAT2\<close>

abbreviation (input) PLRITY :: u16 where "PLRITY \<equiv> 0x0010"

definition PHSTAT2_masks :: "u16 list" where
  "PHSTAT2_masks = [PLRITY]"

text \<open>PHSTAT3\<close>

abbreviation (input) SPDDPX0 :: u16 where "SPDDPX0 \<equiv> 0x0004"
abbreviation (input) SPDDPX1 :: u16 where "SPDDPX1 \<equiv> 0x0008"
abbreviation (input) SPDDPX2 :: u16 where "SPDDPX2 \<equiv> 0x0010"

definition PHSTAT3_masks :: "u16 list" where
  "PHSTAT3_masks = [SPDDPX0, SPDDPX1, SPDDPX2]"

lemmas register_tables =
  ETXSTAT_masks_def ESTAT_masks_def EIR_masks_def ECON1_masks_def
  ERXFCON_masks_def MACON1_masks_def MACON2_masks_def MACLCON_masks_def
  MICMD_masks_def MISTAT_masks_def ECON2_masks_def EIE_masks_def
  EIDLED_masks_def PHCON1_masks_def PHSTAT1_masks_def PHANA_masks_def
  PHANLPA_masks_def PHANE_masks_def PHCON2_masks_def PHSTAT2_masks_def
  PHSTAT3_masks_def

text \<open>A register layout: every mask is one bit of the 16, and no bit has two names.\<close>

definition bit_layout :: "u16 list \<Rightarrow> bool" where
  "bit_layout ms \<longleftrightarrow> distinct ms \<and> list_all (\<lambda>m. m \<in> set (map (\<lambda>n. push_bit n 1) [0..<16])) ms"

section \<open>Consistency of the tables\<close>

lemma bit_layout_disjoint:
  assumes "bit_layout ms" "a \<in> set ms" "b \<in> set ms" "a \<noteq> b"
  shows "a AND b = 0"
proof -
  from assms(1) have "\<forall>m\<in>set ms. \<exists>n. m = push_bit n 1"
    by (auto simp: bit_layout_def list_all_iff simp del: push_bit_of_1)
  with assms(2,3) obtain i j where ab: "a = push_bit i 1" "b = push_bit j 1"
    by blast
  with assms(4) have "i \<noteq> j" by auto
  then show ?thesis
    unfolding ab by (intro bit_word_eqI) (auto simp: bit_simps)
qed

text \<open>
  the tables the driver is written over are consistent: the unbanked register addresses are
  distinct, even (each register is two bytes) and inside the SFR space below 0x80 that the
  unbanked instructions reach; no two SPI instructions share an opcode, and every pointer
  instruction that writes is followed by the one that reads the same pointer.
\<close>

theorem register_map_consistent:
  "distinct unbanked_sfrs \<and> list_all (\<lambda>a. even (unat a) \<and> a < 0x80) unbanked_sfrs \<and>
   distinct phy_sfrs \<and> list_all (\<lambda>a. a < 0x20) phy_sfrs \<and>
   distinct (single_byte_opcodes @ [RBSEL] @ pointer_opcodes @ unbanked_opcodes @ sram_opcodes) \<and>
   list_all (\<lambda>k. pointer_opcodes ! (2 * k + 1) = pointer_opcodes ! (2 * k) + 2) [0..<6]"
  by (simp add: unbanked_sfrs_def phy_sfrs_def single_byte_opcodes_def pointer_opcodes_def
      unbanked_opcodes_def sram_opcodes_def upt_rec)

text \<open>
  in every register the masks name single, pairwise different bits: setting or clearing one
  named field of a register leaves every other named field alone.
\<close>

theorem register_fields_disjoint:
  "list_all bit_layout
    [ETXSTAT_masks, ESTAT_masks, EIR_masks, ECON1_masks, ERXFCON_masks, MACON1_masks,
     MACON2_masks, MACLCON_masks, MICMD_masks, MISTAT_masks, ECON2_masks, EIE_masks,
     EIDLED_masks, PHCON1_masks, PHSTAT1_masks, PHANA_masks, PHANLPA_masks, PHANE_masks,
     PHCON2_masks, PHSTAT2_masks, PHSTAT3_masks]"
  by (simp add: register_tables bit_layout_def upt_rec)

end
