(* ===== verification/Enc_Access.thy ===== *)
theory Enc_Access
  imports Enc_Hal Enc_Registers
begin

text \<open>
  The register, pointer and window accesses of src/src/enc624j600/enc624j600_driver.c (lines
  431 to 675): every function as the sequence of HAL calls it makes, and, for each, the frame it
  puts on the wire and how it decodes the reply.
\<close>

section \<open>Enumerations\<close>

datatype enc624j600_buffer_pointer =
  EGPRDPT | EGPWRPT | ERXRDPT | ERXWRPT | EUDARDPT | EUDAWRPT

datatype enc624j600_window_reg = EGPDATA | ERXDATA | EUDADATA

section \<open>Single-byte instructions and buffer pointers\<close>

definition execute_single_byte_instruction :: "'d hal \<Rightarrow> u8 \<Rightarrow> 'd \<Rightarrow> 'd option" where
  "execute_single_byte_instruction h opcode d = do {
     d \<leftarrow> cs_assert h d;
     (_, d) \<leftarrow> spi_transfer h opcode d;
     cs_deassert h d
   }"

definition read_buffer_pointer ::
  "'d hal \<Rightarrow> enc624j600_buffer_pointer \<Rightarrow> 'd \<Rightarrow> (u16 \<times> 'd) option" where
  "read_buffer_pointer h pointer d = do {
     d \<leftarrow> cs_assert h d;
     (_, d) \<leftarrow> (case pointer of
         EGPRDPT \<Rightarrow> spi_transfer h RGPRDPT d
       | EGPWRPT \<Rightarrow> spi_transfer h RGPWRPT d
       | ERXRDPT \<Rightarrow> spi_transfer h RRXRDPT d
       | ERXWRPT \<Rightarrow> spi_transfer h RRXWRPT d
       | EUDARDPT \<Rightarrow> spi_transfer h RUDARDPT d
       | EUDAWRPT \<Rightarrow> spi_transfer h RUDAWRPT d);
     (lsb, d) \<leftarrow> spi_transfer h 0xAA d;
     let result = (0 :: u16) OR ucast lsb;
     (msb, d) \<leftarrow> spi_transfer h 0xAA d;
     let result = result OR push_bit 8 (ucast msb);
     d \<leftarrow> cs_deassert h d;
     Some (result, d)
   }"

definition write_buffer_pointer ::
  "'d hal \<Rightarrow> enc624j600_buffer_pointer \<Rightarrow> u16 \<Rightarrow> 'd \<Rightarrow> 'd option" where
  "write_buffer_pointer h pointer new_value d = do {
     d \<leftarrow> cs_assert h d;
     (_, d) \<leftarrow> (case pointer of
         EGPRDPT \<Rightarrow> spi_transfer h WGPRDPT d
       | EGPWRPT \<Rightarrow> spi_transfer h WGPWRPT d
       | ERXRDPT \<Rightarrow> spi_transfer h WRXRDPT d
       | ERXWRPT \<Rightarrow> spi_transfer h WRXWRPT d
       | EUDARDPT \<Rightarrow> spi_transfer h WUDARDPT d
       | EUDAWRPT \<Rightarrow> spi_transfer h WUDAWRPT d);
     (_, d) \<leftarrow> spi_transfer h (ucast (new_value AND 0xFF)) d;
     (_, d) \<leftarrow> spi_transfer h (ucast (drop_bit 8 new_value AND 0xFF)) d;
     cs_deassert h d
   }"

section \<open>Unbanked special function registers\<close>

definition read_sfr_unbanked :: "'d hal \<Rightarrow> u8 \<Rightarrow> 'd \<Rightarrow> (u16 \<times> 'd) option" where
  "read_sfr_unbanked h sfr_addr d = do {
     d \<leftarrow> cs_assert h d;
     (_, d) \<leftarrow> spi_transfer h RCRU d;
     (_, d) \<leftarrow> spi_transfer h sfr_addr d;
     (lsb, d) \<leftarrow> spi_transfer h 0xAA d;
     let result = (ucast lsb :: u16);
     (msb, d) \<leftarrow> spi_transfer h 0xAA d;
     let result = result OR push_bit 8 (ucast msb);
     d \<leftarrow> cs_deassert h d;
     Some (result, d)
   }"

definition write_sfr_unbanked :: "'d hal \<Rightarrow> u8 \<Rightarrow> u16 \<Rightarrow> 'd \<Rightarrow> 'd option" where
  "write_sfr_unbanked h sfr_addr new_value d = do {
     d \<leftarrow> cs_assert h d;
     (_, d) \<leftarrow> spi_transfer h WCRU d;
     (_, d) \<leftarrow> spi_transfer h sfr_addr d;
     (_, d) \<leftarrow> spi_transfer h (ucast (new_value AND 0xFF)) d;
     (_, d) \<leftarrow> spi_transfer h (ucast (drop_bit 8 new_value AND 0xFF)) d;
     cs_deassert h d
   }"

definition bit_field_set_sfr_unbanked :: "'d hal \<Rightarrow> u8 \<Rightarrow> u16 \<Rightarrow> 'd \<Rightarrow> 'd option" where
  "bit_field_set_sfr_unbanked h sfr_addr msk d = do {
     d \<leftarrow> cs_assert h d;
     (_, d) \<leftarrow> spi_transfer h BFSU d;
     (_, d) \<leftarrow> spi_transfer h sfr_addr d;
     (_, d) \<leftarrow> spi_transfer h (ucast (msk AND 0xFF)) d;
     (_, d) \<leftarrow> spi_transfer h (ucast (drop_bit 8 msk AND 0xFF)) d;
     cs_deassert h d
   }"

definition bit_field_clear_sfr_unbanked :: "'d hal \<Rightarrow> u8 \<Rightarrow> u16 \<Rightarrow> 'd \<Rightarrow> 'd option" where
  "bit_field_clear_sfr_unbanked h sfr_addr msk d = do {
     d \<leftarrow> cs_assert h d;
     (_, d) \<leftarrow> spi_transfer h BFCU d;
     (_, d) \<leftarrow> spi_transfer h sfr_addr d;
     (_, d) \<leftarrow> spi_transfer h (ucast (msk AND 0xFF)) d;
     (_, d) \<leftarrow> spi_transfer h (ucast (drop_bit 8 msk AND 0xFF)) d;
     cs_deassert h d
   }"

definition bit_field_set_mac_sfr :: "'d hal \<Rightarrow> u8 \<Rightarrow> u16 \<Rightarrow> 'd \<Rightarrow> 'd option" where
  "bit_field_set_mac_sfr h mac_sfr_addr msk d = do {
     (mac_sfr_value, d) \<leftarrow> read_sfr_unbanked h mac_sfr_addr d;
     let mac_sfr_value = mac_sfr_value OR msk;
     write_sfr_unbanked h mac_sfr_addr mac_sfr_value d
   }"

definition bit_field_clear_mac_sfr :: "'d hal \<Rightarrow> u8 \<Rightarrow> u16 \<Rightarrow> 'd \<Rightarrow> 'd option" where
  "bit_field_clear_mac_sfr h mac_sfr_addr msk d = do {
     (mac_sfr_value, d) \<leftarrow> read_sfr_unbanked h mac_sfr_addr d;
     let mac_sfr_value = mac_sfr_value AND NOT msk;
     write_sfr_unbanked h mac_sfr_addr mac_sfr_value d
   }"

section \<open>Window registers\<close>

text \<open>
  The loop \<open>for (i = 0; i < n; i++)\<close> of the two window accesses: a read returns the bytes it
  stores at \<open>buffer[0]\<close>, \<open>buffer[1]\<close>, \<dots>, a write takes the memory \<open>buffer\<close> points at.
\<close>

definition read_from_window_reg ::
  "'d hal \<Rightarrow> enc624j600_window_reg \<Rightarrow> u16 \<Rightarrow> 'd \<Rightarrow> (u8 list \<times> 'd) option" where
  "read_from_window_reg h window_reg n d = do {
     d \<leftarrow> cs_assert h d;
     (_, d) \<leftarrow> (case window_reg of
         EGPDATA \<Rightarrow> spi_transfer h RGPDATA d
       | ERXDATA \<Rightarrow> spi_transfer h RRXDATA d
       | EUDADATA \<Rightarrow> spi_transfer h RUDADATA d);
     (buffer, d) \<leftarrow> xfer_all h (replicate (unat n) 0xAA) d;
     d \<leftarrow> cs_deassert h d;
     Some (buffer, d)
   }"

definition write_to_window_reg ::
  "'d hal \<Rightarrow> enc624j600_window_reg \<Rightarrow> bytes_at \<Rightarrow> u16 \<Rightarrow> 'd \<Rightarrow> 'd option" where
  "write_to_window_reg h window_reg buffer n d = do {
     d \<leftarrow> cs_assert h d;
     (_, d) \<leftarrow> (case window_reg of
         EGPDATA \<Rightarrow> spi_transfer h WGPDATA d
       | ERXDATA \<Rightarrow> spi_transfer h WRXDATA d
       | EUDADATA \<Rightarrow> spi_transfer h WUDADATA d);
     (_, d) \<leftarrow> xfer_all h (map buffer [0..<unat n]) d;
     cs_deassert h d
   }"

section \<open>The accesses as frames\<close>

text \<open>The opcodes the \<open>switch\<close> statements select.\<close>

fun read_pointer_opcode :: "enc624j600_buffer_pointer \<Rightarrow> u8" where
  "read_pointer_opcode EGPRDPT = RGPRDPT"
| "read_pointer_opcode EGPWRPT = RGPWRPT"
| "read_pointer_opcode ERXRDPT = RRXRDPT"
| "read_pointer_opcode ERXWRPT = RRXWRPT"
| "read_pointer_opcode EUDARDPT = RUDARDPT"
| "read_pointer_opcode EUDAWRPT = RUDAWRPT"

fun write_pointer_opcode :: "enc624j600_buffer_pointer \<Rightarrow> u8" where
  "write_pointer_opcode EGPRDPT = WGPRDPT"
| "write_pointer_opcode EGPWRPT = WGPWRPT"
| "write_pointer_opcode ERXRDPT = WRXRDPT"
| "write_pointer_opcode ERXWRPT = WRXWRPT"
| "write_pointer_opcode EUDARDPT = WUDARDPT"
| "write_pointer_opcode EUDAWRPT = WUDAWRPT"

fun read_window_opcode :: "enc624j600_window_reg \<Rightarrow> u8" where
  "read_window_opcode EGPDATA = RGPDATA"
| "read_window_opcode ERXDATA = RRXDATA"
| "read_window_opcode EUDADATA = RUDADATA"

fun write_window_opcode :: "enc624j600_window_reg \<Rightarrow> u8" where
  "write_window_opcode EGPDATA = WGPDATA"
| "write_window_opcode ERXDATA = WRXDATA"
| "write_window_opcode EUDADATA = WUDADATA"

lemmas frame_unfold = spi_frame_def lo8_def hi8_def le16_def case_prod_beta' Option.bind_assoc

lemma map_option_bind: "map_option f (Option.bind m g) = Option.bind m (\<lambda>x. map_option f (g x))"
  by (cases m) auto

lemma execute_single_byte_wire [wire_simps]:
  "execute_single_byte_instruction h opcode d = map_option snd (spi_frame h [opcode] d)"
  by (simp add: execute_single_byte_instruction_def frame_unfold map_option_bind)

lemma write_sfr_wire [wire_simps]:
  "write_sfr_unbanked h a v d = map_option snd (spi_frame h [WCRU, a, lo8 v, hi8 v] d)"
  by (simp add: write_sfr_unbanked_def frame_unfold map_option_bind)

lemma bit_field_set_wire [wire_simps]:
  "bit_field_set_sfr_unbanked h a v d = map_option snd (spi_frame h [BFSU, a, lo8 v, hi8 v] d)"
  by (simp add: bit_field_set_sfr_unbanked_def frame_unfold map_option_bind)

lemma bit_field_clear_wire [wire_simps]:
  "bit_field_clear_sfr_unbanked h a v d = map_option snd (spi_frame h [BFCU, a, lo8 v, hi8 v] d)"
  by (simp add: bit_field_clear_sfr_unbanked_def frame_unfold map_option_bind)

lemma write_buffer_pointer_wire [wire_simps]:
  "write_buffer_pointer h p v d =
     map_option snd (spi_frame h [write_pointer_opcode p, lo8 v, hi8 v] d)"
  by (cases p) (simp_all add: write_buffer_pointer_def frame_unfold map_option_bind)

lemma read_sfr_wire [wire_simps]:
  "read_sfr_unbanked h a d =
     map_option (\<lambda>(rs, d). (le16 (rs ! 2) (rs ! 3), d)) (spi_frame h [RCRU, a, 0xAA, 0xAA] d)"
  by (simp add: read_sfr_unbanked_def frame_unfold map_option_bind)

lemma read_buffer_pointer_wire [wire_simps]:
  "read_buffer_pointer h p d =
     map_option (\<lambda>(rs, d). (le16 (rs ! 1) (rs ! 2), d))
       (spi_frame h [read_pointer_opcode p, 0xAA, 0xAA] d)"
  by (cases p) (simp_all add: read_buffer_pointer_def frame_unfold map_option_bind)

lemma read_from_window_wire [wire_simps]:
  "read_from_window_reg h w n d =
     map_option (\<lambda>(rs, d). (tl rs, d))
       (spi_frame h (read_window_opcode w # replicate (unat n) 0xAA) d)"
  by (cases w) (simp_all add: read_from_window_reg_def frame_unfold map_option_bind)

lemma write_to_window_wire [wire_simps]:
  "write_to_window_reg h w buf n d =
     map_option snd (spi_frame h (write_window_opcode w # map buf [0..<unat n]) d)"
  by (cases w) (simp_all add: write_to_window_reg_def frame_unfold map_option_bind)

end
