(* ===== verification/Enc_Driver.thy ===== *)
theory Enc_Driver
  imports Enc_Access
begin

text \<open>
  The PHY accesses, the receive filters, the initialisation and the transmit and receive
  functions of src/src/enc624j600/enc624j600_driver.c. The functions up to \<open>phy_init\<close> work on the
  state \<open>'d\<close> below the HAL; the three public functions also read and write the two static
  variables of the file, which the record \<open>enc\<close> holds.
\<close>

datatype enc624j600_duplex_mode = HALF_DUPLEX | FULL_DUPLEX

datatype enc624j600_receive_filter =
    CRC_ERROR_COLLECTION_FILTER | RUNT_ERROR_COLLECTION_FILTER
  | CRC_ERROR_REJECTION_FILTER | RUNT_ERROR_REJECTION_FILTER
  | UNICAST_COLLECTION_FILTER | NOT_ME_UNICAST_COLLECTION_FILTER
  | MULTICAST_COLLECTION_FILTER | BROADCAST_COLLECTION_FILTER
  | HASH_TABLE_COLLECTION_FILTER | MAGIC_PACKET_COLLECTION_FILTER
  | PATTERN_MATCH_COLLECTION_FILTER

datatype enc624j600_receive_filter_state = ENABLE | DISABLE

datatype enc624j600_transmit_result =
    ENC_TRANSMIT_SUCCEEDED | ENC_TRANSMIT_DATA_IS_TOO_SMALL | ENC_TRANSMIT_DATA_EXCEED_MTU
  | ENC_FLOW_CONTROL_ACTIVE | ENC_TRANSMIT_FAILED

datatype enc624j600_receive_result =
  ENC_RECEIVE_SUCCEEDED | ENC_RECEIVE_NO_PENDING_FRAME | ENC_RECEIVE_FAILED

text \<open>The configuration: a pointer that may be NULL and three one-bit fields.\<close>

record enc624j600_config =
  mac_address :: "bytes_at option"
  mac_huge_frame :: "1 word"
  mac_loopback :: "1 word"
  phy_loppback :: "1 word"

record 'd enc =
  duplex_mode :: enc624j600_duplex_mode
  next_receive_frame_pointer :: u16
  dev :: 'd

section \<open>PHY registers\<close>

definition wait_mii :: "'d hal \<Rightarrow> 'd \<Rightarrow> 'd option" where
  "wait_mii h d = wait_while (\<lambda>v. v AND BUSY > 0) (read_sfr_unbanked h MISTAT) d"

definition read_phy_sfr :: "'d hal \<Rightarrow> u8 \<Rightarrow> 'd \<Rightarrow> (u16 \<times> 'd) option" where
  "read_phy_sfr h phy_sfr_addr d = do {
     d \<leftarrow> write_sfr_unbanked h MIREGADR (0x0100 OR ucast phy_sfr_addr) d;
     d \<leftarrow> write_sfr_unbanked h MICMD 0x0001 d;
     d \<leftarrow> hal_delay h 30 d;
     d \<leftarrow> wait_mii h d;
     d \<leftarrow> write_sfr_unbanked h MICMD 0x0000 d;
     read_sfr_unbanked h MIRD d
   }"

definition write_phy_sfr :: "'d hal \<Rightarrow> u8 \<Rightarrow> u16 \<Rightarrow> 'd \<Rightarrow> 'd option" where
  "write_phy_sfr h phy_sfr_addr new_value d = do {
     d \<leftarrow> write_sfr_unbanked h MIREGADR (0x0100 OR ucast phy_sfr_addr) d;
     d \<leftarrow> write_sfr_unbanked h MIWR new_value d;
     d \<leftarrow> hal_delay h 30 d;
     wait_mii h d
   }"

definition bit_field_set_phy_sfr :: "'d hal \<Rightarrow> u8 \<Rightarrow> u16 \<Rightarrow> 'd \<Rightarrow> 'd option" where
  "bit_field_set_phy_sfr h phy_sfr_addr msk d = do {
     (phy_sfr_value, d) \<leftarrow> read_phy_sfr h phy_sfr_addr d;
     let phy_sfr_value = phy_sfr_value OR msk;
     write_phy_sfr h phy_sfr_addr phy_sfr_value d
   }"

definition bit_field_clear_phy_sfr :: "'d hal \<Rightarrow> u8 \<Rightarrow> u16 \<Rightarrow> 'd \<Rightarrow> 'd option" where
  "bit_field_clear_phy_sfr h phy_sfr_addr msk d = do {
     (phy_sfr_value, d) \<leftarrow> read_phy_sfr h phy_sfr_addr d;
     let phy_sfr_value = phy_sfr_value AND NOT msk;
     write_phy_sfr h phy_sfr_addr phy_sfr_value d
   }"

definition phy_restart_auto_negotiation_process :: "'d hal \<Rightarrow> 'd \<Rightarrow> 'd option" where
  "phy_restart_auto_negotiation_process h d = bit_field_set_phy_sfr h PHCON1 RENEG d"

section \<open>Receive filters\<close>

text \<open>
  Enabling the pattern match filter is a TODO in the source: that branch touches nothing.
\<close>

fun configure_receive_filter ::
  "'d hal \<Rightarrow> enc624j600_receive_filter \<Rightarrow> enc624j600_receive_filter_state \<Rightarrow> 'd \<Rightarrow> 'd option" where
  "configure_receive_filter h CRC_ERROR_COLLECTION_FILTER new_state d = (case new_state of
       ENABLE \<Rightarrow> bit_field_set_sfr_unbanked h ERXFCON CRCEEN d
     | DISABLE \<Rightarrow> bit_field_clear_sfr_unbanked h ERXFCON CRCEEN d)"
| "configure_receive_filter h RUNT_ERROR_COLLECTION_FILTER new_state d = (case new_state of
       ENABLE \<Rightarrow> bit_field_set_sfr_unbanked h ERXFCON RUNTEEN d
     | DISABLE \<Rightarrow> bit_field_clear_sfr_unbanked h ERXFCON RUNTEEN d)"
| "configure_receive_filter h CRC_ERROR_REJECTION_FILTER new_state d = (case new_state of
       ENABLE \<Rightarrow> bit_field_set_sfr_unbanked h ERXFCON CRCEN d
     | DISABLE \<Rightarrow> bit_field_clear_sfr_unbanked h ERXFCON CRCEN d)"
| "configure_receive_filter h RUNT_ERROR_REJECTION_FILTER new_state d = (case new_state of
       ENABLE \<Rightarrow> bit_field_set_sfr_unbanked h ERXFCON RUNTEN d
     | DISABLE \<Rightarrow> bit_field_clear_sfr_unbanked h ERXFCON RUNTEN d)"
| "configure_receive_filter h UNICAST_COLLECTION_FILTER new_state d = (case new_state of
       ENABLE \<Rightarrow> bit_field_set_sfr_unbanked h ERXFCON UCEN d
     | DISABLE \<Rightarrow> bit_field_clear_sfr_unbanked h ERXFCON UCEN d)"
| "configure_receive_filter h NOT_ME_UNICAST_COLLECTION_FILTER new_state d = (case new_state of
       ENABLE \<Rightarrow> bit_field_set_sfr_unbanked h ERXFCON NOTMEEN d
     | DISABLE \<Rightarrow> bit_field_clear_sfr_unbanked h ERXFCON NOTMEEN d)"
| "configure_receive_filter h MULTICAST_COLLECTION_FILTER new_state d = (case new_state of
       ENABLE \<Rightarrow> bit_field_set_sfr_unbanked h ERXFCON MCEN d
     | DISABLE \<Rightarrow> bit_field_clear_sfr_unbanked h ERXFCON MCEN d)"
| "configure_receive_filter h BROADCAST_COLLECTION_FILTER new_state d = (case new_state of
       ENABLE \<Rightarrow> bit_field_set_sfr_unbanked h ERXFCON BCEN d
     | DISABLE \<Rightarrow> bit_field_clear_sfr_unbanked h ERXFCON BCEN d)"
| "configure_receive_filter h HASH_TABLE_COLLECTION_FILTER new_state d = (case new_state of
       ENABLE \<Rightarrow> bit_field_set_sfr_unbanked h ERXFCON HTEN d
     | DISABLE \<Rightarrow> bit_field_clear_sfr_unbanked h ERXFCON HTEN d)"
| "configure_receive_filter h MAGIC_PACKET_COLLECTION_FILTER new_state d = (case new_state of
       ENABLE \<Rightarrow> bit_field_set_sfr_unbanked h ERXFCON MPEN d
     | DISABLE \<Rightarrow> bit_field_clear_sfr_unbanked h ERXFCON MPEN d)"
| "configure_receive_filter h PATTERN_MATCH_COLLECTION_FILTER new_state d = (case new_state of
       ENABLE \<Rightarrow> Some d
     | DISABLE \<Rightarrow> bit_field_clear_sfr_unbanked h ERXFCON (PMEN0 OR PMEN1 OR PMEN2 OR PMEN3) d)"

section \<open>Initialisation\<close>

definition reset :: "'d hal \<Rightarrow> 'd \<Rightarrow> 'd option" where
  "reset h d = do {
     d \<leftarrow> wait_while (\<lambda>v. v \<noteq> 0x1234)
            (\<lambda>d. do { d \<leftarrow> write_sfr_unbanked h EUDAST 0x1234 d; read_sfr_unbanked h EUDAST d }) d;
     d \<leftarrow> wait_while (\<lambda>v. \<not> v AND CLKRDY > 0) (read_sfr_unbanked h ESTAT) d;
     d \<leftarrow> execute_single_byte_instruction h SETETHRST d;
     d \<leftarrow> hal_delay h 30 d;
     d \<leftarrow> wait_while (\<lambda>v. v \<noteq> 0) (read_sfr_unbanked h EUDAST) d;
     hal_delay h 200 d
   }"

definition mac_init :: "'d hal \<Rightarrow> enc624j600_config \<Rightarrow> 'd \<Rightarrow> 'd option" where
  "mac_init h config d = do {
     d \<leftarrow> write_sfr_unbanked h ERXWM 0xAA55 d;
     d \<leftarrow> bit_field_set_sfr_unbanked h ECON2 AUTOFC d;
     d \<leftarrow> (case mac_address config of
         None \<Rightarrow> Some d
       | Some mac \<Rightarrow> for_each [0, 2, 4] (\<lambda>i d.
           let mac_part = (0 :: u16);
               mac_part = mac_part OR ucast (mac i);
               mac_part = mac_part OR push_bit 8 (ucast (mac (i + 1)))
           in write_sfr_unbanked h (MAADR1 - of_nat i) mac_part d) d);
     d \<leftarrow> write_sfr_unbanked h MAMXFL 0x05EE d;
     d \<leftarrow> (if mac_huge_frame config = 1 then bit_field_set_mac_sfr h MACON2 HFRMEN d
          else bit_field_clear_mac_sfr h MACON2 HFRMEN d);
     d \<leftarrow> (if mac_loopback config = 1 then bit_field_set_mac_sfr h MACON1 LOOPBK d
          else bit_field_clear_mac_sfr h MACON1 LOOPBK d);
     d \<leftarrow> bit_field_clear_mac_sfr h MACON2 (PADCFG0 OR PADCFG1 OR PADCFG2) d;
     d \<leftarrow> bit_field_set_mac_sfr h MACON2 PADCFG0 d;
     bit_field_set_mac_sfr h MACON2 TXCRCEN d
   }"

definition phy_init :: "'d hal \<Rightarrow> enc624j600_config \<Rightarrow> 'd \<Rightarrow> 'd option" where
  "phy_init h config d = do {
     d \<leftarrow> bit_field_clear_phy_sfr h PHCON1 PSLEEP d;
     d \<leftarrow> (if phy_loppback config = 1 then bit_field_set_phy_sfr h PHCON1 PLOOPBK d
          else bit_field_clear_phy_sfr h PHCON1 PLOOPBK d);
     d \<leftarrow> bit_field_set_phy_sfr h PHCON1 ANEN d;
     bit_field_set_phy_sfr h PHANA ADPAUS0 d
   }"

text \<open>
  \<open>enc624j600_init\<close> in the order of its sections: buffers (lines 1055 to 1084), filters
  (1088 to 1098), MAC and PHY (1101 to 1107), link (1110 to 1142).
\<close>

definition init_buffers :: "'d hal \<Rightarrow> 'd \<Rightarrow> 'd option" where
  "init_buffers h d = do {
     d \<leftarrow> bit_field_clear_sfr_unbanked h ECON2 (COCON0 OR COCON1 OR COCON2 OR COCON3) d;
     d \<leftarrow> write_sfr_unbanked h ERXST 0x2000 d;
     d \<leftarrow> write_sfr_unbanked h ERXTAIL 0x5FFE d;
     d \<leftarrow> write_buffer_pointer h ERXRDPT 0x2000 d;
     d \<leftarrow> write_buffer_pointer h ERXWRPT 0x2000 d;
     d \<leftarrow> write_buffer_pointer h EGPRDPT 0x0000 d;
     d \<leftarrow> write_buffer_pointer h EGPWRPT 0x0000 d;
     d \<leftarrow> write_sfr_unbanked h EUDAST 0x6000 d;
     d \<leftarrow> write_sfr_unbanked h EUDAND 0x6001 d;
     d \<leftarrow> write_buffer_pointer h EUDARDPT 0x0000 d;
     write_buffer_pointer h EUDAWRPT 0x0000 d
   }"

definition init_filters :: "'d hal \<Rightarrow> 'd \<Rightarrow> 'd option" where
  "init_filters h d = do {
     d \<leftarrow> configure_receive_filter h CRC_ERROR_COLLECTION_FILTER DISABLE d;
     d \<leftarrow> configure_receive_filter h RUNT_ERROR_COLLECTION_FILTER DISABLE d;
     d \<leftarrow> configure_receive_filter h CRC_ERROR_REJECTION_FILTER ENABLE d;
     d \<leftarrow> configure_receive_filter h RUNT_ERROR_REJECTION_FILTER ENABLE d;
     d \<leftarrow> configure_receive_filter h UNICAST_COLLECTION_FILTER ENABLE d;
     d \<leftarrow> configure_receive_filter h NOT_ME_UNICAST_COLLECTION_FILTER DISABLE d;
     d \<leftarrow> configure_receive_filter h MULTICAST_COLLECTION_FILTER DISABLE d;
     d \<leftarrow> configure_receive_filter h BROADCAST_COLLECTION_FILTER ENABLE d;
     d \<leftarrow> configure_receive_filter h HASH_TABLE_COLLECTION_FILTER DISABLE d;
     d \<leftarrow> configure_receive_filter h MAGIC_PACKET_COLLECTION_FILTER DISABLE d;
     configure_receive_filter h PATTERN_MATCH_COLLECTION_FILTER DISABLE d
   }"

definition wait_link :: "'d hal \<Rightarrow> 'd \<Rightarrow> 'd option" where
  "wait_link h d = do {
     d \<leftarrow> wait_while (\<lambda>v. v AND ANDONE = 0) (read_phy_sfr h PHSTAT1) d;
     wait_while (\<lambda>v. v AND LLSTAT = 0) (read_phy_sfr h PHSTAT1) d
   }"

definition init_duplex :: "'d hal \<Rightarrow> 'd \<Rightarrow> (enc624j600_duplex_mode \<times> 'd) option" where
  "init_duplex h d = do {
     (estat, d) \<leftarrow> read_sfr_unbanked h ESTAT d;
     if estat AND PHYDPX > 0 then do {
       d \<leftarrow> bit_field_set_mac_sfr h MACON2 FULDPX d;
       d \<leftarrow> write_sfr_unbanked h MABBIPG 0x0015 d;
       Some (FULL_DUPLEX, d)
     } else do {
       d \<leftarrow> bit_field_clear_mac_sfr h MACON2 FULDPX d;
       d \<leftarrow> write_sfr_unbanked h MABBIPG 0x0012 d;
       Some (HALF_DUPLEX, d)
     }
   }"

definition enc624j600_init :: "'d hal \<Rightarrow> enc624j600_config \<Rightarrow> 'd enc \<Rightarrow> 'd enc option" where
  "enc624j600_init h config s = do {
     d \<leftarrow> reset h (dev s);
     d \<leftarrow> init_buffers h d;
     d \<leftarrow> init_filters h d;
     d \<leftarrow> bit_field_set_sfr_unbanked h ECON2 TXMAC d;
     d \<leftarrow> mac_init h config d;
     d \<leftarrow> phy_init h config d;
     d \<leftarrow> execute_single_byte_instruction h ENABLERX d;
     d \<leftarrow> wait_link h d;
     d \<leftarrow> execute_single_byte_instruction h DISABLERX d;
     (mode, d) \<leftarrow> init_duplex h d;
     d \<leftarrow> execute_single_byte_instruction h ENABLERX d;
     Some (s\<lparr>duplex_mode := mode, next_receive_frame_pointer := 0x2000, dev := d\<rparr>)
   }"

section \<open>Transmission\<close>

definition flow_control_active :: "'d hal \<Rightarrow> 'd enc \<Rightarrow> (bool \<times> 'd) option" where
  "flow_control_active h s =
     (if duplex_mode s = FULL_DUPLEX then do {
        (econ1, d) \<leftarrow> read_sfr_unbanked h ECON1 (dev s);
        Some (econ1 AND (FCOP0 OR FCOP1) > 0, d)
      } else do {
        (etxstat, d) \<leftarrow> read_sfr_unbanked h ETXSTAT (dev s);
        Some (etxstat AND DEFER > 0, d)
      })"

definition write_frame :: "'d hal \<Rightarrow> bytes_at \<Rightarrow> bytes_at \<Rightarrow> bytes_at \<Rightarrow> u16 \<Rightarrow> 'd \<Rightarrow> 'd option" where
  "write_frame h destination_mac length_type data len d = do {
     (gpwrpt_value, d) \<leftarrow> read_buffer_pointer h EGPWRPT d;
     d \<leftarrow> write_to_window_reg h EGPDATA destination_mac 6 d;
     d \<leftarrow> write_to_window_reg h EGPDATA length_type 2 d;
     d \<leftarrow> write_to_window_reg h EGPDATA data len d;
     d \<leftarrow> write_sfr_unbanked h ETXST gpwrpt_value d;
     d \<leftarrow> write_sfr_unbanked h ETXLEN (8 + len) d;
     d \<leftarrow> execute_single_byte_instruction h SETTXRTS d;
     wait_while (\<lambda>v. v AND TXRTS \<noteq> 0) (read_sfr_unbanked h ECON1) d
   }"

definition transmit_status ::
  "'d hal \<Rightarrow> enc624j600_duplex_mode \<Rightarrow> u16 \<Rightarrow> 'd \<Rightarrow> (enc624j600_transmit_result \<times> 'd) option" where
  "transmit_status h mode len d =
     (if mode = FULL_DUPLEX then do {
        let len = (if len < 46 then 46 else len);
        (etxwire, d) \<leftarrow> read_sfr_unbanked h ETXWIRE d;
        Some (if (ucast etxwire :: u32) \<noteq> 18 + ucast len then ENC_TRANSMIT_FAILED
              else ENC_TRANSMIT_SUCCEEDED, d)
      } else do {
        (etxstat, d) \<leftarrow> read_sfr_unbanked h ETXSTAT d;
        Some (if etxstat AND (LATECOL OR MAXCOL OR EXDEFER) > 0 then ENC_TRANSMIT_FAILED
              else ENC_TRANSMIT_SUCCEEDED, d)
      })"

definition enc624j600_transmit ::
  "'d hal \<Rightarrow> bytes_at option \<Rightarrow> bytes_at option \<Rightarrow> bytes_at option \<Rightarrow> u16 \<Rightarrow> 'd enc \<Rightarrow>
   (enc624j600_transmit_result \<times> 'd enc) option" where
  "enc624j600_transmit h destination_mac length_type data len s =
     (case (destination_mac, length_type, data) of
        (Some dst, Some typ, Some buf) \<Rightarrow>
          if len \<le> 7 then Some (ENC_TRANSMIT_DATA_IS_TOO_SMALL, s)
          else if len > 1500 then Some (ENC_TRANSMIT_DATA_EXCEED_MTU, s)
          else do {
            (paused, d) \<leftarrow> flow_control_active h s;
            if paused then Some (ENC_FLOW_CONTROL_ACTIVE, s\<lparr>dev := d\<rparr>)
            else do {
              d \<leftarrow> write_frame h dst typ buf len d;
              (r, d) \<leftarrow> transmit_status h (duplex_mode s) len d;
              Some (r, s\<lparr>dev := d\<rparr>)
            }
          }
      | _ \<Rightarrow> Some (ENC_TRANSMIT_FAILED, s))"

section \<open>Reception\<close>

text \<open>
  What a successful call stores through its pointers: the two addresses, the type field, and
  \<open>*received_bytes\<close> bytes at \<open>buffer\<close>, whatever the size of the object it points at. The five
  pointer parameters are represented by whether they are not NULL.
\<close>

record received =
  rx_destination :: "u8 list"
  rx_source :: "u8 list"
  rx_length_type :: "u8 list"
  rx_buffer :: "u8 list"
  rx_received_bytes :: u16

definition enc624j600_receive ::
  "'d hal \<Rightarrow> bool \<Rightarrow> bool \<Rightarrow> bool \<Rightarrow> bool \<Rightarrow> bool \<Rightarrow> 'd enc \<Rightarrow>
   (enc624j600_receive_result \<times> received option \<times> 'd enc) option" where
  "enc624j600_receive h destination_mac source_mac length_type buffer received_bytes s =
     (if \<not> destination_mac \<or> \<not> source_mac \<or> \<not> length_type \<or> \<not> buffer \<or> \<not> received_bytes
      then Some (ENC_RECEIVE_FAILED, None, s)
      else do {
        (estat, d) \<leftarrow> read_sfr_unbanked h ESTAT (dev s);
        if estat AND (PKTCNT0 OR PKTCNT1 OR PKTCNT2 OR PKTCNT3 OR PKTCNT4 OR PKTCNT5 OR PKTCNT6
                       OR PKTCNT7) = 0
        then Some (ENC_RECEIVE_NO_PENDING_FRAME, None, s\<lparr>dev := d\<rparr>)
        else do {
          d \<leftarrow> write_buffer_pointer h ERXRDPT (next_receive_frame_pointer s) d;
          (next_frame_address, d) \<leftarrow> read_from_window_reg h ERXDATA 2 d;
          let nxt = (0 :: u16);
          let nxt = nxt OR ucast (next_frame_address ! 0);
          let nxt = nxt OR push_bit 8 (ucast (next_frame_address ! 1));
          (rsv, d) \<leftarrow> read_from_window_reg h ERXDATA 6 d;
          let frame_length = (0 :: u16);
          let frame_length = frame_length OR ucast (rsv ! 0);
          let frame_length = frame_length OR push_bit 8 (ucast (rsv ! 1));
          let data_length = frame_length - 18;
          (destination_mac, d) \<leftarrow> read_from_window_reg h ERXDATA 6 d;
          (source_mac, d) \<leftarrow> read_from_window_reg h ERXDATA 6 d;
          (length_type, d) \<leftarrow> read_from_window_reg h ERXDATA 2 d;
          (buffer, d) \<leftarrow> read_from_window_reg h ERXDATA data_length d;
          d \<leftarrow> write_sfr_unbanked h ERXTAIL (nxt - 2) d;
          d \<leftarrow> execute_single_byte_instruction h SETPKTDEC d;
          Some (ENC_RECEIVE_SUCCEEDED,
                Some \<lparr>rx_destination = destination_mac, rx_source = source_mac,
                      rx_length_type = length_type, rx_buffer = buffer,
                      rx_received_bytes = data_length\<rparr>,
                s\<lparr>next_receive_frame_pointer := nxt, dev := d\<rparr>)
        }
      })"

end
