(* ===== verification/Enc_Chip.thy ===== *)
theory Enc_Chip
  imports Enc_Driver
begin

text \<open>
  What the driver relies on from the ENC624J600 itself. The chip is hardware: it is the parameter
  \<open>h\<close> of every function of the driver, and what its data sheet documents about the SPI
  instruction set is the predicate \<open>enc_chip\<close> below, over a view of the part of its state that
  only the host changes. The theorems about registers and packet memory have \<open>enc_chip h V\<close> as
  a named hypothesis; the theory Enc_Sim shows that it can hold.
\<close>

section \<open>The view of the chip\<close>

text \<open>
  \<open>chip_ok\<close>: powered, chip select released. \<open>cfg\<close>: the registers only the host writes, the ones
  listed in \<open>config_sfrs\<close>. \<open>gp_write\<close>, \<open>rx_read\<close>: EGPWRPT and ERXRDPT. \<open>sram\<close>: the packet memory,
  and \<open>held\<close> the addresses of it the receiver does not overwrite (the general purpose area and
  the received frames that have not been released).
\<close>

record 'd chip_view =
  chip_ok :: "'d \<Rightarrow> bool"
  cfg :: "'d \<Rightarrow> u8 \<Rightarrow> u16"
  gp_write :: "'d \<Rightarrow> u16"
  rx_read :: "'d \<Rightarrow> u16"
  sram :: "'d \<Rightarrow> u16 \<Rightarrow> u8"
  held :: "'d \<Rightarrow> u16 set"

definition config_sfrs :: "u8 list" where
  "config_sfrs = [ETXST, ETXLEN, ERXST, ERXTAIL, EUDAST, EUDAND, ERXFCON, MACON1, MACON2,
     MABBIPG, MAIPG, MAMXFL, MAADR1, MAADR2, MAADR3, ERXWM, ECON2]"

text \<open>The MAC and MII registers, which the bit field instructions do not reach.\<close>

definition mac_mii :: "u8 \<Rightarrow> bool" where
  "mac_mii a \<longleftrightarrow> 0x40 \<le> a \<and> a < 0x6C"

definition cfg_write :: "u8 \<Rightarrow> u16 \<Rightarrow> (u8 \<Rightarrow> u16) \<Rightarrow> u8 \<Rightarrow> u16" where
  "cfg_write a v c = (if a \<in> set config_sfrs then c(a := v) else c)"

text \<open>Nothing the driver set up has changed; the memory it may rely on is as it was.\<close>

definition memory_kept :: "'d chip_view \<Rightarrow> 'd \<Rightarrow> 'd \<Rightarrow> bool" where
  "memory_kept V d d' \<longleftrightarrow> held V d \<subseteq> held V d' \<and> (\<forall>x\<in>held V d. sram V d' x = sram V d x)"

definition kept :: "'d chip_view \<Rightarrow> 'd \<Rightarrow> 'd \<Rightarrow> bool" where
  "kept V d d' \<longleftrightarrow> chip_ok V d' \<and> cfg V d' = cfg V d \<and> gp_write V d' = gp_write V d \<and>
     rx_read V d' = rx_read V d \<and> memory_kept V d d'"

text \<open>
  A register write or bit field instruction that turns the configuration \<open>cfg d\<close> into \<open>c\<close>.
  Moving ERXTAIL releases received frames, so it keeps nothing of the packet memory.
\<close>

definition reconfigured :: "'d chip_view \<Rightarrow> u8 \<Rightarrow> (u8 \<Rightarrow> u16) \<Rightarrow> 'd \<Rightarrow> 'd \<Rightarrow> bool" where
  "reconfigured V a c d d' \<longleftrightarrow> chip_ok V d' \<and> cfg V d' = c \<and> gp_write V d' = gp_write V d \<and>
     rx_read V d' = rx_read V d \<and> (a \<noteq> ERXTAIL \<longrightarrow> memory_kept V d d')"

text \<open>
  The two pointers that advance with every byte, for the layout the driver sets up (ERXST =
  0x2000): the read pointer wraps from the last byte of the receive buffer to its first, the
  general purpose write pointer from the last byte before ERXST to 0.
\<close>

definition rx_next :: "u16 \<Rightarrow> u16" where
  "rx_next p = (if p = 0x5FFF then 0x2000 else p + 1)"

definition gp_next :: "u16 \<Rightarrow> u16" where
  "gp_next p = (if p = 0x1FFF then 0 else p + 1)"

fun gp_store :: "u16 \<Rightarrow> u8 list \<Rightarrow> (u16 \<Rightarrow> u8) \<Rightarrow> u16 \<Rightarrow> u8" where
  "gp_store p [] m = m"
| "gp_store p (b # bs) m = gp_store (gp_next p) bs (m(p := b))"

section \<open>The documented instruction set\<close>

definition frame_law ::
  "'d hal \<Rightarrow> 'd chip_view \<Rightarrow> u8 list \<Rightarrow> ('d \<Rightarrow> u8 list \<Rightarrow> 'd \<Rightarrow> bool) \<Rightarrow> bool" where
  "frame_law h V bs Q \<longleftrightarrow>
     (\<forall>d rs d'. chip_ok V d \<longrightarrow> spi_frame h bs d = Some (rs, d') \<longrightarrow> Q d rs d')"

definition law_registers :: "'d hal \<Rightarrow> 'd chip_view \<Rightarrow> bool" where
  "law_registers h V \<longleftrightarrow> (\<forall>a x y.
     frame_law h V [RCRU, a, x, y] (\<lambda>d rs d'. kept V d d' \<and>
       (a \<in> set config_sfrs \<longrightarrow> rs ! 2 = lo8 (cfg V d a) \<and> rs ! 3 = hi8 (cfg V d a))) \<and>
     frame_law h V [WCRU, a, x, y] (\<lambda>d rs d'.
       reconfigured V a (cfg_write a (le16 x y) (cfg V d)) d d') \<and>
     frame_law h V [BFSU, a, x, y] (\<lambda>d rs d'.
       reconfigured V a (if mac_mii a then cfg V d
                         else cfg_write a (cfg V d a OR le16 x y) (cfg V d)) d d') \<and>
     frame_law h V [BFCU, a, x, y] (\<lambda>d rs d'.
       reconfigured V a (if mac_mii a then cfg V d
                         else cfg_write a (cfg V d a AND NOT (le16 x y)) (cfg V d)) d d'))"

definition law_pointers :: "'d hal \<Rightarrow> 'd chip_view \<Rightarrow> bool" where
  "law_pointers h V \<longleftrightarrow> (\<forall>p x y.
     frame_law h V [read_pointer_opcode p, x, y] (\<lambda>d rs d'. kept V d d' \<and>
       (p = EGPWRPT \<longrightarrow> le16 (rs ! 1) (rs ! 2) = gp_write V d)) \<and>
     frame_law h V [write_pointer_opcode p, x, y] (\<lambda>d rs d'.
       chip_ok V d' \<and> cfg V d' = cfg V d \<and> memory_kept V d d' \<and>
       gp_write V d' = (if p = EGPWRPT then le16 x y else gp_write V d) \<and>
       rx_read V d' = (if p = ERXRDPT then le16 x y else rx_read V d)))"

definition law_windows :: "'d hal \<Rightarrow> 'd chip_view \<Rightarrow> bool" where
  "law_windows h V \<longleftrightarrow> (\<forall>bs.
     frame_law h V (WGPDATA # bs) (\<lambda>d rs d'.
       cfg V d ERXST = 0x2000 \<and> gp_write V d < 0x2000 \<longrightarrow>
         chip_ok V d' \<and> cfg V d' = cfg V d \<and> rx_read V d' = rx_read V d \<and>
         gp_write V d' = (gp_next ^^ length bs) (gp_write V d) \<and>
         held V d \<subseteq> held V d' \<and>
         (\<forall>x\<in>held V d. sram V d' x = gp_store (gp_write V d) bs (sram V d) x)) \<and>
     frame_law h V (RRXDATA # bs) (\<lambda>d rs d'.
       chip_ok V d' \<and> cfg V d' = cfg V d \<and> gp_write V d' = gp_write V d \<and>
       rx_read V d' = (rx_next ^^ length bs) (rx_read V d) \<and> memory_kept V d d' \<and>
       (\<forall>k < length bs. (rx_next ^^ k) (rx_read V d) \<in> held V d \<longrightarrow>
          rs ! (k + 1) = sram V d ((rx_next ^^ k) (rx_read V d)))))"

definition law_commands :: "'d hal \<Rightarrow> 'd chip_view \<Rightarrow> bool" where
  "law_commands h V \<longleftrightarrow>
     (\<forall>opc\<in>{ENABLERX, DISABLERX, SETTXRTS}. frame_law h V [opc] (\<lambda>d rs d'. kept V d d')) \<and>
     frame_law h V [SETPKTDEC] (\<lambda>d rs d'. chip_ok V d' \<and> cfg V d' = cfg V d \<and>
       gp_write V d' = gp_write V d \<and> rx_read V d' = rx_read V d) \<and>
     frame_law h V [SETETHRST] (\<lambda>d rs d'. chip_ok V d') \<and>
     (\<forall>us d d'. chip_ok V d \<longrightarrow> hal_delay h us d = Some d' \<longrightarrow> kept V d d')"

text \<open>The receiver stores frames from ERXST upwards only.\<close>

definition law_memory :: "'d chip_view \<Rightarrow> bool" where
  "law_memory V \<longleftrightarrow>
     (\<forall>d. chip_ok V d \<and> cfg V d ERXST = 0x2000 \<longrightarrow> {x. x < 0x2000} \<subseteq> held V d)"

definition enc_chip :: "'d hal \<Rightarrow> 'd chip_view \<Rightarrow> bool" where
  "enc_chip h V \<longleftrightarrow> law_registers h V \<and> law_pointers h V \<and> law_windows h V \<and> law_commands h V \<and>
     law_memory V"

section \<open>The primitives over the view\<close>

text \<open>
  \<open>at V g c\<close>: the chip answers, EGPWRPT is \<open>g\<close> and the configuration registers hold \<open>c\<close>.
\<close>

definition at :: "'d chip_view \<Rightarrow> u16 \<Rightarrow> (u8 \<Rightarrow> u16) \<Rightarrow> 'd \<Rightarrow> bool" where
  "at V g c d \<longleftrightarrow> chip_ok V d \<and> gp_write V d = g \<and> cfg V d = c"

lemma config_sfrs_mem [simp]:
  "a \<in> set config_sfrs \<longleftrightarrow> a \<in> {ETXST, ETXLEN, ERXST, ERXTAIL, EUDAST, EUDAND, ERXFCON, MACON1,
     MACON2, MABBIPG, MAIPG, MAMXFL, MAADR1, MAADR2, MAADR3, ERXWM, ECON2}"
  by (simp add: config_sfrs_def)

lemma frame_lawD:
  "frame_law h V bs Q \<Longrightarrow> chip_ok V d \<Longrightarrow> spi_frame h bs d = Some (rs, d') \<Longrightarrow> Q d rs d'"
  by (auto simp: frame_law_def)

lemma read_sfr_kept:
  assumes "enc_chip h V" "chip_ok V d" "read_sfr_unbanked h a d = Some (v, d')"
  shows "kept V d d' \<and> (a \<in> set config_sfrs \<longrightarrow> v = cfg V d a)"
proof -
  from assms(3) obtain rs where f: "spi_frame h [RCRU, a, 0xAA, 0xAA] d = Some (rs, d')"
    and v: "v = le16 (rs ! 2) (rs ! 3)"
    by (auto simp: wire_simps)
  have "frame_law h V [RCRU, a, 0xAA, 0xAA] (\<lambda>d rs d'. kept V d d' \<and>
       (a \<in> set config_sfrs \<longrightarrow> rs ! 2 = lo8 (cfg V d a) \<and> rs ! 3 = hi8 (cfg V d a)))"
    using assms(1) unfolding enc_chip_def law_registers_def by blast
  from frame_lawD [OF this assms(2) f] v show ?thesis
    by auto
qed

lemma write_sfr_reconfigured:
  assumes "enc_chip h V" "chip_ok V d" "write_sfr_unbanked h a v d = Some d'"
  shows "reconfigured V a (cfg_write a v (cfg V d)) d d'"
proof -
  from assms(3) obtain rs where f: "spi_frame h [WCRU, a, lo8 v, hi8 v] d = Some (rs, d')"
    by (auto simp: wire_simps)
  have "frame_law h V [WCRU, a, lo8 v, hi8 v] (\<lambda>d rs d'.
       reconfigured V a (cfg_write a (le16 (lo8 v) (hi8 v)) (cfg V d)) d d')"
    using assms(1) unfolding enc_chip_def law_registers_def by blast
  from frame_lawD [OF this assms(2) f] show ?thesis
    by simp
qed

lemma bit_field_reconfigured:
  assumes "enc_chip h V" "chip_ok V d" "\<not> mac_mii a"
  shows "bit_field_set_sfr_unbanked h a v d = Some d' \<Longrightarrow>
           reconfigured V a (cfg_write a (cfg V d a OR v) (cfg V d)) d d'"
    and "bit_field_clear_sfr_unbanked h a v d = Some d' \<Longrightarrow>
           reconfigured V a (cfg_write a (cfg V d a AND NOT v) (cfg V d)) d d'"
proof -
  have laws: "frame_law h V [BFSU, a, lo8 v, hi8 v] (\<lambda>d rs d'.
       reconfigured V a (if mac_mii a then cfg V d
                         else cfg_write a (cfg V d a OR le16 (lo8 v) (hi8 v)) (cfg V d)) d d')"
    "frame_law h V [BFCU, a, lo8 v, hi8 v] (\<lambda>d rs d'.
       reconfigured V a (if mac_mii a then cfg V d
                         else cfg_write a (cfg V d a AND NOT (le16 (lo8 v) (hi8 v))) (cfg V d)) d d')"
    using assms(1) unfolding enc_chip_def law_registers_def by blast+
  show "reconfigured V a (cfg_write a (cfg V d a OR v) (cfg V d)) d d'"
    if "bit_field_set_sfr_unbanked h a v d = Some d'"
    using that frame_lawD [OF laws(1) assms(2)] assms(3) by (auto simp: wire_simps)
  show "reconfigured V a (cfg_write a (cfg V d a AND NOT v) (cfg V d)) d d'"
    if "bit_field_clear_sfr_unbanked h a v d = Some d'"
    using that frame_lawD [OF laws(2) assms(2)] assms(3) by (auto simp: wire_simps)
qed

lemma hal_delay_kept:
  "enc_chip h V \<Longrightarrow> chip_ok V d \<Longrightarrow> hal_delay h us d = Some d' \<Longrightarrow> kept V d d'"
  unfolding enc_chip_def law_commands_def by blast

lemma command_kept:
  assumes "enc_chip h V" "chip_ok V d" "opc \<in> {ENABLERX, DISABLERX, SETTXRTS}"
    and "execute_single_byte_instruction h opc d = Some d'"
  shows "kept V d d'"
proof -
  from assms(1,3) have "frame_law h V [opc] (\<lambda>d rs d'. kept V d d')"
    unfolding enc_chip_def law_commands_def by blast
  from frame_lawD [OF this assms(2)] assms(4) show ?thesis
    by (auto simp: wire_simps)
qed

lemma write_pointer_view:
  assumes "enc_chip h V" "chip_ok V d" "write_buffer_pointer h p v d = Some d'"
  shows "chip_ok V d' \<and> cfg V d' = cfg V d \<and> memory_kept V d d' \<and>
    gp_write V d' = (if p = EGPWRPT then v else gp_write V d) \<and>
    rx_read V d' = (if p = ERXRDPT then v else rx_read V d)"
proof -
  have "frame_law h V [write_pointer_opcode p, lo8 v, hi8 v] (\<lambda>d rs d'.
       chip_ok V d' \<and> cfg V d' = cfg V d \<and> memory_kept V d d' \<and>
       gp_write V d' = (if p = EGPWRPT then le16 (lo8 v) (hi8 v) else gp_write V d) \<and>
       rx_read V d' = (if p = ERXRDPT then le16 (lo8 v) (hi8 v) else rx_read V d))"
    using assms(1) unfolding enc_chip_def law_pointers_def by blast
  from frame_lawD [OF this assms(2)] assms(3) show ?thesis
    by (auto simp: wire_simps)
qed

section \<open>The configuration, as triples\<close>

lemma read_sfr_at:
  "enc_chip h V \<Longrightarrow> triple_val (at V g c) (read_sfr_unbanked h a)
     (\<lambda>v d. at V g c d \<and> (a \<in> set config_sfrs \<longrightarrow> v = c a))"
  by (auto simp: triple_val_def at_def kept_def simp del: config_sfrs_mem dest!: read_sfr_kept)

lemma poll_sfr_at:
  "enc_chip h V \<Longrightarrow> triple_val (at V g c) (read_sfr_unbanked h a) (\<lambda>_. at V g c)"
  by (auto simp: triple_val_def at_def kept_def simp del: config_sfrs_mem dest!: read_sfr_kept)

lemma write_sfr_at:
  "enc_chip h V \<Longrightarrow> triple (at V g c) (write_sfr_unbanked h a v) (at V g (cfg_write a v c))"
  by (auto simp: triple_def at_def reconfigured_def dest!: write_sfr_reconfigured)

lemma bit_field_set_at:
  "enc_chip h V \<Longrightarrow> \<not> mac_mii a \<Longrightarrow>
   triple (at V g c) (bit_field_set_sfr_unbanked h a v) (at V g (cfg_write a (c a OR v) c))"
  by (auto simp: triple_def at_def reconfigured_def dest!: bit_field_reconfigured(1))

lemma bit_field_clear_at:
  "enc_chip h V \<Longrightarrow> \<not> mac_mii a \<Longrightarrow>
   triple (at V g c) (bit_field_clear_sfr_unbanked h a v) (at V g (cfg_write a (c a AND NOT v) c))"
  by (auto simp: triple_def at_def reconfigured_def dest!: bit_field_reconfigured(2))

lemma write_pointer_at:
  "enc_chip h V \<Longrightarrow> triple (at V g c) (write_buffer_pointer h p v)
     (at V (if p = EGPWRPT then v else g) c)"
  by (auto simp: triple_def at_def dest!: write_pointer_view)

lemma hal_delay_at: "enc_chip h V \<Longrightarrow> triple (at V g c) (hal_delay h us) (at V g c)"
  by (auto simp: triple_def at_def kept_def dest!: hal_delay_kept)

lemma command_at:
  assumes "enc_chip h V" "opc \<in> {ENABLERX, DISABLERX, SETTXRTS}"
  shows "triple (at V g c) (execute_single_byte_instruction h opc) (at V g c)"
  unfolding triple_def
proof (intro allI impI)
  fix d d' assume "at V g c d" "execute_single_byte_instruction h opc d = Some d'"
  then show "at V g c d'"
    using command_kept [OF assms(1) _ assms(2), of d d'] by (simp add: at_def kept_def)
qed

lemma cfg_write_config: "a \<in> set config_sfrs \<Longrightarrow> cfg_write a v c = c(a := v)"
  unfolding cfg_write_def by simp

lemma cfg_write_other: "a \<notin> set config_sfrs \<Longrightarrow> cfg_write a v c = c"
  unfolding cfg_write_def by simp

lemma mac_field_set_at:
  assumes "enc_chip h V" "a \<in> set config_sfrs"
  shows "triple (at V g c) (bit_field_set_mac_sfr h a m) (at V g (c(a := c a OR m)))"
  unfolding bit_field_set_mac_sfr_def [abs_def] Let_def
proof (rule triple_bind_val [OF read_sfr_at [OF assms(1)]])
  fix v
  show "triple (\<lambda>d. at V g c d \<and> (a \<in> set config_sfrs \<longrightarrow> v = c a))
    (write_sfr_unbanked h a (v OR m)) (at V g (c(a := c a OR m)))"
    using write_sfr_at [OF assms(1), of g c a "c a OR m"] assms(2)
    unfolding triple_def cfg_write_config [OF assms(2)] by blast
qed

lemma mac_field_clear_at:
  assumes "enc_chip h V" "a \<in> set config_sfrs"
  shows "triple (at V g c) (bit_field_clear_mac_sfr h a m) (at V g (c(a := c a AND NOT m)))"
  unfolding bit_field_clear_mac_sfr_def [abs_def] Let_def
proof (rule triple_bind_val [OF read_sfr_at [OF assms(1)]])
  fix v
  show "triple (\<lambda>d. at V g c d \<and> (a \<in> set config_sfrs \<longrightarrow> v = c a))
    (write_sfr_unbanked h a (v AND NOT m)) (at V g (c(a := c a AND NOT m)))"
    using write_sfr_at [OF assms(1), of g c a "c a AND NOT m"] assms(2)
    unfolding triple_def cfg_write_config [OF assms(2)] by blast
qed

lemma write_config_at:
  assumes "enc_chip h V" "a \<in> set config_sfrs"
  shows "triple (at V g c) (write_sfr_unbanked h a v) (at V g (c(a := v)))"
  using write_sfr_at [OF assms(1), of g c a v] unfolding cfg_write_config [OF assms(2)] .

lemma write_other_at:
  assumes "enc_chip h V" "a \<notin> set config_sfrs"
  shows "triple (at V g c) (write_sfr_unbanked h a v) (at V g c)"
  using write_sfr_at [OF assms(1), of g c a v] unfolding cfg_write_other [OF assms(2)] .

lemma wait_mii_at: "enc_chip h V \<Longrightarrow> triple (at V g c) (wait_mii h) (at V g c)"
  unfolding wait_mii_def [abs_def] by (rule triple_wait) (rule poll_sfr_at)

lemma phy_not_config [simp]:
  "MIREGADR \<notin> set config_sfrs" "MICMD \<notin> set config_sfrs" "MIWR \<notin> set config_sfrs"
  by simp_all

lemma read_phy_at: "enc_chip h V \<Longrightarrow> triple_val (at V g c) (read_phy_sfr h a) (\<lambda>_. at V g c)"
  unfolding read_phy_sfr_def [abs_def]
  by (rule triple_val_bind write_other_at hal_delay_at wait_mii_at poll_sfr_at phy_not_config
      | assumption)+

lemma write_phy_at: "enc_chip h V \<Longrightarrow> triple (at V g c) (write_phy_sfr h a v) (at V g c)"
  unfolding write_phy_sfr_def [abs_def]
  by (rule triple_bind write_other_at hal_delay_at wait_mii_at phy_not_config | assumption)+

lemma phy_field_set_at: "enc_chip h V \<Longrightarrow> triple (at V g c) (bit_field_set_phy_sfr h a m) (at V g c)"
  unfolding bit_field_set_phy_sfr_def [abs_def] Let_def
  by (rule triple_bind_val read_phy_at write_phy_at | assumption)+

lemma phy_field_clear_at:
  "enc_chip h V \<Longrightarrow> triple (at V g c) (bit_field_clear_phy_sfr h a m) (at V g c)"
  unfolding bit_field_clear_phy_sfr_def [abs_def] Let_def
  by (rule triple_bind_val read_phy_at write_phy_at | assumption)+

lemma phy_init_at: "enc_chip h V \<Longrightarrow> triple (at V g c) (phy_init h config) (at V g c)"
  unfolding phy_init_def [abs_def]
  by (cases "phy_loppback config = 1"; simp only: simp_thms if_True if_False)
    (rule triple_bind phy_field_set_at phy_field_clear_at | assumption)+

end
