(* ===== verification/Enc_Init.thy ===== *)
theory Enc_Init
  imports Enc_Chip
begin

text \<open>
  What \<open>enc624j600_init\<close> leaves in the chip: every function it calls as a triple over the
  configuration registers, the effect of each receive filter, and the abstract specification
  \<open>configured\<close> of an initialised controller.
\<close>

lemma for_each_fun:
  "for_each [] body = Some"
  "for_each (i # is) body = (\<lambda>d. Option.bind (body i d) (for_each is body))"
  by (simp_all add: fun_eq_iff)

lemma triple_for_each:
  assumes "\<And>i k. k < length is \<Longrightarrow> i = is ! k \<Longrightarrow> triple (P k) (body i) (P (Suc k))"
  shows "triple (P 0) (for_each is body) (P (length is))"
proof -
  have "triple (P k) (for_each (drop k is) body) (P (length is))" if "k \<le> length is" for k
    using that
  proof (induction k rule: inc_induct)
    case base
    then show ?case by (simp add: triple_def)
  next
    case (step n)
    have "drop n is = is ! n # drop (Suc n) is"
      using step.hyps by (simp add: Cons_nth_drop_Suc)
    then have eq: "for_each (drop n is) body =
        (\<lambda>d. Option.bind (body (is ! n) d) (for_each (drop (Suc n) is) body))"
      by (simp add: for_each_fun)
    show ?case
      unfolding eq by (rule triple_bind [OF assms [OF step.hyps(2) refl] step.IH])
  qed
  from this [of 0] show ?thesis by simp
qed

section \<open>Receive filters\<close>

fun filter_bits :: "enc624j600_receive_filter \<Rightarrow> u16" where
  "filter_bits CRC_ERROR_COLLECTION_FILTER = CRCEEN"
| "filter_bits RUNT_ERROR_COLLECTION_FILTER = RUNTEEN"
| "filter_bits CRC_ERROR_REJECTION_FILTER = CRCEN"
| "filter_bits RUNT_ERROR_REJECTION_FILTER = RUNTEN"
| "filter_bits UNICAST_COLLECTION_FILTER = UCEN"
| "filter_bits NOT_ME_UNICAST_COLLECTION_FILTER = NOTMEEN"
| "filter_bits MULTICAST_COLLECTION_FILTER = MCEN"
| "filter_bits BROADCAST_COLLECTION_FILTER = BCEN"
| "filter_bits HASH_TABLE_COLLECTION_FILTER = HTEN"
| "filter_bits MAGIC_PACKET_COLLECTION_FILTER = MPEN"
| "filter_bits PATTERN_MATCH_COLLECTION_FILTER = PMEN0 OR PMEN1 OR PMEN2 OR PMEN3"

text \<open>The value of ERXFCON after a call; the pattern match filter cannot be enabled.\<close>

fun filter_value ::
  "enc624j600_receive_filter \<Rightarrow> enc624j600_receive_filter_state \<Rightarrow> u16 \<Rightarrow> u16" where
  "filter_value f DISABLE v = v AND NOT (filter_bits f)"
| "filter_value f ENABLE v =
     (if f = PATTERN_MATCH_COLLECTION_FILTER then v else v OR filter_bits f)"

lemma filter_not_mac [simp]: "\<not> mac_mii ERXFCON" "\<not> mac_mii ECON2"
  by (simp_all add: mac_mii_def)

lemma cfg_write_filter [simp]: "cfg_write ERXFCON v c = c(ERXFCON := v)"
  "cfg_write ECON2 v c = c(ECON2 := v)"
  by (simp_all add: cfg_write_config)

lemma configure_receive_filter_at:
  assumes "enc_chip h V"
  shows "triple (at V g c) (configure_receive_filter h f st)
    (at V g (c(ERXFCON := filter_value f st (c ERXFCON))))"
proof -
  note set_bit = bit_field_set_at [OF assms filter_not_mac(1), of g c "filter_bits f", unfolded cfg_write_filter]
  note clear_bit = bit_field_clear_at [OF assms filter_not_mac(1), of g c "filter_bits f", unfolded cfg_write_filter]
  show ?thesis
    using set_bit [unfolded triple_def] clear_bit [unfolded triple_def] unfolding triple_def
    by (cases f; cases st) simp_all
qed

text \<open>The filters \<open>enc624j600_init\<close> sets up, in its order.\<close>

definition initial_filters ::
  "(enc624j600_receive_filter \<times> enc624j600_receive_filter_state) list" where
  "initial_filters = [
     (CRC_ERROR_COLLECTION_FILTER, DISABLE), (RUNT_ERROR_COLLECTION_FILTER, DISABLE),
     (CRC_ERROR_REJECTION_FILTER, ENABLE), (RUNT_ERROR_REJECTION_FILTER, ENABLE),
     (UNICAST_COLLECTION_FILTER, ENABLE), (NOT_ME_UNICAST_COLLECTION_FILTER, DISABLE),
     (MULTICAST_COLLECTION_FILTER, DISABLE), (BROADCAST_COLLECTION_FILTER, ENABLE),
     (HASH_TABLE_COLLECTION_FILTER, DISABLE), (MAGIC_PACKET_COLLECTION_FILTER, DISABLE),
     (PATTERN_MATCH_COLLECTION_FILTER, DISABLE)]"

definition filters_applied ::
  "(enc624j600_receive_filter \<times> enc624j600_receive_filter_state) list \<Rightarrow> u16 \<Rightarrow> u16" where
  "filters_applied fs v = fold (\<lambda>(f, st). filter_value f st) fs v"

lemma filters_at:
  assumes "enc_chip h V"
  shows "triple (at V g c) (for_each fs (\<lambda>(f, st). configure_receive_filter h f st))
    (at V g (c(ERXFCON := filters_applied fs (c ERXFCON))))"
proof (induction fs arbitrary: c)
  case Nil
  then show ?case by (simp add: triple_def filters_applied_def)
next
  case (Cons p fs)
  obtain f st where p: "p = (f, st)" by (cases p)
  show ?case
    using triple_bind [OF configure_receive_filter_at [OF assms, of g c f st] Cons.IH]
    by (simp only: p for_each_fun prod.case filters_applied_def fold_simps o_apply fun_upd_upd
        fun_upd_same)
qed

lemma init_filters_eq:
  "init_filters h d = for_each initial_filters (\<lambda>(f, st). configure_receive_filter h f st) d"
  by (simp add: init_filters_def initial_filters_def for_each_fun del: configure_receive_filter.simps)

text \<open>A 16-bit word is known from its sixteen bits.\<close>

lemma word16_eqI:
  fixes x y :: u16
  assumes "\<forall>n\<in>{0,1,2,3,4,5,6,7,8,9,10,11,12,13,14,15}. bit x n = bit y n"
  shows "x = y"
proof (rule bit_word_eqI)
  fix n assume "n < LENGTH(16)"
  then have "n \<in> {0,1,2,3,4,5,6,7,8,9,10,11,12,13,14,15}"
    by (simp add: numeral_eq_Suc less_Suc_eq)
  with assms show "bit x n = bit y n" by blast
qed

lemma initial_filters_value:
  "filters_applied initial_filters v AND NOT 0x3000 =
     CRCEN OR RUNTEN OR UCEN OR BCEN"
  by (rule word16_eqI) (simp add: filters_applied_def initial_filters_def bit_simps)

section \<open>The stages of the initialisation\<close>

text \<open>What each stage does to the configuration registers.\<close>

definition buffers_cfg :: "(u8 \<Rightarrow> u16) \<Rightarrow> u8 \<Rightarrow> u16" where
  "buffers_cfg c = c(ECON2 := c ECON2 AND NOT 0x0F00, ERXST := 0x2000, ERXTAIL := 0x5FFE,
     EUDAST := 0x6000, EUDAND := 0x6001)"

definition address_cfg :: "bytes_at option \<Rightarrow> (u8 \<Rightarrow> u16) \<Rightarrow> u8 \<Rightarrow> u16" where
  "address_cfg mac c = (case mac of None \<Rightarrow> c
     | Some m \<Rightarrow> c(MAADR1 := le16 (m 0) (m 1), MAADR2 := le16 (m 2) (m 3), MAADR3 := le16 (m 4) (m 5)))"

definition field :: "bool \<Rightarrow> u16 \<Rightarrow> u16 \<Rightarrow> u16" where
  "field b m v = (if b then v OR m else v AND NOT m)"

definition mac_cfg :: "enc624j600_config \<Rightarrow> (u8 \<Rightarrow> u16) \<Rightarrow> u8 \<Rightarrow> u16" where
  "mac_cfg config c =
     (address_cfg (mac_address config) (c(ERXWM := 0xAA55, ECON2 := c ECON2 OR AUTOFC)))
       (MAMXFL := 0x05EE,
        MACON1 := field (mac_loopback config = 1) LOOPBK (c MACON1),
        MACON2 := (field (mac_huge_frame config = 1) HFRMEN (c MACON2) AND NOT 0x00E0)
                    OR PADCFG0 OR TXCRCEN)"

definition duplex_cfg :: "enc624j600_duplex_mode \<Rightarrow> (u8 \<Rightarrow> u16) \<Rightarrow> u8 \<Rightarrow> u16" where
  "duplex_cfg mode c = c(MACON2 := field (mode = FULL_DUPLEX) FULDPX (c MACON2),
     MABBIPG := (if mode = FULL_DUPLEX then 0x0015 else 0x0012))"

lemma at_eq: "triple P m (at V g c) \<Longrightarrow> c = c' \<Longrightarrow> triple P m (at V g c')"
  by simp

lemma config_members:
  "ERXST \<in> set config_sfrs" "ERXTAIL \<in> set config_sfrs" "EUDAST \<in> set config_sfrs"
  "EUDAND \<in> set config_sfrs" "ERXWM \<in> set config_sfrs" "MAMXFL \<in> set config_sfrs"
  "MABBIPG \<in> set config_sfrs" "MACON1 \<in> set config_sfrs" "MACON2 \<in> set config_sfrs"
  "ETXST \<in> set config_sfrs" "ETXLEN \<in> set config_sfrs"
  by simp_all

lemma econ2_set_at:
  "enc_chip h V \<Longrightarrow>
   triple (at V g c) (bit_field_set_sfr_unbanked h ECON2 v) (at V g (c(ECON2 := c ECON2 OR v)))"
  using bit_field_set_at [OF _ filter_not_mac(2), unfolded cfg_write_filter] .

lemma econ2_clear_at:
  "enc_chip h V \<Longrightarrow>
   triple (at V g c) (bit_field_clear_sfr_unbanked h ECON2 v) (at V g (c(ECON2 := c ECON2 AND NOT v)))"
  using bit_field_clear_at [OF _ filter_not_mac(2), unfolded cfg_write_filter] .

lemma pointer_at:
  assumes "enc_chip h V"
  shows "triple (at V g c) (write_buffer_pointer h EGPWRPT v) (at V v c)"
    and "triple (at V g c) (write_buffer_pointer h ERXRDPT v) (at V g c)"
    and "triple (at V g c) (write_buffer_pointer h ERXWRPT v) (at V g c)"
    and "triple (at V g c) (write_buffer_pointer h EGPRDPT v) (at V g c)"
    and "triple (at V g c) (write_buffer_pointer h EUDARDPT v) (at V g c)"
    and "triple (at V g c) (write_buffer_pointer h EUDAWRPT v) (at V g c)"
  using write_pointer_at [OF assms, of g c EGPWRPT v] write_pointer_at [OF assms, of g c ERXRDPT v]
    write_pointer_at [OF assms, of g c ERXWRPT v] write_pointer_at [OF assms, of g c EGPRDPT v]
    write_pointer_at [OF assms, of g c EUDARDPT v] write_pointer_at [OF assms, of g c EUDAWRPT v]
  by simp_all

lemma init_buffers_at:
  assumes "enc_chip h V"
  shows "triple (at V g c) (init_buffers h) (at V 0 (buffers_cfg c))"
proof -
  have "triple (at V g c) (init_buffers h) (at V 0 (c(ECON2 := c ECON2 AND NOT (COCON0 OR COCON1 OR
      COCON2 OR COCON3), ERXST := 0x2000, ERXTAIL := 0x5FFE, EUDAST := 0x6000, EUDAND := 0x6001)))"
    unfolding init_buffers_def [abs_def]
    by (rule triple_bind econ2_clear_at [OF assms] write_config_at [OF assms]
        pointer_at [OF assms] config_members)+
  then show ?thesis
    by (simp add: buffers_cfg_def)
qed

lemma mac_part_eq: "0 OR ucast a OR push_bit 8 (ucast b) = le16 a b"
  by (simp add: le16_def)

lemma address_at:
  assumes "enc_chip h V"
  shows "triple (at V g c) (\<lambda>d. case mac of None \<Rightarrow> Some d
       | Some mac \<Rightarrow> for_each [0, 2, 4] (\<lambda>i d.
           let mac_part = (0 :: u16);
               mac_part = mac_part OR ucast (mac i);
               mac_part = mac_part OR push_bit 8 (ucast (mac (i + 1)))
           in write_sfr_unbanked h (MAADR1 - of_nat i) mac_part d) d)
     (at V g (address_cfg mac c))"
proof (cases mac)
  case None
  then show ?thesis by (simp add: address_cfg_def triple_Some)
next
  case (Some m)
  have mem: "MAADR1 \<in> set config_sfrs" "MAADR2 \<in> set config_sfrs" "MAADR3 \<in> set config_sfrs"
    by simp_all
  have idx: "of_nat 2 = (2 :: u8)" "of_nat 4 = (4 :: u8)" "MAADR1 - (2 :: u8) = MAADR2"
    "MAADR1 - (4 :: u8) = MAADR3" by simp_all
  have "triple (at V g c) (\<lambda>d. Option.bind (write_sfr_unbanked h MAADR1 (le16 (m 0) (m 1)) d)
      (\<lambda>d. Option.bind (write_sfr_unbanked h MAADR2 (le16 (m 2) (m 3)) d)
      (\<lambda>d. Option.bind (write_sfr_unbanked h MAADR3 (le16 (m 4) (m 5)) d) Some)))
    (at V g (c(MAADR1 := le16 (m 0) (m 1), MAADR2 := le16 (m 2) (m 3), MAADR3 := le16 (m 4) (m 5))))"
    by (rule triple_bind write_config_at [OF assms] triple_Some mem)+
  then show ?thesis
    by (simp add: Some address_cfg_def for_each_fun mac_part_eq idx Let_def le16_def)
qed

lemma triple_ite:
  "(b \<Longrightarrow> triple P f Q) \<Longrightarrow> (\<not> b \<Longrightarrow> triple P g Q) \<Longrightarrow>
   triple P (\<lambda>d. if b then f d else g d) Q"
  by (simp add: triple_def)

lemma mac_field_at:
  assumes "enc_chip h V" "a \<in> set config_sfrs"
  shows "triple (at V g c) (\<lambda>d. if b then bit_field_set_mac_sfr h a m d
      else bit_field_clear_mac_sfr h a m d) (at V g (c(a := field b m (c a))))"
  using mac_field_set_at [OF assms, of g c m] mac_field_clear_at [OF assms, of g c m]
  by (cases b) (simp_all add: field_def)

lemma mac_init_at:
  assumes "enc_chip h V"
  shows "triple (at V g c) (mac_init h config) (at V g (mac_cfg config c))"
proof -
  let ?c1 = "c(ERXWM := 0xAA55)"
  let ?c2 = "?c1(ECON2 := ?c1 ECON2 OR AUTOFC)"
  let ?c3 = "address_cfg (mac_address config) ?c2"
  let ?c4 = "?c3(MAMXFL := 0x05EE)"
  let ?c5 = "?c4(MACON2 := field (mac_huge_frame config = 1) HFRMEN (?c4 MACON2))"
  let ?c6 = "?c5(MACON1 := field (mac_loopback config = 1) LOOPBK (?c5 MACON1))"
  let ?c7 = "?c6(MACON2 := ?c6 MACON2 AND NOT (PADCFG0 OR PADCFG1 OR PADCFG2))"
  let ?c8 = "?c7(MACON2 := ?c7 MACON2 OR PADCFG0)"
  let ?c9 = "?c8(MACON2 := ?c8 MACON2 OR TXCRCEN)"
  have "triple (at V g c) (mac_init h config) (at V g ?c9)"
    unfolding mac_init_def [abs_def]
    by (rule triple_bind write_config_at [OF assms] econ2_set_at [OF assms] address_at [OF assms]
        mac_field_at [OF assms] mac_field_set_at [OF assms] mac_field_clear_at [OF assms]
        config_members)+
  moreover have "?c9 = mac_cfg config c"
    by (cases "mac_address config") (auto simp: mac_cfg_def address_cfg_def fun_eq_iff or.assoc)
  ultimately show ?thesis by simp
qed

lemma init_filters_at:
  "enc_chip h V \<Longrightarrow> triple (at V g c) (init_filters h)
     (at V g (c(ERXFCON := filters_applied initial_filters (c ERXFCON))))"
  unfolding init_filters_eq [abs_def] by (rule filters_at)

lemma wait_link_at: "enc_chip h V \<Longrightarrow> triple (at V g c) (wait_link h) (at V g c)"
  unfolding wait_link_def [abs_def] by (rule triple_bind triple_wait read_phy_at | assumption)+

lemma init_duplex_at:
  assumes "enc_chip h V"
  shows "triple_val (at V g c) (init_duplex h) (\<lambda>mode. at V g (duplex_cfg mode c))"
  unfolding init_duplex_def [abs_def]
proof (rule triple_val_bind_val [OF poll_sfr_at [OF assms]])
  fix estat
  let ?f = "\<lambda>(upd :: 'a \<Rightarrow> 'a option) v mode d. Option.bind (upd d)
    (\<lambda>d. Option.bind (write_sfr_unbanked h MABBIPG v d) (\<lambda>d. Some (mode, d)))"
  have duplex: "triple_val (at V g c) (?f upd v mode) (\<lambda>mode. at V g (duplex_cfg mode c))"
    if "triple (at V g c) upd (at V g (c(MACON2 := field (mode = FULL_DUPLEX) FULDPX (c MACON2))))"
      and "v = (if mode = FULL_DUPLEX then 0x0015 else 0x0012)" for upd v mode
    using that tripleD [OF write_config_at [OF assms config_members(7)]]
    by (auto simp: triple_val_def triple_def duplex_cfg_def Option.bind_eq_Some_conv
        simp del: config_sfrs_mem)
  show "triple_val (at V g c)
     (\<lambda>d. if estat AND PHYDPX > 0
          then ?f (bit_field_set_mac_sfr h MACON2 FULDPX) 0x0015 FULL_DUPLEX d
          else ?f (bit_field_clear_mac_sfr h MACON2 FULDPX) 0x0012 HALF_DUPLEX d)
     (\<lambda>mode. at V g (duplex_cfg mode c))"
    using duplex [of "bit_field_set_mac_sfr h MACON2 FULDPX" FULL_DUPLEX]
      duplex [of "bit_field_clear_mac_sfr h MACON2 FULDPX" HALF_DUPLEX]
      mac_field_set_at [OF assms config_members(9), of g c FULDPX]
      mac_field_clear_at [OF assms config_members(9), of g c FULDPX]
    by (cases "estat AND PHYDPX > 0") (simp_all add: field_def)
qed

text \<open>The reset leaves the chip answering; what its registers then hold is not assumed.\<close>

lemma reset_at:
  assumes "enc_chip h V"
  shows "triple (chip_ok V) (reset h) (chip_ok V)"
proof -
  have ok: "triple (chip_ok V) m (chip_ok V)" if "\<And>g c. triple (at V g c) m (\<lambda>d. \<exists>g c. at V g c d)" for m
    using that unfolding triple_def at_def by blast
  have ok_val: "triple_val (chip_ok V) m (\<lambda>_. chip_ok V)"
    if "\<And>g c. triple_val (at V g c) m (\<lambda>_ d. \<exists>g c. at V g c d)" for m :: "'a \<Rightarrow> (u16 \<times> 'a) option"
    using that unfolding triple_val_def at_def by blast
  have rd: "triple_val (chip_ok V) (read_sfr_unbanked h a) (\<lambda>_. chip_ok V)" for a
    by (rule ok_val) (unfold triple_val_def, blast dest: triple_valD [OF poll_sfr_at [OF assms]])
  have wr: "triple (chip_ok V) (write_sfr_unbanked h a v) (chip_ok V)" for a v
    by (rule ok) (unfold triple_def, blast dest: tripleD [OF write_sfr_at [OF assms]])
  have dl: "triple (chip_ok V) (hal_delay h us) (chip_ok V)" for us
    by (rule ok) (unfold triple_def, blast dest: tripleD [OF hal_delay_at [OF assms]])
  have rst: "triple (chip_ok V) (execute_single_byte_instruction h SETETHRST) (chip_ok V)"
    unfolding triple_def
  proof (intro allI impI)
    fix d d' assume "chip_ok V d" and e: "execute_single_byte_instruction h SETETHRST d = Some d'"
    moreover have "frame_law h V [SETETHRST] (\<lambda>d rs d'. chip_ok V d')"
      using assms unfolding enc_chip_def law_commands_def by blast
    moreover from e obtain rs where "spi_frame h [SETETHRST] d = Some (rs, d')"
      by (auto simp: wire_simps)
    ultimately show "chip_ok V d'" by (blast dest: frame_lawD)
  qed
  show ?thesis
    unfolding reset_def [abs_def]
    by (rule triple_bind triple_val_bind triple_wait rd wr dl rst)+
qed

section \<open>The initialised controller\<close>

text \<open>
  What the comments of \<open>enc624j600_init\<close> and of the configuration structure promise: the receive
  buffer is 0x2000 to 0x5FFF with its tail on the last even address, the user-defined area is
  disabled by pointing it past the memory, the accepted frames are the valid unicast and broadcast
  ones, frames are limited to 1518 bytes, padded to 60 bytes and given a CRC by the MAC, automatic
  flow control is on with its thresholds, and the duplex setting is the negotiated one.
\<close>

definition configured ::
  "enc624j600_config \<Rightarrow> enc624j600_duplex_mode \<Rightarrow> (u8 \<Rightarrow> u16) \<Rightarrow> bool" where
  "configured config mode c \<longleftrightarrow>
     c ERXST = 0x2000 \<and> c ERXTAIL = 0x5FFE \<and> c EUDAST = 0x6000 \<and> c EUDAND = 0x6001 \<and>
     c ERXFCON AND NOT 0x3000 = CRCEN OR RUNTEN OR UCEN OR BCEN \<and>
     c ERXWM = 0xAA55 \<and> c MAMXFL = 1518 \<and>
     c ECON2 AND (AUTOFC OR TXMAC OR 0x0F00) = AUTOFC OR TXMAC \<and>
     c MACON2 AND (PADCFG0 OR PADCFG1 OR PADCFG2 OR TXCRCEN OR HFRMEN OR FULDPX) =
       PADCFG0 OR TXCRCEN OR (if mac_huge_frame config = 1 then HFRMEN else 0)
         OR (if mode = FULL_DUPLEX then FULDPX else 0) \<and>
     c MACON1 AND LOOPBK = (if mac_loopback config = 1 then LOOPBK else 0) \<and>
     c MABBIPG = (if mode = FULL_DUPLEX then 0x15 else 0x12) \<and>
     (case mac_address config of None \<Rightarrow> True
      | Some m \<Rightarrow> c MAADR1 = le16 (m 0) (m 1) \<and> c MAADR2 = le16 (m 2) (m 3) \<and>
                  c MAADR3 = le16 (m 4) (m 5))"

definition init_cfg ::
  "enc624j600_config \<Rightarrow> enc624j600_duplex_mode \<Rightarrow> (u8 \<Rightarrow> u16) \<Rightarrow> u8 \<Rightarrow> u16" where
  "init_cfg config mode c =
     (let c = buffers_cfg c; c = c(ERXFCON := filters_applied initial_filters (c ERXFCON));
          c = c(ECON2 := c ECON2 OR TXMAC)
      in duplex_cfg mode (mac_cfg config c))"

lemma address_cfg_other:
  "a \<notin> {MAADR1, MAADR2, MAADR3} \<Longrightarrow> address_cfg mac c a = c a"
  by (cases mac) (auto simp: address_cfg_def)

lemma init_cfg_configured: "configured config mode (init_cfg config mode c)"
  unfolding configured_def
proof (intro conjI)
  show "init_cfg config mode c ERXFCON AND NOT 0x3000 = CRCEN OR RUNTEN OR UCEN OR BCEN"
    using initial_filters_value
    by (simp add: init_cfg_def duplex_cfg_def mac_cfg_def address_cfg_other Let_def)
  show "init_cfg config mode c ECON2 AND (AUTOFC OR TXMAC OR 0x0F00) = AUTOFC OR TXMAC"
    by (rule word16_eqI) (simp add: init_cfg_def duplex_cfg_def mac_cfg_def address_cfg_other
        buffers_cfg_def Let_def bit_simps)
  show "init_cfg config mode c MACON2 AND
      (PADCFG0 OR PADCFG1 OR PADCFG2 OR TXCRCEN OR HFRMEN OR FULDPX) =
       PADCFG0 OR TXCRCEN OR (if mac_huge_frame config = 1 then HFRMEN else 0)
         OR (if mode = FULL_DUPLEX then FULDPX else 0)"
    by (rule word16_eqI) (simp add: init_cfg_def duplex_cfg_def mac_cfg_def field_def
        buffers_cfg_def Let_def bit_simps)
  show "init_cfg config mode c MACON1 AND LOOPBK = (if mac_loopback config = 1 then LOOPBK else 0)"
    by (rule word16_eqI) (simp add: init_cfg_def duplex_cfg_def mac_cfg_def field_def
        buffers_cfg_def Let_def bit_simps)
  show "case mac_address config of None \<Rightarrow> True
      | Some m \<Rightarrow> init_cfg config mode c MAADR1 = le16 (m 0) (m 1) \<and>
          init_cfg config mode c MAADR2 = le16 (m 2) (m 3) \<and>
          init_cfg config mode c MAADR3 = le16 (m 4) (m 5)"
    by (simp add: init_cfg_def duplex_cfg_def mac_cfg_def address_cfg_def Let_def
        split: option.split)
qed (simp_all add: init_cfg_def duplex_cfg_def mac_cfg_def buffers_cfg_def address_cfg_other Let_def)

lemma init_at:
  assumes "enc_chip h V" "chip_ok V (dev s)" "enc624j600_init h config s = Some s'"
  shows "\<exists>c. at V 0 (init_cfg config (duplex_mode s') c) (dev s') \<and>
    next_receive_frame_pointer s' = 0x2000"
proof -
  from assms(3) obtain d1 d2 d3 d4 d5 d6 d7 d8 d9 m d10 d11 where steps:
    "reset h (dev s) = Some d1" "init_buffers h d1 = Some d2" "init_filters h d2 = Some d3"
    "bit_field_set_sfr_unbanked h ECON2 TXMAC d3 = Some d4" "mac_init h config d4 = Some d5"
    "phy_init h config d5 = Some d6" "execute_single_byte_instruction h ENABLERX d6 = Some d7"
    "wait_link h d7 = Some d8" "execute_single_byte_instruction h DISABLERX d8 = Some d9"
    "init_duplex h d9 = Some (m, d10)"
    "execute_single_byte_instruction h ENABLERX d10 = Some d11"
    and s': "s' = s\<lparr>duplex_mode := m, next_receive_frame_pointer := 0x2000, dev := d11\<rparr>"
    by (auto simp: enc624j600_init_def Option.bind_eq_Some_conv)
  let ?c = "cfg V d1"
  let ?b = "buffers_cfg ?c"
  let ?f = "?b(ERXFCON := filters_applied initial_filters (?b ERXFCON))"
  let ?t = "?f(ECON2 := ?f ECON2 OR TXMAC)"
  have ops: "ENABLERX \<in> {ENABLERX, DISABLERX, SETTXRTS}" "DISABLERX \<in> {ENABLERX, DISABLERX, SETTXRTS}"
    by simp_all
  have "at V (gp_write V d1) ?c d1"
    using tripleD [OF reset_at [OF assms(1)], OF steps(1) assms(2)] by (simp add: at_def)
  note a2 = tripleD [OF init_buffers_at [OF assms(1)], OF steps(2) this]
  note a3 = tripleD [OF init_filters_at [OF assms(1)], OF steps(3) a2]
  note a4 = tripleD [OF econ2_set_at [OF assms(1)], OF steps(4) a3]
  note a5 = tripleD [OF mac_init_at [OF assms(1)], OF steps(5) a4]
  note a6 = tripleD [OF phy_init_at [OF assms(1)], OF steps(6) a5]
  note a7 = tripleD [OF command_at [OF assms(1) ops(1)], OF steps(7) a6]
  note a8 = tripleD [OF wait_link_at [OF assms(1)], OF steps(8) a7]
  note a9 = tripleD [OF command_at [OF assms(1) ops(2)], OF steps(9) a8]
  note a10 = triple_valD [OF init_duplex_at [OF assms(1)], OF steps(10) a9]
  note a11 = tripleD [OF command_at [OF assms(1) ops(1)], OF steps(11) a10]
  have "at V 0 (init_cfg config m ?c) d11"
    using a11 by (simp add: init_cfg_def Let_def)
  then show ?thesis
    unfolding s' by auto
qed

end
