(* ===== verification/Enc_Frames.thy ===== *)
theory Enc_Frames
  imports Enc_Chip
begin

text \<open>
  What \<open>enc624j600_transmit\<close> puts into the packet memory and what \<open>enc624j600_receive\<close> takes out
  of it: the circular buffers of the two window registers, the frame as the driver lays it out,
  and the functional behaviour of both calls over the view of the chip.
\<close>

section \<open>The circular general purpose buffer\<close>

lemma unat_gp_next: "p < 0x2000 \<Longrightarrow> unat (gp_next p) = (unat p + 1) mod 0x2000"
  for p :: u16
proof (cases "p = 0x1FFF")
  case False
  moreover assume "p < 0x2000"
  ultimately have "unat p < 0x1FFF"
    by (simp add: word_less_nat_alt word_unat_eq_iff)
  then show ?thesis
    using False by (simp add: gp_next_def unat_word_ariths)
qed (simp add: gp_next_def)

lemma gp_iter:
  "p < 0x2000 \<Longrightarrow> unat ((gp_next ^^ k) p) = (unat p + k) mod 0x2000 \<and> (gp_next ^^ k) p < 0x2000"
  for p :: u16
proof (induction k)
  case (Suc k)
  then have "unat ((gp_next ^^ Suc k) p) = (unat p + Suc k) mod 0x2000"
    by (simp add: unat_gp_next mod_Suc_eq)
  moreover from this have "unat ((gp_next ^^ Suc k) p) < 0x2000" by simp
  ultimately show ?case by (simp add: word_less_nat_alt)
qed (simp add: word_less_nat_alt)

lemma gp_iter_inj:
  assumes "p < (0x2000 :: u16)" "i < 0x2000" "j < 0x2000" "(gp_next ^^ i) p = (gp_next ^^ j) p"
  shows "i = j"
proof -
  have "(unat p + i) mod 0x2000 = (unat p + j) mod 0x2000"
    using assms(4) gp_iter [OF assms(1)] by metis
  then show ?thesis
    using mod_shift_inj assms(2,3) by blast
qed

lemma gp_store_append:
  "gp_store p (as @ bs) m = gp_store ((gp_next ^^ length as) p) bs (gp_store p as m)"
  by (induction as arbitrary: p m) (simp_all add: funpow_swap1)

lemma gp_store_other:
  "(\<forall>k < length bs. x \<noteq> (gp_next ^^ k) p) \<Longrightarrow> gp_store p bs m x = m x"
proof (induction bs arbitrary: p m)
  case (Cons b bs)
  have "x \<noteq> p" using Cons.prems by (force dest: spec [of _ 0])
  moreover have "\<forall>k < length bs. x \<noteq> (gp_next ^^ k) (gp_next p)"
    using Cons.prems by (auto simp: funpow_swap1 dest: spec [of _ "Suc _"])
  ultimately show ?case using Cons.IH by simp
qed simp

lemma gp_store_nth:
  assumes "p < (0x2000 :: u16)" "length bs \<le> 0x2000" "k < length bs"
  shows "gp_store p bs m ((gp_next ^^ k) p) = bs ! k"
  using assms
proof (induction bs arbitrary: p m k)
  case (Cons b bs)
  show ?case
  proof (cases k)
    case 0
    have "p \<noteq> (gp_next ^^ i) (gp_next p)" if "i < length bs" for i
      using gp_iter_inj [of p 0 "Suc i"] Cons.prems that by (auto simp: funpow_swap1)
    then show ?thesis
      using 0 gp_store_other [of bs p "gp_next p" "m(p := b)"] by simp
  next
    case (Suc i)
    have "gp_next p < 0x2000" using gp_iter [OF Cons.prems(1), of 1] by simp
    from Cons.IH [OF this, of i "m(p := b)"] show ?thesis
      using Suc Cons.prems by (simp add: funpow_swap1 del: fun_upd_apply)
  qed
qed simp

section \<open>Writing the frame\<close>

definition frame_bytes :: "bytes_at \<Rightarrow> bytes_at \<Rightarrow> bytes_at \<Rightarrow> u16 \<Rightarrow> u8 list" where
  "frame_bytes destination_mac length_type data len =
     map destination_mac [0..<6] @ map length_type [0..<2] @ map data [0..<unat len]"

lemma frame_bytes_length: "length (frame_bytes dst typ buf len) = 8 + unat len"
  by (simp add: frame_bytes_def)

text \<open>
  The chip is ready for the driver: the receive buffer starts where the initialisation put it
  and the general purpose pointer is below it.
\<close>

definition gp_ready :: "'d chip_view \<Rightarrow> 'd \<Rightarrow> bool" where
  "gp_ready V d \<longleftrightarrow> chip_ok V d \<and> cfg V d ERXST = 0x2000 \<and> gp_write V d < 0x2000"

text \<open>Bytes \<open>bs\<close> were stored through the general purpose window and nothing else happened.\<close>

definition gp_stored :: "'d chip_view \<Rightarrow> u8 list \<Rightarrow> 'd \<Rightarrow> 'd \<Rightarrow> bool" where
  "gp_stored V bs d d' \<longleftrightarrow> chip_ok V d' \<and> cfg V d' = cfg V d \<and> rx_read V d' = rx_read V d \<and>
     gp_write V d' = (gp_next ^^ length bs) (gp_write V d) \<and> held V d \<subseteq> held V d' \<and>
     (\<forall>x\<in>held V d. sram V d' x = gp_store (gp_write V d) bs (sram V d) x)"

lemma gp_stored_ready: "gp_ready V d \<Longrightarrow> gp_stored V bs d d' \<Longrightarrow> gp_ready V d'"
  using gp_iter by (auto simp: gp_ready_def gp_stored_def)

lemma gp_store_cong:
  "(\<forall>x\<in>H. m x = m' x) \<Longrightarrow> x \<in> H \<Longrightarrow> gp_store p bs m x = gp_store p bs m' x"
  by (induction bs arbitrary: p m m') simp_all

lemma gp_stored_trans:
  assumes "gp_stored V as d e" "gp_stored V bs e f"
  shows "gp_stored V (as @ bs) d f"
proof -
  have "sram V f x = gp_store (gp_write V d) (as @ bs) (sram V d) x" if x: "x \<in> held V d" for x
  proof -
    have "sram V f x = gp_store (gp_write V e) bs (sram V e) x"
      using assms x by (auto simp: gp_stored_def)
    also have "\<dots> = gp_store (gp_write V e) bs (gp_store (gp_write V d) as (sram V d)) x"
      using assms(1) x by (intro gp_store_cong [where H = "held V d"]) (auto simp: gp_stored_def)
    finally show ?thesis
      using assms(1) by (simp add: gp_store_append gp_stored_def)
  qed
  moreover have "(gp_next ^^ (length as + length bs)) p = (gp_next ^^ length bs) ((gp_next ^^ length as) p)"
    for p by (metis add.commute comp_apply funpow_add)
  ultimately show ?thesis
    using assms by (auto simp: gp_stored_def)
qed

lemma write_window_stored:
  assumes "enc_chip h V" "gp_ready V d" "write_to_window_reg h EGPDATA buf n d = Some d'"
  shows "gp_stored V (map buf [0..<unat n]) d d'"
proof -
  have law: "frame_law h V (WGPDATA # map buf [0..<unat n]) (\<lambda>d rs d'.
       cfg V d ERXST = 0x2000 \<and> gp_write V d < 0x2000 \<longrightarrow>
         chip_ok V d' \<and> cfg V d' = cfg V d \<and> rx_read V d' = rx_read V d \<and>
         gp_write V d' = (gp_next ^^ length (map buf [0..<unat n])) (gp_write V d) \<and>
         held V d \<subseteq> held V d' \<and>
         (\<forall>x\<in>held V d. sram V d' x = gp_store (gp_write V d) (map buf [0..<unat n]) (sram V d) x))"
    using assms(1) unfolding enc_chip_def law_windows_def by blast
  from assms(3) obtain rs where
    f: "spi_frame h (WGPDATA # map buf [0..<unat n]) d = Some (rs, d')"
    by (auto simp: wire_simps)
  from assms(2) have ok: "chip_ok V d" by (simp add: gp_ready_def)
  from frame_lawD [OF law ok f] assms(2) show ?thesis
    unfolding gp_stored_def gp_ready_def by blast
qed

lemma read_egpwrpt:
  assumes "enc_chip h V" "chip_ok V d" "read_buffer_pointer h EGPWRPT d = Some (v, d')"
  shows "kept V d d' \<and> v = gp_write V d"
proof -
  have law: "frame_law h V [read_pointer_opcode EGPWRPT, 0xAA, 0xAA] (\<lambda>d rs d'. kept V d d' \<and>
       (EGPWRPT = EGPWRPT \<longrightarrow> le16 (rs ! 1) (rs ! 2) = gp_write V d))"
    using assms(1) unfolding enc_chip_def law_pointers_def by blast
  from assms(3) obtain rs where
    "spi_frame h [read_pointer_opcode EGPWRPT, 0xAA, 0xAA] d = Some (rs, d')"
    "v = le16 (rs ! 1) (rs ! 2)"
    by (auto simp: wire_simps simp del: read_pointer_opcode.simps)
  with frame_lawD [OF law assms(2)] show ?thesis by blast
qed

text \<open>The memory below ERXST, as far as the driver may rely on it.\<close>

definition gp_memory :: "'d chip_view \<Rightarrow> (u16 \<Rightarrow> u8) \<Rightarrow> 'd \<Rightarrow> bool" where
  "gp_memory V m d \<longleftrightarrow> (\<forall>x < 0x2000. sram V d x = m x)"

lemma gp_memory_kept:
  assumes "enc_chip h V" "gp_ready V d" "memory_kept V d d'" "gp_memory V m d"
  shows "gp_memory V m d'"
proof -
  have "{x. x < 0x2000} \<subseteq> held V d"
    using assms(1,2) unfolding enc_chip_def law_memory_def gp_ready_def by blast
  then show ?thesis
    using assms(3,4) by (auto simp: gp_memory_def memory_kept_def)
qed

lemma gp_memory_stored:
  assumes "enc_chip h V" "gp_ready V d" "gp_stored V bs d d'"
  shows "gp_memory V (gp_store (gp_write V d) bs (sram V d)) d'"
proof -
  have "{x. x < 0x2000} \<subseteq> held V d"
    using assms(1,2) unfolding enc_chip_def law_memory_def gp_ready_def by blast
  then show ?thesis
    using assms(3) by (auto simp: gp_memory_def gp_stored_def)
qed

text \<open>The state between two accesses: configuration, pointer and memory below ERXST.\<close>

definition gp_state :: "'d chip_view \<Rightarrow> u16 \<Rightarrow> (u8 \<Rightarrow> u16) \<Rightarrow> (u16 \<Rightarrow> u8) \<Rightarrow> 'd \<Rightarrow> bool" where
  "gp_state V p c m d \<longleftrightarrow> gp_ready V d \<and> gp_write V d = p \<and> cfg V d = c \<and> gp_memory V m d"

lemma gp_state_kept:
  assumes "enc_chip h V" "gp_state V p c m d" "kept V d d'"
  shows "gp_state V p c m d'"
  using assms gp_memory_kept [OF assms(1), of d d' m]
  by (auto simp: gp_state_def gp_ready_def kept_def)

lemma gp_state_written:
  assumes "enc_chip h V" "gp_state V p c m d" "write_sfr_unbanked h a v d = Some d'"
    and "a \<in> set config_sfrs" "a \<noteq> ERXTAIL" "a \<noteq> ERXST"
  shows "gp_state V p (c(a := v)) m d'"
  using write_sfr_reconfigured [OF assms(1) _ assms(3)] assms(2,5,6) cfg_write_config [OF assms(4)]
    gp_memory_kept [OF assms(1), of d d' m]
  by (auto simp: gp_state_def gp_ready_def reconfigured_def simp del: config_sfrs_mem)

lemma gp_state_read:
  assumes "enc_chip h V" "gp_state V p c m d" "read_sfr_unbanked h a d = Some (v, d')"
  shows "gp_state V p c m d'"
proof (rule gp_state_kept [OF assms(1,2)])
  have "chip_ok V d" using assms(2) by (simp add: gp_state_def gp_ready_def)
  from read_sfr_kept [OF assms(1) this assms(3)] show "kept V d d'" by blast
qed

lemma write_frame_stored:
  assumes "enc_chip h V" "gp_state V p c m d" "write_frame h dst typ buf len d = Some d'"
  shows "\<exists>m'. gp_state V ((gp_next ^^ (8 + unat len)) p) (c(ETXST := p, ETXLEN := 8 + len)) m' d' \<and>
    (\<forall>x < 0x2000. m' x = gp_store p (frame_bytes dst typ buf len) m x)"
proof -
  from assms(3) obtain v d1 d2 d3 d4 d5 d6 d7 where steps:
    "read_buffer_pointer h EGPWRPT d = Some (v, d1)"
    "write_to_window_reg h EGPDATA dst 6 d1 = Some d2"
    "write_to_window_reg h EGPDATA typ 2 d2 = Some d3"
    "write_to_window_reg h EGPDATA buf len d3 = Some d4"
    "write_sfr_unbanked h ETXST v d4 = Some d5" "write_sfr_unbanked h ETXLEN (8 + len) d5 = Some d6"
    "execute_single_byte_instruction h SETTXRTS d6 = Some d7"
    "wait_while (\<lambda>v. v AND TXRTS \<noteq> 0) (read_sfr_unbanked h ECON1) d7 = Some d'"
    by (auto simp: write_frame_def Option.bind_eq_Some_conv)
  have ok: "chip_ok V d" using assms(2) by (simp add: gp_state_def gp_ready_def)
  from read_egpwrpt [OF assms(1) ok steps(1)] have "kept V d d1" and v: "v = p"
    using assms(2) by (auto simp: gp_state_def)
  note s1 = gp_state_kept [OF assms(1,2) this(1)]
  then have r1: "gp_ready V d1" by (simp add: gp_state_def)
  note w1 = write_window_stored [OF assms(1) r1 steps(2)]
  note r2 = gp_stored_ready [OF r1 w1]
  note w2 = write_window_stored [OF assms(1) r2 steps(3)]
  note r3 = gp_stored_ready [OF r2 w2]
  note w3 = write_window_stored [OF assms(1) r3 steps(4)]
  have w: "gp_stored V (frame_bytes dst typ buf len) d1 d4"
    using gp_stored_trans [OF w1 gp_stored_trans [OF w2 w3]] by (simp add: frame_bytes_def)
  let ?m = "gp_store p (frame_bytes dst typ buf len) (sram V d1)"
  let ?p = "(gp_next ^^ (8 + unat len)) p"
  have s4: "gp_state V ?p c ?m d4"
    using gp_memory_stored [OF assms(1) r1 w] gp_stored_ready [OF r1 w] w s1
    by (simp add: gp_state_def gp_stored_def frame_bytes_length)
  have mem: "ETXST \<in> set config_sfrs" "ETXLEN \<in> set config_sfrs" by simp_all
  have s5: "gp_state V ?p (c(ETXST := p)) ?m d5"
    using gp_state_written [OF assms(1) s4 steps(5) mem(1)] v by simp
  have s6: "gp_state V ?p (c(ETXST := p, ETXLEN := 8 + len)) ?m d6"
    using gp_state_written [OF assms(1) s5 steps(6) mem(2)] by simp
  have "kept V d6 d7"
    by (rule command_kept [OF assms(1) _ _ steps(7)]) (use s6 in \<open>simp_all add: gp_state_def gp_ready_def\<close>)
  note s7 = gp_state_kept [OF assms(1) s6 this]
  have s8: "gp_state V ?p (c(ETXST := p, ETXLEN := 8 + len)) ?m d'"
    by (rule wait_while_invariant [where I = "gp_state V ?p (c(ETXST := p, ETXLEN := 8 + len)) ?m",
          THEN conjunct1, OF steps(8) s7])
      (rule gp_state_read [OF assms(1)])
  have "?m x = gp_store p (frame_bytes dst typ buf len) m x" if "x < 0x2000" for x
    using s1 that by (intro gp_store_cong [where H = "{x. x < 0x2000}"])
      (auto simp: gp_state_def gp_memory_def)
  with s8 show ?thesis by blast
qed

section \<open>Transmission\<close>

lemma flow_control_state:
  assumes "enc_chip h V" "gp_state V p c m (dev s)" "flow_control_active h s = Some (b, d)"
  shows "gp_state V p c m d"
  using gp_state_read [OF assms(1,2)] assms(3)
  by (auto simp: flow_control_active_def Option.bind_eq_Some_conv split: if_splits)

lemma transmit_status_state:
  assumes "enc_chip h V" "gp_state V p c m d" "transmit_status h mode len d = Some (r, d')"
  shows "gp_state V p c m d' \<and> r \<in> {ENC_TRANSMIT_SUCCEEDED, ENC_TRANSMIT_FAILED}"
  using gp_state_read [OF assms(1,2)] assms(3)
  by (auto simp: transmit_status_def Option.bind_eq_Some_conv split: if_splits)

text \<open>
  A call that got past its argument checks either found flow control active and changed nothing,
  or stored the frame in the circular buffer at the old EGPWRPT, left it there, and pointed the
  transmitter at it.
\<close>

definition frame_sent ::
  "'d chip_view \<Rightarrow> bytes_at \<Rightarrow> bytes_at \<Rightarrow> bytes_at \<Rightarrow> u16 \<Rightarrow> 'd \<Rightarrow> 'd \<Rightarrow> bool" where
  "frame_sent V dst typ buf len d d' \<longleftrightarrow>
     cfg V d' = (cfg V d)(ETXST := gp_write V d, ETXLEN := 8 + len) \<and>
     gp_write V d' = (gp_next ^^ (8 + unat len)) (gp_write V d) \<and>
     (\<forall>k < 8 + unat len. sram V d' ((gp_next ^^ k) (gp_write V d)) = frame_bytes dst typ buf len ! k)"

lemma transmit_state:
  assumes "enc_chip h V" "gp_ready V (dev s)"
    and "enc624j600_transmit h (Some dst) (Some typ) (Some buf) len s = Some (r, s')"
    and "7 < len" "len \<le> 1500"
  shows "gp_ready V (dev s') \<and> s' = s\<lparr>dev := dev s'\<rparr> \<and>
    (if r = ENC_FLOW_CONTROL_ACTIVE
     then gp_state V (gp_write V (dev s)) (cfg V (dev s)) (sram V (dev s)) (dev s')
     else frame_sent V dst typ buf len (dev s) (dev s') \<and>
       r \<in> {ENC_TRANSMIT_SUCCEEDED, ENC_TRANSMIT_FAILED})"
proof -
  let ?p = "gp_write V (dev s)" and ?c = "cfg V (dev s)" and ?m = "sram V (dev s)"
  have s0: "gp_state V ?p ?c ?m (dev s)"
    using assms(2) by (simp add: gp_state_def gp_memory_def)
  have "\<not> len \<le> 7" "\<not> len > 1500" using assms(4,5) by simp_all
  with assms(3) obtain paused d1 where
    fc: "flow_control_active h s = Some (paused, d1)"
    and rest: "if paused then r = ENC_FLOW_CONTROL_ACTIVE \<and> s' = s\<lparr>dev := d1\<rparr>
      else \<exists>d2 d3. write_frame h dst typ buf len d1 = Some d2 \<and>
        transmit_status h (duplex_mode s) len d2 = Some (r, d3) \<and> s' = s\<lparr>dev := d3\<rparr>"
    by (auto simp: enc624j600_transmit_def Option.bind_eq_Some_conv split: if_splits)
  note s1 = flow_control_state [OF assms(1) s0 fc]
  show ?thesis
  proof (cases paused)
    case True
    with rest s1 show ?thesis by (simp add: gp_state_def)
  next
    case False
    with rest obtain d2 d3 where steps: "write_frame h dst typ buf len d1 = Some d2"
      "transmit_status h (duplex_mode s) len d2 = Some (r, d3)" and s': "s' = s\<lparr>dev := d3\<rparr>"
      by auto
    from write_frame_stored [OF assms(1) s1 steps(1)] obtain m' where
      s2: "gp_state V ((gp_next ^^ (8 + unat len)) ?p) (?c(ETXST := ?p, ETXLEN := 8 + len)) m' d2"
      and m': "\<forall>x < 0x2000. m' x = gp_store ?p (frame_bytes dst typ buf len) ?m x"
      by blast
    from transmit_status_state [OF assms(1) s2 steps(2)]
    have s3: "gp_state V ((gp_next ^^ (8 + unat len)) ?p) (?c(ETXST := ?p, ETXLEN := 8 + len)) m' d3"
      and r: "r \<in> {ENC_TRANSMIT_SUCCEEDED, ENC_TRANSMIT_FAILED}" by blast+
    have p: "?p < 0x2000" using assms(2) by (simp add: gp_ready_def)
    have "length (frame_bytes dst typ buf len) \<le> 0x2000"
      using assms(5) by (simp add: frame_bytes_length word_le_nat_alt)
    then have "sram V d3 ((gp_next ^^ k) ?p) = frame_bytes dst typ buf len ! k"
      if "k < 8 + unat len" for k
      using gp_store_nth [OF p, of "frame_bytes dst typ buf len" k ?m] that gp_iter [OF p, of k]
        s3 m' by (simp add: gp_state_def gp_memory_def frame_bytes_length)
    then have "frame_sent V dst typ buf len (dev s) d3"
      using s3 by (simp add: frame_sent_def gp_state_def)
    then show ?thesis
      using s3 r s' by (auto simp: gp_state_def)
  qed
qed

section \<open>Reading the receive buffer\<close>

text \<open>The bytes \<open>bs\<close> lie in the receive buffer from address \<open>p\<close> on, not released yet.\<close>

definition frame_at :: "'d chip_view \<Rightarrow> 'd \<Rightarrow> u16 \<Rightarrow> u8 list \<Rightarrow> bool" where
  "frame_at V d p bs \<longleftrightarrow> (\<forall>k < length bs.
     (rx_next ^^ k) p \<in> held V d \<and> sram V d ((rx_next ^^ k) p) = bs ! k)"

lemma frame_at_kept: "memory_kept V d d' \<Longrightarrow> frame_at V d p bs \<Longrightarrow> frame_at V d' p bs"
  by (auto simp: frame_at_def memory_kept_def)

lemma frame_at_take:
  assumes "frame_at V d p (as @ bs)"
  shows "frame_at V d p as" "frame_at V d ((rx_next ^^ length as) p) bs"
proof -
  show "frame_at V d p as"
    unfolding frame_at_def
  proof (intro allI impI)
    fix k assume "k < length as"
    with assms show "(rx_next ^^ k) p \<in> held V d \<and> sram V d ((rx_next ^^ k) p) = as ! k"
      by (auto simp: frame_at_def nth_append dest: spec [of _ k])
  qed
  show "frame_at V d ((rx_next ^^ length as) p) bs"
    unfolding frame_at_def
  proof (intro allI impI)
    fix k assume k: "k < length bs"
    have "(rx_next ^^ k) ((rx_next ^^ length as) p) = (rx_next ^^ (length as + k)) p"
      by (metis add.commute comp_apply funpow_add)
    with assms k show "(rx_next ^^ k) ((rx_next ^^ length as) p) \<in> held V d \<and>
        sram V d ((rx_next ^^ k) ((rx_next ^^ length as) p)) = bs ! k"
      by (auto simp: frame_at_def nth_append dest: spec [of _ "length as + k"])
  qed
qed

text \<open>The state between two reads: configuration, read pointer, the rest of the frame.\<close>

definition rx_state ::
  "'d chip_view \<Rightarrow> u16 \<Rightarrow> (u8 \<Rightarrow> u16) \<Rightarrow> u8 list \<Rightarrow> 'd \<Rightarrow> bool" where
  "rx_state V g c bs d \<longleftrightarrow> at V g c d \<and> frame_at V d (rx_read V d) bs"

lemma read_window_state:
  assumes "enc_chip h V" "rx_state V g c (as @ bs) d" "unat n = length as"
    and "read_from_window_reg h ERXDATA n d = Some (rs, d')"
  shows "rs = as \<and> rx_state V g c bs d'"
proof -
  let ?aa = "replicate (unat n) (0xAA :: u8)"
  have law: "frame_law h V (RRXDATA # ?aa) (\<lambda>d rs d'.
       chip_ok V d' \<and> cfg V d' = cfg V d \<and> gp_write V d' = gp_write V d \<and>
       rx_read V d' = (rx_next ^^ length ?aa) (rx_read V d) \<and> memory_kept V d d' \<and>
       (\<forall>k < length ?aa. (rx_next ^^ k) (rx_read V d) \<in> held V d \<longrightarrow>
          rs ! (k + 1) = sram V d ((rx_next ^^ k) (rx_read V d))))"
    using assms(1) unfolding enc_chip_def law_windows_def by blast
  from assms(4) obtain ss where f: "spi_frame h (RRXDATA # ?aa) d = Some (ss, d')" and rs: "rs = tl ss"
    by (auto simp: wire_simps)
  have len: "length ss = Suc (length as)"
    using spi_frame_length [OF f] assms(3) by simp
  from assms(2) have ok: "chip_ok V d" and at: "frame_at V d (rx_read V d) (as @ bs)"
    by (simp_all add: rx_state_def at_def)
  note view = frame_lawD [OF law ok f]
  have "rs = as"
  proof (rule nth_equalityI)
    show "length rs = length as" using rs len by simp
    fix k assume "k < length rs"
    then have k: "k < length as" using rs len by simp
    with frame_at_take(1) [OF at] view assms(3) have "ss ! (k + 1) = as ! k"
      by (auto simp: frame_at_def)
    then show "rs ! k = as ! k" using rs len k by (simp add: nth_tl)
  qed
  moreover have "frame_at V d' (rx_read V d') bs"
    using frame_at_kept [OF _ frame_at_take(2) [OF at], of d'] view assms(3) by simp
  ultimately show ?thesis
    using view assms(2) by (simp add: rx_state_def at_def)
qed

text \<open>The same without knowing what is read.\<close>

lemma read_window_any:
  assumes "enc_chip h V" "at V g c d" "read_from_window_reg h ERXDATA n d = Some (rs, d')"
  shows "length rs = unat n \<and> at V g c d'"
proof -
  let ?aa = "replicate (unat n) (0xAA :: u8)"
  have law: "frame_law h V (RRXDATA # ?aa) (\<lambda>d rs d'.
       chip_ok V d' \<and> cfg V d' = cfg V d \<and> gp_write V d' = gp_write V d \<and>
       rx_read V d' = (rx_next ^^ length ?aa) (rx_read V d) \<and> memory_kept V d d' \<and>
       (\<forall>k < length ?aa. (rx_next ^^ k) (rx_read V d) \<in> held V d \<longrightarrow>
          rs ! (k + 1) = sram V d ((rx_next ^^ k) (rx_read V d))))"
    using assms(1) unfolding enc_chip_def law_windows_def by blast
  from assms(3) obtain ss where f: "spi_frame h (RRXDATA # ?aa) d = Some (ss, d')" and rs: "rs = tl ss"
    by (auto simp: wire_simps)
  show ?thesis
    using frame_lawD [OF law _ f] spi_frame_length [OF f] rs assms(2) by (auto simp: at_def)
qed

section \<open>Reception\<close>

text \<open>
  The frame as the chip stores it: the address of the next frame, the receive status vector,
  whose first two bytes are the length of the frame with its CRC, then the frame.
\<close>

definition rx_header :: "u16 \<Rightarrow> u16 \<Rightarrow> u8 list \<Rightarrow> u8 list" where
  "rx_header nxt frame_length status =
     [lo8 nxt, hi8 nxt] @ [lo8 frame_length, hi8 frame_length] @ status"

text \<open>The steps of a successful call, with the two assembled values written as \<open>le16\<close>.\<close>

lemma receive_steps:
  assumes "enc624j600_receive h True True True True True s = Some (ENC_RECEIVE_SUCCEEDED, Some r, s')"
  obtains estat d1 d2 nx d3 rsv d4 d5 d6 d7 d8 d9 d10 where
    "read_sfr_unbanked h ESTAT (dev s) = Some (estat, d1)"
    "write_buffer_pointer h ERXRDPT (next_receive_frame_pointer s) d1 = Some d2"
    "read_from_window_reg h ERXDATA 2 d2 = Some (nx, d3)"
    "read_from_window_reg h ERXDATA 6 d3 = Some (rsv, d4)"
    "read_from_window_reg h ERXDATA 6 d4 = Some (rx_destination r, d5)"
    "read_from_window_reg h ERXDATA 6 d5 = Some (rx_source r, d6)"
    "read_from_window_reg h ERXDATA 2 d6 = Some (rx_length_type r, d7)"
    "read_from_window_reg h ERXDATA (le16 (rsv ! 0) (rsv ! 1) - 18) d7 = Some (rx_buffer r, d8)"
    "write_sfr_unbanked h ERXTAIL (le16 (nx ! 0) (nx ! 1) - 2) d8 = Some d9"
    "execute_single_byte_instruction h SETPKTDEC d9 = Some d10"
    "rx_received_bytes r = le16 (rsv ! 0) (rsv ! 1) - 18"
    "s' = s\<lparr>next_receive_frame_pointer := le16 (nx ! 0) (nx ! 1), dev := d10\<rparr>"
  using assms
  by (auto simp: enc624j600_receive_def Option.bind_eq_Some_conv Let_def le16_def
      split: if_splits prod.splits)

lemma setpktdec_at:
  assumes "enc_chip h V"
  shows "triple (at V g c) (execute_single_byte_instruction h SETPKTDEC) (at V g c)"
  unfolding triple_def
proof (intro allI impI)
  fix d d' assume a: "at V g c d" and e: "execute_single_byte_instruction h SETPKTDEC d = Some d'"
  have law: "frame_law h V [SETPKTDEC] (\<lambda>d rs d'. chip_ok V d' \<and> cfg V d' = cfg V d \<and>
       gp_write V d' = gp_write V d \<and> rx_read V d' = rx_read V d)"
    using assms unfolding enc_chip_def law_commands_def by blast
  from e obtain rs where f: "spi_frame h [SETPKTDEC] d = Some (rs, d')"
    by (auto simp: wire_simps)
  show "at V g c d'"
    using frame_lawD [OF law _ f] a by (simp add: at_def)
qed

lemma read_two_bytes: "unat (2 :: u16) = 2" "unat (6 :: u16) = 6"
  by simp_all

lemma read_sfr_frame:
  assumes "enc_chip h V" "at V g c d" "frame_at V d p bs" "read_sfr_unbanked h a d = Some (v, d')"
  shows "at V g c d' \<and> frame_at V d' p bs"
proof -
  have "kept V d d'"
    using read_sfr_kept [OF assms(1) _ assms(4)] assms(2) by (simp add: at_def)
  with assms(2,3) show ?thesis
    by (auto simp: at_def kept_def intro: frame_at_kept)
qed

lemma seek_frame:
  assumes "enc_chip h V" "at V g c d" "frame_at V d p bs" "write_buffer_pointer h ERXRDPT p d = Some d'"
  shows "rx_state V g c bs d'"
  using write_pointer_view [OF assms(1) _ assms(4)] assms(2,3)
  by (auto simp: rx_state_def at_def intro: frame_at_kept)

text \<open>From the header alone: what the call reports and where it leaves the receive buffer.\<close>

lemma receive_header:
  assumes "enc_chip h V" "chip_ok V (dev s)" "length status = 4"
    and frame: "frame_at V (dev s) (next_receive_frame_pointer s) (rx_header nxt frame_length status @ rest)"
    and rcv: "enc624j600_receive h True True True True True s
                = Some (ENC_RECEIVE_SUCCEEDED, Some r, s')"
  shows "next_receive_frame_pointer s' = nxt \<and> duplex_mode s' = duplex_mode s \<and>
    rx_received_bytes r = frame_length - 18 \<and> length (rx_buffer r) = unat (frame_length - 18) \<and>
    at V (gp_write V (dev s)) ((cfg V (dev s))(ERXTAIL := nxt - 2)) (dev s')"
  using rcv
proof (rule receive_steps)
  fix estat d1 d2 nx d3 rsv d4 d5 d6 d7 d8 d9 d10
  assume steps: "read_sfr_unbanked h ESTAT (dev s) = Some (estat, d1)"
    "write_buffer_pointer h ERXRDPT (next_receive_frame_pointer s) d1 = Some d2"
    "read_from_window_reg h ERXDATA 2 d2 = Some (nx, d3)"
    "read_from_window_reg h ERXDATA 6 d3 = Some (rsv, d4)"
    "read_from_window_reg h ERXDATA 6 d4 = Some (rx_destination r, d5)"
    "read_from_window_reg h ERXDATA 6 d5 = Some (rx_source r, d6)"
    "read_from_window_reg h ERXDATA 2 d6 = Some (rx_length_type r, d7)"
    "read_from_window_reg h ERXDATA (le16 (rsv ! 0) (rsv ! 1) - 18) d7 = Some (rx_buffer r, d8)"
    "write_sfr_unbanked h ERXTAIL (le16 (nx ! 0) (nx ! 1) - 2) d8 = Some d9"
    "execute_single_byte_instruction h SETPKTDEC d9 = Some d10"
    "rx_received_bytes r = le16 (rsv ! 0) (rsv ! 1) - 18"
    "s' = s\<lparr>next_receive_frame_pointer := le16 (nx ! 0) (nx ! 1), dev := d10\<rparr>"
  let ?g = "gp_write V (dev s)" and ?c = "cfg V (dev s)"
  let ?p = "next_receive_frame_pointer s"
  have a0: "at V ?g ?c (dev s)" using assms(2) by (simp add: at_def)
  from read_sfr_frame [OF assms(1) a0 frame steps(1)]
  have a1: "at V ?g ?c d1" and f1: "frame_at V d1 ?p (rx_header nxt frame_length status @ rest)" by blast+
  have "rx_state V ?g ?c ([lo8 nxt, hi8 nxt] @ ([lo8 frame_length, hi8 frame_length] @ status) @ rest) d2"
    using seek_frame [OF assms(1) a1 f1 steps(2)] by (simp add: rx_header_def)
  from read_window_state [OF assms(1) this _ steps(3)]
  have nx: "nx = [lo8 nxt, hi8 nxt]"
    and s3: "rx_state V ?g ?c (([lo8 frame_length, hi8 frame_length] @ status) @ rest) d3"
    by simp_all
  from read_window_state [OF assms(1) s3 _ steps(4)] assms(3)
  have rsv: "rsv = [lo8 frame_length, hi8 frame_length] @ status" and s4: "rx_state V ?g ?c rest d4"
    by simp_all
  have a4: "at V ?g ?c d4" using s4 by (simp add: rx_state_def)
  note a5 = read_window_any [OF assms(1) a4 steps(5), THEN conjunct2]
  note a6 = read_window_any [OF assms(1) a5 steps(6), THEN conjunct2]
  note a7 = read_window_any [OF assms(1) a6 steps(7), THEN conjunct2]
  note a8 = read_window_any [OF assms(1) a7 steps(8)]
  have "ERXTAIL \<in> set config_sfrs" by simp
  note a9 = tripleD [OF write_config_at [OF assms(1) this], OF steps(9) a8 [THEN conjunct2]]
  note a10 = tripleD [OF setpktdec_at [OF assms(1)], OF steps(10) a9]
  show ?thesis
    using a8 a10 steps(11,12) nx rsv by simp
qed

text \<open>With the whole frame in the buffer, the call returns its parts.\<close>

lemma receive_parts:
  assumes "enc_chip h V" "chip_ok V (dev s)" "length status = 4"
    and lens: "length dst = 6" "length src = 6" "length typ = 2"
      "unat (frame_length - 18) = length payload"
    and frame: "frame_at V (dev s) (next_receive_frame_pointer s)
                  (rx_header nxt frame_length status @ dst @ src @ typ @ payload)"
    and rcv: "enc624j600_receive h True True True True True s
                = Some (ENC_RECEIVE_SUCCEEDED, Some r, s')"
  shows "r = \<lparr>rx_destination = dst, rx_source = src, rx_length_type = typ, rx_buffer = payload,
              rx_received_bytes = frame_length - 18\<rparr>"
  using rcv
proof (rule receive_steps)
  fix estat d1 d2 nx d3 rsv d4 d5 d6 d7 d8 d9 d10
  assume steps: "read_sfr_unbanked h ESTAT (dev s) = Some (estat, d1)"
    "write_buffer_pointer h ERXRDPT (next_receive_frame_pointer s) d1 = Some d2"
    "read_from_window_reg h ERXDATA 2 d2 = Some (nx, d3)"
    "read_from_window_reg h ERXDATA 6 d3 = Some (rsv, d4)"
    "read_from_window_reg h ERXDATA 6 d4 = Some (rx_destination r, d5)"
    "read_from_window_reg h ERXDATA 6 d5 = Some (rx_source r, d6)"
    "read_from_window_reg h ERXDATA 2 d6 = Some (rx_length_type r, d7)"
    "read_from_window_reg h ERXDATA (le16 (rsv ! 0) (rsv ! 1) - 18) d7 = Some (rx_buffer r, d8)"
    "rx_received_bytes r = le16 (rsv ! 0) (rsv ! 1) - 18"
  let ?g = "gp_write V (dev s)" and ?c = "cfg V (dev s)"
  let ?p = "next_receive_frame_pointer s"
  have a0: "at V ?g ?c (dev s)" using assms(2) by (simp add: at_def)
  from read_sfr_frame [OF assms(1) a0 frame steps(1)] have a1: "at V ?g ?c d1"
    and f1: "frame_at V d1 ?p (rx_header nxt frame_length status @ dst @ src @ typ @ payload)" by blast+
  have "rx_state V ?g ?c ([lo8 nxt, hi8 nxt] @ ([lo8 frame_length, hi8 frame_length] @ status) @
      dst @ src @ typ @ payload) d2"
    using seek_frame [OF assms(1) a1 f1 steps(2)] by (simp add: rx_header_def)
  from read_window_state [OF assms(1) this _ steps(3)]
  have s3: "rx_state V ?g ?c (([lo8 frame_length, hi8 frame_length] @ status) @
      dst @ src @ typ @ payload) d3"
    by simp
  from read_window_state [OF assms(1) s3 _ steps(4)] assms(3)
  have rsv: "rsv = [lo8 frame_length, hi8 frame_length] @ status"
    and s4: "rx_state V ?g ?c (dst @ src @ typ @ payload) d4"
    by simp_all
  from read_window_state [OF assms(1) s4 _ steps(5)] lens
  have r1: "rx_destination r = dst" and s5: "rx_state V ?g ?c (src @ typ @ payload) d5" by simp_all
  from read_window_state [OF assms(1) s5 _ steps(6)] lens
  have r2: "rx_source r = src" and s6: "rx_state V ?g ?c (typ @ payload) d6" by simp_all
  from read_window_state [OF assms(1) s6 _ steps(7)] lens
  have r3: "rx_length_type r = typ" and s7: "rx_state V ?g ?c (payload @ []) d7" by simp_all
  from read_window_state [OF assms(1) s7 _ steps(8)] rsv lens
  have r4: "rx_buffer r = payload" by simp
  show ?thesis
    using r1 r2 r3 r4 steps(9) rsv by simp
qed

end
