(* ===== verification/Enc_Bus.thy ===== *)
theory Enc_Bus
  imports Enc_Driver
begin

text \<open>
  The bus discipline of the driver, over the contract of its HAL: every function, on every path
  on which it returns, leaves the bus idle and puts only complete frames on it.
\<close>

lemmas returns_simps = Option.bind_eq_Some_conv Let_def

context enc_hal begin

lemma access_ext:
  "execute_single_byte_instruction h opc d = Some d' \<Longrightarrow> extends obs ok d d'"
  "write_sfr_unbanked h a v d = Some d' \<Longrightarrow> extends obs ok d d'"
  "bit_field_set_sfr_unbanked h a v d = Some d' \<Longrightarrow> extends obs ok d d'"
  "bit_field_clear_sfr_unbanked h a v d = Some d' \<Longrightarrow> extends obs ok d d'"
  "write_buffer_pointer h p v d = Some d' \<Longrightarrow> extends obs ok d d'"
  "write_to_window_reg h w buf n d = Some d' \<Longrightarrow> extends obs ok d d'"
  by (auto simp: wire_simps dest: spi_frame_extends)

lemma read_ext:
  "read_sfr_unbanked h a d = Some (v, d') \<Longrightarrow> extends obs ok d d'"
  "read_buffer_pointer h p d = Some (v, d') \<Longrightarrow> extends obs ok d d'"
  "read_from_window_reg h w n d = Some (bs, d') \<Longrightarrow> extends obs ok d d'"
  by (auto simp: wire_simps dest: spi_frame_extends)

lemma wait_ext:
  assumes "wait_while p rd d = Some d'"
    and "\<And>e v e'. rd e = Some (v, e') \<Longrightarrow> extends obs ok e e'"
  shows "extends obs ok d d'"
proof -
  have "extends obs ok d e'" if "extends obs ok d e" "rd e = Some (v, e')" for e v e'
    using assms(2) [OF that(2)] that(1) by (blast intro: extends_trans)
  with wait_while_invariant [where I = "extends obs ok d", OF assms(1) extends_refl]
  show ?thesis by blast
qed

text \<open>A chain of steps is collapsed by joining what each of them appended.\<close>

lemmas chain_ext = extends_def framed_append

lemma mac_field_ext:
  "bit_field_set_mac_sfr h a m d = Some d' \<Longrightarrow> extends obs ok d d'"
  "bit_field_clear_mac_sfr h a m d = Some d' \<Longrightarrow> extends obs ok d d'"
  unfolding bit_field_set_mac_sfr_def bit_field_clear_mac_sfr_def
  by (auto simp: returns_simps intro: extends_trans dest!: read_ext access_ext)

lemma wait_mii_ext: "wait_mii h d = Some d' \<Longrightarrow> extends obs ok d d'"
  unfolding wait_mii_def by (erule wait_ext) (rule read_ext)

lemma phy_ext:
  "read_phy_sfr h a d = Some (v, d') \<Longrightarrow> extends obs ok d d'"
  "write_phy_sfr h a v d = Some d' \<Longrightarrow> extends obs ok d d'"
  unfolding read_phy_sfr_def write_phy_sfr_def
  by (auto simp: returns_simps dest!: read_ext access_ext wait_mii_ext hal_delay_extends)
    (auto simp: chain_ext)

lemma phy_field_ext:
  "bit_field_set_phy_sfr h a m d = Some d' \<Longrightarrow> extends obs ok d d'"
  "bit_field_clear_phy_sfr h a m d = Some d' \<Longrightarrow> extends obs ok d d'"
  unfolding bit_field_set_phy_sfr_def bit_field_clear_phy_sfr_def
  by (auto simp: returns_simps intro: extends_trans dest!: phy_ext)

lemma filter_ext: "configure_receive_filter h f st d = Some d' \<Longrightarrow> extends obs ok d d'"
  by (cases f; cases st) (auto dest: access_ext)

lemmas step_ext = access_ext read_ext mac_field_ext phy_ext phy_field_ext filter_ext
  hal_delay_extends

lemma poll_ext:
  "wait_while p (read_sfr_unbanked h a) d = Some d' \<Longrightarrow> extends obs ok d d'"
  "wait_while p (read_phy_sfr h a) d = Some d' \<Longrightarrow> extends obs ok d d'"
  "wait_while p (\<lambda>d. Option.bind (write_sfr_unbanked h a v d) (read_sfr_unbanked h a)) d = Some d' \<Longrightarrow>
     extends obs ok d d'"
  by (erule wait_ext, auto simp: returns_simps intro: extends_trans dest!: step_ext)+

lemma reset_ext: "reset h d = Some d' \<Longrightarrow> extends obs ok d d'"
  unfolding reset_def
  by (auto simp: returns_simps dest!: step_ext poll_ext split: if_splits)
    (auto simp: chain_ext)

lemma init_buffers_ext: "init_buffers h d = Some d' \<Longrightarrow> extends obs ok d d'"
  unfolding init_buffers_def
  by (auto simp: returns_simps dest!: step_ext poll_ext split: if_splits)
    (auto simp: chain_ext)

lemma init_filters_ext: "init_filters h d = Some d' \<Longrightarrow> extends obs ok d d'"
  unfolding init_filters_def
  by (auto simp: returns_simps dest!: step_ext poll_ext split: if_splits)
    (auto simp: chain_ext)

lemma phy_init_ext: "phy_init h config d = Some d' \<Longrightarrow> extends obs ok d d'"
  unfolding phy_init_def
  by (auto simp: returns_simps dest!: step_ext poll_ext split: if_splits)
    (auto simp: chain_ext)

lemma wait_link_ext: "wait_link h d = Some d' \<Longrightarrow> extends obs ok d d'"
  unfolding wait_link_def
  by (auto simp: returns_simps dest!: step_ext poll_ext split: if_splits)
    (auto simp: chain_ext)

lemma init_duplex_ext: "init_duplex h d = Some (mode, d') \<Longrightarrow> extends obs ok d d'"
  unfolding init_duplex_def
  by (auto simp: returns_simps dest!: step_ext poll_ext split: if_splits)
    (auto simp: chain_ext)

lemmas init_part_ext = reset_ext init_buffers_ext init_filters_ext phy_init_ext wait_link_ext init_duplex_ext

lemma mac_address_ext:
  "for_each is (\<lambda>i. write_sfr_unbanked h (a i) (v i)) d = Some d' \<Longrightarrow> extends obs ok d d'"
  by (erule for_each_invariant) (auto dest!: access_ext intro: extends_trans)

lemma mac_choice_ext:
  "(if b then bit_field_set_mac_sfr h a m d else bit_field_clear_mac_sfr h a m d) = Some d' \<Longrightarrow>
     extends obs ok d d'"
  "(case opt of None \<Rightarrow> Some d
    | Some mac \<Rightarrow> for_each is (\<lambda>i. write_sfr_unbanked h (ad i) (v mac i)) d) = Some d' \<Longrightarrow>
     extends obs ok d d'"
  by (auto dest!: mac_field_ext mac_address_ext split: if_splits option.splits)

lemma mac_init_ext: "mac_init h config d = Some d' \<Longrightarrow> extends obs ok d d'"
  unfolding mac_init_def Let_def
  by (auto simp: Option.bind_eq_Some_conv dest!: access_ext mac_field_ext mac_choice_ext
      simp del: for_each.simps) (auto simp: chain_ext)

lemma init_ext:
  "enc624j600_init h config s = Some s' \<Longrightarrow> extends obs ok (dev s) (dev s')"
  unfolding enc624j600_init_def
  by (auto simp: returns_simps dest!: step_ext init_part_ext mac_init_ext) (auto simp: chain_ext)

lemma transmit_ext:
  "enc624j600_transmit h dst typ data len s = Some (r, s') \<Longrightarrow> extends obs ok (dev s) (dev s')"
  unfolding enc624j600_transmit_def flow_control_active_def write_frame_def transmit_status_def
  by (auto simp: returns_simps dest!: step_ext poll_ext split: option.splits if_splits)
    (auto simp: chain_ext)

lemma receive_ext:
  "enc624j600_receive h p1 p2 p3 p4 p5 s = Some (r, out, s') \<Longrightarrow> extends obs ok (dev s) (dev s')"
  unfolding enc624j600_receive_def
  by (auto simp: returns_simps dest!: step_ext split: if_splits) (auto simp: chain_ext)

end

end
