(* ===== verification/Enc_Sim.thy ===== *)
theory Enc_Sim
  imports Enc_Init Enc_Frames Enc_Bus
begin

text \<open>
  A concrete SPI slave with the documented behaviour of the chip: it answers register, pointer
  and window reads byte by byte and applies a frame when chip select is released. It shows that the
  hypotheses \<open>enc_chip h V\<close> and \<open>enc_hal h obs ok\<close> of the properties can hold together, and the
  witnesses run the driver against it. It models no code of the repository.
\<close>

record sim =
  s_in :: "u8 list"
  s_log :: "bus_event list"
  s_cfg :: "u8 \<Rightarrow> u16"
  s_gpw :: u16
  s_rxr :: u16
  s_mem :: "u16 \<Rightarrow> u8"

text \<open>
  The registers the chip itself drives: clock ready, full duplex, one frame pending, MII idle,
  link up, no transmission in progress, and the length of the last transmission.
\<close>

definition sim_status :: "sim \<Rightarrow> u8 \<Rightarrow> u16" where
  "sim_status s a =
     (if a = ESTAT then CLKRDY OR PHYDPX OR PKTCNT0
      else if a = MIRD then ANDONE OR LLSTAT
      else if a = ETXWIRE then 18 + (if s_cfg s ETXLEN - 8 < 46 then 46 else s_cfg s ETXLEN - 8)
      else 0)"

definition sim_word :: "sim \<Rightarrow> u8 \<Rightarrow> u16" where
  "sim_word s a = (if a \<in> set config_sfrs then s_cfg s a else sim_status s a)"

definition sim_reply :: "sim \<Rightarrow> u8 list \<Rightarrow> u8" where
  "sim_reply s ins = (case ins of [] \<Rightarrow> 0
     | opc # rest \<Rightarrow>
        if opc = RRXDATA then s_mem s ((rx_next ^^ length rest) (s_rxr s))
        else if opc = RGPWRPT then
          (case rest of [] \<Rightarrow> lo8 (s_gpw s) | _ \<Rightarrow> hi8 (s_gpw s))
        else if opc = RCRU then
          (case rest of [] \<Rightarrow> 0 | [a] \<Rightarrow> lo8 (sim_word s a) | a # _ \<Rightarrow> hi8 (sim_word s a))
        else 0)"

definition sim_effect :: "u8 list \<Rightarrow> sim \<Rightarrow> sim" where
  "sim_effect ins s = (case ins of [] \<Rightarrow> s
     | opc # rest \<Rightarrow>
        if opc = WGPDATA then s\<lparr>s_mem := gp_store (s_gpw s) rest (s_mem s),
                               s_gpw := (gp_next ^^ length rest) (s_gpw s)\<rparr>
        else if opc = RRXDATA then s\<lparr>s_rxr := (rx_next ^^ length rest) (s_rxr s)\<rparr>
        else case rest of
          [] \<Rightarrow> if opc = SETETHRST then s\<lparr>s_cfg := (\<lambda>_. 0)\<rparr> else s
        | [x, y] \<Rightarrow>
            if opc = WGPWRPT then s\<lparr>s_gpw := le16 x y\<rparr>
            else if opc = WRXRDPT then s\<lparr>s_rxr := le16 x y\<rparr> else s
        | [a, x, y] \<Rightarrow>
            if opc = WCRU then s\<lparr>s_cfg := cfg_write a (le16 x y) (s_cfg s)\<rparr>
            else if mac_mii a then s
            else if opc = BFSU then
              s\<lparr>s_cfg := cfg_write a (s_cfg s a OR le16 x y) (s_cfg s)\<rparr>
            else if opc = BFCU then
              s\<lparr>s_cfg := cfg_write a (s_cfg s a AND NOT (le16 x y)) (s_cfg s)\<rparr>
            else s
        | _ \<Rightarrow> s)"

definition sim_hal :: "sim hal" where
  "sim_hal = \<lparr>
     spi_transfer = (\<lambda>b s. Some (sim_reply s (s_in s),
                                 s\<lparr>s_in := s_in s @ [b], s_log := s_log s @ [Mosi b]\<rparr>)),
     cs_assert = (\<lambda>s. Some (s\<lparr>s_in := [], s_log := s_log s @ [CsLow]\<rparr>)),
     cs_deassert = (\<lambda>s. Some (sim_effect (s_in s) (s\<lparr>s_in := [], s_log := s_log s @ [CsHigh]\<rparr>))),
     hal_delay = (\<lambda>us s. Some s)\<rparr>"

definition sim_view :: "sim chip_view" where
  "sim_view = \<lparr>chip_ok = (\<lambda>_. True), cfg = s_cfg, gp_write = s_gpw, rx_read = s_rxr, sram = s_mem,
     held = (\<lambda>_. UNIV)\<rparr>"

lemma sim_view_simps [simp]:
  "chip_ok sim_view s" "cfg sim_view = s_cfg" "gp_write sim_view = s_gpw" "rx_read sim_view = s_rxr"
  "sram sim_view = s_mem" "held sim_view s = UNIV"
  by (simp_all add: sim_view_def)

section \<open>The slave keeps the contracts\<close>

lemma sim_effect_log [simp]: "s_log (sim_effect ins s) = s_log s"
  by (auto simp: sim_effect_def split: list.split)

interpretation sim: enc_hal sim_hal s_log "\<lambda>_. True"
  by unfold_locales (auto simp: sim_hal_def)

lemma sim_reply_bus [simp]:
  "sim_reply (s\<lparr>s_in := i, s_log := l\<rparr>) ins = sim_reply s ins"
  by (auto simp: sim_reply_def sim_word_def sim_status_def split: list.split)

lemma sim_xfer:
  "xfer_all sim_hal bs (s\<lparr>s_in := i, s_log := l\<rparr>) =
     Some (map (\<lambda>k. sim_reply s (i @ take k bs)) [0..<length bs],
           s\<lparr>s_in := i @ bs, s_log := l @ map Mosi bs\<rparr>)"
proof (induction bs arbitrary: i l)
  case (Cons b bs)
  have "spi_transfer sim_hal b (s\<lparr>s_in := i, s_log := l\<rparr>) =
      Some (sim_reply s i, s\<lparr>s_in := i @ [b], s_log := l @ [Mosi b]\<rparr>)"
    by (simp add: sim_hal_def)
  moreover have "map (\<lambda>k. sim_reply s (i @ take k (b # bs))) [0..<length (b # bs)] =
      sim_reply s i # map (\<lambda>k. sim_reply s ((i @ [b]) @ take k bs)) [0..<length bs]"
    by (simp add: map_upt_Suc del: upt_Suc)
  ultimately show ?case
    using Cons.IH [where i = "i @ [b]" and l = "l @ [Mosi b]"] by simp
qed simp

lemma sim_frame:
  "spi_frame sim_hal bs s =
     Some (map (\<lambda>k. sim_reply s (take k bs)) [0..<length bs],
           sim_effect bs (s\<lparr>s_in := [], s_log := s_log s @ frame_events bs\<rparr>))"
proof -
  have a: "cs_assert sim_hal s = Some (s\<lparr>s_in := [], s_log := s_log s @ [CsLow]\<rparr>)"
    by (simp add: sim_hal_def)
  have d: "cs_deassert sim_hal (s\<lparr>s_in := bs, s_log := l\<rparr>) =
      Some (sim_effect bs (s\<lparr>s_in := [], s_log := l @ [CsHigh]\<rparr>))" for l
    by (simp add: sim_hal_def)
  show ?thesis
    unfolding spi_frame_def a using sim_xfer [where i = "[]" and l = "s_log s @ [CsLow]"] d
    by (simp add: frame_events_def)
qed

lemma sim_law:
  "frame_law sim_hal sim_view bs Q \<longleftrightarrow>
     (\<forall>s. Q s (map (\<lambda>k. sim_reply s (take k bs)) [0..<length bs])
            (sim_effect bs (s\<lparr>s_in := [], s_log := s_log s @ frame_events bs\<rparr>)))"
  by (simp add: frame_law_def sim_frame)

lemma sim_registers: "law_registers sim_hal sim_view"
  by (simp add: law_registers_def sim_law kept_def reconfigured_def memory_kept_def
      sim_effect_def sim_reply_def sim_word_def upt_rec del: config_sfrs_mem)

lemma sim_pointers: "law_pointers sim_hal sim_view"
  unfolding law_pointers_def
proof (intro allI conjI)
  fix p x y
  show "frame_law sim_hal sim_view [read_pointer_opcode p, x, y] (\<lambda>d rs d'.
      kept sim_view d d' \<and> (p = EGPWRPT \<longrightarrow> le16 (rs ! 1) (rs ! 2) = gp_write sim_view d))"
    by (cases p) (simp_all add: sim_law kept_def memory_kept_def sim_effect_def sim_reply_def upt_rec)
  show "frame_law sim_hal sim_view [write_pointer_opcode p, x, y] (\<lambda>d rs d'.
      chip_ok sim_view d' \<and> cfg sim_view d' = cfg sim_view d \<and> memory_kept sim_view d d' \<and>
      gp_write sim_view d' = (if p = EGPWRPT then le16 x y else gp_write sim_view d) \<and>
      rx_read sim_view d' = (if p = ERXRDPT then le16 x y else rx_read sim_view d))"
    by (cases p) (simp_all add: sim_law memory_kept_def sim_effect_def)
qed

lemma sim_windows: "law_windows sim_hal sim_view"
  by (simp add: law_windows_def sim_law memory_kept_def sim_effect_def sim_reply_def nth_append
      del: upt_Suc)

lemma sim_commands: "law_commands sim_hal sim_view"
  by (simp add: law_commands_def sim_law kept_def memory_kept_def sim_effect_def)
    (simp add: sim_hal_def)

lemma sim_chip: "enc_chip sim_hal sim_view"
  by (simp add: enc_chip_def sim_registers sim_pointers sim_windows sim_commands law_memory_def)

end
