(* ===== verification/Enc_Total.thy ===== *)
theory Enc_Total
  imports Enc_Driver
begin

text \<open>
  When the driver returns: every function without a wait returns if the HAL does, and the waits
  return if the hardware answers within a bounded number of reads. Conversely, the
  initialisation of a controller without a link partner never returns.
\<close>

section \<open>Computations that always return\<close>

definition total :: "('d \<Rightarrow> 'a option) \<Rightarrow> bool" where
  "total m \<longleftrightarrow> (\<forall>d. m d \<noteq> None)"

lemma totalD: "total m \<Longrightarrow> \<exists>x. m d = Some x"
  by (auto simp: total_def)

lemma total_Some [intro]: "total (\<lambda>d. Some (f d))"
  by (simp add: total_def)

lemma total_bind: "total f \<Longrightarrow> total g \<Longrightarrow> total (\<lambda>d. Option.bind (f d) g)"
  by (simp add: total_def Option.bind_eq_None_conv)

lemma total_bind_val:
  "total f \<Longrightarrow> (\<And>v. total (g v)) \<Longrightarrow> total (\<lambda>d. Option.bind (f d) (\<lambda>(v, d). g v d))"
  by (simp add: total_def Option.bind_eq_None_conv split: prod.split)

lemma total_ite: "total f \<Longrightarrow> total g \<Longrightarrow> total (\<lambda>d. if b then f d else g d)"
  by (simp add: total_def)

lemma total_map: "total f \<Longrightarrow> total (\<lambda>d. map_option g (f d))"
  by (auto simp: total_def)

lemma total_for_each: "(\<And>i. total (body i)) \<Longrightarrow> total (for_each is body)"
proof (induction "is")
  case (Cons i "is")
  then show ?case
    using total_bind [of "body i" "for_each is body"] by (simp add: total_def)
qed (simp add: total_def)

lemma total_wait:
  assumes "\<And>d. ready_within p rd n d"
  shows "total (wait_while p rd)"
  unfolding total_def
proof
  fix d from wait_while_returns [OF assms [of d]] show "wait_while p rd d \<noteq> None" by auto
qed

section \<open>The HAL and the primitives\<close>

definition hal_total :: "'d hal \<Rightarrow> bool" where
  "hal_total h \<longleftrightarrow> (\<forall>b. total (spi_transfer h b)) \<and> total (cs_assert h) \<and> total (cs_deassert h) \<and>
     (\<forall>us. total (hal_delay h us))"

lemma xfer_all_total: "hal_total h \<Longrightarrow> total (xfer_all h bs)"
proof (induction bs)
  case (Cons b bs)
  then have "total (spi_transfer h b)" "total (xfer_all h bs)" by (auto simp: hal_total_def)
  then have "total (\<lambda>d. do { (r, d) \<leftarrow> spi_transfer h b d; (rs, d) \<leftarrow> xfer_all h bs d; Some (r # rs, d) })"
    by (intro total_bind_val total_Some)
  then show ?case by (simp add: total_def)
qed (simp add: total_def)

lemma spi_frame_total: "hal_total h \<Longrightarrow> total (spi_frame h bs)"
  unfolding spi_frame_def [abs_def]
  by (rule total_bind_val total_bind total_Some xfer_all_total | assumption
      | simp add: hal_total_def)+

lemma primitives_total:
  assumes "hal_total h"
  shows "total (execute_single_byte_instruction h opc)" "total (read_buffer_pointer h p)"
    "total (write_buffer_pointer h p v)" "total (read_sfr_unbanked h a)"
    "total (write_sfr_unbanked h a v)" "total (bit_field_set_sfr_unbanked h a v)"
    "total (bit_field_clear_sfr_unbanked h a v)" "total (read_from_window_reg h w n)"
    "total (write_to_window_reg h w buf n)" "total (hal_delay h us)"
  using assms spi_frame_total [OF assms] by (auto simp: total_def wire_simps hal_total_def)

lemma mac_field_total:
  assumes "hal_total h"
  shows "total (bit_field_set_mac_sfr h a m)" "total (bit_field_clear_mac_sfr h a m)"
  unfolding bit_field_set_mac_sfr_def [abs_def] bit_field_clear_mac_sfr_def [abs_def] Let_def
  by (rule total_bind_val primitives_total assms)+

lemma configure_receive_filter_total:
  assumes "hal_total h"
  shows "total (configure_receive_filter h f st)"
  using primitives_total(6,7) [OF assms] by (cases f; cases st) (auto simp: total_def)

section \<open>Waiting for the hardware\<close>

text \<open>
  What the driver polls, each answered within \<open>n\<close> further reads: the address register test and
  the clock before the reset, EUDAST after it, the management interface, the PHY status and the
  end of a transmission.
\<close>

definition responsive :: "'d hal \<Rightarrow> nat \<Rightarrow> bool" where
  "responsive h n \<longleftrightarrow>
     (\<forall>d. ready_within (\<lambda>v. v \<noteq> 0x1234)
            (\<lambda>d. do { d \<leftarrow> write_sfr_unbanked h EUDAST 0x1234 d; read_sfr_unbanked h EUDAST d }) n d) \<and>
     (\<forall>d. ready_within (\<lambda>v. \<not> v AND CLKRDY > 0) (read_sfr_unbanked h ESTAT) n d) \<and>
     (\<forall>d e f. execute_single_byte_instruction h SETETHRST d = Some e \<longrightarrow> hal_delay h 30 e = Some f \<longrightarrow>
        ready_within (\<lambda>v. v \<noteq> 0) (read_sfr_unbanked h EUDAST) n f) \<and>
     (\<forall>d. ready_within (\<lambda>v. v AND BUSY > 0) (read_sfr_unbanked h MISTAT) n d) \<and>
     (\<forall>d. ready_within (\<lambda>v. v AND TXRTS \<noteq> 0) (read_sfr_unbanked h ECON1) n d)"

definition link_comes_up :: "'d hal \<Rightarrow> nat \<Rightarrow> bool" where
  "link_comes_up h n \<longleftrightarrow>
     (\<forall>d. ready_within (\<lambda>v. v AND ANDONE = 0) (read_phy_sfr h PHSTAT1) n d) \<and>
     (\<forall>d. ready_within (\<lambda>v. v AND LLSTAT = 0) (read_phy_sfr h PHSTAT1) n d)"

lemma phy_total:
  assumes "hal_total h" "responsive h n"
  shows "total (read_phy_sfr h a)" "total (write_phy_sfr h a v)"
proof -
  have w: "total (wait_mii h)"
    unfolding wait_mii_def [abs_def] using assms(2) unfolding responsive_def by (intro total_wait) blast
  show "total (read_phy_sfr h a)"
    unfolding read_phy_sfr_def [abs_def] by (rule total_bind w primitives_total assms(1))+
  show "total (write_phy_sfr h a v)"
    unfolding write_phy_sfr_def [abs_def] by (rule total_bind w primitives_total assms(1))+
qed

lemma phy_field_total:
  assumes "hal_total h" "responsive h n"
  shows "total (bit_field_set_phy_sfr h a m)" "total (bit_field_clear_phy_sfr h a m)"
  unfolding bit_field_set_phy_sfr_def [abs_def] bit_field_clear_phy_sfr_def [abs_def] Let_def
  by (rule total_bind_val phy_total [OF assms])+

lemma reset_total:
  assumes "hal_total h" "responsive h n"
  shows "total (reset h)"
  unfolding reset_def [abs_def]
proof (rule total_bind)
  show "total (wait_while (\<lambda>v. v \<noteq> 0x1234)
      (\<lambda>d. do { d \<leftarrow> write_sfr_unbanked h EUDAST 0x1234 d; read_sfr_unbanked h EUDAST d }))"
    using assms(2) unfolding responsive_def by (intro total_wait) blast
  have clk: "total (wait_while (\<lambda>v. \<not> v AND CLKRDY > 0) (read_sfr_unbanked h ESTAT))"
    using assms(2) unfolding responsive_def by (intro total_wait) blast
  have tail: "total (\<lambda>d. do {
      d \<leftarrow> execute_single_byte_instruction h SETETHRST d;
      d \<leftarrow> hal_delay h 30 d;
      d \<leftarrow> wait_while (\<lambda>v. v \<noteq> 0) (read_sfr_unbanked h EUDAST) d;
      hal_delay h 200 d })"
    unfolding total_def
  proof
    fix d
    obtain e where e: "execute_single_byte_instruction h SETETHRST d = Some e"
      using totalD [OF primitives_total(1) [OF assms(1)]] by blast
    obtain f where f: "hal_delay h 30 e = Some f"
      using totalD [OF primitives_total(10) [OF assms(1)]] by blast
    have "ready_within (\<lambda>v. v \<noteq> 0) (read_sfr_unbanked h EUDAST) n f"
      using assms(2) e f unfolding responsive_def by blast
    then obtain g where g: "wait_while (\<lambda>v. v \<noteq> 0) (read_sfr_unbanked h EUDAST) f = Some g"
      by (blast dest: wait_while_returns)
    obtain k where "hal_delay h 200 g = Some k"
      using totalD [OF primitives_total(10) [OF assms(1)]] by blast
    with e f g show "(do {
      d \<leftarrow> execute_single_byte_instruction h SETETHRST d;
      d \<leftarrow> hal_delay h 30 d;
      d \<leftarrow> wait_while (\<lambda>v. v \<noteq> 0) (read_sfr_unbanked h EUDAST) d;
      hal_delay h 200 d }) \<noteq> None" by simp
  qed
  show "total (\<lambda>d. do {
      d \<leftarrow> wait_while (\<lambda>v. \<not> v AND CLKRDY > 0) (read_sfr_unbanked h ESTAT) d;
      d \<leftarrow> execute_single_byte_instruction h SETETHRST d;
      d \<leftarrow> hal_delay h 30 d;
      d \<leftarrow> wait_while (\<lambda>v. v \<noteq> 0) (read_sfr_unbanked h EUDAST) d;
      hal_delay h 200 d })"
    by (rule total_bind [OF clk tail])
qed

section \<open>The public functions\<close>

lemma init_buffers_total: "hal_total h \<Longrightarrow> total (init_buffers h)"
  unfolding init_buffers_def [abs_def] by (rule total_bind primitives_total | assumption)+

lemma init_filters_total: "hal_total h \<Longrightarrow> total (init_filters h)"
  unfolding init_filters_def [abs_def]
  by (rule total_bind configure_receive_filter_total | assumption)+

lemma mac_init_total:
  assumes "hal_total h"
  shows "total (mac_init h config)"
proof -
  have addr: "total (\<lambda>d. case mac_address config of None \<Rightarrow> Some d
       | Some mac \<Rightarrow> for_each [0, 2, 4] (\<lambda>i d.
           let mac_part = (0 :: u16);
               mac_part = mac_part OR ucast (mac i);
               mac_part = mac_part OR push_bit 8 (ucast (mac (i + 1)))
           in write_sfr_unbanked h (MAADR1 - of_nat i) mac_part d) d)"
  proof (cases "mac_address config")
    case None
    then show ?thesis by (simp add: total_def)
  next
    case (Some m)
    then show ?thesis
      by (simp only: option.case Let_def) (rule total_for_each, rule primitives_total(5) [OF assms])
  qed
  show ?thesis
    unfolding mac_init_def [abs_def]
    by (rule total_bind total_ite addr primitives_total [OF assms] mac_field_total [OF assms])+
qed

lemma phy_init_total:
  assumes "hal_total h" "responsive h n"
  shows "total (phy_init h config)"
  unfolding phy_init_def [abs_def] by (rule total_bind total_ite phy_field_total [OF assms])+

lemma init_duplex_total: "hal_total h \<Longrightarrow> total (init_duplex h)"
  unfolding init_duplex_def [abs_def]
  by (rule total_bind_val total_bind total_ite total_Some primitives_total mac_field_total
      | assumption)+

lemma wait_link_total: "link_comes_up h n \<Longrightarrow> total (wait_link h)"
  unfolding wait_link_def [abs_def] link_comes_up_def
  by (rule total_bind total_wait) (blast intro: total_wait)+

lemma init_total:
  assumes "hal_total h" "responsive h n" "link_comes_up h m"
  shows "\<exists>s'. enc624j600_init h config s = Some s'"
proof -
  have "total (\<lambda>d. do {
     d \<leftarrow> reset h d;
     d \<leftarrow> init_buffers h d;
     d \<leftarrow> init_filters h d;
     d \<leftarrow> bit_field_set_sfr_unbanked h ECON2 TXMAC d;
     d \<leftarrow> mac_init h config d;
     d \<leftarrow> phy_init h config d;
     d \<leftarrow> execute_single_byte_instruction h ENABLERX d;
     d \<leftarrow> wait_link h d;
     d \<leftarrow> execute_single_byte_instruction h DISABLERX d;
     (mode, d) \<leftarrow> init_duplex h d;
     d \<leftarrow> execute_single_byte_instruction h ENABLERX d;
     Some (s\<lparr>duplex_mode := mode, next_receive_frame_pointer := 0x2000, dev := d\<rparr>)
   })"
    by (rule total_bind_val total_bind total_Some reset_total [OF assms(1,2)]
        init_buffers_total [OF assms(1)] init_filters_total [OF assms(1)] mac_init_total [OF assms(1)]
        phy_init_total [OF assms(1,2)] wait_link_total [OF assms(3)] init_duplex_total [OF assms(1)]
        primitives_total [OF assms(1)])+
  from totalD [OF this, of "dev s"] show ?thesis
    unfolding enc624j600_init_def by blast
qed

text \<open>
  As long as the PHY status never shows a finished negotiation, the initialisation does not
  return: there is no timeout.
\<close>

lemma wait_never:
  assumes "\<And>d v d'. rd d = Some (v, d') \<Longrightarrow> p v"
  shows "wait_while p rd d = None"
proof (rule ccontr)
  assume "wait_while p rd d \<noteq> None"
  then obtain d' where "wait_while p rd d = Some d'" by auto
  from wait_while_invariant [where I = "\<lambda>_. True", OF this] assms show False by blast
qed

lemma init_never:
  assumes "\<And>d v d'. read_phy_sfr h PHSTAT1 d = Some (v, d') \<Longrightarrow> v AND ANDONE = 0"
  shows "enc624j600_init h config s = None"
proof -
  have "wait_link h d = None" for d
    unfolding wait_link_def using wait_never [where p = "\<lambda>v. v AND ANDONE = 0" and rd = "read_phy_sfr h PHSTAT1"] assms
    by simp
  then show ?thesis
    unfolding enc624j600_init_def by (simp add: Option.bind_eq_None_conv)
qed

lemma write_frame_total:
  assumes "hal_total h" "responsive h n"
  shows "total (write_frame h dst typ buf len)"
proof -
  have w: "total (wait_while (\<lambda>v. v AND TXRTS \<noteq> 0) (read_sfr_unbanked h ECON1))"
    using assms(2) unfolding responsive_def by (intro total_wait) blast
  show ?thesis
    unfolding write_frame_def [abs_def]
    by (rule total_bind_val total_bind w primitives_total [OF assms(1)])+
qed

lemma transmit_status_total: "hal_total h \<Longrightarrow> total (transmit_status h mode len)"
  unfolding transmit_status_def [abs_def] Let_def
  by (rule total_ite total_bind_val total_Some primitives_total | assumption)+

lemma transmit_total:
  assumes "hal_total h" "responsive h n"
  shows "\<exists>r s'. enc624j600_transmit h destination_mac length_type data len s = Some (r, s')"
proof -
  have fc: "\<exists>b d. flow_control_active h s = Some (b, d)"
    using totalD [OF primitives_total(4) [OF assms(1)]] unfolding flow_control_active_def
    by (metis (mono_tags, lifting) Option.bind.bind_lunit case_prod_conv surj_pair)
  then obtain b d where fc: "flow_control_active h s = Some (b, d)" by blast
  have "total (\<lambda>d. do {
      d \<leftarrow> write_frame h dst ty buf len d;
      (r, d) \<leftarrow> transmit_status h (duplex_mode s) len d;
      Some (r, s\<lparr>dev := d\<rparr>) })" for dst ty buf
    by (rule total_bind_val total_bind total_Some write_frame_total [OF assms]
        transmit_status_total [OF assms(1)])+
  from totalD [OF this, where d = d] have body: "\<exists>r s'. (do {
      d \<leftarrow> write_frame h dst ty buf len d;
      (r, d) \<leftarrow> transmit_status h (duplex_mode s) len d;
      Some (r, s\<lparr>dev := d\<rparr>) }) = Some (r, s')" for dst ty buf
    by (metis surj_pair)
  show ?thesis
  proof (cases destination_mac; cases length_type; cases data)
    fix dst ty buf
    assume args: "destination_mac = Some dst" "length_type = Some ty" "data = Some buf"
    show ?thesis
    proof (cases "len \<le> 7 \<or> len > 1500 \<or> b")
      case True
      then show ?thesis by (auto simp: enc624j600_transmit_def args fc)
    next
      case False
      then show ?thesis
        using body [of dst ty buf] by (simp add: enc624j600_transmit_def args fc del: not_less not_le)
    qed
  qed (simp_all add: enc624j600_transmit_def)
qed

lemma total_bind_dev:
  "total f \<Longrightarrow> (\<And>s v. total (g s v)) \<Longrightarrow>
   total (\<lambda>s. Option.bind (f (dev s)) (\<lambda>(v, d). g s v d))"
  by (simp add: total_def Option.bind_eq_None_conv split: prod.split)

lemma receive_total:
  assumes "hal_total h"
  shows "\<exists>r out s'. enc624j600_receive h a b c e f s = Some (r, out, s')"
proof -
  have "total (enc624j600_receive h a b c e f)"
    unfolding enc624j600_receive_def [abs_def] Let_def
    by (rule total_ite total_bind_dev total_bind_val total_bind total_Some
        primitives_total [OF assms])+
  from totalD [OF this, of s] show ?thesis
    by (metis surj_pair)
qed

end
