(* ===== verification/Enc_Properties.thy ===== *)
theory Enc_Properties
  imports Enc_Sim Enc_Total
begin

text \<open>
  The properties of the ENC624J600 driver, each with a witness that runs the driver against the
  slave of Enc_Sim.
\<close>

section \<open>The slave answers\<close>

lemma sim_read:
  "read_sfr_unbanked sim_hal a s =
     Some (sim_word s a, s\<lparr>s_in := [], s_log := s_log s @ frame_events [RCRU, a, 0xAA, 0xAA]\<rparr>)"
  by (simp add: wire_simps sim_frame sim_effect_def sim_reply_def upt_rec del: config_sfrs_mem)

lemma sim_write:
  "write_sfr_unbanked sim_hal a v s =
     Some (s\<lparr>s_cfg := cfg_write a v (s_cfg s), s_in := [],
             s_log := s_log s @ frame_events [WCRU, a, lo8 v, hi8 v]\<rparr>)"
  by (simp add: wire_simps sim_frame sim_effect_def del: config_sfrs_mem)

lemma sim_total: "hal_total sim_hal"
  by (simp add: hal_total_def total_def sim_hal_def)

lemma sim_reset:
  "execute_single_byte_instruction sim_hal SETETHRST s =
     Some (s\<lparr>s_cfg := \<lambda>_. 0, s_in := [], s_log := s_log s @ frame_events [SETETHRST]\<rparr>)"
  by (simp add: wire_simps sim_frame sim_effect_def)

lemma sim_words:
  "sim_word s ESTAT = CLKRDY OR PHYDPX OR PKTCNT0" "sim_word s MISTAT = 0" "sim_word s ECON1 = 0"
  "sim_word s EUDAST = s_cfg s EUDAST" "sim_word s MIRD = ANDONE OR LLSTAT"
  by (simp_all add: sim_word_def sim_status_def)

lemma sim_responsive: "responsive sim_hal 0"
  unfolding responsive_def
  by (auto simp: sim_read sim_write sim_words sim_reset cfg_write_def)
    (simp add: sim_hal_def sim_read sim_words)

lemma sim_read_phy: "\<exists>d'. read_phy_sfr sim_hal a s = Some (ANDONE OR LLSTAT, d')"
proof -
  have w: "wait_mii sim_hal s = Some (s\<lparr>s_in := [],
      s_log := s_log s @ frame_events [RCRU, MISTAT, 0xAA, 0xAA]\<rparr>)" for s
    unfolding wait_mii_def by (subst wait_while.simps) (simp add: sim_read sim_words)
  have d: "hal_delay sim_hal us s = Some s" for us s
    by (simp add: sim_hal_def)
  show ?thesis
    unfolding read_phy_sfr_def by (simp add: sim_write w d sim_read sim_words)
qed

lemma sim_link: "link_comes_up sim_hal 0"
  unfolding link_comes_up_def
proof (intro conjI allI)
  fix d
  show "ready_within (\<lambda>v. v AND ANDONE = 0) (read_phy_sfr sim_hal PHSTAT1) 0 d"
    "ready_within (\<lambda>v. v AND LLSTAT = 0) (read_phy_sfr sim_hal PHSTAT1) 0 d"
    using sim_read_phy [of PHSTAT1 d] by auto
qed

definition sim_start :: "sim enc" where
  "sim_start = \<lparr>duplex_mode = HALF_DUPLEX, next_receive_frame_pointer = 0,
     dev = \<lparr>s_in = [], s_log = [], s_cfg = (\<lambda>_. 0), s_gpw = 5, s_rxr = 0, s_mem = (\<lambda>_. 0)\<rparr>\<rparr>"

definition sim_config :: enc624j600_config where
  "sim_config = \<lparr>mac_address = Some (\<lambda>i. of_nat i + 0x10), mac_huge_frame = 1, mac_loopback = 0,
     phy_loppback = 0\<rparr>"

section \<open>Initialisation\<close>



text \<open>
  One call of \<open>configure_receive_filter\<close> sets (ENABLE) or clears (DISABLE) the bits of its filter
  in ERXFCON and nothing else: every other bit of ERXFCON, every other configuration register and
  the general purpose pointer keep their values. Enabling the pattern match filter changes nothing.
\<close>
theorem filter_changes_its_bits:
  assumes "enc_chip h V" "chip_ok V d" "configure_receive_filter h f st d = Some d'"
  shows "cfg V d' = (cfg V d)(ERXFCON := filter_value f st (cfg V d ERXFCON)) \<and>
    cfg V d' ERXFCON AND NOT (filter_bits f) = cfg V d ERXFCON AND NOT (filter_bits f) \<and>
    gp_write V d' = gp_write V d"
proof -
  have "at V (gp_write V d) (cfg V d) d" using assms(2) by (simp add: at_def)
  from tripleD [OF configure_receive_filter_at [OF assms(1)], OF assms(3) this]
  have "at V (gp_write V d) ((cfg V d)(ERXFCON := filter_value f st (cfg V d ERXFCON))) d'" .
  moreover have "filter_value f st v AND NOT (filter_bits f) = v AND NOT (filter_bits f)" for v
    by (cases st) (auto simp: bit_eq_iff bit_simps)
  ultimately show ?thesis
    by (auto simp: at_def)
qed

theorem filter_changes_its_bits_witness:
  "\<exists>d'. configure_receive_filter sim_hal MULTICAST_COLLECTION_FILTER DISABLE
           ((dev sim_start)\<lparr>s_cfg := (\<lambda>_. 0xFFFF)\<rparr>) = Some d' \<and> s_cfg d' ERXFCON = 0xFFFD"
proof -
  obtain d' where d': "configure_receive_filter sim_hal MULTICAST_COLLECTION_FILTER DISABLE
           ((dev sim_start)\<lparr>s_cfg := (\<lambda>_. 0xFFFF)\<rparr>) = Some d'"
    using totalD [OF configure_receive_filter_total [OF sim_total]] by blast
  from filter_changes_its_bits [OF sim_chip _ d'] d' show ?thesis
    by simp
qed

text \<open>
  C28: If the HAL calls return and the hardware answers every poll within \<open>n\<close> (the link: \<open>m\<close>)
  further reads, \<open>enc624j600_init\<close> returns; \<open>enc624j600_transmit\<close> then returns without needing
  the link, and \<open>enc624j600_receive\<close> needs no poll at all.
\<close>
theorem driver_returns:
  assumes "hal_total h"
  shows "(responsive h n \<longrightarrow> link_comes_up h m \<longrightarrow> (\<exists>s'. enc624j600_init h config s = Some s')) \<and>
    (responsive h n \<longrightarrow> (\<exists>r s'. enc624j600_transmit h dst ty buf len s = Some (r, s'))) \<and>
    (\<exists>r out s'. enc624j600_receive h a b c e f s = Some (r, out, s'))"
  using init_total [OF assms] transmit_total [OF assms] receive_total [OF assms] by blast

theorem driver_returns_witness:
  "\<exists>s'. enc624j600_init sim_hal sim_config sim_start = Some s'"
  using driver_returns [OF sim_total, of 0 0] sim_responsive sim_link by blast

text \<open>
  There is no timeout: if the PHY never reports a finished auto-negotiation (no cable, a link
  partner without negotiation), \<open>enc624j600_init\<close> does not return, whatever the rest of the hardware does.
\<close>
theorem init_without_link_never_returns:
  assumes "\<And>d v d'. read_phy_sfr h PHSTAT1 d = Some (v, d') \<Longrightarrow> v AND ANDONE = 0"
  shows "enc624j600_init h config s = None"
  by (rule init_never [OF assms])

text \<open>The slave with its cable unplugged: the low byte of MIRD, with ANDONE and LLSTAT, reads 0.\<close>

definition unplugged_hal :: "sim hal" where
  "unplugged_hal = sim_hal\<lparr>spi_transfer := (\<lambda>b s.
     Some (if s_in s = [RCRU, MIRD] then 0 else sim_reply s (s_in s),
           s\<lparr>s_in := s_in s @ [b], s_log := s_log s @ [Mosi b]\<rparr>))\<rparr>"

lemma unplugged_mird:
  "read_sfr_unbanked unplugged_hal MIRD s = Some (v, s') \<Longrightarrow> v AND ANDONE = 0"
  by (rule word16_eqI) (auto simp: read_sfr_unbanked_def unplugged_hal_def sim_hal_def bit_simps)

theorem init_without_link_never_returns_witness:
  "enc624j600_init unplugged_hal sim_config sim_start = None"
proof (rule init_without_link_never_returns)
  fix d v d' assume "read_phy_sfr unplugged_hal PHSTAT1 d = Some (v, d')"
  then show "v AND ANDONE = 0"
    by (auto simp: read_phy_sfr_def Option.bind_eq_Some_conv dest: unplugged_mird)
qed

section \<open>Transmission\<close>




section \<open>Reception\<close>

text \<open>The slave with the bytes \<open>bs\<close> at the start of its receive buffer.\<close>

definition sim_rx :: "u8 list \<Rightarrow> sim enc" where
  "sim_rx bs = \<lparr>duplex_mode = FULL_DUPLEX, next_receive_frame_pointer = 0x2000,
     dev = \<lparr>s_in = [], s_log = [], s_cfg = (\<lambda>_. 0)(ERXST := 0x2000, ERXTAIL := 0x5FFE), s_gpw = 0,
            s_rxr = 0, s_mem = (\<lambda>x. bs ! unat (x - 0x2000))\<rparr>\<rparr>"

lemma rx_iter: "k < 0x4000 \<Longrightarrow> unat ((rx_next ^^ k) 0x2000) = 0x2000 + k"
proof (induction k)
  case (Suc k)
  then have "unat ((rx_next ^^ k) 0x2000) = 0x2000 + k" by simp
  moreover from this Suc.prems have "(rx_next ^^ k) 0x2000 \<noteq> 0x5FFF" by (auto simp: word_unat_eq_iff)
  ultimately show ?case
    using Suc.prems by (simp add: rx_next_def [of "(rx_next ^^ k) 0x2000"] unat_word_ariths)
qed simp

lemma sim_frame_at:
  assumes "length bs < 0x4000"
  shows "frame_at sim_view (dev (sim_rx bs)) (next_receive_frame_pointer (sim_rx bs)) bs"
proof -
  have "unat ((rx_next ^^ k) 0x2000 - 0x2000) = k" if "k < length bs" for k
    using rx_iter [of k] that assms by (simp add: unat_sub word_le_nat_alt)
  then show ?thesis by (simp add: frame_at_def sim_rx_def)
qed

lemma sim_receives:
  "\<exists>r s'. enc624j600_receive sim_hal True True True True True s = Some (ENC_RECEIVE_SUCCEEDED, Some r, s')"
proof -
  obtain res out s' where "enc624j600_receive sim_hal True True True True True s = Some (res, out, s')"
    using receive_total [OF sim_total] by blast
  moreover from this have "res = ENC_RECEIVE_SUCCEEDED \<and> out \<noteq> None"
    by (auto simp: enc624j600_receive_def sim_read sim_words Option.bind_eq_Some_conv Let_def
        split: if_splits prod.splits)
  ultimately show ?thesis by auto
qed

lemma of_nat_bytes: "(word_of_nat 20 :: u16) = 20" "(word_of_nat 2 :: u16) = 2"
  by simp_all



text \<open>
  The frame length is not checked. For a frame whose length field is below 18 (and nothing
  else known about it) a successful call reports, and writes to the caller's buffer, at least
  65518 bytes; for a length field above 118 it writes more than the 100 bytes of the buffer that
  src/src/main.c passes.
\<close>
theorem receive_length_unchecked:
  assumes "enc_chip h V" "chip_ok V (dev s)" "length status = 4"
    and "frame_at V (dev s) (next_receive_frame_pointer s) (rx_header nxt frame_length status @ rest)"
    and "enc624j600_receive h True True True True True s = Some (ENC_RECEIVE_SUCCEEDED, Some r, s')"
  shows "length (rx_buffer r) = unat (rx_received_bytes r) \<and>
    (unat frame_length < 18 \<longrightarrow> length (rx_buffer r) = unat frame_length + 65518) \<and>
    (118 < unat frame_length \<longrightarrow> 100 < length (rx_buffer r))"
proof -
  from receive_header [OF assms]
  have r: "rx_received_bytes r = frame_length - 18" "length (rx_buffer r) = unat (frame_length - 18)"
    by simp_all
  have "unat (frame_length - 18) = unat frame_length + 65518" if "unat frame_length < 18"
    using that by (simp add: unat_sub_if' word_le_nat_alt)
  moreover have "unat (frame_length - 18) = unat frame_length - 18" if "118 < unat frame_length"
    using that by (simp add: unat_sub word_le_nat_alt)
  ultimately show ?thesis
    using r by auto
qed

theorem receive_length_unchecked_witness:
  "\<exists>r s'. enc624j600_receive sim_hal True True True True True (sim_rx (rx_header 0x2020 17 [0,0,0,0])) =
     Some (ENC_RECEIVE_SUCCEEDED, Some r, s') \<and> length (rx_buffer r) = 65535"
proof -
  obtain r s' where call: "enc624j600_receive sim_hal True True True True True
      (sim_rx (rx_header 0x2020 17 [0,0,0,0])) = Some (ENC_RECEIVE_SUCCEEDED, Some r, s')"
    using sim_receives by blast
  have "frame_at sim_view (dev (sim_rx (rx_header 0x2020 17 [0,0,0,0])))
      (next_receive_frame_pointer (sim_rx (rx_header 0x2020 17 [0,0,0,0])))
      (rx_header 0x2020 17 [0,0,0,0] @ [])"
    using sim_frame_at [of "rx_header 0x2020 17 [0,0,0,0]"] by (simp add: rx_header_def)
  from receive_length_unchecked [OF sim_chip _ _ this call] call show ?thesis
    by simp
qed

text \<open>
  Where the buffer is released to. For the address of a following frame as the chip gives it
  (even, in 0x2000 to 0x5FFE) the driver moves ERXTAIL to the last word before it, inside the
  receive buffer, except when that frame starts at 0x2000: then ERXTAIL becomes 0x1FFE, outside
  the receive buffer, instead of wrapping to 0x5FFE.
\<close>
theorem receive_tail_wraps_wrongly:
  assumes "enc_chip h V" "chip_ok V (dev s)" "length status = 4"
    and "frame_at V (dev s) (next_receive_frame_pointer s) (rx_header nxt frame_length status @ rest)"
    and "enc624j600_receive h True True True True True s = Some (ENC_RECEIVE_SUCCEEDED, Some r, s')"
    and "0x2000 \<le> nxt" "nxt \<le> 0x5FFE" "even (unat nxt)"
  shows "cfg V (dev s') ERXTAIL = nxt - 2 \<and>
    (cfg V (dev s') ERXTAIL \<in> {0x2000..0x5FFE} \<longleftrightarrow> nxt \<noteq> 0x2000) \<and>
    (nxt = 0x2000 \<longrightarrow> cfg V (dev s') ERXTAIL = 0x1FFE)"
proof -
  from receive_header [OF assms(1-5)] have t: "cfg V (dev s') ERXTAIL = nxt - 2"
    by (simp add: at_def)
  have "nxt - 2 \<in> {0x2000..0x5FFE} \<longleftrightarrow> nxt \<noteq> 0x2000"
  proof
    assume "nxt \<noteq> 0x2000"
    with assms(6,8) have "unat nxt \<noteq> 0x2000" "unat nxt \<noteq> 0x2001" "0x2000 \<le> unat nxt"
      by (auto simp: word_unat_eq_iff word_le_nat_alt)
    with assms(7) show "nxt - 2 \<in> {0x2000..0x5FFE}"
      by (simp add: word_le_nat_alt unat_sub_if') arith
  qed auto
  with t show ?thesis by auto
qed

theorem receive_tail_wraps_wrongly_witness:
  "\<exists>r s'. enc624j600_receive sim_hal True True True True True (sim_rx (rx_header 0x2000 64 [0,0,0,0])) =
     Some (ENC_RECEIVE_SUCCEEDED, Some r, s') \<and> s_cfg (dev s') ERXTAIL = 0x1FFE"
proof -
  obtain r s' where call: "enc624j600_receive sim_hal True True True True True
      (sim_rx (rx_header 0x2000 64 [0,0,0,0])) = Some (ENC_RECEIVE_SUCCEEDED, Some r, s')"
    using sim_receives by blast
  have "frame_at sim_view (dev (sim_rx (rx_header 0x2000 64 [0,0,0,0])))
      (next_receive_frame_pointer (sim_rx (rx_header 0x2000 64 [0,0,0,0])))
      (rx_header 0x2000 64 [0,0,0,0] @ [])"
    using sim_frame_at [of "rx_header 0x2000 64 [0,0,0,0]"] by (simp add: rx_header_def)
  from receive_tail_wraps_wrongly [OF sim_chip _ _ this call] call show ?thesis
    by simp
qed

section \<open>The bus\<close>

text \<open>
  Whatever the hardware answers, every call of the three public functions that returns has
  put only complete frames on the SPI bus: chip select is asserted before the first byte of
  each frame, released after its last, and no byte is exchanged outside a frame.
\<close>
theorem driver_frames_the_bus:
  assumes "enc_hal h obs ok"
  shows "(enc624j600_init h config s = Some s1 \<longrightarrow> extends obs ok (dev s) (dev s1)) \<and>
    (enc624j600_transmit h dst ty buf len s = Some (tr, s2) \<longrightarrow> extends obs ok (dev s) (dev s2)) \<and>
    (enc624j600_receive h a b c e f s = Some (rr, out, s3) \<longrightarrow> extends obs ok (dev s) (dev s3))"
  using enc_hal.init_ext [OF assms] enc_hal.transmit_ext [OF assms] enc_hal.receive_ext [OF assms]
  by blast

theorem driver_frames_the_bus_witness:
  "\<exists>s'. enc624j600_init sim_hal sim_config sim_start = Some s' \<and> framed (s_log (dev s'))"
proof -
  obtain s' where s': "enc624j600_init sim_hal sim_config sim_start = Some s'"
    using init_total [OF sim_total sim_responsive sim_link] by blast
  have "extends s_log (\<lambda>_. True) (dev sim_start) (dev s')"
    using driver_frames_the_bus [OF sim.enc_hal_axioms] s' by blast
  then show ?thesis
    using s' by (auto simp: extends_def sim_start_def)
qed

end
