(* ===== verification/Soc.thy ===== *)
theory Soc
  imports Enc_Hal
begin

text \<open>
  The special function registers of the PIC32 that the peripheral libraries use, as read and write
  operations of the hardware on its state. The hardware is not modelled; what the code relies on is
  stated as laws where it is used. The bit positions are those of the device header the libraries
  include, which is part of the compiler.
\<close>

text \<open>
  A port register is named with the index of its port (A is 0), the others by their name; the
  suffixes SET, CLR and INV are the registers through which single bits are changed.
\<close>

datatype sfr = PORTx u32 | LATx u32 | LATxSET u32 | LATxCLR u32 | LATxINV u32
  | TRISxSET u32 | TRISxCLR u32
  | SPI2CON | SPI2CONSET | SPI2STAT | SPI2STATCLR | SPI2BUF | SPI2BRG
  | U1MODE | U1MODESET | U1MODECLR | U1STA | U1STASET | U1STACLR | U1BRG | U1RXREG | U1TXREG
  | IEC1CLR | IFS1CLR

record 'd soc =
  sfr_read :: "sfr \<Rightarrow> 'd \<Rightarrow> u32 \<times> 'd"
  sfr_write :: "sfr \<Rightarrow> u32 \<Rightarrow> 'd \<Rightarrow> 'd"
  tick_count :: "'d \<Rightarrow> u32 \<times> 'd"

text \<open>Polling a register until a bit has the value wanted.\<close>

definition poll_bit :: "'d soc \<Rightarrow> sfr \<Rightarrow> u32 \<Rightarrow> bool \<Rightarrow> 'd \<Rightarrow> 'd option" where
  "poll_bit R reg bits want d =
     wait_while (\<lambda>v. (v AND bits \<noteq> 0) \<noteq> want) (\<lambda>d. Some (sfr_read R reg d)) d"

text \<open>An invariant of reading a register holds after polling it.\<close>

lemma poll_bit_invariant:
  assumes run: "poll_bit R reg bits want d = Some d'" and start: "I d"
    and step: "\<And>e. I e \<Longrightarrow> I (snd (sfr_read R reg e))"
  shows "I d'"
proof -
  have step': "\<And>e v e'. I e \<Longrightarrow> Some (sfr_read R reg e) = Some (v, e') \<Longrightarrow> I e'"
    using step by (metis option.inject snd_conv)
  show ?thesis
    by (rule wait_while_invariant [where I = I, OF run [unfolded poll_bit_def] start step', THEN conjunct1])
qed

section \<open>What the SPI port and the latches promise\<close>

text \<open>
  The behaviour of the SPI port and of the latch of the chip select pin the libraries rely on, in
  terms of the bus events recorded so far (\<open>obs\<close>) and of the number of bytes sent and not yet taken
  back (\<open>pend\<close>): reading a register puts nothing on the bus, a write to the buffer clocks out the byte,
  a byte comes back for each byte sent, and the receive flag is set only when one has come back. The
  port holds at most two bytes that were not taken back; a third one has no law.
\<close>

definition spi_con :: "'d soc \<Rightarrow> 'd \<Rightarrow> u32" where
  "spi_con R d = fst (sfr_read R SPI2CON d)"

definition eight_bit :: "'d soc \<Rightarrow> 'd \<Rightarrow> bool" where
  "eight_bit R d \<longleftrightarrow> spi_con R d AND 0x800 = 0 \<and> spi_con R d AND 0x400 = 0"

fun bus_effect :: "sfr \<Rightarrow> u32 \<Rightarrow> bus_event list" where
  "bus_effect SPI2BUF v = [Mosi (ucast v)]"
| "bus_effect (LATxCLR p) v = (if p = 5 \<and> bit v 12 then [CsLow] else [])"
| "bus_effect (LATxSET p) v = (if p = 5 \<and> bit v 12 then [CsHigh] else [])"
| "bus_effect _ v = []"

definition bus_safe :: "sfr \<Rightarrow> bool" where
  "bus_safe r \<longleftrightarrow> r \<notin> {SPI2CON, SPI2CONSET, SPI2BRG, LATx 5, LATxINV 5, TRISxSET 5, TRISxCLR 5}"

definition bus_law :: "'d soc \<Rightarrow> ('d \<Rightarrow> bus_event list) \<Rightarrow> ('d \<Rightarrow> nat) \<Rightarrow> bool" where
  "bus_law R obs pend \<longleftrightarrow>
     (\<forall>r d. obs (snd (sfr_read R r d)) = obs d \<and> spi_con R (snd (sfr_read R r d)) = spi_con R d \<and>
        pend (snd (sfr_read R r d)) = (if r = SPI2BUF then pend d - 1 else pend d)) \<and>
     (\<forall>d. obs (snd (tick_count R d)) = obs d \<and> spi_con R (snd (tick_count R d)) = spi_con R d \<and>
        pend (snd (tick_count R d)) = pend d) \<and>
     (\<forall>r v d. bus_safe r \<longrightarrow> eight_bit R d \<longrightarrow> (r = SPI2BUF \<longrightarrow> pend d \<le> 1) \<longrightarrow>
        obs (sfr_write R r v d) = obs d @ bus_effect r v \<and>
        spi_con R (sfr_write R r v d) = spi_con R d \<and>
        pend (sfr_write R r v d) = (if r = SPI2BUF then pend d + 1 else pend d))"

definition progress_law :: "'d soc \<Rightarrow> ('d \<Rightarrow> nat) \<Rightarrow> bool" where
  "progress_law R pend \<longleftrightarrow>
     (\<forall>d. pend d = 0 \<longrightarrow> fst (sfr_read R SPI2STAT d) AND 0x1 = 0) \<and>
     (\<forall>d. pend d > 0 \<longrightarrow> (\<exists>n. ready_within (\<lambda>v. (v AND 0x1 \<noteq> 0) \<noteq> True) (\<lambda>d. Some (sfr_read R SPI2STAT d)) n d)) \<and>
     (\<forall>d. \<exists>n. ready_within (\<lambda>v. (v AND 0x8 \<noteq> 0) \<noteq> True) (\<lambda>d. Some (sfr_read R SPI2STAT d)) n d)"

definition spi_law :: "'d soc \<Rightarrow> ('d \<Rightarrow> bus_event list) \<Rightarrow> ('d \<Rightarrow> nat) \<Rightarrow> bool" where
  "spi_law R obs pend \<longleftrightarrow> bus_law R obs pend \<and> progress_law R pend"

text \<open>The latches: what each way to write one does to it.\<close>

fun latch_effect :: "sfr \<Rightarrow> u32 \<Rightarrow> (u32 \<Rightarrow> u32) \<Rightarrow> u32 \<Rightarrow> u32" where
  "latch_effect (LATx p) v l = l(p := v)"
| "latch_effect (LATxSET p) v l = l(p := l p OR v)"
| "latch_effect (LATxCLR p) v l = l(p := l p AND NOT v)"
| "latch_effect (LATxINV p) v l = l(p := l p XOR v)"
| "latch_effect _ v l = l"

definition latch_law :: "'d soc \<Rightarrow> ('d \<Rightarrow> u32 \<Rightarrow> u32) \<Rightarrow> bool" where
  "latch_law R lat \<longleftrightarrow>
     (\<forall>p d. fst (sfr_read R (LATx p) d) = lat d p) \<and>
     (\<forall>r d. lat (snd (sfr_read R r d)) = lat d) \<and>
     (\<forall>d. lat (snd (tick_count R d)) = lat d) \<and>
     (\<forall>r v d. lat (sfr_write R r v d) = latch_effect r v (lat d))"

text \<open>
  The tick counter as the tasks see it: it shows, in 32 bits, the number of ticks so far, which
  grows by at most one between two looks at it, and does grow when it is looked at again and again.
\<close>

definition tick_law :: "'d soc \<Rightarrow> ('d \<Rightarrow> nat) \<Rightarrow> bool" where
  "tick_law R clock \<longleftrightarrow>
     (\<forall>d. fst (tick_count R d) = of_nat (clock d)) \<and>
     (\<forall>d. clock d \<le> clock (snd (tick_count R d)) \<and> clock (snd (tick_count R d)) \<le> clock d + 1) \<and>
     (\<forall>d. \<exists>n. clock d < clock (((\<lambda>e. snd (tick_count R e)) ^^ n) d))"

end
