(* ===== verification/Plib_Gpio.thy ===== *)
theory Plib_Gpio
  imports Soc
begin

text \<open>
  The port library of src/src/config/default/peripheral/gpio: plib_gpio.c, which works on the pins
  of a port, and the inline functions of plib_gpio.h, which work on one pin.
\<close>

section \<open>Ports\<close>

definition GPIO_PortRead :: "'d soc \<Rightarrow> u32 \<Rightarrow> 'd \<Rightarrow> u32 \<times> 'd" where
  "GPIO_PortRead R port d = sfr_read R (PORTx port) d"

definition GPIO_PortWrite :: "'d soc \<Rightarrow> u32 \<Rightarrow> u32 \<Rightarrow> u32 \<Rightarrow> 'd \<Rightarrow> 'd" where
  "GPIO_PortWrite R port msk value d =
     (let (v, d) = sfr_read R (LATx port) d
      in sfr_write R (LATx port) ((v AND NOT msk) OR (msk AND value)) d)"

definition GPIO_PortLatchRead :: "'d soc \<Rightarrow> u32 \<Rightarrow> 'd \<Rightarrow> u32 \<times> 'd" where
  "GPIO_PortLatchRead R port d = sfr_read R (LATx port) d"

definition GPIO_PortSet :: "'d soc \<Rightarrow> u32 \<Rightarrow> u32 \<Rightarrow> 'd \<Rightarrow> 'd" where
  "GPIO_PortSet R port msk d = sfr_write R (LATxSET port) msk d"

definition GPIO_PortClear :: "'d soc \<Rightarrow> u32 \<Rightarrow> u32 \<Rightarrow> 'd \<Rightarrow> 'd" where
  "GPIO_PortClear R port msk d = sfr_write R (LATxCLR port) msk d"

definition GPIO_PortToggle :: "'d soc \<Rightarrow> u32 \<Rightarrow> u32 \<Rightarrow> 'd \<Rightarrow> 'd" where
  "GPIO_PortToggle R port msk d = sfr_write R (LATxINV port) msk d"

definition GPIO_PortInputEnable :: "'d soc \<Rightarrow> u32 \<Rightarrow> u32 \<Rightarrow> 'd \<Rightarrow> 'd" where
  "GPIO_PortInputEnable R port msk d = sfr_write R (TRISxSET port) msk d"

definition GPIO_PortOutputEnable :: "'d soc \<Rightarrow> u32 \<Rightarrow> u32 \<Rightarrow> 'd \<Rightarrow> 'd" where
  "GPIO_PortOutputEnable R port msk d = sfr_write R (TRISxCLR port) msk d"

section \<open>Pins\<close>

text \<open>A pin number holds the port in its upper bits and the place in the port in its lower four.\<close>

definition pin_port :: "u32 \<Rightarrow> u32" where
  "pin_port pin = drop_bit 4 pin"

definition pin_place :: "u32 \<Rightarrow> nat" where
  "pin_place pin = unat (pin AND 0xF)"

definition pin_mask :: "u32 \<Rightarrow> u32" where
  "pin_mask pin = push_bit (pin_place pin) 1"

definition GPIO_PinWrite :: "'d soc \<Rightarrow> u32 \<Rightarrow> bool \<Rightarrow> 'd \<Rightarrow> 'd" where
  "GPIO_PinWrite R pin value d =
     GPIO_PortWrite R (pin_port pin) (pin_mask pin) (push_bit (pin_place pin) (of_bool value)) d"

definition GPIO_PinRead :: "'d soc \<Rightarrow> u32 \<Rightarrow> 'd \<Rightarrow> bool \<times> 'd" where
  "GPIO_PinRead R pin d =
     (let (v, d) = GPIO_PortRead R (pin_port pin) d
      in (drop_bit (pin_place pin) v AND 1 \<noteq> 0, d))"

definition GPIO_PinLatchRead :: "'d soc \<Rightarrow> u32 \<Rightarrow> 'd \<Rightarrow> bool \<times> 'd" where
  "GPIO_PinLatchRead R pin d =
     (let (v, d) = GPIO_PortLatchRead R (pin_port pin) d
      in (drop_bit (pin_place pin) v AND 1 \<noteq> 0, d))"

definition GPIO_PinToggle :: "'d soc \<Rightarrow> u32 \<Rightarrow> 'd \<Rightarrow> 'd" where
  "GPIO_PinToggle R pin d = GPIO_PortToggle R (pin_port pin) (pin_mask pin) d"

definition GPIO_PinSet :: "'d soc \<Rightarrow> u32 \<Rightarrow> 'd \<Rightarrow> 'd" where
  "GPIO_PinSet R pin d = GPIO_PortSet R (pin_port pin) (pin_mask pin) d"

definition GPIO_PinClear :: "'d soc \<Rightarrow> u32 \<Rightarrow> 'd \<Rightarrow> 'd" where
  "GPIO_PinClear R pin d = GPIO_PortClear R (pin_port pin) (pin_mask pin) d"

definition GPIO_PinInputEnable :: "'d soc \<Rightarrow> u32 \<Rightarrow> 'd \<Rightarrow> 'd" where
  "GPIO_PinInputEnable R pin d = GPIO_PortInputEnable R (pin_port pin) (pin_mask pin) d"

definition GPIO_PinOutputEnable :: "'d soc \<Rightarrow> u32 \<Rightarrow> 'd \<Rightarrow> 'd" where
  "GPIO_PinOutputEnable R pin d = GPIO_PortOutputEnable R (pin_port pin) (pin_mask pin) d"

lemmas gpio_defs = GPIO_PortRead_def GPIO_PortWrite_def GPIO_PortLatchRead_def GPIO_PortSet_def
  GPIO_PortClear_def GPIO_PortToggle_def GPIO_PinWrite_def GPIO_PinRead_def GPIO_PinLatchRead_def
  GPIO_PinToggle_def GPIO_PinSet_def GPIO_PinClear_def

text \<open>The level latched for a pin.\<close>

definition latched :: "(u32 \<Rightarrow> u32) \<Rightarrow> u32 \<Rightarrow> bool" where
  "latched l pin = bit (l (pin_port pin)) (pin_place pin)"

lemma pin_place_bound: "pin_place pin < 16"
proof -
  have "pin_place pin = unat pin mod 2 ^ 4"
    using take_bit_eq_mask [of 4 pin] unsigned_take_bit_eq [of 4 pin]
    by (simp add: pin_place_def mask_eq_exp_minus_1 take_bit_eq_mod del: take_bit_eq_mask)
  then show ?thesis by simp
qed

lemma bit_pin_mask: "n < 32 \<Longrightarrow> bit (pin_mask pin) n \<longleftrightarrow> n = pin_place pin"
  using pin_place_bound [of pin] by (auto simp: pin_mask_def bit_simps)

lemma bit_place: "drop_bit (pin_place pin) (v :: u32) AND 1 \<noteq> 0 \<longleftrightarrow> bit v (pin_place pin)"
  by (simp add: bit_iff_odd_drop_bit and_one_eq odd_iff_mod_2_eq_one)

text \<open>A pin is determined by its port and its place there.\<close>

lemma pin_determined: "pin_port p = pin_port q \<Longrightarrow> pin_place p = pin_place q \<Longrightarrow> p = q"
proof -
  assume a: "pin_port p = pin_port q" and b: "pin_place p = pin_place q"
  have low: "take_bit 4 p = take_bit 4 q"
    using b by (simp add: pin_place_def take_bit_eq_mask mask_eq_exp_minus_1 unsigned_word_eqI)
  show "p = q"
  proof (rule bit_word_eqI)
    fix n assume "n < LENGTH(32)"
    show "bit p n = bit q n"
    proof (cases "n < 4")
      case True
      with low show ?thesis by (metis bit_take_bit_iff)
    next
      case False
      then have "bit x n = bit (drop_bit 4 x) (n - 4)" for x :: u32 by (simp add: bit_drop_bit_eq)
      with a show ?thesis by (metis pin_port_def)
    qed
  qed
qed

end
