(* ===== verification/Plib_Spi.thy ===== *)
theory Plib_Spi
  imports Soc
begin

text \<open>
  The polled SPI master of
  src/src/config/default/peripheral/spi/spi_master/plib_spi2_master.c.
\<close>

section \<open>Registers and settings\<close>

abbreviation (input) SPIRBF :: u32 where "SPIRBF \<equiv> 0x1"
abbreviation (input) SPITBE :: u32 where "SPITBE \<equiv> 0x8"
abbreviation (input) SPIROV :: u32 where "SPIROV \<equiv> 0x40"
abbreviation (input) SPIBUSY :: u32 where "SPIBUSY \<equiv> 0x800"
abbreviation (input) MODE32 :: u32 where "MODE32 \<equiv> 0x800"
abbreviation (input) MODE16 :: u32 where "MODE16 \<equiv> 0x400"
abbreviation (input) CKP :: u32 where "CKP \<equiv> 0x40"
abbreviation (input) CKE :: u32 where "CKE \<equiv> 0x100"
abbreviation (input) MSTEN :: u32 where "MSTEN \<equiv> 0x20"
abbreviation (input) SPI_ON :: u32 where "SPI_ON \<equiv> 0x8000"

record spi_transfer_setup =
  clockFrequency :: u32
  clockPhase :: u32
  clockPolarity :: u32
  dataBits :: u32

abbreviation (input) SPI_CLOCK_PHASE_LEADING_EDGE :: u32 where "SPI_CLOCK_PHASE_LEADING_EDGE \<equiv> 0x100"
abbreviation (input) SPI_CLOCK_POLARITY_IDLE_LOW :: u32 where "SPI_CLOCK_POLARITY_IDLE_LOW \<equiv> 0"
abbreviation (input) SPI_DATA_BITS_8 :: u32 where "SPI_DATA_BITS_8 \<equiv> 0"

definition SPI2_Initialize :: "'d soc \<Rightarrow> 'd \<Rightarrow> 'd" where
  "SPI2_Initialize R d =
     (let d = sfr_write R IEC1CLR 0x20 d;
          d = sfr_write R IEC1CLR 0x80 d;
          d = sfr_write R IEC1CLR 0x40 d;
          d = sfr_write R SPI2CON 0 d;
          (_, d) = sfr_read R SPI2BUF d;
          d = sfr_write R IFS1CLR 0x20 d;
          d = sfr_write R IFS1CLR 0x80 d;
          d = sfr_write R IFS1CLR 0x40 d;
          d = sfr_write R SPI2BRG 37 d;
          d = sfr_write R SPI2STATCLR SPIROV d;
          d = sfr_write R SPI2CONSET (CKE OR MSTEN) d
      in sfr_write R SPI2CONSET SPI_ON d)"

text \<open>
  The divider for a clock, and whether it is within the nine bits of the register. The two
  divisions by \<open>2 * (t_brg + 1)\<close> trap when \<open>t_brg + 1\<close> or \<open>t_brg + 2\<close> is 0 in 31 bits.
\<close>

definition spi_divider :: "u32 \<Rightarrow> u32 \<Rightarrow> u32 option" where
  "spi_divider clock source =
     (let t_brg = (source div clock) div 2 - 1
      in if 2 * (t_brg + 1) = 0 \<or> 2 * (t_brg + 2) = 0 then None
         else (let baudHigh = source div (2 * (t_brg + 1));
                   baudLow = source div (2 * (t_brg + 2));
                   errorHigh = baudHigh - clock;
                   errorLow = clock - baudLow
               in Some (if errorHigh > errorLow then t_brg + 1 else t_brg)))"

definition SPI2_TransferSetup ::
  "'d soc \<Rightarrow> spi_transfer_setup option \<Rightarrow> u32 \<Rightarrow> 'd \<Rightarrow> (bool \<times> 'd) option" where
  "SPI2_TransferSetup R setup spiSourceClock d =
     (case setup of None \<Rightarrow> Some (False, d)
      | Some st \<Rightarrow>
        if clockFrequency st = 0 then Some (False, d)
        else do {
          let spiSourceClock = (if spiSourceClock = 0 then 76000000 else spiSourceClock);
          t_brg \<leftarrow> spi_divider (clockFrequency st) spiSourceClock;
          if t_brg > 511 then Some (False, d)
          else (let d = sfr_write R SPI2BRG t_brg d;
                    (con, d) = sfr_read R SPI2CON d;
                    d = sfr_write R SPI2CON
                          ((con AND NOT (MODE16 OR MODE32 OR CKP OR CKE)) OR
                           (clockPolarity st OR clockPhase st OR dataBits st)) d
                in Some (True, d))
        })"

section \<open>Transfers\<close>

text \<open>
  An element of the transmit buffer at the width the control register selects, and the bytes an
  element takes in the receive buffer. Each access reads the register again.
\<close>

definition tx_element :: "'d soc \<Rightarrow> bytes_at \<Rightarrow> u32 \<Rightarrow> 'd \<Rightarrow> u32 \<times> 'd" where
  "tx_element R buf n d =
     (let i = unat n; (con, d) = sfr_read R SPI2CON d
      in if con AND MODE32 = MODE32
         then (ucast (le16 (buf (4 * i)) (buf (4 * i + 1))) OR
               push_bit 16 (ucast (le16 (buf (4 * i + 2)) (buf (4 * i + 3)))), d)
         else (let (con, d) = sfr_read R SPI2CON d
               in if con AND MODE16 = MODE16
                  then (ucast (le16 (buf (2 * i)) (buf (2 * i + 1))), d)
                  else (ucast (buf i), d)))"

definition rx_bytes :: "'d soc \<Rightarrow> u32 \<Rightarrow> 'd \<Rightarrow> u8 list \<times> 'd" where
  "rx_bytes R v d =
     (let (con, d) = sfr_read R SPI2CON d
      in if con AND MODE32 = MODE32
         then ([ucast v, ucast (drop_bit 8 v), ucast (drop_bit 16 v), ucast (drop_bit 24 v)], d)
         else (let (con, d) = sfr_read R SPI2CON d
               in if con AND MODE16 = MODE16 then ([ucast v, ucast (drop_bit 8 v)], d)
                  else ([ucast v], d)))"

text \<open>The variables of the transfer loop, with what it stored in the receive buffer so far.\<close>

record spi_vars =
  txCount :: u32
  rxCount :: u32
  dummySize :: u32
  dummyRxCntr :: u32
  stored :: "u8 list"

definition receive_one :: "'d soc \<Rightarrow> 'd \<Rightarrow> (u32 \<times> 'd) option" where
  "receive_one R d = do {
     d \<leftarrow> poll_bit R SPI2STAT SPIRBF True d;
     Some (sfr_read R SPI2BUF d)
   }"

text \<open>\<open>while (dummyRxCntr != n)\<close>: receive and drop.\<close>

partial_function (option) drain :: "'d soc \<Rightarrow> u32 \<Rightarrow> u32 \<Rightarrow> 'd \<Rightarrow> (u32 \<times> 'd) option" where
  "drain R n cnt d =
     (if cnt \<noteq> n then Option.bind (receive_one R d) (\<lambda>r. drain R n (cnt + 1) (snd r))
      else Some (cnt, d))"

text \<open>\<open>while (SPI2STAT & SPIRBF)\<close>: drop what is in the receive buffer.\<close>

partial_function (option) flush :: "'d soc \<Rightarrow> 'd \<Rightarrow> 'd option" where
  "flush R d =
     (if fst (sfr_read R SPI2STAT d) AND SPIRBF \<noteq> 0
      then flush R (snd (sfr_read R SPI2BUF (snd (sfr_read R SPI2STAT d))))
      else Some (snd (sfr_read R SPI2STAT d)))"

text \<open>The two halves of a round: send an element or a dummy byte, then take what came back.\<close>

definition spi_send :: "'d soc \<Rightarrow> bytes_at \<Rightarrow> u32 \<Rightarrow> spi_vars \<Rightarrow> 'd \<Rightarrow> spi_vars \<times> 'd" where
  "spi_send R buf txSize v d =
     (if txCount v \<noteq> txSize
      then (let (x, d) = tx_element R buf (txCount v) d
            in (v\<lparr>txCount := txCount v + 1\<rparr>, sfr_write R SPI2BUF x d))
      else if dummySize v > 0
      then (v\<lparr>dummySize := dummySize v - 1\<rparr>, sfr_write R SPI2BUF 0xFF d)
      else (v, d))"

definition spi_take :: "'d soc \<Rightarrow> u32 \<Rightarrow> spi_vars \<Rightarrow> 'd \<Rightarrow> (spi_vars \<times> 'd) option" where
  "spi_take R rxSize v d =
     (if rxCount v = rxSize
      then do {
        d \<leftarrow> poll_bit R SPI2STAT SPITBE True d;
        (cnt, d) \<leftarrow> drain R ((txCount v - rxCount v) - 1) (dummyRxCntr v) d;
        Some (v\<lparr>dummyRxCntr := cnt\<rparr>, d)
      }
      else do {
        (x, d) \<leftarrow> receive_one R d;
        if rxCount v < rxSize
        then (let (bs, d) = rx_bytes R x d
              in Some (v\<lparr>stored := stored v @ bs, rxCount := rxCount v + 1\<rparr>, d))
        else Some (v, d)
      })"

partial_function (option) spi_rounds ::
  "'d soc \<Rightarrow> bytes_at \<Rightarrow> u32 \<Rightarrow> u32 \<Rightarrow> spi_vars \<Rightarrow> 'd \<Rightarrow> (spi_vars \<times> 'd) option" where
  "spi_rounds R buf txSize rxSize v d =
     (if txCount v \<noteq> txSize \<or> dummySize v \<noteq> 0
      then Option.bind (spi_take R rxSize (fst (spi_send R buf txSize v d)) (snd (spi_send R buf txSize v d)))
             (\<lambda>r. spi_rounds R buf txSize rxSize (fst r) (snd r))
      else Some (v, d))"

text \<open>The transfer after the sizes are fixed.\<close>

definition spi_exchange ::
  "'d soc \<Rightarrow> bytes_at \<Rightarrow> u32 \<Rightarrow> u32 \<Rightarrow> u32 \<Rightarrow> 'd \<Rightarrow> (u8 list \<times> 'd) option" where
  "spi_exchange R buf txSize rxSize dummies d = do {
     d \<leftarrow> poll_bit R SPI2STAT SPITBE True d;
     (v, d) \<leftarrow> spi_rounds R buf txSize rxSize
        \<lparr>txCount = 0, rxCount = 0, dummySize = dummies, dummyRxCntr = 0, stored = []\<rparr> d;
     if txSize > rxSize
     then do {
       (_, d) \<leftarrow> drain R (txCount v - rxCount v) (dummyRxCntr v) d;
       Some (stored v, d)
     }
     else Some (stored v, d)
   }"

text \<open>
  The result with the bytes stored at \<open>pReceiveData\<close>; the buffers are \<open>None\<close> when the pointer is
  NULL, for the second one only that matters.
\<close>

definition SPI2_WriteRead ::
  "'d soc \<Rightarrow> bytes_at option \<Rightarrow> u32 \<Rightarrow> bool \<Rightarrow> u32 \<Rightarrow> 'd \<Rightarrow> (bool \<times> u8 list \<times> 'd) option" where
  "SPI2_WriteRead R pTransmitData txSize pReceiveData rxSize d =
     (if (txSize > 0 \<and> pTransmitData \<noteq> None) \<or> (rxSize > 0 \<and> pReceiveData)
      then do {
        let txSize = (if pTransmitData = None then 0 else txSize);
        let rxSize = (if \<not> pReceiveData then 0 else rxSize);
        let buf = (case pTransmitData of None \<Rightarrow> (\<lambda>_. 0) | Some b \<Rightarrow> b);
        let d = sfr_write R SPI2STATCLR SPIROV d;
        d \<leftarrow> flush R d;
        let dummies = (if rxSize > txSize then rxSize - txSize else 0);
        let (con, d) = sfr_read R SPI2CON d;
        (bs, d) \<leftarrow>
          (if con AND MODE32 = MODE32
           then spi_exchange R buf (txSize div 4) (rxSize div 4) (dummies div 4) d
           else (let (con, d) = sfr_read R SPI2CON d
                 in if con AND MODE16 = MODE16
                    then spi_exchange R buf (txSize div 2) (rxSize div 2) (dummies div 2) d
                    else spi_exchange R buf txSize rxSize dummies d));
        Some (True, bs, d)
      }
      else Some (False, [], d))"

definition SPI2_Write :: "'d soc \<Rightarrow> bytes_at option \<Rightarrow> u32 \<Rightarrow> 'd \<Rightarrow> (bool \<times> u8 list \<times> 'd) option" where
  "SPI2_Write R pTransmitData txSize d = SPI2_WriteRead R pTransmitData txSize False 0 d"

definition SPI2_Read :: "'d soc \<Rightarrow> bool \<Rightarrow> u32 \<Rightarrow> 'd \<Rightarrow> (bool \<times> u8 list \<times> 'd) option" where
  "SPI2_Read R pReceiveData rxSize d = SPI2_WriteRead R None 0 pReceiveData rxSize d"

definition SPI2_IsTransmitterBusy :: "'d soc \<Rightarrow> 'd \<Rightarrow> bool \<times> 'd" where
  "SPI2_IsTransmitterBusy R d =
     (let (st, d) = sfr_read R SPI2STAT d in (st AND SPIBUSY \<noteq> 0, d))"

section \<open>The exchange on a port that is set up\<close>

text \<open>The port is idle: eight bits, and nothing sent that did not come back.\<close>

definition idle_port :: "'d soc \<Rightarrow> ('d \<Rightarrow> nat) \<Rightarrow> 'd \<Rightarrow> bool" where
  "idle_port R pend d \<longleftrightarrow> eight_bit R d \<and> pend d = 0"

lemma read_law:
  assumes "bus_law R obs pend"
  shows "obs (snd (sfr_read R r d)) = obs d" "eight_bit R (snd (sfr_read R r d)) = eight_bit R d"
    "pend (snd (sfr_read R r d)) = (if r = SPI2BUF then pend d - 1 else pend d)"
  using assms by (simp_all add: bus_law_def eight_bit_def)

lemma write_law:
  assumes "bus_law R obs pend" "bus_safe r" "eight_bit R d" "r = SPI2BUF \<Longrightarrow> pend d \<le> 1"
  shows "obs (sfr_write R r v d) = obs d @ bus_effect r v" "eight_bit R (sfr_write R r v d)"
    "pend (sfr_write R r v d) = (if r = SPI2BUF then pend d + 1 else pend d)"
  using assms by (simp_all add: bus_law_def eight_bit_def)

lemma bus_safe_spi [simp]: "bus_safe SPI2BUF" "bus_safe SPI2STATCLR"
  by (simp_all add: bus_safe_def)

lemma width_eight:
  assumes "eight_bit R d"
  shows "fst (sfr_read R SPI2CON d) AND MODE32 \<noteq> MODE32" "fst (sfr_read R SPI2CON d) AND MODE16 \<noteq> MODE16"
  using assms by (simp_all add: eight_bit_def spi_con_def)

lemma poll_law:
  assumes "bus_law R obs pend" "r \<noteq> SPI2BUF" "poll_bit R r bits want d = Some d'"
  shows "obs d' = obs d \<and> eight_bit R d' = eight_bit R d \<and> pend d' = pend d"
  by (rule poll_bit_invariant [OF assms(3), where I = "\<lambda>e. obs e = obs d \<and> eight_bit R e = eight_bit R d \<and> pend e = pend d"])
    (use assms in \<open>simp_all add: read_law\<close>)

lemma receive_one_law:
  assumes law: "spi_law R obs pend" and p: "pend d > 0"
  obtains x d' where "receive_one R d = Some (x, d')" "obs d' = obs d" "eight_bit R d' = eight_bit R d"
    "pend d' = pend d - 1"
proof -
  from law have b: "bus_law R obs pend" and g: "progress_law R pend" by (simp_all add: spi_law_def)
  from g p obtain d1 where 1: "poll_bit R SPI2STAT SPIRBF True d = Some d1"
    unfolding progress_law_def poll_bit_def by (metis wait_while_returns)
  from poll_law [OF b _ 1] have "obs d1 = obs d \<and> eight_bit R d1 = eight_bit R d \<and> pend d1 = pend d" by simp
  with 1 b show ?thesis
    by (intro that [of "fst (sfr_read R SPI2BUF d1)" "snd (sfr_read R SPI2BUF d1)"])
      (simp_all add: receive_one_def read_law)
qed

lemma transmit_ready:
  assumes law: "spi_law R obs pend"
  obtains d' where "poll_bit R SPI2STAT SPITBE True d = Some d'" "obs d' = obs d"
    "eight_bit R d' = eight_bit R d" "pend d' = pend d"
proof -
  from law have b: "bus_law R obs pend" and g: "progress_law R pend" by (simp_all add: spi_law_def)
  from g obtain d1 where 1: "poll_bit R SPI2STAT SPITBE True d = Some d1"
    unfolding progress_law_def poll_bit_def by (metis wait_while_returns)
  with poll_law [OF b _ 1] show ?thesis by (intro that [of d1]) simp_all
qed

lemma rx_byte: "bus_law R obs pend \<Longrightarrow> eight_bit R d \<Longrightarrow>
    fst (rx_bytes R x d) = [ucast x] \<and> obs (snd (rx_bytes R x d)) = obs d \<and>
    eight_bit R (snd (rx_bytes R x d)) \<and> pend (snd (rx_bytes R x d)) = pend d"
  by (simp add: rx_bytes_def case_prod_beta width_eight read_law)

lemma tx_byte: "bus_law R obs pend \<Longrightarrow> eight_bit R d \<Longrightarrow>
    fst (tx_element R buf n d) = ucast (buf (unat n)) \<and> obs (snd (tx_element R buf n d)) = obs d \<and>
    eight_bit R (snd (tx_element R buf n d)) \<and> pend (snd (tx_element R buf n d)) = pend d"
  by (simp add: tx_element_def case_prod_beta width_eight read_law Let_def)

text \<open>
  The variables after \<open>k\<close> of the rounds of a transfer of \<open>T\<close> bytes out and \<open>X\<close> bytes in, and how many
  bytes are then under way: once the receive buffer is full one byte is left behind.
\<close>

definition spi_at :: "nat \<Rightarrow> nat \<Rightarrow> nat \<Rightarrow> u8 list \<Rightarrow> spi_vars" where
  "spi_at T X k bs =
     \<lparr>txCount = of_nat (min k T), rxCount = of_nat (min k X), dummySize = of_nat (T + (X - T) - max k T),
      dummyRxCntr = of_nat (k - X - 1), stored = bs\<rparr>"

definition spi_byte :: "bytes_at \<Rightarrow> nat \<Rightarrow> nat \<Rightarrow> u8" where
  "spi_byte buf T k = (if k < T then buf k else 0xFF)"

lemma send_round:
  assumes law: "bus_law R obs pend" and sz: "T < 2 ^ 32" "X < 2 ^ 32" and k: "k < T + (X - T)"
    and e: "eight_bit R d" and p: "pend d \<le> 1"
  obtains d' where "spi_send R buf (of_nat T) (spi_at T X k bs) d =
      ((spi_at T X (k + 1) bs)\<lparr>rxCount := of_nat (min k X), dummyRxCntr := of_nat (k - X - 1)\<rparr>, d')"
    "obs d' = obs d @ [Mosi (spi_byte buf T k)]" "eight_bit R d'" "pend d' = pend d + 1"
proof (cases "k < T")
  case True
  then have ne: "(of_nat k :: u32) \<noteq> of_nat T" using sz u32_nat_inject [of k T] by simp
  have k32: "unat (of_nat k :: u32) = k" using True sz by (simp add: u32_of_nat)
  let ?t = "tx_element R buf (of_nat k) d"
  note t = tx_byte [OF law e, of buf "of_nat k"]
  show ?thesis
  proof (rule that [of "sfr_write R SPI2BUF (fst ?t) (snd ?t)"])
    show "spi_send R buf (of_nat T) (spi_at T X k bs) d =
      ((spi_at T X (k + 1) bs)\<lparr>rxCount := of_nat (min k X), dummyRxCntr := of_nat (k - X - 1)\<rparr>,
       sfr_write R SPI2BUF (fst ?t) (snd ?t))"
      using True ne by (simp add: spi_send_def spi_at_def case_prod_beta Let_def min_def max_def)
  qed (use True t k32 p in \<open>simp_all add: write_law [OF law] spi_byte_def byte_u32\<close>)
next
  case False
  then have d0: "(of_nat (T + (X - T) - k) :: u32) \<noteq> of_nat 0" and m: "min k T = T" "max k T = k"
    using k sz u32_nat_inject [of "T + (X - T) - k" 0] by auto
  from False k have s: "T + (X - T) - k = Suc (T + (X - T) - (k + 1))" by simp
  show ?thesis
  proof (rule that [of "sfr_write R SPI2BUF 0xFF d"])
    show "spi_send R buf (of_nat T) (spi_at T X k bs) d =
      ((spi_at T X (k + 1) bs)\<lparr>rxCount := of_nat (min k X), dummyRxCntr := of_nat (k - X - 1)\<rparr>,
       sfr_write R SPI2BUF 0xFF d)"
      using False d0 s by (simp add: spi_send_def spi_at_def min_def max_def word_greater_zero_iff)
  qed (use False e p in \<open>simp_all add: write_law [OF law] spi_byte_def byte_u32\<close>)
qed

lemma drain_one:
  assumes law: "spi_law R obs pend" and p: "pend d = 2" and c: "c < 2 ^ 32 - 1"
  obtains d' where "drain R (of_nat (c + 1)) (of_nat c) d = Some (of_nat (c + 1), d')" "obs d' = obs d"
    "eight_bit R d' = eight_bit R d" "pend d' = 1"
proof -
  from p have "pend d > 0" by simp
  from receive_one_law [OF law this] obtain x d' where 1: "receive_one R d = Some (x, d')"
    "obs d' = obs d" "eight_bit R d' = eight_bit R d" "pend d' = pend d - 1" by blast
  have "(of_nat c :: u32) \<noteq> of_nat (c + 1)" using c u32_nat_inject [of c "c + 1"] by simp
  then have "drain R (of_nat (c + 1)) (of_nat c) d = Some (of_nat (c + 1), d')"
    by (subst drain.simps) (simp add: 1 drain.simps add.commute)
  with 1 p show ?thesis by (intro that) simp_all
qed

lemma drain_none: "drain R n n d = Some (n, d)"
  by (simp add: drain.simps)

lemma take_round:
  assumes law: "spi_law R obs pend" and sz: "T < 2 ^ 32" "X < 2 ^ 32" and k: "k < T + (X - T)"
    and e: "eight_bit R d" and p: "pend d = of_bool (k > X) + 1"
  obtains d' new where
    "spi_take R (of_nat X) ((spi_at T X (k + 1) bs)\<lparr>rxCount := of_nat (min k X), dummyRxCntr := of_nat (k - X - 1)\<rparr>) d =
      Some (spi_at T X (k + 1) (bs @ new), d')"
    "length new = of_bool (k < X)" "obs d' = obs d" "eight_bit R d'" "pend d' = of_bool (k + 1 > X)"
proof (cases "k < X")
  case True
  then have ne: "(of_nat k :: u32) \<noteq> of_nat X" using sz u32_nat_inject [of k X] by simp
  have lt: "(of_nat k :: u32) < of_nat X" using True sz by (simp add: word_less_nat_alt u32_of_nat)
  from p have "pend d > 0" by simp
  from receive_one_law [OF law this] obtain x d' where 1: "receive_one R d = Some (x, d')"
    "obs d' = obs d" "eight_bit R d' = eight_bit R d" "pend d' = pend d - 1" by blast
  from law have b: "bus_law R obs pend" by (simp add: spi_law_def)
  from e 1 have e': "eight_bit R d'" by simp
  note r = rx_byte [OF b e', of x]
  show ?thesis
  proof (rule that [of "[ucast x]" "snd (rx_bytes R x d')"])
    show "spi_take R (of_nat X) ((spi_at T X (k + 1) bs)\<lparr>rxCount := of_nat (min k X), dummyRxCntr := of_nat (k - X - 1)\<rparr>) d =
      Some (spi_at T X (k + 1) (bs @ [ucast x]), snd (rx_bytes R x d'))"
      using True ne lt r by (simp add: spi_take_def 1 spi_at_def case_prod_beta Let_def min_def)
  qed (use True r 1 p in simp_all)
next
  case False
  with k have kT: "k < T" by simp
  let ?c = "k - X - 1"
  from transmit_ready [OF law] obtain d1 where 1: "poll_bit R SPI2STAT SPITBE True d = Some d1"
    "obs d1 = obs d" "eight_bit R d1 = eight_bit R d" "pend d1 = pend d" by blast
  have n: "(of_nat (k + 1) - of_nat X) - 1 = (of_nat (k - X) :: u32)"
    using False by (simp add: of_nat_diff)
  obtain d2 where 2: "drain R (of_nat (k - X)) (of_nat ?c) d1 = Some (of_nat (k - X), d2)"
    "obs d2 = obs d1" "eight_bit R d2 = eight_bit R d1" "pend d2 = 1"
  proof (cases "k = X")
    case True
    then show ?thesis using that [of d1] p 1 by (simp add: drain_none)
  next
    case ne: False
    then have s: "k - X = ?c + 1" using False by simp
    have "pend d1 = 2" "?c < 2 ^ 32 - 1" using ne False p 1 kT sz by simp_all
    from drain_one [OF law this] s show ?thesis using that by metis
  qed
  show ?thesis
  proof (rule that [of "[]" d2])
    show "spi_take R (of_nat X) ((spi_at T X (k + 1) bs)\<lparr>rxCount := of_nat (min k X), dummyRxCntr := of_nat ?c\<rparr>) d =
      Some (spi_at T X (k + 1) (bs @ []), d2)"
      using False kT n 1 2 by (simp add: spi_take_def spi_at_def Let_def min_def)
  qed (use False 1 2 e in simp_all)
qed

lemma rounds_end: "T < 2 ^ 32 \<Longrightarrow> k = T + (X - T) \<Longrightarrow> spi_rounds R buf (of_nat T) (of_nat X) (spi_at T X k bs) d =
    Some (spi_at T X k bs, d)"
  by (subst spi_rounds.simps) (simp add: spi_at_def max_def min_def)

lemma rounds_continue:
  assumes "T < 2 ^ 32" "X < 2 ^ 32" "k < T + (X - T)"
  shows "txCount (spi_at T X k bs) \<noteq> of_nat T \<or> dummySize (spi_at T X k bs) \<noteq> 0"
  using assms u32_nat_inject [of k T] u32_nat_inject [of "T + (X - T) - k" 0]
  by (cases "k < T") (auto simp: spi_at_def min_def max_def)

lemma rounds_run:
  assumes law: "spi_law R obs pend" and sz: "T < 2 ^ 32" "X < 2 ^ 32"
  shows "k \<le> T + (X - T) \<Longrightarrow> eight_bit R d \<Longrightarrow> pend d = of_bool (k > X) \<Longrightarrow> length bs = min k X \<Longrightarrow>
    \<exists>d' bs'. spi_rounds R buf (of_nat T) (of_nat X) (spi_at T X k bs) d =
        Some (spi_at T X (T + (X - T)) bs', d') \<and>
      length bs' = X \<and> obs d' = obs d @ map (Mosi \<circ> spi_byte buf T) [k..<T + (X - T)] \<and>
      eight_bit R d' \<and> pend d' = of_bool (T > X)"
proof (induction "T + (X - T) - k" arbitrary: k d bs)
  case 0
  then have k: "k = T + (X - T)" by simp
  then have "length bs = X" "pend d = of_bool (T > X)" using 0 by (cases "X < T"; simp)+
  moreover have "map (Mosi \<circ> spi_byte buf T) [k..<T + (X - T)] = []" by (simp add: k)
  ultimately show ?case using rounds_end [OF sz(1) k, of R buf bs d] 0(3) k by (metis append_Nil2)
next
  case (Suc m)
  then have k: "k < T + (X - T)" by simp
  have b: "bus_law R obs pend" using law by (simp add: spi_law_def)
  have "pend d \<le> 1" using Suc.prems by simp
  from send_round [OF b sz k Suc.prems(2) this, of buf bs] obtain d1 where
    1: "spi_send R buf (of_nat T) (spi_at T X k bs) d =
      ((spi_at T X (k + 1) bs)\<lparr>rxCount := of_nat (min k X), dummyRxCntr := of_nat (k - X - 1)\<rparr>, d1)"
      "obs d1 = obs d @ [Mosi (spi_byte buf T k)]" "eight_bit R d1" "pend d1 = pend d + 1" .
  with Suc.prems have "pend d1 = of_bool (k > X) + 1" by simp
  from take_round [OF law sz k 1(3) this, of bs] obtain d2 new where
    2: "spi_take R (of_nat X) ((spi_at T X (k + 1) bs)\<lparr>rxCount := of_nat (min k X), dummyRxCntr := of_nat (k - X - 1)\<rparr>) d1 =
      Some (spi_at T X (k + 1) (bs @ new), d2)"
    "length new = of_bool (k < X)" "obs d2 = obs d1" "eight_bit R d2" "pend d2 = of_bool (k + 1 > X)" .
  have len: "length (bs @ new) = min (k + 1) X" using 2 Suc.prems by (auto simp: min_def)
  have m: "m = T + (X - T) - (k + 1)" "k + 1 \<le> T + (X - T)" using Suc.hyps(2) k by simp_all
  have step: "spi_rounds R buf (of_nat T) (of_nat X) (spi_at T X k bs) d =
      spi_rounds R buf (of_nat T) (of_nat X) (spi_at T X (k + 1) (bs @ new)) d2"
    by (subst spi_rounds.simps)
      (simp only: rounds_continue [OF sz k] if_True 1(1) 2(1) fst_conv snd_conv Option.bind.bind_lunit)
  show ?case
    using Suc.hyps(1) [OF m 2(4,5) len] 1(2) 2(3) k by (simp add: step upt_conv_Cons)
qed

lemma exchange_run:
  assumes law: "spi_law R obs pend" and idle: "idle_port R pend d"
  shows "\<exists>bs d'. spi_exchange R buf tx rx (if rx > tx then rx - tx else 0) d = Some (bs, d') \<and>
      length bs = unat rx \<and> idle_port R pend d' \<and>
      obs d' = obs d @ map (Mosi \<circ> spi_byte buf (unat tx)) [0..<max (unat tx) (unat rx)]"
proof -
  let ?T = "unat tx" and ?X = "unat rx"
  have sz: "?T < 2 ^ 32" "?X < 2 ^ 32" using unsigned_less [of tx] unsigned_less [of rx] by simp_all
  have total: "?T + (?X - ?T) = max ?T ?X" by simp
  define dm where "dm = (if rx > tx then rx - tx else 0)"
  have dm: "dm = of_nat (?T + (?X - ?T) - ?T)"
    by (auto simp: dm_def word_less_nat_alt of_nat_diff)
  from transmit_ready [OF law] obtain d1 where 1: "poll_bit R SPI2STAT SPITBE True d = Some d1"
    "obs d1 = obs d" "eight_bit R d1 = eight_bit R d" "pend d1 = pend d" by blast
  have start: "\<lparr>txCount = 0, rxCount = 0, dummySize = dm, dummyRxCntr = 0, stored = []\<rparr> =
      spi_at ?T ?X 0 []"
    unfolding dm spi_at_def by simp
  have "eight_bit R d1" "pend d1 = of_bool (0 > ?X)" using idle 1 by (simp_all add: idle_port_def)
  from rounds_run [OF law sz, where k = 0 and d = d1 and bs = "[]" and buf = buf, OF _ this] obtain d2 bs where
    2: "spi_rounds R buf tx rx (spi_at ?T ?X 0 []) d1 = Some (spi_at ?T ?X (?T + (?X - ?T)) bs, d2)"
      "length bs = ?X" "obs d2 = obs d1 @ map (Mosi \<circ> spi_byte buf ?T) [0..<?T + (?X - ?T)]"
      "eight_bit R d2" "pend d2 = of_bool (?T > ?X)"
    by auto
  have final: "txCount v = tx" "rxCount v = (if tx > rx then rx else rxCount v)"
      "dummyRxCntr v = (if tx > rx then of_nat (?T - ?X - 1) else dummyRxCntr v)" "stored v = bs"
    if "v = spi_at ?T ?X (?T + (?X - ?T)) bs" for v
    by (auto simp: that spi_at_def word_less_nat_alt)
  have E: "spi_exchange R buf tx rx dm d =
      (if tx > rx
       then Option.bind (drain R (tx - rx) (of_nat (?T - ?X - 1)) d2) (\<lambda>r. Some (bs, snd r))
       else Some (bs, d2))"
    unfolding spi_exchange_def start 1(1) Option.bind.bind_lunit 2(1)
    by (simp add: final case_prod_unfold)
  have "\<exists>bs d'. spi_exchange R buf tx rx dm d = Some (bs, d') \<and> length bs = ?X \<and> idle_port R pend d' \<and>
      obs d' = obs d @ map (Mosi \<circ> spi_byte buf ?T) [0..<max ?T ?X]"
  proof (cases "tx > rx")
    case False
    then have "of_bool (?T > ?X) = (0 :: nat)" by (simp add: word_less_nat_alt)
    with False show ?thesis unfolding E idle_port_def using 1(2) 2(2-5)
      by (simp add: total)
  next
    case True
    then have lt: "?X < ?T" by (simp add: word_less_nat_alt)
    from 2 lt have "pend d2 > 0" by simp
    from receive_one_law [OF law this] obtain x d3 where 3: "receive_one R d2 = Some (x, d3)"
      "obs d3 = obs d2" "eight_bit R d3 = eight_bit R d2" "pend d3 = pend d2 - 1" by blast
    have c: "(of_nat (?T - ?X - 1) :: u32) \<noteq> tx - rx" "(of_nat (?T - ?X - 1) :: u32) + 1 = tx - rx"
      using lt by (simp_all add: of_nat_diff)
    have "drain R (tx - rx) (of_nat (?T - ?X - 1)) d2 = Some (tx - rx, d3)"
      by (subst drain.simps) (simp only: c 3 simp_thms if_True Option.bind.bind_lunit snd_conv drain_none)
    then show ?thesis
      using 1 2 3 lt True
      by (simp add: E idle_port_def total)
  qed
  then show ?thesis by (simp only: dm_def)
qed

text \<open>The transfer of a request on an idle port; a buffer that is missing counts as empty.\<close>

lemma write_read_run:
  assumes law: "spi_law R obs pend" and idle: "idle_port R pend d"
    and T: "T = (if pTransmitData = None then 0 else tx)" and X: "X = (if rxp then rx else 0)"
    and req: "T > 0 \<or> X > 0"
  shows "\<exists>bs d'. SPI2_WriteRead R pTransmitData tx rxp rx d = Some (True, bs, d') \<and>
      length bs = unat X \<and> idle_port R pend d' \<and>
      obs d' = obs d @ map (Mosi \<circ> spi_byte (case_option (\<lambda>_. 0) id pTransmitData) (unat T)) [0..<max (unat T) (unat X)]"
proof -
  from law have b: "bus_law R obs pend" and g: "progress_law R pend" by (simp_all add: spi_law_def)
  let ?d1 = "sfr_write R SPI2STATCLR SPIROV d"
  let ?d2 = "snd (sfr_read R SPI2STAT ?d1)" let ?d3 = "snd (sfr_read R SPI2CON ?d2)"
  let ?d4 = "snd (sfr_read R SPI2CON ?d3)"
  let ?buf = "case_option (\<lambda>_. 0) id pTransmitData"
  have 1: "obs ?d1 = obs d" "eight_bit R ?d1" "pend ?d1 = 0"
    using idle by (simp_all add: idle_port_def write_law [OF b])
  have 2: "flush R ?d1 = Some ?d2" using g 1(3) by (subst flush.simps) (simp add: progress_law_def)
  have 3: "eight_bit R ?d2" "eight_bit R ?d3" and 4: "idle_port R pend ?d4" "obs ?d4 = obs d"
    using 1 b by (simp_all add: read_law idle_port_def)
  have request: "(tx > 0 \<and> pTransmitData \<noteq> None) \<or> (rx > 0 \<and> rxp)"
    using req T X by (auto split: if_splits)
  have buf: "(case pTransmitData of None \<Rightarrow> (\<lambda>_. 0) | Some b \<Rightarrow> b) = ?buf"
    by (simp split: option.split)
  have "SPI2_WriteRead R pTransmitData tx rxp rx d =
      Option.bind (spi_exchange R ?buf T X (if X > T then X - T else 0) ?d4) (\<lambda>r. Some (True, fst r, snd r))"
    unfolding SPI2_WriteRead_def if_P [OF request] buf
    using 2 width_eight [OF 3(1)] width_eight [OF 3(2)]
    by (simp add: case_prod_unfold Let_def T X)
  with exchange_run [OF law 4(1), of ?buf T X] 4(2) show ?thesis by auto
qed

end
