(* ===== verification/Board.thy ===== *)
theory Board
  imports Enc_Bus Plib_Gpio Plib_Spi
begin

text \<open>
  The application of src/src/main.c: the hardware abstraction layer of the driver on the SPI and the
  port library of the board, the set-up of the port, and the blinking task. A main property is that
  this layer keeps the contract \<open>enc_hal\<close> the driver is verified against, so that what is proved of
  the driver over the contract holds on the board.
\<close>

section \<open>The hardware abstraction layer\<close>

abbreviation (input) GPIO_PIN_RD1 :: u32 where "GPIO_PIN_RD1 \<equiv> 49"
abbreviation (input) GPIO_PIN_RF12 :: u32 where "GPIO_PIN_RF12 \<equiv> 92"

text \<open>pdMS_TO_TICKS of projdefs.h, with the 1000 ticks a second of FreeRTOSConfig.h.\<close>

definition pdMS_TO_TICKS :: "u32 \<Rightarrow> u32" where
  "pdMS_TO_TICKS ms = ucast (((ucast ms :: 64 word) * 1000) div 1000)"

text \<open>The byte of \<open>receive\<close> stays 0 when the transfer stores nothing.\<close>

definition enc624j600_hal_spi_transfer :: "'d soc \<Rightarrow> u8 \<Rightarrow> 'd \<Rightarrow> (u8 \<times> 'd) option" where
  "enc624j600_hal_spi_transfer R data d = do {
     (_, bs, d) \<leftarrow> SPI2_WriteRead R (Some (\<lambda>_. data)) 1 True 1 d;
     Some (case bs of [] \<Rightarrow> 0 | b # _ \<Rightarrow> b, d)
   }"

definition enc624j600_hal_cs_assert :: "'d soc \<Rightarrow> 'd \<Rightarrow> 'd" where
  "enc624j600_hal_cs_assert R d = GPIO_PinClear R GPIO_PIN_RF12 d"

definition enc624j600_hal_cs_deassert :: "'d soc \<Rightarrow> 'd \<Rightarrow> 'd" where
  "enc624j600_hal_cs_deassert R d = GPIO_PinSet R GPIO_PIN_RF12 d"

definition enc624j600_hal_delay :: "'d soc \<Rightarrow> u8 \<Rightarrow> 'd \<Rightarrow> 'd option" where
  "enc624j600_hal_delay R us d =
     (let (ticks, d) = tick_count R d
      in wait_while (\<lambda>t. t - ticks < pdMS_TO_TICKS (ucast us)) (\<lambda>d. Some (tick_count R d)) d)"

definition board_hal :: "'d soc \<Rightarrow> 'd hal" where
  "board_hal R =
     \<lparr>spi_transfer = enc624j600_hal_spi_transfer R,
      cs_assert = (\<lambda>d. Some (enc624j600_hal_cs_assert R d)),
      cs_deassert = (\<lambda>d. Some (enc624j600_hal_cs_deassert R d)),
      hal_delay = enc624j600_hal_delay R\<rparr>"

section \<open>The application\<close>

text \<open>The settings \<open>main\<close> gives the SPI port.\<close>

definition main_spi_setup :: spi_transfer_setup where
  "main_spi_setup =
     \<lparr>clockFrequency = 10000000, clockPhase = SPI_CLOCK_PHASE_LEADING_EDGE,
      clockPolarity = SPI_CLOCK_POLARITY_IDLE_LOW, dataBits = SPI_DATA_BITS_8\<rparr>"

text \<open>One round of the loop of the first task; \<open>ticks\<close> is its variable.\<close>

definition my_first_task_round :: "'d soc \<Rightarrow> u32 \<Rightarrow> 'd \<Rightarrow> u32 \<times> 'd" where
  "my_first_task_round R ticks d =
     (let (now, d) = tick_count R d
      in if now - ticks > pdMS_TO_TICKS 500
         then tick_count R (GPIO_PinToggle R GPIO_PIN_RD1 d)
         else (ticks, d))"

section \<open>The contract of the layer\<close>

lemma ms_to_ticks [simp]: "pdMS_TO_TICKS ms = ms"
proof -
  have b: "unat ms < 2 ^ 32" using unsigned_less [of ms] by simp
  then have "unat (ucast ms :: 64 word) = unat ms"
    by (simp add: unsigned_ucast_eq take_bit_nat_eq_self)
  with b have "unat ((ucast ms :: 64 word) * 1000) = unat ms * 1000"
    by (simp add: unat_word_ariths)
  then have "unat ((ucast ms :: 64 word) * 1000 div 1000) = unat ms"
    by (simp add: unat_div)
  then show ?thesis
    unfolding pdMS_TO_TICKS_def by (metis of_nat_unat ucast_id)
qed

lemma chip_select_pin [simp]: "pin_port GPIO_PIN_RF12 = 5" "pin_place GPIO_PIN_RF12 = 12" "bit (pin_mask GPIO_PIN_RF12) 12"
  by (simp_all add: pin_port_def pin_place_def bit_pin_mask drop_bit_eq_div)

definition board_ready :: "'d soc \<Rightarrow> ('d \<Rightarrow> bus_event list) \<Rightarrow> ('d \<Rightarrow> nat) \<Rightarrow> 'd \<Rightarrow> bool" where
  "board_ready R obs pend d \<longleftrightarrow> spi_law R obs pend \<and> idle_port R pend d"

lemma transfer_run:
  assumes "board_ready R obs pend d"
  shows "\<exists>r d'. enc624j600_hal_spi_transfer R b d = Some (r, d') \<and> board_ready R obs pend d' \<and>
    obs d' = obs d @ [Mosi b]"
proof -
  from assms have law: "spi_law R obs pend" and i: "idle_port R pend d" by (simp_all add: board_ready_def)
  from write_read_run [OF law i refl refl, where pTransmitData = "Some (\<lambda>_. b)" and tx = 1 and rxp = True and rx = 1] obtain bs d' where
    "SPI2_WriteRead R (Some (\<lambda>_. b)) 1 True 1 d = Some (True, bs, d')" "idle_port R pend d'"
    "obs d' = obs d @ [Mosi b]"
    by (auto simp: spi_byte_def)
  with law show ?thesis by (simp add: enc624j600_hal_spi_transfer_def board_ready_def)
qed

lemma select_run:
  assumes "board_ready R obs pend d"
  shows "board_ready R obs pend (enc624j600_hal_cs_assert R d)"
    "obs (enc624j600_hal_cs_assert R d) = obs d @ [CsLow]"
    "board_ready R obs pend (enc624j600_hal_cs_deassert R d)"
    "obs (enc624j600_hal_cs_deassert R d) = obs d @ [CsHigh]"
proof -
  from assms have b: "bus_law R obs pend" and e: "eight_bit R d" and p: "pend d = 0" and l: "spi_law R obs pend"
    by (simp_all add: board_ready_def idle_port_def spi_law_def)
  have s: "bus_safe (LATxCLR 5)" "bus_safe (LATxSET 5)" by (simp_all add: bus_safe_def)
  note w = write_law [OF b s(1) e] write_law [OF b s(2) e]
  show "board_ready R obs pend (enc624j600_hal_cs_assert R d)"
    "obs (enc624j600_hal_cs_assert R d) = obs d @ [CsLow]"
    "board_ready R obs pend (enc624j600_hal_cs_deassert R d)"
    "obs (enc624j600_hal_cs_deassert R d) = obs d @ [CsHigh]"
    using l p w by (simp_all add: enc624j600_hal_cs_assert_def enc624j600_hal_cs_deassert_def gpio_defs
        board_ready_def idle_port_def)
qed

lemma delay_quiet:
  assumes "board_ready R obs pend d" "enc624j600_hal_delay R us d = Some d'"
  shows "board_ready R obs pend d' \<and> obs d' = obs d"
proof -
  from assms(1) have b: "bus_law R obs pend" by (simp add: board_ready_def spi_law_def)
  let ?I = "\<lambda>e. board_ready R obs pend e \<and> obs e = obs d"
  have step: "?I (snd (tick_count R e))" if "?I e" for e
    using that b by (simp add: board_ready_def idle_port_def eight_bit_def bus_law_def)
  have step': "\<And>e v e'. ?I e \<Longrightarrow> Some (tick_count R e) = Some (v, e') \<Longrightarrow> ?I e'"
    using step by (metis option.inject snd_conv)
  have start: "?I (snd (tick_count R d))" using step assms(1) by blast
  have run: "wait_while (\<lambda>t. t - fst (tick_count R d) < ucast us) (\<lambda>d. Some (tick_count R d))
      (snd (tick_count R d)) = Some d'"
    using assms(2) by (simp add: enc624j600_hal_delay_def case_prod_beta)
  show ?thesis
    by (rule wait_while_invariant [where I = ?I, OF run start step', THEN conjunct1])
qed

interpretation board: enc_hal "board_hal R" obs "board_ready R obs pend" for R obs pend
proof unfold_locales
  fix d d' b r us
  show "cs_assert (board_hal R) d = Some d' \<Longrightarrow> board_ready R obs pend d \<Longrightarrow>
      board_ready R obs pend d' \<and> obs d' = obs d @ [CsLow]"
    "cs_deassert (board_hal R) d = Some d' \<Longrightarrow> board_ready R obs pend d \<Longrightarrow>
      board_ready R obs pend d' \<and> obs d' = obs d @ [CsHigh]"
    using select_run by (auto simp: board_hal_def)
  show "spi_transfer (board_hal R) b d = Some (r, d') \<Longrightarrow> board_ready R obs pend d \<Longrightarrow>
      board_ready R obs pend d' \<and> obs d' = obs d @ [Mosi b]"
    using transfer_run [of R obs pend d b] by (auto simp: board_hal_def)
  show "hal_delay (board_hal R) us d = Some d' \<Longrightarrow> board_ready R obs pend d \<Longrightarrow>
      board_ready R obs pend d' \<and> obs d' = obs d"
    using delay_quiet by (simp add: board_hal_def)
qed

text \<open>On the board a frame is always sent to its end.\<close>

lemma board_xfer_returns:
  "board_ready R obs pend d \<Longrightarrow> \<exists>rs d'. xfer_all (board_hal R) bs d = Some (rs, d')"
proof (induction bs arbitrary: d)
  case (Cons b bs)
  from transfer_run [OF Cons.prems, of b] obtain r d1 where
    1: "enc624j600_hal_spi_transfer R b d = Some (r, d1)" "board_ready R obs pend d1" by blast
  with Cons.IH obtain rs d2 where "xfer_all (board_hal R) bs d1 = Some (rs, d2)" by blast
  with 1 show ?case by (simp add: board_hal_def)
qed simp

lemma board_frame_returns:
  assumes "board_ready R obs pend d"
  shows "\<exists>rs d'. spi_frame (board_hal R) bs d = Some (rs, d')"
proof -
  from board_xfer_returns [OF select_run(1) [OF assms]] obtain rs d'
    where "xfer_all (board_hal R) bs (enc624j600_hal_cs_assert R d) = Some (rs, d')" by blast
  moreover have "cs_assert (board_hal R) e = Some (enc624j600_hal_cs_assert R e)"
    "cs_deassert (board_hal R) e = Some (enc624j600_hal_cs_deassert R e)" for e
    by (simp_all add: board_hal_def)
  ultimately show ?thesis by (simp add: spi_frame_def)
qed

end
