(* ===== verification/Board_Properties.thy ===== *)
theory Board_Properties
  imports Board
begin

text \<open>
  The properties of the board support of src/src/main.c and of the peripheral libraries under it,
  and a model of the port on which the witnesses run them.
\<close>

section \<open>A port with its slave output wired to its input\<close>

text \<open>
  A concrete port that keeps the laws: every byte sent comes back. It models no code of the
  repository. It counts a tick whenever the tick counter is read.
\<close>

record demo =
  d_con :: u32
  d_fifo :: "u8 list"
  d_log :: "bus_event list"
  d_lat :: "u32 \<Rightarrow> u32"
  d_ticks :: nat
  d_brg :: u32

fun demo_read :: "sfr \<Rightarrow> demo \<Rightarrow> u32 \<times> demo" where
  "demo_read SPI2CON s = (d_con s, s)"
| "demo_read SPI2STAT s = (8 OR of_bool (d_fifo s \<noteq> []), s)"
| "demo_read SPI2BUF s = (case d_fifo s of [] \<Rightarrow> 0 | b # _ \<Rightarrow> ucast b, s\<lparr>d_fifo := tl (d_fifo s)\<rparr>)"
| "demo_read (LATx p) s = (d_lat s p, s)"
| "demo_read _ s = (0, s)"

definition demo_store :: "sfr \<Rightarrow> u32 \<Rightarrow> demo \<Rightarrow> demo" where
  "demo_store r v s =
     (case r of SPI2CON \<Rightarrow> s\<lparr>d_con := v\<rparr> | SPI2CONSET \<Rightarrow> s\<lparr>d_con := d_con s OR v\<rparr>
      | SPI2BRG \<Rightarrow> s\<lparr>d_brg := v\<rparr> | SPI2BUF \<Rightarrow> s\<lparr>d_fifo := d_fifo s @ [ucast v]\<rparr> | _ \<Rightarrow> s)"

definition demo_soc :: "demo soc" where
  "demo_soc =
     \<lparr>sfr_read = demo_read,
      sfr_write = (\<lambda>r v s. (demo_store r v s)\<lparr>d_log := d_log s @ bus_effect r v,
                                           d_lat := latch_effect r v (d_lat s)\<rparr>),
      tick_count = (\<lambda>s. (of_nat (d_ticks s), s\<lparr>d_ticks := d_ticks s + 1\<rparr>))\<rparr>"

definition demo_start :: demo where
  "demo_start = \<lparr>d_con = 0, d_fifo = [], d_log = [], d_lat = (\<lambda>_. 0), d_ticks = 0, d_brg = 0\<rparr>"

lemma demo_latches: "latch_law demo_soc d_lat"
proof -
  have "d_lat (snd (demo_read r s)) = d_lat s" for r s by (cases r) simp_all
  then show ?thesis by (simp add: latch_law_def demo_soc_def)
qed

lemma demo_bus: "bus_law demo_soc d_log (length \<circ> d_fifo)"
proof -
  have "d_log (snd (demo_read r s)) = d_log s \<and> d_con (snd (demo_read r s)) = d_con s \<and>
      length (d_fifo (snd (demo_read r s))) = (if r = SPI2BUF then length (d_fifo s) - 1 else length (d_fifo s))"
    for r s by (cases r) simp_all
  moreover have "d_con (demo_store r v s) = d_con s \<and>
      length (d_fifo (demo_store r v s)) = (if r = SPI2BUF then length (d_fifo s) + 1 else length (d_fifo s))"
    if "bus_safe r" for r v s using that by (cases r) (simp_all add: demo_store_def bus_safe_def)
  ultimately show ?thesis by (simp add: bus_law_def demo_soc_def spi_con_def)
qed

definition board_start :: "'d \<Rightarrow> 'd enc" where
  "board_start d = \<lparr>duplex_mode = HALF_DUPLEX, next_receive_frame_pointer = 0, dev = d\<rparr>"

lemma demo_clock: "tick_law demo_soc d_ticks"
proof -
  have "d_ticks s < d_ticks (((\<lambda>e. snd (tick_count demo_soc e)) ^^ 1) s)" for s
    by (simp add: demo_soc_def)
  then show ?thesis unfolding tick_law_def by (fastforce simp: demo_soc_def)
qed

lemma demo_status: "sfr_read demo_soc SPI2STAT d = (8 OR of_bool (d_fifo d \<noteq> []), d)"
  by (simp add: demo_soc_def)

lemma demo_progress: "progress_law demo_soc (length \<circ> d_fifo)"
  unfolding progress_law_def
proof (intro conjI allI impI)
  fix d :: demo
  show "fst (sfr_read demo_soc SPI2STAT d) AND 0x1 = 0" if "(length \<circ> d_fifo) d = 0"
    using that by (simp add: demo_status)
  show "\<exists>n. ready_within (\<lambda>v. (v AND 0x1 \<noteq> 0) \<noteq> True) (\<lambda>d. Some (sfr_read demo_soc SPI2STAT d)) n d"
    if "(length \<circ> d_fifo) d > 0"
    using that by (intro exI [of _ 0]) (simp add: demo_status)
  show "\<exists>n. ready_within (\<lambda>v. (v AND 0x8 \<noteq> 0) \<noteq> True) (\<lambda>d. Some (sfr_read demo_soc SPI2STAT d)) n d"
    by (rule exI [of _ 0]) (cases "d_fifo d = []"; simp add: demo_status)
qed

lemma demo_ready: "board_ready demo_soc d_log (length \<circ> d_fifo) demo_start"
  by (simp add: board_ready_def spi_law_def demo_bus demo_progress idle_port_def eight_bit_def spi_con_def)
    (simp add: demo_soc_def demo_start_def)

section \<open>The SPI port\<close>

text \<open>
  C35: On an idle port set to eight bits, SPI2_WriteRead returns true for every request that is not
  empty, and has then clocked out exactly the bytes to be written, followed by 0xFF for each byte to
  be read beyond them, stored exactly as many bytes as were to be read, and left nothing behind in
  the port; at no time were more than two bytes under way, as the laws of the port demand.
\<close>
theorem spi_exchanges_bytes:
  assumes "spi_law R obs pend" "idle_port R pend d"
    and "T = (if pTransmitData = None then 0 else txSize)" "X = (if receives then rxSize else 0)"
    and "T > 0 \<or> X > 0"
  shows "\<exists>bs d'. SPI2_WriteRead R pTransmitData txSize receives rxSize d = Some (True, bs, d') \<and>
      length bs = unat X \<and> idle_port R pend d' \<and>
      obs d' = obs d @ map (Mosi \<circ> spi_byte (case_option (\<lambda>_. 0) id pTransmitData) (unat T)) [0..<max (unat T) (unat X)]"
  using write_read_run [OF assms] .

theorem spi_exchanges_bytes_witness:
  "\<exists>bs d'. SPI2_WriteRead demo_soc (Some (\<lambda>n. [0x10, 0x20] ! n)) 2 True 3 demo_start = Some (True, bs, d') \<and>
     length bs = 3 \<and> d_log d' = [Mosi 0x10, Mosi 0x20, Mosi 0xFF]"
proof -
  have l: "spi_law demo_soc d_log (length \<circ> d_fifo)" "idle_port demo_soc (length \<circ> d_fifo) demo_start"
    using demo_ready by (simp_all add: board_ready_def)
  have "(2 :: u32) > 0 \<or> (3 :: u32) > 0" by simp
  from spi_exchanges_bytes [OF l, of 2 "Some (\<lambda>n. [0x10, 0x20] ! n)" 2 3 True 3] show ?thesis
    by (auto simp: spi_byte_def demo_start_def upt_rec)
qed

section \<open>The clock of the port\<close>

text \<open>The clock a divider of \<open>t + 1\<close> gives.\<close>

definition spi_clock :: "u32 \<Rightarrow> nat \<Rightarrow> nat" where
  "spi_clock source t = unat source div (2 * (t + 1))"

text \<open>How far it is from the one that is asked for.\<close>

definition clock_error :: "u32 \<Rightarrow> u32 \<Rightarrow> nat \<Rightarrow> nat" where
  "clock_error clock source t =
     (spi_clock source t - unat clock) + (unat clock - spi_clock source t)"

lemma spi_clock_mono: "t \<le> t' \<Longrightarrow> spi_clock source t' \<le> spi_clock source t"
  by (simp add: spi_clock_def div_le_mono2)

lemma spi_clock_below:
  fixes s c :: nat
  assumes "c > 0" "2 * c \<le> s" "m = s div c div 2"
  shows "m \<ge> 1" "c \<le> s div (2 * m)" "s div (2 * (m + 1)) < c"
proof -
  have "2 \<le> s div c" using assms(1,2) by (simp add: less_eq_div_iff_mult_less_eq)
  then show m1: "m \<ge> 1" using assms(3) by simp
  have "2 * m \<le> s div c" using assms(3) by simp
  then have "2 * m * c \<le> s" using assms(1) by (simp add: less_eq_div_iff_mult_less_eq)
  then show "c \<le> s div (2 * m)" using m1 by (simp add: less_eq_div_iff_mult_less_eq mult.commute)
  have "n < 2 * (n div 2 + 1)" for n :: nat by simp
  then have "s div c < 2 * (m + 1)" unfolding assms(3) .
  then have "s < 2 * (m + 1) * c" using assms(1) by (simp add: div_less_iff_less_mult)
  then show "s div (2 * (m + 1)) < c" by (simp add: div_less_iff_less_mult mult.commute)
qed

text \<open>Of two dividers next to each other around the clock, the nearer one is the nearest of all.\<close>

lemma nearest_of_two:
  assumes "c \<le> spi_clock source n" "spi_clock source (n + 1) < c" "c = unat clock"
    and t: "t = (if spi_clock source n - c > c - spi_clock source (n + 1) then n + 1 else n)"
  shows "clock_error clock source t \<le> clock_error clock source t'"
proof (cases "t' \<le> n")
  case True
  with spi_clock_mono have "spi_clock source n \<le> spi_clock source t'" by blast
  with assms show ?thesis by (auto simp: clock_error_def)
next
  case False
  then have "spi_clock source t' \<le> spi_clock source (n + 1)" by (intro spi_clock_mono) simp
  with assms show ?thesis by (auto simp: clock_error_def)
qed

lemma divider_exact:
  assumes c: "clock > 0" and s: "2 * unat clock \<le> unat source" "source \<le> 0xFFFFFFFD"
  defines "m \<equiv> unat source div unat clock div 2"
  shows "spi_divider clock source =
    Some (of_nat (if spi_clock source (m - 1) - unat clock > unat clock - spi_clock source m then m else m - 1))"
    and "m < 2 ^ 31"
proof -
  let ?s = "unat source" and ?c = "unat clock"
  have c0: "?c > 0" using c by (simp add: word_less_nat_alt)
  note w = spi_clock_below [OF c0 s(1) refl, folded m_def]
  have smax: "?s \<le> 2 ^ 32 - 3" using s(2) by (simp add: word_le_nat_alt)
  have m2: "2 * m \<le> ?s"
    unfolding m_def by (rule order_trans [OF times_div_less_eq_dividend div_le_dividend])
  then show m31: "m < 2 ^ 31" using smax by simp
  let ?t = "source div clock div 2 - 1 :: u32"
  have t: "source div clock div 2 = of_nat m"
    by (rule word_unat_eq_iff [THEN iffD2]) (use m31 in \<open>simp add: unat_div m_def unat_of_nat\<close>)
  have d1: "2 * (?t + 1) = of_nat (2 * m)" "2 * (?t + 2) = of_nat (2 * (m + 1))"
    by (simp_all add: t algebra_simps)
  have u: "unat (of_nat (2 * m) :: u32) = 2 * m" "unat (of_nat (2 * (m + 1)) :: u32) = 2 * (m + 1)"
    using m2 smax by (intro u32_of_nat; simp)+
  have nz: "(of_nat (2 * m) :: u32) \<noteq> 0" "(of_nat (2 * (m + 1)) :: u32) \<noteq> 0"
    using u w(1) by (metis mult_is_0 not_one_le_zero unat_0 zero_neq_numeral, metis add_is_0 mult_is_0 one_neq_zero unat_0 zero_neq_numeral)
  let ?h = "source div of_nat (2 * m)" and ?l = "source div of_nat (2 * (m + 1))"
  have hl: "unat ?h = ?s div (2 * m)" "unat ?l = ?s div (2 * (m + 1))"
    by (simp_all only: unat_div u)
  have le: "clock \<le> ?h" "?l \<le> clock" using w(2,3) by (simp_all only: word_le_nat_alt hl)
  note eh = unat_sub [OF le(1)] unat_sub [OF le(2)]
  have "?h - clock > clock - ?l \<longleftrightarrow> spi_clock source (m - 1) - ?c > ?c - spi_clock source m"
    unfolding word_less_nat_alt eh hl spi_clock_def using w(1) by simp
  moreover have "?t + 1 = of_nat m" "?t = of_nat (m - 1)" using t w(1) by (simp_all add: of_nat_diff)
  ultimately show "spi_divider clock source =
    Some (of_nat (if spi_clock source (m - 1) - ?c > ?c - spi_clock source m then m else m - 1))"
    unfolding spi_divider_def Let_def d1 using nz by simp
qed

text \<open>The two register writes that take the settings over.\<close>

definition port_set_up :: "'d soc \<Rightarrow> spi_transfer_setup \<Rightarrow> u32 \<Rightarrow> 'd \<Rightarrow> 'd" where
  "port_set_up R st t d =
     (let d1 = sfr_write R SPI2BRG t d
      in sfr_write R SPI2CON ((spi_con R d1 AND NOT (MODE16 OR MODE32 OR CKP OR CKE)) OR
           (clockPolarity st OR clockPhase st OR dataBits st)) (snd (sfr_read R SPI2CON d1)))"

lemma transfer_setup_divider:
  assumes "clockFrequency st > 0" "source > 0" "spi_divider (clockFrequency st) source = Some t"
  shows "SPI2_TransferSetup R (Some st) source d =
    Some (if t > 511 then (False, d) else (True, port_set_up R st t d))"
  using assms by (simp add: SPI2_TransferSetup_def port_set_up_def spi_con_def case_prod_unfold Let_def
      word_gt_0 del: bit.conj_disj_distrib)

text \<open>
  For a clock of at most half the source clock, SPI2_TransferSetup takes the divider whose clock
  is nearest to the one asked for, of all dividers there are: it looks at two of them only. It
  returns false without touching the port when that divider does not fit in nine bits, and otherwise
  sets the port up with it and returns true.
\<close>
theorem spi_picks_nearest_divider:
  assumes "clockFrequency st > 0" "2 * unat (clockFrequency st) \<le> unat source" "source \<le> 0xFFFFFFFD"
  shows "\<exists>t. (\<forall>t'. clock_error (clockFrequency st) source (unat t) \<le> clock_error (clockFrequency st) source t') \<and>
    SPI2_TransferSetup R (Some st) source d =
      Some (if t > 511 then (False, d) else (True, port_set_up R st t d))"
proof -
  let ?c = "clockFrequency st" let ?m = "unat source div unat ?c div 2"
  define t where "t = (if spi_clock source (?m - 1) - unat ?c > unat ?c - spi_clock source ?m then ?m else ?m - 1)"
  have c: "unat ?c > 0" using assms(1) by (simp add: word_less_nat_alt)
  note w = spi_clock_below [OF c assms(2) refl]
  note div = divider_exact [OF assms, folded t_def]
  have m: "?m - 1 + 1 = ?m" using w(1) by simp
  have near: "clock_error ?c source t \<le> clock_error ?c source t'" for t'
    by (rule nearest_of_two [of "unat ?c" source "?m - 1"]) (use w m in \<open>simp_all add: spi_clock_def t_def\<close>)
  have "t \<le> ?m" by (simp add: t_def)
  with div(2) have "t < 2 ^ 32" by simp
  then have u: "unat (of_nat t :: u32) = t" by (rule u32_of_nat)
  have "source > 0" using c assms(2) by (simp add: word_less_nat_alt)
  from transfer_setup_divider [OF assms(1) this div(1)] near show ?thesis
    by (intro exI [of _ "of_nat t"]) (simp only: u simp_thms)
qed

theorem spi_picks_nearest_divider_witness:
  "\<exists>t. clock_error 10000000 76000000 (unat t) \<le> clock_error 10000000 76000000 3 \<and>
     SPI2_TransferSetup demo_soc (Some main_spi_setup) 76000000 demo_start =
       Some (if t > 511 then (False, demo_start) else (True, port_set_up demo_soc main_spi_setup t demo_start))"
proof -
  have c: "clockFrequency main_spi_setup = 10000000" by (simp add: main_spi_setup_def)
  show ?thesis
    using spi_picks_nearest_divider [of main_spi_setup 76000000 demo_soc demo_start, unfolded c] by fastforce
qed

text \<open>
  For a clock of more than half the source clock SPI2_TransferSetup does not refuse the request:
  it divides by zero, whatever the state of the port.
\<close>
theorem spi_setup_divides_by_zero:
  assumes "source > 0" "2 * unat (clockFrequency st) > unat source"
  shows "SPI2_TransferSetup R (Some st) source d = None"
proof -
  let ?c = "clockFrequency st"
  have c: "unat ?c > 0" using assms by (cases "unat ?c") simp_all
  then have "unat source div unat ?c < 2" using assms(2) by (simp add: div_less_iff_less_mult)
  then have "unat (source div ?c div 2) = 0" by (simp add: unat_div)
  then have "source div ?c div 2 = 0" by (simp add: unat_eq_zero)
  then have "spi_divider ?c source = None" by (simp add: spi_divider_def Let_def)
  moreover have "?c \<noteq> 0" using c by auto
  moreover have "source \<noteq> 0" using assms(1) by auto
  ultimately show ?thesis by (simp add: SPI2_TransferSetup_def)
qed

theorem spi_setup_divides_by_zero_witness:
  "SPI2_TransferSetup demo_soc (Some (main_spi_setup\<lparr>clockFrequency := 40000000\<rparr>)) 76000000 demo_start = None"
  using spi_setup_divides_by_zero [of 76000000 "main_spi_setup\<lparr>clockFrequency := 40000000\<rparr>"] by simp

section \<open>The pins\<close>

text \<open>The level that stays latched for a pin after each way to write one.\<close>

lemma latched_write:
  "latched (l(pin_port p := v)) q = (if pin_port q = pin_port p then bit v (pin_place q) else latched l q)"
  by (simp add: latched_def)

lemma place_32 [simp]: "pin_place p < 32"
  using pin_place_bound [of p] by simp

lemma bit_shifted_bool: "bit (push_bit (pin_place p) (of_bool b) :: u32) n \<longleftrightarrow> n < 32 \<and> n = pin_place p \<and> b"
  using place_32 [of p] by (auto simp: bit_simps)

lemma other_pin: "p \<noteq> q \<Longrightarrow> pin_port q = pin_port p \<Longrightarrow> pin_place q \<noteq> pin_place p"
  using pin_determined by metis

lemmas pin_simps = gpio_defs latch_law_def case_prod_unfold latched_write bit_pin_mask bit_shifted_bool
  bit_or_iff bit_and_iff bit_not_iff bit_xor_iff

text \<open>
  The functions that work on one pin change the latch of that pin, in the way they are named
  for, and of no other pin, on its own port or another; and reading the latch back gives what was
  written.
\<close>
theorem gpio_changes_one_pin:
  assumes "latch_law R lat"
  shows "latched (lat (GPIO_PinSet R p d)) q = (q = p \<or> latched (lat d) q) \<and>
    latched (lat (GPIO_PinClear R p d)) q = (q \<noteq> p \<and> latched (lat d) q) \<and>
    latched (lat (GPIO_PinToggle R p d)) q = (latched (lat d) q \<noteq> (q = p)) \<and>
    latched (lat (GPIO_PinWrite R p v d)) q = (if q = p then v else latched (lat d) q) \<and>
    fst (GPIO_PinLatchRead R p d) = latched (lat d) p"
proof -
  have "latched (lat (GPIO_PinSet R p d)) q = (q = p \<or> latched (lat d) q)"
    "latched (lat (GPIO_PinClear R p d)) q = (q \<noteq> p \<and> latched (lat d) q)"
    "latched (lat (GPIO_PinToggle R p d)) q = (latched (lat d) q \<noteq> (q = p))"
    "latched (lat (GPIO_PinWrite R p v d)) q = (if q = p then v else latched (lat d) q)"
    using assms other_pin [of p q] by (cases "p = q"; auto simp: pin_simps; auto simp: latched_def)+
  moreover have "fst (GPIO_PinLatchRead R p d) = latched (lat d) p"
    using assms by (simp add: gpio_defs latch_law_def latched_def case_prod_unfold bit_place)
  ultimately show ?thesis by blast
qed

theorem gpio_changes_one_pin_witness:
  "latched (d_lat (GPIO_PinSet demo_soc 92 demo_start)) 92 \<and>
   \<not> latched (d_lat (GPIO_PinSet demo_soc 92 demo_start)) 49"
  using gpio_changes_one_pin [OF demo_latches, of 92 demo_start 92]
    gpio_changes_one_pin [OF demo_latches, of 92 demo_start 49]
  by (simp add: demo_start_def latched_def)

section \<open>The delay and the blinking task\<close>

lemma ticks_passed:
  assumes "n \<le> m" "m - n < 2 ^ 32"
  shows "unat (of_nat m - of_nat n :: u32) = m - n"
  using u32_of_nat [OF assms(2)] assms(1) by (simp add: of_nat_diff)

lemma ready_after:
  "\<not> p (fst (g (((\<lambda>e. snd (g e)) ^^ n) d))) \<Longrightarrow> \<exists>k. ready_within p (\<lambda>d. Some (g d)) k d"
proof (induction n arbitrary: d)
  case 0
  then show ?case by (intro exI [of _ 0]) (simp add: case_prod_unfold)
next
  case (Suc n)
  then obtain k where "ready_within p (\<lambda>d. Some (g d)) k (snd (g d))"
    unfolding funpow.simps comp_apply funpow_swap1 [of "\<lambda>e. snd (g e)"] by blast
  then show ?case by (intro exI [of _ "Suc k"]) (simp add: case_prod_unfold)
qed

abbreviation look :: "'d soc \<Rightarrow> 'd \<Rightarrow> 'd" where
  "look R d \<equiv> snd (tick_count R d)"

lemma look_law:
  assumes "tick_law R clock"
  shows "clock d \<le> clock (look R d)" "clock (look R d) \<le> clock d + 1" "fst (tick_count R d) = of_nat (clock d)"
  using assms by (simp_all add: tick_law_def)

lemma clock_reaches:
  assumes law: "tick_law R clock"
  shows "\<exists>n. clock d + k \<le> clock ((look R ^^ n) d)"
proof (induction k)
  case 0
  show ?case by (rule exI [of _ 0]) simp
next
  case (Suc k)
  then obtain n where n: "clock d + k \<le> clock ((look R ^^ n) d)" by blast
  from law obtain m where "clock ((look R ^^ n) d) < clock ((look R ^^ m) ((look R ^^ n) d))"
    unfolding tick_law_def by blast
  with n show ?case by (intro exI [of _ "m + n"]) (simp add: funpow_add)
qed

text \<open>The first look that shows at least \<open>goal\<close> shows at most one more, or what there was at the start.\<close>

lemma clock_first:
  assumes law: "tick_law R clock" and d: "clock d \<le> goal + 1"
  shows "\<exists>n. goal \<le> clock ((look R ^^ n) d) \<and> clock ((look R ^^ n) d) \<le> goal + 1"
proof -
  let ?reached = "\<lambda>n. goal \<le> clock ((look R ^^ n) d)"
  from clock_reaches [OF law, of d goal] obtain n0 where "?reached n0" by (meson add_leD2)
  define n where "n = (LEAST n. ?reached n)"
  have n: "?reached n" and least: "\<And>m. m < n \<Longrightarrow> \<not> ?reached m"
    unfolding n_def using LeastI [of ?reached, OF \<open>?reached n0\<close>] not_less_Least [of _ ?reached] by blast+
  show ?thesis
  proof (cases n)
    case 0
    with n d show ?thesis by (intro exI [of _ 0]) simp
  next
    case (Suc m)
    with least [of m] look_law(2) [OF law, of "(look R ^^ m) d"] n show ?thesis
      by (intro exI [of _ n]) simp
  qed
qed

lemma delay_run:
  assumes law: "tick_law R clock"
  shows "\<exists>d'. enc624j600_hal_delay R us d = Some d' \<and>
    clock d + unat us \<le> clock d' \<and> clock d' \<le> clock d + unat us + 2"
proof -
  let ?c = "clock d" let ?u = "unat us"
  let ?p = "\<lambda>t. t - of_nat ?c < (ucast us :: u32)"
  have small: "?u < 256" using unsigned_less [of us, where 'a = nat] by simp
  then have us: "unat (ucast us :: u32) = ?u" by (simp add: unsigned_ucast_eq take_bit_nat_eq_self)
  have passed: "?p (of_nat (clock e)) \<longleftrightarrow> clock e - ?c < ?u" if "?c \<le> clock e" "clock e \<le> ?c + ?u + 1" for e
    using ticks_passed [of ?c "clock e"] that small by (simp add: word_less_nat_alt us)
  have start: "?c \<le> clock (look R d)" "clock (look R d) \<le> ?c + 1" using look_law [OF law] by blast+
  then obtain n where "?c + ?u \<le> clock ((look R ^^ n) (look R d))" "clock ((look R ^^ n) (look R d)) \<le> ?c + ?u + 1"
    using clock_first [OF law, of "look R d" "?c + ?u"] by auto
  then have "\<not> ?p (fst (tick_count R ((look R ^^ n) (look R d))))"
    using passed [of "(look R ^^ n) (look R d)"] look_law(3) [OF law] by simp
  from ready_after [where p = ?p and g = "tick_count R", OF this] obtain d' where
    run: "wait_while ?p (\<lambda>d. Some (tick_count R d)) (look R d) = Some d'"
    by (metis wait_while_returns)
  let ?I = "\<lambda>e. ?c \<le> clock e \<and> clock e \<le> ?c + ?u + 1"
  have "\<exists>e v. ?I e \<and> Some (tick_count R e) = Some (v, d') \<and> \<not> ?p v"
  proof (rule wait_while_last [where I = ?I, OF run])
    show "?I (look R d)" using start by simp
    fix e v e' assume I: "?I e" and "Some (tick_count R e) = Some (v, e')" and p: "?p v"
    then have e: "e' = look R e" "v = of_nat (clock e)" using look_law(3) [OF law, of e] by (simp_all add: prod_eq_iff)
    with p passed I have "clock e - ?c < ?u" by simp
    with look_law(1,2) [OF law, of e] I show "?I e'" unfolding e by linarith
  qed
  then obtain e v where e: "?I e" "tick_count R e = (v, d')" "\<not> ?p v" by auto
  with look_law(3) [OF law, of e] passed have past: "\<not> clock e - ?c < ?u" by simp
  from e have d': "d' = look R e" by simp
  have "?c + ?u \<le> clock d'" using past look_law(1) [OF law, of e] e(1) unfolding d' by linarith
  moreover have "clock d' \<le> ?c + ?u + 2" using look_law(2) [OF law, of e] e(1) unfolding d' by linarith
  ultimately show ?thesis using run
    by (simp add: enc624j600_hal_delay_def case_prod_unfold look_law(3) [OF law] del: of_nat_unat)
qed

text \<open>
  enc624j600_hal_delay returns, and at least \<open>us\<close> and at most two more ticks of the kernel have
  passed by then. A tick is a millisecond: the argument, which the header of the layer calls
  microseconds, is waited out in milliseconds, a thousand times longer.
\<close>
theorem delay_waits_milliseconds:
  assumes "tick_law R clock"
  shows "\<exists>d'. enc624j600_hal_delay R us d = Some d' \<and>
    clock d + unat us \<le> clock d' \<and> clock d' \<le> clock d + unat us + 2"
  using delay_run [OF assms] .

theorem delay_waits_milliseconds_witness:
  "\<exists>d'. enc624j600_hal_delay demo_soc 30 demo_start = Some d' \<and> 30 \<le> d_ticks d'"
  using delay_waits_milliseconds [OF demo_clock, where us = 30 and d = demo_start] by (auto simp: demo_start_def)

text \<open>
  A round of the first task toggles the light on RD1, and no other pin, when more than 500 ticks
  have passed since the last time it did, and leaves all pins alone otherwise; the time is measured
  across the wrap-around of the counter, and set to now when the light is toggled.
\<close>
theorem first_task_blinks:
  assumes "latch_law R lat" "tick_law R clock" "t \<le> clock d" "clock d - t < 2 ^ 32"
  shows "latched (lat (snd (my_first_task_round R (of_nat t) d))) q =
      (latched (lat d) q \<noteq> (clock d - t > 500 \<and> q = GPIO_PIN_RD1)) \<and>
    (clock d - t \<le> 500 \<longrightarrow> fst (my_first_task_round R (of_nat t) d) = of_nat t)"
proof -
  have late: "of_nat (clock d) - of_nat t > (500 :: u32) \<longleftrightarrow> clock d - t > 500"
    using ticks_passed [OF assms(3,4)] by (simp add: word_less_nat_alt)
  have toggle: "latched (lat (GPIO_PinToggle R p e)) q = (latched (lat e) q \<noteq> (q = p))" for p e
    using assms(1) other_pin [of p q] by (cases "p = q"; auto simp: pin_simps; auto simp: latched_def)
  have look: "lat (look R e) = lat e" for e using assms(1) by (simp add: latch_law_def)
  show ?thesis
    by (simp add: my_first_task_round_def case_prod_unfold Let_def late look toggle look_law(3) [OF assms(2)])
qed

theorem first_task_blinks_witness:
  "latched (d_lat (snd (my_first_task_round demo_soc 0 (demo_start\<lparr>d_ticks := 501\<rparr>)))) 49 \<and>
   \<not> latched (d_lat (snd (my_first_task_round demo_soc 0 (demo_start\<lparr>d_ticks := 500\<rparr>)))) 49"
proof -
  have "latched (d_lat (snd (my_first_task_round demo_soc (of_nat 0) (demo_start\<lparr>d_ticks := n\<rparr>)))) 49 = (n > 500)"
    if "n < 2 ^ 32" for n
    using first_task_blinks [where R = demo_soc and lat = d_lat and clock = d_ticks and t = 0
        and d = "demo_start\<lparr>d_ticks := n\<rparr>" and q = 49] that demo_latches demo_clock
    by (simp add: demo_start_def latched_def)
  from this [of 500] this [of 501] show ?thesis by simp
qed

section \<open>The driver on the board\<close>

text \<open>
  C34: On the port set up as \<open>main\<close> sets it up, a call of a public function of the driver that returns
  has put complete frames on the bus and nothing else, and left the port idle for the next call; and
  every single frame is sent to its end and returns as many bytes as it sent, whatever the
  controller answers.
\<close>
theorem driver_on_the_board:
  assumes "spi_law R obs pend" "idle_port R pend (dev s)"
  shows "(\<exists>rs d'. spi_frame (board_hal R) bs (dev s) = Some (rs, d') \<and> length rs = length bs \<and>
      obs d' = obs (dev s) @ frame_events bs \<and> idle_port R pend d') \<and>
    (enc624j600_init (board_hal R) config s = Some s1 \<longrightarrow>
      idle_port R pend (dev s1) \<and> (\<exists>es. framed es \<and> obs (dev s1) = obs (dev s) @ es)) \<and>
    (enc624j600_transmit (board_hal R) dst ty buf len s = Some (tr, s2) \<longrightarrow>
      idle_port R pend (dev s2) \<and> (\<exists>es. framed es \<and> obs (dev s2) = obs (dev s) @ es)) \<and>
    (enc624j600_receive (board_hal R) a b c e f s = Some (rr, out, s3) \<longrightarrow>
      idle_port R pend (dev s3) \<and> (\<exists>es. framed es \<and> obs (dev s3) = obs (dev s) @ es))"
proof -
  have ok: "board_ready R obs pend (dev s)" using assms by (simp add: board_ready_def)
  have ext: "idle_port R pend d' \<and> (\<exists>es. framed es \<and> obs d' = obs (dev s) @ es)"
    if "extends obs (board_ready R obs pend) (dev s) d'" for d'
    using that ok by (simp add: extends_def board_ready_def)
  from board_frame_returns [OF ok] obtain rs d' where f: "spi_frame (board_hal R) bs (dev s) = Some (rs, d')"
    by blast
  from board.spi_frame_obs [OF f ok] spi_frame_length [OF f] f
  have "\<exists>rs d'. spi_frame (board_hal R) bs (dev s) = Some (rs, d') \<and> length rs = length bs \<and>
      obs d' = obs (dev s) @ frame_events bs \<and> idle_port R pend d'"
    by (auto simp: board_ready_def)
  moreover note ext [OF board.init_ext, of config s1] ext [OF board.transmit_ext, of dst ty buf len tr s2]
    ext [OF board.receive_ext, of a b c e f rr out s3]
  ultimately show ?thesis by argo
qed

theorem driver_on_the_board_witness:
  "\<exists>rs d'. spi_frame (board_hal demo_soc) [0x10, 0x20] demo_start = Some (rs, d') \<and> length rs = 2 \<and>
     d_log d' = [CsLow, Mosi 0x10, Mosi 0x20, CsHigh]"
proof -
  have l: "spi_law demo_soc d_log (length \<circ> d_fifo)" "idle_port demo_soc (length \<circ> d_fifo) (dev (board_start demo_start))"
    using demo_ready by (simp_all add: board_ready_def board_start_def)
  from driver_on_the_board [OF l, of "[0x10, 0x20]", THEN conjunct1] show ?thesis
    by (auto simp: board_start_def frame_events_def demo_start_def)
qed

end
