(* ===== verification/Rtos_List.thy ===== *)
theory Rtos_List
  imports Prelude
begin

text \<open>
  The intrusive doubly linked lists of src/FreeRTOS/list.c and the macros of
  src/FreeRTOS/include/list.h, over an explicit store of list items. Items and lists are named by
  numbers; a \<open>ListItem_t *\<close> points to an item, to the end marker inside a list, or nowhere.
  Integrity bytes and tracing are configured out. The abstraction \<open>ring\<close> relates the pointers of
  a list to the sequence of its items, and every operation is shown to act on that sequence.
\<close>

datatype list_ptr = Null | Item nat | End nat

record list_mem =
  xItemValue :: "list_ptr \<Rightarrow> u32"
  pxNext :: "list_ptr \<Rightarrow> list_ptr"
  pxPrevious :: "list_ptr \<Rightarrow> list_ptr"
  pvOwner :: "list_ptr \<Rightarrow> nat"
  pxContainer :: "nat \<Rightarrow> nat option"
  uxNumberOfItems :: "nat \<Rightarrow> u32"
  pxIndex :: "nat \<Rightarrow> list_ptr"

abbreviation (input) portMAX_DELAY :: u32 where "portMAX_DELAY \<equiv> 0xFFFFFFFF"

section \<open>The operations\<close>

definition set_next :: "list_ptr \<Rightarrow> list_ptr \<Rightarrow> list_mem \<Rightarrow> list_mem" where
  "set_next p v m = m\<lparr>pxNext := (pxNext m)(p := v)\<rparr>"

definition set_previous :: "list_ptr \<Rightarrow> list_ptr \<Rightarrow> list_mem \<Rightarrow> list_mem" where
  "set_previous p v m = m\<lparr>pxPrevious := (pxPrevious m)(p := v)\<rparr>"

definition vListInitialise :: "nat \<Rightarrow> list_mem \<Rightarrow> list_mem" where
  "vListInitialise l m =
     (let m = m\<lparr>pxIndex := (pxIndex m)(l := End l)\<rparr>;
          m = m\<lparr>xItemValue := (xItemValue m)(End l := portMAX_DELAY)\<rparr>;
          m = set_next (End l) (End l) m;
          m = set_previous (End l) (End l) m
      in m\<lparr>uxNumberOfItems := (uxNumberOfItems m)(l := 0)\<rparr>)"

definition vListInitialiseItem :: "nat \<Rightarrow> list_mem \<Rightarrow> list_mem" where
  "vListInitialiseItem i m = m\<lparr>pxContainer := (pxContainer m)(i := None)\<rparr>"

definition vListInsertEnd :: "nat \<Rightarrow> nat \<Rightarrow> list_mem \<Rightarrow> list_mem" where
  "vListInsertEnd l i m =
     (let idx = pxIndex m l;
          m = set_next (Item i) idx m;
          m = set_previous (Item i) (pxPrevious m idx) m;
          m = set_next (pxPrevious m idx) (Item i) m;
          m = set_previous idx (Item i) m;
          m = m\<lparr>pxContainer := (pxContainer m)(i := Some l)\<rparr>
      in m\<lparr>uxNumberOfItems := (uxNumberOfItems m)(l := uxNumberOfItems m l + 1)\<rparr>)"

text \<open>The search of \<open>vListInsert\<close>; on a damaged list it does not end.\<close>

partial_function (option) insert_position :: "u32 \<Rightarrow> list_mem \<Rightarrow> list_ptr \<Rightarrow> list_ptr option" where
  "insert_position v m pxIterator =
     (if xItemValue m (pxNext m pxIterator) \<le> v then insert_position v m (pxNext m pxIterator)
      else Some pxIterator)"

definition vListInsert :: "nat \<Rightarrow> nat \<Rightarrow> list_mem \<Rightarrow> list_mem option" where
  "vListInsert l i m =
     (let xValueOfInsertion = xItemValue m (Item i)
      in do {
        pxIterator \<leftarrow> (if xValueOfInsertion = portMAX_DELAY then Some (pxPrevious m (End l))
                      else insert_position xValueOfInsertion m (End l));
        let m = set_next (Item i) (pxNext m pxIterator) m;
        let m = set_previous (pxNext m (Item i)) (Item i) m;
        let m = set_previous (Item i) pxIterator m;
        let m = set_next pxIterator (Item i) m;
        let m = m\<lparr>pxContainer := (pxContainer m)(i := Some l)\<rparr>;
        Some (m\<lparr>uxNumberOfItems := (uxNumberOfItems m)(l := uxNumberOfItems m l + 1)\<rparr>)
      })"

text \<open>An item that is on no list has no container to dereference: no result.\<close>

definition uxListRemove :: "nat \<Rightarrow> list_mem \<Rightarrow> (u32 \<times> list_mem) option" where
  "uxListRemove i m = do {
     l \<leftarrow> pxContainer m i;
     let m = set_previous (pxNext m (Item i)) (pxPrevious m (Item i)) m;
     let m = set_next (pxPrevious m (Item i)) (pxNext m (Item i)) m;
     let m = (if pxIndex m l = Item i then m\<lparr>pxIndex := (pxIndex m)(l := pxPrevious m (Item i))\<rparr>
              else m);
     let m = m\<lparr>pxContainer := (pxContainer m)(i := None)\<rparr>;
     let m = m\<lparr>uxNumberOfItems := (uxNumberOfItems m)(l := uxNumberOfItems m l - 1)\<rparr>;
     Some (uxNumberOfItems m l, m)
   }"

definition listLIST_IS_EMPTY :: "nat \<Rightarrow> list_mem \<Rightarrow> bool" where
  "listLIST_IS_EMPTY l m \<longleftrightarrow> uxNumberOfItems m l = 0"

definition listGET_OWNER_OF_HEAD_ENTRY :: "nat \<Rightarrow> list_mem \<Rightarrow> nat" where
  "listGET_OWNER_OF_HEAD_ENTRY l m = pvOwner m (pxNext m (End l))"

definition listGET_OWNER_OF_NEXT_ENTRY :: "nat \<Rightarrow> list_mem \<Rightarrow> nat \<times> list_mem" where
  "listGET_OWNER_OF_NEXT_ENTRY l m =
     (let m = m\<lparr>pxIndex := (pxIndex m)(l := pxNext m (pxIndex m l))\<rparr>;
          m = (if pxIndex m l = End l then m\<lparr>pxIndex := (pxIndex m)(l := pxNext m (End l))\<rparr> else m)
      in (pvOwner m (pxIndex m l), m))"

section \<open>Chains of items\<close>

text \<open>The items \<open>is\<close> lie between \<open>p\<close> and \<open>q\<close>, linked in both directions.\<close>

fun links :: "list_mem \<Rightarrow> list_ptr \<Rightarrow> nat list \<Rightarrow> list_ptr \<Rightarrow> bool" where
  "links m p [] q \<longleftrightarrow> pxNext m p = q \<and> pxPrevious m q = p"
| "links m p (i # is) q \<longleftrightarrow> pxNext m p = Item i \<and> pxPrevious m (Item i) = p \<and> links m (Item i) is q"

definition last_ptr :: "list_ptr \<Rightarrow> nat list \<Rightarrow> list_ptr" where
  "last_ptr p is = (if is = [] then p else Item (last is))"

definition first_ptr :: "nat list \<Rightarrow> list_ptr \<Rightarrow> list_ptr" where
  "first_ptr is q = (case is of [] \<Rightarrow> q | i # _ \<Rightarrow> Item i)"

lemma ptr_simps [simp]:
  "last_ptr p [] = p" "last_ptr p (i # is) = last_ptr (Item i) is"
  "first_ptr [] q = q" "first_ptr (i # is) q = Item i"
  by (simp_all add: last_ptr_def first_ptr_def)

lemma last_ptr_snoc [simp]: "last_ptr p (is @ [i]) = Item i"
  by (simp add: last_ptr_def)

lemma last_ptr_in: "last_ptr p is \<in> insert p (Item ` set is)"
  by (simp add: last_ptr_def)

lemma first_ptr_in: "first_ptr is q \<in> insert q (Item ` set is)"
  by (cases "is") simp_all

named_theorems store_simps \<open>fields of the store after an update\<close>

lemma set_fields [store_simps]:
  "pxNext (set_next p v m) = (pxNext m)(p := v)" "pxPrevious (set_next p v m) = pxPrevious m"
  "pxNext (set_previous p v m) = pxNext m" "pxPrevious (set_previous p v m) = (pxPrevious m)(p := v)"
  "xItemValue (set_next p v m) = xItemValue m" "xItemValue (set_previous p v m) = xItemValue m"
  "pvOwner (set_next p v m) = pvOwner m" "pvOwner (set_previous p v m) = pvOwner m"
  "pxContainer (set_next p v m) = pxContainer m" "pxContainer (set_previous p v m) = pxContainer m"
  "uxNumberOfItems (set_next p v m) = uxNumberOfItems m"
  "uxNumberOfItems (set_previous p v m) = uxNumberOfItems m"
  "pxIndex (set_next p v m) = pxIndex m" "pxIndex (set_previous p v m) = pxIndex m"
  by (simp_all add: set_next_def set_previous_def)

text \<open>A chain depends on the successors of \<open>p\<close> and its items, and on the predecessors of its
  items and \<open>q\<close>.\<close>

lemma links_cong:
  "(\<forall>x \<in> insert p (Item ` set is). pxNext m x = pxNext m' x) \<Longrightarrow>
   (\<forall>x \<in> insert q (Item ` set is). pxPrevious m x = pxPrevious m' x) \<Longrightarrow>
   links m p is q = links m' p is q"
  by (induction "is" arbitrary: p) auto

lemma links_append: "links m p (is @ j # js) q \<longleftrightarrow> links m p is (Item j) \<and> links m (Item j) js q"
  by (induction "is" arbitrary: p) auto

lemma links_ends:
  "links m p (is @ js) q \<Longrightarrow> pxNext m (last_ptr p is) = first_ptr js q \<and>
     pxPrevious m (first_ptr js q) = last_ptr p is"
proof (induction "is" arbitrary: p)
  case Nil
  then show ?case by (cases js) simp_all
qed simp

text \<open>The pointers after an item was linked in between two neighbours, and after it was unlinked.\<close>

lemma links_insert:
  assumes "links m p (is @ js) q" "distinct (is @ js)" "i \<notin> set (is @ js)"
    and "p \<notin> Item ` set (is @ js)" "q \<notin> Item ` set (is @ js)" "p \<noteq> Item i" "q \<noteq> Item i"
    and "pxNext m' = (pxNext m)(Item i := first_ptr js q, last_ptr p is := Item i)"
    and "pxPrevious m' = (pxPrevious m)(first_ptr js q := Item i, Item i := last_ptr p is)"
  shows "links m' p (is @ i # js) q"
  using assms
proof (induction "is" arbitrary: p)
  case Nil
  show ?case
  proof (cases js)
    case Nil
    with Nil.prems show ?thesis by simp
  next
    case (Cons j js')
    have "links m (Item j) js' q = links m' (Item j) js' q"
      using Nil.prems(2-) Cons by (intro links_cong) auto
    with Nil.prems Cons show ?thesis by auto
  qed
next
  case (Cons x xs)
  have "links m' (Item x) (xs @ i # js) q"
    using Cons.prems by (intro Cons.IH) auto
  moreover have "last_ptr (Item x) xs \<noteq> p" "first_ptr js q \<noteq> Item x"
    using Cons.prems(2-5) last_ptr_in [of "Item x" xs] first_ptr_in [of js q]
    by (cases js; fastforce)+
  ultimately show ?case
    using Cons.prems by auto
qed

lemma links_remove:
  assumes "links m p (is @ i # js) q" "distinct (is @ i # js)"
    and "p \<notin> Item ` set (is @ i # js)" "q \<notin> Item ` set (is @ i # js)"
    and "pxNext m' = (pxNext m)(last_ptr p is := first_ptr js q)"
    and "pxPrevious m' = (pxPrevious m)(first_ptr js q := last_ptr p is)"
  shows "links m' p (is @ js) q"
  using assms
proof (induction "is" arbitrary: p)
  case Nil
  show ?case
  proof (cases js)
    case Nil
    with Nil.prems show ?thesis by simp
  next
    case (Cons j js')
    have "links m (Item j) js' q = links m' (Item j) js' q"
      using Nil.prems(2-) Cons by (intro links_cong) auto
    with Nil.prems Cons show ?thesis by auto
  qed
next
  case (Cons x xs)
  have "links m' (Item x) (xs @ js) q"
    using Cons.prems by (intro Cons.IH) auto
  moreover have "last_ptr (Item x) xs \<noteq> p" "first_ptr js q \<noteq> Item x"
    using Cons.prems(2-4) last_ptr_in [of "Item x" xs] first_ptr_in [of js q]
    by (cases js; fastforce)+
  ultimately show ?case
    using Cons.prems by auto
qed

section \<open>Lists\<close>

text \<open>
  The abstraction: list \<open>l\<close> is well formed and its items, from the head, are \<open>is\<close>. An item is on a
  list exactly if it says so, so different lists share no item.
\<close>

definition ring :: "list_mem \<Rightarrow> nat \<Rightarrow> nat list \<Rightarrow> bool" where
  "ring m l is \<longleftrightarrow> links m (End l) is (End l) \<and> distinct is \<and>
     (\<forall>i. pxContainer m i = Some l \<longleftrightarrow> i \<in> set is) \<and>
     uxNumberOfItems m l = of_nat (length is) \<and>
     pxIndex m l \<in> insert (End l) (Item ` set is) \<and> xItemValue m (End l) = portMAX_DELAY"

text \<open>An operation on list \<open>l\<close> with items \<open>A\<close> that moves item \<open>i\<close> touches nothing else.\<close>

definition touches_only :: "nat \<Rightarrow> nat set \<Rightarrow> nat \<Rightarrow> list_mem \<Rightarrow> list_mem \<Rightarrow> bool" where
  "touches_only l A i m m' \<longleftrightarrow>
     (\<forall>x. x \<notin> insert (End l) (Item ` insert i A) \<longrightarrow>
        pxNext m' x = pxNext m x \<and> pxPrevious m' x = pxPrevious m x) \<and>
     (\<forall>j. j \<noteq> i \<longrightarrow> pxContainer m' j = pxContainer m j) \<and>
     pxContainer m' i \<in> {None, Some l} \<and>
     (\<forall>k. k \<noteq> l \<longrightarrow> uxNumberOfItems m' k = uxNumberOfItems m k \<and> pxIndex m' k = pxIndex m k) \<and>
     xItemValue m' = xItemValue m \<and> pvOwner m' = pvOwner m"

lemma other_ring_kept:
  assumes "touches_only l (set is) i m m'" "ring m l is" "pxContainer m i \<in> {None, Some l}"
    and "ring m k js" "k \<noteq> l"
  shows "ring m' k js"
proof -
  have js: "j \<notin> insert i (set is)" if "j \<in> set js" for j
    using assms(2-5) that unfolding ring_def by force
  then have "x \<notin> insert (End l) (Item ` insert i (set is))" if "x \<in> insert (End k) (Item ` set js)" for x
    using that assms(5) by auto
  then have "pxNext m x = pxNext m' x \<and> pxPrevious m x = pxPrevious m' x"
    if "x \<in> insert (End k) (Item ` set js)" for x
    using that assms(1) unfolding touches_only_def by metis
  then have "links m (End k) js (End k) = links m' (End k) js (End k)"
    by (intro links_cong) blast+
  moreover have "pxContainer m' j = Some k \<longleftrightarrow> j \<in> set js" for j
  proof (cases "j = i")
    case True
    then show ?thesis using assms(1,5) js by (auto simp: touches_only_def)
  next
    case False
    then show ?thesis using assms(1,4) by (auto simp: touches_only_def ring_def)
  qed
  ultimately show ?thesis
    using assms(1,4,5) by (auto simp: ring_def touches_only_def)
qed

lemma ring_free: "ring m l is \<Longrightarrow> pxContainer m i = None \<Longrightarrow> i \<notin> set is"
  unfolding ring_def by (metis option.distinct(1))

lemma ends_differ:
  "i \<notin> set (is @ js) \<Longrightarrow> first_ptr js (End l) \<noteq> Item i \<and> last_ptr (End l) is \<noteq> Item i"
  by (cases js) (auto simp: last_ptr_def)

lemma vListInitialise_ring:
  assumes "\<forall>i. pxContainer m i \<noteq> Some l"
  shows "ring (vListInitialise l m) l []"
  using assms by (simp add: ring_def vListInitialise_def Let_def store_simps)

text \<open>What inserting between two neighbours does, whichever operation chose the place.\<close>

lemma ring_insert:
  assumes "ring m l (is @ js)" "pxContainer m i = None"
    and "pxNext m' = (pxNext m)(Item i := first_ptr js (End l), last_ptr (End l) is := Item i)"
    and "pxPrevious m' = (pxPrevious m)(first_ptr js (End l) := Item i, Item i := last_ptr (End l) is)"
    and "pxContainer m' = (pxContainer m)(i := Some l)"
    and "uxNumberOfItems m' = (uxNumberOfItems m)(l := uxNumberOfItems m l + 1)"
    and "pxIndex m' = pxIndex m" "xItemValue m' = xItemValue m" "pvOwner m' = pvOwner m"
  shows "ring m' l (is @ i # js) \<and> touches_only l (set (is @ js)) i m m'"
proof
  have i: "i \<notin> set (is @ js)" using ring_free [OF assms(1,2)] .
  have "links m' (End l) (is @ i # js) (End l)"
    using assms(1,3,4) i by (intro links_insert [where m = m]) (auto simp: ring_def)
  then show "ring m' l (is @ i # js)"
    using assms(1,5-8) i by (auto simp: ring_def)
  show "touches_only l (set (is @ js)) i m m'"
    using assms(3-9) last_ptr_in [of "End l" "is"] first_ptr_in [of js "End l"]
    by (auto simp: touches_only_def)
qed

lemma vListInsertEnd_ring:
  assumes "ring m l (is @ js)" "pxContainer m i = None" "pxIndex m l = first_ptr js (End l)"
  shows "ring (vListInsertEnd l i m) l (is @ i # js) \<and>
    touches_only l (set (is @ js)) i m (vListInsertEnd l i m)"
proof -
  have i: "i \<notin> set (is @ js)" using ring_free [OF assms(1,2)] .
  have ends: "pxPrevious m (first_ptr js (End l)) = last_ptr (End l) is"
    using assms(1) links_ends unfolding ring_def by blast
  have ne: "first_ptr js (End l) \<noteq> Item i" "last_ptr (End l) is \<noteq> Item i"
    using ends_differ [OF i] by blast+
  show ?thesis
    by (rule ring_insert [OF assms(1,2)])
      (use ne in \<open>simp_all add: vListInsertEnd_def Let_def store_simps assms(3) ends fun_upd_twist\<close>)
qed

section \<open>Sorted insertion\<close>

lemma insert_position_found:
  assumes "links m p is q" "xItemValue m q > v"
  shows "insert_position v m p =
    Some (last_ptr p (takeWhile (\<lambda>j. xItemValue m (Item j) \<le> v) is))"
  using assms
proof (induction "is" arbitrary: p)
  case Nil
  then show ?case by (subst insert_position.simps) (auto dest: leD)
next
  case (Cons i "is")
  show ?case
  proof (cases "xItemValue m (Item i) \<le> v")
    case True
    with Cons show ?thesis by (subst insert_position.simps) simp
  next
    case False
    with Cons.prems show ?thesis by (subst insert_position.simps) simp
  qed
qed

text \<open>The items, with a new one after all whose value is not larger.\<close>

definition sorted_insert :: "list_mem \<Rightarrow> nat \<Rightarrow> nat list \<Rightarrow> nat list" where
  "sorted_insert m i is =
     (let before = (\<lambda>j. xItemValue m (Item j) \<le> xItemValue m (Item i))
      in takeWhile before is @ i # dropWhile before is)"

lemma vListInsert_ring:
  assumes "ring m l is" "pxContainer m i = None"
  shows "\<exists>m'. vListInsert l i m = Some m' \<and> ring m' l (sorted_insert m i is) \<and>
    touches_only l (set is) i m m'"
proof -
  let ?v = "xItemValue m (Item i)"
  let ?P = "\<lambda>j. xItemValue m (Item j) \<le> ?v"
  let ?as = "takeWhile ?P is" and ?bs = "dropWhile ?P is"
  have r: "ring m l (?as @ ?bs)" using assms(1) by simp
  have i: "i \<notin> set (?as @ ?bs)" using ring_free [OF r assms(2)] .
  have ends: "pxNext m (last_ptr (End l) ?as) = first_ptr ?bs (End l)"
    "pxPrevious m (first_ptr ?bs (End l)) = last_ptr (End l) ?as"
    using r links_ends unfolding ring_def by blast+
  have ne: "first_ptr ?bs (End l) \<noteq> Item i" "last_ptr (End l) ?as \<noteq> Item i"
    using ends_differ [OF i] by blast+
  have pos: "(if ?v = portMAX_DELAY then Some (pxPrevious m (End l)) else insert_position ?v m (End l))
      = Some (last_ptr (End l) ?as)"
  proof (cases "?v = portMAX_DELAY")
    case True
    then have "?bs = []"
      by (simp add: dropWhile_eq_Nil_conv u32_le_max)
    with ends(2) have "pxPrevious m (End l) = last_ptr (End l) ?as"
      by (simp only: ptr_simps)
    with True show ?thesis by simp
  next
    case False
    then have "?v < portMAX_DELAY"
      using u32_le_max [of ?v] by simp
    with False assms(1) insert_position_found [of m "End l" "is" "End l" ?v] show ?thesis
      by (simp add: ring_def)
  qed
  let ?m = "(let m = set_next (Item i) (pxNext m (last_ptr (End l) ?as)) m;
        m = set_previous (pxNext m (Item i)) (Item i) m;
        m = set_previous (Item i) (last_ptr (End l) ?as) m;
        m = set_next (last_ptr (End l) ?as) (Item i) m;
        m = m\<lparr>pxContainer := (pxContainer m)(i := Some l)\<rparr>
      in m\<lparr>uxNumberOfItems := (uxNumberOfItems m)(l := uxNumberOfItems m l + 1)\<rparr>)"
  have "vListInsert l i m = Some ?m"
    unfolding vListInsert_def Let_def pos by simp
  moreover have "ring ?m l (?as @ i # ?bs) \<and> touches_only l (set (?as @ ?bs)) i m ?m"
    by (rule ring_insert [OF r assms(2)]) (use ne in \<open>simp_all add: Let_def store_simps ends\<close>)
  ultimately show ?thesis
    by (simp add: sorted_insert_def Let_def)
qed

lemma sorted_insert_sorted:
  assumes "sorted (map (\<lambda>j. xItemValue m (Item j)) is)"
  shows "sorted (map (\<lambda>j. xItemValue m (Item j)) (sorted_insert m i is))"
  using assms
proof (induction "is")
  case (Cons j js)
  then show ?case
    by (auto simp: sorted_insert_def Let_def dest: set_takeWhileD set_dropWhileD)
qed (simp add: sorted_insert_def)

section \<open>Removal\<close>

lemma uxListRemove_ring:
  assumes "ring m l (is @ i # js)"
  shows "\<exists>m'. uxListRemove i m = Some (of_nat (length (is @ js)), m') \<and> ring m' l (is @ js) \<and>
    pxContainer m' i = None \<and> touches_only l (set (is @ i # js)) i m m' \<and>
    pxIndex m' l = (if pxIndex m l = Item i then last_ptr (End l) is else pxIndex m l)"
proof -
  have at: "pxContainer m i = Some l" using assms by (simp add: ring_def)
  have split: "links m (End l) is (Item i)" "links m (Item i) js (End l)"
    using assms by (simp_all add: ring_def links_append)
  have nexts: "pxPrevious m (Item i) = last_ptr (End l) is" "pxNext m (Item i) = first_ptr js (End l)"
    using links_ends [of m "End l" "is" "[]" "Item i"] links_ends [of m "Item i" "[]" js "End l"] split
    by simp_all
  have d: "distinct (is @ i # js)" using assms by (simp add: ring_def)
  have ne: "first_ptr js (End l) \<noteq> Item i" "last_ptr (End l) is \<noteq> Item i"
    using ends_differ [of i "is" js l] d by auto
  let ?m1 = "set_next (last_ptr (End l) is) (first_ptr js (End l))
      (set_previous (first_ptr js (End l)) (last_ptr (End l) is) m)"
  let ?m2 = "if pxIndex m l = Item i
      then ?m1\<lparr>pxIndex := (pxIndex ?m1)(l := last_ptr (End l) is)\<rparr> else ?m1"
  let ?m = "?m2\<lparr>pxContainer := (pxContainer m)(i := None),
      uxNumberOfItems := (uxNumberOfItems m)(l := uxNumberOfItems m l - 1)\<rparr>"
  have n: "uxNumberOfItems m l - 1 = of_nat (length (is @ js))"
    using assms by (simp add: ring_def)
  have "uxListRemove i m = Some (of_nat (length (is @ js)), ?m)"
    using n ne by (simp add: uxListRemove_def at Let_def store_simps nexts)
  moreover have "links ?m (End l) (is @ js) (End l)"
  proof (rule links_remove [where m = m and i = i])
    show "links m (End l) (is @ i # js) (End l)" using assms by (simp add: ring_def)
  qed (use d in \<open>auto simp: store_simps\<close>)
  then have "ring ?m l (is @ js)"
    using assms d n last_ptr_in [of "End l" "is"] by (auto simp: ring_def store_simps)
  moreover have "touches_only l (set (is @ i # js)) i m ?m"
    using last_ptr_in [of "End l" "is"] first_ptr_in [of js "End l"]
    by (auto simp: touches_only_def store_simps)
  ultimately show ?thesis
    by (auto simp: store_simps)
qed

section \<open>Walking a list\<close>

text \<open>
  Where the index stands: 0 on the end marker, \<open>k\<close> on the \<open>k\<close>-th item. The item the next call
  returns is then number \<open>k mod length is\<close>, counted from 0.
\<close>

definition index_at :: "list_mem \<Rightarrow> nat \<Rightarrow> nat list \<Rightarrow> nat \<Rightarrow> bool" where
  "index_at m l is k \<longleftrightarrow> ring m l is \<and> k \<le> length is \<and> pxIndex m l = last_ptr (End l) (take k is)"

lemma ring_index: "ring m l is \<Longrightarrow> \<exists>k. index_at m l is k"
proof -
  assume r: "ring m l is"
  then consider "pxIndex m l = End l" | j where "j \<in> set is" "pxIndex m l = Item j"
    by (auto simp: ring_def)
  then show ?thesis
  proof cases
    case 1
    then show ?thesis using r by (intro exI [of _ 0]) (simp add: index_at_def)
  next
    case 2
    then obtain k where "k < length is" "is ! k = j" by (auto simp: in_set_conv_nth)
    then show ?thesis
      using r 2 by (intro exI [of _ "Suc k"]) (simp add: index_at_def take_Suc_conv_app_nth)
  qed
qed

lemma next_owner_step:
  assumes "index_at m l is k" "is \<noteq> []"
  shows "\<exists>m'. listGET_OWNER_OF_NEXT_ENTRY l m = (pvOwner m (Item (is ! (k mod length is))), m') \<and>
    index_at m' l is (Suc (k mod length is)) \<and> pvOwner m' = pvOwner m"
proof -
  let ?k = "k mod length is"
  have r: "links m (End l) is (End l)" and k: "k \<le> length is"
    and idx: "pxIndex m l = last_ptr (End l) (take k is)"
    using assms(1) by (simp_all add: index_at_def ring_def)
  have nxt: "pxNext m (last_ptr (End l) (take n is)) = first_ptr (drop n is) (End l)" for n
    using links_ends [of m "End l" "take n is" "drop n is" "End l"] r by simp
  have item: "first_ptr (drop ?k is) (End l) = Item (is ! ?k)"
    using assms(2) by (simp add: Cons_nth_drop_Suc [symmetric])
  let ?m = "m\<lparr>pxIndex := (pxIndex m)(l := Item (is ! ?k))\<rparr>"
  have "listGET_OWNER_OF_NEXT_ENTRY l m = (pvOwner m (Item (is ! ?k)), ?m)"
  proof (cases "k = length is")
    case True
    then have "pxNext m (pxIndex m l) = End l" using nxt [of k] by (simp add: idx)
    moreover have "pxNext m (End l) = Item (is ! ?k)"
      using nxt [of 0] item True by simp
    ultimately show ?thesis
      by (simp add: listGET_OWNER_OF_NEXT_ENTRY_def)
  next
    case False
    then have "?k = k" using k by simp
    then have "pxNext m (pxIndex m l) = Item (is ! ?k)" using nxt [of k] item by (simp add: idx)
    then show ?thesis
      by (simp add: listGET_OWNER_OF_NEXT_ENTRY_def)
  qed
  moreover have "links ?m (End l) is (End l)"
    using r links_cong [of "End l" "is" m ?m "End l"] by simp
  then have "index_at ?m l is (Suc ?k)"
    using assms by (simp add: index_at_def ring_def take_Suc_conv_app_nth)
      (simp add: Suc_le_eq)
  ultimately show ?thesis
    by auto
qed

text \<open>The owners returned by \<open>n\<close> successive calls.\<close>

fun next_owners :: "nat \<Rightarrow> nat \<Rightarrow> list_mem \<Rightarrow> nat list" where
  "next_owners l 0 m = []"
| "next_owners l (Suc n) m =
     (let (t, m) = listGET_OWNER_OF_NEXT_ENTRY l m in t # next_owners l n m)"

lemma next_owners_cycle:
  "index_at m l is k \<Longrightarrow> is \<noteq> [] \<Longrightarrow>
   next_owners l n m = map (\<lambda>t. pvOwner m (Item (is ! ((k + t) mod length is)))) [0..<n]"
proof (induction n arbitrary: m k)
  case (Suc n)
  from next_owner_step [OF Suc.prems] obtain m' where m':
    "listGET_OWNER_OF_NEXT_ENTRY l m = (pvOwner m (Item (is ! (k mod length is))), m')"
    "index_at m' l is (Suc (k mod length is))" "pvOwner m' = pvOwner m" by blast
  have "(Suc (k mod length is) + t) mod length is = (k + Suc t) mod length is" for t
    by (metis add_Suc_right add_Suc_shift mod_add_left_eq)
  then show ?case
    using Suc.IH [OF m'(2) Suc.prems(2)] m'(1,3) by (simp add: map_upt_Suc del: upt_Suc)
qed simp

lemma next_owners_rotate:
  assumes "index_at m l is k" "is \<noteq> []"
  shows "next_owners l (length is) m = map (\<lambda>i. pvOwner m (Item i)) (rotate k is)"
  unfolding next_owners_cycle [OF assms]
  by (rule nth_equalityI) (simp_all add: nth_rotate add.commute)

section \<open>The properties of the lists\<close>

text \<open>A store with one empty list, 0, and the same with item 3 of value 7 on it.\<close>

definition list_start :: list_mem where
  "list_start = vListInitialise 0 \<lparr>xItemValue = (\<lambda>_. 0)(Item 3 := 7, Item 5 := 6, Item 9 := 7),
     pxNext = (\<lambda>_. Null), pxPrevious = (\<lambda>_. Null),
     pvOwner = (\<lambda>p. case p of Item i \<Rightarrow> 100 + i | _ \<Rightarrow> 0), pxContainer = (\<lambda>_. None),
     uxNumberOfItems = (\<lambda>_. 0), pxIndex = (\<lambda>_. Null)\<rparr>"

definition list_one :: list_mem where
  "list_one = vListInsertEnd 0 3 list_start"

lemma list_one_ring: "ring list_one 0 [3]"
proof -
  have "ring list_start 0 []"
    unfolding list_start_def by (rule vListInitialise_ring) simp
  with vListInsertEnd_ring [of list_start 0 "[]" "[]" 3] show ?thesis
    by (simp add: list_one_def list_start_def vListInitialise_def Let_def store_simps)
qed

lemma list_one_fields:
  "pxContainer list_one = (\<lambda>_. None)(3 := Some 0)" "xItemValue list_one (Item 3) = 7"
  "xItemValue list_one (Item 5) = 6" "xItemValue list_one (Item 9) = 7" "pxIndex list_one 0 = End 0"
  "pvOwner list_one (Item 3) = 103" "pvOwner list_one (Item 5) = 105"
  by (simp_all add: list_one_def list_start_def vListInitialise_def vListInsertEnd_def Let_def
      store_simps)

text \<open>
  \<open>vListInsert\<close> always ends on a well-formed list, puts the new item behind every item whose
  value is not larger and in front of the others, so a list sorted by value stays sorted and
  equal values keep their order of insertion, and leaves every other list as it was.
\<close>
theorem list_insert_keeps_order:
  assumes "ring m l is" "pxContainer m i = None"
  shows "\<exists>m'. vListInsert l i m = Some m' \<and> ring m' l (sorted_insert m i is) \<and>
    (sorted (map (\<lambda>j. xItemValue m (Item j)) is) \<longrightarrow>
       sorted (map (\<lambda>j. xItemValue m' (Item j)) (sorted_insert m i is))) \<and>
    (\<forall>k js. k \<noteq> l \<longrightarrow> ring m k js \<longrightarrow> ring m' k js)"
proof -
  from vListInsert_ring [OF assms] obtain m' where m': "vListInsert l i m = Some m'"
    "ring m' l (sorted_insert m i is)" "touches_only l (set is) i m m'" by blast
  moreover have "ring m' k js" if "k \<noteq> l" "ring m k js" for k js
    using other_ring_kept [OF m'(3) assms(1) _ that(2,1)] assms(2) by simp
  moreover have "xItemValue m' = xItemValue m" using m'(3) by (simp add: touches_only_def)
  ultimately show ?thesis
    using sorted_insert_sorted [of m "is" i] by auto
qed

theorem list_insert_keeps_order_witness:
  "(\<exists>m'. vListInsert 0 5 list_one = Some m' \<and> ring m' 0 [5, 3]) \<and>
   (\<exists>m'. vListInsert 0 9 list_one = Some m' \<and> ring m' 0 [3, 9])"
  using list_insert_keeps_order [OF list_one_ring, of 5] list_insert_keeps_order [OF list_one_ring, of 9]
  by (auto simp: sorted_insert_def list_one_fields)

text \<open>
  \<open>vListInsertEnd\<close> puts the new item in front of the index: the calls of
  \<open>listGET_OWNER_OF_NEXT_ENTRY\<close> that follow return every item of the list other than the current
  one before it, each item once, and the current one last. Other lists are left as they were.
\<close>
theorem list_insert_end_comes_last:
  assumes "ring m l (is @ js)" "pxContainer m i = None" "pxIndex m l = first_ptr js (End l)"
  shows "ring (vListInsertEnd l i m) l (is @ i # js) \<and>
    next_owners l (length (is @ i # js)) (vListInsertEnd l i m) =
      map (\<lambda>j. pvOwner m (Item j)) (tl js @ is @ [i] @ take 1 js) \<and>
    (\<forall>k ks. k \<noteq> l \<longrightarrow> ring m k ks \<longrightarrow> ring (vListInsertEnd l i m) k ks)"
proof -
  let ?m = "vListInsertEnd l i m"
  have r: "ring ?m l (is @ i # js)" and t: "touches_only l (set (is @ js)) i m ?m"
    using vListInsertEnd_ring [OF assms] by blast+
  have idx: "pxIndex ?m = pxIndex m"
    by (simp add: vListInsertEnd_def Let_def store_simps)
  let ?k = "if js = [] then 0 else length is + 2"
  have "index_at ?m l (is @ i # js) ?k"
    using r assms(3) by (cases js) (auto simp: index_at_def idx last_ptr_def)
  then have "next_owners l (length (is @ i # js)) ?m =
      map (\<lambda>j. pvOwner ?m (Item j)) (rotate ?k (is @ i # js))"
    by (rule next_owners_rotate) simp
  also have "rotate ?k (is @ i # js) = tl js @ is @ [i] @ take 1 js"
  proof (cases js)
    case (Cons j js')
    then have "rotate ?k (is @ i # js) = rotate (length (is @ [i, j])) ((is @ [i, j]) @ js')" by simp
    also have "\<dots> = js' @ is @ [i, j]" by (simp only: rotate_append)
    finally show ?thesis using Cons by simp
  qed simp
  finally show ?thesis
    using r t other_ring_kept [OF t assms(1)] assms(2) by (auto simp: touches_only_def)
qed

theorem list_insert_end_comes_last_witness:
  "ring (vListInsertEnd 0 5 list_one) 0 [3, 5] \<and>
   next_owners 0 2 (vListInsertEnd 0 5 list_one) = [103, 105]"
  using list_insert_end_comes_last [of list_one 0 "[3]" "[]" 5] list_one_ring
  by (simp add: list_one_fields numeral_2_eq_2)

text \<open>
  \<open>uxListRemove\<close> of an item on a list unlinks exactly this item, returns the number of
  items left, marks it as being on no list, leaves every other list alone, and, when the removed
  item was the current one, lets the walk go on with its successor.
\<close>
theorem list_remove_unlinks:
  assumes "ring m l (is @ i # js)"
  shows "\<exists>m'. uxListRemove i m = Some (of_nat (length (is @ js)), m') \<and> ring m' l (is @ js) \<and>
    pxContainer m' i = None \<and> (\<forall>k ks. k \<noteq> l \<longrightarrow> ring m k ks \<longrightarrow> ring m' k ks) \<and>
    (pxIndex m l = Item i \<longrightarrow> is @ js \<noteq> [] \<longrightarrow>
       next_owners l (length (is @ js)) m' = map (\<lambda>j. pvOwner m (Item j)) (js @ is))"
proof -
  from uxListRemove_ring [OF assms] obtain m' where m':
    "uxListRemove i m = Some (of_nat (length (is @ js)), m')" "ring m' l (is @ js)"
    "pxContainer m' i = None" "touches_only l (set (is @ i # js)) i m m'"
    "pxIndex m' l = (if pxIndex m l = Item i then last_ptr (End l) is else pxIndex m l)" by blast
  have "pxContainer m i = Some l" using assms by (simp add: ring_def)
  then have others: "ring m' k ks" if "k \<noteq> l" "ring m k ks" for k ks
    using other_ring_kept [OF m'(4) assms _ that(2,1)] by simp
  have "next_owners l (length (is @ js)) m' = map (\<lambda>j. pvOwner m (Item j)) (js @ is)"
    if "pxIndex m l = Item i" "is @ js \<noteq> []"
  proof -
    have "index_at m' l (is @ js) (length is)"
      using m'(2,5) that(1) by (simp add: index_at_def)
    from next_owners_rotate [OF this that(2)] m'(4) show ?thesis
      by (simp add: rotate_append touches_only_def)
  qed
  with m' others show ?thesis by blast
qed

theorem list_remove_unlinks_witness:
  "\<exists>m'. uxListRemove 3 (vListInsertEnd 0 5 list_one) = Some (1, m') \<and> ring m' 0 [5]"
proof -
  have "ring (vListInsertEnd 0 5 list_one) 0 ([] @ 3 # [5])"
    using vListInsertEnd_ring [of list_one 0 "[3]" "[]" 5] list_one_ring by (simp add: list_one_fields)
  from list_remove_unlinks [OF this] show ?thesis by auto
qed

end
