(* ===== verification/Rtos_Heap.thy ===== *)
theory Rtos_Heap
  imports Prelude
begin

text \<open>
  The heap of src/FreeRTOS/MemMang/heap_1.c: memory is handed out from one array and never taken
  back. The address of the array is chosen by the linker and is the parameter \<open>ucHeap\<close>; NULL is
  the address 0. The contract a client of the allocator relies on is the locale \<open>allocator\<close>, of
  which heap_1 is an instance.
\<close>

section \<open>The allocator\<close>

abbreviation (input) portBYTE_ALIGNMENT :: u32 where "portBYTE_ALIGNMENT \<equiv> 8"
abbreviation (input) portBYTE_ALIGNMENT_MASK :: u32 where "portBYTE_ALIGNMENT_MASK \<equiv> 7"
abbreviation (input) configTOTAL_HEAP_SIZE :: u32 where "configTOTAL_HEAP_SIZE \<equiv> 8192"

definition configADJUSTED_HEAP_SIZE :: u32 where
  "configADJUSTED_HEAP_SIZE = configTOTAL_HEAP_SIZE - portBYTE_ALIGNMENT"

definition heapADD_WILL_OVERFLOW :: "u32 \<Rightarrow> u32 \<Rightarrow> bool" where
  "heapADD_WILL_OVERFLOW a b \<longleftrightarrow> a > NOT 0 - b"

text \<open>The two static variables of the file.\<close>

record heap_1 =
  pucAlignedHeap :: u32
  xNextFreeByte :: u32

text \<open>
  The body runs with the scheduler suspended, so no other task allocates in between. The failure
  hook is not configured.
\<close>

definition pvPortMalloc :: "u32 \<Rightarrow> u32 \<Rightarrow> heap_1 \<Rightarrow> u32 \<times> heap_1" where
  "pvPortMalloc ucHeap xWantedSize s =
     (let xWantedSize =
            (if xWantedSize AND portBYTE_ALIGNMENT_MASK \<noteq> 0 then
               (let xAdditionalRequiredSize =
                      portBYTE_ALIGNMENT - (xWantedSize AND portBYTE_ALIGNMENT_MASK)
                in if \<not> heapADD_WILL_OVERFLOW xWantedSize xAdditionalRequiredSize
                   then xWantedSize + xAdditionalRequiredSize else 0)
             else xWantedSize);
          s = (if pucAlignedHeap s = 0
               then s\<lparr>pucAlignedHeap :=
                       (ucHeap + (portBYTE_ALIGNMENT - 1)) AND NOT portBYTE_ALIGNMENT_MASK\<rparr>
               else s)
      in if xWantedSize > 0 \<and> \<not> heapADD_WILL_OVERFLOW (xNextFreeByte s) xWantedSize \<and>
            xNextFreeByte s + xWantedSize < configADJUSTED_HEAP_SIZE
         then (pucAlignedHeap s + xNextFreeByte s,
               s\<lparr>xNextFreeByte := xNextFreeByte s + xWantedSize\<rparr>)
         else (0, s))"

text \<open>Freeing anything but NULL fails an assertion, which never returns.\<close>

definition vPortFree :: "u32 \<Rightarrow> heap_1 \<Rightarrow> heap_1 option" where
  "vPortFree pv s = (if pv = 0 then Some s else None)"

definition vPortInitialiseBlocks :: "heap_1 \<Rightarrow> heap_1" where
  "vPortInitialiseBlocks s = s\<lparr>xNextFreeByte := 0\<rparr>"

definition xPortGetFreeHeapSize :: "heap_1 \<Rightarrow> u32" where
  "xPortGetFreeHeapSize s = configADJUSTED_HEAP_SIZE - xNextFreeByte s"

definition vPortHeapResetState :: "heap_1 \<Rightarrow> heap_1" where
  "vPortHeapResetState s = s\<lparr>xNextFreeByte := 0\<rparr>"

section \<open>What a client of an allocator relies on\<close>

definition block :: "u32 \<Rightarrow> u32 \<Rightarrow> nat set" where
  "block p n = {unat p ..< unat p + unat n}"

locale allocator =
  fixes malloc :: "u32 \<Rightarrow> 's \<Rightarrow> u32 \<times> 's"
    and inv :: "'s \<Rightarrow> bool"
    and taken :: "'s \<Rightarrow> nat set"
  assumes malloc_inv: "inv s \<Longrightarrow> malloc n s = (p, s') \<Longrightarrow> inv s'"
    and malloc_null: "inv s \<Longrightarrow> malloc n s = (0, s') \<Longrightarrow> taken s' = taken s"
    and malloc_block: "inv s \<Longrightarrow> malloc n s = (p, s') \<Longrightarrow> p \<noteq> 0 \<Longrightarrow>
      unat p mod 8 = 0 \<and> block p n \<inter> taken s = {} \<and> taken s \<union> block p n \<subseteq> taken s'"
begin

text \<open>A sequence of requests, with the blocks it obtained.\<close>

fun malloc_all :: "u32 list \<Rightarrow> 's \<Rightarrow> (u32 \<times> u32) list \<times> 's" where
  "malloc_all [] s = ([], s)"
| "malloc_all (n # ns) s =
     (let (p, s) = malloc n s; (bs, s) = malloc_all ns s
      in (if p = 0 then bs else (p, n) # bs, s))"

lemma malloc_step:
  assumes "inv s" "malloc n s = (p, s')"
  shows "inv s' \<and> taken s \<subseteq> taken s'"
  using assms malloc_inv malloc_null malloc_block by (cases "p = 0") blast+

lemma malloc_all_taken:
  "inv s \<Longrightarrow> malloc_all ns s = (bs, s') \<Longrightarrow>
   inv s' \<and> taken s \<subseteq> taken s' \<and> (\<forall>(p, n)\<in>set bs. p \<noteq> 0 \<and> unat p mod 8 = 0 \<and>
     block p n \<subseteq> taken s' \<and> block p n \<inter> taken s = {})"
proof (induction ns arbitrary: s bs)
  case (Cons n ns)
  obtain p t where m: "malloc n s = (p, t)" by fastforce
  obtain cs where r: "malloc_all ns t = (cs, s')" and bs: "bs = (if p = 0 then cs else (p, n) # cs)"
    using Cons.prems(2) m by (auto split: prod.splits)
  have t: "inv t" "taken s \<subseteq> taken t" using malloc_step [OF Cons.prems(1) m] by blast+
  have IH: "inv s'" "taken t \<subseteq> taken s'" and cs: "\<forall>(p, n)\<in>set cs. p \<noteq> 0 \<and> unat p mod 8 = 0 \<and>
      block p n \<subseteq> taken s' \<and> block p n \<inter> taken t = {}"
    using Cons.IH [OF t(1) r] by blast+
  have "p \<noteq> 0 \<Longrightarrow> unat p mod 8 = 0 \<and> block p n \<subseteq> taken s' \<and> block p n \<inter> taken s = {}"
    using malloc_block [OF Cons.prems(1) m] IH(2) by blast
  then show ?case
    using IH cs t(2) unfolding bs by (auto split: if_splits) blast+
qed simp

lemma malloc_all_disjoint:
  "inv s \<Longrightarrow> malloc_all ns s = (bs, s') \<Longrightarrow>
   sorted_wrt (\<lambda>b c. block (fst b) (snd b) \<inter> block (fst c) (snd c) = {}) bs"
proof (induction ns arbitrary: s bs)
  case (Cons n ns)
  obtain p t where m: "malloc n s = (p, t)" by fastforce
  obtain cs where r: "malloc_all ns t = (cs, s')" and bs: "bs = (if p = 0 then cs else (p, n) # cs)"
    using Cons.prems(2) m by (auto split: prod.splits)
  have t: "inv t" using malloc_inv [OF Cons.prems(1) m] .
  have "block p n \<inter> block q k = {}" if "p \<noteq> 0" "(q, k) \<in> set cs" for q k
    using malloc_block [OF Cons.prems(1) m that(1)] malloc_all_taken [OF t r] that(2) by blast
  then show ?case
    using Cons.IH [OF t r] unfolding bs by auto
qed simp

end

section \<open>heap_1 as an allocator\<close>

definition aligned_base :: "u32 \<Rightarrow> u32" where
  "aligned_base ucHeap = (ucHeap + 7) AND NOT 7"

text \<open>
  \<open>ucHeap\<close> is where the linker put the 8192 bytes: not at address 0 and not past the end of the
  address space.
\<close>

definition heap_inv :: "u32 \<Rightarrow> heap_1 \<Rightarrow> bool" where
  "heap_inv ucHeap s \<longleftrightarrow> 0 < unat ucHeap \<and> unat ucHeap + 8192 \<le> 2 ^ 32 \<and>
     unat (xNextFreeByte s) < 8184 \<and> unat (xNextFreeByte s) mod 8 = 0 \<and>
     (pucAlignedHeap s = aligned_base ucHeap \<or> pucAlignedHeap s = 0 \<and> xNextFreeByte s = 0)"

definition heap_taken :: "heap_1 \<Rightarrow> nat set" where
  "heap_taken s = {unat (pucAlignedHeap s) ..< unat (pucAlignedHeap s) + unat (xNextFreeByte s)}"

lemma and_7: "unat (x AND 7) = unat x mod 8" for x :: u32
proof -
  have "(7 :: u32) = mask 3" by (simp add: mask_eq_exp_minus_1)
  then have "x AND 7 = take_bit 3 x" by (simp add: take_bit_eq_mask)
  then have "unat (x AND 7) = take_bit 3 (unat x)"
    by (simp only: unsigned_take_bit_eq)
  then show ?thesis by (simp add: take_bit_eq_mod)
qed

lemma and_not_7: "unat (x AND NOT 7) = unat x - unat x mod 8" for x :: u32
proof -
  have "x = (x AND 7) OR (x AND NOT 7)"
    by (auto simp: bit_eq_iff bit_simps)
  also have "\<dots> = (x AND 7) + (x AND NOT 7)"
    by (rule disjunctive_add_eq_or [symmetric]) (auto simp: bit_eq_iff bit_simps)
  finally have "x AND NOT 7 = x - (x AND 7)" by (simp add: algebra_simps)
  moreover have "(x AND 7) \<le> x"
    by (simp add: word_le_nat_alt and_7)
  ultimately show ?thesis by (simp add: unat_sub and_7)
qed

lemma aligned_base_range:
  assumes "0 < unat ucHeap" "unat ucHeap + 8192 \<le> 2 ^ 32"
  shows "unat ucHeap \<le> unat (aligned_base ucHeap)" "unat (aligned_base ucHeap) < unat ucHeap + 8"
    "unat (aligned_base ucHeap) mod 8 = 0" "aligned_base ucHeap \<noteq> 0"
proof -
  have "unat (ucHeap + 7) = unat ucHeap + 7"
    using assms(2) by (simp add: unat_word_ariths)
  then have a: "unat (aligned_base ucHeap) = (unat ucHeap + 7) - (unat ucHeap + 7) mod 8"
    unfolding aligned_base_def by (simp only: and_not_7)
  show "unat ucHeap \<le> unat (aligned_base ucHeap)" "unat (aligned_base ucHeap) < unat ucHeap + 8"
    "unat (aligned_base ucHeap) mod 8 = 0"
    unfolding a by (simp_all add: minus_mod_eq_mult_div)
  with assms(1) show "aligned_base ucHeap \<noteq> 0" by auto
qed

lemma add_overflow: "heapADD_WILL_OVERFLOW a b \<longleftrightarrow> 2 ^ 32 \<le> unat a + unat b"
proof -
  have "unat (NOT 0 - b) = 4294967295 - unat b"
    using unat_sub [of b "NOT 0"] by (simp add: unsigned_minus_1_eq_mask mask_eq_exp_minus_1)
  then show ?thesis
    using u32_bound [of b] unfolding heapADD_WILL_OVERFLOW_def word_less_nat_alt by simp arith
qed

lemma unat_add_if: "unat (a + b) = (if unat a + unat b < 2 ^ 32 then unat a + unat b
    else unat a + unat b - 2 ^ 32)" for a b :: u32
  by (simp add: unat_plus_if')

text \<open>The size after rounding; 0 when rounding would overflow.\<close>

definition rounded :: "u32 \<Rightarrow> nat" where
  "rounded n = (let r = (unat n + 7) div 8 * 8 in if r < 2 ^ 32 then r else 0)"

lemma round_up:
  "x mod 8 = 0 \<Longrightarrow> (x + 7) div 8 * 8 = x"
  "x mod 8 \<noteq> 0 \<Longrightarrow> (x + 7) div 8 * 8 = x + (8 - x mod 8)" for x :: nat
proof -
  obtain q m where x: "x = 8 * q + m" "m < 8"
    by (metis mult.commute mod_less_divisor mult_div_mod_eq zero_less_numeral)
  show "(x + 7) div 8 * 8 = x" if "x mod 8 = 0"
    using that x by simp
  have "(m + 7) div 8 = 1" if "m \<noteq> 0"
    using that x(2) by (intro div_nat_eqI) auto
  then show "(x + 7) div 8 * 8 = x + (8 - x mod 8)" if "x mod 8 \<noteq> 0"
    using that x by (simp add: add.assoc)
qed

lemma rounded_word:
  "unat (if n AND 7 \<noteq> 0 then
           (if \<not> heapADD_WILL_OVERFLOW n (8 - (n AND 7)) then n + (8 - (n AND 7)) else 0) else n)
     = rounded n"
proof (cases "unat n mod 8 = 0")
  case True
  then have "n AND 7 = 0" by (simp add: word_unat_eq_iff and_7)
  moreover have "(unat n + 7) div 8 * 8 = unat n" using round_up(1) [OF True] .
  ultimately show ?thesis using u32_bound [of n] by (simp add: rounded_def)
next
  case False
  then have ne: "n AND 7 \<noteq> 0" by (simp add: word_unat_eq_iff and_7)
  have "n AND 7 \<le> 8"
    unfolding word_le_nat_alt and_7 by simp
  then have "unat (8 - (n AND 7)) = 8 - unat n mod 8"
    by (simp only: unat_sub and_7) simp
  moreover have "(unat n + 7) div 8 * 8 = unat n + (8 - unat n mod 8)"
    using round_up(2) [OF False] .
  ultimately show ?thesis
    using ne by (simp only: rounded_def add_overflow Let_def if_True not_le not_False_eq_True
        unat_add_if split: if_split) simp
qed

lemma pvPortMalloc_spec:
  assumes "heap_inv ucHeap s"
  shows "pvPortMalloc ucHeap n s =
    (if 0 < rounded n \<and> unat (xNextFreeByte s) + rounded n < 8184
     then (aligned_base ucHeap + xNextFreeByte s,
           s\<lparr>pucAlignedHeap := aligned_base ucHeap,
             xNextFreeByte := xNextFreeByte s + of_nat (rounded n)\<rparr>)
     else (0, s\<lparr>pucAlignedHeap := aligned_base ucHeap\<rparr>))"
proof -
  define w where "w = (if n AND 7 \<noteq> 0 then
           (if \<not> heapADD_WILL_OVERFLOW n (8 - (n AND 7)) then n + (8 - (n AND 7)) else 0) else n)"
  have w: "unat w = rounded n" unfolding w_def by (rule rounded_word)
  then have ww: "w = of_nat (rounded n)" by (simp flip: w)
  let ?t = "s\<lparr>pucAlignedHeap := aligned_base ucHeap\<rparr>"
  have t: "(if pucAlignedHeap s = 0 then s\<lparr>pucAlignedHeap := (ucHeap + (8 - 1)) AND NOT 7\<rparr> else s) = ?t"
    using assms aligned_base_range(4) by (auto simp: heap_inv_def aligned_base_def)
  have fits: "w > 0 \<and> \<not> heapADD_WILL_OVERFLOW (xNextFreeByte ?t) w \<and>
      xNextFreeByte ?t + w < configADJUSTED_HEAP_SIZE \<longleftrightarrow>
      0 < rounded n \<and> unat (xNextFreeByte s) + rounded n < 8184"
  proof (cases "unat (xNextFreeByte s) + unat w < 2 ^ 32")
    case True
    then have "unat (xNextFreeByte s + w) = unat (xNextFreeByte s) + unat w"
      by (simp add: unat_word_ariths)
    with True show ?thesis
      by (simp add: add_overflow configADJUSTED_HEAP_SIZE_def word_less_nat_alt w)
  next
    case False
    then show ?thesis by (simp add: add_overflow w)
  qed
  have "pvPortMalloc ucHeap n s =
      (if w > 0 \<and> \<not> heapADD_WILL_OVERFLOW (xNextFreeByte ?t) w \<and>
          xNextFreeByte ?t + w < configADJUSTED_HEAP_SIZE
       then (pucAlignedHeap ?t + xNextFreeByte ?t, ?t\<lparr>xNextFreeByte := xNextFreeByte ?t + w\<rparr>)
       else (0, ?t))"
    unfolding pvPortMalloc_def Let_def w_def t ..
  then show ?thesis
    unfolding fits by (simp flip: ww)
qed

lemma pvPortMalloc_step:
  assumes inv: "heap_inv ucHeap s" and call: "pvPortMalloc ucHeap n s = (p, s')"
  shows "heap_inv ucHeap s' \<and> (p = 0 \<longrightarrow> heap_taken s' = heap_taken s) \<and> (p \<noteq> 0 \<longrightarrow>
      unat p mod 8 = 0 \<and> block p n \<inter> heap_taken s = {} \<and> heap_taken s \<union> block p n \<subseteq> heap_taken s')"
proof -
  let ?a = "aligned_base ucHeap"
  from inv have base: "0 < unat ucHeap" "unat ucHeap + 8192 \<le> 2 ^ 32" by (simp_all add: heap_inv_def)
  note range = aligned_base_range [OF base]
  have r8: "rounded n mod 8 = 0" "unat n \<le> rounded n \<or> rounded n = 0"
    by (simp_all add: rounded_def Let_def) arith
  consider (full) "p = 0" "s' = s\<lparr>pucAlignedHeap := ?a\<rparr>"
    | (ok) "0 < rounded n" "unat (xNextFreeByte s) + rounded n < 8184" "p = ?a + xNextFreeByte s"
      "s' = s\<lparr>pucAlignedHeap := ?a, xNextFreeByte := xNextFreeByte s + of_nat (rounded n)\<rparr>"
    using call unfolding pvPortMalloc_spec [OF inv] by (auto split: if_splits)
  then show ?thesis
  proof cases
    case full
    then show ?thesis
      using inv by (auto simp: heap_inv_def heap_taken_def)
  next
    case ok
    have next_eq: "unat (xNextFreeByte s + of_nat (rounded n)) = unat (xNextFreeByte s) + rounded n"
      using ok(2) by (simp add: unat_word_ariths unat_of_nat)
    have p_eq: "unat p = unat ?a + unat (xNextFreeByte s)"
      using ok(2) range(2) base(2) unfolding ok(3) by (simp add: unat_word_ariths)
    have n_le: "unat n \<le> rounded n" using r8(2) ok(1) by simp
    have inv': "heap_inv ucHeap s'"
      using inv ok(2) r8(1) by (simp add: heap_inv_def ok(4) next_eq mod_add_eq [symmetric])
    have "pucAlignedHeap s = ?a \<or> heap_taken s = {}"
      using inv by (auto simp: heap_inv_def heap_taken_def)
    then have "heap_taken s \<subseteq> {unat ?a ..< unat p}"
      by (auto simp: heap_taken_def p_eq)
    moreover have "heap_taken s' = {unat ?a ..< unat p + rounded n}"
      by (simp add: heap_taken_def ok(4) next_eq p_eq add.assoc)
    moreover have "unat p mod 8 = 0"
      using range(3) inv unfolding p_eq by (auto simp: heap_inv_def mod_add_eq [symmetric])
    moreover have "p \<noteq> 0" using p_eq range(1) base(1) by auto
    ultimately show ?thesis
      using inv' n_le p_eq unfolding block_def by auto
  qed
qed

interpretation heap1: allocator "pvPortMalloc ucHeap" "heap_inv ucHeap" heap_taken for ucHeap
  by unfold_locales (use pvPortMalloc_step in blast)+

text \<open>
  C27: From the initial state and for every sequence of requests, the blocks heap_1 hands out are
  pairwise disjoint, aligned to 8 bytes, and lie inside the 8192 bytes of the heap array; a request
  that gets NULL takes nothing.
\<close>
theorem heap_blocks_disjoint:
  assumes "0 < unat ucHeap" "unat ucHeap + 8192 \<le> 2 ^ 32"
    and "allocator.malloc_all (pvPortMalloc ucHeap) ns \<lparr>pucAlignedHeap = 0, xNextFreeByte = 0\<rparr> = (bs, s)"
  shows "sorted_wrt (\<lambda>b c. block (fst b) (snd b) \<inter> block (fst c) (snd c) = {}) bs \<and>
    (\<forall>(p, n)\<in>set bs. unat p mod 8 = 0 \<and> block p n \<subseteq> block ucHeap 8192)"
proof -
  let ?s0 = "\<lparr>pucAlignedHeap = 0, xNextFreeByte = 0\<rparr> :: heap_1"
  have inv: "heap_inv ucHeap ?s0" using assms(1,2) by (simp add: heap_inv_def)
  from heap1.malloc_all_taken [OF inv assms(3)] have inv': "heap_inv ucHeap s"
    and bs: "\<forall>(p, n)\<in>set bs. unat p mod 8 = 0 \<and> block p n \<subseteq> heap_taken s" by auto
  have "heap_taken s \<subseteq> block ucHeap 8192"
    using inv' aligned_base_range(1,2) [OF assms(1,2)]
    by (auto simp: heap_inv_def heap_taken_def block_def)
  then show ?thesis
    using heap1.malloc_all_disjoint [OF inv assms(3)] bs by blast
qed

theorem heap_blocks_disjoint_witness:
  "allocator.malloc_all (pvPortMalloc 0xA0000004) [5, 8170, 16] \<lparr>pucAlignedHeap = 0, xNextFreeByte = 0\<rparr>
     = ([(0xA0000008, 5), (0xA0000010, 16)], \<lparr>pucAlignedHeap = 0xA0000008, xNextFreeByte = 24\<rparr>) \<and>
   block 0xA0000008 5 \<inter> block 0xA0000010 16 = {}"
proof -
  have run: "allocator.malloc_all (pvPortMalloc 0xA0000004) [5, 8170, 16]
      \<lparr>pucAlignedHeap = 0, xNextFreeByte = 0\<rparr> =
    ([(0xA0000008, 5), (0xA0000010, 16)], \<lparr>pucAlignedHeap = 0xA0000008, xNextFreeByte = 24\<rparr>)"
    by (simp add: heap1.malloc_all.simps pvPortMalloc_def heapADD_WILL_OVERFLOW_def
        configADJUSTED_HEAP_SIZE_def Let_def)
  from heap_blocks_disjoint [OF _ _ run] run show ?thesis
    by simp
qed

lemma heap_request:
  assumes "heap_inv ucHeap s"
  shows "fst (pvPortMalloc ucHeap n s) \<noteq> 0 \<longleftrightarrow>
    0 < rounded n \<and> unat (xNextFreeByte s) + rounded n < 8184"
proof -
  have "aligned_base ucHeap + xNextFreeByte s \<noteq> 0"
  proof
    assume "aligned_base ucHeap + xNextFreeByte s = 0"
    moreover have "unat (aligned_base ucHeap + xNextFreeByte s) =
        unat (aligned_base ucHeap) + unat (xNextFreeByte s)"
      using assms aligned_base_range(2) [of ucHeap] by (simp add: heap_inv_def unat_word_ariths)
    ultimately have "unat (aligned_base ucHeap) = 0" by simp
    with assms aligned_base_range(1) [of ucHeap] show False by (simp add: heap_inv_def)
  qed
  then show ?thesis
    unfolding pvPortMalloc_spec [OF assms] by auto
qed

text \<open>
  When a request succeeds: exactly if the size rounded up to 8 is not 0 and, added to what is
  used already, stays below 8184 bytes; the request is then served at the next free byte. Nothing is
  ever given back: \<open>vPortFree\<close> returns for NULL only.
\<close>
theorem heap_request_outcome:
  assumes "heap_inv ucHeap s"
  shows "(fst (pvPortMalloc ucHeap n s) \<noteq> 0 \<longleftrightarrow>
      0 < rounded n \<and> unat (xNextFreeByte s) + rounded n < 8184) \<and>
    (fst (pvPortMalloc ucHeap n s) \<noteq> 0 \<longrightarrow>
      xPortGetFreeHeapSize (snd (pvPortMalloc ucHeap n s)) = xPortGetFreeHeapSize s - of_nat (rounded n)) \<and>
    (\<exists>t. vPortFree (fst (pvPortMalloc ucHeap n s)) s = Some t) = (fst (pvPortMalloc ucHeap n s) = 0)"
  using heap_request [OF assms, of n] unfolding pvPortMalloc_spec [OF assms]
  by (auto simp: vPortFree_def xPortGetFreeHeapSize_def algebra_simps)

theorem heap_request_outcome_witness:
  "fst (pvPortMalloc 0xA0000004 8176 \<lparr>pucAlignedHeap = 0, xNextFreeByte = 0\<rparr>) \<noteq> 0 \<and>
   fst (pvPortMalloc 0xA0000004 8177 \<lparr>pucAlignedHeap = 0, xNextFreeByte = 0\<rparr>) = 0"
proof -
  have inv: "heap_inv 0xA0000004 \<lparr>pucAlignedHeap = 0, xNextFreeByte = 0\<rparr>"
    by (simp add: heap_inv_def)
  show ?thesis
    using heap_request_outcome [OF inv, of 8176] heap_request_outcome [OF inv, of 8177]
    by (simp add: rounded_def)
qed

end
