(* ===== verification/Rtos_Timeout.thy ===== *)
theory Rtos_Timeout
  imports Prelude
begin

text \<open>
  Block times in src/FreeRTOS/tasks.c: the 32-bit tick count, the count of its overflows, and the
  timeout structure that the blocking loops of queue.c keep. The part of \<open>xTaskIncrementTick\<close>
  modelled here is the advance of these two counters; the delayed lists are not.
\<close>

record tick_clock =
  xTickCount :: u32
  xNumOfOverflows :: u32

record time_out =
  xOverflowCount :: u32
  xTimeOnEntering :: u32

definition increment_tick :: "tick_clock \<Rightarrow> tick_clock" where
  "increment_tick c =
     (let xConstTickCount = xTickCount c + 1;
          c = c\<lparr>xTickCount := xConstTickCount\<rparr>
      in if xConstTickCount = 0 then c\<lparr>xNumOfOverflows := xNumOfOverflows c + 1\<rparr> else c)"

definition vTaskInternalSetTimeOutState :: "tick_clock \<Rightarrow> time_out" where
  "vTaskInternalSetTimeOutState c =
     \<lparr>xOverflowCount = xNumOfOverflows c, xTimeOnEntering = xTickCount c\<rparr>"

text \<open>The result, the updated structure and the remaining ticks; 0xFFFFFFFF means for ever.\<close>

definition xTaskCheckForTimeOut :: "tick_clock \<Rightarrow> time_out \<Rightarrow> u32 \<Rightarrow> bool \<times> time_out \<times> u32" where
  "xTaskCheckForTimeOut c pxTimeOut pxTicksToWait =
     (let xConstTickCount = xTickCount c;
          xElapsedTime = xConstTickCount - xTimeOnEntering pxTimeOut
      in if pxTicksToWait = 0xFFFFFFFF then (False, pxTimeOut, pxTicksToWait)
         else if xNumOfOverflows c \<noteq> xOverflowCount pxTimeOut \<and>
                 xConstTickCount \<ge> xTimeOnEntering pxTimeOut
         then (True, pxTimeOut, 0)
         else if xElapsedTime < pxTicksToWait
         then (False, vTaskInternalSetTimeOutState c, pxTicksToWait - xElapsedTime)
         else (True, pxTimeOut, 0))"

section \<open>Elapsed time\<close>

text \<open>Both counters together count ticks since the start, modulo the width of the second.\<close>

definition ticks_since_start :: "tick_clock \<Rightarrow> nat" where
  "ticks_since_start c = unat (xNumOfOverflows c) * 2 ^ 32 + unat (xTickCount c)"

lemma increment_tick_count:
  "ticks_since_start (increment_tick c) = (ticks_since_start c + 1) mod 2 ^ 64"
proof (cases "xTickCount c = 0xFFFFFFFF")
  case True
  show ?thesis
  proof (cases "xNumOfOverflows c = 0xFFFFFFFF")
    case False
    then have "unat (xNumOfOverflows c) < 0xFFFFFFFF"
      using u32_bound [of "xNumOfOverflows c"] by (simp add: word_unat_eq_iff)
    with True show ?thesis
      by (simp add: increment_tick_def ticks_since_start_def Let_def unat_word_ariths)
  qed (simp add: True increment_tick_def ticks_since_start_def Let_def)
next
  case False
  then have "unat (xTickCount c) < 0xFFFFFFFF"
    using u32_bound [of "xTickCount c"] by (simp add: word_unat_eq_iff)
  then have "unat (xTickCount c + 1) = unat (xTickCount c) + 1"
    by (simp add: unat_word_ariths)
  moreover from this have "xTickCount c + 1 \<noteq> 0" by (auto simp: word_unat_eq_iff)
  moreover have "unat (xNumOfOverflows c) * 2 ^ 32 + (unat (xTickCount c) + 1) < 2 ^ 64"
    using \<open>unat (xTickCount c) < 0xFFFFFFFF\<close> u32_bound [of "xNumOfOverflows c"] by simp
  ultimately show ?thesis
    by (simp add: increment_tick_def ticks_since_start_def Let_def)
qed

lemma ticks_elapsed:
  "ticks_since_start ((increment_tick ^^ k) c) = (ticks_since_start c + k) mod 2 ^ 64"
proof (induction k)
  case 0
  have "ticks_since_start c < 2 ^ 64"
    using u32_bound [of "xTickCount c"] u32_bound [of "xNumOfOverflows c"]
    by (simp add: ticks_since_start_def)
  then show ?case by simp
next
  case (Suc k)
  then show ?case by (simp add: increment_tick_count mod_Suc_eq)
qed

lemma clock_split:
  "unat (xNumOfOverflows c) = ticks_since_start c div 2 ^ 32"
  "unat (xTickCount c) = ticks_since_start c mod 2 ^ 32"
  using u32_bound [of "xTickCount c"] by (simp_all add: ticks_since_start_def)

text \<open>\<open>k\<close> ticks later, fewer than a full turn of the tick count.\<close>

lemma clock_after:
  assumes "k < 2 ^ 32" "c' = (increment_tick ^^ k) c"
  shows "xTickCount c' - xTickCount c = of_nat k" (is ?elapsed)
    and "\<not> (xNumOfOverflows c' \<noteq> xNumOfOverflows c \<and> xTickCount c' \<ge> xTickCount c)"
proof -
  let ?n = "ticks_since_start c"
  have n': "ticks_since_start c' = (?n + k) mod 2 ^ 64"
    unfolding assms(2) by (rule ticks_elapsed)
  have tick: "unat (xTickCount c') = (unat (xTickCount c) + k) mod 2 ^ 32"
    unfolding clock_split(2) n' by (simp add: mod_mod_cancel mod_add_left_eq)
  then have "xTickCount c' = xTickCount c + of_nat k"
    by (simp add: word_unat_eq_iff unat_word_ariths unat_of_nat mod_add_right_eq)
  then show ?elapsed by simp
  show "\<not> (xNumOfOverflows c' \<noteq> xNumOfOverflows c \<and> xTickCount c' \<ge> xTickCount c)"
  proof
    assume a: "xNumOfOverflows c' \<noteq> xNumOfOverflows c \<and> xTickCount c' \<ge> xTickCount c"
    have lt: "unat (xTickCount c) + k < 2 ^ 32"
    proof (rule ccontr)
      assume "\<not> unat (xTickCount c) + k < 2 ^ 32"
      then have "(unat (xTickCount c) + k) mod 2 ^ 32 = unat (xTickCount c) + k - 2 ^ 32"
        using assms(1) u32_bound [of "xTickCount c"] by (simp add: mod_if)
      with a tick assms(1) \<open>\<not> unat (xTickCount c) + k < 2 ^ 32\<close> show False
        unfolding word_le_nat_alt by arith
    qed
    have "?n + k < 2 ^ 64"
      using lt u32_bound [of "xNumOfOverflows c"] by (simp add: ticks_since_start_def)
    then have "unat (xNumOfOverflows c') = (?n + k) div 2 ^ 32"
      unfolding clock_split(1) n' by simp
    also have "\<dots> = unat (xNumOfOverflows c)"
      using lt by (simp add: ticks_since_start_def add.assoc div_mult_self3 [of "2 ^ 32"])
    finally show False using a by (simp add: word_unat_eq_iff)
  qed
qed

text \<open>
  A wait with a finite block time is measured exactly, whatever the tick count was and even
  if it wraps meanwhile: if fewer than 2^32 ticks passed since the timeout structure was set, the
  check reports expiry exactly when at least the block time passed, and otherwise leaves exactly
  the rest of it with a structure set anew. A block time of 0xFFFFFFFF never expires.
\<close>
theorem timeout_is_exact:
  assumes "k < 2 ^ 32" "c' = (increment_tick ^^ k) c"
  shows "ticks \<noteq> 0xFFFFFFFF \<longrightarrow>
      xTaskCheckForTimeOut c' (vTaskInternalSetTimeOutState c) ticks =
        (if unat ticks \<le> k then (True, vTaskInternalSetTimeOutState c, 0)
         else (False, vTaskInternalSetTimeOutState c', of_nat (unat ticks - k))) \<and>
    fst (xTaskCheckForTimeOut c' t 0xFFFFFFFF) = False"
proof -
  note after = clock_after [OF assms]
  have k: "unat (of_nat k :: u32) = k"
    using assms(1) by (simp add: unat_of_nat)
  have "of_nat k < ticks \<longleftrightarrow> k < unat ticks"
    by (simp add: word_less_nat_alt k)
  moreover have "ticks - of_nat k = of_nat (unat ticks - k)" if "k < unat ticks"
    using that by (simp add: word_unat_eq_iff unat_sub word_le_nat_alt k unat_of_nat)
  ultimately show ?thesis
    using after by (auto simp: xTaskCheckForTimeOut_def vTaskInternalSetTimeOutState_def Let_def)
qed

theorem timeout_is_exact_witness:
  "xTaskCheckForTimeOut ((increment_tick ^^ 5) \<lparr>xTickCount = 0xFFFFFFFE, xNumOfOverflows = 7\<rparr>)
     \<lparr>xOverflowCount = 7, xTimeOnEntering = 0xFFFFFFFE\<rparr> 9 =
   (False, \<lparr>xOverflowCount = 8, xTimeOnEntering = 3\<rparr>, 4)"
proof -
  let ?c = "\<lparr>xTickCount = 0xFFFFFFFE, xNumOfOverflows = 7\<rparr>"
  have "(increment_tick ^^ 5) ?c =
      increment_tick (increment_tick (increment_tick (increment_tick (increment_tick ?c))))"
    by (simp add: eval_nat_numeral)
  also have "\<dots> = \<lparr>xTickCount = 3, xNumOfOverflows = 8\<rparr>"
    by (simp add: increment_tick_def)
  finally show ?thesis
    using timeout_is_exact [of 5 _ ?c 9, OF _ refl] by (simp add: vTaskInternalSetTimeOutState_def)
qed

end
