(* ===== verification/Rtos_Queue.thy ===== *)
theory Rtos_Queue
  imports Rtos_Heap Rtos_Timeout
begin

text \<open>
  The queues, semaphores and mutexes of src/FreeRTOS/queue.c, as configured: no queue sets, no
  registry, no tracing, dynamic allocation only. A failed \<open>configASSERT\<close> and a wait that nobody ends
  are \<open>None\<close>. A BaseType_t result is a boolean: pdPASS and pdTRUE are \<open>True\<close>; pdFAIL, errQUEUE_FULL
  and errQUEUE_EMPTY are \<open>False\<close>.
\<close>

section \<open>Data\<close>

datatype wait_list = xTasksWaitingToSend | xTasksWaitingToReceive

datatype copy_position = queueSEND_TO_BACK | queueSEND_TO_FRONT | queueOVERWRITE

text \<open>
  The queue structure. The union \<open>u\<close> is two words: the first is pcTail of a queue and xMutexHolder
  of a mutex, the second pcReadFrom and uxRecursiveCallCount. pcHead is NULL (0) for a mutex. The
  two event lists are part of the kernel state and named by \<open>wait_list\<close>.
\<close>

record xQUEUE =
  pcHead :: u32
  pcWriteTo :: u32
  pcTail_xMutexHolder :: u32
  pcReadFrom_uxRecursiveCallCount :: u32
  uxMessagesWaiting :: u32
  uxLength :: u32
  uxItemSize :: u32
  cRxLock :: u8
  cTxLock :: u8

abbreviation (input) queueUNLOCKED :: u8 where "queueUNLOCKED \<equiv> 0xFF"
abbreviation (input) queueLOCKED_UNMODIFIED :: u8 where "queueLOCKED_UNMODIFIED \<equiv> 0"
abbreviation (input) queueINT8_MAX :: u8 where "queueINT8_MAX \<equiv> 127"
abbreviation (input) queueQUEUE_IS_MUTEX :: u32 where "queueQUEUE_IS_MUTEX \<equiv> 0"

text \<open>\<open>sizeof(Queue_t)\<close> with 4-byte pointers: 4 + 4 + 8 + 2 * 20 + 3 * 4 + 2, padded.\<close>

abbreviation (input) sizeof_Queue_t :: u32 where "sizeof_Queue_t \<equiv> 72"

text \<open>A queue, the memory, and everything the kernel keeps.\<close>

record 'k qstate =
  que :: xQUEUE
  memory :: "u32 \<Rightarrow> u8"
  kern :: 'k

text \<open>
  What queue.c calls in tasks.c and the port, as operations on the kernel state, which holds the
  event lists of the queue. \<open>others\<close> is what other tasks and interrupts do to the queue, the memory
  and the kernel between two critical sections until the calling task runs again; it is \<open>None\<close> if
  the task never runs again. \<open>interrupts\<close> is what interrupts do while the scheduler is suspended.
\<close>

record 'k kernel =
  listIS_EMPTY :: "wait_list \<Rightarrow> 'k \<Rightarrow> bool"
  vListInitialise_both :: "'k \<Rightarrow> 'k"
  head_item_value :: "wait_list \<Rightarrow> 'k \<Rightarrow> u32"
  xTaskRemoveFromEventList :: "wait_list \<Rightarrow> 'k \<Rightarrow> bool \<times> 'k"
  vTaskPlaceOnEventList :: "wait_list \<Rightarrow> u32 \<Rightarrow> 'k \<Rightarrow> 'k"
  portYIELD_WITHIN_API :: "'k \<Rightarrow> 'k"
  vTaskMissedYield :: "'k \<Rightarrow> 'k"
  vTaskSuspendAll :: "'k \<Rightarrow> 'k"
  xTaskResumeAll :: "'k \<Rightarrow> bool \<times> 'k"
  scheduler_suspended :: "'k \<Rightarrow> bool"
  uxTaskGetNumberOfTasks :: "'k \<Rightarrow> u32"
  xTaskGetCurrentTaskHandle :: "'k \<Rightarrow> u32"
  pvTaskIncrementMutexHeldCount :: "'k \<Rightarrow> u32 \<times> 'k"
  xTaskPriorityInherit :: "u32 \<Rightarrow> 'k \<Rightarrow> bool \<times> 'k"
  xTaskPriorityDisinherit :: "u32 \<Rightarrow> 'k \<Rightarrow> bool \<times> 'k"
  vTaskPriorityDisinheritAfterTimeout :: "u32 \<Rightarrow> u32 \<Rightarrow> 'k \<Rightarrow> 'k"
  kernel_clock :: "'k \<Rightarrow> tick_clock"
  others :: "'k qstate \<Rightarrow> 'k qstate option"
  interrupts :: "'k qstate \<Rightarrow> 'k qstate option"

abbreviation (input) configMAX_PRIORITIES :: u32 where "configMAX_PRIORITIES \<equiv> 5"

definition on_kern :: "('k \<Rightarrow> 'k) \<Rightarrow> 'k qstate \<Rightarrow> 'k qstate" where
  "on_kern f s = s\<lparr>kern := f (kern s)\<rparr>"

definition on_que :: "(xQUEUE \<Rightarrow> xQUEUE) \<Rightarrow> 'k qstate \<Rightarrow> 'k qstate" where
  "on_que f s = s\<lparr>que := f (que s)\<rparr>"

text \<open>
  Wake the first waiting task, if any, and yield if it has the higher priority. The second
  argument is whether a yield is wanted anyway when nobody waits.
\<close>

definition wake_and_yield :: "'k kernel \<Rightarrow> wait_list \<Rightarrow> bool \<Rightarrow> 'k qstate \<Rightarrow> 'k qstate" where
  "wake_and_yield K l yield_anyway s =
     (if \<not> listIS_EMPTY K l (kern s)
      then (let (higher, k) = xTaskRemoveFromEventList K l (kern s); s = s\<lparr>kern := k\<rparr>
            in if higher then on_kern (portYIELD_WITHIN_API K) s else s)
      else if yield_anyway then on_kern (portYIELD_WITHIN_API K) s else s)"

section \<open>Creation and reset\<close>

definition xQueueGenericReset :: "'k kernel \<Rightarrow> bool \<Rightarrow> 'k qstate \<Rightarrow> (bool \<times> 'k qstate) option" where
  "xQueueGenericReset K xNewQueue s =
     (let q = que s
      in if uxLength q \<ge> 1 \<and> 0xFFFFFFFF div uxLength q \<ge> uxItemSize q
         then (let s = s\<lparr>que := q\<lparr>
                     pcTail_xMutexHolder := pcHead q + uxLength q * uxItemSize q,
                     uxMessagesWaiting := 0,
                     pcWriteTo := pcHead q,
                     pcReadFrom_uxRecursiveCallCount := pcHead q + (uxLength q - 1) * uxItemSize q,
                     cRxLock := queueUNLOCKED,
                     cTxLock := queueUNLOCKED\<rparr>\<rparr>
               in if \<not> xNewQueue then Some (True, wake_and_yield K xTasksWaitingToSend False s)
                  else Some (True, on_kern (vListInitialise_both K) s))
         else None)"

definition prvInitialiseNewQueue ::
  "'k kernel \<Rightarrow> u32 \<Rightarrow> u32 \<Rightarrow> u32 \<Rightarrow> u32 \<Rightarrow> 'k qstate \<Rightarrow> 'k qstate option" where
  "prvInitialiseNewQueue K uxQueueLength uxItemSiz pucQueueStorage pxNewQueue s =
     (let s = on_que (\<lambda>q. q\<lparr>pcHead := (if uxItemSiz = 0 then pxNewQueue else pucQueueStorage)\<rparr>) s;
          s = on_que (\<lambda>q. q\<lparr>uxLength := uxQueueLength, uxItemSize := uxItemSiz\<rparr>) s
      in map_option snd (xQueueGenericReset K True s))"

text \<open>
  The handle (NULL = 0) with the heap and the state; \<open>que s\<close> is what the structure's memory held
  before. The product is formed in 32 bits after the guard against its overflow.
\<close>

definition xQueueGenericCreate ::
  "'k kernel \<Rightarrow> u32 \<Rightarrow> u32 \<Rightarrow> u32 \<Rightarrow> heap_1 \<times> 'k qstate \<Rightarrow> (u32 \<times> heap_1 \<times> 'k qstate) option" where
  "xQueueGenericCreate K ucHeap uxQueueLength uxItemSiz hs =
     (case hs of (h, s) \<Rightarrow>
       if uxQueueLength > 0 \<and> 0xFFFFFFFF div uxQueueLength \<ge> uxItemSiz \<and>
          0xFFFFFFFF - sizeof_Queue_t \<ge> uxQueueLength * uxItemSiz
       then (let xQueueSizeInBytes = uxQueueLength * uxItemSiz;
                 (pxNewQueue, h) = pvPortMalloc ucHeap (sizeof_Queue_t + xQueueSizeInBytes) h
             in if pxNewQueue \<noteq> 0
                then do {
                  s \<leftarrow> prvInitialiseNewQueue K uxQueueLength uxItemSiz (pxNewQueue + sizeof_Queue_t)
                        pxNewQueue s;
                  Some (pxNewQueue, h, s)
                }
                else Some (0, h, s))
       else None)"

section \<open>Copying items\<close>

definition store_bytes :: "u32 \<Rightarrow> u8 list \<Rightarrow> (u32 \<Rightarrow> u8) \<Rightarrow> u32 \<Rightarrow> u8" where
  "store_bytes a bs m x = (if unat (x - a) < length bs then bs ! unat (x - a) else m x)"

definition load_bytes :: "u32 \<Rightarrow> nat \<Rightarrow> (u32 \<Rightarrow> u8) \<Rightarrow> u8 list" where
  "load_bytes a n m = map (\<lambda>i. m (a + of_nat i)) [0..<n]"

definition prvCopyDataToQueue ::
  "'k kernel \<Rightarrow> bytes_at \<Rightarrow> copy_position \<Rightarrow> 'k qstate \<Rightarrow> bool \<times> 'k qstate" where
  "prvCopyDataToQueue K pvItemToQueue xPosition s =
     (let q = que s; waiting = uxMessagesWaiting q;
          bytes = map pvItemToQueue [0..<unat (uxItemSize q)];
          (xReturn, s, waiting) =
            (if uxItemSize q = 0
             then (if pcHead q = queueQUEUE_IS_MUTEX
                   then (let (r, k) = xTaskPriorityDisinherit K (pcTail_xMutexHolder q) (kern s)
                         in (r, s\<lparr>kern := k, que := q\<lparr>pcTail_xMutexHolder := 0\<rparr>\<rparr>, waiting))
                   else (False, s, waiting))
             else if xPosition = queueSEND_TO_BACK
             then (let m = store_bytes (pcWriteTo q) bytes (memory s);
                       w = pcWriteTo q + uxItemSize q;
                       w = (if w \<ge> pcTail_xMutexHolder q then pcHead q else w)
                   in (False, s\<lparr>memory := m, que := q\<lparr>pcWriteTo := w\<rparr>\<rparr>, waiting))
             else (let m = store_bytes (pcReadFrom_uxRecursiveCallCount q) bytes (memory s);
                       r = pcReadFrom_uxRecursiveCallCount q - uxItemSize q;
                       r = (if r < pcHead q then pcTail_xMutexHolder q - uxItemSize q else r);
                       waiting = (if xPosition = queueOVERWRITE \<and> waiting > 0 then waiting - 1
                                  else waiting)
                   in (False, s\<lparr>memory := m, que := q\<lparr>pcReadFrom_uxRecursiveCallCount := r\<rparr>\<rparr>,
                       waiting)))
      in (xReturn, on_que (\<lambda>q. q\<lparr>uxMessagesWaiting := waiting + 1\<rparr>) s))"

definition prvCopyDataFromQueue :: "'k qstate \<Rightarrow> u8 list \<times> 'k qstate" where
  "prvCopyDataFromQueue s =
     (let q = que s
      in if uxItemSize q \<noteq> 0
         then (let r = pcReadFrom_uxRecursiveCallCount q + uxItemSize q;
                   r = (if r \<ge> pcTail_xMutexHolder q then pcHead q else r)
               in (load_bytes r (unat (uxItemSize q)) (memory s),
                   s\<lparr>que := q\<lparr>pcReadFrom_uxRecursiveCallCount := r\<rparr>\<rparr>))
         else ([], s))"

section \<open>Locks\<close>

definition prvLockQueue :: "'k qstate \<Rightarrow> 'k qstate" where
  "prvLockQueue s =
     (let s = on_que (\<lambda>q. if cRxLock q = queueUNLOCKED then q\<lparr>cRxLock := queueLOCKED_UNMODIFIED\<rparr> else q) s
      in on_que (\<lambda>q. if cTxLock q = queueUNLOCKED then q\<lparr>cTxLock := queueLOCKED_UNMODIFIED\<rparr> else q) s)"

definition prvIncrementQueueTxLock :: "'k kernel \<Rightarrow> u8 \<Rightarrow> 'k qstate \<Rightarrow> 'k qstate option" where
  "prvIncrementQueueTxLock K lock s =
     (if (scast lock :: u32) < uxTaskGetNumberOfTasks K (kern s)
      then (if lock = queueINT8_MAX then None else Some (on_que (\<lambda>q. q\<lparr>cTxLock := lock + 1\<rparr>) s))
      else Some s)"

definition prvIncrementQueueRxLock :: "'k kernel \<Rightarrow> u8 \<Rightarrow> 'k qstate \<Rightarrow> 'k qstate option" where
  "prvIncrementQueueRxLock K lock s =
     (if (scast lock :: u32) < uxTaskGetNumberOfTasks K (kern s)
      then (if lock = queueINT8_MAX then None else Some (on_que (\<lambda>q. q\<lparr>cRxLock := lock + 1\<rparr>) s))
      else Some s)"

text \<open>The loop of \<open>prvUnlockQueue\<close>, which wakes one task for every counted event.\<close>

fun unlock_wake :: "'k kernel \<Rightarrow> wait_list \<Rightarrow> nat \<Rightarrow> 'k \<Rightarrow> 'k" where
  "unlock_wake K l 0 k = k"
| "unlock_wake K l (Suc n) k =
     (if \<not> listIS_EMPTY K l k
      then (let (higher, k) = xTaskRemoveFromEventList K l k
            in unlock_wake K l n (if higher then vTaskMissedYield K k else k))
      else k)"

text \<open>
  Its two critical sections, one after the other; what interrupts do between them is part of the
  next \<open>others\<close>.
\<close>

definition prvUnlockQueue :: "'k kernel \<Rightarrow> 'k qstate \<Rightarrow> 'k qstate" where
  "prvUnlockQueue K s =
     (let s = on_kern (unlock_wake K xTasksWaitingToReceive (nat (sint (cTxLock (que s))))) s;
          s = on_que (\<lambda>q. q\<lparr>cTxLock := queueUNLOCKED\<rparr>) s;
          s = on_kern (unlock_wake K xTasksWaitingToSend (nat (sint (cRxLock (que s))))) s
      in on_que (\<lambda>q. q\<lparr>cRxLock := queueUNLOCKED\<rparr>) s)"

definition prvIsQueueEmpty :: "'k qstate \<Rightarrow> bool" where
  "prvIsQueueEmpty s \<longleftrightarrow> uxMessagesWaiting (que s) = 0"

definition prvIsQueueFull :: "'k qstate \<Rightarrow> bool" where
  "prvIsQueueFull s \<longleftrightarrow> uxMessagesWaiting (que s) = uxLength (que s)"

section \<open>The blocking calls\<close>

text \<open>
  After a failed attempt the calling task leaves the critical section, suspends the scheduler and
  locks the queue; then it looks whether its time is up and whether the condition still holds
  (\<open>blocked\<close>), and, if so, waits on the event list. \<open>wait_round\<close> is this common part of the four
  loops: it returns whether the time was up, with the timeout structure and the remaining ticks.
  \<open>inherit\<close> is the step xQueueSemaphoreTake makes for a mutex before it waits, and \<open>inh\<close> its variable
  xInheritanceOccurred, which only that step changes.
\<close>

definition wait_round ::
  "'k kernel \<Rightarrow> wait_list \<Rightarrow> ('k qstate \<Rightarrow> bool) \<Rightarrow> (bool \<Rightarrow> 'k qstate \<Rightarrow> bool \<times> 'k qstate) \<Rightarrow>
   bool \<Rightarrow> time_out \<Rightarrow> u32 \<Rightarrow> 'k qstate \<Rightarrow> ((bool \<times> time_out \<times> u32 \<times> bool) \<times> 'k qstate) option" where
  "wait_round K l blocked inherit inh xTimeOut xTicksToWait s = do {
     s \<leftarrow> others K s;
     let s = on_kern (vTaskSuspendAll K) s;
     let s = prvLockQueue s;
     s \<leftarrow> interrupts K s;
     let (expired, xTimeOut, xTicksToWait) =
       xTaskCheckForTimeOut (kernel_clock K (kern s)) xTimeOut xTicksToWait;
     if \<not> expired then
       (if blocked s then (
          let (inh, s) = inherit inh s;
              s = on_kern (vTaskPlaceOnEventList K l xTicksToWait) s;
              s = prvUnlockQueue K s;
              (already, k) = xTaskResumeAll K (kern s);
              s = s\<lparr>kern := (if \<not> already then portYIELD_WITHIN_API K k else k)\<rparr>
          in do {
            s \<leftarrow> others K s;
            Some ((False, xTimeOut, xTicksToWait, inh), s)
          })
        else (
          let s = prvUnlockQueue K s; (_, k) = xTaskResumeAll K (kern s)
          in Some ((False, xTimeOut, xTicksToWait, inh), s\<lparr>kern := k\<rparr>)))
     else (
       let s = prvUnlockQueue K s; (_, k) = xTaskResumeAll K (kern s)
       in Some ((True, xTimeOut, xTicksToWait, inh), s\<lparr>kern := k\<rparr>))
   }"

definition no_inherit :: "bool \<Rightarrow> 'k qstate \<Rightarrow> bool \<times> 'k qstate" where
  "no_inherit inh s = (inh, s)"

text \<open>The timeout structure is set once, at the first failed attempt.\<close>

definition entry_time :: "'k kernel \<Rightarrow> time_out option \<Rightarrow> 'k qstate \<Rightarrow> time_out" where
  "entry_time K xTimeOut s =
     (case xTimeOut of None \<Rightarrow> vTaskInternalSetTimeOutState (kernel_clock K (kern s)) | Some t \<Rightarrow> t)"

partial_function (option) send_loop ::
  "'k kernel \<Rightarrow> bytes_at \<Rightarrow> copy_position \<Rightarrow> u32 \<Rightarrow> time_out option \<Rightarrow> 'k qstate \<Rightarrow>
   (bool \<times> 'k qstate) option" where
  "send_loop K item xCopyPosition xTicksToWait xTimeOut s =
     (if uxMessagesWaiting (que s) < uxLength (que s) \<or> xCopyPosition = queueOVERWRITE
      then Some (True, wake_and_yield K xTasksWaitingToReceive
                         (fst (prvCopyDataToQueue K item xCopyPosition s))
                         (snd (prvCopyDataToQueue K item xCopyPosition s)))
      else if xTicksToWait = 0 then Some (False, s)
      else Option.bind
        (wait_round K xTasksWaitingToSend prvIsQueueFull no_inherit False (entry_time K xTimeOut s)
           xTicksToWait s)
        (\<lambda>r. if fst (fst r) then Some (False, snd r)
             else send_loop K item xCopyPosition (fst (snd (snd (fst r)))) (Some (fst (snd (fst r))))
                    (snd r)))"

definition xQueueGenericSend ::
  "'k kernel \<Rightarrow> bytes_at option \<Rightarrow> u32 \<Rightarrow> copy_position \<Rightarrow> 'k qstate \<Rightarrow> (bool \<times> 'k qstate) option" where
  "xQueueGenericSend K pvItemToQueue xTicksToWait xCopyPosition s =
     (if pvItemToQueue = None \<and> uxItemSize (que s) \<noteq> 0 then None
      else if xCopyPosition = queueOVERWRITE \<and> uxLength (que s) \<noteq> 1 then None
      else if scheduler_suspended K (kern s) \<and> xTicksToWait \<noteq> 0 then None
      else send_loop K (case pvItemToQueue of None \<Rightarrow> (\<lambda>_. 0) | Some b \<Rightarrow> b) xCopyPosition
             xTicksToWait None s)"

partial_function (option) receive_loop ::
  "'k kernel \<Rightarrow> u32 \<Rightarrow> time_out option \<Rightarrow> 'k qstate \<Rightarrow> (u8 list option \<times> 'k qstate) option" where
  "receive_loop K xTicksToWait xTimeOut s =
     (if uxMessagesWaiting (que s) > 0
      then Some (Some (fst (prvCopyDataFromQueue s)),
                 wake_and_yield K xTasksWaitingToSend False
                   (on_que (\<lambda>q. q\<lparr>uxMessagesWaiting := uxMessagesWaiting (que s) - 1\<rparr>)
                      (snd (prvCopyDataFromQueue s))))
      else if xTicksToWait = 0 then Some (None, s)
      else Option.bind
        (wait_round K xTasksWaitingToReceive prvIsQueueEmpty no_inherit False (entry_time K xTimeOut s)
           xTicksToWait s)
        (\<lambda>r. if fst (fst r) \<and> prvIsQueueEmpty (snd r) then Some (None, snd r)
             else receive_loop K (fst (snd (snd (fst r)))) (Some (fst (snd (fst r)))) (snd r)))"

text \<open>
  A successful receive returns what it copied to \<open>pvBuffer\<close>; \<open>pvBuffer\<close> is whether it is not NULL.
\<close>

definition xQueueReceive ::
  "'k kernel \<Rightarrow> bool \<Rightarrow> u32 \<Rightarrow> 'k qstate \<Rightarrow> (u8 list option \<times> 'k qstate) option" where
  "xQueueReceive K pvBuffer xTicksToWait s =
     (if \<not> pvBuffer \<and> uxItemSize (que s) \<noteq> 0 then None
      else if scheduler_suspended K (kern s) \<and> xTicksToWait \<noteq> 0 then None
      else receive_loop K xTicksToWait None s)"

partial_function (option) peek_loop ::
  "'k kernel \<Rightarrow> u32 \<Rightarrow> time_out option \<Rightarrow> 'k qstate \<Rightarrow> (u8 list option \<times> 'k qstate) option" where
  "peek_loop K xTicksToWait xTimeOut s =
     (if uxMessagesWaiting (que s) > 0
      then Some (Some (fst (prvCopyDataFromQueue s)),
                 wake_and_yield K xTasksWaitingToReceive False
                   (on_que (\<lambda>q. q\<lparr>pcReadFrom_uxRecursiveCallCount :=
                                   pcReadFrom_uxRecursiveCallCount (que s)\<rparr>)
                      (snd (prvCopyDataFromQueue s))))
      else if xTicksToWait = 0 then Some (None, s)
      else Option.bind
        (wait_round K xTasksWaitingToReceive prvIsQueueEmpty no_inherit False (entry_time K xTimeOut s)
           xTicksToWait s)
        (\<lambda>r. if fst (fst r) \<and> prvIsQueueEmpty (snd r) then Some (None, snd r)
             else peek_loop K (fst (snd (snd (fst r)))) (Some (fst (snd (fst r)))) (snd r)))"

definition xQueuePeek ::
  "'k kernel \<Rightarrow> bool \<Rightarrow> u32 \<Rightarrow> 'k qstate \<Rightarrow> (u8 list option \<times> 'k qstate) option" where
  "xQueuePeek K pvBuffer xTicksToWait s =
     (if \<not> pvBuffer \<and> uxItemSize (que s) \<noteq> 0 then None
      else if scheduler_suspended K (kern s) \<and> xTicksToWait \<noteq> 0 then None
      else peek_loop K xTicksToWait None s)"

section \<open>Semaphores and mutexes\<close>

definition prvGetHighestPriorityOfWaitToReceiveList :: "'k kernel \<Rightarrow> 'k qstate \<Rightarrow> u32" where
  "prvGetHighestPriorityOfWaitToReceiveList K s =
     (if \<not> listIS_EMPTY K xTasksWaitingToReceive (kern s)
      then configMAX_PRIORITIES - head_item_value K xTasksWaitingToReceive (kern s) else 0)"

definition mutex_inherit :: "'k kernel \<Rightarrow> bool \<Rightarrow> 'k qstate \<Rightarrow> bool \<times> 'k qstate" where
  "mutex_inherit K xInheritanceOccurred s =
     (if pcHead (que s) = queueQUEUE_IS_MUTEX
      then (let (r, k) = xTaskPriorityInherit K (pcTail_xMutexHolder (que s)) (kern s)
            in (r, s\<lparr>kern := k\<rparr>))
      else (xInheritanceOccurred, s))"

definition take_semaphore :: "'k kernel \<Rightarrow> 'k qstate \<Rightarrow> 'k qstate" where
  "take_semaphore K s =
     (let s = on_que (\<lambda>q. q\<lparr>uxMessagesWaiting := uxMessagesWaiting q - 1\<rparr>) s;
          s = (if pcHead (que s) = queueQUEUE_IS_MUTEX
               then (let (t, k) = pvTaskIncrementMutexHeldCount K (kern s)
                     in s\<lparr>kern := k, que := (que s)\<lparr>pcTail_xMutexHolder := t\<rparr>\<rparr>)
               else s)
      in wake_and_yield K xTasksWaitingToSend False s)"

partial_function (option) take_loop ::
  "'k kernel \<Rightarrow> u32 \<Rightarrow> time_out option \<Rightarrow> bool \<Rightarrow> 'k qstate \<Rightarrow> (bool \<times> 'k qstate) option" where
  "take_loop K xTicksToWait xTimeOut xInheritanceOccurred s =
     (if uxMessagesWaiting (que s) > 0 then Some (True, take_semaphore K s)
      else if xTicksToWait = 0 then Some (False, s)
      else Option.bind
        (wait_round K xTasksWaitingToReceive prvIsQueueEmpty (mutex_inherit K) xInheritanceOccurred
           (entry_time K xTimeOut s) xTicksToWait s)
        (\<lambda>r. if fst (fst r) \<and> prvIsQueueEmpty (snd r)
             then Some (False,
               if xInheritanceOccurred
               then on_kern (vTaskPriorityDisinheritAfterTimeout K (pcTail_xMutexHolder (que (snd r)))
                               (prvGetHighestPriorityOfWaitToReceiveList K (snd r))) (snd r)
               else snd r)
             else take_loop K (fst (snd (snd (fst r)))) (Some (fst (snd (fst r))))
                    (snd (snd (snd (fst r)))) (snd r)))"

definition xQueueSemaphoreTake :: "'k kernel \<Rightarrow> u32 \<Rightarrow> 'k qstate \<Rightarrow> (bool \<times> 'k qstate) option" where
  "xQueueSemaphoreTake K xTicksToWait s =
     (if uxItemSize (que s) \<noteq> 0 then None
      else if scheduler_suspended K (kern s) \<and> xTicksToWait \<noteq> 0 then None
      else take_loop K xTicksToWait None False s)"

definition prvInitialiseMutex :: "'k kernel \<Rightarrow> u32 \<Rightarrow> 'k qstate \<Rightarrow> 'k qstate option" where
  "prvInitialiseMutex K pxNewQueue s =
     (if pxNewQueue \<noteq> 0
      then (let s = on_que (\<lambda>q. q\<lparr>pcTail_xMutexHolder := 0\<rparr>) s;
                s = on_que (\<lambda>q. q\<lparr>pcHead := queueQUEUE_IS_MUTEX\<rparr>) s;
                s = on_que (\<lambda>q. q\<lparr>pcReadFrom_uxRecursiveCallCount := 0\<rparr>) s
            in map_option snd (xQueueGenericSend K None 0 queueSEND_TO_BACK s))
      else Some s)"

definition xQueueCreateMutex ::
  "'k kernel \<Rightarrow> u32 \<Rightarrow> heap_1 \<times> 'k qstate \<Rightarrow> (u32 \<times> heap_1 \<times> 'k qstate) option" where
  "xQueueCreateMutex K ucHeap hs = do {
     (xNewQueue, h, s) \<leftarrow> xQueueGenericCreate K ucHeap 1 0 hs;
     s \<leftarrow> prvInitialiseMutex K xNewQueue s;
     Some (xNewQueue, h, s)
   }"

definition xQueueCreateCountingSemaphore ::
  "'k kernel \<Rightarrow> u32 \<Rightarrow> u32 \<Rightarrow> u32 \<Rightarrow> heap_1 \<times> 'k qstate \<Rightarrow> (u32 \<times> heap_1 \<times> 'k qstate) option" where
  "xQueueCreateCountingSemaphore K ucHeap uxMaxCount uxInitialCount hs =
     (if uxMaxCount \<noteq> 0 \<and> uxInitialCount \<le> uxMaxCount
      then do {
        (xHandle, h, s) \<leftarrow> xQueueGenericCreate K ucHeap uxMaxCount 0 hs;
        Some (xHandle, h,
              if xHandle \<noteq> 0 then on_que (\<lambda>q. q\<lparr>uxMessagesWaiting := uxInitialCount\<rparr>) s else s)
      }
      else None)"

definition xQueueGiveMutexRecursive :: "'k kernel \<Rightarrow> 'k qstate \<Rightarrow> (bool \<times> 'k qstate) option" where
  "xQueueGiveMutexRecursive K s =
     (if pcTail_xMutexHolder (que s) = xTaskGetCurrentTaskHandle K (kern s)
      then (let s = on_que (\<lambda>q. q\<lparr>pcReadFrom_uxRecursiveCallCount :=
                                    pcReadFrom_uxRecursiveCallCount q - 1\<rparr>) s
            in if pcReadFrom_uxRecursiveCallCount (que s) = 0
               then do {
                 (_, s) \<leftarrow> xQueueGenericSend K None 0 queueSEND_TO_BACK s;
                 Some (True, s)
               }
               else Some (True, s))
      else Some (False, s))"

definition count_recursion :: "'k qstate \<Rightarrow> (bool \<times> 'k qstate) option" where
  "count_recursion s =
     (let s = on_que (\<lambda>q. q\<lparr>pcReadFrom_uxRecursiveCallCount :=
                              pcReadFrom_uxRecursiveCallCount q + 1\<rparr>) s
      in if pcReadFrom_uxRecursiveCallCount (que s) = 0 then None else Some (True, s))"

definition xQueueTakeMutexRecursive ::
  "'k kernel \<Rightarrow> u32 \<Rightarrow> 'k qstate \<Rightarrow> (bool \<times> 'k qstate) option" where
  "xQueueTakeMutexRecursive K xTicksToWait s =
     (if pcTail_xMutexHolder (que s) = xTaskGetCurrentTaskHandle K (kern s) then count_recursion s
      else do {
        (xReturn, s) \<leftarrow> xQueueSemaphoreTake K xTicksToWait s;
        if xReturn then count_recursion s else Some (False, s)
      })"

section \<open>Calls from interrupts\<close>

text \<open>
  The results carry what was stored through \<open>pxHigherPriorityTaskWoken\<close>: \<open>woken\<close> is whether a
  task of higher priority was woken.
\<close>

definition wake_from_isr :: "'k kernel \<Rightarrow> wait_list \<Rightarrow> 'k qstate \<Rightarrow> bool \<times> 'k qstate" where
  "wake_from_isr K l s =
     (if \<not> listIS_EMPTY K l (kern s)
      then (let (higher, k) = xTaskRemoveFromEventList K l (kern s) in (higher, s\<lparr>kern := k\<rparr>))
      else (False, s))"

definition xQueueGenericSendFromISR ::
  "'k kernel \<Rightarrow> bytes_at option \<Rightarrow> copy_position \<Rightarrow> 'k qstate \<Rightarrow> (bool \<times> bool \<times> 'k qstate) option" where
  "xQueueGenericSendFromISR K pvItemToQueue xCopyPosition s =
     (if pvItemToQueue = None \<and> uxItemSize (que s) \<noteq> 0 then None
      else if xCopyPosition = queueOVERWRITE \<and> uxLength (que s) \<noteq> 1 then None
      else if uxMessagesWaiting (que s) < uxLength (que s) \<or> xCopyPosition = queueOVERWRITE
      then (let lock = cTxLock (que s);
                item = (case pvItemToQueue of None \<Rightarrow> (\<lambda>_. 0) | Some b \<Rightarrow> b);
                s = snd (prvCopyDataToQueue K item xCopyPosition s)
            in if lock = queueUNLOCKED
               then (let (woken, s) = wake_from_isr K xTasksWaitingToReceive s
                     in Some (True, woken, s))
               else map_option (\<lambda>s. (True, False, s)) (prvIncrementQueueTxLock K lock s))
      else Some (False, False, s))"

definition xQueueGiveFromISR :: "'k kernel \<Rightarrow> 'k qstate \<Rightarrow> (bool \<times> bool \<times> 'k qstate) option" where
  "xQueueGiveFromISR K s =
     (if uxItemSize (que s) \<noteq> 0 then None
      else if pcHead (que s) = queueQUEUE_IS_MUTEX \<and> pcTail_xMutexHolder (que s) \<noteq> 0 then None
      else if uxMessagesWaiting (que s) < uxLength (que s)
      then (let lock = cTxLock (que s);
                s = on_que (\<lambda>q. q\<lparr>uxMessagesWaiting := uxMessagesWaiting q + 1\<rparr>) s
            in if lock = queueUNLOCKED
               then (let (woken, s) = wake_from_isr K xTasksWaitingToReceive s
                     in Some (True, woken, s))
               else map_option (\<lambda>s. (True, False, s)) (prvIncrementQueueTxLock K lock s))
      else Some (False, False, s))"

definition xQueueReceiveFromISR ::
  "'k kernel \<Rightarrow> bool \<Rightarrow> 'k qstate \<Rightarrow> (u8 list option \<times> bool \<times> 'k qstate) option" where
  "xQueueReceiveFromISR K pvBuffer s =
     (if \<not> pvBuffer \<and> uxItemSize (que s) \<noteq> 0 then None
      else if uxMessagesWaiting (que s) > 0
      then (let lock = cRxLock (que s); waiting = uxMessagesWaiting (que s);
                (bytes, s) = prvCopyDataFromQueue s;
                s = on_que (\<lambda>q. q\<lparr>uxMessagesWaiting := waiting - 1\<rparr>) s
            in if lock = queueUNLOCKED
               then (let (woken, s) = wake_from_isr K xTasksWaitingToSend s
                     in Some (Some bytes, woken, s))
               else map_option (\<lambda>s. (Some bytes, False, s)) (prvIncrementQueueRxLock K lock s))
      else Some (None, False, s))"

definition xQueuePeekFromISR :: "bool \<Rightarrow> 'k qstate \<Rightarrow> (u8 list option \<times> 'k qstate) option" where
  "xQueuePeekFromISR pvBuffer s =
     (if \<not> pvBuffer \<and> uxItemSize (que s) \<noteq> 0 then None
      else if uxItemSize (que s) = 0 then None
      else if uxMessagesWaiting (que s) > 0
      then (let original = pcReadFrom_uxRecursiveCallCount (que s);
                (bytes, s) = prvCopyDataFromQueue s
            in Some (Some bytes, on_que (\<lambda>q. q\<lparr>pcReadFrom_uxRecursiveCallCount := original\<rparr>) s))
      else Some (None, s))"

section \<open>Queries and deletion\<close>

definition uxQueueMessagesWaiting :: "'k qstate \<Rightarrow> u32" where
  "uxQueueMessagesWaiting s = uxMessagesWaiting (que s)"

definition uxQueueSpacesAvailable :: "'k qstate \<Rightarrow> u32" where
  "uxQueueSpacesAvailable s = uxLength (que s) - uxMessagesWaiting (que s)"

definition uxQueueMessagesWaitingFromISR :: "'k qstate \<Rightarrow> u32" where
  "uxQueueMessagesWaitingFromISR s = uxMessagesWaiting (que s)"

definition uxQueueGetQueueItemSize :: "'k qstate \<Rightarrow> u32" where
  "uxQueueGetQueueItemSize s = uxItemSize (que s)"

definition uxQueueGetQueueLength :: "'k qstate \<Rightarrow> u32" where
  "uxQueueGetQueueLength s = uxLength (que s)"

definition xQueueIsQueueEmptyFromISR :: "'k qstate \<Rightarrow> bool" where
  "xQueueIsQueueEmptyFromISR s \<longleftrightarrow> uxMessagesWaiting (que s) = 0"

definition xQueueIsQueueFullFromISR :: "'k qstate \<Rightarrow> bool" where
  "xQueueIsQueueFullFromISR s \<longleftrightarrow> uxMessagesWaiting (que s) = uxLength (que s)"

definition vQueueDelete :: "u32 \<Rightarrow> heap_1 \<Rightarrow> heap_1 option" where
  "vQueueDelete xQueue h = (if xQueue = 0 then None else vPortFree xQueue h)"

end
