(* ===== verification/Rtos_Fifo.thy ===== *)
theory Rtos_Fifo
  imports Rtos_Queue
begin

text \<open>
  The circular storage of queue.c as a first-in first-out list: the abstraction \<open>items\<close>, the
  invariant \<open>queue_ok\<close>, and what copying an item in and out, and the calls built on it, do to them.
\<close>

section \<open>The storage area\<close>

text \<open>
  A queue of items of at least one byte whose storage does not run past the end of the address
  space and starts at least one item above address 0: pcReadFrom stands on the slot before the
  oldest item, pcWriteTo on the one behind the newest.
\<close>

definition read_slot :: "xQUEUE \<Rightarrow> nat" where
  "read_slot q = (unat (pcReadFrom_uxRecursiveCallCount q) - unat (pcHead q)) div unat (uxItemSize q)"

definition slot :: "xQUEUE \<Rightarrow> nat \<Rightarrow> u32" where
  "slot q i = pcHead q + of_nat (i * unat (uxItemSize q))"

definition storage_ok :: "xQUEUE \<Rightarrow> bool" where
  "storage_ok q \<longleftrightarrow> 0 < unat (uxLength q) \<and> 0 < unat (uxItemSize q) \<and>
     unat (uxItemSize q) \<le> unat (pcHead q) \<and>
     unat (pcHead q) + unat (uxLength q) * unat (uxItemSize q) < 2 ^ 32 \<and>
     pcTail_xMutexHolder q = slot q (unat (uxLength q))"

definition queue_ok :: "'k qstate \<Rightarrow> bool" where
  "queue_ok s \<longleftrightarrow> storage_ok (que s) \<and> uxMessagesWaiting (que s) \<le> uxLength (que s) \<and>
     read_slot (que s) < unat (uxLength (que s)) \<and>
     pcReadFrom_uxRecursiveCallCount (que s) = slot (que s) (read_slot (que s)) \<and>
     pcWriteTo (que s) = slot (que s)
       ((read_slot (que s) + 1 + unat (uxMessagesWaiting (que s))) mod unat (uxLength (que s)))"

definition slot_bytes :: "'k qstate \<Rightarrow> nat \<Rightarrow> u8 list" where
  "slot_bytes s i = load_bytes (slot (que s) i) (unat (uxItemSize (que s))) (memory s)"

definition items :: "'k qstate \<Rightarrow> u8 list list" where
  "items s = map (\<lambda>j. slot_bytes s ((read_slot (que s) + 1 + j) mod unat (uxLength (que s))))
     [0..<unat (uxMessagesWaiting (que s))]"

lemma items_length: "length (items s) = unat (uxMessagesWaiting (que s))"
  by (simp add: items_def)

lemma unat_slot:
  assumes "storage_ok q" "i \<le> unat (uxLength q)"
  shows "unat (slot q i) = unat (pcHead q) + i * unat (uxItemSize q)"
proof -
  have "i * unat (uxItemSize q) \<le> unat (uxLength q) * unat (uxItemSize q)"
    using assms(2) by simp
  then have "unat (pcHead q) + i * unat (uxItemSize q) < 2 ^ 32"
    using assms(1) unfolding storage_ok_def by linarith
  moreover from this have "unat (of_nat (i * unat (uxItemSize q)) :: u32) = i * unat (uxItemSize q)"
    by (intro u32_of_nat) simp
  ultimately show ?thesis
    by (simp add: slot_def unat_plus_if' del: of_nat_mult)
qed

lemma read_slot_of:
  assumes "storage_ok q" "i \<le> unat (uxLength q)"
    and "pcReadFrom_uxRecursiveCallCount q = slot q i"
  shows "read_slot q = i"
  using assms unat_slot [OF assms(1,2)] by (simp add: read_slot_def storage_ok_def)

lemma slot_wrap:
  assumes "storage_ok q" "i < unat (uxLength q)"
  shows "(if slot q i + uxItemSize q \<ge> pcTail_xMutexHolder q then pcHead q
          else slot q i + uxItemSize q) = slot q (Suc i mod unat (uxLength q))"
proof -
  have nxt: "slot q i + uxItemSize q = slot q (Suc i)"
    by (simp add: slot_def algebra_simps)
  have "slot q (Suc i) \<ge> pcTail_xMutexHolder q \<longleftrightarrow> Suc i = unat (uxLength q)"
  proof -
    have "slot q (Suc i) \<ge> pcTail_xMutexHolder q \<longleftrightarrow>
        unat (uxLength q) * unat (uxItemSize q) \<le> Suc i * unat (uxItemSize q)"
      using assms unat_slot [OF assms(1), of "Suc i"] unat_slot [OF assms(1), of "unat (uxLength q)"]
      by (simp add: word_le_nat_alt storage_ok_def)
    also have "\<dots> \<longleftrightarrow> unat (uxLength q) \<le> Suc i"
      using assms(1) by (simp only: mult_le_cancel2) (simp add: storage_ok_def)
    finally show ?thesis using assms(2) by auto
  qed
  moreover have "slot q 0 = pcHead q" by (simp add: slot_def)
  ultimately show ?thesis
    unfolding nxt using assms(2) by (auto simp: mod_Suc)
qed

lemma slot_back:
  assumes "storage_ok q" "i < unat (uxLength q)"
  shows "(if slot q i - uxItemSize q < pcHead q then pcTail_xMutexHolder q - uxItemSize q
          else slot q i - uxItemSize q) =
         slot q (if i = 0 then unat (uxLength q) - 1 else i - 1)"
proof (cases i)
  case 0
  have "slot q 0 - uxItemSize q < pcHead q"
    using assms(1) by (simp add: slot_def word_less_nat_alt unat_sub word_le_nat_alt storage_ok_def)
  moreover have "pcTail_xMutexHolder q - uxItemSize q = slot q (unat (uxLength q) - 1)"
    using assms(1) by (cases "unat (uxLength q)") (simp_all add: storage_ok_def slot_def algebra_simps)
  ultimately show ?thesis using 0 by simp
next
  case (Suc j)
  have prv: "slot q (Suc j) - uxItemSize q = slot q j"
    by (simp add: slot_def algebra_simps)
  have "\<not> slot q j < pcHead q"
    using unat_slot [OF assms(1), of j] assms(2) Suc by (simp add: word_less_nat_alt)
  then show ?thesis
    using Suc by (simp add: prv)
qed

text \<open>Slots do not overlap: writing one leaves the others.\<close>

lemma load_store_slot:
  assumes ok: "storage_ok q" and ij: "i < unat (uxLength q)" "j < unat (uxLength q)"
    and len: "length bs = unat (uxItemSize q)"
  shows "load_bytes (slot q j) (unat (uxItemSize q)) (store_bytes (slot q i) bs m) =
    (if j = i then bs else load_bytes (slot q j) (unat (uxItemSize q)) m)"
proof (rule nth_equalityI)
  let ?z = "unat (uxItemSize q)"
  show "length (load_bytes (slot q j) ?z (store_bytes (slot q i) bs m)) =
      length (if j = i then bs else load_bytes (slot q j) ?z m)"
    by (simp add: load_bytes_def len)
  fix k assume "k < length (load_bytes (slot q j) ?z (store_bytes (slot q i) bs m))"
  then have k: "k < ?z" by (simp add: load_bytes_def)
  have bound: "unat (pcHead q) + (j * ?z + k) < 2 ^ 32" "i * ?z + ?z \<le> unat (uxLength q) * ?z"
  proof -
    have "Suc j * ?z \<le> unat (uxLength q) * ?z" "Suc i * ?z \<le> unat (uxLength q) * ?z"
      using ij by (simp_all only: mult_le_mono1 Suc_leI)
    with ok k show "unat (pcHead q) + (j * ?z + k) < 2 ^ 32" "i * ?z + ?z \<le> unat (uxLength q) * ?z"
      unfolding storage_ok_def by simp_all
  qed
  have at: "unat (slot q j + of_nat k) = unat (pcHead q) + j * ?z + k"
    using unat_slot [OF ok, of j] ij(2) bound(1) by (simp add: unat_word_ariths unat_of_nat)
  have off: "unat (slot q j + of_nat k - slot q i) < ?z \<longleftrightarrow> j = i"
  proof (cases "i * ?z \<le> j * ?z + k")
    case True
    have "unat (slot q j + of_nat k - slot q i) = j * ?z + k - i * ?z"
      using True at unat_slot [OF ok, of i] ij(1) by (simp add: unat_sub word_le_nat_alt)
    moreover have "j * ?z + k - i * ?z < ?z \<longleftrightarrow> j = i"
    proof
      assume "j * ?z + k - i * ?z < ?z"
      then have "j * ?z < Suc i * ?z" "i * ?z < Suc j * ?z" using True k by simp_all
      then show "j = i" by (simp only: mult_less_cancel2) simp
    qed (use k in simp)
    ultimately show ?thesis by simp
  next
    case False
    have "unat (slot q j + of_nat k - slot q i) = 2 ^ 32 - (i * ?z - (j * ?z + k))"
      using False at unat_slot [OF ok, of i] ij(1) bound by (simp add: unat_sub_if')
    moreover have "i * ?z + ?z < 2 ^ 32"
      using bound(2) ok unfolding storage_ok_def by linarith
    moreover have "j \<noteq> i" using False by auto
    ultimately show ?thesis by simp
  qed
  show "load_bytes (slot q j) ?z (store_bytes (slot q i) bs m) ! k =
      (if j = i then bs else load_bytes (slot q j) ?z m) ! k"
  proof (cases "j = i")
    case True
    then have "slot q j + of_nat k - slot q i = of_nat k" by simp
    moreover have "unat (of_nat k :: u32) = k" using bound(1) by (simp add: unat_of_nat)
    ultimately show ?thesis using True k by (simp add: load_bytes_def store_bytes_def len)
  next
    case False
    then show ?thesis using k off by (simp add: load_bytes_def store_bytes_def len)
  qed
qed

section \<open>Copying in and out\<close>

text \<open>The bytes of the item the caller points at.\<close>

definition item_bytes :: "'k qstate \<Rightarrow> bytes_at \<Rightarrow> u8 list" where
  "item_bytes s item = map item [0..<unat (uxItemSize (que s))]"

lemma item_bytes_length [simp]: "length (item_bytes s item) = unat (uxItemSize (que s))"
  by (simp add: item_bytes_def)

text \<open>The shape of the queue does not change.\<close>

definition same_shape :: "'k qstate \<Rightarrow> 'k qstate \<Rightarrow> bool" where
  "same_shape s t \<longleftrightarrow> pcHead (que t) = pcHead (que s) \<and> uxLength (que t) = uxLength (que s) \<and>
     uxItemSize (que t) = uxItemSize (que s) \<and>
     pcTail_xMutexHolder (que t) = pcTail_xMutexHolder (que s)"

lemma same_shape_slots:
  "same_shape s t \<Longrightarrow> storage_ok (que t) = storage_ok (que s) \<and> slot (que t) = slot (que s)"
  by (auto simp: same_shape_def storage_ok_def slot_def fun_eq_iff)

lemma slots_differ:
  fixes k n L r :: nat
  assumes "k < n" "n < L"
  shows "(r + 1 + k) mod L \<noteq> (r + 1 + n) mod L" "(r + 1 + k) mod L \<noteq> r mod L"
proof -
  show "(r + 1 + k) mod L \<noteq> (r + 1 + n) mod L"
    using mod_shift_inj [of "r + 1" k L n] assms by auto
  show "(r + 1 + k) mod L \<noteq> r mod L"
    using mod_shift_inj [of r "Suc k" L 0] assms by auto
qed

text \<open>
  A state whose slots, counters and pointers are these has this list of items: the form in which
  the copying functions are analysed.
\<close>

lemma items_cong:
  assumes "same_shape s t" "read_slot (que t) = r" "unat (uxMessagesWaiting (que t)) = n"
    and "\<And>j. j < n \<Longrightarrow> load_bytes (slot (que s) ((r + 1 + j) mod unat (uxLength (que s))))
           (unat (uxItemSize (que s))) (memory t) = xs ! j"
    and "length xs = n"
  shows "items t = xs"
proof (rule nth_equalityI)
  show "length (items t) = length xs" using assms by (simp add: items_length)
  fix j assume "j < length (items t)"
  then have "j < n" using assms by (simp add: items_length)
  then show "items t ! j = xs ! j"
    using assms same_shape_slots [OF assms(1)]
    by (simp add: items_def slot_bytes_def same_shape_def)
qed

lemma items_nth:
  "j < unat (uxMessagesWaiting (que s)) \<Longrightarrow> items s ! j =
     load_bytes (slot (que s) ((read_slot (que s) + 1 + j) mod unat (uxLength (que s))))
       (unat (uxItemSize (que s))) (memory s)"
  by (simp add: items_def slot_bytes_def)

lemma copy_to_back:
  assumes ok: "queue_ok s" and room: "uxMessagesWaiting (que s) < uxLength (que s)"
    and t: "t = snd (prvCopyDataToQueue K item queueSEND_TO_BACK s)"
  shows "queue_ok t \<and> items t = items s @ [item_bytes s item] \<and> same_shape s t \<and> kern t = kern s"
proof -
  let ?L = "unat (uxLength (que s))" and ?z = "unat (uxItemSize (que s))"
    and ?r = "read_slot (que s)" and ?n = "unat (uxMessagesWaiting (que s))"
  let ?w = "(?r + 1 + ?n) mod ?L"
  have st: "storage_ok (que s)" and r: "?r < ?L" and w: "?w < ?L"
    and n: "?n < ?L" and pos: "0 < ?L" "0 < ?z"
    and rd: "pcReadFrom_uxRecursiveCallCount (que s) = slot (que s) ?r"
    and wr: "pcWriteTo (que s) = slot (que s) ?w"
    using ok room by (auto simp: queue_ok_def storage_ok_def word_less_nat_alt)
  have t_eq: "t = s\<lparr>memory := store_bytes (slot (que s) ?w) (item_bytes s item) (memory s),
      que := (que s)\<lparr>pcWriteTo := slot (que s) (Suc ?w mod ?L),
                     uxMessagesWaiting := uxMessagesWaiting (que s) + 1\<rparr>\<rparr>"
    using pos slot_wrap [OF st w] unfolding t prvCopyDataToQueue_def Let_def wr
    by (auto simp: on_que_def item_bytes_def)
  have shape: "same_shape s t" by (simp add: t_eq same_shape_def)
  have n': "unat (uxMessagesWaiting (que s) + 1) = ?n + 1"
    using n u32_bound [of "uxLength (que s)"] by (simp add: unat_plus_if')
  have rd': "read_slot (que t) = ?r" by (simp add: t_eq read_slot_def)
  have "Suc ?w mod ?L = (?r + 1 + (?n + 1)) mod ?L" by (simp add: mod_Suc_eq)
  then have "queue_ok t"
    using st r same_shape_slots [OF shape] rd' n' n rd
    by (auto simp: queue_ok_def t_eq word_le_nat_alt)
  moreover have "items t = items s @ [item_bytes s item]"
  proof (rule items_cong [OF shape rd'])
    show "unat (uxMessagesWaiting (que t)) = ?n + 1" by (simp add: t_eq n')
    fix j assume j: "j < ?n + 1"
    have "(?r + 1 + j) mod ?L < ?L" using pos by simp
    then show "load_bytes (slot (que s) ((?r + 1 + j) mod ?L)) ?z (memory t) =
        (items s @ [item_bytes s item]) ! j"
      using load_store_slot [OF st w, of "(?r + 1 + j) mod ?L" "item_bytes s item" "memory s"]
        slots_differ(1) [of j ?n ?L ?r] j n items_nth [of j s]
      by (auto simp: t_eq nth_append items_length less_Suc_eq)
  qed (simp add: items_length)
  ultimately show ?thesis
    using shape by (simp add: t_eq)
qed

lemma slot_before:
  fixes r L :: nat
  assumes "r < L"
  shows "(if r = 0 then L - 1 else r - 1) < L"
    "((if r = 0 then L - 1 else r - 1) + 1 + 0) mod L = r"
    "((if r = 0 then L - 1 else r - 1) + 1 + Suc j) mod L = (r + 1 + j) mod L"
proof -
  have e: "(if r = 0 then L - 1 else r - 1) + 1 = (if r = 0 then L else r)"
    using assms by auto
  show "(if r = 0 then L - 1 else r - 1) < L" using assms by auto
  show "((if r = 0 then L - 1 else r - 1) + 1 + 0) mod L = r"
    unfolding e using assms by simp
  show "((if r = 0 then L - 1 else r - 1) + 1 + Suc j) mod L = (r + 1 + j) mod L"
    unfolding e using mod_add_self1 [of L "Suc j"] by (cases "r = 0") simp_all
qed

text \<open>Writing in front of the oldest item; for an overwriting send the old item is dropped.\<close>

lemma copy_to_front:
  assumes ok: "queue_ok s" and pos: "p \<noteq> queueSEND_TO_BACK"
    and room: "if p = queueOVERWRITE then uxLength (que s) = 1
               else uxMessagesWaiting (que s) < uxLength (que s)"
    and t: "t = snd (prvCopyDataToQueue K item p s)"
  shows "queue_ok t \<and> same_shape s t \<and> kern t = kern s \<and>
    items t = item_bytes s item # (if p = queueOVERWRITE then [] else items s)"
proof -
  let ?L = "unat (uxLength (que s))" and ?z = "unat (uxItemSize (que s))"
    and ?r = "read_slot (que s)" and ?n = "unat (uxMessagesWaiting (que s))"
  let ?b = "if ?r = 0 then ?L - 1 else ?r - 1"
  let ?k = "if p = queueOVERWRITE \<and> uxMessagesWaiting (que s) > 0
            then uxMessagesWaiting (que s) - 1 else uxMessagesWaiting (que s)"
  have st: "storage_ok (que s)" and r: "?r < ?L"
    and n: "?n \<le> ?L" and posn: "0 < ?L" "0 < ?z"
    and rd: "pcReadFrom_uxRecursiveCallCount (que s) = slot (que s) ?r"
    and wr: "pcWriteTo (que s) = slot (que s) ((?r + 1 + ?n) mod ?L)"
    using ok by (auto simp: queue_ok_def storage_ok_def word_le_nat_alt)
  have t_eq: "t = s\<lparr>memory := store_bytes (slot (que s) ?r) (item_bytes s item) (memory s),
      que := (que s)\<lparr>pcReadFrom_uxRecursiveCallCount := slot (que s) ?b,
                     uxMessagesWaiting := ?k + 1\<rparr>\<rparr>"
    using posn slot_back [OF st r] pos unfolding t prvCopyDataToQueue_def Let_def rd
    by (auto simp: on_que_def item_bytes_def)
  have shape: "same_shape s t" by (simp add: t_eq same_shape_def)
  define kk where "kk = (if p = queueOVERWRITE then 0 else ?n)"
  have k: "unat ?k = kk \<and> kk < ?L"
  proof (cases "p = queueOVERWRITE")
    case True
    with room n have "?n \<le> 1" by simp
    then have "unat ?k = 0" using True by (auto simp: unat_sub word_le_nat_alt word_less_nat_alt)
    with True posn show ?thesis by (simp add: kk_def)
  next
    case False
    with room show ?thesis by (simp add: kk_def word_less_nat_alt)
  qed
  have k': "unat (?k + 1) = kk + 1"
    using k u32_bound [of "uxLength (que s)"] by (simp only: unat_plus_if') simp
  note bef = slot_before [OF r]
  have rd': "read_slot (que t) = ?b"
    using read_slot_of [of "que t" ?b] same_shape_slots [OF shape] st bef(1)
    by (simp add: t_eq)
  have "(?b + 1 + (kk + 1)) mod ?L = (?r + 1 + ?n) mod ?L"
  proof (cases "p = queueOVERWRITE")
    case True
    then have "?L = 1" using room by simp
    then show ?thesis by simp
  next
    case False
    then show ?thesis using bef(3) [of ?n] by (simp add: kk_def)
  qed
  then have "queue_ok t"
    using st same_shape_slots [OF shape] rd' k k' wr bef(1)
    by (simp add: queue_ok_def t_eq word_le_nat_alt)
  moreover have "items t = item_bytes s item # take kk (items s)"
  proof (rule items_cong [OF shape rd'])
    show "unat (uxMessagesWaiting (que t)) = kk + 1" using k' by (simp add: t_eq)
    show "length (item_bytes s item # take kk (items s)) = kk + 1"
      by (simp add: items_length kk_def)
    fix j assume j: "j < kk + 1"
    have lt: "(?b + 1 + j) mod ?L < ?L" using posn by simp
    note load = load_store_slot [OF st r lt, of "item_bytes s item" "memory s"]
    show "load_bytes (slot (que s) ((?b + 1 + j) mod ?L)) ?z (memory t) =
        (item_bytes s item # take kk (items s)) ! j"
    proof (cases j)
      case 0
      then show ?thesis using load bef(2) by (simp add: t_eq)
    next
      case (Suc i)
      have "i < kk" using j Suc by simp
      moreover from this have "(?r + 1 + i) mod ?L \<noteq> ?r"
        using slots_differ(2) [of i kk ?L ?r] k r by simp
      moreover have "i < ?n" using \<open>i < kk\<close> by (simp add: kk_def split: if_splits)
      ultimately show ?thesis
        using load bef(3) [of i] items_nth [of i s] Suc by (simp add: t_eq)
    qed
  qed
  moreover have "take kk (items s) = (if p = queueOVERWRITE then [] else items s)"
    by (simp add: kk_def items_length)
  ultimately show ?thesis
    using shape by (simp add: t_eq)
qed

lemma copy_from:
  assumes ok: "queue_ok s" and some: "0 < uxMessagesWaiting (que s)"
    and t: "prvCopyDataFromQueue s = (bs, t)"
  shows "bs = hd (items s) \<and> same_shape s t \<and> kern t = kern s \<and> memory t = memory s \<and>
    que t = (que s)\<lparr>pcReadFrom_uxRecursiveCallCount :=
              slot (que s) (Suc (read_slot (que s)) mod unat (uxLength (que s)))\<rparr>"
proof -
  let ?L = "unat (uxLength (que s))" and ?r = "read_slot (que s)"
  have st: "storage_ok (que s)" and r: "?r < ?L" and pos: "0 < unat (uxItemSize (que s))"
    and rd: "pcReadFrom_uxRecursiveCallCount (que s) = slot (que s) ?r"
    using ok by (auto simp: queue_ok_def storage_ok_def)
  have n: "0 < unat (uxMessagesWaiting (que s))"
    using some by (simp add: word_less_nat_alt)
  have eq: "bs = load_bytes (slot (que s) (Suc ?r mod ?L)) (unat (uxItemSize (que s))) (memory s)"
    "t = s\<lparr>que := (que s)\<lparr>pcReadFrom_uxRecursiveCallCount := slot (que s) (Suc ?r mod ?L)\<rparr>\<rparr>"
    using t pos unfolding prvCopyDataFromQueue_def Let_def rd slot_wrap [OF st r]
    by (simp_all split: if_splits)
  have "hd (items s) = items s ! 0"
    using n by (metis hd_conv_nth items_length length_0_conv less_irrefl)
  then show ?thesis
    using eq items_nth [OF n] by (simp add: same_shape_def)
qed

text \<open>Taking the oldest item out: the copy, then one message less.\<close>

lemma remove_oldest:
  assumes ok: "queue_ok s" and some: "0 < uxMessagesWaiting (que s)"
    and t: "prvCopyDataFromQueue s = (bs, t)"
  defines "t' \<equiv> on_que (\<lambda>q. q\<lparr>uxMessagesWaiting := uxMessagesWaiting (que s) - 1\<rparr>) t"
  shows "queue_ok t' \<and> items s = bs # items t' \<and> same_shape s t' \<and> kern t' = kern s"
proof -
  let ?L = "unat (uxLength (que s))" and ?r = "read_slot (que s)"
    and ?n = "unat (uxMessagesWaiting (que s))"
  have st: "storage_ok (que s)" and r: "?r < ?L" and n: "?n \<le> ?L" and posL: "0 < ?L"
    and wr: "pcWriteTo (que s) = slot (que s) ((?r + 1 + ?n) mod ?L)"
    using ok by (auto simp: queue_ok_def storage_ok_def word_le_nat_alt)
  have n0: "0 < ?n" using some by (simp add: word_less_nat_alt)
  from copy_from [OF ok some t] have bs: "bs = hd (items s)"
    and que: "que t = (que s)\<lparr>pcReadFrom_uxRecursiveCallCount := slot (que s) (Suc ?r mod ?L)\<rparr>"
    and rest: "kern t = kern s" "memory t = memory s" by blast+
  have n': "unat (uxMessagesWaiting (que s) - 1) = ?n - 1"
    using n0 by (simp add: unat_sub word_le_nat_alt)
  have shape: "same_shape s t'" by (simp add: t'_def on_que_def que same_shape_def)
  have lt: "Suc ?r mod ?L < ?L" using posL by simp
  have rd': "read_slot (que t') = Suc ?r mod ?L"
    using read_slot_of [of "que t'" "Suc ?r mod ?L"] same_shape_slots [OF shape] st lt
    by (simp add: t'_def on_que_def que same_shape_def)
  have mods: "(Suc ?r mod ?L + 1 + j) mod ?L = (?r + 1 + Suc j) mod ?L" for j
    by (metis Suc_eq_plus1 add.assoc add_Suc mod_add_left_eq plus_1_eq_Suc)
  have "(Suc ?r mod ?L + 1 + (?n - 1)) mod ?L = (?r + 1 + ?n) mod ?L"
    using mods [of "?n - 1"] n0 by simp
  then have "queue_ok t'"
    using st same_shape_slots [OF shape] rd' lt n n' wr
    by (simp add: queue_ok_def t'_def on_que_def que word_le_nat_alt)
  moreover have "items t' = tl (items s)"
  proof (rule items_cong [OF shape rd'])
    show "unat (uxMessagesWaiting (que t')) = ?n - 1"
      by (simp add: t'_def on_que_def n')
    fix j assume j: "j < ?n - 1"
    then have "Suc j < ?n" by simp
    from items_nth [OF this] show "load_bytes (slot (que s) ((Suc ?r mod ?L + 1 + j) mod ?L))
        (unat (uxItemSize (que s))) (memory t') = tl (items s) ! j"
      using mods [of j] rest j by (simp add: t'_def on_que_def nth_tl items_length)
  qed (simp add: items_length)
  moreover have "items s \<noteq> []"
    using n0 items_length [of s] by auto
  ultimately show ?thesis
    using bs shape rest by (simp add: t'_def on_que_def)
qed

section \<open>What the rest of a call leaves alone\<close>

text \<open>The same queue and memory up to the lock counts.\<close>

definition queue_same :: "'k qstate \<Rightarrow> 'k qstate \<Rightarrow> bool" where
  "queue_same s t \<longleftrightarrow> memory t = memory s \<and> pcHead (que t) = pcHead (que s) \<and>
     pcWriteTo (que t) = pcWriteTo (que s) \<and>
     pcTail_xMutexHolder (que t) = pcTail_xMutexHolder (que s) \<and>
     pcReadFrom_uxRecursiveCallCount (que t) = pcReadFrom_uxRecursiveCallCount (que s) \<and>
     uxMessagesWaiting (que t) = uxMessagesWaiting (que s) \<and> uxLength (que t) = uxLength (que s) \<and>
     uxItemSize (que t) = uxItemSize (que s)"

lemma queue_same_refl [simp]: "queue_same s s"
  by (simp add: queue_same_def)

lemma queue_same_trans: "queue_same s t \<Longrightarrow> queue_same t u \<Longrightarrow> queue_same s u"
  by (simp add: queue_same_def)

lemma queue_same_steps [simp]:
  "queue_same s (on_kern f s)" "queue_same s (s\<lparr>kern := k\<rparr>)"
  "queue_same s (wake_and_yield K l b s)" "queue_same s (prvLockQueue s)"
  "queue_same s (prvUnlockQueue K s)"
  by (simp_all add: queue_same_def on_kern_def wake_and_yield_def prvLockQueue_def on_que_def
      prvUnlockQueue_def Let_def split: prod.split)

lemma queue_same_abs:
  assumes "queue_same s t"
  shows "queue_ok t = queue_ok s" "items t = items s" "same_shape s t"
    "uxMessagesWaiting (que t) = uxMessagesWaiting (que s)" "uxLength (que t) = uxLength (que s)"
    "item_bytes t i = item_bytes s i"
  using assms
  by (auto simp: queue_same_def queue_ok_def storage_ok_def slot_def read_slot_def items_def
      slot_bytes_def same_shape_def item_bytes_def)

lemma same_shape_trans: "same_shape s t \<Longrightarrow> same_shape t u \<Longrightarrow> same_shape s u"
  by (simp add: same_shape_def)

text \<open>
  A property of the queue that other tasks, interrupts and the lock counts respect holds through
  a round of waiting.
\<close>

definition respected :: "'k kernel \<Rightarrow> ('k qstate \<Rightarrow> bool) \<Rightarrow> bool" where
  "respected K I \<longleftrightarrow>
     (\<forall>s t. I s \<longrightarrow> others K s = Some t \<or> interrupts K s = Some t \<or> queue_same s t \<longrightarrow> I t)"

lemma respected_same: "respected K I \<Longrightarrow> I s \<Longrightarrow> queue_same s t \<Longrightarrow> I t"
  unfolding respected_def by blast

lemma respected_others: "respected K I \<Longrightarrow> I s \<Longrightarrow> others K s = Some t \<Longrightarrow> I t"
  unfolding respected_def by blast

lemma respected_interrupts: "respected K I \<Longrightarrow> I s \<Longrightarrow> interrupts K s = Some t \<Longrightarrow> I t"
  unfolding respected_def by blast

text \<open>The states a round of waiting goes through.\<close>

lemma wait_round_states:
  assumes inherit: "\<And>b s. queue_same s (snd (inherit b s))"
    and run: "wait_round K l blocked inherit inh t ticks s = Some (r, s')"
  shows "\<exists>s1 s2 s3. others K s = Some s1 \<and>
    interrupts K (prvLockQueue (on_kern (vTaskSuspendAll K) s1)) = Some s2 \<and>
    queue_same s2 s3 \<and> (others K s3 = Some s' \<or> s' = s3)"
proof -
  from run obtain s1 where s1: "others K s = Some s1"
    by (auto simp: wait_round_def Option.bind_eq_Some_conv)
  let ?l = "prvLockQueue (on_kern (vTaskSuspendAll K) s1)"
  from run s1 obtain s2 where s2: "interrupts K ?l = Some s2"
    by (auto simp: wait_round_def Option.bind_eq_Some_conv Let_def)
  obtain e t' n where time: "xTaskCheckForTimeOut (kernel_clock K (kern s2)) t ticks = (e, t', n)"
    by (cases "xTaskCheckForTimeOut (kernel_clock K (kern s2)) t ticks")
  have unlocked: "queue_same v ((prvUnlockQueue K v)\<lparr>kern := k\<rparr>)" for v k
    by (rule queue_same_trans) (rule queue_same_steps)+
  have "\<exists>s3. queue_same s2 s3 \<and> (others K s3 = Some s' \<or> s' = s3)"
  proof (cases "\<not> e \<and> blocked s2")
    case True
    obtain i' w where w: "inherit inh s2 = (i', w)" by (cases "inherit inh s2")
    let ?u = "prvUnlockQueue K (on_kern (vTaskPlaceOnEventList K l n) w)"
    obtain al k where k: "xTaskResumeAll K (kern ?u) = (al, k)"
      by (cases "xTaskResumeAll K (kern ?u)")
    let ?k = "if \<not> al then portYIELD_WITHIN_API K k else k"
    have "queue_same s2 w" using inherit [of s2 inh] by (simp add: w)
    then have "queue_same s2 (?u\<lparr>kern := ?k\<rparr>)"
      by (rule queue_same_trans) (rule queue_same_trans [OF queue_same_steps(1) unlocked])
    moreover have "others K (?u\<lparr>kern := ?k\<rparr>) = Some s'"
      using run True by (simp add: wait_round_def s1 s2 time w k Let_def Option.bind_eq_Some_conv)
    ultimately show ?thesis by blast
  next
    case False
    obtain al k where k: "xTaskResumeAll K (kern (prvUnlockQueue K s2)) = (al, k)"
      by (cases "xTaskResumeAll K (kern (prvUnlockQueue K s2))")
    have "s' = (prvUnlockQueue K s2)\<lparr>kern := k\<rparr>"
      using run False
      by (cases e) (simp_all add: wait_round_def s1 s2 time k Let_def)
    then show ?thesis using unlocked by blast
  qed
  with s1 s2 show ?thesis by blast
qed

lemma wait_round_keeps:
  assumes keeps: "respected K I" and start: "I s"
    and inherit: "\<And>b s. queue_same s (snd (inherit b s))"
    and run: "wait_round K l blocked inherit inh t ticks s = Some (r, s')"
  shows "I s'"
proof -
  from wait_round_states [OF inherit run] obtain s1 s2 s3 where
    s1: "others K s = Some s1"
    and s2: "interrupts K (prvLockQueue (on_kern (vTaskSuspendAll K) s1)) = Some s2"
    and s3: "queue_same s2 s3" and s': "others K s3 = Some s' \<or> s' = s3"
    by blast
  from keeps start s1 have "I s1" by (rule respected_others)
  moreover have "queue_same s1 (prvLockQueue (on_kern (vTaskSuspendAll K) s1))"
    by (rule queue_same_trans) (rule queue_same_steps)+
  ultimately have "I (prvLockQueue (on_kern (vTaskSuspendAll K) s1))"
    by (rule respected_same [OF keeps])
  from keeps this s2 have "I s2" by (rule respected_interrupts)
  from keeps this s3 have I3: "I s3" by (rule respected_same)
  from s' show ?thesis
  proof
    assume "others K s3 = Some s'"
    with keeps I3 show ?thesis by (rule respected_others)
  qed (use I3 in simp)
qed

end
