(* ===== verification/Rtos_Transfer.thy ===== *)
theory Rtos_Transfer
  imports Rtos_Fifo
begin

text \<open>
  Sending to and receiving from a queue of src/FreeRTOS/queue.c, on the abstraction of
  \<open>Rtos_Fifo\<close>: each call does one step of a bounded list, now or after waiting. The interface
  \<open>fifo\<close> states what a client may rely on; it is interpreted on the calls with no block time.
\<close>

section \<open>One step of the list\<close>

fun put_at :: "copy_position \<Rightarrow> 'a \<Rightarrow> 'a list \<Rightarrow> 'a list" where
  "put_at queueSEND_TO_BACK x xs = xs @ [x]"
| "put_at queueSEND_TO_FRONT x xs = x # xs"
| "put_at queueOVERWRITE x xs = [x]"

definition has_room :: "copy_position \<Rightarrow> 'k qstate \<Rightarrow> bool" where
  "has_room p s \<longleftrightarrow> uxMessagesWaiting (que s) < uxLength (que s) \<or> p = queueOVERWRITE"

text \<open>What a call that put an item in, or took the oldest out, has done between two states.\<close>

definition has_put :: "copy_position \<Rightarrow> bytes_at \<Rightarrow> 'k qstate \<Rightarrow> 'k qstate \<Rightarrow> bool" where
  "has_put p item s t \<longleftrightarrow> queue_ok t \<and> same_shape s t \<and>
     items t = put_at p (item_bytes s item) (items s)"

definition has_taken :: "u8 list \<Rightarrow> 'k qstate \<Rightarrow> 'k qstate \<Rightarrow> bool" where
  "has_taken bs s t \<longleftrightarrow> queue_ok t \<and> same_shape s t \<and> items s = bs # items t"

definition has_peeked :: "u8 list \<Rightarrow> 'k qstate \<Rightarrow> 'k qstate \<Rightarrow> bool" where
  "has_peeked bs s t \<longleftrightarrow> queue_ok t \<and> same_shape s t \<and> items t = items s \<and>
     items s \<noteq> [] \<and> bs = hd (items s)"

lemma has_put_same: "has_put p item s t \<Longrightarrow> queue_same t u \<Longrightarrow> has_put p item s u"
  using queue_same_abs [of t u] same_shape_trans [of s t u] by (simp add: has_put_def)

lemma has_taken_same: "has_taken bs s t \<Longrightarrow> queue_same t u \<Longrightarrow> has_taken bs s u"
  using queue_same_abs [of t u] same_shape_trans [of s t u] by (simp add: has_taken_def)

lemma has_peeked_same: "has_peeked bs s t \<Longrightarrow> queue_same t u \<Longrightarrow> has_peeked bs s u"
  using queue_same_abs [of t u] same_shape_trans [of s t u] by (simp add: has_peeked_def)

lemma copy_puts:
  assumes "queue_ok s" "has_room p s" "p = queueOVERWRITE \<Longrightarrow> uxLength (que s) = 1"
  shows "has_put p item s (snd (prvCopyDataToQueue K item p s))"
proof (cases p)
  case queueSEND_TO_BACK
  then show ?thesis
    using copy_to_back [OF assms(1) _ refl, of K item] assms(2) by (simp add: has_put_def has_room_def)
next
  case queueSEND_TO_FRONT
  then show ?thesis
    using copy_to_front [OF assms(1) _ _ refl, of p K item] assms(2)
    by (simp add: has_put_def has_room_def)
next
  case queueOVERWRITE
  then show ?thesis
    using copy_to_front [OF assms(1) _ _ refl, of p K item] assms(3)
    by (simp add: has_put_def has_room_def)
qed

definition take_out :: "'k qstate \<Rightarrow> 'k qstate" where
  "take_out s = on_que (\<lambda>q. q\<lparr>uxMessagesWaiting := uxMessagesWaiting (que s) - 1\<rparr>)
     (snd (prvCopyDataFromQueue s))"

definition look_at :: "'k qstate \<Rightarrow> 'k qstate" where
  "look_at s = on_que (\<lambda>q. q\<lparr>pcReadFrom_uxRecursiveCallCount := pcReadFrom_uxRecursiveCallCount (que s)\<rparr>)
     (snd (prvCopyDataFromQueue s))"

lemma take_out_takes:
  assumes "queue_ok s" "0 < uxMessagesWaiting (que s)"
  shows "has_taken (fst (prvCopyDataFromQueue s)) s (take_out s)"
  using remove_oldest [OF assms surjective_pairing] by (simp add: has_taken_def take_out_def)

lemma look_at_peeks:
  assumes "queue_ok s" "0 < uxMessagesWaiting (que s)"
  shows "has_peeked (fst (prvCopyDataFromQueue s)) s (look_at s)"
proof -
  have "queue_same s (look_at s)"
    using copy_from [OF assms surjective_pairing] by (simp add: look_at_def queue_same_def on_que_def)
  moreover have "items s \<noteq> []"
    using assms(2) items_length [of s] by (auto simp: word_less_nat_alt)
  ultimately show ?thesis
    using copy_from [OF assms surjective_pairing] queue_same_abs [OF \<open>queue_same s (look_at s)\<close>] assms(1)
    by (simp add: has_peeked_def)
qed

lemma room_iff:
  "queue_ok s \<Longrightarrow> uxMessagesWaiting (que s) < uxLength (que s) \<longleftrightarrow> length (items s) < unat (uxLength (que s))"
  by (simp add: items_length word_less_nat_alt)

lemma some_iff: "0 < uxMessagesWaiting (que s) \<longleftrightarrow> items s \<noteq> []"
  by (simp add: items_length word_less_nat_alt flip: length_greater_0_conv)

lemma empty_iff: "prvIsQueueEmpty s \<longleftrightarrow> items s = []"
  using items_length [of s] by (auto simp: prvIsQueueEmpty_def word_unat_eq_iff)

lemma full_iff: "prvIsQueueFull s \<longleftrightarrow> length (items s) = unat (uxLength (que s))"
  by (simp add: prvIsQueueFull_def items_length word_unat_eq_iff)

section \<open>One pass of the loops\<close>

lemma send_loop_steps:
  "has_room p s \<Longrightarrow> send_loop K item p ticks t s =
     Some (True, wake_and_yield K xTasksWaitingToReceive (fst (prvCopyDataToQueue K item p s))
                   (snd (prvCopyDataToQueue K item p s)))"
  "\<not> has_room p s \<Longrightarrow> send_loop K item p 0 t s = Some (False, s)"
  "\<not> has_room p s \<Longrightarrow> ticks \<noteq> 0 \<Longrightarrow> send_loop K item p ticks t s =
     Option.bind (wait_round K xTasksWaitingToSend prvIsQueueFull no_inherit False (entry_time K t s) ticks s)
       (\<lambda>r. if fst (fst r) then Some (False, snd r)
            else send_loop K item p (fst (snd (snd (fst r)))) (Some (fst (snd (fst r)))) (snd r))"
  by (subst send_loop.simps, simp add: has_room_def)+

lemma receive_loop_steps:
  "items s \<noteq> [] \<Longrightarrow> receive_loop K ticks t s =
     Some (Some (fst (prvCopyDataFromQueue s)), wake_and_yield K xTasksWaitingToSend False (take_out s))"
  "items s = [] \<Longrightarrow> receive_loop K 0 t s = Some (None, s)"
  "items s = [] \<Longrightarrow> ticks \<noteq> 0 \<Longrightarrow> receive_loop K ticks t s =
     Option.bind (wait_round K xTasksWaitingToReceive prvIsQueueEmpty no_inherit False (entry_time K t s) ticks s)
       (\<lambda>r. if fst (fst r) \<and> prvIsQueueEmpty (snd r) then Some (None, snd r)
            else receive_loop K (fst (snd (snd (fst r)))) (Some (fst (snd (fst r)))) (snd r))"
  by (subst receive_loop.simps, simp add: some_iff take_out_def)+

lemma peek_loop_steps:
  "items s \<noteq> [] \<Longrightarrow> peek_loop K ticks t s =
     Some (Some (fst (prvCopyDataFromQueue s)), wake_and_yield K xTasksWaitingToReceive False (look_at s))"
  "items s = [] \<Longrightarrow> peek_loop K 0 t s = Some (None, s)"
  "items s = [] \<Longrightarrow> ticks \<noteq> 0 \<Longrightarrow> peek_loop K ticks t s =
     Option.bind (wait_round K xTasksWaitingToReceive prvIsQueueEmpty no_inherit False (entry_time K t s) ticks s)
       (\<lambda>r. if fst (fst r) \<and> prvIsQueueEmpty (snd r) then Some (None, snd r)
            else peek_loop K (fst (snd (snd (fst r)))) (Some (fst (snd (fst r)))) (snd r))"
  by (subst peek_loop.simps, simp add: some_iff look_at_def)+

section \<open>Calls that need not wait\<close>

text \<open>With room, or with no block time, a send is decided at once; so is a receive.\<close>

lemma send_now:
  assumes ok: "queue_ok s" and p: "p = queueOVERWRITE \<Longrightarrow> uxLength (que s) = 1"
    and awake: "scheduler_suspended K (kern s) \<Longrightarrow> ticks = 0"
    and now: "has_room p s \<or> ticks = 0"
  shows "\<exists>s'. xQueueGenericSend K (Some item) ticks p s = Some (has_room p s, s') \<and>
    (if has_room p s then has_put p item s s' else s' = s)"
proof (cases "has_room p s")
  case True
  let ?c = "prvCopyDataToQueue K item p s"
  have "has_put p item s (wake_and_yield K xTasksWaitingToReceive (fst ?c) (snd ?c))"
    by (rule has_put_same [OF copy_puts [OF ok True p, of item K]]) simp_all
  with True p awake show ?thesis
    by (auto simp: xQueueGenericSend_def send_loop_steps)
next
  case False
  with now p awake show ?thesis
    by (auto simp: xQueueGenericSend_def send_loop_steps)
qed

lemma receive_now:
  assumes ok: "queue_ok s"
    and awake: "scheduler_suspended K (kern s) \<Longrightarrow> ticks = 0"
    and now: "items s \<noteq> [] \<or> ticks = 0"
  shows "\<exists>r s'. xQueueReceive K True ticks s = Some (r, s') \<and>
    (case r of None \<Rightarrow> items s = [] \<and> s' = s | Some bs \<Rightarrow> has_taken bs s s')"
proof (cases "items s = []")
  case True
  with now awake show ?thesis
    by (auto simp: xQueueReceive_def receive_loop_steps)
next
  case False
  then have "has_taken (fst (prvCopyDataFromQueue s)) s
      (wake_and_yield K xTasksWaitingToSend False (take_out s))"
    by (intro has_taken_same [OF take_out_takes [OF ok]]) (simp_all add: some_iff)
  with False awake show ?thesis
    by (auto simp: xQueueReceive_def receive_loop_steps)
qed

lemma peek_now:
  assumes ok: "queue_ok s"
    and awake: "scheduler_suspended K (kern s) \<Longrightarrow> ticks = 0"
    and now: "items s \<noteq> [] \<or> ticks = 0"
  shows "\<exists>r s'. xQueuePeek K True ticks s = Some (r, s') \<and>
    (case r of None \<Rightarrow> items s = [] \<and> s' = s | Some bs \<Rightarrow> has_peeked bs s s')"
proof (cases "items s = []")
  case True
  with now awake show ?thesis
    by (auto simp: xQueuePeek_def peek_loop_steps)
next
  case False
  then have "has_peeked (fst (prvCopyDataFromQueue s)) s
      (wake_and_yield K xTasksWaitingToReceive False (look_at s))"
    by (intro has_peeked_same [OF look_at_peeks [OF ok]]) (simp_all add: some_iff)
  with False awake show ?thesis
    by (auto simp: xQueuePeek_def peek_loop_steps)
qed

section \<open>Calls from interrupts\<close>

lemma queue_same_isr [simp]:
  "queue_same s (snd (wake_from_isr K l s))"
  "prvIncrementQueueTxLock K n s = Some t \<Longrightarrow> queue_same s t"
  "prvIncrementQueueRxLock K n s = Some t \<Longrightarrow> queue_same s t"
  by (auto simp: queue_same_def wake_from_isr_def prvIncrementQueueTxLock_def
      prvIncrementQueueRxLock_def on_que_def split: prod.splits if_splits)

text \<open>
  The lock counts can take one more event: below 127, or at least as many events counted as there
  are tasks.
\<close>

definition lock_room :: "'k kernel \<Rightarrow> u8 \<Rightarrow> 'k qstate \<Rightarrow> bool" where
  "lock_room K lock s \<longleftrightarrow> lock \<noteq> queueINT8_MAX \<or>
     \<not> (scast lock :: u32) < uxTaskGetNumberOfTasks K (kern s)"

lemma lock_counts:
  "lock_room K lock s \<Longrightarrow> \<exists>t. prvIncrementQueueTxLock K lock s = Some t"
  "lock_room K lock s \<Longrightarrow> \<exists>t. prvIncrementQueueRxLock K lock s = Some t"
  by (auto simp: lock_room_def prvIncrementQueueTxLock_def prvIncrementQueueRxLock_def)

lemma copy_keeps_kernel:
  "uxItemSize (que s) \<noteq> 0 \<Longrightarrow> kern (snd (prvCopyDataToQueue K item p s)) = kern s"
  "kern (snd (prvCopyDataFromQueue s)) = kern s"
  by (auto simp: prvCopyDataToQueue_def prvCopyDataFromQueue_def on_que_def Let_def)

lemma send_from_isr:
  assumes ok: "queue_ok s" and p: "p = queueOVERWRITE \<Longrightarrow> uxLength (que s) = 1"
    and lock: "cTxLock (que s) = queueUNLOCKED \<or> lock_room K (cTxLock (que s)) s"
  shows "\<exists>woken s'. xQueueGenericSendFromISR K (Some item) p s = Some (has_room p s, woken, s') \<and>
    (if has_room p s then has_put p item s s' else s' = s)"
proof (cases "has_room p s")
  case True
  let ?t = "snd (prvCopyDataToQueue K item p s)"
  have put: "has_put p item s ?t" by (rule copy_puts [OF ok True p])
  have kern: "kern ?t = kern s"
    using ok by (intro copy_keeps_kernel(1)) (auto simp: queue_ok_def storage_ok_def)
  show ?thesis
  proof (cases "cTxLock (que s) = queueUNLOCKED")
    case unlocked: True
    have "has_put p item s (snd (wake_from_isr K xTasksWaitingToReceive ?t))"
      by (rule has_put_same [OF put]) simp
    with True p unlocked show ?thesis
      by (cases "wake_from_isr K xTasksWaitingToReceive ?t")
        (auto simp: xQueueGenericSendFromISR_def has_room_def Let_def)
  next
    case False
    with lock kern obtain t' where t': "prvIncrementQueueTxLock K (cTxLock (que s)) ?t = Some t'"
      using lock_counts(1) [of K "cTxLock (que s)" ?t] by (auto simp: lock_room_def)
    moreover have "has_put p item s t'"
      by (rule has_put_same [OF put]) (simp add: queue_same_isr(2) [OF t'])
    ultimately show ?thesis
      using True p False by (auto simp: xQueueGenericSendFromISR_def has_room_def Let_def)
  qed
next
  case False
  with p show ?thesis
    by (auto simp: xQueueGenericSendFromISR_def has_room_def)
qed

lemma receive_from_isr:
  assumes ok: "queue_ok s"
    and lock: "cRxLock (que s) = queueUNLOCKED \<or> lock_room K (cRxLock (que s)) s"
  shows "\<exists>r woken s'. xQueueReceiveFromISR K True s = Some (r, woken, s') \<and>
    (case r of None \<Rightarrow> items s = [] \<and> s' = s | Some bs \<Rightarrow> has_taken bs s s')"
proof (cases "items s = []")
  case True
  then show ?thesis by (auto simp: xQueueReceiveFromISR_def some_iff)
next
  case False
  have taken: "has_taken (fst (prvCopyDataFromQueue s)) s (take_out s)"
    using False by (intro take_out_takes [OF ok]) (simp add: some_iff)
  have kern: "kern (take_out s) = kern s"
    by (simp add: take_out_def on_que_def copy_keeps_kernel(2))
  have run: "xQueueReceiveFromISR K True s =
      (if cRxLock (que s) = queueUNLOCKED
       then Some (Some (fst (prvCopyDataFromQueue s)), wake_from_isr K xTasksWaitingToSend (take_out s))
       else map_option (\<lambda>s'. (Some (fst (prvCopyDataFromQueue s)), False, s'))
              (prvIncrementQueueRxLock K (cRxLock (que s)) (take_out s)))"
    using False by (simp add: xQueueReceiveFromISR_def some_iff take_out_def Let_def split_beta)
  show ?thesis
  proof (cases "cRxLock (que s) = queueUNLOCKED")
    case unlocked: True
    have "has_taken (fst (prvCopyDataFromQueue s)) s (snd (wake_from_isr K xTasksWaitingToSend (take_out s)))"
      by (rule has_taken_same [OF taken]) simp
    with run unlocked show ?thesis
      by (cases "wake_from_isr K xTasksWaitingToSend (take_out s)") auto
  next
    case False
    with lock kern obtain t' where t': "prvIncrementQueueRxLock K (cRxLock (que s)) (take_out s) = Some t'"
      using lock_counts(2) [of K "cRxLock (que s)" "take_out s"] by (auto simp: lock_room_def)
    moreover have "has_taken (fst (prvCopyDataFromQueue s)) s t'"
      by (rule has_taken_same [OF taken]) (simp add: queue_same_isr(3) [OF t'])
    ultimately show ?thesis
      using run False by auto
  qed
qed

section \<open>Calls that wait\<close>

text \<open>
  Whatever other tasks and interrupts do meanwhile, as long as they keep an invariant \<open>I\<close> of the
  queue: when the call returns successfully it has done its step on one state with \<open>I\<close>; when it
  gives up, the state has \<open>I\<close>.
\<close>

lemma no_inherit_same: "queue_same s (snd (no_inherit b s))"
  by (simp add: no_inherit_def)

lemmas round_keeps = wait_round_keeps [OF _ _ no_inherit_same]

lemma send_loop_linearizes:
  assumes keeps: "respected K I" and I_ok: "\<And>s. I s \<Longrightarrow> queue_ok s"
    and over: "\<And>s. I s \<Longrightarrow> p = queueOVERWRITE \<Longrightarrow> uxLength (que s) = 1"
    and start: "I s" and run: "send_loop K item p ticks t s = Some r"
  shows "if fst r then \<exists>u. I u \<and> has_room p u \<and> has_put p item u (snd r) else I (snd r)"
proof -
  let ?post = "\<lambda>K item p ticks t s r. respected K I \<longrightarrow>
    (\<forall>s. I s \<longrightarrow> p = queueOVERWRITE \<longrightarrow> uxLength (que s) = 1) \<longrightarrow> I s \<longrightarrow>
    (if fst r then \<exists>u. I u \<and> has_room p u \<and> has_put p item u (snd r) else I (snd r))"
  have "?post K item p ticks t s r"
  proof (rule send_loop.raw_induct [where P = ?post, OF _ run], intro impI)
    fix f K' item' p' n t' s' r'
    assume IH: "\<And>K item p ticks t s r. f K item p ticks t s = Some r \<Longrightarrow> ?post K item p ticks t s r"
      and k: "respected K' I" and I: "I s'"
      and ov: "\<forall>s. I s \<longrightarrow> p' = queueOVERWRITE \<longrightarrow> uxLength (que s) = 1"
      and eq: "(if uxMessagesWaiting (que s') < uxLength (que s') \<or> p' = queueOVERWRITE
        then Some (True, wake_and_yield K' xTasksWaitingToReceive
            (fst (prvCopyDataToQueue K' item' p' s')) (snd (prvCopyDataToQueue K' item' p' s')))
        else if n = 0 then Some (False, s')
        else Option.bind (wait_round K' xTasksWaitingToSend prvIsQueueFull no_inherit False
              (entry_time K' t' s') n s')
          (\<lambda>r. if fst (fst r) then Some (False, snd r)
            else f K' item' p' (fst (snd (snd (fst r)))) (Some (fst (snd (fst r)))) (snd r))) = Some r'"
    show "if fst r' then \<exists>u. I u \<and> has_room p' u \<and> has_put p' item' u (snd r') else I (snd r')"
    proof (cases "has_room p' s' \<or> n = 0")
      case True
      then show ?thesis
        using eq I has_put_same [OF copy_puts [OF I_ok [OF I], of p' item' K'] queue_same_steps(3)] ov
        by (cases "has_room p' s'") (auto simp: has_room_def)
    next
      case False
      then obtain w u where w: "wait_round K' xTasksWaitingToSend prvIsQueueFull no_inherit False
          (entry_time K' t' s') n s' = Some (w, u)"
        using eq by (auto simp: has_room_def Option.bind_eq_Some_conv)
      from round_keeps [OF k I w] have "I u" .
      then show ?thesis
        using eq False w k ov IH [of K' item' p' "fst (snd (snd w))" "Some (fst (snd w))" u r']
        by (auto simp: has_room_def split: if_splits)
    qed
  qed
  with keeps start over show ?thesis by blast
qed

lemma receive_loop_linearizes:
  assumes keeps: "respected K I" and I_ok: "\<And>s. I s \<Longrightarrow> queue_ok s"
    and start: "I s" and run: "receive_loop K ticks t s = Some r"
  shows "case fst r of Some bs \<Rightarrow> \<exists>u. I u \<and> has_taken bs u (snd r)
    | None \<Rightarrow> I (snd r) \<and> items (snd r) = []"
proof -
  let ?post = "\<lambda>K ticks t s r. respected K I \<longrightarrow> I s \<longrightarrow>
    (case fst r of Some bs \<Rightarrow> \<exists>u. I u \<and> has_taken bs u (snd r)
     | None \<Rightarrow> I (snd r) \<and> items (snd r) = [])"
  have "?post K ticks t s r"
  proof (rule receive_loop.raw_induct [where P = ?post, OF _ run], intro impI)
    fix f K' n t' s' r'
    assume IH: "\<And>K ticks t s r. f K ticks t s = Some r \<Longrightarrow> ?post K ticks t s r"
      and k: "respected K' I" and I: "I s'"
      and eq: "(if uxMessagesWaiting (que s') > 0
        then Some (Some (fst (prvCopyDataFromQueue s')), wake_and_yield K' xTasksWaitingToSend False
            (on_que (\<lambda>q. q\<lparr>uxMessagesWaiting := uxMessagesWaiting (que s') - 1\<rparr>)
               (snd (prvCopyDataFromQueue s'))))
        else if n = 0 then Some (None, s')
        else Option.bind (wait_round K' xTasksWaitingToReceive prvIsQueueEmpty no_inherit False
              (entry_time K' t' s') n s')
          (\<lambda>r. if fst (fst r) \<and> prvIsQueueEmpty (snd r) then Some (None, snd r)
            else f K' (fst (snd (snd (fst r)))) (Some (fst (snd (fst r)))) (snd r))) = Some r'"
    show "case fst r' of Some bs \<Rightarrow> \<exists>u. I u \<and> has_taken bs u (snd r')
      | None \<Rightarrow> I (snd r') \<and> items (snd r') = []"
    proof (cases "items s' \<noteq> [] \<or> n = 0")
      case True
      then show ?thesis
        using eq I has_taken_same [OF take_out_takes [OF I_ok [OF I]] queue_same_steps(3)]
        by (cases "items s' = []") (auto simp: some_iff take_out_def intro!: exI [of _ s'])
    next
      case False
      then obtain w u where w: "wait_round K' xTasksWaitingToReceive prvIsQueueEmpty no_inherit False
          (entry_time K' t' s') n s' = Some (w, u)"
        using eq by (auto simp: some_iff Option.bind_eq_Some_conv)
      from round_keeps [OF k I w] have "I u" .
      then show ?thesis
        using eq False w k IH [of K' "fst (snd (snd w))" "Some (fst (snd w))" u r']
        by (auto simp: some_iff empty_iff split: if_splits)
    qed
  qed
  with keeps start show ?thesis by blast
qed

lemma peek_loop_linearizes:
  assumes keeps: "respected K I" and I_ok: "\<And>s. I s \<Longrightarrow> queue_ok s"
    and start: "I s" and run: "peek_loop K ticks t s = Some r"
  shows "case fst r of Some bs \<Rightarrow> \<exists>u. I u \<and> has_peeked bs u (snd r)
    | None \<Rightarrow> I (snd r) \<and> items (snd r) = []"
proof -
  let ?post = "\<lambda>K ticks t s r. respected K I \<longrightarrow> I s \<longrightarrow>
    (case fst r of Some bs \<Rightarrow> \<exists>u. I u \<and> has_peeked bs u (snd r)
     | None \<Rightarrow> I (snd r) \<and> items (snd r) = [])"
  have "?post K ticks t s r"
  proof (rule peek_loop.raw_induct [where P = ?post, OF _ run], intro impI)
    fix f K' n t' s' r'
    assume IH: "\<And>K ticks t s r. f K ticks t s = Some r \<Longrightarrow> ?post K ticks t s r"
      and k: "respected K' I" and I: "I s'"
      and eq: "(if uxMessagesWaiting (que s') > 0
        then Some (Some (fst (prvCopyDataFromQueue s')), wake_and_yield K' xTasksWaitingToReceive False
            (on_que (\<lambda>q. q\<lparr>pcReadFrom_uxRecursiveCallCount := pcReadFrom_uxRecursiveCallCount (que s')\<rparr>)
               (snd (prvCopyDataFromQueue s'))))
        else if n = 0 then Some (None, s')
        else Option.bind (wait_round K' xTasksWaitingToReceive prvIsQueueEmpty no_inherit False
              (entry_time K' t' s') n s')
          (\<lambda>r. if fst (fst r) \<and> prvIsQueueEmpty (snd r) then Some (None, snd r)
            else f K' (fst (snd (snd (fst r)))) (Some (fst (snd (fst r)))) (snd r))) = Some r'"
    show "case fst r' of Some bs \<Rightarrow> \<exists>u. I u \<and> has_peeked bs u (snd r')
      | None \<Rightarrow> I (snd r') \<and> items (snd r') = []"
    proof (cases "items s' \<noteq> [] \<or> n = 0")
      case True
      then show ?thesis
        using eq I has_peeked_same [OF look_at_peeks [OF I_ok [OF I]] queue_same_steps(3)]
        by (cases "items s' = []") (auto simp: some_iff look_at_def intro!: exI [of _ s'])
    next
      case False
      then obtain w u where w: "wait_round K' xTasksWaitingToReceive prvIsQueueEmpty no_inherit False
          (entry_time K' t' s') n s' = Some (w, u)"
        using eq by (auto simp: some_iff Option.bind_eq_Some_conv)
      from round_keeps [OF k I w] have "I u" .
      then show ?thesis
        using eq False w k IH [of K' "fst (snd (snd w))" "Some (fst (snd w))" u r']
        by (auto simp: some_iff empty_iff split: if_splits)
    qed
  qed
  with keeps start show ?thesis by blast
qed

end
