(* ===== verification/Rtos_Deadline.thy ===== *)
theory Rtos_Deadline
  imports Rtos_Transfer
begin

text \<open>
  Why a blocking call of src/FreeRTOS/queue.c with a finite block time returns: every round of its
  loop uses up some of the time that is left. The kernel is only assumed to let a waiting task run
  again and the tick count advance meanwhile.
\<close>

section \<open>Passing time\<close>

definition passes :: "nat \<Rightarrow> nat \<Rightarrow> tick_clock \<Rightarrow> tick_clock \<Rightarrow> bool" where
  "passes m n c c' \<longleftrightarrow> (\<exists>k. m \<le> k \<and> k \<le> n \<and> c' = (increment_tick ^^ k) c)"

lemma passes_refl [simp]: "passes 0 n c c"
  unfolding passes_def by (rule exI [of _ 0]) simp

lemma passes_trans:
  assumes "passes m n c d" "passes m' n' d e"
  shows "passes (m + m') (n + n') c e"
proof -
  from assms obtain k k' where "m \<le> k" "k \<le> n" "d = (increment_tick ^^ k) c"
    and "m' \<le> k'" "k' \<le> n'" "e = (increment_tick ^^ k') d"
    unfolding passes_def by blast
  then show ?thesis
    unfolding passes_def by (intro exI [of _ "k + k'"]) (simp add: funpow_add add.commute)
qed

lemma passes_mono: "passes m n c d \<Longrightarrow> m' \<le> m \<Longrightarrow> n \<le> n' \<Longrightarrow> passes m' n' c d"
  unfolding passes_def using order_trans by blast

text \<open>Some time but less than a turn of both counters: the check sees it.\<close>

lemma passes_seen:
  assumes "passes 1 n c c'" "n < 2 ^ 64"
  shows "xTickCount c' \<noteq> xTickCount c \<or> xNumOfOverflows c' \<noteq> xNumOfOverflows c"
proof (rule ccontr)
  from assms obtain k where k: "1 \<le> k" "k < 2 ^ 64" and c': "c' = (increment_tick ^^ k) c"
    unfolding passes_def by (auto intro: le_less_trans)
  assume "\<not> ?thesis"
  then have "ticks_since_start c' = ticks_since_start c"
    by (simp add: ticks_since_start_def)
  moreover have "ticks_since_start c < 2 ^ 64"
    using u32_bound [of "xTickCount c"] u32_bound [of "xNumOfOverflows c"]
    by (simp add: ticks_since_start_def)
  ultimately have "(ticks_since_start c + k) mod 2 ^ 64 = (ticks_since_start c + 0) mod 2 ^ 64"
    using ticks_elapsed [of k c] by (simp add: c')
  then show False
    using mod_shift_inj [of "ticks_since_start c" k "2 ^ 64" 0] k by simp
qed

lemma check_progress:
  assumes time: "passes 1 n c c'" "n < 2 ^ 64" and finite: "ticks \<noteq> 0xFFFFFFFF"
    and check: "xTaskCheckForTimeOut c' (vTaskInternalSetTimeOutState c) ticks = (e, t', left)"
  shows "if e then left = 0 else left < ticks \<and> t' = vTaskInternalSetTimeOutState c'"
proof -
  let ?d = "xTickCount c' - xTickCount c"
  have "ticks - ?d < ticks" if "?d < ticks" "?d \<noteq> 0"
  proof -
    have "0 < unat ?d" using that(2) by (simp add: unat_gt_0)
    with that(1) show ?thesis by (simp add: word_less_nat_alt unat_sub word_le_nat_alt)
  qed
  moreover have "?d = 0 \<Longrightarrow> xNumOfOverflows c' \<noteq> xNumOfOverflows c \<and> xTickCount c' \<ge> xTickCount c"
    using passes_seen [OF time] by simp
  ultimately show ?thesis
    using check finite
    by (auto simp: xTaskCheckForTimeOut_def vTaskInternalSetTimeOutState_def Let_def split: if_splits)
qed

section \<open>A kernel that lets time pass\<close>

text \<open>
  A task that leaves a critical section runs again, at least one and at most \<open>2 ^ 40\<close> ticks later;
  interrupts end; the calls below do not turn the clock back.
\<close>

definition timely :: "'k kernel \<Rightarrow> bool" where
  "timely K \<longleftrightarrow>
     (\<forall>s. \<exists>t. others K s = Some t \<and> passes 1 (2 ^ 40) (kernel_clock K (kern s)) (kernel_clock K (kern t))) \<and>
     (\<forall>s. \<exists>t. interrupts K s = Some t \<and>
        passes 0 (2 ^ 40) (kernel_clock K (kern s)) (kernel_clock K (kern t))) \<and>
     (\<forall>k. passes 0 (2 ^ 40) (kernel_clock K k) (kernel_clock K (snd (xTaskResumeAll K k)))) \<and>
     (\<forall>k. kernel_clock K (vTaskSuspendAll K k) = kernel_clock K k) \<and>
     (\<forall>l n k. kernel_clock K (vTaskPlaceOnEventList K l n k) = kernel_clock K k) \<and>
     (\<forall>l k. kernel_clock K (snd (xTaskRemoveFromEventList K l k)) = kernel_clock K k) \<and>
     (\<forall>k. kernel_clock K (portYIELD_WITHIN_API K k) = kernel_clock K k) \<and>
     (\<forall>k. kernel_clock K (vTaskMissedYield K k) = kernel_clock K k)"

lemma timelyD:
  assumes "timely K"
  shows "\<exists>t. others K s = Some t \<and> passes 1 (2 ^ 40) (kernel_clock K (kern s)) (kernel_clock K (kern t))"
    "\<exists>t. interrupts K s = Some t \<and> passes 0 (2 ^ 40) (kernel_clock K (kern s)) (kernel_clock K (kern t))"
    "passes 0 (2 ^ 40) (kernel_clock K k) (kernel_clock K (snd (xTaskResumeAll K k)))"
    "kernel_clock K (vTaskSuspendAll K k) = kernel_clock K k"
    "kernel_clock K (vTaskPlaceOnEventList K l n k) = kernel_clock K k"
    "kernel_clock K (snd (xTaskRemoveFromEventList K l k)) = kernel_clock K k"
    "kernel_clock K (portYIELD_WITHIN_API K k) = kernel_clock K k"
    "kernel_clock K (vTaskMissedYield K k) = kernel_clock K k"
  using assms unfolding timely_def by blast+

lemma unlock_wake_clock: "timely K \<Longrightarrow> kernel_clock K (unlock_wake K l n k) = kernel_clock K k"
proof (induction n arbitrary: k)
  case (Suc n)
  then show ?case
    using timelyD(6) [OF Suc.prems, of l k]
    by (cases "xTaskRemoveFromEventList K l k") (simp add: timelyD(8))
qed simp

lemma unlock_clock: "timely K \<Longrightarrow> kernel_clock K (kern (prvUnlockQueue K s)) = kernel_clock K (kern s)"
  by (simp add: prvUnlockQueue_def on_kern_def on_que_def Let_def unlock_wake_clock)

lemma lock_clock: "kern (prvLockQueue s) = kern s"
  by (simp add: prvLockQueue_def on_que_def Let_def)

text \<open>The timeout structure was set at \<open>c\<close>, at most \<open>2 ^ 44\<close> ticks ago.\<close>

definition set_recently :: "'k kernel \<Rightarrow> time_out \<Rightarrow> 'k qstate \<Rightarrow> bool" where
  "set_recently K t s \<longleftrightarrow>
     (\<exists>c. t = vTaskInternalSetTimeOutState c \<and> passes 0 (2 ^ 44) c (kernel_clock K (kern s)))"

lemma wait_round_progress:
  assumes K: "timely K" and finite: "ticks \<noteq> 0xFFFFFFFF" and recent: "set_recently K t s"
    and inherit: "\<And>b s. kernel_clock K (kern (snd (inherit b s))) = kernel_clock K (kern s)"
  shows "\<exists>e t' left i s'. wait_round K l blocked inherit inh t ticks s = Some ((e, t', left, i), s') \<and>
    (if e then left = 0 else left < ticks \<and> set_recently K t' s')"
proof -
  let ?C = "\<lambda>s. kernel_clock K (kern s)"
  from recent obtain c where t: "t = vTaskInternalSetTimeOutState c" and c: "passes 0 (2 ^ 44) c (?C s)"
    unfolding set_recently_def by blast
  from timelyD(1) [OF K] obtain s1 where s1: "others K s = Some s1" "passes 1 (2 ^ 40) (?C s) (?C s1)"
    by blast
  let ?l = "prvLockQueue (on_kern (vTaskSuspendAll K) s1)"
  from timelyD(2) [OF K] obtain s2 where s2: "interrupts K ?l = Some s2" "passes 0 (2 ^ 40) (?C ?l) (?C s2)"
    by blast
  have "?C ?l = ?C s1" by (simp add: lock_clock on_kern_def timelyD(4) [OF K])
  with passes_trans [OF passes_trans [OF c s1(2)]] s2(2)
  have since: "passes 1 (2 ^ 44 + 2 ^ 40 + 2 ^ 40) c (?C s2)" by fastforce
  obtain e t' left where check: "xTaskCheckForTimeOut (?C s2) t ticks = (e, t', left)"
    by (cases "xTaskCheckForTimeOut (?C s2) t ticks")
  from check_progress [OF since _ finite check [unfolded t]]
  have progress: "if e then left = 0 else left < ticks \<and> t' = vTaskInternalSetTimeOutState (?C s2)"
    by simp
  have resumed: "passes 0 (2 ^ 40) (?C v) (kernel_clock K (snd (xTaskResumeAll K (kern (prvUnlockQueue K v)))))" for v
    using timelyD(3) [OF K, of "kern (prvUnlockQueue K v)"] by (simp add: unlock_clock [OF K])
  show ?thesis
  proof (cases "\<not> e \<and> blocked s2")
    case True
    let ?w = "on_kern (vTaskPlaceOnEventList K l left) (snd (inherit inh s2))"
    let ?u = "prvUnlockQueue K ?w"
    let ?r = "xTaskResumeAll K (kern ?u)"
    let ?v = "?u\<lparr>kern := (if \<not> fst ?r then portYIELD_WITHIN_API K (snd ?r) else snd ?r)\<rparr>"
    have "?C ?w = ?C s2" by (simp add: on_kern_def timelyD(5) [OF K] inherit)
    then have v: "passes 0 (2 ^ 40) (?C s2) (?C ?v)"
      using resumed [of ?w] by (simp add: timelyD(7) [OF K])
    from timelyD(1) [OF K] obtain s' where s': "others K ?v = Some s'" "passes 1 (2 ^ 40) (?C ?v) (?C s')"
      by blast
    have "passes 0 (2 ^ 44) (?C s2) (?C s')"
      by (rule passes_mono [OF passes_trans [OF v s'(2)]]) simp_all
    then show ?thesis
      using True progress s'(1) unfolding wait_round_def set_recently_def
      by (auto simp: s1(1) s2(1) check Let_def split_beta)
  next
    case False
    let ?s' = "(prvUnlockQueue K s2)\<lparr>kern := snd (xTaskResumeAll K (kern (prvUnlockQueue K s2)))\<rparr>"
    have "passes 0 (2 ^ 44) (?C s2) (?C ?s')"
      using passes_mono [OF resumed [of s2]] by simp
    then have "\<not> e \<Longrightarrow> set_recently K t' ?s'"
      using progress unfolding set_recently_def by auto
    moreover have "wait_round K l blocked inherit inh t ticks s = Some ((e, t', left, inh), ?s')"
      using False by (cases e) (simp_all add: wait_round_def s1(1) s2(1) check Let_def split_beta)
    ultimately show ?thesis using progress by auto
  qed
qed

lemma entry_recent:
  "(\<And>x. t = Some x \<Longrightarrow> set_recently K x s) \<Longrightarrow> set_recently K (entry_time K t s) s"
  by (cases t) (auto simp: entry_time_def set_recently_def intro!: exI [of _ "kernel_clock K (kern s)"])

lemma no_inherit_clock:
  "kernel_clock K (kern (snd (no_inherit b s))) = kernel_clock K (kern s)"
  by (simp add: no_inherit_def)

lemmas round_progress = wait_round_progress [where inherit = no_inherit, OF _ _ _ no_inherit_clock]

section \<open>The calls return\<close>

lemma send_loop_returns:
  assumes K: "timely K" and "ticks \<noteq> 0xFFFFFFFF" and "\<And>x. t = Some x \<Longrightarrow> set_recently K x s"
  shows "\<exists>r. send_loop K item p ticks t s = Some r"
  using assms(2,3)
proof (induction "unat ticks" arbitrary: ticks t s rule: less_induct)
  case less
  show ?case
  proof (cases "has_room p s \<or> ticks = 0")
    case False
    have "set_recently K (entry_time K t s) s" by (rule entry_recent) (rule less.prems(2))
    from round_progress [OF K less.prems(1) this]
    obtain e t' left i s' where
      w: "wait_round K xTasksWaitingToSend prvIsQueueFull no_inherit False (entry_time K t s) ticks s =
          Some ((e, t', left, i), s')"
      and p: "if e then left = 0 else left < ticks \<and> set_recently K t' s'"
      by blast
    show ?thesis
    proof (cases e)
      case going: False
      with p have "unat left < unat ticks" "left \<noteq> 0xFFFFFFFF"
        using u32_bound [of ticks] by (auto simp: word_less_nat_alt)
      with less.hyps [of left "Some t'" s'] p going show ?thesis
        using False by (simp add: send_loop_steps(3) w)
    qed (use False in \<open>auto simp: send_loop_steps(3) w\<close>)
  qed (cases "has_room p s"; auto simp: send_loop_steps(1,2))
qed

lemma receive_loop_returns:
  assumes K: "timely K" and "ticks \<noteq> 0xFFFFFFFF" and "\<And>x. t = Some x \<Longrightarrow> set_recently K x s"
  shows "\<exists>r. receive_loop K ticks t s = Some r"
  using assms(2,3)
proof (induction "unat ticks" arbitrary: ticks t s rule: less_induct)
  case less
  show ?case
  proof (cases "items s \<noteq> [] \<or> ticks = 0")
    case False
    have "set_recently K (entry_time K t s) s" by (rule entry_recent) (rule less.prems(2))
    from round_progress [OF K less.prems(1) this]
    obtain e t' left i s' where
      w: "wait_round K xTasksWaitingToReceive prvIsQueueEmpty no_inherit False (entry_time K t s) ticks s =
          Some ((e, t', left, i), s')"
      and p: "if e then left = 0 else left < ticks \<and> set_recently K t' s'"
      by blast
    show ?thesis
    proof (cases e)
      case True
      with p False show ?thesis
        by (cases "items s' = []") (simp_all add: receive_loop_steps(1,3) w empty_iff)
    next
      case going: False
      with p have "unat left < unat ticks" "left \<noteq> 0xFFFFFFFF"
        using u32_bound [of ticks] by (auto simp: word_less_nat_alt)
      with less.hyps [of left "Some t'" s'] p going show ?thesis
        using False by (simp add: receive_loop_steps(3) w)
    qed
  qed (cases "items s = []"; auto simp: receive_loop_steps(1,2))
qed

lemma peek_loop_returns:
  assumes K: "timely K" and "ticks \<noteq> 0xFFFFFFFF" and "\<And>x. t = Some x \<Longrightarrow> set_recently K x s"
  shows "\<exists>r. peek_loop K ticks t s = Some r"
  using assms(2,3)
proof (induction "unat ticks" arbitrary: ticks t s rule: less_induct)
  case less
  show ?case
  proof (cases "items s \<noteq> [] \<or> ticks = 0")
    case False
    have "set_recently K (entry_time K t s) s" by (rule entry_recent) (rule less.prems(2))
    from round_progress [OF K less.prems(1) this]
    obtain e t' left i s' where
      w: "wait_round K xTasksWaitingToReceive prvIsQueueEmpty no_inherit False (entry_time K t s) ticks s =
          Some ((e, t', left, i), s')"
      and p: "if e then left = 0 else left < ticks \<and> set_recently K t' s'"
      by blast
    show ?thesis
    proof (cases e)
      case True
      with p False show ?thesis
        by (cases "items s' = []") (simp_all add: peek_loop_steps(1,3) w empty_iff)
    next
      case going: False
      with p have "unat left < unat ticks" "left \<noteq> 0xFFFFFFFF"
        using u32_bound [of ticks] by (auto simp: word_less_nat_alt)
      with less.hyps [of left "Some t'" s'] p going show ?thesis
        using False by (simp add: peek_loop_steps(3) w)
    qed
  qed (cases "items s = []"; auto simp: peek_loop_steps(1,2))
qed

end
