(* ===== verification/Fifo_Interface.thy ===== *)
theory Fifo_Interface
  imports Prelude
begin

text \<open>
  What a client of a bounded message queue relies on, whatever provides it: \<open>put\<close> appends when there
  is room and says whether it did, \<open>get\<close> takes the oldest message if there is one. The queue calls
  of FreeRTOS provide it, and the mailboxes of sys_arch.c, which are built on them, provide it again.
\<close>

text \<open>A client's run: \<open>Some i\<close> puts \<open>i\<close>, \<open>None\<close> gets. It returns what was accepted and what came out.\<close>

fun client_run ::
  "('i \<Rightarrow> 's \<Rightarrow> (bool \<times> 's) option) \<Rightarrow> ('s \<Rightarrow> ('e option \<times> 's) option) \<Rightarrow> 'i option list \<Rightarrow> 's \<Rightarrow>
   ('i list \<times> 'e list \<times> 's) option" where
  "client_run put get [] s = Some ([], [], s)"
| "client_run put get (Some i # cs) s = do {
     (accepted, s) \<leftarrow> put i s;
     (sent, got, s) \<leftarrow> client_run put get cs s;
     Some (if accepted then i # sent else sent, got, s)
   }"
| "client_run put get (None # cs) s = do {
     (e, s) \<leftarrow> get s;
     (sent, got, s) \<leftarrow> client_run put get cs s;
     Some (sent, (case e of None \<Rightarrow> got | Some e \<Rightarrow> e # got), s)
   }"

locale fifo =
  fixes put :: "'i \<Rightarrow> 's \<Rightarrow> (bool \<times> 's) option"
    and get :: "'s \<Rightarrow> ('e option \<times> 's) option"
    and ok :: "'s \<Rightarrow> bool"
    and contents :: "'s \<Rightarrow> 'e list"
    and capacity :: "'s \<Rightarrow> nat"
    and message :: "'s \<Rightarrow> 'i \<Rightarrow> 'e"
  assumes put_law: "ok s \<Longrightarrow> \<exists>s'. put i s = Some (length (contents s) < capacity s, s') \<and> ok s' \<and>
      capacity s' = capacity s \<and> message s' = message s \<and>
      contents s' = (if length (contents s) < capacity s then contents s @ [message s i] else contents s)"
    and get_law: "ok s \<Longrightarrow> \<exists>e s'. get s = Some (e, s') \<and> ok s' \<and> capacity s' = capacity s \<and>
      message s' = message s \<and>
      (case e of None \<Rightarrow> contents s = [] \<and> contents s' = [] | Some e \<Rightarrow> contents s = e # contents s')"
begin

text \<open>First in, first out: nothing is lost, duplicated or reordered.\<close>

lemma run_in_order:
  "ok s \<Longrightarrow> \<exists>sent got s'. client_run put get cs s = Some (sent, got, s') \<and> ok s' \<and>
     message s' = message s \<and> capacity s' = capacity s \<and>
     contents s @ map (message s) sent = got @ contents s'"
proof (induction cs arbitrary: s)
  case (Cons c cs)
  show ?case
  proof (cases c)
    case None
    from get_law [OF Cons.prems] obtain e t where t: "get s = Some (e, t)" "ok t"
      "capacity t = capacity s" "message t = message s"
      "case e of None \<Rightarrow> contents s = [] \<and> contents t = [] | Some e \<Rightarrow> contents s = e # contents t"
      by blast
    from Cons.IH [OF t(2)] t None show ?thesis by (cases e) auto
  next
    case (Some i)
    from put_law [OF Cons.prems, of i] obtain t where
      t: "put i s = Some (length (contents s) < capacity s, t)" "ok t"
      "capacity t = capacity s" "message t = message s"
      "contents t = (if length (contents s) < capacity s then contents s @ [message s i] else contents s)"
      by blast
    from Cons.IH [OF t(2)] t Some show ?thesis by (cases "length (contents s) < capacity s") auto
  qed
qed simp

lemma run_within_capacity:
  assumes "ok s" "length (contents s) \<le> capacity s" "client_run put get cs s = Some (sent, got, s')"
  shows "length (contents s') \<le> capacity s'"
  using assms
proof (induction cs arbitrary: s sent got)
  case (Cons c cs)
  show ?case
  proof (cases c)
    case None
    from get_law [OF Cons.prems(1)] obtain e t where t: "get s = Some (e, t)" "ok t"
      "capacity t = capacity s"
      "case e of None \<Rightarrow> contents s = [] \<and> contents t = [] | Some e \<Rightarrow> contents s = e # contents t"
      by blast
    then have "length (contents t) \<le> capacity t"
      using Cons.prems(2) by (cases e) simp_all
    with Cons.IH [OF t(2)] Cons.prems(3) t(1) None show ?thesis
      by (auto simp: Option.bind_eq_Some_conv)
  next
    case (Some i)
    from put_law [OF Cons.prems(1), of i] obtain t where
      t: "put i s = Some (length (contents s) < capacity s, t)" "ok t" "capacity t = capacity s"
      "contents t = (if length (contents s) < capacity s then contents s @ [message s i] else contents s)"
      by blast
    then have "length (contents t) \<le> capacity t"
      using Cons.prems(2) by (cases "length (contents s) < capacity s") simp_all
    with Cons.IH [OF t(2)] Cons.prems(3) t(1) Some show ?thesis
      by (auto simp: Option.bind_eq_Some_conv)
  qed
qed simp

text \<open>A put that is accepted is got back after everything that was there before it.\<close>

lemma got_prefix:
  assumes "ok s" "client_run put get cs s = Some (sent, got, s')" "length got \<le> length (contents s)"
  shows "got = take (length got) (contents s)"
proof -
  from run_in_order [OF assms(1), of cs] assms(2)
  have "contents s @ map (message s) sent = got @ contents s'" by auto
  then have "take (length got) (contents s @ map (message s) sent) = got" by simp
  with assms(3) show ?thesis by simp
qed

end

end
