(* ===== verification/Rtos_Queue_Properties.thy ===== *)
theory Rtos_Queue_Properties
  imports Rtos_Deadline Fifo_Interface
begin

text \<open>
  What src/FreeRTOS/queue.c promises to the tasks and interrupts that use a queue.
\<close>

section \<open>The calls without block time are a bounded list\<close>

lemma items_same_shape:
  "same_shape s t \<Longrightarrow> uxLength (que t) = uxLength (que s) \<and> item_bytes t = item_bytes s"
  by (simp add: same_shape_def item_bytes_def fun_eq_iff)

interpretation task_queue: fifo "\<lambda>i. xQueueGenericSend K (Some i) 0 queueSEND_TO_BACK"
  "xQueueReceive K True 0" queue_ok items "\<lambda>s. unat (uxLength (que s))" item_bytes for K
proof (unfold_locales, goal_cases)
  case (1 s i)
  then show ?case
    using send_now [OF 1, of queueSEND_TO_BACK K 0 i] room_iff [OF 1]
    by (fastforce simp: has_room_def has_put_def dest: items_same_shape)
next
  case (2 s)
  then show ?case
    using receive_now [OF 2, of K 0]
    by (fastforce simp: has_taken_def dest: items_same_shape split: option.splits)
qed

text \<open>The same for interrupts, on a queue that no task has locked.\<close>

definition unlocked :: "'k qstate \<Rightarrow> bool" where
  "unlocked s \<longleftrightarrow> cRxLock (que s) = queueUNLOCKED \<and> cTxLock (que s) = queueUNLOCKED"

definition same_locks :: "'k qstate \<Rightarrow> 'k qstate \<Rightarrow> bool" where
  "same_locks s t \<longleftrightarrow> cRxLock (que t) = cRxLock (que s) \<and> cTxLock (que t) = cTxLock (que s)"

lemma same_locks_trans: "same_locks s t \<Longrightarrow> same_locks t u \<Longrightarrow> same_locks s u"
  by (simp add: same_locks_def)

lemma same_locks_unlocked: "same_locks s t \<Longrightarrow> unlocked s \<Longrightarrow> unlocked t"
  by (simp add: same_locks_def unlocked_def)

lemma same_locks_steps [simp]:
  "same_locks s s" "same_locks s (wake_and_yield K l b s)" "same_locks s (snd (wake_from_isr K l s))"
  "same_locks s (snd (prvCopyDataToQueue K item p s))" "same_locks s (snd (prvCopyDataFromQueue s))"
  "same_locks s (take_out s)" "same_locks s (look_at s)" "same_locks s (on_kern f s)"
  by (auto simp: same_locks_def wake_and_yield_def on_kern_def wake_from_isr_def prvCopyDataToQueue_def
      prvCopyDataFromQueue_def take_out_def look_at_def on_que_def Let_def split: prod.split)

lemma send_locks:
  "xQueueGenericSend K (Some item) 0 p s = Some (r, s') \<Longrightarrow> same_locks s s'"
  using same_locks_trans [OF same_locks_steps(4) same_locks_steps(2)]
  by (cases "has_room p s") (auto simp: xQueueGenericSend_def send_loop_steps split: if_splits)

lemma receive_locks: "xQueueReceive K True 0 s = Some (r, s') \<Longrightarrow> same_locks s s'"
  using same_locks_trans [OF same_locks_steps(6) same_locks_steps(2)]
  by (cases "items s = []") (auto simp: xQueueReceive_def receive_loop_steps split: if_splits)

lemma peek_locks: "xQueuePeek K True 0 s = Some (r, s') \<Longrightarrow> same_locks s s'"
  using same_locks_trans [OF same_locks_steps(7) same_locks_steps(2)]
  by (cases "items s = []") (auto simp: xQueuePeek_def peek_loop_steps split: if_splits)

lemma isr_send_locks:
  assumes "unlocked s" "xQueueGenericSendFromISR K (Some item) p s = Some (r, w, s')"
  shows "same_locks s s'"
  using assms same_locks_trans [OF same_locks_steps(4) same_locks_steps(3), of s]
  unfolding xQueueGenericSendFromISR_def unlocked_def Let_def
  by (auto split: if_splits prod.splits) (metis snd_conv)+

lemma isr_receive_locks:
  assumes "unlocked s" "xQueueReceiveFromISR K True s = Some (r, w, s')"
  shows "same_locks s s'"
  using assms same_locks_trans [OF same_locks_steps(6) same_locks_steps(3), of s]
  unfolding xQueueReceiveFromISR_def unlocked_def Let_def take_out_def
  by (auto simp: split_beta split: if_splits) (metis snd_conv)+

lemma peek_from_isr:
  assumes ok: "queue_ok s"
  shows "\<exists>r s'. xQueuePeekFromISR True s = Some (r, s') \<and> same_locks s s' \<and>
    (case r of None \<Rightarrow> items s = [] \<and> s' = s | Some bs \<Rightarrow> has_peeked bs s s')"
proof -
  have z: "uxItemSize (que s) \<noteq> 0" using ok by (auto simp: queue_ok_def storage_ok_def)
  show ?thesis
  proof (cases "items s = []")
    case True
    then show ?thesis using z by (auto simp: xQueuePeekFromISR_def some_iff)
  next
    case False
    then have "xQueuePeekFromISR True s = Some (Some (fst (prvCopyDataFromQueue s)), look_at s)"
      using z by (simp add: xQueuePeekFromISR_def some_iff look_at_def Let_def split_beta)
    with look_at_peeks [OF ok] False show ?thesis by (simp add: some_iff)
  qed
qed

text \<open>All calls on a queue that return at once, their results, and the same on a list.\<close>

datatype queue_call = Send bytes_at copy_position | SendFromISR bytes_at copy_position
  | Receive | ReceiveFromISR | Peek | PeekFromISR

datatype outcome = Sent bool | Got "u8 list option"

fun make_call :: "'k kernel \<Rightarrow> queue_call \<Rightarrow> 'k qstate \<Rightarrow> (outcome \<times> 'k qstate) option" where
  "make_call K (Send item p) s =
     map_option (\<lambda>(r, s). (Sent r, s)) (xQueueGenericSend K (Some item) 0 p s)"
| "make_call K (SendFromISR item p) s =
     map_option (\<lambda>(r, _, s). (Sent r, s)) (xQueueGenericSendFromISR K (Some item) p s)"
| "make_call K Receive s = map_option (\<lambda>(r, s). (Got r, s)) (xQueueReceive K True 0 s)"
| "make_call K ReceiveFromISR s =
     map_option (\<lambda>(r, _, s). (Got r, s)) (xQueueReceiveFromISR K True s)"
| "make_call K Peek s = map_option (\<lambda>(r, s). (Got r, s)) (xQueuePeek K True 0 s)"
| "make_call K PeekFromISR s = map_option (\<lambda>(r, s). (Got r, s)) (xQueuePeekFromISR True s)"

definition list_put :: "nat \<Rightarrow> nat \<Rightarrow> bytes_at \<Rightarrow> copy_position \<Rightarrow> u8 list list \<Rightarrow> outcome \<times> u8 list list" where
  "list_put cap width item p xs =
     (if length xs < cap \<or> p = queueOVERWRITE then (Sent True, put_at p (map item [0..<width]) xs)
      else (Sent False, xs))"

definition list_get :: "u8 list list \<Rightarrow> outcome \<times> u8 list list" where
  "list_get xs = (case xs of [] \<Rightarrow> (Got None, []) | x # xs \<Rightarrow> (Got (Some x), xs))"

definition list_peek :: "u8 list list \<Rightarrow> outcome \<times> u8 list list" where
  "list_peek xs = (Got (case xs of [] \<Rightarrow> None | x # xs \<Rightarrow> Some x), xs)"

fun list_call :: "nat \<Rightarrow> nat \<Rightarrow> queue_call \<Rightarrow> u8 list list \<Rightarrow> outcome \<times> u8 list list" where
  "list_call cap width (Send item p) xs = list_put cap width item p xs"
| "list_call cap width (SendFromISR item p) xs = list_put cap width item p xs"
| "list_call cap width Receive xs = list_get xs"
| "list_call cap width ReceiveFromISR xs = list_get xs"
| "list_call cap width Peek xs = list_peek xs"
| "list_call cap width PeekFromISR xs = list_peek xs"

fun queue_calls :: "'k kernel \<Rightarrow> queue_call list \<Rightarrow> 'k qstate \<Rightarrow> (outcome list \<times> 'k qstate) option" where
  "queue_calls K [] s = Some ([], s)"
| "queue_calls K (c # cs) s = do {
     (r, s) \<leftarrow> make_call K c s;
     (rs, s) \<leftarrow> queue_calls K cs s;
     Some (r # rs, s)
   }"

fun list_calls :: "nat \<Rightarrow> nat \<Rightarrow> queue_call list \<Rightarrow> u8 list list \<Rightarrow> outcome list \<times> u8 list list" where
  "list_calls cap width [] xs = ([], xs)"
| "list_calls cap width (c # cs) xs =
     (let (r, xs) = list_call cap width c xs; (rs, xs) = list_calls cap width cs xs in (r # rs, xs))"

text \<open>An overwriting send is only made on a queue of length 1, as the code asserts.\<close>

fun call_allowed :: "'k qstate \<Rightarrow> queue_call \<Rightarrow> bool" where
  "call_allowed s (Send item p) \<longleftrightarrow> p = queueOVERWRITE \<longrightarrow> uxLength (que s) = 1"
| "call_allowed s (SendFromISR item p) \<longleftrightarrow> p = queueOVERWRITE \<longrightarrow> uxLength (que s) = 1"
| "call_allowed s _ \<longleftrightarrow> True"

definition simulates :: "queue_call \<Rightarrow> 'k qstate \<Rightarrow> outcome \<Rightarrow> 'k qstate \<Rightarrow> bool" where
  "simulates c s r s' \<longleftrightarrow> queue_ok s' \<and> unlocked s' \<and> same_shape s s' \<and>
     list_call (unat (uxLength (que s))) (unat (uxItemSize (que s))) c (items s) = (r, items s')"

lemma simulates_send:
  assumes "queue_ok s" "unlocked s'" "c = Send item p \<or> c = SendFromISR item p"
    and "if has_room p s then has_put p item s s' else s' = s"
  shows "simulates c s (Sent (has_room p s)) s'"
  using assms room_iff [OF assms(1)]
  by (auto simp: simulates_def list_put_def has_room_def has_put_def item_bytes_def same_shape_def
      split: if_splits)

lemma simulates_receive:
  assumes "queue_ok s" "unlocked s'" "c = Receive \<or> c = ReceiveFromISR"
    and "case r of None \<Rightarrow> items s = [] \<and> s' = s | Some bs \<Rightarrow> has_taken bs s s'"
  shows "simulates c s (Got r) s'"
  using assms
  by (auto simp: simulates_def list_get_def has_taken_def same_shape_def split: option.splits)

lemma simulates_peek:
  assumes "queue_ok s" "unlocked s'" "c = Peek \<or> c = PeekFromISR"
    and "case r of None \<Rightarrow> items s = [] \<and> s' = s | Some bs \<Rightarrow> has_peeked bs s s'"
  shows "simulates c s (Got r) s'"
  using assms
  by (auto simp: simulates_def list_peek_def has_peeked_def same_shape_def neq_Nil_conv split: option.splits)

lemma call_simulates:
  assumes ok: "queue_ok s" and un: "unlocked s" and allowed: "call_allowed s c"
  shows "\<exists>r s'. make_call K c s = Some (r, s') \<and> simulates c s r s'"
proof (cases c)
  case (Send item p)
  with send_now [OF ok, of p K 0 item] allowed obtain s' where
    "xQueueGenericSend K (Some item) 0 p s = Some (has_room p s, s')"
    "if has_room p s then has_put p item s s' else s' = s" by auto
  with simulates_send [OF ok _ _ this(2), of c] send_locks [OF this(1)] Send show ?thesis
    using same_locks_unlocked un by auto
next
  case (SendFromISR item p)
  with send_from_isr [OF ok, of p K item] allowed un obtain w s' where
    "xQueueGenericSendFromISR K (Some item) p s = Some (has_room p s, w, s')"
    "if has_room p s then has_put p item s s' else s' = s" by (auto simp: unlocked_def)
  with simulates_send [OF ok _ _ this(2), of c] isr_send_locks [OF un this(1)] SendFromISR show ?thesis
    using same_locks_unlocked un by auto
next
  case Receive
  with receive_now [OF ok, of K 0] obtain r s' where
    "xQueueReceive K True 0 s = Some (r, s')"
    "case r of None \<Rightarrow> items s = [] \<and> s' = s | Some bs \<Rightarrow> has_taken bs s s'" by auto
  with simulates_receive [OF ok _ _ this(2), of c] receive_locks [OF this(1)] Receive show ?thesis
    using same_locks_unlocked un by auto
next
  case ReceiveFromISR
  with receive_from_isr [OF ok, of K] un obtain r w s' where
    "xQueueReceiveFromISR K True s = Some (r, w, s')"
    "case r of None \<Rightarrow> items s = [] \<and> s' = s | Some bs \<Rightarrow> has_taken bs s s'" by (auto simp: unlocked_def)
  with simulates_receive [OF ok _ _ this(2), of c] isr_receive_locks [OF un this(1)] ReceiveFromISR
  show ?thesis using same_locks_unlocked un by auto
next
  case Peek
  with peek_now [OF ok, of K 0] obtain r s' where
    "xQueuePeek K True 0 s = Some (r, s')"
    "case r of None \<Rightarrow> items s = [] \<and> s' = s | Some bs \<Rightarrow> has_peeked bs s s'" by auto
  with simulates_peek [OF ok _ _ this(2), of c] peek_locks [OF this(1)] Peek show ?thesis
    using same_locks_unlocked un by auto
next
  case PeekFromISR
  with peek_from_isr [OF ok] obtain r s' where
    call: "xQueuePeekFromISR True s = Some (r, s')" "same_locks s s'"
    "case r of None \<Rightarrow> items s = [] \<and> s' = s | Some bs \<Rightarrow> has_peeked bs s s'" by auto
  from simulates_peek [OF ok same_locks_unlocked [OF call(2) un] _ call(3), of c] PeekFromISR
  show ?thesis using call(1) by auto
qed

lemma call_allowed_shape: "same_shape s t \<Longrightarrow> call_allowed t c = call_allowed s c"
  by (cases c) (simp_all add: same_shape_def)

text \<open>A queue of two 2-byte items at address 0x1000, empty, in a kernel where nothing happens.\<close>

definition example_queue :: "u32 \<Rightarrow> tick_clock qstate" where
  "example_queue len = \<lparr>que = \<lparr>pcHead = 0x1000, pcWriteTo = 0x1000, pcTail_xMutexHolder = 0x1000 + 2 * len,
     pcReadFrom_uxRecursiveCallCount = 0x1000 + 2 * (len - 1), uxMessagesWaiting = 0, uxLength = len,
     uxItemSize = 2, cRxLock = 0xFF, cTxLock = 0xFF\<rparr>, memory = (\<lambda>_. 0),
     kern = \<lparr>xTickCount = 0, xNumOfOverflows = 0\<rparr>\<rparr>"

text \<open>
  A kernel in which nobody else touches the queue: whenever the task gives up the processor, it
  runs again one tick later.
\<close>

definition idle_kernel :: "tick_clock kernel" where
  "idle_kernel = \<lparr>listIS_EMPTY = \<lambda>_ _. True, vListInitialise_both = id, head_item_value = \<lambda>_ _. 0,
     xTaskRemoveFromEventList = \<lambda>_ k. (False, k), vTaskPlaceOnEventList = \<lambda>_ _. id,
     portYIELD_WITHIN_API = id, vTaskMissedYield = id, vTaskSuspendAll = id,
     xTaskResumeAll = \<lambda>k. (False, k), scheduler_suspended = \<lambda>_. False,
     uxTaskGetNumberOfTasks = \<lambda>_. 3, xTaskGetCurrentTaskHandle = \<lambda>_. 0x500,
     pvTaskIncrementMutexHeldCount = \<lambda>k. (0x500, k), xTaskPriorityInherit = \<lambda>_ k. (False, k),
     xTaskPriorityDisinherit = \<lambda>_ k. (False, k), vTaskPriorityDisinheritAfterTimeout = \<lambda>_ _. id,
     kernel_clock = id, others = \<lambda>s. Some (s\<lparr>kern := increment_tick (kern s)\<rparr>), interrupts = Some\<rparr>"

lemma example_queue_ok:
  "queue_ok (example_queue 2)" "queue_ok (example_queue 1)" "unlocked (example_queue n)"
  "items (example_queue n) = []"
  by (simp_all add: example_queue_def queue_ok_def storage_ok_def read_slot_def slot_def items_def unlocked_def)

text \<open>
  C1: The queue of queue.c is a bounded list. For every sequence of calls that return at once, made
  by tasks (send to back, to front, overwriting; receive; peek) and by interrupts while no task has
  the queue locked, every call returns, with exactly the result the list gives: a send succeeds
  exactly when there is room, a receive gives the bytes of the oldest message, a peek leaves it. The
  circular buffer, the wrap-around of its pointers and the 32-bit counters do not show.
\<close>
theorem queue_refines_list:
  assumes "queue_ok s" "unlocked s" "\<forall>c\<in>set cs. call_allowed s c"
  shows "\<exists>s'. queue_calls K cs s =
      Some (fst (list_calls (unat (uxLength (que s))) (unat (uxItemSize (que s))) cs (items s)), s') \<and>
    items s' = snd (list_calls (unat (uxLength (que s))) (unat (uxItemSize (que s))) cs (items s)) \<and>
    queue_ok s'"
  using assms
proof (induction cs arbitrary: s)
  case (Cons c cs)
  from call_simulates [OF Cons.prems(1,2), of c K] Cons.prems(3) obtain r t where
    t: "make_call K c s = Some (r, t)" and sim: "simulates c s r t" by auto
  then have shape: "same_shape s t" and "queue_ok t" "unlocked t" by (simp_all add: simulates_def)
  with Cons.IH [of t] Cons.prems(3) call_allowed_shape [OF shape] sim t show ?case
    by (fastforce simp: simulates_def same_shape_def split_beta)
qed simp

theorem queue_refines_list_witness:
  "\<exists>s'. queue_calls idle_kernel
      [Send (\<lambda>_. 1) queueSEND_TO_BACK, SendFromISR (\<lambda>_. 2) queueSEND_TO_BACK,
       Send (\<lambda>_. 3) queueSEND_TO_BACK, Peek, ReceiveFromISR, Send (\<lambda>_. 4) queueSEND_TO_FRONT,
       Receive, Receive, Receive] (example_queue 2) =
    Some ([Sent True, Sent True, Sent False, Got (Some [1, 1]), Got (Some [1, 1]), Sent True,
       Got (Some [4, 4]), Got (Some [2, 2]), Got None], s') \<and> items s' = []"
proof -
  let ?cs = "[Send (\<lambda>_. 1) queueSEND_TO_BACK, SendFromISR (\<lambda>_. 2) queueSEND_TO_BACK,
       Send (\<lambda>_. 3) queueSEND_TO_BACK, Peek, ReceiveFromISR, Send (\<lambda>_. 4) queueSEND_TO_FRONT,
       Receive, Receive, Receive]"
  have shape: "uxLength (que (example_queue 2)) = 2" "uxItemSize (que (example_queue 2)) = 2"
    by (simp_all add: example_queue_def)
  have "list_calls 2 2 ?cs [] = ([Sent True, Sent True, Sent False, Got (Some [1, 1]), Got (Some [1, 1]),
      Sent True, Got (Some [4, 4]), Got (Some [2, 2]), Got None], [])"
    by (simp add: list_put_def list_get_def list_peek_def upt_rec)
  with queue_refines_list [OF example_queue_ok(1,3), of ?cs idle_kernel] shape show ?thesis
    by (auto simp: example_queue_ok simp del: queue_calls.simps list_calls.simps)
qed

text \<open>
  First in, first out. Whatever sequence of sends to the back and receives tasks make without
  block time, every call returns, and the messages received followed by those still in the queue are
  the messages that were there followed by those that were accepted: nothing is lost, duplicated,
  reordered or altered, and never are there more than the length of the queue.
\<close>
theorem queue_first_in_first_out:
  assumes "queue_ok s"
  shows "\<exists>sent got s'. client_run (\<lambda>i. xQueueGenericSend K (Some i) 0 queueSEND_TO_BACK)
        (xQueueReceive K True 0) cs s = Some (sent, got, s') \<and>
      items s @ map (item_bytes s) sent = got @ items s' \<and>
      length (items s') \<le> unat (uxLength (que s'))"
proof -
  from task_queue.run_in_order [OF assms, of K cs] obtain sent got s' where
    run: "client_run (\<lambda>i. xQueueGenericSend K (Some i) 0 queueSEND_TO_BACK) (xQueueReceive K True 0) cs s =
      Some (sent, got, s')" "queue_ok s'" "items s @ map (item_bytes s) sent = got @ items s'" by blast
  moreover have "length (items s') \<le> unat (uxLength (que s'))"
    using run(2) by (simp add: queue_ok_def items_length word_le_nat_alt)
  ultimately show ?thesis by blast
qed

theorem queue_first_in_first_out_witness:
  "\<exists>sent got s'. client_run (\<lambda>i. xQueueGenericSend idle_kernel (Some i) 0 queueSEND_TO_BACK)
        (xQueueReceive idle_kernel True 0) [Some (\<lambda>_. 1), Some (\<lambda>_. 2), None, Some (\<lambda>_. 3), None]
        (example_queue 2) = Some (sent, got, s') \<and>
      map (item_bytes (example_queue 2)) sent = got @ items s'"
  using queue_first_in_first_out [OF example_queue_ok(1), of idle_kernel
      "[Some (\<lambda>_. 1), Some (\<lambda>_. 2), None, Some (\<lambda>_. 3), None]"]
  by (fastforce simp: example_queue_ok)

section \<open>Waiting\<close>

lemma idle_timely: "timely idle_kernel"
proof -
  have "passes 1 (2 ^ 40) c (increment_tick c)" for c
    unfolding passes_def by (rule exI [of _ 1]) simp
  then show ?thesis
    by (auto simp: timely_def idle_kernel_def)
qed

lemma idle_respects:
  "respected idle_kernel (\<lambda>s. queue_ok s \<and> items s = xs \<and> uxItemSize (que s) = z \<and> uxLength (que s) = n)"
  unfolding respected_def
proof (intro allI impI)
  fix s t :: "tick_clock qstate"
  assume I: "queue_ok s \<and> items s = xs \<and> uxItemSize (que s) = z \<and> uxLength (que s) = n"
    and "others idle_kernel s = Some t \<or> interrupts idle_kernel s = Some t \<or> queue_same s t"
  then have "queue_same s t" by (auto simp: idle_kernel_def)
  from queue_same_abs [OF this] this I
  show "queue_ok t \<and> items t = xs \<and> uxItemSize (que t) = z \<and> uxLength (que t) = n"
    by (simp add: queue_same_def)
qed



text \<open>
  C23: A send that waits is one step. Let other tasks and interrupts do what they like between the
  critical sections as long as they keep an invariant of the queue. If the call then returns pdPASS,
  it has put exactly its message, at its place, into a queue that had room, in one step between two
  of theirs; if it returns errQUEUE_FULL, it has left the queue as they left it.
\<close>
theorem blocking_send_is_one_step:
  assumes "respected K I" "\<And>s. I s \<Longrightarrow> queue_ok s"
    and "\<And>s. I s \<Longrightarrow> p = queueOVERWRITE \<Longrightarrow> uxLength (que s) = 1"
    and "I s" "xQueueGenericSend K (Some item) ticks p s = Some (r, s')"
  shows "if r then \<exists>u. I u \<and> has_room p u \<and> queue_ok s' \<and>
      items s' = put_at p (item_bytes u item) (items u) else I s'"
proof -
  from assms(5) have "send_loop K item p ticks None s = Some (r, s')"
    by (auto simp: xQueueGenericSend_def split: if_splits)
  from send_loop_linearizes [OF assms(1,2,3,4) this] show ?thesis
    by (auto simp: has_put_def split: if_splits)
qed

theorem blocking_send_is_one_step_witness:
  "\<exists>r s'. xQueueGenericSend idle_kernel (Some (\<lambda>_. 7)) 50 queueSEND_TO_BACK (example_queue 2) = Some (r, s') \<and>
     r = True \<and> items s' = [[7, 7]]"
proof -
  obtain r s' where run:
    "xQueueGenericSend idle_kernel (Some (\<lambda>_. 7)) 50 queueSEND_TO_BACK (example_queue 2) = Some (r, s')"
    using send_now [OF example_queue_ok(1), of queueSEND_TO_BACK idle_kernel 50 "\<lambda>_. 7"]
    by (auto simp: has_room_def example_queue_def idle_kernel_def)
  let ?I = "\<lambda>s. queue_ok s \<and> items s = [] \<and> uxItemSize (que s) = 2 \<and> uxLength (que s) = 2"
  have "?I (example_queue 2)"
    by (simp add: example_queue_ok) (simp add: example_queue_def)
  from blocking_send_is_one_step [OF idle_respects [of "[]" 2 2] _ _ this run]
  have "if r then items s' = [[7, 7]] else ?I s'"
    by (auto simp: item_bytes_def upt_rec split: if_splits)
  moreover have r
    using run by (auto simp: xQueueGenericSend_def send_loop_steps has_room_def example_queue_def idle_kernel_def)
  ultimately show ?thesis
    using run by auto
qed

text \<open>
  A receive, or a peek, that waits is one step: if it delivers bytes, they were the oldest
  message of the queue at one moment during the call, and the receive removed just that message; if
  it gives up, the queue was empty at that moment.
\<close>
theorem blocking_receive_is_one_step:
  assumes "respected K I" "\<And>s. I s \<Longrightarrow> queue_ok s" "I s"
    and "xQueueReceive K True ticks s = Some (r, s') \<or> xQueuePeek K True ticks s = Some (r, s')"
  shows "case r of None \<Rightarrow> I s' \<and> items s' = []
    | Some bs \<Rightarrow> \<exists>u xs. I u \<and> queue_ok s' \<and> items u = bs # xs \<and>
        items s' = (if xQueueReceive K True ticks s = Some (r, s') then xs else bs # xs)"
proof (cases "xQueueReceive K True ticks s = Some (r, s')")
  case True
  then have "receive_loop K ticks None s = Some (r, s')"
    by (auto simp: xQueueReceive_def split: if_splits)
  from receive_loop_linearizes [OF assms(1-3) this] True show ?thesis
    by (auto simp: has_taken_def split: option.splits)
next
  case False
  with assms(4) have "peek_loop K ticks None s = Some (r, s')"
    by (auto simp: xQueuePeek_def split: if_splits)
  from peek_loop_linearizes [OF assms(1-3) this] False show ?thesis
    by (fastforce simp: has_peeked_def neq_Nil_conv split: option.splits)
qed

theorem blocking_receive_is_one_step_witness:
  "\<exists>s'. xQueueReceive idle_kernel True 3 (example_queue 2) = Some (None, s') \<and> items s' = []"
proof -
  obtain r s' where run: "xQueueReceive idle_kernel True 3 (example_queue 2) = Some (r, s')"
    using receive_loop_returns [OF idle_timely, of 3 None "example_queue 2"]
    by (auto simp: xQueueReceive_def idle_kernel_def)
  have "(\<lambda>s. queue_ok s \<and> items s = [] \<and> uxItemSize (que s) = 2 \<and> uxLength (que s) = 2) (example_queue 2)"
    by (simp add: example_queue_ok) (simp add: example_queue_def)
  from blocking_receive_is_one_step [OF idle_respects _ this disjI1 [OF run]] run show ?thesis
    by (cases r) auto
qed

section \<open>Events while the queue is locked\<close>

text \<open>
  What the event lists of the kernel do: \<open>waiting\<close> lists the tasks of each, the one to be woken
  first in front; waking takes that one off.
\<close>

definition event_lists :: "'k kernel \<Rightarrow> (wait_list \<Rightarrow> 'k \<Rightarrow> 't list) \<Rightarrow> bool" where
  "event_lists K waiting \<longleftrightarrow>
     (\<forall>l k. listIS_EMPTY K l k \<longleftrightarrow> waiting l k = []) \<and>
     (\<forall>l k. waiting l k \<noteq> [] \<longrightarrow> waiting l (snd (xTaskRemoveFromEventList K l k)) = tl (waiting l k)) \<and>
     (\<forall>l l' k. l' \<noteq> l \<longrightarrow> waiting l' (snd (xTaskRemoveFromEventList K l k)) = waiting l' k) \<and>
     (\<forall>l k. waiting l (vTaskMissedYield K k) = waiting l k)"

lemma event_listsD:
  assumes "event_lists K waiting"
  shows "listIS_EMPTY K l k \<longleftrightarrow> waiting l k = []"
    "waiting l k \<noteq> [] \<Longrightarrow> waiting l (snd (xTaskRemoveFromEventList K l k)) = tl (waiting l k)"
    "l' \<noteq> l \<Longrightarrow> waiting l' (snd (xTaskRemoveFromEventList K l k)) = waiting l' k"
    "waiting l (vTaskMissedYield K k) = waiting l k"
  using assms unfolding event_lists_def by blast+

lemma unlock_wake_drops:
  assumes laws: "event_lists K waiting"
  shows "waiting l' (unlock_wake K l n k) = (if l' = l then drop n (waiting l k) else waiting l' k)"
proof (induction n arbitrary: k)
  case (Suc n)
  show ?case
  proof (cases "waiting l k = []")
    case False
    obtain h k' where r: "xTaskRemoveFromEventList K l k = (h, k')"
      by (cases "xTaskRemoveFromEventList K l k")
    let ?k = "if h then vTaskMissedYield K k' else k'"
    have "waiting l ?k = tl (waiting l k)" "l' \<noteq> l \<Longrightarrow> waiting l' ?k = waiting l' k"
      using event_listsD(2) [OF laws False] event_listsD(3) [OF laws, of l' l k] event_listsD(4) [OF laws]
      by (simp_all add: r)
    moreover have "unlock_wake K l (Suc n) k = unlock_wake K l n ?k"
      using False event_listsD(1) [OF laws] by (simp add: r)
    ultimately show ?thesis
      using Suc.IH [of ?k] by (simp add: drop_Suc)
  qed (simp add: event_listsD(1) [OF laws])
qed simp

text \<open>
  No event is lost while a task has the queue locked. A send from an interrupt on a locked queue
  wakes nobody but adds one to the queue's count, which can only fail for want of counting range
  once 127 events are counted and there are more tasks than that; unlocking then wakes, in order,
  one waiting receiver for every counted send and one waiting sender for every counted receive, no
  more and no fewer, leaves the queue unlocked and its messages as they are.
\<close>
theorem unlock_wakes_one_per_event:
  assumes laws: "event_lists K waiting"
  shows "waiting xTasksWaitingToReceive (kern (prvUnlockQueue K s)) =
      drop (nat (sint (cTxLock (que s)))) (waiting xTasksWaitingToReceive (kern s)) \<and>
    waiting xTasksWaitingToSend (kern (prvUnlockQueue K s)) =
      drop (nat (sint (cRxLock (que s)))) (waiting xTasksWaitingToSend (kern s)) \<and>
    unlocked (prvUnlockQueue K s) \<and> items (prvUnlockQueue K s) = items s \<and>
    (queue_ok s \<and> cTxLock (que s) < queueINT8_MAX \<and> items s = [] \<and>
       (scast (cTxLock (que s)) :: u32) < uxTaskGetNumberOfTasks K (kern s) \<longrightarrow>
     (\<exists>t. xQueueGenericSendFromISR K (Some item) queueSEND_TO_BACK s = Some (True, False, t) \<and>
        cTxLock (que t) = cTxLock (que s) + 1 \<and> kern t = kern s \<and> items t = [item_bytes s item]))"
proof (intro conjI impI)
  show "waiting xTasksWaitingToReceive (kern (prvUnlockQueue K s)) =
      drop (nat (sint (cTxLock (que s)))) (waiting xTasksWaitingToReceive (kern s))"
    "waiting xTasksWaitingToSend (kern (prvUnlockQueue K s)) =
      drop (nat (sint (cRxLock (que s)))) (waiting xTasksWaitingToSend (kern s))"
    by (simp_all add: prvUnlockQueue_def on_kern_def on_que_def Let_def unlock_wake_drops [OF laws])
  show "unlocked (prvUnlockQueue K s)"
    by (simp add: unlocked_def prvUnlockQueue_def on_kern_def on_que_def Let_def)
  show "items (prvUnlockQueue K s) = items s"
    by (rule queue_same_abs(2)) simp
  assume a: "queue_ok s \<and> cTxLock (que s) < queueINT8_MAX \<and> items s = [] \<and>
    (scast (cTxLock (que s)) :: u32) < uxTaskGetNumberOfTasks K (kern s)"
  let ?t = "snd (prvCopyDataToQueue K item queueSEND_TO_BACK s)"
  have room: "has_room queueSEND_TO_BACK s"
    using a room_iff [of s] by (simp add: has_room_def queue_ok_def storage_ok_def)
  have kern: "kern ?t = kern s"
    using a by (intro copy_keeps_kernel(1)) (auto simp: queue_ok_def storage_ok_def)
  have run: "xQueueGenericSendFromISR K (Some item) queueSEND_TO_BACK s =
      Some (True, False, on_que (\<lambda>q. q\<lparr>cTxLock := cTxLock (que s) + 1\<rparr>) ?t)"
    using a room kern
    by (auto simp: xQueueGenericSendFromISR_def has_room_def prvIncrementQueueTxLock_def Let_def)
  have "has_put queueSEND_TO_BACK item s (on_que (\<lambda>q. q\<lparr>cTxLock := cTxLock (que s) + 1\<rparr>) ?t)"
    using a room by (intro has_put_same [OF copy_puts]) (auto simp: queue_same_def on_que_def)
  with run kern a show "\<exists>t. xQueueGenericSendFromISR K (Some item) queueSEND_TO_BACK s = Some (True, False, t) \<and>
      cTxLock (que t) = cTxLock (que s) + 1 \<and> kern t = kern s \<and> items t = [item_bytes s item]"
    by (auto simp: has_put_def on_que_def)
qed

text \<open>A kernel whose state is the two event lists.\<close>

definition list_kernel :: "(wait_list \<Rightarrow> u32 list) kernel" where
  "list_kernel = \<lparr>listIS_EMPTY = \<lambda>l k. k l = [], vListInitialise_both = \<lambda>_ _. [], head_item_value = \<lambda>_ _. 0,
     xTaskRemoveFromEventList = \<lambda>l k. (False, k(l := tl (k l))),
     vTaskPlaceOnEventList = \<lambda>l _ k. k(l := k l @ [0x500]),
     portYIELD_WITHIN_API = id, vTaskMissedYield = id, vTaskSuspendAll = id,
     xTaskResumeAll = \<lambda>k. (False, k), scheduler_suspended = \<lambda>_. False,
     uxTaskGetNumberOfTasks = \<lambda>_. 3, xTaskGetCurrentTaskHandle = \<lambda>_. 0x500,
     pvTaskIncrementMutexHeldCount = \<lambda>k. (0x500, k), xTaskPriorityInherit = \<lambda>_ k. (False, k),
     xTaskPriorityDisinherit = \<lambda>_ k. (False, k), vTaskPriorityDisinheritAfterTimeout = \<lambda>_ _. id,
     kernel_clock = \<lambda>_. \<lparr>xTickCount = 0, xNumOfOverflows = 0\<rparr>, others = Some, interrupts = Some\<rparr>"

lemma list_kernel_events: "event_lists list_kernel (\<lambda>l k. k l)"
  by (simp add: event_lists_def list_kernel_def)

theorem unlock_wakes_one_per_event_witness:
  "kern (prvUnlockQueue list_kernel \<lparr>que = (que (example_queue 2))\<lparr>cTxLock := 2, cRxLock := 1\<rparr>, memory = (\<lambda>_. 0),
       kern = (\<lambda>l. if l = xTasksWaitingToReceive then [1, 2, 3] else [4])\<rparr>) xTasksWaitingToReceive = [3]"
  using unlock_wakes_one_per_event [OF list_kernel_events, of
      "\<lparr>que = (que (example_queue 2))\<lparr>cTxLock := 2, cRxLock := 1\<rparr>, memory = (\<lambda>_. 0),
       kern = (\<lambda>l. if l = xTasksWaitingToReceive then [1, 2, 3] else [4])\<rparr>"]
  by (simp add: numeral_2_eq_2)

section \<open>Creation\<close>

definition storage_fits :: "xQUEUE \<Rightarrow> bool" where
  "storage_fits q \<longleftrightarrow> 0 < unat (uxLength q) \<and> 0 < unat (uxItemSize q) \<and>
     unat (uxItemSize q) \<le> unat (pcHead q) \<and>
     unat (pcHead q) + unat (uxLength q) * unat (uxItemSize q) < 2 ^ 32"

lemma reset_state:
  assumes fits: "storage_fits (que s)"
    and q: "q = (que s)\<lparr>pcTail_xMutexHolder := pcHead (que s) + uxLength (que s) * uxItemSize (que s),
      uxMessagesWaiting := 0, pcWriteTo := pcHead (que s),
      pcReadFrom_uxRecursiveCallCount := pcHead (que s) + (uxLength (que s) - 1) * uxItemSize (que s),
      cRxLock := queueUNLOCKED, cTxLock := queueUNLOCKED\<rparr>"
  shows "queue_ok (s\<lparr>que := q\<rparr>)" "items (s\<lparr>que := q\<rparr>) = []" "unlocked (s\<lparr>que := q\<rparr>)"
proof -
  let ?L = "unat (uxLength (que s))"
  have L: "0 < ?L" using fits by (simp add: storage_fits_def)
  then have L1: "of_nat (?L - 1) = uxLength (que s) - 1"
    by (simp add: Suc_le_eq)
  have ok: "storage_ok q"
    using fits by (simp add: storage_ok_def storage_fits_def slot_def q)
  have read: "pcReadFrom_uxRecursiveCallCount q = slot q (?L - 1)"
    using L1 by (simp add: slot_def q)
  with ok L have rd: "read_slot q = ?L - 1"
    by (intro read_slot_of) (simp_all add: q)
  have "pcWriteTo q = slot q ((?L - 1 + 1 + 0) mod ?L)"
    using L by (simp add: slot_def q)
  moreover have "uxMessagesWaiting q = 0" "uxLength q = uxLength (que s)" by (simp_all add: q)
  ultimately show "queue_ok (s\<lparr>que := q\<rparr>)"
    using ok read rd L by (simp add: queue_ok_def)
  show "items (s\<lparr>que := q\<rparr>) = []" "unlocked (s\<lparr>que := q\<rparr>)"
    by (simp_all add: items_def unlocked_def q)
qed

lemma length_size_fit:
  assumes "unat a * unat b < 2 ^ 32" "0 < unat (a :: u32)"
  shows "b \<le> 0xFFFFFFFF div a" "unat (a * b) = unat a * unat b"
proof -
  have "unat b \<le> 4294967295 div unat a"
    using assms less_eq_div_iff_mult_less_eq [of "unat a" "unat b" 4294967295] by (simp add: mult.commute)
  then show "b \<le> 0xFFFFFFFF div a"
    by (simp add: word_le_nat_alt unat_div)
  show "unat (a * b) = unat a * unat b"
    using assms(1) by (simp add: unat_word_ariths)
qed

lemma reset_empties:
  assumes fits: "storage_fits (que s)"
  shows "\<exists>s'. xQueueGenericReset K new s = Some (True, s') \<and> queue_ok s' \<and> items s' = [] \<and>
    unlocked s' \<and> pcHead (que s') = pcHead (que s) \<and> uxLength (que s') = uxLength (que s) \<and>
    uxItemSize (que s') = uxItemSize (que s)"
proof -
  let ?q = "(que s)\<lparr>pcTail_xMutexHolder := pcHead (que s) + uxLength (que s) * uxItemSize (que s),
      uxMessagesWaiting := 0, pcWriteTo := pcHead (que s),
      pcReadFrom_uxRecursiveCallCount := pcHead (que s) + (uxLength (que s) - 1) * uxItemSize (que s),
      cRxLock := queueUNLOCKED, cTxLock := queueUNLOCKED\<rparr>"
  let ?s = "s\<lparr>que := ?q\<rparr>"
  let ?s' = "if new then on_kern (vListInitialise_both K) ?s
    else wake_and_yield K xTasksWaitingToSend False ?s"
  have guard: "1 \<le> uxLength (que s)" "uxItemSize (que s) \<le> 0xFFFFFFFF div uxLength (que s)"
    using fits length_size_fit(1) [of "uxLength (que s)" "uxItemSize (que s)"]
    by (simp_all add: storage_fits_def word_le_nat_alt)
  then have run: "xQueueGenericReset K new s = Some (True, ?s')"
    by (simp add: xQueueGenericReset_def Let_def)
  have same: "queue_same ?s ?s'" and locks: "same_locks ?s ?s'"
    by (cases new; simp)+
  have "queue_ok ?s'" "items ?s' = []" "unlocked ?s'"
    using queue_same_abs(1,2) [OF same] same_locks_unlocked [OF locks] reset_state [OF fits refl] by simp_all
  moreover have "pcHead (que ?s') = pcHead (que s)" "uxLength (que ?s') = uxLength (que s)"
    "uxItemSize (que ?s') = uxItemSize (que s)"
    using same by (simp_all add: queue_same_def)
  ultimately show ?thesis using run by blast
qed

lemma create_guard:
  fixes len siz :: u32
  assumes "0 < unat len"
  shows "siz \<le> 0xFFFFFFFF div len \<and> len * siz \<le> 0xFFFFFFFF - 72 \<longleftrightarrow> unat len * unat siz + 72 < 2 ^ 32"
proof (cases "unat len * unat siz < 2 ^ 32")
  case True
  from length_size_fit [OF this assms] show ?thesis
    by (auto simp: word_le_nat_alt)
next
  case False
  have "siz \<le> 0xFFFFFFFF div len \<longleftrightarrow> unat siz * unat len \<le> 4294967295"
    using assms less_eq_div_iff_mult_less_eq [of "unat len" "unat siz" 4294967295]
    by (simp add: word_le_nat_alt unat_div)
  with False show ?thesis by (simp add: mult.commute)
qed

text \<open>A block from heap_1 has room for the structure and the storage behind it.\<close>

lemma malloc_range:
  assumes inv: "heap_inv ucHeap h" and call: "pvPortMalloc ucHeap n h = (p, h')" "p \<noteq> 0" "0 < unat n"
  shows "unat ucHeap \<le> unat p" "unat p + unat n < unat ucHeap + 8192" "block p n \<subseteq> heap_taken h'"
proof -
  from pvPortMalloc_step [OF inv call(1)] call(2)
  have inv': "heap_inv ucHeap h'" and sub: "block p n \<subseteq> heap_taken h'" by blast+
  show "block p n \<subseteq> heap_taken h'" by (rule sub)
  have ends: "{unat p, unat p + unat n - 1} \<subseteq> heap_taken h'"
    using sub call(3) by (auto simp: block_def)
  then have "pucAlignedHeap h' = aligned_base ucHeap"
    using inv' by (auto simp: heap_inv_def heap_taken_def)
  with ends inv' aligned_base_range(1,2) [of ucHeap] call(3)
  show "unat ucHeap \<le> unat p" "unat p + unat n < unat ucHeap + 8192"
    by (auto simp: heap_inv_def heap_taken_def)
qed

lemma initialise_empties:
  assumes "storage_fits \<lparr>pcHead = (if siz = 0 then p else a), pcWriteTo = 0,
      pcTail_xMutexHolder = 0, pcReadFrom_uxRecursiveCallCount = 0, uxMessagesWaiting = 0,
      uxLength = len, uxItemSize = siz, cRxLock = 0, cTxLock = 0\<rparr>"
  shows "\<exists>s'. prvInitialiseNewQueue K len siz a p s = Some s' \<and> queue_ok s' \<and> items s' = [] \<and>
    unlocked s' \<and> uxLength (que s') = len \<and> uxItemSize (que s') = siz"
proof -
  let ?s = "on_que (\<lambda>q. q\<lparr>uxLength := len, uxItemSize := siz\<rparr>)
      (on_que (\<lambda>q. q\<lparr>pcHead := (if siz = 0 then p else a)\<rparr>) s)"
  have "storage_fits (que ?s)"
    using assms by (simp add: storage_fits_def on_que_def)
  from reset_empties [OF this, of K True] show ?thesis
    by (auto simp: prvInitialiseNewQueue_def on_que_def)
qed

lemma create_outcome:
  assumes heap: "heap_inv ucHeap h" "8192 \<le> unat ucHeap" and dims: "0 < unat len" "0 < unat siz"
  shows "(xQueueGenericCreate K ucHeap len siz (h, s) = None \<longleftrightarrow>
      2 ^ 32 \<le> unat len * unat siz + 72) \<and>
    (\<forall>p h' s'. xQueueGenericCreate K ucHeap len siz (h, s) = Some (p, h', s') \<longrightarrow>
      (p = 0 \<longleftrightarrow> 8184 \<le> unat (xNextFreeByte h) + (72 + unat len * unat siz + 7) div 8 * 8) \<and>
      (p \<noteq> 0 \<longrightarrow> queue_ok s' \<and> items s' = [] \<and> unlocked s' \<and> uxLength (que s') = len \<and>
         uxItemSize (que s') = siz \<and> block p (72 + len * siz) \<subseteq> heap_taken h'))"
proof (cases "unat len * unat siz + 72 < 2 ^ 32")
  case False
  with create_guard [OF dims(1), of siz] have "xQueueGenericCreate K ucHeap len siz (h, s) = None"
    by (auto simp: xQueueGenericCreate_def)
  with False show ?thesis by simp
next
  case True
  let ?n = "72 + len * siz"
  have n: "unat ?n = unat len * unat siz + 72"
    using True length_size_fit(2) [of len siz] dims(1) by (simp add: unat_word_ariths)
  obtain p h1 where call: "pvPortMalloc ucHeap ?n h = (p, h1)" by fastforce
  have "p = 0 \<longleftrightarrow> \<not> (0 < rounded ?n \<and> unat (xNextFreeByte h) + rounded ?n < 8184)"
    using heap_request [OF heap(1), of ?n] call by auto
  then have null: "p = 0 \<longleftrightarrow> 8184 \<le> unat (xNextFreeByte h) + (72 + unat len * unat siz + 7) div 8 * 8"
    unfolding rounded_def n Let_def by (auto simp: add.commute)
  have run: "xQueueGenericCreate K ucHeap len siz (h, s) =
      (if p \<noteq> 0 then map_option (\<lambda>s. (p, h1, s)) (prvInitialiseNewQueue K len siz (p + 72) p s)
       else Some (0, h1, s))"
    using True create_guard [OF dims(1), of siz] dims(1) call
    by (cases "prvInitialiseNewQueue K len siz (p + 72) p s")
      (auto simp: xQueueGenericCreate_def Let_def word_less_nat_alt)
  show ?thesis
  proof (cases "p = 0")
    case True
    with run null \<open>unat len * unat siz + 72 < 2 ^ 32\<close> show ?thesis by auto
  next
    case False
    have "0 < unat ?n" unfolding n by simp
    note range = malloc_range [OF heap(1) call False this, unfolded n]
    have "unat siz \<le> unat len * unat siz" using dims(1) by simp
    with range(1,2) have siz: "unat siz \<le> 8192" by linarith
    have "unat (p + 72) = unat p + 72"
      using range(2) heap(1) by (simp add: heap_inv_def unat_plus_if')
    then have "\<exists>s'. prvInitialiseNewQueue K len siz (p + 72) p s = Some s' \<and> queue_ok s' \<and> items s' = [] \<and>
        unlocked s' \<and> uxLength (que s') = len \<and> uxItemSize (que s') = siz"
      using range heap dims siz
      by (intro initialise_empties) (auto simp: storage_fits_def heap_inv_def)
    with run False null True range(3) show ?thesis by (auto simp: n)
  qed
qed

text \<open>
  Creation. For a length and an item size of at least 1 whose storage with the structure fits
  the 32-bit address range (the guards of the code; otherwise the assertion stops the program), the
  call returns: NULL exactly when heap_1 cannot serve the request, and otherwise the handle of an
  empty, unlocked queue of that length and item size, whose storage lies behind the structure in the
  block just allocated. The heap array is assumed to start at address 8192 or above.
\<close>
theorem create_gives_empty_queue:
  assumes heap: "heap_inv ucHeap h" "8192 \<le> unat ucHeap" and dims: "0 < unat len" "0 < unat siz"
  shows "(xQueueGenericCreate K ucHeap len siz (h, s) = None \<longleftrightarrow>
      2 ^ 32 \<le> unat len * unat siz + 72) \<and>
    (\<forall>p h' s'. xQueueGenericCreate K ucHeap len siz (h, s) = Some (p, h', s') \<longrightarrow>
      (p = 0 \<longleftrightarrow> 8184 \<le> unat (xNextFreeByte h) + (72 + unat len * unat siz + 7) div 8 * 8) \<and>
      (p \<noteq> 0 \<longrightarrow> queue_ok s' \<and> items s' = [] \<and> unlocked s' \<and> uxLength (que s') = len \<and>
         uxItemSize (que s') = siz \<and> block p (72 + len * siz) \<subseteq> heap_taken h'))"
  by (rule create_outcome [OF assms])

theorem create_gives_empty_queue_witness:
  "\<exists>p h' s'. xQueueGenericCreate idle_kernel 0xA0000000 10 4
      (\<lparr>pucAlignedHeap = 0, xNextFreeByte = 0\<rparr>, example_queue 1) = Some (p, h', s') \<and> p \<noteq> 0 \<and>
    items s' = [] \<and> uxLength (que s') = 10"
proof -
  have inv: "heap_inv 0xA0000000 \<lparr>pucAlignedHeap = 0, xNextFreeByte = 0\<rparr>"
    by (simp add: heap_inv_def)
  show ?thesis
    using create_gives_empty_queue [OF inv, of 10 4 idle_kernel "example_queue 1"] by auto
qed

end
