(* ===== verification/Rtos_Semaphore.thy ===== *)
theory Rtos_Semaphore
  imports Rtos_Deadline
begin

text \<open>
  The semaphores and mutexes of src/FreeRTOS/queue.c: queues of items of size 0 whose number of
  messages is the count. A mutex also keeps its holder, and a recursive one how often it was taken.
\<close>

section \<open>The interface\<close>

text \<open>
  What a client of a counting semaphore relies on: \<open>give\<close> and \<open>wait\<close> (to take) say whether they changed the
  count, which stays within its limit.
\<close>

datatype semaphore_call = Give | Take

fun semaphore_run ::
  "('s \<Rightarrow> (bool \<times> 's) option) \<Rightarrow> ('s \<Rightarrow> (bool \<times> 's) option) \<Rightarrow> semaphore_call list \<Rightarrow> 's \<Rightarrow>
   (bool list \<times> 's) option" where
  "semaphore_run give wait [] s = Some ([], s)"
| "semaphore_run give wait (c # cs) s = do {
     (r, s) \<leftarrow> (case c of Give \<Rightarrow> give s | Take \<Rightarrow> wait s);
     (rs, s) \<leftarrow> semaphore_run give wait cs s;
     Some (r # rs, s)
   }"

text \<open>How many calls of a kind succeeded.\<close>

definition succeeded :: "semaphore_call \<Rightarrow> semaphore_call list \<Rightarrow> bool list \<Rightarrow> nat" where
  "succeeded c cs rs = length (filter (\<lambda>(d, r). d = c \<and> r) (zip cs rs))"

locale semaphore =
  fixes give :: "'s \<Rightarrow> (bool \<times> 's) option"
    and wait :: "'s \<Rightarrow> (bool \<times> 's) option"
    and ok :: "'s \<Rightarrow> bool"
    and count :: "'s \<Rightarrow> nat"
    and limit :: "'s \<Rightarrow> nat"
  assumes give_law: "ok s \<Longrightarrow> \<exists>s'. give s = Some (count s < limit s, s') \<and> ok s' \<and> limit s' = limit s \<and>
      count s' = (if count s < limit s then count s + 1 else count s)"
    and wait_law: "ok s \<Longrightarrow> \<exists>s'. wait s = Some (0 < count s, s') \<and> ok s' \<and> limit s' = limit s \<and>
      count s' = (if 0 < count s then count s - 1 else count s)"
begin

text \<open>The count is what was there, plus the successful gives, minus the successful takes.\<close>

lemma run_conserves:
  "ok s \<Longrightarrow> count s \<le> limit s \<Longrightarrow> \<exists>rs s'. semaphore_run give wait cs s = Some (rs, s') \<and> ok s' \<and>
     limit s' = limit s \<and> count s' \<le> limit s' \<and> length rs = length cs \<and>
     count s' + succeeded Take cs rs = count s + succeeded Give cs rs"
proof (induction cs arbitrary: s)
  case Nil
  then show ?case by (simp add: succeeded_def)
next
  case (Cons c cs)
  obtain r t where t: "(case c of Give \<Rightarrow> give s | Take \<Rightarrow> wait s) = Some (r, t)" "ok t"
    "limit t = limit s" "count t \<le> limit t"
    and count: "count t + (if c = Take \<and> r then 1 else 0) = count s + (if c = Give \<and> r then 1 else 0)"
    using give_law [OF Cons.prems(1)] wait_law [OF Cons.prems(1)] Cons.prems(2)
    by (cases c) (fastforce split: if_splits)+
  from Cons.IH [OF t(2,4)] obtain rs s' where
    "semaphore_run give wait cs t = Some (rs, s')" "ok s'" "limit s' = limit t" "count s' \<le> limit s'"
    "length rs = length cs" "count s' + succeeded Take cs rs = count t + succeeded Give cs rs" by blast
  then show ?case
    using t count by (auto simp: succeeded_def split: if_splits)
qed

end

section \<open>Taking and giving\<close>

text \<open>The queue of a semaphore or mutex.\<close>

definition is_semaphore :: "'k qstate \<Rightarrow> bool" where
  "is_semaphore s \<longleftrightarrow> uxItemSize (que s) = 0 \<and> pcHead (que s) \<noteq> queueQUEUE_IS_MUTEX"

definition is_mutex :: "'k qstate \<Rightarrow> bool" where
  "is_mutex s \<longleftrightarrow> uxItemSize (que s) = 0 \<and> pcHead (que s) = queueQUEUE_IS_MUTEX \<and> uxLength (que s) = 1"

definition sem_count :: "'k qstate \<Rightarrow> nat" where
  "sem_count s = unat (uxMessagesWaiting (que s))"

definition sem_limit :: "'k qstate \<Rightarrow> nat" where
  "sem_limit s = unat (uxLength (que s))"

abbreviation xSemaphoreGive :: "'k kernel \<Rightarrow> 'k qstate \<Rightarrow> (bool \<times> 'k qstate) option" where
  "xSemaphoreGive K \<equiv> xQueueGenericSend K None 0 queueSEND_TO_BACK"

lemma take_loop_steps:
  "0 < uxMessagesWaiting (que s) \<Longrightarrow> take_loop K ticks t inh s = Some (True, take_semaphore K s)"
  "uxMessagesWaiting (que s) = 0 \<Longrightarrow> take_loop K 0 t inh s = Some (False, s)"
  "uxMessagesWaiting (que s) = 0 \<Longrightarrow> ticks \<noteq> 0 \<Longrightarrow> take_loop K ticks t inh s =
     Option.bind (wait_round K xTasksWaitingToReceive prvIsQueueEmpty (mutex_inherit K) inh
           (entry_time K t s) ticks s)
        (\<lambda>r. if fst (fst r) \<and> prvIsQueueEmpty (snd r)
             then Some (False, if inh
               then on_kern (vTaskPriorityDisinheritAfterTimeout K (pcTail_xMutexHolder (que (snd r)))
                               (prvGetHighestPriorityOfWaitToReceiveList K (snd r))) (snd r)
               else snd r)
             else take_loop K (fst (snd (snd (fst r)))) (Some (fst (snd (fst r))))
                    (snd (snd (snd (fst r)))) (snd r))"
  by (subst take_loop.simps, simp)+

lemma queue_same_que:
  "queue_same s t \<Longrightarrow> pcHead (que t) = pcHead (que s) \<and> uxItemSize (que t) = uxItemSize (que s) \<and>
     uxLength (que t) = uxLength (que s) \<and> uxMessagesWaiting (que t) = uxMessagesWaiting (que s) \<and>
     pcTail_xMutexHolder (que t) = pcTail_xMutexHolder (que s) \<and>
     pcReadFrom_uxRecursiveCallCount (que t) = pcReadFrom_uxRecursiveCallCount (que s)"
  by (simp add: queue_same_def)

text \<open>What a successful take and a successful give do to the queue structure.\<close>

definition taken :: "'k kernel \<Rightarrow> 'k qstate \<Rightarrow> xQUEUE" where
  "taken K s = (que s)\<lparr>uxMessagesWaiting := uxMessagesWaiting (que s) - 1,
     pcTail_xMutexHolder := (if pcHead (que s) = queueQUEUE_IS_MUTEX
       then fst (pvTaskIncrementMutexHeldCount K (kern s)) else pcTail_xMutexHolder (que s))\<rparr>"

definition given :: "'k qstate \<Rightarrow> xQUEUE" where
  "given s = (que s)\<lparr>uxMessagesWaiting := uxMessagesWaiting (que s) + 1,
     pcTail_xMutexHolder := (if pcHead (que s) = queueQUEUE_IS_MUTEX then 0
       else pcTail_xMutexHolder (que s))\<rparr>"

lemma take_semaphore_same:
  "\<exists>u. que u = taken K s \<and> memory u = memory s \<and> queue_same u (take_semaphore K s)"
proof (cases "pcHead (que s) = queueQUEUE_IS_MUTEX")
  case True
  obtain h k where h: "pvTaskIncrementMutexHeldCount K (kern s) = (h, k)" by fastforce
  let ?u = "s\<lparr>kern := k, que := taken K s\<rparr>"
  have "take_semaphore K s = wake_and_yield K xTasksWaitingToSend False ?u"
    using True h by (simp add: take_semaphore_def taken_def on_que_def Let_def)
  then show ?thesis by (intro exI [of _ ?u]) simp
next
  case False
  let ?u = "s\<lparr>que := taken K s\<rparr>"
  have "take_semaphore K s = wake_and_yield K xTasksWaitingToSend False ?u"
    using False by (simp add: take_semaphore_def taken_def on_que_def Let_def)
  then show ?thesis by (intro exI [of _ ?u]) simp
qed

lemma copy_gives:
  assumes "uxItemSize (que s) = 0"
  shows "que (snd (prvCopyDataToQueue K item p s)) = given s"
    "memory (snd (prvCopyDataToQueue K item p s)) = memory s"
  using assms by (simp_all add: prvCopyDataToQueue_def given_def on_que_def Let_def split: prod.split)

lemma xQueueSemaphoreTake_now:
  assumes "uxItemSize (que s) = 0"
  shows "\<exists>s'. xQueueSemaphoreTake K 0 s = Some (0 < uxMessagesWaiting (que s), s') \<and>
    (if 0 < uxMessagesWaiting (que s) then \<exists>u. que u = taken K s \<and> queue_same u s' else s' = s)"
proof (cases "0 < uxMessagesWaiting (que s)")
  case True
  then have "xQueueSemaphoreTake K 0 s = Some (True, take_semaphore K s)"
    using assms by (simp add: xQueueSemaphoreTake_def take_loop_steps)
  with True take_semaphore_same [of K s] show ?thesis by auto
next
  case False
  then have "xQueueSemaphoreTake K 0 s = Some (False, s)"
    using assms by (simp add: xQueueSemaphoreTake_def take_loop_steps word_gt_0)
  with False show ?thesis by auto
qed

lemma xSemaphoreGive_now:
  assumes "uxItemSize (que s) = 0"
  shows "\<exists>s'. xSemaphoreGive K s = Some (uxMessagesWaiting (que s) < uxLength (que s), s') \<and>
    (if uxMessagesWaiting (que s) < uxLength (que s) then \<exists>u. que u = given s \<and> queue_same u s'
     else s' = s)"
proof (cases "has_room queueSEND_TO_BACK s")
  case True
  let ?c = "prvCopyDataToQueue K (\<lambda>_. 0) queueSEND_TO_BACK s"
  have "xSemaphoreGive K s = Some (True, wake_and_yield K xTasksWaitingToReceive (fst ?c) (snd ?c))"
    using True assms by (simp add: xQueueGenericSend_def send_loop_steps)
  moreover have "que (snd ?c) = given s" by (rule copy_gives) (rule assms)
  ultimately show ?thesis
    using True by (auto simp: has_room_def intro!: exI [of _ "snd ?c"])
next
  case False
  then have "xSemaphoreGive K s = Some (False, s)"
    using assms by (simp add: xQueueGenericSend_def send_loop_steps)
  with False show ?thesis by (auto simp: has_room_def)
qed

section \<open>Counting semaphores\<close>

lemma unat_steps:
  "0 < x \<Longrightarrow> unat (x - 1) = unat x - 1" "x < y \<Longrightarrow> unat (x + 1) = unat x + 1" for x y :: u32
  using u32_bound [of y]
  by (simp_all add: unat_sub word_le_nat_alt word_less_nat_alt Suc_le_eq unat_plus_if')

interpretation counting: semaphore "xSemaphoreGive K" "xQueueSemaphoreTake K 0" is_semaphore
  sem_count sem_limit for K
proof (unfold_locales, goal_cases)
  case (1 s)
  then have "uxItemSize (que s) = 0" by (simp add: is_semaphore_def)
  from xSemaphoreGive_now [OF this, of K] 1 show ?case
    by (cases "uxMessagesWaiting (que s) < uxLength (que s)")
      (auto simp: is_semaphore_def sem_count_def sem_limit_def given_def word_less_nat_alt
        unat_steps(2) dest!: queue_same_que)
next
  case (2 s)
  then have "uxItemSize (que s) = 0" by (simp add: is_semaphore_def)
  from xQueueSemaphoreTake_now [OF this, of K] 2 show ?case
    by (cases "0 < uxMessagesWaiting (que s)")
      (auto simp: is_semaphore_def sem_count_def sem_limit_def taken_def word_less_nat_alt
        unat_steps(1) dest!: queue_same_que)
qed

section \<open>Recursive mutexes\<close>

text \<open>
  Tasks take and give the mutex, without block time, one call after the other; \<open>become t\<close> switches
  the kernel to task \<open>t\<close>.
\<close>

datatype mutex_call = TakeRecursive | GiveRecursive

definition mutex_step ::
  "'k kernel \<Rightarrow> (u32 \<Rightarrow> 'k \<Rightarrow> 'k) \<Rightarrow> u32 \<times> mutex_call \<Rightarrow> 'k qstate \<Rightarrow> (bool \<times> 'k qstate) option" where
  "mutex_step K become tc s =
     (case tc of (t, c) \<Rightarrow>
       (case c of TakeRecursive \<Rightarrow> xQueueTakeMutexRecursive K 0 (on_kern (become t) s)
        | GiveRecursive \<Rightarrow> xQueueGiveMutexRecursive K (on_kern (become t) s)))"

fun mutex_run ::
  "'k kernel \<Rightarrow> (u32 \<Rightarrow> 'k \<Rightarrow> 'k) \<Rightarrow> (u32 \<times> mutex_call) list \<Rightarrow> 'k qstate \<Rightarrow> (bool list \<times> 'k qstate) option" where
  "mutex_run K become [] s = Some ([], s)"
| "mutex_run K become (c # cs) s = do {
     (r, s) \<leftarrow> mutex_step K become c s;
     (rs, s) \<leftarrow> mutex_run K become cs s;
     Some (r # rs, s)
   }"

text \<open>
  The lock they implement: free, or held by one task a number of times. Taking it more often than
  32 bits count stops the program.
\<close>

type_synonym lock = "(u32 \<times> nat) option"

fun lock_step :: "u32 \<times> mutex_call \<Rightarrow> lock \<Rightarrow> (bool \<times> lock) option" where
  "lock_step (t, TakeRecursive) None = Some (True, Some (t, 1))"
| "lock_step (t, TakeRecursive) (Some (h, n)) =
     (if h = t then (if n + 1 < 2 ^ 32 then Some (True, Some (h, n + 1)) else None)
      else Some (False, Some (h, n)))"
| "lock_step (t, GiveRecursive) None = Some (False, None)"
| "lock_step (t, GiveRecursive) (Some (h, n)) =
     (if h = t then Some (True, if n = 1 then None else Some (h, n - 1))
      else Some (False, Some (h, n)))"

fun lock_run :: "(u32 \<times> mutex_call) list \<Rightarrow> lock \<Rightarrow> (bool list \<times> lock) option" where
  "lock_run [] l = Some ([], l)"
| "lock_run (c # cs) l = do {
     (r, l) \<leftarrow> lock_step c l;
     (rs, l) \<leftarrow> lock_run cs l;
     Some (r # rs, l)
   }"

definition mutex_ok :: "'k qstate \<Rightarrow> bool" where
  "mutex_ok s \<longleftrightarrow> is_mutex s \<and>
     (if uxMessagesWaiting (que s) = 0
      then pcTail_xMutexHolder (que s) \<noteq> 0 \<and> pcReadFrom_uxRecursiveCallCount (que s) \<noteq> 0
      else uxMessagesWaiting (que s) = 1 \<and> pcTail_xMutexHolder (que s) = 0 \<and>
           pcReadFrom_uxRecursiveCallCount (que s) = 0)"

definition lock_of :: "'k qstate \<Rightarrow> lock" where
  "lock_of s = (if uxMessagesWaiting (que s) = 0
     then Some (pcTail_xMutexHolder (que s), unat (pcReadFrom_uxRecursiveCallCount (que s))) else None)"

text \<open>What the kernel says about the running task.\<close>

definition runs_tasks :: "'k kernel \<Rightarrow> (u32 \<Rightarrow> 'k \<Rightarrow> 'k) \<Rightarrow> bool" where
  "runs_tasks K become \<longleftrightarrow> (\<forall>t k. xTaskGetCurrentTaskHandle K (become t k) = t \<and>
     fst (pvTaskIncrementMutexHeldCount K (become t k)) = t)"

lemma runs_tasksD:
  assumes "runs_tasks K become"
  shows "xTaskGetCurrentTaskHandle K (become t k) = t"
    "fst (pvTaskIncrementMutexHeldCount K (become t k)) = t"
  using assms by (simp_all add: runs_tasks_def)

lemma mutex_states:
  assumes "mutex_ok s"
  obtains (free) "uxMessagesWaiting (que s) = 1" "pcTail_xMutexHolder (que s) = 0"
      "pcReadFrom_uxRecursiveCallCount (que s) = 0" "lock_of s = None"
  | (held) "uxMessagesWaiting (que s) = 0" "pcTail_xMutexHolder (que s) \<noteq> 0"
      "pcReadFrom_uxRecursiveCallCount (que s) \<noteq> 0"
      "lock_of s = Some (pcTail_xMutexHolder (que s), unat (pcReadFrom_uxRecursiveCallCount (que s)))"
  using assms by (auto simp: mutex_ok_def lock_of_def split: if_splits)

lemma take_recursive:
  assumes ok: "mutex_ok s" and t: "t \<noteq> 0"
    and cur: "xTaskGetCurrentTaskHandle K (kern s) = t" "fst (pvTaskIncrementMutexHeldCount K (kern s)) = t"
  shows "case lock_step (t, TakeRecursive) (lock_of s) of None \<Rightarrow> xQueueTakeMutexRecursive K 0 s = None
    | Some (r, l) \<Rightarrow> \<exists>s'. xQueueTakeMutexRecursive K 0 s = Some (r, s') \<and> mutex_ok s' \<and> lock_of s' = l"
proof -
  have m: "is_mutex s" using ok by (simp add: mutex_ok_def)
  then have now: "uxItemSize (que s) = 0" by (simp add: is_mutex_def)
  from ok show ?thesis
  proof (cases rule: mutex_states)
    case free
    from xQueueSemaphoreTake_now [OF now, of K] free obtain u s' where
      run: "xQueueSemaphoreTake K 0 s = Some (True, s')" and u: "que u = taken K s" "queue_same u s'" by auto
    let ?s = "on_que (\<lambda>q. q\<lparr>pcReadFrom_uxRecursiveCallCount := pcReadFrom_uxRecursiveCallCount q + 1\<rparr>) s'"
    have "xQueueTakeMutexRecursive K 0 s = Some (True, ?s)"
      using free cur t run u
      by (auto simp: xQueueTakeMutexRecursive_def count_recursion_def on_que_def taken_def Let_def
          dest!: queue_same_que)
    moreover have "mutex_ok ?s" "lock_of ?s = Some (t, 1)"
      using free m cur t u by (auto simp: mutex_ok_def lock_of_def is_mutex_def taken_def on_que_def
          dest!: queue_same_que)
    ultimately show ?thesis by (simp add: free)
  next
    case held
    show ?thesis
    proof (cases "pcTail_xMutexHolder (que s) = t")
      case True
      let ?s = "on_que (\<lambda>q. q\<lparr>pcReadFrom_uxRecursiveCallCount := pcReadFrom_uxRecursiveCallCount q + 1\<rparr>) s"
      let ?n = "pcReadFrom_uxRecursiveCallCount (que s)"
      have run: "xQueueTakeMutexRecursive K 0 s = (if ?n + 1 = 0 then None else Some (True, ?s))"
        using True cur by (simp add: xQueueTakeMutexRecursive_def count_recursion_def on_que_def Let_def)
      have "?n + 1 = 0 \<longleftrightarrow> \<not> unat ?n + 1 < 2 ^ 32"
        using u32_bound [of ?n] by (simp add: word_unat_eq_iff unat_plus_if')
      moreover have "?n + 1 \<noteq> 0 \<Longrightarrow> unat (?n + 1) = unat ?n + 1"
        using u32_bound [of ?n] by (simp add: word_unat_eq_iff unat_plus_if' split: if_splits)
      ultimately show ?thesis
        using True held m run
        by (auto simp: mutex_ok_def lock_of_def is_mutex_def on_que_def)
    next
      case False
      from xQueueSemaphoreTake_now [OF now, of K] held have "xQueueSemaphoreTake K 0 s = Some (False, s)"
        by auto
      then show ?thesis
        using False held ok cur by (simp add: xQueueTakeMutexRecursive_def)
    qed
  qed
qed

lemma give_recursive:
  assumes ok: "mutex_ok s" and t: "t \<noteq> 0" and cur: "xTaskGetCurrentTaskHandle K (kern s) = t"
  shows "case lock_step (t, GiveRecursive) (lock_of s) of None \<Rightarrow> xQueueGiveMutexRecursive K s = None
    | Some (r, l) \<Rightarrow> \<exists>s'. xQueueGiveMutexRecursive K s = Some (r, s') \<and> mutex_ok s' \<and> lock_of s' = l"
proof -
  have m: "is_mutex s" using ok by (simp add: mutex_ok_def)
  from ok show ?thesis
  proof (cases rule: mutex_states)
    case free
    then show ?thesis using ok cur t by (simp add: xQueueGiveMutexRecursive_def)
  next
    case held
    show ?thesis
    proof (cases "pcTail_xMutexHolder (que s) = t")
      case True
      let ?n = "pcReadFrom_uxRecursiveCallCount (que s)"
      let ?s = "on_que (\<lambda>q. q\<lparr>pcReadFrom_uxRecursiveCallCount := pcReadFrom_uxRecursiveCallCount q - 1\<rparr>) s"
      have n: "unat (?n - 1) = unat ?n - 1" using held by (simp add: unat_steps(1) word_gt_0)
      show ?thesis
      proof (cases "?n = 1")
        case one: True
        have "uxItemSize (que ?s) = 0" "uxMessagesWaiting (que ?s) < uxLength (que ?s)"
          using m held by (simp_all add: is_mutex_def on_que_def)
        from xSemaphoreGive_now [OF this(1), of K] this(2) obtain u s' where
          "xSemaphoreGive K ?s = Some (True, s')" "que u = given ?s" "queue_same u s'" by auto
        moreover have "xQueueGiveMutexRecursive K s = map_option (\<lambda>(_, s). (True, s)) (xSemaphoreGive K ?s)"
          using True cur one by (cases "xSemaphoreGive K ?s")
            (auto simp: xQueueGiveMutexRecursive_def on_que_def Let_def)
        ultimately show ?thesis
          using True held m one
          by (auto simp: mutex_ok_def lock_of_def is_mutex_def given_def on_que_def dest!: queue_same_que)
      next
        case False
        then have "?n - 1 \<noteq> 0" "unat ?n \<noteq> 1" by (simp, auto simp: word_unat_eq_iff)
        with True held m cur n show ?thesis
          by (auto simp: xQueueGiveMutexRecursive_def mutex_ok_def lock_of_def is_mutex_def on_que_def Let_def)
      qed
    next
      case False
      then show ?thesis using held ok cur by (simp add: xQueueGiveMutexRecursive_def)
    qed
  qed
qed

lemma mutex_step_refines:
  assumes "mutex_ok s" "t \<noteq> 0" "runs_tasks K become"
  shows "case lock_step (t, c) (lock_of s) of None \<Rightarrow> mutex_step K become (t, c) s = None
    | Some (r, l) \<Rightarrow> \<exists>s'. mutex_step K become (t, c) s = Some (r, s') \<and> mutex_ok s' \<and> lock_of s' = l"
proof -
  let ?s = "on_kern (become t) s"
  have "mutex_ok ?s" "lock_of ?s = lock_of s"
    using assms(1) by (simp_all add: mutex_ok_def is_mutex_def lock_of_def on_kern_def)
  moreover have "xTaskGetCurrentTaskHandle K (kern ?s) = t"
    "fst (pvTaskIncrementMutexHeldCount K (kern ?s)) = t"
    using runs_tasksD [OF assms(3)] by (simp_all add: on_kern_def)
  ultimately show ?thesis
    using take_recursive [of ?s t K] give_recursive [of ?s t K] assms(2)
    unfolding mutex_step_def prod.case by (cases c; hypsubst; simp only: mutex_call.case)
qed

section \<open>Waiting for a semaphore\<close>

lemma mutex_inherit_same: "queue_same s (snd (mutex_inherit K b s))"
  by (simp add: mutex_inherit_def queue_same_def Let_def split: prod.split)

lemmas take_round_keeps = wait_round_keeps [OF _ _ mutex_inherit_same]

lemma take_loop_linearizes:
  assumes keeps: "respected K I" and start: "I s" and run: "take_loop K ticks t inh s = Some r"
  shows "if fst r then \<exists>u. I u \<and> 0 < uxMessagesWaiting (que u) \<and> snd r = take_semaphore K u
    else I (snd r) \<and> uxMessagesWaiting (que (snd r)) = 0"
proof -
  let ?post = "\<lambda>K ticks t inh s r. respected K I \<longrightarrow> I s \<longrightarrow>
    (if fst r then \<exists>u. I u \<and> 0 < uxMessagesWaiting (que u) \<and> snd r = take_semaphore K u
     else I (snd r) \<and> uxMessagesWaiting (que (snd r)) = 0)"
  have "?post K ticks t inh s r"
  proof (rule take_loop.raw_induct [where P = ?post, OF _ run], intro impI)
    fix f K' n t' i' s' r'
    assume IH: "\<And>K ticks t inh s r. f K ticks t inh s = Some r \<Longrightarrow> ?post K ticks t inh s r"
      and k: "respected K' I" and I: "I s'"
      and eq: "(if uxMessagesWaiting (que s') > 0 then Some (True, take_semaphore K' s')
        else if n = 0 then Some (False, s')
        else Option.bind (wait_round K' xTasksWaitingToReceive prvIsQueueEmpty (mutex_inherit K') i'
             (entry_time K' t' s') n s')
          (\<lambda>r. if fst (fst r) \<and> prvIsQueueEmpty (snd r)
             then Some (False, if i'
               then on_kern (vTaskPriorityDisinheritAfterTimeout K' (pcTail_xMutexHolder (que (snd r)))
                               (prvGetHighestPriorityOfWaitToReceiveList K' (snd r))) (snd r)
               else snd r)
             else f K' (fst (snd (snd (fst r)))) (Some (fst (snd (fst r))))
                    (snd (snd (snd (fst r)))) (snd r))) = Some r'"
    show "if fst r' then \<exists>u. I u \<and> 0 < uxMessagesWaiting (que u) \<and> snd r' = take_semaphore K' u
      else I (snd r') \<and> uxMessagesWaiting (que (snd r')) = 0"
    proof (cases "uxMessagesWaiting (que s') > 0 \<or> n = 0")
      case True
      then show ?thesis using eq I by (auto simp: word_gt_0 split: if_splits)
    next
      case False
      then obtain w u where w: "wait_round K' xTasksWaitingToReceive prvIsQueueEmpty (mutex_inherit K') i'
          (entry_time K' t' s') n s' = Some (w, u)"
        using eq by (auto simp: Option.bind_eq_Some_conv)
      from take_round_keeps [OF k I w] have u: "I u" .
      have "I (on_kern g u)" for g
        by (rule respected_same [OF k u]) simp
      then show ?thesis
        using eq False w k u IH [of K' "fst (snd (snd w))" "Some (fst (snd w))" "snd (snd (snd w))" u r']
        by (auto simp: prvIsQueueEmpty_def on_kern_def split: if_splits)
    qed
  qed
  with keeps start show ?thesis by blast
qed

text \<open>Priority inheritance does not turn back the clock either.\<close>

definition timely_inherit :: "'k kernel \<Rightarrow> bool" where
  "timely_inherit K \<longleftrightarrow> timely K \<and>
     (\<forall>h k. kernel_clock K (snd (xTaskPriorityInherit K h k)) = kernel_clock K k)"

lemma inherit_clock:
  "timely_inherit K \<Longrightarrow> kernel_clock K (kern (snd (mutex_inherit K b s))) = kernel_clock K (kern s)"
  by (auto simp: mutex_inherit_def timely_inherit_def Let_def split_beta)

lemma take_loop_returns:
  assumes K: "timely_inherit K" and "ticks \<noteq> 0xFFFFFFFF"
    and "\<And>x. t = Some x \<Longrightarrow> set_recently K x s"
  shows "\<exists>r. take_loop K ticks t inh s = Some r"
  using assms(2,3)
proof (induction "unat ticks" arbitrary: ticks t inh s rule: less_induct)
  case less
  have timely: "timely K" using K by (simp add: timely_inherit_def)
  show ?case
  proof (cases "0 < uxMessagesWaiting (que s) \<or> ticks = 0")
    case True
    then show ?thesis by (cases "0 < uxMessagesWaiting (que s)") (auto simp: take_loop_steps(1,2) word_gt_0)
  next
    case False
    then have empty: "uxMessagesWaiting (que s) = 0" by (simp add: word_gt_0)
    have "set_recently K (entry_time K t s) s" by (rule entry_recent) (rule less.prems(2))
    from wait_round_progress [where inherit = "mutex_inherit K", OF timely less.prems(1) this inherit_clock [OF K]]
    obtain e t' left i s' where
      w: "wait_round K xTasksWaitingToReceive prvIsQueueEmpty (mutex_inherit K) inh (entry_time K t s) ticks s =
          Some ((e, t', left, i), s')"
      and p: "if e then left = 0 else left < ticks \<and> set_recently K t' s'"
      by blast
    note step = take_loop_steps(3) [OF empty, of ticks K t inh]
    show ?thesis
    proof (cases e)
      case True
      with p False show ?thesis
        by (cases "uxMessagesWaiting (que s') = 0")
          (auto simp: step w prvIsQueueEmpty_def take_loop_steps(1) word_gt_0)
    next
      case going: False
      with p have "unat left < unat ticks" "left \<noteq> 0xFFFFFFFF"
        using u32_bound [of ticks] by (auto simp: word_less_nat_alt)
      with less.hyps [of left "Some t'" s' i] p going show ?thesis
        using False by (simp add: step w)
    qed
  qed
qed

end
