(* ===== verification/Rtos_Semaphore_Properties.thy ===== *)
theory Rtos_Semaphore_Properties
  imports Rtos_Semaphore Rtos_Queue_Properties
begin

text \<open>
  What the semaphores and mutexes of src/FreeRTOS/queue.c promise to the tasks that use them.
\<close>

section \<open>Examples\<close>

definition example_mutex :: "tick_clock qstate" where
  "example_mutex = \<lparr>que = \<lparr>pcHead = 0, pcWriteTo = 0x1000, pcTail_xMutexHolder = 0,
     pcReadFrom_uxRecursiveCallCount = 0, uxMessagesWaiting = 1, uxLength = 1, uxItemSize = 0,
     cRxLock = 0xFF, cTxLock = 0xFF\<rparr>, memory = (\<lambda>_. 0),
     kern = \<lparr>xTickCount = 0, xNumOfOverflows = 0\<rparr>\<rparr>"

definition example_semaphore :: "u32 \<Rightarrow> u32 \<Rightarrow> tick_clock qstate" where
  "example_semaphore count limit = \<lparr>que = \<lparr>pcHead = 0x1000, pcWriteTo = 0x1000,
     pcTail_xMutexHolder = 0x1000, pcReadFrom_uxRecursiveCallCount = 0x1000,
     uxMessagesWaiting = count, uxLength = limit, uxItemSize = 0, cRxLock = 0xFF, cTxLock = 0xFF\<rparr>,
     memory = (\<lambda>_. 0), kern = \<lparr>xTickCount = 0, xNumOfOverflows = 0\<rparr>\<rparr>"

text \<open>A kernel whose state is the running task.\<close>

definition task_kernel :: "u32 kernel" where
  "task_kernel = \<lparr>listIS_EMPTY = \<lambda>_ _. True, vListInitialise_both = id, head_item_value = \<lambda>_ _. 0,
     xTaskRemoveFromEventList = \<lambda>_ k. (False, k), vTaskPlaceOnEventList = \<lambda>_ _. id,
     portYIELD_WITHIN_API = id, vTaskMissedYield = id, vTaskSuspendAll = id,
     xTaskResumeAll = \<lambda>k. (False, k), scheduler_suspended = \<lambda>_. False,
     uxTaskGetNumberOfTasks = \<lambda>_. 3, xTaskGetCurrentTaskHandle = id,
     pvTaskIncrementMutexHeldCount = \<lambda>k. (k, k), xTaskPriorityInherit = \<lambda>_ k. (False, k),
     xTaskPriorityDisinherit = \<lambda>_ k. (False, k), vTaskPriorityDisinheritAfterTimeout = \<lambda>_ _. id,
     kernel_clock = \<lambda>_. \<lparr>xTickCount = 0, xNumOfOverflows = 0\<rparr>, others = Some, interrupts = Some\<rparr>"

lemma task_kernel_runs: "runs_tasks task_kernel (\<lambda>t _. t)"
  by (simp add: runs_tasks_def task_kernel_def)

lemma idle_timely_inherit: "timely_inherit idle_kernel"
  using idle_timely by (simp add: timely_inherit_def idle_kernel_def)

section \<open>Mutual exclusion\<close>

text \<open>
  C29: A recursive mutex is a lock. Let any tasks take and give it, in any order, without block time.
  Each call has exactly the result of a lock that is free or held by one task a number of times: only
  the holder can give, everybody else's take fails while it is held, it is free again after as many
  gives as takes, and only a count beyond 32 bits stops the program. So two tasks never hold it at
  once. The kernel is assumed to say truly which task is running, and task handles are not NULL.
\<close>
theorem recursive_mutex_refines_lock:
  assumes "mutex_ok s" "runs_tasks K become" "\<forall>(t, c)\<in>set cs. t \<noteq> 0"
  shows "case lock_run cs (lock_of s) of None \<Rightarrow> mutex_run K become cs s = None
    | Some (rs, l) \<Rightarrow> \<exists>s'. mutex_run K become cs s = Some (rs, s') \<and> mutex_ok s' \<and> lock_of s' = l"
  using assms(1,3)
proof (induction cs arbitrary: s)
  case (Cons tc cs)
  obtain t c where tc: "tc = (t, c)" "t \<noteq> 0" using Cons.prems(2) by (cases tc) auto
  show ?case
  proof (cases "lock_step tc (lock_of s)")
    case None
    then show ?thesis using mutex_step_refines [OF Cons.prems(1) tc(2) assms(2), of c] by (simp add: tc)
  next
    case (Some rl)
    then obtain r l s1 where step: "lock_step tc (lock_of s) = Some (r, l)"
      "mutex_step K become tc s = Some (r, s1)" "mutex_ok s1" "lock_of s1 = l"
      using mutex_step_refines [OF Cons.prems(1) tc(2) assms(2), of c] by (cases rl) (auto simp: tc)
    show ?thesis
      using Cons.IH [OF step(3)] Cons.prems(2) step by (auto split: option.splits)
  qed
qed simp

theorem recursive_mutex_refines_lock_witness:
  "\<exists>s'. mutex_run task_kernel (\<lambda>t _. t)
      [(1, TakeRecursive), (1, TakeRecursive), (2, TakeRecursive), (2, GiveRecursive), (1, GiveRecursive),
       (2, TakeRecursive), (1, GiveRecursive), (2, TakeRecursive)]
      \<lparr>que = que example_mutex, memory = (\<lambda>_. 0), kern = 1\<rparr> =
    Some ([True, True, False, False, True, False, True, True], s') \<and> lock_of s' = Some (2, 1)"
proof -
  let ?cs = "[(1, TakeRecursive), (1, TakeRecursive), (2, TakeRecursive), (2, GiveRecursive),
       (1, GiveRecursive), (2, TakeRecursive), (1, GiveRecursive), (2, TakeRecursive)] :: (u32 \<times> mutex_call) list"
  let ?s = "\<lparr>que = que example_mutex, memory = (\<lambda>_. 0), kern = 1\<rparr> :: u32 qstate"
  have "mutex_ok ?s" "lock_of ?s = None"
    by (simp_all add: mutex_ok_def is_mutex_def lock_of_def example_mutex_def)
  with recursive_mutex_refines_lock [OF _ task_kernel_runs, of ?s ?cs] show ?thesis
    by (auto simp del: mutex_run.simps)
qed

text \<open>A mutex is free, and then without holder, or taken.\<close>

definition mutex_wf :: "'k qstate \<Rightarrow> bool" where
  "mutex_wf s \<longleftrightarrow> is_mutex s \<and> (uxMessagesWaiting (que s) = 0 \<or>
      uxMessagesWaiting (que s) = 1 \<and> pcTail_xMutexHolder (que s) = 0)"

text \<open>
  Waiting for a mutex keeps exclusion. Whatever other tasks and interrupts do, as long as they
  keep the mutex well-formed, a task whose take returned pdTRUE took it at one moment at which it was
  free, and is then recorded as its holder; a take that returned pdFALSE ended in a moment at which
  the mutex was held. In both cases the mutex is still well-formed.
\<close>
theorem blocking_take_is_exclusive:
  assumes "respected K mutex_wf"
    and "mutex_wf s" "xQueueSemaphoreTake K ticks s = Some (r, s')"
  shows "is_mutex s' \<and> uxMessagesWaiting (que s') = 0 \<and>
    (r \<longrightarrow> (\<exists>u. mutex_wf u \<and> uxMessagesWaiting (que u) = 1 \<and>
      pcTail_xMutexHolder (que s') = fst (pvTaskIncrementMutexHeldCount K (kern u))))"
proof -
  from assms(3) have "take_loop K ticks None False s = Some (r, s')"
    by (auto simp: xQueueSemaphoreTake_def split: if_splits)
  note outcome = take_loop_linearizes [OF assms(1,2) this]
  show ?thesis
  proof (cases r)
    case True
    with outcome obtain u where
      u: "mutex_wf u" "0 < uxMessagesWaiting (que u)" "s' = take_semaphore K u" by auto
    from take_semaphore_same [of K u] obtain v where "que v = taken K u" "queue_same v s'"
      by (auto simp: u(3))
    with u show ?thesis by (auto simp: mutex_wf_def taken_def is_mutex_def dest!: queue_same_que)
  qed (use outcome in \<open>auto simp: mutex_wf_def\<close>)
qed

lemma idle_respects_mutex:
  "respected idle_kernel mutex_wf"
  unfolding respected_def
proof (intro allI impI)
  fix s t :: "tick_clock qstate"
  assume I: "mutex_wf s"
    and "others idle_kernel s = Some t \<or> interrupts idle_kernel s = Some t \<or> queue_same s t"
  then have "queue_same s t" by (auto simp: idle_kernel_def)
  from queue_same_que [OF this] I
  show "mutex_wf t"
    by (simp add: mutex_wf_def is_mutex_def)
qed

theorem blocking_take_is_exclusive_witness:
  "\<exists>r s'. xQueueSemaphoreTake idle_kernel 20 example_mutex = Some (r, s') \<and> r \<and>
     pcTail_xMutexHolder (que s') = 0x500"
proof -
  have now: "xQueueSemaphoreTake idle_kernel 20 example_mutex = Some (True, take_semaphore idle_kernel example_mutex)"
    by (simp add: xQueueSemaphoreTake_def take_loop_steps example_mutex_def idle_kernel_def)
  have "mutex_wf example_mutex"
    by (simp add: mutex_wf_def is_mutex_def example_mutex_def)
  from blocking_take_is_exclusive [OF idle_respects_mutex this now] now show ?thesis
    by (auto simp: idle_kernel_def)
qed

text \<open>
  Taking a semaphore or mutex with a finite block time returns, even if every wake-up finds it
  taken again, and also when the waiting task lends its priority to the holder.
\<close>
theorem semaphore_take_returns:
  assumes "timely_inherit K" "ticks \<noteq> 0xFFFFFFFF" "scheduler_suspended K (kern s) \<longrightarrow> ticks = 0"
    and "uxItemSize (que s) = 0"
  shows "\<exists>r. xQueueSemaphoreTake K ticks s = Some r"
  using take_loop_returns [OF assms(1,2), of None] assms(3,4) by (auto simp: xQueueSemaphoreTake_def)

theorem semaphore_take_returns_witness:
  "\<exists>r. xQueueSemaphoreTake idle_kernel 1000 (example_semaphore 0 1) = Some r"
  using semaphore_take_returns [OF idle_timely_inherit, of 1000 "example_semaphore 0 1"]
  by (simp add: idle_kernel_def example_semaphore_def)

section \<open>Counting\<close>



text \<open>
  Giving from an interrupt: the assertions stop the program for a queue that has items and for a
  mutex that is held; otherwise, on a semaphore that no task has locked, the call adds one to a count
  below the limit and fails, changing nothing, at the limit.
\<close>
theorem give_from_isr:
  shows "(uxItemSize (que s) \<noteq> 0 \<or> is_mutex s \<and> pcTail_xMutexHolder (que s) \<noteq> 0 \<longrightarrow>
      xQueueGiveFromISR K s = None) \<and>
    (is_semaphore s \<and> cTxLock (que s) = 0xFF \<longrightarrow>
      (\<exists>w s'. xQueueGiveFromISR K s = Some (sem_count s < sem_limit s, w, s') \<and>
        sem_count s' = (if sem_count s < sem_limit s then sem_count s + 1 else sem_count s) \<and>
        (sem_count s = sem_limit s \<longrightarrow> s' = s)))"
proof (intro conjI impI)
  assume "uxItemSize (que s) \<noteq> 0 \<or> is_mutex s \<and> pcTail_xMutexHolder (que s) \<noteq> 0"
  then show "xQueueGiveFromISR K s = None" by (auto simp: xQueueGiveFromISR_def is_mutex_def)
next
  assume s: "is_semaphore s \<and> cTxLock (que s) = 0xFF"
  let ?u = "on_que (\<lambda>q. q\<lparr>uxMessagesWaiting := uxMessagesWaiting q + 1\<rparr>) s"
  have run: "xQueueGiveFromISR K s =
      (if sem_count s < sem_limit s then Some (True, wake_from_isr K xTasksWaitingToReceive ?u)
       else Some (False, False, s))"
    using s by (simp add: xQueueGiveFromISR_def is_semaphore_def sem_count_def sem_limit_def Let_def
        word_less_nat_alt split_beta)
  have "sem_count (snd (wake_from_isr K xTasksWaitingToReceive ?u)) = unat (uxMessagesWaiting (que s) + 1)"
    using queue_same_que [OF queue_same_isr(1) [of ?u K xTasksWaitingToReceive]]
    by (simp add: sem_count_def on_que_def)
  moreover have "sem_count s < sem_limit s \<Longrightarrow> unat (uxMessagesWaiting (que s) + 1) = sem_count s + 1"
    using unat_steps(2) [of "uxMessagesWaiting (que s)" "uxLength (que s)"]
    by (simp add: sem_count_def sem_limit_def word_less_nat_alt)
  ultimately show "\<exists>w s'. xQueueGiveFromISR K s = Some (sem_count s < sem_limit s, w, s') \<and>
      sem_count s' = (if sem_count s < sem_limit s then sem_count s + 1 else sem_count s) \<and>
      (sem_count s = sem_limit s \<longrightarrow> s' = s)"
    using run by (cases "wake_from_isr K xTasksWaitingToReceive ?u") auto
qed

theorem give_from_isr_witness:
  "\<exists>w s'. xQueueGiveFromISR idle_kernel (example_semaphore 0 1) = Some (True, w, s') \<and> sem_count s' = 1"
  using give_from_isr [of "example_semaphore 0 1" idle_kernel]
  by (auto simp: is_semaphore_def example_semaphore_def sem_count_def sem_limit_def)

section \<open>Creation and deletion\<close>

lemma create_without_storage:
  assumes "xQueueGenericCreate K ucHeap len 0 (h, s) = Some (p, h', s')" "p \<noteq> 0"
  shows "pcHead (que s') = p \<and> uxMessagesWaiting (que s') = 0 \<and> uxLength (que s') = len \<and>
    uxItemSize (que s') = 0 \<and> unlocked s'"
  using assms
  by (auto simp: xQueueGenericCreate_def prvInitialiseNewQueue_def xQueueGenericReset_def on_que_def
      on_kern_def unlocked_def Let_def split: if_splits prod.splits)

lemma initialise_mutex_frees:
  assumes "uxMessagesWaiting (que s) = 0" "uxLength (que s) = 1" "uxItemSize (que s) = 0" "p \<noteq> 0"
  shows "\<exists>s'. prvInitialiseMutex K p s = Some s' \<and> mutex_ok s' \<and> lock_of s' = None"
proof -
  let ?s = "on_que (\<lambda>q. q\<lparr>pcReadFrom_uxRecursiveCallCount := 0\<rparr>)
    (on_que (\<lambda>q. q\<lparr>pcHead := queueQUEUE_IS_MUTEX\<rparr>) (on_que (\<lambda>q. q\<lparr>pcTail_xMutexHolder := 0\<rparr>) s))"
  have "uxItemSize (que ?s) = 0" "uxMessagesWaiting (que ?s) < uxLength (que ?s)"
    using assms by (simp_all add: on_que_def)
  from xSemaphoreGive_now [OF this(1), of K] this(2) obtain u s' where
    "xSemaphoreGive K ?s = Some (True, s')" "que u = given ?s" "queue_same u s'" by auto
  with assms show ?thesis
    by (auto simp: prvInitialiseMutex_def Let_def mutex_ok_def is_mutex_def lock_of_def given_def on_que_def
        dest!: queue_same_que)
qed

text \<open>
  A mutex is created free, and a counting semaphore with its initial count and limit; creating
  one with a limit of 0 or an initial count above the limit stops the program. Neither can be deleted
  again: with heap_1, deleting any queue, semaphore or mutex but NULL stops the program, and so does
  deleting NULL.
\<close>
theorem create_semaphores:
  shows "(xQueueCreateMutex K ucHeap (h, s) = Some (p, h', s') \<and> p \<noteq> 0 \<longrightarrow>
      mutex_ok s' \<and> lock_of s' = None) \<and>
    (xQueueCreateCountingSemaphore K ucHeap limit initial (h, s) = Some (p, h', s') \<and> p \<noteq> 0 \<longrightarrow>
      is_semaphore s' \<and> uxMessagesWaiting (que s') = initial \<and> uxLength (que s') = limit \<and> initial \<le> limit) \<and>
    (limit = 0 \<or> limit < initial \<longrightarrow> xQueueCreateCountingSemaphore K ucHeap limit initial (h, s) = None) \<and>
    vQueueDelete q h = None"
proof (intro conjI impI)
  assume a: "xQueueCreateMutex K ucHeap (h, s) = Some (p, h', s') \<and> p \<noteq> 0"
  then obtain t where t: "xQueueGenericCreate K ucHeap 1 0 (h, s) = Some (p, h', t)"
    "prvInitialiseMutex K p t = Some s'"
    by (auto simp: xQueueCreateMutex_def Option.bind_eq_Some_conv)
  from create_without_storage [OF t(1)] a initialise_mutex_frees [of t p K] t(2)
  show "mutex_ok s'" "lock_of s' = None" by auto
next
  assume a: "xQueueCreateCountingSemaphore K ucHeap limit initial (h, s) = Some (p, h', s') \<and> p \<noteq> 0"
  then obtain t where t: "xQueueGenericCreate K ucHeap limit 0 (h, s) = Some (p, h', t)"
    "s' = on_que (\<lambda>q. q\<lparr>uxMessagesWaiting := initial\<rparr>) t" "initial \<le> limit"
    by (auto simp: xQueueCreateCountingSemaphore_def Option.bind_eq_Some_conv split: if_splits)
  from create_without_storage [OF t(1)] a t(2,3)
  show "is_semaphore s'" "uxMessagesWaiting (que s') = initial" "uxLength (que s') = limit" "initial \<le> limit"
    by (auto simp: is_semaphore_def on_que_def)
next
  assume "limit = 0 \<or> limit < initial"
  then show "xQueueCreateCountingSemaphore K ucHeap limit initial (h, s) = None"
    by (auto simp: xQueueCreateCountingSemaphore_def)
next
  show "vQueueDelete q h = None" by (simp add: vQueueDelete_def vPortFree_def)
qed

theorem create_semaphores_witness:
  "\<exists>p h' s'. xQueueCreateCountingSemaphore idle_kernel 0xA0000000 3 2
      (\<lparr>pucAlignedHeap = 0, xNextFreeByte = 0\<rparr>, example_queue 1) = Some (p, h', s') \<and>
    is_semaphore s' \<and> uxMessagesWaiting (que s') = 2"
proof -
  let ?h = "\<lparr>pucAlignedHeap = 0, xNextFreeByte = 0\<rparr> :: heap_1"
  have inv: "heap_inv 0xA0000000 ?h" by (simp add: heap_inv_def)
  have "aligned_base 0xA0000000 = 0xA0000000" by (simp add: aligned_base_def)
  then have "\<exists>p h' s'. xQueueCreateCountingSemaphore idle_kernel 0xA0000000 3 2 (?h, example_queue 1) =
      Some (p, h', s') \<and> p \<noteq> 0"
    by (simp add: xQueueCreateCountingSemaphore_def xQueueGenericCreate_def pvPortMalloc_spec [OF inv]
        rounded_def prvInitialiseNewQueue_def xQueueGenericReset_def on_que_def Let_def)
  with create_semaphores [of idle_kernel "0xA0000000" ?h "example_queue 1" _ _ _ 3 2] show ?thesis
    by fastforce
qed

end
