(* ===== verification/Sys_Arch.thy ===== *)
theory Sys_Arch
  imports Rtos_Semaphore Fifo_Interface
begin

text \<open>
  The operating system layer of lwIP, src/lwIP/sys_arch/sys_arch.c: mailboxes, semaphores and
  mutexes as clients of the FreeRTOS queues. lwipopts.h sets LWIP_NOASSERT, so every LWIP_ASSERT is
  empty and is not modelled; LWIP_STATS is 0, so there are no statistics. A handle that is NULL stops
  in the configASSERT of the queue call. One tick is one millisecond.
\<close>

section \<open>Data\<close>

datatype err = ERR_OK | ERR_MEM | ERR_NEED_SCHED

record sys_mutex =
  mut :: u32

record sys_sem =
  sem :: u32

record sys_mbox =
  mbx :: u32

abbreviation (input) portMAX_DELAY :: u32 where "portMAX_DELAY \<equiv> 0xFFFFFFFF"
abbreviation (input) portTICK_RATE_MS :: u32 where "portTICK_RATE_MS \<equiv> 1"
abbreviation (input) SYS_ARCH_TIMEOUT :: u32 where "SYS_ARCH_TIMEOUT \<equiv> 0xFFFFFFFF"
abbreviation (input) SYS_MBOX_EMPTY :: u32 where "SYS_MBOX_EMPTY \<equiv> 0xFFFFFFFF"

text \<open>A message is a pointer; the queue copies its four bytes, the lowest first.\<close>

definition ptr_bytes :: "u32 \<Rightarrow> bytes_at" where
  "ptr_bytes p i = ucast (drop_bit (8 * i) p)"

definition ptr_of :: "u8 list \<Rightarrow> u32" where
  "ptr_of bs = ucast (bs ! 0) OR push_bit 8 (ucast (bs ! 1)) OR push_bit 16 (ucast (bs ! 2)) OR
     push_bit 24 (ucast (bs ! 3))"

text \<open>A call through a handle; the queue functions assert that it is not NULL.\<close>

definition through :: "u32 \<Rightarrow> 'a option \<Rightarrow> 'a option" where
  "through handle call = (if handle = 0 then None else call)"

section \<open>Time\<close>

definition sys_now :: "tick_clock \<Rightarrow> u32" where
  "sys_now c = xTickCount c * portTICK_RATE_MS"

definition sys_jiffies :: "tick_clock \<Rightarrow> u32" where
  "sys_jiffies c = xTickCount c"

definition sys_arch_msleep :: "(u32 \<Rightarrow> 'k \<Rightarrow> 'k option) \<Rightarrow> u32 \<Rightarrow> 'k \<Rightarrow> 'k option" where
  "sys_arch_msleep vTaskDelay delay_ms k =
     (let delay_ticks = delay_ms div portTICK_RATE_MS in vTaskDelay delay_ticks k)"

section \<open>Mutexes\<close>

text \<open>The results carry the state of the heap and of the queue the handle stands for.\<close>

definition sys_mutex_new ::
  "'k kernel \<Rightarrow> u32 \<Rightarrow> sys_mutex \<Rightarrow> heap_1 \<times> 'k qstate \<Rightarrow> (err \<times> sys_mutex \<times> heap_1 \<times> 'k qstate) option" where
  "sys_mutex_new K ucHeap mutex hs = do {
     (handle, h, s) \<leftarrow> xQueueCreateMutex K ucHeap hs;
     let mutex = mutex\<lparr>mut := handle\<rparr>;
     if mut mutex = 0 then Some (ERR_MEM, mutex, h, s) else Some (ERR_OK, mutex, h, s)
   }"

definition sys_mutex_lock :: "'k kernel \<Rightarrow> sys_mutex \<Rightarrow> 'k qstate \<Rightarrow> 'k qstate option" where
  "sys_mutex_lock K mutex s =
     through (mut mutex) (map_option snd (xQueueTakeMutexRecursive K portMAX_DELAY s))"

definition sys_mutex_unlock :: "'k kernel \<Rightarrow> sys_mutex \<Rightarrow> 'k qstate \<Rightarrow> 'k qstate option" where
  "sys_mutex_unlock K mutex s =
     through (mut mutex) (map_option snd (xQueueGiveMutexRecursive K s))"

definition sys_mutex_free :: "sys_mutex \<Rightarrow> heap_1 \<Rightarrow> (sys_mutex \<times> heap_1) option" where
  "sys_mutex_free mutex h = do {
     h \<leftarrow> vQueueDelete (mut mutex) h;
     Some (mutex\<lparr>mut := 0\<rparr>, h)
   }"

section \<open>Semaphores\<close>

definition sys_sem_new ::
  "'k kernel \<Rightarrow> u32 \<Rightarrow> sys_sem \<Rightarrow> u8 \<Rightarrow> heap_1 \<times> 'k qstate \<Rightarrow> (err \<times> sys_sem \<times> heap_1 \<times> 'k qstate) option" where
  "sys_sem_new K ucHeap se initial_count hs = do {
     (handle, h, s) \<leftarrow> xQueueGenericCreate K ucHeap 1 0 hs;
     let se = se\<lparr>sem := handle\<rparr>;
     if sem se = 0 then Some (ERR_MEM, se, h, s)
     else if initial_count = 1 then do {
       (_, s) \<leftarrow> xSemaphoreGive K s;
       Some (ERR_OK, se, h, s)
     }
     else Some (ERR_OK, se, h, s)
   }"

definition sys_sem_signal :: "'k kernel \<Rightarrow> sys_sem \<Rightarrow> 'k qstate \<Rightarrow> 'k qstate option" where
  "sys_sem_signal K se s = through (sem se) (map_option snd (xSemaphoreGive K s))"

definition sys_arch_sem_wait :: "'k kernel \<Rightarrow> sys_sem \<Rightarrow> u32 \<Rightarrow> 'k qstate \<Rightarrow> (u32 \<times> 'k qstate) option" where
  "sys_arch_sem_wait K se timeout_ms s =
     (if timeout_ms = 0 then do {
        (_, s) \<leftarrow> through (sem se) (xQueueSemaphoreTake K portMAX_DELAY s);
        Some (1, s)
      }
      else do {
        (ret, s) \<leftarrow> through (sem se) (xQueueSemaphoreTake K (timeout_ms div portTICK_RATE_MS) s);
        Some (if \<not> ret then SYS_ARCH_TIMEOUT else 1, s)
      })"

definition sys_sem_free :: "sys_sem \<Rightarrow> heap_1 \<Rightarrow> (sys_sem \<times> heap_1) option" where
  "sys_sem_free se h = do {
     h \<leftarrow> vQueueDelete (sem se) h;
     Some (se\<lparr>sem := 0\<rparr>, h)
   }"

section \<open>Mailboxes\<close>

definition sys_mbox_new ::
  "'k kernel \<Rightarrow> u32 \<Rightarrow> sys_mbox \<Rightarrow> u32 \<Rightarrow> heap_1 \<times> 'k qstate \<Rightarrow> (err \<times> sys_mbox \<times> heap_1 \<times> 'k qstate) option" where
  "sys_mbox_new K ucHeap mbox siz hs = do {
     (handle, h, s) \<leftarrow> xQueueGenericCreate K ucHeap siz 4 hs;
     let mbox = mbox\<lparr>mbx := handle\<rparr>;
     if mbx mbox = 0 then Some (ERR_MEM, mbox, h, s) else Some (ERR_OK, mbox, h, s)
   }"

definition sys_mbox_post :: "'k kernel \<Rightarrow> sys_mbox \<Rightarrow> u32 \<Rightarrow> 'k qstate \<Rightarrow> 'k qstate option" where
  "sys_mbox_post K mbox msg s = through (mbx mbox)
     (map_option snd (xQueueGenericSend K (Some (ptr_bytes msg)) portMAX_DELAY queueSEND_TO_BACK s))"

definition sys_mbox_trypost :: "'k kernel \<Rightarrow> sys_mbox \<Rightarrow> u32 \<Rightarrow> 'k qstate \<Rightarrow> (err \<times> 'k qstate) option" where
  "sys_mbox_trypost K mbox msg s = do {
     (ret, s) \<leftarrow> through (mbx mbox) (xQueueGenericSend K (Some (ptr_bytes msg)) 0 queueSEND_TO_BACK s);
     Some (if ret then ERR_OK else ERR_MEM, s)
   }"

definition sys_mbox_trypost_fromisr ::
  "'k kernel \<Rightarrow> sys_mbox \<Rightarrow> u32 \<Rightarrow> 'k qstate \<Rightarrow> (err \<times> 'k qstate) option" where
  "sys_mbox_trypost_fromisr K mbox msg s = do {
     (ret, woken, s) \<leftarrow>
       through (mbx mbox) (xQueueGenericSendFromISR K (Some (ptr_bytes msg)) queueSEND_TO_BACK s);
     Some (if ret then (if woken then ERR_NEED_SCHED else ERR_OK) else ERR_MEM, s)
   }"

text \<open>The second component is what the call stored through \<open>msg\<close>, \<open>None\<close> if it stored nothing.\<close>

definition sys_arch_mbox_fetch ::
  "'k kernel \<Rightarrow> sys_mbox \<Rightarrow> u32 \<Rightarrow> 'k qstate \<Rightarrow> (u32 \<times> u32 option \<times> 'k qstate) option" where
  "sys_arch_mbox_fetch K mbox timeout_ms s =
     (if timeout_ms = 0 then do {
        (bytes, s) \<leftarrow> through (mbx mbox) (xQueueReceive K True portMAX_DELAY s);
        Some (1, map_option ptr_of bytes, s)
      }
      else do {
        (bytes, s) \<leftarrow> through (mbx mbox) (xQueueReceive K True (timeout_ms div portTICK_RATE_MS) s);
        Some (case bytes of None \<Rightarrow> (SYS_ARCH_TIMEOUT, Some 0, s) | Some bs \<Rightarrow> (1, Some (ptr_of bs), s))
      })"

definition sys_arch_mbox_tryfetch ::
  "'k kernel \<Rightarrow> sys_mbox \<Rightarrow> 'k qstate \<Rightarrow> (u32 \<times> u32 option \<times> 'k qstate) option" where
  "sys_arch_mbox_tryfetch K mbox s = do {
     (bytes, s) \<leftarrow> through (mbx mbox) (xQueueReceive K True 0 s);
     Some (case bytes of None \<Rightarrow> (SYS_MBOX_EMPTY, Some 0, s) | Some bs \<Rightarrow> (0, Some (ptr_of bs), s))
   }"

text \<open>Unlike the others, this one leaves the handle as it is.\<close>

definition sys_mbox_free :: "sys_mbox \<Rightarrow> heap_1 \<Rightarrow> (sys_mbox \<times> heap_1) option" where
  "sys_mbox_free mbox h = do {
     h \<leftarrow> vQueueDelete (mbx mbox) h;
     Some (mbox, h)
   }"

section \<open>Critical sections\<close>

text \<open>
  \<open>sys_arch_protect\<close> enters a critical section of src/FreeRTOS/tasks.c; the nesting count belongs
  to the running task.
\<close>

record critical =
  interrupts_enabled :: bool
  xSchedulerRunning :: bool
  uxCriticalNesting :: u32

definition vTaskEnterCritical :: "critical \<Rightarrow> critical" where
  "vTaskEnterCritical c =
     (let c = c\<lparr>interrupts_enabled := False\<rparr>
      in if xSchedulerRunning c then c\<lparr>uxCriticalNesting := uxCriticalNesting c + 1\<rparr> else c)"

definition vTaskExitCritical :: "critical \<Rightarrow> critical option" where
  "vTaskExitCritical c =
     (if xSchedulerRunning c
      then (if uxCriticalNesting c = 0 then None
            else (let c = c\<lparr>uxCriticalNesting := uxCriticalNesting c - 1\<rparr>
                  in Some (if uxCriticalNesting c = 0 then c\<lparr>interrupts_enabled := True\<rparr> else c)))
      else Some c)"

definition sys_arch_protect :: "critical \<Rightarrow> u32 \<times> critical" where
  "sys_arch_protect c = (1, vTaskEnterCritical c)"

definition sys_arch_unprotect :: "u32 \<Rightarrow> critical \<Rightarrow> critical option" where
  "sys_arch_unprotect pval c = vTaskExitCritical c"

end
