(* ===== verification/Rtos_Forever.thy ===== *)
theory Rtos_Forever
  imports Rtos_Semaphore
begin

text \<open>
  A block time of portMAX_DELAY: a blocking call of src/FreeRTOS/queue.c with it returns only with
  success.
\<close>

lemma wait_round_forever:
  assumes "wait_round K l blocked inherit inh t 0xFFFFFFFF s = Some ((e, t', left, i), s')"
  shows "\<not> e \<and> left = 0xFFFFFFFF"
proof -
  have "xTaskCheckForTimeOut c t 0xFFFFFFFF = (False, t, 0xFFFFFFFF)" for c
    by (simp add: xTaskCheckForTimeOut_def Let_def)
  with assms show ?thesis
    by (auto simp: wait_round_def Let_def Option.bind_eq_Some_conv split: if_splits prod.splits)
qed

lemma send_forever:
  assumes run: "send_loop K item p 0xFFFFFFFF t s = Some r"
  shows "fst r"
proof -
  let ?post = "\<lambda>(K :: 'a kernel) (item :: bytes_at) (p :: copy_position) (ticks :: u32)
    (t :: time_out option) (s :: 'a qstate) (r :: bool \<times> 'a qstate). ticks = 0xFFFFFFFF \<longrightarrow> fst r"
  have "?post K item p 0xFFFFFFFF t s r"
  proof (rule send_loop.raw_induct [where P = ?post, OF _ run], intro impI)
    fix f K item p n and t :: "time_out option" and s :: "'a qstate" and r
    assume IH: "\<And>K item p ticks t s r. f K item p ticks t s = Some r \<Longrightarrow> ?post K item p ticks t s r"
      and n: "n = (0xFFFFFFFF :: u32)"
      and eq: "(if uxMessagesWaiting (que s) < uxLength (que s) \<or> p = queueOVERWRITE
        then Some (True, wake_and_yield K xTasksWaitingToReceive
            (fst (prvCopyDataToQueue K item p s)) (snd (prvCopyDataToQueue K item p s)))
        else if n = 0 then Some (False, s)
        else Option.bind (wait_round K xTasksWaitingToSend prvIsQueueFull no_inherit False
              (entry_time K t s) n s)
          (\<lambda>r. if fst (fst r) then Some (False, snd r)
            else f K item p (fst (snd (snd (fst r)))) (Some (fst (snd (fst r)))) (snd r))) = Some r"
    show "fst r"
    proof (cases "uxMessagesWaiting (que s) < uxLength (que s) \<or> p = queueOVERWRITE")
      case True
      then show ?thesis using eq by auto
    next
      case False
      with eq n obtain e t' left i' s' where w: "wait_round K xTasksWaitingToSend prvIsQueueFull no_inherit False (entry_time K t s) n s = Some ((e, t', left, i'), s')"
        by (auto simp: Option.bind_eq_Some_conv)
      from wait_round_forever [OF w [unfolded n]] have "\<not> e" "left = 0xFFFFFFFF" by simp_all
      with eq False n w have "f K item p 0xFFFFFFFF (Some t') s' = Some r" by simp
      from IH [OF this] show ?thesis by simp
    qed
  qed
  then show ?thesis by simp
qed

lemma receive_forever:
  assumes run: "receive_loop K 0xFFFFFFFF t s = Some r"
  shows "fst r \<noteq> None"
proof -
  let ?post = "\<lambda>(K :: 'a kernel) (ticks :: u32) (t :: time_out option) (s :: 'a qstate)
    (r :: u8 list option \<times> 'a qstate). ticks = 0xFFFFFFFF \<longrightarrow> fst r \<noteq> None"
  have "?post K 0xFFFFFFFF t s r"
  proof (rule receive_loop.raw_induct [where P = ?post, OF _ run], intro impI)
    fix f K n and t :: "time_out option" and s :: "'a qstate" and r
    assume IH: "\<And>K ticks t s r. f K ticks t s = Some r \<Longrightarrow> ?post K ticks t s r"
      and n: "n = (0xFFFFFFFF :: u32)"
      and eq: "(if uxMessagesWaiting (que s) > 0
        then Some (Some (fst (prvCopyDataFromQueue s)), wake_and_yield K xTasksWaitingToSend False
            (on_que (\<lambda>q. q\<lparr>uxMessagesWaiting := uxMessagesWaiting (que s) - 1\<rparr>)
               (snd (prvCopyDataFromQueue s))))
        else if n = 0 then Some (None, s)
        else Option.bind (wait_round K xTasksWaitingToReceive prvIsQueueEmpty no_inherit False
              (entry_time K t s) n s)
          (\<lambda>r. if fst (fst r) \<and> prvIsQueueEmpty (snd r) then Some (None, snd r)
            else f K (fst (snd (snd (fst r)))) (Some (fst (snd (fst r)))) (snd r))) = Some r"
    show "fst r \<noteq> None"
    proof (cases "uxMessagesWaiting (que s) > 0")
      case True
      then show ?thesis using eq by auto
    next
      case False
      with eq n obtain e t' left i' s' where w: "wait_round K xTasksWaitingToReceive prvIsQueueEmpty no_inherit False
          (entry_time K t s) n s = Some ((e, t', left, i'), s')"
        by (auto simp: Option.bind_eq_Some_conv)
      from wait_round_forever [OF w [unfolded n]] have "\<not> e" "left = 0xFFFFFFFF" by simp_all
      with eq False n w have "f K 0xFFFFFFFF (Some t') s' = Some r" by simp
      from IH [OF this] show ?thesis by simp
    qed
  qed
  then show ?thesis by simp
qed

lemma take_forever:
  assumes run: "take_loop K 0xFFFFFFFF t inh s = Some r"
  shows "fst r"
proof -
  let ?post = "\<lambda>(K :: 'a kernel) (ticks :: u32) (t :: time_out option) (inh :: bool) (s :: 'a qstate)
    (r :: bool \<times> 'a qstate). ticks = 0xFFFFFFFF \<longrightarrow> fst r"
  have "?post K 0xFFFFFFFF t inh s r"
  proof (rule take_loop.raw_induct [where P = ?post, OF _ run], intro impI)
    fix f K n and t :: "time_out option" and i and s :: "'a qstate" and r
    assume IH: "\<And>K ticks t inh s r. f K ticks t inh s = Some r \<Longrightarrow> ?post K ticks t inh s r"
      and n: "n = (0xFFFFFFFF :: u32)"
      and eq: "(if uxMessagesWaiting (que s) > 0 then Some (True, take_semaphore K s)
        else if n = 0 then Some (False, s)
        else Option.bind (wait_round K xTasksWaitingToReceive prvIsQueueEmpty (mutex_inherit K) i
             (entry_time K t s) n s)
          (\<lambda>r. if fst (fst r) \<and> prvIsQueueEmpty (snd r)
             then Some (False, if i
               then on_kern (vTaskPriorityDisinheritAfterTimeout K (pcTail_xMutexHolder (que (snd r)))
                               (prvGetHighestPriorityOfWaitToReceiveList K (snd r))) (snd r)
               else snd r)
             else f K (fst (snd (snd (fst r)))) (Some (fst (snd (fst r))))
                    (snd (snd (snd (fst r)))) (snd r))) = Some r"
    show "fst r"
    proof (cases "uxMessagesWaiting (que s) > 0")
      case True
      then show ?thesis using eq by auto
    next
      case False
      with eq n obtain e t' left i' s' where w: "wait_round K xTasksWaitingToReceive prvIsQueueEmpty (mutex_inherit K) i
          (entry_time K t s) n s = Some ((e, t', left, i'), s')"
        by (auto simp: Option.bind_eq_Some_conv)
      from wait_round_forever [OF w [unfolded n]] have "\<not> e" "left = 0xFFFFFFFF" by simp_all
      with eq False n w have "f K 0xFFFFFFFF (Some t') i' s' = Some r" by simp
      from IH [OF this] show ?thesis by simp
    qed
  qed
  then show ?thesis by simp
qed

end
