(* ===== verification/Sys_Arch_Properties.thy ===== *)
theory Sys_Arch_Properties
  imports Sys_Arch Rtos_Forever Rtos_Semaphore_Properties
begin

text \<open>
  What src/lwIP/sys_arch/sys_arch.c gives to lwIP, derived from the properties of the queues.
\<close>

section \<open>Mailboxes\<close>

lemma ptr_of_bytes: "ptr_of [ptr_bytes p 0, ptr_bytes p 1, ptr_bytes p 2, ptr_bytes p 3] = p"
proof (rule bit_eqI)
  fix n assume "possible_bit TYPE(32 word) n"
  then have n: "n < 32" by simp
  consider "n < 8" | "8 \<le> n" "n < 16" | "16 \<le> n" "n < 24" | "24 \<le> n" by linarith
  then show "bit (ptr_of [ptr_bytes p 0, ptr_bytes p 1, ptr_bytes p 2, ptr_bytes p 3]) n = bit p n"
    by cases (use n in \<open>auto simp: ptr_of_def ptr_bytes_def bit_simps\<close>)
qed

text \<open>A mailbox with a handle, whose queue holds pointers.\<close>

definition mbox_ok :: "sys_mbox \<Rightarrow> 'k qstate \<Rightarrow> bool" where
  "mbox_ok m s \<longleftrightarrow> mbx m \<noteq> 0 \<and> queue_ok s \<and> uxItemSize (que s) = 4"

definition mbox_contents :: "'k qstate \<Rightarrow> u32 list" where
  "mbox_contents s = map ptr_of (items s)"

definition trypost :: "'k kernel \<Rightarrow> sys_mbox \<Rightarrow> u32 \<Rightarrow> 'k qstate \<Rightarrow> (bool \<times> 'k qstate) option" where
  "trypost K m msg s = map_option (\<lambda>(e, s). (e = ERR_OK, s)) (sys_mbox_trypost K m msg s)"

definition tryfetch :: "'k kernel \<Rightarrow> sys_mbox \<Rightarrow> 'k qstate \<Rightarrow> (u32 option \<times> 'k qstate) option" where
  "tryfetch K m s = map_option (\<lambda>(r, v, s). (if r = 0 then v else None, s)) (sys_arch_mbox_tryfetch K m s)"

lemma ptr_of_item:
  assumes "uxItemSize (que s) = 4"
  shows "ptr_of (item_bytes s (ptr_bytes p)) = p"
proof -
  have "[0..<4] = [0, 1, 2, 3 :: nat]" by (simp add: upt_rec)
  with ptr_of_bytes [of p] assms show ?thesis by (simp add: item_bytes_def)
qed

interpretation mailbox: fifo "trypost K m" "tryfetch K m" "mbox_ok m" mbox_contents
  "\<lambda>s. unat (uxLength (que s))" "\<lambda>_ p. p" for K m
proof (unfold_locales, goal_cases)
  case (1 s p)
  then have ok: "mbx m \<noteq> 0" "queue_ok s" "uxItemSize (que s) = 4" by (simp_all add: mbox_ok_def)
  from send_now [OF ok(2), of queueSEND_TO_BACK K 0 "ptr_bytes p"] obtain t where
    run: "xQueueGenericSend K (Some (ptr_bytes p)) 0 queueSEND_TO_BACK s = Some (has_room queueSEND_TO_BACK s, t)"
    and t: "if has_room queueSEND_TO_BACK s then has_put queueSEND_TO_BACK (ptr_bytes p) s t else t = s"
    by auto
  have "has_room queueSEND_TO_BACK s \<longleftrightarrow> length (items s) < unat (uxLength (que s))"
    using room_iff [OF ok(2)] by (simp add: has_room_def)
  moreover have "mbox_ok m t \<and> uxLength (que t) = uxLength (que s)"
    using t ok by (auto simp: mbox_ok_def has_put_def same_shape_def split: if_splits)
  ultimately show ?case
    using run t ok ptr_of_item [OF ok(3), of p]
    by (auto simp: trypost_def sys_mbox_trypost_def through_def mbox_contents_def has_put_def split: if_splits)
next
  case (2 s)
  then have ok: "mbx m \<noteq> 0" "queue_ok s" "uxItemSize (que s) = 4" by (simp_all add: mbox_ok_def)
  from receive_now [OF ok(2), of K 0] obtain r t where
    run: "xQueueReceive K True 0 s = Some (r, t)"
    and t: "case r of None \<Rightarrow> items s = [] \<and> t = s | Some bs \<Rightarrow> has_taken bs s t" by auto
  have "mbox_ok m t \<and> uxLength (que t) = uxLength (que s)"
    using t ok by (auto simp: mbox_ok_def has_taken_def same_shape_def split: option.splits)
  then show ?case
    using run t ok
    by (cases r) (auto simp: tryfetch_def sys_arch_mbox_tryfetch_def through_def mbox_contents_def has_taken_def)
qed

lemma example_mbox_ok: "mbox_ok \<lparr>mbx = 0x900\<rparr> (s\<lparr>que := (que (example_queue 2))\<lparr>uxItemSize := 4,
    pcTail_xMutexHolder := 0x1008, pcReadFrom_uxRecursiveCallCount := 0x1004\<rparr>\<rparr>)"
  by (simp add: mbox_ok_def example_queue_def queue_ok_def storage_ok_def read_slot_def slot_def)

text \<open>
  C33: A mailbox delivers messages in order. For every sequence of trypost and tryfetch calls on a
  mailbox of pointers every call returns, and the pointers fetched followed by those still in the
  mailbox are those that were there followed by those whose post was accepted, bit for bit.
\<close>
theorem mailbox_delivers_in_order:
  assumes "mbox_ok m s"
  shows "\<exists>sent got s'. client_run (trypost K m) (tryfetch K m) cs s = Some (sent, got, s') \<and>
    mbox_contents s @ sent = got @ mbox_contents s' \<and> mbox_ok m s'"
  using mailbox.run_in_order [OF assms, of K cs] by fastforce

theorem mailbox_delivers_in_order_witness:
  "\<exists>sent got s'. client_run (trypost idle_kernel \<lparr>mbx = 0x900\<rparr>) (tryfetch idle_kernel \<lparr>mbx = 0x900\<rparr>)
      [Some 0xA0001234, Some 0xA0005678, None] ((example_queue 2)\<lparr>que := (que (example_queue 2))\<lparr>uxItemSize := 4,
        pcTail_xMutexHolder := 0x1008, pcReadFrom_uxRecursiveCallCount := 0x1004\<rparr>\<rparr>) = Some (sent, got, s') \<and>
    sent = got @ mbox_contents s'"
  using mailbox_delivers_in_order [OF example_mbox_ok [of "example_queue 2"], of idle_kernel
      "[Some 0xA0001234, Some 0xA0005678, None]"]
  by (fastforce simp: mbox_contents_def items_def example_queue_def)

text \<open>
  A post, and a fetch without timeout, that return have done their work, although the result of
  the queue call is never looked at (the assertions are compiled out): the message is the last of the
  mailbox, and the fetched one was the first, at one moment during the call. \<open>I\<close> is what the other
  tasks and interrupts keep of the mailbox.
\<close>
theorem mailbox_waits_for_success:
  assumes keeps: "respected K I" and I: "\<And>s. I s \<Longrightarrow> mbox_ok m s" and start: "I s"
  shows "(sys_mbox_post K m msg s = Some s' \<longrightarrow>
      (\<exists>u. I u \<and> mbox_contents s' = mbox_contents u @ [msg])) \<and>
    (sys_arch_mbox_fetch K m 0 s = Some (r, v, t') \<longrightarrow>
      r = 1 \<and> (\<exists>u p. I u \<and> v = Some p \<and> mbox_contents u = p # mbox_contents t'))"
proof (intro conjI impI)
  have ok: "\<And>s. I s \<Longrightarrow> queue_ok s" using I by (simp add: mbox_ok_def)
  assume "sys_mbox_post K m msg s = Some s'"
  then obtain r where run: "send_loop K (ptr_bytes msg) queueSEND_TO_BACK 0xFFFFFFFF None s = Some (r, s')"
    by (auto simp: sys_mbox_post_def through_def xQueueGenericSend_def split: if_splits)
  have "r" using send_forever [OF run] by simp
  then obtain u where u: "I u" "has_put queueSEND_TO_BACK (ptr_bytes msg) u s'"
    using send_loop_linearizes [OF keeps ok _ start run] by auto
  then show "\<exists>u. I u \<and> mbox_contents s' = mbox_contents u @ [msg]"
    using I [of u] ptr_of_item [of u msg] by (auto simp: has_put_def mbox_contents_def mbox_ok_def)
next
  have ok: "\<And>s. I s \<Longrightarrow> queue_ok s" using I by (simp add: mbox_ok_def)
  assume "sys_arch_mbox_fetch K m 0 s = Some (r, v, t')"
  then obtain bs where run: "receive_loop K 0xFFFFFFFF None s = Some (bs, t')"
    and rv: "r = 1" "v = map_option ptr_of bs"
    by (auto simp: sys_arch_mbox_fetch_def through_def xQueueReceive_def Option.bind_eq_Some_conv split: if_splits)
  obtain b where "bs = Some b" using receive_forever [OF run] by auto
  moreover from this obtain u where "I u" "has_taken b u t'"
    using receive_loop_linearizes [OF keeps ok start run] by auto
  ultimately show "r = 1" "\<exists>u p. I u \<and> v = Some p \<and> mbox_contents u = p # mbox_contents t'"
    using rv by (auto simp: has_taken_def mbox_contents_def)
qed

lemma idle_respects_mbox: "respected idle_kernel (mbox_ok m)"
  unfolding respected_def
proof (intro allI impI)
  fix s t :: "tick_clock qstate"
  assume I: "mbox_ok m s"
    and "others idle_kernel s = Some t \<or> interrupts idle_kernel s = Some t \<or> queue_same s t"
  then have "queue_same s t" by (auto simp: idle_kernel_def)
  from queue_same_abs [OF this] this I show "mbox_ok m t"
    by (simp add: mbox_ok_def queue_same_def)
qed

theorem mailbox_waits_for_success_witness:
  "\<exists>s' u. sys_mbox_post idle_kernel \<lparr>mbx = 0x900\<rparr> 0xA0001234
      ((example_queue 2)\<lparr>que := (que (example_queue 2))\<lparr>uxItemSize := 4,
        pcTail_xMutexHolder := 0x1008, pcReadFrom_uxRecursiveCallCount := 0x1004\<rparr>\<rparr>) = Some s' \<and>
    mbox_contents s' = mbox_contents (u :: tick_clock qstate) @ [0xA0001234]"
proof -
  let ?s = "(example_queue 2)\<lparr>que := (que (example_queue 2))\<lparr>uxItemSize := 4,
        pcTail_xMutexHolder := 0x1008, pcReadFrom_uxRecursiveCallCount := 0x1004\<rparr>\<rparr>"
  have ok: "mbox_ok \<lparr>mbx = 0x900\<rparr> ?s" by (rule example_mbox_ok)
  then have "queue_ok ?s" by (simp add: mbox_ok_def)
  from send_now [OF this, of queueSEND_TO_BACK idle_kernel "0xFFFFFFFF" "ptr_bytes 0xA0001234"]
  obtain s' where "sys_mbox_post idle_kernel \<lparr>mbx = 0x900\<rparr> 0xA0001234 ?s = Some s'"
    by (auto simp: sys_mbox_post_def through_def has_room_def example_queue_def idle_kernel_def)
  with mailbox_waits_for_success [OF idle_respects_mbox _ ok] show ?thesis by blast
qed

section \<open>Semaphores and mutexes\<close>

text \<open>
  Timed waits end. With a timeout other than 0 and 0xFFFFFFFF milliseconds, waiting for a
  semaphore and fetching from a mailbox return, with 1 or SYS_ARCH_TIMEOUT, under the assumptions on
  the kernel of the queue calls; a fetch that timed out stores NULL.
\<close>
theorem timed_waits_return:
  assumes "timely_inherit K" "timeout \<noteq> 0" "timeout \<noteq> 0xFFFFFFFF" "\<not> scheduler_suspended K (kern s)"
  shows "(sem se \<noteq> 0 \<and> uxItemSize (que s) = 0 \<longrightarrow>
      (\<exists>r s'. sys_arch_sem_wait K se timeout s = Some (r, s') \<and> r \<in> {1, 0xFFFFFFFF})) \<and>
    (mbx m \<noteq> 0 \<longrightarrow> (\<exists>r v s'. sys_arch_mbox_fetch K m timeout s = Some (r, v, s') \<and>
      (r = 1 \<or> r = 0xFFFFFFFF \<and> v = Some 0)))"
proof (intro conjI impI)
  have K: "timely K" using assms(1) by (simp add: timely_inherit_def)
  from take_loop_returns [OF assms(1,3), of None] obtain r s' where
    "take_loop K timeout None False s = Some (r, s')" by fastforce
  then show "\<exists>r s'. sys_arch_sem_wait K se timeout s = Some (r, s') \<and> r \<in> {1, 0xFFFFFFFF}"
    if "sem se \<noteq> 0 \<and> uxItemSize (que s) = 0"
    using that assms(2,4) by (cases r) (auto simp: sys_arch_sem_wait_def through_def xQueueSemaphoreTake_def)
  from receive_loop_returns [OF K assms(3), of None] obtain bs t where
    "receive_loop K timeout None s = Some (bs, t)" by fastforce
  then show "\<exists>r v s'. sys_arch_mbox_fetch K m timeout s = Some (r, v, s') \<and>
      (r = 1 \<or> r = 0xFFFFFFFF \<and> v = Some 0)" if "mbx m \<noteq> 0"
    using that assms(2,4) by (cases bs) (auto simp: sys_arch_mbox_fetch_def through_def xQueueReceive_def)
qed

theorem timed_waits_return_witness:
  "\<exists>r s'. sys_arch_sem_wait idle_kernel \<lparr>sem = 0x900\<rparr> 250 (example_semaphore 0 1) = Some (r, s') \<and>
     r \<in> {1, 0xFFFFFFFF}"
  using timed_waits_return [OF idle_timely_inherit, of 250 "example_semaphore 0 1" "\<lparr>sem = 0x900\<rparr>" "\<lparr>mbx = 0\<rparr>"]
  by (simp add: idle_kernel_def example_semaphore_def)

lemma count_after_take:
  assumes "mutex_ok u" "0 < uxMessagesWaiting (que u)" "fst (pvTaskIncrementMutexHeldCount K (kern u)) = t" "t \<noteq> 0"
  shows "\<exists>s'. count_recursion (take_semaphore K u) = Some (True, s') \<and> mutex_ok s' \<and> lock_of s' = Some (t, 1)"
proof -
  from take_semaphore_same [of K u] obtain v where v: "que v = taken K u" "queue_same v (take_semaphore K u)"
    by auto
  let ?s = "on_que (\<lambda>q. q\<lparr>pcReadFrom_uxRecursiveCallCount := pcReadFrom_uxRecursiveCallCount q + 1\<rparr>)
    (take_semaphore K u)"
  from assms(1,2) have "uxMessagesWaiting (que u) = 1" "pcReadFrom_uxRecursiveCallCount (que u) = 0" "is_mutex u"
    by (auto simp: mutex_ok_def split: if_splits)
  with v assms(3,4) have "count_recursion (take_semaphore K u) = Some (True, ?s)" "mutex_ok ?s"
    "lock_of ?s = Some (t, 1)"
    by (auto simp: count_recursion_def mutex_ok_def lock_of_def is_mutex_def taken_def on_que_def Let_def
        dest!: queue_same_que)
  then show ?thesis by blast
qed

lemma count_again:
  assumes "mutex_ok s" "lock_of s = Some (t, n)" "count_recursion s = Some (r, s')"
  shows "mutex_ok s' \<and> lock_of s' = Some (t, n + 1)"
proof -
  let ?n = "pcReadFrom_uxRecursiveCallCount (que s)"
  have s': "s' = on_que (\<lambda>q. q\<lparr>pcReadFrom_uxRecursiveCallCount := ?n + 1\<rparr>) s" "?n + 1 \<noteq> 0"
    using assms(3) by (auto simp: count_recursion_def on_que_def Let_def split: if_splits)
  then have "unat (?n + 1) = unat ?n + 1"
    using u32_bound [of ?n] by (simp add: word_unat_eq_iff unat_plus_if' split: if_splits)
  with s' assms(1,2) show ?thesis
    by (auto simp: mutex_ok_def lock_of_def is_mutex_def on_que_def split: if_splits)
qed

text \<open>
  Unlocking is not checked. \<open>sys_mutex_unlock\<close> by a task that does not hold the mutex returns
  normally and changes nothing, because the failed result is only asserted and assertions are off;
  the holder's last unlock frees the mutex. Waiting without limit for the lock returns only when the
  caller holds it, once more than before if it held it already.
\<close>
theorem mutex_lock_and_unlock:
  assumes "mut mx \<noteq> 0" and ok: "mutex_ok s" and t: "t \<noteq> 0" "xTaskGetCurrentTaskHandle K (kern s) = t"
  shows "(\<forall>h n. lock_of s = Some (h, n) \<and> h \<noteq> t \<or> lock_of s = None \<longrightarrow> sys_mutex_unlock K mx s = Some s) \<and>
    (lock_of s = Some (t, 1) \<longrightarrow> (\<exists>s'. sys_mutex_unlock K mx s = Some s' \<and> mutex_ok s' \<and> lock_of s' = None)) \<and>
    (respected K (\<lambda>s. mutex_ok s \<and> fst (pvTaskIncrementMutexHeldCount K (kern s)) = t) \<and>
     fst (pvTaskIncrementMutexHeldCount K (kern s)) = t \<and> sys_mutex_lock K mx s = Some s' \<longrightarrow>
      mutex_ok s' \<and> (\<exists>n. lock_of s' = Some (t, n + 1) \<and> (lock_of s = Some (t, n) \<or> n = 0)))"
proof (intro conjI impI allI)
  have cases: "lock_of s = None \<and> pcTail_xMutexHolder (que s) = 0 \<or>
      (\<exists>n. lock_of s = Some (pcTail_xMutexHolder (que s), n))"
    using ok by (cases rule: mutex_states) auto
  fix h n assume "lock_of s = Some (h, n) \<and> h \<noteq> t \<or> lock_of s = None"
  then have "pcTail_xMutexHolder (que s) \<noteq> t" using cases t(1) by auto
  then show "sys_mutex_unlock K mx s = Some s"
    using assms(1) t(2) by (simp add: sys_mutex_unlock_def through_def xQueueGiveMutexRecursive_def)
next
  assume "lock_of s = Some (t, 1)"
  with give_recursive [OF ok t] show "\<exists>s'. sys_mutex_unlock K mx s = Some s' \<and> mutex_ok s' \<and> lock_of s' = None"
    using assms(1) by (auto simp: sys_mutex_unlock_def through_def)
next
  let ?I = "\<lambda>s. mutex_ok s \<and> fst (pvTaskIncrementMutexHeldCount K (kern s)) = t"
  assume a: "respected K ?I \<and> fst (pvTaskIncrementMutexHeldCount K (kern s)) = t \<and> sys_mutex_lock K mx s = Some s'"
  then obtain r where run: "xQueueTakeMutexRecursive K 0xFFFFFFFF s = Some (r, s')"
    using assms(1) by (auto simp: sys_mutex_lock_def through_def)
  have "mutex_ok s' \<and> (\<exists>n. lock_of s' = Some (t, n + 1) \<and> (lock_of s = Some (t, n) \<or> n = 0))"
  proof (cases "pcTail_xMutexHolder (que s) = t")
    case True
    then have "count_recursion s = Some (r, s')" using run t(2) by (simp add: xQueueTakeMutexRecursive_def)
    moreover obtain n where "lock_of s = Some (t, n)"
      using ok True t(1) by (cases rule: mutex_states) auto
    ultimately show ?thesis using count_again [OF ok] by blast
  next
    case False
    then obtain b s1 where take: "xQueueSemaphoreTake K 0xFFFFFFFF s = Some (b, s1)"
      and rest: "b \<Longrightarrow> count_recursion s1 = Some (r, s')"
      using run t(2) by (auto simp: xQueueTakeMutexRecursive_def Option.bind_eq_Some_conv split: if_splits)
    have loop: "take_loop K 0xFFFFFFFF None False s = Some (b, s1)"
      using take by (auto simp: xQueueSemaphoreTake_def split: if_splits)
    have b using take_forever [OF loop] by simp
    with take_loop_linearizes [of K ?I, OF _ _ loop] a ok obtain u where
      u: "?I u" "0 < uxMessagesWaiting (que u)" "s1 = take_semaphore K u" by auto
    with count_after_take [of u K t] t(1) rest [OF \<open>b\<close>] show ?thesis by auto
  qed
  then show "mutex_ok s'" "\<exists>n. lock_of s' = Some (t, n + 1) \<and> (lock_of s = Some (t, n) \<or> n = 0)" by blast+
qed

theorem mutex_lock_and_unlock_witness:
  "sys_mutex_unlock idle_kernel \<lparr>mut = 0x900\<rparr> example_mutex = Some example_mutex"
proof -
  have "mutex_ok example_mutex" "lock_of example_mutex = None"
    by (simp_all add: mutex_ok_def is_mutex_def lock_of_def example_mutex_def)
  with mutex_lock_and_unlock [where mx = "\<lparr>mut = 0x900\<rparr>" and s = example_mutex and t = "0x500"
      and K = idle_kernel] show ?thesis
    by (simp add: idle_kernel_def)
qed

text \<open>
  Creation. A new mailbox is empty, with the asked number of slots; a new mutex is free; a new
  semaphore has count 1 for the initial count 1 and count 0 for every other value, valid or not. When
  heap_1 has no room all three report ERR_MEM and leave an invalid handle. Nothing created can be
  freed: the three free functions never return.
\<close>
theorem sys_objects_created:
  shows "(sys_mbox_new K ucHeap m siz (h, s) = Some (e, m', h', s') \<longrightarrow> (e = ERR_OK \<longleftrightarrow> mbx m' \<noteq> 0) \<and>
      (e = ERR_OK \<and> heap_inv ucHeap h \<and> 8192 \<le> unat ucHeap \<and> siz \<noteq> 0 \<longrightarrow>
        mbox_ok m' s' \<and> mbox_contents s' = [] \<and> uxLength (que s') = siz)) \<and>
    (sys_sem_new K ucHeap se n (h, s) = Some (e, se', h', s') \<longrightarrow> (e = ERR_OK \<longleftrightarrow> sem se' \<noteq> 0) \<and>
      (e = ERR_OK \<longrightarrow> is_semaphore s' \<and> sem_limit s' = 1 \<and> sem_count s' = (if n = 1 then 1 else 0))) \<and>
    (sys_mutex_new K ucHeap mx (h, s) = Some (e, mx', h', s') \<longrightarrow> (e = ERR_OK \<longleftrightarrow> mut mx' \<noteq> 0) \<and>
      (e = ERR_OK \<longrightarrow> mutex_ok s' \<and> lock_of s' = None)) \<and>
    sys_mbox_free m h = None \<and> sys_sem_free se h = None \<and> sys_mutex_free mx h = None"
proof (intro conjI impI)
  assume "sys_mbox_new K ucHeap m siz (h, s) = Some (e, m', h', s')"
  then have run: "xQueueGenericCreate K ucHeap siz 4 (h, s) = Some (mbx m', h', s')"
    and e: "e = (if mbx m' = 0 then ERR_MEM else ERR_OK)"
    by (auto simp: sys_mbox_new_def Option.bind_eq_Some_conv Let_def split: if_splits)
  show "e = ERR_OK \<longleftrightarrow> mbx m' \<noteq> 0" by (simp add: e)
  assume a: "e = ERR_OK \<and> heap_inv ucHeap h \<and> 8192 \<le> unat ucHeap \<and> siz \<noteq> 0"
  then have "queue_ok s'" "items s' = []" "uxLength (que s') = siz" "uxItemSize (que s') = 4"
    using create_outcome [of ucHeap h siz 4 K s] run e by (auto simp: unat_gt_0 split: if_splits)
  then show "mbox_ok m' s'" "mbox_contents s' = []" "uxLength (que s') = siz"
    using a e by (auto simp: mbox_ok_def mbox_contents_def split: if_splits)
next
  assume "sys_sem_new K ucHeap se n (h, s) = Some (e, se', h', s')"
  then obtain t where run: "xQueueGenericCreate K ucHeap 1 0 (h, s) = Some (sem se', h', t)"
    and e: "e = (if sem se' = 0 then ERR_MEM else ERR_OK)"
    and t: "sem se' \<noteq> 0 \<Longrightarrow> if n = 1 then \<exists>r. xSemaphoreGive K t = Some (r, s') else s' = t"
    by (auto simp: sys_sem_new_def Option.bind_eq_Some_conv Let_def split: if_splits)
  show "e = ERR_OK \<longleftrightarrow> sem se' \<noteq> 0" by (simp add: e)
  assume "e = ERR_OK"
  then have "sem se' \<noteq> 0" using e by (simp split: if_splits)
  from create_without_storage [OF run this] have "is_semaphore t" "sem_limit t = 1" "sem_count t = 0"
    using \<open>sem se' \<noteq> 0\<close> by (auto simp: is_semaphore_def sem_limit_def sem_count_def)
  with counting.give_law [of t K] t [OF \<open>sem se' \<noteq> 0\<close>]
  show "is_semaphore s'" "sem_limit s' = 1" "sem_count s' = (if n = 1 then 1 else 0)"
    by (auto split: if_splits)
next
  assume "sys_mutex_new K ucHeap mx (h, s) = Some (e, mx', h', s')"
  then obtain t where run: "xQueueGenericCreate K ucHeap 1 0 (h, s) = Some (mut mx', h', t)"
    and e: "e = (if mut mx' = 0 then ERR_MEM else ERR_OK)" and t: "prvInitialiseMutex K (mut mx') t = Some s'"
    by (auto simp: sys_mutex_new_def xQueueCreateMutex_def Option.bind_eq_Some_conv Let_def split: if_splits)
  show "e = ERR_OK \<longleftrightarrow> mut mx' \<noteq> 0" by (simp add: e)
  assume "e = ERR_OK"
  then have "mut mx' \<noteq> 0" using e by (simp split: if_splits)
  with create_without_storage [OF run this] initialise_mutex_frees [of t "mut mx'" K] t
  show "mutex_ok s'" "lock_of s' = None" by auto
qed (simp_all add: sys_mbox_free_def sys_sem_free_def sys_mutex_free_def vQueueDelete_def vPortFree_def)

theorem sys_objects_created_witness:
  "\<exists>e m' h' s'. sys_mbox_new idle_kernel 0xA0000000 \<lparr>mbx = 0\<rparr> 8
      (\<lparr>pucAlignedHeap = 0, xNextFreeByte = 0\<rparr>, example_queue 1) = Some (e, m', h', s') \<and>
    e = ERR_OK \<and> mbox_contents s' = []"
proof -
  let ?h = "\<lparr>pucAlignedHeap = 0, xNextFreeByte = 0\<rparr> :: heap_1"
  have inv: "heap_inv 0xA0000000 ?h" by (simp add: heap_inv_def)
  have "\<exists>p h' s'. xQueueGenericCreate idle_kernel 0xA0000000 8 4 (?h, example_queue 1) = Some (p, h', s') \<and> p \<noteq> 0"
    using create_outcome [OF inv, of 8 4 idle_kernel "example_queue 1"] by auto
  then obtain e m' h' s' where run: "sys_mbox_new idle_kernel 0xA0000000 \<lparr>mbx = 0\<rparr> 8 (?h, example_queue 1) =
      Some (e, m', h', s')" "e = ERR_OK"
    by (auto simp: sys_mbox_new_def Let_def)
  with sys_objects_created [where m = "\<lparr>mbx = 0\<rparr>" and siz = 8 and K = idle_kernel and ucHeap = "0xA0000000"
      and h = ?h and s = "example_queue 1" and e = e and m' = m' and h' = h' and s' = s'] inv
  show ?thesis by auto
qed

section \<open>Critical sections\<close>

lemma protects:
  assumes "xSchedulerRunning c" "uxCriticalNesting c = 0"
  shows "((snd \<circ> sys_arch_protect) ^^ n) c =
    c\<lparr>interrupts_enabled := interrupts_enabled c \<and> n = 0, uxCriticalNesting := of_nat n\<rparr>"
  using assms by (induction n) (simp_all add: sys_arch_protect_def vTaskEnterCritical_def Let_def add.commute)

lemma unprotect_one:
  assumes "xSchedulerRunning c" "uxCriticalNesting c = of_nat (Suc m)" "Suc m < 2 ^ 32"
  shows "sys_arch_unprotect 1 c =
    Some (c\<lparr>interrupts_enabled := interrupts_enabled c \<or> m = 0, uxCriticalNesting := of_nat m\<rparr>)"
proof -
  have nz: "of_nat (Suc m) \<noteq> (0 :: u32)" "of_nat m = (0 :: u32) \<longleftrightarrow> m = 0"
    using assms(3) of_nat_neq_0 [of "Suc m"] by (auto simp: word_unat_eq_iff unat_of_nat simp del: of_nat_Suc)
  have "of_nat (Suc m) - 1 = (of_nat m :: u32)" by simp
  then show ?thesis
    using assms nz by (cases "m = 0")
      (simp_all add: sys_arch_unprotect_def vTaskExitCritical_def Let_def del: of_nat_Suc)
qed

lemma unprotects:
  assumes "xSchedulerRunning c" "n < 2 ^ 32" "k \<le> n"
  shows "((\<lambda>r. Option.bind r (sys_arch_unprotect 1)) ^^ k)
      (Some (c\<lparr>interrupts_enabled := False, uxCriticalNesting := of_nat n\<rparr>)) =
    Some (c\<lparr>interrupts_enabled := 0 < k \<and> k = n, uxCriticalNesting := of_nat (n - k)\<rparr>)"
  using assms(3)
proof (induction k)
  case (Suc k)
  then have m: "n - k = Suc (n - Suc k)" by simp
  show ?case
    using Suc assms(1,2) unprotect_one [of "c\<lparr>interrupts_enabled := 0 < k \<and> k = n,
        uxCriticalNesting := of_nat (n - k)\<rparr>" "n - Suc k"]
    by (auto simp: m eq_commute [of n] simp del: of_nat_Suc)
qed simp

text \<open>
  Protection nests. While the scheduler runs, after any number of nested protects, below 2^32,
  interrupts are off, and they come back on exactly at the matching last unprotect, which leaves the
  nesting as it was; one unprotect more stops the program. Before the scheduler runs nothing is
  counted and interrupts stay off.
\<close>
theorem protection_nests:
  assumes "xSchedulerRunning c" "uxCriticalNesting c = 0" "n < 2 ^ 32"
  shows "((snd \<circ> sys_arch_protect) ^^ n) c =
      c\<lparr>interrupts_enabled := interrupts_enabled c \<and> n = 0, uxCriticalNesting := of_nat n\<rparr> \<and>
    (\<forall>k\<le>n. ((\<lambda>r. Option.bind r (sys_arch_unprotect 1)) ^^ k) (Some (((snd \<circ> sys_arch_protect) ^^ n) c)) =
      Some (c\<lparr>interrupts_enabled := (if n = 0 then interrupts_enabled c else k = n),
              uxCriticalNesting := of_nat (n - k)\<rparr>)) \<and>
    sys_arch_unprotect 1 c = None"
proof (intro conjI allI impI)
  note enter = protects [OF assms(1,2), of n]
  show "((snd \<circ> sys_arch_protect) ^^ n) c =
      c\<lparr>interrupts_enabled := interrupts_enabled c \<and> n = 0, uxCriticalNesting := of_nat n\<rparr>"
    by (rule enter)
  show "sys_arch_unprotect 1 c = None"
    using assms(1,2) by (simp add: sys_arch_unprotect_def vTaskExitCritical_def)
  fix k assume "k \<le> n"
  from unprotects [OF assms(1,3) this] assms(2) enter \<open>k \<le> n\<close>
  show "((\<lambda>r. Option.bind r (sys_arch_unprotect 1)) ^^ k) (Some (((snd \<circ> sys_arch_protect) ^^ n) c)) =
      Some (c\<lparr>interrupts_enabled := (if n = 0 then interrupts_enabled c else k = n),
              uxCriticalNesting := of_nat (n - k)\<rparr>)"
    by (cases "n = 0"; cases "k = n") (auto simp del: comp_apply)
qed

theorem protection_nests_witness:
  "((snd \<circ> sys_arch_protect) ^^ 3) \<lparr>interrupts_enabled = True, xSchedulerRunning = True, uxCriticalNesting = 0\<rparr> =
     \<lparr>interrupts_enabled = False, xSchedulerRunning = True, uxCriticalNesting = 3\<rparr>"
  using protection_nests [of "\<lparr>interrupts_enabled = True, xSchedulerRunning = True, uxCriticalNesting = 0\<rparr>" 3]
  by (simp del: funpow.simps comp_apply)

end
