(* ===== verification/Rtos_Queue_Contract.thy ===== *)
theory Rtos_Queue_Contract
  imports Rtos_Transfer
begin

text \<open>
  What the queues of src/FreeRTOS/queue.c ask of the kernel below them, as the locale \<open>queue_kernel\<close>, and
  what they give back: every call of a queue that is no mutex uses the kernel in the states in which it
  may be used, and leaves it in such a state, however often the caller waits.
\<close>

section \<open>The contract\<close>

text \<open>The kernel is in one of the states R, and the queue is no mutex.\<close>

definition kernel_in :: "('k \<Rightarrow> bool) \<Rightarrow> 'k qstate \<Rightarrow> bool" where
  "kernel_in R s \<longleftrightarrow> pcHead (que s) \<noteq> 0 \<and> R (kern s)"

text \<open>
  \<open>run\<close> are the states in which the caller runs with the scheduler running, \<open>sus\<close> those in which it has
  suspended the scheduler, and \<open>blk\<close> those in which it has put itself on an event list besides.
\<close>

locale queue_kernel =
  fixes K :: "'k kernel" and run sus blk :: "'k \<Rightarrow> bool"
  assumes others_run: "run (kern s) \<Longrightarrow> others K s = Some s' \<Longrightarrow>
      pcHead (que s') = pcHead (que s) \<and> run (kern s') \<and> sus (vTaskSuspendAll K (kern s'))"
    and interrupts_sus: "sus (kern s) \<Longrightarrow> interrupts K s = Some s' \<Longrightarrow> pcHead (que s') = pcHead (que s) \<and> sus (kern s')"
    and yield_run: "run k \<Longrightarrow> run (portYIELD_WITHIN_API K k)"
    and signal_run: "run k \<Longrightarrow> \<not> listIS_EMPTY K l k \<Longrightarrow> xTaskRemoveFromEventList K l k = (b, k') \<Longrightarrow>
      run (if b then portYIELD_WITHIN_API K k' else k')"
    and signal_sus: "sus k \<Longrightarrow> \<not> listIS_EMPTY K l k \<Longrightarrow> xTaskRemoveFromEventList K l k = (b, k') \<Longrightarrow>
      sus (if b then vTaskMissedYield K k' else k')"
    and signal_blk: "blk k \<Longrightarrow> \<not> listIS_EMPTY K l k \<Longrightarrow> xTaskRemoveFromEventList K l k = (b, k') \<Longrightarrow>
      blk (if b then vTaskMissedYield K k' else k')"
    and place_blk: "sus k \<Longrightarrow> n \<noteq> 0 \<Longrightarrow> blk (vTaskPlaceOnEventList K l n k)"
    and resume_sus: "sus k \<Longrightarrow> xTaskResumeAll K k = (b, k') \<Longrightarrow> run k'"
    and resume_blk: "blk k \<Longrightarrow> xTaskResumeAll K k = (b, k') \<Longrightarrow> run (if \<not> b then portYIELD_WITHIN_API K k' else k')"
begin

section \<open>Waking and unlocking\<close>

lemma wake_fine: "kernel_in run s \<Longrightarrow> kernel_in run (wake_and_yield K l b s)"
proof -
  assume ok: "kernel_in run s"
  obtain b' k' where r: "xTaskRemoveFromEventList K l (kern s) = (b', k')" by fastforce
  show ?thesis
  proof (cases "listIS_EMPTY K l (kern s)")
    case True
    with ok yield_run show ?thesis by (simp add: wake_and_yield_def kernel_in_def on_kern_def)
  next
    case False
    with ok signal_run [OF _ False r] r show ?thesis
      by (cases b') (simp_all add: wake_and_yield_def kernel_in_def on_kern_def)
  qed
qed

lemma unlock_wake_sus: "sus k \<Longrightarrow> sus (unlock_wake K l n k)"
proof (induction n arbitrary: k)
  case (Suc n)
  then show ?case
    using signal_sus [OF Suc.prems] by (cases "xTaskRemoveFromEventList K l k") simp
qed simp

lemma unlock_wake_blk: "blk k \<Longrightarrow> blk (unlock_wake K l n k)"
proof (induction n arbitrary: k)
  case (Suc n)
  then show ?case
    using signal_blk [OF Suc.prems] by (cases "xTaskRemoveFromEventList K l k") simp
qed simp

lemma unlock_keeps:
  "sus (kern s) \<Longrightarrow> sus (kern (prvUnlockQueue K s))" "blk (kern s) \<Longrightarrow> blk (kern (prvUnlockQueue K s))"
  "pcHead (que (prvUnlockQueue K s)) = pcHead (que s)"
  by (simp_all add: prvUnlockQueue_def Let_def on_kern_def on_que_def unlock_wake_sus unlock_wake_blk)

section \<open>A round of waiting\<close>

lemma not_expired: "xTaskCheckForTimeOut c t n = (False, t', n') \<Longrightarrow> n \<noteq> 0 \<Longrightarrow> n' \<noteq> 0"
  by (auto simp: xTaskCheckForTimeOut_def Let_def split: if_splits)

lemma wait_round_fine:
  assumes ok: "kernel_in run s" and n: "n \<noteq> 0" and inherit: "\<And>b s. pcHead (que s) \<noteq> 0 \<Longrightarrow> inherit b s = (b, s)"
    and r: "wait_round K l blocked inherit inh tm n s = Some (v, s')"
  shows "kernel_in run s'" "snd (snd (snd v)) = inh"
proof -
  from r obtain s1 where s1: "others K s = Some s1" unfolding wait_round_def by (auto simp: bind_eq_Some_conv)
  define s2 where "s2 = prvLockQueue (on_kern (vTaskSuspendAll K) s1)"
  have s2: "sus (kern s2)" "pcHead (que s2) \<noteq> 0"
    using others_run [OF _ s1] ok by (simp_all add: kernel_in_def s2_def prvLockQueue_def on_kern_def on_que_def Let_def)
  from r s1 obtain s3 where s3: "interrupts K s2 = Some s3"
    unfolding wait_round_def s2_def by (auto simp: bind_eq_Some_conv Let_def)
  from interrupts_sus [OF s2(1) s3] s2(2) have k3: "sus (kern s3)" "pcHead (que s3) \<noteq> 0" by simp_all
  have i: "inherit inh s3 = (inh, s3)" using inherit [OF k3(2)] .
  obtain e tm' n' where c: "xTaskCheckForTimeOut (kernel_clock K (kern s3)) tm n = (e, tm', n')" by (metis prod_cases3)
  let ?u = "prvUnlockQueue K s3"
  let ?p = "prvUnlockQueue K (on_kern (vTaskPlaceOnEventList K l n') s3)"
  obtain b k where bk: "xTaskResumeAll K (kern ?u) = (b, k)" by fastforce
  obtain b' k' where bk': "xTaskResumeAll K (kern ?p) = (b', k')" by fastforce
  have "kernel_in run s' \<and> snd (snd (snd v)) = inh"
  proof (cases "e \<or> \<not> blocked s3")
    case True
    then have "s' = ?u\<lparr>kern := k\<rparr>" "snd (snd (snd v)) = inh"
      using r s1 s3 c bk unfolding wait_round_def s2_def by (cases e; auto simp: Let_def)+
    with resume_sus [OF unlock_keeps(1) [OF k3(1)] bk] show ?thesis using k3(2) by (simp add: kernel_in_def unlock_keeps(3))
  next
    case False
    with c have "xTaskCheckForTimeOut (kernel_clock K (kern s3)) tm n = (False, tm', n')" by simp
    from place_blk [OF k3(1) not_expired [OF this n]] have "blk (kern (on_kern (vTaskPlaceOnEventList K l n') s3))"
      by (simp add: on_kern_def)
    from resume_blk [OF unlock_keeps(2) [OF this] bk']
    have run: "run (if \<not> b' then portYIELD_WITHIN_API K k' else k')" .
    have o: "others K (?p\<lparr>kern := (if \<not> b' then portYIELD_WITHIN_API K k' else k')\<rparr>) = Some s'"
      and v: "snd (snd (snd v)) = inh"
      using r s1 s3 c False i bk' unfolding wait_round_def s2_def
      by (auto simp: Let_def bind_eq_Some_conv)
    from others_run [OF _ o] run k3(2) v show ?thesis by (simp add: kernel_in_def unlock_keeps(3) on_kern_def)
  qed
  then show "kernel_in run s'" "snd (snd (snd v)) = inh" by simp_all
qed

section \<open>The calls\<close>

lemma copy_run: "kernel_in run s \<Longrightarrow> kernel_in run (snd (prvCopyDataToQueue K item p s))"
  by (auto simp: kernel_in_def prvCopyDataToQueue_def Let_def on_que_def split: if_splits)

lemma copied_run: "kernel_in run s \<Longrightarrow> kernel_in run (snd (prvCopyDataFromQueue s))"
  by (auto simp: kernel_in_def prvCopyDataFromQueue_def Let_def on_que_def split: if_splits)

lemma on_que_run: "kernel_in run s \<Longrightarrow> (\<And>q. pcHead (f q) = pcHead q) \<Longrightarrow> kernel_in run (on_que f s)"
  by (simp add: kernel_in_def on_que_def)

lemma take_run:
  assumes "kernel_in run s"
  shows "kernel_in run (take_semaphore K s)"
proof -
  have "pcHead (que s) \<noteq> 0" using assms by (simp add: kernel_in_def)
  then have "take_semaphore K s = wake_and_yield K xTasksWaitingToSend False
      (on_que (\<lambda>q. q\<lparr>uxMessagesWaiting := uxMessagesWaiting q - 1\<rparr>) s)"
    by (simp add: take_semaphore_def on_que_def Let_def)
  then show ?thesis using wake_fine on_que_run [OF assms] by simp
qed

lemma send_loop_run:
  assumes ok: "kernel_in run s" and run: "send_loop K item p n tm s = Some r"
  shows "kernel_in run (snd r)"
proof -
  let ?post = "\<lambda>K' item p n tm s r. K' = K \<longrightarrow> kernel_in run s \<longrightarrow> kernel_in run (snd r)"
  have "?post K item p n tm s r"
  proof (rule send_loop.raw_induct [where P = ?post, OF _ run], intro impI, hypsubst)
    fix f item p n tm s r
    assume IH: "\<And>K' item p n tm s r. f K' item p n tm s = Some r \<Longrightarrow> ?post K' item p n tm s r" and ok: "kernel_in run s"
      and eq: "(if uxMessagesWaiting (que s) < uxLength (que s) \<or> p = queueOVERWRITE
        then Some (True, wake_and_yield K xTasksWaitingToReceive
            (fst (prvCopyDataToQueue K item p s)) (snd (prvCopyDataToQueue K item p s)))
        else if n = 0 then Some (False, s)
        else Option.bind (wait_round K xTasksWaitingToSend prvIsQueueFull no_inherit False (entry_time K tm s) n s)
          (\<lambda>r. if fst (fst r) then Some (False, snd r)
            else f K item p (fst (snd (snd (fst r)))) (Some (fst (snd (fst r)))) (snd r))) = Some r"
    show "kernel_in run (snd r)"
    proof (cases "(uxMessagesWaiting (que s) < uxLength (que s) \<or> p = queueOVERWRITE) \<or> n = 0")
      case True
      then show ?thesis using eq ok wake_fine [OF copy_run [OF ok]] by (auto split: if_splits)
    next
      case False
      with eq obtain v u where v: "wait_round K xTasksWaitingToSend prvIsQueueFull no_inherit False (entry_time K tm s) n s =
          Some (v, u)" by (auto simp: bind_eq_Some_conv)
      from False have n: "n \<noteq> 0" by simp
      have "kernel_in run u" by (rule wait_round_fine(1) [OF ok n _ v]) (simp add: no_inherit_def)
      then show ?thesis using eq False v IH by (auto split: if_splits)
    qed
  qed
  with ok show ?thesis by blast
qed

lemma receive_loop_run:
  assumes ok: "kernel_in run s" and run: "receive_loop K n tm s = Some r"
  shows "kernel_in run (snd r)"
proof -
  let ?post = "\<lambda>K' n tm s r. K' = K \<longrightarrow> kernel_in run s \<longrightarrow> kernel_in run (snd r)"
  have "?post K n tm s r"
  proof (rule receive_loop.raw_induct [where P = ?post, OF _ run], intro impI, hypsubst)
    fix f n tm s r
    assume IH: "\<And>K' n tm s r. f K' n tm s = Some r \<Longrightarrow> ?post K' n tm s r" and ok: "kernel_in run s"
      and eq: "(if uxMessagesWaiting (que s) > 0
        then Some (Some (fst (prvCopyDataFromQueue s)), wake_and_yield K xTasksWaitingToSend False
           (on_que (\<lambda>q. q\<lparr>uxMessagesWaiting := uxMessagesWaiting (que s) - 1\<rparr>) (snd (prvCopyDataFromQueue s))))
        else if n = 0 then Some (None, s)
        else Option.bind (wait_round K xTasksWaitingToReceive prvIsQueueEmpty no_inherit False (entry_time K tm s) n s)
          (\<lambda>r. if fst (fst r) \<and> prvIsQueueEmpty (snd r) then Some (None, snd r)
            else f K (fst (snd (snd (fst r)))) (Some (fst (snd (fst r)))) (snd r))) = Some r"
    show "kernel_in run (snd r)"
    proof (cases "uxMessagesWaiting (que s) > 0 \<or> n = 0")
      case True
      then show ?thesis using eq ok wake_fine [OF on_que_run [OF copied_run [OF ok]]] by (auto split: if_splits)
    next
      case False
      with eq obtain v u where v: "wait_round K xTasksWaitingToReceive prvIsQueueEmpty no_inherit False (entry_time K tm s) n s =
          Some (v, u)" by (auto simp: bind_eq_Some_conv)
      from False have n: "n \<noteq> 0" by simp
      have "kernel_in run u" by (rule wait_round_fine(1) [OF ok n _ v]) (simp add: no_inherit_def)
      then show ?thesis using eq False v IH by (auto split: if_splits)
    qed
  qed
  with ok show ?thesis by blast
qed

lemma peek_loop_run:
  assumes ok: "kernel_in run s" and run: "peek_loop K n tm s = Some r"
  shows "kernel_in run (snd r)"
proof -
  let ?post = "\<lambda>K' n tm s r. K' = K \<longrightarrow> kernel_in run s \<longrightarrow> kernel_in run (snd r)"
  have "?post K n tm s r"
  proof (rule peek_loop.raw_induct [where P = ?post, OF _ run], intro impI, hypsubst)
    fix f n tm s r
    assume IH: "\<And>K' n tm s r. f K' n tm s = Some r \<Longrightarrow> ?post K' n tm s r" and ok: "kernel_in run s"
      and eq: "(if uxMessagesWaiting (que s) > 0
        then Some (Some (fst (prvCopyDataFromQueue s)), wake_and_yield K xTasksWaitingToReceive False
           (on_que (\<lambda>q. q\<lparr>pcReadFrom_uxRecursiveCallCount := pcReadFrom_uxRecursiveCallCount (que s)\<rparr>)
              (snd (prvCopyDataFromQueue s))))
        else if n = 0 then Some (None, s)
        else Option.bind (wait_round K xTasksWaitingToReceive prvIsQueueEmpty no_inherit False (entry_time K tm s) n s)
          (\<lambda>r. if fst (fst r) \<and> prvIsQueueEmpty (snd r) then Some (None, snd r)
            else f K (fst (snd (snd (fst r)))) (Some (fst (snd (fst r)))) (snd r))) = Some r"
    show "kernel_in run (snd r)"
    proof (cases "uxMessagesWaiting (que s) > 0 \<or> n = 0")
      case True
      then show ?thesis using eq ok wake_fine [OF on_que_run [OF copied_run [OF ok]]] by (auto split: if_splits)
    next
      case False
      with eq obtain v u where v: "wait_round K xTasksWaitingToReceive prvIsQueueEmpty no_inherit False (entry_time K tm s) n s =
          Some (v, u)" by (auto simp: bind_eq_Some_conv)
      from False have n: "n \<noteq> 0" by simp
      have "kernel_in run u" by (rule wait_round_fine(1) [OF ok n _ v]) (simp add: no_inherit_def)
      then show ?thesis using eq False v IH by (auto split: if_splits)
    qed
  qed
  with ok show ?thesis by blast
qed

lemma take_loop_run:
  assumes ok: "kernel_in run s" and run: "take_loop K n tm False s = Some r"
  shows "kernel_in run (snd r)"
proof -
  let ?post = "\<lambda>K' n tm b s r. K' = K \<longrightarrow> \<not> b \<longrightarrow> kernel_in run s \<longrightarrow> kernel_in run (snd r)"
  have "?post K n tm False s r"
  proof (rule take_loop.raw_induct [where P = ?post, OF _ run], intro impI, hypsubst)
    fix f n tm b s r
    assume IH: "\<And>K' n tm b s r. f K' n tm b s = Some r \<Longrightarrow> ?post K' n tm b s r" and ok: "kernel_in run s" and b: "\<not> b"
      and eq: "(if uxMessagesWaiting (que s) > 0 then Some (True, take_semaphore K s)
        else if n = 0 then Some (False, s)
        else Option.bind (wait_round K xTasksWaitingToReceive prvIsQueueEmpty (mutex_inherit K) b (entry_time K tm s) n s)
          (\<lambda>r. if fst (fst r) \<and> prvIsQueueEmpty (snd r)
             then Some (False, if b
               then on_kern (vTaskPriorityDisinheritAfterTimeout K (pcTail_xMutexHolder (que (snd r)))
                               (prvGetHighestPriorityOfWaitToReceiveList K (snd r))) (snd r)
               else snd r)
             else f K (fst (snd (snd (fst r)))) (Some (fst (snd (fst r)))) (snd (snd (snd (fst r)))) (snd r))) = Some r"
    show "kernel_in run (snd r)"
    proof (cases "uxMessagesWaiting (que s) > 0 \<or> n = 0")
      case True
      then show ?thesis using eq ok take_run [OF ok] by (auto split: if_splits)
    next
      case False
      with eq obtain v u where v: "wait_round K xTasksWaitingToReceive prvIsQueueEmpty (mutex_inherit K) b
          (entry_time K tm s) n s = Some (v, u)" by (auto simp: bind_eq_Some_conv)
      from False have n: "n \<noteq> 0" by simp
      have i: "pcHead (que s) \<noteq> 0 \<Longrightarrow> mutex_inherit K b s = (b, s)" for b s by (simp add: mutex_inherit_def)
      note u = wait_round_fine [OF ok n i v]
      then show ?thesis using eq False v IH b by (auto split: if_splits)
    qed
  qed
  with ok show ?thesis by blast
qed

text \<open>The calls with their guards.\<close>

lemma calls_run:
  assumes "kernel_in run s"
  shows "xQueueGenericSend K item n p s = Some (a, s') \<Longrightarrow> kernel_in run s'"
    "xQueueReceive K buffer n s = Some (x, s') \<Longrightarrow> kernel_in run s'"
    "xQueuePeek K buffer n s = Some (x, s') \<Longrightarrow> kernel_in run s'"
    "xQueueSemaphoreTake K n s = Some (a, s') \<Longrightarrow> kernel_in run s'"
proof -
  assume "xQueueGenericSend K item n p s = Some (a, s')"
  then obtain bs where "send_loop K bs p n None s = Some (a, s')"
    unfolding xQueueGenericSend_def by (metis option.distinct(1))
  from send_loop_run [OF assms this] show "kernel_in run s'" by simp
next
  assume "xQueueReceive K buffer n s = Some (x, s')"
  then have "receive_loop K n None s = Some (x, s')" unfolding xQueueReceive_def by (metis option.distinct(1))
  from receive_loop_run [OF assms this] show "kernel_in run s'" by simp
next
  assume "xQueuePeek K buffer n s = Some (x, s')"
  then have "peek_loop K n None s = Some (x, s')" unfolding xQueuePeek_def by (metis option.distinct(1))
  from peek_loop_run [OF assms this] show "kernel_in run s'" by simp
next
  assume "xQueueSemaphoreTake K n s = Some (a, s')"
  then have "take_loop K n None False s = Some (a, s')" unfolding xQueueSemaphoreTake_def by (metis option.distinct(1))
  from take_loop_run [OF assms this] show "kernel_in run s'" by simp
qed

end

end
