(* ===== verification/Rtos_Task.thy ===== *)
theory Rtos_Task
  imports Rtos_List Rtos_Timeout
begin

text \<open>
  The scheduler of src/FreeRTOS/tasks.c as it is configured: one core, preemption, time slicing, the
  port-optimised choice of the next task, mutexes and task notifications. The state is the file's
  variables and the control blocks of the tasks; the lists are those of Rtos_List. A task is named by
  a number that stands for the address of its control block, 0 for NULL. A result \<open>None\<close> is a failed
  assertion, or the use of an item that is on no list.
\<close>

section \<open>State\<close>

text \<open>The two list items inside a control block, and the lists of the scheduler.\<close>

definition state_item :: "nat \<Rightarrow> nat" where
  "state_item t = 2 * t"

definition event_item :: "nat \<Rightarrow> nat" where
  "event_item t = 2 * t + 1"

abbreviation (input) configMAX_PRIORITIES :: u32 where "configMAX_PRIORITIES \<equiv> 5"

definition pxReadyTasksLists :: "u32 \<Rightarrow> nat" where
  "pxReadyTasksLists p = unat p"

abbreviation (input) xDelayedTaskList1 :: nat where "xDelayedTaskList1 \<equiv> 5"
abbreviation (input) xDelayedTaskList2 :: nat where "xDelayedTaskList2 \<equiv> 6"
abbreviation (input) xPendingReadyList :: nat where "xPendingReadyList \<equiv> 7"
abbreviation (input) xTasksWaitingTermination :: nat where "xTasksWaitingTermination \<equiv> 8"
abbreviation (input) xSuspendedTaskList :: nat where "xSuspendedTaskList \<equiv> 9"

abbreviation (input) taskEVENT_LIST_ITEM_VALUE_IN_USE :: u32 where
  "taskEVENT_LIST_ITEM_VALUE_IN_USE \<equiv> 0x80000000"

datatype notify_state =
  taskNOT_WAITING_NOTIFICATION | taskWAITING_NOTIFICATION | taskNOTIFICATION_RECEIVED

text \<open>
  \<open>yield_requested\<close> is the software interrupt that portYIELD raises; it switches the context as
  soon as interrupts are enabled.
\<close>

record sched =
  lists :: list_mem
  uxPriority :: "nat \<Rightarrow> u32"
  uxBasePriority :: "nat \<Rightarrow> u32"
  uxMutexesHeld :: "nat \<Rightarrow> u32"
  ulNotifiedValue :: "nat \<Rightarrow> u32"
  ucNotifyState :: "nat \<Rightarrow> notify_state"
  pxCurrentTCB :: nat
  pxDelayedTaskList :: nat
  pxOverflowDelayedTaskList :: nat
  uxDeletedTasksWaitingCleanUp :: u32
  uxCurrentNumberOfTasks :: u32
  clock :: tick_clock
  uxTopReadyPriority :: u32
  xSchedulerRunning :: bool
  xPendedTicks :: u32
  xYieldPendings :: bool
  uxTaskNumber :: u32
  xNextTaskUnblockTime :: u32
  uxSchedulerSuspended :: u32
  yield_requested :: bool

section \<open>Lists and priorities\<close>

definition on_lists :: "(list_mem \<Rightarrow> list_mem) \<Rightarrow> sched \<Rightarrow> sched" where
  "on_lists f s = s\<lparr>lists := f (lists s)\<rparr>"

definition remove_item :: "nat \<Rightarrow> sched \<Rightarrow> (u32 \<times> sched) option" where
  "remove_item i s = map_option (\<lambda>(n, m). (n, s\<lparr>lists := m\<rparr>)) (uxListRemove i (lists s))"

definition listREMOVE_ITEM :: "nat \<Rightarrow> sched \<Rightarrow> sched option" where
  "listREMOVE_ITEM i s = map_option snd (remove_item i s)"

definition insert_sorted :: "nat \<Rightarrow> nat \<Rightarrow> sched \<Rightarrow> sched option" where
  "insert_sorted l i s = map_option (\<lambda>m. s\<lparr>lists := m\<rparr>) (vListInsert l i (lists s))"

definition listSET_LIST_ITEM_VALUE :: "nat \<Rightarrow> u32 \<Rightarrow> sched \<Rightarrow> sched" where
  "listSET_LIST_ITEM_VALUE i v s = on_lists (\<lambda>m. m\<lparr>xItemValue := (xItemValue m)(Item i := v)\<rparr>) s"

definition listGET_LIST_ITEM_VALUE :: "nat \<Rightarrow> sched \<Rightarrow> u32" where
  "listGET_LIST_ITEM_VALUE i s = xItemValue (lists s) (Item i)"

definition listGET_ITEM_VALUE_OF_HEAD_ENTRY :: "nat \<Rightarrow> sched \<Rightarrow> u32" where
  "listGET_ITEM_VALUE_OF_HEAD_ENTRY l s = xItemValue (lists s) (pxNext (lists s) (End l))"

definition contained_in :: "nat \<Rightarrow> nat option \<Rightarrow> sched \<Rightarrow> bool" where
  "contained_in i l s \<longleftrightarrow> pxContainer (lists s) i = l"

definition portRECORD_READY_PRIORITY :: "u32 \<Rightarrow> sched \<Rightarrow> sched" where
  "portRECORD_READY_PRIORITY p s =
     s\<lparr>uxTopReadyPriority := uxTopReadyPriority s OR push_bit (unat p) 1\<rparr>"

definition portRESET_READY_PRIORITY :: "u32 \<Rightarrow> sched \<Rightarrow> sched" where
  "portRESET_READY_PRIORITY p s =
     s\<lparr>uxTopReadyPriority := uxTopReadyPriority s AND NOT (push_bit (unat p) 1)\<rparr>"

text \<open>The number of leading zeros, and the place of the highest bit.\<close>

definition clz :: "u32 \<Rightarrow> u32" where
  "clz w = of_nat (length (takeWhile (\<lambda>n. \<not> bit w n) (rev [0..<32])))"

definition portGET_HIGHEST_PRIORITY :: "u32 \<Rightarrow> u32" where
  "portGET_HIGHEST_PRIORITY w = 31 - clz w"

definition prvAddTaskToReadyList :: "nat \<Rightarrow> sched \<Rightarrow> sched" where
  "prvAddTaskToReadyList t s =
     on_lists (vListInsertEnd (pxReadyTasksLists (uxPriority s t)) (state_item t))
       (portRECORD_READY_PRIORITY (uxPriority s t) s)"

definition taskRESET_READY_PRIORITY :: "u32 \<Rightarrow> sched \<Rightarrow> sched" where
  "taskRESET_READY_PRIORITY p s =
     (if uxNumberOfItems (lists s) (pxReadyTasksLists p) = 0 then portRESET_READY_PRIORITY p s else s)"

definition portYIELD :: "sched \<Rightarrow> sched" where
  "portYIELD s = s\<lparr>yield_requested := True\<rparr>"

definition taskYIELD_ANY_CORE_IF_USING_PREEMPTION :: "nat \<Rightarrow> sched \<Rightarrow> sched" where
  "taskYIELD_ANY_CORE_IF_USING_PREEMPTION t s =
     (if uxPriority s (pxCurrentTCB s) < uxPriority s t then portYIELD s else s)"

section \<open>Choosing the next task\<close>

definition taskSELECT_HIGHEST_PRIORITY_TASK :: "sched \<Rightarrow> sched option" where
  "taskSELECT_HIGHEST_PRIORITY_TASK s =
     (let top = portGET_HIGHEST_PRIORITY (uxTopReadyPriority s)
      in if uxNumberOfItems (lists s) (pxReadyTasksLists top) > 0
         then (let (t, m) = listGET_OWNER_OF_NEXT_ENTRY (pxReadyTasksLists top) (lists s)
               in Some (s\<lparr>lists := m, pxCurrentTCB := t\<rparr>))
         else None)"

definition vTaskSwitchContext :: "sched \<Rightarrow> sched option" where
  "vTaskSwitchContext s =
     (if uxSchedulerSuspended s \<noteq> 0 then Some (s\<lparr>xYieldPendings := True\<rparr>)
      else taskSELECT_HIGHEST_PRIORITY_TASK (s\<lparr>xYieldPendings := False\<rparr>))"

section \<open>Time\<close>

definition prvResetNextTaskUnblockTime :: "sched \<Rightarrow> sched" where
  "prvResetNextTaskUnblockTime s =
     (if listLIST_IS_EMPTY (pxDelayedTaskList s) (lists s)
      then s\<lparr>xNextTaskUnblockTime := portMAX_DELAY\<rparr>
      else s\<lparr>xNextTaskUnblockTime := listGET_ITEM_VALUE_OF_HEAD_ENTRY (pxDelayedTaskList s) s\<rparr>)"

definition taskSWITCH_DELAYED_LISTS :: "sched \<Rightarrow> sched option" where
  "taskSWITCH_DELAYED_LISTS s =
     (if \<not> listLIST_IS_EMPTY (pxDelayedTaskList s) (lists s) then None
      else (let pxTemp = pxDelayedTaskList s;
                s = s\<lparr>pxDelayedTaskList := pxOverflowDelayedTaskList s\<rparr>;
                s = s\<lparr>pxOverflowDelayedTaskList := pxTemp\<rparr>;
                s = s\<lparr>clock := (clock s)\<lparr>xNumOfOverflows := xNumOfOverflows (clock s) + 1\<rparr>\<rparr>
            in Some (prvResetNextTaskUnblockTime s)))"

text \<open>One task off the delayed list, with the event it may be waiting for as well.\<close>

definition unblock_task :: "nat \<Rightarrow> sched \<Rightarrow> sched option" where
  "unblock_task t s = do {
     s \<leftarrow> listREMOVE_ITEM (state_item t) s;
     s \<leftarrow> (if \<not> contained_in (event_item t) None s then listREMOVE_ITEM (event_item t) s else Some s);
     Some (prvAddTaskToReadyList t s)
   }"

text \<open>The loop of \<open>xTaskIncrementTick\<close>; the flag is \<open>xSwitchRequired\<close>.\<close>

partial_function (option) unblock_delayed :: "u32 \<Rightarrow> bool \<Rightarrow> sched \<Rightarrow> (bool \<times> sched) option" where
  "unblock_delayed now sw s =
     (if listLIST_IS_EMPTY (pxDelayedTaskList s) (lists s)
      then Some (sw, s\<lparr>xNextTaskUnblockTime := portMAX_DELAY\<rparr>)
      else (let t = listGET_OWNER_OF_HEAD_ENTRY (pxDelayedTaskList s) (lists s);
                v = listGET_LIST_ITEM_VALUE (state_item t) s
            in if now < v then Some (sw, s\<lparr>xNextTaskUnblockTime := v\<rparr>)
               else Option.bind (unblock_task t s)
                 (\<lambda>s. unblock_delayed now (sw \<or> uxPriority s t > uxPriority s (pxCurrentTCB s)) s)))"

definition xTaskIncrementTick :: "sched \<Rightarrow> (bool \<times> sched) option" where
  "xTaskIncrementTick s =
     (if uxSchedulerSuspended s = 0
      then do {
        let xConstTickCount = xTickCount (clock s) + 1;
        let s = s\<lparr>clock := (clock s)\<lparr>xTickCount := xConstTickCount\<rparr>\<rparr>;
        s \<leftarrow> (if xConstTickCount = 0 then taskSWITCH_DELAYED_LISTS s else Some s);
        (sw, s) \<leftarrow> (if xConstTickCount \<ge> xNextTaskUnblockTime s
                   then unblock_delayed xConstTickCount False s else Some (False, s));
        let sw = (sw \<or> uxNumberOfItems (lists s) (pxReadyTasksLists (uxPriority s (pxCurrentTCB s))) > 1);
        Some (sw \<or> xYieldPendings s, s)
      }
      else Some (False, s\<lparr>xPendedTicks := xPendedTicks s + 1\<rparr>))"

definition prvAddCurrentTaskToDelayedList :: "u32 \<Rightarrow> bool \<Rightarrow> sched \<Rightarrow> sched option" where
  "prvAddCurrentTaskToDelayedList xTicksToWait xCanBlockIndefinitely s =
     (let t = pxCurrentTCB s; xConstTickCount = xTickCount (clock s)
      in do {
        (n, s) \<leftarrow> remove_item (state_item t) s;
        let s = (if n = 0 then portRESET_READY_PRIORITY (uxPriority s t) s else s);
        if xTicksToWait = portMAX_DELAY \<and> xCanBlockIndefinitely
        then Some (on_lists (vListInsertEnd xSuspendedTaskList (state_item t)) s)
        else do {
          let xTimeToWake = xConstTickCount + xTicksToWait;
          let s = listSET_LIST_ITEM_VALUE (state_item t) xTimeToWake s;
          if xTimeToWake < xConstTickCount
          then insert_sorted (pxOverflowDelayedTaskList s) (state_item t) s
          else do {
            s \<leftarrow> insert_sorted (pxDelayedTaskList s) (state_item t) s;
            Some (if xTimeToWake < xNextTaskUnblockTime s
                  then s\<lparr>xNextTaskUnblockTime := xTimeToWake\<rparr> else s)
          }
        }
      })"

section \<open>Suspending the scheduler\<close>

definition vTaskSuspendAll :: "sched \<Rightarrow> sched" where
  "vTaskSuspendAll s = s\<lparr>uxSchedulerSuspended := uxSchedulerSuspended s + 1\<rparr>"

text \<open>The two loops of \<open>xTaskResumeAll\<close>; the flag of the first is whether it moved a task.\<close>

partial_function (option) move_pending :: "bool \<Rightarrow> sched \<Rightarrow> (bool \<times> sched) option" where
  "move_pending moved s =
     (if listLIST_IS_EMPTY xPendingReadyList (lists s) then Some (moved, s)
      else (let t = listGET_OWNER_OF_HEAD_ENTRY xPendingReadyList (lists s)
            in Option.bind (listREMOVE_ITEM (event_item t) s)
                 (\<lambda>s. Option.bind (listREMOVE_ITEM (state_item t) s)
                   (\<lambda>s. let s = prvAddTaskToReadyList t s
                        in move_pending True
                             (if uxPriority s t > uxPriority s (pxCurrentTCB s)
                              then s\<lparr>xYieldPendings := True\<rparr> else s)))))"

fun replay_ticks :: "nat \<Rightarrow> sched \<Rightarrow> sched option" where
  "replay_ticks 0 s = Some s"
| "replay_ticks (Suc n) s = do {
     (sw, s) \<leftarrow> xTaskIncrementTick s;
     replay_ticks n (if sw then s\<lparr>xYieldPendings := True\<rparr> else s)
   }"

definition xTaskResumeAll :: "sched \<Rightarrow> (bool \<times> sched) option" where
  "xTaskResumeAll s =
     (if uxSchedulerSuspended s = 0 then None
      else let s = s\<lparr>uxSchedulerSuspended := uxSchedulerSuspended s - 1\<rparr>
      in if uxSchedulerSuspended s = 0 \<and> uxCurrentNumberOfTasks s > 0
         then do {
           (moved, s) \<leftarrow> move_pending False s;
           let s = (if moved then prvResetNextTaskUnblockTime s else s);
           s \<leftarrow> (if xPendedTicks s > 0
                then map_option (\<lambda>s. s\<lparr>xPendedTicks := 0\<rparr>) (replay_ticks (unat (xPendedTicks s)) s)
                else Some s);
           Some (if xYieldPendings s then (True, portYIELD s) else (False, s))
         }
         else Some (False, s))"

section \<open>The port\<close>

text \<open>
  The tick interrupt, and the interrupt that portYIELD raises: it clears the request and switches
  the context.
\<close>

definition vPortIncrementTick :: "sched \<Rightarrow> sched option" where
  "vPortIncrementTick s =
     map_option (\<lambda>(switch, s). if switch then portYIELD s else s) (xTaskIncrementTick s)"

definition vPortYieldISR :: "sched \<Rightarrow> sched option" where
  "vPortYieldISR s = vTaskSwitchContext (s\<lparr>yield_requested := False\<rparr>)"

end
