(* ===== verification/Rtos_Linked.thy ===== *)
theory Rtos_Linked
  imports Rtos_Task
begin

text \<open>
  Several lists in one store: what the operations of list.c do to where every item is, as long as all
  lists are well-formed. The two delayed lists are also sorted by the value of their items.
\<close>

abbreviation (input) sorted_lists :: "nat set" where
  "sorted_lists \<equiv> {xDelayedTaskList1, xDelayedTaskList2}"

definition linked :: "list_mem \<Rightarrow> nat set \<Rightarrow> bool" where
  "linked m L \<longleftrightarrow>
     (\<forall>l \<in> L. \<exists>is. ring m l is \<and> (l \<in> sorted_lists \<longrightarrow> sorted (map (\<lambda>i. xItemValue m (Item i)) is))) \<and>
     (\<forall>i l. pxContainer m i = Some l \<longrightarrow> l \<in> L \<and> 1 < i \<and> i < 2 ^ 32)"

lemma linked_ring:
  assumes "linked m L" "l \<in> L"
  obtains "is" where "ring m l is" "l \<in> sorted_lists \<Longrightarrow> sorted (map (\<lambda>i. xItemValue m (Item i)) is)"
  using assms unfolding linked_def by blast

lemma linked_bounds: "linked m L \<Longrightarrow> pxContainer m i = Some l \<Longrightarrow> l \<in> L \<and> 1 < i \<and> i < 2 ^ 32"
  unfolding linked_def by blast

lemma ring_container: "ring m l is \<Longrightarrow> pxContainer m i = Some l \<longleftrightarrow> i \<in> set is"
  by (simp add: ring_def)

lemma linked_length:
  assumes "linked m L" "ring m l is"
  shows "length is < 2 ^ 32"
proof -
  have "i \<in> {2 ..< 2 ^ 32}" if "i \<in> set is" for i
    using linked_bounds [OF assms(1)] ring_container [OF assms(2), of i] that by fastforce
  then have "card (set is) \<le> card {2 ..< 2 ^ 32 :: nat}" by (intro card_mono) (simp, blast)
  moreover have "card (set is) = length is" using assms(2) by (intro distinct_card) (simp add: ring_def)
  ultimately show ?thesis by simp
qed

lemma linked_count:
  assumes "linked m L" "ring m l is"
  shows "unat (uxNumberOfItems m l) = length is"
  using linked_length [OF assms] assms(2) by (simp add: ring_def u32_of_nat)

lemma linked_empty:
  assumes "linked m L" "l \<in> L"
  shows "uxNumberOfItems m l = 0 \<longleftrightarrow> (\<forall>i. pxContainer m i \<noteq> Some l)"
proof -
  from linked_ring [OF assms] obtain "is" where r: "ring m l is" by blast
  have "uxNumberOfItems m l = 0 \<longleftrightarrow> length is = 0"
    using linked_count [OF assms(1) r] by (metis unat_eq_zero)
  with r show ?thesis by (auto simp: ring_def)
qed

lemma linked_head:
  assumes "linked m L" "l \<in> L" "pxContainer m j = Some l"
  obtains i where "pxNext m (End l) = Item i" "pxContainer m i = Some l"
    "l \<in> sorted_lists \<Longrightarrow> (\<And>k. pxContainer m k = Some l \<Longrightarrow> xItemValue m (Item i) \<le> xItemValue m (Item k))"
proof -
  from linked_ring [OF assms(1,2)] obtain "is" where r: "ring m l is"
    and s: "l \<in> sorted_lists \<Longrightarrow> sorted (map (\<lambda>i. xItemValue m (Item i)) is)" by blast
  with assms(3) obtain i js where eq: "is = i # js" by (cases "is") (auto simp: ring_def)
  show ?thesis
  proof (rule that [of i])
    show "pxNext m (End l) = Item i" using r eq by (simp add: ring_def)
    show "pxContainer m i = Some l" using r eq by (simp add: ring_container [OF r])
    show "xItemValue m (Item i) \<le> xItemValue m (Item k)" if "l \<in> sorted_lists" "pxContainer m k = Some l" for k
      using that s eq by (auto simp: ring_container [OF r])
  qed
qed

text \<open>Where the items are after an operation that moved one of them, and that nothing else changed.\<close>

definition moved :: "nat \<Rightarrow> nat option \<Rightarrow> list_mem \<Rightarrow> list_mem \<Rightarrow> bool" where
  "moved i l m m' \<longleftrightarrow> pxContainer m' = (pxContainer m)(i := l) \<and> xItemValue m' = xItemValue m \<and>
     pvOwner m' = pvOwner m"

lemma linked_change:
  assumes lk: "linked m L" and l: "l \<in> L" and r: "ring m l is" and r': "ring m' l is'"
    and t: "touches_only l (set is) i m m'" and i: "pxContainer m i \<in> {None, Some l}"
    and sorted: "l \<in> sorted_lists \<Longrightarrow> sorted (map (\<lambda>i. xItemValue m' (Item i)) is')"
    and bound: "1 < i" "i < 2 ^ 32"
  shows "linked m' L \<and> moved i (pxContainer m' i) m m'"
proof -
  have vals: "xItemValue m' = xItemValue m" and own: "pvOwner m' = pvOwner m"
    and other: "\<And>j. j \<noteq> i \<Longrightarrow> pxContainer m' j = pxContainer m j" and at: "pxContainer m' i \<in> {None, Some l}"
    using t by (simp_all add: touches_only_def)
  have "\<exists>is. ring m' k is \<and> (k \<in> sorted_lists \<longrightarrow> sorted (map (\<lambda>i. xItemValue m' (Item i)) is))" if "k \<in> L" for k
  proof (cases "k = l")
    case True
    with r' sorted show ?thesis by blast
  next
    case False
    from linked_ring [OF lk that] obtain js where js: "ring m k js"
      "k \<in> sorted_lists \<Longrightarrow> sorted (map (\<lambda>i. xItemValue m (Item i)) js)" by blast
    from other_ring_kept [OF t r i js(1) False] js(2) show ?thesis unfolding vals by blast
  qed
  moreover have "k \<in> L \<and> 1 < j \<and> j < 2 ^ 32" if "pxContainer m' j = Some k" for j k
    using that linked_bounds [OF lk, of j k] other [of j] at l bound by (cases "j = i") auto
  moreover have "pxContainer m' = (pxContainer m)(i := pxContainer m' i)" using other by auto
  ultimately show ?thesis unfolding linked_def moved_def using vals own by blast
qed

text \<open>An item is linked in before the item that was looked at last.\<close>

lemma insert_end_ring:
  assumes r: "ring m l js" and i: "pxContainer m i = None"
  obtains as bs where "js = as @ bs" "ring (vListInsertEnd l i m) l (as @ i # bs)"
    "touches_only l (set js) i m (vListInsertEnd l i m)"
proof -
  from ring_index [OF r] obtain k where k: "index_at m l js k" by blast
  obtain as bs where ab: "js = as @ bs" "pxIndex m l = first_ptr bs (End l)"
  proof (cases "k = 0")
    case True
    with k show ?thesis by (intro that [of js "[]"]) (simp_all add: index_at_def)
  next
    case False
    then have "k - 1 < length js" using k unfolding index_at_def by linarith
    with False have "take k js = take (k - 1) js @ [js ! (k - 1)]"
      by (metis Suc_pred' neq0_conv take_Suc_conv_app_nth)
    with k have "pxIndex m l = first_ptr (drop (k - 1) js) (End l)"
      unfolding Cons_nth_drop_Suc [OF \<open>k - 1 < length js\<close>, symmetric] by (simp add: index_at_def)
    then show ?thesis by (intro that [of "take (k - 1) js" "drop (k - 1) js"]) simp_all
  qed
  from vListInsertEnd_ring [OF r [unfolded ab(1)] i ab(2)] that show ?thesis unfolding ab(1) by simp
qed

lemma linked_insert_end:
  assumes lk: "linked m L" and l: "l \<in> L" "l \<notin> sorted_lists" and i: "pxContainer m i = None" "1 < i" "i < 2 ^ 32"
  shows "linked (vListInsertEnd l i m) L \<and> moved i (Some l) m (vListInsertEnd l i m)"
proof -
  from linked_ring [OF lk l(1)] obtain js where r: "ring m l js" by blast
  from insert_end_ring [OF r i(1)] obtain as bs where r': "ring (vListInsertEnd l i m) l (as @ i # bs)"
    and t: "touches_only l (set js) i m (vListInsertEnd l i m)" .
  have "pxContainer (vListInsertEnd l i m) i = Some l" using r' by (simp add: ring_def)
  with linked_change [OF lk l(1) r r' t _ _ i(2,3)] i(1) l(2) show ?thesis by simp
qed

lemma linked_insert:
  assumes lk: "linked m L" and l: "l \<in> L" and i: "pxContainer m i = None" "1 < i" "i < 2 ^ 32"
  obtains m' where "vListInsert l i m = Some m'" "linked m' L" "moved i (Some l) m m'"
proof -
  from linked_ring [OF lk l] obtain js where r: "ring m l js"
    and s: "l \<in> sorted_lists \<Longrightarrow> sorted (map (\<lambda>i. xItemValue m (Item i)) js)" by blast
  from vListInsert_ring [OF r i(1)] obtain m' where m': "vListInsert l i m = Some m'"
    "ring m' l (sorted_insert m i js)" "touches_only l (set js) i m m'" by blast
  have v: "xItemValue m' = xItemValue m" using m'(3) by (simp add: touches_only_def)
  have "pxContainer m' i = Some l" using m'(2) by (simp add: ring_def sorted_insert_def Let_def)
  moreover from linked_change [OF lk l r m'(2,3) _ _ i(2,3)] i(1) s
  have "linked m' L \<and> moved i (pxContainer m' i) m m'" by (simp add: v sorted_insert_sorted)
  ultimately show ?thesis using that m'(1) by simp
qed

lemma linked_remove:
  assumes lk: "linked m L" and i: "pxContainer m i = Some l"
  obtains n m' where "uxListRemove i m = Some (n, m')" "linked m' L" "moved i None m m'"
    "n = 0 \<longleftrightarrow> (\<forall>j. pxContainer m' j \<noteq> Some l)"
proof -
  from linked_bounds [OF lk i] have l: "l \<in> L" and b: "1 < i" "i < 2 ^ 32" by simp_all
  from linked_ring [OF lk l] obtain ks where r: "ring m l ks"
    and s: "l \<in> sorted_lists \<Longrightarrow> sorted (map (\<lambda>i. xItemValue m (Item i)) ks)" by blast
  with i obtain as bs where ks: "ks = as @ i # bs" by (metis ring_container split_list)
  from uxListRemove_ring [OF r [unfolded ks]] obtain m' where
    m': "uxListRemove i m = Some (of_nat (length (as @ bs)), m')" "ring m' l (as @ bs)" "pxContainer m' i = None"
      "touches_only l (set ks) i m m'" using ks by blast
  have v: "xItemValue m' = xItemValue m" using m'(4) by (simp add: touches_only_def)
  have s': "l \<in> sorted_lists \<Longrightarrow> sorted (map (\<lambda>i. xItemValue m' (Item i)) (as @ bs))"
    using s by (auto simp: v ks sorted_append)
  have i': "pxContainer m i \<in> {None, Some l}" using i by simp
  from linked_change [OF lk l r m'(2,4) i' s' b] m'(3) have lk': "linked m' L" "moved i None m m'" by simp_all
  have "(of_nat (length (as @ bs)) :: u32) = 0 \<longleftrightarrow> length (as @ bs) = 0"
    using linked_length [OF lk'(1) m'(2)] u32_nat_inject [of "length (as @ bs)" 0] by simp
  also have "\<dots> \<longleftrightarrow> (\<forall>j. pxContainer m' j \<noteq> Some l)" unfolding ring_container [OF m'(2)] by (cases "as @ bs") auto
  finally show ?thesis using that m'(1) lk' by blast
qed

text \<open>The value of an item that is on no sorted list may be changed.\<close>

lemma linked_set_value:
  assumes lk: "linked m L" and i: "\<And>l. pxContainer m i = Some l \<Longrightarrow> l \<notin> sorted_lists"
  shows "linked (m\<lparr>xItemValue := (xItemValue m)(Item i := v)\<rparr>) L"
proof -
  let ?m = "m\<lparr>xItemValue := (xItemValue m)(Item i := v)\<rparr>"
  have links: "links ?m p is q = links m p is q" for p "is" q
    by (induction "is" arbitrary: p) simp_all
  have "\<exists>is. ring ?m l is \<and> (l \<in> sorted_lists \<longrightarrow> sorted (map (\<lambda>i. xItemValue ?m (Item i)) is))" if "l \<in> L" for l
  proof -
    from linked_ring [OF lk that] obtain js where r: "ring m l js"
      and s: "l \<in> sorted_lists \<Longrightarrow> sorted (map (\<lambda>i. xItemValue m (Item i)) js)" by blast
    have "i \<notin> set js" if "l \<in> sorted_lists" using i [of l] that ring_container [OF r, of i] by blast
    then have "map (\<lambda>i. xItemValue ?m (Item i)) js = map (\<lambda>i. xItemValue m (Item i)) js" if "l \<in> sorted_lists"
      using that by auto
    with s have "l \<in> sorted_lists \<longrightarrow> sorted (map (\<lambda>i. xItemValue ?m (Item i)) js)" by metis
    moreover have "ring ?m l js" using r by (simp add: ring_def links)
    ultimately show ?thesis by blast
  qed
  with lk show ?thesis by (simp add: linked_def)
qed

text \<open>The order of the items of another list is not touched.\<close>

lemma insert_end_other:
  assumes lk: "linked m L" and k: "k \<in> L" "k \<noteq> l" and i: "pxContainer m i = None" and r: "ring m l js"
  shows "ring (vListInsertEnd k i m) l js"
proof -
  from linked_ring [OF lk k(1)] obtain ks where rk: "ring m k ks" by blast
  from insert_end_ring [OF rk i] obtain as bs where
    "touches_only k (set ks) i m (vListInsertEnd k i m)" .
  from other_ring_kept [OF this rk _ r] i k(2) show ?thesis by simp
qed

lemma remove_other:
  assumes lk: "linked m L" and k: "pxContainer m i = Some k" "k \<noteq> l" and r: "ring m l js"
    and rm: "uxListRemove i m = Some (n, m')"
  shows "ring m' l js"
proof -
  from linked_bounds [OF lk k(1)] have "k \<in> L" by simp
  from linked_ring [OF lk this] obtain ks where rk: "ring m k ks" by blast
  with k(1) obtain as bs where ks: "ks = as @ i # bs" by (metis ring_container split_list)
  from uxListRemove_ring [OF rk [unfolded ks]] rm have "touches_only k (set ks) i m m'" using ks by auto
  from other_ring_kept [OF this rk _ r] k show ?thesis by simp
qed

end
