(* ===== verification/Rtos_Task_Api.thy ===== *)
theory Rtos_Task_Api
  imports Rtos_Task
begin

text \<open>
  The functions of src/FreeRTOS/tasks.c that tasks, interrupts and the other kernel files call:
  delays, event lists, suspension, priorities with their inheritance through mutexes, notifications,
  creation and deletion. Critical sections are left out: a function is one step, except where it
  waits, when it is two, before and after the context switch.
\<close>

definition prvGetTCBFromHandle :: "nat \<Rightarrow> sched \<Rightarrow> nat" where
  "prvGetTCBFromHandle h s = (if h = 0 then pxCurrentTCB s else h)"

section \<open>Delays\<close>

definition yield_unless :: "bool \<times> sched \<Rightarrow> sched" where
  "yield_unless r = (if \<not> fst r then portYIELD (snd r) else snd r)"

definition vTaskDelay :: "u32 \<Rightarrow> sched \<Rightarrow> sched option" where
  "vTaskDelay xTicksToDelay s = do {
     r \<leftarrow> (if xTicksToDelay > 0
          then do {
            let s = vTaskSuspendAll s;
            if uxSchedulerSuspended s \<noteq> 1 then None
            else do {
              s \<leftarrow> prvAddCurrentTaskToDelayedList xTicksToDelay False s;
              xTaskResumeAll s
            }
          }
          else Some (False, s));
     Some (yield_unless r)
   }"

definition should_delay :: "u32 \<Rightarrow> u32 \<Rightarrow> u32 \<Rightarrow> bool" where
  "should_delay xConstTickCount previous xTimeToWake \<longleftrightarrow>
     (if xConstTickCount < previous
      then xTimeToWake < previous \<and> xTimeToWake > xConstTickCount
      else xTimeToWake < previous \<or> xTimeToWake > xConstTickCount)"

text \<open>The results are the return value and what is stored through \<open>pxPreviousWakeTime\<close>.\<close>

definition xTaskDelayUntil :: "u32 option \<Rightarrow> u32 \<Rightarrow> sched \<Rightarrow> (bool \<times> u32 \<times> sched) option" where
  "xTaskDelayUntil pxPreviousWakeTime xTimeIncrement s = do {
     previous \<leftarrow> pxPreviousWakeTime;
     if xTimeIncrement = 0 then None
     else do {
       let s = vTaskSuspendAll s;
       let xConstTickCount = xTickCount (clock s);
       if uxSchedulerSuspended s \<noteq> 1 then None
       else do {
         let xTimeToWake = previous + xTimeIncrement;
         let xShouldDelay = should_delay xConstTickCount previous xTimeToWake;
         s \<leftarrow> (if xShouldDelay
              then prvAddCurrentTaskToDelayedList (xTimeToWake - xConstTickCount) False s else Some s);
         r \<leftarrow> xTaskResumeAll s;
         Some (xShouldDelay, xTimeToWake, yield_unless r)
       }
     }
   }"

section \<open>Event lists\<close>

definition vTaskPlaceOnEventList :: "nat \<Rightarrow> u32 \<Rightarrow> sched \<Rightarrow> sched option" where
  "vTaskPlaceOnEventList l xTicksToWait s = do {
     s \<leftarrow> insert_sorted l (event_item (pxCurrentTCB s)) s;
     prvAddCurrentTaskToDelayedList xTicksToWait True s
   }"

definition vTaskPlaceOnUnorderedEventList :: "nat \<Rightarrow> u32 \<Rightarrow> u32 \<Rightarrow> sched \<Rightarrow> sched option" where
  "vTaskPlaceOnUnorderedEventList l v xTicksToWait s =
     (if uxSchedulerSuspended s = 0 then None
      else (let i = event_item (pxCurrentTCB s);
                s = listSET_LIST_ITEM_VALUE i (v OR taskEVENT_LIST_ITEM_VALUE_IN_USE) s;
                s = on_lists (vListInsertEnd l i) s
            in prvAddCurrentTaskToDelayedList xTicksToWait True s))"

text \<open>\<open>wake\<close> is the last part of several functions: a task of higher priority asks for a switch.\<close>

definition wake :: "nat \<Rightarrow> sched \<Rightarrow> bool \<times> sched" where
  "wake t s =
     (if uxPriority s t > uxPriority s (pxCurrentTCB s) then (True, s\<lparr>xYieldPendings := True\<rparr>)
      else (False, s))"

definition xTaskRemoveFromEventList :: "nat \<Rightarrow> sched \<Rightarrow> (bool \<times> sched) option" where
  "xTaskRemoveFromEventList l s =
     (let t = listGET_OWNER_OF_HEAD_ENTRY l (lists s)
      in if t = 0 then None
         else do {
           s \<leftarrow> listREMOVE_ITEM (event_item t) s;
           s \<leftarrow> (if uxSchedulerSuspended s = 0
                then map_option (prvAddTaskToReadyList t) (listREMOVE_ITEM (state_item t) s)
                else Some (on_lists (vListInsertEnd xPendingReadyList (event_item t)) s));
           Some (wake t s)
         })"

definition vTaskRemoveFromUnorderedEventList :: "nat \<Rightarrow> u32 \<Rightarrow> sched \<Rightarrow> sched option" where
  "vTaskRemoveFromUnorderedEventList i v s =
     (if uxSchedulerSuspended s = 0 then None
      else do {
        let s = listSET_LIST_ITEM_VALUE i (v OR taskEVENT_LIST_ITEM_VALUE_IN_USE) s;
        let t = pvOwner (lists s) (Item i);
        if t = 0 then None
        else do {
          s \<leftarrow> listREMOVE_ITEM i s;
          s \<leftarrow> listREMOVE_ITEM (state_item t) s;
          Some (snd (wake t (prvAddTaskToReadyList t s)))
        }
      })"

definition vTaskMissedYield :: "sched \<Rightarrow> sched" where
  "vTaskMissedYield s = s\<lparr>xYieldPendings := True\<rparr>"

definition uxTaskResetEventItemValue :: "sched \<Rightarrow> u32 \<times> sched" where
  "uxTaskResetEventItemValue s =
     (let t = pxCurrentTCB s
      in (listGET_LIST_ITEM_VALUE (event_item t) s,
          listSET_LIST_ITEM_VALUE (event_item t) (configMAX_PRIORITIES - uxPriority s t) s))"

section \<open>Suspended tasks\<close>

definition vTaskSuspend :: "nat \<Rightarrow> sched \<Rightarrow> sched option" where
  "vTaskSuspend h s =
     (let t = prvGetTCBFromHandle h s
      in if t = 0 then None
         else do {
           (n, s) \<leftarrow> remove_item (state_item t) s;
           let s = (if n = 0 then taskRESET_READY_PRIORITY (uxPriority s t) s else s);
           s \<leftarrow> (if \<not> contained_in (event_item t) None s then listREMOVE_ITEM (event_item t) s else Some s);
           let s = on_lists (vListInsertEnd xSuspendedTaskList (state_item t)) s;
           let s = (if ucNotifyState s t = taskWAITING_NOTIFICATION
                    then s\<lparr>ucNotifyState := (ucNotifyState s)(t := taskNOT_WAITING_NOTIFICATION)\<rparr> else s);
           let s = (if xSchedulerRunning s then prvResetNextTaskUnblockTime s else s);
           if t = pxCurrentTCB s
           then (if xSchedulerRunning s
                 then (if uxSchedulerSuspended s \<noteq> 0 then None else Some (portYIELD s))
                 else if uxNumberOfItems (lists s) xSuspendedTaskList = uxCurrentNumberOfTasks s
                 then Some (s\<lparr>pxCurrentTCB := 0\<rparr>)
                 else vTaskSwitchContext s)
           else Some s
         })"

definition prvTaskIsTaskSuspended :: "nat \<Rightarrow> sched \<Rightarrow> bool" where
  "prvTaskIsTaskSuspended t s \<longleftrightarrow>
     contained_in (state_item t) (Some xSuspendedTaskList) s \<and>
     \<not> contained_in (event_item t) (Some xPendingReadyList) s \<and>
     contained_in (event_item t) None s \<and> ucNotifyState s t \<noteq> taskWAITING_NOTIFICATION"

definition vTaskResume :: "nat \<Rightarrow> sched \<Rightarrow> sched option" where
  "vTaskResume t s =
     (if t = 0 then None
      else if t \<noteq> pxCurrentTCB s \<and> prvTaskIsTaskSuspended t s
      then do {
        s \<leftarrow> listREMOVE_ITEM (state_item t) s;
        Some (taskYIELD_ANY_CORE_IF_USING_PREEMPTION t (prvAddTaskToReadyList t s))
      }
      else Some s)"

definition xTaskResumeFromISR :: "nat \<Rightarrow> sched \<Rightarrow> (bool \<times> sched) option" where
  "xTaskResumeFromISR t s =
     (if t = 0 then None
      else if \<not> prvTaskIsTaskSuspended t s then Some (False, s)
      else if uxSchedulerSuspended s = 0
      then do {
        let (y, s) = wake t s;
        s \<leftarrow> listREMOVE_ITEM (state_item t) s;
        Some (y, prvAddTaskToReadyList t s)
      }
      else Some (False, on_lists (vListInsertEnd xPendingReadyList (event_item t)) s))"

section \<open>Priorities\<close>

definition uxTaskPriorityGet :: "nat \<Rightarrow> sched \<Rightarrow> u32" where
  "uxTaskPriorityGet h s = uxPriority s (prvGetTCBFromHandle h s)"

definition uxTaskBasePriorityGet :: "nat \<Rightarrow> sched \<Rightarrow> u32" where
  "uxTaskBasePriorityGet h s = uxBasePriority s (prvGetTCBFromHandle h s)"

definition set_priority :: "nat \<Rightarrow> u32 \<Rightarrow> sched \<Rightarrow> sched" where
  "set_priority t p s = s\<lparr>uxPriority := (uxPriority s)(t := p)\<rparr>"

text \<open>The event list value follows the priority unless it is in use for something else.\<close>

definition set_event_value :: "nat \<Rightarrow> u32 \<Rightarrow> sched \<Rightarrow> sched" where
  "set_event_value t p s =
     (if listGET_LIST_ITEM_VALUE (event_item t) s AND taskEVENT_LIST_ITEM_VALUE_IN_USE = 0
      then listSET_LIST_ITEM_VALUE (event_item t) (configMAX_PRIORITIES - p) s else s)"

definition vTaskPrioritySet :: "nat \<Rightarrow> u32 \<Rightarrow> sched \<Rightarrow> sched option" where
  "vTaskPrioritySet h uxNewPriority s =
     (if \<not> uxNewPriority < configMAX_PRIORITIES then None
      else let t = prvGetTCBFromHandle h s
      in if t = 0 then None
      else if uxBasePriority s t = uxNewPriority then Some s
      else let xYieldRequired =
             (if uxNewPriority > uxBasePriority s t
              then t \<noteq> pxCurrentTCB s \<and> uxNewPriority > uxPriority s (pxCurrentTCB s)
              else t = pxCurrentTCB s);
           uxPriorityUsedOnEntry = uxPriority s t;
           s = (if uxBasePriority s t = uxPriority s t \<or> uxNewPriority > uxPriority s t
                then set_priority t uxNewPriority s else s);
           s = s\<lparr>uxBasePriority := (uxBasePriority s)(t := uxNewPriority)\<rparr>;
           s = set_event_value t uxNewPriority s
      in do {
        s \<leftarrow> (if contained_in (state_item t) (Some (pxReadyTasksLists uxPriorityUsedOnEntry)) s
             then do {
               (n, s) \<leftarrow> remove_item (state_item t) s;
               Some (prvAddTaskToReadyList t
                 (if n = 0 then portRESET_READY_PRIORITY uxPriorityUsedOnEntry s else s))
             }
             else Some s);
        Some (if xYieldRequired then portYIELD s else s)
      })"

definition xTaskPriorityInherit :: "nat \<Rightarrow> sched \<Rightarrow> (bool \<times> sched) option" where
  "xTaskPriorityInherit t s =
     (if t = 0 then Some (False, s)
      else let p = uxPriority s (pxCurrentTCB s)
      in if uxPriority s t < p
         then do {
           let s = set_event_value t p s;
           s \<leftarrow> (if contained_in (state_item t) (Some (pxReadyTasksLists (uxPriority s t))) s
                then do {
                  (n, s) \<leftarrow> remove_item (state_item t) s;
                  let s = (if n = 0 then portRESET_READY_PRIORITY (uxPriority s t) s else s);
                  Some (prvAddTaskToReadyList t (set_priority t p s))
                }
                else Some (set_priority t p s));
           Some (True, s)
         }
         else Some (uxBasePriority s t < p, s))"

definition xTaskPriorityDisinherit :: "nat \<Rightarrow> sched \<Rightarrow> (bool \<times> sched) option" where
  "xTaskPriorityDisinherit t s =
     (if t = 0 then Some (False, s)
      else if t \<noteq> pxCurrentTCB s \<or> uxMutexesHeld s t = 0 then None
      else let s = s\<lparr>uxMutexesHeld := (uxMutexesHeld s)(t := uxMutexesHeld s t - 1)\<rparr>
      in if uxPriority s t \<noteq> uxBasePriority s t \<and> uxMutexesHeld s t = 0
         then do {
           (n, s) \<leftarrow> remove_item (state_item t) s;
           let s = (if n = 0 then portRESET_READY_PRIORITY (uxPriority s t) s else s);
           let s = set_priority t (uxBasePriority s t) s;
           let s = listSET_LIST_ITEM_VALUE (event_item t) (configMAX_PRIORITIES - uxPriority s t) s;
           Some (True, prvAddTaskToReadyList t s)
         }
         else Some (False, s))"

text \<open>
  The ready bit that is reset when the ready list of the old priority became empty is, as in the
  code, the one of the new priority.
\<close>

definition vTaskPriorityDisinheritAfterTimeout :: "nat \<Rightarrow> u32 \<Rightarrow> sched \<Rightarrow> sched option" where
  "vTaskPriorityDisinheritAfterTimeout t uxHighestPriorityWaitingTask s =
     (if t = 0 then Some s
      else if uxMutexesHeld s t = 0 then None
      else let uxPriorityToUse =
             (if uxBasePriority s t < uxHighestPriorityWaitingTask then uxHighestPriorityWaitingTask
              else uxBasePriority s t)
      in if uxPriority s t \<noteq> uxPriorityToUse \<and> uxMutexesHeld s t = 1
         then (if t = pxCurrentTCB s then None
               else let uxPriorityUsedOnEntry = uxPriority s t;
                        s = set_priority t uxPriorityToUse s;
                        s = set_event_value t uxPriorityToUse s
               in if contained_in (state_item t) (Some (pxReadyTasksLists uxPriorityUsedOnEntry)) s
                  then do {
                    (n, s) \<leftarrow> remove_item (state_item t) s;
                    Some (prvAddTaskToReadyList t
                      (if n = 0 then portRESET_READY_PRIORITY (uxPriority s t) s else s))
                  }
                  else Some s)
         else Some s)"

definition pvTaskIncrementMutexHeldCount :: "sched \<Rightarrow> nat \<times> sched" where
  "pvTaskIncrementMutexHeldCount s =
     (let t = pxCurrentTCB s
      in if t \<noteq> 0 then (t, s\<lparr>uxMutexesHeld := (uxMutexesHeld s)(t := uxMutexesHeld s t + 1)\<rparr>) else (t, s))"

section \<open>Queries, and ticks that were missed\<close>

datatype scheduler_state = taskSCHEDULER_SUSPENDED | taskSCHEDULER_NOT_STARTED | taskSCHEDULER_RUNNING

definition xTaskGetSchedulerState :: "sched \<Rightarrow> scheduler_state" where
  "xTaskGetSchedulerState s =
     (if \<not> xSchedulerRunning s then taskSCHEDULER_NOT_STARTED
      else if uxSchedulerSuspended s = 0 then taskSCHEDULER_RUNNING else taskSCHEDULER_SUSPENDED)"

definition xTaskGetTickCount :: "sched \<Rightarrow> u32" where
  "xTaskGetTickCount s = xTickCount (clock s)"

definition xTaskGetTickCountFromISR :: "sched \<Rightarrow> u32" where
  "xTaskGetTickCountFromISR s = xTickCount (clock s)"

definition uxTaskGetNumberOfTasks :: "sched \<Rightarrow> u32" where
  "uxTaskGetNumberOfTasks s = uxCurrentNumberOfTasks s"

definition xTaskGetCurrentTaskHandle :: "sched \<Rightarrow> nat" where
  "xTaskGetCurrentTaskHandle s = pxCurrentTCB s"

definition uxTaskPriorityGetFromISR :: "nat \<Rightarrow> sched \<Rightarrow> u32" where
  "uxTaskPriorityGetFromISR h s = uxPriority s (prvGetTCBFromHandle h s)"

definition uxTaskBasePriorityGetFromISR :: "nat \<Rightarrow> sched \<Rightarrow> u32" where
  "uxTaskBasePriorityGetFromISR h s = uxBasePriority s (prvGetTCBFromHandle h s)"

definition vTaskSetTimeOutState :: "sched \<Rightarrow> time_out" where
  "vTaskSetTimeOutState s =
     \<lparr>xOverflowCount = xNumOfOverflows (clock s), xTimeOnEntering = xTickCount (clock s)\<rparr>"

definition xTaskCatchUpTicks :: "u32 \<Rightarrow> sched \<Rightarrow> (bool \<times> sched) option" where
  "xTaskCatchUpTicks xTicksToCatchUp s =
     (if uxSchedulerSuspended s \<noteq> 0 then None
      else let s = vTaskSuspendAll s;
               s = s\<lparr>xPendedTicks := xPendedTicks s + xTicksToCatchUp\<rparr>
           in xTaskResumeAll s)"

definition vTaskResetState :: "sched \<Rightarrow> sched" where
  "vTaskResetState s =
     s\<lparr>pxCurrentTCB := 0, uxDeletedTasksWaitingCleanUp := 0, uxCurrentNumberOfTasks := 0,
       clock := \<lparr>xTickCount = 0, xNumOfOverflows = 0\<rparr>, uxTopReadyPriority := 0, xSchedulerRunning := False,
       xPendedTicks := 0, xYieldPendings := False, uxTaskNumber := 0, xNextTaskUnblockTime := 0,
       uxSchedulerSuspended := 0\<rparr>"

end
