(* ===== verification/Rtos_Sched.thy ===== *)
theory Rtos_Sched
  imports Rtos_Linked Rtos_Task_Api
begin

text \<open>
  The invariant of the scheduler: the lists are well-formed, every task is where its state says, the
  ready bits match the ready lists, and the delayed lists hold times on the right side of the tick
  counter. The effect of the operations is stated on \<open>at\<close>, which list every item is on.
\<close>

abbreviation at :: "sched \<Rightarrow> nat \<Rightarrow> nat option" where
  "at s \<equiv> pxContainer (lists s)"

abbreviation item_value :: "sched \<Rightarrow> nat \<Rightarrow> u32" where
  "item_value s i \<equiv> xItemValue (lists s) (Item i)"

abbreviation now :: "sched \<Rightarrow> u32" where
  "now s \<equiv> xTickCount (clock s)"

lemma item_eq [simp]:
  "state_item t = state_item u \<longleftrightarrow> t = u" "event_item t = event_item u \<longleftrightarrow> t = u"
  "state_item t \<noteq> event_item u" "event_item u \<noteq> state_item t"
  unfolding state_item_def event_item_def by (simp, simp, presburger, presburger)

section \<open>The invariant\<close>

text \<open>A task exists once its control block was initialised and it was put on a list.\<close>

definition owned :: "(list_ptr \<Rightarrow> nat) \<Rightarrow> (nat \<Rightarrow> nat option) \<Rightarrow> bool" where
  "owned own w \<longleftrightarrow>
     (\<forall>t. w (state_item t) \<noteq> None \<longrightarrow> own (Item (state_item t)) = t \<and> own (Item (event_item t)) = t)"

definition lists_ok :: "nat set \<Rightarrow> sched \<Rightarrow> bool" where
  "lists_ok E s \<longleftrightarrow> linked (lists s) ({0..9} \<union> E) \<and> (\<forall>l \<in> E. 9 < l) \<and> owned (pvOwner (lists s)) (at s)"

lemma owned_state: "owned own w \<Longrightarrow> w (state_item t) \<noteq> None \<Longrightarrow> owned own (w(state_item t := l))"
  by (simp add: owned_def)

lemma owned_event [simp]: "owned own (w(event_item t := l)) = owned own w"
  by (simp add: owned_def)

text \<open>
  A task that is ready is on the list of its priority, and only a task that is blocked or suspended
  waits on an event list or on the list of those that became ready while the scheduler was suspended.
\<close>

definition placed_ok :: "nat set \<Rightarrow> (nat \<Rightarrow> u32) \<Rightarrow> (nat \<Rightarrow> nat option) \<Rightarrow> bool" where
  "placed_ok E prio w \<longleftrightarrow>
     (\<forall>t l. w (state_item t) = Some l \<longrightarrow> l \<le> 9 \<and> l \<noteq> 7 \<and> (l < 5 \<longrightarrow> unat (prio t) = l)) \<and>
     (\<forall>t l. w (event_item t) = Some l \<longrightarrow> (l = 7 \<or> l \<in> E) \<and> w (state_item t) \<in> {Some 5, Some 6, Some 9})"

definition bits_ok :: "u32 \<Rightarrow> (nat \<Rightarrow> nat option) \<Rightarrow> bool" where
  "bits_ok rdy w \<longleftrightarrow> (\<forall>p < 32. bit rdy p \<longleftrightarrow> p < 5 \<and> (\<exists>t. w (state_item t) = Some p))"

definition priorities_ok :: "sched \<Rightarrow> bool" where
  "priorities_ok s \<longleftrightarrow> (\<forall>t. uxPriority s t < 5 \<and> uxBasePriority s t \<le> uxPriority s t)"

definition base_ok :: "nat set \<Rightarrow> sched \<Rightarrow> bool" where
  "base_ok E s \<longleftrightarrow> lists_ok E s \<and> placed_ok E (uxPriority s) (at s) \<and>
     bits_ok (uxTopReadyPriority s) (at s) \<and> priorities_ok s \<and>
     pxCurrentTCB s \<noteq> 0 \<and> at s (state_item (pxCurrentTCB s)) \<noteq> None"

definition times_ok :: "sched \<Rightarrow> bool" where
  "times_ok s \<longleftrightarrow>
     (pxDelayedTaskList s = xDelayedTaskList1 \<and> pxOverflowDelayedTaskList s = xDelayedTaskList2 \<or>
      pxDelayedTaskList s = xDelayedTaskList2 \<and> pxOverflowDelayedTaskList s = xDelayedTaskList1) \<and>
     (\<forall>i. at s i = Some (pxDelayedTaskList s) \<longrightarrow> now s < item_value s i \<and> xNextTaskUnblockTime s \<le> item_value s i) \<and>
     (\<forall>i. at s i = Some (pxOverflowDelayedTaskList s) \<longrightarrow> item_value s i < now s)"

section \<open>Moving items\<close>

text \<open>
  The operations change the lists and the ready bits and nothing else of the state (\<open>relinked\<close>); what
  they do to the lists is told by where the items are.
\<close>

definition relinked :: "sched \<Rightarrow> sched \<Rightarrow> bool" where
  "relinked s s' \<longleftrightarrow>
     s' = s\<lparr>lists := lists s', uxTopReadyPriority := uxTopReadyPriority s'\<rparr> \<and>
     xItemValue (lists s') = xItemValue (lists s) \<and> pvOwner (lists s') = pvOwner (lists s)"

lemma relinked_fields:
  assumes "relinked s s'"
  shows "uxPriority s' = uxPriority s" "uxBasePriority s' = uxBasePriority s" "pxCurrentTCB s' = pxCurrentTCB s"
    "pxDelayedTaskList s' = pxDelayedTaskList s" "pxOverflowDelayedTaskList s' = pxOverflowDelayedTaskList s"
    "clock s' = clock s" "xPendedTicks s' = xPendedTicks s" "xYieldPendings s' = xYieldPendings s"
    "xNextTaskUnblockTime s' = xNextTaskUnblockTime s" "uxSchedulerSuspended s' = uxSchedulerSuspended s"
    "xSchedulerRunning s' = xSchedulerRunning s" "uxCurrentNumberOfTasks s' = uxCurrentNumberOfTasks s"
    "ucNotifyState s' = ucNotifyState s" "uxMutexesHeld s' = uxMutexesHeld s" "yield_requested s' = yield_requested s"
    "xItemValue (lists s') = xItemValue (lists s)" "pvOwner (lists s') = pvOwner (lists s)"
    "ulNotifiedValue s' = ulNotifiedValue s"
proof -
  from assms have e: "s' = s\<lparr>lists := lists s', uxTopReadyPriority := uxTopReadyPriority s'\<rparr>"
    by (simp add: relinked_def)
  show "uxPriority s' = uxPriority s" "uxBasePriority s' = uxBasePriority s" "pxCurrentTCB s' = pxCurrentTCB s"
    "pxDelayedTaskList s' = pxDelayedTaskList s" "pxOverflowDelayedTaskList s' = pxOverflowDelayedTaskList s"
    "clock s' = clock s" "xPendedTicks s' = xPendedTicks s" "xYieldPendings s' = xYieldPendings s"
    "xNextTaskUnblockTime s' = xNextTaskUnblockTime s" "uxSchedulerSuspended s' = uxSchedulerSuspended s"
    "xSchedulerRunning s' = xSchedulerRunning s" "uxCurrentNumberOfTasks s' = uxCurrentNumberOfTasks s"
    "ucNotifyState s' = ucNotifyState s" "uxMutexesHeld s' = uxMutexesHeld s" "yield_requested s' = yield_requested s"
    by (subst e, simp)+
  show "xItemValue (lists s') = xItemValue (lists s)" "pvOwner (lists s') = pvOwner (lists s)"
    using assms by (simp_all add: relinked_def)
  show "ulNotifiedValue s' = ulNotifiedValue s" by (subst e, simp)
qed

lemma relinked_refl [simp]: "relinked s s"
  by (simp add: relinked_def)

lemma relinked_trans: "relinked s t \<Longrightarrow> relinked t u \<Longrightarrow> relinked s u"
  unfolding relinked_def by (cases s; cases t; cases u) simp

definition kept_linked :: "nat set \<Rightarrow> sched \<Rightarrow> (nat \<Rightarrow> nat option) \<Rightarrow> u32 \<Rightarrow> sched \<Rightarrow> bool" where
  "kept_linked L s w rdy s' \<longleftrightarrow>
     relinked s s' \<and> linked (lists s') L \<and> at s' = w \<and> uxTopReadyPriority s' = rdy"

lemma kept_linked_trans:
  "kept_linked L s w rdy t \<Longrightarrow> kept_linked L t w' rdy' u \<Longrightarrow> kept_linked L s w' rdy' u"
  unfolding kept_linked_def using relinked_trans by blast

lemma remove_moves:
  assumes "linked (lists s) L" "at s i = Some l"
  obtains n s' where "remove_item i s = Some (n, s')"
    "kept_linked L s ((at s)(i := None)) (uxTopReadyPriority s) s'" "n = 0 \<longleftrightarrow> (\<forall>j. at s' j \<noteq> Some l)"
proof -
  from linked_remove [OF assms] obtain n m' where "uxListRemove i (lists s) = Some (n, m')"
    "linked m' L" "moved i None (lists s) m'" "n = 0 \<longleftrightarrow> (\<forall>j. pxContainer m' j \<noteq> Some l)" .
  then show ?thesis
    by (intro that [of n "s\<lparr>lists := m'\<rparr>"]) (simp_all add: remove_item_def kept_linked_def relinked_def moved_def)
qed

lemma REMOVE_moves:
  assumes "linked (lists s) L" "at s i = Some l"
  obtains s' where "listREMOVE_ITEM i s = Some s'"
    "kept_linked L s ((at s)(i := None)) (uxTopReadyPriority s) s'"
proof -
  from remove_moves [OF assms] obtain n s' where "remove_item i s = Some (n, s')"
    "kept_linked L s ((at s)(i := None)) (uxTopReadyPriority s) s'" by blast
  then show ?thesis by (intro that [of s']) (simp_all add: listREMOVE_ITEM_def)
qed

lemma insert_end_moves:
  assumes "linked (lists s) L" "at s i = None" "l \<in> L" "l \<notin> sorted_lists" "1 < i" "i < 2 ^ 32"
  shows "kept_linked L s ((at s)(i := Some l)) (uxTopReadyPriority s) (on_lists (vListInsertEnd l i) s)"
  using linked_insert_end [OF assms(1,3,4,2,5,6)]
  by (simp add: kept_linked_def relinked_def moved_def on_lists_def)

lemma insert_moves:
  assumes "linked (lists s) L" "at s i = None" "l \<in> L" "1 < i" "i < 2 ^ 32"
  obtains s' where "insert_sorted l i s = Some s'"
    "kept_linked L s ((at s)(i := Some l)) (uxTopReadyPriority s) s'"
proof -
  from linked_insert [OF assms(1,3,2,4,5)] obtain m' where "vListInsert l i (lists s) = Some m'"
    "linked m' L" "moved i (Some l) (lists s) m'" .
  then show ?thesis
    by (intro that [of "s\<lparr>lists := m'\<rparr>"]) (simp_all add: insert_sorted_def kept_linked_def relinked_def moved_def)
qed

lemma add_ready_moves:
  assumes "linked (lists s) L" "at s (state_item t) = None" "{0..4} \<subseteq> L" "uxPriority s t < 5"
    and "1 < state_item t" "state_item t < 2 ^ 32"
  shows "kept_linked L s ((at s)(state_item t := Some (unat (uxPriority s t))))
    (uxTopReadyPriority s OR push_bit (unat (uxPriority s t)) 1) (prvAddTaskToReadyList t s)"
proof -
  let ?s = "portRECORD_READY_PRIORITY (uxPriority s t) s" let ?p = "unat (uxPriority s t)"
  have p: "?p < 5" using assms(4) by (simp add: word_less_nat_alt)
  then have l: "?p \<in> L" "?p \<notin> sorted_lists" using assms(3) by auto
  have lk: "linked (lists ?s) L" "at ?s (state_item t) = None"
    using assms(1,2) by (simp_all add: portRECORD_READY_PRIORITY_def)
  from insert_end_moves [OF lk l assms(5,6)] show ?thesis
    by (simp add: prvAddTaskToReadyList_def pxReadyTasksLists_def kept_linked_def relinked_def
        portRECORD_READY_PRIORITY_def on_lists_def)
qed

lemma reset_moves:
  "linked (lists s) L \<Longrightarrow>
   kept_linked L s (at s) (uxTopReadyPriority s AND NOT (push_bit (unat p) 1)) (portRESET_READY_PRIORITY p s)"
  by (simp add: kept_linked_def relinked_def portRESET_READY_PRIORITY_def)

section \<open>The ready bits\<close>

lemma on_list_update:
  "(\<exists>u. (w(state_item t := l)) (state_item u) = Some q) \<longleftrightarrow> l = Some q \<or> (\<exists>u. u \<noteq> t \<and> w (state_item u) = Some q)"
  by auto

lemma bit_single: "q < 32 \<Longrightarrow> bit (push_bit p 1 :: u32) q \<longleftrightarrow> q = p"
  by (auto simp: bit_simps)

lemmas bits_simps = bits_ok_def on_list_update bit_or_iff bit_and_iff bit_not_iff bit_single

lemma bits_add:
  assumes "bits_ok rdy w" "p < 5" "\<And>q. w (state_item t) = Some q \<Longrightarrow> 5 \<le> q"
  shows "bits_ok (rdy OR push_bit p 1) (w(state_item t := Some p))"
  unfolding bits_ok_def
proof (intro allI impI)
  fix q :: nat assume q: "q < 32"
  have "(\<exists>u. w (state_item u) = Some q) \<longleftrightarrow> (\<exists>u. u \<noteq> t \<and> w (state_item u) = Some q)" if "q < 5"
    using assms(3) that by (metis not_less)
  with assms(1,2) q
  show "bit (rdy OR push_bit p 1) q \<longleftrightarrow> q < 5 \<and> (\<exists>u. (w(state_item t := Some p)) (state_item u) = Some q)"
    unfolding bits_simps bit_single [OF q] by auto
qed

text \<open>A task leaves its ready list: the bit is reset when it was the last one there.\<close>

lemma bits_leave:
  assumes "bits_ok rdy w" "w (state_item t) = Some p" "p < 5" "l = None \<or> (\<exists>k \<ge> 5. l = Some k)"
    and "rdy' = (if \<forall>u. u \<noteq> t \<longrightarrow> w (state_item u) \<noteq> Some p then rdy AND NOT (push_bit p 1) else rdy)"
  shows "bits_ok rdy' (w(state_item t := l))"
  unfolding bits_ok_def
proof (intro allI impI)
  fix q :: nat assume q: "q < 32"
  have b: "bit rdy q \<longleftrightarrow> q < 5 \<and> (\<exists>u. w (state_item u) = Some q)" using assms(1) q by (simp add: bits_ok_def)
  have n: "bit (rdy AND NOT (push_bit p 1)) q \<longleftrightarrow> bit rdy q \<and> q \<noteq> p"
    using q unfolding bit_and_iff bit_not_iff bit_single [OF q] by auto
  have l: "l = Some q \<Longrightarrow> \<not> q < 5" using assms(4) by auto
  show "bit rdy' q \<longleftrightarrow> q < 5 \<and> (\<exists>u. (w(state_item t := l)) (state_item u) = Some q)"
  proof (cases "\<forall>u. u \<noteq> t \<longrightarrow> w (state_item u) \<noteq> Some p")
    case True
    with assms(5) n b have "bit rdy' q \<longleftrightarrow> q < 5 \<and> q \<noteq> p \<and> (\<exists>u. w (state_item u) = Some q)" by auto
    with True l assms(2) show ?thesis unfolding on_list_update by (metis option.inject)
  next
    case False
    with assms(5) b have "bit rdy' q \<longleftrightarrow> q < 5 \<and> (\<exists>u. w (state_item u) = Some q)" by auto
    with False l assms(2) show ?thesis unfolding on_list_update by (metis option.inject)
  qed
qed

lemma bits_move:
  assumes "bits_ok rdy w" "\<And>q. w (state_item t) = Some q \<Longrightarrow> 5 \<le> q" "l = None \<or> (\<exists>k \<ge> 5. l = Some k)"
  shows "bits_ok rdy (w(state_item t := l))"
  unfolding bits_ok_def
proof (intro allI impI)
  fix q :: nat assume q: "q < 32"
  have "l = Some q \<Longrightarrow> \<not> q < 5" using assms(3) by auto
  moreover have "(\<exists>u. w (state_item u) = Some q) \<longleftrightarrow> (\<exists>u. u \<noteq> t \<and> w (state_item u) = Some q)" if "q < 5"
    using assms(2) that by (metis not_less)
  ultimately show "bit rdy q \<longleftrightarrow> q < 5 \<and> (\<exists>u. (w(state_item t := l)) (state_item u) = Some q)"
    using assms(1) q unfolding bits_ok_def on_list_update by blast
qed

lemma bits_event [simp]: "bits_ok rdy (w(event_item t := l)) = bits_ok rdy w"
  by (simp add: bits_ok_def)

end
