(* ===== verification/Rtos_Ticks.thy ===== *)
theory Rtos_Ticks
  imports Rtos_Sched
begin

text \<open>
  The tick: which tasks it wakes. A task that is delayed has a number of ticks left (\<open>remaining\<close>),
  whichever of the two delayed lists it is on; a tick makes ready the tasks that have one left, and
  takes one off the others.
\<close>

definition core_ok :: "nat set \<Rightarrow> sched \<Rightarrow> bool" where
  "core_ok E s \<longleftrightarrow> lists_ok E s \<and> placed_ok E (uxPriority s) (at s) \<and>
     bits_ok (uxTopReadyPriority s) (at s) \<and> priorities_ok s"

lemma base_core: "base_ok E s \<longleftrightarrow> core_ok E s \<and> pxCurrentTCB s \<noteq> 0 \<and> at s (state_item (pxCurrentTCB s)) \<noteq> None"
  by (auto simp: base_ok_def core_ok_def)

lemma core_linked:
  assumes "core_ok E s"
  shows "linked (lists s) ({0..9} \<union> E)" "placed_ok E (uxPriority s) (at s)"
    "bits_ok (uxTopReadyPriority s) (at s)" "uxPriority s t < 5" "unat (uxPriority s t) < 5"
    "at s i = Some l \<Longrightarrow> 1 < i \<and> i < 2 ^ 32" "l \<in> E \<Longrightarrow> 9 < l"
    "at s (state_item t) = Some l \<Longrightarrow> pvOwner (lists s) (Item (state_item t)) = t"
    "at s (state_item t) = Some l \<Longrightarrow> pvOwner (lists s) (Item (event_item t)) = t"
    "owned (pvOwner (lists s)) (at s)"
  using assms linked_bounds [of "lists s" "{0..9} \<union> E" i l]
  by (auto simp: core_ok_def lists_ok_def owned_def priorities_ok_def word_less_nat_alt)

text \<open>The invariant after lists and ready bits changed.\<close>

lemma core_relinked:
  assumes "core_ok E s" "kept_linked ({0..9} \<union> E) s w rdy s'"
    and "placed_ok E (uxPriority s) w" "bits_ok rdy w" "owned (pvOwner (lists s)) w"
  shows "core_ok E s'"
  using assms relinked_fields [of s s']
  by (simp add: core_ok_def lists_ok_def kept_linked_def priorities_ok_def)

lemma item_cases: "(\<exists>t. i = state_item t) \<or> (\<exists>t. i = event_item t)"
  unfolding state_item_def event_item_def by presburger

lemma item_task [simp]: "state_item t div 2 = t" "event_item t div 2 = t" "even (state_item t)" "odd (event_item t)"
  by (simp_all add: state_item_def event_item_def)

lemma placed_state:
  assumes "placed_ok E prio w" "w i = Some l" "l \<noteq> 7" "l \<notin> E"
  obtains t where "i = state_item t"
  using assms item_cases [of i] unfolding placed_ok_def by blast

section \<open>One task is woken\<close>

text \<open>A blocked or suspended task becomes ready, and stops waiting for an event.\<close>

definition made_ready :: "nat \<Rightarrow> sched \<Rightarrow> nat \<Rightarrow> nat option" where
  "made_ready t s = (at s)(state_item t := Some (unat (uxPriority s t)), event_item t := None)"

lemma placed_ready:
  assumes "placed_ok E (uxPriority s) (at s)" "unat (uxPriority s t) < 5"
  shows "placed_ok E (uxPriority s) (made_ready t s)"
  using assms unfolding placed_ok_def made_ready_def by auto

lemma event_leaves:
  assumes lk: "linked (lists s) L"
  obtains s' where
    "(if \<not> contained_in (event_item t) None s then listREMOVE_ITEM (event_item t) s else Some s) = Some s'"
    "kept_linked L s ((at s)(event_item t := None)) (uxTopReadyPriority s) s'"
proof (cases "at s (event_item t)")
  case None
  then have "(at s)(event_item t := None) = at s" by auto
  with None lk show ?thesis by (intro that [of s]) (simp_all add: contained_in_def kept_linked_def)
next
  case (Some l)
  from REMOVE_moves [OF lk Some] Some show ?thesis using that by (auto simp: contained_in_def)
qed

lemma unblock_any_run:
  assumes ok: "core_ok E s" and d: "at s (state_item t) = Some d"
  obtains s' where "unblock_task t s = Some s'" "core_ok E s'"
    "kept_linked ({0..9} \<union> E) s (made_ready t s) (uxTopReadyPriority s OR push_bit (unat (uxPriority s t)) 1) s'"
proof -
  let ?L = "{0..9} \<union> E" let ?p = "unat (uxPriority s t)"
  note core = core_linked [OF ok]
  from REMOVE_moves [OF core(1) d] obtain s1 where 1: "listREMOVE_ITEM (state_item t) s = Some s1"
    "kept_linked ?L s ((at s)(state_item t := None)) (uxTopReadyPriority s) s1" .
  then have "linked (lists s1) ?L" by (simp add: kept_linked_def)
  from event_leaves [OF this, of t] obtain s2 where
    2: "(if \<not> contained_in (event_item t) None s1 then listREMOVE_ITEM (event_item t) s1 else Some s1) = Some s2"
      "kept_linked ?L s1 ((at s1)(event_item t := None)) (uxTopReadyPriority s1) s2" .
  have s2: "kept_linked ?L s ((at s)(state_item t := None, event_item t := None)) (uxTopReadyPriority s) s2"
    using kept_linked_trans [OF 1(2) 2(2)] 1(2) by (simp add: kept_linked_def)
  let ?s3 = "prvAddTaskToReadyList t s2"
  have pr: "uxPriority s2 = uxPriority s" using s2 relinked_fields [of s s2] by (simp add: kept_linked_def)
  have r: "{0..4} \<subseteq> ?L" by auto
  have "kept_linked ?L s2 ((at s2)(state_item t := Some ?p)) (uxTopReadyPriority s2 OR push_bit ?p 1) ?s3"
    using add_ready_moves [of s2 ?L t, OF _ _ r] s2 core(4) core(6) [OF d] by (simp add: kept_linked_def pr)
  from kept_linked_trans [OF s2 this]
  have k: "kept_linked ?L s (made_ready t s) (uxTopReadyPriority s OR push_bit ?p 1) ?s3"
    using s2 by (simp add: kept_linked_def made_ready_def fun_upd_twist)
  have "bits_ok (uxTopReadyPriority s OR push_bit ?p 1) (made_ready t s)"
    unfolding made_ready_def bits_event
  proof (cases "5 \<le> d")
    case True
    show "bits_ok (uxTopReadyPriority s OR push_bit ?p 1) ((at s)(state_item t := Some ?p))"
      by (rule bits_add [OF core(3,5)]) (use d True in auto)
  next
    case False
    then have "?p = d" using core(2) d by (simp add: placed_ok_def)
    then have "(at s)(state_item t := Some ?p) = at s" using d by auto
    moreover have "bits_ok (uxTopReadyPriority s OR push_bit ?p 1) (at s)"
      using core(3,5) d \<open>?p = d\<close> by (auto simp: bits_simps simp del: push_bit_of_1)
    ultimately show "bits_ok (uxTopReadyPriority s OR push_bit ?p 1) ((at s)(state_item t := Some ?p))" by simp
  qed
  moreover have "owned (pvOwner (lists s)) (made_ready t s)"
    using owned_state [OF core(10)] d by (simp add: made_ready_def)
  ultimately have "core_ok E ?s3" by (rule core_relinked [OF ok k placed_ready [OF core(2,5)]])
  moreover have "unblock_task t s = Some ?s3" by (simp add: unblock_task_def 1(1) 2(1))
  ultimately show ?thesis using that k by blast
qed

lemma unblock_task_run:
  assumes ok: "core_ok E s" and d: "at s (state_item t) = Some d" "5 \<le> d"
  obtains s' where "unblock_task t s = Some s'" "core_ok E s'"
    "kept_linked ({0..9} \<union> E) s (made_ready t s) (uxTopReadyPriority s OR push_bit (unat (uxPriority s t)) 1) s'"
  using unblock_any_run [OF ok d(1)] .

section \<open>All tasks that are due\<close>

definition due :: "u32 \<Rightarrow> sched \<Rightarrow> nat \<Rightarrow> bool" where
  "due n s t \<longleftrightarrow> at s (state_item t) = Some (pxDelayedTaskList s) \<and> item_value s (state_item t) = n"

definition wake_due :: "u32 \<Rightarrow> sched \<Rightarrow> nat \<Rightarrow> nat option" where
  "wake_due n s i =
     (if due n s (i div 2)
      then (if even i then Some (unat (uxPriority s (i div 2))) else None)
      else at s i)"

text \<open>As \<open>relinked\<close>, but the time of the next wake-up may change.\<close>

definition retimed :: "sched \<Rightarrow> sched \<Rightarrow> bool" where
  "retimed s s' \<longleftrightarrow> relinked (s\<lparr>xNextTaskUnblockTime := xNextTaskUnblockTime s'\<rparr>) s'"

lemma retimed_fields:
  assumes "retimed s s'"
  shows "uxPriority s' = uxPriority s" "uxBasePriority s' = uxBasePriority s" "pxCurrentTCB s' = pxCurrentTCB s"
    "pxDelayedTaskList s' = pxDelayedTaskList s" "pxOverflowDelayedTaskList s' = pxOverflowDelayedTaskList s"
    "clock s' = clock s" "xPendedTicks s' = xPendedTicks s" "xYieldPendings s' = xYieldPendings s"
    "uxSchedulerSuspended s' = uxSchedulerSuspended s" "uxCurrentNumberOfTasks s' = uxCurrentNumberOfTasks s"
    "xSchedulerRunning s' = xSchedulerRunning s" "yield_requested s' = yield_requested s"
    "ucNotifyState s' = ucNotifyState s" "uxMutexesHeld s' = uxMutexesHeld s"
    "xItemValue (lists s') = xItemValue (lists s)" "pvOwner (lists s') = pvOwner (lists s)"
    "ulNotifiedValue s' = ulNotifiedValue s"
  using relinked_fields [OF assms [unfolded retimed_def]] by simp_all

lemma retimed_trans: "relinked s t \<Longrightarrow> retimed t u \<Longrightarrow> retimed s u"
  unfolding retimed_def relinked_def by (cases s; cases t; cases u) simp

lemma core_time [simp]: "core_ok E (s\<lparr>xNextTaskUnblockTime := v\<rparr>) = core_ok E s"
  by (simp add: core_ok_def lists_ok_def priorities_ok_def)

lemma finite_list: "core_ok E s \<Longrightarrow> finite {i. at s i = Some l}"
  by (rule finite_subset [of _ "{..< 2 ^ 32}"]) (auto dest: core_linked(6))

lemma none_due:
  assumes "\<And>i. at s i = Some (pxDelayedTaskList s) \<Longrightarrow> n < item_value s i"
  shows "wake_due n s = at s" "\<not> due n s t"
  using assms by (fastforce simp: wake_due_def due_def fun_eq_iff)+

lemma unblock_delayed_run:
  assumes "core_ok E s" "pxDelayedTaskList s \<in> sorted_lists"
    and "\<And>i. at s i = Some (pxDelayedTaskList s) \<Longrightarrow> n \<le> item_value s i"
  shows "\<exists>s'. unblock_delayed n sw s =
        Some (sw \<or> (\<exists>t. due n s t \<and> uxPriority s t > uxPriority s (pxCurrentTCB s)), s') \<and>
      core_ok E s' \<and> retimed s s' \<and> at s' = wake_due n s \<and>
      (\<forall>i. at s' i = Some (pxDelayedTaskList s) \<longrightarrow> n < item_value s i \<and> xNextTaskUnblockTime s' \<le> item_value s i)"
  using assms
proof (induction "card {i. at s i = Some (pxDelayedTaskList s)}" arbitrary: s sw)
  case 0
  let ?d = "pxDelayedTaskList s"
  have d: "?d \<in> {0..9} \<union> E" using "0.prems"(2) by auto
  have none: "at s i \<noteq> Some ?d" for i using "0.hyps" finite_list [OF "0.prems"(1), of ?d] by auto
  then have "listLIST_IS_EMPTY ?d (lists s)"
    using linked_empty [OF core_linked(1) [OF "0.prems"(1)] d] by (simp add: listLIST_IS_EMPTY_def)
  then have "unblock_delayed n sw s = Some (sw, s\<lparr>xNextTaskUnblockTime := portMAX_DELAY\<rparr>)"
    by (simp add: unblock_delayed.simps)
  with none_due [of s n] none "0.prems"(1) show ?case by (simp add: retimed_def)
next
  case (Suc k)
  let ?d = "pxDelayedTaskList s"
  note core = core_linked [OF Suc.prems(1)]
  have d: "?d \<in> {0..9} \<union> E" "?d \<noteq> 7" "?d \<notin> E" using Suc.prems(2) core(7) by fastforce+
  have "{i. at s i = Some ?d} \<noteq> {}" using Suc.hyps(2) by force
  then obtain j where j: "at s j = Some ?d" by blast
  have ne: "\<not> listLIST_IS_EMPTY ?d (lists s)"
    using linked_empty [OF core(1) d(1)] j by (auto simp: listLIST_IS_EMPTY_def)
  from linked_head [OF core(1) d(1) j] obtain h where h: "pxNext (lists s) (End ?d) = Item h" "at s h = Some ?d"
    and least: "\<And>k. at s k = Some ?d \<Longrightarrow> item_value s h \<le> item_value s k"
    using Suc.prems(2) by metis
  from placed_state [OF core(2) h(2) d(2,3)] obtain t where t: "h = state_item t" .
  have own: "listGET_OWNER_OF_HEAD_ENTRY ?d (lists s) = t"
    using h core(8) [of t] by (simp add: listGET_OWNER_OF_HEAD_ENTRY_def t)
  show ?case
  proof (cases "n < item_value s h")
    case True
    with least have later: "\<And>i. at s i = Some ?d \<Longrightarrow> n < item_value s i" by (meson less_le_trans)
    have "unblock_delayed n sw s = Some (sw, s\<lparr>xNextTaskUnblockTime := item_value s h\<rparr>)"
      by (subst unblock_delayed.simps) (use ne own True in \<open>simp add: listGET_LIST_ITEM_VALUE_def t\<close>)
    with none_due [OF later] least later Suc.prems(1) show ?thesis by (simp add: retimed_def)
  next
    case False
    then have v: "item_value s h = n" using Suc.prems(3) [OF h(2)] by simp
    have five: "5 \<le> ?d" using Suc.prems(2) by auto
    from unblock_task_run [OF Suc.prems(1) h(2) [unfolded t] five] obtain s1 where
      1: "unblock_task t s = Some s1" "core_ok E s1" and k1: "kept_linked ({0..9} \<union> E) s (made_ready t s)
        (uxTopReadyPriority s OR push_bit (unat (uxPriority s t)) 1) s1" .
    then have r1: "relinked s s1" and at1: "at s1 = made_ready t s" by (simp_all add: kept_linked_def)
    note f1 = relinked_fields [OF r1]
    have pr5: "unat (uxPriority s t) \<noteq> ?d" using core(5) [of t] five by simp
    have set1: "{i. at s1 i = Some ?d} = {i. at s i = Some ?d} - {h}"
    proof -
      have "at s (event_item t) \<noteq> Some ?d" using core(2) d(2,3) unfolding placed_ok_def by blast
      with pr5 show ?thesis by (auto simp: at1 made_ready_def t)
    qed
    have fin: "finite {i. at s i = Some ?d}" by (rule finite_list [OF Suc.prems(1)])
    have "k = card {i. at s1 i = Some (pxDelayedTaskList s1)}"
      unfolding f1 set1 using Suc.hyps(2) h(2) fin by simp
    moreover have "\<And>i. at s1 i = Some (pxDelayedTaskList s1) \<Longrightarrow> n \<le> item_value s1 i"
      unfolding f1 using set1 Suc.prems(3) by blast
    ultimately obtain s' where s':
      "unblock_delayed n (sw \<or> uxPriority s1 t > uxPriority s1 (pxCurrentTCB s1)) s1 =
        Some ((sw \<or> uxPriority s1 t > uxPriority s1 (pxCurrentTCB s1)) \<or>
              (\<exists>t. due n s1 t \<and> uxPriority s1 t > uxPriority s1 (pxCurrentTCB s1)), s')"
      "core_ok E s'" "retimed s1 s'" "at s' = wake_due n s1"
      "\<forall>i. at s' i = Some (pxDelayedTaskList s1) \<longrightarrow> n < item_value s1 i \<and> xNextTaskUnblockTime s' \<le> item_value s1 i"
      using Suc.hyps(1) [of s1 "sw \<or> uxPriority s1 t > uxPriority s1 (pxCurrentTCB s1)"] 1(2) Suc.prems(2)
      unfolding f1(4) by blast
    have due1: "due n s1 u \<longleftrightarrow> u \<noteq> t \<and> due n s u" for u
      using pr5 by (auto simp: due_def f1 at1 made_ready_def)
    have duet: "due n s t" using h v by (simp add: due_def t)
    have "wake_due n s1 i = wake_due n s i" for i
    proof (cases "i div 2 = t")
      case True
      then have "i = state_item t \<or> i = event_item t" unfolding state_item_def event_item_def by presburger
      then show ?thesis using duet by (auto simp: wake_due_def due1 at1 made_ready_def)
    next
      case False
      then have "i \<noteq> state_item t" "i \<noteq> event_item t" by auto
      with False show ?thesis by (simp add: wake_due_def due1 at1 made_ready_def f1)
    qed
    then have w: "wake_due n s1 = wake_due n s" by blast
    have sw: "((sw \<or> uxPriority s t > uxPriority s (pxCurrentTCB s)) \<or>
        (\<exists>u. due n s1 u \<and> uxPriority s u > uxPriority s (pxCurrentTCB s))) =
        (sw \<or> (\<exists>u. due n s u \<and> uxPriority s u > uxPriority s (pxCurrentTCB s)))"
      using due1 duet by blast
    have "unblock_delayed n sw s = unblock_delayed n (sw \<or> uxPriority s1 t > uxPriority s1 (pxCurrentTCB s1)) s1"
      by (subst unblock_delayed.simps) (use ne own v 1(1) in \<open>simp add: listGET_LIST_ITEM_VALUE_def t\<close>)
    with s' sw retimed_trans [OF r1 s'(3)] show ?thesis by (simp add: f1 w)
  qed
qed

section \<open>The tick\<close>

text \<open>The ticks a delayed task has left, modulo the wrap-around of the counter.\<close>

definition remaining :: "sched \<Rightarrow> nat \<Rightarrow> nat option" where
  "remaining s t =
     (if at s (state_item t) \<in> {Some xDelayedTaskList1, Some xDelayedTaskList2}
      then Some (unat (item_value s (state_item t) - now s)) else None)"

definition one_less :: "nat option \<Rightarrow> nat option" where
  "one_less r = (case r of None \<Rightarrow> None | Some n \<Rightarrow> if n = 1 then None else Some (n - 1))"

text \<open>Where the items are after a tick: the tasks with one tick left are ready, the others stay.\<close>

definition after_tick :: "sched \<Rightarrow> nat \<Rightarrow> nat option" where
  "after_tick s i =
     (if remaining s (i div 2) = Some 1
      then (if even i then Some (unat (uxPriority s (i div 2))) else None)
      else at s i)"

text \<open>The counter has been advanced, and the delayed lists switched if it wrapped around.\<close>

definition ticked :: "sched \<Rightarrow> sched" where
  "ticked s =
     (let s = s\<lparr>clock := (clock s)\<lparr>xTickCount := now s + 1\<rparr>\<rparr>
      in if now s = 0
         then prvResetNextTaskUnblockTime
           (s\<lparr>pxDelayedTaskList := pxOverflowDelayedTaskList s, pxOverflowDelayedTaskList := pxDelayedTaskList s,
             clock := (clock s)\<lparr>xNumOfOverflows := xNumOfOverflows (clock s) + 1\<rparr>\<rparr>)
         else s)"

lemma reset_fields [simp]:
  "lists (prvResetNextTaskUnblockTime s) = lists s" "uxPriority (prvResetNextTaskUnblockTime s) = uxPriority s"
  "uxBasePriority (prvResetNextTaskUnblockTime s) = uxBasePriority s" "clock (prvResetNextTaskUnblockTime s) = clock s"
  "pxCurrentTCB (prvResetNextTaskUnblockTime s) = pxCurrentTCB s"
  "pxDelayedTaskList (prvResetNextTaskUnblockTime s) = pxDelayedTaskList s"
  "pxOverflowDelayedTaskList (prvResetNextTaskUnblockTime s) = pxOverflowDelayedTaskList s"
  "uxTopReadyPriority (prvResetNextTaskUnblockTime s) = uxTopReadyPriority s"
  "uxSchedulerSuspended (prvResetNextTaskUnblockTime s) = uxSchedulerSuspended s"
  "xPendedTicks (prvResetNextTaskUnblockTime s) = xPendedTicks s"
  "xYieldPendings (prvResetNextTaskUnblockTime s) = xYieldPendings s"
  "xSchedulerRunning (prvResetNextTaskUnblockTime s) = xSchedulerRunning s"
  "yield_requested (prvResetNextTaskUnblockTime s) = yield_requested s"
  "uxCurrentNumberOfTasks (prvResetNextTaskUnblockTime s) = uxCurrentNumberOfTasks s"
  "ucNotifyState (prvResetNextTaskUnblockTime s) = ucNotifyState s"
  "uxMutexesHeld (prvResetNextTaskUnblockTime s) = uxMutexesHeld s"
  "ulNotifiedValue (prvResetNextTaskUnblockTime s) = ulNotifiedValue s"
  by (simp_all add: prvResetNextTaskUnblockTime_def)

lemma core_fields:
  assumes "lists s' = lists s" "uxPriority s' = uxPriority s" "uxBasePriority s' = uxBasePriority s"
    "uxTopReadyPriority s' = uxTopReadyPriority s"
  shows "core_ok E s' = core_ok E s"
  using assms by (simp add: core_ok_def lists_ok_def priorities_ok_def)

text \<open>The time of the next wake-up is the one of the head of the delayed list, or never.\<close>

lemma reset_time:
  assumes ok: "core_ok E s" and d: "pxDelayedTaskList s \<in> sorted_lists" and i: "at s i = Some (pxDelayedTaskList s)"
  shows "xNextTaskUnblockTime (prvResetNextTaskUnblockTime s) \<le> item_value s i"
proof -
  let ?d = "pxDelayedTaskList s"
  have L: "?d \<in> {0..9} \<union> E" using d by auto
  note core = core_linked [OF ok]
  have ne: "\<not> listLIST_IS_EMPTY ?d (lists s)"
    using linked_empty [OF core(1) L] i by (auto simp: listLIST_IS_EMPTY_def)
  from linked_head [OF core(1) L i] d obtain h where "pxNext (lists s) (End ?d) = Item h"
    "\<And>k. at s k = Some ?d \<Longrightarrow> item_value s h \<le> item_value s k" by metis
  with ne i show ?thesis
    by (simp add: prvResetNextTaskUnblockTime_def listGET_ITEM_VALUE_OF_HEAD_ENTRY_def)
qed

lemma unat_tick: "c + 1 \<noteq> 0 \<Longrightarrow> unat (c + 1 :: u32) = unat c + 1"
  by (metis add.commute Suc_eq_plus1 unatSuc)

text \<open>The state after the counter was advanced: nothing that is delayed lies before it.\<close>

lemma ticked_fields [simp]:
  "lists (ticked s) = lists s" "now (ticked s) = now s + 1" "uxPriority (ticked s) = uxPriority s"
  "pxCurrentTCB (ticked s) = pxCurrentTCB s" "uxSchedulerSuspended (ticked s) = uxSchedulerSuspended s"
  "xPendedTicks (ticked s) = xPendedTicks s" "xYieldPendings (ticked s) = xYieldPendings s"
  "xSchedulerRunning (ticked s) = xSchedulerRunning s" "yield_requested (ticked s) = yield_requested s"
  "uxCurrentNumberOfTasks (ticked s) = uxCurrentNumberOfTasks s" "uxBasePriority (ticked s) = uxBasePriority s"
  "ucNotifyState (ticked s) = ucNotifyState s" "uxMutexesHeld (ticked s) = uxMutexesHeld s"
  "ulNotifiedValue (ticked s) = ulNotifiedValue s"
  "core_ok E (ticked s) = core_ok E s"
  by (simp_all add: ticked_def Let_def core_ok_def lists_ok_def priorities_ok_def)

definition two_lists :: "sched \<Rightarrow> bool" where
  "two_lists s \<longleftrightarrow>
     pxDelayedTaskList s = xDelayedTaskList1 \<and> pxOverflowDelayedTaskList s = xDelayedTaskList2 \<or>
     pxDelayedTaskList s = xDelayedTaskList2 \<and> pxOverflowDelayedTaskList s = xDelayedTaskList1"

definition on_time :: "sched \<Rightarrow> bool" where
  "on_time s \<longleftrightarrow>
     (\<forall>i. at s i = Some (pxDelayedTaskList s) \<longrightarrow> now s \<le> item_value s i \<and> xNextTaskUnblockTime s \<le> item_value s i) \<and>
     (\<forall>i. at s i = Some (pxOverflowDelayedTaskList s) \<longrightarrow> item_value s i < now s)"

lemma times_two: "times_ok s \<Longrightarrow> two_lists s"
  by (simp add: times_ok_def two_lists_def)

lemma ticked_run:
  assumes ok: "core_ok E s" and times: "times_ok s"
  shows "(if now s + 1 = 0 then taskSWITCH_DELAYED_LISTS (s\<lparr>clock := (clock s)\<lparr>xTickCount := now s + 1\<rparr>\<rparr>)
          else Some (s\<lparr>clock := (clock s)\<lparr>xTickCount := now s + 1\<rparr>\<rparr>)) = Some (ticked s) \<and>
    two_lists (ticked s) \<and> on_time (ticked s)"
proof -
  let ?d = "pxDelayedTaskList s" and ?o = "pxOverflowDelayedTaskList s"
  from times have dl: "two_lists s"
    and late: "\<And>i. at s i = Some ?d \<Longrightarrow> now s < item_value s i \<and> xNextTaskUnblockTime s \<le> item_value s i"
    and early: "\<And>i. at s i = Some ?o \<Longrightarrow> item_value s i < now s"
    unfolding times_ok_def two_lists_def by blast+
  have L: "?d \<in> {0..9} \<union> E" using dl by (auto simp: two_lists_def)
  show ?thesis
  proof (cases "now s + 1 = 0")
    case False
    then have t: "ticked s = s\<lparr>clock := (clock s)\<lparr>xTickCount := now s + 1\<rparr>\<rparr>" by (simp add: ticked_def)
    have "now s + 1 \<le> v" if "now s < v" for v using that by (rule inc_le)
    moreover have "v < now s + 1" if "v < now s" for v
      using that unat_tick [OF False] by (simp add: word_less_nat_alt)
    ultimately have "on_time (ticked s)" using late early by (auto simp: on_time_def t)
    moreover have "two_lists (ticked s)" using dl by (simp add: two_lists_def t)
    ultimately show ?thesis using False by (simp add: t)
  next
    case True
    then have "now s = - 1" by (simp add: eq_neg_iff_add_eq_0)
    then have none: "at s i \<noteq> Some ?d" for i using late [of i] word_order.extremum_strict by metis
    let ?w = "s\<lparr>pxDelayedTaskList := ?o, pxOverflowDelayedTaskList := ?d,
        clock := (clock s)\<lparr>xTickCount := 0, xNumOfOverflows := xNumOfOverflows (clock s) + 1\<rparr>\<rparr>"
    have t: "ticked s = prvResetNextTaskUnblockTime ?w" using True by (simp add: ticked_def)
    have ow: "core_ok E ?w" by (subst core_fields [of _ s]) (simp_all add: ok)
    have "two_lists ?w" using dl by (auto simp: two_lists_def)
    then have "on_time (ticked s)" and "two_lists (ticked s)"
      using none reset_time [OF ow] by (auto simp: on_time_def two_lists_def t)
    moreover have "listLIST_IS_EMPTY ?d (lists s)"
      using linked_empty [OF core_linked(1) [OF ok] L] none by (simp add: listLIST_IS_EMPTY_def)
    ultimately show ?thesis using True by (simp add: taskSWITCH_DELAYED_LISTS_def t)
  qed
qed

definition live_ok :: "nat set \<Rightarrow> sched \<Rightarrow> bool" where
  "live_ok E s \<longleftrightarrow> base_ok E s \<and> times_ok s"

lemma wake_step:
  assumes ok: "core_ok E s" and dl: "two_lists s" and time: "on_time s"
  shows "\<exists>s'. (if now s \<ge> xNextTaskUnblockTime s then unblock_delayed (now s) False s else Some (False, s)) =
        Some (\<exists>t. due (now s) s t \<and> uxPriority s t > uxPriority s (pxCurrentTCB s), s') \<and>
      core_ok E s' \<and> retimed s s' \<and> at s' = wake_due (now s) s \<and>
      (\<forall>i. at s' i = Some (pxDelayedTaskList s) \<longrightarrow> now s < item_value s i \<and> xNextTaskUnblockTime s' \<le> item_value s i)"
proof (cases "now s \<ge> xNextTaskUnblockTime s")
  case True
  have "pxDelayedTaskList s \<in> sorted_lists" using dl by (auto simp: two_lists_def)
  from unblock_delayed_run [OF ok this, of "now s" False] time True show ?thesis by (auto simp: on_time_def)
next
  case False
  then have late: "now s < item_value s i" if "at s i = Some (pxDelayedTaskList s)" for i
    using time that unfolding on_time_def by (meson less_le_trans not_le)
  from none_due [OF late] False late time ok show ?thesis
    by (simp add: on_time_def retimed_def)
qed

lemma unat_one: "unat (x :: u32) = 1 \<longleftrightarrow> x = 1"
  by (simp add: word_unat_eq_iff)

lemma due_remaining:
  assumes "two_lists (ticked s)" "on_time (ticked s)"
  shows "due (now s + 1) (ticked s) t \<longleftrightarrow> remaining s t = Some 1"
proof -
  let ?i = "state_item t"
  have "unat (item_value s ?i - now s) = 1 \<longleftrightarrow> item_value s ?i = now s + 1"
    unfolding unat_one diff_eq_eq by (simp add: add.commute)
  moreover have "at s ?i = Some (pxDelayedTaskList (ticked s))"
    if "at s ?i \<in> {Some xDelayedTaskList1, Some xDelayedTaskList2}" "item_value s ?i = now s + 1"
    using assms that by (auto simp: two_lists_def on_time_def)
  ultimately show ?thesis using assms(1) by (auto simp: due_def remaining_def two_lists_def)
qed

lemma unat_one_less: "a \<noteq> b \<Longrightarrow> unat (a - (b + 1) :: u32) = unat (a - b) - 1"
proof -
  assume "a \<noteq> b"
  then have "unat (a - b) \<noteq> 0" by (simp add: unat_eq_zero)
  then have "1 \<le> a - b" by (simp add: word_le_nat_alt)
  then show ?thesis using unat_sub [of 1 "a - b"] by (simp add: algebra_simps)
qed

text \<open>
  A tick on a running scheduler: the invariant holds again, the tasks whose time is up are ready and
  wait for no event any more, the others have one tick less, and a switch is asked for when one of
  the woken tasks, or another one that is ready, should run instead of the current one.
\<close>

lemma tick_run:
  assumes ok: "live_ok E s" and run: "uxSchedulerSuspended s = 0"
  shows "\<exists>s'. xTaskIncrementTick s =
        Some ((\<exists>t. remaining s t = Some 1 \<and> uxPriority s t > uxPriority s (pxCurrentTCB s)) \<or>
              uxNumberOfItems (lists s') (pxReadyTasksLists (uxPriority s (pxCurrentTCB s))) > 1 \<or>
              xYieldPendings s, s') \<and>
      live_ok E s' \<and> retimed (ticked s) s' \<and> at s' = after_tick s \<and>
      (\<forall>t. remaining s' t = one_less (remaining s t))"
proof -
  from ok have core: "core_ok E s" and times: "times_ok s" and cur: "pxCurrentTCB s \<noteq> 0"
    "at s (state_item (pxCurrentTCB s)) \<noteq> None" by (auto simp: live_ok_def base_core)
  from ticked_run [OF core times] have
    switch: "(if now s + 1 = 0 then taskSWITCH_DELAYED_LISTS (s\<lparr>clock := (clock s)\<lparr>xTickCount := now s + 1\<rparr>\<rparr>)
          else Some (s\<lparr>clock := (clock s)\<lparr>xTickCount := now s + 1\<rparr>\<rparr>)) = Some (ticked s)"
    and dl: "two_lists (ticked s)" and time: "on_time (ticked s)" by blast+
  have core1: "core_ok E (ticked s)" using core by simp
  note due = due_remaining [OF dl time]
  from wake_step [OF core1 dl time, unfolded ticked_fields due] obtain s' where
    wake: "(if now s + 1 \<ge> xNextTaskUnblockTime (ticked s) then unblock_delayed (now s + 1) False (ticked s)
            else Some (False, ticked s)) =
          Some (\<exists>t. remaining s t = Some 1 \<and> uxPriority s t > uxPriority s (pxCurrentTCB s), s')"
    and core': "core_ok E s'" and rt: "retimed (ticked s) s'" and at': "at s' = wake_due (now s + 1) (ticked s)"
    and late: "\<And>i. at s' i = Some (pxDelayedTaskList (ticked s)) \<Longrightarrow>
      now s + 1 < item_value s i \<and> xNextTaskUnblockTime s' \<le> item_value s i"
    by blast
  note f = retimed_fields [OF rt]
  have at: "at s' = after_tick s"
    unfolding at' by (rule ext) (simp add: wake_due_def after_tick_def due)
  have small: "unat (uxPriority s t) < 5" for t using core_linked(5) [OF core] .
  have stays: "at s i = Some l" if "at s' i = Some l" "5 \<le> l" for i l
    using that small [of "i div 2"] by (auto simp: at after_tick_def split: if_splits)
  have "times_ok s'"
  proof -
    have "item_value s' i < now s'" if "at s' i = Some (pxOverflowDelayedTaskList s')" for i
    proof -
      have "at s i = Some (pxOverflowDelayedTaskList (ticked s))"
        using stays [OF that] dl unfolding f two_lists_def by auto
      then show ?thesis using time unfolding on_time_def f by simp
    qed
    then show ?thesis using late dl unfolding times_ok_def two_lists_def f by (simp add: f)
  qed
  moreover have "at s' (state_item (pxCurrentTCB s)) \<noteq> None" using cur by (auto simp: at after_tick_def)
  ultimately have live: "live_ok E s'" using core' cur by (simp add: live_ok_def base_core f)
  have left: "remaining s' t = one_less (remaining s t)" for t
  proof (cases "at s (state_item t) \<in> {Some xDelayedTaskList1, Some xDelayedTaskList2}")
    case False
    then have "remaining s t = None" by (simp add: remaining_def)
    moreover from this False have "remaining s' t = None" by (simp add: remaining_def at after_tick_def)
    ultimately show ?thesis by (simp add: one_less_def)
  next
    case True
    let ?v = "item_value s (state_item t)"
    have "?v \<noteq> now s" using times True unfolding times_ok_def by (metis insertE less_irrefl singletonD)
    then have less: "unat (?v - (now s + 1)) = unat (?v - now s) - 1" by (rule unat_one_less)
    show ?thesis
    proof (cases "remaining s t = Some 1")
      case True
      then have "at s' (state_item t) = Some (unat (uxPriority s t))" by (simp add: at after_tick_def)
      with True small [of t] show ?thesis by (simp add: remaining_def one_less_def)
    next
      case False
      then have "at s' (state_item t) = at s (state_item t)" by (simp add: at after_tick_def)
      with True False less show ?thesis by (auto simp: remaining_def one_less_def f)
    qed
  qed
  have "xTaskIncrementTick s =
      Some ((\<exists>t. remaining s t = Some 1 \<and> uxPriority s t > uxPriority s (pxCurrentTCB s)) \<or>
              uxNumberOfItems (lists s') (pxReadyTasksLists (uxPriority s (pxCurrentTCB s))) > 1 \<or>
              xYieldPendings s, s')"
    unfolding xTaskIncrementTick_def if_P [OF run] Let_def
    using switch wake by (simp add: f disj_assoc split: if_splits)
  with live rt at left show ?thesis by blast
qed

end
