(* ===== verification/Rtos_Blocking.thy ===== *)
theory Rtos_Blocking
  imports Rtos_Ticks
begin

text \<open>
  How the running task blocks, for a time or on an event, and how the scheduler is suspended and
  resumed.
\<close>

section \<open>Leaving the ready list\<close>

text \<open>The ready bits after a task left the list of its priority.\<close>

definition bits_without :: "nat \<Rightarrow> sched \<Rightarrow> u32" where
  "bits_without t s =
     (if \<forall>u. u \<noteq> t \<longrightarrow> at s (state_item u) \<noteq> at s (state_item t)
      then uxTopReadyPriority s AND NOT (push_bit (unat (uxPriority s t)) 1) else uxTopReadyPriority s)"

lemma leave_ready:
  assumes lk: "linked (lists s) L" and at: "at s (state_item t) = Some (unat (uxPriority s t))"
    and ev: "\<And>u. at s (event_item u) \<noteq> Some (unat (uxPriority s t))"
  obtains n s1 where "remove_item (state_item t) s = Some (n, s1)"
    "kept_linked L s ((at s)(state_item t := None)) (bits_without t s)
       (if n = 0 then portRESET_READY_PRIORITY (uxPriority s t) s1 else s1)"
    "kept_linked L s ((at s)(state_item t := None)) (uxTopReadyPriority s) s1"
    "n = 0 \<longleftrightarrow> (\<forall>u. u \<noteq> t \<longrightarrow> at s (state_item u) \<noteq> at s (state_item t))"
proof -
  let ?p = "unat (uxPriority s t)"
  from remove_moves [OF lk at] obtain n s1 where 1: "remove_item (state_item t) s = Some (n, s1)"
    "kept_linked L s ((at s)(state_item t := None)) (uxTopReadyPriority s) s1"
    "n = 0 \<longleftrightarrow> (\<forall>j. at s1 j \<noteq> Some ?p)" .
  have "(\<forall>j. at s1 j \<noteq> Some ?p) \<longleftrightarrow> (\<forall>u. u \<noteq> t \<longrightarrow> at s (state_item u) \<noteq> Some ?p)"
  proof
    assume *: "\<forall>u. u \<noteq> t \<longrightarrow> at s (state_item u) \<noteq> Some ?p"
    show "\<forall>j. at s1 j \<noteq> Some ?p"
    proof
      fix j
      from item_cases [of j] * ev show "at s1 j \<noteq> Some ?p"
        using 1(2) by (auto simp: kept_linked_def)
    qed
  next
    assume *: "\<forall>j. at s1 j \<noteq> Some ?p"
    show "\<forall>u. u \<noteq> t \<longrightarrow> at s (state_item u) \<noteq> Some ?p"
    proof (intro allI impI)
      fix u assume "u \<noteq> t"
      with *[rule_format, of "state_item u"] 1(2) show "at s (state_item u) \<noteq> Some ?p"
        by (simp add: kept_linked_def)
    qed
  qed
  with 1(3) at have n: "n = 0 \<longleftrightarrow> (\<forall>u. u \<noteq> t \<longrightarrow> at s (state_item u) \<noteq> at s (state_item t))" by simp
  have "linked (lists s1) L" using 1(2) by (simp add: kept_linked_def)
  from kept_linked_trans [OF 1(2) reset_moves [OF this, of "uxPriority s t"]] 1(2)
  have "kept_linked L s ((at s)(state_item t := None)) (bits_without t s)
       (if n = 0 then portRESET_READY_PRIORITY (uxPriority s t) s1 else s1)"
    by (auto simp: kept_linked_def bits_without_def n)
  with 1 n that show ?thesis by blast
qed

lemma bits_block:
  assumes "bits_ok (uxTopReadyPriority s) (at s)" "at s (state_item t) = Some (unat (uxPriority s t))"
    and "unat (uxPriority s t) < 5" "l = None \<or> (\<exists>k \<ge> 5. l = Some k)"
  shows "bits_ok (bits_without t s) ((at s)(state_item t := l))"
  using bits_leave [OF assms(1-4), of "bits_without t s"] assms(2) by (simp add: bits_without_def)

section \<open>Blocking\<close>

text \<open>Where a task that blocks for \<open>n\<close> ticks, or for ever, goes.\<close>

definition blocked_list :: "u32 \<Rightarrow> bool \<Rightarrow> sched \<Rightarrow> nat" where
  "blocked_list n forever s =
     (if n = portMAX_DELAY \<and> forever then xSuspendedTaskList
      else if now s + n < now s then pxOverflowDelayedTaskList s else pxDelayedTaskList s)"

definition blocked_state :: "nat set \<Rightarrow> u32 \<Rightarrow> bool \<Rightarrow> sched \<Rightarrow> sched \<Rightarrow> bool" where
  "blocked_state L n forever s s' \<longleftrightarrow>
     (let t = pxCurrentTCB s
      in s' = s\<lparr>lists := lists s', uxTopReadyPriority := bits_without t s,
               xNextTaskUnblockTime := xNextTaskUnblockTime s'\<rparr> \<and>
         linked (lists s') L \<and> pvOwner (lists s') = pvOwner (lists s) \<and>
         at s' = (at s)(state_item t := Some (blocked_list n forever s)) \<and>
         (\<forall>j. item_value s' j =
            (if j = state_item t \<and> \<not> (n = portMAX_DELAY \<and> forever) then now s + n else item_value s j)))"

lemma blocked_fields:
  assumes "blocked_state L n f s s'"
  shows "uxPriority s' = uxPriority s" "uxBasePriority s' = uxBasePriority s" "pxCurrentTCB s' = pxCurrentTCB s"
    "pxDelayedTaskList s' = pxDelayedTaskList s" "pxOverflowDelayedTaskList s' = pxOverflowDelayedTaskList s"
    "clock s' = clock s" "xPendedTicks s' = xPendedTicks s" "uxSchedulerSuspended s' = uxSchedulerSuspended s"
    "uxCurrentNumberOfTasks s' = uxCurrentNumberOfTasks s" "xYieldPendings s' = xYieldPendings s"
    "yield_requested s' = yield_requested s" "uxTopReadyPriority s' = bits_without (pxCurrentTCB s) s"
    "ucNotifyState s' = ucNotifyState s" "ulNotifiedValue s' = ulNotifiedValue s"
proof -
  from assms have e: "s' = s\<lparr>lists := lists s', uxTopReadyPriority := bits_without (pxCurrentTCB s) s,
      xNextTaskUnblockTime := xNextTaskUnblockTime s'\<rparr>"
    by (simp add: blocked_state_def Let_def)
  show "uxPriority s' = uxPriority s" "uxBasePriority s' = uxBasePriority s" "pxCurrentTCB s' = pxCurrentTCB s"
    "pxDelayedTaskList s' = pxDelayedTaskList s" "pxOverflowDelayedTaskList s' = pxOverflowDelayedTaskList s"
    "clock s' = clock s" "xPendedTicks s' = xPendedTicks s" "uxSchedulerSuspended s' = uxSchedulerSuspended s"
    "uxCurrentNumberOfTasks s' = uxCurrentNumberOfTasks s" "xYieldPendings s' = xYieldPendings s"
    "yield_requested s' = yield_requested s" "uxTopReadyPriority s' = bits_without (pxCurrentTCB s) s"
    "ucNotifyState s' = ucNotifyState s" "ulNotifiedValue s' = ulNotifiedValue s"
    by (subst e, simp)+
qed

lemma add_current_run:
  assumes lk: "linked (lists s) L" "{0..9} \<subseteq> L" and two: "two_lists s"
    and at: "at s (state_item (pxCurrentTCB s)) = Some (unat (uxPriority s (pxCurrentTCB s)))"
    and ev: "\<And>u. at s (event_item u) \<noteq> Some (unat (uxPriority s (pxCurrentTCB s)))"
  shows "\<exists>s'. prvAddCurrentTaskToDelayedList n forever s = Some s' \<and> blocked_state L n forever s s' \<and>
    xNextTaskUnblockTime s' =
      (if (n = portMAX_DELAY \<and> forever) \<or> now s + n < now s then xNextTaskUnblockTime s
       else min (now s + n) (xNextTaskUnblockTime s))"
proof -
  let ?t = "pxCurrentTCB s" let ?i = "state_item ?t" let ?v = "now s + n"
  have bound: "1 < ?i" "?i < 2 ^ 32" using linked_bounds [OF lk(1) at] by simp_all
  from leave_ready [OF lk(1) at ev] obtain m s1 where 1: "remove_item ?i s = Some (m, s1)"
    "kept_linked L s ((at s)(?i := None)) (bits_without ?t s)
       (if m = 0 then portRESET_READY_PRIORITY (uxPriority s ?t) s1 else s1)"
    "kept_linked L s ((at s)(?i := None)) (uxTopReadyPriority s) s1" by metis
  define s2 where "s2 = (if m = 0 then portRESET_READY_PRIORITY (uxPriority s ?t) s1 else s1)"
  have pr: "uxPriority s1 = uxPriority s" using 1(3) relinked_fields(1) by (auto simp: kept_linked_def)
  from 1(2) have k2: "kept_linked L s ((at s)(?i := None)) (bits_without ?t s) s2" by (simp add: s2_def)
  define m2 where "m2 = lists s2"
  have e2: "s2 = s\<lparr>lists := m2, uxTopReadyPriority := bits_without ?t s\<rparr>"
    using k2 unfolding kept_linked_def relinked_def m2_def by metis
  have lk2: "linked m2 L" and at2: "pxContainer m2 = (at s)(?i := None)"
    and v2: "xItemValue m2 = xItemValue (lists s)" "pvOwner m2 = pvOwner (lists s)"
    using k2 by (simp_all add: kept_linked_def relinked_def m2_def)
  define m3 where "m3 = m2\<lparr>xItemValue := (xItemValue (lists s))(Item ?i := ?v)\<rparr>"
  have lk3: "linked m3 L" "pxContainer m3 = (at s)(?i := None)" "pvOwner m3 = pvOwner (lists s)"
    "xItemValue m3 = (xItemValue (lists s))(Item ?i := ?v)"
    using linked_set_value [OF lk2, of ?i ?v] at2 v2 by (simp_all add: m3_def)
  define s3 where "s3 = s\<lparr>lists := m3, uxTopReadyPriority := bits_without ?t s\<rparr>"
  have s3: "listSET_LIST_ITEM_VALUE ?i ?v s2 = s3"
    using v2 by (simp add: listSET_LIST_ITEM_VALUE_def on_lists_def e2 s3_def m3_def)
  have dl3: "pxOverflowDelayedTaskList s3 = pxOverflowDelayedTaskList s" "pxDelayedTaskList s3 = pxDelayedTaskList s"
    by (simp_all add: s3_def)
  have start: "prvAddCurrentTaskToDelayedList n forever s =
      (if n = portMAX_DELAY \<and> forever then Some (on_lists (vListInsertEnd xSuspendedTaskList ?i) s2)
       else if ?v < now s then insert_sorted (pxOverflowDelayedTaskList s) ?i s3
       else Option.bind (insert_sorted (pxDelayedTaskList s) ?i s3)
         (\<lambda>s4. Some (if ?v < xNextTaskUnblockTime s4 then s4\<lparr>xNextTaskUnblockTime := ?v\<rparr> else s4)))"
    unfolding prvAddCurrentTaskToDelayedList_def Let_def 1(1) Option.bind.bind_lunit case_prod_conv pr
      s2_def [symmetric] s3 dl3 ..
  show ?thesis
  proof (cases "n = portMAX_DELAY \<and> forever")
    case True
    have "kept_linked L s2 ((at s2)(?i := Some xSuspendedTaskList)) (uxTopReadyPriority s2)
        (on_lists (vListInsertEnd xSuspendedTaskList ?i) s2)"
      using lk2 at2 lk(2) bound by (intro insert_end_moves) (simp_all add: e2, auto)
    then have "blocked_state L n forever s (on_lists (vListInsertEnd xSuspendedTaskList ?i) s2)"
      using True by (simp add: blocked_state_def Let_def blocked_list_def kept_linked_def relinked_def on_lists_def e2 at2 v2)
    with True show ?thesis unfolding start by (simp add: on_lists_def e2)
  next
    case False
    define l where "l = blocked_list n forever s"
    have l: "l \<in> L" using two lk(2) False unfolding l_def blocked_list_def two_lists_def by auto
    from insert_moves [of s3 L ?i l] lk3 l bound obtain s4 where
      4: "insert_sorted l ?i s3 = Some s4" "kept_linked L s3 ((at s3)(?i := Some l)) (uxTopReadyPriority s3) s4"
      by (auto simp: s3_def)
    define m4 where "m4 = lists s4"
    have e4: "s4 = s\<lparr>lists := m4, uxTopReadyPriority := bits_without ?t s\<rparr>"
    proof -
      have "s4 = s3\<lparr>lists := lists s4, uxTopReadyPriority := uxTopReadyPriority s3\<rparr>"
        using 4(2) unfolding kept_linked_def relinked_def by metis
      then show ?thesis by (simp add: s3_def m4_def)
    qed
    have m4: "linked m4 L" "pxContainer m4 = (at s)(?i := Some l)" "pvOwner m4 = pvOwner (lists s)"
      "xItemValue m4 = (xItemValue (lists s))(Item ?i := ?v)"
      using 4(2) lk3 by (simp_all add: kept_linked_def relinked_def m4_def s3_def)
    have "blocked_state L n forever s (s4\<lparr>xNextTaskUnblockTime := v\<rparr>)" for v
      using m4 False by (auto simp: blocked_state_def Let_def e4 l_def)
    moreover from this [of "xNextTaskUnblockTime s4"] have "blocked_state L n forever s s4" by simp
    ultimately show ?thesis
      using 4(1) False by (auto simp: start l_def blocked_list_def e4 min_def split: if_splits)
  qed
qed

text \<open>
  The invariant after the running task blocked: it may have put its event item on an event list
  before.
\<close>

definition may_block :: "nat set \<Rightarrow> sched \<Rightarrow> bool" where
  "may_block E s \<longleftrightarrow>
     (let t = pxCurrentTCB s
      in lists_ok E s \<and> bits_ok (uxTopReadyPriority s) (at s) \<and> priorities_ok s \<and> times_ok s \<and> t \<noteq> 0 \<and>
         placed_ok E (uxPriority s) ((at s)(event_item t := None)) \<and>
         (\<forall>l. at s (event_item t) = Some l \<longrightarrow> l \<in> E) \<and>
         at s (state_item t) = Some (unat (uxPriority s t)))"

lemma may_block_live:
  assumes "live_ok E s" "at s (state_item (pxCurrentTCB s)) = Some (unat (uxPriority s (pxCurrentTCB s)))"
  shows "may_block E s"
proof -
  let ?t = "pxCurrentTCB s"
  from assms(1) have c: "core_ok E s" and "?t \<noteq> 0" "times_ok s" by (auto simp: live_ok_def base_core)
  have "at s (event_item ?t) = None"
  proof (rule ccontr)
    assume "at s (event_item ?t) \<noteq> None"
    then have "at s (state_item ?t) \<in> {Some 5, Some 6, Some 9}"
      using core_linked(2) [OF c] unfolding placed_ok_def by blast
    with assms(2) core_linked(5) [OF c, of ?t] show False by auto
  qed
  then have "(at s)(event_item ?t := None) = at s" "\<forall>l. at s (event_item ?t) = Some l \<longrightarrow> l \<in> E" by auto
  with assms c \<open>?t \<noteq> 0\<close> \<open>times_ok s\<close> show ?thesis by (simp add: may_block_def core_ok_def)
qed

lemma placed_block:
  assumes p: "placed_ok E prio (w(event_item t := None))" and e: "\<And>l. w (event_item t) = Some l \<Longrightarrow> l \<in> E"
    and l: "l \<in> {5, 6, 9 :: nat}"
  shows "placed_ok E prio (w(state_item t := Some l))"
proof -
  let ?w = "w(state_item t := Some l)"
  have st: "(w(event_item t := None)) (state_item u) = w (state_item u)" for u by simp
  have "k \<le> 9 \<and> k \<noteq> 7 \<and> (k < 5 \<longrightarrow> unat (prio u) = k)" if "?w (state_item u) = Some k" for u k
  proof (cases "u = t")
    case True
    with that l show ?thesis by auto
  next
    case False
    with that p show ?thesis unfolding placed_ok_def st by simp
  qed
  moreover have "(k = 7 \<or> k \<in> E) \<and> ?w (state_item u) \<in> {Some 5, Some 6, Some 9}" if "?w (event_item u) = Some k" for u k
  proof (cases "u = t")
    case True
    with that l e show ?thesis by auto
  next
    case False
    with that have "(w(event_item t := None)) (event_item u) = Some k" by simp
    then have "(k = 7 \<or> k \<in> E) \<and> w (state_item u) \<in> {Some 5, Some 6, Some 9}"
      using p unfolding placed_ok_def st by blast
    with False show ?thesis by simp
  qed
  ultimately show ?thesis unfolding placed_ok_def by blast
qed

lemma block_run:
  assumes ok: "may_block E s" and n: "n \<noteq> 0"
  shows "\<exists>s'. prvAddCurrentTaskToDelayedList n forever s = Some s' \<and> live_ok E s' \<and>
    blocked_state ({0..9} \<union> E) n forever s s' \<and>
    remaining s' = (remaining s)(pxCurrentTCB s := (if n = portMAX_DELAY \<and> forever then None else Some (unat n)))"
proof -
  let ?t = "pxCurrentTCB s" and ?L = "{0..9} \<union> E" let ?l = "blocked_list n forever s"
  note ok = ok [unfolded may_block_def Let_def]
  from ok have lk: "linked (lists s) ?L" and E: "\<And>l. l \<in> E \<Longrightarrow> 9 < l" and times: "times_ok s"
    and at: "at s (state_item ?t) = Some (unat (uxPriority s ?t))" and prio: "unat (uxPriority s ?t) < 5"
    and placed: "placed_ok E (uxPriority s) ((at s)(event_item ?t := None))"
    and bits: "bits_ok (uxTopReadyPriority s) (at s)"
    by (auto simp: lists_ok_def priorities_ok_def word_less_nat_alt)
  have two: "two_lists s" using times by (rule times_two)
  have ev: "at s (event_item u) \<noteq> Some (unat (uxPriority s ?t))" for u
  proof
    assume a: "at s (event_item u) = Some (unat (uxPriority s ?t))"
    show False
    proof (cases "u = ?t")
      case True
      then show False using a ok E prio by fastforce
    next
      case False
      then have "((at s)(event_item ?t := None)) (event_item u) = Some (unat (uxPriority s ?t))" using a by simp
      then have "unat (uxPriority s ?t) = 7 \<or> unat (uxPriority s ?t) \<in> E"
        using placed unfolding placed_ok_def by blast
      then show False using E prio by fastforce
    qed
  qed
  from add_current_run [OF lk _ two at ev, of n forever] obtain s' where
    run: "prvAddCurrentTaskToDelayedList n forever s = Some s'" and b: "blocked_state ?L n forever s s'"
    and nx: "xNextTaskUnblockTime s' =
      (if (n = portMAX_DELAY \<and> forever) \<or> now s + n < now s then xNextTaskUnblockTime s
       else min (now s + n) (xNextTaskUnblockTime s))" by blast
  note f = blocked_fields [OF b]
  from b have lk': "linked (lists s') ?L" and own: "pvOwner (lists s') = pvOwner (lists s)"
    and at': "at s' = (at s)(state_item ?t := Some ?l)"
    and val: "\<And>j. item_value s' j =
      (if j = state_item ?t \<and> \<not> (n = portMAX_DELAY \<and> forever) then now s + n else item_value s j)"
    by (simp_all add: blocked_state_def Let_def)
  have l: "?l \<in> {5, 6, 9}" using two by (auto simp: blocked_list_def two_lists_def)
  have "placed_ok E (uxPriority s') (at s')"
    unfolding f at' by (rule placed_block [OF placed _ l]) (use ok in blast)
  moreover have "bits_ok (uxTopReadyPriority s') (at s')"
    unfolding f at' by (rule bits_block [OF bits at prio]) (use l in auto)
  ultimately have core: "core_ok E s'"
    using ok lk' own at owned_state [of "pvOwner (lists s)" "at s" ?t]
    by (simp add: core_ok_def lists_ok_def priorities_ok_def f at')
  have "now s + n \<noteq> now s" using n by simp
  then have later: "\<not> now s + n < now s \<Longrightarrow> now s < now s + n" by (metis linorder_neqE)
  have "times_ok s'"
  proof -
    have d: "now s < item_value s' i \<and> xNextTaskUnblockTime s' \<le> item_value s' i"
      if "at s' i = Some (pxDelayedTaskList s)" for i
    proof (cases "i = state_item ?t")
      case True
      then have "?l = pxDelayedTaskList s" using that by (simp add: at')
      then have "\<not> (n = portMAX_DELAY \<and> forever)" "\<not> now s + n < now s"
        using two by (auto simp: blocked_list_def two_lists_def split: if_splits)
      with True later show ?thesis by (auto simp: val nx min_def)
    next
      case False
      then have "now s < item_value s i \<and> xNextTaskUnblockTime s \<le> item_value s i"
        using that times by (simp add: at' times_ok_def)
      with False show ?thesis by (auto simp: val nx min_def)
    qed
    have o: "item_value s' i < now s" if "at s' i = Some (pxOverflowDelayedTaskList s)" for i
    proof (cases "i = state_item ?t")
      case True
      then have "?l = pxOverflowDelayedTaskList s" using that by (simp add: at')
      then have "\<not> (n = portMAX_DELAY \<and> forever)" "now s + n < now s"
        using two by (auto simp: blocked_list_def two_lists_def split: if_splits)
      with True show ?thesis by (simp add: val)
    next
      case False
      then show ?thesis using that times by (simp add: at' times_ok_def val)
    qed
    show ?thesis using two d o by (simp add: times_ok_def two_lists_def f)
  qed
  moreover have "remaining s' = (remaining s)(?t := (if n = portMAX_DELAY \<and> forever then None else Some (unat n)))"
  proof
    fix u
    show "remaining s' u = ((remaining s)(?t := (if n = portMAX_DELAY \<and> forever then None else Some (unat n)))) u"
      using two by (auto simp: remaining_def at' val f blocked_list_def two_lists_def)
  qed
  ultimately show ?thesis using run b core ok by (simp add: live_ok_def base_core f at')
qed

end
