(* ===== verification/Rtos_Switch.thy ===== *)
theory Rtos_Switch
  imports Rtos_Blocking
begin

text \<open>
  The choice of the next task: the highest ready priority is found from the ready bits, and the
  tasks of that priority take turns.
\<close>

section \<open>The highest bit\<close>

lemma highest_priority:
  assumes "bit w p" "p < 32" "\<And>q. p < q \<Longrightarrow> q < 32 \<Longrightarrow> \<not> bit w q"
  shows "portGET_HIGHEST_PRIORITY w = of_nat p"
proof -
  have "[0..<32] = [0..<p] @ p # [Suc p..<32]"
    using upt_add_eq_append [of 0 p "32 - p"] assms(2) upt_conv_Cons [of p 32] by simp
  then have r: "rev [0..<32] = rev [Suc p..<32] @ p # rev [0..<p]" by simp
  have "takeWhile (\<lambda>n. \<not> bit w n) (rev [0..<32]) = rev [Suc p..<32]"
    unfolding r using assms(1,3) by (subst takeWhile_append2) auto
  then have "portGET_HIGHEST_PRIORITY w = 31 - of_nat (31 - p)"
    by (simp add: portGET_HIGHEST_PRIORITY_def clz_def)
  also have "\<dots> = of_nat p" using assms(2) by (simp add: of_nat_diff)
  finally show ?thesis .
qed

section \<open>One turn\<close>

lemma linked_index:
  assumes lk: "linked m L" and j: "pxContainer m j = Some l"
  shows "linked (m\<lparr>pxIndex := (pxIndex m)(l := Item j)\<rparr>) L"
proof -
  let ?m = "m\<lparr>pxIndex := (pxIndex m)(l := Item j)\<rparr>"
  have links: "links ?m p is q = links m p is q" for p "is" q
    by (induction "is" arbitrary: p) simp_all
  have "\<exists>is. ring ?m k is \<and> (k \<in> sorted_lists \<longrightarrow> sorted (map (\<lambda>i. xItemValue ?m (Item i)) is))" if "k \<in> L" for k
  proof -
    from linked_ring [OF lk that] obtain js where r: "ring m k js"
      and s: "k \<in> sorted_lists \<Longrightarrow> sorted (map (\<lambda>i. xItemValue m (Item i)) js)" by blast
    have "ring ?m k js" using r j ring_container [OF r, of j] by (auto simp: ring_def links)
    with s show ?thesis by auto
  qed
  with lk show ?thesis by (simp add: linked_def)
qed

lemma next_entry:
  assumes lk: "linked m L" and j: "pxContainer m j = Some l"
  obtains i where "pxContainer m i = Some l"
    "listGET_OWNER_OF_NEXT_ENTRY l m = (pvOwner m (Item i), m\<lparr>pxIndex := (pxIndex m)(l := Item i)\<rparr>)"
proof -
  from linked_bounds [OF lk j] have "l \<in> L" by simp
  from linked_ring [OF lk this] obtain "is" where r: "ring m l is" by blast
  from j r have ne: "is \<noteq> []" by (auto simp: ring_def)
  from ring_index [OF r] obtain k where "index_at m l is k" by blast
  from next_owner_step [OF this ne] obtain m' where
    m': "listGET_OWNER_OF_NEXT_ENTRY l m = (pvOwner m (Item (is ! (k mod length is))), m')"
      "index_at m' l is (Suc (k mod length is))" by blast
  let ?i = "is ! (k mod length is)"
  have less: "k mod length is < length is" using ne by simp
  from m'(2) less have "pxIndex m' l = Item ?i"
    by (simp add: index_at_def take_Suc_conv_app_nth)
  then have "m' = m\<lparr>pxIndex := (pxIndex m)(l := Item ?i)\<rparr>"
    using m'(1) by (auto simp: listGET_OWNER_OF_NEXT_ENTRY_def Let_def split: if_splits)
  moreover have "pxContainer m ?i = Some l" using r less by (simp add: ring_def)
  ultimately show ?thesis using that m'(1) by blast
qed

text \<open>The tasks that are ready, and those of them that may run.\<close>

definition ready :: "sched \<Rightarrow> nat \<Rightarrow> bool" where
  "ready s t \<longleftrightarrow> at s (state_item t) \<in> Some ` {0..<5}"

definition top_ready :: "sched \<Rightarrow> nat \<Rightarrow> bool" where
  "top_ready s t \<longleftrightarrow> ready s t \<and> (\<forall>u. ready s u \<longrightarrow> uxPriority s u \<le> uxPriority s t)"

lemma ready_at: "placed_ok E (uxPriority s) (at s) \<Longrightarrow> ready s t \<Longrightarrow> at s (state_item t) = Some (unat (uxPriority s t))"
  unfolding ready_def placed_ok_def by fastforce

lemma some_top:
  assumes ok: "core_ok E s" and r: "ready s u"
  obtains t where "top_ready s t"
proof -
  define P where "P n \<longleftrightarrow> (\<exists>t. ready s t \<and> unat (uxPriority s t) = n)" for n
  have "P (unat (uxPriority s u))" using r by (auto simp: P_def)
  moreover have "\<forall>n. P n \<longrightarrow> n < 5" using core_linked(5) [OF ok] by (auto simp: P_def)
  ultimately obtain n where "P n" "\<And>k. P k \<Longrightarrow> k \<le> n" using ex_has_greatest_nat [of P _ "\<lambda>n. n" 5] by blast
  then show ?thesis using that unfolding top_ready_def P_def word_le_nat_alt by blast
qed

lemma top_priority:
  assumes ok: "core_ok E s" and t: "top_ready s t"
  shows "portGET_HIGHEST_PRIORITY (uxTopReadyPriority s) = uxPriority s t"
    "at s (state_item t) = Some (unat (uxPriority s t))"
    "at s (state_item u) = Some (unat (uxPriority s t)) \<longleftrightarrow> top_ready s u"
proof -
  note core = core_linked [OF ok]
  let ?p = "unat (uxPriority s t)"
  show at: "at s (state_item t) = Some ?p" using ready_at [OF core(2)] t by (simp add: top_ready_def)
  have bits: "bit (uxTopReadyPriority s) q \<longleftrightarrow> q < 5 \<and> (\<exists>t. at s (state_item t) = Some q)" if "q < 32" for q
    using core(3) that unfolding bits_ok_def by blast
  have "\<not> bit (uxTopReadyPriority s) q" if q: "?p < q" "q < 32" for q
  proof
    assume "bit (uxTopReadyPriority s) q"
    with bits [OF q(2)] obtain u where u: "q < 5" "at s (state_item u) = Some q" by blast
    then have "ready s u" by (auto simp: ready_def)
    with u(2) ready_at [OF core(2)] have "unat (uxPriority s u) = q" by force
    with \<open>ready s u\<close> t q(1) show False unfolding top_ready_def word_le_nat_alt by force
  qed
  moreover have "bit (uxTopReadyPriority s) ?p" "?p < 32" using bits [of ?p] at core(5) [of t] by auto
  ultimately have "portGET_HIGHEST_PRIORITY (uxTopReadyPriority s) = of_nat ?p"
    by (intro highest_priority) blast+
  then show "portGET_HIGHEST_PRIORITY (uxTopReadyPriority s) = uxPriority s t" by simp
  show "at s (state_item u) = Some ?p \<longleftrightarrow> top_ready s u"
  proof
    assume u: "at s (state_item u) = Some ?p"
    with core(5) [of t] have r: "ready s u" by (auto simp: ready_def)
    from ready_at [OF core(2) r] u have "uxPriority s u = uxPriority s t" by (simp add: word_unat_eq_iff)
    with r t show "top_ready s u" by (simp add: top_ready_def)
  next
    assume "top_ready s u"
    then have "uxPriority s u = uxPriority s t" using t by (auto simp: top_ready_def intro: antisym)
    with ready_at [OF core(2)] \<open>top_ready s u\<close> show "at s (state_item u) = Some ?p" by (simp add: top_ready_def)
  qed
qed

definition switched :: "sched \<Rightarrow> list_mem \<Rightarrow> nat \<Rightarrow> sched" where
  "switched s m t = s\<lparr>lists := m, pxCurrentTCB := t, xYieldPendings := False\<rparr>"

lemma switch_run:
  assumes ok: "core_ok E s" and top: "top_ready s t0" and run: "uxSchedulerSuspended s = 0"
  obtains t where "top_ready s t"
    "vTaskSwitchContext s = Some (switched s (snd (listGET_OWNER_OF_NEXT_ENTRY (unat (uxPriority s t)) (lists s))) t)"
    "fst (listGET_OWNER_OF_NEXT_ENTRY (unat (uxPriority s t)) (lists s)) = t"
    "snd (listGET_OWNER_OF_NEXT_ENTRY (unat (uxPriority s t)) (lists s)) =
      (lists s)\<lparr>pxIndex := (pxIndex (lists s))(unat (uxPriority s t) := Item (state_item t))\<rparr>"
proof -
  note core = core_linked [OF ok] note p = top_priority [OF ok top]
  let ?p = "unat (uxPriority s t0)"
  from next_entry [OF core(1) p(2)] obtain i where i: "at s i = Some ?p"
    "listGET_OWNER_OF_NEXT_ENTRY ?p (lists s) =
      (pvOwner (lists s) (Item i), (lists s)\<lparr>pxIndex := (pxIndex (lists s))(?p := Item i)\<rparr>)" .
  have "?p \<noteq> 7" "?p \<notin> E" using core(5) [of t0] core(7) [of ?p] by auto
  from placed_state [OF core(2) i(1) this] obtain t where t: "i = state_item t" .
  then have top': "top_ready s t" using p(3) i(1) by simp
  then have pt: "uxPriority s t = uxPriority s t0" using top by (auto simp: top_ready_def intro: antisym)
  have some: "uxNumberOfItems (lists s) ?p > 0"
    using linked_empty [OF core(1), of ?p] linked_bounds [OF core(1) p(2)] p(2) by (auto simp: word_gt_0)
  have "vTaskSwitchContext s = Some (switched s ((lists s)\<lparr>pxIndex := (pxIndex (lists s))(?p := Item i)\<rparr>) t)"
    using run some by (simp add: vTaskSwitchContext_def taskSELECT_HIGHEST_PRIORITY_TASK_def pxReadyTasksLists_def
        p(1) i(2) t core(8) [OF p(2)] core(8) [OF i(1) [unfolded t]] switched_def)
  with that [OF top'] i(2) show ?thesis by (simp add: pt t core(8) [OF i(1) [unfolded t]])
qed

lemma switched_fields [simp]:
  "uxPriority (switched s m t) = uxPriority s" "uxTopReadyPriority (switched s m t) = uxTopReadyPriority s"
  "uxSchedulerSuspended (switched s m t) = uxSchedulerSuspended s" "lists (switched s m t) = m"
  "pxCurrentTCB (switched s m t) = t" "clock (switched s m t) = clock s"
  "pxDelayedTaskList (switched s m t) = pxDelayedTaskList s" "xPendedTicks (switched s m t) = xPendedTicks s"
  "pxOverflowDelayedTaskList (switched s m t) = pxOverflowDelayedTaskList s"
  "xNextTaskUnblockTime (switched s m t) = xNextTaskUnblockTime s" "uxBasePriority (switched s m t) = uxBasePriority s"
  "xYieldPendings (switched s m t) = False" "yield_requested (switched s m t) = yield_requested s"
  "uxMutexesHeld (switched s m t) = uxMutexesHeld s" "ucNotifyState (switched s m t) = ucNotifyState s"
  by (simp_all add: switched_def)

lemma core_index:
  assumes "core_ok E s" "at s i = Some l"
  shows "core_ok E (switched s ((lists s)\<lparr>pxIndex := (pxIndex (lists s))(l := Item i)\<rparr>) t)"
  using assms linked_index [of "lists s" "{0..9} \<union> E" i l]
  by (simp add: core_ok_def lists_ok_def priorities_ok_def)

section \<open>Taking turns\<close>

text \<open>The tasks that run after each of \<open>n\<close> switches with nothing else in between.\<close>

fun chosen :: "nat \<Rightarrow> sched \<Rightarrow> nat list option" where
  "chosen 0 s = Some []"
| "chosen (Suc n) s = Option.bind (vTaskSwitchContext s)
     (\<lambda>s. map_option (\<lambda>ts. pxCurrentTCB s # ts) (chosen n s))"

lemma switched_again:
  assumes ok: "core_ok E s" and top: "top_ready s t" and run: "uxSchedulerSuspended s = 0"
  shows "\<exists>s'. vTaskSwitchContext s = Some s' \<and> core_ok E s' \<and> top_ready s' t \<and> uxSchedulerSuspended s' = 0 \<and>
    uxPriority s' = uxPriority s \<and>
    (pxCurrentTCB s', lists s') = listGET_OWNER_OF_NEXT_ENTRY (unat (uxPriority s t)) (lists s)"
proof -
  from switch_run [OF assms] obtain u where u: "top_ready s u"
    "vTaskSwitchContext s = Some (switched s (snd (listGET_OWNER_OF_NEXT_ENTRY (unat (uxPriority s u)) (lists s))) u)"
    "fst (listGET_OWNER_OF_NEXT_ENTRY (unat (uxPriority s u)) (lists s)) = u"
    "snd (listGET_OWNER_OF_NEXT_ENTRY (unat (uxPriority s u)) (lists s)) =
      (lists s)\<lparr>pxIndex := (pxIndex (lists s))(unat (uxPriority s u) := Item (state_item u))\<rparr>" .
  have p: "uxPriority s u = uxPriority s t" using u(1) top by (auto simp: top_ready_def intro: antisym)
  have "core_ok E (switched s (snd (listGET_OWNER_OF_NEXT_ENTRY (unat (uxPriority s u)) (lists s))) u)"
    unfolding u(4) by (rule core_index [OF ok top_priority(2) [OF ok u(1)]])
  moreover have "top_ready (switched s (snd (listGET_OWNER_OF_NEXT_ENTRY (unat (uxPriority s u)) (lists s))) u) t"
    using top unfolding top_ready_def ready_def by (simp add: u(4))
  moreover have "(u, snd (listGET_OWNER_OF_NEXT_ENTRY (unat (uxPriority s u)) (lists s))) =
      listGET_OWNER_OF_NEXT_ENTRY (unat (uxPriority s t)) (lists s)"
    using u(3) by (simp add: p prod_eq_iff)
  ultimately show ?thesis using run u(2) by simp
qed

lemma chosen_owners:
  assumes "core_ok E s" "top_ready s t" "uxSchedulerSuspended s = 0"
  shows "chosen n s = Some (next_owners (unat (uxPriority s t)) n (lists s))"
  using assms
proof (induction n arbitrary: s)
  case (Suc n)
  from switched_again [OF Suc.prems] obtain s' where s': "vTaskSwitchContext s = Some s'" "core_ok E s'"
    "top_ready s' t" "uxSchedulerSuspended s' = 0" "uxPriority s' = uxPriority s"
    "(pxCurrentTCB s', lists s') = listGET_OWNER_OF_NEXT_ENTRY (unat (uxPriority s t)) (lists s)" by blast
  from Suc.IH [OF s'(2-4)] s'(1,5) show ?case by (simp add: s'(6) [symmetric])
qed simp

text \<open>The item numbers of one list are the state items of its tasks.\<close>

lemma task_ring:
  assumes ok: "core_ok E s" and top: "top_ready s t" and r: "ring (lists s) (unat (uxPriority s t)) is"
  obtains ts where "is = map state_item ts" "distinct ts" "set ts = Collect (top_ready s)"
proof -
  let ?p = "unat (uxPriority s t)" note core = core_linked [OF ok]
  have p: "?p \<noteq> 7" "?p \<notin> E" using core(5) [of t] core(7) [of ?p] by auto
  have on: "i \<in> set is \<longleftrightarrow> at s i = Some ?p" for i using ring_container [OF r] by simp
  have st: "i = state_item (i div 2)" if i: "i \<in> set is" for i
  proof -
    from i have "at s i = Some ?p" by (simp add: on)
    from placed_state [OF core(2) this p] obtain t where "i = state_item t" .
    then show ?thesis by simp
  qed
  define ts where "ts = map (\<lambda>i. i div 2) is"
  have eq: "is = map state_item ts" unfolding ts_def map_map
    by (rule map_idI [symmetric]) (simp add: st [symmetric])
  moreover have "distinct ts" using r eq by (simp add: ring_def distinct_map)
  moreover have "u \<in> set ts \<longleftrightarrow> top_ready s u" for u
  proof -
    have "u \<in> set ts \<longleftrightarrow> state_item u \<in> set is" unfolding eq by auto
    then show ?thesis using on top_priority(3) [OF ok top] by simp
  qed
  ultimately show ?thesis using that by blast
qed

lemma chosen_round:
  assumes ok: "core_ok E s" and top: "top_ready s t" and run: "uxSchedulerSuspended s = 0"
  shows "\<exists>ts. chosen (card (Collect (top_ready s))) s = Some ts \<and> distinct ts \<and> set ts = Collect (top_ready s)"
proof -
  let ?p = "unat (uxPriority s t)" note core = core_linked [OF ok]
  have L: "?p \<in> {0..9} \<union> E" using core(5) [of t] by auto
  from linked_ring [OF core(1) L] obtain "is" where r: "ring (lists s) ?p is" by blast
  from task_ring [OF ok top r] obtain ts where ts: "is = map state_item ts" "distinct ts"
    "set ts = Collect (top_ready s)" .
  with top have ne: "is \<noteq> []" by auto
  from ring_index [OF r] obtain k where k: "index_at (lists s) ?p is k" by blast
  have n: "card (Collect (top_ready s)) = length is" using ts distinct_card by fastforce
  have "map (\<lambda>i. pvOwner (lists s) (Item i)) (rotate k is) = rotate k ts"
  proof -
    have "pvOwner (lists s) (Item (state_item u)) = u" if "u \<in> set ts" for u
    proof -
      from that ts(3) top_priority(3) [OF ok top] have "at s (state_item u) = Some ?p" by blast
      then show ?thesis by (rule core(8))
    qed
    then have "map (\<lambda>u. pvOwner (lists s) (Item (state_item u))) (rotate k ts) = rotate k ts" by (intro map_idI) simp
    then show ?thesis by (simp add: rotate_map ts(1) comp_def)
  qed
  with chosen_owners [OF ok top run, of "length is"] next_owners_rotate [OF k ne]
  have "chosen (card (Collect (top_ready s))) s = Some (rotate k ts)" by (simp add: n)
  with ts show ?thesis by simp
qed

end
