(* ===== verification/Rtos_Resume.thy ===== *)
theory Rtos_Resume
  imports Rtos_Switch
begin

text \<open>
  What the scheduler does when it is resumed: the tasks that interrupts made ready meanwhile are put
  on the ready lists, and the ticks that were missed are made up for.
\<close>

section \<open>What an operation keeps\<close>

definition same_tasks :: "sched \<Rightarrow> sched \<Rightarrow> bool" where
  "same_tasks s s' \<longleftrightarrow>
     uxPriority s' = uxPriority s \<and> uxBasePriority s' = uxBasePriority s \<and> uxMutexesHeld s' = uxMutexesHeld s \<and>
     ucNotifyState s' = ucNotifyState s \<and> pxCurrentTCB s' = pxCurrentTCB s \<and>
     uxSchedulerSuspended s' = uxSchedulerSuspended s \<and> xPendedTicks s' = xPendedTicks s \<and>
     uxCurrentNumberOfTasks s' = uxCurrentNumberOfTasks s \<and> xSchedulerRunning s' = xSchedulerRunning s \<and>
     yield_requested s' = yield_requested s \<and> ulNotifiedValue s' = ulNotifiedValue s"

lemma same_refl [simp]: "same_tasks s s"
  by (simp add: same_tasks_def)

lemma same_trans: "same_tasks s t \<Longrightarrow> same_tasks t u \<Longrightarrow> same_tasks s u"
  by (simp add: same_tasks_def)

lemma same_relinked: "relinked s s' \<Longrightarrow> same_tasks s s'"
  using relinked_fields [of s s'] by (simp add: same_tasks_def)

lemma same_retimed: "retimed s s' \<Longrightarrow> same_tasks s s'"
  using retimed_fields [of s s'] by (simp add: same_tasks_def)

lemma same_ticked [simp]: "same_tasks s (ticked s)"
  by (simp add: same_tasks_def)

lemma same_pending [simp]:
  "same_tasks s (s'\<lparr>xYieldPendings := y\<rparr>) = same_tasks s s'" "same_tasks (s\<lparr>xYieldPendings := y\<rparr>) s' = same_tasks s s'"
  by (simp_all add: same_tasks_def)

lemma core_pending [simp]: "core_ok E (s\<lparr>xYieldPendings := y\<rparr>) = core_ok E s"
  by (rule core_fields) simp_all

lemma live_pending [simp]: "live_ok E (s\<lparr>xYieldPendings := y\<rparr>) = live_ok E s"
  by (simp add: live_ok_def base_core times_ok_def)

lemma remaining_pending [simp]: "remaining (s\<lparr>xYieldPendings := y\<rparr>) = remaining s"
  by (simp add: remaining_def fun_eq_iff)

section \<open>A waiting task is made ready\<close>

lemma release_run:
  assumes ok: "core_ok E s" and e: "at s (event_item t) = Some l"
  obtains s1 s2 where "listREMOVE_ITEM (event_item t) s = Some s1" "listREMOVE_ITEM (state_item t) s1 = Some s2"
    "relinked s s1" "core_ok E (prvAddTaskToReadyList t s2)"
    "kept_linked ({0..9} \<union> E) s (made_ready t s) (uxTopReadyPriority s OR push_bit (unat (uxPriority s t)) 1)
      (prvAddTaskToReadyList t s2)"
proof -
  let ?L = "{0..9} \<union> E" let ?p = "unat (uxPriority s t)"
  note core = core_linked [OF ok]
  from core(2) e have "at s (state_item t) \<in> {Some 5, Some 6, Some 9}" unfolding placed_ok_def by blast
  then obtain d where d: "at s (state_item t) = Some d" "5 \<le> d" by auto
  from REMOVE_moves [OF core(1) e] obtain s1 where 1: "listREMOVE_ITEM (event_item t) s = Some s1"
    "kept_linked ?L s ((at s)(event_item t := None)) (uxTopReadyPriority s) s1" .
  then have "linked (lists s1) ?L" "at s1 (state_item t) = Some d" by (simp_all add: kept_linked_def d)
  from REMOVE_moves [OF this] obtain s2 where 2: "listREMOVE_ITEM (state_item t) s1 = Some s2"
    "kept_linked ?L s1 ((at s1)(state_item t := None)) (uxTopReadyPriority s1) s2" .
  have s2: "kept_linked ?L s ((at s)(event_item t := None, state_item t := None)) (uxTopReadyPriority s) s2"
    using kept_linked_trans [OF 1(2) 2(2)] 1(2) by (simp add: kept_linked_def)
  let ?s3 = "prvAddTaskToReadyList t s2"
  have pr: "uxPriority s2 = uxPriority s" using s2 relinked_fields [of s s2] by (simp add: kept_linked_def)
  have r: "{0..4} \<subseteq> ?L" by auto
  have "kept_linked ?L s2 ((at s2)(state_item t := Some ?p)) (uxTopReadyPriority s2 OR push_bit ?p 1) ?s3"
    using add_ready_moves [of s2 ?L t, OF _ _ r] s2 core(4) core(6) [OF d(1)] by (simp add: kept_linked_def pr)
  from kept_linked_trans [OF s2 this]
  have k: "kept_linked ?L s (made_ready t s) (uxTopReadyPriority s OR push_bit ?p 1) ?s3"
    using s2 by (simp add: kept_linked_def made_ready_def fun_upd_twist)
  have "bits_ok (uxTopReadyPriority s OR push_bit ?p 1) (made_ready t s)"
    unfolding made_ready_def bits_event by (rule bits_add [OF core(3,5)]) (use d in auto)
  moreover have "owned (pvOwner (lists s)) (made_ready t s)"
    using owned_state [OF core(10)] d(1) by (simp add: made_ready_def)
  ultimately have "core_ok E ?s3" by (rule core_relinked [OF ok k placed_ready [OF core(2,5)]])
  with that 1 2(1) k show ?thesis by (simp add: kept_linked_def)
qed

section \<open>The pending tasks\<close>

definition pending :: "sched \<Rightarrow> nat \<Rightarrow> bool" where
  "pending s t \<longleftrightarrow> at s (event_item t) = Some xPendingReadyList"

text \<open>Where the items are when the tasks of a set have been made ready.\<close>

definition awake :: "(nat \<Rightarrow> bool) \<Rightarrow> sched \<Rightarrow> nat \<Rightarrow> nat option" where
  "awake P s i = (if P (i div 2) then (if even i then Some (unat (uxPriority s (i div 2))) else None) else at s i)"

lemma awake_at [simp]:
  "awake P s (state_item t) = (if P t then Some (unat (uxPriority s t)) else at s (state_item t))"
  "awake P s (event_item t) = (if P t then None else at s (event_item t))"
  by (simp_all add: awake_def)

lemma made_ready_awake: "made_ready t s = awake (\<lambda>u. u = t) s"
proof
  fix i
  from item_cases [of i] show "made_ready t s i = awake (\<lambda>u. u = t) s i" by (auto simp: made_ready_def)
qed

lemma after_tick_awake: "after_tick s = awake (\<lambda>t. remaining s t = Some 1) s"
  by (simp add: after_tick_def awake_def fun_eq_iff)

lemma awake_none: "(\<And>t. \<not> P t) \<Longrightarrow> awake P s = at s"
  by (simp add: awake_def fun_eq_iff)

lemma awake_twice:
  "at s' = awake P s \<Longrightarrow> uxPriority s' = uxPriority s \<Longrightarrow> awake Q s' = awake (\<lambda>t. P t \<or> Q t) s"
  by (simp add: awake_def fun_eq_iff)

lemma move_pending_run:
  assumes "core_ok E s"
  shows "\<exists>s'. move_pending mv s = Some (mv \<or> (\<exists>t. pending s t), s') \<and> core_ok E s' \<and> at s' = awake (pending s) s \<and>
    relinked (s\<lparr>xYieldPendings := xYieldPendings s'\<rparr>) s' \<and>
    xYieldPendings s' = (xYieldPendings s \<or> (\<exists>t. pending s t \<and> uxPriority s t > uxPriority s (pxCurrentTCB s)))"
  using assms
proof (induction "card {i. at s i = Some 7}" arbitrary: s mv)
  case 0
  then have none: "at s i \<noteq> Some 7" for i using finite_list [of E s 7] by auto
  then have "listLIST_IS_EMPTY 7 (lists s)"
    using linked_empty [OF core_linked(1) [OF "0.prems"], of 7] by (simp add: listLIST_IS_EMPTY_def)
  then have "move_pending mv s = Some (mv, s)" by (simp add: move_pending.simps)
  moreover have "\<not> pending s t" for t using none by (simp add: pending_def)
  ultimately show ?case using "0.prems" by (simp add: awake_none)
next
  case (Suc k)
  note core = core_linked [OF Suc.prems]
  have "{i. at s i = Some 7} \<noteq> {}" using Suc.hyps(2) by force
  then obtain j where j: "at s j = Some 7" by blast
  have ne: "\<not> listLIST_IS_EMPTY 7 (lists s)"
    using linked_empty [OF core(1), of 7] j by (auto simp: listLIST_IS_EMPTY_def)
  from linked_head [OF core(1) _ j] obtain h where h: "pxNext (lists s) (End 7) = Item h" "at s h = Some 7" by auto
  have "at s (state_item u) \<noteq> Some 7" for u using core(2) unfolding placed_ok_def by blast
  with h(2) item_cases [of h] obtain t where t: "h = event_item t" by metis
  have "at s (state_item t) \<in> {Some 5, Some 6, Some 9}" using core(2) h(2) t unfolding placed_ok_def by blast
  then have own: "listGET_OWNER_OF_HEAD_ENTRY 7 (lists s) = t"
    using h core(9) [of t] by (auto simp: listGET_OWNER_OF_HEAD_ENTRY_def t)
  from release_run [OF Suc.prems h(2) [unfolded t]] obtain s1 s2 where
    rm: "listREMOVE_ITEM (event_item t) s = Some s1" "listREMOVE_ITEM (state_item t) s1 = Some s2"
    and ok3: "core_ok E (prvAddTaskToReadyList t s2)"
    and k: "kept_linked ({0..9} \<union> E) s (made_ready t s) (uxTopReadyPriority s OR push_bit (unat (uxPriority s t)) 1)
      (prvAddTaskToReadyList t s2)" .
  define s3 where "s3 = prvAddTaskToReadyList t s2"
  define s4 where "s4 = (if uxPriority s t > uxPriority s (pxCurrentTCB s) then s3\<lparr>xYieldPendings := True\<rparr> else s3)"
  have r3: "relinked s s3" and at3: "at s3 = awake (\<lambda>u. u = t) s"
    using k by (simp_all add: kept_linked_def s3_def made_ready_awake)
  note f3 = relinked_fields [OF r3]
  have f4: "lists s4 = lists s3" "uxPriority s4 = uxPriority s" "pxCurrentTCB s4 = pxCurrentTCB s"
    "xYieldPendings s4 = (xYieldPendings s \<or> uxPriority s t > uxPriority s (pxCurrentTCB s))"
    by (simp_all add: s4_def f3)
  have ok4: "core_ok E s4" using ok3 by (simp add: s4_def s3_def)
  have p4: "pending s4 u \<longleftrightarrow> pending s u \<and> u \<noteq> t" for u by (simp add: pending_def f4 at3)
  have "at s4 i = Some 7 \<longleftrightarrow> at s i = Some 7 \<and> i \<noteq> h" for i
    using item_cases [of i] core(5) [of t] \<open>\<And>u. at s (state_item u) \<noteq> Some 7\<close> by (auto simp: f4 at3 t split: if_splits)
  then have "{i. at s4 i = Some 7} = {i. at s i = Some 7} - {h}" by blast
  then have "k = card {i. at s4 i = Some 7}"
    using Suc.hyps(2) h(2) finite_list [OF Suc.prems, of 7] by simp
  from Suc.hyps(1) [OF this ok4, of True] obtain s' where
    s': "move_pending True s4 = Some (True, s')" "core_ok E s'" "at s' = awake (pending s4) s4"
      "relinked (s4\<lparr>xYieldPendings := xYieldPendings s'\<rparr>) s'"
      "xYieldPendings s' = (xYieldPendings s4 \<or> (\<exists>u. pending s4 u \<and> uxPriority s4 u > uxPriority s4 (pxCurrentTCB s4)))"
    unfolding simp_thms by blast
  have pt: "pending s t" using h(2) by (simp add: pending_def t)
  have "awake (pending s4) s4 = awake (\<lambda>u. u = t \<or> pending s4 u) s"
    by (rule awake_twice) (simp_all add: f4 at3)
  also have "\<dots> = awake (pending s) s"
    by (rule arg_cong [of _ _ "\<lambda>P. awake P s"]) (use pt p4 in auto)
  finally have "at s' = awake (pending s) s" using s'(3) by simp
  moreover have "relinked (s\<lparr>xYieldPendings := y\<rparr>) (s4\<lparr>xYieldPendings := y\<rparr>)" for y
    using r3 unfolding relinked_def s4_def by (cases s; cases s3) simp
  then have "relinked (s\<lparr>xYieldPendings := xYieldPendings s'\<rparr>) s'" using s'(4) relinked_trans by blast
  moreover have "move_pending mv s = move_pending True s4"
    by (subst move_pending.simps) (use ne in \<open>simp add: own rm Let_def s4_def s3_def [symmetric] f3\<close>)
  ultimately show ?case using s'(1,2,5) pt p4 by (auto simp: f4)
qed

section \<open>The ticks that were missed\<close>

definition less_by :: "nat \<Rightarrow> nat option \<Rightarrow> nat option" where
  "less_by n r = (case r of None \<Rightarrow> None | Some k \<Rightarrow> if k \<le> n then None else Some (k - n))"

lemma less_by_0: "r \<noteq> Some 0 \<Longrightarrow> less_by 0 r = r"
  by (auto simp: less_by_def split: option.split)

lemma less_by_Suc: "r \<noteq> Some 0 \<Longrightarrow> less_by n (one_less r) = less_by (Suc n) r"
  by (auto simp: less_by_def one_less_def split: option.split)

text \<open>The tasks whose time is up within \<open>n\<close> ticks.\<close>

definition within :: "nat \<Rightarrow> sched \<Rightarrow> nat \<Rightarrow> bool" where
  "within n s t \<longleftrightarrow> (\<exists>k \<le> n. remaining s t = Some k)"

lemma remaining_pos: "times_ok s \<Longrightarrow> remaining s t \<noteq> Some 0"
  unfolding times_ok_def remaining_def by (auto simp: unat_eq_zero)

lemma replay_run:
  assumes "live_ok E s" "uxSchedulerSuspended s = 0"
  shows "\<exists>s'. replay_ticks n s = Some s' \<and> live_ok E s' \<and> at s' = awake (within n s) s \<and>
    now s' = now s + of_nat n \<and> (\<forall>t. remaining s' t = less_by n (remaining s t)) \<and> same_tasks s s' \<and>
    (xYieldPendings s \<longrightarrow> xYieldPendings s') \<and>
    ((\<exists>t. within n s t \<and> uxPriority s t > uxPriority s (pxCurrentTCB s)) \<longrightarrow> xYieldPendings s')"
  using assms
proof (induction n arbitrary: s)
  case 0
  then have "remaining s t \<noteq> Some 0" for t by (simp add: live_ok_def remaining_pos)
  then show ?case using 0 by (simp add: within_def awake_none less_by_0)
next
  case (Suc n)
  let ?woke = "\<lambda>t. remaining s t = Some 1"
  from tick_run [OF Suc.prems] obtain sw s1 where t: "xTaskIncrementTick s = Some (sw, s1)"
    and sw: "(\<exists>t. ?woke t \<and> uxPriority s t > uxPriority s (pxCurrentTCB s)) \<or> xYieldPendings s \<Longrightarrow> sw"
    and ok: "live_ok E s1" and rt: "retimed (ticked s) s1" and at1: "at s1 = awake ?woke s"
    and rem1: "\<And>t. remaining s1 t = one_less (remaining s t)" unfolding after_tick_awake by blast
  define s2 where "s2 = (if sw then s1\<lparr>xYieldPendings := True\<rparr> else s1)"
  note f = retimed_fields [OF rt]
  have s2: "live_ok E s2" "uxSchedulerSuspended s2 = 0" "at s2 = at s1" "now s2 = now s + 1" "remaining s2 = remaining s1"
    "xYieldPendings s2 = (sw \<or> xYieldPendings s1)" "uxPriority s2 = uxPriority s" "pxCurrentTCB s2 = pxCurrentTCB s"
    using ok Suc.prems by (auto simp: s2_def f)
  have same: "same_tasks s s2" using same_retimed [OF rt] by (auto simp: s2_def same_tasks_def)
  from Suc.IH [OF s2(1,2)] obtain s' where s': "replay_ticks n s2 = Some s'" "live_ok E s'"
    "at s' = awake (within n s2) s2" "now s' = now s2 + of_nat n" "\<And>t. remaining s' t = less_by n (remaining s2 t)"
    "same_tasks s2 s'" "xYieldPendings s2 \<Longrightarrow> xYieldPendings s'"
    "(\<exists>t. within n s2 t \<and> uxPriority s2 t > uxPriority s2 (pxCurrentTCB s2)) \<Longrightarrow> xYieldPendings s'" by blast
  have pos: "remaining s t \<noteq> Some 0" for t using Suc.prems by (simp add: live_ok_def remaining_pos)
  have w: "within (Suc n) s t \<longleftrightarrow> ?woke t \<or> within n s2 t" for t
  proof (cases "remaining s t")
    case (Some k)
    with pos [of t] show ?thesis by (auto simp: within_def s2 rem1 one_less_def)
  qed (simp add: within_def s2 rem1 one_less_def)
  have "at s' = awake (\<lambda>t. ?woke t \<or> within n s2 t) s"
    unfolding s'(3) by (rule awake_twice) (simp_all add: s2 at1)
  then have "at s' = awake (within (Suc n) s) s" by (simp add: w [abs_def])
  moreover have "less_by n (remaining s2 t) = less_by (Suc n) (remaining s t)" for t
    using less_by_Suc [OF pos] by (simp add: s2 rem1)
  moreover have "replay_ticks (Suc n) s = Some s'" by (simp add: t s'(1) s2_def [symmetric])
  moreover have "(\<exists>t. within (Suc n) s t \<and> uxPriority s t > uxPriority s (pxCurrentTCB s)) \<longrightarrow> xYieldPendings s'"
    using s'(7,8) sw by (auto simp: w s2)
  moreover have "xYieldPendings s \<Longrightarrow> xYieldPendings s'" using s'(7) sw by (auto simp: s2)
  ultimately show ?case using s'(2,4,5) same_trans [OF same s'(6)] s2(4)
    by (auto simp: algebra_simps)
qed

section \<open>Resuming the scheduler\<close>

lemma live_reset: "live_ok E s \<Longrightarrow> live_ok E (prvResetNextTaskUnblockTime s)"
proof -
  assume ok: "live_ok E s"
  then have core: "core_ok E s" and d: "pxDelayedTaskList s \<in> sorted_lists"
    by (auto simp: live_ok_def base_core dest!: times_two) (auto simp: two_lists_def)
  have "core_ok E (prvResetNextTaskUnblockTime s) = core_ok E s" by (rule core_fields) simp_all
  with ok reset_time [OF core d] show ?thesis by (simp add: live_ok_def base_core times_ok_def)
qed

lemma awake_far:
  assumes "core_ok E s" "awake P s i = Some l" "5 \<le> l"
  shows "at s i = Some l"
  using assms core_linked(5) [OF assms(1), of "i div 2"] by (auto simp: awake_def split: if_splits)

text \<open>The tasks that become ready when the scheduler is resumed after \<open>n\<close> missed ticks.\<close>

definition resumed :: "sched \<Rightarrow> nat \<Rightarrow> bool" where
  "resumed s t \<longleftrightarrow> pending s t \<or> within (unat (xPendedTicks s)) s t"

lemma live_awake:
  assumes ok: "live_ok E s" and core: "core_ok E s'" and at': "at s' = awake P s"
    and r: "relinked (s\<lparr>xYieldPendings := xYieldPendings s'\<rparr>) s'"
  shows "live_ok E (prvResetNextTaskUnblockTime s')" "live_ok E s'"
    "remaining s' t = (if P t then None else remaining s t)"
proof -
  note f = relinked_fields [OF r, simplified]
  from ok have times: "times_ok s" and core0: "core_ok E s" and cur: "pxCurrentTCB s \<noteq> 0"
    "at s (state_item (pxCurrentTCB s)) \<noteq> None" by (auto simp: live_ok_def base_core)
  note two = times_two [OF times]
  then have l: "5 \<le> pxDelayedTaskList s" "5 \<le> pxOverflowDelayedTaskList s" by (auto simp: two_lists_def)
  have far: "at s i = Some k" if "at s' i = Some k" "5 \<le> k" for i k using awake_far [OF core0 _ that(2)] that(1) at' by simp
  have "two_lists s'" using two by (simp add: f two_lists_def)
  moreover have "now s' < item_value s' i" "xNextTaskUnblockTime s' \<le> item_value s' i"
    if "at s' i = Some (pxDelayedTaskList s')" for i
    using far [of i "pxDelayedTaskList s"] that l times by (simp_all add: f times_ok_def)
  moreover have "item_value s' i < now s'" if "at s' i = Some (pxOverflowDelayedTaskList s')" for i
    using far [of i "pxOverflowDelayedTaskList s"] that l times by (simp add: f times_ok_def)
  moreover have "pxCurrentTCB s' \<noteq> 0" "at s' (state_item (pxCurrentTCB s')) \<noteq> None"
    using cur by (simp_all add: f at')
  ultimately show "live_ok E s'" using core by (auto simp: live_ok_def base_core times_ok_def two_lists_def)
  then show "live_ok E (prvResetNextTaskUnblockTime s')" by (rule live_reset)
  have "unat (uxPriority s t) < 5" by (rule core_linked(5) [OF core0])
  then show "remaining s' t = (if P t then None else remaining s t)"
    by (auto simp: remaining_def at' f)
qed

lemma remaining_reset [simp]: "remaining (prvResetNextTaskUnblockTime s) = remaining s"
  by (simp add: remaining_def fun_eq_iff)

lemma resume_run:
  assumes ok: "live_ok E s" and sus: "uxSchedulerSuspended s = 1" and num: "uxCurrentNumberOfTasks s > 0"
  shows "\<exists>y s'. xTaskResumeAll s = Some (y, s') \<and> live_ok E s' \<and> at s' = awake (resumed s) s \<and>
    now s' = now s + xPendedTicks s \<and>
    (\<forall>t. remaining s' t = (if pending s t then None else less_by (unat (xPendedTicks s)) (remaining s t))) \<and>
    same_tasks (s\<lparr>uxSchedulerSuspended := 0, xPendedTicks := 0, yield_requested := yield_requested s \<or> y\<rparr>) s' \<and>
    xYieldPendings s' = y \<and> (xYieldPendings s \<longrightarrow> y) \<and>
    ((\<exists>t. resumed s t \<and> uxPriority s t > uxPriority s (pxCurrentTCB s)) \<longrightarrow> y)"
proof -
  let ?n = "unat (xPendedTicks s)"
  define s1 where "s1 = s\<lparr>uxSchedulerSuspended := 0\<rparr>"
  have ok1: "live_ok E s1" and core1: "core_ok E s1"
    using ok core_fields [of s1 s E] by (simp_all add: s1_def live_ok_def base_core times_ok_def)
  have f1: "at s1 = at s" "pending s1 = pending s" "remaining s1 = remaining s"
    by (simp_all add: s1_def pending_def remaining_def fun_eq_iff)
  from move_pending_run [OF core1, of False] obtain s2 where
    s2: "move_pending False s1 = Some (\<exists>t. pending s t, s2)" "core_ok E s2" "at s2 = awake (pending s) s1"
      "relinked (s1\<lparr>xYieldPendings := xYieldPendings s2\<rparr>) s2"
      "xYieldPendings s2 = (xYieldPendings s1 \<or> (\<exists>t. pending s1 t \<and> uxPriority s1 t > uxPriority s1 (pxCurrentTCB s1)))"
    unfolding f1 simp_thms by blast
  define s3 where "s3 = (if \<exists>t. pending s t then prvResetNextTaskUnblockTime s2 else s2)"
  note live = live_awake [OF ok1 s2(2,3,4)]
  have ok3: "live_ok E s3" using live(1,2) by (auto simp: s3_def)
  have rem3: "remaining s3 t = (if pending s t then None else remaining s t)" for t
    using live(3) by (simp add: s3_def f1)
  have f3: "at s3 = awake (pending s) s1" "uxPriority s3 = uxPriority s" "pxCurrentTCB s3 = pxCurrentTCB s"
    "now s3 = now s" "uxSchedulerSuspended s3 = 0" "xPendedTicks s3 = xPendedTicks s" "xYieldPendings s3 = xYieldPendings s2"
    using s2(3) relinked_fields [OF s2(4)] by (simp_all add: s3_def s1_def)
  have same3: "same_tasks s1 s3" using relinked_fields [OF s2(4)] by (simp add: s3_def same_tasks_def)
  from replay_run [OF ok3 f3(5), of ?n] obtain s4 where
    s4: "replay_ticks ?n s3 = Some s4" "live_ok E s4" "at s4 = awake (within ?n s3) s3"
      "now s4 = now s3 + of_nat ?n" "\<And>t. remaining s4 t = less_by ?n (remaining s3 t)" "same_tasks s3 s4"
      "xYieldPendings s3 \<Longrightarrow> xYieldPendings s4"
      "(\<exists>t. within ?n s3 t \<and> uxPriority s3 t > uxPriority s3 (pxCurrentTCB s3)) \<Longrightarrow> xYieldPendings s4" by blast
  define s5 where "s5 = s4\<lparr>xPendedTicks := 0\<rparr>"
  have ticks: "(if xPendedTicks s3 > 0
      then map_option (\<lambda>s. s\<lparr>xPendedTicks := 0\<rparr>) (replay_ticks (unat (xPendedTicks s3)) s3) else Some s3) = Some s5"
  proof (cases "xPendedTicks s > 0")
    case False
    then have z: "xPendedTicks s = 0" by (simp add: word_gt_0)
    have "s4 = s3" using s4(1) z by simp
    moreover have "s3\<lparr>xPendedTicks := xPendedTicks s3\<rparr> = s3" by (cases s3) simp
    then have "s3\<lparr>xPendedTicks := 0\<rparr> = s3" by (simp add: f3 z)
    ultimately show ?thesis by (simp add: f3 s5_def z)
  qed (simp add: f3 s4(1) s5_def)
  define y where "y = xYieldPendings s5"
  define s6 where "s6 = (if y then portYIELD s5 else s5)"
  have "xTaskResumeAll s = Option.bind (move_pending False s1)
      (\<lambda>(moved, s). let s = (if moved then prvResetNextTaskUnblockTime s else s)
       in Option.bind (if xPendedTicks s > 0
            then map_option (\<lambda>s. s\<lparr>xPendedTicks := 0\<rparr>) (replay_ticks (unat (xPendedTicks s)) s) else Some s)
          (\<lambda>s. Some (if xYieldPendings s then (True, portYIELD s) else (False, s))))"
    using sus num by (simp add: xTaskResumeAll_def s1_def cong: if_cong)
  then have "xTaskResumeAll s = Some (y, s6)"
    unfolding s2(1) Option.bind.bind_lunit case_prod_conv Let_def s3_def [symmetric] ticks by (simp add: s6_def y_def)
  moreover have f6: "live_ok E s6" "at s6 = at s4" "now s6 = now s4" "remaining s6 = remaining s4" "xYieldPendings s6 = y"
    using s4(2) core_fields [of s6 s4 E]
    by (simp_all add: s6_def s5_def portYIELD_def live_ok_def base_core times_ok_def remaining_def fun_eq_iff y_def)
  moreover have "at s4 = awake (resumed s) s"
  proof -
    have "awake (within ?n s3) s3 = awake (\<lambda>t. pending s t \<or> within ?n s3 t) s1"
      by (rule awake_twice) (simp_all add: f3 s1_def)
    also have "(\<lambda>t. pending s t \<or> within ?n s3 t) = resumed s" by (auto simp: resumed_def within_def rem3)
    also have "awake (resumed s) s1 = awake (resumed s) s" by (simp add: awake_def s1_def fun_eq_iff)
    finally show ?thesis using s4(3) by simp
  qed
  moreover have "less_by ?n (remaining s3 t) = (if pending s t then None else less_by ?n (remaining s t))" for t
    by (simp add: rem3 less_by_def)
  moreover have "same_tasks (s\<lparr>uxSchedulerSuspended := 0, xPendedTicks := 0, yield_requested := yield_requested s \<or> y\<rparr>) s6"
    using same_trans [OF same3 s4(6)] by (simp add: same_tasks_def s6_def s5_def portYIELD_def s1_def)
  moreover have "xYieldPendings s \<longrightarrow> y" using s2(5) s4(7) by (simp add: y_def s5_def f3 s1_def)
  moreover have "(\<exists>t. resumed s t \<and> uxPriority s t > uxPriority s (pxCurrentTCB s)) \<longrightarrow> y"
  proof (intro impI, elim exE conjE)
    fix t assume t: "resumed s t" "uxPriority s t > uxPriority s (pxCurrentTCB s)"
    show y
    proof (cases "pending s t")
      case True
      with t(2) s2(5) s4(7) f1(2) show ?thesis by (auto simp: y_def s5_def f3 s1_def)
    next
      case False
      with t have "within ?n s3 t" by (simp add: resumed_def within_def rem3)
      with t(2) s4(8) show ?thesis by (auto simp: y_def s5_def f3)
    qed
  qed
  ultimately show ?thesis using s4(4,5) by (intro exI [of _ y] exI [of _ s6]) (simp add: f3)
qed

end
