(* ===== verification/Rtos_Steady.thy ===== *)
theory Rtos_Steady
  imports Rtos_Resume
begin

text \<open>
  The invariant of the running system: beside the well-formed lists, either a context switch is
  under way or the current task is a ready task of the highest priority. The tick, the context
  switch, delays, and suspending and resuming the scheduler keep it and never fail an assertion.
\<close>

section \<open>The invariant\<close>

text \<open>
  The current task acts when no switch is pending, or when the scheduler is suspended and the switch
  has to wait. The task \<open>i\<close> is the idle task, which is always ready.
\<close>

definition acting :: "sched \<Rightarrow> bool" where
  "acting s \<longleftrightarrow> uxSchedulerSuspended s \<noteq> 0 \<or> \<not> yield_requested s"

definition all_moved :: "sched \<Rightarrow> bool" where
  "all_moved s \<longleftrightarrow> (uxSchedulerSuspended s = 0 \<longrightarrow> xPendedTicks s = 0 \<and> (\<forall>t. \<not> pending s t))"

definition preempting :: "sched \<Rightarrow> bool" where
  "preempting s \<longleftrightarrow> yield_requested s \<or> xYieldPendings s \<or> top_ready s (pxCurrentTCB s)"

definition steady :: "nat set \<Rightarrow> nat \<Rightarrow> sched \<Rightarrow> bool" where
  "steady E i s \<longleftrightarrow> live_ok E s \<and> ready s i \<and> uxCurrentNumberOfTasks s > 0 \<and> all_moved s \<and>
     (acting s \<longrightarrow> ready s (pxCurrentTCB s)) \<and> preempting s"

lemma steadyD:
  assumes "steady E i s"
  shows "live_ok E s" "core_ok E s" "times_ok s" "ready s i" "uxCurrentNumberOfTasks s > 0" "all_moved s"
    "acting s \<Longrightarrow> ready s (pxCurrentTCB s)" "preempting s" "pxCurrentTCB s \<noteq> 0"
    "at s (state_item (pxCurrentTCB s)) \<noteq> None"
  using assms by (auto simp: steady_def live_ok_def base_core)

lemma steady_at:
  "steady E i s \<Longrightarrow> ready s t \<Longrightarrow> at s (state_item t) = Some (unat (uxPriority s t))"
  using core_linked(2) ready_at steadyD(2) by blast

lemma ready_awake:
  assumes "core_ok E s" "at s' = awake P s"
  shows "ready s' t \<longleftrightarrow> P t \<or> ready s t"
  using assms(2) core_linked(5) [OF assms(1), of t] by (auto simp: ready_def)

text \<open>Tasks have become ready, and a switch is asked for if one of them should run.\<close>

lemma steady_woken:
  assumes ok: "steady E i s" and live: "live_ok E s'" and at': "at s' = awake P s"
    and f: "uxPriority s' = uxPriority s" "pxCurrentTCB s' = pxCurrentTCB s"
      "uxCurrentNumberOfTasks s' = uxCurrentNumberOfTasks s"
    and moved: "uxSchedulerSuspended s' = 0 \<Longrightarrow> xPendedTicks s' = 0 \<and> (\<forall>t. pending s t \<longrightarrow> P t)"
    and act: "acting s' \<Longrightarrow> acting s"
    and yield: "yield_requested s \<or> xYieldPendings s \<or> (\<exists>t. P t \<and> uxPriority s t > uxPriority s (pxCurrentTCB s)) \<Longrightarrow>
      yield_requested s' \<or> xYieldPendings s'"
  shows "steady E i s'"
proof -
  note d = steadyD [OF ok]
  note r = ready_awake [OF d(2) at']
  have "preempting s'"
  proof (cases "yield_requested s' \<or> xYieldPendings s'")
    case True
    then show ?thesis by (auto simp: preempting_def)
  next
    case False
    with yield d(8) have "top_ready s (pxCurrentTCB s)" "\<And>t. P t \<Longrightarrow> uxPriority s t \<le> uxPriority s (pxCurrentTCB s)"
      by (auto simp: preempting_def not_less [symmetric])
    then show ?thesis by (auto simp: preempting_def top_ready_def r f)
  qed
  moreover have "all_moved s'" using moved by (auto simp: all_moved_def pending_def at')
  ultimately show ?thesis using live d(4,5,7) act by (simp add: steady_def f r)
qed

lemma steady_yield: "steady E i s \<Longrightarrow> steady E i (portYIELD s)"
  by (rule steady_woken [where P = "\<lambda>_. False"])
    (auto simp: awake_none portYIELD_def acting_def live_ok_def base_core times_ok_def all_moved_def steady_def
      core_fields [of "s\<lparr>yield_requested := True\<rparr>" s])

section \<open>The tick\<close>

lemma pended_tick:
  assumes "steady E i s" "uxSchedulerSuspended s \<noteq> 0"
  shows "vPortIncrementTick s = Some (s\<lparr>xPendedTicks := xPendedTicks s + 1\<rparr>)"
    "steady E i (s\<lparr>xPendedTicks := xPendedTicks s + 1\<rparr>)"
proof -
  show "vPortIncrementTick s = Some (s\<lparr>xPendedTicks := xPendedTicks s + 1\<rparr>)"
    using assms(2) by (simp add: vPortIncrementTick_def xTaskIncrementTick_def)
  show "steady E i (s\<lparr>xPendedTicks := xPendedTicks s + 1\<rparr>)"
    using assms core_fields [of "s\<lparr>xPendedTicks := xPendedTicks s + 1\<rparr>" s]
    by (intro steady_woken [OF assms(1), where P = "\<lambda>_. False"])
      (auto simp: awake_none acting_def live_ok_def base_core times_ok_def steady_def)
qed

lemma steady_tick_run:
  assumes ok: "steady E i s" and run: "uxSchedulerSuspended s = 0"
  shows "\<exists>s'. vPortIncrementTick s = Some s' \<and> steady E i s' \<and> at s' = awake (\<lambda>t. remaining s t = Some 1) s \<and>
    now s' = now s + 1 \<and> (\<forall>t. remaining s' t = one_less (remaining s t)) \<and> uxSchedulerSuspended s' = 0 \<and>
    pxCurrentTCB s' = pxCurrentTCB s \<and> uxPriority s' = uxPriority s"
proof -
  note d = steadyD [OF ok]
  from tick_run [OF d(1) run] obtain sw s1 where t: "xTaskIncrementTick s = Some (sw, s1)"
    and sw: "(\<exists>t. remaining s t = Some 1 \<and> uxPriority s t > uxPriority s (pxCurrentTCB s)) \<or> xYieldPendings s \<Longrightarrow> sw"
    and live: "live_ok E s1" and rt: "retimed (ticked s) s1" and at1: "at s1 = awake (\<lambda>t. remaining s t = Some 1) s"
    and rem1: "\<And>t. remaining s1 t = one_less (remaining s t)" unfolding after_tick_awake by blast
  note f = retimed_fields [OF rt]
  define s' where "s' = (if sw then portYIELD s1 else s1)"
  have f': "lists s' = lists s1" "clock s' = clock s1" "remaining s' = remaining s1" "uxPriority s' = uxPriority s"
    "pxCurrentTCB s' = pxCurrentTCB s" "uxSchedulerSuspended s' = uxSchedulerSuspended s" "xPendedTicks s' = xPendedTicks s"
    "uxCurrentNumberOfTasks s' = uxCurrentNumberOfTasks s" "yield_requested s' = (yield_requested s \<or> sw)"
    by (simp_all add: s'_def portYIELD_def f remaining_def fun_eq_iff)
  have "live_ok E s'"
    using live core_fields [of s' s1 E] by (auto simp: s'_def portYIELD_def live_ok_def base_core times_ok_def)
  then have "steady E i s'"
    using run d(6) sw at1 by (intro steady_woken [OF ok]) (auto simp: f' acting_def all_moved_def)
  with t at1 rem1 run show ?thesis by (auto simp: vPortIncrementTick_def s'_def [symmetric] f' f)
qed

section \<open>The context switch\<close>

lemma switch_steady:
  assumes ok: "steady E i s" and run: "uxSchedulerSuspended s = 0"
  shows "\<exists>s'. vPortYieldISR s = Some s' \<and> steady E i s' \<and> top_ready s' (pxCurrentTCB s') \<and> at s' = at s \<and>
    now s' = now s \<and> remaining s' = remaining s \<and> \<not> yield_requested s' \<and> \<not> xYieldPendings s' \<and>
    uxSchedulerSuspended s' = 0 \<and> uxPriority s' = uxPriority s"
proof -
  note d = steadyD [OF ok]
  let ?s = "s\<lparr>yield_requested := False\<rparr>"
  have core: "core_ok E ?s" using d(2) core_fields [of ?s s] by simp
  have "ready ?s i" using d(4) by (simp add: ready_def)
  from some_top [OF core this] obtain t0 where t0: "top_ready ?s t0" .
  from switch_run [OF core t0] run obtain t where t: "top_ready ?s t"
    "vTaskSwitchContext ?s = Some (switched ?s (snd (listGET_OWNER_OF_NEXT_ENTRY (unat (uxPriority ?s t)) (lists ?s))) t)"
    "snd (listGET_OWNER_OF_NEXT_ENTRY (unat (uxPriority ?s t)) (lists ?s)) =
      (lists ?s)\<lparr>pxIndex := (pxIndex (lists ?s))(unat (uxPriority ?s t) := Item (state_item t))\<rparr>" by auto
  define m where "m = (lists s)\<lparr>pxIndex := (pxIndex (lists s))(unat (uxPriority s t) := Item (state_item t))\<rparr>"
  define s' where "s' = switched ?s m t"
  have att: "at s (state_item t) = Some (unat (uxPriority s t))" using top_priority(2) [OF core t(1)] by simp
  have core': "core_ok E s'"
    using core_index [OF core, of "state_item t" "unat (uxPriority s t)" t] att by (simp add: s'_def m_def)
  have m: "pxContainer m = at s" "xItemValue m = xItemValue (lists s)" by (simp_all add: m_def)
  have f': "at s' = at s" "xItemValue (lists s') = xItemValue (lists s)" "uxPriority s' = uxPriority s"
    "pxCurrentTCB s' = t" "clock s' = clock s" "uxCurrentNumberOfTasks s' = uxCurrentNumberOfTasks s"
    "pxDelayedTaskList s' = pxDelayedTaskList s" "pxOverflowDelayedTaskList s' = pxOverflowDelayedTaskList s"
    "xNextTaskUnblockTime s' = xNextTaskUnblockTime s" "xPendedTicks s' = xPendedTicks s"
    "uxSchedulerSuspended s' = uxSchedulerSuspended s" "\<not> yield_requested s'" "\<not> xYieldPendings s'"
    by (simp_all add: s'_def m) (simp add: switched_def)
  have "t \<noteq> 0" using core_linked(6) [OF d(2) att] by (auto simp: state_item_def)
  then have live: "live_ok E s'" using core' d(3) att by (simp add: live_ok_def base_core times_ok_def f')
  have top: "top_ready s' t" using t(1) by (simp add: top_ready_def ready_def f')
  with d live have "steady E i s'"
    by (simp add: steady_def all_moved_def acting_def preempting_def pending_def ready_def f' top_ready_def)
  moreover have "vPortYieldISR s = Some s'" using t(2,3) by (simp add: vPortYieldISR_def s'_def m_def)
  ultimately show ?thesis using top run by (auto simp: f' remaining_def fun_eq_iff)
qed

lemma switch_waits:
  assumes ok: "steady E i s" and sus: "uxSchedulerSuspended s \<noteq> 0"
  shows "vPortYieldISR s = Some (s\<lparr>yield_requested := False, xYieldPendings := True\<rparr>)"
    "steady E i (s\<lparr>yield_requested := False, xYieldPendings := True\<rparr>)"
proof -
  show "vPortYieldISR s = Some (s\<lparr>yield_requested := False, xYieldPendings := True\<rparr>)"
    using sus by (simp add: vPortYieldISR_def vTaskSwitchContext_def)
  show "steady E i (s\<lparr>yield_requested := False, xYieldPendings := True\<rparr>)"
    using ok sus core_fields [of "s\<lparr>yield_requested := False, xYieldPendings := True\<rparr>" s E]
    by (simp add: steady_def live_ok_def base_core times_ok_def all_moved_def acting_def preempting_def ready_def)
qed

section \<open>Suspending and resuming the scheduler\<close>

lemma suspend_all_fields [simp]:
  "lists (vTaskSuspendAll s) = lists s" "uxPriority (vTaskSuspendAll s) = uxPriority s"
  "uxBasePriority (vTaskSuspendAll s) = uxBasePriority s" "uxTopReadyPriority (vTaskSuspendAll s) = uxTopReadyPriority s"
  "pxCurrentTCB (vTaskSuspendAll s) = pxCurrentTCB s" "clock (vTaskSuspendAll s) = clock s"
  "pxDelayedTaskList (vTaskSuspendAll s) = pxDelayedTaskList s" "xPendedTicks (vTaskSuspendAll s) = xPendedTicks s"
  "pxOverflowDelayedTaskList (vTaskSuspendAll s) = pxOverflowDelayedTaskList s"
  "xNextTaskUnblockTime (vTaskSuspendAll s) = xNextTaskUnblockTime s"
  "uxCurrentNumberOfTasks (vTaskSuspendAll s) = uxCurrentNumberOfTasks s"
  "yield_requested (vTaskSuspendAll s) = yield_requested s" "xYieldPendings (vTaskSuspendAll s) = xYieldPendings s"
  "uxSchedulerSuspended (vTaskSuspendAll s) = uxSchedulerSuspended s + 1" "uxMutexesHeld (vTaskSuspendAll s) = uxMutexesHeld s"
  "ucNotifyState (vTaskSuspendAll s) = ucNotifyState s" "ulNotifiedValue (vTaskSuspendAll s) = ulNotifiedValue s"
  "remaining (vTaskSuspendAll s) = remaining s"
  by (simp_all add: vTaskSuspendAll_def remaining_def fun_eq_iff)

lemma live_suspend_all [simp]: "live_ok E (vTaskSuspendAll s) = live_ok E s"
  using core_fields [of "vTaskSuspendAll s" s E] by (simp add: live_ok_def base_core times_ok_def)

lemma suspend_counts:
  assumes "uxSchedulerSuspended s < 0xFFFFFFFF"
  shows "uxSchedulerSuspended s + 1 \<noteq> 0"
proof
  assume "uxSchedulerSuspended s + 1 = 0"
  then have "uxSchedulerSuspended s = - 1" by (simp add: eq_neg_iff_add_eq_0)
  with assms show False by simp
qed

lemma suspend_all_steady:
  assumes ok: "steady E i s" and act: "acting s" and less: "uxSchedulerSuspended s < 0xFFFFFFFF"
  shows "steady E i (vTaskSuspendAll s)"
proof -
  note suspend_counts [OF less]
  with ok act show ?thesis
    by (intro steady_woken [OF ok, where P = "\<lambda>_. False"]) (auto simp: awake_none steady_def)
qed

text \<open>
  One level of suspension is taken back; on the last one the scheduler catches up, and the result
  says whether a switch was asked for.
\<close>

lemma resume_all_steady:
  assumes ok: "steady E i s" and sus: "uxSchedulerSuspended s \<noteq> 0"
  shows "\<exists>y s'. xTaskResumeAll s = Some (y, s') \<and> steady E i s'"
proof (cases "uxSchedulerSuspended s = 1")
  case True
  note d = steadyD [OF ok]
  from resume_run [OF d(1) True d(5)] obtain y s' where r: "xTaskResumeAll s = Some (y, s')" "live_ok E s'"
    "at s' = awake (resumed s) s" "same_tasks (s\<lparr>uxSchedulerSuspended := 0, xPendedTicks := 0,
      yield_requested := yield_requested s \<or> y\<rparr>) s'" "xYieldPendings s' = y" "xYieldPendings s \<longrightarrow> y"
    "(\<exists>t. resumed s t \<and> uxPriority s t > uxPriority s (pxCurrentTCB s)) \<longrightarrow> y" by blast
  then have "steady E i s'"
    using True by (intro steady_woken [OF ok r(2,3)]) (auto simp: same_tasks_def acting_def resumed_def)
  with r(1) show ?thesis by blast
next
  case False
  then have "uxSchedulerSuspended s - 1 \<noteq> 0" by (simp add: eq_diff_eq [symmetric])
  moreover from this have "xTaskResumeAll s = Some (False, s\<lparr>uxSchedulerSuspended := uxSchedulerSuspended s - 1\<rparr>)"
    using sus by (simp add: xTaskResumeAll_def)
  moreover have "live_ok E (s\<lparr>uxSchedulerSuspended := uxSchedulerSuspended s - 1\<rparr>)"
    using steadyD(1) [OF ok] core_fields [of "s\<lparr>uxSchedulerSuspended := uxSchedulerSuspended s - 1\<rparr>" s E]
    by (simp add: live_ok_def base_core times_ok_def)
  then have "steady E i (s\<lparr>uxSchedulerSuspended := uxSchedulerSuspended s - 1\<rparr>)"
    using calculation(1) sus
    by (intro steady_woken [OF ok, where P = "\<lambda>_. False"]) (auto simp: awake_none acting_def)
  ultimately show ?thesis by blast
qed

text \<open>
  Ticks that were missed are made up for at once: the clock is advanced by all of them, the waits that end
  within them end, and all others are that much shorter.
\<close>

lemma xTaskCatchUpTicks_run:
  assumes ok: "steady E i s" and run: "uxSchedulerSuspended s = 0" and act: "\<not> yield_requested s"
  shows "\<exists>y s'. xTaskCatchUpTicks n s = Some (y, s') \<and> steady E i s' \<and> at s' = awake (within (unat n) s) s \<and>
    now s' = now s + n \<and> (\<forall>t. remaining s' t = less_by (unat n) (remaining s t)) \<and> yield_requested s' = y \<and>
    ((\<exists>t. within (unat n) s t \<and> uxPriority s t > uxPriority s (pxCurrentTCB s)) \<longrightarrow> y)"
proof -
  note d = steadyD [OF ok]
  define s1 where "s1 = (vTaskSuspendAll s)\<lparr>xPendedTicks := n\<rparr>"
  have p: "xPendedTicks s = 0" "\<not> pending s t" for t using d(6) run by (auto simp: all_moved_def)
  have f: "at s1 = at s" "uxPriority s1 = uxPriority s" "pxCurrentTCB s1 = pxCurrentTCB s" "now s1 = now s"
    "uxSchedulerSuspended s1 = 1" "xPendedTicks s1 = n" "remaining s1 = remaining s"
    "uxCurrentNumberOfTasks s1 = uxCurrentNumberOfTasks s" "yield_requested s1 = yield_requested s" "xYieldPendings s1 = xYieldPendings s"
    using run by (simp_all add: s1_def remaining_def fun_eq_iff)
  have "live_ok E s1"
    using d(1) core_fields [of s1 s E] by (simp add: s1_def live_ok_def base_core times_ok_def)
  moreover have res: "resumed s1 = within (unat n) s" using p(2) by (simp add: resumed_def pending_def within_def f fun_eq_iff)
  moreover have aw: "awake P s1 = awake P s" for P by (simp add: awake_def f fun_eq_iff)
  moreover have "\<not> pending s1 t" for t using p(2) by (simp add: pending_def f)
  ultimately obtain y s' where r: "xTaskResumeAll s1 = Some (y, s')" "live_ok E s'" "at s' = awake (within (unat n) s) s"
    "now s' = now s + n" "\<And>t. remaining s' t = less_by (unat n) (remaining s t)"
    "same_tasks (s1\<lparr>uxSchedulerSuspended := 0, xPendedTicks := 0, yield_requested := yield_requested s1 \<or> y\<rparr>) s'"
    "xYieldPendings s' = y" "xYieldPendings s \<longrightarrow> y"
    "(\<exists>t. within (unat n) s t \<and> uxPriority s t > uxPriority s (pxCurrentTCB s)) \<longrightarrow> y"
    using resume_run [of E s1] d(5) by (auto simp: f)
  have "xTaskCatchUpTicks n s = Some (y, s')" using r(1) run p(1) by (simp add: xTaskCatchUpTicks_def s1_def Let_def)
  moreover have "steady E i s'"
    using run act p by (intro steady_woken [OF ok r(2,3)]) (use r(6-9) in \<open>auto simp: same_tasks_def f acting_def\<close>)
  ultimately show ?thesis using r act by (auto simp: same_tasks_def f)
qed

section \<open>Blocking\<close>

text \<open>
  The end of every call that blocks: the scheduler is resumed, and a switch is asked for in any case.
\<close>

lemma resume_and_yield:
  assumes live: "live_ok E s" and i: "ready s i" and sus: "uxSchedulerSuspended s = 1"
    and num: "uxCurrentNumberOfTasks s > 0"
  shows "\<exists>s'. map_option yield_unless (xTaskResumeAll s) = Some s' \<and> steady E i s' \<and> yield_requested s' \<and>
    at s' = awake (resumed s) s \<and> now s' = now s + xPendedTicks s \<and>
    (\<forall>t. remaining s' t = (if pending s t then None else less_by (unat (xPendedTicks s)) (remaining s t))) \<and>
    uxSchedulerSuspended s' = 0 \<and> uxPriority s' = uxPriority s \<and> pxCurrentTCB s' = pxCurrentTCB s \<and>
    ucNotifyState s' = ucNotifyState s \<and> ulNotifiedValue s' = ulNotifiedValue s"
proof -
  from resume_run [OF live sus num] obtain y s1 where r: "xTaskResumeAll s = Some (y, s1)" "live_ok E s1"
    "at s1 = awake (resumed s) s" "now s1 = now s + xPendedTicks s"
    "\<forall>t. remaining s1 t = (if pending s t then None else less_by (unat (xPendedTicks s)) (remaining s t))"
    "same_tasks (s\<lparr>uxSchedulerSuspended := 0, xPendedTicks := 0, yield_requested := yield_requested s \<or> y\<rparr>) s1" by blast
  define s' where "s' = yield_unless (y, s1)"
  have f: "lists s' = lists s1" "clock s' = clock s1" "uxPriority s' = uxPriority s1" "pxCurrentTCB s' = pxCurrentTCB s1"
    "uxSchedulerSuspended s' = uxSchedulerSuspended s1" "xPendedTicks s' = xPendedTicks s1" "remaining s' = remaining s1"
    "uxCurrentNumberOfTasks s' = uxCurrentNumberOfTasks s1" "yield_requested s' = (yield_requested s1 \<or> \<not> y)"
    "ucNotifyState s' = ucNotifyState s1" "ulNotifiedValue s' = ulNotifiedValue s1"
    by (simp_all add: s'_def yield_unless_def portYIELD_def remaining_def fun_eq_iff)
  have core: "core_ok E s" using live by (simp add: live_ok_def base_core)
  have "live_ok E s'"
    using r(2) core_fields [of s' s1 E] by (auto simp: s'_def yield_unless_def portYIELD_def live_ok_def base_core times_ok_def)
  moreover have "ready s' i" using ready_awake [OF core r(3), of i] i by (simp add: ready_def f)
  moreover have "\<not> pending s' t" for t by (simp add: pending_def f r(3) resumed_def)
  ultimately have "steady E i s'" "yield_requested s'"
    using r(6) num by (auto simp: steady_def all_moved_def acting_def preempting_def f same_tasks_def)
  with r show ?thesis by (intro exI [of _ s']) (simp add: f same_tasks_def, simp add: s'_def)
qed

lemma steady_no_resumed:
  assumes ok: "steady E i s" and run: "uxSchedulerSuspended s = 0"
  shows "xPendedTicks s = 0" "\<not> pending s t" "resumed s = (\<lambda>_. False)"
  using steadyD(3,6) [OF ok] run remaining_pos [of s]
  by (auto simp: all_moved_def resumed_def within_def fun_eq_iff)

text \<open>
  A state that differs from a steady one in where the current task is, and is suspended once: the
  scheduler is resumed. The current task may have been put on an event list as well.
\<close>

lemma steady_idle_ready:
  assumes "steady E i s" "t \<noteq> i" "at s' = (at s)(state_item t := l)" shows "ready s' i"
  using assms steadyD(4) [OF assms(1)] by (auto simp: ready_def)

lemma block_current:
  assumes live: "live_ok E s" and act: "ready s (pxCurrentTCB s)" and n: "n \<noteq> 0"
  shows "\<exists>s'. prvAddCurrentTaskToDelayedList n forever s = Some s' \<and> live_ok E s' \<and>
    blocked_state ({0..9} \<union> E) n forever s s' \<and>
    remaining s' = (remaining s)(pxCurrentTCB s := (if n = portMAX_DELAY \<and> forever then None else Some (unat n)))"
proof -
  have "core_ok E s" using live by (simp add: live_ok_def base_core)
  then have "at s (state_item (pxCurrentTCB s)) = Some (unat (uxPriority s (pxCurrentTCB s)))"
    using ready_at core_linked(2) act by blast
  from block_run [OF may_block_live [OF live this] n] show ?thesis .
qed

lemma blocked_at:
  assumes "blocked_state L n f s s'"
  shows "at s' = (at s)(state_item (pxCurrentTCB s) := Some (blocked_list n f s))"
  using assms by (simp add: blocked_state_def Let_def)

lemma wait_steady:
  assumes ok: "steady E i s" and run: "uxSchedulerSuspended s = 0" and act: "\<not> yield_requested s"
    and cur: "pxCurrentTCB s \<noteq> i" and n: "n \<noteq> 0"
  shows "\<exists>s1 s'. prvAddCurrentTaskToDelayedList n forever (vTaskSuspendAll s) = Some s1 \<and>
    map_option yield_unless (xTaskResumeAll s1) = Some s' \<and> steady E i s' \<and> yield_requested s' \<and>
    at s' = (at s)(state_item (pxCurrentTCB s) := Some (blocked_list n forever s)) \<and> now s' = now s \<and>
    remaining s' = (remaining s)(pxCurrentTCB s := (if n = portMAX_DELAY \<and> forever then None else Some (unat n))) \<and>
    uxSchedulerSuspended s' = 0 \<and> uxPriority s' = uxPriority s \<and> pxCurrentTCB s' = pxCurrentTCB s \<and>
    ucNotifyState s' = ucNotifyState s \<and> ulNotifiedValue s' = ulNotifiedValue s"
proof -
  let ?s = "vTaskSuspendAll s" and ?t = "pxCurrentTCB s"
  note d = steadyD [OF ok]
  have act': "ready ?s (pxCurrentTCB ?s)" using d(7) act by (simp add: ready_def acting_def)
  from block_current [OF _ act' n, of E forever] d(1) obtain s1 where
    s1: "prvAddCurrentTaskToDelayedList n forever ?s = Some s1" "live_ok E s1" "blocked_state ({0..9} \<union> E) n forever ?s s1"
      "remaining s1 = (remaining s)(?t := (if n = portMAX_DELAY \<and> forever then None else Some (unat n)))" by auto
  note f = blocked_fields [OF s1(3)]
  have at1: "at s1 = (at s)(state_item ?t := Some (blocked_list n forever s))"
    using blocked_at [OF s1(3)] by (simp add: blocked_list_def)
  have p1: "\<not> pending s1 t" for t using steady_no_resumed(2) [OF ok run, of t] by (simp add: pending_def at1)
  have pos: "remaining s1 t \<noteq> Some 0" for t using s1(2) by (simp add: live_ok_def remaining_pos)
  have zero: "unat (xPendedTicks s1) = 0" "unat (xPendedTicks s) = 0"
    using steady_no_resumed(1) [OF ok run] by (simp_all add: f)
  then have "resumed s1 t \<longleftrightarrow> False" for t using p1 [of t] pos [of t] by (simp add: resumed_def within_def)
  then have r1: "awake (resumed s1) s1 = at s1" by (simp add: awake_none)
  from resume_and_yield [OF s1(2) steady_idle_ready [OF ok cur at1]] run d(5) obtain s' where
    s': "map_option yield_unless (xTaskResumeAll s1) = Some s'" "steady E i s'" "yield_requested s'"
      "at s' = at s1" "now s' = now s1 + xPendedTicks s1"
      "\<And>t. remaining s' t = less_by 0 (remaining s1 t)"
      "uxSchedulerSuspended s' = 0" "uxPriority s' = uxPriority s1" "pxCurrentTCB s' = pxCurrentTCB s1"
      "ucNotifyState s' = ucNotifyState s1" "ulNotifiedValue s' = ulNotifiedValue s1"
    by (auto simp: f p1 r1 zero)
  have "remaining s' = remaining s1" using s'(6) pos by (simp add: fun_eq_iff less_by_0)
  with s1(1,4) s' zero show ?thesis by (intro exI [of _ s1] exI [of _ s']) (simp add: f at1 unat_eq_zero)
qed

lemmas delay_steady = wait_steady [where forever = False, simplified]


lemma vTaskDelay_run:
  assumes ok: "steady E i s" and run: "uxSchedulerSuspended s = 0" and act: "\<not> yield_requested s"
    and cur: "pxCurrentTCB s \<noteq> i" and n: "n \<noteq> 0"
  shows "\<exists>s'. vTaskDelay n s = Some s' \<and> steady E i s' \<and> yield_requested s' \<and>
    at s' = (at s)(state_item (pxCurrentTCB s) := Some (blocked_list n False s)) \<and> now s' = now s \<and>
    remaining s' = (remaining s)(pxCurrentTCB s := Some (unat n)) \<and> uxSchedulerSuspended s' = 0 \<and>
    uxPriority s' = uxPriority s \<and> pxCurrentTCB s' = pxCurrentTCB s"
proof -
  from delay_steady [OF assms] obtain s1 s' where
    s1: "prvAddCurrentTaskToDelayedList n False (vTaskSuspendAll s) = Some s1"
    and s': "map_option yield_unless (xTaskResumeAll s1) = Some s'"
    and rest: "steady E i s'" "yield_requested s'"
      "at s' = (at s)(state_item (pxCurrentTCB s) := Some (blocked_list n False s))" "now s' = now s"
      "remaining s' = (remaining s)(pxCurrentTCB s := Some (unat n))" "uxSchedulerSuspended s' = 0"
      "uxPriority s' = uxPriority s" "pxCurrentTCB s' = pxCurrentTCB s" by blast
  from s' obtain r where "xTaskResumeAll s1 = Some r" "yield_unless r = s'" by auto
  then have "vTaskDelay n s = Some s'" using n run s1 by (simp add: vTaskDelay_def word_gt_0)
  with rest show ?thesis by blast
qed

section \<open>Periodic delays\<close>

text \<open>
  The comparison of wake-up times is exact in spite of the wrap-around of the counter: with \<open>e\<close> ticks
  since the previous wake-up, a period of \<open>d\<close> has ended exactly if \<open>d \<le> e\<close>.
\<close>

lemma should_delay_exact: "should_delay (p + e) p (p + d) \<longleftrightarrow> e < d"
proof -
  have "unat (p + e) = (if unat p + unat e < 2 ^ 32 then unat p + unat e else unat p + unat e - 2 ^ 32)"
    "unat (p + d) = (if unat p + unat d < 2 ^ 32 then unat p + unat d else unat p + unat d - 2 ^ 32)"
    using unat_plus_if' [of p e] unat_plus_if' [of p d] by simp_all
  moreover have "unat p < 2 ^ 32" "unat e < 2 ^ 32" "unat d < 2 ^ 32"
    using unsigned_less [of p] unsigned_less [of e] unsigned_less [of d] by simp_all
  ultimately show ?thesis unfolding should_delay_def word_less_nat_alt by (auto split: if_splits)
qed

lemma xTaskDelayUntil_run:
  assumes ok: "steady E i s" and run: "uxSchedulerSuspended s = 0" and act: "\<not> yield_requested s"
    and cur: "pxCurrentTCB s \<noteq> i" and d: "d \<noteq> 0"
  shows "\<exists>s'. xTaskDelayUntil (Some prev) d s = Some (now s - prev < d, prev + d, s') \<and> steady E i s' \<and>
    yield_requested s' \<and> now s' = now s \<and> uxSchedulerSuspended s' = 0 \<and>
    remaining s' = (if now s - prev < d then (remaining s)(pxCurrentTCB s := Some (unat (d - (now s - prev)))) else remaining s)"
proof -
  have due: "should_delay (now s) prev (prev + d) \<longleftrightarrow> now s - prev < d"
    using should_delay_exact [of prev "now s - prev" d] by simp
  have wait: "prev + d - now s = d - (now s - prev)" by simp
  show ?thesis
  proof (cases "now s - prev < d")
    case True
    then have "d - (now s - prev) \<noteq> 0" by auto
    from delay_steady [OF ok run act cur this] obtain s1 s' where
      s1: "prvAddCurrentTaskToDelayedList (d - (now s - prev)) False (vTaskSuspendAll s) = Some s1"
      and s': "map_option yield_unless (xTaskResumeAll s1) = Some s'"
      and rest: "steady E i s'" "yield_requested s'" "now s' = now s" "uxSchedulerSuspended s' = 0"
        "remaining s' = (remaining s)(pxCurrentTCB s := Some (unat (d - (now s - prev))))" by blast
    from s' obtain r where "xTaskResumeAll s1 = Some r" "yield_unless r = s'" by auto
    then have "xTaskDelayUntil (Some prev) d s = Some (True, prev + d, s')"
      using d run True s1 unfolding xTaskDelayUntil_def by (simp add: due wait)
    with rest True show ?thesis by auto
  next
    case False
    let ?s = "vTaskSuspendAll s"
    have live: "live_ok E ?s" "ready ?s i" "uxSchedulerSuspended ?s = 1" "uxCurrentNumberOfTasks ?s > 0"
      using steadyD(1,4,5) [OF ok] run by (simp_all add: ready_def)
    from resume_and_yield [OF live] obtain s' where
      s': "map_option yield_unless (xTaskResumeAll ?s) = Some s'" "steady E i s'" "yield_requested s'"
        "now s' = now s + xPendedTicks s" "uxSchedulerSuspended s' = 0"
        "\<And>t. remaining s' t = (if pending s t then None else less_by (unat (xPendedTicks s)) (remaining s t))"
      by (auto simp: pending_def)
    have "remaining s t \<noteq> Some 0" for t using steadyD(3) [OF ok] by (rule remaining_pos)
    then have "remaining s' = remaining s" "now s' = now s"
      using s'(4,6) steady_no_resumed(1,2) [OF ok run] by (simp_all add: fun_eq_iff less_by_0)
    moreover from s'(1) obtain r where "xTaskResumeAll ?s = Some r" "yield_unless r = s'" by auto
    then have "xTaskDelayUntil (Some prev) d s = Some (False, prev + d, s')"
      using d run False unfolding xTaskDelayUntil_def by (simp add: due)
    ultimately show ?thesis using s'(2,3,5) False by auto
  qed
qed

end
