(* ===== verification/Rtos_Events.thy ===== *)
theory Rtos_Events
  imports Rtos_Steady
begin

text \<open>
  Waiting for an event and being woken by it, and suspending and resuming single tasks, keep the
  invariant.
\<close>

section \<open>Waiting\<close>

text \<open>
  The way queue.c and the other users block on an event list: with the scheduler suspended, the
  task goes on the event list and a delayed list, and the scheduler is resumed.
\<close>

definition block_on :: "nat \<Rightarrow> u32 \<Rightarrow> sched \<Rightarrow> sched option" where
  "block_on l n s =
     Option.bind (vTaskPlaceOnEventList l n s) (\<lambda>s. map_option yield_unless (xTaskResumeAll s))"

lemma ready_no_event:
  assumes "core_ok E s" "ready s t"
  shows "at s (event_item t) = None"
proof (rule ccontr)
  assume "at s (event_item t) \<noteq> None"
  then have "at s (state_item t) \<in> {Some 5, Some 6, Some 9}"
    using core_linked(2) [OF assms(1)] unfolding placed_ok_def by blast
  with assms(2) show False by (auto simp: ready_def)
qed

lemma task_item:
  assumes "core_ok E s" "at s i = Some l"
  shows "1 < i" "i < 2 ^ 32"
  using core_linked(6) [OF assms] by simp_all

text \<open>Both items of a task have an address.\<close>

lemma task_items:
  assumes "core_ok E s" "at s (state_item t) = Some l"
  shows "1 < event_item t" "event_item t < 2 ^ 32" "1 < state_item t" "state_item t < 2 ^ 32" "t \<noteq> 0"
  using task_item [OF assms] by (simp_all add: state_item_def event_item_def)

lemma may_block_event:
  assumes live: "live_ok E s" and r: "ready s (pxCurrentTCB s)" and l: "l \<in> E"
    and k: "kept_linked ({0..9} \<union> E) s ((at s)(event_item (pxCurrentTCB s) := Some l)) (uxTopReadyPriority s) s'"
  shows "may_block E s'"
proof -
  let ?t = "pxCurrentTCB s"
  from live have c: "core_ok E s" and t: "times_ok s" and nz: "?t \<noteq> 0" by (auto simp: live_ok_def base_core)
  from k have rel: "relinked s s'" and at': "at s' = (at s)(event_item ?t := Some l)" and lk: "linked (lists s') ({0..9} \<union> E)"
    and rdy: "uxTopReadyPriority s' = uxTopReadyPriority s" by (simp_all add: kept_linked_def)
  note f = relinked_fields [OF rel]
  have "9 < l" using core_linked(7) [OF c l] .
  then have "times_ok s'" using t by (auto simp: times_ok_def f at')
  moreover have "(at s)(event_item ?t := None) = at s" using ready_no_event [OF c r] by auto
  then have "placed_ok E (uxPriority s) ((at s')(event_item ?t := None))" using core_linked(2) [OF c] by (simp add: at')
  moreover have "bits_ok (uxTopReadyPriority s') (at s')" using core_linked(3) [OF c] by (simp add: at' rdy)
  ultimately show ?thesis
    using c lk nz l ready_at [OF core_linked(2) [OF c] r]
    by (simp add: may_block_def Let_def f core_ok_def lists_ok_def priorities_ok_def at')
qed

lemma place_run:
  assumes live: "live_ok E s" and r: "ready s (pxCurrentTCB s)" and l: "l \<in> E" and n: "n \<noteq> 0"
  shows "\<exists>s'. vTaskPlaceOnEventList l n s = Some s' \<and> live_ok E s' \<and>
    at s' = (at s)(event_item (pxCurrentTCB s) := Some l,
                   state_item (pxCurrentTCB s) := Some (blocked_list n True s)) \<and>
    remaining s' = (remaining s)(pxCurrentTCB s := (if n = portMAX_DELAY then None else Some (unat n))) \<and>
    now s' = now s \<and> uxSchedulerSuspended s' = uxSchedulerSuspended s \<and> xPendedTicks s' = xPendedTicks s \<and>
    uxPriority s' = uxPriority s \<and> pxCurrentTCB s' = pxCurrentTCB s \<and>
    uxCurrentNumberOfTasks s' = uxCurrentNumberOfTasks s"
proof -
  let ?t = "pxCurrentTCB s"
  from live have c: "core_ok E s" by (simp add: live_ok_def base_core)
  have "at s (state_item ?t) = Some (unat (uxPriority s ?t))" using ready_at [OF core_linked(2) [OF c] r] .
  note b = task_items [OF c this]
  from insert_moves [OF core_linked(1) [OF c] ready_no_event [OF c r] _ b(1,2), of l] l obtain s1 where
    1: "insert_sorted l (event_item ?t) s = Some s1"
      "kept_linked ({0..9} \<union> E) s ((at s)(event_item ?t := Some l)) (uxTopReadyPriority s) s1" by blast
  then have rel: "relinked s s1" and at1: "at s1 = (at s)(event_item ?t := Some l)" by (simp_all add: kept_linked_def)
  note f1 = relinked_fields [OF rel]
  from block_run [OF may_block_event [OF live r l 1(2)] n, of True] obtain s' where
    s': "prvAddCurrentTaskToDelayedList n True s1 = Some s'" "live_ok E s'" "blocked_state ({0..9} \<union> E) n True s1 s'"
      "remaining s' = (remaining s1)(pxCurrentTCB s1 := (if n = portMAX_DELAY then None else Some (unat n)))" by auto
  note f = blocked_fields [OF s'(3)]
  have "remaining s1 = remaining s" by (simp add: remaining_def at1 f1 fun_eq_iff)
  with 1(1) s' show ?thesis
    by (simp add: vTaskPlaceOnEventList_def f f1 blocked_at [OF s'(3)] at1 blocked_list_def)
qed

lemma block_on_run:
  assumes ok: "steady E i s" and sus: "uxSchedulerSuspended s = 1" and cur: "pxCurrentTCB s \<noteq> i"
    and l: "l \<in> E" and n: "n \<noteq> 0"
  shows "\<exists>s1 s'. vTaskPlaceOnEventList l n s = Some s1 \<and> block_on l n s = Some s' \<and> steady E i s' \<and> yield_requested s' \<and>
    at s1 = (at s)(event_item (pxCurrentTCB s) := Some l, state_item (pxCurrentTCB s) := Some (blocked_list n True s)) \<and>
    remaining s1 = (remaining s)(pxCurrentTCB s := (if n = portMAX_DELAY then None else Some (unat n))) \<and>
    at s' = awake (resumed s1) s1 \<and> now s' = now s + xPendedTicks s \<and>
    (\<forall>t. remaining s' t = (if pending s t then None else less_by (unat (xPendedTicks s)) (remaining s1 t))) \<and>
    uxSchedulerSuspended s' = 0 \<and> uxPriority s' = uxPriority s \<and> pxCurrentTCB s' = pxCurrentTCB s \<and>
    (\<forall>t. resumed s1 t \<longleftrightarrow> pending s t \<or> within (unat (xPendedTicks s)) s1 t)"
proof -
  note d = steadyD [OF ok]
  have "acting s" using sus by (simp add: acting_def)
  note r = d(7) [OF this]
  from place_run [OF d(1) r l n] obtain s1 where s1: "vTaskPlaceOnEventList l n s = Some s1" "live_ok E s1"
    "at s1 = (at s)(event_item (pxCurrentTCB s) := Some l, state_item (pxCurrentTCB s) := Some (blocked_list n True s))"
    "remaining s1 = (remaining s)(pxCurrentTCB s := (if n = portMAX_DELAY then None else Some (unat n)))"
    "now s1 = now s" "uxSchedulerSuspended s1 = uxSchedulerSuspended s" "xPendedTicks s1 = xPendedTicks s"
    "uxCurrentNumberOfTasks s1 = uxCurrentNumberOfTasks s" "uxPriority s1 = uxPriority s" "pxCurrentTCB s1 = pxCurrentTCB s" by blast
  have "ready s1 i" using d(4) cur by (auto simp: ready_def s1(3))
  from resume_and_yield [OF s1(2) this] sus d(5) obtain s' where
    s': "map_option yield_unless (xTaskResumeAll s1) = Some s'" "steady E i s'" "yield_requested s'"
      "at s' = awake (resumed s1) s1" "now s' = now s + xPendedTicks s"
      "\<And>t. remaining s' t = (if pending s1 t then None else less_by (unat (xPendedTicks s)) (remaining s1 t))"
      "uxSchedulerSuspended s' = 0" "uxPriority s' = uxPriority s" "pxCurrentTCB s' = pxCurrentTCB s"
    by (auto simp: s1(5-10))
  have "l \<noteq> 7" using core_linked(7) [OF d(2) l] by auto
  then have "pending s1 t \<longleftrightarrow> pending s t" for t
    using ready_no_event [OF d(2) r] by (auto simp: pending_def s1(3))
  with s1 s' show ?thesis by (intro exI [of _ s1] exI [of _ s']) (simp add: block_on_def resumed_def)
qed

section \<open>Being woken\<close>

text \<open>The caller asks for a switch when the task that was woken has a higher priority.\<close>

definition yield_if :: "bool \<times> sched \<Rightarrow> sched" where
  "yield_if r = (if fst r then portYIELD (snd r) else snd r)"

lemma live_yield [simp]: "live_ok E (portYIELD s) = live_ok E s"
  using core_fields [of "portYIELD s" s E]
  by (simp add: portYIELD_def live_ok_def base_core times_ok_def)

lemma yield_fields [simp]:
  "lists (portYIELD s) = lists s" "uxPriority (portYIELD s) = uxPriority s" "pxCurrentTCB (portYIELD s) = pxCurrentTCB s"
  "uxSchedulerSuspended (portYIELD s) = uxSchedulerSuspended s" "xPendedTicks (portYIELD s) = xPendedTicks s"
  "uxCurrentNumberOfTasks (portYIELD s) = uxCurrentNumberOfTasks s" "yield_requested (portYIELD s)"
  "xYieldPendings (portYIELD s) = xYieldPendings s" "clock (portYIELD s) = clock s" "remaining (portYIELD s) = remaining s"
  by (simp_all add: portYIELD_def remaining_def fun_eq_iff)

lemma wake_split: "wake t s = (uxPriority s t > uxPriority s (pxCurrentTCB s),
    if uxPriority s t > uxPriority s (pxCurrentTCB s) then s\<lparr>xYieldPendings := True\<rparr> else s)"
  by (simp add: wake_def)

text \<open>
  The task at the head of an event list is made ready, or marked as pending when the scheduler is
  suspended. It waits for nothing any more.
\<close>

lemma event_head:
  assumes c: "core_ok E s" and l: "l \<in> E" and j: "at s j = Some l"
  obtains t where "listGET_OWNER_OF_HEAD_ENTRY l (lists s) = t" "at s (event_item t) = Some l" "t \<noteq> 0"
    "at s (state_item t) \<in> {Some 5, Some 6, Some 9}" "1 < event_item t" "event_item t < 2 ^ 32"
proof -
  note core = core_linked [OF c]
  have l9: "9 < l" using core(7) [OF l] .
  from linked_head [OF core(1) _ j] l obtain h where h: "pxNext (lists s) (End l) = Item h" "at s h = Some l" by blast
  have "h \<noteq> state_item u" for u using core(2) h(2) l9 unfolding placed_ok_def by force
  with item_cases [of h] obtain t where t: "h = event_item t" by blast
  have e: "at s (event_item t) = Some l" using h(2) t by simp
  moreover have st: "at s (state_item t) \<in> {Some 5, Some 6, Some 9}" using core(2) e unfolding placed_ok_def by blast
  moreover have "t \<noteq> 0" using core(6) [OF e] by (auto simp: event_item_def)
  moreover have "pvOwner (lists s) (Item (event_item t)) = t" using st core(9) [of t] by auto
  ultimately show ?thesis using that h(1) core(6) [OF e] by (simp add: listGET_OWNER_OF_HEAD_ENTRY_def t)
qed

text \<open>A task marked as pending: nothing changes but the list its event item is on.\<close>

lemma pend_run:
  assumes ok: "steady E i s" and sus: "uxSchedulerSuspended s \<noteq> 0" and st: "at s (state_item t) \<in> {Some 5, Some 6, Some 9}"
    and k: "kept_linked ({0..9} \<union> E) s ((at s)(event_item t := None)) (uxTopReadyPriority s) s1"
  shows "steady E i (on_lists (vListInsertEnd xPendingReadyList (event_item t)) s1 \<lparr>xYieldPendings := xYieldPendings s \<or> y\<rparr>)"
    "at (on_lists (vListInsertEnd xPendingReadyList (event_item t)) s1) = (at s)(event_item t := Some 7)"
    "relinked s (on_lists (vListInsertEnd xPendingReadyList (event_item t)) s1)"
proof -
  note d = steadyD [OF ok] let ?s = "on_lists (vListInsertEnd xPendingReadyList (event_item t)) s1"
  let ?L = "{0..9} \<union> E"
  from st obtain k where "at s (state_item t) = Some k" by auto
  note b = task_items [OF d(2) this]
  have "kept_linked ?L s1 ((at s1)(event_item t := Some 7)) (uxTopReadyPriority s1) ?s"
    using k b(1,2) by (intro insert_end_moves) (auto simp: kept_linked_def)
  from kept_linked_trans [OF k this] k
  have k': "kept_linked ?L s ((at s)(event_item t := Some 7)) (uxTopReadyPriority s) ?s" by (simp add: kept_linked_def)
  then show at': "at ?s = (at s)(event_item t := Some 7)" and r: "relinked s ?s" by (simp_all add: kept_linked_def)
  note f = relinked_fields [OF r]
  have "placed_ok E (uxPriority s) ((at s)(event_item t := Some 7))"
    using core_linked(2) [OF d(2)] st unfolding placed_ok_def by auto
  with core_relinked [OF d(2) k'] core_linked(3,10) [OF d(2)] have "core_ok E ?s" by simp
  moreover have "times_ok ?s" using d(3) times_two [OF d(3)] by (auto simp: times_ok_def two_lists_def f at')
  ultimately have live: "live_ok E ?s" using d(9,10) by (simp add: live_ok_def base_core f at')
  have rd: "ready (?s\<lparr>xYieldPendings := y'\<rparr>) u = ready s u" for u y' by (simp add: ready_def at')
  show "steady E i (?s\<lparr>xYieldPendings := xYieldPendings s \<or> y\<rparr>)"
    using live d sus by (auto simp: steady_def rd f all_moved_def acting_def preempting_def top_ready_def)
qed

text \<open>One task was made ready; what the caller does about a switch is in \<open>z\<close>.\<close>

lemma steady_one_woken:
  assumes ok: "steady E i s" and core: "core_ok E s1"
    and k: "kept_linked ({0..9} \<union> E) s (made_ready t s) rdy s1"
    and z: "z = (if uxPriority s t > uxPriority s (pxCurrentTCB s) then portYIELD (s1\<lparr>xYieldPendings := y\<rparr>) else s1)"
    and y: "y \<or> \<not> xYieldPendings s"
  shows "steady E i z" "at z = awake (\<lambda>u. u = t) s"
proof -
  from k have r: "relinked s s1" and at1: "at s1 = awake (\<lambda>u. u = t) s" by (simp_all add: kept_linked_def made_ready_awake)
  note f = relinked_fields [OF r]
  have "s\<lparr>xYieldPendings := xYieldPendings s\<rparr> = s" by (cases s) simp
  then have "live_ok E s1" using live_awake(2) [OF steadyD(1) [OF ok] core at1] r by (simp add: f)
  then have live: "live_ok E z" by (simp add: z)
  show atz: "at z = awake (\<lambda>u. u = t) s" by (simp add: z at1)
  show "steady E i z"
  proof (rule steady_woken [OF ok live atz])
    show "xPendedTicks z = 0 \<and> (\<forall>u. pending s u \<longrightarrow> u = t)" if "uxSchedulerSuspended z = 0"
      using that steadyD(6) [OF ok] by (auto simp: all_moved_def z f split: if_splits)
    show "acting s" if "acting z" using that by (auto simp: acting_def z f split: if_splits)
    show "yield_requested z \<or> xYieldPendings z"
      if "yield_requested s \<or> xYieldPendings s \<or> (\<exists>u. u = t \<and> uxPriority s (pxCurrentTCB s) < uxPriority s u)"
      using that by (auto simp: z f)
  qed (simp_all add: z f)
qed

lemma signal_ready_run:
  assumes ok: "steady E i s" and run: "uxSchedulerSuspended s = 0" and l: "l \<in> E" and j: "at s j = Some l"
  shows "\<exists>t s'. listGET_OWNER_OF_HEAD_ENTRY l (lists s) = t \<and> at s (event_item t) = Some l \<and>
    map_option yield_if (xTaskRemoveFromEventList l s) = Some s' \<and> steady E i s' \<and> at s' = awake (\<lambda>u. u = t) s"
proof -
  note d = steadyD [OF ok]
  from event_head [OF d(2) l j] obtain t where t: "listGET_OWNER_OF_HEAD_ENTRY l (lists s) = t"
    "at s (event_item t) = Some l" "t \<noteq> 0" by blast
  from release_run [OF d(2) t(2)] obtain s1 s2 where
    rm: "listREMOVE_ITEM (event_item t) s = Some s1" "listREMOVE_ITEM (state_item t) s1 = Some s2" "relinked s s1"
    and core: "core_ok E (prvAddTaskToReadyList t s2)"
    and k: "kept_linked ({0..9} \<union> E) s (made_ready t s) (uxTopReadyPriority s OR push_bit (unat (uxPriority s t)) 1)
      (prvAddTaskToReadyList t s2)" .
  define s3 where "s3 = prvAddTaskToReadyList t s2"
  have f: "uxPriority s3 = uxPriority s" "pxCurrentTCB s3 = pxCurrentTCB s"
    using relinked_fields [of s s3] k by (simp_all add: kept_linked_def s3_def)
  have "xTaskRemoveFromEventList l s = Some (wake t s3)"
    using t(1,3) rm run relinked_fields(10) [OF rm(3)] by (simp add: xTaskRemoveFromEventList_def s3_def)
  then have e: "map_option yield_if (xTaskRemoveFromEventList l s) = Some (yield_if (wake t s3))" by simp
  have "yield_if (wake t s3) = (if uxPriority s t > uxPriority s (pxCurrentTCB s)
      then portYIELD (s3\<lparr>xYieldPendings := True\<rparr>) else s3)"
    by (simp add: yield_if_def wake_split f)
  from steady_one_woken [OF ok core k this [unfolded s3_def]] e t show ?thesis
    by (intro exI [of _ t] exI [of _ "yield_if (wake t s3)"]) (simp add: s3_def)
qed

lemma signal_pending_run:
  assumes ok: "steady E i s" and sus: "uxSchedulerSuspended s \<noteq> 0" and l: "l \<in> E" and j: "at s j = Some l"
  shows "\<exists>t s'. listGET_OWNER_OF_HEAD_ENTRY l (lists s) = t \<and> at s (event_item t) = Some l \<and>
    map_option yield_if (xTaskRemoveFromEventList l s) = Some s' \<and> steady E i s' \<and>
    at s' = (at s)(event_item t := Some xPendingReadyList)"
proof -
  note d = steadyD [OF ok]
  from event_head [OF d(2) l j] obtain t where t: "listGET_OWNER_OF_HEAD_ENTRY l (lists s) = t"
    "at s (event_item t) = Some l" "t \<noteq> 0" "at s (state_item t) \<in> {Some 5, Some 6, Some 9}" by blast
  from REMOVE_moves [OF core_linked(1) [OF d(2)] t(2)] obtain s1 where
    1: "listREMOVE_ITEM (event_item t) s = Some s1"
      "kept_linked ({0..9} \<union> E) s ((at s)(event_item t := None)) (uxTopReadyPriority s) s1" .
  define s2 where "s2 = on_lists (vListInsertEnd xPendingReadyList (event_item t)) s1"
  have sus1: "uxSchedulerSuspended s1 \<noteq> 0" using 1(2) sus relinked_fields(10) [of s s1] by (simp add: kept_linked_def)
  note p = pend_run [OF ok sus t(4) 1(2), folded s2_def]
  note f = relinked_fields [OF p(3)]
  let ?y = "uxPriority s t > uxPriority s (pxCurrentTCB s)"
  have e: "xTaskRemoveFromEventList l s = Some (wake t s2)"
    using t(1,3) 1(1) sus1 by (simp add: xTaskRemoveFromEventList_def s2_def)
  have "s2\<lparr>xYieldPendings := xYieldPendings s\<rparr> = s2" by (cases s2) (use f in simp)
  then have "steady E i s2" using p(1) [of False] by simp
  moreover have "steady E i (portYIELD (s2\<lparr>xYieldPendings := True\<rparr>))" using steady_yield [OF p(1) [of True]] by simp
  ultimately have "steady E i (yield_if (wake t s2))" by (simp add: yield_if_def wake_split)
  moreover have "at (yield_if (wake t s2)) = (at s)(event_item t := Some 7)" by (simp add: yield_if_def wake_split p(2))
  ultimately show ?thesis using t e by simp
qed

section \<open>Suspended tasks\<close>

lemma suspended_ready_run:
  assumes ok: "steady E i s" and s: "prvTaskIsTaskSuspended t s"
  shows "\<exists>s1. listREMOVE_ITEM (state_item t) s = Some s1 \<and> core_ok E (prvAddTaskToReadyList t s1) \<and>
    kept_linked ({0..9} \<union> E) s (made_ready t s) (uxTopReadyPriority s OR push_bit (unat (uxPriority s t)) 1)
      (prvAddTaskToReadyList t s1)"
proof -
  note d = steadyD [OF ok]
  from s have st: "at s (state_item t) = Some 9" "at s (event_item t) = None"
    by (simp_all add: prvTaskIsTaskSuspended_def contained_in_def)
  from REMOVE_moves [OF core_linked(1) [OF d(2)] st(1)] obtain s1 where
    1: "listREMOVE_ITEM (state_item t) s = Some s1"
      "kept_linked ({0..9} \<union> E) s ((at s)(state_item t := None)) (uxTopReadyPriority s) s1" .
  then have "contained_in (event_item t) None s1" using st(2) by (simp add: contained_in_def kept_linked_def)
  then have "unblock_task t s = Some (prvAddTaskToReadyList t s1)" by (simp add: unblock_task_def 1(1))
  with unblock_task_run [OF d(2) st(1)] 1(1) show ?thesis by auto
qed

lemma suspended_item: "steady E i s \<Longrightarrow> prvTaskIsTaskSuspended t s \<Longrightarrow> t \<noteq> 0"
  using task_items(5) [OF steadyD(2)] unfolding prvTaskIsTaskSuspended_def contained_in_def by blast

lemma vTaskResume_run:
  assumes ok: "steady E i s" and t: "t \<noteq> 0"
  shows "\<exists>s'. vTaskResume t s = Some s' \<and> steady E i s' \<and>
    at s' = (if t \<noteq> pxCurrentTCB s \<and> prvTaskIsTaskSuspended t s then awake (\<lambda>u. u = t) s else at s)"
proof (cases "t \<noteq> pxCurrentTCB s \<and> prvTaskIsTaskSuspended t s")
  case False
  with ok t show ?thesis by (auto simp: vTaskResume_def)
next
  case True
  from suspended_ready_run [OF ok] True obtain s1 where
    1: "listREMOVE_ITEM (state_item t) s = Some s1" "core_ok E (prvAddTaskToReadyList t s1)"
      "kept_linked ({0..9} \<union> E) s (made_ready t s) (uxTopReadyPriority s OR push_bit (unat (uxPriority s t)) 1)
        (prvAddTaskToReadyList t s1)" by blast
  define s2 where "s2 = prvAddTaskToReadyList t s1"
  from 1(3) have r: "relinked s s2" by (simp add: kept_linked_def s2_def)
  note f = relinked_fields [OF r]
  have same: "s2\<lparr>xYieldPendings := xYieldPendings s\<rparr> = s2" by (cases s2) (use f in simp)
  have z: "taskYIELD_ANY_CORE_IF_USING_PREEMPTION t s2 = (if uxPriority s t > uxPriority s (pxCurrentTCB s)
      then portYIELD (s2\<lparr>xYieldPendings := xYieldPendings s\<rparr>) else s2)"
    unfolding same by (simp add: taskYIELD_ANY_CORE_IF_USING_PREEMPTION_def f)
  from steady_one_woken [OF ok 1(2,3) z [unfolded s2_def]] True 1(1) t show ?thesis
    by (simp add: vTaskResume_def s2_def)
qed

lemma xTaskResumeFromISR_run:
  assumes ok: "steady E i s" and t: "t \<noteq> 0"
  shows "\<exists>s'. map_option yield_if (xTaskResumeFromISR t s) = Some s' \<and> steady E i s' \<and>
    at s' = (if \<not> prvTaskIsTaskSuspended t s then at s
             else if uxSchedulerSuspended s = 0 then awake (\<lambda>u. u = t) s
             else (at s)(event_item t := Some xPendingReadyList))"
proof (cases "prvTaskIsTaskSuspended t s")
  case False
  with ok t show ?thesis by (auto simp: xTaskResumeFromISR_def yield_if_def)
next
  case True
  note d = steadyD [OF ok]
  show ?thesis
  proof (cases "uxSchedulerSuspended s = 0")
    case False
    from True have st: "at s (state_item t) \<in> {Some 5, Some 6, Some 9}" "at s (event_item t) = None"
      by (auto simp: prvTaskIsTaskSuspended_def contained_in_def)
    have "(at s)(event_item t := None) = at s" using st(2) by auto
    then have k: "kept_linked ({0..9} \<union> E) s ((at s)(event_item t := None)) (uxTopReadyPriority s) s"
      using core_linked(1) [OF d(2)] by (simp add: kept_linked_def)
    note p = pend_run [OF ok False st(1) k]
    note f = relinked_fields [OF p(3)]
    let ?s = "on_lists (vListInsertEnd xPendingReadyList (event_item t)) s"
    have "?s\<lparr>xYieldPendings := xYieldPendings s\<rparr> = ?s" by (simp add: on_lists_def)
    with p(1) [of False] p(2) True False t show ?thesis by (simp add: xTaskResumeFromISR_def yield_if_def)
  next
    case run: True
    let ?y = "uxPriority s t > uxPriority s (pxCurrentTCB s)"
    define s0 where "s0 = snd (wake t s)"
    have s0: "s0 = s\<lparr>xYieldPendings := xYieldPendings s \<or> ?y\<rparr>" by (simp add: s0_def wake_split)
    from suspended_ready_run [OF ok True] obtain s1 where
      1: "listREMOVE_ITEM (state_item t) s = Some s1" "core_ok E (prvAddTaskToReadyList t s1)"
        "kept_linked ({0..9} \<union> E) s (made_ready t s) (uxTopReadyPriority s OR push_bit (unat (uxPriority s t)) 1)
          (prvAddTaskToReadyList t s1)" by blast
    define s2 where "s2 = prvAddTaskToReadyList t s1"
    from 1(3) have r: "relinked s s2" by (simp add: kept_linked_def s2_def)
    note f = relinked_fields [OF r]
    have same: "s2\<lparr>xYieldPendings := xYieldPendings s\<rparr> = s2" by (cases s2) (use f in simp)
    have "listREMOVE_ITEM (state_item t) s0 = Some (s1\<lparr>xYieldPendings := xYieldPendings s \<or> ?y\<rparr>)"
      using 1(1) by (auto simp: listREMOVE_ITEM_def remove_item_def s0)
    moreover have "prvAddTaskToReadyList t (s1\<lparr>xYieldPendings := v\<rparr>) = s2\<lparr>xYieldPendings := v\<rparr>" for v
      by (simp add: prvAddTaskToReadyList_def s2_def on_lists_def portRECORD_READY_PRIORITY_def)
    ultimately have e: "xTaskResumeFromISR t s = Some (?y, s2\<lparr>xYieldPendings := xYieldPendings s \<or> ?y\<rparr>)"
      using True run t by (simp add: xTaskResumeFromISR_def s0_def wake_split)
    have z: "yield_if (?y, s2\<lparr>xYieldPendings := xYieldPendings s \<or> ?y\<rparr>) =
        (if ?y then portYIELD (s2\<lparr>xYieldPendings := True\<rparr>) else s2)"
      using same by (simp add: yield_if_def)
    from steady_one_woken [OF ok 1(2,3) z [unfolded s2_def]] True run e show ?thesis by (simp add: s2_def)
  qed
qed

end
