(* ===== verification/Rtos_Priorities.thy ===== *)
theory Rtos_Priorities
  imports Rtos_Events
begin

text \<open>
  Suspending a task, changing its priority, and the inheritance of priorities through mutexes keep
  the invariant.
\<close>

section \<open>Leaving the lists\<close>

lemma event_high:
  assumes "core_ok E s" "at s (event_item u) = Some l"
  shows "7 \<le> l"
  using assms core_linked(2,7) [OF assms(1)] unfolding placed_ok_def by fastforce

lemma bits_clear:
  assumes "bits_ok rdy w" "\<And>u. w (state_item u) \<noteq> Some p"
  shows "bits_ok (rdy AND NOT (push_bit p 1)) w"
  unfolding bits_ok_def
proof (intro allI impI)
  fix q :: nat assume q: "q < 32"
  show "bit (rdy AND NOT (push_bit p 1)) q \<longleftrightarrow> q < 5 \<and> (\<exists>u. w (state_item u) = Some q)"
    using assms q unfolding bits_ok_def bit_and_iff bit_not_iff bit_single [OF q] by auto
qed

lemma state_only:
  assumes "\<And>u. w (event_item u) \<noteq> x"
  shows "(\<forall>j. w j \<noteq> x) \<longleftrightarrow> (\<forall>u. w (state_item u) \<noteq> x)"
  using assms item_cases by metis

lemma leave_any:
  assumes ok: "core_ok E s" and at: "at s (state_item t) = Some d"
  obtains n s1 rdy where "remove_item (state_item t) s = Some (n, s1)"
    "kept_linked ({0..9} \<union> E) s ((at s)(state_item t := None)) rdy
       (if n = 0 then taskRESET_READY_PRIORITY (uxPriority s t) s1 else s1)"
    "bits_ok rdy ((at s)(state_item t := None))"
proof -
  let ?L = "{0..9} \<union> E" let ?w = "(at s)(state_item t := None)" let ?p = "unat (uxPriority s t)"
  note core = core_linked [OF ok]
  from remove_moves [OF core(1) at] obtain n s1 where 1: "remove_item (state_item t) s = Some (n, s1)"
    "kept_linked ?L s ?w (uxTopReadyPriority s) s1" "n = 0 \<longleftrightarrow> (\<forall>j. at s1 j \<noteq> Some d)" .
  then have lk: "linked (lists s1) ?L" and at1: "at s1 = ?w" and rdy: "uxTopReadyPriority s1 = uxTopReadyPriority s"
    by (simp_all add: kept_linked_def)
  have "?p \<in> ?L" using core(5) [of t] by simp
  from linked_empty [OF lk this] have empty: "uxNumberOfItems (lists s1) ?p = 0 \<longleftrightarrow> (\<forall>j. at s1 j \<noteq> Some ?p)" .
  have ev: "at s (event_item u) \<noteq> Some ?p" for u using event_high [OF ok, of u] core(5) [of t] by fastforce
  have none: "(\<forall>j. at s1 j \<noteq> Some ?p) \<longleftrightarrow> (\<forall>u. ?w (state_item u) \<noteq> Some ?p)"
    unfolding at1 by (rule state_only) (simp add: ev)
  define rdy' where "rdy' = (if n = 0 \<and> (\<forall>u. ?w (state_item u) \<noteq> Some ?p)
      then uxTopReadyPriority s AND NOT (push_bit ?p 1) else uxTopReadyPriority s)"
  have "kept_linked ?L s1 (at s1) rdy' (if n = 0 then taskRESET_READY_PRIORITY (uxPriority s t) s1 else s1)"
    using reset_moves [OF lk, of "uxPriority s t"] lk empty none
    by (auto simp: taskRESET_READY_PRIORITY_def pxReadyTasksLists_def rdy'_def rdy kept_linked_def)
  from kept_linked_trans [OF 1(2) this]
  have k: "kept_linked ?L s ?w rdy' (if n = 0 then taskRESET_READY_PRIORITY (uxPriority s t) s1 else s1)" by (simp add: at1)
  have "bits_ok rdy' ?w"
  proof (cases "d < 5")
    case True
    then have d: "d = ?p" using core(2) at unfolding placed_ok_def by force
    have "n = 0 \<longleftrightarrow> (\<forall>u. ?w (state_item u) \<noteq> Some ?p)" using 1(3) none by (simp add: d)
    moreover have "(\<forall>u. ?w (state_item u) \<noteq> Some ?p) \<longleftrightarrow> (\<forall>u. u \<noteq> t \<longrightarrow> at s (state_item u) \<noteq> Some ?p)" by auto
    ultimately have "rdy' = (if \<forall>u. u \<noteq> t \<longrightarrow> at s (state_item u) \<noteq> Some ?p
        then uxTopReadyPriority s AND NOT (push_bit ?p 1) else uxTopReadyPriority s)" by (simp add: rdy'_def)
    with bits_leave [OF core(3) at [unfolded d] core(5)] show ?thesis by blast
  next
    case False
    then have "bits_ok (uxTopReadyPriority s) ?w" using at by (intro bits_move [OF core(3)]) auto
    with bits_clear show ?thesis by (auto simp: rdy'_def)
  qed
  with that 1(1) k show ?thesis .
qed

section \<open>Suspending a task\<close>

text \<open>A task that is put aside is on the list of suspended tasks or the one of deleted tasks.\<close>

lemma placed_aside:
  assumes "placed_ok E prio w" "l \<in> {8, 9}"
  shows "placed_ok E prio (w(state_item t := Some l, event_item t := None))"
  using assms unfolding placed_ok_def by auto

lemma bits_aside: "bits_ok rdy (w(state_item t := None)) \<Longrightarrow> l \<in> {8, 9} \<Longrightarrow> bits_ok rdy (w(state_item t := Some l))"
  unfolding bits_ok_def on_list_update by auto

text \<open>
  The first part of \<open>vTaskSuspend\<close> and \<open>vTaskDelete\<close>: the task is taken off the lists. Then it is put on
  another one.
\<close>

definition off_lists :: "nat \<Rightarrow> sched \<Rightarrow> sched option" where
  "off_lists t s = do {
     (n, s) \<leftarrow> remove_item (state_item t) s;
     let s = (if n = 0 then taskRESET_READY_PRIORITY (uxPriority s t) s else s);
     if \<not> contained_in (event_item t) None s then listREMOVE_ITEM (event_item t) s else Some s
   }"

definition set_aside :: "nat \<Rightarrow> nat \<Rightarrow> sched \<Rightarrow> sched option" where
  "set_aside l t s = Option.bind (off_lists t s) (\<lambda>s. Some (on_lists (vListInsertEnd l (state_item t)) s))"

lemma off_lists_run:
  assumes ok: "core_ok E s" and at: "at s (state_item t) = Some d"
  obtains s' rdy where "off_lists t s = Some s'" "bits_ok rdy ((at s)(state_item t := None))"
    "kept_linked ({0..9} \<union> E) s ((at s)(state_item t := None, event_item t := None)) rdy s'"
proof -
  let ?L = "{0..9} \<union> E"
  from leave_any [OF ok at] obtain n s1 rdy where 1: "remove_item (state_item t) s = Some (n, s1)"
    "kept_linked ?L s ((at s)(state_item t := None)) rdy
       (if n = 0 then taskRESET_READY_PRIORITY (uxPriority s t) s1 else s1)"
    "bits_ok rdy ((at s)(state_item t := None))" .
  from 1(1) have pr: "uxPriority s1 = uxPriority s"
    by (auto simp: remove_item_def)
  define s2 where "s2 = (if n = 0 then taskRESET_READY_PRIORITY (uxPriority s t) s1 else s1)"
  have k2: "kept_linked ?L s ((at s)(state_item t := None)) rdy s2" using 1(2) by (simp add: s2_def)
  then have "linked (lists s2) ?L" by (simp add: kept_linked_def)
  from event_leaves [OF this, of t] obtain s3 where
    3: "(if \<not> contained_in (event_item t) None s2 then listREMOVE_ITEM (event_item t) s2 else Some s2) = Some s3"
      "kept_linked ?L s2 ((at s2)(event_item t := None)) (uxTopReadyPriority s2) s3" .
  from kept_linked_trans [OF k2 3(2)] k2
  have "kept_linked ?L s ((at s)(state_item t := None, event_item t := None)) rdy s3" by (simp add: kept_linked_def)
  moreover have "off_lists t s = Some s3"
    unfolding off_lists_def 1(1) Option.bind.bind_lunit case_prod_conv Let_def pr s2_def [symmetric] 3(1) ..
  ultimately show ?thesis using that 1(3) by blast
qed

lemma set_aside_run:
  assumes ok: "core_ok E s" and at: "at s (state_item t) = Some d" and l: "l \<in> {8, 9}"
  obtains s' rdy where "set_aside l t s = Some s'" "core_ok E s'"
    "kept_linked ({0..9} \<union> E) s ((at s)(state_item t := Some l, event_item t := None)) rdy s'"
proof -
  let ?L = "{0..9} \<union> E"
  note core = core_linked [OF ok]
  from off_lists_run [OF ok at] obtain s3 rdy where 3: "off_lists t s = Some s3" "bits_ok rdy ((at s)(state_item t := None))"
    "kept_linked ?L s ((at s)(state_item t := None, event_item t := None)) rdy s3" .
  let ?s4 = "on_lists (vListInsertEnd l (state_item t)) s3"
  have "kept_linked ?L s3 ((at s3)(state_item t := Some l)) (uxTopReadyPriority s3) ?s4"
    using 3(3) core(6) [OF at] l by (intro insert_end_moves) (auto simp: kept_linked_def)
  from kept_linked_trans [OF 3(3) this] 3(3)
  have k4: "kept_linked ?L s ((at s)(state_item t := Some l, event_item t := None)) rdy ?s4"
    by (simp add: kept_linked_def fun_upd_twist)
  have "bits_ok rdy ((at s)(state_item t := Some l, event_item t := None))" using bits_aside [OF 3(2) l] by simp
  moreover have "owned (pvOwner (lists s)) ((at s)(state_item t := Some l, event_item t := None))"
    using owned_state [OF core(10)] at by simp
  ultimately have "core_ok E ?s4" by (rule core_relinked [OF ok k4 placed_aside [OF core(2) l]])
  moreover have "set_aside l t s = Some ?s4" by (simp add: set_aside_def 3(1))
  ultimately show ?thesis using that k4 by blast
qed

lemma live_aside:
  assumes live: "live_ok E s" and core: "core_ok E s'" and r: "relinked s s'" and l: "l \<in> {8, 9}"
    and at': "at s' = (at s)(state_item t := Some l, event_item t := None)"
  shows "live_ok E s'" "remaining s' = (remaining s)(t := None)"
proof -
  note f = relinked_fields [OF r]
  from live have times: "times_ok s" and cur: "pxCurrentTCB s \<noteq> 0" "at s (state_item (pxCurrentTCB s)) \<noteq> None"
    by (auto simp: live_ok_def base_core)
  have "times_ok s'" using times times_two [OF times] l by (auto simp: times_ok_def two_lists_def f at')
  then show "live_ok E s'" using core cur by (simp add: live_ok_def base_core f at')
  show "remaining s' = (remaining s)(t := None)" using l by (auto simp: remaining_def at' f fun_eq_iff)
qed

lemma live_notify [simp]: "live_ok E (s\<lparr>ucNotifyState := v\<rparr>) = live_ok E s"
  using core_fields [of "s\<lparr>ucNotifyState := v\<rparr>" s E] by (simp add: live_ok_def base_core times_ok_def)

definition after_aside :: "nat \<Rightarrow> sched \<Rightarrow> sched option" where
  "after_aside t s =
     (let s = (if ucNotifyState s t = taskWAITING_NOTIFICATION
               then s\<lparr>ucNotifyState := (ucNotifyState s)(t := taskNOT_WAITING_NOTIFICATION)\<rparr> else s);
          s = (if xSchedulerRunning s then prvResetNextTaskUnblockTime s else s)
      in if t = pxCurrentTCB s
         then (if xSchedulerRunning s
               then (if uxSchedulerSuspended s \<noteq> 0 then None else Some (portYIELD s))
               else if uxNumberOfItems (lists s) xSuspendedTaskList = uxCurrentNumberOfTasks s
               then Some (s\<lparr>pxCurrentTCB := 0\<rparr>)
               else vTaskSwitchContext s)
         else Some s)"

lemma vTaskSuspend_split:
  "t = prvGetTCBFromHandle h s \<Longrightarrow> t \<noteq> 0 \<Longrightarrow> vTaskSuspend h s = Option.bind (set_aside 9 t s) (after_aside t)"
  unfolding vTaskSuspend_def set_aside_def off_lists_def after_aside_def
  by (simp add: Let_def bind_assoc case_prod_unfold cong: if_cong)

lemma after_aside_run:
  assumes live: "live_ok E s" and cur: "t = pxCurrentTCB s \<Longrightarrow> xSchedulerRunning s \<and> uxSchedulerSuspended s = 0"
  obtains s' where "after_aside t s = Some s'" "live_ok E s'" "lists s' = lists s" "uxPriority s' = uxPriority s"
    "pxCurrentTCB s' = pxCurrentTCB s" "uxSchedulerSuspended s' = uxSchedulerSuspended s"
    "xPendedTicks s' = xPendedTicks s" "xYieldPendings s' = xYieldPendings s"
    "uxCurrentNumberOfTasks s' = uxCurrentNumberOfTasks s"
    "yield_requested s' = (yield_requested s \<or> t = pxCurrentTCB s)"
proof -
  define s2 where "s2 = (if ucNotifyState s t = taskWAITING_NOTIFICATION
      then s\<lparr>ucNotifyState := (ucNotifyState s)(t := taskNOT_WAITING_NOTIFICATION)\<rparr> else s)"
  define s3 where "s3 = (if xSchedulerRunning s2 then prvResetNextTaskUnblockTime s2 else s2)"
  define s' where "s' = (if t = pxCurrentTCB s then portYIELD s3 else s3)"
  have f3: "lists s3 = lists s" "uxPriority s3 = uxPriority s" "pxCurrentTCB s3 = pxCurrentTCB s"
    "uxSchedulerSuspended s3 = uxSchedulerSuspended s" "xPendedTicks s3 = xPendedTicks s" "yield_requested s3 = yield_requested s"
    "xYieldPendings s3 = xYieldPendings s" "uxCurrentNumberOfTasks s3 = uxCurrentNumberOfTasks s"
    "xSchedulerRunning s3 = xSchedulerRunning s"
    by (simp_all add: s3_def s2_def)
  have "live_ok E s2" using live by (simp add: s2_def)
  then have "live_ok E s'" by (simp add: s'_def s3_def live_reset)
  moreover have "after_aside t s = Some s'"
    using cur unfolding after_aside_def Let_def s2_def [symmetric] s3_def [symmetric] by (simp add: f3 s'_def)
  ultimately show ?thesis using that by (simp add: s'_def f3)
qed

lemma vTaskSuspend_run:
  assumes ok: "steady E i s" and act: "acting s" and t: "t = prvGetTCBFromHandle h s" "t \<noteq> i" "at s (state_item t) \<noteq> None"
    and cur: "t = pxCurrentTCB s \<Longrightarrow> xSchedulerRunning s \<and> uxSchedulerSuspended s = 0"
  shows "\<exists>s'. vTaskSuspend h s = Some s' \<and> steady E i s' \<and>
    at s' = (at s)(state_item t := Some xSuspendedTaskList, event_item t := None)"
proof -
  note d = steadyD [OF ok]
  from t(3) obtain k where k: "at s (state_item t) = Some k" by blast
  have t0: "t \<noteq> 0" using task_items(5) [OF d(2) k] .
  have nine: "(9 :: nat) \<in> {8, 9}" by simp
  from set_aside_run [OF d(2) k nine] obtain s1 rdy where 1: "set_aside 9 t s = Some s1" "core_ok E s1"
    "kept_linked ({0..9} \<union> E) s ((at s)(state_item t := Some 9, event_item t := None)) rdy s1" .
  from 1(3) have r: "relinked s s1" and at1: "at s1 = (at s)(state_item t := Some 9, event_item t := None)"
    by (simp_all add: kept_linked_def)
  note f = relinked_fields [OF r]
  from after_aside_run [OF live_aside(1) [OF d(1) 1(2) r nine at1], of t] cur obtain s' where
    s': "after_aside t s1 = Some s'" "live_ok E s'" "lists s' = lists s1" "uxPriority s' = uxPriority s"
      "pxCurrentTCB s' = pxCurrentTCB s" "uxSchedulerSuspended s' = uxSchedulerSuspended s"
      "xPendedTicks s' = xPendedTicks s" "xYieldPendings s' = xYieldPendings s"
      "uxCurrentNumberOfTasks s' = uxCurrentNumberOfTasks s"
      "yield_requested s' = (yield_requested s \<or> t = pxCurrentTCB s)" unfolding f by metis
  have at': "at s' = (at s)(state_item t := Some 9, event_item t := None)" by (simp add: s'(3) at1)
  have rd: "ready s' u \<longleftrightarrow> u \<noteq> t \<and> ready s u" for u by (auto simp: ready_def at')
  have "pending s' u \<Longrightarrow> pending s u" for u by (auto simp: pending_def at' split: if_splits)
  then have "all_moved s'" using d(6) by (auto simp: all_moved_def s'(6,7))
  moreover have "preempting s'" using d(8) by (auto simp: preempting_def top_ready_def rd s')
  moreover have "acting s' \<longrightarrow> ready s' (pxCurrentTCB s')" using d(7) act cur by (auto simp: acting_def rd s')
  ultimately have "steady E i s'" using s'(2) d(4,5) t(2) by (simp add: steady_def rd s')
  with vTaskSuspend_split [OF t(1) t0] 1(1) s'(1) at' show ?thesis by simp
qed

section \<open>A new priority\<close>

text \<open>
  The state with a new priority \<open>p\<close> of task \<open>t\<close>, new base priorities, and a new value of its event
  item. A ready task is then moved to the list of its new priority.
\<close>

definition reprio :: "nat \<Rightarrow> u32 \<Rightarrow> (nat \<Rightarrow> u32) \<Rightarrow> u32 \<Rightarrow> sched \<Rightarrow> sched" where
  "reprio t p b v s = s\<lparr>uxPriority := (uxPriority s)(t := p), uxBasePriority := b,
     lists := (lists s)\<lparr>xItemValue := (xItemValue (lists s))(Item (event_item t) := v)\<rparr>\<rparr>"

lemma reprio_fields [simp]:
  "uxPriority (reprio t p b v s) = (uxPriority s)(t := p)" "uxBasePriority (reprio t p b v s) = b"
  "pxContainer (lists (reprio t p b v s)) = pxContainer (lists s)" "pvOwner (lists (reprio t p b v s)) = pvOwner (lists s)"
  "xItemValue (lists (reprio t p b v s)) = (xItemValue (lists s))(Item (event_item t) := v)"
  "pxCurrentTCB (reprio t p b v s) = pxCurrentTCB s" "clock (reprio t p b v s) = clock s"
  "uxTopReadyPriority (reprio t p b v s) = uxTopReadyPriority s" "xPendedTicks (reprio t p b v s) = xPendedTicks s"
  "pxDelayedTaskList (reprio t p b v s) = pxDelayedTaskList s"
  "pxOverflowDelayedTaskList (reprio t p b v s) = pxOverflowDelayedTaskList s"
  "xNextTaskUnblockTime (reprio t p b v s) = xNextTaskUnblockTime s" "xYieldPendings (reprio t p b v s) = xYieldPendings s"
  "uxSchedulerSuspended (reprio t p b v s) = uxSchedulerSuspended s" "yield_requested (reprio t p b v s) = yield_requested s"
  "uxCurrentNumberOfTasks (reprio t p b v s) = uxCurrentNumberOfTasks s" "uxMutexesHeld (reprio t p b v s) = uxMutexesHeld s"
  by (simp_all add: reprio_def)

lemma reprio_linked:
  assumes "core_ok E s"
  shows "linked (lists (reprio t p b v s)) ({0..9} \<union> E)"
proof -
  have "l \<notin> sorted_lists" if "at s (event_item t) = Some l" for l using event_high [OF assms that] by auto
  from linked_set_value [OF core_linked(1) [OF assms] this, where v = v] show ?thesis by (simp add: reprio_def)
qed

lemma core_reprio:
  assumes ok: "core_ok E s" and t: "\<not> ready s t" and p: "p < 5" and b: "\<And>u. b u \<le> ((uxPriority s)(t := p)) u"
  shows "core_ok E (reprio t p b v s)"
proof -
  have "placed_ok E ((uxPriority s)(t := p)) (at s)"
    using core_linked(2) [OF ok] t unfolding placed_ok_def ready_def by auto
  with ok b p reprio_linked [OF ok] show ?thesis
    by (simp add: core_ok_def lists_ok_def priorities_ok_def)
qed

lemma five_lists: "{0..4 :: nat} \<subseteq> {0..9} \<union> E"
  by auto

lemma reprio_move:
  assumes ok: "core_ok E s" and t: "ready s t" and p: "p < 5" and b: "\<And>u. b u \<le> ((uxPriority s)(t := p)) u"
  obtains n s1 s2 where "remove_item (state_item t) (reprio t p b v s) = Some (n, s1)"
    "s2 = prvAddTaskToReadyList t (if n = 0 then portRESET_READY_PRIORITY (uxPriority s t) s1 else s1)"
    "core_ok E s2" "relinked (reprio t p b v s) s2" "at s2 = (at s)(state_item t := Some (unat p))"
proof -
  let ?s = "reprio t p b v s" let ?L = "{0..9} \<union> E" let ?q = "unat (uxPriority s t)"
  note core = core_linked [OF ok] note lk = reprio_linked [OF ok, of t p b v]
  have q: "at s (state_item t) = Some ?q" using ready_at [OF core(2) t] .
  have five: "unat p < 5" using p by (simp add: word_less_nat_alt)
  from remove_moves [OF lk, of "state_item t" ?q] q obtain n s1 where 1: "remove_item (state_item t) ?s = Some (n, s1)"
    "kept_linked ?L ?s ((at s)(state_item t := None)) (uxTopReadyPriority s) s1" "n = 0 \<longleftrightarrow> (\<forall>j. at s1 j \<noteq> Some ?q)"
    by auto
  then have at1: "at s1 = (at s)(state_item t := None)" and lk1: "linked (lists s1) ?L" by (simp_all add: kept_linked_def)
  have ev: "at s (event_item u) \<noteq> Some ?q" for u using event_high [OF ok, of u] core(5) [of t] by fastforce
  have "(\<forall>j. at s1 j \<noteq> Some ?q) \<longleftrightarrow> (\<forall>u. at s1 (state_item u) \<noteq> Some ?q)"
    unfolding at1 by (rule state_only) (simp add: ev)
  then have n: "n = 0 \<longleftrightarrow> (\<forall>u. u \<noteq> t \<longrightarrow> at s (state_item u) \<noteq> Some ?q)"
    unfolding 1(3) by (auto simp: at1)
  define s2 where "s2 = (if n = 0 then portRESET_READY_PRIORITY (uxPriority s t) s1 else s1)"
  define rdy where "rdy = (if n = 0 then uxTopReadyPriority s AND NOT (push_bit ?q 1) else uxTopReadyPriority s)"
  have bits: "bits_ok rdy ((at s)(state_item t := None))"
    by (rule bits_leave [OF core(3) q core(5)]) (simp_all add: rdy_def n)
  have "kept_linked ?L s1 (at s1) rdy s2"
    using reset_moves [OF lk1, of "uxPriority s t"] lk1 1(2) by (simp add: s2_def rdy_def kept_linked_def)
  from kept_linked_trans [OF 1(2) this] have k2: "kept_linked ?L ?s ((at s)(state_item t := None)) rdy s2" by (simp add: at1)
  then have pr: "uxPriority s2 = (uxPriority s)(t := p)" using relinked_fields(1) [of ?s s2] by (simp add: kept_linked_def)
  let ?s3 = "prvAddTaskToReadyList t s2"
  have "kept_linked ?L s2 ((at s2)(state_item t := Some (unat p))) (uxTopReadyPriority s2 OR push_bit (unat p) 1) ?s3"
    using add_ready_moves [of s2 ?L t, OF _ _ five_lists] k2 p core(6) [OF q] by (simp add: kept_linked_def pr)
  from kept_linked_trans [OF k2 this] k2
  have k3: "kept_linked ?L ?s ((at s)(state_item t := Some (unat p))) (rdy OR push_bit (unat p) 1) ?s3"
    by (simp add: kept_linked_def)
  then have r: "relinked ?s ?s3" and at3: "at ?s3 = (at s)(state_item t := Some (unat p))" by (simp_all add: kept_linked_def)
  note f = relinked_fields [OF r]
  have "placed_ok E ((uxPriority s)(t := p)) (at ?s3)"
    using core(2) five ready_no_event [OF ok t] unfolding placed_ok_def at3 by (auto simp: q)
  moreover have "bits_ok (uxTopReadyPriority ?s3) (at ?s3)"
    using bits_add [OF bits five, of t] k3 unfolding kept_linked_def by (simp add: at3)
  ultimately have "core_ok E ?s3"
    using ok k3 b p owned_state [OF core(10), of t] q
    by (simp add: core_ok_def lists_ok_def priorities_ok_def f kept_linked_def)
  then show ?thesis using that [OF 1(1), of ?s3] r at3 by (simp add: s2_def)
qed

lemma steady_reprio:
  assumes ok: "steady E i s" and core: "core_ok E s'" and r: "relinked (reprio t p b v s) s'" and p: "p < 5"
    and at': "at s' = at s \<or> ready s t \<and> at s' = (at s)(state_item t := Some (unat p))"
    and y: "y \<or> t = pxCurrentTCB s \<and> uxPriority s t \<le> p \<or>
      t \<noteq> pxCurrentTCB s \<and> (p \<le> uxPriority s (pxCurrentTCB s) \<or> p \<le> uxPriority s t)"
  shows "steady E i (if y then portYIELD s' else s')" "remaining s' = remaining s" "now s' = now s"
proof -
  note d = steadyD [OF ok] note f = relinked_fields [OF r, simplified]
  have five: "unat p < 5" using p by (simp add: word_less_nat_alt)
  have other: "at s' j = at s j" if "j \<noteq> state_item t" for j using at' that by auto
  have same: "at s' j = Some l \<longleftrightarrow> at s j = Some l" if "5 \<le> l" for j l
    using at' that five by (cases "j = state_item t") (auto simp: ready_def)
  have rd: "ready s' u \<longleftrightarrow> ready s u" for u using at' five by (cases "u = t") (auto simp: ready_def)
  have vals: "item_value s' j = item_value s j" if "at s j \<in> {Some 5, Some 6}" for j
    using that event_high [OF d(2), of t] by (auto simp: f)
  note two = times_two [OF d(3)]
  have "times_ok s'"
    using two d(3) same [of "pxDelayedTaskList s"] same [of "pxOverflowDelayedTaskList s"] vals
    by (auto simp: times_ok_def two_lists_def f(4-6,9))
  moreover have "at s' (state_item (pxCurrentTCB s)) \<noteq> None" using d(10) at' by auto
  ultimately have live: "live_ok E s'" using core d(9) by (simp add: live_ok_def base_core f(3))
  have "remaining s' u = remaining s u" for u
  proof (cases "at s (state_item u) \<in> {Some 5, Some 6}")
    case True
    then show ?thesis using same [of 5] same [of 6] vals [OF True] by (auto simp: remaining_def f(6))
  next
    case False
    then show ?thesis using same [of 5 "state_item u"] same [of 6 "state_item u"] by (simp add: remaining_def)
  qed
  then show "remaining s' = remaining s" by blast
  show "now s' = now s" by (simp add: f)
  have "all_moved s'" using d(6) same [of 7] by (auto simp: all_moved_def pending_def f)
  moreover have "y \<or> preempting s'"
  proof (cases "y \<or> yield_requested s \<or> xYieldPendings s")
    case False
    with d(8) have top: "top_ready s (pxCurrentTCB s)" by (auto simp: preempting_def)
    have "uxPriority s' u \<le> uxPriority s' (pxCurrentTCB s)" if "ready s u" for u
      using top y False that by (auto simp: top_ready_def f(1))
    with top show ?thesis by (simp add: preempting_def top_ready_def rd f(3))
  qed (auto simp: preempting_def f)
  moreover have "acting s' \<longrightarrow> ready s' (pxCurrentTCB s')" using d(7) by (simp add: acting_def rd f)
  moreover have "ready s' i" using d(4) by (simp add: rd)
  moreover have "acting (portYIELD s') \<longrightarrow> ready s' (pxCurrentTCB s')" using d(7) by (simp add: acting_def rd f)
  ultimately show "steady E i (if y then portYIELD s' else s')"
    using live d(5) by (auto simp: steady_def f preempting_def all_moved_def pending_def ready_def)
qed

text \<open>The functions in terms of \<open>reprio\<close>.\<close>

definition event_value :: "nat \<Rightarrow> u32 \<Rightarrow> sched \<Rightarrow> u32" where
  "event_value t p s =
     (if listGET_LIST_ITEM_VALUE (event_item t) s AND taskEVENT_LIST_ITEM_VALUE_IN_USE = 0
      then configMAX_PRIORITIES - p else listGET_LIST_ITEM_VALUE (event_item t) s)"

lemma set_event_reprio:
  "set_event_value t p s = reprio t (uxPriority s t) (uxBasePriority s) (event_value t p s) s"
  by (simp add: set_event_value_def reprio_def event_value_def listSET_LIST_ITEM_VALUE_def on_lists_def
      listGET_LIST_ITEM_VALUE_def)

lemma set_priority_reprio: "set_priority t p (reprio t q b v s) = reprio t p b v s"
  by (simp add: set_priority_def reprio_def)

lemma remove_value:
  "uxListRemove i (m\<lparr>xItemValue := v\<rparr>) = map_option (\<lambda>(n, m). (n, m\<lparr>xItemValue := v\<rparr>)) (uxListRemove i m)"
  by (cases "pxContainer m i") (simp_all add: uxListRemove_def Let_def set_next_def set_previous_def)

lemma remove_vals: "uxListRemove i m = Some (n, m') \<Longrightarrow> xItemValue m' = xItemValue m"
  by (cases "pxContainer m i") (auto simp: uxListRemove_def Let_def set_next_def set_previous_def)

lemma remove_reprio:
  "remove_item j (reprio t p b v s) = map_option (\<lambda>(n, s). (n, reprio t p b v s)) (remove_item j s)"
proof (cases "uxListRemove j (lists s)")
  case None
  then show ?thesis by (simp add: remove_item_def reprio_def remove_value)
next
  case (Some r)
  then obtain n m where r: "uxListRemove j (lists s) = Some (n, m)" by (cases r) simp
  have "lists (reprio t p b v s) = (lists s)\<lparr>xItemValue := (xItemValue (lists s))(Item (event_item t) := v)\<rparr>"
    by (simp add: reprio_def)
  then have "remove_item j (reprio t p b v s) =
      Some (n, (reprio t p b v s)\<lparr>lists := m\<lparr>xItemValue := (xItemValue (lists s))(Item (event_item t) := v)\<rparr>\<rparr>)"
    by (simp only: remove_item_def remove_value r option.map prod.case)
  moreover have "reprio t p b v (s\<lparr>lists := m\<rparr>) =
      (reprio t p b v s)\<lparr>lists := m\<lparr>xItemValue := (xItemValue (lists s))(Item (event_item t) := v)\<rparr>\<rparr>"
    unfolding reprio_def using remove_vals [OF r] by simp
  moreover have "remove_item j s = Some (n, s\<lparr>lists := m\<rparr>)" by (simp add: remove_item_def r)
  ultimately show ?thesis by simp
qed

lemma reset_reprio:
  "portRESET_READY_PRIORITY q (reprio t p b v s) = reprio t p b v (portRESET_READY_PRIORITY q s)"
  by (simp add: portRESET_READY_PRIORITY_def reprio_def)

lemma contained_ready:
  assumes ok: "core_ok E s"
  shows "contained_in (state_item t) (Some (pxReadyTasksLists (uxPriority s t))) s \<longleftrightarrow> ready s t"
proof
  assume "contained_in (state_item t) (Some (pxReadyTasksLists (uxPriority s t))) s"
  then have "at s (state_item t) = Some (unat (uxPriority s t))" by (simp add: contained_in_def pxReadyTasksLists_def)
  with core_linked(5) [OF ok, of t] show "ready s t" by (simp add: ready_def)
next
  assume "ready s t"
  from ready_at [OF core_linked(2) [OF ok] this]
  show "contained_in (state_item t) (Some (pxReadyTasksLists (uxPriority s t))) s"
    by (simp add: contained_in_def pxReadyTasksLists_def)
qed

text \<open>
  A task whose priority is given: it is moved if it is ready, and the invariant holds for whoever
  asks for the switch as \<open>steady_reprio\<close> demands.
\<close>

lemma reprio_all:
  assumes ok: "steady E i s" and p: "p < 5" and b: "\<And>u. b u \<le> ((uxPriority s)(t := p)) u"
    and y: "y \<or> t = pxCurrentTCB s \<and> uxPriority s t \<le> p \<or>
      t \<noteq> pxCurrentTCB s \<and> (p \<le> uxPriority s (pxCurrentTCB s) \<or> p \<le> uxPriority s t)"
  obtains s' where
    "(if ready s t
      then Option.bind (remove_item (state_item t) s) (\<lambda>(n, s1). Some (prvAddTaskToReadyList t
        (reprio t p b v (if n = 0 then portRESET_READY_PRIORITY (uxPriority s t) s1 else s1))))
      else Some (reprio t p b v s)) = Some s'"
    "steady E i (if y then portYIELD s' else s')" "remaining s' = remaining s" "now s' = now s"
    "uxPriority s' = (uxPriority s)(t := p)" "uxBasePriority s' = b" "pxCurrentTCB s' = pxCurrentTCB s"
    "at s' = (if ready s t then (at s)(state_item t := Some (unat p)) else at s)"
proof (cases "ready s t")
  case True
  note d = steadyD [OF ok]
  from reprio_move [OF d(2) True p b, of v] obtain n s1 s2 where
    1: "remove_item (state_item t) (reprio t p b v s) = Some (n, s1)"
      "s2 = prvAddTaskToReadyList t (if n = 0 then portRESET_READY_PRIORITY (uxPriority s t) s1 else s1)"
      "core_ok E s2" "relinked (reprio t p b v s) s2" "at s2 = (at s)(state_item t := Some (unat p))" .
  from 1(1) obtain x where x: "remove_item (state_item t) s = Some (n, x)" "s1 = reprio t p b v x"
    by (auto simp: remove_reprio)
  note f = relinked_fields [OF 1(4), simplified]
  have "prvAddTaskToReadyList t (reprio t p b v (if n = 0 then portRESET_READY_PRIORITY (uxPriority s t) x else x)) = s2"
    by (simp add: 1(2) x(2) reset_reprio)
  with steady_reprio [OF ok 1(3,4) p _ y] True x(1) 1(5) show ?thesis by (intro that [of s2]) (simp_all add: f)
next
  case False
  note d = steadyD [OF ok]
  from steady_reprio [OF ok core_reprio [OF d(2) False p b] relinked_refl p _ y, of v] False
  show ?thesis by (intro that [of "reprio t p b v s"]) simp_all
qed

section \<open>Setting a priority\<close>

lemma vTaskPrioritySet_run:
  assumes ok: "steady E i s" and new: "new < 5" and t: "t = prvGetTCBFromHandle h s" "t \<noteq> 0"
  shows "\<exists>s'. vTaskPrioritySet h new s = Some s' \<and> steady E i s' \<and> remaining s' = remaining s \<and>
    uxBasePriority s' = (uxBasePriority s)(t := new) \<and>
    uxPriority s' = (uxPriority s)(t := if uxBasePriority s t = uxPriority s t \<or> new > uxPriority s t
       then new else uxPriority s t)"
proof (cases "uxBasePriority s t = new")
  case True
  have e: "vTaskPrioritySet h new s = Some s"
    using True new t(2) unfolding vTaskPrioritySet_def t(1) [symmetric] by simp
  have "(uxBasePriority s)(t := new) = uxBasePriority s" using True by auto
  moreover have "new \<le> uxPriority s t" using steadyD(2) [OF ok] True by (auto simp: core_ok_def priorities_ok_def)
  then have "(uxPriority s)(t := if uxBasePriority s t = uxPriority s t \<or> new > uxPriority s t
       then new else uxPriority s t) = uxPriority s" using True by auto
  ultimately show ?thesis using ok e by simp
next
  case False
  note d = steadyD [OF ok]
  define p where "p = (if uxBasePriority s t = uxPriority s t \<or> new > uxPriority s t then new else uxPriority s t)"
  define y where "y = (if new > uxBasePriority s t
      then t \<noteq> pxCurrentTCB s \<and> new > uxPriority s (pxCurrentTCB s) else t = pxCurrentTCB s)"
  let ?b = "(uxBasePriority s)(t := new)" and ?v = "event_value t new s"
  have base: "uxBasePriority s u \<le> uxPriority s u" "uxPriority s u < 5" for u
    using d(2) by (auto simp: core_ok_def priorities_ok_def)
  have p5: "p < 5" using new base(2) by (simp add: p_def)
  have b: "?b u \<le> ((uxPriority s)(t := p)) u" for u using base(1) by (auto simp: p_def not_less)
  have yy: "y \<or> t = pxCurrentTCB s \<and> uxPriority s t \<le> p \<or>
      t \<noteq> pxCurrentTCB s \<and> (p \<le> uxPriority s (pxCurrentTCB s) \<or> p \<le> uxPriority s t)"
    using base(1) [of t] False by (auto simp: y_def p_def not_less)
  from reprio_all [OF ok p5 b yy, of ?v] obtain s' where
    s': "(if ready s t
      then Option.bind (remove_item (state_item t) s) (\<lambda>(n, s1). Some (prvAddTaskToReadyList t
        (reprio t p ?b ?v (if n = 0 then portRESET_READY_PRIORITY (uxPriority s t) s1 else s1))))
      else Some (reprio t p ?b ?v s)) = Some s'"
      "steady E i (if y then portYIELD s' else s')" "remaining s' = remaining s" "now s' = now s"
      "uxPriority s' = (uxPriority s)(t := p)" "uxBasePriority s' = ?b" .
  have prep: "set_event_value t new ((if uxBasePriority s t = uxPriority s t \<or> new > uxPriority s t
      then set_priority t new s else s)\<lparr>uxBasePriority := (uxBasePriority s)(t := new)\<rparr>) = reprio t p ?b ?v s"
    by (auto simp: p_def set_event_value_def event_value_def reprio_def set_priority_def
        listSET_LIST_ITEM_VALUE_def on_lists_def listGET_LIST_ITEM_VALUE_def)
  have cont: "contained_in (state_item t) (Some (pxReadyTasksLists (uxPriority s t))) (reprio t p ?b ?v s) \<longleftrightarrow> ready s t"
    using contained_ready [OF d(2), of t] by (simp add: contained_in_def)
  have "vTaskPrioritySet h new s = Option.bind
      (if ready s t then Option.bind (remove_item (state_item t) (reprio t p ?b ?v s)) (\<lambda>(n, s1). Some (prvAddTaskToReadyList t
         (if n = 0 then portRESET_READY_PRIORITY (uxPriority s t) s1 else s1)))
       else Some (reprio t p ?b ?v s)) (\<lambda>s. Some (if y then portYIELD s else s))"
    using new t(2) False prep cont unfolding vTaskPrioritySet_def t(1) [symmetric]
    by (simp add: Let_def y_def if_distrib [of uxBasePriority] set_priority_def cong: if_cong)
  also have "\<dots> = Some (if y then portYIELD s' else s')"
  proof -
    have "Option.bind (remove_item (state_item t) (reprio t p ?b ?v s)) (\<lambda>(n, s1). Some (prvAddTaskToReadyList t
         (if n = 0 then portRESET_READY_PRIORITY (uxPriority s t) s1 else s1))) =
       Option.bind (remove_item (state_item t) s) (\<lambda>(n, s1). Some (prvAddTaskToReadyList t
        (reprio t p ?b ?v (if n = 0 then portRESET_READY_PRIORITY (uxPriority s t) s1 else s1))))"
      by (cases "remove_item (state_item t) s") (auto simp: remove_reprio reset_reprio)
    then show ?thesis using s'(1) by (simp only: Option.bind.bind_lunit)
  qed
  finally have "vTaskPrioritySet h new s = Some (if y then portYIELD s' else s')" .
  moreover have "uxBasePriority (portYIELD s') = uxBasePriority s'" by (simp add: portYIELD_def)
  ultimately show ?thesis using s'(2,3,5,6)
    by (intro exI [of _ "if y then portYIELD s' else s'"]) (simp add: p_def)
qed

section \<open>Inheritance\<close>

lemma steady_base:
  assumes "steady E i s"
  shows "uxBasePriority s u \<le> uxPriority s u" "uxPriority s u < 5"
  using steadyD(2) [OF assms] by (auto simp: core_ok_def priorities_ok_def)

lemma xTaskPriorityInherit_run:
  assumes ok: "steady E i s" and t: "t \<noteq> 0"
  shows "\<exists>s'. xTaskPriorityInherit t s = Some (uxBasePriority s t < uxPriority s (pxCurrentTCB s), s') \<and>
    steady E i s' \<and> remaining s' = remaining s \<and> uxBasePriority s' = uxBasePriority s \<and>
    uxPriority s' = (uxPriority s)(t := max (uxPriority s t) (uxPriority s (pxCurrentTCB s)))"
proof (cases "uxPriority s t < uxPriority s (pxCurrentTCB s)")
  case False
  then have "(uxPriority s)(t := max (uxPriority s t) (uxPriority s (pxCurrentTCB s))) = uxPriority s"
    by (auto simp: max_def)
  with False ok t show ?thesis by (simp add: xTaskPriorityInherit_def)
next
  case True
  note d = steadyD [OF ok]
  let ?p = "uxPriority s (pxCurrentTCB s)"
  let ?b = "uxBasePriority s" and ?v = "event_value t ?p s"
  have b: "?b u \<le> ((uxPriority s)(t := ?p)) u" for u
    using steady_base(1) [OF ok, of u] True by (auto intro: order_trans)
  have cur: "t \<noteq> pxCurrentTCB s" using True by auto
  from reprio_all [OF ok steady_base(2) [OF ok] b, where y = False and v = ?v] cur obtain s' where
    s': "(if ready s t
      then Option.bind (remove_item (state_item t) s) (\<lambda>(n, s1). Some (prvAddTaskToReadyList t
        (reprio t ?p ?b ?v (if n = 0 then portRESET_READY_PRIORITY (uxPriority s t) s1 else s1))))
      else Some (reprio t ?p ?b ?v s)) = Some s'"
      "steady E i s'" "remaining s' = remaining s" "uxPriority s' = (uxPriority s)(t := ?p)" "uxBasePriority s' = ?b"
    by auto
  let ?s = "reprio t (uxPriority s t) ?b ?v s"
  have cont: "contained_in (state_item t) (Some (pxReadyTasksLists (uxPriority s t))) ?s \<longleftrightarrow> ready s t"
    using contained_ready [OF d(2), of t] by (simp add: contained_in_def)
  have "set_event_value t ?p s = ?s" by (rule set_event_reprio)
  then have "xTaskPriorityInherit t s = Option.bind
      (if ready s t then Option.bind (remove_item (state_item t) ?s) (\<lambda>(n, s1). Some (prvAddTaskToReadyList t
         (set_priority t ?p (if n = 0 then portRESET_READY_PRIORITY (uxPriority s1 t) s1 else s1))))
       else Some (set_priority t ?p ?s)) (\<lambda>s. Some (True, s))"
    using True t cont by (simp add: xTaskPriorityInherit_def Let_def cong: if_cong)
  also have "Option.bind (remove_item (state_item t) ?s) (\<lambda>(n, s1). Some (prvAddTaskToReadyList t
         (set_priority t ?p (if n = 0 then portRESET_READY_PRIORITY (uxPriority s1 t) s1 else s1)))) =
      Option.bind (remove_item (state_item t) s) (\<lambda>(n, s1). Some (prvAddTaskToReadyList t
        (reprio t ?p ?b ?v (if n = 0 then portRESET_READY_PRIORITY (uxPriority s t) s1 else s1))))"
    by (cases "remove_item (state_item t) s") (auto simp: remove_reprio reset_reprio set_priority_reprio)
  finally have "xTaskPriorityInherit t s = Some (True, s')"
    using s'(1) by (simp only: Option.bind.bind_lunit set_priority_reprio)
  moreover have "max (uxPriority s t) ?p = ?p" using True by (intro max_absorb2 less_imp_le)
  moreover have "uxBasePriority s t < ?p" using True steady_base(1) [OF ok, of t] by (rule le_less_trans [rotated])
  ultimately show ?thesis using s' by simp
qed

lemma steady_mutexes [simp]: "steady E i (s\<lparr>uxMutexesHeld := m\<rparr>) = steady E i s"
proof -
  have "core_ok E (s\<lparr>uxMutexesHeld := m\<rparr>) = core_ok E s" by (rule core_fields) simp_all
  then show ?thesis
    by (simp add: steady_def live_ok_def base_core times_ok_def all_moved_def acting_def preempting_def top_ready_def
        ready_def pending_def)
qed

text \<open>
  The current task gives a mutex back. When it was the last one it falls back to its base priority,
  and the caller switches the context.
\<close>

lemma xTaskPriorityDisinherit_run:
  assumes ok: "steady E i s" and act: "acting s" and t: "t = pxCurrentTCB s" "uxMutexesHeld s t \<noteq> 0"
  shows "\<exists>y s'. xTaskPriorityDisinherit t s = Some (y, s') \<and> steady E i (yield_if (y, s')) \<and> remaining s' = remaining s \<and>
    uxBasePriority s' = uxBasePriority s \<and>
    y = (uxPriority s t \<noteq> uxBasePriority s t \<and> uxMutexesHeld s t = 1) \<and>
    uxPriority s' = (uxPriority s)(t := if uxMutexesHeld s t = 1 then uxBasePriority s t else uxPriority s t)"
proof -
  let ?m = "(uxMutexesHeld s)(t := uxMutexesHeld s t - 1)"
  let ?s = "s\<lparr>uxMutexesHeld := ?m\<rparr>"
  note d = steadyD [OF ok]
  have ok': "steady E i ?s" using ok by simp
  have r: "ready ?s t" using d(7) [OF act] t(1) by (simp add: ready_def)
  have one: "uxMutexesHeld s t - 1 = 0 \<longleftrightarrow> uxMutexesHeld s t = 1" by (simp add: right_minus_eq)
  have rem: "remaining ?s = remaining s" by (simp add: remaining_def fun_eq_iff)
  show ?thesis
  proof (cases "uxPriority s t \<noteq> uxBasePriority s t \<and> uxMutexesHeld s t = 1")
    case False
    then have "(uxPriority s)(t := if uxMutexesHeld s t = 1 then uxBasePriority s t else uxPriority s t) = uxPriority s"
      by auto
    moreover have "xTaskPriorityDisinherit t s = Some (False, ?s)"
      using False t d(9) one by (auto simp: xTaskPriorityDisinherit_def)
    ultimately show ?thesis using ok' False rem by (auto simp: yield_if_def)
  next
    case True
    let ?p = "uxBasePriority s t" let ?b = "uxBasePriority s" and ?v = "5 - uxBasePriority s t"
    have p5: "?p < 5" using steady_base [OF ok, of t] by (rule le_less_trans)
    have b: "?b u \<le> ((uxPriority ?s)(t := ?p)) u" for u using steady_base(1) [OF ok, of u] by simp
    have pr: "uxPriority ?s = uxPriority s" by simp
    from reprio_all [OF ok' p5 b, where y = True and v = ?v, unfolded pr] r obtain s' where
      s': "Option.bind (remove_item (state_item t) ?s) (\<lambda>(n, s1). Some (prvAddTaskToReadyList t
          (reprio t ?p ?b ?v (if n = 0 then portRESET_READY_PRIORITY (uxPriority s t) s1 else s1)))) = Some s'"
        "steady E i (portYIELD s')" "remaining s' = remaining s" "uxPriority s' = (uxPriority s)(t := ?p)"
        "uxBasePriority s' = ?b" by (auto simp: rem)
    have fold: "listSET_LIST_ITEM_VALUE (event_item t) (5 - uxPriority (set_priority t ?p x) t) (set_priority t ?p x) =
        reprio t ?p ?b ?v x" if "uxBasePriority x = ?b" for x
      using that by (simp add: reprio_def set_priority_def listSET_LIST_ITEM_VALUE_def on_lists_def)
    from s'(1) obtain n x where x: "remove_item (state_item t) ?s = Some (n, x)"
      by (cases "remove_item (state_item t) ?s") auto
    then have fx: "uxBasePriority x = ?b" "uxPriority x = uxPriority s" by (auto simp: remove_item_def)
    define z where "z = (if n = 0 then portRESET_READY_PRIORITY (uxPriority x t) x else x)"
    have fz: "uxBasePriority z = ?b" by (simp add: z_def fx portRESET_READY_PRIORITY_def)
    have "xTaskPriorityDisinherit t s = Some (True, prvAddTaskToReadyList t
        (listSET_LIST_ITEM_VALUE (event_item t) (5 - uxPriority (set_priority t (uxBasePriority z t) z) t)
          (set_priority t (uxBasePriority z t) z)))"
      using True t d(9) x one by (simp add: xTaskPriorityDisinherit_def Let_def z_def)
    also have "\<dots> = Some (True, s')"
    proof -
      have "z = (if n = 0 then portRESET_READY_PRIORITY (uxPriority s t) x else x)" by (simp add: z_def fx)
      then have "prvAddTaskToReadyList t (reprio t ?p ?b ?v z) = s'" using s'(1) x by simp
      then show ?thesis unfolding fz fold [OF fz] by simp
    qed
    finally show ?thesis using s' True by (intro exI [of _ True] exI [of _ s']) (simp add: yield_if_def)
  qed
qed

section \<open>A wait for a mutex that times out\<close>

lemma remove_more:
  assumes ok: "core_ok E s" and r: "ready s t" "ready s v" and v: "v \<noteq> t" "uxPriority s v = uxPriority s t"
    and rm: "remove_item (state_item t) s = Some (n, x)"
  shows "n \<noteq> 0"
proof -
  note core = core_linked [OF ok]
  have at: "at s (state_item u) = Some (unat (uxPriority s u))" if "ready s u" for u
    using ready_at [OF core(2) that] .
  have ev: "at s (event_item u) \<noteq> Some (unat (uxPriority s t))" for u
    using event_high [OF ok, of u] core(5) [of t] by fastforce
  from leave_ready [OF core(1) at [OF r(1)] ev] rm
  have "n = 0 \<longleftrightarrow> (\<forall>u. u \<noteq> t \<longrightarrow> at s (state_item u) \<noteq> at s (state_item t))" by auto
  with v at [OF r(1)] at [OF r(2)] show ?thesis by auto
qed

lemma max_less: "max a b = (if a < b then b else a)" for a b :: "'a :: linorder"
  by (cases "a < b") (simp_all add: max.absorb4 max.absorb1)

text \<open>
  The priority falls back to what the waiters that are left need. The code resets the ready bit of
  the new priority, so the invariant needs another task on the old ready list, which is the one
  whose wait timed out as long as its priority has not been raised meanwhile.
\<close>

definition falls_back :: "nat \<Rightarrow> u32 \<Rightarrow> sched \<Rightarrow> bool" where
  "falls_back t w s \<longleftrightarrow> uxPriority s t \<noteq> max (uxBasePriority s t) w \<and> uxMutexesHeld s t = 1"

lemma vTaskPriorityDisinheritAfterTimeout_run:
  assumes ok: "steady E i s" and w: "w < 5" and t: "t = 0 \<or> uxMutexesHeld s t \<noteq> 0"
    and fall: "t \<noteq> 0 \<Longrightarrow> falls_back t w s \<Longrightarrow> t \<noteq> pxCurrentTCB s \<and>
      (w \<le> uxPriority s (pxCurrentTCB s) \<or> w \<le> uxPriority s t) \<and>
      (ready s t \<longrightarrow> (\<exists>v. v \<noteq> t \<and> ready s v \<and> uxPriority s v = uxPriority s t))"
  shows "\<exists>s'. vTaskPriorityDisinheritAfterTimeout t w s = Some s' \<and> steady E i s' \<and> remaining s' = remaining s \<and>
    uxBasePriority s' = uxBasePriority s \<and>
    uxPriority s' = (if t \<noteq> 0 \<and> falls_back t w s then (uxPriority s)(t := max (uxBasePriority s t) w) else uxPriority s)"
proof (cases "t \<noteq> 0 \<and> falls_back t w s")
  case False
  have e: "vTaskPriorityDisinheritAfterTimeout t w s = Some s"
  proof (cases "t = 0")
    case True
    then show ?thesis by (simp add: vTaskPriorityDisinheritAfterTimeout_def)
  next
    case nz: False
    obtain p where p: "(if uxBasePriority s t < w then w else uxBasePriority s t) = p" by simp
    from nz False t have "(uxPriority s t \<noteq> p \<and> uxMutexesHeld s t = 1) = False" "(uxMutexesHeld s t = 0) = False"
      "(t = 0) = False" unfolding falls_back_def max_less p by blast+
    then show ?thesis unfolding vTaskPriorityDisinheritAfterTimeout_def p by (simp only: Let_def if_False split del: if_split)
  qed
  from False have "(t \<noteq> 0 \<and> falls_back t w s) = False" by blast
  with e ok show ?thesis by (intro exI [of _ s]) auto
next
  case True
  note d = steadyD [OF ok]
  define p where "p = max (uxBasePriority s t) w"
  let ?b = "uxBasePriority s" and ?v = "event_value t p s"
  have p: "p = (if uxBasePriority s t < w then w else uxBasePriority s t)"
    unfolding p_def by (rule max_less)
  from True have t0: "t \<noteq> 0" "uxPriority s t \<noteq> p" "uxMutexesHeld s t = 1" by (auto simp: falls_back_def p_def)
  from fall True have f: "t \<noteq> pxCurrentTCB s" "w \<le> uxPriority s (pxCurrentTCB s) \<or> w \<le> uxPriority s t"
    "ready s t \<Longrightarrow> \<exists>v. v \<noteq> t \<and> ready s v \<and> uxPriority s v = uxPriority s t" by auto
  have p5: "p < 5" using w le_less_trans [OF steady_base [OF ok]] by (simp add: p)
  have b: "?b u \<le> ((uxPriority s)(t := p)) u" for u using steady_base(1) [OF ok, of u] by (simp add: p_def)
  have y: "False \<or> t = pxCurrentTCB s \<and> uxPriority s t \<le> p \<or>
      t \<noteq> pxCurrentTCB s \<and> (p \<le> uxPriority s (pxCurrentTCB s) \<or> p \<le> uxPriority s t)"
    using f(1,2) steady_base(1) [OF ok, of t] by (auto simp: p)
  from reprio_all [OF ok p5 b y, of ?v] obtain s' where
    s': "(if ready s t
      then Option.bind (remove_item (state_item t) s) (\<lambda>(n, s1). Some (prvAddTaskToReadyList t
        (reprio t p ?b ?v (if n = 0 then portRESET_READY_PRIORITY (uxPriority s t) s1 else s1))))
      else Some (reprio t p ?b ?v s)) = Some s'"
      "steady E i s'" "remaining s' = remaining s" "uxPriority s' = (uxPriority s)(t := p)" "uxBasePriority s' = ?b"
    by auto
  let ?s = "reprio t p ?b ?v s"
  have cont: "contained_in (state_item t) (Some (pxReadyTasksLists (uxPriority s t))) ?s \<longleftrightarrow> ready s t"
    using contained_ready [OF d(2), of t] by (simp add: contained_in_def)
  have "set_event_value t p (set_priority t p s) = ?s"
    by (simp add: set_event_value_def event_value_def reprio_def set_priority_def
        listSET_LIST_ITEM_VALUE_def on_lists_def listGET_LIST_ITEM_VALUE_def)
  then have "vTaskPriorityDisinheritAfterTimeout t w s =
      (if ready s t then Option.bind (remove_item (state_item t) ?s) (\<lambda>(n, s1). Some (prvAddTaskToReadyList t
         (if n = 0 then portRESET_READY_PRIORITY (uxPriority s1 t) s1 else s1)))
       else Some ?s)"
    using t0 f(1) cont unfolding vTaskPriorityDisinheritAfterTimeout_def p [symmetric]
    by (simp add: Let_def cong: if_cong)
  also have "\<dots> = Some s'"
  proof (cases "ready s t")
    case True
    with s'(1) obtain n x where x: "remove_item (state_item t) s = Some (n, x)"
      by (cases "remove_item (state_item t) s") auto
    from f(3) [OF True] remove_more [OF d(2) True _ _ _ x] have "n \<noteq> 0" by auto
    with True s'(1) x show ?thesis by (simp add: remove_reprio)
  qed (use s'(1) in simp)
  finally show ?thesis using s' True by (simp add: p_def)
qed

end
