(* ===== verification/Rtos_Task_Create.thy ===== *)
theory Rtos_Task_Create
  imports Rtos_Task_Api Rtos_Heap
begin

text \<open>
  Creating tasks and starting the scheduler: src/FreeRTOS/tasks.c with the allocator of heap_1.c. The
  control block of a task lies on the heap at a multiple of 8, and the task is named by that multiple.
  The name, the stack contents and the entry point of a task play no role for the scheduler and are
  left out; so are the size of a control block, which is a parameter, and the hardware part of the
  start in port.c, which ends in the first task.
\<close>

definition clear_item :: "nat \<Rightarrow> list_mem \<Rightarrow> list_mem" where
  "clear_item i m = m\<lparr>xItemValue := (xItemValue m)(Item i := 0), pxNext := (pxNext m)(Item i := Null),
     pxPrevious := (pxPrevious m)(Item i := Null), pvOwner := (pvOwner m)(Item i := 0),
     pxContainer := (pxContainer m)(i := None)\<rparr>"

text \<open>The control block is set to zero when it was allocated.\<close>

definition clear_tcb :: "nat \<Rightarrow> sched \<Rightarrow> sched" where
  "clear_tcb t s = s\<lparr>lists := clear_item (event_item t) (clear_item (state_item t) (lists s)),
     uxPriority := (uxPriority s)(t := 0), uxBasePriority := (uxBasePriority s)(t := 0),
     uxMutexesHeld := (uxMutexesHeld s)(t := 0), ulNotifiedValue := (ulNotifiedValue s)(t := 0),
     ucNotifyState := (ucNotifyState s)(t := taskNOT_WAITING_NOTIFICATION)\<rparr>"

definition listSET_LIST_ITEM_OWNER :: "nat \<Rightarrow> nat \<Rightarrow> sched \<Rightarrow> sched" where
  "listSET_LIST_ITEM_OWNER i t s = on_lists (\<lambda>m. m\<lparr>pvOwner := (pvOwner m)(Item i := t)\<rparr>) s"

definition prvInitialiseNewTask :: "u32 \<Rightarrow> nat \<Rightarrow> sched \<Rightarrow> sched option" where
  "prvInitialiseNewTask priority t s =
     (if \<not> priority < configMAX_PRIORITIES then None
      else let s = s\<lparr>uxPriority := (uxPriority s)(t := priority)\<rparr>;
               s = s\<lparr>uxBasePriority := (uxBasePriority s)(t := priority)\<rparr>;
               s = on_lists (vListInitialiseItem (state_item t)) s;
               s = on_lists (vListInitialiseItem (event_item t)) s;
               s = listSET_LIST_ITEM_OWNER (state_item t) t s;
               s = listSET_LIST_ITEM_VALUE (event_item t) (configMAX_PRIORITIES - priority) s
           in Some (listSET_LIST_ITEM_OWNER (event_item t) t s))"

definition prvCreateTask :: "u32 \<Rightarrow> u32 \<Rightarrow> u32 \<Rightarrow> u32 \<Rightarrow> heap_1 \<times> sched \<Rightarrow> (nat \<times> heap_1 \<times> sched) option" where
  "prvCreateTask ucHeap tcb_size uxStackDepth priority = (\<lambda>(h, s).
     let (pxStack, h) = pvPortMalloc ucHeap (uxStackDepth * 4) h
     in if pxStack \<noteq> 0
        then let (pxNewTCB, h) = pvPortMalloc ucHeap tcb_size h
             in if pxNewTCB \<noteq> 0
                then let t = unat pxNewTCB div 8
                     in map_option (\<lambda>s. (t, h, s)) (prvInitialiseNewTask priority t (clear_tcb t s))
                else map_option (\<lambda>h. (0, h, s)) (vPortFree pxStack h)
        else Some (0, h, s))"

definition prvInitialiseTaskLists :: "sched \<Rightarrow> sched" where
  "prvInitialiseTaskLists s =
     (on_lists (fold vListInitialise ([0..<5] @
        [xDelayedTaskList1, xDelayedTaskList2, xPendingReadyList, xTasksWaitingTermination, xSuspendedTaskList])) s)
     \<lparr>pxDelayedTaskList := xDelayedTaskList1, pxOverflowDelayedTaskList := xDelayedTaskList2\<rparr>"

definition prvAddNewTaskToReadyList :: "nat \<Rightarrow> sched \<Rightarrow> sched" where
  "prvAddNewTaskToReadyList t s =
     (let s = s\<lparr>uxCurrentNumberOfTasks := uxCurrentNumberOfTasks s + 1\<rparr>;
          s = (if pxCurrentTCB s = 0
               then (let s = s\<lparr>pxCurrentTCB := t\<rparr>
                     in if uxCurrentNumberOfTasks s = 1 then prvInitialiseTaskLists s else s)
               else if \<not> xSchedulerRunning s \<and> uxPriority s (pxCurrentTCB s) \<le> uxPriority s t
               then s\<lparr>pxCurrentTCB := t\<rparr> else s);
          s = s\<lparr>uxTaskNumber := uxTaskNumber s + 1\<rparr>;
          s = prvAddTaskToReadyList t s
      in if xSchedulerRunning s then taskYIELD_ANY_CORE_IF_USING_PREEMPTION t s else s)"

text \<open>
  The new task, or 0 when the result is errCOULD_NOT_ALLOCATE_REQUIRED_MEMORY and no handle is stored.
\<close>

definition xTaskCreate :: "u32 \<Rightarrow> u32 \<Rightarrow> u32 \<Rightarrow> u32 \<Rightarrow> heap_1 \<times> sched \<Rightarrow> (nat \<times> heap_1 \<times> sched) option" where
  "xTaskCreate ucHeap tcb_size uxStackDepth priority hs = do {
     (t, h, s) \<leftarrow> prvCreateTask ucHeap tcb_size uxStackDepth priority hs;
     Some (if t \<noteq> 0 then (t, h, prvAddNewTaskToReadyList t s) else (0, h, s))
   }"

abbreviation (input) configMINIMAL_STACK_SIZE :: u32 where "configMINIMAL_STACK_SIZE \<equiv> 190"

definition prvCreateIdleTasks :: "u32 \<Rightarrow> u32 \<Rightarrow> heap_1 \<times> sched \<Rightarrow> (nat \<times> heap_1 \<times> sched) option" where
  "prvCreateIdleTasks ucHeap tcb_size hs = xTaskCreate ucHeap tcb_size configMINIMAL_STACK_SIZE 0 hs"

text \<open>The result names the idle task. Without memory for it an assertion fails.\<close>

definition vTaskStartScheduler :: "u32 \<Rightarrow> u32 \<Rightarrow> heap_1 \<times> sched \<Rightarrow> (nat \<times> heap_1 \<times> sched) option" where
  "vTaskStartScheduler ucHeap tcb_size hs = do {
     (idle, h, s) \<leftarrow> prvCreateIdleTasks ucHeap tcb_size hs;
     if idle = 0 then None
     else Some (idle, h, s\<lparr>xNextTaskUnblockTime := portMAX_DELAY, xSchedulerRunning := True,
                            clock := (clock s)\<lparr>xTickCount := 0\<rparr>\<rparr>)
   }"

section \<open>The program\<close>

text \<open>The variables before any task was created, as the loader leaves them.\<close>

definition list_mem_zero :: list_mem where
  "list_mem_zero = \<lparr>xItemValue = \<lambda>_. 0, pxNext = \<lambda>_. Null, pxPrevious = \<lambda>_. Null, pvOwner = \<lambda>_. 0,
     pxContainer = \<lambda>_. None, uxNumberOfItems = \<lambda>_. 0, pxIndex = \<lambda>_. Null\<rparr>"

definition sched_zero :: sched where
  "sched_zero = \<lparr>lists = list_mem_zero, uxPriority = \<lambda>_. 0, uxBasePriority = \<lambda>_. 0, uxMutexesHeld = \<lambda>_. 0,
     ulNotifiedValue = \<lambda>_. 0, ucNotifyState = \<lambda>_. taskNOT_WAITING_NOTIFICATION, pxCurrentTCB = 0,
     pxDelayedTaskList = 0, pxOverflowDelayedTaskList = 0, uxDeletedTasksWaitingCleanUp = 0,
     uxCurrentNumberOfTasks = 0, clock = \<lparr>xTickCount = 0, xNumOfOverflows = 0\<rparr>, uxTopReadyPriority = 0,
     xSchedulerRunning = False, xPendedTicks = 0, xYieldPendings = False, uxTaskNumber = 0,
     xNextTaskUnblockTime = 0, uxSchedulerSuspended = 0, yield_requested = False\<rparr>"

text \<open>Tasks are created, each with a stack depth and a priority, until one cannot be.\<close>

fun create_tasks :: "u32 \<Rightarrow> u32 \<Rightarrow> (u32 \<times> u32) list \<Rightarrow> heap_1 \<times> sched \<Rightarrow> (nat list \<times> heap_1 \<times> sched) option" where
  "create_tasks ucHeap tcb_size [] (h, s) = Some ([], h, s)"
| "create_tasks ucHeap tcb_size ((depth, priority) # ds) hs = do {
     (t, h, s) \<leftarrow> xTaskCreate ucHeap tcb_size depth priority hs;
     if t = 0 then None
     else map_option (\<lambda>(ts, hs). (t # ts, hs)) (create_tasks ucHeap tcb_size ds (h, s))
   }"

definition boot :: "u32 \<Rightarrow> u32 \<Rightarrow> (u32 \<times> u32) list \<Rightarrow> (nat list \<times> nat \<times> heap_1 \<times> sched) option" where
  "boot ucHeap tcb_size ds = do {
     (ts, h, s) \<leftarrow> create_tasks ucHeap tcb_size ds (\<lparr>pucAlignedHeap = 0, xNextFreeByte = 0\<rparr>, sched_zero);
     (idle, h, s) \<leftarrow> vTaskStartScheduler ucHeap tcb_size (h, s);
     Some (ts, idle, h, s)
   }"

text \<open>
  What main of src/src/main.c does once the peripherals are set up: a task of priority 1 and one of
  priority 2. It stops in a loop of its own if one of them cannot be created.
\<close>

definition main_boot :: "u32 \<Rightarrow> u32 \<Rightarrow> (nat list \<times> nat \<times> heap_1 \<times> sched) option" where
  "main_boot ucHeap tcb_size = boot ucHeap tcb_size
     [(configMINIMAL_STACK_SIZE, 1), (configMINIMAL_STACK_SIZE, 2)]"

end
