(* ===== verification/Rtos_Boot.thy ===== *)
theory Rtos_Boot
  imports Rtos_Priorities Rtos_Task_Create
begin

text \<open>
  The start of the system: initialising lists and control blocks, creating tasks, and starting the
  scheduler lead to a state that satisfies the invariant of Rtos_Steady.
\<close>

section \<open>New lists\<close>

lemma linked_init:
  assumes lk: "linked m L" and l: "l \<notin> L"
  shows "linked (vListInitialise l m) (insert l L)" "pxContainer (vListInitialise l m) = pxContainer m"
    "pvOwner (vListInitialise l m) = pvOwner m" "xItemValue (vListInitialise l m) (Item i) = xItemValue m (Item i)"
proof -
  let ?m = "vListInitialise l m"
  have f: "pxContainer ?m = pxContainer m" "pvOwner ?m = pvOwner m" "\<And>i. xItemValue ?m (Item i) = xItemValue m (Item i)"
    "\<And>x. x \<noteq> End l \<Longrightarrow> pxNext ?m x = pxNext m x" "\<And>x. x \<noteq> End l \<Longrightarrow> pxPrevious ?m x = pxPrevious m x"
    "\<And>x. x \<noteq> End l \<Longrightarrow> xItemValue ?m x = xItemValue m x"
    "\<And>k. k \<noteq> l \<Longrightarrow> uxNumberOfItems ?m k = uxNumberOfItems m k" "\<And>k. k \<noteq> l \<Longrightarrow> pxIndex ?m k = pxIndex m k"
    by (simp_all add: vListInitialise_def Let_def store_simps)
  show "pxContainer ?m = pxContainer m" "pvOwner ?m = pvOwner m" "xItemValue ?m (Item i) = xItemValue m (Item i)"
    using f by simp_all
  have none: "pxContainer m i \<noteq> Some l" for i using linked_bounds [OF lk, of i l] l by blast
  have "\<exists>is. ring ?m k is \<and> (k \<in> sorted_lists \<longrightarrow> sorted (map (\<lambda>i. xItemValue ?m (Item i)) is))"
    if k: "k \<in> insert l L" for k
  proof (cases "k = l")
    case True
    with vListInitialise_ring [of m l] none show ?thesis by auto
  next
    case False
    with k have "k \<in> L" by simp
    from linked_ring [OF lk this] obtain js where js: "ring m k js"
      "k \<in> sorted_lists \<Longrightarrow> sorted (map (\<lambda>i. xItemValue m (Item i)) js)" by blast
    have "links ?m (End k) js (End k) = links m (End k) js (End k)"
      using False by (intro links_cong) (auto simp: f)
    then have "ring ?m k js" using js(1) False by (simp add: ring_def f)
    with js(2) show ?thesis by (auto simp: f)
  qed
  then show "linked ?m (insert l L)" using lk by (auto simp: linked_def f)
qed

lemma linked_init_all:
  "linked m L \<Longrightarrow> distinct ls \<Longrightarrow> set ls \<inter> L = {} \<Longrightarrow>
   linked (fold vListInitialise ls m) (L \<union> set ls) \<and> pxContainer (fold vListInitialise ls m) = pxContainer m \<and>
   pvOwner (fold vListInitialise ls m) = pvOwner m"
proof (induction ls arbitrary: m L)
  case (Cons l ls)
  from Cons.prems have l: "l \<notin> L" by simp
  note i = linked_init [OF Cons.prems(1) l]
  from Cons.IH [OF i(1)] Cons.prems(2,3) i(2,3) show ?case by auto
qed simp

lemma linked_none: "(\<And>i. pxContainer m i = None) \<Longrightarrow> linked m {}"
  by (simp add: linked_def)

section \<open>New control blocks\<close>

definition new_tcb :: "u32 \<Rightarrow> nat \<Rightarrow> sched \<Rightarrow> sched" where
  "new_tcb p t s = s\<lparr>
     lists := (lists s)\<lparr>
       xItemValue := (xItemValue (lists s))(Item (state_item t) := 0, Item (event_item t) := 5 - p),
       pxNext := (pxNext (lists s))(Item (state_item t) := Null, Item (event_item t) := Null),
       pxPrevious := (pxPrevious (lists s))(Item (state_item t) := Null, Item (event_item t) := Null),
       pvOwner := (pvOwner (lists s))(Item (state_item t) := t, Item (event_item t) := t),
       pxContainer := (at s)(state_item t := None, event_item t := None)\<rparr>,
     uxPriority := (uxPriority s)(t := p), uxBasePriority := (uxBasePriority s)(t := p),
     uxMutexesHeld := (uxMutexesHeld s)(t := 0), ulNotifiedValue := (ulNotifiedValue s)(t := 0),
     ucNotifyState := (ucNotifyState s)(t := taskNOT_WAITING_NOTIFICATION)\<rparr>"

lemma new_tcb_run:
  "p < 5 \<Longrightarrow> prvInitialiseNewTask p t (clear_tcb t s) = Some (new_tcb p t s)"
  by (simp add: prvInitialiseNewTask_def new_tcb_def clear_tcb_def clear_item_def on_lists_def vListInitialiseItem_def
      listSET_LIST_ITEM_OWNER_def listSET_LIST_ITEM_VALUE_def fun_upd_twist)

lemma linked_fresh:
  assumes lk: "linked m L" and free: "\<And>i. i \<in> I \<Longrightarrow> pxContainer m i = None"
    and same: "\<And>x. x \<notin> Item ` I \<Longrightarrow> pxNext m' x = pxNext m x \<and> pxPrevious m' x = pxPrevious m x \<and> xItemValue m' x = xItemValue m x"
    and f: "pxContainer m' = pxContainer m" "uxNumberOfItems m' = uxNumberOfItems m" "pxIndex m' = pxIndex m"
  shows "linked m' L"
proof -
  have "\<exists>is. ring m' k is \<and> (k \<in> sorted_lists \<longrightarrow> sorted (map (\<lambda>i. xItemValue m' (Item i)) is))" if "k \<in> L" for k
  proof -
    from linked_ring [OF lk that] obtain js where js: "ring m k js"
      "k \<in> sorted_lists \<Longrightarrow> sorted (map (\<lambda>i. xItemValue m (Item i)) js)" by blast
    have "j \<notin> I" if "j \<in> set js" for j using free [of j] that ring_container [OF js(1), of j] by auto
    then have out: "x \<notin> Item ` I" if "x \<in> insert (End k) (Item ` set js)" for x using that by auto
    have "links m' (End k) js (End k) = links m (End k) js (End k)" using same [OF out] by (intro links_cong) blast+
    moreover have "xItemValue m' (End k) = xItemValue m (End k)" using same [of "End k"] by auto
    ultimately have "ring m' k js" using js(1) by (simp add: ring_def f)
    moreover have "map (\<lambda>i. xItemValue m' (Item i)) js = map (\<lambda>i. xItemValue m (Item i)) js"
      using same [OF out] by simp
    ultimately show ?thesis using js(2) by metis
  qed
  with lk show ?thesis by (simp add: linked_def f)
qed

text \<open>A number that names no task yet.\<close>

definition fresh :: "nat \<Rightarrow> sched \<Rightarrow> bool" where
  "fresh t s \<longleftrightarrow> at s (state_item t) = None \<and> at s (event_item t) = None \<and> 0 < t \<and> event_item t < 2 ^ 32"

lemma fresh_items: "fresh t s \<Longrightarrow> 1 < state_item t \<and> state_item t < 2 ^ 32 \<and> 1 < event_item t \<and> event_item t < 2 ^ 32"
  by (simp add: fresh_def state_item_def event_item_def)

lemma new_tcb_fields [simp]:
  "uxPriority (new_tcb p t s) = (uxPriority s)(t := p)" "uxBasePriority (new_tcb p t s) = (uxBasePriority s)(t := p)"
  "pxCurrentTCB (new_tcb p t s) = pxCurrentTCB s" "clock (new_tcb p t s) = clock s"
  "uxTopReadyPriority (new_tcb p t s) = uxTopReadyPriority s" "xPendedTicks (new_tcb p t s) = xPendedTicks s"
  "pxDelayedTaskList (new_tcb p t s) = pxDelayedTaskList s"
  "pxOverflowDelayedTaskList (new_tcb p t s) = pxOverflowDelayedTaskList s"
  "xNextTaskUnblockTime (new_tcb p t s) = xNextTaskUnblockTime s" "xYieldPendings (new_tcb p t s) = xYieldPendings s"
  "uxSchedulerSuspended (new_tcb p t s) = uxSchedulerSuspended s" "yield_requested (new_tcb p t s) = yield_requested s"
  "uxCurrentNumberOfTasks (new_tcb p t s) = uxCurrentNumberOfTasks s"
  "xSchedulerRunning (new_tcb p t s) = xSchedulerRunning s" "uxTaskNumber (new_tcb p t s) = uxTaskNumber s"
  "pvOwner (lists (new_tcb p t s)) = (pvOwner (lists s))(Item (state_item t) := t, Item (event_item t) := t)"
  by (simp_all add: new_tcb_def)

lemma new_tcb_at: "fresh t s \<Longrightarrow> at (new_tcb p t s) = at s"
  by (auto simp: fresh_def new_tcb_def)

lemma new_tcb_value:
  "j \<noteq> state_item t \<Longrightarrow> j \<noteq> event_item t \<Longrightarrow> item_value (new_tcb p t s) j = item_value s j"
  by (simp add: new_tcb_def)

lemma new_tcb_linked:
  assumes "linked (lists s) L" "fresh t s"
  shows "linked (lists (new_tcb p t s)) L"
  by (rule linked_fresh [OF assms(1), of "{state_item t, event_item t}"])
    (use assms(2) new_tcb_at [OF assms(2)] in \<open>auto simp: fresh_def new_tcb_def\<close>)

lemma core_new_tcb:
  assumes ok: "core_ok E s" and t: "fresh t s" and p: "p < 5"
  shows "core_ok E (new_tcb p t s)"
proof -
  note core = core_linked [OF ok] note at' = new_tcb_at [OF t]
  have no: "at s (state_item t) = None" using t by (simp add: fresh_def)
  have "placed_ok E ((uxPriority s)(t := p)) (at s)" using core(2) no unfolding placed_ok_def by auto
  moreover have "owned (pvOwner (lists (new_tcb p t s))) (at s)" using core(10) by (auto simp: owned_def)
  ultimately show ?thesis
    using ok p new_tcb_linked [OF core(1) t]
    by (simp add: core_ok_def lists_ok_def priorities_ok_def at')
qed

text \<open>A new task goes on its ready list.\<close>

lemma add_new_ready:
  assumes ok: "core_ok E s" and t: "fresh t s"
    and own: "pvOwner (lists s) (Item (state_item t)) = t" "pvOwner (lists s) (Item (event_item t)) = t"
  shows "core_ok E (prvAddTaskToReadyList t s)"
    "kept_linked ({0..9} \<union> E) s (made_ready t s) (uxTopReadyPriority s OR push_bit (unat (uxPriority s t)) 1)
       (prvAddTaskToReadyList t s)"
proof -
  let ?p = "unat (uxPriority s t)" let ?s = "prvAddTaskToReadyList t s"
  note core = core_linked [OF ok] note b = fresh_items [OF t]
  have no: "at s (state_item t) = None" "at s (event_item t) = None" using t by (simp_all add: fresh_def)
  have w: "made_ready t s = (at s)(state_item t := Some ?p)" using no(2) by (auto simp: made_ready_def)
  show k: "kept_linked ({0..9} \<union> E) s (made_ready t s) (uxTopReadyPriority s OR push_bit ?p 1) ?s"
    unfolding w using add_ready_moves [OF core(1) no(1) five_lists core(4)] b by simp
  have "bits_ok (uxTopReadyPriority s OR push_bit ?p 1) (made_ready t s)"
    unfolding w using no(1) by (intro bits_add [OF core(3,5)]) simp
  moreover have "owned (pvOwner (lists s)) (made_ready t s)" using core(10) own by (auto simp: owned_def w)
  ultimately show "core_ok E ?s" by (rule core_relinked [OF ok k placed_ready [OF core(2,5)]])
qed

section \<open>Creating a task while the scheduler runs\<close>

lemma fresh_not_ready: "fresh t s \<Longrightarrow> \<not> ready s t"
  by (auto simp: fresh_def ready_def)

lemma steady_new_tcb:
  assumes ok: "steady E i s" and t: "fresh t s" and p: "p < 5"
  shows "steady E i (new_tcb p t s)"
proof -
  let ?s = "new_tcb p t s"
  note d = steadyD [OF ok] note at' = new_tcb_at [OF t]
  have cur: "pxCurrentTCB s \<noteq> t" using d(10) t by (auto simp: fresh_def)
  have val: "item_value ?s j = item_value s j" if "at s j = Some l" for j l
    using that t by (intro new_tcb_value) (auto simp: fresh_def)
  have "times_ok ?s" using d(3) val by (auto simp: times_ok_def at')
  then have live: "live_ok E ?s" using core_new_tcb [OF d(2) t p] d(9,10) by (simp add: live_ok_def base_core at')
  have rd: "ready ?s u = ready s u" for u by (simp add: ready_def at')
  have "top_ready ?s (pxCurrentTCB s)" if "top_ready s (pxCurrentTCB s)"
    using that cur fresh_not_ready [OF t] by (auto simp: top_ready_def rd)
  then have "preempting ?s" using d(8) by (auto simp: preempting_def)
  with live d(4-7) show ?thesis
    by (simp add: steady_def rd all_moved_def pending_def at' acting_def)
qed

lemma steady_count:
  assumes "steady E i s" "n > 0"
  shows "steady E i (s\<lparr>uxCurrentNumberOfTasks := n, uxTaskNumber := m\<rparr>)"
proof -
  have "core_ok E (s\<lparr>uxCurrentNumberOfTasks := n, uxTaskNumber := m\<rparr>) = core_ok E s" by (rule core_fields) simp_all
  with assms show ?thesis
    by (simp add: steady_def live_ok_def base_core times_ok_def all_moved_def acting_def preempting_def top_ready_def
        ready_def pending_def)
qed

lemma create_running:
  assumes ok: "steady E i s" and run: "xSchedulerRunning s" and t: "fresh t s" and p: "p < 5"
    and n: "uxCurrentNumberOfTasks s + 1 \<noteq> 0"
  shows "steady E i (prvAddNewTaskToReadyList t (new_tcb p t s))"
    "at (prvAddNewTaskToReadyList t (new_tcb p t s)) = (at s)(state_item t := Some (unat p))"
proof -
  define s1 where "s1 = (new_tcb p t s)\<lparr>uxCurrentNumberOfTasks := uxCurrentNumberOfTasks s + 1,
      uxTaskNumber := uxTaskNumber s + 1\<rparr>"
  have ok1: "steady E i s1" unfolding s1_def using n by (intro steady_count steady_new_tcb ok t p) (simp add: word_gt_0)
  have at1: "at s1 = at s" using new_tcb_at [OF t] by (simp add: s1_def)
  have t1: "fresh t s1" using t by (simp add: fresh_def at1)
  have own: "pvOwner (lists s1) (Item (state_item t)) = t" "pvOwner (lists s1) (Item (event_item t)) = t"
    by (simp_all add: s1_def)
  note a = add_new_ready [OF steadyD(2) [OF ok1] t1 own]
  define s2 where "s2 = prvAddTaskToReadyList t s1"
  have r: "relinked s1 s2" using a(2) by (simp add: kept_linked_def s2_def)
  note f = relinked_fields [OF r]
  have "pxCurrentTCB s \<noteq> 0" using steadyD(9) [OF ok] .
  then have e: "prvAddNewTaskToReadyList t (new_tcb p t s) = taskYIELD_ANY_CORE_IF_USING_PREEMPTION t s2"
    using run f(11) by (simp add: prvAddNewTaskToReadyList_def Let_def s2_def s1_def)
  have same: "s2\<lparr>xYieldPendings := xYieldPendings s1\<rparr> = s2" by (cases s2) (use f in simp)
  have z: "taskYIELD_ANY_CORE_IF_USING_PREEMPTION t s2 = (if uxPriority s1 t > uxPriority s1 (pxCurrentTCB s1)
      then portYIELD (s2\<lparr>xYieldPendings := xYieldPendings s1\<rparr>) else s2)"
    unfolding same by (simp add: taskYIELD_ANY_CORE_IF_USING_PREEMPTION_def f)
  note w = steady_one_woken [OF ok1 a z [unfolded s2_def]]
  show "steady E i (prvAddNewTaskToReadyList t (new_tcb p t s))" using w(1) by (simp add: e s2_def)
  have "awake (\<lambda>u. u = t) s1 = (at s)(state_item t := Some (unat p))"
    using t unfolding made_ready_awake [symmetric] made_ready_def at1 by (auto simp: s1_def fresh_def)
  then show "at (prvAddNewTaskToReadyList t (new_tcb p t s)) = (at s)(state_item t := Some (unat p))"
    using w(2) by (simp add: e s2_def)
qed

section \<open>Before the scheduler runs\<close>

text \<open>All tasks created so far are ready, and the current one is the last of the highest priority.\<close>

definition starting :: "sched \<Rightarrow> bool" where
  "starting s \<longleftrightarrow> core_ok {} s \<and> two_lists s \<and> (\<forall>i l. at s i = Some l \<longrightarrow> l < 5) \<and> top_ready s (pxCurrentTCB s) \<and>
     uxSchedulerSuspended s = 0 \<and> xPendedTicks s = 0 \<and> \<not> xYieldPendings s \<and> \<not> yield_requested s \<and> \<not> xSchedulerRunning s"

lemma add_first:
  assumes core: "core_ok {} s" and t: "fresh t s" and own: "pvOwner (lists s) (Item (state_item t)) = t"
      "pvOwner (lists s) (Item (event_item t)) = t"
    and two: "two_lists s" and low: "\<And>i l. at s i = Some l \<Longrightarrow> l < 5"
    and cur: "pxCurrentTCB s = t \<and> (\<forall>u. ready s u \<longrightarrow> uxPriority s u \<le> uxPriority s t) \<or>
      top_ready s (pxCurrentTCB s) \<and> uxPriority s t \<le> uxPriority s (pxCurrentTCB s)"
    and rest: "uxSchedulerSuspended s = 0" "xPendedTicks s = 0" "\<not> xYieldPendings s" "\<not> yield_requested s"
      "\<not> xSchedulerRunning s"
  shows "starting (prvAddTaskToReadyList t s)"
    "at (prvAddTaskToReadyList t s) = (at s)(state_item t := Some (unat (uxPriority s t)))"
    "uxCurrentNumberOfTasks (prvAddTaskToReadyList t s) = uxCurrentNumberOfTasks s"
    "pxCurrentTCB (prvAddTaskToReadyList t s) = pxCurrentTCB s"
    "uxPriority (prvAddTaskToReadyList t s) = uxPriority s" "clock (prvAddTaskToReadyList t s) = clock s"
proof -
  let ?s = "prvAddTaskToReadyList t s" let ?p = "unat (uxPriority s t)"
  note a = add_new_ready [OF core t own]
  from a(2) have r: "relinked s ?s" and w: "at ?s = made_ready t s" by (simp_all add: kept_linked_def)
  show at': "at ?s = (at s)(state_item t := Some ?p)" using t by (auto simp: w made_ready_def fresh_def)
  note f = relinked_fields [OF r]
  show "uxCurrentNumberOfTasks ?s = uxCurrentNumberOfTasks s" "pxCurrentTCB ?s = pxCurrentTCB s"
    "uxPriority ?s = uxPriority s" "clock ?s = clock s" by (simp_all add: f)
  have five: "?p < 5" by (rule core_linked(5) [OF core])
  have rd: "ready ?s u \<longleftrightarrow> u = t \<or> ready s u" for u using five by (auto simp: ready_def at')
  have "top_ready ?s (pxCurrentTCB s)" using cur by (auto simp: top_ready_def rd f(1))
  then show "starting ?s"
    using a(1) two low five rest by (auto simp: starting_def two_lists_def f at')
qed

section \<open>Creating a task\<close>

lemma prvCreateTask_run:
  assumes h: "heap_inv ucHeap h" and size: "0 < tcb_size" and run: "prvCreateTask ucHeap tcb_size d p (h, s) = Some (t, h', s')"
    and known: "\<And>u. at s (state_item u) \<noteq> None \<Longrightarrow> 8 * u \<in> heap_taken h" and ev: "\<And>u. at s (event_item u) = None"
    and t: "t \<noteq> 0"
  shows "heap_inv ucHeap h' \<and> heap_taken h \<subseteq> heap_taken h' \<and> 8 * t \<in> heap_taken h' \<and> fresh t s \<and> p < 5 \<and> s' = new_tcb p t s"
proof -
  obtain st h1 where 1: "pvPortMalloc ucHeap (d * 4) h = (st, h1)" by fastforce
  obtain tcb h2 where 2: "pvPortMalloc ucHeap tcb_size h1 = (tcb, h2)" by fastforce
  note run = run [unfolded prvCreateTask_def case_prod_conv 1 2 Let_def]
  from run t have nz: "st \<noteq> 0" "tcb \<noteq> 0" by (auto split: if_splits)
  with run have r: "t = unat tcb div 8" "h' = h2" "prvInitialiseNewTask p t (clear_tcb t s) = Some s'" by auto
  then have p: "p < 5" by (auto simp: prvInitialiseNewTask_def split: if_splits)
  with r(3) new_tcb_run have s': "s' = new_tcb p t s" by simp
  from heap1.malloc_inv [OF h 1] have h1: "heap_inv ucHeap h1" .
  from heap1.malloc_block [OF h 1 nz(1)] have sub: "heap_taken h \<subseteq> heap_taken h1" by blast
  from heap1.malloc_block [OF h1 2 nz(2)] have b: "unat tcb mod 8 = 0" "block tcb tcb_size \<inter> heap_taken h1 = {}"
    "heap_taken h1 \<union> block tcb tcb_size \<subseteq> heap_taken h2" by blast+
  have eq: "8 * t = unat tcb" using b(1) r(1) by auto
  have "0 < unat tcb_size" using size by (simp add: word_gt_0 unat_gt_0)
  then have "8 * t \<in> block tcb tcb_size" by (simp add: eq block_def)
  with b sub known have "at s (state_item t) = None" "8 * t \<in> heap_taken h'" unfolding r(2) by blast+
  moreover have "event_item t < 2 ^ 32"
  proof -
    have "unat tcb < 2 ^ 32" using unsigned_less [of tcb] by simp
    then show ?thesis using eq by (simp add: event_item_def)
  qed
  ultimately show ?thesis using heap1.malloc_inv [OF h1 2] sub b(3) ev t p s' r(2) by (auto simp: fresh_def)
qed

text \<open>Where the start-up stands after \<open>n\<close> tasks were created.\<close>

definition booting :: "u32 \<Rightarrow> nat \<Rightarrow> heap_1 \<Rightarrow> sched \<Rightarrow> bool" where
  "booting ucHeap n h s \<longleftrightarrow> heap_inv ucHeap h \<and> (\<forall>u. at s (state_item u) \<noteq> None \<longrightarrow> 8 * u \<in> heap_taken h) \<and>
     (\<forall>u. at s (event_item u) = None) \<and> uxCurrentNumberOfTasks s = of_nat n \<and>
     (if n = 0 then s = sched_zero else starting s)"

lemma zero_lists: "at sched_zero i = None"
  by (simp add: sched_zero_def list_mem_zero_def)

lemma first_task:
  assumes p: "p < 5" and t: "fresh t sched_zero"
  shows "starting (prvAddNewTaskToReadyList t (new_tcb p t sched_zero))"
    "at (prvAddNewTaskToReadyList t (new_tcb p t sched_zero)) = (\<lambda>_. None)(state_item t := Some (unat p))"
    "uxCurrentNumberOfTasks (prvAddNewTaskToReadyList t (new_tcb p t sched_zero)) = 1"
    "uxPriority (prvAddNewTaskToReadyList t (new_tcb p t sched_zero)) = (\<lambda>_. 0)(t := p)"
proof -
  let ?ls = "[0..<5] @ [5, 6, 7, 8, 9 :: nat]"
  define m where "m = lists (new_tcb p t sched_zero)"
  have none: "pxContainer m i = None" for i using new_tcb_at [OF t] by (simp add: m_def zero_lists)
  have "linked (fold vListInitialise ?ls m) ({} \<union> set ?ls) \<and> pxContainer (fold vListInitialise ?ls m) = pxContainer m \<and>
      pvOwner (fold vListInitialise ?ls m) = pvOwner m"
    by (rule linked_init_all [OF linked_none]) (auto simp: none)
  moreover have "{} \<union> set ?ls = {0..9}" by (auto simp: upt_conv_Cons)
  ultimately have lk: "linked (fold vListInitialise ?ls m) {0..9}"
    and none': "\<And>i. pxContainer (fold vListInitialise ?ls m) i = None"
    and own: "pvOwner (fold vListInitialise ?ls m) = pvOwner m" using none by auto
  define s where "s = (new_tcb p t sched_zero)\<lparr>uxCurrentNumberOfTasks := 1, pxCurrentTCB := t,
      lists := fold vListInitialise ?ls m, pxDelayedTaskList := 5, pxOverflowDelayedTaskList := 6, uxTaskNumber := 1\<rparr>"
  have e: "prvAddNewTaskToReadyList t (new_tcb p t sched_zero) = prvAddTaskToReadyList t s"
  proof -
    let ?s0 = "(new_tcb p t sched_zero)\<lparr>uxCurrentNumberOfTasks := 1, pxCurrentTCB := t\<rparr>"
    have "prvInitialiseTaskLists ?s0 = ?s0\<lparr>lists := fold vListInitialise ?ls m, pxDelayedTaskList := 5, pxOverflowDelayedTaskList := 6\<rparr>"
      by (simp add: prvInitialiseTaskLists_def on_lists_def m_def)
    moreover have z: "uxCurrentNumberOfTasks sched_zero = 0" "pxCurrentTCB sched_zero = 0" "\<not> xSchedulerRunning sched_zero"
      "uxTaskNumber sched_zero = 0" by (simp_all add: sched_zero_def)
    moreover have "\<not> xSchedulerRunning (prvAddTaskToReadyList t s)"
      by (simp add: prvAddTaskToReadyList_def on_lists_def portRECORD_READY_PRIORITY_def s_def z)
    ultimately show ?thesis by (simp add: prvAddNewTaskToReadyList_def Let_def s_def)
  qed
  have f: "uxPriority s = (\<lambda>_. 0)(t := p)" "uxBasePriority s = (\<lambda>_. 0)(t := p)" "uxTopReadyPriority s = 0"
    "pxCurrentTCB s = t" "at s = (\<lambda>_. None)" "uxSchedulerSuspended s = 0" "xPendedTicks s = 0" "\<not> xYieldPendings s"
    "\<not> yield_requested s" "\<not> xSchedulerRunning s" "two_lists s"
    using none' by (auto simp: s_def sched_zero_def two_lists_def)
  have core: "core_ok {} s"
    using lk p by (simp add: core_ok_def lists_ok_def placed_ok_def bits_ok_def priorities_ok_def owned_def f(1-3,5))
      (simp add: s_def)
  have "pvOwner (lists s) = pvOwner m" unfolding own [symmetric] by (simp add: s_def)
  then have own': "pvOwner (lists s) (Item (state_item t)) = t" "pvOwner (lists s) (Item (event_item t)) = t"
    by (simp_all add: m_def)
  have t': "fresh t s" using t by (simp add: fresh_def f(5))
  have "\<not> ready s u" for u by (simp add: ready_def f(5))
  note a = add_first [OF core t' own' f(11) _ _ f(6-10)]
  show "starting (prvAddNewTaskToReadyList t (new_tcb p t sched_zero))"
    unfolding e by (rule a(1)) (use \<open>\<And>u. \<not> ready s u\<close> in \<open>simp_all add: f(4,5)\<close>)
  have 1: "at s i = Some l \<Longrightarrow> l < 5" for i l by (simp add: f(5))
  have 2: "pxCurrentTCB s = t \<and> (\<forall>u. ready s u \<longrightarrow> uxPriority s u \<le> uxPriority s t) \<or>
      top_ready s (pxCurrentTCB s) \<and> uxPriority s t \<le> uxPriority s (pxCurrentTCB s)"
    using \<open>\<And>u. \<not> ready s u\<close> by (simp add: f(4))
  show "at (prvAddNewTaskToReadyList t (new_tcb p t sched_zero)) = (\<lambda>_. None)(state_item t := Some (unat p))"
    "uxPriority (prvAddNewTaskToReadyList t (new_tcb p t sched_zero)) = (\<lambda>_. 0)(t := p)"
    "uxCurrentNumberOfTasks (prvAddNewTaskToReadyList t (new_tcb p t sched_zero)) = 1"
    using a(2,3,5) [OF 1 2] by (simp_all add: e f(1,5)) (simp add: s_def)
qed

lemma running_add [simp]: "xSchedulerRunning (prvAddTaskToReadyList t s) = xSchedulerRunning s"
  by (simp add: prvAddTaskToReadyList_def on_lists_def portRECORD_READY_PRIORITY_def)

lemma core_counts [simp]:
  "core_ok E (s\<lparr>uxCurrentNumberOfTasks := n, pxCurrentTCB := c, uxTaskNumber := m\<rparr>) = core_ok E s"
  by (rule core_fields) simp_all

lemma next_task:
  assumes st: "starting s" and p: "p < 5" and t: "fresh t s"
  shows "starting (prvAddNewTaskToReadyList t (new_tcb p t s))"
    "at (prvAddNewTaskToReadyList t (new_tcb p t s)) = (at s)(state_item t := Some (unat p))"
    "uxCurrentNumberOfTasks (prvAddNewTaskToReadyList t (new_tcb p t s)) = uxCurrentNumberOfTasks s + 1"
    "uxPriority (prvAddNewTaskToReadyList t (new_tcb p t s)) = (uxPriority s)(t := p)"
proof -
  let ?c = "pxCurrentTCB s"
  from st have core: "core_ok {} s" and two: "two_lists s" and low: "\<And>i l. at s i = Some l \<Longrightarrow> l < 5"
    and top: "top_ready s ?c" and rest: "uxSchedulerSuspended s = 0" "xPendedTicks s = 0" "\<not> xYieldPendings s"
      "\<not> yield_requested s" "\<not> xSchedulerRunning s" by (auto simp: starting_def)
  define c where "c = (if uxPriority s ?c \<le> p then t else ?c)"
  define s1 where "s1 = (new_tcb p t s)\<lparr>uxCurrentNumberOfTasks := uxCurrentNumberOfTasks s + 1, pxCurrentTCB := c,
      uxTaskNumber := uxTaskNumber s + 1\<rparr>"
  have tc: "t \<noteq> ?c" using top fresh_not_ready [OF t] by (auto simp: top_ready_def)
  have c0: "?c \<noteq> 0"
  proof -
    have "at s (state_item ?c) \<noteq> None" using top by (auto simp: top_ready_def ready_def)
    then show ?thesis using task_items(5) [OF core] by blast
  qed
  note at' = new_tcb_at [OF t]
  have f: "at s1 = at s" "uxPriority s1 = (uxPriority s)(t := p)" "pxCurrentTCB s1 = c" "two_lists s1"
    "uxSchedulerSuspended s1 = 0" "xPendedTicks s1 = 0" "\<not> xYieldPendings s1" "\<not> yield_requested s1" "\<not> xSchedulerRunning s1"
    "uxCurrentNumberOfTasks s1 = uxCurrentNumberOfTasks s + 1"
    using two rest at' by (simp_all add: s1_def two_lists_def)
  have core1: "core_ok {} s1" using core_new_tcb [OF core t p] by (simp add: s1_def)
  have own: "pvOwner (lists s1) (Item (state_item t)) = t" "pvOwner (lists s1) (Item (event_item t)) = t"
    by (simp_all add: s1_def)
  have rd: "ready s1 u = ready s u" for u by (simp add: ready_def f(1))
  have cur: "pxCurrentTCB s1 = t \<and> (\<forall>u. ready s1 u \<longrightarrow> uxPriority s1 u \<le> uxPriority s1 t) \<or>
      top_ready s1 (pxCurrentTCB s1) \<and> uxPriority s1 t \<le> uxPriority s1 (pxCurrentTCB s1)"
    using top tc fresh_not_ready [OF t] by (auto simp: top_ready_def rd f(2,3) c_def intro: order_trans)
  have t1: "fresh t s1" using t by (simp add: fresh_def f(1))
  note a = add_first [OF core1 t1 own f(4) _ cur f(5-9)]
  have low1: "at s1 i = Some l \<Longrightarrow> l < 5" for i l using low by (simp add: f(1))
  have e: "prvAddNewTaskToReadyList t (new_tcb p t s) = prvAddTaskToReadyList t s1"
  proof (cases "uxPriority s ?c \<le> p")
    case True
    then show ?thesis using c0 tc rest(5) by (simp add: prvAddNewTaskToReadyList_def Let_def s1_def c_def)
  next
    case False
    have "s1 = (new_tcb p t s)\<lparr>uxCurrentNumberOfTasks := uxCurrentNumberOfTasks s + 1, uxTaskNumber := uxTaskNumber s + 1\<rparr>"
      using False by (cases "new_tcb p t s") (simp add: s1_def c_def flip: new_tcb_fields(3) [of p t s])
    then show ?thesis using False c0 tc rest(5) by (simp add: prvAddNewTaskToReadyList_def Let_def)
  qed
  show "starting (prvAddNewTaskToReadyList t (new_tcb p t s))"
    "at (prvAddNewTaskToReadyList t (new_tcb p t s)) = (at s)(state_item t := Some (unat p))"
    "uxCurrentNumberOfTasks (prvAddNewTaskToReadyList t (new_tcb p t s)) = uxCurrentNumberOfTasks s + 1"
    "uxPriority (prvAddNewTaskToReadyList t (new_tcb p t s)) = (uxPriority s)(t := p)"
    unfolding e using a(1,2,3,5) [OF low1] by (simp_all add: f(1,2,10))
qed

lemma booting_step:
  assumes b: "booting ucHeap n h s" and size: "0 < tcb_size"
    and run: "xTaskCreate ucHeap tcb_size d p (h, s) = Some (t, h', s')" and t: "t \<noteq> 0"
  shows "booting ucHeap (Suc n) h' s' \<and> starting s' \<and> fresh t s \<and> p < 5 \<and>
    at s' = (at s)(state_item t := Some (unat p)) \<and> uxPriority s' = (uxPriority s)(t := p)"
proof -
  from run t obtain s1 where 1: "prvCreateTask ucHeap tcb_size d p (h, s) = Some (t, h', s1)"
    "s' = prvAddNewTaskToReadyList t s1"
    by (auto simp: xTaskCreate_def bind_eq_Some_conv split: if_splits)
  from b have h: "heap_inv ucHeap h" and known: "\<And>u. at s (state_item u) \<noteq> None \<Longrightarrow> 8 * u \<in> heap_taken h"
    and ev: "\<And>u. at s (event_item u) = None" by (auto simp: booting_def)
  from prvCreateTask_run [OF h size 1(1) known ev t] have c: "heap_inv ucHeap h'" "heap_taken h \<subseteq> heap_taken h'"
    "8 * t \<in> heap_taken h'" "fresh t s" "p < 5" "s1 = new_tcb p t s" by auto
  have "starting s' \<and> at s' = (at s)(state_item t := Some (unat p)) \<and>
      uxCurrentNumberOfTasks s' = of_nat (Suc n) \<and> uxPriority s' = (uxPriority s)(t := p)"
  proof (cases "n = 0")
    case True
    then have z: "s = sched_zero" using b by (simp add: booting_def)
    have "uxPriority sched_zero = (\<lambda>_. 0)" "at sched_zero = (\<lambda>_. None)" by (auto simp: sched_zero_def list_mem_zero_def)
    with first_task [OF c(5) c(4) [unfolded z]] True show ?thesis by (simp add: 1(2) c(6) z)
  next
    case False
    then have "starting s" "uxCurrentNumberOfTasks s = of_nat n" using b by (simp_all add: booting_def)
    with next_task [OF _ c(5,4)] show ?thesis by (simp add: 1(2) c(6) add.commute)
  qed
  then show ?thesis using c known ev by (auto simp: booting_def)
qed

lemma create_tasks_run:
  "booting ucHeap n h s \<Longrightarrow> 0 < tcb_size \<Longrightarrow> create_tasks ucHeap tcb_size ds (h, s) = Some (ts, h', s') \<Longrightarrow>
   booting ucHeap (n + length ds) h' s' \<and> length ts = length ds \<and> distinct ts \<and>
   (\<forall>u. at s (state_item u) \<noteq> None \<longrightarrow> u \<notin> set ts \<and> at s' (state_item u) = at s (state_item u)) \<and>
   (\<forall>u. at s' (state_item u) \<noteq> None \<longrightarrow> u \<in> set ts \<or> at s (state_item u) \<noteq> None) \<and>
   (\<forall>(t, d, p) \<in> set (zip ts ds). at s' (state_item t) = Some (unat p))"
proof (induction ds arbitrary: n h s ts)
  case (Cons dp ds)
  obtain d p where dp: "dp = (d, p)" by fastforce
  from Cons.prems(3) obtain t h1 s1 us where 1: "xTaskCreate ucHeap tcb_size d p (h, s) = Some (t, h1, s1)" "t \<noteq> 0"
    "create_tasks ucHeap tcb_size ds (h1, s1) = Some (us, h', s')" "ts = t # us"
    by (auto simp: dp bind_eq_Some_conv split: if_splits)
  from booting_step [OF Cons.prems(1,2) 1(1,2)] have b: "booting ucHeap (Suc n) h1 s1" "fresh t s"
    "at s1 = (at s)(state_item t := Some (unat p))" by blast+
  from Cons.IH [OF b(1) Cons.prems(2) 1(3)] have IH: "booting ucHeap (n + length (dp # ds)) h' s'"
    "length us = length ds" "distinct us"
    "\<And>u. at s1 (state_item u) \<noteq> None \<Longrightarrow> u \<notin> set us \<and> at s' (state_item u) = at s1 (state_item u)"
    "\<And>u. at s' (state_item u) \<noteq> None \<Longrightarrow> u \<in> set us \<or> at s1 (state_item u) \<noteq> None"
    "\<forall>(t, d, p) \<in> set (zip us ds). at s' (state_item t) = Some (unat p)" by auto
  have t: "t \<notin> set us" "at s' (state_item t) = Some (unat p)" using IH(4) [of t] by (simp_all add: b(3))
  have "at s (state_item u) \<noteq> None \<longrightarrow> u \<notin> set ts \<and> at s' (state_item u) = at s (state_item u)" for u
    using IH(4) [of u] b(2,3) by (auto simp: 1(4) fresh_def)
  moreover have "at s' (state_item u) \<noteq> None \<longrightarrow> u \<in> set ts \<or> at s (state_item u) \<noteq> None" for u
    using IH(5) [of u] b(3) by (auto simp: 1(4))
  ultimately show ?case using IH(1-3,6) t by (simp add: 1(4) dp)
qed auto

section \<open>Starting the scheduler\<close>

lemma starting_steady:
  assumes st: "starting s" and n: "uxCurrentNumberOfTasks s > 0" and i: "ready s i"
    and s': "s' = s\<lparr>xNextTaskUnblockTime := portMAX_DELAY, xSchedulerRunning := True, clock := (clock s)\<lparr>xTickCount := 0\<rparr>\<rparr>"
  shows "steady {} i s'" "top_ready s' (pxCurrentTCB s')"
proof -
  from st have core: "core_ok {} s" and two: "two_lists s" and low: "\<And>i l. at s i = Some l \<Longrightarrow> l < 5"
    and top: "top_ready s (pxCurrentTCB s)" by (auto simp: starting_def)
  have none: "at s i \<noteq> Some (pxDelayedTaskList s)" "at s i \<noteq> Some (pxOverflowDelayedTaskList s)" "at s i \<noteq> Some 7" for i
    using low [of i] two by (force simp: two_lists_def)+
  have at0: "at s (state_item (pxCurrentTCB s)) \<noteq> None" using top by (auto simp: top_ready_def ready_def)
  then have "pxCurrentTCB s \<noteq> 0" using task_items(5) [OF core] by blast
  moreover have "core_ok {} s' = core_ok {} s" by (rule core_fields) (simp_all add: s')
  ultimately have "live_ok {} s'"
    using core two none at0 by (simp add: live_ok_def base_core times_ok_def two_lists_def s')
  then show "steady {} i s'" "top_ready s' (pxCurrentTCB s')"
    using st n i none(3) by (simp_all add: steady_def starting_def all_moved_def acting_def preempting_def top_ready_def ready_def
        pending_def s')
qed

lemma boot_run:
  assumes heap: "0 < unat ucHeap" "unat ucHeap + 8192 \<le> 2 ^ 32" and size: "0 < tcb_size"
    and run: "boot ucHeap tcb_size ds = Some (ts, i, h, s)" and n: "length ds + 1 < 2 ^ 32"
  shows "steady {} i s \<and> top_ready s (pxCurrentTCB s) \<and> \<not> yield_requested s \<and> xSchedulerRunning s \<and>
    uxSchedulerSuspended s = 0 \<and> length ts = length ds \<and> distinct (i # ts) \<and>
    uxPriority s i = 0 \<and> (\<forall>u. ready s u \<longleftrightarrow> u \<in> set (i # ts)) \<and> (\<forall>(t, d, p) \<in> set (zip ts ds). uxPriority s t = p)"
proof -
  let ?h0 = "\<lparr>pucAlignedHeap = 0, xNextFreeByte = 0\<rparr> :: heap_1"
  from run obtain h1 s1 where 1: "create_tasks ucHeap tcb_size ds (?h0, sched_zero) = Some (ts, h1, s1)"
    and 2: "vTaskStartScheduler ucHeap tcb_size (h1, s1) = Some (i, h, s)"
    by (auto simp: boot_def bind_eq_Some_conv)
  from 2 obtain s2 where 3: "xTaskCreate ucHeap tcb_size 190 0 (h1, s1) = Some (i, h, s2)" "i \<noteq> 0"
    "s = s2\<lparr>xNextTaskUnblockTime := portMAX_DELAY, xSchedulerRunning := True, clock := (clock s2)\<lparr>xTickCount := 0\<rparr>\<rparr>"
    by (auto simp: vTaskStartScheduler_def prvCreateIdleTasks_def bind_eq_Some_conv split: if_splits)
  have "booting ucHeap 0 ?h0 sched_zero"
    using heap by (simp add: booting_def heap_inv_def zero_lists) (simp add: sched_zero_def)
  from create_tasks_run [OF this size 1] have b: "booting ucHeap (length ds) h1 s1" "length ts = length ds" "distinct ts"
    "\<And>u. at s1 (state_item u) \<noteq> None \<Longrightarrow> u \<in> set ts" "\<forall>(t, d, p) \<in> set (zip ts ds). at s1 (state_item t) = Some (unat p)"
    by (auto simp: zero_lists)
  from booting_step [OF b(1) size 3(1,2)] have c: "booting ucHeap (Suc (length ds)) h s2" "starting s2" "fresh i s1"
    "at s2 = (at s1)(state_item i := Some 0)" "uxPriority s2 = (uxPriority s1)(i := 0)" by auto
  have low: "at s2 j = Some l \<Longrightarrow> l < 5" for j l using c(2) by (auto simp: starting_def)
  have on: "at s1 (state_item t) \<noteq> None" if "t \<in> set ts" for t
  proof -
    from that obtain k where k: "k < length ts" "ts ! k = t" by (auto simp: in_set_conv_nth)
    with b(2) have "zip ts ds ! k = (t, ds ! k)" "k < length (zip ts ds)" by simp_all
    then have "(t, ds ! k) \<in> set (zip ts ds)" by (metis nth_mem)
    with b(5) show ?thesis by (cases "ds ! k") auto
  qed
  have rd: "ready s u \<longleftrightarrow> u \<in> set (i # ts)" for u
  proof -
    have "ready s u \<longleftrightarrow> at s2 (state_item u) \<noteq> None" using low [of "state_item u"] by (auto simp: ready_def 3(3))
    also have "\<dots> \<longleftrightarrow> u = i \<or> at s1 (state_item u) \<noteq> None" by (simp add: c(4))
    finally show ?thesis using on b(4) by auto
  qed
  have i: "i \<notin> set ts" using on [of i] c(3) by (auto simp: fresh_def)
  have "unat (uxCurrentNumberOfTasks s2) = Suc (length ds)"
    using c(1) n u32_of_nat [of "Suc (length ds)"] by (simp add: booting_def)
  then have "0 < uxCurrentNumberOfTasks s2" by (metis nat.distinct(1) unat_0 word_gt_0)
  moreover have "ready s2 i" using c(4) by (simp add: ready_def)
  ultimately have "steady {} i s" "top_ready s (pxCurrentTCB s)" using starting_steady [OF c(2) _ _ 3(3)] by blast+
  moreover have "uxPriority s i = 0" using c(5) by (simp add: 3(3))
  moreover have "uxPriority s t = p" if "(t, d, p) \<in> set (zip ts ds)" for t d p
  proof -
    have t: "t \<in> set ts" using that by (rule set_zip_leftD)
    with that b(5) i have "at s (state_item t) = Some (unat p)" by (auto simp: c(4) 3(3))
    moreover have "ready s t" using rd t by simp
    ultimately have "unat (uxPriority s t) = unat p" using steady_at [OF \<open>steady {} i s\<close>] by force
    then show ?thesis by (simp add: word_unat_eq_iff)
  qed
  ultimately show ?thesis using c(2) b(2,3) i rd by (auto simp: 3(3) starting_def)
qed

section \<open>The program starts\<close>

lemma malloc_succeeds:
  assumes "heap_inv ucHeap h" "0 < rounded n" "unat (xNextFreeByte h) + rounded n < 8184"
  obtains p h' where "pvPortMalloc ucHeap n h = (p, h')" "p \<noteq> 0" "unat p mod 8 = 0" "heap_inv ucHeap h'"
    "unat (xNextFreeByte h') = unat (xNextFreeByte h) + rounded n"
proof -
  define h' where "h' = h\<lparr>pucAlignedHeap := aligned_base ucHeap, xNextFreeByte := xNextFreeByte h + of_nat (rounded n)\<rparr>"
  define p where "p = aligned_base ucHeap + xNextFreeByte h"
  have m: "pvPortMalloc ucHeap n h = (p, h')"
    using assms(2,3) by (simp add: pvPortMalloc_spec [OF assms(1)] h'_def p_def)
  have base: "0 < unat ucHeap" "unat ucHeap + 8192 \<le> 2 ^ 32" using assms(1) by (simp_all add: heap_inv_def)
  note r = aligned_base_range [OF base]
  have "unat p = unat (aligned_base ucHeap) + unat (xNextFreeByte h)"
    using assms(3) r(2) base(2) unfolding p_def by (simp add: unat_word_ariths)
  then have nz: "p \<noteq> 0" using r(1) base(1) by auto
  have "unat (xNextFreeByte h') = unat (xNextFreeByte h) + rounded n"
    using assms(3) by (simp add: h'_def unat_word_ariths unat_of_nat)
  with conjunct1 [OF heap1.malloc_block [OF assms(1) m nz]] heap1.malloc_inv [OF assms(1) m]
  show ?thesis by (rule that [OF m nz])
qed

lemma create_succeeds:
  assumes "heap_inv ucHeap h" "0 < rounded tcb_size" "p < 5" "unat (xNextFreeByte h) + 760 + rounded tcb_size < 8184"
  obtains t h' s' where "xTaskCreate ucHeap tcb_size 190 p (h, s) = Some (t, h', s')" "t \<noteq> 0" "heap_inv ucHeap h'"
    "unat (xNextFreeByte h') = unat (xNextFreeByte h) + 760 + rounded tcb_size"
proof -
  have r: "rounded 760 = 760" "(190 * 4 :: u32) = 760" by (simp_all add: rounded_def)
  have fits: "0 < rounded 760" "unat (xNextFreeByte h) + rounded 760 < 8184" using assms(4) by (simp_all add: r(1))
  from malloc_succeeds [OF assms(1) fits] obtain st h1 where
    1: "pvPortMalloc ucHeap 760 h = (st, h1)" "st \<noteq> 0" "heap_inv ucHeap h1"
      "unat (xNextFreeByte h1) = unat (xNextFreeByte h) + 760" unfolding r(1) by metis
  from assms(4) 1(4) have "unat (xNextFreeByte h1) + rounded tcb_size < 8184" by simp
  from malloc_succeeds [OF 1(3) assms(2) this] obtain q h2 where
    2: "pvPortMalloc ucHeap tcb_size h1 = (q, h2)" "q \<noteq> 0" "unat q mod 8 = 0" "heap_inv ucHeap h2"
      "unat (xNextFreeByte h2) = unat (xNextFreeByte h) + 760 + rounded tcb_size" unfolding 1(4) by metis
  let ?t = "unat q div 8"
  have "unat q \<noteq> 0" using 2(2) by (simp add: unat_eq_zero)
  then have t: "?t \<noteq> 0" using 2(3) by auto
  have "xTaskCreate ucHeap tcb_size 190 p (h, s) =
      Some (?t, h2, prvAddNewTaskToReadyList ?t (new_tcb p ?t s))"
    using t 1(1,2) 2(1,2) by (simp add: xTaskCreate_def prvCreateTask_def Let_def r(2) new_tcb_run [OF assms(3)])
  with that t 2(4,5) show ?thesis by blast
qed

lemma main_boot_run:
  assumes heap: "0 < unat ucHeap" "unat ucHeap + 8192 \<le> 2 ^ 32" and size: "0 < tcb_size" "tcb_size \<le> 1960"
  obtains t u i h s where "main_boot ucHeap tcb_size = Some ([t, u], i, h, s)"
proof -
  have r: "0 < rounded tcb_size" "rounded tcb_size \<le> 1960"
  proof -
    have "0 < unat tcb_size" "unat tcb_size \<le> 1960"
      using size by (simp_all add: unat_gt_0 word_le_nat_alt word_gt_0)
    then obtain m where "m = (unat tcb_size + 7) div 8" "0 < m" "m \<le> 245" by auto
    then show "0 < rounded tcb_size" "rounded tcb_size \<le> 1960" by (simp_all add: rounded_def Let_def)
  qed
  let ?h = "\<lparr>pucAlignedHeap = 0, xNextFreeByte = 0\<rparr> :: heap_1"
  have low: "(0 :: u32) < 5" "(1 :: u32) < 5" "(2 :: u32) < 5" by simp_all
  have h: "heap_inv ucHeap ?h" using heap by (simp add: heap_inv_def)
  have "unat (xNextFreeByte ?h) + 760 + rounded tcb_size < 8184" using r(2) by simp
  from create_succeeds [OF h r(1) low(2) this, where s = sched_zero] obtain t h1 s1 where
    1: "xTaskCreate ucHeap tcb_size 190 1 (?h, sched_zero) = Some (t, h1, s1)" "t \<noteq> 0" "heap_inv ucHeap h1"
      "unat (xNextFreeByte h1) = unat (xNextFreeByte ?h) + 760 + rounded tcb_size" by blast
  have "unat (xNextFreeByte h1) + 760 + rounded tcb_size < 8184" using r(2) 1(4) by simp
  from create_succeeds [OF 1(3) r(1) low(3) this, where s = s1] obtain u h2 s2 where
    2: "xTaskCreate ucHeap tcb_size 190 2 (h1, s1) = Some (u, h2, s2)" "u \<noteq> 0" "heap_inv ucHeap h2"
      "unat (xNextFreeByte h2) = unat (xNextFreeByte h1) + 760 + rounded tcb_size" by blast
  have "unat (xNextFreeByte h2) + 760 + rounded tcb_size < 8184" using r(2) 1(4) 2(4) by simp
  from create_succeeds [OF 2(3) r(1) low(1) this, where s = s2] obtain i h3 s3 where
    3: "xTaskCreate ucHeap tcb_size 190 0 (h2, s2) = Some (i, h3, s3)" "i \<noteq> 0" by blast
  show ?thesis
    using 1 2 3 by (intro that [of t u i h3]) (simp add: main_boot_def boot_def vTaskStartScheduler_def prvCreateIdleTasks_def)
qed

end
