(* ===== verification/Rtos_Kernel.thy ===== *)
theory Rtos_Kernel
  imports Rtos_Boot
begin

text \<open>
  The kernel as a state machine: what the interrupts and the tasks may call, and when. A call of a task
  is one step; a task acts while no context switch is pending, and the idle task does not block. The
  reachable states start with what main does and satisfy the invariant of Rtos_Steady.
\<close>

section \<open>Calls\<close>

datatype kernel_call =
  Tick_interrupt | Yield_interrupt | Delay u32 | Delay_until u32 u32 | Suspend_all | Resume_all |
  Block_on nat u32 | Signal nat | Suspend nat | Resume nat | Resume_from_ISR nat |
  Set_priority nat u32 | Inherit nat | Disinherit |
  Disinherit_after_timeout nat u32 | Count_mutex | Create u32 nat

fun perform :: "kernel_call \<Rightarrow> sched \<Rightarrow> sched option" where
  "perform Tick_interrupt s = vPortIncrementTick s"
| "perform Yield_interrupt s = vPortYieldISR s"
| "perform (Delay n) s = vTaskDelay n s"
| "perform (Delay_until previous n) s = map_option (\<lambda>(_, _, s). s) (xTaskDelayUntil (Some previous) n s)"
| "perform Suspend_all s = Some (vTaskSuspendAll s)"
| "perform Resume_all s = map_option snd (xTaskResumeAll s)"
| "perform (Block_on l n) s = block_on l n s"
| "perform (Signal l) s = map_option yield_if (xTaskRemoveFromEventList l s)"
| "perform (Suspend h) s = vTaskSuspend h s"
| "perform (Resume t) s = vTaskResume t s"
| "perform (Resume_from_ISR t) s = map_option yield_if (xTaskResumeFromISR t s)"
| "perform (Set_priority h p) s = vTaskPrioritySet h p s"
| "perform (Inherit t) s = map_option snd (xTaskPriorityInherit t s)"
| "perform Disinherit s = map_option yield_if (xTaskPriorityDisinherit (pxCurrentTCB s) s)"
| "perform (Disinherit_after_timeout t w) s = vTaskPriorityDisinheritAfterTimeout t w s"
| "perform Count_mutex s = Some (snd (pvTaskIncrementMutexHeldCount s))"
| "perform (Create p t) s = map_option (prvAddNewTaskToReadyList t) (prvInitialiseNewTask p t (clear_tcb t s))"

text \<open>
  \<open>E\<close> are the event lists that exist and \<open>i\<close> is the idle task. A delay with the scheduler suspended is
  an error of the caller; so is anything but a task as an argument.
\<close>

definition may_wait :: "nat \<Rightarrow> sched \<Rightarrow> bool" where
  "may_wait i s \<longleftrightarrow> uxSchedulerSuspended s = 0 \<and> \<not> yield_requested s \<and> pxCurrentTCB s \<noteq> i"

text \<open>
  The code of a wait for a mutex that times out needs the task that waited, or another one, on the ready
  list of the old priority of the holder.
\<close>

definition same_priority_ready :: "nat \<Rightarrow> sched \<Rightarrow> bool" where
  "same_priority_ready t s \<longleftrightarrow> (\<exists>v. v \<noteq> t \<and> ready s v \<and> uxPriority s v = uxPriority s t)"

fun permitted :: "nat set \<Rightarrow> nat \<Rightarrow> kernel_call \<Rightarrow> sched \<Rightarrow> bool" where
  "permitted E i Tick_interrupt s \<longleftrightarrow> True"
| "permitted E i Yield_interrupt s \<longleftrightarrow> yield_requested s"
| "permitted E i (Delay n) s \<longleftrightarrow> may_wait i s"
| "permitted E i (Delay_until previous n) s \<longleftrightarrow> may_wait i s \<and> n \<noteq> 0"
| "permitted E i Suspend_all s \<longleftrightarrow> acting s \<and> uxSchedulerSuspended s < 0xFFFFFFFF"
| "permitted E i Resume_all s \<longleftrightarrow> uxSchedulerSuspended s \<noteq> 0"
| "permitted E i (Block_on l n) s \<longleftrightarrow> uxSchedulerSuspended s = 1 \<and> pxCurrentTCB s \<noteq> i \<and> l \<in> E \<and> n \<noteq> 0"
| "permitted E i (Signal l) s \<longleftrightarrow> l \<in> E \<and> \<not> listLIST_IS_EMPTY l (lists s)"
| "permitted E i (Suspend h) s \<longleftrightarrow> acting s \<and>
     (let t = prvGetTCBFromHandle h s
      in t \<noteq> i \<and> at s (state_item t) \<noteq> None \<and>
         (t = pxCurrentTCB s \<longrightarrow> xSchedulerRunning s \<and> uxSchedulerSuspended s = 0))"
| "permitted E i (Resume t) s \<longleftrightarrow> acting s \<and> t \<noteq> 0"
| "permitted E i (Resume_from_ISR t) s \<longleftrightarrow> t \<noteq> 0"
| "permitted E i (Set_priority h p) s \<longleftrightarrow> acting s \<and> p < 5"
| "permitted E i (Inherit t) s \<longleftrightarrow> acting s \<and> t \<noteq> 0"
| "permitted E i Disinherit s \<longleftrightarrow> acting s \<and> uxMutexesHeld s (pxCurrentTCB s) \<noteq> 0"
| "permitted E i (Disinherit_after_timeout t w) s \<longleftrightarrow> acting s \<and> w < 5 \<and> (t = 0 \<or> uxMutexesHeld s t \<noteq> 0) \<and>
     (t \<noteq> 0 \<and> falls_back t w s \<longrightarrow> t \<noteq> pxCurrentTCB s \<and>
        (w \<le> uxPriority s (pxCurrentTCB s) \<or> w \<le> uxPriority s t) \<and>
        (ready s t \<longrightarrow> same_priority_ready t s))"
| "permitted E i Count_mutex s \<longleftrightarrow> acting s"
| "permitted E i (Create p t) s \<longleftrightarrow>
     acting s \<and> xSchedulerRunning s \<and> p < 5 \<and> fresh t s \<and> uxCurrentNumberOfTasks s + 1 \<noteq> 0"

section \<open>Every call keeps the invariant\<close>

lemma signal_list: "steady E i s \<Longrightarrow> permitted E i (Signal l) s \<Longrightarrow> \<exists>j. at s j = Some l"
  using linked_empty [OF core_linked(1) [OF steadyD(2)]] by (auto simp: listLIST_IS_EMPTY_def)

lemma handle_task: "steady E i s \<Longrightarrow> prvGetTCBFromHandle h s \<noteq> 0"
  using steadyD(9) by (simp add: prvGetTCBFromHandle_def)

lemma perform_steady:
  assumes ok: "steady E i s" and may: "permitted E i c s"
  shows "\<exists>s'. perform c s = Some s' \<and> steady E i s'"
proof (cases c)
  case Tick_interrupt
  with steady_tick_run [OF ok] pended_tick [OF ok] show ?thesis by (cases "uxSchedulerSuspended s = 0") auto
next
  case Yield_interrupt
  with switch_steady [OF ok] switch_waits [OF ok] show ?thesis by (cases "uxSchedulerSuspended s = 0") auto
next
  case (Delay n)
  show ?thesis
  proof (cases "n = 0")
    case True
    then have "vTaskDelay n s = Some (portYIELD s)" by (simp add: vTaskDelay_def yield_unless_def)
    with Delay steady_yield [OF ok] show ?thesis by simp
  next
    case False
    with Delay vTaskDelay_run [OF ok, of n] may show ?thesis by (auto simp: may_wait_def)
  qed
next
  case (Delay_until previous n)
  with xTaskDelayUntil_run [OF ok, of n previous] may show ?thesis by (auto simp: may_wait_def)
next
  case Suspend_all
  with suspend_all_steady [OF ok] may show ?thesis by simp
next
  case Resume_all
  with resume_all_steady [OF ok] may show ?thesis by auto
next
  case (Block_on l n)
  with block_on_run [OF ok, of l n] may show ?thesis by auto
next
  case (Signal l)
  with signal_list [OF ok, of l] may obtain j where "l \<in> E" "at s j = Some l" by auto
  with Signal signal_ready_run [OF ok] signal_pending_run [OF ok] show ?thesis
    by (cases "uxSchedulerSuspended s = 0") fastforce+
next
  case (Suspend h)
  with vTaskSuspend_run [OF ok] may show ?thesis by (auto simp: Let_def)
next
  case (Resume t)
  with vTaskResume_run [OF ok] may show ?thesis by auto
next
  case (Resume_from_ISR t)
  with may have "t \<noteq> 0" by simp
  from xTaskResumeFromISR_run [OF ok this] show ?thesis unfolding Resume_from_ISR perform.simps by blast
next
  case (Set_priority h p)
  with vTaskPrioritySet_run [OF ok _ refl handle_task [OF ok]] may show ?thesis by auto
next
  case (Inherit t)
  with may have "t \<noteq> 0" by simp
  from xTaskPriorityInherit_run [OF ok this] obtain r s' where
    "xTaskPriorityInherit t s = Some (r, s')" "steady E i s'" by blast
  then show ?thesis unfolding Inherit perform.simps by simp
next
  case Disinherit
  with may have "acting s" "uxMutexesHeld s (pxCurrentTCB s) \<noteq> 0" by simp_all
  from xTaskPriorityDisinherit_run [OF ok this(1) refl this(2)] obtain y s' where
    "xTaskPriorityDisinherit (pxCurrentTCB s) s = Some (y, s')" "steady E i (yield_if (y, s'))" by blast
  then show ?thesis unfolding Disinherit perform.simps by simp
next
  case (Disinherit_after_timeout t w)
  with may have w: "w < 5" "t = 0 \<or> uxMutexesHeld s t \<noteq> 0"
    and fall: "t \<noteq> 0 \<Longrightarrow> falls_back t w s \<Longrightarrow> t \<noteq> pxCurrentTCB s \<and>
      (w \<le> uxPriority s (pxCurrentTCB s) \<or> w \<le> uxPriority s t) \<and>
      (ready s t \<longrightarrow> (\<exists>v. v \<noteq> t \<and> ready s v \<and> uxPriority s v = uxPriority s t))"
    by (auto simp: same_priority_ready_def)
  from vTaskPriorityDisinheritAfterTimeout_run [OF ok w fall] show ?thesis
    unfolding Disinherit_after_timeout perform.simps by blast
next
  case Count_mutex
  with ok show ?thesis by (simp add: pvTaskIncrementMutexHeldCount_def Let_def)
next
  case (Create p t)
  with create_running(1) [OF ok] may new_tcb_run show ?thesis by simp
qed

section \<open>Reachable states\<close>

inductive reachable :: "nat \<Rightarrow> nat set \<Rightarrow> sched \<Rightarrow> bool" for i where
  started: "0 < unat ucHeap \<Longrightarrow> unat ucHeap + 8192 \<le> 2 ^ 32 \<Longrightarrow> 0 < tcb_size \<Longrightarrow> length ds + 1 < 2 ^ 32 \<Longrightarrow>
    boot ucHeap tcb_size ds = Some (ts, i, h, s) \<Longrightarrow> reachable i {} s"
| called: "reachable i E s \<Longrightarrow> permitted E i c s \<Longrightarrow> perform c s = Some s' \<Longrightarrow> reachable i E s'"
| new_list: "reachable i E s \<Longrightarrow> 9 < l \<Longrightarrow> l \<notin> E \<Longrightarrow>
    reachable i (insert l E) (on_lists (vListInitialise l) s)"

lemma steady_new_list:
  assumes ok: "steady E i s" and l: "9 < l" "l \<notin> E"
  shows "steady (insert l E) i (on_lists (vListInitialise l) s)"
proof -
  define s' where "s' = on_lists (vListInitialise l) s"
  note d = steadyD [OF ok] note core = core_linked [OF d(2)]
  have "l \<notin> {0..9} \<union> E" using l by auto
  note i = linked_init [OF core(1) this]
  have f: "at s' = at s" "lists s' = vListInitialise l (lists s)" "item_value s' j = item_value s j" for j
    using i(2,4) by (simp_all add: s'_def on_lists_def)
  have g: "uxPriority s' = uxPriority s" "uxBasePriority s' = uxBasePriority s" "pxCurrentTCB s' = pxCurrentTCB s"
    "clock s' = clock s" "uxTopReadyPriority s' = uxTopReadyPriority s" "xPendedTicks s' = xPendedTicks s"
    "pxDelayedTaskList s' = pxDelayedTaskList s" "pxOverflowDelayedTaskList s' = pxOverflowDelayedTaskList s"
    "xNextTaskUnblockTime s' = xNextTaskUnblockTime s" "xYieldPendings s' = xYieldPendings s"
    "uxSchedulerSuspended s' = uxSchedulerSuspended s" "yield_requested s' = yield_requested s"
    "uxCurrentNumberOfTasks s' = uxCurrentNumberOfTasks s" by (simp_all add: s'_def on_lists_def)
  have "insert l ({0..9} \<union> E) = {0..9} \<union> insert l E" by auto
  then have "linked (lists s') ({0..9} \<union> insert l E)" using i(1) by (simp add: f(2))
  moreover have "placed_ok (insert l E) (uxPriority s) (at s)" using core(2) unfolding placed_ok_def by auto
  ultimately have "core_ok (insert l E) s'"
    using d(2) l(1) i(2,3) by (simp add: core_ok_def lists_ok_def priorities_ok_def f g)
  then have "live_ok (insert l E) s'"
    using d(3,9,10) by (simp add: live_ok_def base_core times_ok_def f(1,3) g del: One_nat_def)
  with ok show ?thesis unfolding s'_def [symmetric]
    by (simp add: steady_def all_moved_def acting_def preempting_def top_ready_def ready_def pending_def f(1) g)
qed

lemma reachable_steady: "reachable i E s \<Longrightarrow> steady E i s"
proof (induction rule: reachable.induct)
  case (started ucHeap tcb_size ds ts h s)
  from boot_run [OF started(1,2,3,5,4)] show ?case by blast
next
  case (called E s c s')
  from perform_steady [OF called.IH called.hyps(2)] called.hyps(3) show ?case by auto
next
  case (new_list E s l)
  then show ?case by (intro steady_new_list)
qed

text \<open>
  The state main leads to: its two tasks of priorities 1 and 2 and the idle task are ready and the second
  task runs. The tasks are named by where the heap puts them.
\<close>

definition started_with :: "nat \<Rightarrow> nat \<Rightarrow> nat \<Rightarrow> sched \<Rightarrow> bool" where
  "started_with t u i s \<longleftrightarrow>
     pxCurrentTCB s = u \<and> uxPriority s t = 1 \<and> uxPriority s u = 2 \<and> uxPriority s i = 0 \<and>
     distinct [i, t, u] \<and> 0 \<notin> {i, t, u} \<and> Collect (ready s) = {i, t, u} \<and>
     xSchedulerRunning s \<and> uxSchedulerSuspended s = 0 \<and> \<not> yield_requested s"

lemma main_started:
  assumes heap: "0 < unat ucHeap" "unat ucHeap + 8192 \<le> 2 ^ 32" and size: "0 < tcb_size" "tcb_size \<le> 1960"
  shows "\<exists>t u i h s. main_boot ucHeap tcb_size = Some ([t, u], i, h, s) \<and> reachable i {} s \<and> started_with t u i s"
proof -
  from main_boot_run [OF heap size] obtain t u i h s where
    m: "main_boot ucHeap tcb_size = Some ([t, u], i, h, s)" by blast
  note m' = m [unfolded main_boot_def]
  have len: "length [(190 :: u32, 1 :: u32), (190, 2)] + 1 < 2 ^ 32" by simp
  have r: "reachable i {} s" by (rule reachable.started [OF heap size(1) len m'])
  from boot_run [OF heap size(1) m' len] have
    b: "steady {} i s" "top_ready s (pxCurrentTCB s)" "\<not> yield_requested s" "xSchedulerRunning s"
      "uxSchedulerSuspended s = 0" "distinct [i, t, u]" "uxPriority s i = 0"
      "\<And>x. ready s x \<longleftrightarrow> x \<in> {i, t, u}" "uxPriority s t = 1" "uxPriority s u = 2" by auto
  have "pxCurrentTCB s = u"
  proof -
    from b(2) have "ready s (pxCurrentTCB s)" "uxPriority s u \<le> uxPriority s (pxCurrentTCB s)"
      using b(8) by (auto simp: top_ready_def)
    moreover have "\<not> (2 :: u32) \<le> 1" "\<not> (2 :: u32) \<le> 0" by (simp_all add: word_le_nat_alt)
    ultimately show ?thesis using b(7-10) by auto
  qed
  moreover have "x \<noteq> 0" if "x \<in> {i, t, u}" for x
  proof -
    from that b(8) have "ready s x" by blast
    then obtain l where "at s (state_item x) = Some l" by (auto simp: ready_def)
    with task_items(5) [OF steadyD(2) [OF b(1)]] show ?thesis .
  qed
  moreover have "Collect (ready s) = {i, t, u}" using b(8) by auto
  ultimately have "started_with t u i s" using b(3-7,9,10) unfolding started_with_def by auto
  with m r show ?thesis by blast
qed

definition main_state :: "(nat list \<times> nat \<times> heap_1 \<times> sched) option" where
  "main_state = main_boot 0xA0000000 96"

lemma main_reachable:
  obtains t u i h s where "main_state = Some ([t, u], i, h, s)" "reachable i {} s" "started_with t u i s"
proof -
  have "0 < unat (0xA0000000 :: u32)" "unat (0xA0000000 :: u32) + 8192 \<le> 2 ^ 32"
    "0 < (96 :: u32)" "(96 :: u32) \<le> 1960" by simp_all
  from main_started [OF this] that show ?thesis unfolding main_state_def by blast
qed

end
