(* ===== verification/Rtos_Queue_Kernel.thy ===== *)
theory Rtos_Queue_Kernel
  imports Rtos_Queue_Contract Rtos_Kernel
begin

text \<open>
  The queues of src/FreeRTOS/queue.c on the scheduler of src/FreeRTOS/tasks.c: the parameter of the
  model of the queues, what queue.c calls in tasks.c, is given by the model of the scheduler. The state
  of the kernel is \<open>None\<close> once one of its assertions has failed. The handle of a task is the address of its
  control block, 8 times the number that names it.
\<close>

section \<open>The scheduler as the kernel of a queue\<close>

definition task_of :: "u32 \<Rightarrow> nat" where
  "task_of h = unat h div 8"

definition handle_of :: "nat \<Rightarrow> u32" where
  "handle_of t = of_nat (8 * t)"

definition on_sched :: "(sched \<Rightarrow> sched option) \<Rightarrow> sched option \<Rightarrow> sched option" where
  "on_sched f k = Option.bind k f"

definition asking :: "(sched \<Rightarrow> (bool \<times> sched) option) \<Rightarrow> sched option \<Rightarrow> bool \<times> sched option" where
  "asking f k = (case Option.bind k f of None \<Rightarrow> (False, None) | Some (b, s) \<Rightarrow> (b, Some s))"

definition reading :: "'a \<Rightarrow> (sched \<Rightarrow> 'a) \<Rightarrow> sched option \<Rightarrow> 'a" where
  "reading d f k = (case k of None \<Rightarrow> d | Some s \<Rightarrow> f s)"

text \<open>\<open>w\<close> names the two event lists of the queue.\<close>

definition sched_kernel :: "(wait_list \<Rightarrow> nat) \<Rightarrow> (sched option qstate \<Rightarrow> sched option qstate option) \<Rightarrow>
    (sched option qstate \<Rightarrow> sched option qstate option) \<Rightarrow> sched option kernel" where
  "sched_kernel w oth isr = kernel.make
     (\<lambda>l. reading True (\<lambda>s. listLIST_IS_EMPTY (w l) (lists s)))
     (on_sched (\<lambda>s. Some (on_lists (vListInitialise (w xTasksWaitingToReceive))
        (on_lists (vListInitialise (w xTasksWaitingToSend)) s))))
     (\<lambda>l. reading 0 (listGET_ITEM_VALUE_OF_HEAD_ENTRY (w l)))
     (\<lambda>l. asking (Rtos_Task_Api.xTaskRemoveFromEventList (w l)))
     (\<lambda>l n. on_sched (Rtos_Task_Api.vTaskPlaceOnEventList (w l) n))
     (on_sched (\<lambda>s. Some (portYIELD s)))
     (on_sched (\<lambda>s. Some (Rtos_Task_Api.vTaskMissedYield s)))
     (on_sched (\<lambda>s. Some (Rtos_Task.vTaskSuspendAll s)))
     (asking Rtos_Task.xTaskResumeAll)
     (reading False (\<lambda>s. uxSchedulerSuspended s \<noteq> 0))
     (reading 0 uxCurrentNumberOfTasks)
     (reading 0 (\<lambda>s. handle_of (pxCurrentTCB s)))
     (\<lambda>k. (reading 0 (\<lambda>s. handle_of (fst (Rtos_Task_Api.pvTaskIncrementMutexHeldCount s))) k,
        on_sched (\<lambda>s. Some (snd (Rtos_Task_Api.pvTaskIncrementMutexHeldCount s))) k))
     (\<lambda>h. asking (Rtos_Task_Api.xTaskPriorityInherit (task_of h)))
     (\<lambda>h. asking (Rtos_Task_Api.xTaskPriorityDisinherit (task_of h)))
     (\<lambda>h p. on_sched (Rtos_Task_Api.vTaskPriorityDisinheritAfterTimeout (task_of h) p))
     (reading \<lparr>xTickCount = 0, xNumOfOverflows = 0\<rparr> clock)
     oth isr"

lemma lifted [simp]:
  "on_sched f None = None" "on_sched f (Some s) = f s" "asking g None = (False, None)"
  "asking g (Some s) = (case g s of None \<Rightarrow> (False, None) | Some (b, t) \<Rightarrow> (b, Some t))"
  "reading d h None = d" "reading d h (Some s) = h s"
  by (simp_all add: on_sched_def asking_def reading_def)

lemma sched_kernel_fields [simp]:
  "listIS_EMPTY (sched_kernel w oth isr) l = reading True (\<lambda>s. listLIST_IS_EMPTY (w l) (lists s))"
  "kernel.xTaskRemoveFromEventList (sched_kernel w oth isr) l = asking (Rtos_Task_Api.xTaskRemoveFromEventList (w l))"
  "kernel.vTaskPlaceOnEventList (sched_kernel w oth isr) l n = on_sched (Rtos_Task_Api.vTaskPlaceOnEventList (w l) n)"
  "portYIELD_WITHIN_API (sched_kernel w oth isr) = on_sched (\<lambda>s. Some (portYIELD s))"
  "kernel.vTaskMissedYield (sched_kernel w oth isr) = on_sched (\<lambda>s. Some (Rtos_Task_Api.vTaskMissedYield s))"
  "kernel.vTaskSuspendAll (sched_kernel w oth isr) = on_sched (\<lambda>s. Some (Rtos_Task.vTaskSuspendAll s))"
  "kernel.xTaskResumeAll (sched_kernel w oth isr) = asking Rtos_Task.xTaskResumeAll"
  "scheduler_suspended (sched_kernel w oth isr) = reading False (\<lambda>s. uxSchedulerSuspended s \<noteq> 0)"
  "kernel_clock (sched_kernel w oth isr) = reading \<lparr>xTickCount = 0, xNumOfOverflows = 0\<rparr> clock"
  "others (sched_kernel w oth isr) = oth" "interrupts (sched_kernel w oth isr) = isr"
  by (simp_all add: sched_kernel_def kernel.defs)

section \<open>Between placing itself on an event list and resuming the scheduler\<close>

definition blocking :: "nat set \<Rightarrow> nat \<Rightarrow> sched \<Rightarrow> bool" where
  "blocking E i s \<longleftrightarrow> live_ok E s \<and> ready s i \<and> uxSchedulerSuspended s = 1 \<and> uxCurrentNumberOfTasks s > 0"

lemma steady_blocking:
  "steady E i s \<Longrightarrow> uxSchedulerSuspended s = 1 \<Longrightarrow> blocking E i s"
  using steadyD(1,4,5) by (auto simp: blocking_def)

lemma blocking_core: "blocking E i s \<Longrightarrow> core_ok E s"
  by (simp add: blocking_def live_ok_def base_core)

lemma steady_missed: "steady E i s \<Longrightarrow> steady E i (s\<lparr>xYieldPendings := True\<rparr>)"
  by (simp add: steady_def all_moved_def acting_def preempting_def pending_def ready_def)

lemma blocking_missed: "blocking E i s \<Longrightarrow> blocking E i (s\<lparr>xYieldPendings := True\<rparr>)"
  by (simp add: blocking_def ready_def)

lemma pend_blocking:
  assumes ok: "blocking E i s" and st: "at s (state_item t) \<in> {Some 5, Some 6, Some 9}"
    and k: "kept_linked ({0..9} \<union> E) s ((at s)(event_item t := None)) (uxTopReadyPriority s) s1"
  shows "blocking E i (on_lists (vListInsertEnd xPendingReadyList (event_item t)) s1)"
    "relinked s (on_lists (vListInsertEnd xPendingReadyList (event_item t)) s1)"
proof -
  let ?s = "on_lists (vListInsertEnd xPendingReadyList (event_item t)) s1"
  let ?L = "{0..9} \<union> E"
  note core = blocking_core [OF ok]
  from ok have live: "live_ok E s" and times: "times_ok s"
    and cur: "pxCurrentTCB s \<noteq> 0" "at s (state_item (pxCurrentTCB s)) \<noteq> None"
    by (simp_all add: blocking_def live_ok_def base_core)
  from st obtain k where "at s (state_item t) = Some k" by auto
  note b = task_items [OF core this]
  have "kept_linked ?L s1 ((at s1)(event_item t := Some 7)) (uxTopReadyPriority s1) ?s"
    using k b(1,2) by (intro insert_end_moves) (auto simp: kept_linked_def)
  from kept_linked_trans [OF k this] k
  have k': "kept_linked ?L s ((at s)(event_item t := Some 7)) (uxTopReadyPriority s) ?s" by (simp add: kept_linked_def)
  then have at': "at ?s = (at s)(event_item t := Some 7)" by (simp add: kept_linked_def)
  show r: "relinked s ?s" using k' by (simp add: kept_linked_def)
  note f = relinked_fields [OF r]
  have "placed_ok E (uxPriority s) ((at s)(event_item t := Some 7))"
    using core_linked(2) [OF core] st unfolding placed_ok_def by auto
  with core_relinked [OF core k'] core_linked(3,10) [OF core] have "core_ok E ?s" by simp
  moreover have "times_ok ?s" using times times_two [OF times] by (auto simp: times_ok_def two_lists_def f at')
  ultimately have "live_ok E ?s" using cur by (simp add: live_ok_def base_core f at')
  moreover have "ready ?s i" using ok by (simp add: blocking_def ready_def at')
  ultimately show "blocking E i ?s" using ok by (simp add: blocking_def f)
qed

lemma signal_suspended:
  assumes ok: "blocking E i s" and l: "l \<in> E" and j: "at s j = Some l"
  obtains b s' where "Rtos_Task_Api.xTaskRemoveFromEventList l s = Some (b, s')" "blocking E i s'"
    "pxCurrentTCB s' = pxCurrentTCB s" "steady E i s \<Longrightarrow> steady E i s'"
proof -
  note core = blocking_core [OF ok]
  from event_head [OF core l j] obtain t where t: "listGET_OWNER_OF_HEAD_ENTRY l (lists s) = t"
    "at s (event_item t) = Some l" "t \<noteq> 0" "at s (state_item t) \<in> {Some 5, Some 6, Some 9}" by blast
  from REMOVE_moves [OF core_linked(1) [OF core] t(2)] obtain s1 where
    1: "listREMOVE_ITEM (event_item t) s = Some s1"
      "kept_linked ({0..9} \<union> E) s ((at s)(event_item t := None)) (uxTopReadyPriority s) s1" .
  define s2 where "s2 = on_lists (vListInsertEnd xPendingReadyList (event_item t)) s1"
  have sus: "uxSchedulerSuspended s = 1" using ok by (simp add: blocking_def)
  then have sus1: "uxSchedulerSuspended s1 \<noteq> 0" using 1(2) relinked_fields(10) [of s s1] by (simp add: kept_linked_def)
  note p = pend_blocking [OF ok t(4) 1(2), folded s2_def]
  note f = relinked_fields [OF p(2)]
  have e: "Rtos_Task_Api.xTaskRemoveFromEventList l s = Some (wake t s2)"
    using t(1,3) 1(1) sus1 by (simp add: xTaskRemoveFromEventList_def s2_def)
  have st: "steady E i (snd (wake t s2))" if s: "steady E i s"
  proof -
    note q = pend_run(1) [OF s _ t(4) 1(2), folded s2_def]
    have "s2\<lparr>xYieldPendings := xYieldPendings s\<rparr> = s2" by (cases s2) (use f in simp)
    then show ?thesis using q [of False] q [of True] sus by (simp add: wake_split)
  qed
  show ?thesis
  proof (rule that)
    show "Rtos_Task_Api.xTaskRemoveFromEventList l s = Some (fst (wake t s2), snd (wake t s2))" using e by simp
    show "blocking E i (snd (wake t s2))" using p(1) blocking_missed by (simp add: wake_split)
    show "pxCurrentTCB (snd (wake t s2)) = pxCurrentTCB s" by (simp add: wake_split f)
  qed (rule st)
qed

section \<open>What the other tasks do\<close>

text \<open>
  While the calling task is not running, other tasks and interrupts make permitted calls of the kernel,
  until the calling task runs again; interrupts may make them while it has suspended the scheduler.
\<close>

inductive interleaves :: "nat set \<Rightarrow> nat \<Rightarrow> sched \<Rightarrow> sched \<Rightarrow> bool" for E i s where
  nothing: "interleaves E i s s"
| another: "interleaves E i s s' \<Longrightarrow> permitted E i c s' \<Longrightarrow> perform c s' = Some s'' \<Longrightarrow> interleaves E i s s''"

lemma interleaves_steady: "interleaves E i s s' \<Longrightarrow> steady E i s \<Longrightarrow> steady E i s'"
proof (induction rule: interleaves.induct)
  case (another s' c s'')
  from perform_steady [OF another.IH [OF another.prems] another.hyps(2)] another.hyps(3) show ?case by auto
qed

definition runs_again :: "nat set \<Rightarrow> nat \<Rightarrow> (sched option qstate \<Rightarrow> sched option qstate option) \<Rightarrow> bool" where
  "runs_again E i oth \<longleftrightarrow> (\<forall>s k s'. kern s = Some k \<longrightarrow> oth s = Some s' \<longrightarrow> pcHead (que s') = pcHead (que s) \<and>
     (\<exists>k'. kern s' = Some k' \<and> interleaves E i k k' \<and> pxCurrentTCB k' = pxCurrentTCB k \<and>
        uxSchedulerSuspended k' = 0 \<and> \<not> yield_requested k'))"

definition interrupted :: "nat set \<Rightarrow> nat \<Rightarrow> (sched option qstate \<Rightarrow> sched option qstate option) \<Rightarrow> bool" where
  "interrupted E i isr \<longleftrightarrow> (\<forall>s k s'. kern s = Some k \<longrightarrow> isr s = Some s' \<longrightarrow> pcHead (que s') = pcHead (que s) \<and>
     (\<exists>k'. kern s' = Some k' \<and> interleaves E i k k' \<and> pxCurrentTCB k' = pxCurrentTCB k \<and>
        uxSchedulerSuspended k' = uxSchedulerSuspended k))"

lemma remove_event_fields:
  assumes "Rtos_Task_Api.xTaskRemoveFromEventList l s = Some (b, s')"
  shows "pxCurrentTCB s' = pxCurrentTCB s" "uxSchedulerSuspended s' = uxSchedulerSuspended s"
proof -
  have r: "pxCurrentTCB y = pxCurrentTCB x \<and> uxSchedulerSuspended y = uxSchedulerSuspended x"
    if "listREMOVE_ITEM j x = Some y" for j x y
    using that by (auto simp: listREMOVE_ITEM_def remove_item_def)
  show "pxCurrentTCB s' = pxCurrentTCB s" "uxSchedulerSuspended s' = uxSchedulerSuspended s"
    using assms by (auto simp: xTaskRemoveFromEventList_def Let_def bind_eq_Some_conv wake_def on_lists_def
        prvAddTaskToReadyList_def portRECORD_READY_PRIORITY_def dest!: r split: if_splits)
qed

lemma event_waiting:
  assumes "core_ok E s" "l \<in> E" "\<not> listLIST_IS_EMPTY l (lists s)"
  obtains j where "at s j = Some l"
  using linked_empty [OF core_linked(1) [OF assms(1)], of l] assms(2,3) by (auto simp: listLIST_IS_EMPTY_def)

section \<open>The scheduler keeps the contract of the queues\<close>

text \<open>
  The task t is the caller: it runs with the scheduler running, with the scheduler suspended, or it has put
  itself on an event list.
\<close>

definition running :: "nat set \<Rightarrow> nat \<Rightarrow> nat \<Rightarrow> sched option \<Rightarrow> bool" where
  "running E i t k \<longleftrightarrow> (\<exists>s. k = Some s \<and> steady E i s \<and> uxSchedulerSuspended s = 0 \<and> pxCurrentTCB s = t)"

definition suspending :: "nat set \<Rightarrow> nat \<Rightarrow> nat \<Rightarrow> sched option \<Rightarrow> bool" where
  "suspending E i t k \<longleftrightarrow> (\<exists>s. k = Some s \<and> steady E i s \<and> uxSchedulerSuspended s = 1 \<and> pxCurrentTCB s = t)"

definition listed :: "nat set \<Rightarrow> nat \<Rightarrow> nat \<Rightarrow> sched option \<Rightarrow> bool" where
  "listed E i t k \<longleftrightarrow> (\<exists>s. k = Some s \<and> blocking E i s \<and> pxCurrentTCB s = t)"

definition plays_along where
  "plays_along E i t w oth isr \<longleftrightarrow> runs_again E i oth \<and> interrupted E i isr \<and> range w \<subseteq> E \<and> t \<noteq> i"

lemma plays_alongD:
  assumes "plays_along E i t w oth isr"
  shows "runs_again E i oth" "interrupted E i isr" "w l \<in> E" "t \<noteq> i"
  using assms by (auto simp: plays_along_def)

lemma sched_others:
  assumes "plays_along E i t w oth isr" "running E i t (kern s)" "oth s = Some s'"
  shows "pcHead (que s') = pcHead (que s) \<and> running E i t (kern s') \<and>
    suspending E i t (on_sched (\<lambda>s. Some (Rtos_Task.vTaskSuspendAll s)) (kern s'))"
proof -
  from assms(2) obtain k where k: "kern s = Some k" "steady E i k" "pxCurrentTCB k = t" by (auto simp: running_def)
  from plays_alongD(1) [OF assms(1)] k(1) assms(3) obtain k' where
    k': "kern s' = Some k'" "interleaves E i k k'" "pxCurrentTCB k' = pxCurrentTCB k"
      "uxSchedulerSuspended k' = 0" "\<not> yield_requested k'" "pcHead (que s') = pcHead (que s)" unfolding runs_again_def by metis
  from interleaves_steady [OF k'(2) k(2)] have st: "steady E i k'" .
  have "steady E i (Rtos_Task.vTaskSuspendAll k')" using k'(4,5) by (intro suspend_all_steady [OF st]) (simp_all add: acting_def)
  with st k' k(3) show ?thesis by (simp add: running_def suspending_def)
qed

lemma sched_interrupts:
  assumes "plays_along E i t w oth isr" "suspending E i t (kern s)" "isr s = Some s'"
  shows "pcHead (que s') = pcHead (que s) \<and> suspending E i t (kern s')"
proof -
  from assms(2) obtain k where k: "kern s = Some k" "steady E i k" "pxCurrentTCB k = t" "uxSchedulerSuspended k = 1"
    by (auto simp: suspending_def)
  from plays_alongD(2) [OF assms(1)] k(1) assms(3) obtain k' where
    k': "kern s' = Some k'" "interleaves E i k k'" "pxCurrentTCB k' = pxCurrentTCB k"
      "uxSchedulerSuspended k' = uxSchedulerSuspended k" "pcHead (que s') = pcHead (que s)" unfolding interrupted_def by metis
  from interleaves_steady [OF k'(2) k(2)] k' k(3,4) show ?thesis by (simp add: suspending_def)
qed

lemma sched_signal_running:
  assumes k: "running E i t (Some s)" and l: "l \<in> E" "\<not> listLIST_IS_EMPTY l (lists s)"
  obtains b s' where "Rtos_Task_Api.xTaskRemoveFromEventList l s = Some (b, s')" "running E i t (Some (if b then portYIELD s' else s'))"
proof -
  from k have st: "steady E i s" "uxSchedulerSuspended s = 0" "pxCurrentTCB s = t" by (simp_all add: running_def)
  have "permitted E i (Signal l) s" using l by simp
  from perform_steady [OF st(1) this] obtain b s' where
    1: "Rtos_Task_Api.xTaskRemoveFromEventList l s = Some (b, s')" "steady E i (yield_if (b, s'))" by auto
  note f = remove_event_fields [OF 1(1)]
  have "running E i t (Some (if b then portYIELD s' else s'))"
    using 1(2) st(2,3) f by (cases b) (simp_all add: yield_if_def running_def)
  with that 1(1) show ?thesis by blast
qed

lemma sched_signal:
  assumes "blocking E i s" "l \<in> E" "\<not> listLIST_IS_EMPTY l (lists s)"
  obtains b s' where "Rtos_Task_Api.xTaskRemoveFromEventList l s = Some (b, s')"
    "blocking E i (if b then s'\<lparr>xYieldPendings := True\<rparr> else s')" "pxCurrentTCB s' = pxCurrentTCB s"
    "steady E i s \<Longrightarrow> steady E i (if b then s'\<lparr>xYieldPendings := True\<rparr> else s')"
proof -
  from event_waiting [OF blocking_core [OF assms(1)] assms(2,3)] obtain j where "at s j = Some l" .
  from signal_suspended [OF assms(1,2) this] obtain b s' where
    1: "Rtos_Task_Api.xTaskRemoveFromEventList l s = Some (b, s')" "blocking E i s'" "pxCurrentTCB s' = pxCurrentTCB s"
      "steady E i s \<Longrightarrow> steady E i s'" by blast
  then show ?thesis using that blocking_missed steady_missed by (cases b) simp_all
qed

lemma resume_sound:
  assumes ok: "steady E i k" and sus: "uxSchedulerSuspended k = 1"
  obtains b k' where "Rtos_Task.xTaskResumeAll k = Some (b, k')" "steady E i k'" "uxSchedulerSuspended k' = 0"
    "pxCurrentTCB k' = pxCurrentTCB k"
proof -
  note d = steadyD [OF ok]
  from resume_run [OF d(1) sus d(5)] obtain b k' where
    1: "Rtos_Task.xTaskResumeAll k = Some (b, k')"
      "same_tasks (k\<lparr>uxSchedulerSuspended := 0, xPendedTicks := 0, yield_requested := yield_requested k \<or> b\<rparr>) k'" by blast
  moreover from resume_all_steady [OF ok] sus 1(1) have "steady E i k'" by simp
  ultimately show ?thesis using that by (simp add: same_tasks_def)
qed

lemma place_blocking:
  assumes ok: "steady E i k" and sus: "uxSchedulerSuspended k = 1" and cur: "pxCurrentTCB k \<noteq> i" and l: "l \<in> E" "n \<noteq> 0"
  obtains k' where "Rtos_Task_Api.vTaskPlaceOnEventList l n k = Some k'" "blocking E i k'" "pxCurrentTCB k' = pxCurrentTCB k"
proof -
  note d = steadyD [OF ok]
  have "ready k (pxCurrentTCB k)" using d(7) sus by (simp add: acting_def)
  from place_run [OF d(1) this l] obtain k' where
    1: "Rtos_Task_Api.vTaskPlaceOnEventList l n k = Some k'" "live_ok E k'"
      "at k' = (at k)(event_item (pxCurrentTCB k) := Some l, state_item (pxCurrentTCB k) := Some (blocked_list n True k))"
      "uxSchedulerSuspended k' = uxSchedulerSuspended k" "pxCurrentTCB k' = pxCurrentTCB k"
      "uxCurrentNumberOfTasks k' = uxCurrentNumberOfTasks k" by blast
  have "ready k' i" using d(4) cur by (simp add: ready_def 1(3))
  with 1 sus d(5) that show ?thesis by (simp add: blocking_def)
qed

lemma sched_resume_listed:
  assumes "blocking E i s"
  obtains b s' where "Rtos_Task.xTaskResumeAll s = Some (b, s')"
    "running E i (pxCurrentTCB s) (Some (if \<not> b then portYIELD s' else s'))"
proof -
  from assms have "live_ok E s" "ready s i" "uxSchedulerSuspended s = 1" "uxCurrentNumberOfTasks s > 0"
    by (simp_all add: blocking_def)
  from resume_and_yield [OF this] obtain z where
    z: "map_option yield_unless (Rtos_Task.xTaskResumeAll s) = Some z" "steady E i z" "uxSchedulerSuspended z = 0"
      "pxCurrentTCB z = pxCurrentTCB s" by blast
  from z(1) obtain b s' where r: "Rtos_Task.xTaskResumeAll s = Some (b, s')" "yield_unless (b, s') = z" by auto
  then have "(if \<not> b then portYIELD s' else s') = z" by (cases b) (simp_all add: yield_unless_def)
  with that r(1) z(2-4) show ?thesis by (simp add: running_def)
qed

text \<open>
  The contract holds of the scheduler in the states in which the other tasks and the interrupts play along.
\<close>

interpretation scheduler: queue_kernel "sched_kernel w oth isr" "\<lambda>k. plays_along E i t w oth isr \<and> running E i t k"
  "\<lambda>k. plays_along E i t w oth isr \<and> suspending E i t k" "\<lambda>k. plays_along E i t w oth isr \<and> listed E i t k"
  for E i t w oth isr
proof (unfold_locales, goal_cases)
  case (1 s s')
  then have "plays_along E i t w oth isr" "running E i t (kern s)" "oth s = Some s'" by simp_all
  from sched_others [OF this] this(1) show ?case by simp
next
  case (2 s s')
  then have "plays_along E i t w oth isr" "suspending E i t (kern s)" "isr s = Some s'" by simp_all
  from sched_interrupts [OF this] this(1) show ?case by simp
next
  case (3 k)
  then show ?case using steady_yield by (auto simp: running_def)
next
  case (4 k l b k')
  then obtain s where s: "k = Some s" by (auto simp: running_def)
  with 4 have "w l \<in> E" "running E i t (Some s)" "\<not> listLIST_IS_EMPTY (w l) (lists s)" using plays_alongD(3) by auto
  from sched_signal_running [OF this(2,1,3)] obtain c s' where
    "Rtos_Task_Api.xTaskRemoveFromEventList (w l) s = Some (c, s')" "running E i t (Some (if c then portYIELD s' else s'))" .
  with 4 s show ?case by (cases c) auto
next
  case (5 k l b k')
  then obtain s where s: "k = Some s" "steady E i s" "uxSchedulerSuspended s = 1" "pxCurrentTCB s = t" by (auto simp: suspending_def)
  with 5 have "w l \<in> E" "\<not> listLIST_IS_EMPTY (w l) (lists s)" using plays_alongD(3) by auto
  from sched_signal [OF steady_blocking [OF s(2,3)] this] s(2,4) obtain c s' where
    c: "Rtos_Task_Api.xTaskRemoveFromEventList (w l) s = Some (c, s')" "pxCurrentTCB s' = t"
      "steady E i (if c then s'\<lparr>xYieldPendings := True\<rparr> else s')" by metis
  from remove_event_fields [OF c(1)] 5 s c show ?case by (cases c) (auto simp: suspending_def vTaskMissedYield_def)
next
  case (6 k l b k')
  then obtain s where s: "k = Some s" "blocking E i s" "pxCurrentTCB s = t" by (auto simp: listed_def)
  with 6 have "w l \<in> E" "\<not> listLIST_IS_EMPTY (w l) (lists s)" using plays_alongD(3) by auto
  from sched_signal [OF s(2) this] s(3) obtain c s' where
    "Rtos_Task_Api.xTaskRemoveFromEventList (w l) s = Some (c, s')" "pxCurrentTCB s' = t"
      "blocking E i (if c then s'\<lparr>xYieldPendings := True\<rparr> else s')" by metis
  with 6 s show ?case by (cases c) (auto simp: listed_def vTaskMissedYield_def)
next
  case (7 k n l)
  then obtain s where s: "k = Some s" "steady E i s" "uxSchedulerSuspended s = 1" "pxCurrentTCB s = t" by (auto simp: suspending_def)
  have env: "plays_along E i t w oth isr" "n \<noteq> 0" using 7 by simp_all
  from place_blocking [OF s(2,3) _ plays_alongD(3) [OF env(1)] env(2), of l] plays_alongD(4) [OF env(1)] s(4)
  obtain s' where "Rtos_Task_Api.vTaskPlaceOnEventList (w l) n s = Some s'" "blocking E i s'" "pxCurrentTCB s' = t" by metis
  with s(1) env show ?case by (simp add: listed_def)
next
  case (8 k b k')
  then obtain s where s: "k = Some s" "steady E i s" "uxSchedulerSuspended s = 1" "pxCurrentTCB s = t" by (auto simp: suspending_def)
  from resume_sound [OF s(2,3)] obtain c s' where "Rtos_Task.xTaskResumeAll s = Some (c, s')" "steady E i s'"
    "uxSchedulerSuspended s' = 0" "pxCurrentTCB s' = pxCurrentTCB s" .
  with 8 s show ?case by (auto simp: running_def)
next
  case (9 k b k')
  then obtain s where s: "k = Some s" "blocking E i s" "pxCurrentTCB s = t" by (auto simp: listed_def)
  from sched_resume_listed [OF s(2)] obtain c s' where "Rtos_Task.xTaskResumeAll s = Some (c, s')"
    "running E i (pxCurrentTCB s) (Some (if \<not> c then portYIELD s' else s'))" .
  with 9 s show ?case by (cases c) auto
qed

end
