(* ===== verification/Rtos_Passing.thy ===== *)
theory Rtos_Passing
  imports Rtos_Kernel
begin

text \<open>
  Sequences of steps with the scheduler running: ticks, context switches, and the calls of the running
  tasks that wait for time or change priorities. A wait that is running gets shorter by the ticks only.
  Also the ticks that come while the scheduler is suspended, and the ones that come while it is not.
\<close>

section \<open>Steps that only let time pass\<close>

fun passing :: "kernel_call \<Rightarrow> bool" where
  "passing Tick_interrupt = True"
| "passing Yield_interrupt = True"
| "passing (Delay _) = True"
| "passing (Delay_until _ _) = True"
| "passing (Set_priority _ _) = True"
| "passing (Inherit _) = True"
| "passing Disinherit = True"
| "passing (Disinherit_after_timeout _ _) = True"
| "passing Count_mutex = True"
| "passing _ = False"

inductive passes :: "nat set \<Rightarrow> nat \<Rightarrow> sched \<Rightarrow> nat \<Rightarrow> sched \<Rightarrow> bool" for E i s where
  none: "passes E i s 0 s"
| step: "passes E i s k s' \<Longrightarrow> passing c \<Longrightarrow> permitted E i c s' \<Longrightarrow> perform c s' = Some s'' \<Longrightarrow>
    passes E i s (if c = Tick_interrupt then Suc k else k) s''"

lemma remove_item_suspended: "remove_item j s = Some (n, s') \<Longrightarrow> uxSchedulerSuspended s' = uxSchedulerSuspended s"
  by (auto simp: remove_item_def)

lemma add_ready_suspended [simp]: "uxSchedulerSuspended (prvAddTaskToReadyList t s) = uxSchedulerSuspended s"
  by (simp add: prvAddTaskToReadyList_def Let_def on_lists_def portRECORD_READY_PRIORITY_def)

lemma reset_ready_suspended [simp]: "uxSchedulerSuspended (portRESET_READY_PRIORITY p s) = uxSchedulerSuspended s"
  by (simp add: portRESET_READY_PRIORITY_def)

lemma set_priority_suspended [simp]:
  "uxSchedulerSuspended (set_priority t p s) = uxSchedulerSuspended s"
  "uxSchedulerSuspended (set_event_value t p s) = uxSchedulerSuspended s"
  "uxSchedulerSuspended (listSET_LIST_ITEM_VALUE j v s) = uxSchedulerSuspended s"
  by (simp_all add: set_priority_def set_event_value_def listSET_LIST_ITEM_VALUE_def on_lists_def)

lemma priority_set_suspended: "vTaskPrioritySet h p s = Some s' \<Longrightarrow> uxSchedulerSuspended s' = uxSchedulerSuspended s"
  by (auto simp: vTaskPrioritySet_def Let_def bind_eq_Some_conv dest: remove_item_suspended split: if_splits)

lemma inherit_suspended: "xTaskPriorityInherit t s = Some (y, s') \<Longrightarrow> uxSchedulerSuspended s' = uxSchedulerSuspended s"
  by (auto simp: xTaskPriorityInherit_def Let_def bind_eq_Some_conv dest: remove_item_suspended split: if_splits)

lemma disinherit_suspended: "xTaskPriorityDisinherit t s = Some (y, s') \<Longrightarrow> uxSchedulerSuspended s' = uxSchedulerSuspended s"
  by (auto simp: xTaskPriorityDisinherit_def Let_def bind_eq_Some_conv dest!: remove_item_suspended split: if_splits)

lemma after_timeout_suspended:
  "vTaskPriorityDisinheritAfterTimeout t w s = Some s' \<Longrightarrow> uxSchedulerSuspended s' = uxSchedulerSuspended s"
  by (auto simp: vTaskPriorityDisinheritAfterTimeout_def Let_def bind_eq_Some_conv dest!: remove_item_suspended split: if_splits)

text \<open>A task whose wait is running is not ready, so it is not the one that acts.\<close>

lemma waiting_not_ready: "remaining s t \<noteq> None \<Longrightarrow> \<not> ready s t"
  by (auto simp: remaining_def ready_def split: if_splits)

lemma perform_kept_times:
  assumes ok: "steady E i s" and may: "permitted E i c s" and c: "passing c" "c \<noteq> Tick_interrupt" "c \<noteq> Yield_interrupt"
    "\<And>n. c \<noteq> Delay n" "\<And>p n. c \<noteq> Delay_until p n"
  shows "\<exists>s'. perform c s = Some s' \<and> remaining s' = remaining s \<and> uxSchedulerSuspended s' = uxSchedulerSuspended s"
proof (cases c)
  case (Set_priority h p)
  with may have "p < 5" by simp
  from vTaskPrioritySet_run [OF ok this refl handle_task [OF ok]] priority_set_suspended
  show ?thesis unfolding Set_priority perform.simps by blast
next
  case (Inherit t)
  with may have "t \<noteq> 0" by simp
  from xTaskPriorityInherit_run [OF ok this] inherit_suspended obtain r s' where
    "xTaskPriorityInherit t s = Some (r, s')" "remaining s' = remaining s" "uxSchedulerSuspended s' = uxSchedulerSuspended s"
    by blast
  then show ?thesis unfolding Inherit perform.simps by simp
next
  case Disinherit
  with may have "acting s" "uxMutexesHeld s (pxCurrentTCB s) \<noteq> 0" by simp_all
  from xTaskPriorityDisinherit_run [OF ok this(1) refl this(2)] disinherit_suspended obtain y s' where
    "xTaskPriorityDisinherit (pxCurrentTCB s) s = Some (y, s')" "remaining s' = remaining s"
    "uxSchedulerSuspended s' = uxSchedulerSuspended s" by blast
  then show ?thesis unfolding Disinherit perform.simps by (simp add: yield_if_def)
next
  case (Disinherit_after_timeout t w)
  with may have w: "w < 5" "t = 0 \<or> uxMutexesHeld s t \<noteq> 0"
    and fall: "t \<noteq> 0 \<Longrightarrow> falls_back t w s \<Longrightarrow> t \<noteq> pxCurrentTCB s \<and>
      (w \<le> uxPriority s (pxCurrentTCB s) \<or> w \<le> uxPriority s t) \<and>
      (ready s t \<longrightarrow> (\<exists>v. v \<noteq> t \<and> ready s v \<and> uxPriority s v = uxPriority s t))"
    by (auto simp: same_priority_ready_def)
  from vTaskPriorityDisinheritAfterTimeout_run [OF ok w fall] after_timeout_suspended show ?thesis
    unfolding Disinherit_after_timeout perform.simps by blast
next
  case Count_mutex
  show ?thesis unfolding Count_mutex
    by (simp add: pvTaskIncrementMutexHeldCount_def Let_def remaining_def fun_eq_iff)
qed (use c in simp_all)

lemma passing_step:
  assumes ok: "steady E i s" and run: "uxSchedulerSuspended s = 0" and may: "permitted E i c s" and c: "passing c"
  shows "\<exists>s'. perform c s = Some s' \<and> uxSchedulerSuspended s' = 0 \<and>
    (\<forall>t. remaining s t \<noteq> None \<longrightarrow>
       remaining s' t = (if c = Tick_interrupt then one_less (remaining s t) else remaining s t))"
proof (cases c)
  case Tick_interrupt
  with steady_tick_run [OF ok run] show ?thesis by auto
next
  case Yield_interrupt
  with switch_steady [OF ok run] show ?thesis by auto
next
  case (Delay n)
  with may have m: "\<not> yield_requested s" "pxCurrentTCB s \<noteq> i" by (simp_all add: may_wait_def)
  then have "ready s (pxCurrentTCB s)" using steadyD(7) [OF ok] by (simp add: acting_def)
  then have cur: "remaining s t \<noteq> None \<Longrightarrow> t \<noteq> pxCurrentTCB s" for t using waiting_not_ready by blast
  show ?thesis
  proof (cases "n = 0")
    case True
    then have "vTaskDelay n s = Some (portYIELD s)" by (simp add: vTaskDelay_def yield_unless_def)
    with Delay run show ?thesis by simp
  next
    case False
    from vTaskDelay_run [OF ok run m this] cur show ?thesis unfolding Delay by force
  qed
next
  case (Delay_until p n)
  with may have m: "\<not> yield_requested s" "pxCurrentTCB s \<noteq> i" "n \<noteq> 0" by (simp_all add: may_wait_def)
  then have "ready s (pxCurrentTCB s)" using steadyD(7) [OF ok] by (simp add: acting_def)
  then have cur: "remaining s t \<noteq> None \<Longrightarrow> t \<noteq> pxCurrentTCB s" for t using waiting_not_ready by blast
  from xTaskDelayUntil_run [OF ok run m, of p] obtain s' where s': "perform c s = Some s'" "uxSchedulerSuspended s' = 0"
    "remaining s' = (if now s - p < n then (remaining s)(pxCurrentTCB s := Some (unat (n - (now s - p)))) else remaining s)"
    unfolding Delay_until by auto
  have "remaining s t \<noteq> None \<Longrightarrow> remaining s' t = remaining s t" for t using cur [of t] by (simp add: s'(3))
  with s'(1,2) Delay_until show ?thesis by auto
qed (use perform_kept_times [OF ok may c] run in auto)

lemma passes_waiting:
  assumes "passes E i s k s'" "reachable i E s" "uxSchedulerSuspended s = 0" "remaining s t = Some n" "k < n"
  shows "reachable i E s' \<and> uxSchedulerSuspended s' = 0 \<and> remaining s' t = Some (n - k)"
  using assms
proof (induction rule: passes.induct)
  case none
  then show ?case by simp
next
  case (step k s' c s'')
  then have k: "k < n" by (auto split: if_splits)
  with step have ih: "reachable i E s'" "uxSchedulerSuspended s' = 0" "remaining s' t = Some (n - k)" by auto
  from passing_step [OF reachable_steady [OF ih(1)] ih(2) step.hyps(3,2)] step.hyps(4) ih(3)
  have "uxSchedulerSuspended s'' = 0"
    "remaining s'' t = (if c = Tick_interrupt then one_less (Some (n - k)) else Some (n - k))" by auto
  moreover have "reachable i E s''" using reachable.called [OF ih(1) step.hyps(3,4)] .
  ultimately show ?case using step.prems(4) k by (auto simp: one_less_def)
qed

section \<open>Ticks with the scheduler running and suspended\<close>

fun ticks :: "nat \<Rightarrow> sched \<Rightarrow> sched option" where
  "ticks 0 s = Some s"
| "ticks (Suc n) s = Option.bind (perform Tick_interrupt s) (ticks n)"

lemma ticks_running:
  assumes "steady E i s" "uxSchedulerSuspended s = 0"
  shows "\<exists>s'. ticks n s = Some s' \<and> at s' = awake (within n s) s \<and> now s' = now s + of_nat n \<and>
    (\<forall>t. remaining s' t = less_by n (remaining s t))"
  using assms
proof (induction n arbitrary: s)
  case 0
  have pos: "remaining s t \<noteq> Some 0" for t by (rule remaining_pos [OF steadyD(3) [OF 0(1)]])
  then have "\<not> within 0 s t" for t by (auto simp: within_def)
  then have "awake (within 0 s) s = at s" by (rule awake_none)
  with pos show ?case by (simp add: less_by_0)
next
  case (Suc n)
  have pos: "remaining s t \<noteq> Some 0" for t by (rule remaining_pos [OF steadyD(3) [OF Suc.prems(1)]])
  from steady_tick_run [OF Suc.prems] obtain s1 where
    1: "vPortIncrementTick s = Some s1" "steady E i s1" "at s1 = awake (\<lambda>t. remaining s t = Some 1) s"
      "now s1 = now s + 1" "\<And>t. remaining s1 t = one_less (remaining s t)" "uxSchedulerSuspended s1 = 0"
      "uxPriority s1 = uxPriority s" by blast
  from Suc.IH [OF 1(2,6)] obtain s' where
    s': "ticks n s1 = Some s'" "at s' = awake (within n s1) s1" "now s' = now s1 + of_nat n"
      "\<And>t. remaining s' t = less_by n (remaining s1 t)" by blast
  have w: "remaining s t = Some 1 \<or> within n s1 t \<longleftrightarrow> within (Suc n) s t" for t
  proof (cases "remaining s t")
    case None
    then show ?thesis by (simp add: within_def 1(5) one_less_def)
  next
    case (Some k)
    then have "k \<noteq> 0" using pos [of t] by auto
    with Some show ?thesis by (auto simp: within_def 1(5) one_less_def)
  qed
  have "at s' = awake (within (Suc n) s) s"
    unfolding s'(2) awake_twice [OF 1(3,7)] w ..
  moreover have "remaining s' t = less_by (Suc n) (remaining s t)" for t
    using less_by_Suc [OF pos] by (simp add: s'(4) 1(5))
  ultimately show ?case using 1(1) s'(1,3) 1(4) by (simp add: add.assoc)
qed

lemma ticks_suspended:
  assumes "steady E i s" "uxSchedulerSuspended s \<noteq> 0"
  shows "ticks n s = Some (s\<lparr>xPendedTicks := xPendedTicks s + of_nat n\<rparr>) \<and>
    steady E i (s\<lparr>xPendedTicks := xPendedTicks s + of_nat n\<rparr>)"
  using assms
proof (induction n arbitrary: s)
  case 0
  then show ?case by simp
next
  case (Suc n)
  note t = pended_tick [OF Suc.prems]
  from Suc.IH [OF t(2)] Suc.prems(2) t(1) show ?case by (simp add: ac_simps)
qed

end
