(* ===== verification/Rtos_Kernel_Properties.thy ===== *)
theory Rtos_Kernel_Properties
  imports Rtos_Passing
begin

text \<open>
  What the tasks may rely on, whatever calls led to the state: no assertion of the kernel fails, a ready
  task of the highest priority runs, tasks of one priority take turns, waits last as long as they should,
  and a period with the scheduler suspended loses nothing. Each property is shown on the states the
  program of main.c leads to.
\<close>

lemma started_permits:
  assumes "started_with t u i s"
  shows "may_wait i s" "acting s" "uxSchedulerSuspended s = 0" "pxCurrentTCB s = u" "t \<noteq> 0" "u \<noteq> 0" "u \<noteq> i" "t \<noteq> u"
    "ready s t" "ready s u" "ready s i" "uxPriority s t = 1" "uxPriority s u = 2"
  using assms by (auto simp: started_with_def may_wait_def acting_def)

lemma kernel_step:
  assumes "reachable i E s" "permitted E i c s"
  shows "\<exists>s'. perform c s = Some s' \<and> reachable i E s'"
  using perform_steady [OF reachable_steady [OF assms(1)] assms(2)] reachable.called [OF assms] by blast

section \<open>The start\<close>

text \<open>
  C25: main starts the scheduler. Wherever the linker puts the heap, and for every size of a control block
  that lets the two tasks of main and the idle task fit, main returns from no call before the scheduler
  runs: the tasks get the priorities 1 and 2, exactly they and the idle task are ready, and the second
  task of main is the one that runs.
\<close>
theorem main_starts_the_scheduler:
  assumes "0 < unat ucHeap" "unat ucHeap + 8192 \<le> 2 ^ 32" "0 < tcb_size" "tcb_size \<le> 1960"
  shows "\<exists>t u i h s. main_boot ucHeap tcb_size = Some ([t, u], i, h, s) \<and> reachable i {} s \<and>
    pxCurrentTCB s = u \<and> uxPriority s t = 1 \<and> uxPriority s u = 2 \<and> uxPriority s i = 0 \<and> distinct [i, t, u] \<and>
    (\<forall>x. ready s x \<longleftrightarrow> x \<in> {i, t, u}) \<and> xSchedulerRunning s \<and> \<not> yield_requested s"
  using main_started [OF assms] by (fastforce simp: started_with_def)

theorem main_starts_the_scheduler_witness:
  "\<exists>t u i h s. main_boot 0xA0000000 96 = Some ([t, u], i, h, s) \<and> pxCurrentTCB s = u \<and> uxPriority s u = 2"
proof -
  have "0 < unat (0xA0000000 :: u32)" "unat (0xA0000000 :: u32) + 8192 \<le> 2 ^ 32"
    "0 < (96 :: u32)" "(96 :: u32) \<le> 1960" by simp_all
  from main_starts_the_scheduler [OF this] show ?thesis by blast
qed

section \<open>Safety\<close>

text \<open>
  C2: No assertion of the kernel fails and none of its loops runs forever: in every reachable state every
  call that is permitted there returns, and leads to a reachable state again.
\<close>
theorem kernel_calls_return:
  assumes "reachable i E s" "permitted E i c s"
  shows "\<exists>s'. perform c s = Some s' \<and> reachable i E s'"
  using assms by (rule kernel_step)

theorem kernel_calls_return_witness:
  "\<exists>t u i h s s'. main_state = Some ([t, u], i, h, s) \<and> perform (Delay 5) s = Some s' \<and> reachable i {} s'"
proof -
  obtain t u i h s where m: "main_state = Some ([t, u], i, h, s)" "reachable i {} s" "started_with t u i s"
    by (rule main_reachable)
  have "permitted {} i (Delay 5) s" using started_permits(1) [OF m(3)] by simp
  from kernel_calls_return [OF m(2) this] m(1) show ?thesis by blast
qed

text \<open>
  C14: The task that runs is a ready one of the highest priority. In every reachable state a context switch
  is pending, requested from the processor or noted for when the scheduler is resumed, or the current task
  is ready and no ready task has a higher priority. The idle task is always ready.
\<close>
theorem highest_priority_runs:
  assumes "reachable i E s"
  shows "(yield_requested s \<or> xYieldPendings s \<or>
      ready s (pxCurrentTCB s) \<and> (\<forall>u. ready s u \<longrightarrow> uxPriority s u \<le> uxPriority s (pxCurrentTCB s))) \<and> ready s i"
  using steadyD(4,8) [OF reachable_steady [OF assms]] by (auto simp: preempting_def top_ready_def)

theorem highest_priority_runs_witness:
  "\<exists>t u i h s. main_state = Some ([t, u], i, h, s) \<and> ready s i \<and>
     (xYieldPendings s \<or> uxPriority s t \<le> uxPriority s (pxCurrentTCB s))"
proof -
  obtain t u i h s where m: "main_state = Some ([t, u], i, h, s)" "reachable i {} s" "started_with t u i s"
    by (rule main_reachable)
  from highest_priority_runs [OF m(2)] started_permits(9) [OF m(3)] m(3)
  have "ready s i \<and> (xYieldPendings s \<or> uxPriority s t \<le> uxPriority s (pxCurrentTCB s))"
    unfolding started_with_def by blast
  with m(1) show ?thesis by blast
qed

text \<open>
  C26: The places of the tasks are well formed. In every reachable state every list is a ring of its items
  in which its count is right, the two delay lists are sorted, a task that is on a ready list is on the
  one of its priority, a task waits for an event only while it is blocked or suspended, and the current
  task is a task.
\<close>
theorem tasks_well_placed:
  assumes "reachable i E s"
  shows "(\<forall>l \<in> {0..9} \<union> E. \<exists>is. ring (lists s) l is \<and> (l \<in> {5, 6} \<longrightarrow> sorted (map (item_value s) is))) \<and>
    (\<forall>t l. at s (state_item t) = Some l \<longrightarrow> l \<in> {unat (uxPriority s t), 5, 6, 8, 9} \<and> uxPriority s t < 5) \<and>
    (\<forall>t l. at s (event_item t) = Some l \<longrightarrow> l \<in> insert 7 E \<and> at s (state_item t) \<in> {Some 5, Some 6, Some 9}) \<and>
    pxCurrentTCB s \<noteq> 0 \<and> at s (state_item (pxCurrentTCB s)) \<noteq> None"
proof -
  note d = steadyD [OF reachable_steady [OF assms]]
  note core = core_linked [OF d(2)]
  have "\<exists>is. ring (lists s) l is \<and> (l \<in> {5, 6} \<longrightarrow> sorted (map (item_value s) is))" if "l \<in> {0..9} \<union> E" for l
    using linked_ring [OF core(1) that] by metis
  moreover have "l \<in> {unat (uxPriority s t), 5, 6, 8, 9}" if "at s (state_item t) = Some l" for t l
  proof -
    from core(2) that have "l \<le> 9" "l \<noteq> 7" "l < 5 \<Longrightarrow> unat (uxPriority s t) = l" unfolding placed_ok_def by blast+
    then show ?thesis by (cases "l < 5") auto
  qed
  moreover have "(l = 7 \<or> l \<in> E) \<and> at s (state_item t) \<in> {Some 5, Some 6, Some 9}" if "at s (event_item t) = Some l" for t l
    using core(2) that unfolding placed_ok_def by blast
  ultimately show ?thesis using core(4) d(9,10) by blast
qed

theorem tasks_well_placed_witness:
  "\<exists>t u i h s. main_state = Some ([t, u], i, h, s) \<and> (\<exists>is. ring (lists s) 2 is) \<and>
     at s (state_item u) \<in> {Some 2, Some 5, Some 6, Some 8, Some 9}"
proof -
  obtain t u i h s where m: "main_state = Some ([t, u], i, h, s)" "reachable i {} s" "started_with t u i s"
    by (rule main_reachable)
  note w = tasks_well_placed [OF m(2)]
  from w have "\<forall>l \<in> {0..9} \<union> {}. \<exists>is. ring (lists s) l is" by blast
  then have 2: "\<exists>is. ring (lists s) 2 is" by simp
  from w have "at s (state_item (pxCurrentTCB s)) \<noteq> None" by blast
  then obtain l where l: "at s (state_item u) = Some l" unfolding started_permits(4) [OF m(3)] by blast
  with w have "l \<in> {unat (uxPriority s u), 5, 6, 8, 9}" by blast
  then have "at s (state_item u) \<in> {Some 2, Some 5, Some 6, Some 8, Some 9}"
    using l started_permits(13) [OF m(3)] by auto
  with 2 m(1) show ?thesis by blast
qed

section \<open>Switching\<close>

text \<open>
  A context switch that was requested picks a ready task of the highest priority and moves no task from
  one list to another; while the scheduler is suspended the switch is noted and the current task goes on.
\<close>
theorem context_switch_picks_highest:
  assumes "reachable i E s" "yield_requested s"
  shows "\<exists>s'. perform Yield_interrupt s = Some s' \<and> at s' = at s \<and> \<not> yield_requested s' \<and>
    (if uxSchedulerSuspended s = 0
     then ready s' (pxCurrentTCB s') \<and> (\<forall>u. ready s' u \<longrightarrow> uxPriority s' u \<le> uxPriority s' (pxCurrentTCB s')) \<and>
       \<not> xYieldPendings s'
     else pxCurrentTCB s' = pxCurrentTCB s \<and> xYieldPendings s')"
proof (cases "uxSchedulerSuspended s = 0")
  case True
  from switch_steady [OF reachable_steady [OF assms(1)] True] True show ?thesis by (auto simp: top_ready_def)
next
  case False
  from switch_waits [OF reachable_steady [OF assms(1)] False] False show ?thesis by simp
qed

theorem context_switch_picks_highest_witness:
  "\<exists>t u i h s s1 s2. main_state = Some ([t, u], i, h, s) \<and> perform (Delay 5) s = Some s1 \<and>
     perform Yield_interrupt s1 = Some s2 \<and> ready s2 (pxCurrentTCB s2) \<and> at s2 (state_item u) = at s1 (state_item u)"
proof -
  obtain t u i h s where m: "main_state = Some ([t, u], i, h, s)" "reachable i {} s" "started_with t u i s"
    by (rule main_reachable)
  note p = started_permits [OF m(3)]
  have run: "\<not> yield_requested s" "pxCurrentTCB s \<noteq> i" using p(1) by (simp_all add: may_wait_def)
  from vTaskDelay_run [OF reachable_steady [OF m(2)] p(3) run, of 5] obtain s1 where
    1: "perform (Delay 5) s = Some s1" "yield_requested s1" "uxSchedulerSuspended s1 = 0" by auto
  have "permitted {} i (Delay 5) s" using p(1) by simp
  from reachable.called [OF m(2) this 1(1)] have "reachable i {} s1" .
  from context_switch_picks_highest [OF this 1(2)] obtain s2 where
    "perform Yield_interrupt s1 = Some s2" "ready s2 (pxCurrentTCB s2)" "at s2 (state_item u) = at s1 (state_item u)"
    unfolding 1(3) by auto
  with m(1) 1(1) show ?thesis by blast
qed

text \<open>
  C20: Tasks of the highest priority take turns. From every reachable state with the scheduler running, as many
  switches as there are ready tasks of the highest priority run each of them exactly once.
\<close>
theorem equal_tasks_take_turns:
  assumes "reachable i E s" "uxSchedulerSuspended s = 0"
  shows "\<exists>ts. chosen (card {t. top_ready s t}) s = Some ts \<and> distinct ts \<and> set ts = {t. top_ready s t} \<and> ts \<noteq> []"
proof -
  note d = steadyD [OF reachable_steady [OF assms(1)]]
  from some_top [OF d(2,4)] obtain t where t: "top_ready s t" .
  from chosen_round [OF d(2) t assms(2)] t show ?thesis by auto
qed

theorem equal_tasks_take_turns_witness:
  "\<exists>t u i h s. main_state = Some ([t, u], i, h, s) \<and> chosen 1 s = Some [u]"
proof -
  obtain t u i h s where m: "main_state = Some ([t, u], i, h, s)" "reachable i {} s" "started_with t u i s"
    by (rule main_reachable)
  have "top_ready s x \<longleftrightarrow> x = u" for x
  proof -
    have "ready s y \<longleftrightarrow> y \<in> {i, t, u}" for y using m(3) by (auto simp: started_with_def)
    moreover have "\<not> (2 :: u32) \<le> 1" by (simp add: word_le_nat_alt)
    ultimately show ?thesis using m(3) by (auto simp: started_with_def top_ready_def)
  qed
  then have s: "{x. top_ready s x} = {u}" by auto
  from equal_tasks_take_turns [OF m(2) started_permits(3) [OF m(3)]] obtain ts where
    "chosen 1 s = Some ts" "distinct ts" "set ts = {u}" unfolding s by auto
  moreover from this(2,3) have "ts = [u]" by (cases ts; cases "tl ts") auto
  ultimately show ?thesis using m(1) by blast
qed

section \<open>Time\<close>



text \<open>
  C36: \<open>xTaskDelayUntil\<close> keeps a period. It moves the time of the last wake-up on by the period whatever happens;
  if fewer ticks than the period have passed since, the task waits for exactly the ticks that are missing, and if
  the period is over already, it does not wait and says so.
\<close>
theorem delay_until_keeps_period:
  assumes "reachable i E s" "may_wait i s" "d \<noteq> 0" "now s = previous + e"
  shows "\<exists>s'. xTaskDelayUntil (Some previous) d s = Some (e < d, previous + d, s') \<and> reachable i E s' \<and>
    remaining s' (pxCurrentTCB s) = (if e < d then Some (unat d - unat e) else None) \<and>
    (ready s' (pxCurrentTCB s) \<longrightarrow> d \<le> e)"
proof -
  let ?t = "pxCurrentTCB s"
  have w: "uxSchedulerSuspended s = 0" "\<not> yield_requested s" "?t \<noteq> i" using assms(2) by (simp_all add: may_wait_def)
  have e: "now s - previous = e" using assms(4) by simp
  from xTaskDelayUntil_run [OF reachable_steady [OF assms(1)] w assms(3), of previous] obtain s' where
    s': "xTaskDelayUntil (Some previous) d s = Some (e < d, previous + d, s')"
      "remaining s' = (if e < d then (remaining s)(?t := Some (unat (d - e))) else remaining s)" unfolding e by blast
  have "ready s ?t" using steadyD(7) [OF reachable_steady [OF assms(1)]] w(2) by (simp add: acting_def)
  then have "remaining s ?t = None" using waiting_not_ready by blast
  moreover have "unat (d - e) = unat d - unat e" if "e < d" using that by (simp add: unat_sub less_imp_le)
  ultimately have rem: "remaining s' ?t = (if e < d then Some (unat d - unat e) else None)" by (simp add: s'(2))
  have "reachable i E s'"
    using reachable.called [OF assms(1), of "Delay_until previous d"] assms(2,3) s'(1) by simp
  moreover have "d \<le> e" if "ready s' ?t" using that rem waiting_not_ready [of s' ?t] by (auto simp: not_less split: if_splits)
  ultimately show ?thesis using s'(1) rem by blast
qed

theorem delay_until_keeps_period_witness:
  "\<exists>t u i h s s'. main_state = Some ([t, u], i, h, s) \<and>
     xTaskDelayUntil (Some (now s - 3)) 10 s = Some (True, now s - 3 + 10, s') \<and> remaining s' u = Some 7"
proof -
  obtain t u i h s where m: "main_state = Some ([t, u], i, h, s)" "reachable i {} s" "started_with t u i s"
    by (rule main_reachable)
  note p = started_permits [OF m(3)]
  have e: "now s = now s - 3 + 3" "(10 :: u32) \<noteq> 0" "(3 :: u32) < 10" by simp_all
  from delay_until_keeps_period [OF m(2) p(1) e(2,1)] e(3) m(1) show ?thesis unfolding p(4) by fastforce
qed

text \<open>
  C21: A tick while the scheduler runs counts the clock on as the clock of the time-outs does, shortens every wait by
  one tick, and makes ready exactly the tasks whose wait ends; nothing else of a task moves.
\<close>
theorem tick_ends_waits:
  assumes "reachable i E s" "uxSchedulerSuspended s = 0"
  shows "\<exists>y s'. xTaskIncrementTick s = Some (y, s') \<and> clock s' = increment_tick (clock s) \<and>
    (\<forall>t. ready s' t \<longleftrightarrow> ready s t \<or> remaining s t = Some 1) \<and>
    (\<forall>t. remaining s' t = (case remaining s t of Some (Suc (Suc n)) \<Rightarrow> Some (Suc n) | _ \<Rightarrow> None)) \<and>
    (\<forall>t. remaining s t = None \<longrightarrow>
       at s' (state_item t) = at s (state_item t) \<and> at s' (event_item t) = at s (event_item t)) \<and>
    ((\<exists>t. remaining s t = Some 1 \<and> uxPriority s t > uxPriority s (pxCurrentTCB s)) \<longrightarrow> y)"
proof -
  note d = steadyD [OF reachable_steady [OF assms(1)]]
  from tick_run [OF d(1) assms(2)] obtain y s' where
    s': "xTaskIncrementTick s = Some (y, s')" "retimed (ticked s) s'" "at s' = after_tick s"
      "\<And>t. remaining s' t = one_less (remaining s t)"
      "\<exists>t. remaining s t = Some 1 \<and> uxPriority s t > uxPriority s (pxCurrentTCB s) \<Longrightarrow> y" by blast
  have "clock s' = clock (ticked s)" using retimed_fields(6) [OF s'(2)] .
  then have c: "clock s' = increment_tick (clock s)" by (simp add: ticked_def increment_tick_def Let_def eq_neg_iff_add_eq_0)
  have at: "at s' = awake (\<lambda>t. remaining s t = Some 1) s" unfolding s'(3) after_tick_awake ..
  have "ready s' t \<longleftrightarrow> ready s t \<or> remaining s t = Some 1" for t using ready_awake [OF d(2) at, of t] by blast
  moreover have "remaining s' t = (case remaining s t of Some (Suc (Suc n)) \<Rightarrow> Some (Suc n) | _ \<Rightarrow> None)" for t
    using remaining_pos [OF d(3), of t] by (auto simp: s'(4) one_less_def split: option.splits nat.splits)
  moreover have "at s' (state_item t) = at s (state_item t) \<and> at s' (event_item t) = at s (event_item t)"
    if "remaining s t = None" for t using that by (simp add: at)
  ultimately show ?thesis using s'(1,5) c by blast
qed

theorem tick_ends_waits_witness:
  "\<exists>t u i h s y s'. main_state = Some ([t, u], i, h, s) \<and> xTaskIncrementTick s = Some (y, s') \<and>
     clock s' = increment_tick (clock s) \<and> ready s' u"
proof -
  obtain t u i h s where m: "main_state = Some ([t, u], i, h, s)" "reachable i {} s" "started_with t u i s"
    by (rule main_reachable)
  note p = started_permits [OF m(3)]
  from tick_ends_waits [OF m(2) p(3)] p(10) m(1) show ?thesis by blast
qed

text \<open>
  C19: Suspending the scheduler loses no tick. Whether n ticks come while the scheduler runs, or while it is suspended
  and it is resumed then, the clock, the place of every task and the time every task still waits are the same.
\<close>
theorem suspended_ticks_catch_up:
  assumes "reachable i E s" "uxSchedulerSuspended s = 0" "\<not> yield_requested s" "n < 2 ^ 32"
  shows "\<exists>s1 s2 y s3. ticks n s = Some s1 \<and> ticks n (vTaskSuspendAll s) = Some s2 \<and> xTaskResumeAll s2 = Some (y, s3) \<and>
    at s3 = at s1 \<and> now s3 = now s1 \<and> remaining s3 = remaining s1"
proof -
  note ok = reachable_steady [OF assms(1)]
  from ticks_running [OF ok assms(2), of n] obtain s1 where
    1: "ticks n s = Some s1" "at s1 = awake (within n s) s" "now s1 = now s + of_nat n"
      "\<And>t. remaining s1 t = less_by n (remaining s t)" by blast
  let ?s = "vTaskSuspendAll s"
  define s2 where "s2 = ?s\<lparr>xPendedTicks := xPendedTicks ?s + of_nat n\<rparr>"
  have ok': "steady E i ?s" using assms(2,3) by (intro suspend_all_steady ok) (simp_all add: acting_def)
  have sus: "uxSchedulerSuspended ?s \<noteq> 0" using assms(2) by simp
  note 2 = ticks_suspended [OF ok' sus, of n, folded s2_def]
  note no = steady_no_resumed(1,2) [OF ok assms(2)]
  have p: "xPendedTicks s2 = of_nat n" "unat (of_nat n :: u32) = n" using no(1) assms(4) by (simp_all add: s2_def unat_of_nat)
  have f: "at s2 = at s" "now s2 = now s" "remaining s2 = remaining s" "uxPriority s2 = uxPriority s"
    "pending s2 t \<longleftrightarrow> pending s t" for t
    by (simp_all add: s2_def remaining_def pending_def fun_eq_iff)
  have one: "uxSchedulerSuspended s2 = 1" using assms(2) by (simp add: s2_def)
  from resume_run [OF steadyD(1) [OF conjunct2 [OF 2]] one steadyD(5) [OF conjunct2 [OF 2]]] obtain y s3 where
    3: "xTaskResumeAll s2 = Some (y, s3)" "at s3 = awake (resumed s2) s2" "now s3 = now s2 + xPendedTicks s2"
      "\<And>t. remaining s3 t = (if pending s2 t then None else less_by (unat (xPendedTicks s2)) (remaining s2 t))" by blast
  have "resumed s2 = within n s" using no(2) by (simp add: resumed_def within_def f p fun_eq_iff)
  then have "at s3 = awake (within n s) s" using 3(2) by (simp add: awake_def f fun_eq_iff)
  moreover have "remaining s3 = remaining s1" using no(2) by (simp add: 3(4) 1(4) f p fun_eq_iff)
  moreover have "now s3 = now s1" unfolding 3(3) 1(3) f(2) p(1) ..
  ultimately show ?thesis using 1(1,2) 2 3(1) by auto
qed

theorem suspended_ticks_catch_up_witness:
  "\<exists>t u i h s s1 s2 y s3. main_state = Some ([t, u], i, h, s) \<and> ticks 5 s = Some s1 \<and>
     ticks 5 (vTaskSuspendAll s) = Some s2 \<and> xTaskResumeAll s2 = Some (y, s3) \<and> now s3 = now s1"
proof -
  obtain t u i h s where m: "main_state = Some ([t, u], i, h, s)" "reachable i {} s" "started_with t u i s"
    by (rule main_reachable)
  note p = started_permits [OF m(3)]
  have run: "\<not> yield_requested s" "(5 :: nat) < 2 ^ 32" using p(1) by (simp_all add: may_wait_def)
  from suspended_ticks_catch_up [OF m(2) p(3) run] m(1) show ?thesis by blast
qed

text \<open>
  Resuming the scheduler makes ready exactly the tasks that were signalled and those whose wait ended while it
  was suspended, counts the clock on by the ticks that came, and asks for a context switch if one of the woken tasks
  has a higher priority than the current one.
\<close>
theorem resume_wakes_what_became_ready:
  assumes "reachable i E s" "uxSchedulerSuspended s = 1"
  shows "\<exists>y s'. xTaskResumeAll s = Some (y, s') \<and> uxSchedulerSuspended s' = 0 \<and> xPendedTicks s' = 0 \<and>
    now s' = now s + xPendedTicks s \<and>
    (\<forall>t. ready s' t \<longleftrightarrow> ready s t \<or> pending s t \<or> (\<exists>k \<le> unat (xPendedTicks s). remaining s t = Some k)) \<and>
    ((\<exists>t. ready s' t \<and> \<not> ready s t \<and> uxPriority s t > uxPriority s (pxCurrentTCB s)) \<longrightarrow> y \<and> yield_requested s')"
proof -
  note d = steadyD [OF reachable_steady [OF assms(1)]]
  from resume_run [OF d(1) assms(2) d(5)] obtain y s' where
    s': "xTaskResumeAll s = Some (y, s')" "at s' = awake (resumed s) s" "now s' = now s + xPendedTicks s"
      "same_tasks (s\<lparr>uxSchedulerSuspended := 0, xPendedTicks := 0, yield_requested := yield_requested s \<or> y\<rparr>) s'"
      "\<exists>t. resumed s t \<and> uxPriority s t > uxPriority s (pxCurrentTCB s) \<Longrightarrow> y" by blast
  have f: "uxSchedulerSuspended s' = 0" "xPendedTicks s' = 0" "yield_requested s' = (yield_requested s \<or> y)"
    using s'(4) by (simp_all add: same_tasks_def)
  note r = ready_awake [OF d(2) s'(2)]
  have "ready s' t \<longleftrightarrow> ready s t \<or> pending s t \<or> (\<exists>k \<le> unat (xPendedTicks s). remaining s t = Some k)" for t
    unfolding r by (auto simp: resumed_def within_def)
  moreover have "y \<and> yield_requested s'"
    if "ready s' t" "\<not> ready s t" "uxPriority s t > uxPriority s (pxCurrentTCB s)" for t
    using s'(5) that r [of t] f(3) by blast
  ultimately show ?thesis using s'(1,3) f(1,2) by blast
qed

theorem resume_wakes_what_became_ready_witness:
  "\<exists>t u i h s s1 y s2. main_state = Some ([t, u], i, h, s) \<and> perform Suspend_all s = Some s1 \<and>
     xTaskResumeAll s1 = Some (y, s2) \<and> uxSchedulerSuspended s2 = 0 \<and> ready s2 t"
proof -
  obtain t u i h s where m: "main_state = Some ([t, u], i, h, s)" "reachable i {} s" "started_with t u i s"
    by (rule main_reachable)
  note p = started_permits [OF m(3)]
  have "permitted {} i Suspend_all s" using p(2,3) by simp
  from kernel_step [OF m(2) this] have 1: "reachable i {} (vTaskSuspendAll s)" by simp
  have "ready (vTaskSuspendAll s) t" using p(9) by (simp add: ready_def)
  moreover have "uxSchedulerSuspended (vTaskSuspendAll s) = 1" using p(3) by simp
  from resume_wakes_what_became_ready [OF 1 this] obtain y s2 where "xTaskResumeAll (vTaskSuspendAll s) = Some (y, s2)"
    "uxSchedulerSuspended s2 = 0" "ready (vTaskSuspendAll s) t \<Longrightarrow> ready s2 t" by blast
  moreover have "perform Suspend_all s = Some (vTaskSuspendAll s)" by simp
  ultimately show ?thesis using m(1) by blast
qed

section \<open>Events\<close>

lemma block_on_outcome:
  assumes "reachable i E s" "permitted E i (Block_on l n) s"
  shows "\<exists>s'. perform (Block_on l n) s = Some s' \<and> yield_requested s' \<and>
    (if n \<noteq> portMAX_DELAY \<and> n \<le> xPendedTicks s then ready s' (pxCurrentTCB s)
     else at s' (event_item (pxCurrentTCB s)) = Some l \<and> \<not> ready s' (pxCurrentTCB s) \<and>
       remaining s' (pxCurrentTCB s) =
         (if n = portMAX_DELAY then None else Some (unat n - unat (xPendedTicks s))))"
proof -
  let ?t = "pxCurrentTCB s"
  note ok = reachable_steady [OF assms(1)]
  note d = steadyD [OF ok]
  from assms(2) have w: "uxSchedulerSuspended s = 1" "?t \<noteq> i" "l \<in> E" "n \<noteq> 0" by simp_all
  from block_on_run [OF ok w] obtain s1 s' where
    s1: "vTaskPlaceOnEventList l n s = Some s1"
      "at s1 = (at s)(event_item ?t := Some l, state_item ?t := Some (blocked_list n True s))"
      "remaining s1 = (remaining s)(?t := (if n = portMAX_DELAY then None else Some (unat n)))"
    and s': "perform (Block_on l n) s = Some s'" "yield_requested s'" "at s' = awake (resumed s1) s1"
      "\<And>t. remaining s' t = (if pending s t then None else less_by (unat (xPendedTicks s)) (remaining s1 t))"
      "steady E i s'"
    unfolding perform.simps by blast
  have cur: "ready s ?t" using d(7) w(1) by (simp add: acting_def)
  from ready_no_event [OF d(2) cur] have np: "\<not> pending s ?t" by (simp add: pending_def)
  from core_linked(7) [OF d(2) w(3)] have l: "l \<noteq> 7" by auto
  from place_run [OF d(1) cur w(3,4)] s1(1) have pt: "xPendedTicks s1 = xPendedTicks s" and live1: "live_ok E s1" by auto
  have "resumed s1 ?t \<longleftrightarrow> n \<noteq> portMAX_DELAY \<and> n \<le> xPendedTicks s"
    using l by (auto simp: resumed_def pending_def within_def s1(2,3) pt word_le_nat_alt)
  moreover have "blocked_list n True s \<in> {5, 6, 9}" using times_two [OF d(3)] by (auto simp: blocked_list_def two_lists_def)
  then have "\<not> ready s1 ?t" by (auto simp: ready_def s1(2))
  then have "ready s' ?t \<longleftrightarrow> resumed s1 ?t" using ready_awake [of E s1 s' "resumed s1" ?t] live1 s'(3) by (simp add: live_ok_def base_core)
  moreover have "at s' (event_item ?t) = Some l" if "\<not> resumed s1 ?t" using that by (simp add: s'(3) s1(2))
  moreover have "remaining s' ?t = (if n = portMAX_DELAY then None else Some (unat n - unat (xPendedTicks s)))"
    if "\<not> (n \<noteq> portMAX_DELAY \<and> n \<le> xPendedTicks s)"
    using that np by (auto simp: s'(4) s1(3) less_by_def word_le_nat_alt)
  ultimately show ?thesis using s'(1,2) by auto
qed

text \<open>The second task of main with a new event list and the scheduler suspended.\<close>

lemma main_blocking:
  obtains t u i h s where "main_state = Some ([t, u], i, h, s)"
    "reachable i {10} (vTaskSuspendAll (on_lists (vListInitialise 10) s))"
    "permitted {10} i (Block_on 10 7) (vTaskSuspendAll (on_lists (vListInitialise 10) s))"
    "pxCurrentTCB (vTaskSuspendAll (on_lists (vListInitialise 10) s)) = u"
    "xPendedTicks (vTaskSuspendAll (on_lists (vListInitialise 10) s)) = 0"
proof -
  obtain t u i h s where m: "main_state = Some ([t, u], i, h, s)" "reachable i {} s" "started_with t u i s"
    by (rule main_reachable)
  note p = started_permits [OF m(3)]
  define s0 where "s0 = on_lists (vListInitialise 10) s"
  have f: "uxSchedulerSuspended s0 = 0" "yield_requested s0 = yield_requested s" "pxCurrentTCB s0 = u"
    "xPendedTicks s0 = xPendedTicks s" using p(3,4) by (simp_all add: s0_def on_lists_def)
  have r0: "reachable i {10} s0" using reachable.new_list [OF m(2), of 10] by (simp add: s0_def)
  have "permitted {10} i Suspend_all s0" using p(1) f by (simp add: acting_def may_wait_def)
  from kernel_step [OF r0 this] have "reachable i {10} (vTaskSuspendAll s0)" by simp
  moreover have "permitted {10} i (Block_on 10 7) (vTaskSuspendAll s0)" using f p(7) by simp
  moreover have "xPendedTicks (vTaskSuspendAll s0) = 0"
    using steady_no_resumed(1) [OF reachable_steady [OF m(2)] p(3)] f by simp
  ultimately show ?thesis using that m(1) f(3) unfolding s0_def by simp
qed

text \<open>
  Waiting for an event with a time-out. A task that places itself on an event list for n ticks and resumes the
  scheduler hands the processor on. It is ready again at once if its time-out is over already, with the ticks that came
  while the scheduler was suspended; otherwise it is on the event list and waits for the rest of the time, or for
  ever if the block time is the largest one.
\<close>
theorem wait_for_event:
  assumes "reachable i E s" "permitted E i (Block_on l n) s"
  shows "\<exists>s'. perform (Block_on l n) s = Some s' \<and> yield_requested s' \<and>
    (if n \<noteq> portMAX_DELAY \<and> n \<le> xPendedTicks s then ready s' (pxCurrentTCB s)
     else at s' (event_item (pxCurrentTCB s)) = Some l \<and> \<not> ready s' (pxCurrentTCB s) \<and>
       remaining s' (pxCurrentTCB s) =
         (if n = portMAX_DELAY then None else Some (unat n - unat (xPendedTicks s))))"
  using assms by (rule block_on_outcome)

theorem wait_for_event_witness:
  "\<exists>t u i h s s1. main_state = Some ([t, u], i, h, s) \<and>
     perform (Block_on 10 7) (vTaskSuspendAll (on_lists (vListInitialise 10) s)) = Some s1 \<and>
     at s1 (event_item u) = Some 10 \<and> remaining s1 u = Some 7"
proof -
  obtain t u i h s where m: "main_state = Some ([t, u], i, h, s)"
    and b: "reachable i {10} (vTaskSuspendAll (on_lists (vListInitialise 10) s))"
      "permitted {10} i (Block_on 10 7) (vTaskSuspendAll (on_lists (vListInitialise 10) s))"
      "pxCurrentTCB (vTaskSuspendAll (on_lists (vListInitialise 10) s)) = u"
      "xPendedTicks (vTaskSuspendAll (on_lists (vListInitialise 10) s)) = 0" by (rule main_blocking)
  have "\<not> (7 :: u32) \<le> 0" by simp
  with wait_for_event [OF b(1,2)] obtain s1 where
    "perform (Block_on 10 7) (vTaskSuspendAll (on_lists (vListInitialise 10) s)) = Some s1"
    "at s1 (event_item u) = Some 10" "remaining s1 u = Some 7" unfolding b(3,4) by auto
  with m show ?thesis by blast
qed

text \<open>
  An event wakes one task, the first of the event list, and no other. The task leaves the event list. It is ready
  at once if the scheduler runs; otherwise it is kept for when the scheduler is resumed, and is not ready before.
\<close>
theorem event_wakes_first_waiter:
  assumes "reachable i E s" "permitted E i (Signal l) s"
  shows "\<exists>t s'. listGET_OWNER_OF_HEAD_ENTRY l (lists s) = t \<and> at s (event_item t) = Some l \<and>
    perform (Signal l) s = Some s' \<and> reachable i E s' \<and>
    (if uxSchedulerSuspended s = 0 then ready s' t \<and> at s' (event_item t) = None
     else pending s' t \<and> \<not> ready s' t) \<and>
    (\<forall>u. u \<noteq> t \<longrightarrow> at s' (state_item u) = at s (state_item u) \<and> at s' (event_item u) = at s (event_item u))"
proof -
  note ok = reachable_steady [OF assms(1)]
  note d = steadyD [OF ok]
  from signal_list [OF ok assms(2)] assms(2) obtain j where l: "l \<in> E" "at s j = Some l" by auto
  show ?thesis
  proof (cases "uxSchedulerSuspended s = 0")
    case True
    from signal_ready_run [OF ok True l] obtain t s' where
      s': "listGET_OWNER_OF_HEAD_ENTRY l (lists s) = t" "at s (event_item t) = Some l" "perform (Signal l) s = Some s'"
        "at s' = awake (\<lambda>u. u = t) s" unfolding perform.simps by blast
    have "ready s' t" using ready_awake [OF d(2) s'(4), of t] by blast
    with s' True reachable.called [OF assms s'(3)] show ?thesis by auto
  next
    case False
    from signal_pending_run [OF ok False l] obtain t s' where
      s': "listGET_OWNER_OF_HEAD_ENTRY l (lists s) = t" "at s (event_item t) = Some l" "perform (Signal l) s = Some s'"
        "at s' = (at s)(event_item t := Some xPendingReadyList)" unfolding perform.simps by blast
    have "\<not> ready s t" using ready_no_event [OF d(2), of t] s'(2) by auto
    then have "pending s' t" "\<not> ready s' t" by (simp_all add: pending_def ready_def s'(4))
    with s' False reachable.called [OF assms s'(3)] show ?thesis by auto
  qed
qed

theorem event_wakes_first_waiter_witness:
  "\<exists>t u i h s s1 s2. main_state = Some ([t, u], i, h, s) \<and>
     perform (Block_on 10 7) (vTaskSuspendAll (on_lists (vListInitialise 10) s)) = Some s1 \<and>
     perform (Signal 10) s1 = Some s2 \<and>
     (ready s2 (listGET_OWNER_OF_HEAD_ENTRY 10 (lists s1)) \<or> pending s2 (listGET_OWNER_OF_HEAD_ENTRY 10 (lists s1)))"
proof -
  obtain t u i h s where m: "main_state = Some ([t, u], i, h, s)"
    and b: "reachable i {10} (vTaskSuspendAll (on_lists (vListInitialise 10) s))"
      "permitted {10} i (Block_on 10 7) (vTaskSuspendAll (on_lists (vListInitialise 10) s))"
      "pxCurrentTCB (vTaskSuspendAll (on_lists (vListInitialise 10) s)) = u"
      "xPendedTicks (vTaskSuspendAll (on_lists (vListInitialise 10) s)) = 0" by (rule main_blocking)
  have "\<not> (7 :: u32) \<le> 0" by simp
  with block_on_outcome [OF b(1,2)] obtain s1 where
    1: "perform (Block_on 10 7) (vTaskSuspendAll (on_lists (vListInitialise 10) s)) = Some s1"
      "at s1 (event_item u) = Some 10" unfolding b(3,4) by auto
  have r1: "reachable i {10} s1" using reachable.called [OF b(1,2) 1(1)] .
  have "\<not> listLIST_IS_EMPTY 10 (lists s1)"
    using linked_empty [OF core_linked(1) [OF steadyD(2) [OF reachable_steady [OF r1]]], of 10] 1(2)
    by (auto simp: listLIST_IS_EMPTY_def)
  then have "permitted {10} i (Signal 10) s1" by simp
  from event_wakes_first_waiter [OF r1 this] obtain s2 where "perform (Signal 10) s1 = Some s2"
    "ready s2 (listGET_OWNER_OF_HEAD_ENTRY 10 (lists s1)) \<or> pending s2 (listGET_OWNER_OF_HEAD_ENTRY 10 (lists s1))"
    by (metis (no_types))
  with m 1(1) show ?thesis by blast
qed

section \<open>Priority inheritance\<close>



text \<open>
  When the running task gives back the last mutex it holds, it falls back to its base priority, and the call asks for
  a context switch exactly if it had inherited a priority; while it holds another mutex it keeps the priority.
\<close>
theorem holder_gives_priority_back:
  assumes "reachable i E s" "acting s" "uxMutexesHeld s (pxCurrentTCB s) \<noteq> 0"
  shows "\<exists>y s'. xTaskPriorityDisinherit (pxCurrentTCB s) s = Some (y, s') \<and> reachable i E (yield_if (y, s')) \<and>
    y = (uxPriority s (pxCurrentTCB s) \<noteq> uxBasePriority s (pxCurrentTCB s) \<and> uxMutexesHeld s (pxCurrentTCB s) = 1) \<and>
    uxPriority s' = (uxPriority s)(pxCurrentTCB s :=
      if uxMutexesHeld s (pxCurrentTCB s) = 1 then uxBasePriority s (pxCurrentTCB s) else uxPriority s (pxCurrentTCB s))"
proof -
  from xTaskPriorityDisinherit_run [OF reachable_steady [OF assms(1)] assms(2) refl assms(3)] obtain y s' where
    s': "xTaskPriorityDisinherit (pxCurrentTCB s) s = Some (y, s')"
      "y = (uxPriority s (pxCurrentTCB s) \<noteq> uxBasePriority s (pxCurrentTCB s) \<and> uxMutexesHeld s (pxCurrentTCB s) = 1)"
      "uxPriority s' = (uxPriority s)(pxCurrentTCB s :=
        if uxMutexesHeld s (pxCurrentTCB s) = 1 then uxBasePriority s (pxCurrentTCB s) else uxPriority s (pxCurrentTCB s))"
    by blast
  have "perform Disinherit s = Some (yield_if (y, s'))" by (simp add: s'(1))
  from reachable.called [OF assms(1) _ this] assms(2,3) have "reachable i E (yield_if (y, s'))" by simp
  with s' show ?thesis by blast
qed

lemma count_mutex_run:
  assumes "reachable i E s" "acting s"
  shows "perform Count_mutex s = Some (snd (pvTaskIncrementMutexHeldCount s))"
    "reachable i E (snd (pvTaskIncrementMutexHeldCount s))"
    "acting (snd (pvTaskIncrementMutexHeldCount s))"
    "pxCurrentTCB (snd (pvTaskIncrementMutexHeldCount s)) = pxCurrentTCB s"
    "uxMutexesHeld (snd (pvTaskIncrementMutexHeldCount s)) (pxCurrentTCB s) = uxMutexesHeld s (pxCurrentTCB s) + 1"
proof -
  show 1: "perform Count_mutex s = Some (snd (pvTaskIncrementMutexHeldCount s))" by simp
  show "reachable i E (snd (pvTaskIncrementMutexHeldCount s))"
    using reachable.called [OF assms(1) _ 1] assms(2) by simp
qed (use assms(2) steadyD(9) [OF reachable_steady [OF assms(1)]] in
    \<open>simp_all add: pvTaskIncrementMutexHeldCount_def Let_def acting_def\<close>)

text \<open>No task holds a mutex when the scheduler starts.\<close>

lemma create_mutexes:
  assumes "xTaskCreate ucHeap tcb_size depth p (h, s) = Some (t, h', s')" "uxMutexesHeld s = (\<lambda>_. 0)"
  shows "uxMutexesHeld s' = (\<lambda>_. 0)"
proof -
  have add: "uxMutexesHeld (prvAddNewTaskToReadyList t x) = uxMutexesHeld x" for t x
    by (simp add: prvAddNewTaskToReadyList_def Let_def prvInitialiseTaskLists_def on_lists_def prvAddTaskToReadyList_def
        portRECORD_READY_PRIORITY_def taskYIELD_ANY_CORE_IF_USING_PREEMPTION_def portYIELD_def)
  have "uxMutexesHeld x = (\<lambda>_. 0)" if "prvInitialiseNewTask p t (clear_tcb t s) = Some x" for t x
    using that assms(2) by (auto simp: prvInitialiseNewTask_def clear_tcb_def Let_def on_lists_def
        listSET_LIST_ITEM_OWNER_def listSET_LIST_ITEM_VALUE_def split: if_splits)
  with assms show ?thesis
    by (auto simp: xTaskCreate_def prvCreateTask_def Let_def bind_eq_Some_conv add split: prod.splits if_splits)
qed

lemma main_mutexes:
  assumes "main_state = Some (ts, i, h, s)"
  shows "uxMutexesHeld s = (\<lambda>_. 0)"
proof -
  have tasks: "create_tasks ucHeap tcb_size ds hs = Some (ts, h', s') \<Longrightarrow> uxMutexesHeld (snd hs) = (\<lambda>_. 0) \<Longrightarrow>
      uxMutexesHeld s' = (\<lambda>_. 0)" for ucHeap tcb_size ds hs ts h' s'
  proof (induction ds arbitrary: hs ts)
    case Nil
    then show ?case by (cases hs) simp
  next
    case (Cons d ds)
    obtain depth p where "d = (depth, p)" by (cases d)
    with Cons.prems(1) obtain t h1 s1 us where c: "xTaskCreate ucHeap tcb_size depth p (fst hs, snd hs) = Some (t, h1, s1)"
      "create_tasks ucHeap tcb_size ds (h1, s1) = Some (us, h', s')" by (auto simp: bind_eq_Some_conv split: if_splits)
    from create_mutexes [OF c(1) Cons.prems(2)] Cons.IH [OF c(2)] show ?case by simp
  qed
  from assms obtain h1 s1 where 1: "create_tasks 0xA0000000 96 [(190, 1), (190, 2)]
      (\<lparr>pucAlignedHeap = 0, xNextFreeByte = 0\<rparr>, sched_zero) = Some (ts, h1, s1)"
    and 2: "vTaskStartScheduler 0xA0000000 96 (h1, s1) = Some (i, h, s)"
    unfolding main_state_def main_boot_def boot_def by (auto simp: bind_eq_Some_conv)
  have "uxMutexesHeld s1 = (\<lambda>_. 0)" using tasks [OF 1] by (simp add: sched_zero_def)
  with 2 show ?thesis
    by (auto simp: vTaskStartScheduler_def prvCreateIdleTasks_def bind_eq_Some_conv dest!: create_mutexes split: if_splits)
qed

theorem holder_gives_priority_back_witness:
  "\<exists>t u i h s s1 s2 y. main_state = Some ([t, u], i, h, s) \<and> perform Count_mutex s = Some s1 \<and>
     xTaskPriorityDisinherit u s1 = Some (y, s2) \<and> uxPriority s2 u = uxBasePriority s1 u"
proof -
  obtain t u i h s where m: "main_state = Some ([t, u], i, h, s)" "reachable i {} s" "started_with t u i s"
    by (rule main_reachable)
  note p = started_permits [OF m(3)]
  note c = count_mutex_run [OF m(2) p(2), unfolded main_mutexes [OF m(1)] p(4)]
  have held: "uxMutexesHeld (snd (pvTaskIncrementMutexHeldCount s)) (pxCurrentTCB (snd (pvTaskIncrementMutexHeldCount s))) \<noteq> 0"
    unfolding c(4) c(5) by simp
  from holder_gives_priority_back [OF c(2,3) held] obtain y s2 where
    "xTaskPriorityDisinherit u (snd (pvTaskIncrementMutexHeldCount s)) = Some (y, s2)"
    "uxPriority s2 u = uxBasePriority (snd (pvTaskIncrementMutexHeldCount s)) u" unfolding c(4) c(5) by auto
  with m(1) c(1) show ?thesis by blast
qed

section \<open>Memory for tasks\<close>

lemma create_task_run:
  assumes "heap_inv ucHeap h" and used: "used = unat (xNextFreeByte h)"
    and stack: "stack = rounded (depth * 4)" and tcb: "tcb = rounded tcb_size"
  shows "xTaskCreate ucHeap tcb_size depth p (h, s) =
    (if \<not> (0 < stack \<and> used + stack < 8184) then Some (0, snd (pvPortMalloc ucHeap (depth * 4) h), s)
     else if \<not> (0 < tcb \<and> used + stack + tcb < 8184) \<or> \<not> p < 5 then None
     else let h1 = snd (pvPortMalloc ucHeap (depth * 4) h); r = pvPortMalloc ucHeap tcb_size h1; t = unat (fst r) div 8
       in Some (t, snd r, prvAddNewTaskToReadyList t (new_tcb p t s)))"
proof (cases "0 < stack \<and> used + stack < 8184")
  case False
  obtain x h1 where m: "pvPortMalloc ucHeap (depth * 4) h = (x, h1)" by fastforce
  from False heap_request [OF assms(1), of "depth * 4"] have "x = 0" by (auto simp: m stack used)
  with m False show ?thesis by (simp add: xTaskCreate_def prvCreateTask_def)
next
  case True
  then have fits: "0 < rounded (depth * 4)" "unat (xNextFreeByte h) + rounded (depth * 4) < 8184"
    by (simp_all add: stack used)
  from malloc_succeeds [OF assms(1) fits] obtain x h1 where
    x: "pvPortMalloc ucHeap (depth * 4) h = (x, h1)" "x \<noteq> 0" "heap_inv ucHeap h1"
      "unat (xNextFreeByte h1) = used + stack" unfolding used stack by blast
  show ?thesis
  proof (cases "0 < tcb \<and> used + stack + tcb < 8184")
    case small: False
    obtain y h2 where m: "pvPortMalloc ucHeap tcb_size h1 = (y, h2)" by fastforce
    from small heap_request [OF x(3), of tcb_size] have "y = 0" by (auto simp: m x(4) tcb)
    with m x small True show ?thesis by (simp add: xTaskCreate_def prvCreateTask_def vPortFree_def)
  next
    case big: True
    then have fits: "0 < rounded tcb_size" "unat (xNextFreeByte h1) + rounded tcb_size < 8184"
      by (simp_all add: x(4) tcb)
    obtain y h2 where y: "pvPortMalloc ucHeap tcb_size h1 = (y, h2)" "y \<noteq> 0" "unat y mod 8 = 0"
      by (rule malloc_succeeds [OF x(3) fits])
    have "unat y \<noteq> 0" using y(2) by (simp add: unat_eq_zero)
    with y(3) have "unat y div 8 \<noteq> 0" by presburger
    moreover have "prvInitialiseNewTask p t (clear_tcb t s) = (if p < 5 then Some (new_tcb p t s) else None)" for t
      using new_tcb_run by (simp add: prvInitialiseNewTask_def)
    ultimately show ?thesis using x y True big by (simp add: xTaskCreate_def prvCreateTask_def Let_def)
  qed
qed

text \<open>
  C37: What creating a task comes to. Without memory for the stack no task is created and nothing of the scheduler
  changes. If the stack fits but the control block does not, the stack would have to be given back, which the
  allocator of heap_1 refuses: an assertion fails. So does it for a priority that does not exist. Otherwise the task
  is created.
\<close>
theorem create_task_outcome:
  assumes "heap_inv ucHeap h"
  shows "xTaskCreate ucHeap tcb_size depth p (h, s) =
    (let used = unat (xNextFreeByte h); stack = rounded (depth * 4); tcb = rounded tcb_size;
         h1 = snd (pvPortMalloc ucHeap (depth * 4) h); r = pvPortMalloc ucHeap tcb_size h1; t = unat (fst r) div 8
     in if \<not> (0 < stack \<and> used + stack < 8184) then Some (0, h1, s)
        else if \<not> (0 < tcb \<and> used + stack + tcb < 8184) \<or> \<not> p < 5 then None
        else Some (t, snd r, prvAddNewTaskToReadyList t (new_tcb p t s)))"
  unfolding create_task_run [OF assms refl refl refl] Let_def ..

theorem create_task_outcome_witness:
  "xTaskCreate 0xA0000000 96 2046 1 (\<lparr>pucAlignedHeap = 0, xNextFreeByte = 0\<rparr>, sched_zero) =
     Some (0, \<lparr>pucAlignedHeap = 0xA0000000, xNextFreeByte = 0\<rparr>, sched_zero) \<and>
   xTaskCreate 0xA0000000 96 2040 1 (\<lparr>pucAlignedHeap = 0, xNextFreeByte = 0\<rparr>, sched_zero) = None"
proof -
  have inv: "heap_inv 0xA0000000 \<lparr>pucAlignedHeap = 0, xNextFreeByte = 0\<rparr>" by (simp add: heap_inv_def)
  have r: "rounded 8184 = 8184" "rounded 8160 = 8160" "rounded 96 = 96" by (simp_all add: rounded_def)
  have m: "snd (pvPortMalloc 0xA0000000 8184 \<lparr>pucAlignedHeap = 0, xNextFreeByte = 0\<rparr>) =
      \<lparr>pucAlignedHeap = 0xA0000000, xNextFreeByte = 0\<rparr>"
    unfolding pvPortMalloc_spec [OF inv] by (simp add: r aligned_base_def)
  show ?thesis using create_task_outcome [OF inv, of 96 2046 1 sched_zero] create_task_outcome [OF inv, of 96 2040 1 sched_zero]
    by (simp add: r m Let_def)
qed

section \<open>A ready bit that stays set\<close>

lemma stale_ready_bit:
  assumes ok: "core_ok E s" and t: "t \<noteq> 0" "t \<noteq> pxCurrentTCB s" "uxMutexesHeld s t = 1" and r: "ready s t"
    and alone: "\<And>u. u \<noteq> t \<Longrightarrow> ready s u \<Longrightarrow> uxPriority s u \<noteq> uxPriority s t"
    and w: "w < 5" "max (uxBasePriority s t) w \<noteq> uxPriority s t"
  shows "\<exists>s'. vTaskPriorityDisinheritAfterTimeout t w s = Some s' \<and>
    uxNumberOfItems (lists s') (unat (uxPriority s t)) = 0 \<and> bit (uxTopReadyPriority s') (unat (uxPriority s t))"
proof -
  define p where "p = max (uxBasePriority s t) w"
  let ?b = "uxBasePriority s" and ?v = "event_value t p s"
  define s0 where "s0 = reprio t p ?b ?v s"
  let ?L = "{0..9} \<union> E" and ?q = "unat (uxPriority s t)"
  note core = core_linked [OF ok]
  have p: "p = (if uxBasePriority s t < w then w else uxBasePriority s t)" unfolding p_def by (rule max_less)
  have base: "uxBasePriority s t \<le> uxPriority s t" "uxPriority s t < 5" using ok by (simp_all add: core_ok_def priorities_ok_def)
  have p5: "p < 5" using w(1) le_less_trans [OF base] by (simp add: p)
  have lk: "linked (lists s0) ?L" unfolding s0_def by (rule reprio_linked [OF ok])
  have f: "uxPriority s0 t = p" "at s0 = at s" "uxTopReadyPriority s0 = uxTopReadyPriority s" by (simp_all add: s0_def)
  have at: "at s (state_item u) = Some (unat (uxPriority s u))" if "ready s u" for u using ready_at [OF core(2) that] .
  have ev: "at s (event_item u) \<noteq> Some ?q" for u using event_high [OF ok, of u] core(5) [of t] by fastforce
  have only: "at s j = Some ?q \<Longrightarrow> j = state_item t" for j
  proof -
    assume j: "at s j = Some ?q"
    with ev item_cases [of j] obtain u where u: "j = state_item u" by auto
    then have "ready s u" using j core(5) [of t] by (simp add: ready_def)
    with at [OF this] j u alone [of u] show ?thesis by (auto simp: word_unat_eq_iff)
  qed
  from remove_moves [OF lk, of "state_item t" ?q] at [OF r] obtain n s1 where 1: "remove_item (state_item t) s0 = Some (n, s1)"
    "kept_linked ?L s0 ((at s)(state_item t := None)) (uxTopReadyPriority s) s1" "n = 0 \<longleftrightarrow> (\<forall>j. at s1 j \<noteq> Some ?q)"
    by (auto simp: f)
  then have at1: "at s1 = (at s)(state_item t := None)" and lk1: "linked (lists s1) ?L"
    and top1: "uxTopReadyPriority s1 = uxTopReadyPriority s" and pr1: "uxPriority s1 t = p"
    using relinked_fields(1) [of s0 s1] by (simp_all add: kept_linked_def f)
  have n: "n = 0" unfolding 1(3) using only by (auto simp: at1)
  define s2 where "s2 = portRESET_READY_PRIORITY p s1"
  define s' where "s' = prvAddTaskToReadyList t s2"
  have f2: "lists s2 = lists s1" "uxPriority s2 = uxPriority s1" by (simp_all add: s2_def portRESET_READY_PRIORITY_def)
  have "kept_linked ?L s2 ((at s2)(state_item t := Some (unat p))) (uxTopReadyPriority s2 OR push_bit (unat p) 1) s'"
    using add_ready_moves [of s2 ?L t, OF _ _ five_lists] lk1 p5 core(6) [OF at [OF r]]
    by (simp add: f2 pr1 at1 s'_def)
  then have 2: "linked (lists s') ?L" "at s' = (at s)(state_item t := Some (unat p))"
    "uxTopReadyPriority s' = (uxTopReadyPriority s AND NOT (push_bit (unat p) 1)) OR push_bit (unat p) 1"
    by (simp_all add: kept_linked_def f2 at1) (simp add: s2_def portRESET_READY_PRIORITY_def top1)
  have pq: "unat p \<noteq> ?q" using w(2) by (simp add: p_def word_unat_eq_iff)
  have "?q \<in> ?L" using core(5) [of t] by simp
  from linked_empty [OF 2(1) this] pq only have "uxNumberOfItems (lists s') ?q = 0" by (auto simp: 2(2))
  moreover have "bit (uxTopReadyPriority s) ?q \<longleftrightarrow> ?q < 5 \<and> (\<exists>u. at s (state_item u) = Some ?q)"
    using core(3) core(5) [of t] unfolding bits_ok_def by simp
  then have "bit (uxTopReadyPriority s) ?q" using core(5) [of t] at [OF r] by blast
  then have "bit (uxTopReadyPriority s') ?q" using pq core(5) [of t]
    by (simp add: 2(3) bit_or_iff bit_and_iff bit_not_iff bit_push_bit_iff)
  moreover have "set_event_value t p (set_priority t p s) = s0"
    by (simp add: s0_def set_event_value_def event_value_def reprio_def set_priority_def
        listSET_LIST_ITEM_VALUE_def on_lists_def listGET_LIST_ITEM_VALUE_def)
  then have "vTaskPriorityDisinheritAfterTimeout t w s = Some s'"
    using t w(2) p 1(1) n r contained_ready [OF ok, of t] pr1
    unfolding vTaskPriorityDisinheritAfterTimeout_def p [symmetric] p_def [symmetric]
    by (simp add: Let_def s'_def s2_def contained_in_def f eq_commute [of p] cong: if_cong)
  ultimately show ?thesis by blast
qed

text \<open>
  C39: A mutex that times out can leave the ready bits wrong. If the holder falls back from a priority that no other ready
  task has, \<open>vTaskPriorityDisinheritAfterTimeout\<close> resets the bit of the new priority instead of the old one: the bit
  of the old priority stays set for an empty ready list, and a context switch that finds it the highest one fails an
  assertion. As long as the task that timed out keeps its priority this cannot happen, since it is then on that list.
\<close>
theorem timeout_leaves_ready_bit:
  assumes "core_ok E s" "t \<noteq> 0" "t \<noteq> pxCurrentTCB s" "uxMutexesHeld s t = 1" "ready s t"
    and "\<forall>u. u \<noteq> t \<longrightarrow> ready s u \<longrightarrow> uxPriority s u \<noteq> uxPriority s t"
    and "w < 5" "max (uxBasePriority s t) w \<noteq> uxPriority s t"
  shows "\<exists>s'. vTaskPriorityDisinheritAfterTimeout t w s = Some s' \<and>
    uxNumberOfItems (lists s') (unat (uxPriority s t)) = 0 \<and> bit (uxTopReadyPriority s') (unat (uxPriority s t)) \<and>
    (\<forall>s2. lists s2 = lists s' \<and> portGET_HIGHEST_PRIORITY (uxTopReadyPriority s2) = uxPriority s t \<and>
       uxSchedulerSuspended s2 = 0 \<longrightarrow> vTaskSwitchContext s2 = None)"
  using stale_ready_bit [OF assms(1-5) _ assms(7,8)] assms(6)
  by (fastforce simp: vTaskSwitchContext_def taskSELECT_HIGHEST_PRIORITY_TASK_def pxReadyTasksLists_def Let_def)

theorem timeout_leaves_ready_bit_witness:
  "\<exists>t u i h s s'. main_state = Some ([t, u], i, h, s) \<and>
     vTaskPriorityDisinheritAfterTimeout t 0 (s\<lparr>uxMutexesHeld := (uxMutexesHeld s)(t := 1),
       uxBasePriority := (uxBasePriority s)(t := 0)\<rparr>) = Some s' \<and>
     uxNumberOfItems (lists s') 1 = 0 \<and> bit (uxTopReadyPriority s') 1"
proof -
  obtain t u i h s where m: "main_state = Some ([t, u], i, h, s)" "reachable i {} s" "started_with t u i s"
    by (rule main_reachable)
  note p = started_permits [OF m(3)]
  define s0 where "s0 = s\<lparr>uxMutexesHeld := (uxMutexesHeld s)(t := 1), uxBasePriority := (uxBasePriority s)(t := 0)\<rparr>"
  have f: "uxPriority s0 = uxPriority s" "lists s0 = lists s" "uxTopReadyPriority s0 = uxTopReadyPriority s"
    "pxCurrentTCB s0 = u" "uxMutexesHeld s0 t = 1" "uxBasePriority s0 = (uxBasePriority s)(t := 0)"
    "ready s0 x \<longleftrightarrow> ready s x" for x using p(4) by (simp_all add: s0_def ready_def)
  have core: "core_ok {} s0"
    using steadyD(2) [OF reachable_steady [OF m(2)]] by (simp add: core_ok_def lists_ok_def priorities_ok_def f)
  have alone: "\<forall>x. x \<noteq> t \<longrightarrow> ready s0 x \<longrightarrow> uxPriority s0 x \<noteq> uxPriority s0 t"
  proof (intro allI impI)
    fix x assume "x \<noteq> t" "ready s0 x"
    then have "x = i \<or> x = u" using m(3) unfolding started_with_def f(7) by blast
    then show "uxPriority s0 x \<noteq> uxPriority s0 t" using m(3) by (auto simp: started_with_def f(1))
  qed
  have one: "uxPriority s0 t = 1" "unat (uxPriority s0 t) = 1" using p(12) by (simp_all add: f(1))
  have "max (uxBasePriority s0 t) 0 \<noteq> uxPriority s0 t" "(0 :: u32) < 5" "ready s0 t" "t \<noteq> pxCurrentTCB s0"
    using p(4,8,9,12) by (simp_all add: f)
  from timeout_leaves_ready_bit [OF core p(5) this(4) f(5) this(3) alone this(2,1)] obtain s' where
    "vTaskPriorityDisinheritAfterTimeout t 0 s0 = Some s'" "uxNumberOfItems (lists s') 1 = 0" "bit (uxTopReadyPriority s') 1"
    unfolding one(2) by blast
  with m(1) show ?thesis unfolding s0_def by blast
qed

end
