(* ===== verification/Rtos_Queue_Kernel_Properties.thy ===== *)
theory Rtos_Queue_Kernel_Properties
  imports Rtos_Queue_Kernel Rtos_Kernel_Properties
begin

text \<open>
  What holds of the queues and the scheduler together: the calls of a queue use the scheduler only as it
  may be used, also when the caller waits, and an item that is sent reaches the task that waits for one.
\<close>

section \<open>Other tasks that let time pass\<close>

text \<open>
  The simplest company: requested switches are made and ticks come until the task t runs again, at most
  m of them.
\<close>

fun idle_until :: "nat \<Rightarrow> nat \<Rightarrow> sched \<Rightarrow> sched option" where
  "idle_until 0 t k = None"
| "idle_until (Suc m) t k =
     (if pxCurrentTCB k = t \<and> uxSchedulerSuspended k = 0 \<and> \<not> yield_requested k then Some k
      else Option.bind (if yield_requested k then vPortYieldISR k else vPortIncrementTick k) (idle_until m t))"

definition idle_others :: "nat \<Rightarrow> sched option qstate \<Rightarrow> sched option qstate option" where
  "idle_others m s = (case kern s of None \<Rightarrow> None
     | Some k \<Rightarrow> map_option (\<lambda>k'. s\<lparr>kern := Some k'\<rparr>) (idle_until m (pxCurrentTCB k) k))"

definition no_interrupts :: "sched option qstate \<Rightarrow> sched option qstate option" where
  "no_interrupts s = Some s"

lemma interleaves_first:
  assumes "permitted E i c k" "perform c k = Some k1" "interleaves E i k1 k'"
  shows "interleaves E i k k'"
  using assms(3)
proof (induction rule: interleaves.induct)
  case nothing
  from interleaves.another [OF interleaves.nothing assms(1,2)] show ?case .
next
  case (another s' c s'')
  then show ?case by (blast intro: interleaves.another)
qed

lemma idle_until_interleaves:
  "idle_until m t k = Some k' \<Longrightarrow> interleaves E i k k' \<and> pxCurrentTCB k' = t \<and> uxSchedulerSuspended k' = 0 \<and> \<not> yield_requested k'"
proof (induction m arbitrary: k)
  case (Suc m)
  show ?case
  proof (cases "pxCurrentTCB k = t \<and> uxSchedulerSuspended k = 0 \<and> \<not> yield_requested k")
    case True
    with Suc.prems show ?thesis by (auto intro: interleaves.nothing)
  next
    case False
    define c where "c = (if yield_requested k then Yield_interrupt else Tick_interrupt)"
    have "permitted E i c k" by (simp add: c_def)
    moreover from False Suc.prems obtain k1 where "perform c k = Some k1" "idle_until m t k1 = Some k'"
      by (cases "yield_requested k") (auto simp: c_def bind_eq_Some_conv)
    ultimately show ?thesis using Suc.IH interleaves_first by blast
  qed
qed simp

lemma idle_plays_along:
  assumes "range w \<subseteq> E" "t \<noteq> i"
  shows "plays_along E i t w (idle_others m) no_interrupts"
  unfolding plays_along_def runs_again_def interrupted_def
proof (intro conjI allI impI)
  fix s k s' assume k: "kern s = Some k" "idle_others m s = Some s'"
  then obtain k' where k': "idle_until m (pxCurrentTCB k) k = Some k'" "s' = s\<lparr>kern := Some k'\<rparr>"
    by (auto simp: idle_others_def)
  then show "pcHead (que s') = pcHead (que s)" by simp
  from idle_until_interleaves [OF k'(1)] k'(2)
  show "\<exists>k'. kern s' = Some k' \<and> interleaves E i k k' \<and> pxCurrentTCB k' = pxCurrentTCB k \<and>
    uxSchedulerSuspended k' = 0 \<and> \<not> yield_requested k'" by simp
next
  fix s k s' assume "kern s = Some k" "no_interrupts s = Some s'"
  then show "pcHead (que s') = pcHead (que s)" "\<exists>k'. kern s' = Some k' \<and> interleaves E i k k' \<and>
    pxCurrentTCB k' = pxCurrentTCB k \<and> uxSchedulerSuspended k' = uxSchedulerSuspended k"
    by (auto simp: no_interrupts_def intro: interleaves.nothing)
qed (rule assms)+

section \<open>A task that waits for an item\<close>

definition two_lists_of :: "wait_list \<Rightarrow> nat" where
  "two_lists_of l = (case l of xTasksWaitingToSend \<Rightarrow> 10 | xTasksWaitingToReceive \<Rightarrow> 11)"

lemma range_two [simp]: "range two_lists_of \<subseteq> {11, 10}"
  by (auto simp: two_lists_of_def split: wait_list.split)

text \<open>The second task of main waits on the list of the receivers of a queue, and the first one runs.\<close>

lemma main_receiver:
  obtains t u i h s k where "main_state = Some ([t, u], i, h, s)" "reachable i {11, 10} k" "pxCurrentTCB k = t" "t \<noteq> i" "t \<noteq> 0"
    "uxSchedulerSuspended k = 0" "\<not> yield_requested k" "at k (event_item u) = Some 11" "uxPriority k t = 1" "uxPriority k u = 2"
proof -
  obtain t u i h s where m: "main_state = Some ([t, u], i, h, s)" "reachable i {} s" "started_with t u i s"
    by (rule main_reachable)
  note p = started_permits [OF m(3)]
  define s0 where "s0 = on_lists (vListInitialise 11) (on_lists (vListInitialise 10) s)"
  have f: "uxSchedulerSuspended s0 = 0" "yield_requested s0 = yield_requested s" "pxCurrentTCB s0 = u"
    "xPendedTicks s0 = xPendedTicks s" "uxPriority s0 = uxPriority s" using p(3,4) by (simp_all add: s0_def on_lists_def)
  have r0: "reachable i {11, 10} s0"
    using reachable.new_list [OF reachable.new_list [OF m(2), of 10], of 11] by (simp add: s0_def)
  have at0: "at s0 = at s"
  proof -
    note core = core_linked(1) [OF steadyD(2) [OF reachable_steady [OF m(2)]]]
    have 1: "pxContainer (vListInitialise 10 (lists s)) = at s" using linked_init(2) [OF core, of 10] by simp
    note core' = core_linked(1) [OF steadyD(2) [OF reachable_steady [OF reachable.new_list [OF m(2), of 10]]]]
    have "pxContainer (vListInitialise 11 (vListInitialise 10 (lists s))) = pxContainer (vListInitialise 10 (lists s))"
      using linked_init(2) [OF core', of 11] by (simp add: on_lists_def)
    with 1 show ?thesis by (simp add: s0_def on_lists_def)
  qed
  have rd0: "ready s0 x \<longleftrightarrow> x \<in> {i, t, u}" for x
  proof -
    have "Collect (ready s) = {i, t, u}" using m(3) by (simp add: started_with_def)
    then have "ready s x \<longleftrightarrow> x \<in> {i, t, u}" by blast
    then show ?thesis by (simp add: ready_def at0)
  qed
  note no0 = steady_no_resumed(1,2) [OF reachable_steady [OF r0] f(1)]
  define s1 where "s1 = Rtos_Task.vTaskSuspendAll s0"
  have "permitted {11, 10} i Suspend_all s0" using p(1) f by (simp add: acting_def may_wait_def)
  from kernel_step [OF r0 this] have r1: "reachable i {11, 10} s1" by (simp add: s1_def)
  have f1: "uxSchedulerSuspended s1 = 1" "pxCurrentTCB s1 = u" "xPendedTicks s1 = 0" "at s1 = at s0" "uxPriority s1 = uxPriority s"
    "\<not> pending s1 x" for x using f no0 by (simp_all add: s1_def pending_def)
  have b: "permitted {11, 10} i (Block_on 11 7) s1" using f1 p(7) by simp
  have "pxCurrentTCB s1 \<noteq> i" "(11 :: nat) \<in> {11, 10}" "(7 :: u32) \<noteq> 0" using f1 p(7) by simp_all
  from block_on_run [OF reachable_steady [OF r1] f1(1) this] obtain s2 k1 where
    2: "at s2 = (at s1)(event_item u := Some 11, state_item u := Some (blocked_list 7 True s1))"
      "remaining s2 = (remaining s1)(u := Some 7)" "perform (Block_on 11 7) s1 = Some k1" "steady {11, 10} i k1" "yield_requested k1"
      "at k1 = awake (resumed s2) s2" "uxSchedulerSuspended k1 = 0" "uxPriority k1 = uxPriority s1" "pxCurrentTCB k1 = u"
      "\<And>x. resumed s2 x \<longleftrightarrow> pending s1 x \<or> within 0 s2 x" unfolding f1(2,3) by auto
  have "remaining s1 x \<noteq> Some 0" for x by (rule remaining_pos [OF steadyD(3) [OF reachable_steady [OF r1]]])
  then have "\<not> resumed s2 x" for x using f1(6) unfolding 2(10) by (auto simp: within_def 2(2))
  then have at1: "at k1 = at s2" unfolding 2(6) by (rule awake_none)
  have bl: "blocked_list 7 True s1 \<in> {5, 6, 9}"
    using times_two [OF steadyD(3) [OF reachable_steady [OF r1]]] by (auto simp: blocked_list_def two_lists_def)
  have rd1: "ready k1 x \<longleftrightarrow> x \<in> {i, t}" for x
  proof (cases "x = u")
    case True
    with bl p(7,8) show ?thesis by (auto simp: ready_def at1 2(1))
  next
    case False
    then have "ready k1 x = ready s0 x" by (simp add: ready_def at1 2(1) f1(4))
    with rd0 False show ?thesis by simp
  qed
  have rk1: "reachable i {11, 10} k1" using reachable.called [OF r1 b 2(3)] .
  from switch_steady [OF 2(4,7)] obtain k where
    3: "vPortYieldISR k1 = Some k" "top_ready k (pxCurrentTCB k)" "at k = at k1" "\<not> yield_requested k"
      "uxSchedulerSuspended k = 0" "uxPriority k = uxPriority k1" by blast
  have "permitted {11, 10} i Yield_interrupt k1" "perform Yield_interrupt k1 = Some k" using 2(5) 3(1) by simp_all
  from reachable.called [OF rk1 this] have rk: "reachable i {11, 10} k" .
  have pr: "uxPriority k = uxPriority s" by (simp add: 3(6) 2(8) f1(5))
  have cur: "pxCurrentTCB k = t"
  proof -
    have "ready k x \<longleftrightarrow> x \<in> {i, t}" for x using rd1 [of x] by (simp add: ready_def 3(3))
    with 3(2) have "pxCurrentTCB k \<in> {i, t}" "uxPriority k t \<le> uxPriority k (pxCurrentTCB k)"
      by (auto simp: top_ready_def)
    moreover have "uxPriority k i = 0" using m(3) by (simp add: pr started_with_def)
    ultimately show ?thesis using p(12) by (auto simp: pr)
  qed
  have ti: "t \<noteq> i" using m(3) by (auto simp: started_with_def)
  have "at k (event_item u) = Some 11" by (simp add: 3(3) at1 2(1))
  then show ?thesis using that [OF m(1) rk cur ti p(5) 3(5,4)] p(12,13) by (simp add: pr)
qed

section \<open>Queues on the scheduler\<close>

lemma send_room:
  assumes "uxMessagesWaiting (que s) < uxLength (que s)" "p \<noteq> queueOVERWRITE" "kernel_in (running E i t) s"
  shows "xQueueGenericSend (sched_kernel w oth isr) (Some item) n p s =
    Some (True, wake_and_yield (sched_kernel w oth isr) xTasksWaitingToReceive
      (fst (prvCopyDataToQueue (sched_kernel w oth isr) item p s)) (snd (prvCopyDataToQueue (sched_kernel w oth isr) item p s)))"
proof -
  from assms(3) obtain k where "kern s = Some k" "uxSchedulerSuspended k = 0" by (auto simp: kernel_in_def running_def)
  then show ?thesis
    using assms(1,2) send_loop_steps(1) [of p s] unfolding xQueueGenericSend_def has_room_def by simp
qed

text \<open>
  C3: The calls of a queue use the scheduler as it may be used. On the scheduler of tasks.c, with other tasks and
  interrupts that make permitted calls while the caller waits, a send, receive or peek, or a take of a counting
  semaphore, whatever its block time, fails no assertion of the kernel and leaves it in a state with its invariant, with
  the scheduler resumed and the caller as the current task.
\<close>
theorem queue_calls_keep_scheduler:
  assumes "plays_along E i t w oth isr" "kernel_in (running E i t) s"
    and "xQueueGenericSend (sched_kernel w oth isr) item n p s = Some (a, s') \<or>
      xQueueReceive (sched_kernel w oth isr) buffer n s = Some (x, s') \<or>
      xQueuePeek (sched_kernel w oth isr) buffer n s = Some (x, s') \<or>
      xQueueSemaphoreTake (sched_kernel w oth isr) n s = Some (a, s')"
  shows "kernel_in (running E i t) s'"
  using assms(3)
proof -
  have ok: "kernel_in (\<lambda>k. plays_along E i t w oth isr \<and> running E i t k) s" using assms(1,2) by (simp add: kernel_in_def)
  from assms(3) have "kernel_in (\<lambda>k. plays_along E i t w oth isr \<and> running E i t k) s'"
    by (elim disjE) (rule scheduler.calls_run [OF ok], assumption)+
  then show ?thesis by (simp add: kernel_in_def)
qed

definition one_place :: "sched \<Rightarrow> sched option qstate" where
  "one_place k = \<lparr>que = \<lparr>pcHead = 0x1000, pcWriteTo = 0x1000, pcTail_xMutexHolder = 0x1004,
     pcReadFrom_uxRecursiveCallCount = 0x1000, uxMessagesWaiting = 0, uxLength = 1, uxItemSize = 4,
     cRxLock = queueUNLOCKED, cTxLock = queueUNLOCKED\<rparr>, memory = \<lambda>_. 0, kern = Some k\<rparr>"

lemma one_place_sound:
  assumes "reachable i E k" "uxSchedulerSuspended k = 0" "pxCurrentTCB k = t"
  shows "kernel_in (running E i t) (one_place k)"
  using assms reachable_steady by (auto simp: kernel_in_def running_def one_place_def)

text \<open>In the witness the first task of main sends to a queue on which the second one waits.\<close>

theorem queue_calls_keep_scheduler_witness:
  "\<exists>t u i h s k s'. main_state = Some ([t, u], i, h, s) \<and>
     xQueueGenericSend (sched_kernel two_lists_of (idle_others 100) no_interrupts) (Some (\<lambda>_. 7)) 5 queueSEND_TO_BACK
       (one_place k) = Some (True, s') \<and> kernel_in (running {11, 10} i t) s'"
proof -
  obtain t u i h s k where m: "main_state = Some ([t, u], i, h, s)" "reachable i {11, 10} k" "pxCurrentTCB k = t"
    "t \<noteq> i" "uxSchedulerSuspended k = 0" by (rule main_receiver)
  have ok: "kernel_in (running {11, 10} i t) (one_place k)" by (rule one_place_sound [OF m(2,5,3)])
  have "uxMessagesWaiting (que (one_place k)) < uxLength (que (one_place k))" by (simp add: one_place_def)
  from send_room [OF this _ ok, of queueSEND_TO_BACK two_lists_of "idle_others 100" no_interrupts "\<lambda>_. 7" 5] obtain s' where
    s': "xQueueGenericSend (sched_kernel two_lists_of (idle_others 100) no_interrupts) (Some (\<lambda>_. 7)) 5 queueSEND_TO_BACK
       (one_place k) = Some (True, s')" by blast
  from queue_calls_keep_scheduler [OF idle_plays_along [OF range_two m(4)] ok disjI1 [OF s']] m(1) s' show ?thesis by blast
qed

lemma remove_event_higher:
  assumes "Rtos_Task_Api.xTaskRemoveFromEventList l s = Some (b, s')"
  shows "b \<longleftrightarrow> uxPriority s (listGET_OWNER_OF_HEAD_ENTRY l (lists s)) > uxPriority s (pxCurrentTCB s)"
proof -
  have r: "pxCurrentTCB y = pxCurrentTCB x \<and> uxPriority y = uxPriority x" if "listREMOVE_ITEM j x = Some y" for j x y
    using that by (auto simp: listREMOVE_ITEM_def remove_item_def)
  show ?thesis
    using assms by (auto simp: xTaskRemoveFromEventList_def Let_def bind_eq_Some_conv wake_def on_lists_def
        prvAddTaskToReadyList_def portRECORD_READY_PRIORITY_def dest!: r split: if_splits)
qed

text \<open>
  C4: An item reaches the task that waits for it. A send to a queue with room on which a task waits succeeds at once,
  takes the first waiting task, and no other, off the list and makes it ready; if that task has a higher priority than the
  sender, a context switch is requested.
\<close>
theorem send_wakes_waiting_receiver:
  assumes "kernel_in (running E i t) s" "range w \<subseteq> E" "kern s = Some k" "\<not> listLIST_IS_EMPTY (w xTasksWaitingToReceive) (lists k)"
    and "uxMessagesWaiting (que s) < uxLength (que s)" "p \<noteq> queueOVERWRITE"
  shows "\<exists>u s' k'. listGET_OWNER_OF_HEAD_ENTRY (w xTasksWaitingToReceive) (lists k) = u \<and>
    at k (event_item u) = Some (w xTasksWaitingToReceive) \<and>
    xQueueGenericSend (sched_kernel w oth isr) (Some item) n p s = Some (True, s') \<and> kern s' = Some k' \<and>
    uxMessagesWaiting (que s') = uxMessagesWaiting (que s) + 1 \<and>
    ready k' u \<and> at k' (event_item u) = None \<and> (uxPriority k u > uxPriority k t \<longrightarrow> yield_requested k') \<and>
    (\<forall>v. v \<noteq> u \<longrightarrow> at k' (state_item v) = at k (state_item v) \<and> at k' (event_item v) = at k (event_item v))"
proof -
  let ?K = "sched_kernel w oth isr" let ?l = "w xTasksWaitingToReceive"
  from assms(1,3) have k: "steady E i k" "uxSchedulerSuspended k = 0" "pxCurrentTCB k = t" "pcHead (que s) \<noteq> 0"
    by (auto simp: kernel_in_def running_def)
  have l: "?l \<in> E" using assms(2) by auto
  note core = steadyD(2) [OF k(1)]
  from event_waiting [OF core l assms(4)] obtain j where j: "at k j = Some ?l" .
  from signal_ready_run [OF k(1,2) l j] obtain u k' where
    u: "listGET_OWNER_OF_HEAD_ENTRY ?l (lists k) = u" "at k (event_item u) = Some ?l"
      "map_option yield_if (Rtos_Task_Api.xTaskRemoveFromEventList ?l k) = Some k'" "at k' = awake (\<lambda>v. v = u) k" by blast
  from u(3) obtain b k1 where b: "Rtos_Task_Api.xTaskRemoveFromEventList ?l k = Some (b, k1)" "yield_if (b, k1) = k'" by auto
  have y: "yield_requested k'" if "uxPriority k u > uxPriority k t"
    using that remove_event_higher [OF b(1)] b(2) by (auto simp: u(1) k(3) yield_if_def)
  let ?c = "prvCopyDataToQueue ?K item p s"
  have c: "kern (snd ?c) = Some k" "uxMessagesWaiting (que (snd ?c)) = uxMessagesWaiting (que s) + 1"
    using assms(3,6) k(4) by (auto simp: prvCopyDataToQueue_def Let_def on_que_def)
  define s' where "s' = wake_and_yield ?K xTasksWaitingToReceive (fst ?c) (snd ?c)"
  have s': "kern s' = Some k'" "uxMessagesWaiting (que s') = uxMessagesWaiting (que s) + 1"
    using c assms(4) b by (cases b; auto simp: s'_def wake_and_yield_def on_kern_def yield_if_def)+
  have "ready k' u" using ready_awake [OF core u(4), of u] by blast
  with u s' y send_room [OF assms(5,6,1), of w oth isr item n, folded s'_def] show ?thesis by auto
qed

theorem send_wakes_waiting_receiver_witness:
  "\<exists>t u i h s k s' k'. main_state = Some ([t, u], i, h, s) \<and>
     xQueueGenericSend (sched_kernel two_lists_of (idle_others 100) no_interrupts) (Some (\<lambda>_. 7)) 5 queueSEND_TO_BACK
       (one_place k) = Some (True, s') \<and> kern s' = Some k' \<and> ready k' (listGET_OWNER_OF_HEAD_ENTRY 11 (lists k))"
proof -
  obtain t u i h s k where m: "main_state = Some ([t, u], i, h, s)" "reachable i {11, 10} k" "pxCurrentTCB k = t"
    "t \<noteq> i" "uxSchedulerSuspended k = 0" "at k (event_item u) = Some 11" by (rule main_receiver)
  have ok: "kernel_in (running {11, 10} i t) (one_place k)" by (rule one_place_sound [OF m(2,5,3)])
  have 11: "two_lists_of xTasksWaitingToReceive = 11" by (simp add: two_lists_of_def)
  have "\<not> listLIST_IS_EMPTY 11 (lists k)"
    using linked_empty [OF core_linked(1) [OF steadyD(2) [OF reachable_steady [OF m(2)]]], of 11] m(6)
    by (auto simp: listLIST_IS_EMPTY_def)
  moreover have "kern (one_place k) = Some k" "uxMessagesWaiting (que (one_place k)) < uxLength (que (one_place k))"
    by (simp_all add: one_place_def)
  moreover have "queueSEND_TO_BACK \<noteq> queueOVERWRITE" by simp
  ultimately show ?thesis
    using send_wakes_waiting_receiver [OF ok range_two, where oth = "idle_others 100" and isr = no_interrupts and
      item = "\<lambda>_. 7" and n = 5 and p = queueSEND_TO_BACK] m(1) unfolding 11 by blast
qed

end
