(* ===== verification/Rtos_Notify.thy ===== *)
theory Rtos_Notify
  imports Rtos_Events
begin

text \<open>
  The task notifications of src/FreeRTOS/tasks.c. configTASK_NOTIFICATION_ARRAY_ENTRIES is 1, so the
  arrays of the control block hold one entry and an index other than 0 fails an assertion. A wait has
  a part before and a part after the calling task gives up the processor; what the rest of the program
  does in between is a parameter, a function on the state of the scheduler and the other memory.
\<close>

section \<open>Sending a notification\<close>

datatype eNotifyAction =
  eNoAction | eSetBits | eIncrement | eSetValueWithOverwrite | eSetValueWithoutOverwrite

abbreviation (input) configTASK_NOTIFICATION_ARRAY_ENTRIES :: u32 where
  "configTASK_NOTIFICATION_ARRAY_ENTRIES \<equiv> 1"

abbreviation (input) tskDEFAULT_INDEX_TO_NOTIFY :: u32 where "tskDEFAULT_INDEX_TO_NOTIFY \<equiv> 0"

text \<open>The switch over the action: whether the value could be written, and the value.\<close>

fun notified_value :: "eNotifyAction \<Rightarrow> notify_state \<Rightarrow> u32 \<Rightarrow> u32 \<Rightarrow> bool \<times> u32" where
  "notified_value eSetBits original ulValue v = (True, v OR ulValue)"
| "notified_value eIncrement original ulValue v = (True, v + 1)"
| "notified_value eSetValueWithOverwrite original ulValue v = (True, ulValue)"
| "notified_value eSetValueWithoutOverwrite original ulValue v =
     (if original \<noteq> taskNOTIFICATION_RECEIVED then (True, ulValue) else (False, v))"
| "notified_value eNoAction original ulValue v = (True, v)"

definition set_notified :: "nat \<Rightarrow> u32 \<Rightarrow> notify_state \<Rightarrow> sched \<Rightarrow> sched" where
  "set_notified t v n s =
     s\<lparr>ulNotifiedValue := (ulNotifiedValue s)(t := v), ucNotifyState := (ucNotifyState s)(t := n)\<rparr>"

text \<open>The result is whether the value was written, with the previous value.\<close>

definition xTaskGenericNotify ::
  "nat \<Rightarrow> u32 \<Rightarrow> u32 \<Rightarrow> eNotifyAction \<Rightarrow> sched \<Rightarrow> (bool \<times> u32 \<times> sched) option" where
  "xTaskGenericNotify t uxIndexToNotify ulValue eAction s =
     (if \<not> uxIndexToNotify < configTASK_NOTIFICATION_ARRAY_ENTRIES \<or> t = 0 then None
      else let previous = ulNotifiedValue s t;
               ucOriginalNotifyState = ucNotifyState s t;
               (xReturn, v) = notified_value eAction ucOriginalNotifyState ulValue previous;
               s = set_notified t v taskNOTIFICATION_RECEIVED s
      in if ucOriginalNotifyState = taskWAITING_NOTIFICATION
         then do {
           s \<leftarrow> listREMOVE_ITEM (state_item t) s;
           let s = prvAddTaskToReadyList t s;
           if \<not> contained_in (event_item t) None s then None
           else Some (xReturn, previous, taskYIELD_ANY_CORE_IF_USING_PREEMPTION t s)
         }
         else Some (xReturn, previous, s))"

text \<open>
  What both calls for interrupts do with a waiting task; the flag is what is stored through
  pxHigherPriorityTaskWoken.
\<close>

definition notify_waiting_from_isr :: "nat \<Rightarrow> sched \<Rightarrow> (bool \<times> sched) option" where
  "notify_waiting_from_isr t s =
     (if \<not> contained_in (event_item t) None s then None
      else do {
        s \<leftarrow> (if uxSchedulerSuspended s = 0
             then map_option (prvAddTaskToReadyList t) (listREMOVE_ITEM (state_item t) s)
             else Some (on_lists (vListInsertEnd xPendingReadyList (event_item t)) s));
        Some (wake t s)
      })"

definition xTaskGenericNotifyFromISR ::
  "nat \<Rightarrow> u32 \<Rightarrow> u32 \<Rightarrow> eNotifyAction \<Rightarrow> sched \<Rightarrow> (bool \<times> u32 \<times> bool \<times> sched) option" where
  "xTaskGenericNotifyFromISR t uxIndexToNotify ulValue eAction s =
     (if t = 0 \<or> \<not> uxIndexToNotify < configTASK_NOTIFICATION_ARRAY_ENTRIES then None
      else let previous = ulNotifiedValue s t;
               ucOriginalNotifyState = ucNotifyState s t;
               (xReturn, v) = notified_value eAction ucOriginalNotifyState ulValue previous;
               s = set_notified t v taskNOTIFICATION_RECEIVED s
      in if ucOriginalNotifyState = taskWAITING_NOTIFICATION
         then map_option (\<lambda>(woken, s). (xReturn, previous, woken, s)) (notify_waiting_from_isr t s)
         else Some (xReturn, previous, False, s))"

definition vTaskGenericNotifyGiveFromISR :: "nat \<Rightarrow> u32 \<Rightarrow> sched \<Rightarrow> (bool \<times> sched) option" where
  "vTaskGenericNotifyGiveFromISR t uxIndexToNotify s =
     (if t = 0 \<or> \<not> uxIndexToNotify < configTASK_NOTIFICATION_ARRAY_ENTRIES then None
      else let ucOriginalNotifyState = ucNotifyState s t;
               s = set_notified t (ulNotifiedValue s t + 1) taskNOTIFICATION_RECEIVED s
      in if ucOriginalNotifyState = taskWAITING_NOTIFICATION then notify_waiting_from_isr t s
         else Some (False, s))"

section \<open>Clearing\<close>

definition xTaskGenericNotifyStateClear :: "nat \<Rightarrow> u32 \<Rightarrow> sched \<Rightarrow> (bool \<times> sched) option" where
  "xTaskGenericNotifyStateClear h uxIndexToClear s =
     (let t = prvGetTCBFromHandle h s
      in if \<not> uxIndexToClear < configTASK_NOTIFICATION_ARRAY_ENTRIES \<or> t = 0 then None
         else if ucNotifyState s t = taskNOTIFICATION_RECEIVED
         then Some (True, s\<lparr>ucNotifyState := (ucNotifyState s)(t := taskNOT_WAITING_NOTIFICATION)\<rparr>)
         else Some (False, s))"

definition ulTaskGenericNotifyValueClear :: "nat \<Rightarrow> u32 \<Rightarrow> u32 \<Rightarrow> sched \<Rightarrow> (u32 \<times> sched) option" where
  "ulTaskGenericNotifyValueClear h uxIndexToClear ulBitsToClear s =
     (let t = prvGetTCBFromHandle h s
      in if \<not> uxIndexToClear < configTASK_NOTIFICATION_ARRAY_ENTRIES \<or> t = 0 then None
         else Some (ulNotifiedValue s t, s\<lparr>ulNotifiedValue :=
                      (ulNotifiedValue s)(t := ulNotifiedValue s t AND NOT ulBitsToClear)\<rparr>))"

section \<open>Waiting\<close>

text \<open>
  The scheduler with the other memory \<open>'b\<close> that is of interest. \<open>rest_of_program\<close> is what other tasks
  and interrupts do until the calling task runs (again), \<open>handlers\<close> what interrupts do while the
  scheduler is suspended; \<open>None\<close> if the task never runs again.
\<close>

record 'b world =
  os :: sched
  obj :: 'b

record 'b surroundings =
  rest_of_program :: "'b world \<Rightarrow> 'b world option"
  handlers :: "'b world \<Rightarrow> 'b world option"

definition on_os :: "(sched \<Rightarrow> sched option) \<Rightarrow> 'b world \<Rightarrow> 'b world option" where
  "on_os f w = map_option (\<lambda>s. w\<lparr>os := s\<rparr>) (f (os w))"

text \<open>The calling task is marked as waiting unless there is something for it (\<open>go_on\<close>) by now.\<close>

definition mark_waiting :: "(nat \<Rightarrow> sched \<Rightarrow> bool) \<Rightarrow> u32 \<Rightarrow> sched \<Rightarrow> bool \<times> sched" where
  "mark_waiting go_on ulBitsToClearOnEntry s =
     (let t = pxCurrentTCB s
      in if go_on t s then (False, s)
         else (True, set_notified t (ulNotifiedValue s t AND NOT ulBitsToClearOnEntry)
                       taskWAITING_NOTIFICATION s))"

text \<open>Resume the scheduler, and yield unless that has been done.\<close>

definition resume_and_yield :: "bool \<Rightarrow> sched \<Rightarrow> sched option" where
  "resume_and_yield xShouldBlock s =
     map_option (\<lambda>(xAlreadyYielded, s). if xShouldBlock \<and> \<not> xAlreadyYielded then portYIELD s else s)
       (xTaskResumeAll s)"

definition notify_block ::
  "'b surroundings \<Rightarrow> (nat \<Rightarrow> sched \<Rightarrow> bool) \<Rightarrow> u32 \<Rightarrow> u32 \<Rightarrow> 'b world \<Rightarrow> 'b world option" where
  "notify_block P go_on ulBitsToClearOnEntry xTicksToWait w = do {
     w \<leftarrow> rest_of_program P w;
     w \<leftarrow> on_os (\<lambda>s. Some (vTaskSuspendAll s)) w;
     w \<leftarrow> handlers P w;
     let (xShouldBlock, s) = mark_waiting go_on ulBitsToClearOnEntry (os w);
     w \<leftarrow> handlers P (w\<lparr>os := s\<rparr>);
     w \<leftarrow> (if xShouldBlock then on_os (prvAddCurrentTaskToDelayedList xTicksToWait True) w else Some w);
     w \<leftarrow> on_os (resume_and_yield xShouldBlock) w;
     rest_of_program P w
   }"

definition value_waiting :: "nat \<Rightarrow> sched \<Rightarrow> bool" where
  "value_waiting t s \<longleftrightarrow> ulNotifiedValue s t \<noteq> 0"

definition notification_waiting :: "nat \<Rightarrow> sched \<Rightarrow> bool" where
  "notification_waiting t s \<longleftrightarrow> ucNotifyState s t = taskNOTIFICATION_RECEIVED"

definition notify_take_exit :: "bool \<Rightarrow> sched \<Rightarrow> u32 \<times> sched" where
  "notify_take_exit xClearCountOnExit s =
     (let t = pxCurrentTCB s; ulReturn = ulNotifiedValue s t;
          v = (if ulReturn \<noteq> 0 then (if xClearCountOnExit then 0 else ulReturn - 1) else ulReturn)
      in (ulReturn, set_notified t v taskNOT_WAITING_NOTIFICATION s))"

definition ulTaskGenericNotifyTake ::
  "'b surroundings \<Rightarrow> u32 \<Rightarrow> bool \<Rightarrow> u32 \<Rightarrow> 'b world \<Rightarrow> (u32 \<times> 'b world) option" where
  "ulTaskGenericNotifyTake P uxIndexToWaitOn xClearCountOnExit xTicksToWait w =
     (if \<not> uxIndexToWaitOn < configTASK_NOTIFICATION_ARRAY_ENTRIES then None
      else do {
        w \<leftarrow> (if \<not> value_waiting (pxCurrentTCB (os w)) (os w) \<and> xTicksToWait > 0
             then notify_block P value_waiting 0 xTicksToWait w else Some w);
        let (ulReturn, s) = notify_take_exit xClearCountOnExit (os w);
        Some (ulReturn, w\<lparr>os := s\<rparr>)
      })"

text \<open>The result is whether there was a notification, with the value before bits are cleared.\<close>

definition notify_wait_exit :: "u32 \<Rightarrow> sched \<Rightarrow> bool \<times> u32 \<times> sched" where
  "notify_wait_exit ulBitsToClearOnExit s =
     (let t = pxCurrentTCB s; v = ulNotifiedValue s t
      in if ucNotifyState s t \<noteq> taskNOTIFICATION_RECEIVED
         then (False, v, set_notified t v taskNOT_WAITING_NOTIFICATION s)
         else (True, v, set_notified t (v AND NOT ulBitsToClearOnExit) taskNOT_WAITING_NOTIFICATION s))"

definition xTaskGenericNotifyWait ::
  "'b surroundings \<Rightarrow> u32 \<Rightarrow> u32 \<Rightarrow> u32 \<Rightarrow> u32 \<Rightarrow> 'b world \<Rightarrow> (bool \<times> u32 \<times> 'b world) option" where
  "xTaskGenericNotifyWait P uxIndexToWaitOn ulBitsToClearOnEntry ulBitsToClearOnExit xTicksToWait w =
     (if \<not> uxIndexToWaitOn < configTASK_NOTIFICATION_ARRAY_ENTRIES then None
      else do {
        w \<leftarrow> (if \<not> notification_waiting (pxCurrentTCB (os w)) (os w) \<and> xTicksToWait > 0
             then notify_block P notification_waiting ulBitsToClearOnEntry xTicksToWait w else Some w);
        let (xReturn, v, s) = notify_wait_exit ulBitsToClearOnExit (os w);
        Some (xReturn, v, w\<lparr>os := s\<rparr>)
      })"

end
