(* ===== verification/Rtos_Stream.thy ===== *)
theory Rtos_Stream
  imports Rtos_Notify Rtos_Heap
begin

text \<open>
  The stream and message buffers of src/FreeRTOS/stream_buffer.c, as configured: dynamic allocation, no
  callbacks, no tracing, the length of a message stored in a size_t. The storage is the list of the
  bytes \<open>pucBuffer\<close> points to; a copy that would leave it, like a failed \<open>configASSERT\<close>, is \<open>None\<close>. A task
  handle is the number of the task, 0 for NULL. The data of the caller is the byte at each offset.
\<close>

section \<open>Data\<close>

abbreviation (input) sbFLAGS_IS_MESSAGE_BUFFER :: u8 where "sbFLAGS_IS_MESSAGE_BUFFER \<equiv> 1"
abbreviation (input) sbFLAGS_IS_STATICALLY_ALLOCATED :: u8 where "sbFLAGS_IS_STATICALLY_ALLOCATED \<equiv> 2"
abbreviation (input) sbFLAGS_IS_BATCHING_BUFFER :: u8 where "sbFLAGS_IS_BATCHING_BUFFER \<equiv> 4"
abbreviation (input) sbBYTES_TO_STORE_MESSAGE_LENGTH :: u32 where "sbBYTES_TO_STORE_MESSAGE_LENGTH \<equiv> 4"

datatype sb_type = sbTYPE_STREAM_BUFFER | sbTYPE_MESSAGE_BUFFER | sbTYPE_STREAM_BATCHING_BUFFER

record StreamBuffer_t =
  xTail :: u32
  xHead :: u32
  xLength :: u32
  xTriggerLevelBytes :: u32
  xTaskWaitingToReceive :: nat
  xTaskWaitingToSend :: nat
  pucBuffer :: "u8 list"
  ucFlags :: u8
  uxNotificationIndex :: u32

text \<open>\<open>sizeof(StreamBuffer_t)\<close> with 4-byte pointers: 7 * 4 + 1, padded, + 4.\<close>

abbreviation (input) sizeof_StreamBuffer_t :: u32 where "sizeof_StreamBuffer_t \<equiv> 36"

definition is_message_buffer :: "StreamBuffer_t \<Rightarrow> bool" where
  "is_message_buffer b \<longleftrightarrow> ucFlags b AND sbFLAGS_IS_MESSAGE_BUFFER \<noteq> 0"

definition is_batching_buffer :: "StreamBuffer_t \<Rightarrow> bool" where
  "is_batching_buffer b \<longleftrightarrow> ucFlags b AND sbFLAGS_IS_BATCHING_BUFFER \<noteq> 0"

section \<open>The storage\<close>

text \<open>\<open>memcpy\<close> to and from an offset of the storage.\<close>

definition copy_in :: "u32 \<Rightarrow> u8 list \<Rightarrow> u8 list \<Rightarrow> u8 list option" where
  "copy_in off bs buf =
     (if unat off + length bs \<le> length buf
      then Some (take (unat off) buf @ bs @ drop (unat off + length bs) buf) else None)"

definition copy_out :: "u32 \<Rightarrow> u32 \<Rightarrow> u8 list \<Rightarrow> u8 list option" where
  "copy_out off n buf =
     (if unat off + unat n \<le> length buf then Some (take (unat n) (drop (unat off) buf)) else None)"

definition bytes_from :: "bytes_at \<Rightarrow> u32 \<Rightarrow> u32 \<Rightarrow> u8 list" where
  "bytes_from p off n = map (\<lambda>i. p (unat off + i)) [0..<unat n]"

text \<open>The new head, and the buffer with the bytes stored; the head is not moved yet.\<close>

definition prvWriteBytesToBuffer ::
  "bytes_at \<Rightarrow> u32 \<Rightarrow> u32 \<Rightarrow> StreamBuffer_t \<Rightarrow> (u32 \<times> StreamBuffer_t) option" where
  "prvWriteBytesToBuffer pucData xCount head b =
     (if xCount = 0 then None
      else let xFirstLength = min (xLength b - head) xCount
      in if \<not> head + xFirstLength \<le> xLength b then None
      else do {
        buf \<leftarrow> copy_in head (bytes_from pucData 0 xFirstLength) (pucBuffer b);
        buf \<leftarrow> (if xCount > xFirstLength
               then (if xCount - xFirstLength \<le> xLength b
                     then copy_in 0 (bytes_from pucData xFirstLength (xCount - xFirstLength)) buf else None)
               else Some buf);
        let head = head + xCount;
        Some (if head \<ge> xLength b then head - xLength b else head, b\<lparr>pucBuffer := buf\<rparr>)
      })"

text \<open>The new tail, and the bytes read; the tail is not moved yet.\<close>

definition prvReadBytesFromBuffer :: "u32 \<Rightarrow> u32 \<Rightarrow> StreamBuffer_t \<Rightarrow> (u32 \<times> u8 list) option" where
  "prvReadBytesFromBuffer xCount tail b =
     (if xCount = 0 then None
      else let xFirstLength = min (xLength b - tail) xCount
      in if \<not> (xFirstLength \<le> xCount \<and> tail + xFirstLength \<le> xLength b) then None
      else do {
        first \<leftarrow> copy_out tail xFirstLength (pucBuffer b);
        rest \<leftarrow> (if xCount > xFirstLength then copy_out 0 (xCount - xFirstLength) (pucBuffer b) else Some []);
        let tail = tail + xCount;
        Some (if tail \<ge> xLength b then tail - xLength b else tail, first @ rest)
      })"

definition prvBytesInBuffer :: "StreamBuffer_t \<Rightarrow> u32" where
  "prvBytesInBuffer b =
     (let xCount = xLength b + xHead b;
          xCount = xCount - xTail b
      in if xCount \<ge> xLength b then xCount - xLength b else xCount)"

text \<open>The loop that reads the tail twice leaves at once when nothing happens between the reads.\<close>

definition xStreamBufferSpacesAvailable :: "StreamBuffer_t \<Rightarrow> u32" where
  "xStreamBufferSpacesAvailable b =
     (let xSpace = xLength b + xTail b;
          xSpace = xSpace - xHead b;
          xSpace = xSpace - 1
      in if xSpace \<ge> xLength b then xSpace - xLength b else xSpace)"

definition xStreamBufferBytesAvailable :: "StreamBuffer_t \<Rightarrow> u32" where
  "xStreamBufferBytesAvailable b = prvBytesInBuffer b"

section \<open>Messages\<close>

text \<open>The four bytes a size_t has in memory, and back: the processor is little-endian.\<close>

definition size_bytes :: "u32 \<Rightarrow> u8 list" where
  "size_bytes n = [ucast n, ucast (drop_bit 8 n), ucast (drop_bit 16 n), ucast (drop_bit 24 n)]"

definition size_value :: "u8 list \<Rightarrow> u32" where
  "size_value bs = ucast (bs ! 0) OR push_bit 8 (ucast (bs ! 1)) OR push_bit 16 (ucast (bs ! 2)) OR
     push_bit 24 (ucast (bs ! 3))"

text \<open>The number of bytes of data written.\<close>

definition prvWriteMessageToBuffer ::
  "bytes_at \<Rightarrow> u32 \<Rightarrow> u32 \<Rightarrow> u32 \<Rightarrow> StreamBuffer_t \<Rightarrow> (u32 \<times> StreamBuffer_t) option" where
  "prvWriteMessageToBuffer pvTxData xDataLengthBytes xSpace xRequiredSpace b = do {
     (xNextHead, xDataLengthBytes, b) \<leftarrow>
       (if is_message_buffer b
        then (if xSpace \<ge> xRequiredSpace
              then map_option (\<lambda>(h, b). (h, xDataLengthBytes, b))
                (prvWriteBytesToBuffer (\<lambda>i. size_bytes xDataLengthBytes ! i)
                   sbBYTES_TO_STORE_MESSAGE_LENGTH (xHead b) b)
              else Some (xHead b, 0, b))
        else Some (xHead b, min xDataLengthBytes xSpace, b));
     if xDataLengthBytes \<noteq> 0
     then do {
       (h, b) \<leftarrow> prvWriteBytesToBuffer pvTxData xDataLengthBytes xNextHead b;
       Some (xDataLengthBytes, b\<lparr>xHead := h\<rparr>)
     }
     else Some (xDataLengthBytes, b)
   }"

text \<open>The bytes stored through \<open>pvRxData\<close>; their number is the result.\<close>

definition prvReadMessageFromBuffer ::
  "u32 \<Rightarrow> u32 \<Rightarrow> StreamBuffer_t \<Rightarrow> (u8 list \<times> StreamBuffer_t) option" where
  "prvReadMessageFromBuffer xBufferLengthBytes xBytesAvailable b = do {
     (xNextTail, xNextMessageLength, xBytesAvailable) \<leftarrow>
       (if is_message_buffer b
        then do {
          (t, bs) \<leftarrow> prvReadBytesFromBuffer sbBYTES_TO_STORE_MESSAGE_LENGTH (xTail b) b;
          let n = size_value bs;
          Some (t, if n > xBufferLengthBytes then 0 else n, xBytesAvailable - sbBYTES_TO_STORE_MESSAGE_LENGTH)
        }
        else Some (xTail b, xBufferLengthBytes, xBytesAvailable));
     let xCount = min xNextMessageLength xBytesAvailable;
     if xCount \<noteq> 0
     then do {
       (t, bs) \<leftarrow> prvReadBytesFromBuffer xCount xNextTail b;
       Some (bs, b\<lparr>xTail := t\<rparr>)
     }
     else Some ([], b)
   }"

section \<open>Creation, reset and queries\<close>

text \<open>The assertion on the storage fills it with 0x55; everything else is cleared before it is set.\<close>

definition prvInitialiseNewStreamBuffer :: "u32 \<Rightarrow> u32 \<Rightarrow> u8 \<Rightarrow> StreamBuffer_t" where
  "prvInitialiseNewStreamBuffer xBufferSizeBytes triggerLevel flags =
     \<lparr>xTail = 0, xHead = 0, xLength = xBufferSizeBytes, xTriggerLevelBytes = triggerLevel,
      xTaskWaitingToReceive = 0, xTaskWaitingToSend = 0, pucBuffer = replicate (unat xBufferSizeBytes) 0x55,
      ucFlags = flags, uxNotificationIndex = tskDEFAULT_INDEX_TO_NOTIFY\<rparr>"

text \<open>The handle (NULL = 0) with the heap and, if the allocation succeeded, the buffer.\<close>

definition xStreamBufferGenericCreate ::
  "u32 \<Rightarrow> u32 \<Rightarrow> u32 \<Rightarrow> sb_type \<Rightarrow> heap_1 \<Rightarrow> (u32 \<times> StreamBuffer_t option \<times> heap_1) option" where
  "xStreamBufferGenericCreate ucHeap xBufferSizeBytes triggerLevel xStreamBufferType h =
     (let flags = (case xStreamBufferType of
            sbTYPE_MESSAGE_BUFFER \<Rightarrow> sbFLAGS_IS_MESSAGE_BUFFER
          | sbTYPE_STREAM_BATCHING_BUFFER \<Rightarrow> sbFLAGS_IS_BATCHING_BUFFER
          | sbTYPE_STREAM_BUFFER \<Rightarrow> 0);
          enough = (if xStreamBufferType = sbTYPE_MESSAGE_BUFFER
                    then xBufferSizeBytes > sbBYTES_TO_STORE_MESSAGE_LENGTH else xBufferSizeBytes > 0)
      in if \<not> enough \<or> \<not> triggerLevel \<le> xBufferSizeBytes then None
         else let triggerLevel = (if triggerLevel = 0 then 1 else triggerLevel);
                  (pvAllocatedMemory, xBufferSizeBytes, h) =
                    (if xBufferSizeBytes < xBufferSizeBytes + 1 + sizeof_StreamBuffer_t
                     then (let xBufferSizeBytes = xBufferSizeBytes + 1;
                               (p, h) = pvPortMalloc ucHeap (xBufferSizeBytes + sizeof_StreamBuffer_t) h
                           in (p, xBufferSizeBytes, h))
                     else (0, xBufferSizeBytes, h))
         in Some (pvAllocatedMemory,
                  if pvAllocatedMemory \<noteq> 0
                  then Some (prvInitialiseNewStreamBuffer xBufferSizeBytes triggerLevel flags) else None, h))"

text \<open>The structure of a buffer that was not allocated dynamically is cleared instead.\<close>

definition vStreamBufferDelete :: "u32 \<Rightarrow> StreamBuffer_t \<Rightarrow> heap_1 \<Rightarrow> (StreamBuffer_t \<times> heap_1) option" where
  "vStreamBufferDelete xStreamBuffer b h =
     (if xStreamBuffer = 0 then None
      else if ucFlags b AND sbFLAGS_IS_STATICALLY_ALLOCATED = 0
      then map_option (\<lambda>h. (b, h)) (vPortFree xStreamBuffer h)
      else Some (\<lparr>xTail = 0, xHead = 0, xLength = 0, xTriggerLevelBytes = 0, xTaskWaitingToReceive = 0,
             xTaskWaitingToSend = 0, pucBuffer = [], ucFlags = 0, uxNotificationIndex = 0\<rparr>, h))"

definition xStreamBufferReset :: "StreamBuffer_t \<Rightarrow> bool \<times> StreamBuffer_t" where
  "xStreamBufferReset b =
     (if xTaskWaitingToReceive b = 0 \<and> xTaskWaitingToSend b = 0
      then (True, prvInitialiseNewStreamBuffer (xLength b) (xTriggerLevelBytes b) (ucFlags b))
      else (False, b))"

definition xStreamBufferResetFromISR :: "StreamBuffer_t \<Rightarrow> bool \<times> StreamBuffer_t" where
  "xStreamBufferResetFromISR b =
     (if xTaskWaitingToReceive b = 0 \<and> xTaskWaitingToSend b = 0
      then (True, prvInitialiseNewStreamBuffer (xLength b) (xTriggerLevelBytes b) (ucFlags b))
      else (False, b))"

definition xStreamBufferSetTriggerLevel :: "u32 \<Rightarrow> StreamBuffer_t \<Rightarrow> bool \<times> StreamBuffer_t" where
  "xStreamBufferSetTriggerLevel xTriggerLevel b =
     (let xTriggerLevel = (if xTriggerLevel = 0 then 1 else xTriggerLevel)
      in if xTriggerLevel < xLength b then (True, b\<lparr>xTriggerLevelBytes := xTriggerLevel\<rparr>) else (False, b))"

definition xStreamBufferIsEmpty :: "StreamBuffer_t \<Rightarrow> bool" where
  "xStreamBufferIsEmpty b \<longleftrightarrow> xHead b = xTail b"

definition xStreamBufferIsFull :: "StreamBuffer_t \<Rightarrow> bool" where
  "xStreamBufferIsFull b \<longleftrightarrow>
     xStreamBufferSpacesAvailable b \<le> (if is_message_buffer b then sbBYTES_TO_STORE_MESSAGE_LENGTH else 0)"

definition xStreamBufferNextMessageLengthBytes :: "StreamBuffer_t \<Rightarrow> u32 option" where
  "xStreamBufferNextMessageLengthBytes b =
     (if is_message_buffer b
      then (if prvBytesInBuffer b > sbBYTES_TO_STORE_MESSAGE_LENGTH
            then map_option (\<lambda>(_, bs). size_value bs)
              (prvReadBytesFromBuffer sbBYTES_TO_STORE_MESSAGE_LENGTH (xTail b) b)
            else if prvBytesInBuffer b = 0 then Some 0 else None)
      else Some 0)"

definition uxStreamBufferGetStreamBufferNotificationIndex :: "StreamBuffer_t \<Rightarrow> u32" where
  "uxStreamBufferGetStreamBufferNotificationIndex b = uxNotificationIndex b"

definition vStreamBufferSetStreamBufferNotificationIndex :: "u32 \<Rightarrow> StreamBuffer_t \<Rightarrow> StreamBuffer_t option" where
  "vStreamBufferSetStreamBufferNotificationIndex notificationIndex b =
     (if xTaskWaitingToReceive b = 0 \<and> xTaskWaitingToSend b = 0 \<and>
         notificationIndex < configTASK_NOTIFICATION_ARRAY_ENTRIES
      then Some (b\<lparr>uxNotificationIndex := notificationIndex\<rparr>) else None)"

section \<open>Waking the other side\<close>

text \<open>
  The calling side works on a \<open>world\<close>: the buffer and the scheduler. The notification of the task that
  waits is one step; with one task on either side nobody else changes the handle meanwhile.
\<close>

type_synonym sb_world = "StreamBuffer_t world"

definition notify_task :: "nat \<Rightarrow> u32 \<Rightarrow> sb_world \<Rightarrow> sb_world option" where
  "notify_task t notificationIndex =
     on_os (\<lambda>s. map_option (snd \<circ> snd) (xTaskGenericNotify t notificationIndex 0 eNoAction s))"

definition on_obj :: "('b \<Rightarrow> 'b) \<Rightarrow> 'b world \<Rightarrow> 'b world" where
  "on_obj f w = w\<lparr>obj := f (obj w)\<rparr>"

definition sbSEND_COMPLETED :: "sb_world \<Rightarrow> sb_world option" where
  "sbSEND_COMPLETED w = do {
     w \<leftarrow> on_os (\<lambda>s. Some (vTaskSuspendAll s)) w;
     w \<leftarrow> (if xTaskWaitingToReceive (obj w) \<noteq> 0
          then map_option (on_obj (\<lambda>b. b\<lparr>xTaskWaitingToReceive := 0\<rparr>))
            (notify_task (xTaskWaitingToReceive (obj w)) (uxNotificationIndex (obj w)) w)
          else Some w);
     on_os (\<lambda>s. map_option snd (xTaskResumeAll s)) w
   }"

definition sbRECEIVE_COMPLETED :: "sb_world \<Rightarrow> sb_world option" where
  "sbRECEIVE_COMPLETED w = do {
     w \<leftarrow> on_os (\<lambda>s. Some (vTaskSuspendAll s)) w;
     w \<leftarrow> (if xTaskWaitingToSend (obj w) \<noteq> 0
          then map_option (on_obj (\<lambda>b. b\<lparr>xTaskWaitingToSend := 0\<rparr>))
            (notify_task (xTaskWaitingToSend (obj w)) (uxNotificationIndex (obj w)) w)
          else Some w);
     on_os (\<lambda>s. map_option snd (xTaskResumeAll s)) w
   }"

text \<open>From an interrupt: whether there was a task to notify, and whether it has a higher priority.\<close>

definition notify_task_from_isr :: "nat \<Rightarrow> u32 \<Rightarrow> sb_world \<Rightarrow> (bool \<times> sb_world) option" where
  "notify_task_from_isr t notificationIndex w =
     map_option (\<lambda>(_, _, woken, s). (woken, w\<lparr>os := s\<rparr>))
       (xTaskGenericNotifyFromISR t notificationIndex 0 eNoAction (os w))"

definition xStreamBufferSendCompletedFromISR :: "sb_world \<Rightarrow> (bool \<times> bool \<times> sb_world) option" where
  "xStreamBufferSendCompletedFromISR w =
     (if xTaskWaitingToReceive (obj w) \<noteq> 0
      then map_option (\<lambda>(woken, w). (True, woken, on_obj (\<lambda>b. b\<lparr>xTaskWaitingToReceive := 0\<rparr>) w))
        (notify_task_from_isr (xTaskWaitingToReceive (obj w)) (uxNotificationIndex (obj w)) w)
      else Some (False, False, w))"

definition xStreamBufferReceiveCompletedFromISR :: "sb_world \<Rightarrow> (bool \<times> bool \<times> sb_world) option" where
  "xStreamBufferReceiveCompletedFromISR w =
     (if xTaskWaitingToSend (obj w) \<noteq> 0
      then map_option (\<lambda>(woken, w). (True, woken, on_obj (\<lambda>b. b\<lparr>xTaskWaitingToSend := 0\<rparr>) w))
        (notify_task_from_isr (xTaskWaitingToSend (obj w)) (uxNotificationIndex (obj w)) w)
      else Some (False, False, w))"

text \<open>The macros do the same, and only report the priority.\<close>

definition sbSEND_COMPLETE_FROM_ISR :: "sb_world \<Rightarrow> (bool \<times> sb_world) option" where
  "sbSEND_COMPLETE_FROM_ISR w = map_option snd (xStreamBufferSendCompletedFromISR w)"

definition sbRECEIVE_COMPLETED_FROM_ISR :: "sb_world \<Rightarrow> (bool \<times> sb_world) option" where
  "sbRECEIVE_COMPLETED_FROM_ISR w = map_option snd (xStreamBufferReceiveCompletedFromISR w)"

section \<open>Sending\<close>

definition bytes_required :: "u32 \<Rightarrow> StreamBuffer_t \<Rightarrow> u32" where
  "bytes_required xDataLengthBytes b =
     (if is_message_buffer b then xDataLengthBytes + sbBYTES_TO_STORE_MESSAGE_LENGTH else xDataLengthBytes)"

definition xStreamBufferSendFromISR ::
  "bytes_at option \<Rightarrow> u32 \<Rightarrow> sb_world \<Rightarrow> (u32 \<times> bool \<times> sb_world) option" where
  "xStreamBufferSendFromISR pvTxData xDataLengthBytes w =
     (case pvTxData of None \<Rightarrow> None
      | Some data \<Rightarrow> do {
          (xReturn, b) \<leftarrow> prvWriteMessageToBuffer data xDataLengthBytes (xStreamBufferSpacesAvailable (obj w))
                            (bytes_required xDataLengthBytes (obj w)) (obj w);
          let w = w\<lparr>obj := b\<rparr>;
          if xReturn > 0 \<and> prvBytesInBuffer b \<ge> xTriggerLevelBytes b
          then map_option (\<lambda>(woken, w). (xReturn, woken, w)) (sbSEND_COMPLETE_FROM_ISR w)
          else Some (xReturn, False, w)
        })"

text \<open>
  The loop that waits for space: it ends with the space seen last. Between its critical section and
  the end of the wait for a notification other tasks run.
\<close>

definition await_space :: "sb_world \<Rightarrow> sb_world option" where
  "await_space w = do {
     (_, s) \<leftarrow> xTaskGenericNotifyStateClear 0 (uxNotificationIndex (obj w)) (os w);
     if xTaskWaitingToSend (obj w) \<noteq> 0 then None
     else Some (w\<lparr>os := s, obj := (obj w)\<lparr>xTaskWaitingToSend := pxCurrentTCB s\<rparr>\<rparr>)
   }"

partial_function (option) wait_for_space ::
  "StreamBuffer_t surroundings \<Rightarrow> u32 \<Rightarrow> time_out \<Rightarrow> u32 \<Rightarrow> sb_world \<Rightarrow> (u32 \<times> sb_world) option" where
  "wait_for_space P xRequiredSpace xTimeOut xTicksToWait w =
     (if xStreamBufferSpacesAvailable (obj w) < xRequiredSpace
      then Option.bind (await_space w)
        (\<lambda>v. Option.bind (xTaskGenericNotifyWait P (uxNotificationIndex (obj v)) 0 0 xTicksToWait v)
          (\<lambda>r. let v = on_obj (\<lambda>b. b\<lparr>xTaskWaitingToSend := 0\<rparr>) (snd (snd r));
                   c = xTaskCheckForTimeOut (clock (os v)) xTimeOut xTicksToWait
               in if fst c then Some (xStreamBufferSpacesAvailable (obj w), v)
                  else wait_for_space P xRequiredSpace (fst (snd c)) (snd (snd c)) v))
      else Some (xStreamBufferSpacesAvailable (obj w), w))"

text \<open>
  What has to be there and how long to wait for it: a message that never fits is not waited for, and
  of a stream no more than the buffer can hold.
\<close>

definition send_request :: "u32 \<Rightarrow> u32 \<Rightarrow> StreamBuffer_t \<Rightarrow> (u32 \<times> u32) option" where
  "send_request xDataLengthBytes xTicksToWait b =
     (let xMaxReportedSpace = xLength b - 1;
          xRequiredSpace = bytes_required xDataLengthBytes b
      in if is_message_buffer b
         then (if \<not> xRequiredSpace > xDataLengthBytes then None
               else Some (xRequiredSpace, if xRequiredSpace > xMaxReportedSpace then 0 else xTicksToWait))
         else Some (if xRequiredSpace > xMaxReportedSpace then xMaxReportedSpace else xRequiredSpace, xTicksToWait))"

text \<open>
  Other tasks run as well (\<open>rest_of_program\<close>) before the space is read again, before the data is
  written, and before the reader is notified.
\<close>

definition xStreamBufferSend ::
  "StreamBuffer_t surroundings \<Rightarrow> bytes_at option \<Rightarrow> u32 \<Rightarrow> u32 \<Rightarrow> sb_world \<Rightarrow> (u32 \<times> sb_world) option" where
  "xStreamBufferSend P pvTxData xDataLengthBytes xTicksToWait w =
     (case pvTxData of None \<Rightarrow> None
      | Some data \<Rightarrow> do {
          (xRequiredSpace, xTicksToWait) \<leftarrow> send_request xDataLengthBytes xTicksToWait (obj w);
          (xSpace, w) \<leftarrow> (if xTicksToWait \<noteq> 0
             then wait_for_space P xRequiredSpace (vTaskInternalSetTimeOutState (clock (os w))) xTicksToWait w
             else Some (0, w));
          w \<leftarrow> rest_of_program P w;
          let xSpace = (if xSpace = 0 then xStreamBufferSpacesAvailable (obj w) else xSpace);
          w \<leftarrow> rest_of_program P w;
          (xReturn, b) \<leftarrow> prvWriteMessageToBuffer data xDataLengthBytes xSpace xRequiredSpace (obj w);
          w \<leftarrow> rest_of_program P (w\<lparr>obj := b\<rparr>);
          if xReturn > 0 \<and> prvBytesInBuffer (obj w) \<ge> xTriggerLevelBytes (obj w)
          then map_option (\<lambda>w. (xReturn, w)) (sbSEND_COMPLETED w)
          else Some (xReturn, w)
        })"

section \<open>Receiving\<close>

definition xStreamBufferReceiveFromISR ::
  "bool \<Rightarrow> u32 \<Rightarrow> sb_world \<Rightarrow> (u8 list \<times> bool \<times> sb_world) option" where
  "xStreamBufferReceiveFromISR pvRxData xBufferLengthBytes w =
     (if \<not> pvRxData then None
      else let xBytesAvailable = prvBytesInBuffer (obj w);
               xBytesToStoreMessageLength = (if is_message_buffer (obj w) then sbBYTES_TO_STORE_MESSAGE_LENGTH else 0)
      in if xBytesAvailable > xBytesToStoreMessageLength
         then do {
           (bytes, b) \<leftarrow> prvReadMessageFromBuffer xBufferLengthBytes xBytesAvailable (obj w);
           let w = w\<lparr>obj := b\<rparr>;
           if bytes \<noteq> []
           then map_option (\<lambda>(woken, w). (bytes, woken, w)) (sbRECEIVE_COMPLETED_FROM_ISR w)
           else Some (bytes, False, w)
         }
         else Some ([], False, w))"

text \<open>The number of bytes the buffer must hold more than, for there to be something to receive.\<close>

definition receive_threshold :: "StreamBuffer_t \<Rightarrow> u32" where
  "receive_threshold b =
     (if is_message_buffer b then sbBYTES_TO_STORE_MESSAGE_LENGTH
      else if is_batching_buffer b then xTriggerLevelBytes b else 0)"

definition await_data :: "sb_world \<Rightarrow> sb_world option" where
  "await_data w = do {
     (_, s) \<leftarrow> xTaskGenericNotifyStateClear 0 (uxNotificationIndex (obj w)) (os w);
     if xTaskWaitingToReceive (obj w) \<noteq> 0 then None
     else Some (w\<lparr>os := s, obj := (obj w)\<lparr>xTaskWaitingToReceive := pxCurrentTCB s\<rparr>\<rparr>)
   }"

definition xStreamBufferReceive ::
  "StreamBuffer_t surroundings \<Rightarrow> bool \<Rightarrow> u32 \<Rightarrow> u32 \<Rightarrow> sb_world \<Rightarrow> (u8 list \<times> sb_world) option" where
  "xStreamBufferReceive P pvRxData xBufferLengthBytes xTicksToWait w =
     (if \<not> pvRxData then None
      else let threshold = receive_threshold (obj w)
      in do {
        w \<leftarrow> (if xTicksToWait \<noteq> 0 \<and> prvBytesInBuffer (obj w) \<le> threshold
             then do {
               w \<leftarrow> await_data w;
               (_, _, w) \<leftarrow> xTaskGenericNotifyWait P (uxNotificationIndex (obj w)) 0 0 xTicksToWait w;
               Some (on_obj (\<lambda>b. b\<lparr>xTaskWaitingToReceive := 0\<rparr>) w)
             }
             else Some w);
        let xBytesAvailable = prvBytesInBuffer (obj w);
        if xBytesAvailable > threshold
        then do {
          w \<leftarrow> rest_of_program P w;
          (bytes, b) \<leftarrow> prvReadMessageFromBuffer xBufferLengthBytes xBytesAvailable (obj w);
          w \<leftarrow> rest_of_program P (w\<lparr>obj := b\<rparr>);
          if bytes \<noteq> [] then map_option (\<lambda>w. (bytes, w)) (sbRECEIVE_COMPLETED w)
          else Some (bytes, w)
        }
        else Some ([], w)
      })"

end
