(* ===== verification/Rtos_Stream_Bytes.thy ===== *)
theory Rtos_Stream_Bytes
  imports Rtos_Stream
begin

text \<open>
  The circular storage of stream_buffer.c as a list of bytes: storing and loading round the end, the
  bytes stored in a buffer, its invariant, and what the copying routines do to them.
\<close>

section \<open>Storing and loading round the end\<close>

definition ring_store :: "nat \<Rightarrow> 'a list \<Rightarrow> 'a list \<Rightarrow> 'a list" where
  "ring_store h bs buf =
     map (\<lambda>k. let i = (k + length buf - h) mod length buf in if i < length bs then bs ! i else buf ! k)
       [0..<length buf]"

definition ring_load :: "nat \<Rightarrow> nat \<Rightarrow> 'a list \<Rightarrow> 'a list" where
  "ring_load t n buf = map (\<lambda>i. buf ! ((t + i) mod length buf)) [0..<n]"

lemma ring_store_length [simp]: "length (ring_store h bs buf) = length buf"
  by (simp add: ring_store_def)

lemma ring_load_length [simp]: "length (ring_load t n buf) = n"
  by (simp add: ring_load_def)

lemma ring_load_0 [simp]: "ring_load t 0 buf = []"
  by (simp add: ring_load_def)

lemma ring_place: "t < L \<Longrightarrow> n mod L < (L :: nat)"
  by (rule mod_less_divisor) linarith

lemma ring_load_append: "ring_load t (m + n) buf = ring_load t m buf @ ring_load ((t + m) mod length buf) n buf"
  by (rule nth_equalityI) (auto simp: ring_load_def nth_append mod_simps algebra_simps)

lemma ring_load_take: "n \<le> m \<Longrightarrow> take n (ring_load t m buf) = ring_load t n buf"
  by (simp add: ring_load_def take_map)

lemma ring_load_drop:
  assumes "n \<le> m" shows "drop n (ring_load t m buf) = ring_load ((t + n) mod length buf) (m - n) buf"
  using ring_load_append [of t n "m - n" buf] assms by simp

text \<open>The distance of two places on the ring.\<close>

lemma ring_distance:
  fixes h i L :: nat
  assumes "h < L" "i < L"
  shows "((h + i) mod L + L - h) mod L = i"
proof (cases "h + i < L")
  case False
  then have "(h + i) mod L = h + i - L" using assms by (simp add: mod_if)
  then show ?thesis using False assms by simp
qed (use assms in simp)

lemma ring_store_nth:
  assumes "h < length buf" "i < length buf"
  shows "ring_store h bs buf ! ((h + i) mod length buf) =
    (if i < length bs then bs ! i else buf ! ((h + i) mod length buf))"
proof -
  have "(h + i) mod length buf < length buf" using assms(1) by (rule ring_place)
  then show ?thesis using ring_distance [OF assms] by (simp add: ring_store_def Let_def)
qed

lemma load_store:
  assumes "h < length buf" "length bs \<le> length buf"
  shows "ring_load h (length bs) (ring_store h bs buf) = bs"
  by (rule nth_equalityI) (use assms in \<open>auto simp: ring_load_def ring_store_nth\<close>)

lemma load_before_store:
  assumes t: "t < length buf" and m: "m + length bs \<le> length buf"
  shows "ring_load t m (ring_store ((t + m) mod length buf) bs buf) = ring_load t m buf"
proof (rule nth_equalityI)
  fix i assume "i < length (ring_load t m (ring_store ((t + m) mod length buf) bs buf))"
  then have i: "i < m" by simp
  let ?L = "length buf" let ?h = "(t + m) mod ?L"
  have h: "?h < ?L" using t by (rule ring_place)
  define j where "j = ?L - m + i"
  have j: "j < ?L" "length bs \<le> j" using i m by (auto simp: j_def)
  have "(?h + j) mod ?L = (t + m + j) mod ?L" by (simp add: mod_simps)
  also have "t + m + j = t + i + ?L" using i m by (simp add: j_def)
  finally have p: "(?h + j) mod ?L = (t + i) mod ?L" by simp
  have "ring_store ?h bs buf ! ((?h + j) mod ?L) = buf ! ((?h + j) mod ?L)"
    using ring_store_nth [OF h j(1), of bs] j(2) by simp
  then show "ring_load t m (ring_store ?h bs buf) ! i = ring_load t m buf ! i"
    using i by (simp add: ring_load_def p)
qed simp

lemma load_after_store:
  assumes "t < length buf" "m + length bs \<le> length buf"
  shows "ring_load t (m + length bs) (ring_store ((t + m) mod length buf) bs buf) = ring_load t m buf @ bs"
proof -
  have "(t + m) mod length buf < length buf" using assms(1) by (rule ring_place)
  with assms show ?thesis by (simp add: ring_load_append load_before_store load_store)
qed

text \<open>Two stores one behind the other are one.\<close>

lemma store_store:
  assumes h: "h < length buf" and l: "length as + length bs \<le> length buf"
  shows "ring_store ((h + length as) mod length buf) bs (ring_store h as buf) = ring_store h (as @ bs) buf"
proof (rule nth_equalityI)
  let ?L = "length buf" let ?g = "(h + length as) mod ?L"
  fix k assume "k < length (ring_store ?g bs (ring_store h as buf))"
  then have k: "k < ?L" by simp
  define i where "i = (k + ?L - h) mod ?L"
  have i: "i < ?L" "k = (h + i) mod ?L"
    using k h ring_place [OF k] by (simp_all add: i_def mod_simps)
  have g: "?g < ?L" using h by (rule ring_place)
  define j where "j = (if i < length as then i + ?L - length as else i - length as)"
  have j: "j < ?L" "(?g + j) mod ?L = k"
  proof -
    show "j < ?L" using i(1) by (auto simp: j_def)
    have "(?g + j) mod ?L = (h + length as + j) mod ?L" by (simp add: mod_simps)
    also have "h + length as + j = (if i < length as then h + i + ?L else h + i)"
      using l by (auto simp: j_def)
    finally show "(?g + j) mod ?L = k" by (auto simp: i(2))
  qed
  have "ring_store ?g bs (ring_store h as buf) ! k = (if j < length bs then bs ! j else ring_store h as buf ! k)"
    using ring_store_nth [of ?g "ring_store h as buf" j bs] g j by simp
  also have "ring_store h as buf ! k = (if i < length as then as ! i else buf ! k)"
    using ring_store_nth [OF h i(1), of as] i(2) by simp
  finally show "ring_store ?g bs (ring_store h as buf) ! k = ring_store h (as @ bs) buf ! k"
    using ring_store_nth [OF h i(1), of "as @ bs"] i l by (auto simp: j_def nth_append)
qed simp

section \<open>The two copies\<close>

lemma two_copies:
  assumes h: "h < length buf" and l: "length bs \<le> length buf" and k: "k = min (length buf - h) (length bs)"
  shows "drop k bs @ drop (length bs - k) (take h buf @ take k bs @ drop (h + k) buf) = ring_store h bs buf"
    (is "?l = _")
proof (rule nth_equalityI)
  have len: "length (take h buf @ take k bs @ drop (h + k) buf) = length buf" using h k by simp
  have "k \<le> length bs" using k by simp
  then show "length ?l = length (ring_store h bs buf)"
    unfolding length_append [of "drop k bs"] length_drop len using l by simp
  fix j assume "j < length ?l"
  then have j: "j < length buf"
    using l \<open>k \<le> length bs\<close> unfolding length_append [of "drop k bs"] length_drop len by simp
  define i where "i = (if h \<le> j then j - h else j + length buf - h)"
  have i: "i < length buf" "(h + i) mod length buf = j"
    using h j by (auto simp: i_def)
  have "?l ! j = (if i < length bs then bs ! i else buf ! j)"
  proof (cases "h \<le> j")
    case True
    then show ?thesis using h l j k by (auto simp: i_def nth_append min_def)
  next
    case False
    then show ?thesis using h l j k by (auto simp: i_def nth_append min_def add.commute)
  qed
  then show "?l ! j = ring_store h bs buf ! j" using ring_store_nth [OF h i(1), of bs] i(2) by simp
qed

lemma two_loads:
  assumes t: "t < length buf" and n: "n \<le> length buf" and k: "k = min (length buf - t) n"
  shows "take k (drop t buf) @ take (n - k) buf = ring_load t n buf"
proof (rule nth_equalityI)
  show "length (take k (drop t buf) @ take (n - k) buf) = length (ring_load t n buf)" using t n k by simp
  fix j assume "j < length (take k (drop t buf) @ take (n - k) buf)"
  then have j: "j < n" using t n k by simp
  show "(take k (drop t buf) @ take (n - k) buf) ! j = ring_load t n buf ! j"
  proof (cases "t + j < length buf")
    case True
    then have "j < k" "j < length buf - t" using j k by simp_all
    then show ?thesis using True j t by (simp add: ring_load_def nth_append)
  next
    case False
    then have kk: "k = length buf - t" "\<not> j < k" using j k by auto
    have "t + j - length buf < length buf" using t n j by linarith
    then have "(t + j) mod length buf = t + j - length buf" using False by (simp add: le_mod_geq)
    then have "(t + j) mod length buf = j - k" using False t kk(1) by linarith
    moreover have "(take k (drop t buf) @ take (n - k) buf) ! j = buf ! (j - k)"
      using kk j t n by (simp add: nth_append)
    ultimately show ?thesis using j by (simp add: ring_load_def)
  qed
qed

section \<open>The invariant, and what is stored\<close>

text \<open>The storage is one byte longer than what it may hold, and its length cannot make a sum overflow.\<close>

definition stream_ok :: "StreamBuffer_t \<Rightarrow> bool" where
  "stream_ok b \<longleftrightarrow> length (pucBuffer b) = unat (xLength b) \<and> 1 < unat (xLength b) \<and> unat (xLength b) \<le> 2 ^ 31 \<and>
     xHead b < xLength b \<and> xTail b < xLength b \<and>
     0 < unat (xTriggerLevelBytes b) \<and> unat (xTriggerLevelBytes b) < unat (xLength b) \<and> uxNotificationIndex b = 0"

definition used :: "StreamBuffer_t \<Rightarrow> nat" where
  "used b = (unat (xHead b) + length (pucBuffer b) - unat (xTail b)) mod length (pucBuffer b)"

definition stored :: "StreamBuffer_t \<Rightarrow> u8 list" where
  "stored b = ring_load (unat (xTail b)) (used b) (pucBuffer b)"

definition room :: "StreamBuffer_t \<Rightarrow> nat" where
  "room b = length (pucBuffer b) - 1 - used b"

lemma stored_length [simp]: "length (stored b) = used b"
  by (simp add: stored_def)

lemma stream_okD:
  assumes "stream_ok b"
  shows "length (pucBuffer b) = unat (xLength b)" "1 < length (pucBuffer b)" "length (pucBuffer b) \<le> 2 ^ 31"
    "unat (xHead b) < length (pucBuffer b)" "unat (xTail b) < length (pucBuffer b)"
    "used b < length (pucBuffer b)" "used b + room b = length (pucBuffer b) - 1" "uxNotificationIndex b = 0"
    "0 < unat (xTriggerLevelBytes b)" "unat (xTriggerLevelBytes b) < length (pucBuffer b)"
proof -
  show len: "length (pucBuffer b) = unat (xLength b)" "1 < length (pucBuffer b)" "length (pucBuffer b) \<le> 2 ^ 31"
    "uxNotificationIndex b = 0" "0 < unat (xTriggerLevelBytes b)" "unat (xTriggerLevelBytes b) < length (pucBuffer b)"
    using assms by (simp_all add: stream_ok_def)
  show "unat (xHead b) < length (pucBuffer b)" "unat (xTail b) < length (pucBuffer b)"
    using assms by (simp_all add: stream_ok_def word_less_nat_alt)
  from this(1) show u: "used b < length (pucBuffer b)" unfolding used_def by (rule ring_place)
  then show "used b + room b = length (pucBuffer b) - 1" by (simp add: room_def)
qed

text \<open>The head is where the bytes stored end.\<close>

lemma head_place:
  assumes "stream_ok b"
  shows "unat (xHead b) = (unat (xTail b) + used b) mod length (pucBuffer b)"
proof -
  note d = stream_okD [OF assms]
  have "(unat (xTail b) + used b) mod length (pucBuffer b) =
    (unat (xTail b) + (unat (xHead b) + length (pucBuffer b) - unat (xTail b))) mod length (pucBuffer b)"
    by (simp add: used_def mod_add_right_eq)
  then show ?thesis using d(4,5) by simp
qed

lemma u32_mod:
  fixes x L :: u32
  assumes "unat x < 2 * unat L"
  shows "unat (if x \<ge> L then x - L else x) = unat x mod unat L"
proof (cases "x \<ge> L")
  case True
  then have "unat (x - L) = unat x - unat L" by (rule unat_sub)
  then show ?thesis using True assms by (simp add: word_le_nat_alt mod_if)
qed (simp add: word_le_nat_alt)

lemma bytes_in_buffer:
  assumes "stream_ok b" shows "unat (prvBytesInBuffer b) = used b"
proof -
  note d = stream_okD [OF assms]
  have s: "unat (xLength b + xHead b) = unat (xLength b) + unat (xHead b)"
    using d(1,3,4) by (simp add: unat_plus_if')
  then have "unat (xLength b + xHead b - xTail b) = unat (xLength b) + unat (xHead b) - unat (xTail b)"
    using d(1,5) by (subst unat_sub) (simp_all add: word_le_nat_alt)
  moreover from this have "unat (xLength b + xHead b - xTail b) < 2 * unat (xLength b)" using d(1,4) by simp
  ultimately show ?thesis
    by (simp add: prvBytesInBuffer_def Let_def u32_mod used_def d(1) add.commute del: if_split)
qed

lemma spaces_available:
  assumes "stream_ok b" shows "unat (xStreamBufferSpacesAvailable b) = room b"
proof -
  note d = stream_okD [OF assms]
  have s: "unat (xLength b + xTail b) = unat (xLength b) + unat (xTail b)"
    using d(1,3,5) by (simp add: unat_plus_if')
  then have s: "unat (xLength b + xTail b - xHead b) = unat (xLength b) + unat (xTail b) - unat (xHead b)"
    using d(1,4) by (subst unat_sub) (simp_all add: word_le_nat_alt)
  have "1 \<le> xLength b + xTail b - xHead b" using s d(1,4) by (simp add: word_le_nat_alt)
  then have "unat (xLength b + xTail b - xHead b - 1) = unat (xLength b) + unat (xTail b) - unat (xHead b) - 1"
    using s by (simp add: unat_sub)
  moreover from this have "unat (xLength b + xTail b - xHead b - 1) < 2 * unat (xLength b)" using d(1,5) by simp
  moreover have "(unat (xLength b) + unat (xTail b) - unat (xHead b) - 1) mod unat (xLength b) = room b"
  proof (cases "unat (xHead b) < unat (xTail b)")
    case True
    then show ?thesis using d(1,4,5) by (simp add: room_def used_def mod_if)
  next
    case False
    then show ?thesis using d(1,4,5) by (simp add: room_def used_def mod_if)
  qed
  ultimately show ?thesis by (simp add: xStreamBufferSpacesAvailable_def Let_def u32_mod del: if_split)
qed

section \<open>The copying routines\<close>

lemma bytes_from_length [simp]: "length (bytes_from p off n) = unat n"
  by (simp add: bytes_from_def)

lemma bytes_from_take:
  assumes "k \<le> n"
  shows "bytes_from p 0 k = take (unat k) (bytes_from p 0 n)"
    "bytes_from p k (n - k) = drop (unat k) (bytes_from p 0 n)"
  using assms by (simp_all add: bytes_from_def take_map drop_map unat_sub word_le_nat_alt)
    (simp add: list_eq_iff_nth_eq)

definition ring_bytes :: "StreamBuffer_t \<Rightarrow> bool" where
  "ring_bytes b \<longleftrightarrow> length (pucBuffer b) = unat (xLength b) \<and> unat (xLength b) \<le> 2 ^ 31"

lemma stream_ring: "stream_ok b \<Longrightarrow> ring_bytes b"
  by (simp add: stream_ok_def ring_bytes_def)

lemma first_part:
  fixes h n L :: u32
  assumes "unat h < unat L" "unat n \<le> unat L" "unat L \<le> 2 ^ 31"
  shows "unat (min (L - h) n) = min (unat L - unat h) (unat n)" "min (L - h) n \<le> n"
    "h + min (L - h) n \<le> L" "unat (h + n) = unat h + unat n"
proof -
  have s: "unat (L - h) = unat L - unat h" using assms(1) by (simp add: unat_sub word_le_nat_alt)
  then show m: "unat (min (L - h) n) = min (unat L - unat h) (unat n)" by (simp add: min_def word_le_nat_alt)
  show "min (L - h) n \<le> n" by simp
  have "unat h + unat (min (L - h) n) < 2 ^ 32" using m assms(1,3) by simp
  then have "unat (h + min (L - h) n) = unat h + unat (min (L - h) n)" by (simp add: unat_plus_if')
  then show "h + min (L - h) n \<le> L" using m assms(1) by (simp add: word_le_nat_alt)
  show "unat (h + n) = unat h + unat n" using assms by (simp add: unat_plus_if')
qed

lemma moved_place:
  fixes h n L :: u32
  assumes "unat h < unat L" "unat n \<le> unat L" "unat L \<le> 2 ^ 31"
  shows "unat (if h + n \<ge> L then h + n - L else h + n) = (unat h + unat n) mod unat L"
  using u32_mod [of "h + n" L] first_part(4) [OF assms] assms(1,2) by simp

lemma write_bytes_run:
  assumes b: "ring_bytes b" and h: "unat h < length (pucBuffer b)" and n: "n \<noteq> 0" "unat n \<le> length (pucBuffer b)"
  obtains h' where "prvWriteBytesToBuffer p n h b =
      Some (h', b\<lparr>pucBuffer := ring_store (unat h) (bytes_from p 0 n) (pucBuffer b)\<rparr>)"
    "unat h' = (unat h + unat n) mod length (pucBuffer b)"
proof -
  define k where "k = min (xLength b - h) n"
  define bs where "bs = bytes_from p 0 n"
  define buf1 where "buf1 = take (unat h) (pucBuffer b) @ take (unat k) bs @ drop (unat h + unat k) (pucBuffer b)"
  have l: "unat h < unat (xLength b)" "unat n \<le> unat (xLength b)" "unat (xLength b) \<le> 2 ^ 31"
    "length (pucBuffer b) = unat (xLength b)"
    using b h n by (simp_all add: ring_bytes_def)
  note f = first_part [OF l(1-3), folded k_def]
  have len: "length bs = unat n" by (simp add: bs_def)
  have k: "unat k = min (length (pucBuffer b) - unat h) (length bs)" using f(1) l(4) len by simp
  have len1: "length buf1 = length (pucBuffer b)" using k h by (simp add: buf1_def)
  have c1: "copy_in h (bytes_from p 0 k) (pucBuffer b) = Some buf1"
    using k h by (simp add: copy_in_def bytes_from_take [OF f(2)] buf1_def bs_def)
  have r: "unat (n - k) = unat n - unat k" using f(2) by (rule unat_sub)
  then have r1: "n - k \<le> xLength b" using l(2) by (simp add: word_le_nat_alt)
  have c2: "copy_in 0 (bytes_from p k (n - k)) buf1 = Some (drop (unat k) bs @ drop (unat n - unat k) buf1)"
    using l(2,4) r len1 bytes_from_take(2) [OF f(2), of p] by (simp add: copy_in_def bs_def)
  have two: "drop (unat k) bs @ drop (unat n - unat k) buf1 = ring_store (unat h) bs (pucBuffer b)"
    using two_copies [OF h _ k] l(2,4) len unfolding buf1_def by simp
  have "prvWriteBytesToBuffer p n h b = Some (if h + n \<ge> xLength b then h + n - xLength b else h + n,
      b\<lparr>pucBuffer := ring_store (unat h) bs (pucBuffer b)\<rparr>)"
  proof (cases "n > k")
    case True
    then show ?thesis using n(1) f(3) r1 c1 c2 two unfolding prvWriteBytesToBuffer_def k_def [symmetric] by simp
  next
    case False
    then have "n = k" using f(2) by simp
    then have "buf1 = ring_store (unat h) bs (pucBuffer b)" using two len by simp
    then show ?thesis using False n(1) f(3) c1 unfolding prvWriteBytesToBuffer_def k_def [symmetric] by simp
  qed
  with that moved_place [OF l(1-3)] l(4) show ?thesis by (simp add: bs_def)
qed

lemma read_bytes_run:
  assumes b: "ring_bytes b" and t: "unat t < length (pucBuffer b)" and n: "n \<noteq> 0" "unat n \<le> length (pucBuffer b)"
  obtains t' where "prvReadBytesFromBuffer n t b = Some (t', ring_load (unat t) (unat n) (pucBuffer b))"
    "unat t' = (unat t + unat n) mod length (pucBuffer b)"
proof -
  define k where "k = min (xLength b - t) n"
  have l: "unat t < unat (xLength b)" "unat n \<le> unat (xLength b)" "unat (xLength b) \<le> 2 ^ 31"
    "length (pucBuffer b) = unat (xLength b)"
    using b t n by (simp_all add: ring_bytes_def)
  note f = first_part [OF l(1-3), folded k_def]
  have k: "unat k = min (length (pucBuffer b) - unat t) (unat n)" using f(1) l(4) by simp
  have r: "unat (n - k) = unat n - unat k" using f(2) by (rule unat_sub)
  have c1: "copy_out t k (pucBuffer b) = Some (take (unat k) (drop (unat t) (pucBuffer b)))"
    using k t by (simp add: copy_out_def)
  have c2: "copy_out 0 (n - k) (pucBuffer b) = Some (take (unat n - unat k) (pucBuffer b))"
    using l(2,4) r by (simp add: copy_out_def)
  have two: "take (unat k) (drop (unat t) (pucBuffer b)) @ take (unat n - unat k) (pucBuffer b) =
      ring_load (unat t) (unat n) (pucBuffer b)"
    using two_loads [OF t _ k] n(2) by simp
  have "prvReadBytesFromBuffer n t b = Some (if t + n \<ge> xLength b then t + n - xLength b else t + n,
      ring_load (unat t) (unat n) (pucBuffer b))"
  proof (cases "n > k")
    case True
    then show ?thesis using n(1) f(2,3) c1 c2 two unfolding prvReadBytesFromBuffer_def k_def [symmetric] by simp
  next
    case False
    then have "n = k" using f(2) by simp
    then have "take (unat k) (drop (unat t) (pucBuffer b)) = ring_load (unat t) (unat n) (pucBuffer b)"
      using two by simp
    then show ?thesis using False n(1) f(2,3) c1 unfolding prvReadBytesFromBuffer_def k_def [symmetric] by simp
  qed
  with that moved_place [OF l(1-3)] l(4) show ?thesis by simp
qed

end
