(* ===== verification/Rtos_Stream_Messages.thy ===== *)
theory Rtos_Stream_Messages
  imports Rtos_Stream_Bytes
begin

text \<open>
  What one side of a stream or message buffer does to the bytes stored: a stream grows at the end by as
  much as fits and shrinks at the front, a message buffer holds whole messages.
\<close>

section \<open>Moving the head and the tail\<close>

lemma stored_append:
  assumes ok: "stream_ok b" and fits: "length bs \<le> room b"
    and h: "unat h = (unat (xHead b) + length bs) mod length (pucBuffer b)"
  defines "b' \<equiv> b\<lparr>pucBuffer := ring_store (unat (xHead b)) bs (pucBuffer b), xHead := h\<rparr>"
  shows "stream_ok b'" "stored b' = stored b @ bs" "used b' = used b + length bs" "room b' = room b - length bs"
proof -
  note d = stream_okD [OF ok]
  have l: "used b + length bs < length (pucBuffer b)" using fits d(2,7) by simp
  have "unat h < length (pucBuffer b)" unfolding h by (rule ring_place) (rule d(4))
  then show "stream_ok b'" using ok by (simp add: stream_ok_def b'_def word_less_nat_alt)
  have "unat h = (unat (xTail b) + (used b + length bs)) mod length (pucBuffer b)"
    unfolding h head_place [OF ok] by (simp add: mod_simps add.assoc)
  then show u: "used b' = used b + length bs"
    using ring_distance [OF d(5) l] by (simp add: used_def b'_def)
  then show "room b' = room b - length bs" by (simp add: room_def b'_def)
  show "stored b' = stored b @ bs"
    using load_after_store [OF d(5), of "used b" bs] l head_place [OF ok] u by (simp add: stored_def b'_def)
qed

text \<open>Bytes behind the head are not stored until the head is moved.\<close>

lemma stored_free:
  assumes ok: "stream_ok b" and fits: "length bs \<le> room b"
  defines "b' \<equiv> b\<lparr>pucBuffer := ring_store (unat (xHead b)) bs (pucBuffer b)\<rparr>"
  shows "stream_ok b'" "stored b' = stored b" "used b' = used b" "room b' = room b"
proof -
  note d = stream_okD [OF ok]
  show "stream_ok b'" using ok by (simp add: stream_ok_def b'_def)
  show u: "used b' = used b" "room b' = room b" by (simp_all add: used_def room_def b'_def)
  show "stored b' = stored b"
    using load_before_store [OF d(5), of "used b" bs] fits d(2,7) head_place [OF ok] u by (simp add: stored_def b'_def)
qed

lemma stored_remove:
  assumes ok: "stream_ok b" and n: "n \<le> used b"
    and t: "unat t = (unat (xTail b) + n) mod length (pucBuffer b)"
  shows "stream_ok (b\<lparr>xTail := t\<rparr>)" "stored (b\<lparr>xTail := t\<rparr>) = drop n (stored b)"
    "used (b\<lparr>xTail := t\<rparr>) = used b - n" "room (b\<lparr>xTail := t\<rparr>) = room b + n"
proof -
  note d = stream_okD [OF ok]
  have t': "unat t < length (pucBuffer b)" unfolding t by (rule ring_place) (rule d(4))
  then show "stream_ok (b\<lparr>xTail := t\<rparr>)" using ok by (simp add: stream_ok_def word_less_nat_alt)
  have u': "used b - n < length (pucBuffer b)" using d(6) by simp
  have "(unat t + (used b - n)) mod length (pucBuffer b) = (unat (xTail b) + (n + (used b - n))) mod length (pucBuffer b)"
    unfolding t by (simp add: mod_simps add.assoc)
  also have "n + (used b - n) = used b" using n by simp
  finally have "unat (xHead b) = (unat t + (used b - n)) mod length (pucBuffer b)" using head_place [OF ok] by simp
  then show u: "used (b\<lparr>xTail := t\<rparr>) = used b - n"
    using ring_distance [OF t' u'] by (simp add: used_def)
  then show "room (b\<lparr>xTail := t\<rparr>) = room b + n" using n d(2,6) by (simp add: room_def)
  show "stored (b\<lparr>xTail := t\<rparr>) = drop n (stored b)"
    using ring_load_drop [OF n, of "unat (xTail b)" "pucBuffer b"] u t by (simp add: stored_def)
qed

text \<open>What the sending side leaves alone, and the receiving side.\<close>

definition only_sent :: "StreamBuffer_t \<Rightarrow> StreamBuffer_t \<Rightarrow> bool" where
  "only_sent b b' \<longleftrightarrow> b' = b\<lparr>pucBuffer := pucBuffer b', xHead := xHead b'\<rparr>"

definition only_taken :: "StreamBuffer_t \<Rightarrow> StreamBuffer_t \<Rightarrow> bool" where
  "only_taken b b' \<longleftrightarrow> b' = b\<lparr>xTail := xTail b'\<rparr>"

section \<open>Streams\<close>

lemma bytes_from_min: "unat (min n m) = min (unat n) (unat m)" for n m :: u32
  by (simp add: min_def word_le_nat_alt)

lemma append_bytes:
  assumes ok: "stream_ok b" and n: "n \<noteq> 0" "unat n \<le> room b"
  obtains h where "prvWriteBytesToBuffer p n (xHead b) b =
      Some (h, b\<lparr>pucBuffer := ring_store (unat (xHead b)) (bytes_from p 0 n) (pucBuffer b)\<rparr>)"
    "unat h = (unat (xHead b) + unat n) mod length (pucBuffer b)"
proof -
  note d = stream_okD [OF ok]
  have "unat n \<le> length (pucBuffer b)" using n(2) d(7) by simp
  from write_bytes_run [OF stream_ring [OF ok] d(4) n(1) this] that show ?thesis by blast
qed

lemma write_stream_run:
  assumes ok: "stream_ok b" and kind: "\<not> is_message_buffer b" and sp: "unat sp \<le> room b"
  shows "\<exists>b'. prvWriteMessageToBuffer p n sp req b = Some (min n sp, b') \<and> stream_ok b' \<and> only_sent b b' \<and>
    stored b' = stored b @ bytes_from p 0 (min n sp)"
proof (cases "min n sp = 0")
  case True
  then show ?thesis using ok kind by (auto simp: prvWriteMessageToBuffer_def only_sent_def bytes_from_def)
next
  case False
  have m: "unat (min n sp) \<le> room b" using sp by (simp add: bytes_from_min)
  from append_bytes [OF ok False m, of p] obtain h where
    w: "prvWriteBytesToBuffer p (min n sp) (xHead b) b =
      Some (h, b\<lparr>pucBuffer := ring_store (unat (xHead b)) (bytes_from p 0 (min n sp)) (pucBuffer b)\<rparr>)"
    "unat h = (unat (xHead b) + unat (min n sp)) mod length (pucBuffer b)" .
  from stored_append [OF ok, of "bytes_from p 0 (min n sp)" h] m w(2) False w(1) kind show ?thesis
    by (simp add: prvWriteMessageToBuffer_def only_sent_def)
qed

lemma load_front:
  assumes "stream_ok b" "n \<le> used b"
  shows "ring_load (unat (xTail b)) n (pucBuffer b) = take n (stored b)"
  using assms by (simp add: stored_def ring_load_take)

lemma read_stream_run:
  assumes ok: "stream_ok b" and kind: "\<not> is_message_buffer b" and n: "unat avail \<le> used b"
  shows "\<exists>b'. prvReadMessageFromBuffer len avail b = Some (take (min (unat len) (unat avail)) (stored b), b') \<and>
    stream_ok b' \<and> only_taken b b' \<and> stored b' = drop (min (unat len) (unat avail)) (stored b)"
proof (cases "min len avail = 0")
  case True
  then have "min (unat len) (unat avail) = 0" using bytes_from_min [of len avail] by simp
  with True show ?thesis using ok kind by (auto simp: prvReadMessageFromBuffer_def only_taken_def)
next
  case False
  note d = stream_okD [OF ok]
  have m: "unat (min len avail) \<le> used b" using n by (simp add: bytes_from_min)
  then have "unat (min len avail) \<le> length (pucBuffer b)" using d(6) by simp
  from read_bytes_run [OF stream_ring [OF ok] d(5) False this] obtain t where
    r: "prvReadBytesFromBuffer (min len avail) (xTail b) b =
        Some (t, ring_load (unat (xTail b)) (unat (min len avail)) (pucBuffer b))"
      "unat t = (unat (xTail b) + unat (min len avail)) mod length (pucBuffer b)" .
  from stored_remove [OF ok m r(2)] r(1) load_front [OF ok m] False kind show ?thesis
    by (simp add: prvReadMessageFromBuffer_def only_taken_def bytes_from_min)
qed

section \<open>Messages\<close>

lemma size_value_bytes [simp]: "size_value (size_bytes n) = n"
proof (rule bit_word_eqI)
  fix i assume "i < LENGTH(32)"
  then consider "i < 8" | "8 \<le> i" "i < 16" | "16 \<le> i" "i < 24" | "24 \<le> i" "i < 32" by fastforce
  then show "bit (size_value (size_bytes n)) i = bit n i"
    by cases (auto simp: size_value_def size_bytes_def bit_simps)
qed

lemma size_bytes_length [simp]: "length (size_bytes n) = 4"
  by (simp add: size_bytes_def)

text \<open>A message as it is stored, and a buffer that holds messages.\<close>

definition message_bytes :: "u8 list \<Rightarrow> u8 list" where
  "message_bytes m = size_bytes (of_nat (length m)) @ m"

definition holds_messages :: "StreamBuffer_t \<Rightarrow> u8 list list \<Rightarrow> bool" where
  "holds_messages b ms \<longleftrightarrow> stored b = concat (map message_bytes ms) \<and> (\<forall>m \<in> set ms. m \<noteq> [])"

lemma message_bytes_length [simp]: "length (message_bytes m) = length m + 4"
  by (simp add: message_bytes_def)

lemma holds_empty: "holds_messages b [] \<longleftrightarrow> used b = 0"
  by (simp add: holds_messages_def flip: stored_length)

lemma holds_first:
  assumes "stream_ok b" "holds_messages b (m # ms)"
  shows "stored b = size_bytes (of_nat (length m)) @ m @ concat (map message_bytes ms)" "m \<noteq> []"
    "length m + 4 \<le> used b" "unat (of_nat (length m) :: u32) = length m"
proof -
  from assms(2) show s: "stored b = size_bytes (of_nat (length m)) @ m @ concat (map message_bytes ms)" "m \<noteq> []"
    by (simp_all add: holds_messages_def message_bytes_def)
  from arg_cong [OF s(1), of length] show u: "length m + 4 \<le> used b" by simp
  then have "length m < 2 ^ 32" using stream_okD(3,6) [OF assms(1)] by simp
  then show "unat (of_nat (length m) :: u32) = length m" by (rule u32_of_nat)
qed

text \<open>
  The header and the data are two writes one behind the other; the head moves only after the second.
  A message that is too long for the space that is left is not stored, and neither is an empty one.
\<close>

lemma bytes_from_size: "bytes_from (\<lambda>i. size_bytes n ! i) 0 4 = size_bytes n"
  by (rule nth_equalityI) (simp_all add: bytes_from_def)

lemma write_header:
  assumes ok: "stream_ok b" and fits: "4 \<le> room b"
  obtains h where "prvWriteBytesToBuffer (\<lambda>i. size_bytes n ! i) 4 (xHead b) b =
      Some (h, b\<lparr>pucBuffer := ring_store (unat (xHead b)) (size_bytes n) (pucBuffer b)\<rparr>)"
    "unat h = (unat (xHead b) + 4) mod length (pucBuffer b)"
  using append_bytes [OF ok, of 4 "\<lambda>i. size_bytes n ! i"] fits that by (auto simp: bytes_from_size)

lemma write_message_run:
  assumes ok: "stream_ok b" and kind: "is_message_buffer b" and holds: "holds_messages b ms"
    and n: "n \<noteq> 0" "unat n + 4 \<le> unat sp" and sp: "unat sp \<le> room b"
  shows "\<exists>b'. prvWriteMessageToBuffer p n sp (n + 4) b = Some (n, b') \<and> stream_ok b' \<and> only_sent b b' \<and>
    holds_messages b' (ms @ [bytes_from p 0 n])"
proof -
  note d = stream_okD [OF ok]
  let ?m = "bytes_from p 0 n" and ?h = "unat (xHead b)"
  have fits: "4 \<le> room b" "unat n + 4 \<le> room b" using n sp by simp_all
  have lt: "unat n + 4 < 2 ^ 32" using fits d(3,7) by simp
  then have req: "unat (n + 4) = unat n + 4" by (simp add: unat_plus_if')
  then have le: "sp \<ge> n + 4" using n(2) by (simp add: word_le_nat_alt)
  from write_header [OF ok fits(1)] obtain h where w1: "prvWriteBytesToBuffer (\<lambda>i. size_bytes n ! i) 4 (xHead b) b =
      Some (h, b\<lparr>pucBuffer := ring_store ?h (size_bytes n) (pucBuffer b)\<rparr>)"
    "unat h = (?h + 4) mod length (pucBuffer b)" .
  define b1 where "b1 = b\<lparr>pucBuffer := ring_store ?h (size_bytes n) (pucBuffer b)\<rparr>"
  have f1: "pucBuffer b1 = ring_store ?h (size_bytes n) (pucBuffer b)" "ring_bytes b1" "xHead b1 = xHead b"
    using stream_ring [OF ok] by (simp_all add: b1_def ring_bytes_def)
  have h: "unat h < length (pucBuffer b1)" unfolding w1(2) f1 ring_store_length by (rule ring_place) (rule d(4))
  have "unat n \<le> length (pucBuffer b1)" using fits(2) d(7) by (simp add: f1)
  from write_bytes_run [OF f1(2) h n(1) this, of p] obtain g where
    w2: "prvWriteBytesToBuffer p n h b1 = Some (g, b1\<lparr>pucBuffer := ring_store (unat h) ?m (pucBuffer b1)\<rparr>)"
      "unat g = (unat h + unat n) mod length (pucBuffer b1)" .
  define b2 where "b2 = b\<lparr>pucBuffer := ring_store ?h (size_bytes n @ ?m) (pucBuffer b), xHead := g\<rparr>"
  have "ring_store (unat h) ?m (pucBuffer b1) = ring_store ?h (size_bytes n @ ?m) (pucBuffer b)"
    using store_store [OF d(4), of "size_bytes n" ?m] fits(2) d(7) by (simp add: f1(1) w1(2))
  then have run: "prvWriteMessageToBuffer p n sp (n + 4) b = Some (n, b2)"
    using w1(1) w2(1) kind le n(1) by (simp add: prvWriteMessageToBuffer_def b1_def b2_def)
  have g: "unat g = (?h + length (size_bytes n @ ?m)) mod length (pucBuffer b)"
    using w2(2) w1(2) by (simp add: f1 mod_simps add.assoc)
  have "length (size_bytes n @ ?m) \<le> room b" using fits(2) by simp
  note a = stored_append [OF ok this g, folded b2_def]
  have "message_bytes ?m = size_bytes n @ ?m" by (simp add: message_bytes_def)
  moreover have "?m \<noteq> []" using n(1) by (simp add: bytes_from_def unat_eq_zero)
  ultimately have "holds_messages b2 (ms @ [?m])" using holds a(2) by (simp add: holds_messages_def)
  with run a(1) show ?thesis by (auto simp: only_sent_def b2_def)
qed

lemma write_no_message:
  assumes ok: "stream_ok b" and kind: "is_message_buffer b" and sp: "unat sp \<le> room b" and n: "n = 0 \<or> sp < req"
    and req: "n = 0 \<Longrightarrow> req = 4"
  shows "\<exists>b'. prvWriteMessageToBuffer p n sp req b = Some (0, b') \<and> stream_ok b' \<and> only_sent b b' \<and>
    stored b' = stored b \<and> xHead b' = xHead b"
proof (cases "sp < req")
  case True
  then show ?thesis using ok kind by (auto simp: prvWriteMessageToBuffer_def only_sent_def)
next
  case False
  then have n0: "n = 0" "req = 4" using n req by auto
  have r4: "4 \<le> room b" using False n0(2) sp by (simp add: word_less_nat_alt)
  from write_header [OF ok r4, of n] obtain h where w: "prvWriteBytesToBuffer (\<lambda>i. size_bytes n ! i) 4 (xHead b) b =
      Some (h, b\<lparr>pucBuffer := ring_store (unat (xHead b)) (size_bytes n) (pucBuffer b)\<rparr>)" by blast
  moreover have "4 \<le> sp" using False n0(2) by simp
  ultimately show ?thesis using stored_free [OF ok, of "size_bytes n"] r4 w n0 kind
    by (simp add: prvWriteMessageToBuffer_def only_sent_def)
qed

lemma read_message_run:
  assumes ok: "stream_ok b" and kind: "is_message_buffer b" and holds: "holds_messages b (m # ms)"
    and avail: "length m + 4 \<le> unat avail"
  shows "\<exists>b'. prvReadMessageFromBuffer len avail b =
      Some (if length m \<le> unat len then m else [], b') \<and> stream_ok b' \<and> only_taken b b' \<and>
    holds_messages b' (if length m \<le> unat len then ms else m # ms)"
proof -
  note d = stream_okD [OF ok] and f = holds_first [OF ok holds]
  have four: "unat (4 :: u32) \<le> used b" "unat (4 :: u32) \<le> length (pucBuffer b)" using f(3) d(6) by simp_all
  from read_bytes_run [OF stream_ring [OF ok] d(5) _ four(2)] obtain t where
    r1: "prvReadBytesFromBuffer 4 (xTail b) b = Some (t, ring_load (unat (xTail b)) (unat (4 :: u32)) (pucBuffer b))"
      "unat t = (unat (xTail b) + unat (4 :: u32)) mod length (pucBuffer b)" by auto
  have head: "ring_load (unat (xTail b)) (unat (4 :: u32)) (pucBuffer b) = size_bytes (of_nat (length m))"
    using load_front [OF ok four(1)] f(1) by simp
  have rest: "unat (avail - 4) = unat avail - 4" using avail by (simp add: unat_sub word_le_nat_alt)
  show ?thesis
  proof (cases "length m \<le> unat len")
    case False
    then have "(of_nat (length m) :: u32) > len" using f(4) by (simp add: word_less_nat_alt)
    then show ?thesis using r1(1) head kind False ok holds
      by (simp add: prvReadMessageFromBuffer_def only_taken_def)
  next
    case True
    then have le: "\<not> (of_nat (length m) :: u32) > len" using f(4) by (simp add: word_less_nat_alt)
    define n :: u32 where "n = of_nat (length m)"
    have n: "n \<noteq> 0" "unat n = length m" using f(2,4) by (simp_all add: n_def flip: unat_eq_zero)
    have "length m \<le> unat avail - 4" using avail by simp
    then have mn: "min n (avail - 4) = n" using rest n(2) by (simp add: min_def word_le_nat_alt)
    have t: "unat t < length (pucBuffer b)" unfolding r1(2) by (rule ring_place) (rule d(5))
    have "unat n \<le> length (pucBuffer b)" using n(2) f(3) d(6) by simp
    from read_bytes_run [OF stream_ring [OF ok] t n(1) this] obtain u where
      r2: "prvReadBytesFromBuffer n t b = Some (u, ring_load (unat t) (unat n) (pucBuffer b))"
        "unat u = (unat t + unat n) mod length (pucBuffer b)" .
    have u: "unat u = (unat (xTail b) + (4 + length m)) mod length (pucBuffer b)"
      unfolding r2(2) r1(2) n(2) by (simp add: mod_simps add.assoc)
    have "ring_load (unat (xTail b)) (4 + length m) (pucBuffer b) = size_bytes n @ m"
      using load_front [OF ok, of "4 + length m"] f(1,3) by (simp add: n_def add.commute)
    then have m: "ring_load (unat t) (unat n) (pucBuffer b) = m"
      using ring_load_append [of "unat (xTail b)" 4 "length m" "pucBuffer b"] r1(2) head n(2)
      by (simp add: n_def)
    have lu: "4 + length m \<le> used b" using f(3) by simp
    have "holds_messages (b\<lparr>xTail := u\<rparr>) ms"
      using holds stored_remove(2) [OF ok lu u] f(1) by (simp add: holds_messages_def message_bytes_def)
    with stored_remove(1) [OF ok lu u] show ?thesis
      using r1(1) r2(1) head m kind True le mn n(1)
      by (simp add: prvReadMessageFromBuffer_def only_taken_def flip: n_def)
  qed
qed

end
