(* ===== verification/Rtos_Notify_Properties.thy ===== *)
theory Rtos_Notify_Properties
  imports Rtos_Notify
begin

text \<open>
  Notifications on the scheduler: a wait takes the calling task off the ready lists, a notification
  puts it back, and both keep the invariant \<open>steady\<close>.
\<close>

section \<open>The notified value does not matter to the lists\<close>

lemma set_notified_fields [simp]:
  "lists (set_notified t v n s) = lists s" "uxPriority (set_notified t v n s) = uxPriority s"
  "uxBasePriority (set_notified t v n s) = uxBasePriority s" "pxCurrentTCB (set_notified t v n s) = pxCurrentTCB s"
  "pxDelayedTaskList (set_notified t v n s) = pxDelayedTaskList s"
  "pxOverflowDelayedTaskList (set_notified t v n s) = pxOverflowDelayedTaskList s"
  "clock (set_notified t v n s) = clock s" "xPendedTicks (set_notified t v n s) = xPendedTicks s"
  "xYieldPendings (set_notified t v n s) = xYieldPendings s"
  "xNextTaskUnblockTime (set_notified t v n s) = xNextTaskUnblockTime s"
  "uxSchedulerSuspended (set_notified t v n s) = uxSchedulerSuspended s"
  "uxTopReadyPriority (set_notified t v n s) = uxTopReadyPriority s"
  "uxCurrentNumberOfTasks (set_notified t v n s) = uxCurrentNumberOfTasks s"
  "yield_requested (set_notified t v n s) = yield_requested s"
  "ucNotifyState (set_notified t v n s) = (ucNotifyState s)(t := n)"
  "ulNotifiedValue (set_notified t v n s) = (ulNotifiedValue s)(t := v)"
  by (simp_all add: set_notified_def)

lemma set_notified_steady [simp]: "steady E i (set_notified t v n s) = steady E i s"
proof -
  have "core_ok E (set_notified t v n s) = core_ok E s" by (rule core_fields) simp_all
  then have "live_ok E (set_notified t v n s) = live_ok E s" by (simp add: live_ok_def base_core times_ok_def)
  then show ?thesis
    by (simp add: steady_def ready_def all_moved_def pending_def acting_def preempting_def top_ready_def)
qed

lemma set_notified_views [simp]:
  "ready (set_notified t v n s) = ready s" "remaining (set_notified t v n s) = remaining s"
  "pending (set_notified t v n s) = pending s" "acting (set_notified t v n s) = acting s"
  by (simp_all add: fun_eq_iff ready_def remaining_def pending_def acting_def)

section \<open>A task that waits for a notification\<close>

definition awaits_notification :: "sched \<Rightarrow> nat \<Rightarrow> bool" where
  "awaits_notification s t \<longleftrightarrow> ucNotifyState s t = taskWAITING_NOTIFICATION \<and>
     at s (state_item t) \<in> {Some 5, Some 6, Some 9} \<and> at s (event_item t) = None"

text \<open>
  A task that gave up waiting at the end of its time is still marked as waiting until it runs; it is
  taken off its ready list and put back.
\<close>

definition notifiable :: "sched \<Rightarrow> nat \<Rightarrow> bool" where
  "notifiable s t \<longleftrightarrow> t \<noteq> 0 \<and>
     (ucNotifyState s t = taskWAITING_NOTIFICATION \<longrightarrow> at s (state_item t) \<noteq> None \<and> at s (event_item t) = None)"

lemma waiting_ready_run:
  assumes ok: "steady E i s" and at: "at s (state_item t) = Some l" "at s (event_item t) = None"
  shows "\<exists>s1. listREMOVE_ITEM (state_item t) s = Some s1 \<and> core_ok E (prvAddTaskToReadyList t s1) \<and>
    kept_linked ({0..9} \<union> E) s (made_ready t s) (uxTopReadyPriority s OR push_bit (unat (uxPriority s t)) 1)
      (prvAddTaskToReadyList t s1)"
proof -
  note d = steadyD [OF ok]
  from REMOVE_moves [OF core_linked(1) [OF d(2)] at(1)] obtain s1 where
    1: "listREMOVE_ITEM (state_item t) s = Some s1"
      "kept_linked ({0..9} \<union> E) s ((at s)(state_item t := None)) (uxTopReadyPriority s) s1" .
  then have "contained_in (event_item t) None s1" using at(2) by (simp add: contained_in_def kept_linked_def)
  then have "unblock_task t s = Some (prvAddTaskToReadyList t s1)" by (simp add: unblock_task_def 1(1))
  with unblock_any_run [OF d(2) at(1)] 1(1) show ?thesis by auto
qed

lemma notify_waiting_run:
  assumes ok: "steady E i s" and w: "ucNotifyState s t = taskWAITING_NOTIFICATION" "notifiable s t"
  shows "\<exists>s'. xTaskGenericNotify t 0 ulValue eAction s =
      Some (fst (notified_value eAction taskWAITING_NOTIFICATION ulValue (ulNotifiedValue s t)), ulNotifiedValue s t, s') \<and>
    steady E i s' \<and> at s' = awake (\<lambda>u. u = t) s \<and>
    ucNotifyState s' = (ucNotifyState s)(t := taskNOTIFICATION_RECEIVED) \<and>
    ulNotifiedValue s' = (ulNotifiedValue s)
      (t := snd (notified_value eAction taskWAITING_NOTIFICATION ulValue (ulNotifiedValue s t))) \<and>
    pxCurrentTCB s' = pxCurrentTCB s \<and> uxPriority s' = uxPriority s \<and> now s' = now s \<and>
    uxSchedulerSuspended s' = uxSchedulerSuspended s \<and>
    yield_requested s' = (yield_requested s \<or> uxPriority s t > uxPriority s (pxCurrentTCB s)) \<and>
    xPendedTicks s' = xPendedTicks s"
proof -
  define v where "v = notified_value eAction taskWAITING_NOTIFICATION ulValue (ulNotifiedValue s t)"
  define s0 where "s0 = set_notified t (snd v) taskNOTIFICATION_RECEIVED s"
  from w obtain l where t0: "t \<noteq> 0" and a: "at s (state_item t) = Some l" "at s (event_item t) = None"
    by (auto simp: notifiable_def)
  have ok0: "steady E i s0" using ok by (simp add: s0_def)
  from waiting_ready_run [OF ok0, of t l] a obtain s1 where 1: "listREMOVE_ITEM (state_item t) s0 = Some s1"
    "core_ok E (prvAddTaskToReadyList t s1)"
    "kept_linked ({0..9} \<union> E) s0 (made_ready t s0) (uxTopReadyPriority s0 OR push_bit (unat (uxPriority s0 t)) 1)
      (prvAddTaskToReadyList t s1)" by (auto simp: s0_def)
  define s2 where "s2 = prvAddTaskToReadyList t s1"
  from 1(3) have r: "relinked s0 s2" and at2: "at s2 = made_ready t s0" by (simp_all add: kept_linked_def s2_def)
  note f = relinked_fields [OF r]
  have same: "s2\<lparr>xYieldPendings := xYieldPendings s0\<rparr> = s2" by (cases s2) (use f in simp)
  define s3 where "s3 = taskYIELD_ANY_CORE_IF_USING_PREEMPTION t s2"
  have s3: "s3 = (if uxPriority s0 t > uxPriority s0 (pxCurrentTCB s0)
      then portYIELD (s2\<lparr>xYieldPendings := xYieldPendings s0\<rparr>) else s2)"
    unfolding same s3_def by (simp add: taskYIELD_ANY_CORE_IF_USING_PREEMPTION_def f)
  have "steady E i s3" "at s3 = awake (\<lambda>u. u = t) s0"
    using steady_one_woken [OF ok0 1(2,3) s3 [unfolded s2_def]] by simp_all
  moreover have "awake (\<lambda>u. u = t) s0 = awake (\<lambda>u. u = t) s" by (simp add: awake_def s0_def fun_eq_iff)
  moreover have "contained_in (event_item t) None s2" by (simp add: contained_in_def at2 made_ready_def)
  moreover have "ucNotifyState s3 = (ucNotifyState s)(t := taskNOTIFICATION_RECEIVED)"
    "ulNotifiedValue s3 = (ulNotifiedValue s)(t := snd v)" "pxCurrentTCB s3 = pxCurrentTCB s" "uxPriority s3 = uxPriority s"
    "now s3 = now s" "uxSchedulerSuspended s3 = uxSchedulerSuspended s"
    "yield_requested s3 = (yield_requested s \<or> uxPriority s t > uxPriority s (pxCurrentTCB s))"
    "xPendedTicks s3 = xPendedTicks s"
    unfolding s3 same by (simp_all add: f s0_def portYIELD_def)
  moreover have "xTaskGenericNotify t 0 ulValue eAction s = Some (fst v, ulNotifiedValue s t, s3)"
    if "contained_in (event_item t) None s2"
    using that t0 w(1) 1(1) unfolding xTaskGenericNotify_def
    by (simp add: case_prod_beta v_def [symmetric] s0_def [symmetric] s2_def [symmetric] s3_def [symmetric])
  ultimately show ?thesis unfolding v_def [symmetric] by (intro exI [of _ s3]) simp
qed

text \<open>Whether the task waits or not, a notification returns and is recorded.\<close>

lemma notify_run:
  assumes ok: "steady E i s" and w: "notifiable s t"
  obtains s' where "xTaskGenericNotify t 0 ulValue eAction s =
      Some (fst (notified_value eAction (ucNotifyState s t) ulValue (ulNotifiedValue s t)), ulNotifiedValue s t, s')"
    "steady E i s'" "ucNotifyState s' = (ucNotifyState s)(t := taskNOTIFICATION_RECEIVED)"
    "ulNotifiedValue s' = (ulNotifiedValue s)
      (t := snd (notified_value eAction (ucNotifyState s t) ulValue (ulNotifiedValue s t)))"
    "at s' = (if ucNotifyState s t = taskWAITING_NOTIFICATION then awake (\<lambda>u. u = t) s else at s)"
    "pxCurrentTCB s' = pxCurrentTCB s" "uxPriority s' = uxPriority s" "now s' = now s"
    "uxSchedulerSuspended s' = uxSchedulerSuspended s"
    "yield_requested s' = (yield_requested s \<or>
       ucNotifyState s t = taskWAITING_NOTIFICATION \<and> uxPriority s t > uxPriority s (pxCurrentTCB s))"
    "xPendedTicks s' = xPendedTicks s"
proof (cases "ucNotifyState s t = taskWAITING_NOTIFICATION")
  case True
  define v where "v = notified_value eAction (ucNotifyState s t) ulValue (ulNotifiedValue s t)"
  from notify_waiting_run [OF ok True w, of ulValue eAction] obtain s' where
    1: "xTaskGenericNotify t 0 ulValue eAction s = Some (fst v, ulNotifiedValue s t, s')" "steady E i s'"
      "at s' = awake (\<lambda>u. u = t) s" "ucNotifyState s' = (ucNotifyState s)(t := taskNOTIFICATION_RECEIVED)"
      "ulNotifiedValue s' = (ulNotifiedValue s)(t := snd v)" "pxCurrentTCB s' = pxCurrentTCB s"
      "uxPriority s' = uxPriority s" "now s' = now s" "uxSchedulerSuspended s' = uxSchedulerSuspended s"
      "yield_requested s' = (yield_requested s \<or> uxPriority s t > uxPriority s (pxCurrentTCB s))"
      "xPendedTicks s' = xPendedTicks s"
    unfolding v_def True by blast
  show ?thesis by (rule that [OF 1(1) [unfolded v_def]]) (use 1 True in \<open>simp_all add: v_def\<close>)
next
  case False
  define v where "v = notified_value eAction (ucNotifyState s t) ulValue (ulNotifiedValue s t)"
  have "xTaskGenericNotify t 0 ulValue eAction s =
      Some (fst v, ulNotifiedValue s t, set_notified t (snd v) taskNOTIFICATION_RECEIVED s)"
    using w False by (simp add: xTaskGenericNotify_def notifiable_def case_prod_beta Let_def v_def)
  from that [OF this [unfolded v_def]] ok False show ?thesis by (simp add: v_def)
qed

text \<open>
  From an interrupt a task that waits is marked as pending when the scheduler is suspended; then it must
  not be on a ready list already.
\<close>

definition notifiable_from_isr :: "sched \<Rightarrow> nat \<Rightarrow> bool" where
  "notifiable_from_isr s t \<longleftrightarrow> t \<noteq> 0 \<and>
     (ucNotifyState s t = taskWAITING_NOTIFICATION \<longrightarrow> awaits_notification s t)"

lemma notify_isr_waiting_run:
  assumes ok: "steady E i s" and w: "at s (state_item t) \<in> {Some 5, Some 6, Some 9}" "at s (event_item t) = None"
  obtains woken s' where "notify_waiting_from_isr t s = Some (woken, s')" "steady E i (yield_if (woken, s'))"
    "at s' = (if uxSchedulerSuspended s = 0 then awake (\<lambda>u. u = t) s else (at s)(event_item t := Some xPendingReadyList))"
    "ucNotifyState s' = ucNotifyState s" "ulNotifiedValue s' = ulNotifiedValue s"
    "woken \<longleftrightarrow> uxPriority s t > uxPriority s (pxCurrentTCB s)"
    "uxSchedulerSuspended s' = uxSchedulerSuspended s"
proof -
  from w obtain l where a: "at s (state_item t) = Some l" "at s (event_item t) = None"
      "at s (state_item t) \<in> {Some 5, Some 6, Some 9}"
    by auto
  have free: "contained_in (event_item t) None s" using a(2) by (simp add: contained_in_def)
  have "\<exists>s2. notify_waiting_from_isr t s = Some (wake t s2) \<and> relinked s s2 \<and> steady E i (yield_if (wake t s2)) \<and>
    at s2 = (if uxSchedulerSuspended s = 0 then awake (\<lambda>u. u = t) s else (at s)(event_item t := Some xPendingReadyList))"
  proof (cases "uxSchedulerSuspended s = 0")
    case True
    from waiting_ready_run [OF ok a(1,2)] obtain s1 where 1: "listREMOVE_ITEM (state_item t) s = Some s1"
      "core_ok E (prvAddTaskToReadyList t s1)"
      "kept_linked ({0..9} \<union> E) s (made_ready t s) (uxTopReadyPriority s OR push_bit (unat (uxPriority s t)) 1)
        (prvAddTaskToReadyList t s1)" by blast
    define s2 where "s2 = prvAddTaskToReadyList t s1"
    have r: "relinked s s2" using 1(3) by (simp add: kept_linked_def s2_def)
    note f = relinked_fields [OF r]
    have y: "yield_if (wake t s2) = (if uxPriority s t > uxPriority s (pxCurrentTCB s)
        then portYIELD (s2\<lparr>xYieldPendings := True\<rparr>) else s2)"
      by (simp add: yield_if_def wake_split f)
    have "steady E i (yield_if (wake t s2))"
      using steady_one_woken(1) [OF ok 1(2,3) y [unfolded s2_def]] by (simp add: s2_def)
    moreover have "at s2 = awake (\<lambda>u. u = t) s" using 1(3) by (simp add: kept_linked_def s2_def made_ready_awake)
    ultimately show ?thesis using True free 1(1) r
      by (intro exI [of _ s2]) (simp add: notify_waiting_from_isr_def s2_def)
  next
    case False
    have "(at s)(event_item t := None) = at s" using a(2) by auto
    then have k: "kept_linked ({0..9} \<union> E) s ((at s)(event_item t := None)) (uxTopReadyPriority s) s"
      using core_linked(1) [OF steadyD(2) [OF ok]] by (simp add: kept_linked_def)
    define s2 where "s2 = on_lists (vListInsertEnd xPendingReadyList (event_item t)) s"
    note p = pend_run [OF ok False a(3) k, folded s2_def]
    note f = relinked_fields [OF p(3)]
    have "s2\<lparr>xYieldPendings := xYieldPendings s\<rparr> = s2" by (cases s2) (use f in simp)
    then have "steady E i s2" using p(1) [of False] by simp
    moreover have "steady E i (portYIELD (s2\<lparr>xYieldPendings := True\<rparr>))" using steady_yield [OF p(1) [of True]] by simp
    ultimately have "steady E i (yield_if (wake t s2))" by (simp add: yield_if_def wake_split)
    then show ?thesis using False free p(2,3)
      by (intro exI [of _ s2]) (simp add: notify_waiting_from_isr_def s2_def)
  qed
  then obtain s2 where s2: "notify_waiting_from_isr t s = Some (wake t s2)" "relinked s s2" "steady E i (yield_if (wake t s2))"
    "at s2 = (if uxSchedulerSuspended s = 0 then awake (\<lambda>u. u = t) s else (at s)(event_item t := Some xPendingReadyList))"
    by blast
  note f = relinked_fields [OF s2(2)]
  show ?thesis using that [of "fst (wake t s2)" "snd (wake t s2)"] s2(1,3,4) by (simp add: wake_split f)
qed

lemma notify_isr_run:
  assumes ok: "steady E i s" and w: "notifiable_from_isr s t"
  obtains r woken s' where "xTaskGenericNotifyFromISR t 0 ulValue eAction s = Some (r, ulNotifiedValue s t, woken, s')"
    "steady E i (yield_if (woken, s'))" "ucNotifyState s' = (ucNotifyState s)(t := taskNOTIFICATION_RECEIVED)"
    "at s' = (if ucNotifyState s t = taskWAITING_NOTIFICATION
       then (if uxSchedulerSuspended s = 0 then awake (\<lambda>u. u = t) s else (at s)(event_item t := Some xPendingReadyList))
       else at s)"
    "(r, ulNotifiedValue s' t) = notified_value eAction (ucNotifyState s t) ulValue (ulNotifiedValue s t)"
    "woken \<longleftrightarrow> ucNotifyState s t = taskWAITING_NOTIFICATION \<and> uxPriority s t > uxPriority s (pxCurrentTCB s)"
proof -
  define v where "v = notified_value eAction (ucNotifyState s t) ulValue (ulNotifiedValue s t)"
  define s0 where "s0 = set_notified t (snd v) taskNOTIFICATION_RECEIVED s"
  have t0: "t \<noteq> 0" and ok0: "steady E i s0" using w ok by (simp_all add: notifiable_from_isr_def s0_def)
  show ?thesis
  proof (cases "ucNotifyState s t = taskWAITING_NOTIFICATION")
    case False
    have "xTaskGenericNotifyFromISR t 0 ulValue eAction s = Some (fst v, ulNotifiedValue s t, False, s0)"
      using t0 False by (simp add: xTaskGenericNotifyFromISR_def case_prod_beta Let_def v_def s0_def)
    from that [OF this] ok0 False show ?thesis by (simp add: yield_if_def v_def s0_def)
  next
    case True
    then have l: "at s0 (state_item t) \<in> {Some 5, Some 6, Some 9}" "at s0 (event_item t) = None"
      using w by (auto simp: notifiable_from_isr_def awaits_notification_def s0_def)
    from notify_isr_waiting_run [OF ok0 l] obtain woken s' where
      1: "notify_waiting_from_isr t s0 = Some (woken, s')" "steady E i (yield_if (woken, s'))"
        "at s' = (if uxSchedulerSuspended s0 = 0 then awake (\<lambda>u. u = t) s0 else (at s0)(event_item t := Some xPendingReadyList))"
        "ucNotifyState s' = ucNotifyState s0" "ulNotifiedValue s' = ulNotifiedValue s0"
        "woken \<longleftrightarrow> uxPriority s0 t > uxPriority s0 (pxCurrentTCB s0)" .
    have run: "xTaskGenericNotifyFromISR t 0 ulValue eAction s = Some (fst v, ulNotifiedValue s t, woken, s')"
      using t0 True 1(1) by (simp add: xTaskGenericNotifyFromISR_def case_prod_beta Let_def v_def s0_def)
    have "awake (\<lambda>u. u = t) s0 = awake (\<lambda>u. u = t) s" by (simp add: awake_def s0_def fun_eq_iff)
    then show ?thesis using that [OF run 1(2)] 1(3-6) True by (simp add: s0_def v_def)
  qed
qed

section \<open>Waiting\<close>

text \<open>
  A task that finds nothing and may wait leaves the ready lists, asks for a switch, and is what the
  lemma above expects.
\<close>

lemma set_notified_suspend: "set_notified t v n (vTaskSuspendAll s) = vTaskSuspendAll (set_notified t v n s)"
  by (simp add: set_notified_def vTaskSuspendAll_def)

lemma resume_yields: "resume_and_yield True s = map_option yield_unless (xTaskResumeAll s)"
  by (cases "xTaskResumeAll s") (auto simp: resume_and_yield_def yield_unless_def split: prod.splits)

lemma notify_block_run:
  assumes ok: "steady E i (os w)" and run: "uxSchedulerSuspended (os w) = 0" and act: "\<not> yield_requested (os w)"
    and cur: "pxCurrentTCB (os w) \<noteq> i" and n: "n \<noteq> 0"
    and none: "\<not> go_on (pxCurrentTCB (os w)) (vTaskSuspendAll (os w))"
    and quiet: "rest_of_program P w = Some w" "\<And>v. handlers P v = Some v"
  shows "\<exists>s'. notify_block P go_on b n w = rest_of_program P (w\<lparr>os := s'\<rparr>) \<and> steady E i s' \<and> yield_requested s' \<and>
    uxSchedulerSuspended s' = 0 \<and> awaits_notification s' (pxCurrentTCB (os w)) \<and>
    at s' = (at (os w))(state_item (pxCurrentTCB (os w)) := Some (blocked_list n True (os w))) \<and>
    now s' = now (os w) \<and> uxPriority s' = uxPriority (os w) \<and> pxCurrentTCB s' = pxCurrentTCB (os w) \<and>
    remaining s' = (remaining (os w))(pxCurrentTCB (os w) := (if n = portMAX_DELAY then None else Some (unat n))) \<and>
    ulNotifiedValue s' = (ulNotifiedValue (os w))
      (pxCurrentTCB (os w) := ulNotifiedValue (os w) (pxCurrentTCB (os w)) AND NOT b) \<and>
    ucNotifyState s' = (ucNotifyState (os w))(pxCurrentTCB (os w) := taskWAITING_NOTIFICATION)"
proof -
  define s where "s = os w"
  let ?t = "pxCurrentTCB s" and ?v = "ulNotifiedValue s (pxCurrentTCB s) AND NOT b"
  define s0 where "s0 = set_notified ?t ?v taskWAITING_NOTIFICATION s"
  note d = steadyD [OF ok [folded s_def]]
  from wait_steady [of E i s0 n True] assms obtain s1 s' where
    1: "prvAddCurrentTaskToDelayedList n True (vTaskSuspendAll s0) = Some s1"
      "map_option yield_unless (xTaskResumeAll s1) = Some s'" "steady E i s'" "yield_requested s'"
      "at s' = (at s0)(state_item ?t := Some (blocked_list n True s0))" "now s' = now s0"
      "remaining s' = (remaining s0)(?t := (if n = portMAX_DELAY then None else Some (unat n)))"
      "uxSchedulerSuspended s' = 0" "uxPriority s' = uxPriority s0" "pxCurrentTCB s' = pxCurrentTCB s0"
      "ucNotifyState s' = ucNotifyState s0" "ulNotifiedValue s' = ulNotifiedValue s0"
    by (auto simp: s0_def s_def)
  have "acting s" using act by (simp add: acting_def s_def)
  then have r: "ready s ?t" by (rule d(7))
  have "blocked_list n True s \<in> {5, 6, 9}" using times_two [OF d(3)] by (auto simp: blocked_list_def two_lists_def)
  then have "awaits_notification s' ?t"
    using 1(5,11) ready_no_event [OF d(2) r] by (auto simp: awaits_notification_def s0_def blocked_list_def)
  moreover have "notify_block P go_on b n w = rest_of_program P (w\<lparr>os := s'\<rparr>)"
    using 1(1) quiet
    by (simp add: none 1(2) notify_block_def on_os_def mark_waiting_def Let_def s0_def s_def set_notified_suspend resume_yields)
  ultimately show ?thesis
    using 1 by (intro exI [of _ s']) (simp add: s0_def s_def blocked_list_def)
qed

end
