(* ===== verification/Rtos_Stream_Calls.thy ===== *)
theory Rtos_Stream_Calls
  imports Rtos_Stream_Messages Rtos_Notify_Properties
begin

text \<open>
  The calls of stream_buffer.c on the scheduler: what notifying the other side does, and each call with no
  block time, from a task while nothing else runs and from an interrupt.
\<close>

section \<open>Notifying the other side\<close>

lemma resume_once:
  assumes ok: "steady E i s" and one: "uxSchedulerSuspended s = 1"
    and quiet: "xPendedTicks s = 0" "\<And>t. \<not> pending s t"
  shows "\<exists>y s'. xTaskResumeAll s = Some (y, s') \<and> steady E i s' \<and> at s' = at s \<and> uxSchedulerSuspended s' = 0 \<and>
    pxCurrentTCB s' = pxCurrentTCB s \<and> uxPriority s' = uxPriority s \<and> now s' = now s \<and>
    ucNotifyState s' = ucNotifyState s \<and> ulNotifiedValue s' = ulNotifiedValue s \<and>
    yield_requested s' = (yield_requested s \<or> y)"
proof -
  note d = steadyD [OF ok]
  from resume_run [OF d(1) one d(5)] obtain y s' where r: "xTaskResumeAll s = Some (y, s')"
    "at s' = awake (resumed s) s" "now s' = now s + xPendedTicks s" "same_tasks (s\<lparr>uxSchedulerSuspended := 0,
      xPendedTicks := 0, yield_requested := yield_requested s \<or> y\<rparr>) s'" by blast
  have "remaining s t \<noteq> Some 0" for t using d(3) by (rule remaining_pos)
  then have "\<not> resumed s t" for t using quiet by (simp add: resumed_def within_def)
  then have "at s' = at s" using r(2) by (simp add: awake_none)
  moreover from resume_all_steady [OF ok] one r(1) have "steady E i s'" by auto
  ultimately show ?thesis using r(1,3,4) quiet(1) by (intro exI [of _ y] exI [of _ s']) (simp add: same_tasks_def)
qed

text \<open>
  The scheduler is suspended, the task \<open>t\<close> is notified unless it is NULL, and the scheduler is resumed.
\<close>

definition notify_while_suspended :: "nat \<Rightarrow> sched \<Rightarrow> sched option" where
  "notify_while_suspended t s =
     Option.bind
       (if t \<noteq> 0 then map_option (snd \<circ> snd) (xTaskGenericNotify t 0 0 eNoAction (vTaskSuspendAll s))
        else Some (vTaskSuspendAll s))
       (\<lambda>s. map_option snd (xTaskResumeAll s))"

lemma notify_while_suspended_run:
  assumes ok: "steady E i s" and run: "uxSchedulerSuspended s = 0" and act: "\<not> yield_requested s"
    and w: "t \<noteq> 0 \<Longrightarrow> notifiable s t"
  obtains s' where "notify_while_suspended t s = Some s'" "steady E i s'" "uxSchedulerSuspended s' = 0"
    "pxCurrentTCB s' = pxCurrentTCB s" "uxPriority s' = uxPriority s" "now s' = now s"
    "ulNotifiedValue s' = ulNotifiedValue s"
    "ucNotifyState s' = (if t \<noteq> 0 then (ucNotifyState s)(t := taskNOTIFICATION_RECEIVED) else ucNotifyState s)"
    "at s' = (if t \<noteq> 0 \<and> ucNotifyState s t = taskWAITING_NOTIFICATION then awake (\<lambda>u. u = t) s else at s)"
    "t \<noteq> 0 \<and> ucNotifyState s t = taskWAITING_NOTIFICATION \<and> uxPriority s t > uxPriority s (pxCurrentTCB s) \<Longrightarrow>
      yield_requested s'"
proof -
  let ?s = "vTaskSuspendAll s"
  have "acting s" using act by (simp add: acting_def)
  then have ok1: "steady E i ?s" using suspend_all_steady [OF ok] run by simp
  note q = steady_no_resumed(1,2) [OF ok run]
  have s1: "uxSchedulerSuspended ?s = 1" "xPendedTicks ?s = 0" "\<And>u. \<not> pending ?s u"
    using run q by (simp_all add: pending_def)
  show ?thesis
  proof (cases "t = 0")
    case True
    from resume_once [OF ok1 s1] obtain y s' where r: "xTaskResumeAll ?s = Some (y, s')" "steady E i s'" "at s' = at s"
      "uxSchedulerSuspended s' = 0" "pxCurrentTCB s' = pxCurrentTCB s" "uxPriority s' = uxPriority s" "now s' = now s"
      "ucNotifyState s' = ucNotifyState s" "ulNotifiedValue s' = ulNotifiedValue s" unfolding suspend_all_fields by blast
    have "notify_while_suspended t s = Some s'" using True r(1) by (simp add: notify_while_suspended_def)
    from that [OF this] True r(2-9) show ?thesis by simp
  next
    case False
    have n: "notifiable ?s t" using w [OF False] by (simp add: notifiable_def)
    from notify_run [OF ok1 n, of 0 eNoAction, unfolded notified_value.simps fst_conv snd_conv fun_upd_triv
        suspend_all_fields] obtain s2 where
      2: "xTaskGenericNotify t 0 0 eNoAction ?s = Some (True, ulNotifiedValue s t, s2)" "steady E i s2"
        "ucNotifyState s2 = (ucNotifyState s)(t := taskNOTIFICATION_RECEIVED)" "ulNotifiedValue s2 = ulNotifiedValue s"
        "at s2 = (if ucNotifyState s t = taskWAITING_NOTIFICATION then awake (\<lambda>u. u = t) ?s else at s)"
        "pxCurrentTCB s2 = pxCurrentTCB s" "uxPriority s2 = uxPriority s" "now s2 = now s"
        "uxSchedulerSuspended s2 = uxSchedulerSuspended s + 1"
        "yield_requested s2 = (yield_requested s \<or>
          ucNotifyState s t = taskWAITING_NOTIFICATION \<and> uxPriority s t > uxPriority s (pxCurrentTCB s))"
        "xPendedTicks s2 = xPendedTicks s"
      by metis
    have aw: "awake (\<lambda>u. u = t) ?s = awake (\<lambda>u. u = t) s" by (simp add: awake_def fun_eq_iff)
    have at2: "at s2 = (if ucNotifyState s t = taskWAITING_NOTIFICATION then awake (\<lambda>u. u = t) s else at s)"
      using 2(5) aw by simp
    have p2: "\<not> pending s2 u" for u using q(2) [of u] by (simp add: pending_def at2)
    have s2: "uxSchedulerSuspended s2 = 1" "xPendedTicks s2 = 0" using 2(9,11) run q(1) by simp_all
    from resume_once [OF 2(2) s2 p2] obtain y s' where r: "xTaskResumeAll s2 = Some (y, s')" "steady E i s'"
      "at s' = at s2" "uxSchedulerSuspended s' = 0" "pxCurrentTCB s' = pxCurrentTCB s2" "uxPriority s' = uxPriority s2"
      "now s' = now s2" "ucNotifyState s' = ucNotifyState s2" "ulNotifiedValue s' = ulNotifiedValue s2"
      "yield_requested s' = (yield_requested s2 \<or> y)" by blast
    have "notify_while_suspended t s = Some s'" using False r(1) 2(1) by (simp add: notify_while_suspended_def)
    from that [OF this r(2,4)] False r(3,5-10) 2(3,4,6-8,10) at2 show ?thesis by simp
  qed
qed

section \<open>The handles do not matter to the bytes\<close>

lemma waiting_fields [simp]:
  "used (b\<lparr>xTaskWaitingToReceive := t\<rparr>) = used b" "used (b\<lparr>xTaskWaitingToSend := t\<rparr>) = used b"
  "room (b\<lparr>xTaskWaitingToReceive := t\<rparr>) = room b" "room (b\<lparr>xTaskWaitingToSend := t\<rparr>) = room b"
  "stored (b\<lparr>xTaskWaitingToReceive := t\<rparr>) = stored b" "stored (b\<lparr>xTaskWaitingToSend := t\<rparr>) = stored b"
  "stream_ok (b\<lparr>xTaskWaitingToReceive := t\<rparr>) = stream_ok b" "stream_ok (b\<lparr>xTaskWaitingToSend := t\<rparr>) = stream_ok b"
  "is_message_buffer (b\<lparr>xTaskWaitingToReceive := t\<rparr>) = is_message_buffer b"
  "is_message_buffer (b\<lparr>xTaskWaitingToSend := t\<rparr>) = is_message_buffer b"
  "is_batching_buffer (b\<lparr>xTaskWaitingToReceive := t\<rparr>) = is_batching_buffer b"
  "is_batching_buffer (b\<lparr>xTaskWaitingToSend := t\<rparr>) = is_batching_buffer b"
  "holds_messages (b\<lparr>xTaskWaitingToReceive := t\<rparr>) = holds_messages b"
  "holds_messages (b\<lparr>xTaskWaitingToSend := t\<rparr>) = holds_messages b"
  "prvBytesInBuffer (b\<lparr>xTaskWaitingToReceive := t\<rparr>) = prvBytesInBuffer b"
  "prvBytesInBuffer (b\<lparr>xTaskWaitingToSend := t\<rparr>) = prvBytesInBuffer b"
  "xStreamBufferSpacesAvailable (b\<lparr>xTaskWaitingToReceive := t\<rparr>) = xStreamBufferSpacesAvailable b"
  "xStreamBufferSpacesAvailable (b\<lparr>xTaskWaitingToSend := t\<rparr>) = xStreamBufferSpacesAvailable b"
  by (simp_all add: used_def room_def stored_def stream_ok_def is_message_buffer_def is_batching_buffer_def
      holds_messages_def prvBytesInBuffer_def xStreamBufferSpacesAvailable_def fun_eq_iff Let_def)

lemma sent_fields:
  assumes "only_sent b b'"
  shows "xLength b' = xLength b" "xTail b' = xTail b" "xTriggerLevelBytes b' = xTriggerLevelBytes b"
    "xTaskWaitingToReceive b' = xTaskWaitingToReceive b" "xTaskWaitingToSend b' = xTaskWaitingToSend b"
    "uxNotificationIndex b' = uxNotificationIndex b" "is_message_buffer b' = is_message_buffer b"
    "is_batching_buffer b' = is_batching_buffer b" "ucFlags b' = ucFlags b"
proof -
  from assms have e: "b' = b\<lparr>pucBuffer := pucBuffer b', xHead := xHead b'\<rparr>" by (simp add: only_sent_def)
  show "xLength b' = xLength b" "xTail b' = xTail b" "xTriggerLevelBytes b' = xTriggerLevelBytes b"
    "xTaskWaitingToReceive b' = xTaskWaitingToReceive b" "xTaskWaitingToSend b' = xTaskWaitingToSend b"
    "uxNotificationIndex b' = uxNotificationIndex b" "ucFlags b' = ucFlags b"
    by (subst e, simp)+
  then show "is_message_buffer b' = is_message_buffer b" "is_batching_buffer b' = is_batching_buffer b"
    by (simp_all add: is_message_buffer_def is_batching_buffer_def)
qed

lemma taken_fields:
  assumes "only_taken b b'"
  shows "xLength b' = xLength b" "xHead b' = xHead b" "xTriggerLevelBytes b' = xTriggerLevelBytes b"
    "xTaskWaitingToReceive b' = xTaskWaitingToReceive b" "xTaskWaitingToSend b' = xTaskWaitingToSend b"
    "uxNotificationIndex b' = uxNotificationIndex b" "is_message_buffer b' = is_message_buffer b"
    "is_batching_buffer b' = is_batching_buffer b" "pucBuffer b' = pucBuffer b" "ucFlags b' = ucFlags b"
proof -
  from assms have e: "b' = b\<lparr>xTail := xTail b'\<rparr>" by (simp add: only_taken_def)
  show "xLength b' = xLength b" "xHead b' = xHead b" "xTriggerLevelBytes b' = xTriggerLevelBytes b"
    "xTaskWaitingToReceive b' = xTaskWaitingToReceive b" "xTaskWaitingToSend b' = xTaskWaitingToSend b"
    "uxNotificationIndex b' = uxNotificationIndex b" "pucBuffer b' = pucBuffer b" "ucFlags b' = ucFlags b"
    by (subst e, simp)+
  then show "is_message_buffer b' = is_message_buffer b" "is_batching_buffer b' = is_batching_buffer b"
    by (simp_all add: is_message_buffer_def is_batching_buffer_def)
qed

section \<open>The end of a call\<close>

lemma send_completed:
  assumes "uxNotificationIndex (obj w) = 0"
  shows "sbSEND_COMPLETED w =
    map_option (\<lambda>s. w\<lparr>obj := (obj w)\<lparr>xTaskWaitingToReceive := 0\<rparr>, os := s\<rparr>)
      (notify_while_suspended (xTaskWaitingToReceive (obj w)) (os w))"
proof (cases "xTaskWaitingToReceive (obj w) = 0")
  case True
  then have e: "w\<lparr>obj := (obj w)\<lparr>xTaskWaitingToReceive := 0\<rparr>, os := s\<rparr> = w\<lparr>os := s\<rparr>" for s
    by (cases w; cases "obj w") simp
  show ?thesis using True
    by (simp add: sbSEND_COMPLETED_def notify_while_suspended_def on_os_def e option.map_comp o_def)
next
  case False
  with assms show ?thesis
    by (cases "xTaskGenericNotify (xTaskWaitingToReceive (obj w)) 0 0 eNoAction (vTaskSuspendAll (os w))")
      (simp_all add: sbSEND_COMPLETED_def notify_while_suspended_def on_os_def on_obj_def notify_task_def
        option.map_comp o_def)
qed

lemma receive_completed:
  assumes "uxNotificationIndex (obj w) = 0"
  shows "sbRECEIVE_COMPLETED w =
    map_option (\<lambda>s. w\<lparr>obj := (obj w)\<lparr>xTaskWaitingToSend := 0\<rparr>, os := s\<rparr>)
      (notify_while_suspended (xTaskWaitingToSend (obj w)) (os w))"
proof (cases "xTaskWaitingToSend (obj w) = 0")
  case True
  then have e: "w\<lparr>obj := (obj w)\<lparr>xTaskWaitingToSend := 0\<rparr>, os := s\<rparr> = w\<lparr>os := s\<rparr>" for s
    by (cases w; cases "obj w") simp
  show ?thesis using True
    by (simp add: sbRECEIVE_COMPLETED_def notify_while_suspended_def on_os_def e option.map_comp o_def)
next
  case False
  with assms show ?thesis
    by (cases "xTaskGenericNotify (xTaskWaitingToSend (obj w)) 0 0 eNoAction (vTaskSuspendAll (os w))")
      (simp_all add: sbRECEIVE_COMPLETED_def notify_while_suspended_def on_os_def on_obj_def notify_task_def
        option.map_comp o_def)
qed

section \<open>Calls that need not wait\<close>

text \<open>The calling task runs, and whoever waits on the other side can be notified.\<close>

definition caller_ok :: "nat set \<Rightarrow> nat \<Rightarrow> sb_world \<Rightarrow> bool" where
  "caller_ok E i w \<longleftrightarrow> steady E i (os w) \<and> uxSchedulerSuspended (os w) = 0 \<and> \<not> yield_requested (os w) \<and>
     stream_ok (obj w) \<and>
     (xTaskWaitingToReceive (obj w) \<noteq> 0 \<longrightarrow> notifiable (os w) (xTaskWaitingToReceive (obj w))) \<and>
     (xTaskWaitingToSend (obj w) \<noteq> 0 \<longrightarrow> notifiable (os w) (xTaskWaitingToSend (obj w)))"

text \<open>
  What a call leaves: the scheduler is as it was, but the task \<open>t\<close>, if there was one to notify, has its
  notification, and if it waited for it, is ready; if it has the higher priority, a switch is pending.
\<close>

definition told :: "nat set \<Rightarrow> nat \<Rightarrow> nat \<Rightarrow> sched \<Rightarrow> sched \<Rightarrow> bool" where
  "told E i t s s' \<longleftrightarrow> steady E i s' \<and> uxSchedulerSuspended s' = 0 \<and> pxCurrentTCB s' = pxCurrentTCB s \<and>
     uxPriority s' = uxPriority s \<and> now s' = now s \<and> ulNotifiedValue s' = ulNotifiedValue s \<and>
     ucNotifyState s' = (if t \<noteq> 0 then (ucNotifyState s)(t := taskNOTIFICATION_RECEIVED) else ucNotifyState s) \<and>
     at s' = (if t \<noteq> 0 \<and> ucNotifyState s t = taskWAITING_NOTIFICATION then awake (\<lambda>u. u = t) s else at s) \<and>
     (t \<noteq> 0 \<and> ucNotifyState s t = taskWAITING_NOTIFICATION \<and> uxPriority s t > uxPriority s (pxCurrentTCB s) \<longrightarrow>
        yield_requested s')"

lemma told_run:
  assumes "steady E i s" "uxSchedulerSuspended s = 0" "\<not> yield_requested s" "t \<noteq> 0 \<longrightarrow> notifiable s t"
  shows "\<exists>s'. notify_while_suspended t s = Some s' \<and> told E i t s s'"
proof -
  have w: "t \<noteq> 0 \<Longrightarrow> notifiable s t" using assms(4) by simp
  obtain s' where
    "notify_while_suspended t s = Some s'" "steady E i s'" "uxSchedulerSuspended s' = 0"
    "pxCurrentTCB s' = pxCurrentTCB s" "uxPriority s' = uxPriority s" "now s' = now s"
    "ulNotifiedValue s' = ulNotifiedValue s"
    "ucNotifyState s' = (if t \<noteq> 0 then (ucNotifyState s)(t := taskNOTIFICATION_RECEIVED) else ucNotifyState s)"
    "at s' = (if t \<noteq> 0 \<and> ucNotifyState s t = taskWAITING_NOTIFICATION then awake (\<lambda>u. u = t) s else at s)"
    "t \<noteq> 0 \<and> ucNotifyState s t = taskWAITING_NOTIFICATION \<and> uxPriority s t > uxPriority s (pxCurrentTCB s) \<Longrightarrow>
      yield_requested s'" by (rule notify_while_suspended_run [OF assms(1-3) w]) simp_all
  then show ?thesis by (intro exI [of _ s']) (simp add: told_def)
qed

lemma told_ready: "told E i t s s' \<Longrightarrow> t \<noteq> 0 \<Longrightarrow> ucNotifyState s t = taskWAITING_NOTIFICATION \<Longrightarrow>
    steady E i s \<Longrightarrow> ready s' t"
  using core_linked(5) [OF steadyD(2)] by (simp add: told_def ready_def)

text \<open>
  What a send of \<open>k\<close> bytes leaves that finds the buffer and the scheduler as \<open>v\<close> when the bytes are
  stored: the reader is told if enough is stored. A receive tells the writer if it took anything.
\<close>

definition reader_told :: "u32 \<Rightarrow> StreamBuffer_t \<Rightarrow> bool" where
  "reader_told k b \<longleftrightarrow> k > 0 \<and> prvBytesInBuffer b \<ge> xTriggerLevelBytes b"

definition after_send :: "nat set \<Rightarrow> nat \<Rightarrow> u32 \<Rightarrow> sb_world \<Rightarrow> sb_world \<Rightarrow> bool" where
  "after_send E i k v w' \<longleftrightarrow>
     (if reader_told k (obj v)
      then obj w' = (obj v)\<lparr>xTaskWaitingToReceive := 0\<rparr> \<and> told E i (xTaskWaitingToReceive (obj v)) (os v) (os w')
      else w' = v)"

definition after_receive :: "nat set \<Rightarrow> nat \<Rightarrow> u8 list \<Rightarrow> sb_world \<Rightarrow> sb_world \<Rightarrow> bool" where
  "after_receive E i bytes v w' \<longleftrightarrow>
     (if bytes \<noteq> []
      then obj w' = (obj v)\<lparr>xTaskWaitingToSend := 0\<rparr> \<and> told E i (xTaskWaitingToSend (obj v)) (os v) (os w')
      else w' = v)"

lemma send_end:
  assumes "caller_ok E i v"
  shows "\<exists>w'. (if reader_told k (obj v) then map_option (\<lambda>w. (k, w)) (sbSEND_COMPLETED v) else Some (k, v)) = Some (k, w') \<and>
    after_send E i k v w'"
proof -
  note c = assms [unfolded caller_ok_def]
  from c told_run [of E i "os v" "xTaskWaitingToReceive (obj v)"] obtain s' where
    "notify_while_suspended (xTaskWaitingToReceive (obj v)) (os v) = Some s'"
    "told E i (xTaskWaitingToReceive (obj v)) (os v) s'" by auto
  moreover have "uxNotificationIndex (obj v) = 0" using c stream_okD(8) by simp
  ultimately show ?thesis using send_completed [of v] by (simp add: after_send_def)
qed

lemma receive_end:
  assumes "caller_ok E i v"
  shows "\<exists>w'. (if bytes \<noteq> [] then map_option (\<lambda>w. (bytes, w)) (sbRECEIVE_COMPLETED v) else Some (bytes, v)) =
    Some (bytes, w') \<and> after_receive E i bytes v w'"
proof -
  note c = assms [unfolded caller_ok_def]
  from c told_run [of E i "os v" "xTaskWaitingToSend (obj v)"] obtain s' where
    "notify_while_suspended (xTaskWaitingToSend (obj v)) (os v) = Some s'"
    "told E i (xTaskWaitingToSend (obj v)) (os v) s'" by auto
  moreover have "uxNotificationIndex (obj v) = 0" using c stream_okD(8) by simp
  ultimately show ?thesis using receive_completed [of v] by (simp add: after_receive_def)
qed

text \<open>
  The three points of a send at which other tasks may run, \<open>v1\<close>, \<open>v2\<close> and \<open>v3\<close> being what they leave;
  the space is read before the second, and the bytes are written after it.
\<close>

lemma send_run:
  assumes req: "send_request n ticks (obj w) = Some (req, ticks')"
    and go: "ticks' = 0 \<or> \<not> xStreamBufferSpacesAvailable (obj w) < req"
    and sp: "sp = (if ticks' = 0 \<or> xStreamBufferSpacesAvailable (obj w) = 0
      then xStreamBufferSpacesAvailable (obj v1) else xStreamBufferSpacesAvailable (obj w))"
    and P: "rest_of_program P w = Some v1" "rest_of_program P v1 = Some v2"
      "rest_of_program P (v2\<lparr>obj := b'\<rparr>) = Some v3"
    and wr: "prvWriteMessageToBuffer p n sp req (obj v2) = Some (k, b')" and ok: "caller_ok E i v3"
  shows "\<exists>w'. xStreamBufferSend P (Some p) n ticks w = Some (k, w') \<and> after_send E i k v3 w'"
proof -
  define s where "s = (if ticks' = 0 then 0 else xStreamBufferSpacesAvailable (obj w))"
  have wait: "(if ticks' \<noteq> 0 then wait_for_space P req tmo ticks' w else Some (0, w)) = Some (s, w)" for tmo
    using go by (auto simp: wait_for_space.simps s_def)
  have "(if s = 0 then xStreamBufferSpacesAvailable (obj v1) else s) = sp" by (simp add: sp s_def)
  then have "xStreamBufferSend P (Some p) n ticks w =
      (if reader_told k (obj v3) then map_option (\<lambda>w. (k, w)) (sbSEND_COMPLETED v3) else Some (k, v3))"
    using P wr by (simp add: xStreamBufferSend_def req wait reader_told_def del: if_split)
  with send_end [OF ok] show ?thesis by simp
qed

lemma receive_run:
  assumes more: "prvBytesInBuffer (obj w) > receive_threshold (obj w)"
    and P: "rest_of_program P w = Some v1" "rest_of_program P (v1\<lparr>obj := b'\<rparr>) = Some v2"
    and rd: "prvReadMessageFromBuffer len (prvBytesInBuffer (obj w)) (obj v1) = Some (bytes, b')"
    and ok: "caller_ok E i v2"
  shows "\<exists>w'. xStreamBufferReceive P True len ticks w = Some (bytes, w') \<and> after_receive E i bytes v2 w'"
proof -
  have "xStreamBufferReceive P True len ticks w =
      (if bytes \<noteq> [] then map_option (\<lambda>w. (bytes, w)) (sbRECEIVE_COMPLETED v2) else Some (bytes, v2))"
    using P by (simp add: xStreamBufferReceive_def Let_def rd more not_le [THEN iffD2, OF more])
  with receive_end [OF ok] show ?thesis by simp
qed

text \<open>With no block time and too little stored, nothing happens.\<close>

lemma receive_nothing:
  "prvBytesInBuffer (obj w) \<le> receive_threshold (obj w) \<Longrightarrow> xStreamBufferReceive P True len 0 w = Some ([], w)"
  by (simp add: xStreamBufferReceive_def Let_def leD)

lemma caller_with:
  "caller_ok E i v \<Longrightarrow> stream_ok b \<Longrightarrow> xTaskWaitingToReceive b = xTaskWaitingToReceive (obj v) \<Longrightarrow>
   xTaskWaitingToSend b = xTaskWaitingToSend (obj v) \<Longrightarrow> caller_ok E i (v\<lparr>obj := b\<rparr>)"
  by (simp add: caller_ok_def)

end
