(* ===== verification/Rtos_Stream_Channel.thy ===== *)
theory Rtos_Stream_Channel
  imports Rtos_Stream_Calls
begin

text \<open>
  One writer and one reader, without a lock: each side runs while the other makes its moves. What
  streams and message buffers promise is stated once, as a channel of items, bytes or messages.
\<close>

section \<open>The other side\<close>

text \<open>What a buffer was created with.\<close>

definition same_config :: "StreamBuffer_t \<Rightarrow> StreamBuffer_t \<Rightarrow> bool" where
  "same_config b b' \<longleftrightarrow> xLength b' = xLength b \<and> ucFlags b' = ucFlags b \<and> xTriggerLevelBytes b' = xTriggerLevelBytes b"

text \<open>
  While a reader runs beside the caller items disappear at the front, while a writer runs they appear
  at the end. The rest of the program may do what it wants with the scheduler, as long as the caller
  gets to run again.
\<close>

definition reader_beside ::
  "nat set \<Rightarrow> nat \<Rightarrow> (StreamBuffer_t \<Rightarrow> 'a list \<Rightarrow> bool) \<Rightarrow> StreamBuffer_t surroundings \<Rightarrow> bool" where
  "reader_beside E i holds P \<longleftrightarrow> (\<forall>v xs. caller_ok E i v \<and> holds (obj v) xs \<longrightarrow>
     (\<exists>v' j. rest_of_program P v = Some v' \<and> caller_ok E i v' \<and> same_config (obj v) (obj v') \<and>
        j \<le> length xs \<and> holds (obj v') (drop j xs)))"

definition writer_beside ::
  "nat set \<Rightarrow> nat \<Rightarrow> (StreamBuffer_t \<Rightarrow> 'a list \<Rightarrow> bool) \<Rightarrow> StreamBuffer_t surroundings \<Rightarrow> bool" where
  "writer_beside E i holds P \<longleftrightarrow> (\<forall>v xs. caller_ok E i v \<and> holds (obj v) xs \<longrightarrow>
     (\<exists>v' ys. rest_of_program P v = Some v' \<and> caller_ok E i v' \<and> same_config (obj v) (obj v') \<and>
        holds (obj v') (xs @ ys)))"

lemma reader_besideD:
  assumes "reader_beside E i holds P" "caller_ok E i v" "holds (obj v) xs"
  obtains v' j where "rest_of_program P v = Some v'" "caller_ok E i v'" "same_config (obj v) (obj v')"
    "j \<le> length xs" "holds (obj v') (drop j xs)"
  using assms unfolding reader_beside_def by blast

lemma writer_besideD:
  assumes "writer_beside E i holds P" "caller_ok E i v" "holds (obj v) xs"
  obtains v' ys where "rest_of_program P v = Some v'" "caller_ok E i v'" "same_config (obj v) (obj v')"
    "holds (obj v') (xs @ ys)"
  using assms unfolding writer_beside_def by blast

section \<open>The contract of a channel\<close>

text \<open>The space a message needs is computed without overflow; tasks check it, interrupts do not.\<close>

definition request_ok :: "u32 \<Rightarrow> u32 \<Rightarrow> StreamBuffer_t \<Rightarrow> bool" where
  "request_ok n req b \<longleftrightarrow> (is_message_buffer b \<longrightarrow> req = bytes_required n b \<and> req > n)"

lemma send_requested: "send_request n ticks b = Some (req, ticks') \<Longrightarrow> request_ok n req b"
  by (auto simp: send_request_def request_ok_def Let_def split: if_splits)

text \<open>
  \<open>count\<close> is the number of bytes a write of \<open>n\<close> bytes with \<open>sp\<close> bytes of room reports, \<open>pack\<close> the items
  they make, \<open>taken\<close> the number of items a read into \<open>len\<close> bytes takes, and \<open>payload\<close> the bytes of items.
\<close>

locale channel =
  fixes kind :: "StreamBuffer_t \<Rightarrow> bool"
    and holds :: "StreamBuffer_t \<Rightarrow> 'a list \<Rightarrow> bool"
    and size_of :: "'a list \<Rightarrow> nat"
    and count :: "u32 \<Rightarrow> u32 \<Rightarrow> u32"
    and pack :: "u8 list \<Rightarrow> 'a list"
    and taken :: "u32 \<Rightarrow> 'a list \<Rightarrow> nat"
    and payload :: "'a list \<Rightarrow> u8 list"
  assumes kind_flags: "ucFlags b' = ucFlags b \<Longrightarrow> kind b' = kind b"
    and holds_handles: "holds (b\<lparr>xTaskWaitingToReceive := t\<rparr>) = holds b" "holds (b\<lparr>xTaskWaitingToSend := t\<rparr>) = holds b"
    and holds_size: "holds b xs \<Longrightarrow> used b = size_of xs" and size_drop: "size_of (drop j xs) \<le> size_of xs"
    and taken_le: "taken len xs \<le> length xs" and pack_nothing: "pack [] = []"
    and pack_payload: "holds b xs \<Longrightarrow> pack (payload (take (taken len xs) xs)) = take (taken len xs) xs"
    and write_law: "stream_ok b \<Longrightarrow> kind b \<Longrightarrow> holds b xs \<Longrightarrow> unat sp \<le> room b \<Longrightarrow> kind c \<Longrightarrow> request_ok n req c \<Longrightarrow>
      \<exists>b'. prvWriteMessageToBuffer p n sp req b = Some (count n sp, b') \<and> stream_ok b' \<and> only_sent b b' \<and>
        holds b' (xs @ pack (bytes_from p 0 (count n sp)))"
    and read_law: "stream_ok b \<Longrightarrow> kind b \<Longrightarrow> holds b (xs @ ys) \<Longrightarrow> unat avail = size_of xs \<Longrightarrow> size_of xs > 0 \<Longrightarrow>
      \<exists>b'. prvReadMessageFromBuffer len avail b = Some (payload (take (taken len xs) xs), b') \<and> stream_ok b' \<and>
        only_taken b b' \<and> holds b' (drop (taken len xs) xs @ ys)"
begin

lemma send_beside_reader:
  assumes P: "reader_beside E i holds P" and ok: "caller_ok E i w" "kind (obj w)" "holds (obj w) xs"
    and req: "send_request n ticks (obj w) = Some (req, ticks')"
    and go: "ticks' = 0 \<or> \<not> xStreamBufferSpacesAvailable (obj w) < req"
  shows "\<exists>sp j v w'. xStreamBufferSend P (Some p) n ticks w = Some (count n sp, w') \<and> unat sp \<ge> room (obj w) \<and>
    j \<le> length (xs @ pack (bytes_from p 0 (count n sp))) \<and> holds (obj w') (drop j (xs @ pack (bytes_from p 0 (count n sp)))) \<and>
    caller_ok E i v \<and> after_send E i (count n sp) v w'"
proof -
  from reader_besideD [OF P ok(1,3)] obtain v1 j1 where 1: "rest_of_program P w = Some v1" "caller_ok E i v1"
    "same_config (obj w) (obj v1)" "j1 \<le> length xs" "holds (obj v1) (drop j1 xs)" .
  from reader_besideD [OF P 1(2,5)] obtain v2 j2 where 2: "rest_of_program P v1 = Some v2" "caller_ok E i v2"
    "same_config (obj v1) (obj v2)" "j2 \<le> length (drop j1 xs)" "holds (obj v2) (drop j2 (drop j1 xs))" .
  define sp where "sp = (if ticks' = 0 \<or> xStreamBufferSpacesAvailable (obj w) = 0
      then xStreamBufferSpacesAvailable (obj v1) else xStreamBufferSpacesAvailable (obj w))"
  have st: "stream_ok (obj w)" "stream_ok (obj v1)" "stream_ok (obj v2)"
    using ok(1) 1(2) 2(2) by (simp_all add: caller_ok_def)
  have len: "length (pucBuffer (obj v1)) = length (pucBuffer (obj w))"
    "length (pucBuffer (obj v2)) = length (pucBuffer (obj w))"
    using st 1(3) 2(3) by (simp_all add: stream_okD(1) same_config_def)
  have r: "room (obj w) \<le> room (obj v1)" "room (obj v1) \<le> room (obj v2)"
    using size_drop [of j1 xs] size_drop [of j2 "drop j1 xs"]
    unfolding room_def len holds_size [OF ok(3)] holds_size [OF 1(5)] holds_size [OF 2(5)] by simp_all
  have sp_le: "room (obj w) \<le> unat sp" "unat sp \<le> room (obj v2)"
    using r spaces_available [OF st(1)] spaces_available [OF st(2)] by (auto simp: sp_def)
  have k2: "kind (obj v2)" using ok(2) kind_flags 1(3) 2(3) by (metis same_config_def)
  from write_law [OF st(3) k2 2(5) sp_le(2) ok(2) send_requested [OF req], of p] obtain b' where
    wr: "prvWriteMessageToBuffer p n sp req (obj v2) = Some (count n sp, b')" "stream_ok b'" "only_sent (obj v2) b'"
      "holds b' (drop j2 (drop j1 xs) @ pack (bytes_from p 0 (count n sp)))" by blast
  have u: "caller_ok E i (v2\<lparr>obj := b'\<rparr>)" using caller_with [OF 2(2) wr(2)] sent_fields [OF wr(3)] by simp
  have "holds (obj (v2\<lparr>obj := b'\<rparr>)) (drop j2 (drop j1 xs) @ pack (bytes_from p 0 (count n sp)))" using wr(4) by simp
  from reader_besideD [OF P u this] obtain v3 j3 where 3: "rest_of_program P (v2\<lparr>obj := b'\<rparr>) = Some v3"
    "caller_ok E i v3" "j3 \<le> length (drop j2 (drop j1 xs) @ pack (bytes_from p 0 (count n sp)))"
    "holds (obj v3) (drop j3 (drop j2 (drop j1 xs) @ pack (bytes_from p 0 (count n sp))))" by blast
  from send_run [OF req go sp_def 1(1) 2(1) 3(1) wr(1) 3(2)] obtain w' where
    w': "xStreamBufferSend P (Some p) n ticks w = Some (count n sp, w')" "after_send E i (count n sp) v3 w'" by blast
  have cut: "drop j3 (drop j2 (drop j1 xs) @ pack (bytes_from p 0 (count n sp))) = drop (j3 + (j2 + j1)) (xs @ pack (bytes_from p 0 (count n sp)))"
    using 1(4) 2(4) by (simp add: add.commute)
  have "j3 + (j2 + j1) \<le> length (xs @ pack (bytes_from p 0 (count n sp)))" using 1(4) 2(4) 3(3) by simp
  moreover have "holds (obj w') (drop (j3 + (j2 + j1)) (xs @ pack (bytes_from p 0 (count n sp))))"
    using w'(2) 3(4) unfolding cut by (auto simp: after_send_def holds_handles split: if_splits)
  ultimately show ?thesis using w' sp_le(1) 3(2) by blast
qed

lemma receive_beside_writer:
  assumes P: "writer_beside E i holds P" and ok: "caller_ok E i w" "kind (obj w)" "holds (obj w) xs"
    and more: "prvBytesInBuffer (obj w) > receive_threshold (obj w)"
  shows "\<exists>ys v w'. xStreamBufferReceive P True len ticks w = Some (payload (take (taken len xs) xs), w') \<and>
    holds (obj w') (drop (taken len xs) xs @ ys) \<and>
    caller_ok E i v \<and> after_receive E i (payload (take (taken len xs) xs)) v w'"
proof -
  from writer_besideD [OF P ok(1,3)] obtain v1 ys1 where 1: "rest_of_program P w = Some v1" "caller_ok E i v1"
    "same_config (obj w) (obj v1)" "holds (obj v1) (xs @ ys1)" .
  have st: "stream_ok (obj w)" "stream_ok (obj v1)" using ok(1) 1(2) by (simp_all add: caller_ok_def)
  have av: "unat (prvBytesInBuffer (obj w)) = size_of xs"
    using bytes_in_buffer [OF st(1)] holds_size [OF ok(3)] by simp
  moreover from more have "unat (prvBytesInBuffer (obj w)) > 0" unfolding word_less_nat_alt by linarith
  ultimately have pos: "size_of xs > 0" by simp
  have "kind (obj v1)" using ok(2) kind_flags 1(3) by (metis same_config_def)
  from read_law [OF st(2) this 1(4) av pos, of len] obtain b' where
    rd: "prvReadMessageFromBuffer len (prvBytesInBuffer (obj w)) (obj v1) = Some (payload (take (taken len xs) xs), b')"
      "stream_ok b'" "only_taken (obj v1) b'" "holds b' (drop (taken len xs) xs @ ys1)" by blast
  have u: "caller_ok E i (v1\<lparr>obj := b'\<rparr>)" using caller_with [OF 1(2) rd(2)] taken_fields [OF rd(3)] by simp
  have "holds (obj (v1\<lparr>obj := b'\<rparr>)) (drop (taken len xs) xs @ ys1)" using rd(4) by simp
  from writer_besideD [OF P u this] obtain v2 ys2 where 2: "rest_of_program P (v1\<lparr>obj := b'\<rparr>) = Some v2"
    "caller_ok E i v2" "holds (obj v2) ((drop (taken len xs) xs @ ys1) @ ys2)" by blast
  from receive_run [OF more 1(1) 2(1) rd(1) 2(2)] obtain w' where
    w': "xStreamBufferReceive P True len ticks w = Some (payload (take (taken len xs) xs), w')"
      "after_receive E i (payload (take (taken len xs) xs)) v2 w'" by blast
  have "holds (obj w') (drop (taken len xs) xs @ (ys1 @ ys2))"
    using w'(2) 2(3) by (auto simp: after_receive_def holds_handles split: if_splits)
  with w' 2(2) show ?thesis by blast
qed

end

end
