(* ===== verification/Rtos_Stream_Talk.thy ===== *)
theory Rtos_Stream_Talk
  imports Rtos_Stream_Channel
begin

text \<open>
  The calls from interrupts, and conversations: any sequence of calls of the writer and of the reader,
  from tasks and from interrupts, with anything happening to the scheduler in between.
\<close>

section \<open>Calls from interrupts\<close>

definition isr_ok :: "nat set \<Rightarrow> nat \<Rightarrow> sb_world \<Rightarrow> bool" where
  "isr_ok E i w \<longleftrightarrow> steady E i (os w) \<and> stream_ok (obj w) \<and>
     (xTaskWaitingToReceive (obj w) \<noteq> 0 \<longrightarrow> notifiable_from_isr (os w) (xTaskWaitingToReceive (obj w))) \<and>
     (xTaskWaitingToSend (obj w) \<noteq> 0 \<longrightarrow> notifiable_from_isr (os w) (xTaskWaitingToSend (obj w)))"

text \<open>The buffer but for the handles of the tasks that wait.\<close>

definition same_bytes :: "StreamBuffer_t \<Rightarrow> StreamBuffer_t \<Rightarrow> bool" where
  "same_bytes b b' \<longleftrightarrow> (\<exists>r t. b' = b\<lparr>xTaskWaitingToReceive := r, xTaskWaitingToSend := t\<rparr>)"

lemma same_bytes_one:
  "same_bytes b (b\<lparr>xTaskWaitingToReceive := t\<rparr>)" "same_bytes b (b\<lparr>xTaskWaitingToSend := t\<rparr>)" "same_bytes b b"
proof -
  have "b\<lparr>xTaskWaitingToReceive := t\<rparr> = b\<lparr>xTaskWaitingToReceive := t, xTaskWaitingToSend := xTaskWaitingToSend b\<rparr>"
    "b\<lparr>xTaskWaitingToSend := t\<rparr> = b\<lparr>xTaskWaitingToReceive := xTaskWaitingToReceive b, xTaskWaitingToSend := t\<rparr>"
    "b = b\<lparr>xTaskWaitingToReceive := xTaskWaitingToReceive b, xTaskWaitingToSend := xTaskWaitingToSend b\<rparr>"
    by simp_all
  then show "same_bytes b (b\<lparr>xTaskWaitingToReceive := t\<rparr>)" "same_bytes b (b\<lparr>xTaskWaitingToSend := t\<rparr>)" "same_bytes b b"
    unfolding same_bytes_def by blast+
qed

lemma notify_task_isr_run:
  assumes "steady E i (os w)" "notifiable_from_isr (os w) t"
  obtains woken s' where "notify_task_from_isr t 0 w = Some (woken, w\<lparr>os := s'\<rparr>)" "steady E i (yield_if (woken, s'))"
proof -
  obtain r woken s' where
    "xTaskGenericNotifyFromISR t 0 0 eNoAction (os w) = Some (r, ulNotifiedValue (os w) t, woken, s')"
    "steady E i (yield_if (woken, s'))" by (rule notify_isr_run [OF assms, of 0 eNoAction])
  with that show ?thesis by (simp add: notify_task_from_isr_def)
qed

lemma send_complete_isr_run:
  assumes ok: "isr_ok E i v"
  shows "\<exists>woken w'. sbSEND_COMPLETE_FROM_ISR v = Some (woken, w') \<and> same_bytes (obj v) (obj w') \<and>
    steady E i (yield_if (woken, os w'))"
proof (cases "xTaskWaitingToReceive (obj v) = 0")
  case True
  then have "sbSEND_COMPLETE_FROM_ISR v = Some (False, v)"
    by (simp add: sbSEND_COMPLETE_FROM_ISR_def xStreamBufferSendCompletedFromISR_def)
  with ok show ?thesis by (intro exI [of _ False]) (simp add: isr_ok_def yield_if_def same_bytes_one)
next
  case False
  note c = ok [unfolded isr_ok_def]
  have "uxNotificationIndex (obj v) = 0" using c stream_okD(8) by simp
  moreover from c False notify_task_isr_run [of E i v "xTaskWaitingToReceive (obj v)"] obtain woken s' where
    "notify_task_from_isr (xTaskWaitingToReceive (obj v)) 0 v = Some (woken, v\<lparr>os := s'\<rparr>)"
    "steady E i (yield_if (woken, s'))" by metis
  ultimately have "sbSEND_COMPLETE_FROM_ISR v = Some (woken, v\<lparr>os := s', obj := (obj v)\<lparr>xTaskWaitingToReceive := 0\<rparr>\<rparr>)"
    "steady E i (yield_if (woken, s'))" using False
    by (simp_all add: sbSEND_COMPLETE_FROM_ISR_def xStreamBufferSendCompletedFromISR_def on_obj_def)
  then show ?thesis by (simp add: same_bytes_one)
qed

lemma receive_complete_isr_run:
  assumes ok: "isr_ok E i v"
  shows "\<exists>woken w'. sbRECEIVE_COMPLETED_FROM_ISR v = Some (woken, w') \<and> same_bytes (obj v) (obj w') \<and>
    steady E i (yield_if (woken, os w'))"
proof (cases "xTaskWaitingToSend (obj v) = 0")
  case True
  then have "sbRECEIVE_COMPLETED_FROM_ISR v = Some (False, v)"
    by (simp add: sbRECEIVE_COMPLETED_FROM_ISR_def xStreamBufferReceiveCompletedFromISR_def)
  with ok show ?thesis by (intro exI [of _ False]) (simp add: isr_ok_def yield_if_def same_bytes_one)
next
  case False
  note c = ok [unfolded isr_ok_def]
  have "uxNotificationIndex (obj v) = 0" using c stream_okD(8) by simp
  moreover from c False notify_task_isr_run [of E i v "xTaskWaitingToSend (obj v)"] obtain woken s' where
    "notify_task_from_isr (xTaskWaitingToSend (obj v)) 0 v = Some (woken, v\<lparr>os := s'\<rparr>)"
    "steady E i (yield_if (woken, s'))" by metis
  ultimately have "sbRECEIVE_COMPLETED_FROM_ISR v = Some (woken, v\<lparr>os := s', obj := (obj v)\<lparr>xTaskWaitingToSend := 0\<rparr>\<rparr>)"
    "steady E i (yield_if (woken, s'))" using False
    by (simp_all add: sbRECEIVE_COMPLETED_FROM_ISR_def xStreamBufferReceiveCompletedFromISR_def on_obj_def)
  then show ?thesis by (simp add: same_bytes_one)
qed

lemma isr_with:
  "isr_ok E i v \<Longrightarrow> stream_ok b \<Longrightarrow> xTaskWaitingToReceive b = xTaskWaitingToReceive (obj v) \<Longrightarrow>
   xTaskWaitingToSend b = xTaskWaitingToSend (obj v) \<Longrightarrow> isr_ok E i (v\<lparr>obj := b\<rparr>)"
  by (simp add: isr_ok_def)

lemma send_isr_run:
  assumes ok: "isr_ok E i w"
    and wr: "prvWriteMessageToBuffer p n (xStreamBufferSpacesAvailable (obj w)) (bytes_required n (obj w)) (obj w) =
      Some (k, b')" "stream_ok b'" "only_sent (obj w) b'"
  shows "\<exists>woken w'. xStreamBufferSendFromISR (Some p) n w = Some (k, woken, w') \<and> same_bytes b' (obj w') \<and>
    steady E i (yield_if (woken, os w'))"
proof -
  have u: "isr_ok E i (w\<lparr>obj := b'\<rparr>)" using isr_with [OF ok wr(2)] sent_fields [OF wr(3)] by simp
  from send_complete_isr_run [OF this] obtain woken w' where
    1: "sbSEND_COMPLETE_FROM_ISR (w\<lparr>obj := b'\<rparr>) = Some (woken, w')" "same_bytes b' (obj w')"
      "steady E i (yield_if (woken, os w'))" by auto
  show ?thesis
  proof (cases "k > 0 \<and> prvBytesInBuffer b' \<ge> xTriggerLevelBytes b'")
    case True
    then show ?thesis using 1 wr(1) by (simp add: xStreamBufferSendFromISR_def)
  next
    case False
    then have "xStreamBufferSendFromISR (Some p) n w = Some (k, False, w\<lparr>obj := b'\<rparr>)"
      using wr(1) by (auto simp: xStreamBufferSendFromISR_def)
    then show ?thesis using u by (intro exI [of _ False]) (simp add: isr_ok_def yield_if_def same_bytes_one)
  qed
qed

definition isr_threshold :: "StreamBuffer_t \<Rightarrow> u32" where
  "isr_threshold b = (if is_message_buffer b then sbBYTES_TO_STORE_MESSAGE_LENGTH else 0)"

lemma receive_isr_run:
  assumes ok: "isr_ok E i w" and more: "prvBytesInBuffer (obj w) > isr_threshold (obj w)"
    and rd: "prvReadMessageFromBuffer len (prvBytesInBuffer (obj w)) (obj w) = Some (bytes, b')" "stream_ok b'"
      "only_taken (obj w) b'"
  shows "\<exists>woken w'. xStreamBufferReceiveFromISR True len w = Some (bytes, woken, w') \<and> same_bytes b' (obj w') \<and>
    steady E i (yield_if (woken, os w'))"
proof -
  have u: "isr_ok E i (w\<lparr>obj := b'\<rparr>)" using isr_with [OF ok rd(2)] taken_fields [OF rd(3)] by simp
  from receive_complete_isr_run [OF this] obtain woken w' where
    1: "sbRECEIVE_COMPLETED_FROM_ISR (w\<lparr>obj := b'\<rparr>) = Some (woken, w')" "same_bytes b' (obj w')"
      "steady E i (yield_if (woken, os w'))" by auto
  show ?thesis
  proof (cases "bytes = []")
    case False
    then show ?thesis using 1 rd(1) more by (simp add: xStreamBufferReceiveFromISR_def isr_threshold_def Let_def)
  next
    case True
    then have "xStreamBufferReceiveFromISR True len w = Some (bytes, False, w\<lparr>obj := b'\<rparr>)"
      using rd(1) more by (simp add: xStreamBufferReceiveFromISR_def isr_threshold_def Let_def)
    then show ?thesis using u by (intro exI [of _ False]) (simp add: isr_ok_def yield_if_def same_bytes_one)
  qed
qed

lemma receive_isr_nothing:
  "\<not> prvBytesInBuffer (obj w) > isr_threshold (obj w) \<Longrightarrow> xStreamBufferReceiveFromISR True len w = Some ([], False, w)"
  by (simp add: xStreamBufferReceiveFromISR_def isr_threshold_def Let_def)

section \<open>Conversations\<close>

datatype sb_event = Sent "u8 list" | Got "u8 list"

definition undisturbed :: "'b surroundings \<Rightarrow> bool" where
  "undisturbed P \<longleftrightarrow> (\<forall>v. rest_of_program P v = Some v \<and> handlers P v = Some v)"

text \<open>
  Each call runs to its end before the next; \<open>meanwhile\<close> the scheduler and the handles of the waiting
  tasks change as they like.
\<close>

inductive talk :: "nat set \<Rightarrow> nat \<Rightarrow> sb_world \<Rightarrow> sb_event list \<Rightarrow> sb_world \<Rightarrow> bool" for E i w where
  start: "talk E i w [] w"
| meanwhile: "talk E i w l u \<Longrightarrow> same_bytes (obj u) (obj v) \<Longrightarrow> talk E i w l v"
| send: "talk E i w l u \<Longrightarrow> caller_ok E i u \<Longrightarrow> undisturbed P \<Longrightarrow>
    xStreamBufferSend P (Some p) n 0 u = Some (k, v) \<Longrightarrow> talk E i w (l @ [Sent (bytes_from p 0 k)]) v"
| send_from_isr: "talk E i w l u \<Longrightarrow> isr_ok E i u \<Longrightarrow> request_ok n (bytes_required n (obj u)) (obj u) \<Longrightarrow>
    xStreamBufferSendFromISR (Some p) n u = Some (k, woken, v) \<Longrightarrow> talk E i w (l @ [Sent (bytes_from p 0 k)]) v"
| receive: "talk E i w l u \<Longrightarrow> caller_ok E i u \<Longrightarrow> undisturbed P \<Longrightarrow>
    xStreamBufferReceive P True len 0 u = Some (bytes, v) \<Longrightarrow> talk E i w (l @ [Got bytes]) v"
| receive_from_isr: "talk E i w l u \<Longrightarrow> isr_ok E i u \<Longrightarrow>
    xStreamBufferReceiveFromISR True len u = Some (bytes, woken, v) \<Longrightarrow> talk E i w (l @ [Got bytes]) v"

fun sent_of :: "sb_event list \<Rightarrow> u8 list list" where
  "sent_of [] = []"
| "sent_of (Sent bs # l) = bs # sent_of l"
| "sent_of (Got bs # l) = sent_of l"

fun got_of :: "sb_event list \<Rightarrow> u8 list list" where
  "got_of [] = []"
| "got_of (Sent bs # l) = got_of l"
| "got_of (Got bs # l) = bs # got_of l"

lemma events_append [simp]:
  "sent_of (l @ m) = sent_of l @ sent_of m" "got_of (l @ m) = got_of l @ got_of m"
  by (induction l rule: sent_of.induct; simp)+

lemma send_request_now: "send_request n 0 b = Some (req, ticks') \<Longrightarrow> ticks' = 0"
  by (auto simp: send_request_def Let_def split: if_splits)

lemma send_accepted:
  "xStreamBufferSend P (Some p) n ticks w = Some r \<Longrightarrow> \<exists>req ticks'. send_request n ticks (obj w) = Some (req, ticks')"
  by (cases "send_request n ticks (obj w)") (auto simp: xStreamBufferSend_def)

context channel
begin

lemma same_bytes_laws:
  assumes "same_bytes b b'"
  shows "stream_ok b' = stream_ok b" "kind b' = kind b" "holds b' xs = holds b xs"
proof -
  from assms obtain r t where b': "b' = b\<lparr>xTaskWaitingToReceive := r\<rparr>\<lparr>xTaskWaitingToSend := t\<rparr>"
    by (auto simp: same_bytes_def)
  show "stream_ok b' = stream_ok b" "kind b' = kind b" "holds b' xs = holds b xs"
    unfolding b' using kind_flags [of "b\<lparr>xTaskWaitingToReceive := r\<rparr>\<lparr>xTaskWaitingToSend := t\<rparr>" b]
    by (simp_all add: holds_handles)
qed

definition in_use :: "StreamBuffer_t \<Rightarrow> 'a list \<Rightarrow> bool" where
  "in_use b xs \<longleftrightarrow> stream_ok b \<and> kind b \<and> holds b xs"

lemma in_use_same: "same_bytes b b' \<Longrightarrow> in_use b' xs = in_use b xs"
  using same_bytes_laws by (simp add: in_use_def)

lemma write_in_use:
  assumes "in_use b xs" "request_ok n req b"
  obtains b' where "prvWriteMessageToBuffer p n (xStreamBufferSpacesAvailable b) req b =
      Some (count n (xStreamBufferSpacesAvailable b), b')" "only_sent b b'" "stream_ok b'"
    "in_use b' (xs @ pack (bytes_from p 0 (count n (xStreamBufferSpacesAvailable b))))"
proof -
  from assms(1) have b: "stream_ok b" "kind b" "holds b xs" by (simp_all add: in_use_def)
  from write_law [OF b _ b(2) assms(2), of "xStreamBufferSpacesAvailable b" p] spaces_available [OF b(1)]
  obtain b' where "prvWriteMessageToBuffer p n (xStreamBufferSpacesAvailable b) req b =
      Some (count n (xStreamBufferSpacesAvailable b), b')" "stream_ok b'" "only_sent b b'"
      "holds b' (xs @ pack (bytes_from p 0 (count n (xStreamBufferSpacesAvailable b))))" by auto
  with that b(2) kind_flags [OF sent_fields(9)] show ?thesis by (simp add: in_use_def)
qed

lemma read_in_use:
  assumes "in_use b xs" "prvBytesInBuffer b > th"
  obtains b' where "prvReadMessageFromBuffer len (prvBytesInBuffer b) b = Some (payload (take (taken len xs) xs), b')"
    "only_taken b b'" "stream_ok b'" "in_use b' (drop (taken len xs) xs)"
proof -
  from assms(1) have b: "stream_ok b" "kind b" "holds b xs" by (simp_all add: in_use_def)
  have n: "unat (prvBytesInBuffer b) = size_of xs" using bytes_in_buffer [OF b(1)] holds_size [OF b(3)] by simp
  moreover have "unat (prvBytesInBuffer b) > 0" using assms(2) unfolding word_less_nat_alt by linarith
  ultimately obtain b' where
    "prvReadMessageFromBuffer len (prvBytesInBuffer b) b = Some (payload (take (taken len xs) xs), b')"
    "stream_ok b'" "only_taken b b'" "holds b' (drop (taken len xs) xs)"
    using read_law [OF b(1,2), of xs "[]"] b(3) by auto
  with that b(2) kind_flags [OF taken_fields(10)] show ?thesis by (simp add: in_use_def)
qed

lemma send_step:
  assumes ok: "caller_ok E i u" and P: "undisturbed P" and xs: "in_use (obj u) xs"
    and s: "xStreamBufferSend P (Some p) n 0 u = Some (k, v)"
  shows "in_use (obj v) (xs @ pack (bytes_from p 0 k))"
proof -
  from send_accepted [OF s] obtain req ticks' where req: "send_request n 0 (obj u) = Some (req, ticks')" by blast
  note t0 = send_request_now [OF req]
  define sp where "sp = xStreamBufferSpacesAvailable (obj u)"
  from write_in_use [OF xs send_requested [OF req], of p] obtain b' where
    wr: "prvWriteMessageToBuffer p n sp req (obj u) = Some (count n sp, b')" "only_sent (obj u) b'" "stream_ok b'"
      "in_use b' (xs @ pack (bytes_from p 0 (count n sp)))" unfolding sp_def .
  have P': "rest_of_program P u = Some u" "rest_of_program P (u\<lparr>obj := b'\<rparr>) = Some (u\<lparr>obj := b'\<rparr>)"
    using P by (simp_all add: undisturbed_def)
  have u': "caller_ok E i (u\<lparr>obj := b'\<rparr>)" using caller_with [OF ok wr(3)] sent_fields [OF wr(2)] by simp
  have "ticks' = 0 \<or> \<not> xStreamBufferSpacesAvailable (obj u) < req" using t0 by simp
  moreover have "sp = (if ticks' = 0 \<or> xStreamBufferSpacesAvailable (obj u) = 0
      then xStreamBufferSpacesAvailable (obj u) else xStreamBufferSpacesAvailable (obj u))" by (simp add: sp_def)
  ultimately obtain w' where "xStreamBufferSend P (Some p) n 0 u = Some (count n sp, w')"
    "after_send E i (count n sp) (u\<lparr>obj := b'\<rparr>) w'" using send_run [OF req _ _ P'(1,1,2) wr(1) u'] by blast
  with s have "k = count n sp" "same_bytes b' (obj v)"
    by (auto simp: after_send_def same_bytes_one split: if_splits)
  with in_use_same wr(4) show ?thesis by simp
qed

lemma send_isr_step:
  assumes ok: "isr_ok E i u" and xs: "in_use (obj u) xs" and req: "request_ok n (bytes_required n (obj u)) (obj u)"
  shows "\<exists>woken v. xStreamBufferSendFromISR (Some p) n u = Some (count n (xStreamBufferSpacesAvailable (obj u)), woken, v) \<and>
    steady E i (yield_if (woken, os v)) \<and>
    in_use (obj v) (xs @ pack (bytes_from p 0 (count n (xStreamBufferSpacesAvailable (obj u)))))"
proof -
  from write_in_use [OF xs req, of p] obtain b' where
    wr: "prvWriteMessageToBuffer p n (xStreamBufferSpacesAvailable (obj u)) (bytes_required n (obj u)) (obj u) =
        Some (count n (xStreamBufferSpacesAvailable (obj u)), b')" "only_sent (obj u) b'" "stream_ok b'"
      "in_use b' (xs @ pack (bytes_from p 0 (count n (xStreamBufferSpacesAvailable (obj u)))))" .
  from send_isr_run [OF ok wr(1,3,2)] in_use_same wr(4) show ?thesis by blast
qed

lemma receive_step:
  assumes ok: "caller_ok E i u" and P: "undisturbed P" and xs: "in_use (obj u) xs"
    and r: "xStreamBufferReceive P True len 0 u = Some (bytes, v)"
  shows "\<exists>ys. in_use (obj v) ys \<and> xs = pack bytes @ ys"
proof (cases "prvBytesInBuffer (obj u) > receive_threshold (obj u)")
  case False
  with receive_nothing [of u P len] r xs show ?thesis by (simp add: not_less pack_nothing)
next
  case True
  from read_in_use [OF xs True, of len] obtain b' where
    rd: "prvReadMessageFromBuffer len (prvBytesInBuffer (obj u)) (obj u) = Some (payload (take (taken len xs) xs), b')"
      "only_taken (obj u) b'" "stream_ok b'" "in_use b' (drop (taken len xs) xs)" .
  have P': "rest_of_program P u = Some u" "rest_of_program P (u\<lparr>obj := b'\<rparr>) = Some (u\<lparr>obj := b'\<rparr>)"
    using P by (simp_all add: undisturbed_def)
  have "caller_ok E i (u\<lparr>obj := b'\<rparr>)" using caller_with [OF ok rd(3)] taken_fields [OF rd(2)] by simp
  from receive_run [OF True P' rd(1) this] obtain w' where
    "xStreamBufferReceive P True len 0 u = Some (payload (take (taken len xs) xs), w')"
    "after_receive E i (payload (take (taken len xs) xs)) (u\<lparr>obj := b'\<rparr>) w'" by blast
  with r have b: "bytes = payload (take (taken len xs) xs)" "same_bytes b' (obj v)"
    by (auto simp: after_receive_def same_bytes_one split: if_splits)
  have "pack bytes = take (taken len xs) xs" unfolding b(1) using pack_payload [of "obj u" xs len] xs by (simp add: in_use_def)
  with in_use_same [OF b(2)] rd(4) show ?thesis by (intro exI [of _ "drop (taken len xs) xs"]) simp
qed

lemma receive_isr_step:
  assumes ok: "isr_ok E i u" and xs: "in_use (obj u) xs"
  shows "\<exists>bytes woken v ys. xStreamBufferReceiveFromISR True len u = Some (bytes, woken, v) \<and>
    steady E i (yield_if (woken, os v)) \<and> in_use (obj v) ys \<and> xs = pack bytes @ ys"
proof (cases "prvBytesInBuffer (obj u) > isr_threshold (obj u)")
  case False
  with receive_isr_nothing [of u len] xs ok show ?thesis
    by (intro exI [of _ "[]"] exI [of _ False] exI [of _ u] exI [of _ xs])
      (simp add: pack_nothing yield_if_def isr_ok_def)
next
  case True
  define bytes where "bytes = payload (take (taken len xs) xs)"
  from read_in_use [OF xs True, of len] obtain b' where
    rd: "prvReadMessageFromBuffer len (prvBytesInBuffer (obj u)) (obj u) = Some (bytes, b')"
      "only_taken (obj u) b'" "stream_ok b'" "in_use b' (drop (taken len xs) xs)" unfolding bytes_def .
  from receive_isr_run [OF ok True rd(1,3,2)] obtain woken v where
    r: "xStreamBufferReceiveFromISR True len u = Some (bytes, woken, v)" "same_bytes b' (obj v)"
      "steady E i (yield_if (woken, os v))" by blast
  have "pack bytes = take (taken len xs) xs" unfolding bytes_def using pack_payload [of "obj u" xs len] xs by (simp add: in_use_def)
  then have "xs = pack bytes @ drop (taken len xs) xs" by simp
  with r in_use_same [OF r(2)] rd(4) show ?thesis by blast
qed

lemma talk_in_order:
  assumes "talk E i w l u" "in_use (obj w) xs"
  shows "\<exists>ys. in_use (obj u) ys \<and> xs @ concat (map pack (sent_of l)) = concat (map pack (got_of l)) @ ys"
  using assms
proof (induction rule: talk.induct)
  case start
  then show ?case by simp
next
  case (meanwhile l u v)
  then show ?case using in_use_same by blast
next
  case (send l u P p n k v)
  then obtain ys where ys: "in_use (obj u) ys" "xs @ concat (map pack (sent_of l)) = concat (map pack (got_of l)) @ ys"
    by blast
  from send_step [OF send.hyps(2,3) ys(1) send.hyps(4)] ys(2) show ?case
    by (intro exI [of _ "ys @ pack (bytes_from p 0 k)"]) (simp flip: append_assoc)
next
  case (send_from_isr l u n p k woken v)
  then obtain ys where ys: "in_use (obj u) ys" "xs @ concat (map pack (sent_of l)) = concat (map pack (got_of l)) @ ys"
    by blast
  from send_isr_step [OF send_from_isr.hyps(2) ys(1) send_from_isr.hyps(3), of p] send_from_isr.hyps(4)
  have "in_use (obj v) (ys @ pack (bytes_from p 0 k))" by auto
  with ys(2) show ?case by (intro exI [of _ "ys @ pack (bytes_from p 0 k)"]) (simp flip: append_assoc)
next
  case (receive l u P len bytes v)
  then obtain ys where ys: "in_use (obj u) ys" "xs @ concat (map pack (sent_of l)) = concat (map pack (got_of l)) @ ys"
    by blast
  from receive_step [OF receive.hyps(2,3) ys(1) receive.hyps(4)] ys(2) show ?case by auto
next
  case (receive_from_isr l u len bytes woken v)
  then obtain ys where ys: "in_use (obj u) ys" "xs @ concat (map pack (sent_of l)) = concat (map pack (got_of l)) @ ys"
    by blast
  from receive_isr_step [OF receive_from_isr.hyps(2) ys(1), of len] receive_from_isr.hyps(3) ys(2) show ?case by auto
qed

end

end
