(* ===== verification/Rtos_Stream_Contracts.thy ===== *)
theory Rtos_Stream_Contracts
  imports Rtos_Stream_Talk
begin

text \<open>
  Streams and message buffers are channels, of bytes and of messages, and what follows for the calls.
\<close>

section \<open>Streams are channels of bytes\<close>

definition plain_stream :: "StreamBuffer_t \<Rightarrow> bool" where
  "plain_stream b \<longleftrightarrow> \<not> is_message_buffer b"

definition holds_bytes :: "StreamBuffer_t \<Rightarrow> u8 list \<Rightarrow> bool" where
  "holds_bytes b bs \<longleftrightarrow> stored b = bs"

definition bytes_taken :: "u32 \<Rightarrow> u8 list \<Rightarrow> nat" where
  "bytes_taken len bs = min (unat len) (length bs)"

interpretation stream: channel plain_stream holds_bytes length min "\<lambda>bs. bs" bytes_taken "\<lambda>bs. bs"
proof unfold_locales
  show "plain_stream b' = plain_stream b" if "ucFlags b' = ucFlags b" for b b'
    using that by (simp add: plain_stream_def is_message_buffer_def)
  show "holds_bytes (b\<lparr>xTaskWaitingToReceive := t\<rparr>) = holds_bytes b"
    "holds_bytes (b\<lparr>xTaskWaitingToSend := t\<rparr>) = holds_bytes b" for b t
    by (simp_all add: holds_bytes_def fun_eq_iff)
  show "used b = length bs" if "holds_bytes b bs" for b bs using that by (auto simp: holds_bytes_def)
  show "\<exists>b'. prvWriteMessageToBuffer p n sp req b = Some (min n sp, b') \<and> stream_ok b' \<and> only_sent b b' \<and>
      holds_bytes b' (bs @ bytes_from p 0 (min n sp))"
    if "stream_ok b" "plain_stream b" "holds_bytes b bs" "unat sp \<le> room b" for b bs sp n req p
    using write_stream_run [OF that(1) _ that(4), of p n req] that(2,3) by (auto simp: plain_stream_def holds_bytes_def)
  show "\<exists>b'. prvReadMessageFromBuffer len avail b = Some (take (bytes_taken len bs) bs, b') \<and> stream_ok b' \<and>
      only_taken b b' \<and> holds_bytes b' (drop (bytes_taken len bs) bs @ cs)"
    if "stream_ok b" "plain_stream b" "holds_bytes b (bs @ cs)" "unat avail = length bs" for b bs cs avail len
  proof -
    have s: "stored b = bs @ cs" using that(3) by (simp add: holds_bytes_def)
    then have "unat avail \<le> used b" using that(4) stored_length [of b] unfolding s by simp
    from read_stream_run [OF that(1) _ this, of len] that(2,4) show ?thesis
      by (auto simp: s plain_stream_def holds_bytes_def bytes_taken_def)
  qed
qed (simp_all add: bytes_taken_def)

section \<open>Message buffers are channels of messages\<close>

definition message_fits :: "u32 \<Rightarrow> u32 \<Rightarrow> bool" where
  "message_fits n sp \<longleftrightarrow> n \<noteq> 0 \<and> unat n + 4 \<le> unat sp"

definition message_count :: "u32 \<Rightarrow> u32 \<Rightarrow> u32" where
  "message_count n sp = (if message_fits n sp then n else 0)"

definition as_message :: "u8 list \<Rightarrow> u8 list list" where
  "as_message bs = (if bs = [] then [] else [bs])"

definition messages_size :: "u8 list list \<Rightarrow> nat" where
  "messages_size ms = sum_list (map (\<lambda>m. length m + 4) ms)"

fun messages_taken :: "u32 \<Rightarrow> u8 list list \<Rightarrow> nat" where
  "messages_taken len [] = 0"
| "messages_taken len (m # ms) = (if length m \<le> unat len then 1 else 0)"

lemma holds_messages_size: "holds_messages b ms \<Longrightarrow> used b = messages_size ms"
  by (simp add: holds_messages_def messages_size_def length_concat o_def flip: stored_length)

lemma messages_size_drop: "messages_size (drop j ms) \<le> messages_size ms"
  by (induction ms arbitrary: j) (auto simp: messages_size_def drop_Cons split: nat.split intro: le_add2 order_trans)

lemma messages_taken_le: "messages_taken len ms \<le> length ms"
  by (cases ms) simp_all

lemma as_message_nothing: "as_message [] = []"
  by (simp add: as_message_def)

lemma as_message_taken:
  "holds_messages b ms \<Longrightarrow> as_message (concat (take (messages_taken len ms) ms)) = take (messages_taken len ms) ms"
  by (cases ms) (simp_all add: as_message_def holds_messages_def)

lemma write_message_law:
  assumes b: "stream_ok b" "is_message_buffer b" "holds_messages b ms" "unat sp \<le> room b"
    and req: "is_message_buffer c" "request_ok n req c"
  shows "\<exists>b'. prvWriteMessageToBuffer p n sp req b = Some (message_count n sp, b') \<and> stream_ok b' \<and> only_sent b b' \<and>
    holds_messages b' (ms @ as_message (bytes_from p 0 (message_count n sp)))"
proof -
  have r: "req = n + 4" "n + 4 > n" using req by (auto simp: request_ok_def bytes_required_def)
  have r4: "unat (n + 4) = unat n + 4"
  proof -
    have "unat n < unat (n + 4)" using r(2) by (simp add: word_less_nat_alt)
    then show ?thesis by (simp add: unat_plus_if' split: if_splits)
  qed
  show ?thesis
  proof (cases "message_fits n sp")
    case True
    then have n: "n \<noteq> 0" "unat n + 4 \<le> unat sp" by (simp_all add: message_fits_def)
    have "bytes_from p 0 n \<noteq> []" using n(1) by (simp add: bytes_from_def unat_eq_zero)
    with write_message_run [OF b(1-3) n b(4), of p] True show ?thesis
      by (simp add: r(1) message_count_def as_message_def)
  next
    case False
    then have "n = 0 \<or> sp < req" using r4 by (auto simp: message_fits_def r(1) word_less_nat_alt)
    from write_no_message [OF b(1,2,4) this, of p] r(1) b(3) False show ?thesis
      by (auto simp: message_count_def as_message_def bytes_from_def holds_messages_def)
  qed
qed

lemma read_message_law:
  assumes b: "stream_ok b" "is_message_buffer b" "holds_messages b (ms @ ns)"
    and av: "unat avail = messages_size ms" "messages_size ms > 0"
  shows "\<exists>b'. prvReadMessageFromBuffer len avail b = Some (concat (take (messages_taken len ms) ms), b') \<and> stream_ok b' \<and>
    only_taken b b' \<and> holds_messages b' (drop (messages_taken len ms) ms @ ns)"
proof (cases ms)
  case Nil
  then show ?thesis using av(2) by (simp add: messages_size_def)
next
  case (Cons m rest)
  then have "length m + 4 \<le> unat avail" using av(1) by (simp add: messages_size_def)
  with read_message_run [OF b(1,2), of m "rest @ ns" avail len] b(3) Cons show ?thesis by auto
qed

interpretation messages: channel is_message_buffer holds_messages messages_size message_count as_message
  messages_taken concat
proof unfold_locales
  show "is_message_buffer b' = is_message_buffer b" if "ucFlags b' = ucFlags b" for b b'
    using that by (simp add: is_message_buffer_def)
qed (simp_all add: holds_messages_size messages_size_drop messages_taken_le as_message_taken write_message_law
    read_message_law as_message_nothing)

end
