(* ===== verification/Rtos_Stream_Properties.thy ===== *)
theory Rtos_Stream_Properties
  imports Rtos_Stream_Contracts Rtos_Kernel
begin

text \<open>
  The properties of the stream and message buffers, and of the notifications they rest on.
\<close>

section \<open>A reader that waits\<close>

lemma clear_run:
  assumes "pxCurrentTCB s \<noteq> 0"
  obtains r n where "xTaskGenericNotifyStateClear 0 0 s =
      Some (r, set_notified (pxCurrentTCB s) (ulNotifiedValue s (pxCurrentTCB s)) n s)" "n \<noteq> taskNOTIFICATION_RECEIVED"
proof (cases "ucNotifyState s (pxCurrentTCB s) = taskNOTIFICATION_RECEIVED")
  case True
  with assms that [of True taskNOT_WAITING_NOTIFICATION] show ?thesis
    by (simp add: xTaskGenericNotifyStateClear_def prvGetTCBFromHandle_def Let_def set_notified_def)
next
  case False
  with assms that [of False "ucNotifyState s (pxCurrentTCB s)"] show ?thesis
    by (simp add: xTaskGenericNotifyStateClear_def prvGetTCBFromHandle_def Let_def set_notified_def)
qed

text \<open>The calling task runs again, with whatever state its notification is in, and takes itself off the buffer.\<close>

definition reader_returns :: "sb_world \<Rightarrow> sb_world" where
  "reader_returns u =
     (let t = pxCurrentTCB (os u)
      in u\<lparr>os := set_notified t (ulNotifiedValue (os u) t) taskNOT_WAITING_NOTIFICATION (os u),
           obj := (obj u)\<lparr>xTaskWaitingToReceive := 0\<rparr>\<rparr>)"

definition reader_waits :: "nat set \<Rightarrow> nat \<Rightarrow> u32 \<Rightarrow> sb_world \<Rightarrow> sb_world \<Rightarrow> bool" where
  "reader_waits E i ticks w v \<longleftrightarrow>
     (let t = pxCurrentTCB (os w)
      in obj v = (obj w)\<lparr>xTaskWaitingToReceive := t\<rparr> \<and> steady E i (os v) \<and> yield_requested (os v) \<and>
         uxSchedulerSuspended (os v) = 0 \<and> pxCurrentTCB (os v) = t \<and> awaits_notification (os v) t \<and>
         remaining (os v) t = (if ticks = portMAX_DELAY then None else Some (unat ticks)) \<and> now (os v) = now (os w) \<and>
         uxPriority (os v) = uxPriority (os w) \<and>
         (\<forall>x. x \<noteq> state_item t \<longrightarrow> at (os v) x = at (os w) x))"

lemma receive_blocks:
  assumes ok: "caller_ok E i w" and cur: "pxCurrentTCB (os w) \<noteq> i" "pxCurrentTCB (os w) \<noteq> 0" and n: "ticks \<noteq> 0"
    and few: "prvBytesInBuffer (obj w) \<le> receive_threshold (obj w)" and free: "xTaskWaitingToReceive (obj w) = 0"
    and quiet: "\<And>v. \<not> yield_requested (os v) \<Longrightarrow> rest_of_program P v = Some v" "\<And>v. handlers P v = Some v"
  shows "\<exists>v. reader_waits E i ticks w v \<and>
    (\<forall>u. rest_of_program P v = Some u \<and> same_config (obj w) (obj u) \<longrightarrow>
       xStreamBufferReceive P True len ticks w = xStreamBufferReceive P True len 0 (reader_returns u))"
proof -
  let ?t = "pxCurrentTCB (os w)"
  note c = ok [unfolded caller_ok_def]
  have i0: "uxNotificationIndex (obj w) = 0" using c stream_okD(8) by simp
  from clear_run [OF cur(2)] obtain r m where clear: "xTaskGenericNotifyStateClear 0 0 (os w) =
      Some (r, set_notified ?t (ulNotifiedValue (os w) ?t) m (os w))" "m \<noteq> taskNOTIFICATION_RECEIVED" .
  define s0 where "s0 = set_notified ?t (ulNotifiedValue (os w) ?t) m (os w)"
  define w0 where "w0 = w\<lparr>os := s0, obj := (obj w)\<lparr>xTaskWaitingToReceive := ?t\<rparr>\<rparr>"
  have await: "await_data w = Some w0"
    using clear(1) i0 free by (simp add: await_data_def s0_def w0_def)
  have f: "steady E i (os w0)" "uxSchedulerSuspended (os w0) = 0" "\<not> yield_requested (os w0)" "pxCurrentTCB (os w0) = ?t"
    "uxNotificationIndex (obj w0) = 0" "ucNotifyState (os w0) ?t = m"
    using c i0 by (simp_all add: w0_def s0_def)
  have none: "\<not> notification_waiting (pxCurrentTCB (os w0)) (vTaskSuspendAll (os w0))"
    "\<not> notification_waiting (pxCurrentTCB (os w0)) (os w0)"
    using clear(2) f(4,6) by (simp_all add: notification_waiting_def)
  have cur0: "pxCurrentTCB (os w0) \<noteq> i" using cur(1) f(4) by simp
  from notify_block_run [where go_on = notification_waiting and b = 0, OF f(1-3) cur0 n none(1) quiet(1) [OF f(3)] quiet(2)] obtain s' where
    b: "notify_block P notification_waiting 0 ticks w0 = rest_of_program P (w0\<lparr>os := s'\<rparr>)" "steady E i s'"
      "yield_requested s'" "uxSchedulerSuspended s' = 0" "awaits_notification s' ?t"
      "at s' = (at (os w0))(state_item ?t := Some (blocked_list ticks True (os w0)))" "now s' = now (os w0)"
      "uxPriority s' = uxPriority (os w0)" "pxCurrentTCB s' = ?t"
      "remaining s' = (remaining (os w0))(?t := (if ticks = portMAX_DELAY then None else Some (unat ticks)))"
    unfolding f(4) by blast
  define v where "v = w0\<lparr>os := s'\<rparr>"
  have "reader_waits E i ticks w v"
    using b by (simp add: reader_waits_def v_def w0_def s0_def Let_def)
  moreover have "xStreamBufferReceive P True len ticks w = xStreamBufferReceive P True len 0 (reader_returns u)"
    if u: "rest_of_program P v = Some u" "same_config (obj w) (obj u)" for u
  proof -
    have nw: "xTaskGenericNotifyWait P 0 0 0 ticks w0 = Some (case notify_wait_exit 0 (os u) of (x, y, s) \<Rightarrow> (x, y, u\<lparr>os := s\<rparr>))"
      using n none(2) u(1) b(1) by (simp add: xTaskGenericNotifyWait_def v_def word_gt_0 Let_def split: prod.split)
    have ex: "snd (snd (notify_wait_exit 0 (os u))) =
        set_notified (pxCurrentTCB (os u)) (ulNotifiedValue (os u) (pxCurrentTCB (os u))) taskNOT_WAITING_NOTIFICATION (os u)"
      by (simp add: notify_wait_exit_def Let_def)
    have th: "receive_threshold (obj (reader_returns u)) = receive_threshold (obj w)"
      using u(2) by (simp add: same_config_def receive_threshold_def is_message_buffer_def is_batching_buffer_def
          reader_returns_def Let_def)
    have "on_obj (\<lambda>b. b\<lparr>xTaskWaitingToReceive := 0\<rparr>) (u\<lparr>os := snd (snd (notify_wait_exit 0 (os u)))\<rparr>) = reader_returns u"
      by (simp add: on_obj_def reader_returns_def ex Let_def)
    then show ?thesis using n few await nw f(5) th
      by (simp add: xStreamBufferReceive_def Let_def case_prod_beta)
  qed
  ultimately show ?thesis by blast
qed

section \<open>Creation\<close>

lemma fresh_stream:
  fixes n trig :: u32 and f :: u8
  assumes "0 < unat n" "unat n < 8192" "trig \<le> n" "unat m = unat n + 1"
  defines "b \<equiv> prvInitialiseNewStreamBuffer m (if trig = 0 then 1 else trig) f"
  shows "stream_ok b" "stored b = []" "room b = unat n" "xTaskWaitingToReceive b = 0" "xTaskWaitingToSend b = 0"
    "xTriggerLevelBytes b = (if trig = 0 then 1 else trig)"
proof -
  have "0 < m" using assms(4) by (simp add: word_less_nat_alt)
  moreover have "unat trig \<le> unat n" using assms(3) by (simp add: word_le_nat_alt)
  ultimately show "stream_ok b" using assms(1,2,4)
    by (auto simp: stream_ok_def b_def prvInitialiseNewStreamBuffer_def unat_gt_0)
  show "stored b = []" "room b = unat n" "xTaskWaitingToReceive b = 0" "xTaskWaitingToSend b = 0"
    "xTriggerLevelBytes b = (if trig = 0 then 1 else trig)"
    using assms(4)
    by (simp_all add: b_def prvInitialiseNewStreamBuffer_def stored_def used_def room_def ring_load_def)
qed

text \<open>
  What creating a stream or message buffer comes to. Sizes and trigger levels that do not fit fail an
  assertion; otherwise the result is NULL exactly if the structure with one byte more than asked for does not fit
  into the heap, and a buffer that is created is of the kind asked for, empty, has room for all the bytes asked for,
  and nobody waits on it.
\<close>
theorem create_stream_outcome:
  assumes "heap_inv ucHeap h"
  shows "if n \<le> (if ty = sbTYPE_MESSAGE_BUFFER then 4 else 0) \<or> n < trig then xStreamBufferGenericCreate ucHeap n trig ty h = None
    else \<exists>p b h'. xStreamBufferGenericCreate ucHeap n trig ty h = Some (p, b, h') \<and> heap_inv ucHeap h' \<and> (b = None \<longleftrightarrow> p = 0) \<and>
      (p = 0 \<longleftrightarrow> 8184 \<le> unat (xNextFreeByte h) + (unat n + 44) div 8 * 8) \<and>
      (\<forall>x. b = Some x \<longrightarrow> stream_ok x \<and> stored x = [] \<and> room x = unat n \<and>
         xTriggerLevelBytes x = (if trig = 0 then 1 else trig) \<and> xTaskWaitingToReceive x = 0 \<and> xTaskWaitingToSend x = 0 \<and>
         (is_message_buffer x \<longleftrightarrow> ty = sbTYPE_MESSAGE_BUFFER) \<and> (is_batching_buffer x \<longleftrightarrow> ty = sbTYPE_STREAM_BATCHING_BUFFER))"
proof (cases "n \<le> (if ty = sbTYPE_MESSAGE_BUFFER then 4 else 0) \<or> n < trig")
  case True
  then show ?thesis by (auto simp: xStreamBufferGenericCreate_def Let_def not_less not_le)
next
  case False
  define f where "f = (case ty of sbTYPE_MESSAGE_BUFFER \<Rightarrow> 1 | sbTYPE_STREAM_BATCHING_BUFFER \<Rightarrow> 4 | sbTYPE_STREAM_BUFFER \<Rightarrow> (0 :: u8))"
  define b where "b = prvInitialiseNewStreamBuffer (n + 1) (if trig = 0 then 1 else trig) f"
  have n: "0 < unat n" "trig \<le> n" using False by (auto simp: not_less unat_gt_0 split: if_splits)
  have enough: "if ty = sbTYPE_MESSAGE_BUFFER then n > 4 else n > 0" using False by (auto simp: not_le)
  have kinds: "is_message_buffer b \<longleftrightarrow> ty = sbTYPE_MESSAGE_BUFFER" "is_batching_buffer b \<longleftrightarrow> ty = sbTYPE_STREAM_BATCHING_BUFFER"
    by (cases ty; simp add: is_message_buffer_def is_batching_buffer_def b_def f_def prvInitialiseNewStreamBuffer_def)+
  have e: "xStreamBufferGenericCreate ucHeap n trig ty h =
      (if n < n + 1 + 36 then let (p, h) = pvPortMalloc ucHeap (n + 1 + 36) h in Some (p, if p \<noteq> 0 then Some b else None, h)
       else Some (0, None, h))"
    using enough n(2) by (simp add: xStreamBufferGenericCreate_def Let_def case_prod_beta f_def [symmetric] b_def cong: if_cong)
  show ?thesis
  proof (cases "unat n + 37 < 2 ^ 32")
    case wrap: False
    have "(37 + unat n) mod 4294967296 = 37 + unat n - 4294967296"
      using wrap u32_bound [of n] by (simp add: le_mod_geq)
    with u32_bound [of n] have "\<not> n < n + 1 + 36" by (simp add: word_less_nat_alt unat_word_ariths)
    with e have "xStreamBufferGenericCreate ucHeap n trig ty h = Some (0, None, h)" by simp
    with False wrap assms show ?thesis by simp
  next
    case small: True
    then have s: "unat (n + 1 + 36) = unat n + 37" "unat (n + 1) = unat n + 1"
      by (simp_all add: unat_plus_if')
    then have lt: "n < n + 1 + 36" by (simp add: word_less_nat_alt)
    obtain p h' where m: "pvPortMalloc ucHeap (n + 1 + 36) h = (p, h')" by fastforce
    with e lt have r: "xStreamBufferGenericCreate ucHeap n trig ty h = Some (p, if p \<noteq> 0 then Some b else None, h')" by simp
    have inv: "heap_inv ucHeap h'" using pvPortMalloc_step [OF assms m] by simp
    have rd: "rounded (n + 1 + 36) = (let k = (unat n + 44) div 8 * 8 in if k < 2 ^ 32 then k else 0)"
      unfolding rounded_def s(1) by (simp add: add.commute)
    have p0: "p \<noteq> 0 \<longleftrightarrow> 0 < rounded (n + 1 + 36) \<and> unat (xNextFreeByte h) + rounded (n + 1 + 36) < 8184"
    proof -
      have "aligned_base ucHeap + xNextFreeByte h \<noteq> 0" if "unat (xNextFreeByte h) < 8184"
      proof -
        have hb: "0 < unat ucHeap" "unat ucHeap + 8192 \<le> 2 ^ 32" using assms by (simp_all add: heap_inv_def)
        note a = aligned_base_range [OF hb]
        have "unat (aligned_base ucHeap + xNextFreeByte h) = unat (aligned_base ucHeap) + unat (xNextFreeByte h)"
          using a(2) hb(2) that by (simp add: unat_plus_if')
        then show ?thesis using a(1) hb(1) by auto
      qed
      with m assms show ?thesis unfolding pvPortMalloc_spec [OF assms] by (auto simp: heap_inv_def split: if_splits)
    qed
    have pos: "0 < (unat n + 44) div 8 * 8" by simp
    have p1: "p = 0 \<longleftrightarrow> 8184 \<le> unat (xNextFreeByte h) + (unat n + 44) div 8 * 8"
      using p0 pos unfolding rd Let_def by (cases "(unat n + 44) div 8 * 8 < 2 ^ 32") auto
    have "unat n < 8192" if "p \<noteq> 0"
    proof -
      have "(unat n + 44) div 8 * 8 < 8184" using that p1 by simp
      then show ?thesis by linarith
    qed
    note fr = fresh_stream [OF n(1) this n(2) s(2), of f, folded b_def]
    show ?thesis using False inv p1 r kinds fr by auto
  qed
qed

theorem create_stream_outcome_witness:
  "\<exists>p x h'. xStreamBufferGenericCreate 0xA0000000 10 3 sbTYPE_STREAM_BATCHING_BUFFER \<lparr>pucAlignedHeap = 0, xNextFreeByte = 0\<rparr> =
     Some (p, Some x, h') \<and> stored x = [] \<and> room x = 10 \<and> is_batching_buffer x"
proof -
  let ?h = "\<lparr>pucAlignedHeap = 0, xNextFreeByte = 0\<rparr> :: heap_1"
  have "heap_inv 0xA0000000 ?h" by (simp add: heap_inv_def)
  from create_stream_outcome [OF this, of 10 sbTYPE_STREAM_BATCHING_BUFFER 3] obtain p b h' where
    r: "xStreamBufferGenericCreate 0xA0000000 10 3 sbTYPE_STREAM_BATCHING_BUFFER ?h = Some (p, b, h')" "b = None \<longleftrightarrow> p = 0"
      "p \<noteq> 0" "\<forall>x. b = Some x \<longrightarrow> stored x = [] \<and> room x = 10 \<and> is_batching_buffer x" by auto
  then obtain x where "b = Some x" by auto
  with r show ?thesis by auto
qed

section \<open>In order\<close>

text \<open>
  C7: Streams deliver every byte once and in order. After any sequence of sends and receives, of tasks and of
  interrupts, that return before the next call is made, with anything happening to the scheduler in between, the bytes
  stored at first and the bytes accepted since are the bytes received followed by the bytes that are stored still.
\<close>
theorem stream_in_order:
  assumes "talk E i w l u" "stream_ok (obj w)" "\<not> is_message_buffer (obj w)"
  shows "stored (obj w) @ concat (sent_of l) = concat (got_of l) @ stored (obj u) \<and> stream_ok (obj u)"
  using stream.talk_in_order [OF assms(1), of "stored (obj w)"] assms(2,3)
  by (auto simp: stream.in_use_def plain_stream_def holds_bytes_def)

text \<open>
  C8: Message buffers deliver messages whole and in order. After any sequence of calls, a message accepted is
  received exactly as it was sent, once and in its turn, and a message too long for the space left or for the memory of
  the receiver is not accepted or not taken at all.
\<close>
theorem messages_arrive_whole:
  assumes "talk E i w l u" "stream_ok (obj w)" "is_message_buffer (obj w)" "holds_messages (obj w) ms"
  shows "\<exists>ns. holds_messages (obj u) ns \<and> stream_ok (obj u) \<and>
    ms @ filter (\<lambda>m. m \<noteq> []) (sent_of l) = filter (\<lambda>m. m \<noteq> []) (got_of l) @ ns"
proof -
  have f: "concat (map as_message ms) = filter (\<lambda>m. m \<noteq> []) ms" for ms
    by (induction ms) (simp_all add: as_message_def)
  from messages.talk_in_order [OF assms(1), of ms] assms(2-4) show ?thesis
    by (auto simp: messages.in_use_def f)
qed

text \<open>In the witnesses a handler sends three bytes to a new buffer while the tasks of main.c run, and receives them.\<close>

definition new_stream :: "u8 \<Rightarrow> sched \<Rightarrow> sb_world" where
  "new_stream f s = \<lparr>os = s, obj = prvInitialiseNewStreamBuffer 11 1 f\<rparr>"

lemma new_stream_fields:
  "stream_ok (obj (new_stream f s))" "stored (obj (new_stream f s)) = []" "room (obj (new_stream f s)) = 10"
  "xTaskWaitingToReceive (obj (new_stream f s)) = 0" "xTaskWaitingToSend (obj (new_stream f s)) = 0"
  "xTriggerLevelBytes (obj (new_stream f s)) = 1" "os (new_stream f s) = s"
  "is_message_buffer (obj (new_stream f s)) \<longleftrightarrow> f AND 1 \<noteq> 0" "holds_messages (obj (new_stream f s)) []"
  "used (obj (new_stream f s)) = 0" "is_batching_buffer (obj (new_stream f s)) \<longleftrightarrow> f AND 4 \<noteq> 0"
proof -
  have "unat (11 :: u32) = unat (10 :: u32) + 1" by simp
  note fr = fresh_stream [OF _ _ _ this, of 1 f]
  show "stream_ok (obj (new_stream f s))" "stored (obj (new_stream f s)) = []" "room (obj (new_stream f s)) = 10"
    "xTaskWaitingToReceive (obj (new_stream f s)) = 0" "xTaskWaitingToSend (obj (new_stream f s)) = 0"
    "xTriggerLevelBytes (obj (new_stream f s)) = 1" using fr by (simp_all add: new_stream_def)
  then show "holds_messages (obj (new_stream f s)) []" "used (obj (new_stream f s)) = 0"
    by (simp_all add: holds_messages_def flip: stored_length)
qed (simp_all add: new_stream_def is_message_buffer_def is_batching_buffer_def prvInitialiseNewStreamBuffer_def)

lemma main_stream:
  obtains t u i h s where "main_state = Some ([t, u], i, h, s)" "\<And>f. caller_ok {} i (new_stream f s)"
    "\<And>f. isr_ok {} i (new_stream f s)" "pxCurrentTCB s = u" "u \<noteq> i" "u \<noteq> 0" "\<not> yield_requested s" "t \<noteq> 0" "t \<noteq> u"
    "t \<noteq> i" "ready s t" "ready s u" "ready s i" "\<And>x. ready s x \<Longrightarrow> x \<in> {t, u, i}" "uxPriority s t = 1" "uxPriority s u = 2"
    "uxPriority s i = 0" "reachable i {} s" "uxSchedulerSuspended s = 0"
proof -
  obtain t u i h s where m: "main_state = Some ([t, u], i, h, s)" "reachable i {} s" "started_with t u i s"
    by (rule main_reachable)
  have "steady {} i s" by (rule reachable_steady [OF m(2)])
  then have "caller_ok {} i (new_stream f s)" "isr_ok {} i (new_stream f s)" for f
    using m(3) by (simp_all add: caller_ok_def isr_ok_def new_stream_fields started_with_def)
  from that [OF m(1) this] m(2,3) show ?thesis unfolding started_with_def by auto
qed

theorem stream_in_order_witness:
  "\<exists>t u i h s l v. main_state = Some ([t, u], i, h, s) \<and> talk {} i (new_stream 0 s) l v \<and> sent_of l = [[7, 8, 9]] \<and>
     concat (got_of l) @ stored (obj v) = [7, 8, 9]"
proof -
  obtain t u i h s where m: "main_state = Some ([t, u], i, h, s)" "isr_ok {} i (new_stream 0 s)" by (rule main_stream) blast
  define p :: bytes_at where "p = (\<lambda>j. [7, 8, 9] ! j)"
  note f = new_stream_fields [of 0 s]
  have use: "stream.in_use (obj (new_stream 0 s)) []"
    using f by (simp add: stream.in_use_def plain_stream_def holds_bytes_def)
  have rq: "request_ok 3 (bytes_required 3 (obj (new_stream 0 s))) (obj (new_stream 0 s))" using f(8) by (simp add: request_ok_def)
  have "unat (xStreamBufferSpacesAvailable (obj (new_stream 0 s))) = 10" using spaces_available [OF f(1)] f(3) by simp
  then have k: "min 3 (xStreamBufferSpacesAvailable (obj (new_stream 0 s))) = 3" by (simp add: min_def word_le_nat_alt)
  have b: "bytes_from p 0 3 = [7, 8, 9]" by (simp add: bytes_from_def p_def upt_rec)
  from stream.send_isr_step [OF m(2) use rq, of p] obtain woken v where
    v: "xStreamBufferSendFromISR (Some p) 3 (new_stream 0 s) = Some (3, woken, v)" "stream.in_use (obj v) [7, 8, 9]"
    unfolding k b by auto
  have 1: "talk {} i (new_stream 0 s) [Sent [7, 8, 9]] v"
    using talk.send_from_isr [OF talk.start m(2) rq v(1)] by (simp add: b)
  define v' where "v' = v\<lparr>os := s, obj := (obj v)\<lparr>xTaskWaitingToReceive := 0, xTaskWaitingToSend := 0\<rparr>\<rparr>"
  have same: "same_bytes (obj v) (obj v')" by (auto simp: same_bytes_def v'_def)
  have "isr_ok {} i v'" "stream.in_use (obj v') [7, 8, 9]"
    using m(2) v(2) stream.in_use_same [OF same] by (simp_all add: isr_ok_def v'_def stream.in_use_def new_stream_fields)
  from stream.receive_isr_step [OF this, of 2] obtain bytes woken' u' where
    "xStreamBufferReceiveFromISR True 2 v' = Some (bytes, woken', u')" by blast
  from talk.receive_from_isr [OF talk.meanwhile [OF 1 same] \<open>isr_ok {} i v'\<close> this]
  have t: "talk {} i (new_stream 0 s) [Sent [7, 8, 9], Got bytes] u'" by simp
  have "\<not> is_message_buffer (obj (new_stream 0 s))" using f(8) by simp
  from stream_in_order [OF t f(1) this] f(2) m(1) t show ?thesis
    by (intro exI [of _ t] exI [of _ u] exI [of _ i] exI [of _ h] exI [of _ s] exI [of _ "[Sent [7, 8, 9], Got bytes]"]
        exI [of _ u']) simp
qed

theorem messages_arrive_whole_witness:
  "\<exists>t u i h s l v ns. main_state = Some ([t, u], i, h, s) \<and> talk {} i (new_stream 1 s) l v \<and> sent_of l = [[7, 8, 9]] \<and>
     holds_messages (obj v) ns \<and> ns = [[7, 8, 9]]"
proof -
  obtain t u i h s where m: "main_state = Some ([t, u], i, h, s)" "isr_ok {} i (new_stream 1 s)" by (rule main_stream) blast
  define p :: bytes_at where "p = (\<lambda>j. [7, 8, 9] ! j)"
  note f = new_stream_fields [of 1 s]
  have use: "messages.in_use (obj (new_stream 1 s)) []" using f by (simp add: messages.in_use_def)
  have rq: "request_ok 3 (bytes_required 3 (obj (new_stream 1 s))) (obj (new_stream 1 s))"
    by (simp add: request_ok_def bytes_required_def)
  have "unat (xStreamBufferSpacesAvailable (obj (new_stream 1 s))) = 10" using spaces_available [OF f(1)] f(3) by simp
  then have k: "message_count 3 (xStreamBufferSpacesAvailable (obj (new_stream 1 s))) = 3"
    by (simp add: message_count_def message_fits_def)
  have b: "bytes_from p 0 3 = [7, 8, 9]" by (simp add: bytes_from_def p_def upt_rec)
  from messages.send_isr_step [OF m(2) use rq, of p] obtain woken v where
    v: "xStreamBufferSendFromISR (Some p) 3 (new_stream 1 s) = Some (3, woken, v)" unfolding k b by auto
  have t: "talk {} i (new_stream 1 s) [Sent [7, 8, 9]] v"
    using talk.send_from_isr [OF talk.start m(2) rq v(1)] by (simp add: b)
  have "is_message_buffer (obj (new_stream 1 s))" using f(8) by simp
  from messages_arrive_whole [OF t f(1) this f(9)] have "holds_messages (obj v) [[7, 8, 9]]" by auto
  with m(1) t show ?thesis
    by (intro exI [of _ t] exI [of _ u] exI [of _ i] exI [of _ h] exI [of _ s] exI [of _ "[Sent [7, 8, 9]]"]
        exI [of _ v] exI [of _ "[[7, 8, 9]]"]) simp
qed

section \<open>Without a lock\<close>


lemma request_now:
  "\<not> is_message_buffer b \<Longrightarrow> \<exists>req. send_request n 0 b = Some (req, 0)"
  "is_message_buffer b \<Longrightarrow> unat n + 4 < 2 ^ 32 \<Longrightarrow> \<exists>req. send_request n 0 b = Some (req, 0)"
  by (auto simp: send_request_def bytes_required_def word_less_nat_alt unat_plus_if' Let_def)




definition nothing_else :: "'b surroundings" where
  "nothing_else = \<lparr>rest_of_program = Some, handlers = Some\<rparr>"







section \<open>Waiting and waking\<close>

text \<open>
  A reader waits without using the processor. A receive that finds too little and may wait leaves its handle in the
  buffer, takes the calling task off the ready lists for the ticks asked for, or for good, and requests a context switch; no
  other task is moved. When the task runs again, whatever made it run, the receive goes on as one that may not wait.
\<close>
theorem reader_waits_for_send:
  assumes "caller_ok E i w" "pxCurrentTCB (os w) \<noteq> i" "pxCurrentTCB (os w) \<noteq> 0" "ticks \<noteq> 0"
    and "used (obj w) \<le> unat (receive_threshold (obj w))" "xTaskWaitingToReceive (obj w) = 0"
    and "\<And>v. \<not> yield_requested (os v) \<Longrightarrow> rest_of_program P v = Some v" "\<And>v. handlers P v = Some v"
  shows "\<exists>v. reader_waits E i ticks w v \<and>
    (\<forall>u. rest_of_program P v = Some u \<and> same_config (obj w) (obj u) \<longrightarrow>
       xStreamBufferReceive P True len ticks w = xStreamBufferReceive P True len 0 (reader_returns u))"
proof -
  have "stream_ok (obj w)" using assms(1) by (simp add: caller_ok_def)
  from bytes_in_buffer [OF this] have "prvBytesInBuffer (obj w) \<le> receive_threshold (obj w)"
    using assms(5) by (simp add: word_le_nat_alt)
  from receive_blocks [OF assms(1-4) this assms(6-8), of len] show ?thesis .
qed

theorem reader_waits_for_send_witness:
  "\<exists>t u i h s v. main_state = Some ([t, u], i, h, s) \<and> reader_waits {} i 50 (new_stream 0 s) v \<and>
     remaining (os v) u = Some 50 \<and>
     xStreamBufferReceive nothing_else True 8 50 (new_stream 0 s) = xStreamBufferReceive nothing_else True 8 0 (reader_returns v)"
proof -
  obtain t u i h s where m: "main_state = Some ([t, u], i, h, s)" "caller_ok {} i (new_stream 0 s)" "pxCurrentTCB s = u"
    "u \<noteq> i" "u \<noteq> 0" by (rule main_stream) blast
  note f = new_stream_fields [of 0 s]
  have a: "pxCurrentTCB (os (new_stream 0 s)) \<noteq> i" "pxCurrentTCB (os (new_stream 0 s)) \<noteq> 0" "(50 :: u32) \<noteq> 0"
    "used (obj (new_stream 0 s)) \<le> unat (receive_threshold (obj (new_stream 0 s)))" using m f by simp_all
  have q: "rest_of_program nothing_else v = Some v" "handlers nothing_else v = Some v" for v :: sb_world
    by (simp_all add: nothing_else_def)
  from reader_waits_for_send [OF m(2) a f(4) q, of 8] obtain v where v: "reader_waits {} i 50 (new_stream 0 s) v"
    "\<forall>x. rest_of_program nothing_else v = Some x \<and> same_config (obj (new_stream 0 s)) (obj x) \<longrightarrow>
       xStreamBufferReceive nothing_else True 8 50 (new_stream 0 s) = xStreamBufferReceive nothing_else True 8 0 (reader_returns x)"
    by blast
  from v(1) have r: "remaining (os v) u = Some 50" "same_config (obj (new_stream 0 s)) (obj v)"
    by (simp_all add: reader_waits_def Let_def f(7) m(3) same_config_def)
  with v q(1) m(1) show ?thesis by blast
qed

text \<open>The second task of main waits as a reader, with the buffer of kind \<open>f\<close>, and the first one runs.\<close>

lemma switch_notify: "vPortYieldISR s = Some s' \<Longrightarrow> ucNotifyState s' = ucNotifyState s"
  by (auto simp: vPortYieldISR_def vTaskSwitchContext_def taskSELECT_HIGHEST_PRIORITY_TASK_def Let_def
      split: if_splits prod.splits)

lemma main_waiting_reader:
  assumes f: "f AND 1 = 0" and trig: "0 < unat c" "unat c < 11"
  obtains t u i h s k where "main_state = Some ([t, u], i, h, s)"
    "caller_ok {} i \<lparr>os = k, obj = (obj (new_stream f s))\<lparr>xTaskWaitingToReceive := u, xTriggerLevelBytes := c\<rparr>\<rparr>"
    "awaits_notification k u" "u \<noteq> 0" "pxCurrentTCB k = t" "uxPriority k t < uxPriority k u"
proof -
  obtain t u i h s where m: "main_state = Some ([t, u], i, h, s)" "caller_ok {} i (new_stream f s)" "pxCurrentTCB s = u"
    "u \<noteq> i" "u \<noteq> 0" "t \<noteq> u" "t \<noteq> i" "ready s t" "ready s i" "\<And>x. ready s x \<Longrightarrow> x \<in> {t, u, i}" "uxPriority s t = 1"
    "uxPriority s u = 2" "uxPriority s i = 0" by (rule main_stream) blast
  note fs = new_stream_fields [of f s]
  have "prvBytesInBuffer (obj (new_stream f s)) \<le> receive_threshold (obj (new_stream f s))"
    using bytes_in_buffer [OF fs(1)] fs(10) by (simp add: word_le_nat_alt)
  moreover have "rest_of_program nothing_else v = Some v" "handlers nothing_else v = Some v" for v :: sb_world
    by (simp_all add: nothing_else_def)
  moreover have "pxCurrentTCB (os (new_stream f s)) \<noteq> i" "pxCurrentTCB (os (new_stream f s)) \<noteq> 0" using m fs by simp_all
  moreover have "(50 :: u32) \<noteq> 0" by simp
  ultimately obtain v where v: "reader_waits {} i 50 (new_stream f s) v"
    using receive_blocks [OF m(2), of 50 nothing_else 8] fs(4) by blast
  then have w: "steady {} i (os v)" "uxSchedulerSuspended (os v) = 0" "awaits_notification (os v) u"
    "uxPriority (os v) = uxPriority s" "\<And>x. x \<noteq> state_item u \<Longrightarrow> at (os v) x = at s x"
    by (simp_all add: reader_waits_def Let_def fs(7) m(3))
  from switch_steady [OF w(1,2)] obtain k where k: "vPortYieldISR (os v) = Some k" "steady {} i k" "top_ready k (pxCurrentTCB k)"
    "at k = at (os v)" "\<not> yield_requested k" "uxSchedulerSuspended k = 0" "uxPriority k = uxPriority (os v)" by blast
  have aw: "awaits_notification k u" using w(3) switch_notify [OF k(1)] k(4) by (simp add: awaits_notification_def)
  have pr: "uxPriority k = uxPriority s" by (simp add: k(7) w(4))
  have st: "state_item x = state_item u \<longleftrightarrow> x = u" for x by (simp add: state_item_def)
  have rd: "ready k x \<longleftrightarrow> x \<in> {t, i}" for x
  proof (cases "x = u")
    case True
    then show ?thesis using aw m(4,6) by (auto simp: ready_def awaits_notification_def)
  next
    case False
    then have "ready k x = ready s x" using w(5) [of "state_item x"] by (simp add: ready_def k(4) st)
    with False m(8-10) show ?thesis by auto
  qed
  have cur: "pxCurrentTCB k = t"
  proof -
    from k(3) rd have "pxCurrentTCB k \<in> {t, i}" "uxPriority k t \<le> uxPriority k (pxCurrentTCB k)"
      by (auto simp: top_ready_def)
    then show ?thesis using m(11,13) by (auto simp: pr)
  qed
  have n: "notifiable k u" using aw m(5) by (auto simp: notifiable_def awaits_notification_def)
  have so: "stream_ok ((obj (new_stream f s))\<lparr>xTaskWaitingToReceive := u, xTriggerLevelBytes := c\<rparr>)"
    using fs(1) trig by (simp add: stream_ok_def new_stream_def prvInitialiseNewStreamBuffer_def)
  have "caller_ok {} i \<lparr>os = k, obj = (obj (new_stream f s))\<lparr>xTaskWaitingToReceive := u, xTriggerLevelBytes := c\<rparr>\<rparr>"
    using k(2,5,6) n so fs(5) by (simp add: caller_ok_def)
  moreover have "uxPriority k t < uxPriority k u" using m(11,12) by (simp add: pr)
  ultimately show ?thesis using that m(1,5) aw cur by blast
qed

lemma told_wakes:
  assumes "told E i t s s'" "steady E i s" "t \<noteq> 0" "awaits_notification s t"
  shows "ready s' t" "ucNotifyState s' t = taskNOTIFICATION_RECEIVED"
    "uxPriority s t > uxPriority s (pxCurrentTCB s) \<longrightarrow> yield_requested s'" "\<And>v. v \<noteq> t \<Longrightarrow> at s' (state_item v) = at s (state_item v)"
proof -
  from assms(4) have n: "ucNotifyState s t = taskWAITING_NOTIFICATION" by (simp add: awaits_notification_def)
  from assms(1) n assms(3) have f: "at s' = awake (\<lambda>u. u = t) s" "ucNotifyState s' = (ucNotifyState s)(t := taskNOTIFICATION_RECEIVED)"
    "uxPriority s t > uxPriority s (pxCurrentTCB s) \<longrightarrow> yield_requested s'" by (simp_all add: told_def)
  from ready_awake [OF steadyD(2) [OF assms(2)] f(1), of t] show "ready s' t" by simp
  show "ucNotifyState s' t = taskNOTIFICATION_RECEIVED" using f(2) by simp
  show "uxPriority s t > uxPriority s (pxCurrentTCB s) \<longrightarrow> yield_requested s'" by (rule f(3))
  show "at s' (state_item v) = at s (state_item v)" if "v \<noteq> t" for v using that by (simp add: f(1) awake_def)
qed

text \<open>A send that is not disturbed, to a stream.\<close>

lemma undisturbed_send:
  fixes n :: u32
  assumes ok: "caller_ok E i w" and P: "undisturbed P" and kind: "\<not> is_message_buffer (obj w)"
  defines "k \<equiv> min n (xStreamBufferSpacesAvailable (obj w))"
  obtains b' w' where "xStreamBufferSend P (Some p) n 0 w = Some (k, w')" "after_send E i k (w\<lparr>obj := b'\<rparr>) w'"
    "unat k = min (unat n) (room (obj w))" "only_sent (obj w) b'" "stream_ok b'" "stored b' = stored (obj w) @ bytes_from p 0 k"
proof -
  have st: "stream_ok (obj w)" using ok by (simp add: caller_ok_def)
  have "stream.in_use (obj w) (stored (obj w))" using st kind by (simp add: stream.in_use_def plain_stream_def holds_bytes_def)
  moreover from request_now(1) [OF kind] obtain req where req: "send_request n 0 (obj w) = Some (req, 0)" by blast
  ultimately obtain b' where wr: "prvWriteMessageToBuffer p n (xStreamBufferSpacesAvailable (obj w)) req (obj w) = Some (k, b')"
    "only_sent (obj w) b'" "stream_ok b'" "stream.in_use b' (stored (obj w) @ bytes_from p 0 k)"
    using stream.write_in_use [OF _ send_requested [OF req], of "stored (obj w)" p] unfolding k_def by metis
  have u: "caller_ok E i (w\<lparr>obj := b'\<rparr>)" using caller_with [OF ok wr(3)] sent_fields [OF wr(2)] by simp
  have P': "rest_of_program P v = Some v" for v using P by (simp add: undisturbed_def)
  from send_run [OF req _ _ P' P' P' wr(1) u] obtain w' where
    "xStreamBufferSend P (Some p) n 0 w = Some (k, w')" "after_send E i k (w\<lparr>obj := b'\<rparr>) w'" by auto
  moreover have "unat k = min (unat n) (room (obj w))" using spaces_available [OF st] by (simp add: k_def bytes_from_min)
  moreover have "stored b' = stored (obj w) @ bytes_from p 0 k" using wr(4) by (simp add: stream.in_use_def holds_bytes_def)
  ultimately show ?thesis using that wr(2,3) by blast
qed

text \<open>
  C9: A send wakes the reader that waits, when it should. A send stores as many of its bytes as there is room for; if it
  stores any and the trigger level is reached, the waiting reader is ready and notified, is taken off the buffer, and preempts
  the sender if it has the higher priority, and no other task is moved; otherwise nothing happens to the scheduler.
\<close>
theorem send_notifies_waiting_reader:
  assumes "caller_ok E i w" "undisturbed P" "\<not> is_message_buffer (obj w)"
    and "xTaskWaitingToReceive (obj w) = t" "t \<noteq> 0" "awaits_notification (os w) t"
  shows "\<exists>k w'. xStreamBufferSend P (Some p) n 0 w = Some (k, w') \<and> unat k = min (unat n) (room (obj w)) \<and>
    stored (obj w') = stored (obj w) @ bytes_from p 0 k \<and>
    (if k > 0 \<and> unat (xTriggerLevelBytes (obj w)) \<le> used (obj w) + unat k
     then ready (os w') t \<and> ucNotifyState (os w') t = taskNOTIFICATION_RECEIVED \<and> xTaskWaitingToReceive (obj w') = 0 \<and>
       (uxPriority (os w) t > uxPriority (os w) (pxCurrentTCB (os w)) \<longrightarrow> yield_requested (os w')) \<and>
       (\<forall>v. v \<noteq> t \<longrightarrow> at (os w') (state_item v) = at (os w) (state_item v))
     else os w' = os w \<and> xTaskWaitingToReceive (obj w') = t)"
proof -
  obtain k b' w' where s: "xStreamBufferSend P (Some p) n 0 w = Some (k, w')" "after_send E i k (w\<lparr>obj := b'\<rparr>) w'"
    "unat k = min (unat n) (room (obj w))" "only_sent (obj w) b'" "stream_ok b'" "stored b' = stored (obj w) @ bytes_from p 0 k"
    by (rule undisturbed_send [OF assms(1-3), of p n])
  note f = sent_fields [OF s(4)]
  have "used b' = used (obj w) + unat k" using arg_cong [OF s(6), of length] by simp
  then have c: "reader_told k b' \<longleftrightarrow> k > 0 \<and> unat (xTriggerLevelBytes (obj w)) \<le> used (obj w) + unat k"
    using bytes_in_buffer [OF s(5)] by (simp add: reader_told_def f word_le_nat_alt)
  have st: "steady E i (os w)" using assms(1) by (simp add: caller_ok_def)
  show ?thesis
  proof (cases "reader_told k b'")
    case True
    with s(2) have o: "obj w' = b'\<lparr>xTaskWaitingToReceive := 0\<rparr>" "told E i t (os w) (os w')"
      by (simp_all add: after_send_def f assms(4))
    from told_wakes [OF o(2) st assms(5,6)] o(1) s(1,3,6) True c show ?thesis by (intro exI [of _ k] exI [of _ w']) simp
  next
    case False
    with s(2) have "w' = w\<lparr>obj := b'\<rparr>" by (simp add: after_send_def)
    with s(1,3,6) False c show ?thesis by (intro exI [of _ k] exI [of _ w']) (auto simp: f assms(4))
  qed
qed

lemma waiting_fields_new:
  fixes f :: u8 and c :: u32 and s :: sched and u :: nat
  defines "b \<equiv> (obj (new_stream f s))\<lparr>xTaskWaitingToReceive := u, xTriggerLevelBytes := c\<rparr>"
  shows "used b = 0" "room b = 10" "stored b = []" "is_message_buffer b \<longleftrightarrow> f AND 1 \<noteq> 0"
    "is_batching_buffer b \<longleftrightarrow> f AND 4 \<noteq> 0" "xTriggerLevelBytes b = c" "xTaskWaitingToReceive b = u"
  using new_stream_fields [of f s] by (simp_all add: b_def used_def room_def stored_def is_message_buffer_def is_batching_buffer_def)

theorem send_notifies_waiting_reader_witness:
  "\<exists>t u i h s v v'. main_state = Some ([t, u], i, h, s) \<and> pxCurrentTCB (os v) = t \<and> awaits_notification (os v) u \<and>
     xStreamBufferSend nothing_else (Some (\<lambda>_. 7)) 3 0 v = Some (3, v') \<and> ready (os v') u \<and> yield_requested (os v')"
proof -
  obtain t u i h s k where m: "main_state = Some ([t, u], i, h, s)"
    "caller_ok {} i \<lparr>os = k, obj = (obj (new_stream 0 s))\<lparr>xTaskWaitingToReceive := u, xTriggerLevelBytes := 1\<rparr>\<rparr>"
    "awaits_notification k u" "u \<noteq> 0" "pxCurrentTCB k = t" "uxPriority k t < uxPriority k u"
    by (rule main_waiting_reader [of 0 1]) simp_all
  define v where "v = \<lparr>os = k, obj = (obj (new_stream 0 s))\<lparr>xTaskWaitingToReceive := u, xTriggerLevelBytes := 1\<rparr>\<rparr>"
  note f = waiting_fields_new [where f = 0 and c = 1 and u = u and s = s]
  have a: "undisturbed nothing_else" "\<not> is_message_buffer (obj v)" "xTaskWaitingToReceive (obj v) = u" "awaits_notification (os v) u"
    using f m(3) by (simp_all add: undisturbed_def nothing_else_def v_def)
  from send_notifies_waiting_reader [OF m(2) [folded v_def] a(1-3) m(4) a(4), of "\<lambda>_. 7" 3] obtain k' v' where
    r: "xStreamBufferSend nothing_else (Some (\<lambda>_. 7)) 3 0 v = Some (k', v')" "unat k' = min 3 (room (obj v))"
      "if k' > 0 \<and> unat (xTriggerLevelBytes (obj v)) \<le> used (obj v) + unat k'
       then ready (os v') u \<and> (uxPriority (os v) u > uxPriority (os v) (pxCurrentTCB (os v)) \<longrightarrow> yield_requested (os v'))
       else True" by (auto split: if_splits)
  have "k' = 3" using r(2) f(2) by (simp add: v_def word_unat_eq_iff)
  with r(1,3) m(1,3,5,6) f show ?thesis
    by (intro exI [of _ t] exI [of _ u] exI [of _ i] exI [of _ h] exI [of _ s] exI [of _ v] exI [of _ v']) (simp add: v_def)
qed

text \<open>
  C40: A batching buffer wakes its reader in vain. A send that brings a batching buffer exactly to its trigger level makes the
  waiting reader ready, but a receive takes nothing until there is more than that; a reader that has no time left, like one
  whose wait has ended, returns with no bytes.
\<close>
theorem batching_reader_woken_in_vain:
  assumes "caller_ok E i w" "undisturbed P" "\<not> is_message_buffer (obj w)" "is_batching_buffer (obj w)"
    and "xTaskWaitingToReceive (obj w) = t" "t \<noteq> 0" "awaits_notification (os w) t"
    and "0 < n" "unat n \<le> room (obj w)" "unat (xTriggerLevelBytes (obj w)) = used (obj w) + unat n"
  shows "\<exists>w'. xStreamBufferSend P (Some p) n 0 w = Some (n, w') \<and> ready (os w') t \<and>
    stored (obj w') = stored (obj w) @ bytes_from p 0 n \<and>
    (\<forall>Q len s. xStreamBufferReceive Q True len 0 (w'\<lparr>os := s\<rparr>) = Some ([], w'\<lparr>os := s\<rparr>))"
proof -
  obtain k b' w' where s: "xStreamBufferSend P (Some p) n 0 w = Some (k, w')" "after_send E i k (w\<lparr>obj := b'\<rparr>) w'"
    "unat k = min (unat n) (room (obj w))" "only_sent (obj w) b'" "stream_ok b'" "stored b' = stored (obj w) @ bytes_from p 0 k"
    by (rule undisturbed_send [OF assms(1-3), of p n])
  note f = sent_fields [OF s(4)]
  have k: "k = n" using s(3) assms(9) by (simp add: word_unat_eq_iff)
  have b: "unat (prvBytesInBuffer b') = unat (xTriggerLevelBytes (obj w))"
    using bytes_in_buffer [OF s(5)] arg_cong [OF s(6), of length] assms(10) k by simp
  then have "reader_told k b'" using assms(8) k by (simp add: reader_told_def f word_le_nat_alt)
  with s(2) have o: "obj w' = b'\<lparr>xTaskWaitingToReceive := 0\<rparr>" "told E i t (os w) (os w')"
    by (simp_all add: after_send_def f assms(5))
  have "prvBytesInBuffer (obj w') \<le> receive_threshold (obj w')"
    using b assms(3,4) by (simp add: o(1) receive_threshold_def f word_le_nat_alt)
  then have "xStreamBufferReceive Q True len 0 (w'\<lparr>os := s\<rparr>) = Some ([], w'\<lparr>os := s\<rparr>)" for Q len s
    by (intro receive_nothing) simp
  moreover have "steady E i (os w)" using assms(1) by (simp add: caller_ok_def)
  ultimately show ?thesis using told_wakes(1) [OF o(2) _ assms(6,7)] s(1,6) o(1) k by (intro exI [of _ w']) simp
qed

theorem batching_reader_woken_in_vain_witness:
  "\<exists>t u i h s v v'. main_state = Some ([t, u], i, h, s) \<and> awaits_notification (os v) u \<and>
     xStreamBufferSend nothing_else (Some (\<lambda>_. 7)) 10 0 v = Some (10, v') \<and> ready (os v') u \<and>
     xStreamBufferReceive nothing_else True 10 0 v' = Some ([], v')"
proof -
  obtain t u i h s k where m: "main_state = Some ([t, u], i, h, s)"
    "caller_ok {} i \<lparr>os = k, obj = (obj (new_stream 4 s))\<lparr>xTaskWaitingToReceive := u, xTriggerLevelBytes := 10\<rparr>\<rparr>"
    "awaits_notification k u" "u \<noteq> 0" "pxCurrentTCB k = t" "uxPriority k t < uxPriority k u"
    by (rule main_waiting_reader [of 4 10]) simp_all
  define v where "v = \<lparr>os = k, obj = (obj (new_stream 4 s))\<lparr>xTaskWaitingToReceive := u, xTriggerLevelBytes := 10\<rparr>\<rparr>"
  note f = waiting_fields_new [where f = 4 and c = 10 and u = u and s = s]
  have a: "undisturbed nothing_else" "\<not> is_message_buffer (obj v)" "is_batching_buffer (obj v)" "xTaskWaitingToReceive (obj v) = u"
    "awaits_notification (os v) u" using f m(3) by (simp_all add: undisturbed_def nothing_else_def v_def)
  have n: "0 < (10 :: u32)" "unat (10 :: u32) \<le> room (obj v)" "unat (xTriggerLevelBytes (obj v)) = used (obj v) + unat (10 :: u32)"
    using f by (simp_all add: v_def)
  from batching_reader_woken_in_vain [OF m(2) [folded v_def] a(1-4) m(4) a(5) n, of "\<lambda>_. 7"] obtain v' where
    r: "xStreamBufferSend nothing_else (Some (\<lambda>_. 7)) 10 0 v = Some (10, v')" "ready (os v') u"
      "\<And>Q len s. xStreamBufferReceive Q True len 0 (v'\<lparr>os := s\<rparr>) = Some ([], v'\<lparr>os := s\<rparr>)" by blast
  have "xStreamBufferReceive nothing_else True 10 0 v' = Some ([], v')" using r(3) [of nothing_else 10 "os v'"] by simp
  with r(1,2) m(1,3) show ?thesis
    by (intro exI [of _ t] exI [of _ u] exI [of _ i] exI [of _ h] exI [of _ s] exI [of _ v] exI [of _ v']) (simp add: v_def)
qed

text \<open>
  A notification wakes the task that waits for one. Whatever the action, a notification of a waiting task records the value
  the action asks for, makes exactly that task ready, and requests a context switch if it has a higher priority than the caller.
\<close>
theorem notification_wakes_waiter:
  assumes "steady E i s" "t \<noteq> 0" "awaits_notification s t"
  shows "\<exists>s'. xTaskGenericNotify t 0 value action s =
      Some (fst (notified_value action taskWAITING_NOTIFICATION value (ulNotifiedValue s t)), ulNotifiedValue s t, s') \<and>
    steady E i s' \<and> ready s' t \<and> ucNotifyState s' t = taskNOTIFICATION_RECEIVED \<and>
    ulNotifiedValue s' t = (case action of eNoAction \<Rightarrow> ulNotifiedValue s t | eSetBits \<Rightarrow> ulNotifiedValue s t OR value
      | eIncrement \<Rightarrow> ulNotifiedValue s t + 1 | eSetValueWithOverwrite \<Rightarrow> value | eSetValueWithoutOverwrite \<Rightarrow> value) \<and>
    (yield_requested s' \<longleftrightarrow> yield_requested s \<or> uxPriority s t > uxPriority s (pxCurrentTCB s)) \<and>
    (\<forall>v. v \<noteq> t \<longrightarrow> at s' (state_item v) = at s (state_item v) \<and> ulNotifiedValue s' v = ulNotifiedValue s v)"
proof -
  have n: "ucNotifyState s t = taskWAITING_NOTIFICATION" "notifiable s t"
    using assms(2,3) by (auto simp: awaits_notification_def notifiable_def)
  define v where "v = notified_value action taskWAITING_NOTIFICATION value (ulNotifiedValue s t)"
  from notify_waiting_run [OF assms(1) n, of "value" action] obtain s' where
    r: "xTaskGenericNotify t 0 value action s = Some (fst v, ulNotifiedValue s t, s')" "steady E i s'"
      "at s' = awake (\<lambda>u. u = t) s" "ucNotifyState s' = (ucNotifyState s)(t := taskNOTIFICATION_RECEIVED)"
      "ulNotifiedValue s' = (ulNotifiedValue s)(t := snd v)"
      "yield_requested s' = (yield_requested s \<or> uxPriority s t > uxPriority s (pxCurrentTCB s))" unfolding v_def by blast
  have "snd v = (case action of eNoAction \<Rightarrow> ulNotifiedValue s t | eSetBits \<Rightarrow> ulNotifiedValue s t OR value
      | eIncrement \<Rightarrow> ulNotifiedValue s t + 1 | eSetValueWithOverwrite \<Rightarrow> value | eSetValueWithoutOverwrite \<Rightarrow> value)"
    by (cases action) (simp_all add: v_def)
  moreover have "ready s' t" using ready_awake [OF steadyD(2) [OF assms(1)] r(3), of t] by simp
  ultimately show ?thesis using r unfolding v_def [symmetric] by (intro exI [of _ s']) (simp add: awake_def)
qed

theorem notification_wakes_waiter_witness:
  "\<exists>t u i h s k k'. main_state = Some ([t, u], i, h, s) \<and> awaits_notification k u \<and>
     xTaskGenericNotify u 0 5 eSetBits k = Some (True, ulNotifiedValue k u, k') \<and> ready k' u \<and> yield_requested k' \<and>
     ulNotifiedValue k' u = ulNotifiedValue k u OR 5"
proof -
  obtain t u i h s k where m: "main_state = Some ([t, u], i, h, s)"
    "caller_ok {} i \<lparr>os = k, obj = (obj (new_stream 0 s))\<lparr>xTaskWaitingToReceive := u, xTriggerLevelBytes := 1\<rparr>\<rparr>"
    "awaits_notification k u" "u \<noteq> 0" "pxCurrentTCB k = t" "uxPriority k t < uxPriority k u"
    by (rule main_waiting_reader [of 0 1]) simp_all
  have "steady {} i k" using m(2) by (simp add: caller_ok_def)
  from notification_wakes_waiter [OF this m(4,3), of 5 eSetBits] obtain k' where
    "xTaskGenericNotify u 0 5 eSetBits k = Some (True, ulNotifiedValue k u, k')" "ready k' u"
    "ulNotifiedValue k' u = ulNotifiedValue k u OR 5" "yield_requested k'" using m(5,6) by auto
  with m(1,3) show ?thesis by blast
qed

end
