(* ===== verification/Rtos_EventGroup.thy ===== *)
theory Rtos_EventGroup
  imports Rtos_Notify Rtos_Heap
begin

text \<open>
  The event groups of src/FreeRTOS/event_groups.c, as configured: dynamic allocation, 32-bit ticks, no
  tracing, no timers (so the calls of interrupts that are passed on to the timer task are not compiled).
  A group is its bits and the number of its list of waiting tasks, which is one of the lists of the
  scheduler. A call that does not wait is one step; interrupts do not access event groups.
\<close>

section \<open>Data\<close>

abbreviation (input) eventCLEAR_EVENTS_ON_EXIT_BIT :: u32 where "eventCLEAR_EVENTS_ON_EXIT_BIT \<equiv> 0x01000000"
abbreviation (input) eventUNBLOCKED_DUE_TO_BIT_SET :: u32 where "eventUNBLOCKED_DUE_TO_BIT_SET \<equiv> 0x02000000"
abbreviation (input) eventWAIT_FOR_ALL_BITS :: u32 where "eventWAIT_FOR_ALL_BITS \<equiv> 0x04000000"
abbreviation (input) eventEVENT_BITS_CONTROL_BYTES :: u32 where "eventEVENT_BITS_CONTROL_BYTES \<equiv> 0xFF000000"

record EventGroup_t =
  uxEventBits :: u32
  xTasksWaitingForBits :: nat

type_synonym eg_world = "EventGroup_t world"

text \<open>\<open>sizeof(EventGroup_t)\<close>: the bits and a list, which has a counter, an index and a mini item.\<close>

abbreviation (input) sizeof_EventGroup_t :: u32 where "sizeof_EventGroup_t \<equiv> 24"

section \<open>Creation\<close>

text \<open>The list in the new structure is list \<open>l\<close>; the handle is NULL = 0 without memory.\<close>

definition xEventGroupCreate ::
  "u32 \<Rightarrow> nat \<Rightarrow> heap_1 \<Rightarrow> sched \<Rightarrow> u32 \<times> EventGroup_t option \<times> heap_1 \<times> sched" where
  "xEventGroupCreate ucHeap l h s =
     (let (p, h) = pvPortMalloc ucHeap sizeof_EventGroup_t h
      in if p \<noteq> 0
         then (p, Some \<lparr>uxEventBits = 0, xTasksWaitingForBits = l\<rparr>, h, on_lists (vListInitialise l) s)
         else (p, None, h, s))"

section \<open>Setting and clearing bits\<close>

definition prvTestWaitCondition :: "u32 \<Rightarrow> u32 \<Rightarrow> bool \<Rightarrow> bool" where
  "prvTestWaitCondition uxCurrentEventBits uxBitsToWaitFor xWaitForAllBits \<longleftrightarrow>
     (if \<not> xWaitForAllBits then uxCurrentEventBits AND uxBitsToWaitFor \<noteq> 0
      else uxCurrentEventBits AND uxBitsToWaitFor = uxBitsToWaitFor)"

text \<open>Whether what an item of the list asks for is met.\<close>

definition match_found :: "u32 \<Rightarrow> u32 \<Rightarrow> bool" where
  "match_found v bits \<longleftrightarrow>
     (let uxControlBits = v AND eventEVENT_BITS_CONTROL_BYTES;
          uxBitsWaitedFor = v AND NOT eventEVENT_BITS_CONTROL_BYTES
      in if uxControlBits AND eventWAIT_FOR_ALL_BITS = 0 then uxBitsWaitedFor AND bits \<noteq> 0
         else uxBitsWaitedFor AND bits = uxBitsWaitedFor)"

definition bits_to_clear :: "u32 \<Rightarrow> u32" where
  "bits_to_clear v =
     (let uxControlBits = v AND eventEVENT_BITS_CONTROL_BYTES;
          uxBitsWaitedFor = v AND NOT eventEVENT_BITS_CONTROL_BYTES
      in if uxControlBits AND eventCLEAR_EVENTS_ON_EXIT_BIT \<noteq> 0 then uxBitsWaitedFor else 0)"

text \<open>The loop over the list; it ends with the bits that are to be cleared.\<close>

partial_function (option) set_bits_loop ::
  "nat \<Rightarrow> u32 \<Rightarrow> u32 \<Rightarrow> list_ptr \<Rightarrow> sched \<Rightarrow> (u32 \<times> sched) option" where
  "set_bits_loop l bits uxBitsToClear pxListItem s =
     (if pxListItem = End l then Some (uxBitsToClear, s)
      else (case pxListItem of Item i \<Rightarrow>
              (let pxNext = pxNext (lists s) pxListItem; v = listGET_LIST_ITEM_VALUE i s
               in if match_found v bits
                  then Option.bind (vTaskRemoveFromUnorderedEventList i (bits OR eventUNBLOCKED_DUE_TO_BIT_SET) s)
                    (set_bits_loop l bits (uxBitsToClear OR bits_to_clear v) pxNext)
                  else set_bits_loop l bits uxBitsToClear pxNext s)
            | _ \<Rightarrow> None))"

definition xEventGroupSetBits :: "u32 \<Rightarrow> eg_world \<Rightarrow> (u32 \<times> eg_world) option" where
  "xEventGroupSetBits uxBitsToSet w =
     (if uxBitsToSet AND eventEVENT_BITS_CONTROL_BYTES \<noteq> 0 then None
      else do {
        let s = vTaskSuspendAll (os w);
        let bits = uxEventBits (obj w) OR uxBitsToSet;
        let l = xTasksWaitingForBits (obj w);
        (uxBitsToClear, s) \<leftarrow> set_bits_loop l bits 0 (pxNext (lists s) (End l)) s;
        let bits = bits AND NOT uxBitsToClear;
        (_, s) \<leftarrow> xTaskResumeAll s;
        Some (bits, w\<lparr>os := s, obj := (obj w)\<lparr>uxEventBits := bits\<rparr>\<rparr>)
      })"

definition clear_bits :: "u32 \<Rightarrow> eg_world \<Rightarrow> eg_world" where
  "clear_bits bits w = w\<lparr>obj := (obj w)\<lparr>uxEventBits := uxEventBits (obj w) AND NOT bits\<rparr>\<rparr>"

definition xEventGroupClearBits :: "u32 \<Rightarrow> eg_world \<Rightarrow> (u32 \<times> eg_world) option" where
  "xEventGroupClearBits uxBitsToClear w =
     (if uxBitsToClear AND eventEVENT_BITS_CONTROL_BYTES \<noteq> 0 then None
      else Some (uxEventBits (obj w), clear_bits uxBitsToClear w))"

definition xEventGroupGetBitsFromISR :: "eg_world \<Rightarrow> u32" where
  "xEventGroupGetBitsFromISR w = uxEventBits (obj w)"

definition vEventGroupSetBitsCallback :: "u32 \<Rightarrow> eg_world \<Rightarrow> eg_world option" where
  "vEventGroupSetBitsCallback ulBitsToSet w = map_option snd (xEventGroupSetBits ulBitsToSet w)"

definition vEventGroupClearBitsCallback :: "u32 \<Rightarrow> eg_world \<Rightarrow> eg_world option" where
  "vEventGroupClearBitsCallback ulBitsToClear w = map_option snd (xEventGroupClearBits ulBitsToClear w)"

section \<open>Waiting\<close>

text \<open>
  The end of a call that blocked: the scheduler is resumed, other tasks run, and the value of the event
  item says whether the bits were set or the time was over.
\<close>

definition bits_on_wake :: "(u32 \<Rightarrow> bool) \<Rightarrow> u32 \<Rightarrow> eg_world \<Rightarrow> u32 \<times> eg_world" where
  "bits_on_wake met uxBitsToClear w =
     (let (v, s) = uxTaskResetEventItemValue (os w);
          w = w\<lparr>os := s\<rparr>;
          (v, w) =
            (if v AND eventUNBLOCKED_DUE_TO_BIT_SET = 0
             then (let v = uxEventBits (obj w) in (v, if met v then clear_bits uxBitsToClear w else w))
             else (v, w))
      in (v AND NOT eventEVENT_BITS_CONTROL_BYTES, w))"

definition after_block ::
  "EventGroup_t surroundings \<Rightarrow> (u32 \<Rightarrow> bool) \<Rightarrow> u32 \<Rightarrow> eg_world \<Rightarrow> (u32 \<times> eg_world) option" where
  "after_block P met uxBitsToClear w = do {
     w \<leftarrow> on_os (resume_and_yield True) w;
     map_option (bits_on_wake met uxBitsToClear) (rest_of_program P w)
   }"

definition xEventGroupWaitBits ::
  "EventGroup_t surroundings \<Rightarrow> u32 \<Rightarrow> bool \<Rightarrow> bool \<Rightarrow> u32 \<Rightarrow> eg_world \<Rightarrow> (u32 \<times> eg_world) option" where
  "xEventGroupWaitBits P uxBitsToWaitFor xClearOnExit xWaitForAllBits xTicksToWait w =
     (if uxBitsToWaitFor AND eventEVENT_BITS_CONTROL_BYTES \<noteq> 0 \<or> uxBitsToWaitFor = 0 \<or>
         xTaskGetSchedulerState (os w) = taskSCHEDULER_SUSPENDED \<and> xTicksToWait \<noteq> 0 then None
      else do {
        w \<leftarrow> on_os (\<lambda>s. Some (vTaskSuspendAll s)) w;
        let uxCurrentEventBits = uxEventBits (obj w);
        if prvTestWaitCondition uxCurrentEventBits uxBitsToWaitFor xWaitForAllBits
        then do {
          let w = (if xClearOnExit then clear_bits uxBitsToWaitFor w else w);
          w \<leftarrow> on_os (\<lambda>s. map_option snd (xTaskResumeAll s)) w;
          Some (uxCurrentEventBits, w)
        }
        else if xTicksToWait = 0
        then map_option (\<lambda>w. (uxCurrentEventBits, w)) (on_os (\<lambda>s. map_option snd (xTaskResumeAll s)) w)
        else do {
          let uxControlBits = (if xClearOnExit then eventCLEAR_EVENTS_ON_EXIT_BIT else 0) OR
            (if xWaitForAllBits then eventWAIT_FOR_ALL_BITS else 0);
          w \<leftarrow> on_os (vTaskPlaceOnUnorderedEventList (xTasksWaitingForBits (obj w))
                 (uxBitsToWaitFor OR uxControlBits) xTicksToWait) w;
          after_block P (\<lambda>v. prvTestWaitCondition v uxBitsToWaitFor xWaitForAllBits)
            (if xClearOnExit then uxBitsToWaitFor else 0) w
        }
      })"

definition xEventGroupSync ::
  "EventGroup_t surroundings \<Rightarrow> u32 \<Rightarrow> u32 \<Rightarrow> u32 \<Rightarrow> eg_world \<Rightarrow> (u32 \<times> eg_world) option" where
  "xEventGroupSync P uxBitsToSet uxBitsToWaitFor xTicksToWait w =
     (if uxBitsToWaitFor AND eventEVENT_BITS_CONTROL_BYTES \<noteq> 0 \<or> uxBitsToWaitFor = 0 \<or>
         xTaskGetSchedulerState (os w) = taskSCHEDULER_SUSPENDED \<and> xTicksToWait \<noteq> 0 then None
      else do {
        w \<leftarrow> on_os (\<lambda>s. Some (vTaskSuspendAll s)) w;
        let uxOriginalBitValue = uxEventBits (obj w);
        (_, w) \<leftarrow> xEventGroupSetBits uxBitsToSet w;
        if (uxOriginalBitValue OR uxBitsToSet) AND uxBitsToWaitFor = uxBitsToWaitFor
        then do {
          w \<leftarrow> on_os (\<lambda>s. map_option snd (xTaskResumeAll s)) (clear_bits uxBitsToWaitFor w);
          Some (uxOriginalBitValue OR uxBitsToSet, w)
        }
        else if xTicksToWait \<noteq> 0
        then do {
          w \<leftarrow> on_os (vTaskPlaceOnUnorderedEventList (xTasksWaitingForBits (obj w))
                 (uxBitsToWaitFor OR eventCLEAR_EVENTS_ON_EXIT_BIT OR eventWAIT_FOR_ALL_BITS) xTicksToWait) w;
          after_block P (\<lambda>v. v AND uxBitsToWaitFor = uxBitsToWaitFor) uxBitsToWaitFor w
        }
        else do {
          let uxReturn = uxEventBits (obj w);
          map_option (\<lambda>w. (uxReturn, w)) (on_os (\<lambda>s. map_option snd (xTaskResumeAll s)) w)
        }
      })"

section \<open>Deletion\<close>

partial_function (option) wake_all :: "nat \<Rightarrow> sched \<Rightarrow> sched option" where
  "wake_all l s =
     (if uxNumberOfItems (lists s) l > 0
      then (case pxNext (lists s) (End l) of
              Item i \<Rightarrow> Option.bind (vTaskRemoveFromUnorderedEventList i eventUNBLOCKED_DUE_TO_BIT_SET s) (wake_all l)
            | _ \<Rightarrow> None)
      else Some s)"

definition vEventGroupDelete :: "u32 \<Rightarrow> heap_1 \<Rightarrow> eg_world \<Rightarrow> (heap_1 \<times> eg_world) option" where
  "vEventGroupDelete xEventGroup h w =
     (if xEventGroup = 0 then None
      else do {
        s \<leftarrow> wake_all (xTasksWaitingForBits (obj w)) (vTaskSuspendAll (os w));
        (_, s) \<leftarrow> xTaskResumeAll s;
        h \<leftarrow> vPortFree xEventGroup h;
        Some (h, w\<lparr>os := s\<rparr>)
      })"

end
