(* ===== verification/Rtos_EventGroup_Wake.thy ===== *)
theory Rtos_EventGroup_Wake
  imports Rtos_EventGroup
begin

text \<open>
  Setting the bits of an event group: the loop over the waiting tasks removes items from the list it
  walks over, so the proof follows the sequence of the items that are still ahead. The tasks whose
  condition is met become ready, and their event items hold the bits that released them.
\<close>

section \<open>The value of an event item\<close>

abbreviation event_bits :: "sched \<Rightarrow> nat \<Rightarrow> u32" where
  "event_bits s t \<equiv> item_value s (event_item t)"

lemma set_value_fields [simp]:
  fixes i v s
  defines "s' \<equiv> listSET_LIST_ITEM_VALUE i v s"
  shows "at s' = at s" "pvOwner (lists s') = pvOwner (lists s)" "xItemValue (lists s') = (xItemValue (lists s))(Item i := v)"
    "uxPriority s' = uxPriority s" "uxBasePriority s' = uxBasePriority s" "pxCurrentTCB s' = pxCurrentTCB s"
    "uxTopReadyPriority s' = uxTopReadyPriority s" "pxDelayedTaskList s' = pxDelayedTaskList s"
    "pxOverflowDelayedTaskList s' = pxOverflowDelayedTaskList s" "xNextTaskUnblockTime s' = xNextTaskUnblockTime s"
    "clock s' = clock s" "xPendedTicks s' = xPendedTicks s" "xYieldPendings s' = xYieldPendings s"
    "uxSchedulerSuspended s' = uxSchedulerSuspended s" "xSchedulerRunning s' = xSchedulerRunning s"
    "uxCurrentNumberOfTasks s' = uxCurrentNumberOfTasks s" "yield_requested s' = yield_requested s"
    "ucNotifyState s' = ucNotifyState s" "ulNotifiedValue s' = ulNotifiedValue s" "uxMutexesHeld s' = uxMutexesHeld s"
  unfolding s'_def by (simp_all add: listSET_LIST_ITEM_VALUE_def on_lists_def fun_eq_iff)

lemma ring_set_value [simp]: "ring (lists (listSET_LIST_ITEM_VALUE i v s)) l js = ring (lists s) l js"
proof -
  let ?m = "(lists s)\<lparr>xItemValue := (xItemValue (lists s))(Item i := v)\<rparr>"
  have "links ?m p js q = links (lists s) p js q" for p q
    by (induction js arbitrary: p) simp_all
  then show ?thesis by (simp add: ring_def listSET_LIST_ITEM_VALUE_def on_lists_def)
qed

lemma live_set_value:
  assumes live: "live_ok E s"
  shows "live_ok E (listSET_LIST_ITEM_VALUE (event_item t) v s)"
    "remaining (listSET_LIST_ITEM_VALUE (event_item t) v s) = remaining s"
proof -
  let ?s = "listSET_LIST_ITEM_VALUE (event_item t) v s"
  from live have c: "core_ok E s" and times: "times_ok s" by (simp_all add: live_ok_def base_core)
  have none: "at s (event_item t) \<noteq> Some d" if "d < 7" for d
    using core_linked(2,7) [OF c] that unfolding placed_ok_def by fastforce
  have "linked (lists ?s) ({0..9} \<union> E)"
    unfolding listSET_LIST_ITEM_VALUE_def on_lists_def
    by simp (rule linked_set_value [OF core_linked(1) [OF c]], use none in auto)
  then have "core_ok E ?s" using c by (simp add: core_ok_def lists_ok_def priorities_ok_def)
  moreover have "pxDelayedTaskList s < 7" "pxOverflowDelayedTaskList s < 7"
    using times_two [OF times] by (auto simp: two_lists_def)
  then have "times_ok ?s" using times none by (auto simp: times_ok_def)
  ultimately show "live_ok E ?s" using live by (simp add: live_ok_def base_core)
  show "remaining ?s = remaining s" by (simp add: remaining_def fun_eq_iff)
qed

lemma steady_set_value:
  assumes ok: "steady E i s"
  shows "steady E i (listSET_LIST_ITEM_VALUE (event_item t) v s)"
  using live_set_value(1) [OF steadyD(1) [OF ok], of t v] ok
  by (intro steady_woken [OF ok, where P = "\<lambda>_. False"])
    (auto simp: awake_none acting_def steady_def all_moved_def)

lemma same_set_value [simp]: "same_tasks s (listSET_LIST_ITEM_VALUE i v s)"
  by (simp add: same_tasks_def)

lemma same_pended: "xYieldPendings s = y \<Longrightarrow> s\<lparr>xYieldPendings := y\<rparr> = s"
  by (cases s) simp

section \<open>One task is released\<close>

lemma waiting_item:
  assumes c: "core_ok E s" and l: "l \<in> E" and j: "at s j = Some l"
  obtains t where "j = event_item t" "t \<noteq> 0" "at s (state_item t) \<in> {Some 5, Some 6, Some 9}"
    "pvOwner (lists s) (Item j) = t"
proof -
  note core = core_linked [OF c]
  have "j \<noteq> state_item u" for u using core(2) j core(7) [OF l] unfolding placed_ok_def by force
  with item_cases [of j] obtain t where t: "j = event_item t" by blast
  have st: "at s (state_item t) \<in> {Some 5, Some 6, Some 9}" using core(2) j t unfolding placed_ok_def by blast
  then have "t \<noteq> 0" "pvOwner (lists s) (Item j) = t" using task_items(5) [OF c] core(9) [of t] t by auto
  with that t st show ?thesis by blast
qed

lemma REMOVE_ring:
  assumes "ring (lists s) l (as @ i # bs)" "listREMOVE_ITEM i s = Some s'"
  shows "ring (lists s') l (as @ bs)"
  using uxListRemove_ring [OF assms(1)] assms(2) by (auto simp: listREMOVE_ITEM_def remove_item_def)

lemma REMOVE_other:
  assumes "linked (lists s) L" "at s i = Some k" "k \<noteq> l" "ring (lists s) l js" "listREMOVE_ITEM i s = Some s'"
  shows "ring (lists s') l js"
  using remove_other [OF assms(1-4)] assms(5) by (auto simp: listREMOVE_ITEM_def remove_item_def)

lemma add_ready_other:
  assumes "linked (lists s) L" "at s (state_item t) = None" "{0..4} \<subseteq> L" "uxPriority s t < 5" "9 < l"
    and "ring (lists s) l js"
  shows "ring (lists (prvAddTaskToReadyList t s)) l js"
proof -
  have "unat (uxPriority s t) < 5" using assms(4) by (simp add: word_less_nat_alt)
  then have "unat (uxPriority s t) \<in> L" "unat (uxPriority s t) \<noteq> l" using assms(3,5) by auto
  from insert_end_other [OF assms(1) this assms(2,6)] show ?thesis
    by (simp add: prvAddTaskToReadyList_def on_lists_def portRECORD_READY_PRIORITY_def pxReadyTasksLists_def)
qed

lemma release_ring:
  assumes ok: "core_ok E s" and l: "l \<in> E" and e: "at s (event_item t) = Some l"
    and rm: "listREMOVE_ITEM (event_item t) s = Some s1" "listREMOVE_ITEM (state_item t) s1 = Some s2"
    and r: "ring (lists s) l (as @ event_item t # bs)"
  shows "ring (lists (prvAddTaskToReadyList t s2)) l (as @ bs)"
proof -
  let ?L = "{0..9} \<union> E"
  note core = core_linked [OF ok]
  have l9: "9 < l" by (rule core(7) [OF l])
  have "at s (state_item t) \<in> {Some 5, Some 6, Some 9}" using core(2) e unfolding placed_ok_def by blast
  then obtain d where d: "at s (state_item t) = Some d" "d \<le> 9" by auto
  from REMOVE_moves [OF core(1) e] rm(1) have
    k1: "kept_linked ?L s ((at s)(event_item t := None)) (uxTopReadyPriority s) s1" by (metis option.inject)
  then have lk1: "linked (lists s1) ?L" and at1: "at s1 (state_item t) = Some d" using d by (simp_all add: kept_linked_def)
  from REMOVE_moves [OF lk1 at1] rm(2) have
    k2: "kept_linked ?L s1 ((at s1)(state_item t := None)) (uxTopReadyPriority s1) s2" by (metis option.inject)
  have pr: "uxPriority s2 t < 5"
    using core(4) [of t] k1 k2 relinked_fields(1) [of s s1] relinked_fields(1) [of s1 s2] by (simp add: kept_linked_def)
  from REMOVE_other [OF lk1 at1 _ REMOVE_ring [OF r rm(1)] rm(2)] d(2) l9 have "ring (lists s2) l (as @ bs)" by simp
  moreover have "linked (lists s2) ?L" "at s2 (state_item t) = None" using k2 by (simp_all add: kept_linked_def)
  moreover have "{0..4} \<subseteq> ?L" by auto
  ultimately show ?thesis using add_ready_other pr l9 by blast
qed

lemma unordered_wake_run:
  assumes ok: "steady E i s" and sus: "uxSchedulerSuspended s \<noteq> 0" and l: "l \<in> E" and e: "at s (event_item t) = Some l"
  shows "\<exists>s'. vTaskRemoveFromUnorderedEventList (event_item t) v s = Some s' \<and> steady E i s' \<and>
    at s' = awake (\<lambda>u. u = t) s \<and> same_tasks s s' \<and> clock s' = clock s \<and>
    xItemValue (lists s') = (xItemValue (lists s))(Item (event_item t) := v OR taskEVENT_LIST_ITEM_VALUE_IN_USE) \<and>
    (\<forall>u. remaining s' u = (if u = t then None else remaining s u)) \<and>
    (\<forall>as bs. ring (lists s) l (as @ event_item t # bs) \<longrightarrow> ring (lists s') l (as @ bs))"
proof -
  let ?v = "v OR taskEVENT_LIST_ITEM_VALUE_IN_USE"
  define s0 where "s0 = listSET_LIST_ITEM_VALUE (event_item t) ?v s"
  have ok0: "steady E i s0" unfolding s0_def by (rule steady_set_value [OF ok])
  note d = steadyD [OF ok0]
  have e0: "at s0 (event_item t) = Some l" by (simp add: s0_def e)
  from waiting_item [OF d(2) l e0] have t: "t \<noteq> 0" "pvOwner (lists s0) (Item (event_item t)) = t" by auto
  from release_run [OF d(2) e0] obtain s1 s2 where
    rm: "listREMOVE_ITEM (event_item t) s0 = Some s1" "listREMOVE_ITEM (state_item t) s1 = Some s2"
    and core: "core_ok E (prvAddTaskToReadyList t s2)"
    and k: "kept_linked ({0..9} \<union> E) s0 (made_ready t s0) (uxTopReadyPriority s0 OR push_bit (unat (uxPriority s0 t)) 1)
      (prvAddTaskToReadyList t s2)" .
  define s3 where "s3 = prvAddTaskToReadyList t s2"
  define s' where "s' = snd (wake t s3)"
  from k have r: "relinked s0 s3" and at3: "at s3 = awake (\<lambda>u. u = t) s0"
    by (simp_all add: kept_linked_def made_ready_awake s3_def)
  note f = relinked_fields [OF r]
  have s': "s' = s3\<lparr>xYieldPendings := xYieldPendings s \<or> uxPriority s t > uxPriority s (pxCurrentTCB s)\<rparr>"
  proof -
    have "s3\<lparr>xYieldPendings := xYieldPendings s\<rparr> = s3" by (rule same_pended) (simp add: f s0_def)
    then show ?thesis by (simp add: s'_def wake_split f s0_def)
  qed
  have "s0\<lparr>xYieldPendings := xYieldPendings s3\<rparr> = s0" by (rule same_pended) (simp add: f(8))
  then have "relinked (s0\<lparr>xYieldPendings := xYieldPendings s3\<rparr>) s3" using r by simp
  note live = live_awake [OF d(1) core [folded s3_def] at3 this]
  have live': "live_ok E s'" using live(2) core_fields [of s' s3 E] by (simp add: s' live_ok_def base_core times_ok_def)
  have at': "at s' = awake (\<lambda>u. u = t) s0" by (simp add: s' at3)
  have st: "steady E i s'"
    using sus by (intro steady_woken [OF ok0 live' at']) (auto simp: s' f s0_def acting_def)
  have "vTaskRemoveFromUnorderedEventList (event_item t) v s = Some s'"
    using sus t rm by (simp add: vTaskRemoveFromUnorderedEventList_def s0_def [symmetric] s'_def s3_def Let_def)
  moreover have "awake (\<lambda>u. u = t) s0 = awake (\<lambda>u. u = t) s" by (simp add: awake_def s0_def fun_eq_iff)
  moreover have "same_tasks s s'" "clock s' = clock s" by (simp_all add: same_tasks_def s' f s0_def)
  moreover have "xItemValue (lists s') = (xItemValue (lists s))(Item (event_item t) := ?v)"
    by (simp add: s' f) (simp add: s0_def)
  moreover have "remaining s' u = (if u = t then None else remaining s u)" for u
    using live(3) [of u] live_set_value(2) [OF steadyD(1) [OF ok], of t ?v]
    by (simp add: s' remaining_def s0_def [symmetric] split: if_splits)
  moreover have "ring (lists s') l (as @ bs)" if "ring (lists s) l (as @ event_item t # bs)" for as bs
    using release_ring [OF d(2) l e0 rm, of as bs] that by (simp add: s' s3_def s0_def)
  ultimately show ?thesis using st at' by (intro exI [of _ s']) simp
qed

section \<open>The loop\<close>

text \<open>The tasks with an item among \<open>js\<close> whose condition is met, and what the loop does to them.\<close>

definition met_in :: "nat list \<Rightarrow> u32 \<Rightarrow> sched \<Rightarrow> nat \<Rightarrow> bool" where
  "met_in js bits s t \<longleftrightarrow> event_item t \<in> set js \<and> match_found (event_bits s t) bits"

definition released :: "u32 \<Rightarrow> u32" where
  "released bits = bits OR eventUNBLOCKED_DUE_TO_BIT_SET OR taskEVENT_LIST_ITEM_VALUE_IN_USE"

definition after_wakes :: "(nat \<Rightarrow> bool) \<Rightarrow> u32 \<Rightarrow> sched \<Rightarrow> sched \<Rightarrow> bool" where
  "after_wakes P v s s' \<longleftrightarrow> at s' = awake P s \<and> same_tasks s s' \<and> clock s' = clock s \<and>
     (\<forall>t. event_bits s' t = (if P t then v else event_bits s t)) \<and>
     (\<forall>t. remaining s' t = (if P t then None else remaining s t))"

lemma after_wakes_none: "after_wakes (\<lambda>_. False) v s s"
  by (simp add: after_wakes_def awake_none)

lemma after_wakes_trans:
  assumes "after_wakes P v s s1" "after_wakes Q v s1 s'"
  shows "after_wakes (\<lambda>t. P t \<or> Q t) v s s'"
proof -
  have "awake Q s1 = awake (\<lambda>t. P t \<or> Q t) s"
    using assms(1) by (intro awake_twice) (simp_all add: after_wakes_def same_tasks_def)
  with assms same_trans show ?thesis by (auto simp: after_wakes_def)
qed

lemma one_wake:
  assumes ok: "steady E i s" and sus: "uxSchedulerSuspended s \<noteq> 0" and l: "l \<in> E" and e: "at s (event_item t) = Some l"
  shows "\<exists>s'. vTaskRemoveFromUnorderedEventList (event_item t) v s = Some s' \<and> steady E i s' \<and>
    after_wakes (\<lambda>u. u = t) (v OR taskEVENT_LIST_ITEM_VALUE_IN_USE) s s' \<and>
    (\<forall>as bs. ring (lists s) l (as @ event_item t # bs) \<longrightarrow> ring (lists s') l (as @ bs))"
  using unordered_wake_run [OF assms, of v] by (auto simp: after_wakes_def)

lemma ring_next:
  assumes "ring m l (as @ j # bs)"
  shows "pxNext m (Item j) = first_ptr bs (End l)"
  using assms links_ends [of m "End l" "as @ [j]" bs "End l"] by (simp add: ring_def)

lemma set_bits_loop_run:
  assumes "steady E i s" "uxSchedulerSuspended s \<noteq> 0" "l \<in> E" "ring (lists s) l (as @ bs)"
  shows "\<exists>c' s'. set_bits_loop l bits c (first_ptr bs (End l)) s = Some (c', s') \<and> steady E i s' \<and>
    after_wakes (met_in bs bits s) (released bits) s s' \<and>
    (\<forall>n. bit c' n \<longleftrightarrow> bit c n \<or> (\<exists>t. met_in bs bits s t \<and> bit (bits_to_clear (event_bits s t)) n))"
  using assms
proof (induction bs arbitrary: s as c)
  case Nil
  then show ?case
    by (subst set_bits_loop.simps) (simp add: met_in_def [abs_def] after_wakes_none)
next
  case (Cons j bs)
  note c = steadyD(2) [OF Cons.prems(1)]
  have j: "at s j = Some l" using Cons.prems(4) by (simp add: ring_container)
  from waiting_item [OF c Cons.prems(3) j] obtain t where t: "j = event_item t" by blast
  note nxt = ring_next [OF Cons.prems(4)]
  show ?case
  proof (cases "match_found (event_bits s t) bits")
    case False
    then have "met_in (j # bs) bits s = met_in bs bits s" by (auto simp: met_in_def t fun_eq_iff)
    moreover have "set_bits_loop l bits c (first_ptr (j # bs) (End l)) s = set_bits_loop l bits c (first_ptr bs (End l)) s"
      by (subst set_bits_loop.simps) (use False nxt in \<open>simp add: listGET_LIST_ITEM_VALUE_def t\<close>)
    ultimately show ?thesis using Cons.IH [of s "as @ [j]" c] Cons.prems by simp
  next
    case True
    let ?c = "c OR bits_to_clear (event_bits s t)"
    from one_wake [OF Cons.prems(1-3) j [unfolded t], of "bits OR eventUNBLOCKED_DUE_TO_BIT_SET"] Cons.prems(4)
    obtain s1 where s1: "vTaskRemoveFromUnorderedEventList (event_item t) (bits OR eventUNBLOCKED_DUE_TO_BIT_SET) s = Some s1"
      "steady E i s1" "after_wakes (\<lambda>u. u = t) (released bits) s s1" "ring (lists s1) l (as @ bs)"
      unfolding t released_def or.assoc by blast
    have "uxSchedulerSuspended s1 \<noteq> 0" using s1(3) Cons.prems(2) by (simp add: after_wakes_def same_tasks_def)
    from Cons.IH [OF s1(2) this Cons.prems(3) s1(4), of ?c] obtain c' s' where
      s': "set_bits_loop l bits ?c (first_ptr bs (End l)) s1 = Some (c', s')" "steady E i s'"
        "after_wakes (met_in bs bits s1) (released bits) s1 s'"
        "\<And>n. bit c' n \<longleftrightarrow> bit ?c n \<or> (\<exists>u. met_in bs bits s1 u \<and> bit (bits_to_clear (event_bits s1 u)) n)" by blast
    have "j \<notin> set bs" using Cons.prems(4) by (simp add: ring_def)
    then have val: "event_bits s1 u = event_bits s u" if "event_item u \<in> set bs" for u
      using s1(3) that t by (auto simp: after_wakes_def)
    then have m1: "met_in bs bits s1 = met_in bs bits s" by (auto simp: met_in_def fun_eq_iff)
    have met: "met_in (j # bs) bits s = (\<lambda>u. u = t \<or> met_in bs bits s u)"
      using True by (auto simp: met_in_def t fun_eq_iff)
    have "set_bits_loop l bits c (first_ptr (j # bs) (End l)) s = Some (c', s')"
      by (subst set_bits_loop.simps) (use True nxt s1(1) s'(1) in \<open>simp add: listGET_LIST_ITEM_VALUE_def t\<close>)
    moreover have "after_wakes (met_in (j # bs) bits s) (released bits) s s'"
      using after_wakes_trans [OF s1(3) s'(3)] by (simp add: met m1)
    moreover have "bit c' n \<longleftrightarrow> bit c n \<or> (\<exists>u. met_in (j # bs) bits s u \<and> bit (bits_to_clear (event_bits s u)) n)" for n
      unfolding s'(4) met m1 bit_or_iff using val by (auto simp: met_in_def)
    ultimately show ?thesis using s'(2) by blast
  qed
qed

section \<open>The whole call\<close>

text \<open>With nothing to catch up on, resuming the scheduler moves no task.\<close>

lemma resume_exact:
  assumes core: "core_ok E s" and sus: "uxSchedulerSuspended s = 1" and num: "uxCurrentNumberOfTasks s > 0"
    and none: "xPendedTicks s = 0" "\<And>t. \<not> pending s t"
  shows "xTaskResumeAll s = Some (xYieldPendings s,
    (if xYieldPendings s then portYIELD else id) (s\<lparr>uxSchedulerSuspended := 0\<rparr>))"
proof -
  have "at s j \<noteq> Some 7" for j
  proof -
    have "at s (state_item u) \<noteq> Some 7" for u using core_linked(2) [OF core] unfolding placed_ok_def by blast
    with none(2) item_cases [of j] show ?thesis by (auto simp: pending_def)
  qed
  then have "uxNumberOfItems (lists s) 7 = 0" using linked_empty [OF core_linked(1) [OF core], of 7] by simp
  then have "move_pending False (s\<lparr>uxSchedulerSuspended := 0\<rparr>) = Some (False, s\<lparr>uxSchedulerSuspended := 0\<rparr>)"
    by (subst move_pending.simps) (simp add: listLIST_IS_EMPTY_def)
  then show ?thesis using sus none(1) num by (simp add: xTaskResumeAll_def)
qed

lemma resume_same:
  assumes ok: "steady E i s" and sus: "uxSchedulerSuspended s \<noteq> 0"
    and none: "uxSchedulerSuspended s = 1 \<Longrightarrow> xPendedTicks s = 0 \<and> (\<forall>t. \<not> pending s t)"
  shows "\<exists>y s'. xTaskResumeAll s = Some (y, s') \<and> steady E i s' \<and> lists s' = lists s \<and> clock s' = clock s \<and>
    same_tasks (s\<lparr>uxSchedulerSuspended := uxSchedulerSuspended s - 1, yield_requested := yield_requested s \<or> y\<rparr>) s' \<and>
    (uxSchedulerSuspended s = 1 \<longrightarrow> y = xYieldPendings s)"
proof -
  note d = steadyD [OF ok]
  from resume_all_steady [OF ok sus] obtain y s' where r: "xTaskResumeAll s = Some (y, s')" "steady E i s'" by blast
  show ?thesis
  proof (cases "uxSchedulerSuspended s = 1")
    case True
    have "xPendedTicks s = 0" "\<not> pending s t" for t using none [OF True] by auto
    from resume_exact [OF d(2) True d(5) this] r(1)
    have "y = xYieldPendings s" "s' = (if y then portYIELD else id) (s\<lparr>uxSchedulerSuspended := 0\<rparr>)" by auto
    with True r show ?thesis
      by (intro exI [of _ y] exI [of _ s']) (cases y; simp add: same_tasks_def portYIELD_def)
  next
    case False
    then have "uxSchedulerSuspended s - 1 \<noteq> 0" by (simp add: eq_diff_eq [symmetric])
    then have "xTaskResumeAll s = Some (False, s\<lparr>uxSchedulerSuspended := uxSchedulerSuspended s - 1\<rparr>)"
      using sus by (simp add: xTaskResumeAll_def)
    with r(1) have "\<not> y" "s' = s\<lparr>uxSchedulerSuspended := uxSchedulerSuspended s - 1\<rparr>" by auto
    with False r show ?thesis by (intro exI [of _ y] exI [of _ s']) (simp add: same_tasks_def)
  qed
qed

text \<open>The tasks that wait on list \<open>l\<close> for something that \<open>bits\<close> has.\<close>

definition waits_met :: "nat \<Rightarrow> u32 \<Rightarrow> sched \<Rightarrow> nat \<Rightarrow> bool" where
  "waits_met l bits s t \<longleftrightarrow> at s (event_item t) = Some l \<and> match_found (event_bits s t) bits"

lemma after_wakes_yield:
  assumes "after_wakes P v s s1" "lists s' = lists s1" "clock s' = clock s1"
    and "same_tasks (s1\<lparr>uxSchedulerSuspended := n, yield_requested := y\<rparr>) s'"
  shows "after_wakes P v (s\<lparr>uxSchedulerSuspended := n, yield_requested := y\<rparr>) s'"
proof -
  have "awake P (s\<lparr>uxSchedulerSuspended := n, yield_requested := y\<rparr>) = awake P s" by (simp add: awake_def fun_eq_iff)
  moreover have "remaining s' = remaining s1" "remaining (s\<lparr>uxSchedulerSuspended := n, yield_requested := y\<rparr>) = remaining s"
    using assms(2,3) by (simp_all add: remaining_def fun_eq_iff)
  ultimately show ?thesis using assms by (simp add: after_wakes_def same_tasks_def)
qed

lemma set_bits_run:
  fixes w :: eg_world
  defines "s \<equiv> os w" and "l \<equiv> xTasksWaitingForBits (obj w)"
  assumes ok: "steady E i s" and act: "acting s" and less: "uxSchedulerSuspended s < 0xFFFFFFFF" and l: "l \<in> E"
    and valid: "uxBitsToSet AND eventEVENT_BITS_CONTROL_BYTES = 0" and bits: "bits = uxEventBits (obj w) OR uxBitsToSet"
  shows "\<exists>v w' y. xEventGroupSetBits uxBitsToSet w = Some (v, w') \<and> obj w' = (obj w)\<lparr>uxEventBits := v\<rparr> \<and>
    (\<forall>n. bit v n \<longleftrightarrow> bit bits n \<and> \<not> (\<exists>t. waits_met l bits s t \<and> bit (bits_to_clear (event_bits s t)) n)) \<and>
    steady E i (os w') \<and> after_wakes (waits_met l bits s) (released bits) (s\<lparr>yield_requested := yield_requested s \<or> y\<rparr>) (os w') \<and>
    (uxSchedulerSuspended s = 0 \<and> (\<exists>t. waits_met l bits s t \<and> uxPriority s (pxCurrentTCB s) < uxPriority s t) \<longrightarrow>
      yield_requested (os w'))"
proof -
  let ?s = "vTaskSuspendAll s"
  note d = steadyD [OF ok]
  have ok1: "steady E i ?s" by (rule suspend_all_steady [OF ok act less])
  have sus1: "uxSchedulerSuspended ?s \<noteq> 0" using suspend_counts [OF less] by simp
  have "l \<in> {0..9} \<union> E" using l by simp
  from linked_ring [OF core_linked(1) [OF d(2)] this] obtain js where r: "ring (lists s) l js" by blast
  then have head: "pxNext (lists ?s) (End l) = first_ptr js (End l)"
    using links_ends [of "lists s" "End l" "[]" js "End l"] by (simp add: ring_def)
  have r1: "ring (lists ?s) l ([] @ js)" using r by simp
  have met: "met_in js bits ?s = waits_met l bits s"
    using ring_container [OF r] by (auto simp: met_in_def waits_met_def fun_eq_iff)
  from set_bits_loop_run [OF ok1 sus1 l r1, of bits 0] obtain c s2 where
    s2: "set_bits_loop l bits 0 (pxNext (lists ?s) (End l)) ?s = Some (c, s2)" "steady E i s2"
      "after_wakes (waits_met l bits s) (released bits) ?s s2"
      "\<And>n. bit c n \<longleftrightarrow> (\<exists>t. waits_met l bits s t \<and> bit (bits_to_clear (event_bits s t)) n)"
    unfolding head met by auto
  have sus2: "uxSchedulerSuspended s2 = uxSchedulerSuspended s + 1" "xPendedTicks s2 = xPendedTicks s"
    using s2(3) by (simp_all add: after_wakes_def same_tasks_def)
  have "xPendedTicks s2 = 0 \<and> (\<forall>t. \<not> pending s2 t)" if "uxSchedulerSuspended s2 = 1"
  proof -
    from that have "uxSchedulerSuspended s = 0" by (simp add: sus2)
    from steady_no_resumed [OF ok this] s2(3) show ?thesis by (simp add: sus2 after_wakes_def pending_def)
  qed
  from resume_same [OF s2(2) _ this] suspend_counts [OF less] obtain y s' where
    s': "xTaskResumeAll s2 = Some (y, s')" "steady E i s'" "lists s' = lists s2" "clock s' = clock s2"
      "same_tasks (s2\<lparr>uxSchedulerSuspended := uxSchedulerSuspended s, yield_requested := yield_requested s2 \<or> y\<rparr>) s'"
      "uxSchedulerSuspended s2 = 1 \<Longrightarrow> y = xYieldPendings s2" by (auto simp: sus2)
  have y2: "yield_requested s2 = yield_requested s" using s2(3) by (simp add: after_wakes_def same_tasks_def)
  have w: "after_wakes (waits_met l bits s) (released bits) (s\<lparr>yield_requested := yield_requested s \<or> y\<rparr>) s'"
    using after_wakes_yield [OF s2(3) s'(3-5)] by (simp add: y2 vTaskSuspendAll_def)
  have "yield_requested s'" if "uxSchedulerSuspended s = 0" and t: "waits_met l bits s t" "uxPriority s (pxCurrentTCB s) < uxPriority s t" for t
  proof -
    have "ready s2 t" using s2(3) t(1) ready_awake [OF steadyD(2) [OF ok1], of s2] by (simp add: after_wakes_def)
    with t(2) s2(3) have "\<not> top_ready s2 (pxCurrentTCB s2)"
      by (auto simp: top_ready_def after_wakes_def same_tasks_def not_le)
    with steadyD(8) [OF s2(2)] have "yield_requested s2 \<or> xYieldPendings s2" by (auto simp: preempting_def)
    with s'(5,6) that(1) show ?thesis by (auto simp: same_tasks_def sus2)
  qed
  moreover have "xEventGroupSetBits uxBitsToSet w = Some (bits AND NOT c, w\<lparr>os := s', obj := (obj w)\<lparr>uxEventBits := bits AND NOT c\<rparr>\<rparr>)"
    using s2(1) s'(1) valid by (simp add: xEventGroupSetBits_def s_def l_def bits Let_def)
  moreover have "bit (bits AND NOT c) n \<longleftrightarrow> bit bits n \<and> \<not> (\<exists>t. waits_met l bits s t \<and> bit (bits_to_clear (event_bits s t)) n)" for n
    using bit_imp_le_length [of bits n] by (auto simp: bit_and_iff bit_not_iff s2(4))
  ultimately show ?thesis using w s'(2)
    by (intro exI [of _ "bits AND NOT c"] exI [of _ "w\<lparr>os := s', obj := (obj w)\<lparr>uxEventBits := bits AND NOT c\<rparr>\<rparr>"] exI [of _ y]) auto
qed

end
