(* ===== verification/Rtos_EventGroup_Wait.thy ===== *)
theory Rtos_EventGroup_Wait
  imports Rtos_EventGroup_Wake
begin

text \<open>
  Waiting for event bits: the calling task goes on the list of the group with what it asks for as the
  value of its event item, and what its call comes to when it runs again.
\<close>

section \<open>Going on the list of the group\<close>

lemma place_unordered_run:
  assumes live: "live_ok E s" and r: "ready s (pxCurrentTCB s)" and l: "l \<in> E" and n: "n \<noteq> 0"
    and sus: "uxSchedulerSuspended s \<noteq> 0"
  shows "\<exists>s'. vTaskPlaceOnUnorderedEventList l v n s = Some s' \<and> live_ok E s' \<and>
    at s' = (at s)(event_item (pxCurrentTCB s) := Some l,
                   state_item (pxCurrentTCB s) := Some (blocked_list n True s)) \<and>
    (\<forall>t. event_bits s' t =
       (if t = pxCurrentTCB s then v OR taskEVENT_LIST_ITEM_VALUE_IN_USE else event_bits s t)) \<and>
    remaining s' = (remaining s)(pxCurrentTCB s := (if n = portMAX_DELAY then None else Some (unat n))) \<and>
    clock s' = clock s \<and> uxSchedulerSuspended s' = uxSchedulerSuspended s \<and> xPendedTicks s' = xPendedTicks s \<and>
    uxPriority s' = uxPriority s \<and> pxCurrentTCB s' = pxCurrentTCB s \<and>
    uxCurrentNumberOfTasks s' = uxCurrentNumberOfTasks s"
proof -
  let ?t = "pxCurrentTCB s" let ?v = "v OR taskEVENT_LIST_ITEM_VALUE_IN_USE"
  define s0 where "s0 = listSET_LIST_ITEM_VALUE (event_item ?t) ?v s"
  have f0: "pxCurrentTCB s0 = ?t" "at s0 = at s" by (simp_all add: s0_def)
  have live0: "live_ok E s0" and rem0: "remaining s0 = remaining s"
    unfolding s0_def by (rule live_set_value [OF live])+
  then have c: "core_ok E s0" by (simp add: live_ok_def base_core)
  have r0: "ready s0 (pxCurrentTCB s0)" using r by (simp add: ready_def f0)
  have "at s0 (state_item ?t) = Some (unat (uxPriority s0 ?t))"
    using ready_at [OF core_linked(2) [OF c] r0] by (simp add: f0)
  note b = task_items [OF c this]
  let ?s1 = "on_lists (vListInsertEnd l (event_item ?t)) s0"
  have "l \<notin> sorted_lists" using core_linked(7) [OF c l] by auto
  with insert_end_moves [OF core_linked(1) [OF c] ready_no_event [OF c r0] _ _ _] l b(1,2)
  have k: "kept_linked ({0..9} \<union> E) s0 ((at s0)(event_item (pxCurrentTCB s0) := Some l)) (uxTopReadyPriority s0) ?s1"
    by (simp add: f0)
  then have rel: "relinked s0 ?s1" and at1: "at ?s1 = (at s)(event_item ?t := Some l)"
    by (simp_all add: kept_linked_def f0)
  note f1 = relinked_fields [OF rel]
  from block_run [OF may_block_event [OF live0 r0 l k] n, of True] obtain s' where
    s': "prvAddCurrentTaskToDelayedList n True ?s1 = Some s'" "live_ok E s'" "blocked_state ({0..9} \<union> E) n True ?s1 s'"
      "remaining s' = (remaining ?s1)(pxCurrentTCB ?s1 := (if n = portMAX_DELAY then None else Some (unat n)))" by auto
  note f = blocked_fields [OF s'(3)]
  have rem1: "remaining ?s1 = remaining s" unfolding rem0 [symmetric] by (simp add: remaining_def at1 f1 f0 fun_eq_iff)
  have val: "event_bits s' t = (if t = ?t then ?v else event_bits s t)" for t
    using s'(3) by (simp add: blocked_state_def Let_def f1) (simp add: s0_def)
  have "vTaskPlaceOnUnorderedEventList l v n s = Some s'"
    using sus s'(1) by (simp add: vTaskPlaceOnUnorderedEventList_def s0_def)
  then show ?thesis
    using s'(2,4) val by (intro exI [of _ s']) (simp add: f f1 blocked_at [OF s'(3)] at1 rem1 blocked_list_def, simp add: s0_def)
qed

text \<open>The state of the scheduler after the calling task went to wait, before another task runs.\<close>

definition waits_for :: "nat set \<Rightarrow> nat \<Rightarrow> nat \<Rightarrow> u32 \<Rightarrow> u32 \<Rightarrow> sched \<Rightarrow> sched \<Rightarrow> bool" where
  "waits_for E i l v n s s' \<longleftrightarrow>
     (let t = pxCurrentTCB s
      in steady E i s' \<and> yield_requested s' \<and> uxSchedulerSuspended s' = 0 \<and>
         at s' = (at s)(event_item t := Some l, state_item t := Some (blocked_list n True s)) \<and>
         (\<forall>u. event_bits s' u = (if u = t then v OR taskEVENT_LIST_ITEM_VALUE_IN_USE else event_bits s u)) \<and>
         remaining s' = (remaining s)(t := (if n = portMAX_DELAY then None else Some (unat n))) \<and>
         clock s' = clock s \<and> uxPriority s' = uxPriority s \<and> pxCurrentTCB s' = t)"

lemma wait_suspended_run:
  assumes ok: "steady E i s" and sus: "uxSchedulerSuspended s = 1" and none: "xPendedTicks s = 0" "\<And>t. \<not> pending s t"
    and cur: "pxCurrentTCB s \<noteq> i" and l: "l \<in> E" and n: "n \<noteq> 0"
  shows "\<exists>s1 s'. vTaskPlaceOnUnorderedEventList l v n s = Some s1 \<and>
    resume_and_yield True s1 = Some s' \<and> waits_for E i l v n s s'"
proof -
  let ?t = "pxCurrentTCB s"
  note d = steadyD [OF ok]
  have r: "ready s ?t" using d(7) sus by (simp add: acting_def)
  from place_unordered_run [OF d(1) r l n, of v] sus obtain s1 where
    s1: "vTaskPlaceOnUnorderedEventList l v n s = Some s1" "live_ok E s1"
      "at s1 = (at s)(event_item ?t := Some l, state_item ?t := Some (blocked_list n True s))"
      "\<And>t. event_bits s1 t = (if t = ?t then v OR taskEVENT_LIST_ITEM_VALUE_IN_USE else event_bits s t)"
      "remaining s1 = (remaining s)(?t := (if n = portMAX_DELAY then None else Some (unat n)))"
      "clock s1 = clock s" "uxSchedulerSuspended s1 = 1" "xPendedTicks s1 = xPendedTicks s"
      "uxPriority s1 = uxPriority s" "pxCurrentTCB s1 = ?t" "uxCurrentNumberOfTasks s1 = uxCurrentNumberOfTasks s"
    by auto
  have i: "ready s1 i" using d(4) cur by (auto simp: ready_def s1(3))
  have num: "uxCurrentNumberOfTasks s1 > 0" using d(5) s1(11) by simp
  have "9 < l" using core_linked(7) [OF d(2) l] .
  then have none1: "xPendedTicks s1 = 0" "\<not> pending s1 t" for t
    using none by (auto simp: s1(3,8) pending_def)
  have core: "core_ok E s1" using s1(2) by (simp add: live_ok_def base_core)
  define s' where "s' = portYIELD (s1\<lparr>uxSchedulerSuspended := 0\<rparr>)"
  have e: "map_option yield_unless (xTaskResumeAll s1) = Some s'"
    using resume_exact [OF core s1(7) num none1] by (simp add: s'_def yield_unless_def)
  from resume_and_yield [OF s1(2) i s1(7) num] e have "steady E i s'" by auto
  moreover have "remaining s' = remaining s1" by (simp add: s'_def remaining_def fun_eq_iff)
  ultimately have "waits_for E i l v n s s'"
    using s1 by (simp add: waits_for_def Let_def) (simp add: s'_def)
  moreover have "resume_and_yield True s1 = Some s'"
    using resume_exact [OF core s1(7) num none1] by (simp add: s'_def resume_and_yield_def)
  ultimately show ?thesis using s1(1) by blast
qed

lemma wait_run:
  assumes ok: "steady E i s" and run: "uxSchedulerSuspended s = 0" and act: "\<not> yield_requested s"
    and cur: "pxCurrentTCB s \<noteq> i" and l: "l \<in> E" and n: "n \<noteq> 0"
  shows "\<exists>s1 s'. vTaskPlaceOnUnorderedEventList l v n (vTaskSuspendAll s) = Some s1 \<and>
    resume_and_yield True s1 = Some s' \<and> waits_for E i l v n s s'"
proof -
  let ?s = "vTaskSuspendAll s"
  have "steady E i ?s" using ok run act by (intro suspend_all_steady) (simp_all add: acting_def)
  moreover have "xPendedTicks ?s = 0" "\<not> pending ?s t" for t
    using steady_no_resumed(1,2) [OF ok run] by (simp_all add: pending_def)
  moreover have "waits_for E i l v n ?s s' = waits_for E i l v n s s'" for s'
    by (simp add: waits_for_def blocked_list_def)
  ultimately show ?thesis using wait_suspended_run [of E i ?s l n v] run cur l n by simp
qed

section \<open>What a task asks for\<close>

text \<open>The value of the event item of a task that waits, and whether it is released by some bits.\<close>

definition asked :: "u32 \<Rightarrow> bool \<Rightarrow> bool \<Rightarrow> u32" where
  "asked b xClearOnExit xWaitForAllBits =
     b OR ((if xClearOnExit then eventCLEAR_EVENTS_ON_EXIT_BIT else 0) OR
       (if xWaitForAllBits then eventWAIT_FOR_ALL_BITS else 0))"

lemma mask_split:
  fixes b c m :: u32
  assumes "b AND m = 0" "c AND m = c"
  shows "(b OR c) AND m = c" "(b OR c) AND NOT m = b"
proof -
  have b: "\<not> (bit b n \<and> bit m n)" for n using arg_cong [OF assms(1), of "\<lambda>w. bit w n"] by (simp add: bit_and_iff)
  have c: "bit c n \<Longrightarrow> bit m n" for n using arg_cong [OF assms(2), of "\<lambda>w. bit w n"] by (simp add: bit_and_iff)
  show "(b OR c) AND m = c" "(b OR c) AND NOT m = b"
    using b c by (auto intro!: bit_word_eqI simp: bit_and_iff bit_or_iff bit_not_iff)
qed

lemma asked_split:
  assumes "b AND eventEVENT_BITS_CONTROL_BYTES = 0"
  shows "match_found (asked b clr all OR taskEVENT_LIST_ITEM_VALUE_IN_USE) bits \<longleftrightarrow> prvTestWaitCondition bits b all"
    "bits_to_clear (asked b clr all OR taskEVENT_LIST_ITEM_VALUE_IN_USE) = (if clr then b else 0)"
proof -
  define c :: u32 where "c = ((if clr then eventCLEAR_EVENTS_ON_EXIT_BIT else 0) OR
      (if all then eventWAIT_FOR_ALL_BITS else 0)) OR taskEVENT_LIST_ITEM_VALUE_IN_USE"
  have "c AND eventEVENT_BITS_CONTROL_BYTES = c" by (simp add: c_def)
  note m = mask_split [OF assms this]
  have a: "asked b clr all OR taskEVENT_LIST_ITEM_VALUE_IN_USE = b OR c"
    by (simp add: asked_def c_def or.assoc del: or.left_commute)
  have "c AND eventWAIT_FOR_ALL_BITS = 0 \<longleftrightarrow> \<not> all" "c AND eventCLEAR_EVENTS_ON_EXIT_BIT = 0 \<longleftrightarrow> \<not> clr"
    by (cases clr; cases all; simp add: c_def)+
  then show "match_found (asked b clr all OR taskEVENT_LIST_ITEM_VALUE_IN_USE) bits \<longleftrightarrow> prvTestWaitCondition bits b all"
    "bits_to_clear (asked b clr all OR taskEVENT_LIST_ITEM_VALUE_IN_USE) = (if clr then b else 0)"
    unfolding a match_found_def bits_to_clear_def Let_def m prvTestWaitCondition_def by (simp_all add: and.commute)
qed

text \<open>A task that was released by bits returns them.\<close>

lemma released_split:
  assumes "bits AND eventEVENT_BITS_CONTROL_BYTES = 0"
  shows "released bits AND eventUNBLOCKED_DUE_TO_BIT_SET \<noteq> 0" "released bits AND NOT eventEVENT_BITS_CONTROL_BYTES = bits"
proof -
  have c: "(0x82000000 :: u32) AND eventEVENT_BITS_CONTROL_BYTES = 0x82000000" by simp
  have r: "released bits = bits OR 0x82000000" by (simp add: released_def or.assoc)
  show "released bits AND NOT eventEVENT_BITS_CONTROL_BYTES = bits" using mask_split(2) [OF assms c] by (simp add: r)
  have "bit (released bits AND eventUNBLOCKED_DUE_TO_BIT_SET) 25"
    by (simp add: r bit_and_iff bit_or_iff)
  then show "released bits AND eventUNBLOCKED_DUE_TO_BIT_SET \<noteq> 0" by (metis bit_0_eq bot_apply bot_bool_def)
qed

section \<open>The next task runs\<close>

lemma switch_values: "vPortYieldISR s = Some s' \<Longrightarrow> xItemValue (lists s') = xItemValue (lists s)"
  by (auto simp: vPortYieldISR_def vTaskSwitchContext_def taskSELECT_HIGHEST_PRIORITY_TASK_def Let_def
      listGET_OWNER_OF_NEXT_ENTRY_def split: if_splits)

lemma other_runs:
  assumes w: "waits_for E i l v n s s'" and c: "core_ok E s"
  shows "\<exists>k. vPortYieldISR s' = Some k \<and> steady E i k \<and> at k = at s' \<and> \<not> yield_requested k \<and>
    uxSchedulerSuspended k = 0 \<and> uxPriority k = uxPriority s \<and> (\<forall>u. event_bits k u = event_bits s' u) \<and>
    (\<forall>u. ready k u \<longleftrightarrow> u \<noteq> pxCurrentTCB s \<and> ready s u) \<and> top_ready k (pxCurrentTCB k)"
proof -
  from w have f: "steady E i s'" "uxSchedulerSuspended s' = 0" "uxPriority s' = uxPriority s"
    "at s' = (at s)(event_item (pxCurrentTCB s) := Some l, state_item (pxCurrentTCB s) := Some (blocked_list n True s))"
    by (simp_all add: waits_for_def Let_def)
  from switch_steady [OF f(1,2)] obtain k where k: "vPortYieldISR s' = Some k" "steady E i k" "top_ready k (pxCurrentTCB k)"
    "at k = at s'" "\<not> yield_requested k" "uxSchedulerSuspended k = 0" "uxPriority k = uxPriority s'" by blast
  have "5 \<le> blocked_list n True s"
  proof -
    have "at s' (state_item (pxCurrentTCB s)) = Some (blocked_list n True s)" by (simp add: f(4))
    moreover have "\<not> ready s' (pxCurrentTCB s)"
    proof
      assume "ready s' (pxCurrentTCB s)"
      from ready_no_event [OF steadyD(2) [OF f(1)] this] show False by (simp add: f(4))
    qed
    ultimately show ?thesis by (auto simp: ready_def)
  qed
  then have "ready k u \<longleftrightarrow> u \<noteq> pxCurrentTCB s \<and> ready s u" for u by (auto simp: ready_def k(4) f(4))
  with k switch_values [OF k(1)] f(3) show ?thesis by auto
qed

end
