(* ===== verification/Rtos_EventGroup_Properties.thy ===== *)
theory Rtos_EventGroup_Properties
  imports Rtos_EventGroup_Wait Rtos_Kernel_Properties
begin

text \<open>
  What the calls of the event groups promise: which tasks a call releases and what they get, what a wait
  comes to, and the rendezvous of several tasks. The witnesses start from the state main leads to.
\<close>

section \<open>A group beside the tasks of main\<close>

definition group_world :: "u32 \<Rightarrow> sched \<Rightarrow> eg_world" where
  "group_world bits s = \<lparr>os = s, obj = \<lparr>uxEventBits = bits, xTasksWaitingForBits = 10\<rparr>\<rparr>"

lemma group_world_fields [simp]:
  "os (group_world bits s) = s" "uxEventBits (obj (group_world bits s)) = bits"
  "xTasksWaitingForBits (obj (group_world bits s)) = 10"
  by (simp_all add: group_world_def)

definition group_main :: "nat \<Rightarrow> nat \<Rightarrow> nat \<Rightarrow> sched \<Rightarrow> bool" where
  "group_main t u i s \<longleftrightarrow> (\<exists>h s0. main_state = Some ([t, u], i, h, s0) \<and> s = on_lists (vListInitialise 10) s0)"

lemma main_group:
  obtains t u i s where "group_main t u i s" "steady {10} i s" "pxCurrentTCB s = u" "uxSchedulerSuspended s = 0"
    "\<not> yield_requested s" "uxPriority s t = 1" "uxPriority s u = 2" "uxPriority s i = 0" "distinct [i, t, u]"
    "\<And>x. ready s x \<longleftrightarrow> x \<in> {i, t, u}" "\<And>x. at s (event_item x) \<noteq> Some 10"
proof -
  obtain t u i h s where m: "main_state = Some ([t, u], i, h, s)" "reachable i {} s" "started_with t u i s"
    by (rule main_reachable)
  define s' where "s' = on_lists (vListInitialise 10) s"
  have ok: "steady {} i s" by (rule reachable_steady [OF m(2)])
  have "steady {10} i s'" using steady_new_list [OF ok, of 10] by (simp add: s'_def)
  moreover have at': "at s' = at s" by (simp add: s'_def on_lists_def vListInitialise_def Let_def set_next_def set_previous_def)
  moreover have "at s (event_item x) \<noteq> Some 10" for x
  proof
    assume "at s (event_item x) = Some 10"
    then have "10 = (7 :: nat) \<or> 10 \<in> ({} :: nat set)"
      using core_linked(2) [OF steadyD(2) [OF ok]] unfolding placed_ok_def by blast
    then show False by simp
  qed
  moreover have "ready s' x \<longleftrightarrow> x \<in> {i, t, u}" for x 
  proof -
    have "Collect (ready s) = {i, t, u}" using m(3) by (simp add: started_with_def)
    then have "ready s x \<longleftrightarrow> x \<in> {i, t, u}" by blast
    then show ?thesis by (simp add: ready_def at')
  qed
  moreover have "group_main t u i s'" using m(1) unfolding group_main_def s'_def by blast
  moreover have "pxCurrentTCB s' = pxCurrentTCB s" "uxSchedulerSuspended s' = uxSchedulerSuspended s"
    "yield_requested s' = yield_requested s" "uxPriority s' = uxPriority s" by (simp_all add: s'_def on_lists_def)
  ultimately show ?thesis using that [of t u i s'] m(3) by (simp add: started_with_def)
qed

text \<open>The second task waits for all of the bits \<open>b\<close>, which are then cleared, and the first task runs.\<close>

lemma main_waiter:
  obtains t u i s s' k where "group_main t u i s" "waits_for {10} i 10 (asked b True True) 50 s s'"
    "vPortYieldISR s' = Some k" "steady {10} i k" "pxCurrentTCB k = t" "uxSchedulerSuspended k = 0" "\<not> yield_requested k"
    "uxPriority k t < uxPriority k u" "t \<noteq> i" "at k (event_item u) = Some 10"
    "event_bits k u = asked b True True OR taskEVENT_LIST_ITEM_VALUE_IN_USE"
proof -
  obtain t u i s where m: "group_main t u i s" "steady {10} i s" "pxCurrentTCB s = u" "uxSchedulerSuspended s = 0"
    "\<not> yield_requested s" "uxPriority s t = 1" "uxPriority s u = 2" "uxPriority s i = 0" "distinct [i, t, u]"
    "\<And>x. ready s x \<longleftrightarrow> x \<in> {i, t, u}" by (rule main_group) blast
  have "pxCurrentTCB s \<noteq> i" "(10 :: nat) \<in> {10}" "(50 :: u32) \<noteq> 0" using m(3,9) by auto
  from wait_run [OF m(2,4,5) this, of "asked b True True"] obtain s' where
    s': "waits_for {10} i 10 (asked b True True) 50 s s'" by blast
  from other_runs [OF this steadyD(2) [OF m(2)]] obtain k where k: "vPortYieldISR s' = Some k" "steady {10} i k" "at k = at s'"
    "\<not> yield_requested k" "uxSchedulerSuspended k = 0" "uxPriority k = uxPriority s" "\<And>x. event_bits k x = event_bits s' x"
    "\<And>x. ready k x \<longleftrightarrow> x \<noteq> u \<and> ready s x" "top_ready k (pxCurrentTCB k)" unfolding m(3) by blast
  have "pxCurrentTCB k \<in> {i, t}" "uxPriority k t \<le> uxPriority k (pxCurrentTCB k)"
    using k(8,9) m(9,10) by (auto simp: top_ready_def)
  then have "pxCurrentTCB k = t" using m(6,8) by (auto simp: k(6))
  moreover have "at k (event_item u) = Some 10" "event_bits k u = asked b True True OR taskEVENT_LIST_ITEM_VALUE_IN_USE"
    using s' m(3) by (simp_all add: waits_for_def Let_def k(3,7))
  moreover have "uxPriority k t < uxPriority k u" using m(6,7) by (simp add: k(6))
  ultimately show ?thesis using that m(1,9) s' k(1,2,4,5) by auto
qed

section \<open>Setting bits\<close>

text \<open>
  C10: xEventGroupSetBits releases exactly the tasks whose condition the new bits meet. Called by a running
  task with the scheduler running or suspended, it returns; every task that waits for bits that are set now,
  any or all as it asked, is ready, with the bits stored in its event item, and every other task is where it
  was with as many ticks left. The bits that remain are those of the group and the new ones, without those
  that released tasks asked to have cleared. A switch is requested if a released task has a higher priority
  than the caller and the scheduler is not suspended.
\<close>
theorem set_bits_releases_waiters:
  fixes w :: eg_world
  defines "s \<equiv> os w" and "l \<equiv> xTasksWaitingForBits (obj w)"
  assumes "steady E i s" "acting s" "uxSchedulerSuspended s < 0xFFFFFFFF" "l \<in> E" "uxBitsToSet AND 0xFF000000 = 0"
    and "bits = uxEventBits (obj w) OR uxBitsToSet"
    and "met = (\<lambda>t. at s (event_item t) = Some l \<and> match_found (event_bits s t) bits)"
  shows "\<exists>v w'. xEventGroupSetBits uxBitsToSet w = Some (v, w') \<and> obj w' = (obj w)\<lparr>uxEventBits := v\<rparr> \<and>
    (\<forall>n. bit v n \<longleftrightarrow> bit bits n \<and> \<not> (\<exists>t. met t \<and> bit (bits_to_clear (event_bits s t)) n)) \<and>
    steady E i (os w') \<and> at (os w') = awake met s \<and>
    (\<forall>t. event_bits (os w') t = (if met t then bits OR 0x02000000 OR 0x80000000 else event_bits s t)) \<and>
    (\<forall>t. remaining (os w') t = (if met t then None else remaining s t)) \<and>
    (uxSchedulerSuspended s = 0 \<and> (\<exists>t. met t \<and> uxPriority s (pxCurrentTCB s) < uxPriority s t) \<longrightarrow>
      yield_requested (os w'))"
proof -
  have met: "met = waits_met l bits s" by (simp add: assms(9) waits_met_def [abs_def])
  from set_bits_run [OF assms(3-8) [unfolded s_def l_def]] obtain v w' y where
    "xEventGroupSetBits uxBitsToSet w = Some (v, w')" "obj w' = (obj w)\<lparr>uxEventBits := v\<rparr>"
    "\<forall>n. bit v n \<longleftrightarrow> bit bits n \<and> \<not> (\<exists>t. met t \<and> bit (bits_to_clear (event_bits s t)) n)"
    "steady E i (os w')" "after_wakes met (released bits) (s\<lparr>yield_requested := yield_requested s \<or> y\<rparr>) (os w')"
    "uxSchedulerSuspended s = 0 \<and> (\<exists>t. met t \<and> uxPriority s (pxCurrentTCB s) < uxPriority s t) \<longrightarrow>
      yield_requested (os w')" unfolding met s_def l_def by blast
  moreover have "awake met (s\<lparr>yield_requested := z\<rparr>) = awake met s" "remaining (s\<lparr>yield_requested := z\<rparr>) = remaining s" for z
    by (simp_all add: awake_def remaining_def fun_eq_iff)
  ultimately show ?thesis
    by (intro exI [of _ v] exI [of _ w']) (simp add: after_wakes_def released_def)
qed

theorem set_bits_releases_waiters_witness:
  "\<exists>t u i s s' k v w'. group_main t u i s \<and> waits_for {10} i 10 (asked 1 True True) 50 s s' \<and> vPortYieldISR s' = Some k \<and>
     pxCurrentTCB k = t \<and> xEventGroupSetBits 1 (group_world 0 k) = Some (v, w') \<and> \<not> bit v 0 \<and> yield_requested (os w') \<and>
     at (os w') (event_item u) = None"
proof -
  obtain t u i s s' k where m: "group_main t u i s" "waits_for {10} i 10 (asked 1 True True) 50 s s'"
    "vPortYieldISR s' = Some k" "steady {10} i k" "pxCurrentTCB k = t" "uxSchedulerSuspended k = 0" "\<not> yield_requested k"
    "uxPriority k t < uxPriority k u" "at k (event_item u) = Some 10"
    "event_bits k u = asked 1 True True OR taskEVENT_LIST_ITEM_VALUE_IN_USE" by (rule main_waiter)
  let ?w = "group_world 0 k"
  have a: "steady {10} i (os ?w)" "acting (os ?w)" "uxSchedulerSuspended (os ?w) < 0xFFFFFFFF"
    "xTasksWaitingForBits (obj ?w) \<in> {10}" "(1 :: u32) AND 0xFF000000 = 0" "1 = uxEventBits (obj ?w) OR 1"
    using m(4-7) by (simp_all add: acting_def)
  have u: "match_found (event_bits k u) 1" "bits_to_clear (event_bits k u) = 1"
    unfolding m(10) using asked_split(1) [of 1 True True 1] asked_split(2) [of 1 True True] by (simp_all add: prvTestWaitCondition_def)
  from set_bits_releases_waiters [OF a refl] obtain v w' where
    r: "xEventGroupSetBits 1 ?w = Some (v, w')"
    "\<forall>n. bit v n \<longleftrightarrow> bit (1 :: u32) n \<and> \<not> (\<exists>t. at k (event_item t) = Some 10 \<and> match_found (event_bits k t) 1 \<and> bit (bits_to_clear (event_bits k t)) n)"
    "at (os w') = awake (\<lambda>t. at k (event_item t) = Some 10 \<and> match_found (event_bits k t) 1) k"
    "(\<exists>t. at k (event_item t) = Some 10 \<and> match_found (event_bits k t) 1 \<and> uxPriority k (pxCurrentTCB k) < uxPriority k t) \<longrightarrow>
      yield_requested (os w')" using m(6) by auto
  have "\<not> bit v 0" using r(2) m(9) u by auto
  moreover have "yield_requested (os w')" using r(4) m(5,8,9) u(1) by blast
  moreover have "at (os w') (event_item u) = None" using r(3) m(9) u(1) by simp
  ultimately show ?thesis using m(1-3,5) r(1) by blast
qed

section \<open>Waiting for bits\<close>

text \<open>The rest of the program: the next task runs, sets bits, and the one that has to run after that runs.\<close>

definition another_sets :: "u32 \<Rightarrow> EventGroup_t surroundings" where
  "another_sets uxBitsToSet =
     \<lparr>rest_of_program = (\<lambda>w. do {
        w \<leftarrow> on_os vPortYieldISR w;
        (_, w) \<leftarrow> xEventGroupSetBits uxBitsToSet w;
        on_os vPortYieldISR w
      }), handlers = Some\<rparr>"

lemma suspend_resume:
  assumes ok: "steady E i s" and run: "uxSchedulerSuspended s = 0" and act: "\<not> yield_requested s"
  shows "\<exists>y s'. xTaskResumeAll (vTaskSuspendAll s) = Some (y, s') \<and> steady E i s' \<and> lists s' = lists s \<and>
    same_tasks (s\<lparr>yield_requested := y\<rparr>) s'"
proof -
  have ok1: "steady E i (vTaskSuspendAll s)" using ok run act by (intro suspend_all_steady) (simp_all add: acting_def)
  have none: "xPendedTicks (vTaskSuspendAll s) = 0 \<and> (\<forall>t. \<not> pending (vTaskSuspendAll s) t)"
    using steady_no_resumed(1,2) [OF ok run] by (simp add: pending_def)
  have "uxSchedulerSuspended (vTaskSuspendAll s) \<noteq> 0" using run by simp
  from resume_same [OF ok1 this none] obtain y s' where "xTaskResumeAll (vTaskSuspendAll s) = Some (y, s')" "steady E i s'"
    "lists s' = lists (vTaskSuspendAll s)"
    "same_tasks ((vTaskSuspendAll s)\<lparr>uxSchedulerSuspended := uxSchedulerSuspended (vTaskSuspendAll s) - 1,
       yield_requested := yield_requested (vTaskSuspendAll s) \<or> y\<rparr>) s'" by blast
  then show ?thesis using run act by (intro exI [of _ y] exI [of _ s']) (simp add: same_tasks_def, simp add: vTaskSuspendAll_def)
qed

text \<open>
  C13: What xEventGroupWaitBits comes to. If the bits asked for are there it returns the bits of the group and
  takes those asked for if that is wanted, without waiting; otherwise it returns the bits at once if the block
  time is 0, and in both cases no task moves. Otherwise the calling task is put on the list of the group and
  waits for the time asked for, with what it asks for in its event item, a switch is requested, and the result
  is what the event item says when it runs again.
\<close>
theorem wait_bits_outcome:
  fixes w :: eg_world
  defines "s \<equiv> os w" and "bits \<equiv> uxEventBits (obj w)"
  assumes "steady E i s" "uxSchedulerSuspended s = 0" "\<not> yield_requested s" "pxCurrentTCB s \<noteq> i"
    and "xTasksWaitingForBits (obj w) \<in> E" "b AND 0xFF000000 = 0" "b \<noteq> 0"
  shows "if prvTestWaitCondition bits b all
    then \<exists>s'. xEventGroupWaitBits P b clr all n w =
        Some (bits, w\<lparr>os := s', obj := (obj w)\<lparr>uxEventBits := (if clr then bits AND NOT b else bits)\<rparr>\<rparr>) \<and>
      steady E i s' \<and> lists s' = lists s \<and> pxCurrentTCB s' = pxCurrentTCB s
    else if n = 0
    then \<exists>s'. xEventGroupWaitBits P b clr all n w = Some (bits, w\<lparr>os := s'\<rparr>) \<and>
      steady E i s' \<and> lists s' = lists s \<and> pxCurrentTCB s' = pxCurrentTCB s
    else \<exists>s'. waits_for E i (xTasksWaitingForBits (obj w)) (asked b clr all) n s s' \<and>
      xEventGroupWaitBits P b clr all n w =
        map_option (bits_on_wake (\<lambda>v. prvTestWaitCondition v b all) (if clr then b else 0))
          (rest_of_program P (w\<lparr>os := s'\<rparr>))"
proof -
  have go: "\<not> (xTaskGetSchedulerState (os w) = taskSCHEDULER_SUSPENDED \<and> n \<noteq> 0)"
    using assms(4) by (simp add: xTaskGetSchedulerState_def s_def)
  from suspend_resume [OF assms(3-5)] obtain y s' where r: "xTaskResumeAll (vTaskSuspendAll s) = Some (y, s')"
    "steady E i s'" "lists s' = lists s" "pxCurrentTCB s' = pxCurrentTCB s" by (auto simp: same_tasks_def)
  note def = xEventGroupWaitBits_def Let_def on_os_def clear_bits_def
  show ?thesis
  proof (cases "prvTestWaitCondition bits b all")
    case True
    have "xEventGroupWaitBits P b clr all n w =
        Some (bits, w\<lparr>os := s', obj := (obj w)\<lparr>uxEventBits := (if clr then bits AND NOT b else bits)\<rparr>\<rparr>)"
      using go assms(8,9) True r(1) by (cases w) (simp add: def s_def bits_def)
    with True r show ?thesis by (simp only: if_True simp_thms) blast
  next
    case False
    note nmet = this
    show ?thesis
    proof (cases "n = 0")
      case True
      have "xEventGroupWaitBits P b clr all n w = Some (bits, w\<lparr>os := s'\<rparr>)"
        using go assms(8,9) nmet True r(1) by (simp add: def s_def bits_def)
      with True nmet r show ?thesis by auto
    next
      case False
      from wait_run [OF assms(3-7) False, of "asked b clr all"] obtain s1 s2 where
        1: "vTaskPlaceOnUnorderedEventList (xTasksWaitingForBits (obj w)) (asked b clr all) n (vTaskSuspendAll s) = Some s1"
          "resume_and_yield True s1 = Some s2" "waits_for E i (xTasksWaitingForBits (obj w)) (asked b clr all) n s s2" by blast
      have "xEventGroupWaitBits P b clr all n w =
          map_option (bits_on_wake (\<lambda>v. prvTestWaitCondition v b all) (if clr then b else 0)) (rest_of_program P (w\<lparr>os := s2\<rparr>))"
        using go assms(8,9) nmet False 1(1,2) by (simp add: def s_def bits_def asked_def after_block_def)
      with nmet False 1(3) show ?thesis by auto
    qed
  qed
qed

theorem wait_bits_outcome_witness:
  "\<exists>t u i s s'. group_main t u i s \<and> remaining s' u = Some 50 \<and> yield_requested s' \<and>
     xEventGroupWaitBits (another_sets 0) 6 False False 50 (group_world 1 s) =
       map_option (bits_on_wake (\<lambda>v. prvTestWaitCondition v 6 False) 0)
         (rest_of_program (another_sets 0) (group_world 1 s\<lparr>os := s'\<rparr>))"
proof -
  obtain t u i s where m: "group_main t u i s" "steady {10} i s" "pxCurrentTCB s = u" "uxSchedulerSuspended s = 0"
    "\<not> yield_requested s" "distinct [i, t, u]" by (rule main_group) blast
  let ?w = "group_world 1 s"
  have a: "steady {10} i (os ?w)" "uxSchedulerSuspended (os ?w) = 0" "\<not> yield_requested (os ?w)" "pxCurrentTCB (os ?w) \<noteq> i"
    "xTasksWaitingForBits (obj ?w) \<in> {10}" "(6 :: u32) AND 0xFF000000 = 0" "(6 :: u32) \<noteq> 0" using m by simp_all
  have no: "\<not> prvTestWaitCondition (uxEventBits (obj ?w)) 6 False" by (simp add: prvTestWaitCondition_def)
  from wait_bits_outcome [OF a, of False "another_sets 0" False 50] no obtain s' where
    "waits_for {10} i 10 (asked 6 False False) 50 s s'"
    "xEventGroupWaitBits (another_sets 0) 6 False False 50 ?w =
       map_option (bits_on_wake (\<lambda>v. prvTestWaitCondition v 6 False) 0) (rest_of_program (another_sets 0) (?w\<lparr>os := s'\<rparr>))"
    by auto
  moreover from this(1) have "remaining s' u = Some 50" "yield_requested s'" by (simp_all add: waits_for_def Let_def m(3))
  ultimately show ?thesis using m(1) by blast
qed

section \<open>From the wait to the result\<close>

lemma top_after_wake:
  assumes c: "core_ok E k" and w: "at s = awake met k" "uxPriority s = uxPriority k"
    and s: "vPortYieldISR s = Some s'" "top_ready s' (pxCurrentTCB s')" "at s' = at s" "uxPriority s' = uxPriority s"
    and t: "met t" and high: "\<And>u. u \<noteq> t \<Longrightarrow> ready k u \<or> met u \<Longrightarrow> uxPriority k u < uxPriority k t"
  shows "pxCurrentTCB s' = t"
proof (rule ccontr)
  assume ne: "pxCurrentTCB s' \<noteq> t"
  have r: "ready s' u \<longleftrightarrow> met u \<or> ready k u" for u using ready_awake [OF c, of s' met] w(1) s(3) by simp
  from s(2) r t have "uxPriority s' t \<le> uxPriority s' (pxCurrentTCB s')" "ready s' (pxCurrentTCB s')"
    by (auto simp: top_ready_def)
  with high [OF ne] r s(4) w(2) show False by auto
qed

lemma released_result:
  assumes "event_bits (os w) (pxCurrentTCB (os w)) = released bits" "bits AND 0xFF000000 = 0"
  shows "bits_on_wake met c w = (bits, w\<lparr>os := snd (uxTaskResetEventItemValue (os w))\<rparr>)"
  using assms released_split [OF assms(2)]
  by (simp add: bits_on_wake_def uxTaskResetEventItemValue_def Let_def listGET_LIST_ITEM_VALUE_def)

lemma or_no_control: "(a :: u32) AND 0xFF000000 = 0 \<Longrightarrow> b AND 0xFF000000 = 0 \<Longrightarrow> (a OR b) AND 0xFF000000 = 0"
  by (simp add: and.commute [of _ "0xFF000000"] bit.conj_disj_distrib)

text \<open>
  C11: A task that waits for bits gets them. A task whose priority is above those of the other ready tasks and
  of the others that wait at the group calls xEventGroupWaitBits, for any time other than 0; the next task
  runs and sets bits that complete what is asked for. Then the first task runs again and its call returns the
  bits as they were when they were set; those that it asked to have cleared are cleared, the value of its event
  item is what its priority gives again, and the scheduler is in order.
\<close>
theorem waiter_gets_bits:
  fixes w :: eg_world
  defines "s \<equiv> os w" and "l \<equiv> xTasksWaitingForBits (obj w)" and "t \<equiv> pxCurrentTCB (os w)"
  assumes "steady E i s" "uxSchedulerSuspended s = 0" "\<not> yield_requested s" "t \<noteq> i" "l \<in> E"
    and "uxEventBits (obj w) AND 0xFF000000 = 0" "b AND 0xFF000000 = 0" "b \<noteq> 0" "uxBitsToSet AND 0xFF000000 = 0" "n \<noteq> 0"
    and "bits = uxEventBits (obj w) OR uxBitsToSet"
    and "\<not> prvTestWaitCondition (uxEventBits (obj w)) b all" "prvTestWaitCondition bits b all"
    and "\<And>u. u \<noteq> t \<Longrightarrow> ready s u \<or> at s (event_item u) = Some l \<Longrightarrow> uxPriority s u < uxPriority s t"
  shows "\<exists>w'. xEventGroupWaitBits (another_sets uxBitsToSet) b clr all n w = Some (bits, w') \<and>
    steady E i (os w') \<and> pxCurrentTCB (os w') = t \<and> event_bits (os w') t = 5 - uxPriority s t \<and>
    (clr \<longrightarrow> uxEventBits (obj w') AND b = 0) \<and> (\<forall>m. bit (uxEventBits (obj w')) m \<longrightarrow> bit bits m)"
proof -
  let ?asked = "asked b clr all"
  note d = steadyD [OF assms(4)]
  from wait_bits_outcome [OF assms(4-7,8,10,11) [unfolded s_def l_def t_def], where P = "another_sets uxBitsToSet" and all = all and clr = clr and n = n]
  obtain s1 where 1: "waits_for E i l ?asked n s s1"
    "xEventGroupWaitBits (another_sets uxBitsToSet) b clr all n w =
      map_option (bits_on_wake (\<lambda>v. prvTestWaitCondition v b all) (if clr then b else 0))
        (rest_of_program (another_sets uxBitsToSet) (w\<lparr>os := s1\<rparr>))"
    using assms(13,15) by (auto simp: s_def l_def)
  from other_runs [OF 1(1) d(2)] obtain k where k: "vPortYieldISR s1 = Some k" "steady E i k" "at k = at s1" "\<not> yield_requested k"
    "uxSchedulerSuspended k = 0" "uxPriority k = uxPriority s" "\<And>u. event_bits k u = event_bits s1 u"
    "\<And>u. ready k u \<longleftrightarrow> u \<noteq> t \<and> ready s u" "top_ready k (pxCurrentTCB k)" unfolding t_def s_def by blast
  have t1: "at k (event_item t) = Some l" "event_bits k t = ?asked OR taskEVENT_LIST_ITEM_VALUE_IN_USE"
    "\<And>u. u \<noteq> t \<Longrightarrow> at k (event_item u) = at s (event_item u)"
    using 1(1) by (simp_all add: waits_for_def Let_def k(3,7) t_def s_def)
  define w2 where "w2 = w\<lparr>os := k\<rparr>"
  define met where "met = waits_met l bits k"
  have mt: "met t" using t1(1,2) asked_split(1) [OF assms(10)] assms(16) by (simp add: met_def waits_met_def)
  have a: "steady E i (os w2)" "acting (os w2)" "uxSchedulerSuspended (os w2) < 0xFFFFFFFF" "xTasksWaitingForBits (obj w2) \<in> E"
    "bits = uxEventBits (obj w2) OR uxBitsToSet"
    using k assms(8,14) by (simp_all add: w2_def acting_def l_def)
  from set_bits_run [OF a(1-4) assms(12) a(5)] obtain v w3 where w3: "xEventGroupSetBits uxBitsToSet w2 = Some (v, w3)"
    "obj w3 = (obj w2)\<lparr>uxEventBits := v\<rparr>"
    "\<And>n. bit v n \<longleftrightarrow> bit bits n \<and> \<not> (\<exists>t. met t \<and> bit (bits_to_clear (event_bits k t)) n)"
    "steady E i (os w3)" "\<exists>y. after_wakes met (released bits) (k\<lparr>yield_requested := y\<rparr>) (os w3)"
    by (auto simp: w2_def met_def l_def)
  from w3(5) obtain y where aw: "after_wakes met (released bits) (k\<lparr>yield_requested := y\<rparr>) (os w3)" by blast
  have "awake met (k\<lparr>yield_requested := y\<rparr>) = awake met k" by (simp add: awake_def fun_eq_iff)
  with aw have f3: "at (os w3) = awake met k" "uxPriority (os w3) = uxPriority k" "uxSchedulerSuspended (os w3) = 0"
    "event_bits (os w3) t = released bits" using mt k(5) by (simp_all add: after_wakes_def same_tasks_def)
  from switch_steady [OF w3(4) f3(3)] obtain k' where k': "vPortYieldISR (os w3) = Some k'" "steady E i k'"
    "top_ready k' (pxCurrentTCB k')" "at k' = at (os w3)" "uxPriority k' = uxPriority (os w3)" by blast
  have high: "uxPriority k u < uxPriority k t" if "u \<noteq> t" "ready k u \<or> met u" for u
    using assms(17) [OF that(1)] that k(6,8) t1(3) by (auto simp: met_def waits_met_def)
  have cur: "pxCurrentTCB k' = t"
    by (rule top_after_wake [OF steadyD(2) [OF k(2)] f3(1,2) k'(1,3-5) mt high])
  have no: "bits AND 0xFF000000 = 0" unfolding assms(14) using or_no_control assms(9,12) by blast
  have ev: "event_bits (os (w3\<lparr>os := k'\<rparr>)) (pxCurrentTCB (os (w3\<lparr>os := k'\<rparr>))) = released bits"
    using switch_values [OF k'(1)] f3(4) by (simp add: cur)
  define w4 where "w4 = w3\<lparr>os := snd (uxTaskResetEventItemValue k')\<rparr>"
  have "rest_of_program (another_sets uxBitsToSet) (w\<lparr>os := s1\<rparr>) = Some (w3\<lparr>os := k'\<rparr>)"
    using k(1) w3(1) k'(1) by (simp add: another_sets_def on_os_def w2_def)
  then have "xEventGroupWaitBits (another_sets uxBitsToSet) b clr all n w = Some (bits, w4)"
    using 1(2) released_result [OF ev no] by (simp add: w4_def)
  moreover have os4: "os w4 = listSET_LIST_ITEM_VALUE (event_item t) (5 - uxPriority k' t) k'"
    by (simp add: w4_def uxTaskResetEventItemValue_def Let_def cur)
  moreover have "steady E i (os w4)" unfolding os4 by (rule steady_set_value [OF k'(2)])
  moreover have "uxPriority k' t = uxPriority s t" by (simp add: k'(5) f3(2) k(6))
  moreover have vb: "uxEventBits (obj w4) = v" by (simp add: w4_def w3(2))
  moreover have "v AND b = 0" if clr
  proof -
    have "bits_to_clear (event_bits k t) = b" using t1(2) asked_split(2) [OF assms(10), of clr all] that by simp
    then show ?thesis using w3(3) mt by (auto intro!: bit_word_eqI simp: bit_and_iff)
  qed
  ultimately show ?thesis using w3(3) cur by (intro exI [of _ w4]) simp
qed

theorem waiter_gets_bits_witness:
  "\<exists>t u i s w'. group_main t u i s \<and> pxCurrentTCB s = u \<and>
     xEventGroupWaitBits (another_sets 2) 3 True True 50 (group_world 1 s) = Some (3, w') \<and>
     pxCurrentTCB (os w') = u \<and> uxEventBits (obj w') AND 3 = 0"
proof -
  obtain t u i s where m: "group_main t u i s" "steady {10} i s" "pxCurrentTCB s = u" "uxSchedulerSuspended s = 0"
    "\<not> yield_requested s" "uxPriority s t = 1" "uxPriority s u = 2" "uxPriority s i = 0" "distinct [i, t, u]"
    "\<And>x. ready s x \<longleftrightarrow> x \<in> {i, t, u}" "\<And>x. at s (event_item x) \<noteq> Some 10" by (rule main_group) blast
  let ?w = "group_world 1 s"
  have a: "steady {10} i (os ?w)" "uxSchedulerSuspended (os ?w) = 0" "\<not> yield_requested (os ?w)" "pxCurrentTCB (os ?w) \<noteq> i"
    "xTasksWaitingForBits (obj ?w) \<in> {10}" "uxEventBits (obj ?w) AND 0xFF000000 = 0" "(3 :: u32) AND 0xFF000000 = 0"
    "(3 :: u32) \<noteq> 0" "(2 :: u32) AND 0xFF000000 = 0" "(50 :: u32) \<noteq> 0" "3 = uxEventBits (obj ?w) OR 2"
    "\<not> prvTestWaitCondition (uxEventBits (obj ?w)) 3 True" "prvTestWaitCondition 3 3 True"
    using m by (simp_all add: prvTestWaitCondition_def)
  have high: "uxPriority (os ?w) x < uxPriority (os ?w) (pxCurrentTCB (os ?w))"
    if "x \<noteq> pxCurrentTCB (os ?w)" "ready (os ?w) x \<or> at (os ?w) (event_item x) = Some (xTasksWaitingForBits (obj ?w))" for x
    using that m by auto
  from waiter_gets_bits [OF a high, of True] m(1,3) show ?thesis by auto
qed

section \<open>The rendezvous\<close>

text \<open>The bits are set with the scheduler suspended; the tasks that are released run after it is resumed.\<close>

lemma sync_sets:
  fixes w :: eg_world
  defines "s \<equiv> os w" and "l \<equiv> xTasksWaitingForBits (obj w)"
  assumes ok: "steady E i s" and run: "uxSchedulerSuspended s = 0" and act: "\<not> yield_requested s" and l: "l \<in> E"
    and valid: "uxBitsToSet AND 0xFF000000 = 0" and bits: "bits = uxEventBits (obj w) OR uxBitsToSet"
  obtains v k where "xEventGroupSetBits uxBitsToSet (w\<lparr>os := vTaskSuspendAll s\<rparr>) =
      Some (v, w\<lparr>os := k, obj := (obj w)\<lparr>uxEventBits := v\<rparr>\<rparr>)"
    "steady E i k" "at k = awake (waits_met l bits s) s" "uxSchedulerSuspended k = 1" "xPendedTicks k = 0" "\<And>t. \<not> pending k t"
    "\<And>t. event_bits k t = (if waits_met l bits s t then released bits else event_bits s t)"
    "\<And>n. bit v n \<longleftrightarrow> bit bits n \<and> \<not> (\<exists>t. waits_met l bits s t \<and> bit (bits_to_clear (event_bits s t)) n)"
    "pxCurrentTCB k = pxCurrentTCB s" "uxPriority k = uxPriority s"
proof -
  let ?s = "vTaskSuspendAll s" let ?w = "w\<lparr>os := vTaskSuspendAll s\<rparr>"
  have a: "steady E i (os ?w)" "acting (os ?w)" "uxSchedulerSuspended (os ?w) < 0xFFFFFFFF"
    "xTasksWaitingForBits (obj ?w) \<in> E" "bits = uxEventBits (obj ?w) OR uxBitsToSet"
    using suspend_all_steady [OF ok] run act l bits by (simp_all add: acting_def l_def)
  have met: "waits_met l bits ?s = waits_met l bits s" by (simp add: waits_met_def fun_eq_iff)
  have aw: "awake P (?s\<lparr>yield_requested := y\<rparr>) = awake P s" for P y by (simp add: awake_def fun_eq_iff)
  from set_bits_run [OF a(1-4) valid a(5)] obtain v w' y where
    1: "xEventGroupSetBits uxBitsToSet ?w = Some (v, w')" "obj w' = (obj w)\<lparr>uxEventBits := v\<rparr>" "steady E i (os w')"
      "after_wakes (waits_met l bits s) (released bits) (?s\<lparr>yield_requested := y\<rparr>) (os w')"
      "\<And>n. bit v n \<longleftrightarrow> bit bits n \<and> \<not> (\<exists>t. waits_met l bits s t \<and> bit (bits_to_clear (event_bits s t)) n)"
    by (auto simp: met [unfolded l_def] l_def)
  have w': "w' = w\<lparr>os := os w', obj := (obj w)\<lparr>uxEventBits := v\<rparr>\<rparr>"
    using 1(1,2) by (auto simp: xEventGroupSetBits_def Let_def split: if_splits bind_splits)
  from 1(4) have f: "at (os w') = awake (waits_met l bits s) s" "uxSchedulerSuspended (os w') = 1"
    "xPendedTicks (os w') = 0" "pxCurrentTCB (os w') = pxCurrentTCB s" "uxPriority (os w') = uxPriority s"
    "\<And>t. event_bits (os w') t = (if waits_met l bits s t then released bits else event_bits s t)"
    using run steady_no_resumed(1) [OF ok run] by (simp_all add: after_wakes_def same_tasks_def aw)
  have "\<not> pending (os w') t" for t
    using steady_no_resumed(2) [OF ok run, of t] by (simp add: pending_def f(1))
  with that [of v "os w'"] 1 w' f show ?thesis by metis
qed

text \<open>
  C12: xEventGroupSync is a rendezvous. The task that completes the bits asked for does not wait: its call
  returns all the bits, every task that waits there for the same bits is ready with all the bits as its
  result, so are the other tasks whose condition is met and no others, and the bits of the rendezvous are
  clear. A task that does not complete them has its own bits set first and then waits for all of them.
\<close>
theorem rendezvous:
  fixes w :: eg_world
  defines "s \<equiv> os w" and "l \<equiv> xTasksWaitingForBits (obj w)"
  assumes "steady E i s" "uxSchedulerSuspended s = 0" "\<not> yield_requested s" "pxCurrentTCB s \<noteq> i" "l \<in> E"
    and "uxBitsToSet AND 0xFF000000 = 0" "b AND 0xFF000000 = 0" "b \<noteq> 0" "n \<noteq> 0"
    and "bits = uxEventBits (obj w) OR uxBitsToSet"
  shows "if bits AND b = b
    then \<exists>w'. xEventGroupSync P uxBitsToSet b n w = Some (bits, w') \<and> steady E i (os w') \<and>
      at (os w') = awake (waits_met l bits s) s \<and> uxEventBits (obj w') AND b = 0 \<and>
      (\<forall>t. at s (event_item t) = Some l \<and> event_bits s t = asked b True True OR 0x80000000 \<longrightarrow>
         ready (os w') t \<and> event_bits (os w') t = released bits)
    else \<exists>v k s'. at k = awake (waits_met l bits s) s \<and>
      (\<forall>t. event_bits k t = (if waits_met l bits s t then released bits else event_bits s t)) \<and>
      (\<forall>m. bit v m \<longleftrightarrow> bit bits m \<and> \<not> (\<exists>t. waits_met l bits s t \<and> bit (bits_to_clear (event_bits s t)) m)) \<and>
      waits_for E i l (asked b True True) n k s' \<and>
      xEventGroupSync P uxBitsToSet b n w = map_option (bits_on_wake (\<lambda>v. v AND b = b) b)
        (rest_of_program P (w\<lparr>obj := (obj w)\<lparr>uxEventBits := v\<rparr>, os := s'\<rparr>))"
proof -
  from sync_sets [OF assms(3-5,7,8,12) [unfolded s_def l_def]] obtain v k where
    k: "xEventGroupSetBits uxBitsToSet (w\<lparr>os := vTaskSuspendAll s\<rparr>) = Some (v, w\<lparr>os := k, obj := (obj w)\<lparr>uxEventBits := v\<rparr>\<rparr>)"
      "steady E i k" "at k = awake (waits_met l bits s) s" "uxSchedulerSuspended k = 1" "xPendedTicks k = 0" "\<And>t. \<not> pending k t"
      "\<And>t. event_bits k t = (if waits_met l bits s t then released bits else event_bits s t)"
      "\<And>n. bit v n \<longleftrightarrow> bit bits n \<and> \<not> (\<exists>t. waits_met l bits s t \<and> bit (bits_to_clear (event_bits s t)) n)"
      "pxCurrentTCB k = pxCurrentTCB s" "uxPriority k = uxPriority s"
    unfolding s_def l_def by metis
  have go: "\<not> (xTaskGetSchedulerState (os w) = taskSCHEDULER_SUSPENDED \<and> n \<noteq> 0)"
    using assms(4) by (simp add: xTaskGetSchedulerState_def s_def)
  note def = xEventGroupSync_def Let_def on_os_def clear_bits_def
  show ?thesis
  proof (cases "bits AND b = b")
    case True
    from resume_same [OF k(2)] k(4-6) obtain y s' where
      r: "xTaskResumeAll k = Some (y, s')" "steady E i s'" "lists s' = lists k" by auto
    define w' where "w' = w\<lparr>os := s', obj := (obj w)\<lparr>uxEventBits := v AND NOT b\<rparr>\<rparr>"
    have "xEventGroupSync P uxBitsToSet b n w = Some (bits, w')"
      using go assms(9,10,12) True k(1) r(1) by (simp add: def s_def w'_def)
    moreover have "uxEventBits (obj w') AND b = 0" by (simp add: w'_def and.assoc)
    moreover have "ready s' t \<and> event_bits s' t = released bits"
      if "at s (event_item t) = Some l" "event_bits s t = asked b True True OR 0x80000000" for t
    proof -
      have "waits_met l bits s t"
        using that asked_split(1) [OF assms(9), of True True bits] True by (simp add: waits_met_def prvTestWaitCondition_def)
      with ready_awake [OF steadyD(2) [OF assms(3)], of s' "waits_met l bits s" t] k(3,7) r(3) show ?thesis by simp
    qed
    ultimately show ?thesis using True r(2,3) k(3) by (auto simp: w'_def)
  next
    case False
    from wait_suspended_run [OF k(2,4-6) _ assms(7,11), of "asked b True True"] assms(6) k(9) obtain s1 s' where
      1: "vTaskPlaceOnUnorderedEventList l (asked b True True) n k = Some s1" "resume_and_yield True s1 = Some s'"
        "waits_for E i l (asked b True True) n k s'" by metis
    have as: "b OR eventCLEAR_EVENTS_ON_EXIT_BIT OR eventWAIT_FOR_ALL_BITS = asked b True True" by (simp add: asked_def)
    have "xEventGroupSync P uxBitsToSet b n w = map_option (bits_on_wake (\<lambda>v. v AND b = b) b)
        (rest_of_program P (w\<lparr>obj := (obj w)\<lparr>uxEventBits := v\<rparr>, os := s'\<rparr>))"
      using go assms(9-12) False k(1) 1(1,2) unfolding def as by (simp add: s_def l_def after_block_def on_os_def)
    with False k(3,7,8) 1(3) show ?thesis by (simp only: if_False) blast
  qed
qed

theorem rendezvous_witness:
  "\<exists>t u i s s' k w'. group_main t u i s \<and> waits_for {10} i 10 (asked 3 True True) 50 s s' \<and> vPortYieldISR s' = Some k \<and>
     pxCurrentTCB k = t \<and> xEventGroupSync (another_sets 0) 1 3 50 (group_world 2 k) = Some (3, w') \<and>
     ready (os w') u \<and> event_bits (os w') u = released 3 \<and> uxEventBits (obj w') AND 3 = 0"
proof -
  obtain t u i s s' k where m: "group_main t u i s" "waits_for {10} i 10 (asked 3 True True) 50 s s'"
    "vPortYieldISR s' = Some k" "steady {10} i k" "pxCurrentTCB k = t" "uxSchedulerSuspended k = 0" "\<not> yield_requested k"
    "t \<noteq> i" "at k (event_item u) = Some 10"
    "event_bits k u = asked 3 True True OR taskEVENT_LIST_ITEM_VALUE_IN_USE" by (rule main_waiter)
  let ?w = "group_world 2 k"
  have a: "steady {10} i (os ?w)" "uxSchedulerSuspended (os ?w) = 0" "\<not> yield_requested (os ?w)" "pxCurrentTCB (os ?w) \<noteq> i"
    "xTasksWaitingForBits (obj ?w) \<in> {10}" "(1 :: u32) AND 0xFF000000 = 0" "(3 :: u32) AND 0xFF000000 = 0" "(3 :: u32) \<noteq> 0"
    "(50 :: u32) \<noteq> 0" "3 = uxEventBits (obj ?w) OR 1" using m(4-8) by simp_all
  from rendezvous [OF a, of "another_sets 0"] obtain w' where
    "xEventGroupSync (another_sets 0) 1 3 50 ?w = Some (3, w')" "uxEventBits (obj w') AND 3 = 0"
    "\<forall>t. at k (event_item t) = Some 10 \<and> event_bits k t = asked 3 True True OR 0x80000000 \<longrightarrow>
       ready (os w') t \<and> event_bits (os w') t = released 3" by auto
  with m(1-3,5,9,10) show ?thesis by blast
qed

end
