(* ===== verification/Rtos_Delete.thy ===== *)
theory Rtos_Delete
  imports Rtos_Priorities Rtos_Heap
begin

text \<open>
  Deleting tasks: \<open>vTaskDelete\<close> and the clean-up by the idle task, in src/FreeRTOS/tasks.c, on heap_1. A running
  task that deletes itself is put on the list of tasks that wait for termination, and its memory is given back
  by the idle task. Where the stacks of the tasks are is a parameter; the control block of task \<open>t\<close> is at
  address \<open>8 * t\<close>.
\<close>

section \<open>The calls\<close>

definition prvDeleteTCB :: "(nat \<Rightarrow> u32) \<Rightarrow> nat \<Rightarrow> heap_1 \<Rightarrow> heap_1 option" where
  "prvDeleteTCB pxStack t h = Option.bind (vPortFree (pxStack t) h) (vPortFree (of_nat (8 * t)))"

definition vTaskDelete :: "(nat \<Rightarrow> u32) \<Rightarrow> nat \<Rightarrow> heap_1 \<times> sched \<Rightarrow> (heap_1 \<times> sched) option" where
  "vTaskDelete pxStack xTaskToDelete = (\<lambda>(h, s).
     let t = prvGetTCBFromHandle xTaskToDelete s
     in if t = 0 then None
        else do {
          s \<leftarrow> off_lists t s;
          let s = s\<lparr>uxTaskNumber := uxTaskNumber s + 1\<rparr>;
          (h, s) \<leftarrow>
            (if xSchedulerRunning s \<and> t = pxCurrentTCB s
             then Some (h, on_lists (vListInsertEnd xTasksWaitingTermination (state_item t)) s
                        \<lparr>uxDeletedTasksWaitingCleanUp := uxDeletedTasksWaitingCleanUp s + 1\<rparr>)
             else let s = prvResetNextTaskUnblockTime
                        (s\<lparr>uxCurrentNumberOfTasks := uxCurrentNumberOfTasks s - 1\<rparr>)
                  in map_option (\<lambda>h. (h, s)) (prvDeleteTCB pxStack t h));
          if xSchedulerRunning s \<and> t = pxCurrentTCB s
          then (if uxSchedulerSuspended s = 0 then Some (h, portYIELD s) else None)
          else Some (h, s)
        })"

text \<open>What the idle task does each time around.\<close>

partial_function (option) prvCheckTasksWaitingTermination ::
  "(nat \<Rightarrow> u32) \<Rightarrow> heap_1 \<times> sched \<Rightarrow> (heap_1 \<times> sched) option" where
  "prvCheckTasksWaitingTermination pxStack x =
     (case x of (h, s) \<Rightarrow>
        if uxDeletedTasksWaitingCleanUp s > 0
        then (let t = listGET_OWNER_OF_HEAD_ENTRY xTasksWaitingTermination (lists s)
              in Option.bind (listREMOVE_ITEM (state_item t) s)
                   (\<lambda>s. let s = s\<lparr>uxCurrentNumberOfTasks := uxCurrentNumberOfTasks s - 1,
                                  uxDeletedTasksWaitingCleanUp := uxDeletedTasksWaitingCleanUp s - 1\<rparr>
                         in Option.bind (prvDeleteTCB pxStack t h)
                              (\<lambda>h. prvCheckTasksWaitingTermination pxStack (h, s))))
        else Some (h, s))"

section \<open>A task that deletes itself\<close>

text \<open>
  The task is off the ready lists and waits for termination, and a switch is requested; nothing else changes.
\<close>

lemma self_deletion_run:
  assumes ok: "steady E i s" and run: "uxSchedulerSuspended s = 0" and act: "\<not> yield_requested s"
    and cur: "pxCurrentTCB s \<noteq> i" and started: "xSchedulerRunning s"
  shows "\<exists>s'. vTaskDelete pxStack 0 (h, s) = Some (h, s') \<and> steady E i s' \<and> yield_requested s' \<and>
    at s' = (at s)(state_item (pxCurrentTCB s) := Some xTasksWaitingTermination, event_item (pxCurrentTCB s) := None) \<and>
    remaining s' = (remaining s)(pxCurrentTCB s := None) \<and>
    uxDeletedTasksWaitingCleanUp s' = uxDeletedTasksWaitingCleanUp s + 1"
proof -
  let ?t = "pxCurrentTCB s"
  note d = steadyD [OF ok]
  have eight: "(8 :: nat) \<in> {8, 9}" by simp
  from d(10) obtain k where k: "at s (state_item ?t) = Some k" by blast
  from set_aside_run [OF d(2) k eight] obtain s1 rdy where 1: "set_aside 8 ?t s = Some s1" "core_ok E s1"
    "kept_linked ({0..9} \<union> E) s ((at s)(state_item ?t := Some 8, event_item ?t := None)) rdy s1" .
  from 1(3) have r: "relinked s s1" and at1: "at s1 = (at s)(state_item ?t := Some 8, event_item ?t := None)"
    by (simp_all add: kept_linked_def)
  note f = relinked_fields [OF r]
  note live1 = live_aside [OF d(1) 1(2) r eight at1]
  from 1(1) obtain s0 where s0: "off_lists ?t s = Some s0" "s1 = on_lists (vListInsertEnd 8 (state_item ?t)) s0"
    by (auto simp: set_aside_def split: bind_splits)
  define s' where "s' = portYIELD (s1\<lparr>uxTaskNumber := uxTaskNumber s0 + 1,
      uxDeletedTasksWaitingCleanUp := uxDeletedTasksWaitingCleanUp s1 + 1\<rparr>)"
  have g: "xSchedulerRunning s0 = xSchedulerRunning s" "pxCurrentTCB s0 = ?t" "uxSchedulerSuspended s0 = 0"
    using f run by (simp_all add: s0(2) on_lists_def)
  have "prvGetTCBFromHandle 0 s = ?t" by (simp add: prvGetTCBFromHandle_def)
  then have "vTaskDelete pxStack 0 (h, s) = Some (h, s')"
    using d(9) started g by (simp add: vTaskDelete_def Let_def s0(1) s'_def s0(2) on_lists_def)
      (cases s0, simp add: portYIELD_def)
  moreover have f': "lists s' = lists s1" "uxPriority s' = uxPriority s" "pxCurrentTCB s' = ?t" "clock s' = clock s"
    "uxSchedulerSuspended s' = 0" "xPendedTicks s' = xPendedTicks s" "uxCurrentNumberOfTasks s' = uxCurrentNumberOfTasks s"
    "yield_requested s'" "remaining s' = remaining s1"
    using f run by (simp_all add: s'_def portYIELD_def remaining_def fun_eq_iff)
  have "live_ok E s'"
    using live1(1) core_fields [of s' s1 E]
    by (simp add: s'_def portYIELD_def live_ok_def base_core times_ok_def)
  moreover have "ready s' i" using d(4) cur by (auto simp: ready_def f' at1)
  moreover have "\<not> pending s' t" for t using steady_no_resumed(2) [OF ok run, of t] by (auto simp: pending_def f' at1)
  ultimately have "steady E i s'"
    using d(5) steady_no_resumed(1) [OF ok run] by (simp add: steady_def all_moved_def acting_def preempting_def f')
  moreover have "uxDeletedTasksWaitingCleanUp s1 = uxDeletedTasksWaitingCleanUp s"
    using r unfolding relinked_def by (cases s; cases s1) simp
  ultimately show ?thesis
    using \<open>vTaskDelete pxStack 0 (h, s) = Some (h, s')\<close> f' at1 live1(2)
    by (intro exI [of _ s']) (simp, simp add: s'_def portYIELD_def)
qed

section \<open>Giving back the memory\<close>

text \<open>
  heap_1 has no way to take memory back: deleting another task, and the clean-up by the idle task after a
  task deleted itself, fail the assertion in \<open>vPortFree\<close>.
\<close>

lemma no_deletion: "pxStack t \<noteq> 0 \<Longrightarrow> prvDeleteTCB pxStack t h = None"
  by (simp add: prvDeleteTCB_def vPortFree_def)

lemma bind_none: "(\<And>x. f x = None) \<Longrightarrow> Option.bind r f = None"
  by (cases r) simp_all

lemma deleting_another_fails:
  assumes "t \<noteq> 0" "t \<noteq> pxCurrentTCB s \<or> \<not> xSchedulerRunning s" "pxStack t \<noteq> 0" "core_ok E s" "at s (state_item t) \<noteq> None"
  shows "vTaskDelete pxStack t (h, s) = None"
proof -
  from assms(5) obtain k where "at s (state_item t) = Some k" by blast
  from off_lists_run [OF assms(4) this] obtain s1 rdy where 1: "off_lists t s = Some s1"
    "kept_linked ({0..9} \<union> E) s ((at s)(state_item t := None, event_item t := None)) rdy s1" .
  then have "relinked s s1" by (simp add: kept_linked_def)
  note f = relinked_fields [OF this]
  have "prvGetTCBFromHandle t s = t" using assms(1) by (simp add: prvGetTCBFromHandle_def)
  with assms(1,2) show ?thesis
    by (auto simp: vTaskDelete_def Let_def 1(1) f no_deletion [of pxStack t, OF assms(3)])
qed

theorem idle_cleanup:
  assumes "\<And>t. pxStack t \<noteq> 0"
  shows "prvCheckTasksWaitingTermination pxStack (h, s) =
    (if uxDeletedTasksWaitingCleanUp s = 0 then Some (h, s) else None)"
  by (subst prvCheckTasksWaitingTermination.simps)
    (auto simp: Let_def no_deletion [OF assms] word_gt_0 intro!: bind_none)

end
