(* ===== verification/Lwip_Checksum.thy ===== *)
theory Lwip_Checksum
  imports Prelude
begin

text \<open>
  The Internet checksum of the lwIP stack, src/lwIP/core/inet_chksum.c, as configured: algorithm 2 of
  lwip_standard_chksum on a little-endian processor, IPv4 only, no assertions. A buffer is its address, of
  which only the lowest bit matters, and its bytes; a chain of pbufs is a list of buffers. Every routine is
  shown to compute \<open>ones_sum\<close>, the 16 bits that stand for a number in ones' complement, of its bytes read as one
  long number.
\<close>

section \<open>Byte order\<close>

definition lwip_htons :: "u16 \<Rightarrow> u16" where
  "lwip_htons n = push_bit 8 (n AND 0x00FF) OR drop_bit 8 (n AND 0xFF00)"

section \<open>The sum over one buffer\<close>

definition FOLD_U32T :: "u32 \<Rightarrow> u32" where
  "FOLD_U32T u = drop_bit 16 u + (u AND 0x0000FFFF)"

definition SWAP_BYTES_IN_WORD :: "u32 \<Rightarrow> u32" where
  "SWAP_BYTES_IN_WORD w = push_bit 8 (w AND 0xFF) OR drop_bit 8 (w AND 0xFF00)"

text \<open>The loop over whole 16-bit words; it leaves at most one byte.\<close>

fun add_words :: "u8 list \<Rightarrow> u32 \<Rightarrow> u32 \<times> u8 list" where
  "add_words (b0 # b1 # bs) acc = add_words bs (acc + ucast (le16 b0 b1))"
| "add_words bs acc = (acc, bs)"

definition lwip_standard_chksum :: "u32 \<Rightarrow> u8 list \<Rightarrow> u16" where
  "lwip_standard_chksum dataptr bs =
     (let odd = bit dataptr 0;
          (t, pb) = (if odd \<and> bs \<noteq> [] then (le16 0 (hd bs), tl bs) else (0, bs));
          (acc, ps) = add_words pb 0;
          t = (if ps \<noteq> [] then le16 (hd ps) (hi8 t) else t);
          acc = acc + ucast t;
          acc = FOLD_U32T acc;
          acc = FOLD_U32T acc;
          acc = (if odd then SWAP_BYTES_IN_WORD acc else acc)
      in ucast acc)"

definition inet_chksum :: "u32 \<Rightarrow> u8 list \<Rightarrow> u16" where
  "inet_chksum dataptr bs = NOT (lwip_standard_chksum dataptr bs)"

section \<open>Chains of buffers\<close>

record pbuf =
  payload :: u32
  contents :: "u8 list"

text \<open>The loops over a chain; the flag is \<open>swapped\<close>.\<close>

fun sum_chain :: "pbuf list \<Rightarrow> u32 \<Rightarrow> bool \<Rightarrow> u32 \<times> bool" where
  "sum_chain [] acc swapped = (acc, swapped)"
| "sum_chain (q # qs) acc swapped =
     (let acc = acc + ucast (lwip_standard_chksum (payload q) (contents q));
          acc = FOLD_U32T acc
      in if odd (length (contents q)) then sum_chain qs (SWAP_BYTES_IN_WORD acc) (\<not> swapped)
         else sum_chain qs acc swapped)"

fun sum_partial :: "pbuf list \<Rightarrow> nat \<Rightarrow> u32 \<Rightarrow> bool \<Rightarrow> u32 \<times> bool" where
  "sum_partial [] chksum_len acc swapped = (acc, swapped)"
| "sum_partial (q # qs) chksum_len acc swapped =
     (if chksum_len = 0 then (acc, swapped)
      else let chklen = min (length (contents q)) chksum_len;
               acc = acc + ucast (lwip_standard_chksum (payload q) (take chklen (contents q)));
               acc = FOLD_U32T acc
      in if odd (length (contents q)) then sum_partial qs (chksum_len - chklen) (SWAP_BYTES_IN_WORD acc) (\<not> swapped)
         else sum_partial qs (chksum_len - chklen) acc swapped)"

definition inet_chksum_pbuf :: "pbuf list \<Rightarrow> u16" where
  "inet_chksum_pbuf p =
     (let (acc, swapped) = sum_chain p 0 False;
          acc = (if swapped then SWAP_BYTES_IN_WORD acc else acc)
      in ucast (NOT (acc AND 0xFFFF)))"

section \<open>The pseudo header\<close>

definition pseudo_end :: "u32 \<Rightarrow> bool \<Rightarrow> u8 \<Rightarrow> u16 \<Rightarrow> u16" where
  "pseudo_end acc swapped proto proto_len =
     (let acc = (if swapped then SWAP_BYTES_IN_WORD acc else acc);
          acc = acc + ucast (lwip_htons (ucast proto));
          acc = acc + ucast (lwip_htons proto_len);
          acc = FOLD_U32T acc;
          acc = FOLD_U32T acc
      in ucast (NOT (acc AND 0xFFFF)))"

definition inet_cksum_pseudo_base :: "pbuf list \<Rightarrow> u8 \<Rightarrow> u16 \<Rightarrow> u32 \<Rightarrow> u16" where
  "inet_cksum_pseudo_base p proto proto_len acc =
     (let (acc, swapped) = sum_chain p acc False in pseudo_end acc swapped proto proto_len)"

definition inet_cksum_pseudo_partial_base :: "pbuf list \<Rightarrow> u8 \<Rightarrow> u16 \<Rightarrow> u16 \<Rightarrow> u32 \<Rightarrow> u16" where
  "inet_cksum_pseudo_partial_base p proto proto_len chksum_len acc =
     (let (acc, swapped) = sum_partial p (unat chksum_len) acc False in pseudo_end acc swapped proto proto_len)"

definition sum_addresses :: "u32 \<Rightarrow> u32 \<Rightarrow> u32" where
  "sum_addresses src dest =
     (let acc = src AND 0xFFFF;
          acc = acc + (drop_bit 16 src AND 0xFFFF);
          acc = acc + (dest AND 0xFFFF);
          acc = acc + (drop_bit 16 dest AND 0xFFFF);
          acc = FOLD_U32T acc
      in FOLD_U32T acc)"

definition inet_chksum_pseudo :: "pbuf list \<Rightarrow> u8 \<Rightarrow> u16 \<Rightarrow> u32 \<Rightarrow> u32 \<Rightarrow> u16" where
  "inet_chksum_pseudo p proto proto_len src dest =
     inet_cksum_pseudo_base p proto proto_len (sum_addresses src dest)"

definition inet_chksum_pseudo_partial :: "pbuf list \<Rightarrow> u8 \<Rightarrow> u16 \<Rightarrow> u16 \<Rightarrow> u32 \<Rightarrow> u32 \<Rightarrow> u16" where
  "inet_chksum_pseudo_partial p proto proto_len chksum_len src dest =
     inet_cksum_pseudo_partial_base p proto proto_len chksum_len (sum_addresses src dest)"

definition ip_chksum_pseudo :: "pbuf list \<Rightarrow> u8 \<Rightarrow> u16 \<Rightarrow> u32 \<Rightarrow> u32 \<Rightarrow> u16" where
  "ip_chksum_pseudo p proto proto_len src dest = inet_chksum_pseudo p proto proto_len src dest"

definition ip_chksum_pseudo_partial :: "pbuf list \<Rightarrow> u8 \<Rightarrow> u16 \<Rightarrow> u16 \<Rightarrow> u32 \<Rightarrow> u32 \<Rightarrow> u16" where
  "ip_chksum_pseudo_partial p proto proto_len chksum_len src dest =
     inet_chksum_pseudo_partial p proto proto_len chksum_len src dest"

section \<open>Ones' complement sums\<close>

text \<open>
  Two numbers are the same sum if they are equal modulo \<open>2 ^ 16 - 1\<close>, where 0 is only the sum of zeros. The
  16 bits that stand for a sum are unique.
\<close>

definition same_sum :: "nat \<Rightarrow> nat \<Rightarrow> bool" where
  "same_sum a b \<longleftrightarrow> a mod 65535 = b mod 65535 \<and> (a = 0 \<longleftrightarrow> b = 0)"

definition ones_sum :: "nat \<Rightarrow> u16" where
  "ones_sum n = (if n = 0 then 0 else of_nat ((n - 1) mod 65535 + 1))"

lemma same_self: "same_sum a a"
  and same_sym: "same_sum a b \<Longrightarrow> same_sum b a"
  and same_trans: "same_sum a b \<Longrightarrow> same_sum b c \<Longrightarrow> same_sum a c"
  by (simp_all add: same_sum_def)

lemma same_add: "same_sum a b \<Longrightarrow> same_sum c d \<Longrightarrow> same_sum (a + c) (b + d)"
  by (auto simp: same_sum_def intro: mod_add_cong)

lemma same_mult: "same_sum a b \<Longrightarrow> same_sum (256 * a) (256 * b)"
  by (auto simp: same_sum_def intro: mod_mult_cong)

lemma same_65536: "same_sum (65536 * a) a"
proof -
  have "65536 * a = a + a * 65535" by simp
  then have "65536 * a mod 65535 = a mod 65535" by (metis mod_mult_self1)
  then show ?thesis by (simp add: same_sum_def)
qed

lemma u16_le: "unat (w :: u16) \<le> 65535"
proof -
  have "unat w < 65536" by (rule order_less_le_trans [OF unsigned_less]) simp
  then show ?thesis by simp
qed

lemma unat16_of_nat: "n \<le> 65535 \<Longrightarrow> unat (of_nat n :: u16) = n"
  by (simp add: unat_of_nat)

lemma ones_sum_value:
  "unat (ones_sum n) = (if n = 0 then 0 else (n - 1) mod 65535 + 1)"
  "same_sum (unat (ones_sum n)) n"
proof -
  have "(n - 1) mod 65535 < 65535" by simp
  then have "(n - 1) mod 65535 + 1 \<le> 65535" by linarith
  then show v: "unat (ones_sum n) = (if n = 0 then 0 else (n - 1) mod 65535 + 1)"
    by (simp add: ones_sum_def unat16_of_nat del: of_nat_add of_nat_Suc add_Suc_right)
  have "((n - 1) mod 65535 + 1) mod 65535 = n mod 65535" if "n \<noteq> 0"
    using that by (simp add: mod_Suc_eq)
  with v show "same_sum (unat (ones_sum n)) n" by (simp add: same_sum_def)
qed

lemma same_unique:
  assumes "same_sum a b" "a \<le> 65535" "b \<le> 65535"
  shows "a = b"
  using assms by (cases "a = 65535"; cases "b = 65535") (auto simp: same_sum_def)

lemma ones_sum_eqI:
  assumes "same_sum (unat w) n"
  shows "w = ones_sum n"
proof -
  have "unat w = unat (ones_sum n)"
    by (rule same_unique [OF same_trans [OF assms same_sym [OF ones_sum_value(2)]] u16_le u16_le])
  then show ?thesis by (rule unsigned_word_eqI)
qed

lemma ones_sum_same: "ones_sum a = ones_sum b \<longleftrightarrow> same_sum a b"
  using ones_sum_value(2) ones_sum_eqI same_trans same_sym by metis


section \<open>The steps of the code are steps of the sum\<close>

fun num :: "u8 list \<Rightarrow> nat" where
  "num [] = 0"
| "num (b # bs) = unat b + 256 * num bs"

lemma num_append: "num (xs @ ys) = num xs + 256 ^ length xs * num ys"
  by (induction xs) (simp_all add: algebra_simps)

lemma unat_low: "unat (w AND 0xFFFF) = unat (w :: u32) mod 65536"
proof -
  have "w AND 0xFFFF = take_bit 16 w" by (simp add: take_bit_eq_mask mask_eq_exp_minus_1)
  then have "unat (w AND 0xFFFF) = take_bit 16 (unat w)" by (simp only: unsigned_take_bit_eq)
  then show ?thesis by (simp add: take_bit_eq_mod)
qed

lemma unat_high: "unat (drop_bit 16 w) = unat (w :: u32) div 65536"
  by (simp add: drop_bit_eq_div unat_div)

lemma unat_high_less: "unat (w :: u32) div 65536 < 65536"
  using u32_bound [of w] by (intro less_mult_imp_div_less) simp

lemma unat_add: "unat v + unat w < 2 ^ 32 \<Longrightarrow> unat (v + w) = unat v + unat (w :: u32)"
  by (simp add: unat_word_ariths)

lemma unat_ucast16: "unat (ucast (w :: u16) :: u32) = unat w"
  using u16_le [of w] by (simp add: unsigned_ucast_eq take_bit_eq_mod)

lemma unat_FOLD: "unat (FOLD_U32T u) = unat u div 65536 + unat u mod 65536"
proof -
  have "unat u div 65536 < 65536" by (rule unat_high_less)
  moreover have "unat u mod 65536 < 65536" by simp
  ultimately show ?thesis unfolding FOLD_U32T_def by (subst unat_add) (simp_all add: unat_low unat_high)
qed

lemma FOLD_sum: "same_sum (unat (FOLD_U32T u)) (unat u)"
proof -
  have "same_sum (65536 * (unat u div 65536) + unat u mod 65536) (unat u div 65536 + unat u mod 65536)"
    by (intro same_add same_65536 same_self)
  then show ?thesis by (simp add: unat_FOLD same_sym)
qed

lemma FOLD_once: "unat u \<le> 0x1FFFE \<Longrightarrow> unat (FOLD_U32T u) \<le> 0xFFFF"
  using div_mult_mod_eq [of "unat u" 65536] mod_less_divisor [of 65536 "unat u"] unfolding unat_FOLD
  by (cases "unat u div 65536 = 0"; cases "unat u div 65536 = 1") linarith+

lemma FOLD_twice: "unat (FOLD_U32T (FOLD_U32T u)) \<le> 0xFFFF"
proof (rule FOLD_once)
  have "unat u div 65536 < 65536" by (rule unat_high_less)
  moreover have "unat u mod 65536 < 65536" by simp
  ultimately show "unat (FOLD_U32T u) \<le> 0x1FFFE" by (simp add: unat_FOLD)
qed

lemma SWAP_value: "SWAP_BYTES_IN_WORD u = ucast (le16 (hi8 (ucast u)) (lo8 (ucast u)))"
proof (rule bit_word_eqI)
  have m: "(0xFF :: u32) = mask 8" "(0xFF00 :: u32) = push_bit 8 (mask 8)"
    by (simp_all add: mask_eq_exp_minus_1 push_bit_eq_mult)
  fix n assume "n < LENGTH(32)"
  then show "bit (SWAP_BYTES_IN_WORD u) n \<longleftrightarrow> bit (ucast (le16 (hi8 (ucast u)) (lo8 (ucast u))) :: u32) n"
    unfolding SWAP_BYTES_IN_WORD_def m
    by (auto simp: bit_simps bit_le16 bit_hi8 bit_lo8 add.commute)
qed

lemma unat_narrow: "unat (ucast (u :: u32) :: u16) = unat u mod 65536"
  by (simp add: unsigned_ucast_eq take_bit_eq_mod)

lemma same_swap: "same_sum (a + 256 * b) (256 * (b + 256 * a))"
proof -
  have "same_sum (65536 * a + 256 * b) (a + 256 * b)" by (intro same_add same_65536 same_self)
  then show ?thesis by (simp add: same_sym algebra_simps)
qed

lemma SWAP_sum:
  assumes "unat u \<le> 0xFFFF"
  shows "same_sum (unat (SWAP_BYTES_IN_WORD u)) (256 * unat u)" "unat (SWAP_BYTES_IN_WORD u) \<le> 0xFFFF"
proof -
  let ?v = "ucast u :: u16"
  have "unat ?v = unat u" using assms by (simp add: unat_narrow)
  then have "unat u = unat (lo8 ?v) + 256 * unat (hi8 ?v)" by (metis le16_lo8_hi8 unat_le16)
  moreover have "unat (SWAP_BYTES_IN_WORD u) = unat (hi8 ?v) + 256 * unat (lo8 ?v)"
    by (simp add: SWAP_value unat_ucast16 unat_le16)
  ultimately show "same_sum (unat (SWAP_BYTES_IN_WORD u)) (256 * unat u)" by (simp only: same_swap)
  show "unat (SWAP_BYTES_IN_WORD u) \<le> 0xFFFF" by (simp add: SWAP_value unat_ucast16 u16_le)
qed


section \<open>One buffer\<close>

lemma add_words_sum:
  assumes "unat acc + 65535 * (length bs div 2) < 2 ^ 32"
  shows "\<exists>acc' rest. add_words bs acc = (acc', rest) \<and> same_sum (unat acc' + num rest) (unat acc + num bs) \<and>
    unat acc' \<le> unat acc + 65535 * (length bs div 2) \<and> length rest = length bs mod 2"
  using assms
proof (induction bs acc rule: add_words.induct)
  case (1 b0 b1 bs acc)
  let ?w = "le16 b0 b1" and ?acc = "acc + ucast (le16 b0 b1)"
  have a: "unat ?acc = unat acc + unat ?w"
    using "1.prems" u16_le [of ?w] by (subst unat_add) (simp_all add: unat_ucast16)
  then have "unat ?acc + 65535 * (length bs div 2) < 2 ^ 32" using "1.prems" u16_le [of ?w] by simp
  from "1.IH" [OF this] obtain acc' rest where IH: "add_words bs ?acc = (acc', rest)"
      "same_sum (unat acc' + num rest) (unat ?acc + num bs)"
      "unat acc' \<le> unat ?acc + 65535 * (length bs div 2)" "length rest = length bs mod 2" by blast
  have "same_sum (unat ?acc + num bs) (unat ?acc + 65536 * num bs)"
    by (intro same_add same_self same_sym [OF same_65536])
  then have "same_sum (unat ?acc + num bs) (unat acc + num (b0 # b1 # bs))"
    by (simp add: a unat_le16 algebra_simps)
  with same_trans [OF IH(2)] IH(1,3,4) a u16_le [of ?w] show ?case by auto
qed (simp_all add: same_self)

lemma FOLD_twice_sum: "same_sum (unat (FOLD_U32T (FOLD_U32T u))) (unat u)"
  by (rule same_trans [OF FOLD_sum FOLD_sum])

text \<open>From the aligned address to the folded sum, with the byte \<open>c\<close> before it.\<close>

lemma folded_sum:
  fixes c :: u8
  assumes "length bs \<le> 0x20000" "add_words bs 0 = (acc, rest)"
  defines "t \<equiv> if rest \<noteq> [] then le16 (hd rest) (hi8 (le16 0 c)) else le16 0 c"
  defines "f \<equiv> FOLD_U32T (FOLD_U32T (acc + ucast t))"
  shows "same_sum (unat f) (256 * unat c + num bs)" "unat f \<le> 0xFFFF"
proof -
  have "length bs div 2 \<le> 0x20000 div 2" using assms(1) by (rule div_le_mono)
  then have bound: "65535 * (length bs div 2) \<le> 65535 * 65536" by simp
  then have "unat (0 :: u32) + 65535 * (length bs div 2) < 2 ^ 32" by simp
  from add_words_sum [OF this] assms(2)
  have w: "same_sum (unat acc + num rest) (num bs)" "unat acc \<le> 65535 * (length bs div 2)"
      "length rest = length bs mod 2" by auto
  have "rest = [] \<or> (\<exists>b. rest = [b])" using w(3) by (cases rest; cases "tl rest") auto
  then have t: "unat t = num rest + 256 * unat c" by (auto simp: t_def unat_le16)
  have "unat acc + unat (ucast t :: u32) < 2 ^ 32" using w(2) bound u16_le [of t] by (simp add: unat_ucast16)
  then have total: "unat (acc + ucast t) = 256 * unat c + (unat acc + num rest)" by (simp add: unat_add unat_ucast16 t)
  have "same_sum (unat (acc + ucast t)) (256 * unat c + num bs)" unfolding total by (intro same_add same_self w(1))
  with FOLD_twice_sum show "same_sum (unat f) (256 * unat c + num bs)" unfolding f_def by (rule same_trans)
  show "unat f \<le> 0xFFFF" unfolding f_def by (rule FOLD_twice)
qed

lemma lwip_standard_chksum_sum:
  assumes "length bs \<le> 0x20000"
  shows "lwip_standard_chksum a bs = ones_sum (num bs)"
proof (cases "bit a 0 \<and> bs \<noteq> []")
  case True
  then obtain c cs where bs: "bs = c # cs" by (cases bs) auto
  obtain acc rest where w: "add_words cs 0 = (acc, rest)" by fastforce
  let ?t = "if rest \<noteq> [] then le16 (hd rest) (hi8 (le16 0 c)) else le16 0 c"
  let ?f = "FOLD_U32T (FOLD_U32T (acc + ucast ?t))"
  have len: "length cs \<le> 0x20000" using assms bs by simp
  note f = folded_sum [OF len w, of c]
  have "lwip_standard_chksum a bs = ucast (SWAP_BYTES_IN_WORD ?f)"
    using True w by (simp add: lwip_standard_chksum_def bs Let_def)
  then have "unat (lwip_standard_chksum a bs) = unat (SWAP_BYTES_IN_WORD ?f)"
    using SWAP_sum(2) [OF f(2)] by (simp add: unat_narrow)
  moreover have "same_sum (256 * unat ?f) (256 * (256 * unat c + num cs))" by (rule same_mult [OF f(1)])
  moreover have "same_sum (65536 * unat c + 256 * num cs) (unat c + 256 * num cs)" by (intro same_add same_65536 same_self)
  then have "same_sum (256 * (256 * unat c + num cs)) (num bs)" by (simp add: bs algebra_simps)
  ultimately have "same_sum (unat (lwip_standard_chksum a bs)) (num bs)"
    using same_trans [OF same_trans [OF SWAP_sum(1) [OF f(2)]]] by simp
  then show ?thesis by (rule ones_sum_eqI)
next
  case False
  obtain acc rest where w: "add_words bs 0 = (acc, rest)" by fastforce
  have z: "le16 0 0 = 0" by (simp add: le16_def)
  let ?t = "if rest \<noteq> [] then le16 (hd rest) (hi8 (le16 0 0)) else le16 0 0"
  let ?f = "FOLD_U32T (FOLD_U32T (acc + ucast ?t))"
  note f = folded_sum [OF assms w, of 0]
  have "unat (lwip_standard_chksum a bs) = unat ?f"
  proof (cases "bit a 0")
    case True
    with False w show ?thesis by (simp add: lwip_standard_chksum_def Let_def z unat_narrow FOLD_U32T_def SWAP_BYTES_IN_WORD_def)
  next
    case False
    with w have "lwip_standard_chksum a bs = ucast ?f" by (simp add: lwip_standard_chksum_def Let_def z)
    with f(2) show ?thesis by (simp add: unat_narrow)
  qed
  with f(1) show ?thesis by (intro ones_sum_eqI) simp
qed

section \<open>Chains\<close>

definition chain_bytes :: "pbuf list \<Rightarrow> u8 list" where
  "chain_bytes p = concat (map contents p)"

text \<open>A sum kept with its bytes swapped.\<close>

definition swapped_by :: "bool \<Rightarrow> nat \<Rightarrow> nat" where
  "swapped_by swapped n = (if swapped then 256 * n else n)"

lemma swapped_by_add: "swapped_by s (m + n) = swapped_by s m + swapped_by s n"
  by (simp add: swapped_by_def)

lemma swapped_by_same: "same_sum m n \<Longrightarrow> same_sum (swapped_by s m) (swapped_by s n)"
  by (simp add: swapped_by_def same_mult)

lemma swapped_by_twice: "same_sum (swapped_by (\<not> s) (256 * n)) (swapped_by s n)"
  using same_65536 [of n] by (simp add: swapped_by_def same_self)

lemma same_power: "same_sum (256 ^ k * n) (swapped_by (odd k) n)"
proof (induction k)
  case 0
  then show ?case by (simp add: swapped_by_def same_self)
next
  case (Suc k)
  have "same_sum (256 * swapped_by (odd k) n) (swapped_by (odd (Suc k)) n)"
    using same_65536 [of n] by (simp add: swapped_by_def same_self)
  from same_trans [OF same_mult [OF Suc] this] show ?case by (simp add: mult.assoc)
qed

lemma chain_step:
  fixes a :: u32
  assumes "unat acc \<le> 0xFFFF" "length c \<le> 0xFFFF"
  defines "acc' \<equiv> FOLD_U32T (acc + ucast (lwip_standard_chksum a c))"
  shows "same_sum (unat acc') (unat acc + num c)" "unat acc' \<le> 0xFFFF"
proof -
  let ?w = "lwip_standard_chksum a c"
  have w: "?w = ones_sum (num c)" using assms(2) by (intro lwip_standard_chksum_sum) simp
  have le: "unat acc + unat ?w \<le> 0x1FFFE" using assms(1) u16_le [of ?w] by linarith
  then have total: "unat (acc + ucast ?w) = unat acc + unat ?w" by (subst unat_add) (simp_all add: unat_ucast16)
  have "same_sum (unat acc + unat ?w) (unat acc + num c)" unfolding w by (intro same_add same_self ones_sum_value(2))
  with FOLD_sum [of "acc + ucast ?w"] show "same_sum (unat acc') (unat acc + num c)"
    unfolding acc'_def total by (rule same_trans)
  show "unat acc' \<le> 0xFFFF" unfolding acc'_def by (rule FOLD_once) (simp only: total le)
qed

text \<open>One buffer joins a sum: what the code does to the accumulator and the flag.\<close>

lemma join_odd:
  assumes "same_sum (unat acc1) (unat acc + num c)" "unat acc1 \<le> 0xFFFF" "odd (length c)"
    "same_sum x (swapped_by (\<not> s) (unat (SWAP_BYTES_IN_WORD acc1) + num r))"
  shows "same_sum x (swapped_by s (unat acc + num (c @ r)))"
proof -
  have "same_sum (unat (SWAP_BYTES_IN_WORD acc1)) (256 * (unat acc + num c))"
    by (rule same_trans [OF SWAP_sum(1) [OF assms(2)] same_mult [OF assms(1)]])
  then have "same_sum (swapped_by (\<not> s) (unat (SWAP_BYTES_IN_WORD acc1) + num r))
      (swapped_by (\<not> s) (256 * (unat acc + num c)) + swapped_by (\<not> s) (num r))"
    unfolding swapped_by_add [of "\<not> s" _ "num r"] by (intro same_add same_self swapped_by_same)
  moreover have "same_sum (swapped_by (\<not> s) (num r)) (swapped_by s (256 ^ length c * num r))"
    using swapped_by_same [OF same_sym [OF same_power [of "length c" "num r"]], of s] same_65536 [of "num r"]
      same_trans [OF same_sym [OF same_65536 [of "num r"]]] assms(3)
    by (cases s) (simp_all add: swapped_by_def)
  then have "same_sum (swapped_by (\<not> s) (256 * (unat acc + num c)) + swapped_by (\<not> s) (num r))
      (swapped_by s (unat acc + num c) + swapped_by s (256 ^ length c * num r))"
    by (intro same_add swapped_by_twice)
  ultimately have "same_sum x (swapped_by s (unat acc + num c) + swapped_by s (256 ^ length c * num r))"
    using assms(4) same_trans by blast
  then show ?thesis by (simp add: num_append add.assoc flip: swapped_by_add)
qed

lemma join_even:
  assumes "same_sum (unat acc1) (unat acc + num c)" "even (length c)"
    "same_sum x (swapped_by s (unat acc1 + num r))"
  shows "same_sum x (swapped_by s (unat acc + num (c @ r)))"
proof -
  have "same_sum (num r) (256 ^ length c * num r)"
    using same_power [of "length c" "num r"] assms(2) by (simp add: swapped_by_def same_sym)
  then have "same_sum (unat acc1 + num r) (unat acc + num c + 256 ^ length c * num r)" by (intro same_add assms(1))
  from same_trans [OF assms(3) swapped_by_same [OF this]] show ?thesis by (simp add: num_append add.assoc)
qed

lemma chain_bytes_simps [simp]:
  "chain_bytes [] = []" "chain_bytes (q # qs) = contents q @ chain_bytes qs"
  by (simp_all add: chain_bytes_def)

lemma sum_chain_sum:
  assumes "unat acc \<le> 0xFFFF" "\<forall>q\<in>set p. length (contents q) \<le> 0xFFFF" "sum_chain p acc s = (acc', s')"
  shows "unat acc' \<le> 0xFFFF"
    "same_sum (swapped_by s' (unat acc')) (swapped_by s (unat acc + num (chain_bytes p)))"
  using assms
proof (induction p arbitrary: acc s)
  case Nil
  { case 1 then show ?case by simp }
  { case 2 then show ?case by (simp add: same_self) }
next
  case (Cons q qs)
  let ?c = "contents q" and ?acc = "\<lambda>acc. FOLD_U32T (acc + ucast (lwip_standard_chksum (payload q) (contents q)))"
  have step: "same_sum (unat (?acc acc)) (unat acc + num ?c)" "unat (?acc acc) \<le> 0xFFFF"
    if "unat acc \<le> 0xFFFF" "\<forall>q\<in>set (q # qs). length (contents q) \<le> 0xFFFF" for acc
    using chain_step [OF that(1), of ?c "payload q"] that(2) by simp_all
  { case 1
    note st = step [OF 1(1,2)]
    show ?case using 1 Cons.IH(1) [OF st(2)] Cons.IH(1) [OF SWAP_sum(2) [OF st(2)]]
      by (auto simp: Let_def split: if_splits) }
  { case 2
    note st = step [OF 2(1,2)]
    show ?case
    proof (cases "odd (length ?c)")
      case True
      have "same_sum (swapped_by s' (unat acc')) (swapped_by (\<not> s) (unat (SWAP_BYTES_IN_WORD (?acc acc)) + num (chain_bytes qs)))"
        using 2 True by (intro Cons.IH(2) SWAP_sum(2) st(2)) (simp_all add: Let_def)
      then show ?thesis unfolding chain_bytes_simps by (rule join_odd [OF st True])
    next
      case False
      have "same_sum (swapped_by s' (unat acc')) (swapped_by s (unat (?acc acc) + num (chain_bytes qs)))"
        using 2 False by (intro Cons.IH(2) st(2)) (simp_all add: Let_def)
      with False show ?thesis unfolding chain_bytes_simps by (intro join_even [OF st(1)]) simp
    qed }
qed

text \<open>The first \<open>k\<close> bytes of a chain.\<close>

lemma sum_partial_sum:
  assumes "unat acc \<le> 0xFFFF" "\<forall>q\<in>set p. length (contents q) \<le> 0xFFFF" "sum_partial p k acc s = (acc', s')"
  shows "unat acc' \<le> 0xFFFF"
    "same_sum (swapped_by s' (unat acc')) (swapped_by s (unat acc + num (take k (chain_bytes p))))"
  using assms
proof (induction p arbitrary: k acc s)
  case Nil
  { case 1 then show ?case by simp }
  { case 2 then show ?case by (simp add: same_self) }
next
  case (Cons q qs)
  have step: "same_sum (unat (FOLD_U32T (acc + ucast (lwip_standard_chksum (payload q) (take k (contents q))))))
        (unat acc + num (take k (contents q)))"
      "unat (FOLD_U32T (acc + ucast (lwip_standard_chksum (payload q) (take k (contents q))))) \<le> 0xFFFF"
    if "unat acc \<le> 0xFFFF" "\<forall>q\<in>set (q # qs). length (contents q) \<le> 0xFFFF" for acc k
    using chain_step [OF that(1), of "take k (contents q)" "payload q"] that(2) by (simp_all add: min.coboundedI1)
  have cut: "take (min (length (contents q)) k) (contents q) = take k (contents q)" for k by (simp add: min_def)
  { case (1 k)
    note st = step [OF 1(1,2), of k]
    show ?case using 1 Cons.IH(1) [OF st(2)] Cons.IH(1) [OF SWAP_sum(2) [OF st(2)]]
      by (auto simp: Let_def cut split: if_splits) }
  { case (2 k acc s)
    note st = step [OF 2(1,2), of k]
    let ?c = "take k (contents q)"
    let ?acc = "FOLD_U32T (acc + ucast (lwip_standard_chksum (payload q) ?c))"
    let ?r = "take (k - length (contents q)) (chain_bytes qs)"
    have left: "k - min (length (contents q)) k = k - length (contents q)" by simp
    show ?case
    proof (cases "k \<le> length (contents q)")
      case True
      then have none: "?r = []" by simp
      have stop: "sum_partial qs 0 x y = (x, y)" for x y by (cases qs) simp_all
      show ?thesis
      proof (cases "k = 0")
        case True
        with 2 show ?thesis by (simp add: same_self)
      next
        case False
        with 2(3) True stop have "acc' = (if odd (length (contents q)) then SWAP_BYTES_IN_WORD ?acc else ?acc)"
            "s' = (if odd (length (contents q)) then \<not> s else s)"
          by (auto simp: Let_def cut split: if_splits)
        moreover have "same_sum (swapped_by (\<not> s) (unat (SWAP_BYTES_IN_WORD ?acc))) (swapped_by s (unat ?acc))"
          by (rule same_trans [OF swapped_by_same [OF SWAP_sum(1) [OF st(2)]] swapped_by_twice])
        ultimately have "same_sum (swapped_by s' (unat acc')) (swapped_by s (unat ?acc))"
          by (simp add: same_self)
        from same_trans [OF this swapped_by_same [OF st(1)]] True show ?thesis by simp
      qed
    next
      case False
      then have c: "?c = contents q" and k: "k \<noteq> 0" by simp_all
      show ?thesis
      proof (cases "odd (length (contents q))")
        case True
        have "same_sum (swapped_by s' (unat acc')) (swapped_by (\<not> s) (unat (SWAP_BYTES_IN_WORD ?acc) + num ?r))"
          using 2 True k by (intro Cons.IH(2) SWAP_sum(2) st(2)) (simp_all add: Let_def cut left)
        from join_odd [OF st _ this] True c show ?thesis by simp
      next
        case False
        have "same_sum (swapped_by s' (unat acc')) (swapped_by s (unat ?acc + num ?r))"
          using 2 False k by (intro Cons.IH(2) st(2)) (simp_all add: Let_def cut left)
        from join_even [OF st(1) _ this] False c show ?thesis by simp
      qed
    qed }
qed

lemma low_complement: "ucast (NOT (u AND 0xFFFF)) = NOT (ucast (u :: u32) :: u16)"
proof -
  have m: "(0xFFFF :: u32) = mask 16" by (simp add: mask_eq_exp_minus_1)
  show ?thesis unfolding m by (rule bit_word_eqI) (auto simp: bit_simps)
qed

lemma final_swap:
  fixes s :: bool
  assumes "unat acc \<le> 0xFFFF"
  defines "v \<equiv> if s then SWAP_BYTES_IN_WORD acc else acc"
  shows "unat v \<le> 0xFFFF" "same_sum (unat v) (swapped_by s (unat acc))"
  using SWAP_sum [OF assms(1)] assms(1) by (simp_all add: v_def swapped_by_def same_self)

lemma inet_chksum_pbuf_sum:
  assumes "\<forall>q\<in>set p. length (contents q) \<le> 0xFFFF"
  shows "inet_chksum_pbuf p = NOT (ones_sum (num (chain_bytes p)))"
proof -
  obtain acc s where r: "sum_chain p 0 False = (acc, s)" by fastforce
  note ch = sum_chain_sum [OF _ assms r]
  let ?v = "if s then SWAP_BYTES_IN_WORD acc else acc"
  have v: "unat ?v \<le> 0xFFFF" "same_sum (unat ?v) (swapped_by s (unat acc))" by (rule final_swap, rule ch, simp)+
  have "same_sum (swapped_by s (unat acc)) (num (chain_bytes p))" using ch(2) by (simp add: swapped_by_def)
  with same_trans [OF v(2)] v(1) have "same_sum (unat (ucast ?v :: u16)) (num (chain_bytes p))" by (simp add: unat_narrow)
  then have "(ucast ?v :: u16) = ones_sum (num (chain_bytes p))" by (rule ones_sum_eqI)
  then show ?thesis unfolding inet_chksum_pbuf_def r Let_def prod.case low_complement by (rule arg_cong)
qed

section \<open>The pseudo header\<close>

text \<open>The header that TCP and UDP sum in front of their data, as bytes on the wire.\<close>

definition pseudo_header :: "u32 \<Rightarrow> u32 \<Rightarrow> u8 \<Rightarrow> u16 \<Rightarrow> u8 list" where
  "pseudo_header src dest proto proto_len =
     (let halves = \<lambda>a. [ucast a :: u16, ucast (drop_bit 16 a)];
          octets = \<lambda>a. concat (map (\<lambda>h. [lo8 h, hi8 h]) (halves a))
      in octets src @ octets dest @ [0, proto, hi8 proto_len, lo8 proto_len])"

lemma lwip_htons_swap: "lwip_htons n = le16 (hi8 n) (lo8 n)"
proof (rule bit_word_eqI)
  have m: "(0x00FF :: u16) = mask 8" "(0xFF00 :: u16) = push_bit 8 (mask 8)"
    by (simp_all add: mask_eq_exp_minus_1 push_bit_eq_mult)
  fix k assume "k < LENGTH(16)"
  then show "bit (lwip_htons n) k \<longleftrightarrow> bit (le16 (hi8 n) (lo8 n)) k"
    unfolding lwip_htons_def m by (auto simp: bit_simps bit_le16 bit_hi8 bit_lo8 add.commute)
qed

lemma lwip_htons_involutive: "lwip_htons (lwip_htons n) = n"
  by (simp add: lwip_htons_swap)

lemma unat_halves:
  "unat (a AND 0xFFFF) = unat (ucast (a :: u32) :: u16)"
  "unat (drop_bit 16 a AND 0xFFFF) = unat (ucast (drop_bit 16 a) :: u16)"
  by (simp_all add: unat_low unat_narrow)

lemma num_half: "num (lo8 h # hi8 h # bs) = unat h + 65536 * num bs"
proof -
  have "unat h = unat (lo8 h) + 256 * unat (hi8 h)" by (metis le16_lo8_hi8 unat_le16)
  then show ?thesis by simp
qed

lemma sum_addresses_sum:
  "same_sum (unat (sum_addresses src dest))
     (unat (ucast src :: u16) + unat (ucast (drop_bit 16 src) :: u16) +
      unat (ucast dest :: u16) + unat (ucast (drop_bit 16 dest) :: u16))"
  "unat (sum_addresses src dest) \<le> 0xFFFF"
proof -
  let ?a = "src AND 0xFFFF" and ?b = "drop_bit 16 src AND 0xFFFF"
  let ?c = "dest AND 0xFFFF" and ?d = "drop_bit 16 dest AND 0xFFFF"
  have le: "unat ?a \<le> 65535" "unat ?b \<le> 65535" "unat ?c \<le> 65535" "unat ?d \<le> 65535"
    unfolding unat_halves by (rule u16_le)+
  have "unat (?a + ?b) = unat ?a + unat ?b" using le by (intro unat_add) simp
  moreover from this have "unat (?a + ?b + ?c) = unat ?a + unat ?b + unat ?c" using le by (subst unat_add) simp_all
  moreover from this have "unat (?a + ?b + ?c + ?d) = unat ?a + unat ?b + unat ?c + unat ?d"
    using le by (subst unat_add) simp_all
  ultimately show "same_sum (unat (sum_addresses src dest))
     (unat (ucast src :: u16) + unat (ucast (drop_bit 16 src) :: u16) +
      unat (ucast dest :: u16) + unat (ucast (drop_bit 16 dest) :: u16))"
    using FOLD_twice_sum [of "?a + ?b + ?c + ?d"] by (simp add: sum_addresses_def Let_def unat_halves)
  show "unat (sum_addresses src dest) \<le> 0xFFFF" by (simp add: sum_addresses_def Let_def FOLD_twice)
qed

lemma ucast_proto: "lwip_htons (ucast (p :: u8)) = le16 0 p"
  unfolding lwip_htons_swap le16_inject
  by (intro conjI bit_word_eqI) (auto simp: bit_hi8 bit_lo8 bit_simps dest: bit_imp_le_length)

lemma pseudo_end_sum:
  assumes "unat acc \<le> 0xFFFF" "same_sum (swapped_by s (unat acc)) n"
  shows "pseudo_end acc s proto proto_len =
    NOT (ones_sum (n + unat (le16 0 proto) + unat (le16 (hi8 proto_len) (lo8 proto_len))))"
proof -
  let ?v = "if s then SWAP_BYTES_IN_WORD acc else acc"
  let ?p = "le16 0 proto" and ?l = "le16 (hi8 proto_len) (lo8 proto_len)"
  note v = final_swap [OF assms(1), of s]
  have le: "unat ?p \<le> 65535" "unat ?l \<le> 65535" by (rule u16_le)+
  have "unat (?v + ucast ?p) = unat ?v + unat ?p" using v(1) le by (subst unat_add) (simp_all add: unat_ucast16)
  moreover from this have total: "unat (?v + ucast ?p + ucast ?l) = unat ?v + unat ?p + unat ?l"
    using v(1) le by (subst unat_add) (simp_all add: unat_ucast16)
  let ?f = "FOLD_U32T (FOLD_U32T (?v + ucast ?p + ucast ?l))"
  have "same_sum (unat ?v + unat ?p + unat ?l) (n + unat ?p + unat ?l)"
    by (intro same_add same_self same_trans [OF v(2) assms(2)])
  with FOLD_twice_sum [of "?v + ucast ?p + ucast ?l"] have "same_sum (unat ?f) (n + unat ?p + unat ?l)"
    unfolding total by (rule same_trans)
  then have "same_sum (unat (ucast ?f :: u16)) (n + unat ?p + unat ?l)"
    using FOLD_twice [of "?v + ucast ?p + ucast ?l"] by (simp add: unat_narrow)
  then have "(ucast ?f :: u16) = ones_sum (n + unat ?p + unat ?l)" by (rule ones_sum_eqI)
  then show ?thesis
    unfolding pseudo_end_def Let_def low_complement ucast_proto lwip_htons_swap [of proto_len] by simp
qed

lemma pseudo_header_sum:
  assumes "same_sum n (num bs)"
  shows "same_sum (unat (sum_addresses src dest) + n + unat (le16 0 proto) + unat (le16 (hi8 proto_len) (lo8 proto_len)))
     (num (pseudo_header src dest proto proto_len @ bs))"
proof -
  let ?h = "\<lambda>a. unat (ucast (a :: u32) :: u16)"
  let ?addresses = "?h src + ?h (drop_bit 16 src) + ?h dest + ?h (drop_bit 16 dest)"
  let ?p = "unat (le16 0 proto)" and ?l = "unat (le16 (hi8 proto_len) (lo8 proto_len))"
  have w: "same_sum (unat (w :: u16) + m) (num (lo8 w # hi8 w # r))" if "same_sum m (num r)" for w m r
    unfolding num_half using same_trans [OF that same_sym [OF same_65536]] by (intro same_add same_self)
  have "same_sum (?p + (?l + n)) (num ([0, proto, hi8 proto_len, lo8 proto_len] @ bs))"
    using w [OF w [OF assms, of "le16 (hi8 proto_len) (lo8 proto_len)"], of "le16 0 proto"] by simp
  note this [THEN w, THEN w, THEN w, THEN w, of "ucast src" "ucast (drop_bit 16 src)" "ucast dest" "ucast (drop_bit 16 dest)"]
  then have "same_sum (?h src + (?h (drop_bit 16 src) + (?h dest + (?h (drop_bit 16 dest) + (?p + (?l + n))))))
      (num (pseudo_header src dest proto proto_len @ bs))"
    by (simp only: pseudo_header_def Let_def list.map concat.simps append.simps)
  moreover have "?h src + (?h (drop_bit 16 src) + (?h dest + (?h (drop_bit 16 dest) + (?p + (?l + n))))) =
      ?addresses + (n + ?p + ?l)" by linarith
  ultimately have 1: "same_sum (?addresses + (n + ?p + ?l)) (num (pseudo_header src dest proto proto_len @ bs))" by metis
  have "same_sum (unat (sum_addresses src dest) + (n + ?p + ?l)) (?addresses + (n + ?p + ?l))"
    by (intro same_add same_self sum_addresses_sum(1))
  from same_trans [OF this 1] show ?thesis by (simp only: add.assoc)
qed

lemma pseudo_sum:
  assumes "unat acc \<le> 0xFFFF" "same_sum (swapped_by s (unat acc)) (unat (sum_addresses src dest) + num bs)"
  shows "pseudo_end acc s proto proto_len = NOT (ones_sum (num (pseudo_header src dest proto proto_len @ bs)))"
  unfolding pseudo_end_sum [OF assms] ones_sum_same [THEN iffD2, OF pseudo_header_sum [OF same_self]] ..

lemma ip_chksum_pseudo_sum:
  assumes "\<forall>q\<in>set p. length (contents q) \<le> 0xFFFF"
  shows "ip_chksum_pseudo p proto proto_len src dest =
    NOT (ones_sum (num (pseudo_header src dest proto proto_len @ chain_bytes p)))"
proof -
  obtain acc s where r: "sum_chain p (sum_addresses src dest) False = (acc, s)" by fastforce
  note ch = sum_chain_sum [OF sum_addresses_sum(2) assms r]
  have "same_sum (swapped_by s (unat acc)) (unat (sum_addresses src dest) + num (chain_bytes p))"
    using ch(2) by (simp add: swapped_by_def [of False])
  from pseudo_sum [OF ch(1) this] show ?thesis
    by (simp add: ip_chksum_pseudo_def inet_chksum_pseudo_def inet_cksum_pseudo_base_def r)
qed

lemma ip_chksum_pseudo_partial_sum:
  assumes "\<forall>q\<in>set p. length (contents q) \<le> 0xFFFF"
  shows "ip_chksum_pseudo_partial p proto proto_len n src dest =
    NOT (ones_sum (num (pseudo_header src dest proto proto_len @ take (unat n) (chain_bytes p))))"
proof -
  obtain acc s where r: "sum_partial p (unat n) (sum_addresses src dest) False = (acc, s)" by fastforce
  note ch = sum_partial_sum [OF sum_addresses_sum(2) assms r]
  have "same_sum (swapped_by s (unat acc)) (unat (sum_addresses src dest) + num (take (unat n) (chain_bytes p)))"
    using ch(2) by (simp add: swapped_by_def [of False])
  from pseudo_sum [OF ch(1) this] show ?thesis
    by (simp add: ip_chksum_pseudo_partial_def inet_chksum_pseudo_partial_def inet_cksum_pseudo_partial_base_def r)
qed

end
