(* ===== verification/Lwip_Checksum_Properties.thy ===== *)
theory Lwip_Checksum_Properties
  imports Lwip_Checksum
begin

text \<open>
  What the checksum routines compute, against the definition of RFC 1071, and what a receiver learns from
  them: a datagram whose checksum field was filled in by the sender verifies, however the two sides cut it
  into buffers and wherever these lie in memory, and no single octet can change unnoticed.
\<close>

section \<open>The reference\<close>

text \<open>Ones' complement addition of 16-bit words in network order; a last odd octet is padded with zero.\<close>

definition ones_add :: "u16 \<Rightarrow> u16 \<Rightarrow> u16" where
  "ones_add a b = (let s = unat a + unat b in of_nat (s mod 65536 + s div 65536))"

fun rfc1071 :: "u8 list \<Rightarrow> u16" where
  "rfc1071 [] = 0"
| "rfc1071 [b] = le16 0 b"
| "rfc1071 (b0 # b1 # bs) = ones_add (le16 b1 b0) (rfc1071 bs)"

lemma ones_add_sum: "same_sum (unat (ones_add a b)) (unat a + unat b)"
proof -
  define s where "s = unat a + unat b"
  have "s \<le> 0x1FFFE" using u16_le [of a] u16_le [of b] by (simp add: s_def)
  then have "s mod 65536 + s div 65536 \<le> 65535"
    using div_mult_mod_eq [of s 65536] mod_less_divisor [of 65536 s]
    by (cases "s div 65536 = 0"; cases "s div 65536 = 1") linarith+
  then have "unat (ones_add a b) = s mod 65536 + s div 65536"
    unfolding ones_add_def Let_def s_def [symmetric] by (rule unat16_of_nat)
  moreover have "same_sum (s mod 65536 + 65536 * (s div 65536)) (s mod 65536 + s div 65536)"
    by (intro same_add same_self same_65536)
  ultimately show ?thesis by (simp add: s_def same_sym)
qed

lemma rfc1071_sum: "same_sum (unat (rfc1071 bs)) (256 * num bs)"
proof (induction bs rule: rfc1071.induct)
  case (3 b0 b1 bs)
  have "same_sum (unat b1 + 256 * unat b0 + 256 * num bs) (256 * (unat b0 + 256 * unat b1) + 256 * (65536 * num bs))"
    using same_add [OF same_swap same_mult [OF same_sym [OF same_65536]]] .
  moreover have "same_sum (unat (le16 b1 b0) + unat (rfc1071 bs)) (unat b1 + 256 * unat b0 + 256 * num bs)"
    unfolding unat_le16 by (intro same_add same_self "3.IH")
  ultimately have "same_sum (unat (le16 b1 b0) + unat (rfc1071 bs)) (256 * num (b0 # b1 # bs))"
    using same_trans by (simp add: algebra_simps)
  with ones_add_sum show ?case unfolding rfc1071.simps by (rule same_trans)
qed (simp_all add: same_self unat_le16)

lemma ones_sum_rfc1071: "ones_sum (num bs) = lwip_htons (rfc1071 bs)"
proof -
  let ?r = "rfc1071 bs"
  have "unat ?r = unat (lo8 ?r) + 256 * unat (hi8 ?r)" by (metis le16_lo8_hi8 unat_le16)
  moreover have "same_sum (unat (hi8 ?r) + 256 * unat (lo8 ?r)) (256 * (unat (lo8 ?r) + 256 * unat (hi8 ?r)))"
    by (rule same_swap)
  ultimately have "same_sum (unat (lwip_htons ?r)) (256 * unat ?r)" by (simp only: lwip_htons_swap unat_le16)
  moreover have "same_sum (256 * unat ?r) (256 * (256 * num bs))" by (rule same_mult [OF rfc1071_sum])
  moreover have "same_sum (256 * (256 * num bs)) (num bs)" using same_65536 [of "num bs"] by simp
  ultimately have "same_sum (unat (lwip_htons ?r)) (num bs)" using same_trans by blast
  then show ?thesis by (rule ones_sum_eqI [symmetric])
qed

lemma complement_swap: "lwip_htons (NOT (lwip_htons w)) = NOT w"
  unfolding lwip_htons_swap
  by (rule bit_word_eqI) (auto simp: bit_le16 bit_hi8 bit_lo8 bit_simps)

lemma rfc1071_example: "rfc1071 [0x00, 0x01, 0xF2, 0x03, 0xF4, 0xF5, 0xF6, 0xF7] = 0xDDF2"
  by (simp add: ones_add_def le16_def push_bit_eq_mult)

theorem standard_checksum_reference:
  "length bs \<le> 0x20000 \<Longrightarrow> lwip_standard_chksum a bs = lwip_htons (rfc1071 bs)"
  by (simp only: lwip_standard_chksum_sum ones_sum_rfc1071)

section \<open>Verification at the receiver\<close>

lemma unat_all_ones: "unat (- 1 :: u16) = 65535"
  by (simp add: unsigned_minus_1_eq_mask mask_eq_exp_minus_1)

lemma complement_zero: "NOT (ones_sum n) = 0 \<longleftrightarrow> n \<noteq> 0 \<and> n mod 65535 = 0"
proof -
  have full: "unat (NOT (0 :: u16)) = 65535" using unat_all_ones by simp
  have "NOT (ones_sum n) = 0 \<longleftrightarrow> ones_sum n = NOT 0" by (metis bit.double_compl)
  also have "\<dots> \<longleftrightarrow> same_sum 65535 n"
    using ones_sum_eqI [of "NOT 0" n] ones_sum_value(2) [of n] full by metis
  finally show ?thesis by (auto simp: same_sum_def)
qed

lemma fill_sum:
  assumes "even (length pre)" "w = NOT (ones_sum (num (pre @ [0, 0] @ post)))"
  shows "NOT (ones_sum (num (pre @ [lo8 w, hi8 w] @ post))) = 0"
proof -
  let ?s = "ones_sum (num (pre @ [0, 0] @ post))"
  have "unat w + unat ?s = 65535"
  proof -
    have "NOT ?s = - 1 - ?s" by (simp add: not_eq_complement)
    moreover have "unat (- 1 - ?s) = unat (- 1 :: u16) - unat ?s" by (intro unat_sub) simp
    ultimately have "unat w = 65535 - unat ?s" by (simp only: assms(2) unat_all_ones)
    then show ?thesis using u16_le [of ?s] by linarith
  qed
  moreover have "same_sum (256 ^ length pre * unat w) (unat w)"
    using same_power [of "length pre" "unat w"] assms(1) by (simp add: swapped_by_def)
  then have "same_sum (256 ^ length pre * unat w + num (pre @ [0, 0] @ post)) (unat w + unat ?s)"
    by (intro same_add same_sym [OF ones_sum_value(2)])
  moreover have "num (pre @ [lo8 w, hi8 w] @ post) = 256 ^ length pre * unat w + num (pre @ [0, 0] @ post)"
    unfolding num_append append.simps num_half by (simp add: algebra_simps)
  ultimately show ?thesis by (simp add: complement_zero same_sum_def)
qed

lemma num_update:
  "i < length bs \<Longrightarrow> num (bs[i := b]) + 256 ^ i * unat (bs ! i) = num bs + 256 ^ i * unat b"
proof (induction bs arbitrary: i)
  case (Cons c cs)
  show ?case
  proof (cases i)
    case (Suc j)
    have "256 * (num (cs[j := b]) + 256 ^ j * unat (cs ! j)) = 256 * (num cs + 256 ^ j * unat b)"
      using Cons Suc by simp
    then show ?thesis by (simp add: Suc algebra_simps)
  qed simp
qed simp

lemma octet_power: "256 ^ i * unat (b :: u8) mod 65535 = swapped_by (odd i) (unat b)"
proof -
  have "unat b < 256" by (rule order_less_le_trans [OF unsigned_less]) simp
  then show ?thesis using same_power [of i "unat b"] by (auto simp: same_sum_def swapped_by_def)
qed

lemma alteration_noticed:
  assumes "NOT (ones_sum (num bs)) = 0" "i < length bs" "b \<noteq> bs ! i"
  shows "NOT (ones_sum (num (bs[i := b]))) \<noteq> 0"
proof
  assume "NOT (ones_sum (num (bs[i := b]))) = 0"
  with assms(1) have "num (bs[i := b]) mod 65535 = 0" "num bs mod 65535 = 0" by (simp_all add: complement_zero)
  then have "(num (bs[i := b]) + 256 ^ i * unat (bs ! i)) mod 65535 = 256 ^ i * unat (bs ! i) mod 65535"
      "(num bs + 256 ^ i * unat b) mod 65535 = 256 ^ i * unat b mod 65535"
    by (metis mod_add_left_eq add_0)+
  then have same: "swapped_by (odd i) (unat (bs ! i)) = swapped_by (odd i) (unat b)"
    by (simp only: num_update [OF assms(2)] octet_power)
  have "unat (bs ! i) = unat b" using same by (cases "odd i") (simp_all add: swapped_by_def)
  then have "bs ! i = b" by (rule unsigned_word_eqI)
  with assms(3) show False by simp
qed

section \<open>The properties of the stack's checksums\<close>

definition u16_lengths :: "pbuf list \<Rightarrow> bool" where
  "u16_lengths p \<longleftrightarrow> (\<forall>q\<in>set p. length (contents q) \<le> 0xFFFF)"

text \<open>
  C30: the checksum that UDP and TCP put into their header is the complement of the sum of RFC 1071, in network
  byte order, over the pseudo header and the octets of the chain. It does not depend on where the buffers of
  the chain begin (at an even or an odd address) nor on where the chain is cut, odd lengths included; the
  partial checksum is that of the first octets of the chain, and the one without pseudo header is that of the
  octets alone.
\<close>

theorem checksum_is_rfc1071:
  assumes "u16_lengths p"
  shows "ip_chksum_pseudo p proto proto_len src dest =
      lwip_htons (NOT (rfc1071 (pseudo_header src dest proto proto_len @ chain_bytes p))) \<and>
    ip_chksum_pseudo_partial p proto proto_len chksum_len src dest =
      lwip_htons (NOT (rfc1071 (pseudo_header src dest proto proto_len @ take (unat chksum_len) (chain_bytes p)))) \<and>
    inet_chksum_pbuf p = lwip_htons (NOT (rfc1071 (chain_bytes p)))"
proof -
  have "NOT (ones_sum (num bs)) = lwip_htons (NOT (rfc1071 bs))" for bs
    unfolding ones_sum_rfc1071 using complement_swap [of "lwip_htons (rfc1071 bs)"] by (simp add: lwip_htons_involutive)
  with ip_chksum_pseudo_sum ip_chksum_pseudo_partial_sum inet_chksum_pbuf_sum assms show ?thesis
    by (simp add: u16_lengths_def)
qed

lemma checksum_is_rfc1071_witness:
  "let p = [\<lparr> payload = 0xA0000001, contents = [0x45, 0x12, 0xFF] \<rparr>, \<lparr> payload = 0xA0000100, contents = [0xFF, 7] \<rparr>] in
    ip_chksum_pseudo p 17 5 0x0100A8C0 0x0200A8C0 =
      lwip_htons (NOT (rfc1071 (pseudo_header 0x0100A8C0 0x0200A8C0 17 5 @ [0x45, 0x12, 0xFF, 0xFF, 7])))"
  unfolding Let_def
  using checksum_is_rfc1071 [of "[\<lparr> payload = 0xA0000001, contents = [0x45, 0x12, 0xFF] \<rparr>,
      \<lparr> payload = 0xA0000100, contents = [0xFF, 7] \<rparr>]" 17 5 "0x0100A8C0" "0x0200A8C0" 0]
  by (simp add: u16_lengths_def)

text \<open>
  C31: a sender that clears the checksum field, sums its datagram and stores the result there sends a datagram
  that the receiver's check, the same routine over the received octets, accepts with 0, however the receiver
  cuts it into buffers. If one octet of it arrives changed, the check fails.
\<close>

theorem filled_checksum_verifies:
  assumes "chain_bytes p = pre @ [0, 0] @ post" "even (length pre)" "u16_lengths p"
    "w = ip_chksum_pseudo p proto proto_len src dest"
    "chain_bytes q = pre @ [lo8 w, hi8 w] @ post" "u16_lengths q"
  shows "ip_chksum_pseudo q proto proto_len src dest = 0 \<and>
    (\<forall>r i b. u16_lengths r \<and> i < length (chain_bytes q) \<and> b \<noteq> chain_bytes q ! i \<and>
       chain_bytes r = (chain_bytes q)[i := b] \<longrightarrow> ip_chksum_pseudo r proto proto_len src dest \<noteq> 0)"
proof -
  let ?h = "pseudo_header src dest proto proto_len"
  let ?check = "\<lambda>bs. NOT (ones_sum (num (?h @ bs)))"
  have check: "ip_chksum_pseudo r proto proto_len src dest = ?check (chain_bytes r)" if "u16_lengths r" for r
    using ip_chksum_pseudo_sum that by (simp add: u16_lengths_def)
  have "even (length (?h @ pre))" using assms(2) by (simp add: pseudo_header_def)
  moreover have "w = NOT (ones_sum (num ((?h @ pre) @ [0, 0] @ post)))"
    using assms(1,4) check [OF assms(3)] by simp
  ultimately have "NOT (ones_sum (num ((?h @ pre) @ [lo8 w, hi8 w] @ post))) = 0" by (rule fill_sum)
  then have ok: "?check (chain_bytes q) = 0" by (simp only: assms(5) append_assoc)
  have "ip_chksum_pseudo r proto proto_len src dest \<noteq> 0"
    if "u16_lengths r" "i < length (chain_bytes q)" "b \<noteq> chain_bytes q ! i" "chain_bytes r = (chain_bytes q)[i := b]" for r i b
    using alteration_noticed [OF ok, of "length ?h + i" b] that check [OF that(1)]
    by (simp add: list_update_append nth_append)
  with ok check [OF assms(6)] show ?thesis by metis
qed

lemma filled_checksum_verifies_witness:
  "let p = [\<lparr> payload = 0xA0000001, contents = [0, 80, 0] \<rparr>, \<lparr> payload = 0xA0000100, contents = [0, 7] \<rparr>];
       w = ip_chksum_pseudo p 17 5 0x0100A8C0 0x0200A8C0;
       q = [\<lparr> payload = 0xA0000200, contents = [0, 80, lo8 w, hi8 w, 7] \<rparr>];
       r = [\<lparr> payload = 0xA0000200, contents = [0, 80, lo8 w, hi8 w, 6] \<rparr>]
   in ip_chksum_pseudo q 17 5 0x0100A8C0 0x0200A8C0 = 0 \<and> ip_chksum_pseudo r 17 5 0x0100A8C0 0x0200A8C0 \<noteq> 0"
proof -
  let ?p = "[\<lparr> payload = 0xA0000001, contents = [0, 80, 0] \<rparr>, \<lparr> payload = 0xA0000100, contents = [0, 7] \<rparr>] :: pbuf list"
  define w where "w = ip_chksum_pseudo ?p 17 5 0x0100A8C0 0x0200A8C0"
  let ?q = "[\<lparr> payload = 0xA0000200, contents = [0, 80, lo8 w, hi8 w, 7] \<rparr>] :: pbuf list"
  let ?r = "[\<lparr> payload = 0xA0000200, contents = [0, 80, lo8 w, hi8 w, 6] \<rparr>] :: pbuf list"
  have "ip_chksum_pseudo ?q 17 5 0x0100A8C0 0x0200A8C0 = 0 \<and>
    (\<forall>r i b. u16_lengths r \<and> i < length (chain_bytes ?q) \<and> b \<noteq> chain_bytes ?q ! i \<and>
       chain_bytes r = (chain_bytes ?q)[i := b] \<longrightarrow> ip_chksum_pseudo r 17 5 0x0100A8C0 0x0200A8C0 \<noteq> 0)"
    by (rule filled_checksum_verifies [OF _ _ _ w_def, of "[0, 80]" "[7]"]) (simp_all add: u16_lengths_def)
  note ok = this [THEN conjunct1] and altered = this [THEN conjunct2, rule_format, of ?r 4 6]
  have "ip_chksum_pseudo ?r 17 5 0x0100A8C0 0x0200A8C0 \<noteq> 0" by (rule altered) (simp add: u16_lengths_def)
  with ok show ?thesis unfolding Let_def w_def by (rule conjI)
qed

text \<open>The same for one buffer, the check of the IP and ICMP headers.\<close>

theorem header_checksum_verifies:
  assumes "even (length pre)" "length pre + 2 + length post \<le> 0xFFFF"
    "w = inet_chksum a (pre @ [0, 0] @ post)"
  defines "bs \<equiv> pre @ [lo8 w, hi8 w] @ post"
  shows "inet_chksum a' bs = 0"
    "i < length bs \<Longrightarrow> b \<noteq> bs ! i \<Longrightarrow> inet_chksum a' (bs[i := b]) \<noteq> 0"
proof -
  have check: "inet_chksum a cs = NOT (ones_sum (num cs))" if "length cs \<le> 0xFFFF" for a cs
    using that by (simp add: inet_chksum_def lwip_standard_chksum_sum)
  have len: "length bs \<le> 0xFFFF" using assms(2) by (simp add: bs_def)
  have "w = NOT (ones_sum (num (pre @ [0, 0] @ post)))" using assms(2,3) by (simp add: check)
  from fill_sum [OF assms(1) this] have ok: "NOT (ones_sum (num bs)) = 0" by (simp only: bs_def)
  with len show "inet_chksum a' bs = 0" by (simp add: check)
  show "inet_chksum a' (bs[i := b]) \<noteq> 0" if "i < length bs" "b \<noteq> bs ! i"
    using alteration_noticed [OF ok that] len by (simp add: check)
qed

end
