(* ===== verification/Lwip_Addr.thy ===== *)
theory Lwip_Addr
  imports Prelude
begin

text \<open>
  IPv4 addresses of the lwIP stack, src/lwIP/core/ipv4/ip4_addr.c: printing and parsing, netmasks and broadcast
  addresses. An address is the 32-bit word in network order, so its lowest octet is the first one printed. A
  string is the list of its characters; behind it the code reads the terminating 0. The model of parsing takes
  the place to store the address as given, as every caller does that uses the address.
\<close>

unbundle bit_operations_syntax

definition lwip_htonl :: "u32 \<Rightarrow> u32" where
  "lwip_htonl n = push_bit 24 (n AND 0x000000FF) OR push_bit 8 (n AND 0x0000FF00) OR
     drop_bit 8 (n AND 0x00FF0000) OR drop_bit 24 (n AND 0xFF000000)"

definition IP4ADDR_STRLEN_MAX :: int where
  "IP4ADDR_STRLEN_MAX = 16"

section \<open>Printing\<close>

text \<open>The digits of an octet, the last one first (the buffer \<open>inv\<close>).\<close>

function inv_digits :: "u8 \<Rightarrow> string" where
  "inv_digits ap =
     char_of (48 + unat (ap mod 10)) # (if ap div 10 \<noteq> 0 then inv_digits (ap div 10) else [])"
  by pat_completeness auto
termination
proof (relation "measure unat")
  fix ap :: u8 assume "ap div 10 \<noteq> 0"
  then have "unat ap div 10 \<noteq> 0" by (simp add: unat_div word_unat_eq_iff)
  then show "(ap div 10, ap) \<in> measure unat" by (simp add: unat_div)
qed simp

declare inv_digits.simps [simp del]

text \<open>One character into a buffer of \<open>buflen\<close>, of which the characters \<open>out\<close> are filled.\<close>

fun put_chars :: "int \<Rightarrow> string \<Rightarrow> string \<Rightarrow> string option" where
  "put_chars buflen out [] = Some out"
| "put_chars buflen out (c # cs) = (if int (length out) \<ge> buflen then None else put_chars buflen (out @ [c]) cs)"

fun put_octets :: "int \<Rightarrow> string \<Rightarrow> u8 list \<Rightarrow> string option" where
  "put_octets buflen out [] = Some out"
| "put_octets buflen out (ap # aps) =
     Option.bind (put_chars buflen out (rev (inv_digits ap)))
       (\<lambda>out. Option.bind (put_chars buflen out [CHR ''.'']) (\<lambda>out. put_octets buflen out aps))"

definition octets :: "u32 \<Rightarrow> u8 list" where
  "octets a = map (\<lambda>n. ucast (drop_bit n a)) [0, 8, 16, 24]"

text \<open>The last dot gives way to the terminating 0.\<close>

definition ip4addr_ntoa_r :: "u32 \<Rightarrow> int \<Rightarrow> string option" where
  "ip4addr_ntoa_r addr buflen = map_option butlast (put_octets buflen [] (octets addr))"

definition ip4addr_ntoa :: "u32 \<Rightarrow> string option" where
  "ip4addr_ntoa addr = ip4addr_ntoa_r addr IP4ADDR_STRLEN_MAX"

section \<open>Parsing\<close>

text \<open>The character classes of ctype.h, in the C locale.\<close>

definition lwip_in_range :: "char \<Rightarrow> char \<Rightarrow> char \<Rightarrow> bool" where
  "lwip_in_range c lo up \<longleftrightarrow> (of_char c :: nat) \<ge> of_char lo \<and> (of_char c :: nat) \<le> of_char up"

definition lwip_isdigit :: "char \<Rightarrow> bool" where
  "lwip_isdigit c \<longleftrightarrow> lwip_in_range c CHR ''0'' CHR ''9''"

definition lwip_isxdigit :: "char \<Rightarrow> bool" where
  "lwip_isxdigit c \<longleftrightarrow> lwip_isdigit c \<or> lwip_in_range c CHR ''a'' CHR ''f'' \<or> lwip_in_range c CHR ''A'' CHR ''F''"

definition lwip_islower :: "char \<Rightarrow> bool" where
  "lwip_islower c \<longleftrightarrow> lwip_in_range c CHR ''a'' CHR ''z''"

definition lwip_isspace :: "char \<Rightarrow> bool" where
  "lwip_isspace c \<longleftrightarrow> c \<in> {CHR '' '', CHR 0x0C, CHR 0x0A, CHR 0x0D, CHR 0x09, CHR 0x0B}"

text \<open>The number at the front of a string in base 8, 10 or 16, in 32 bits, and what follows it.\<close>

fun scan :: "u32 \<Rightarrow> u32 \<Rightarrow> string \<Rightarrow> u32 \<times> string" where
  "scan base val [] = (val, [])"
| "scan base val (c # cp) =
     (if lwip_isdigit c
      then if base = 8 \<and> (of_char c :: u32) - of_char CHR ''0'' \<ge> 8 then (val, c # cp)
           else scan base (val * base + (of_char c - of_char CHR ''0'')) cp
      else if base = 16 \<and> lwip_isxdigit c
      then scan base (push_bit 4 val OR (of_char c + 10 - of_char (if lwip_islower c then CHR ''a'' else CHR ''A''))) cp
      else (val, c # cp))"

fun parse_number :: "string \<Rightarrow> (u32 \<times> string) option" where
  "parse_number [] = None"
| "parse_number (c # cp) =
     (if \<not> lwip_isdigit c then None
      else if c = CHR ''0''
      then (case cp of x # xs \<Rightarrow> if x = CHR ''x'' \<or> x = CHR ''X'' then Some (scan 16 0 xs) else Some (scan 8 0 cp)
              | [] \<Rightarrow> Some (scan 8 0 []))
      else Some (scan 10 0 (c # cp)))"

text \<open>The loop over the parts: those before the last dot, the last one, and the characters behind it.\<close>

function parse_parts :: "u32 list \<Rightarrow> string \<Rightarrow> (u32 list \<times> u32 \<times> string) option" where
  "parse_parts parts cp =
     (case parse_number cp of None \<Rightarrow> None
      | Some (val, rest) \<Rightarrow>
          (case rest of [] \<Rightarrow> Some (parts, val, [])
           | c # cs \<Rightarrow>
               if c = CHR ''.'' then if length parts \<ge> 3 then None else parse_parts (parts @ [val]) cs
               else Some (parts, val, rest)))"
  by pat_completeness auto
termination by (relation "measure (\<lambda>(parts, _). 3 - length parts)") auto

declare parse_parts.simps [simp del]

definition concoct :: "u32 list \<Rightarrow> u32 \<Rightarrow> u32 option" where
  "concoct parts val =
     (case parts of
        [] \<Rightarrow> Some val
      | [p0] \<Rightarrow> if val > 0xFFFFFF \<or> p0 > 0xFF then None else Some (val OR push_bit 24 p0)
      | [p0, p1] \<Rightarrow>
          if val > 0xFFFF \<or> p0 > 0xFF \<or> p1 > 0xFF then None
          else Some (val OR (push_bit 24 p0 OR push_bit 16 p1))
      | [p0, p1, p2] \<Rightarrow>
          if val > 0xFF \<or> p0 > 0xFF \<or> p1 > 0xFF \<or> p2 > 0xFF then None
          else Some (val OR (push_bit 24 p0 OR push_bit 16 p1 OR push_bit 8 p2))
      | _ \<Rightarrow> Some val)"

text \<open>\<open>Some\<close> is the address stored and the result 1, \<open>None\<close> the result 0.\<close>

definition ip4addr_aton :: "string \<Rightarrow> u32 option" where
  "ip4addr_aton cp =
     (case parse_parts [] cp of None \<Rightarrow> None
      | Some (parts, val, rest) \<Rightarrow>
          (let c = (case rest of [] \<Rightarrow> CHR 0x00 | c # _ \<Rightarrow> c)
           in if c \<noteq> CHR 0x00 \<and> \<not> lwip_isspace c then None
              else map_option lwip_htonl (concoct parts val)))"

definition IPADDR_NONE :: u32 where
  "IPADDR_NONE = 0xFFFFFFFF"

definition ipaddr_addr :: "string \<Rightarrow> u32" where
  "ipaddr_addr cp = (case ip4addr_aton cp of Some val \<Rightarrow> val | None \<Rightarrow> IPADDR_NONE)"

section \<open>Netmasks and broadcast addresses\<close>

lemma drop_bit_less: "m \<noteq> 0 \<Longrightarrow> unat (drop_bit 1 m) < unat (m :: u32)"
proof -
  assume "m \<noteq> 0"
  then have "0 < unat m" by (simp add: unat_gt_0)
  then show ?thesis by (simp add: drop_bit_eq_div unat_div)
qed

text \<open>The two loops over the bits of a netmask in host order, from \<open>1 << 31\<close> down.\<close>

function first_zero :: "u32 \<Rightarrow> u32 \<Rightarrow> u32" where
  "first_zero nm_hostorder m =
     (if m = 0 then 0 else if nm_hostorder AND m = 0 then m
      else first_zero nm_hostorder (drop_bit 1 m))"
  by pat_completeness auto
termination by (relation "measure (\<lambda>(_, m). unat m)") (auto intro: drop_bit_less [unfolded One_nat_def])

function only_zeros :: "u32 \<Rightarrow> u32 \<Rightarrow> bool" where
  "only_zeros nm_hostorder m =
     (if m = 0 then True else if nm_hostorder AND m \<noteq> 0 then False
      else only_zeros nm_hostorder (drop_bit 1 m))"
  by pat_completeness auto
termination by (relation "measure (\<lambda>(_, m). unat m)") (auto intro: drop_bit_less [unfolded One_nat_def])

declare first_zero.simps [simp del] only_zeros.simps [simp del]

definition ip4_addr_netmask_valid :: "u32 \<Rightarrow> bool" where
  "ip4_addr_netmask_valid netmask =
     (let nm_hostorder = lwip_htonl netmask
      in only_zeros nm_hostorder (first_zero nm_hostorder (push_bit 31 1)))"

record netif =
  netif_flags :: u8
  netif_ip4_addr :: u32
  netif_ip4_netmask :: u32

definition NETIF_FLAG_BROADCAST :: u8 where
  "NETIF_FLAG_BROADCAST = 0x02"

definition ip4_addr_net_eq :: "u32 \<Rightarrow> u32 \<Rightarrow> u32 \<Rightarrow> bool" where
  "ip4_addr_net_eq addr1 addr2 m \<longleftrightarrow> addr1 AND m = addr2 AND m"

definition ip4_addr_isbroadcast_u32 :: "u32 \<Rightarrow> netif \<Rightarrow> bool" where
  "ip4_addr_isbroadcast_u32 addr n \<longleftrightarrow>
     (if NOT addr = 0 \<or> addr = 0 then True
      else if netif_flags n AND NETIF_FLAG_BROADCAST = 0 then False
      else if addr = netif_ip4_addr n then False
      else ip4_addr_net_eq addr (netif_ip4_addr n) (netif_ip4_netmask n) \<and>
        addr AND NOT (netif_ip4_netmask n) = 0xFFFFFFFF AND NOT (netif_ip4_netmask n))"

end
