(* ===== verification/Lwip_Addr_Properties.thy ===== *)
theory Lwip_Addr_Properties
  imports Lwip_Addr
begin

text \<open>
  Printed addresses: their form and length, and that parsing takes them back to the address they came from. What
  parsing does with numbers that do not fit. Netmasks as runs of ones, broadcast addresses.
\<close>

section \<open>Decimal octets\<close>

definition dig :: "nat \<Rightarrow> char" where
  "dig n = char_of (48 + n)"

definition decimal :: "u8 \<Rightarrow> string" where
  "decimal b = rev (inv_digits b)"

lemma of_char_dig: "n < 10 \<Longrightarrow> (of_char (dig n) :: nat) = 48 + n"
  by (simp add: dig_def take_bit_eq_mod)

lemma dig_u32: "n < 10 \<Longrightarrow> (of_char (dig n) :: u32) - 48 = of_nat n"
proof -
  assume "n < 10"
  have "(of_char (dig n) :: u32) = of_nat (of_char (dig n) :: nat)" by (rule of_nat_of_char [symmetric])
  also have "\<dots> = 48 + of_nat n" using \<open>n < 10\<close> by (simp add: of_char_dig)
  finally show ?thesis by (simp only: add_diff_cancel_left')
qed

lemma dig_isdigit [simp]: "n < 10 \<Longrightarrow> lwip_isdigit (dig n)"
  by (simp add: lwip_isdigit_def lwip_in_range_def of_char_dig)

lemma dig_zero: "n < 10 \<Longrightarrow> dig n = CHR ''0'' \<longleftrightarrow> n = 0"
proof -
  assume "n < 10"
  have "dig n = CHR ''0'' \<longleftrightarrow> (of_char (dig n) :: nat) = of_char CHR ''0''" by (rule of_char_eq_iff [symmetric])
  also have "\<dots> \<longleftrightarrow> 48 + n = 48" unfolding of_char_dig [OF \<open>n < 10\<close>] by simp
  finally show ?thesis by simp
qed

lemma dig_0: "dig 0 = CHR ''0''"
  using dig_zero [of 0] by simp

lemma inv_digits_step:
  "inv_digits b = dig (unat b mod 10) # (if unat b div 10 \<noteq> 0 then inv_digits (b div 10) else [])"
proof -
  have "b div 10 = 0 \<longleftrightarrow> unat b div 10 = 0" by (simp add: word_unat_eq_iff unat_div)
  then show ?thesis by (subst inv_digits.simps) (simp add: dig_def unat_mod)
qed

lemma decimal_eq:
  "decimal b =
     (if unat b < 10 then [dig (unat b)]
      else if unat b < 100 then [dig (unat b div 10), dig (unat b mod 10)]
      else [dig (unat b div 100), dig (unat b div 10 mod 10), dig (unat b mod 10)])"
proof -
  have "unat b < 256" by (rule order_less_le_trans [OF unsigned_less]) simp
  then have "unat b div 100 < 10" by (simp add: less_mult_imp_div_less)
  moreover have "unat (b div 10) = unat b div 10" "unat (b div 10 div 10) = unat b div 100"
    by (simp_all add: unat_div div_mult2_eq [symmetric])
  ultimately show ?thesis
    using inv_digits_step [of b] inv_digits_step [of "b div 10"] inv_digits_step [of "b div 10 div 10"]
    by (auto simp: decimal_def div_eq_0_iff)
qed

definition dotted :: "u32 \<Rightarrow> string" where
  "dotted a = concat (map (\<lambda>b. decimal b @ ''.'') (take 3 (octets a))) @ decimal (last (octets a))"

lemma decimal_length: "1 \<le> length (decimal b)" "length (decimal b) \<le> 3"
  by (simp_all add: decimal_eq)

lemma dotted_length: "length (dotted a) \<le> 15"
proof -
  have "length (decimal b0) + length (decimal b1) + length (decimal b2) + length (decimal b3) \<le> 12" for b0 b1 b2 b3
    using decimal_length(2) [of b0] decimal_length(2) [of b1] decimal_length(2) [of b2] decimal_length(2) [of b3]
    by linarith
  from this [of "ucast a" "ucast (drop_bit 8 a)" "ucast (drop_bit 16 a)" "ucast (drop_bit 24 a)"]
  show ?thesis by (simp add: dotted_def octets_def)
qed

lemma put_chars_eq:
  "put_chars n out cs = (if cs \<noteq> [] \<and> int (length out + length cs) > n then None else Some (out @ cs))"
  by (induction n out cs rule: put_chars.induct) (auto simp: Suc_le_eq)

lemma put_octets_eq:
  "put_octets n out bs =
     (let s = concat (map (\<lambda>b. decimal b @ ''.'') bs)
      in if bs \<noteq> [] \<and> int (length out + length s) > n then None else Some (out @ s))"
proof (induction bs arbitrary: out)
  case (Cons b bs)
  have "rev (inv_digits b) = decimal b" by (simp add: decimal_def)
  then show ?case by (auto simp: put_chars_eq Cons Let_def)
qed simp

text \<open>A buffer is large enough if it holds the text and the terminating 0; 16 bytes always are.\<close>

lemma ntoa_eq: "ip4addr_ntoa_r a n = (if int (length (dotted a)) < n then Some (dotted a) else None)"
  by (auto simp: ip4addr_ntoa_r_def put_octets_eq dotted_def octets_def Let_def butlast_append)

section \<open>Parsing what was printed\<close>

lemma scan_dig [simp]: "n < 10 \<Longrightarrow> scan 10 v (dig n # cs) = scan 10 (v * 10 + of_nat n) cs"
  using dig_u32 [of n] by simp

definition ends_number :: "string \<Rightarrow> bool" where
  "ends_number r \<longleftrightarrow> r = [] \<or> hd r = CHR ''.''"

lemma scan_end: "ends_number r \<Longrightarrow> b \<noteq> 16 \<Longrightarrow> scan b v r = (v, r)"
  by (cases r) (auto simp: ends_number_def lwip_isdigit_def lwip_in_range_def)

lemma parse_decimal:
  assumes "ends_number r"
  shows "parse_number (decimal b @ r) = Some (ucast b, r)"
proof -
  have less: "unat b < 256" by (rule order_less_le_trans [OF unsigned_less]) simp
  then have d: "unat b div 100 < 10" by (simp add: less_mult_imp_div_less)
  have z: "parse_number (CHR ''0'' # r) = Some (0, r)"
    using assms scan_end [OF assms, of 8 0]
    by (cases r) (auto simp: ends_number_def lwip_isdigit_def lwip_in_range_def)
  have whole: "ucast b = (of_nat (unat b) :: u32)" by simp
  consider "unat b = 0" | "unat b \<noteq> 0" "unat b < 10" | "10 \<le> unat b" "unat b < 100" | "100 \<le> unat b" by linarith
  then show ?thesis
  proof cases
    case 1
    then have "b = 0" by (simp add: word_unat_eq_iff)
    then show ?thesis using z by (simp add: decimal_eq dig_0 del: parse_number.simps)
  next
    case 2
    then show ?thesis using assms by (simp add: decimal_eq dig_zero scan_end del: scan.simps)
  next
    case 3
    then have a: "unat b div 10 < 10" "unat b div 10 \<noteq> 0" by (simp_all add: less_mult_imp_div_less div_eq_0_iff)
    have "ucast b = (of_nat (unat b div 10 * 10 + unat b mod 10) :: u32)" by (simp only: whole div_mult_mod_eq)
    then have e: "ucast b = (of_nat (unat b div 10) * 10 + of_nat (unat b mod 10) :: u32)"
      by (simp only: of_nat_add of_nat_mult of_nat_numeral)
    show ?thesis unfolding e using 3 a assms by (simp add: decimal_eq dig_zero scan_end del: scan.simps)
  next
    case 4
    then have a: "unat b div 100 \<noteq> 0" by (simp add: div_eq_0_iff)
    have "unat b = (unat b div 100 * 10 + unat b div 10 mod 10) * 10 + unat b mod 10"
      by (simp only: div_mult_mod_eq div_mult2_eq [of "unat b" 10 10, simplified])
    then have "ucast b = (of_nat ((unat b div 100 * 10 + unat b div 10 mod 10) * 10 + unat b mod 10) :: u32)"
      by (simp only: whole)
    then have e: "ucast b =
        ((of_nat (unat b div 100) * 10 + of_nat (unat b div 10 mod 10)) * 10 + of_nat (unat b mod 10) :: u32)"
      by (simp only: of_nat_add of_nat_mult of_nat_numeral)
    show ?thesis unfolding e using 4 a d assms by (simp add: decimal_eq dig_zero scan_end del: scan.simps)
  qed
qed

lemma parse_dotted: "parse_parts [] (dotted a) =
    Some ([ucast (ucast a :: u8), ucast (ucast (drop_bit 8 a) :: u8), ucast (ucast (drop_bit 16 a) :: u8)],
      ucast (ucast (drop_bit 24 a) :: u8), [])"
proof -
  have dot: "parse_parts ps (decimal b @ CHR ''.'' # cs) = parse_parts (ps @ [ucast b]) cs" if "length ps < 3" for ps b cs
    using that by (subst parse_parts.simps) (simp add: parse_decimal ends_number_def)
  have last: "parse_parts ps (decimal b) = Some (ps, ucast b, [])" for ps b
    using parse_decimal [of "[]" b] by (subst parse_parts.simps) (simp add: ends_number_def)
  show ?thesis by (simp add: dotted_def octets_def dot last)
qed

lemma concoct_octets:
  "concoct [ucast (ucast a :: u8), ucast (ucast (drop_bit 8 a) :: u8), ucast (ucast (drop_bit 16 a) :: u8)]
     (ucast (ucast (drop_bit 24 a) :: u8)) = Some (lwip_htonl a)"
proof -
  have le: "(ucast b :: u32) \<le> 0xFF" for b :: u8
  proof -
    have "unat b < 256" by (rule order_less_le_trans [OF unsigned_less]) simp
    then show ?thesis by (simp add: word_le_nat_alt unsigned_ucast_eq take_bit_eq_mod)
  qed
  have m: "(0x000000FF :: u32) = mask 8" "(0x0000FF00 :: u32) = push_bit 8 (mask 8)"
    "(0x00FF0000 :: u32) = push_bit 16 (mask 8)" "(0xFF000000 :: u32) = push_bit 24 (mask 8)"
    by (simp_all add: mask_eq_exp_minus_1 push_bit_eq_mult)
  have "ucast (ucast (drop_bit 24 a) :: u8) OR (push_bit 24 (ucast (ucast a :: u8)) OR
      push_bit 16 (ucast (ucast (drop_bit 8 a) :: u8)) OR push_bit 8 (ucast (ucast (drop_bit 16 a) :: u8))) = lwip_htonl a"
    unfolding lwip_htonl_def m by (rule bit_word_eqI) (auto simp: bit_simps)
  with le show ?thesis by (simp add: concoct_def not_less)
qed

lemma bit_lwip_htonl:
  "i < 32 \<Longrightarrow> bit (lwip_htonl n) i \<longleftrightarrow>
     bit n (if i < 8 then i + 24 else if i < 16 then i + 8 else if i < 24 then i - 8 else i - 24)"
proof -
  have m: "(0x000000FF :: u32) = mask 8" "(0x0000FF00 :: u32) = push_bit 8 (mask 8)"
    "(0x00FF0000 :: u32) = push_bit 16 (mask 8)" "(0xFF000000 :: u32) = push_bit 24 (mask 8)"
    by (simp_all add: mask_eq_exp_minus_1 push_bit_eq_mult)
  assume "i < 32"
  then consider "i < 8" | "8 \<le> i" "i < 16" | "16 \<le> i" "i < 24" | "24 \<le> i" "i < 32" by linarith
  then show ?thesis unfolding lwip_htonl_def m by cases (auto simp: bit_simps add.commute)
qed

lemma lwip_htonl_involutive: "lwip_htonl (lwip_htonl n) = n"
proof (rule bit_word_eqI)
  fix i assume "i < LENGTH(32)"
  then consider "i < 8" | "8 \<le> i" "i < 16" | "16 \<le> i" "i < 24" | "24 \<le> i" "i < 32" by fastforce
  then show "bit (lwip_htonl (lwip_htonl n)) i \<longleftrightarrow> bit n i" by cases (simp_all add: bit_lwip_htonl less_diff_conv2)
qed

lemma aton_dotted: "ip4addr_aton (dotted a) = Some a"
  by (simp add: ip4addr_aton_def parse_dotted concoct_octets lwip_htonl_involutive)

text \<open>
  C32: an address is printed as four decimal octets without leading zeros, separated by dots, exactly if the
  buffer holds this text and its terminating 0, which 16 bytes always do; a smaller buffer gives no string. Parsing
  a printed address gives the address back.
\<close>

theorem printed_address_parses:
  "ip4addr_ntoa_r a n = (if int (length (dotted a)) + 1 \<le> n then Some (dotted a) else None) \<and>
   ip4addr_ntoa a = Some (dotted a) \<and> ip4addr_aton (dotted a) = Some a"
  using dotted_length [of a] by (simp add: ntoa_eq ip4addr_ntoa_def IP4ADDR_STRLEN_MAX_def aton_dotted)

text \<open>
  A number of more than 32 bits is not refused: the code compares only what is left of it after wrap-around, so
  4294967297 is taken for 0.0.0.1.
\<close>

theorem parse_wraps_around: "ip4addr_aton ''4294967297'' = ip4addr_aton ''1'' \<and> ip4addr_aton ''1'' = Some 0x01000000"
  by (simp add: ip4addr_aton_def parse_parts.simps lwip_isdigit_def lwip_in_range_def concoct_def lwip_htonl_def)

section \<open>Netmasks\<close>

lemma only_zeros_bits: "k < 32 \<Longrightarrow> only_zeros nm (2 ^ k) \<longleftrightarrow> (\<forall>i\<le>k. \<not> bit nm i)"
proof (induction k)
  case 0
  have "only_zeros nm 0" by (subst only_zeros.simps) simp
  then show ?case using and_exp_eq_0_iff_not_bit [of nm 0] by (subst only_zeros.simps) simp
next
  case (Suc k)
  then have "(2 :: u32) ^ Suc k \<noteq> 0" "drop_bit 1 ((2 :: u32) ^ Suc k) = 2 ^ k"
    by (simp_all only: exp_eq_zero_iff drop_bit_exp_eq) simp_all
  moreover have "nm AND 2 ^ Suc k = 0 \<longleftrightarrow> \<not> bit nm (Suc k)" by (rule and_exp_eq_0_iff_not_bit)
  ultimately show ?case using Suc by (subst only_zeros.simps) (auto simp: le_Suc_eq)
qed

lemma first_zero_bits:
  "k < 32 \<Longrightarrow> only_zeros nm (first_zero nm (2 ^ k)) \<longleftrightarrow> (\<forall>j\<le>k. \<forall>i<j. bit nm i \<longrightarrow> bit nm j)"
proof (induction k)
  case 0
  have "only_zeros nm 0" "first_zero nm 0 = 0" by (subst only_zeros.simps first_zero.simps; simp)+
  then show ?case using only_zeros_bits [of 0 nm] and_exp_eq_0_iff_not_bit [of nm 0] by (subst first_zero.simps) simp
next
  case (Suc k)
  then have "(2 :: u32) ^ Suc k \<noteq> 0" "drop_bit 1 ((2 :: u32) ^ Suc k) = 2 ^ k"
    by (simp_all only: exp_eq_zero_iff drop_bit_exp_eq) simp_all
  moreover have "nm AND 2 ^ Suc k = 0 \<longleftrightarrow> \<not> bit nm (Suc k)" by (rule and_exp_eq_0_iff_not_bit)
  ultimately have "first_zero nm (2 ^ Suc k) = (if bit nm (Suc k) then first_zero nm (2 ^ k) else 2 ^ Suc k)"
    by (subst first_zero.simps) auto
  moreover have "(\<forall>j\<le>Suc k. \<forall>i<j. bit nm i \<longrightarrow> bit nm j) \<longleftrightarrow>
      (\<forall>j\<le>k. \<forall>i<j. bit nm i \<longrightarrow> bit nm j) \<and> (bit nm (Suc k) \<or> (\<forall>i\<le>k. \<not> bit nm i))"
    by (auto simp: le_Suc_eq less_Suc_eq_le)
  moreover have "(\<forall>i\<le>Suc k. \<not> bit nm i) \<longleftrightarrow> \<not> bit nm (Suc k) \<and> (\<forall>i\<le>k. \<not> bit nm i)" by (auto simp: le_Suc_eq)
  moreover have "\<forall>j\<le>k. \<forall>i<j. bit nm i \<longrightarrow> bit nm j" if "\<forall>i\<le>k. \<not> bit nm i" using that by auto
  ultimately show ?case using Suc only_zeros_bits [OF Suc.prems, of nm] by auto
qed

text \<open>The bits of a word in which no zero stands above a one.\<close>

lemma run_of_ones:
  "(\<forall>j\<le>31. \<forall>i<j. bit m i \<longrightarrow> bit m j) \<longleftrightarrow> (\<exists>k\<le>32. (m :: u32) = NOT (mask k))"
proof
  assume up: "\<forall>j\<le>31. \<forall>i<j. bit m i \<longrightarrow> bit m j"
  show "\<exists>k\<le>32. m = NOT (mask k)"
  proof (cases "m = 0")
    case True
    have "(mask 32 :: u32) = - 1" by (simp add: mask_eq_exp_minus_1)
    with True show ?thesis by (intro exI [of _ 32]) simp
  next
    case False
    define k where "k = (LEAST i. bit m i)"
    obtain i where "bit m i" using False by (auto simp: bit_eq_iff)
    then have k: "bit m k" "\<And>i. i < k \<Longrightarrow> \<not> bit m i" unfolding k_def by (auto intro: LeastI dest: not_less_Least)
    have "k < 32" using bit_imp_le_length [OF k(1)] by simp
    moreover have "m = NOT (mask k)"
    proof (rule bit_word_eqI)
      fix i assume "i < LENGTH(32)"
      with up k show "bit m i \<longleftrightarrow> bit (NOT (mask k) :: u32) i"
        by (cases i k rule: linorder_cases) (auto simp: bit_simps)
    qed
    ultimately show ?thesis by (intro exI [of _ k]) simp
  qed
qed (auto simp: bit_simps)

text \<open>The valid netmasks are the 33 words that have only ones and then only zeros in network order.\<close>

theorem netmask_valid_runs: "ip4_addr_netmask_valid netmask \<longleftrightarrow> (\<exists>k\<le>32. netmask = lwip_htonl (NOT (mask k)))"
proof -
  have "push_bit 31 (1 :: u32) = 2 ^ 31" by (simp add: push_bit_eq_mult)
  then have "ip4_addr_netmask_valid netmask \<longleftrightarrow> (\<exists>k\<le>32. lwip_htonl netmask = NOT (mask k))"
    unfolding ip4_addr_netmask_valid_def Let_def using first_zero_bits [of 31 "lwip_htonl netmask"] run_of_ones by simp
  then show ?thesis using lwip_htonl_involutive by metis
qed

section \<open>Broadcast addresses\<close>

text \<open>
  On an interface that can broadcast the only broadcast addresses besides 0.0.0.0 and 255.255.255.255 is the
  last address of its network, unless this is its own.
\<close>

theorem broadcast_addresses:
  assumes "netif_flags n AND NETIF_FLAG_BROADCAST \<noteq> 0"
  shows "ip4_addr_isbroadcast_u32 addr n \<longleftrightarrow> addr = 0 \<or> addr = 0xFFFFFFFF \<or>
    addr \<noteq> netif_ip4_addr n \<and> addr = netif_ip4_addr n OR NOT (netif_ip4_netmask n)"
proof -
  let ?own = "netif_ip4_addr n" and ?m = "netif_ip4_netmask n"
  have all: "0xFFFFFFFF AND x = x" for x :: u32
  proof -
    have "(0xFFFFFFFF :: u32) = - 1" by simp
    then show ?thesis by (simp only: and.left_neutral)
  qed
  have "addr = ?own OR NOT ?m" if "addr AND ?m = ?own AND ?m" "addr AND NOT ?m = NOT ?m"
  proof -
    have "addr = (addr AND ?m) OR (addr AND NOT ?m)" by (rule bit_eqI) (auto simp: bit_simps)
    also have "\<dots> = (?own AND ?m) OR NOT ?m" by (simp only: that)
    also have "\<dots> = ?own OR NOT ?m" by (rule bit_eqI) (auto simp: bit_simps)
    finally show ?thesis .
  qed
  moreover have "(?own OR NOT ?m) AND ?m = ?own AND ?m" "(?own OR NOT ?m) AND NOT ?m = NOT ?m"
    by (rule bit_eqI, auto simp: bit_simps)+
  moreover have "NOT addr = 0 \<longleftrightarrow> addr = 0xFFFFFFFF"
  proof -
    have "(0xFFFFFFFF :: u32) = NOT 0" by simp
    then show ?thesis by (metis bit.double_compl)
  qed
  ultimately show ?thesis using assms by (auto simp: ip4_addr_isbroadcast_u32_def ip4_addr_net_eq_def all)
qed

end
