(* ===== verification/Spec2Isabelle.thy ===== *)
theory Spec2Isabelle
  imports Enc_Properties Enc_Registers Board_Properties Rtos_List Rtos_Queue_Properties
    Rtos_Semaphore_Properties Sys_Arch_Properties
    Rtos_Queue_Kernel_Properties Rtos_Stream_Properties Rtos_EventGroup_Properties Rtos_Delete
    Lwip_Checksum_Properties Lwip_Addr_Properties
begin

text \<open>
  A verification library for the telnet server on a PIC32 with an ENC624J600 Ethernet controller.

  The program has four layers. At the bottom are the port libraries of the PIC32
  (src/src/config/default/peripheral). On them main.c (src/src/main.c) implements the hardware
  abstraction layer that the driver of the Ethernet controller (src/src/enc624j600) is written
  against. Beside it stands the FreeRTOS kernel (src/FreeRTOS), of which the queues are also the
  semaphores and mutexes, and on the kernel the system layer of the lwIP stack
  (src/lwIP/sys_arch). The stack itself is not called by the program yet; of its code the checksums
  and the IPv4 addresses are modelled.

  \<^bold>\<open>Conventions.\<close> A C function is a function on explicit state. \<open>None\<close> as a result means that the
  call does not return: a loop that never ends, a failed configASSERT (which spins with interrupts
  off) or a trap. Integers keep their width as words, pointers to data are 32-bit addresses into a
  byte memory or, for the caller's buffers of the driver, functions from offsets to bytes. Loops
  that wait for the hardware or for other tasks are partial functions; where the code promises that
  they end, a termination property states it under the hypothesis that the hardware, or the other
  tasks, keep going.

  \<^bold>\<open>The controller driver.\<close> Enc_Registers: the register map and its consistency. Enc_Hal: the layer
  below the driver as a record of operations, and the locale \<open>enc_hal\<close>, its contract in terms of what
  an analyser would see on the SPI bus. Enc_Access: the instruction primitives, each shown to be one
  frame on the bus. Enc_Driver: PHY access, receive filters, initialisation, transmission and
  reception. Enc_Bus: the bus discipline of all of it, over the contract. Enc_Chip: the documented
  behaviour of the controller as laws on its answers (\<open>enc_chip\<close>, a hypothesis of the properties,
  since the chip is not code). Enc_Init, Enc_Frames: what initialisation, transmission and reception do to
  registers and buffer memory under these laws. Enc_Total: that the functions return. Enc_Sim: a
  concrete slave that keeps the laws, on which the witnesses run the driver. Enc_Properties: the
  properties.

  \<^bold>\<open>The board.\<close> Soc: the registers of the port peripherals as operations of the hardware, with the
  laws the libraries rely on. Plib_Gpio and Plib_Spi: plib_gpio.c and plib_spi2_master.c. Board: the
  functions of main.c, and the proof that they keep the contract \<open>enc_hal\<close>. Board_Properties: the
  properties, among them the composition of the driver with the board.

  \<^bold>\<open>The kernel.\<close> Rtos_Heap: heap_1.c. Rtos_List: list.c on an explicit store of pointers, with rings
  as their abstraction. Rtos_Timeout: the timeout structure of tasks.c, exact across the wrap-around of
  the tick counter. Rtos_Queue: queue.c as it is configured, with the functions of tasks.c it calls
  as a parameter (\<open>kernel\<close>), in which \<open>others\<close> is what other tasks and interrupts do while the caller
  waits. Rtos_Fifo: the invariant of the storage area and its abstraction to a list. Rtos_Transfer:
  each call, waiting or not, as one atomic step on that list. Rtos_Deadline: that calls with a finite
  block time return. Fifo_Interface: the locale \<open>fifo\<close>, the contract of a bounded buffer and its
  consequences. Rtos_Queue_Properties: its interpretation on the queue, and the properties of queues.
  Rtos_Semaphore and Rtos_Semaphore_Properties: counting semaphores and recursive mutexes, the
  latter refining a lock with an owner and a depth. Rtos_Forever: calls that wait without limit.

  \<^bold>\<open>The scheduler.\<close> src/FreeRTOS/tasks.c as FreeRTOSConfig.h configures it: one core, preemption and time
  slices, 5 priorities, the port's optimised selection of the next task. Rtos_Task: the state (the record
  \<open>sched\<close>, with the lists of list.c in the store of Rtos_List), ready lists and ready bits, the tick, the
  context switch, suspending and resuming the scheduler, and the tick and software interrupt of the port.
  Rtos_Task_Api: delays, event lists, suspending tasks, priorities, priority inheritance, queries and missed ticks.
  Rtos_Task_Create: creating tasks on heap_1, starting the scheduler, and what main does with both. A task is
  named by the address of its control block divided by 8; its two list items are \<open>state_item\<close> and
  \<open>event_item\<close>. Rtos_Linked: list operations as changes of where items are. Rtos_Sched, Rtos_Ticks,
  Rtos_Blocking, Rtos_Switch, Rtos_Resume: the invariant of the lists, the ready bits and the wake-up times,
  and what a tick, blocking, a switch and resuming do to them. \<open>remaining s t\<close> is the time task t still
  waits, independent of the two delay lists and the wrap-around of the tick count. Rtos_Steady: the invariant
  between calls (\<open>steady\<close>), among it that a switch is pending or the running task is a ready one of the
  highest priority. Rtos_Events, Rtos_Priorities, Rtos_Boot: that each call keeps it, with what the call does;
  that starting the scheduler establishes it. Rtos_Delete: deleting tasks, whose memory heap_1
  cannot take back. Rtos_Kernel: the kernel as a state machine (\<open>kernel_call\<close>, \<open>perform\<close>, \<open>permitted\<close>,
  \<open>reachable\<close>), whose start states are those main leads to. Rtos_Passing: sequences of steps.
  Rtos_Kernel_Properties: the properties.

  \<^bold>\<open>Queues on the scheduler.\<close> Rtos_Queue_Contract: what queue.c asks of the kernel, as the locale
  \<open>queue_kernel\<close>, and that the calls of a queue stay within it. Rtos_Queue_Kernel: the scheduler as the kernel
  of a queue, and the interpretation of the locale on it. Rtos_Queue_Kernel_Properties: the properties of the
  two together.

  \<^bold>\<open>Notifications and stream buffers.\<close> Rtos_Notify: the task notifications of tasks.c, on the scheduler; a wait
  gives up the processor to a parameter, what the rest of the program does. Rtos_Notify_Properties: what a
  notification and a wait do to the invariant. Rtos_Stream: stream_buffer.c, with the bytes of the storage as a
  list and the wait for data or space on notifications. Rtos_Stream_Bytes: the storage as a ring, the invariant
  \<open>stream_ok\<close>, and the list of the bytes \<open>stored\<close>. Rtos_Stream_Messages: what a write and a read do to that list
  and to the list of messages. Rtos_Stream_Calls: the calls on the scheduler, with the three moments of a send and
  the two of a receive at which other tasks run. Rtos_Stream_Channel: the locale \<open>channel\<close>, what a buffer promises one
  writer and one reader that use no lock. Rtos_Stream_Talk: the calls of interrupts, and sequences of calls (\<open>talk\<close>).
  Rtos_Stream_Contracts: its interpretations, streams as channels of bytes and message buffers as channels of
  messages. Rtos_Stream_Properties: the properties.

  \<^bold>\<open>Event groups.\<close> Rtos_EventGroup: event_groups.c on the scheduler; a group is its bits and the list of the tasks
  that wait for some of them, and what a task asks for is the value of its event item. Rtos_EventGroup_Wake: setting
  bits, by induction over the items the loop has still to visit. Rtos_EventGroup_Wait: going to wait, and what the
  call comes to. Rtos_EventGroup_Properties: the properties.

  \<^bold>\<open>The system layer.\<close> Sys_Arch: sys_arch.c and the critical sections of tasks.c. Sys_Arch_Properties:
  mailboxes as an instance of \<open>fifo\<close>, mutexes, semaphores, timeouts and nested protection.

  \<^bold>\<open>Checksums.\<close> Lwip_Checksum: src/lwIP/core/inet_chksum.c as the processor configures it
  (src/lwIP/sys_arch/arch/cc.h: little endian, algorithm 2), the sum over one buffer at any address, over a chain of
  pbufs, over the first bytes of a chain, and the pseudo header of UDP and TCP. Its lemmas carry the sum through each
  fold and swap of the code; the length bound is the one the code states, 0x20000 bytes for a buffer, of which
  the 16-bit length of a pbuf never needs more than half. Lwip_Checksum_Properties: RFC 1071 as a reference, and
  the properties.

  \<^bold>\<open>Addresses.\<close> Lwip_Addr: src/lwIP/core/ipv4/ip4_addr.c, printing and parsing of IPv4 addresses, netmasks and
  broadcast addresses. Lwip_Addr_Properties: that parsing undoes printing, which buffers are large enough, which
  netmasks are valid, and that parsing accepts numbers that do not fit.

  \<^bold>\<open>Bounds.\<close> No fuel bounds the model: loops are structural, have a measure, or are partial functions whose
  termination is proved where it is claimed. Bounds in the properties are those of the code: 32-bit tick
  counts, 5 priorities, 8184 bytes of heap, at most \<open>2 ^ 32\<close> nested suspensions.

  \<^bold>\<open>Not modelled.\<close> In tasks.c: ending the scheduler, thread local data, statistics and names; the contents of
  stacks, so also the check for their overflow. Timers and co-routines are configured out. Of stream_buffer.c
  and event_groups.c what is configured out: static allocation, callbacks, trace numbers, and calls of interrupts
  that go through the timer task. Of the lwIP stack, which is not called, all but the checksums and the addresses;
  src/src/lwIP_enc624j600_netif.c is commented out as a whole. Of the MIPS port the saving and restoring of
  registers; the start-up code; the printing task of main.c and the UART are console output.
\<close>

end
